(* ===== verification/Prelude.thy ===== *)
theory Prelude
  imports Main "HOL-Library.Code_Target_Nat" "HOL-Library.Word" "HOL-Library.AList"
begin

text \<open>
  Shared vocabulary of the development: machine types of the Rust sources, the byte codecs
  (\<open>to_be_bytes\<close>, \<open>from_be_bytes\<close>, \<open>to_le_bytes\<close>), saturating \<open>usize\<close> arithmetic, the model
  of \<open>std::collections::HashMap\<close> as an association list with its interface locale, and generic
  list lemmas. The collections \<open>bytes_simps\<close> and \<open>hm_simps\<close> gather the facts the component
  theories pass to the simplifier.
\<close>

unbundle bit_operations_syntax

named_theorems bytes_simps \<open>round trips and lengths of the fixed-width byte codecs\<close>
named_theorems hm_simps \<open>laws of the hash map model\<close>

section \<open>Machine types\<close>

type_synonym u8 = "8 word"
type_synonym u16 = "16 word"
type_synonym u32 = "32 word"
type_synonym u64 = "64 word"
type_synonym usize = nat
type_synonym bytes = "u8 list"

text \<open>
  \<open>usize\<close> values are natural numbers; the sources guard the sums that could exceed the 64-bit
  range with \<open>saturating_add\<close>, which is kept.
\<close>

definition usize_max :: nat where
  "usize_max = 18446744073709551615"

definition saturating_add :: "nat \<Rightarrow> nat \<Rightarrow> nat" where
  "saturating_add a b = min (a + b) usize_max"

lemma saturating_add_le_iff:
  "m < usize_max \<Longrightarrow> saturating_add a b \<le> m \<longleftrightarrow> a + b \<le> m"
  by (auto simp: saturating_add_def)

text \<open>The bytes of an ASCII string literal.\<close>

definition ascii :: "string \<Rightarrow> bytes" where
  "ascii s = map (\<lambda>c. word_of_nat (of_char c)) s"

section \<open>Results\<close>

text \<open>Rust's \<open>Result\<close> is a sum whose left side is the error; \<open>rbind\<close> is the \<open>?\<close> operator.\<close>

definition rbind :: "'e + 'a \<Rightarrow> ('a \<Rightarrow> 'e + 'b) \<Rightarrow> 'e + 'b" where
  "rbind m f = (case m of Inl e \<Rightarrow> Inl e | Inr x \<Rightarrow> f x)"

definition ok_or :: "'e \<Rightarrow> 'a option \<Rightarrow> 'e + 'a" where
  "ok_or e x = (case x of None \<Rightarrow> Inl e | Some v \<Rightarrow> Inr v)"

lemma rbind_simps [simp]: "rbind (Inl e) f = Inl e" "rbind (Inr x) f = f x"
  by (simp_all add: rbind_def)

lemma ok_or_simps [simp]: "ok_or e None = Inl e" "ok_or e (Some x) = Inr x"
  by (simp_all add: ok_or_def)

lemma rbind_Inr_iff: "rbind m f = Inr y \<longleftrightarrow> (\<exists>x. m = Inr x \<and> f x = Inr y)"
  by (cases m) auto

lemma rbind_InrE:
  assumes "rbind m f = Inr y"
  obtains x where "m = Inr x" and "f x = Inr y"
  using assms by (auto simp: rbind_Inr_iff)

lemma rbind_cong [fundef_cong]: "m = n \<Longrightarrow> (\<And>x. n = Inr x \<Longrightarrow> f x = g x) \<Longrightarrow> rbind m f = rbind n g"
  by (cases n) auto

section \<open>Fixed-width byte codecs\<close>

definition be16 :: "u16 \<Rightarrow> bytes" where
  "be16 w = [ucast (drop_bit 8 w), ucast w]"

definition be24 :: "u32 \<Rightarrow> bytes" where
  "be24 w = [ucast (drop_bit 16 w), ucast (drop_bit 8 w), ucast w]"

definition be32 :: "u32 \<Rightarrow> bytes" where
  "be32 w = [ucast (drop_bit 24 w), ucast (drop_bit 16 w), ucast (drop_bit 8 w), ucast w]"

definition le32 :: "u32 \<Rightarrow> bytes" where
  "le32 w = [ucast w, ucast (drop_bit 8 w), ucast (drop_bit 16 w), ucast (drop_bit 24 w)]"

definition from_be16 :: "u8 \<Rightarrow> u8 \<Rightarrow> u16" where
  "from_be16 a b = push_bit 8 (ucast a) OR ucast b"

definition from_be24 :: "u8 \<Rightarrow> u8 \<Rightarrow> u8 \<Rightarrow> u32" where
  "from_be24 a b c = push_bit 16 (ucast a) OR push_bit 8 (ucast b) OR ucast c"

definition from_be32 :: "u8 \<Rightarrow> u8 \<Rightarrow> u8 \<Rightarrow> u8 \<Rightarrow> u32" where
  "from_be32 a b c d =
     push_bit 24 (ucast a) OR push_bit 16 (ucast b) OR push_bit 8 (ucast c) OR ucast d"

text \<open>
  \<open>ReadBytesExt\<close> on a byte cursor: the value and the rest, \<open>None\<close> for an unexpected end of input.
\<close>

fun read_u8 :: "bytes \<Rightarrow> (u8 \<times> bytes) option" where
  "read_u8 (a # rest) = Some (a, rest)"
| "read_u8 _ = None"

fun read_u16 :: "bytes \<Rightarrow> (u16 \<times> bytes) option" where
  "read_u16 (a # b # rest) = Some (from_be16 a b, rest)"
| "read_u16 _ = None"

fun read_u32 :: "bytes \<Rightarrow> (u32 \<times> bytes) option" where
  "read_u32 (a # b # c # d # rest) = Some (from_be32 a b c d, rest)"
| "read_u32 _ = None"

lemma length_codecs [simp]:
  "length (be16 v) = 2" "length (be24 w) = 3" "length (be32 w) = 4" "length (le32 w) = 4"
  by (simp_all add: be16_def be24_def be32_def le32_def)

lemma bit_u32_ucast8:
  "bit (ucast (w :: u32) :: u8) n \<longleftrightarrow> n < 8 \<and> bit w n"
  by (simp add: bit_simps)

lemma from_be32_bytes [bytes_simps]:
  "from_be32 (ucast (drop_bit 24 w)) (ucast (drop_bit 16 w)) (ucast (drop_bit 8 w)) (ucast w) = w"
proof (rule bit_word_eqI)
  fix n
  assume "n < LENGTH(32)"
  then have "n < 32" by simp
  then consider "n < 8" | "8 \<le> n" "n < 16" | "16 \<le> n" "n < 24" | "24 \<le> n" "n < 32"
    by linarith
  then show "bit (from_be32 (ucast (drop_bit 24 w)) (ucast (drop_bit 16 w))
      (ucast (drop_bit 8 w)) (ucast w)) n = bit w n"
    by cases (auto simp: from_be32_def bit_simps)
qed

lemma from_be16_bytes [bytes_simps]:
  "from_be16 (ucast (drop_bit 8 w)) (ucast w) = w"
proof (rule bit_word_eqI)
  fix n
  assume "n < LENGTH(16)"
  then have "n < 16" by simp
  then consider "n < 8" | "8 \<le> n" "n < 16"
    by linarith
  then show "bit (from_be16 (ucast (drop_bit 8 w)) (ucast w)) n = bit w n"
    by cases (auto simp: from_be16_def bit_simps)
qed

lemma from_be24_bytes [bytes_simps]:
  "from_be24 (ucast (drop_bit 16 w)) (ucast (drop_bit 8 w)) (ucast w) = take_bit 24 w"
proof (rule bit_word_eqI)
  fix n
  assume "n < LENGTH(32)"
  then have "n < 32" by simp
  then consider "n < 8" | "8 \<le> n" "n < 16" | "16 \<le> n" "n < 24" | "24 \<le> n" "n < 32"
    by linarith
  then show "bit (from_be24 (ucast (drop_bit 16 w)) (ucast (drop_bit 8 w)) (ucast w)) n
      = bit (take_bit 24 w) n"
    by cases (auto simp: from_be24_def bit_simps)
qed

lemma read_be16 [simp]: "read_u16 (be16 w @ rest) = Some (w, rest)" "read_u16 (be16 w) = Some (w, [])"
  by (simp_all add: be16_def from_be16_bytes)

lemma read_be32 [simp]: "read_u32 (be32 w @ rest) = Some (w, rest)" "read_u32 (be32 w) = Some (w, [])"
  by (simp_all add: be32_def from_be32_bytes)

lemma take_bit24_small:
  assumes "unat (w :: u32) < 2 ^ 24"
  shows "take_bit 24 w = w"
  using assms by (intro word_unat_eq_iff [THEN iffD2]) (simp add: unsigned_take_bit_eq take_bit_nat_eq_self)

lemma be24_eq: "be24 w = tl (be32 w)"
  by (simp add: be24_def be32_def)

lemma le32_rev: "le32 w = rev (be32 w)"
  by (simp add: le32_def be32_def)

lemma unat_from_be24_less: "unat (from_be24 a b c) < 2 ^ 24"
proof -
  have "take_bit 24 (from_be24 a b c) = from_be24 a b c"
    by (rule bit_word_eqI) (auto simp: from_be24_def bit_simps dest: bit_imp_le_length)
  then have "unat (from_be24 a b c) = take_bit 24 (unat (from_be24 a b c))"
    by (metis unsigned_take_bit_eq)
  also have "\<dots> < 2 ^ 24"
    by (rule take_bit_nat_less_exp)
  finally show ?thesis .
qed

section \<open>Hash maps\<close>

text \<open>
  \<open>HashMap\<close> is an association list with distinct keys. Iteration order is only observed through
  order-insensitive operations (\<open>len\<close>, \<open>all\<close>, \<open>filter(..).count()\<close>), so the list order is
  immaterial; the interface locale states exactly the laws the clients may use.
\<close>

type_synonym ('k, 'v) hash_map = "('k \<times> 'v) list"

definition hm_get :: "('k, 'v) hash_map \<Rightarrow> 'k \<Rightarrow> 'v option" where
  "hm_get m k = map_of m k"

definition hm_insert :: "'k \<Rightarrow> 'v \<Rightarrow> ('k, 'v) hash_map \<Rightarrow> ('k, 'v) hash_map" where
  "hm_insert k v m = AList.update k v m"

definition hm_remove :: "'k \<Rightarrow> ('k, 'v) hash_map \<Rightarrow> ('k, 'v) hash_map" where
  "hm_remove k m = AList.delete k m"

definition hm_len :: "('k, 'v) hash_map \<Rightarrow> nat" where
  "hm_len m = length m"

definition hm_values :: "('k, 'v) hash_map \<Rightarrow> 'v list" where
  "hm_values m = map snd m"

definition hm_wf :: "('k, 'v) hash_map \<Rightarrow> bool" where
  "hm_wf m \<longleftrightarrow> distinct (map fst m)"

locale finite_map =
  fixes get :: "'m \<Rightarrow> 'k \<Rightarrow> 'v option"
    and ins :: "'k \<Rightarrow> 'v \<Rightarrow> 'm \<Rightarrow> 'm"
    and rem :: "'k \<Rightarrow> 'm \<Rightarrow> 'm"
    and vals :: "'m \<Rightarrow> 'v list"
    and size_of :: "'m \<Rightarrow> nat"
    and wf :: "'m \<Rightarrow> bool"
  assumes get_ins: "get (ins k v m) = (get m)(k \<mapsto> v)"
    and get_rem: "wf m \<Longrightarrow> get (rem k m) = (get m)(k := None)"
    and wf_ins: "wf m \<Longrightarrow> wf (ins k v m)"
    and wf_rem: "wf m \<Longrightarrow> wf (rem k m)"
    and finite_dom: "finite (dom (get m))"
    and size_card: "wf m \<Longrightarrow> size_of m = card (dom (get m))"
    and count_card: "wf m \<Longrightarrow> length (filter P (vals m)) = card {k. \<exists>v. get m k = Some v \<and> P v}"
begin

lemma size_ins: "wf m \<Longrightarrow> size_of (ins k v m) = (if get m k = None then Suc (size_of m) else size_of m)"
  by (auto simp: size_card wf_ins get_ins card_insert_if finite_dom domIff)

lemma size_ins_le: "wf m \<Longrightarrow> size_of (ins k v m) \<le> Suc (size_of m)"
  by (simp add: size_ins)

lemma count_zero: "wf m \<Longrightarrow> length (filter P (vals m)) = 0 \<longleftrightarrow> (\<forall>k v. get m k = Some v \<longrightarrow> \<not> P v)"
proof -
  assume "wf m"
  have "finite {k. \<exists>v. get m k = Some v \<and> P v}"
    by (rule finite_subset [OF _ finite_dom [of m]]) auto
  then show ?thesis
    using count_card [OF \<open>wf m\<close>, of P] by auto
qed

lemma count_ins_le:
  assumes "wf m"
  shows "length (filter P (vals (ins k v m))) \<le> Suc (length (filter P (vals m)))"
proof -
  let ?A = "\<lambda>m. {k. \<exists>v. get m k = Some v \<and> P v}"
  have fin: "finite (?A m)"
    by (rule finite_subset [OF _ finite_dom [of m]]) auto
  have "?A (ins k v m) \<subseteq> insert k (?A m)"
    by (auto simp: get_ins split: if_splits)
  then have "card (?A (ins k v m)) \<le> card (insert k (?A m))"
    using fin by (intro card_mono) auto
  also have "\<dots> \<le> Suc (card (?A m))"
    by (simp add: card_insert_if fin)
  finally show ?thesis
    using assms by (simp add: count_card wf_ins)
qed

lemma count_ins_not:
  assumes "wf m" and "\<not> P v"
  shows "length (filter P (vals (ins k v m))) \<le> length (filter P (vals m))"
proof -
  let ?A = "\<lambda>m. {k. \<exists>v. get m k = Some v \<and> P v}"
  have fin: "finite (?A m)"
    by (rule finite_subset [OF _ finite_dom [of m]]) auto
  have "?A (ins k v m) \<subseteq> ?A m"
    using assms(2) by (auto simp: get_ins split: if_splits)
  then show ?thesis
    using assms(1) fin by (simp add: count_card wf_ins card_mono)
qed

lemma count_deactivate:
  assumes "wf m" and "get m k = Some w" and "P w" and "\<not> P v"
  shows "length (filter P (vals (ins k v m))) < length (filter P (vals m))"
proof -
  let ?A = "\<lambda>m. {k. \<exists>v. get m k = Some v \<and> P v}"
  have fin: "finite (?A m)"
    by (rule finite_subset [OF _ finite_dom [of m]]) auto
  have "?A (ins k v m) \<subset> ?A m"
    using assms(2-4) by (auto simp: get_ins split: if_splits)
  then show ?thesis
    using assms(1) fin by (simp add: count_card wf_ins psubset_card_mono)
qed

lemma count_ins_same:
  assumes "wf m" and "get m k = Some w" and "P w"
  shows "length (filter P (vals (ins k v m))) \<le> length (filter P (vals m))"
proof -
  let ?A = "\<lambda>m. {k. \<exists>v. get m k = Some v \<and> P v}"
  have fin: "finite (?A m)"
    by (rule finite_subset [OF _ finite_dom [of m]]) auto
  have "?A (ins k v m) \<subseteq> ?A m"
    using assms(2,3) by (auto simp: get_ins split: if_splits)
  then show ?thesis
    using assms(1) fin by (simp add: count_card wf_ins card_mono)
qed

end

lemma filter_values_card:
  "distinct (map fst m) \<Longrightarrow>
   length (filter P (map snd m)) = card {k. \<exists>v. map_of m k = Some v \<and> P v}"
proof (induction m)
  case Nil
  then show ?case by simp
next
  case (Cons a m)
  obtain k v where a: "a = (k, v)" by (cases a)
  let ?B = "{k. \<exists>v. map_of m k = Some v \<and> P v}"
  have k: "map_of m k = None"
    using Cons.prems a by (simp add: map_of_eq_None_iff)
  have fin: "finite ?B"
    by (rule finite_subset [OF _ finite_dom_map_of [of m]]) auto
  have "{k'. \<exists>v'. map_of (a # m) k' = Some v' \<and> P v'} = (if P v then insert k ?B else ?B)"
    using k a by auto
  moreover have "k \<notin> ?B"
    using k by simp
  ultimately show ?case
    using Cons a fin by simp
qed

interpretation hm: finite_map hm_get hm_insert hm_remove hm_values hm_len hm_wf
proof unfold_locales
  fix k :: 'k and v :: 'v and m :: "('k, 'v) hash_map" and P :: "'v \<Rightarrow> bool"
  show "hm_get (hm_insert k v m) = (hm_get m)(k \<mapsto> v)"
    by (rule ext) (simp add: hm_get_def hm_insert_def update_conv')
  show "finite (dom (hm_get m))"
    by (rule finite_subset [OF _ finite_dom_map_of [of m]]) (auto simp: hm_get_def)
  assume wf: "hm_wf m"
  show "hm_get (hm_remove k m) = (hm_get m)(k := None)"
    by (rule ext) (simp add: hm_get_def hm_remove_def delete_conv')
  show "hm_wf (hm_insert k v m)"
    using wf by (simp add: hm_wf_def hm_insert_def distinct_update)
  show "hm_wf (hm_remove k m)"
    using wf by (simp add: hm_wf_def hm_remove_def distinct_delete)
  show "hm_len m = card (dom (hm_get m))"
  proof -
    have "dom (hm_get m) = set (map fst m)"
      by (auto simp: dom_def hm_get_def map_of_eq_None_iff dest: map_of_SomeD
          intro: weak_map_of_SomeI)
    then show ?thesis
      using wf distinct_card [of "map fst m"] by (simp add: hm_len_def hm_wf_def)
  qed
  show "length (filter P (hm_values m)) = card {k. \<exists>v. hm_get m k = Some v \<and> P v}"
    using wf unfolding hm_values_def hm_get_def hm_wf_def by (rule filter_values_card)
qed

lemma hm_get_Nil [simp]: "hm_get [] k = None"
  by (simp add: hm_get_def)

lemma hm_wf_Nil [simp]: "hm_wf []"
  by (simp add: hm_wf_def)

lemma hm_get_insert [hm_simps, simp]: "hm_get (hm_insert k v m) j = (if j = k then Some v else hm_get m j)"
  by (simp add: hm.get_ins)

lemma hm_get_remove [hm_simps, simp]: "hm_get (hm_remove k m) j = (if j = k then None else hm_get m j)"
  by (simp add: hm_get_def hm_remove_def delete_conv')

lemma hm_wf_insert [hm_simps, simp]: "hm_wf m \<Longrightarrow> hm_wf (hm_insert k v m)"
  by (rule hm.wf_ins)

lemma hm_wf_remove [hm_simps, simp]: "hm_wf m \<Longrightarrow> hm_wf (hm_remove k m)"
  by (rule hm.wf_rem)

text \<open>Totals over the values of a map.\<close>

definition hm_sum :: "('v \<Rightarrow> nat) \<Rightarrow> ('k, 'v) hash_map \<Rightarrow> nat" where
  "hm_sum f m = sum_list (map f (hm_values m))"

lemma hm_sum_Nil [simp]: "hm_sum f [] = 0"
  by (simp add: hm_sum_def hm_values_def)

lemma hm_sum_insert_new: "hm_get m k = None \<Longrightarrow> hm_sum f (hm_insert k v m) = hm_sum f m + f v"
  by (induction m) (auto simp: hm_sum_def hm_values_def hm_get_def hm_insert_def split: if_splits)

lemma hm_sum_insert_same: "hm_get m k = Some w \<Longrightarrow> hm_sum f (hm_insert k v m) + f w = hm_sum f m + f v"
  by (induction m) (auto simp: hm_sum_def hm_values_def hm_get_def hm_insert_def split: if_splits)

lemma hm_sum_remove: "hm_wf m \<Longrightarrow> hm_get m k = Some w \<Longrightarrow> hm_sum f (hm_remove k m) + f w = hm_sum f m"
proof (induction m)
  case (Cons a m)
  have "AList.delete k m = m" if "k \<notin> fst ` set m"
    using that by (force simp: AList.delete_eq filter_id_conv)
  then show ?case
    using Cons by (cases a)
      (auto simp: hm_sum_def hm_values_def hm_get_def hm_remove_def hm_wf_def AList.delete_eq split: if_splits)
qed (simp add: hm_get_def)

lemma hm_sum_get_le: "hm_get m k = Some w \<Longrightarrow> f w \<le> hm_sum f m"
  by (induction m) (auto simp: hm_sum_def hm_values_def hm_get_def split: if_splits)

lemma hm_len_remove_le: "hm_len (hm_remove k m) \<le> hm_len m"
  by (simp add: hm_len_def hm_remove_def length_delete_le)

end
