(* ===== verification/Payload.thy ===== *)
theory Payload
  imports Prelude
begin

text \<open>
  Segmented message bodies, \<open>src/src/payload.rs\<close>. The trait \<open>Segments\<close> is a record of its three
  required methods, passed to the generic code the way the compiler passes a dictionary; its
  documented contract is the locale \<open>segments\<close>, interpreted for byte slices, for \<open>Payload\<close> and for
  \<open>PayloadView\<close>. Indexing a segment that does not exist panics in the code; \<open>segment\<close> therefore
  returns an option, and the contract says for which indices it is \<open>Some\<close>.
\<close>

section \<open>The trait Segments\<close>

record 'p segments_ops =
  seg_len :: "'p \<Rightarrow> nat"
  seg_count :: "'p \<Rightarrow> nat"
  seg_at :: "'p \<Rightarrow> nat \<Rightarrow> bytes option"

definition seg_is_empty :: "'p segments_ops \<Rightarrow> 'p \<Rightarrow> bool" where
  "seg_is_empty ops p \<longleftrightarrow> seg_len ops p = 0"

text \<open>\<open>impl Segments for [u8]\<close>; the impls for \<open>Bytes\<close>, \<open>Vec<u8>\<close>, \<open>[u8; N]\<close> delegate to it.\<close>

definition slice_len :: "bytes \<Rightarrow> nat" where
  "slice_len b = length b"

definition slice_segment_count :: "bytes \<Rightarrow> nat" where
  "slice_segment_count b = of_bool (b \<noteq> [])"

definition slice_segment :: "bytes \<Rightarrow> nat \<Rightarrow> bytes option" where
  "slice_segment b index = (if index = 0 \<and> b \<noteq> [] then Some b else None)"

definition slice_ops :: "bytes segments_ops" where
  "slice_ops = \<lparr>seg_len = slice_len, seg_count = slice_segment_count, seg_at = slice_segment\<rparr>"

section \<open>Payload\<close>

text \<open>
  The first segment is inline, later segments are descriptors in \<open>rest\<close>. The optional pool only
  recycles the capacity of \<open>rest\<close> and is modelled with the pool below; \<open>Bytes\<close> is its contents.
\<close>

record payload =
  pl_first :: bytes
  pl_rest :: "bytes list"
  pl_len :: nat

definition payload_new :: payload where
  "payload_new = \<lparr>pl_first = [], pl_rest = [], pl_len = 0\<rparr>"

text \<open>\<open>push\<close> panics when the length leaves the range of \<open>usize\<close> (\<open>None\<close>).\<close>

definition payload_push :: "payload \<Rightarrow> bytes \<Rightarrow> payload option" where
  "payload_push p b =
     (if b = [] then Some p
      else if pl_len p + length b > usize_max then None
      else let p' = p\<lparr>pl_len := pl_len p + length b\<rparr>
           in Some (if pl_first p' = [] then p'\<lparr>pl_first := b\<rparr>
                    else p'\<lparr>pl_rest := pl_rest p' @ [b]\<rparr>))"

definition payload_len :: "payload \<Rightarrow> nat" where
  "payload_len p = pl_len p"

definition payload_is_empty :: "payload \<Rightarrow> bool" where
  "payload_is_empty p \<longleftrightarrow> pl_len p = 0"

definition payload_segments :: "payload \<Rightarrow> bytes list" where
  "payload_segments p = filter (\<lambda>b. b \<noteq> []) [pl_first p] @ pl_rest p"

definition payload_as_contiguous :: "payload \<Rightarrow> bytes option" where
  "payload_as_contiguous p = (if pl_rest p = [] then Some (pl_first p) else None)"

definition payload_into_bytes :: "payload \<Rightarrow> bytes" where
  "payload_into_bytes p =
     (if pl_rest p = [] then pl_first p
      else fold (\<lambda>b output. output @ b) (payload_segments p) [])"

definition payload_to_bytes :: "payload \<Rightarrow> bytes" where
  "payload_to_bytes p =
     (case payload_as_contiguous p of
        Some b \<Rightarrow> b
      | None \<Rightarrow> fold (\<lambda>b output. output @ b) (payload_segments p) [])"

definition payload_from_bytes :: "bytes \<Rightarrow> payload" where
  "payload_from_bytes first = \<lparr>pl_first = first, pl_rest = [], pl_len = length first\<rparr>"

fun payload_push_all :: "payload \<Rightarrow> bytes list \<Rightarrow> payload option" where
  "payload_push_all out [] = Some out"
| "payload_push_all out (b # items) =
     (case payload_push out b of None \<Rightarrow> None | Some out' \<Rightarrow> payload_push_all out' items)"

definition payload_from_iter :: "bytes list \<Rightarrow> payload option" where
  "payload_from_iter items = payload_push_all payload_new items"

definition payload_segment_count :: "payload \<Rightarrow> nat" where
  "payload_segment_count p = of_bool (pl_first p \<noteq> []) + length (pl_rest p)"

definition payload_segment :: "payload \<Rightarrow> nat \<Rightarrow> bytes option" where
  "payload_segment p index =
     (if index = 0 then Some (pl_first p)
      else if index - 1 < length (pl_rest p) then Some (pl_rest p ! (index - 1)) else None)"

definition payload_eq :: "payload \<Rightarrow> payload \<Rightarrow> bool" where
  "payload_eq p other \<longleftrightarrow> pl_len p = pl_len other
     \<and> concat (payload_segments p) = concat (payload_segments other)"

definition payload_ops :: "payload segments_ops" where
  "payload_ops = \<lparr>seg_len = payload_len, seg_count = payload_segment_count, seg_at = payload_segment\<rparr>"

text \<open>The representation invariant: no empty descriptor, and the cached length is right.\<close>

definition payload_wf :: "payload \<Rightarrow> bool" where
  "payload_wf p \<longleftrightarrow> [] \<notin> set (pl_rest p) \<and> (pl_first p = [] \<longrightarrow> pl_rest p = [])
     \<and> pl_len p = length (pl_first p) + length (concat (pl_rest p))"

definition payload_contents :: "payload \<Rightarrow> bytes" where
  "payload_contents p = pl_first p @ concat (pl_rest p)"

section \<open>PayloadReader\<close>

record 'p payload_reader =
  rd_payload :: 'p
  rd_segment :: nat
  rd_offset :: nat
  rd_remaining :: nat

definition reader_new :: "'p segments_ops \<Rightarrow> 'p \<Rightarrow> 'p payload_reader" where
  "reader_new ops p = \<lparr>rd_payload = p, rd_segment = 0, rd_offset = 0, rd_remaining = seg_len ops p\<rparr>"

text \<open>
  \<open>read\<close> into an output buffer of \<open>cap\<close> bytes: the new reader and the bytes written to the front
  of the buffer; \<open>None\<close> where the code panics.
\<close>

definition reader_read ::
    "'p segments_ops \<Rightarrow> 'p payload_reader \<Rightarrow> nat \<Rightarrow> ('p payload_reader \<times> bytes) option" where
  "reader_read ops r cap =
     (if rd_remaining r = 0 \<or> cap = 0 then Some (r, [])
      else case seg_at ops (rd_payload r) (rd_segment r) of
        None \<Rightarrow> None
      | Some segment \<Rightarrow>
          if length segment < rd_offset r then None
          else
            let n = min cap (length segment - rd_offset r);
                out = take n (drop (rd_offset r) segment);
                offset = rd_offset r + n;
                r' = r\<lparr>rd_offset := offset, rd_remaining := rd_remaining r - n\<rparr>
            in Some (if offset = length segment
                     then r'\<lparr>rd_segment := rd_segment r + 1, rd_offset := 0\<rparr> else r', out))"

text \<open>
  \<open>std::io::Read::read_exact\<close> over the reader: it calls \<open>read\<close> until the buffer is full and fails
  with \<open>UnexpectedEof\<close> (\<open>Inl ()\<close>) when \<open>read\<close> returns no byte.
\<close>

function read_exact ::
    "'p segments_ops \<Rightarrow> 'p payload_reader \<Rightarrow> nat \<Rightarrow> (unit + 'p payload_reader \<times> bytes) option" where
  "read_exact ops r n =
     (if n = 0 then Some (Inr (r, []))
      else case reader_read ops r n of
        None \<Rightarrow> None
      | Some (r', out) \<Rightarrow>
          if out = [] then Some (Inl ())
          else case read_exact ops r' (n - length out) of
              None \<Rightarrow> None
            | Some (Inl e) \<Rightarrow> Some (Inl e)
            | Some (Inr (r'', out')) \<Rightarrow> Some (Inr (r'', out @ out')))"
  by pat_completeness auto
termination
  by (relation "measure (\<lambda>(ops, r, n). n)") auto

declare read_exact.simps [simp del]

section \<open>PayloadView\<close>

record 'p payload_view =
  pv_source :: 'p
  pv_first :: nat
  pv_offset :: nat
  pv_last :: nat
  pv_last_end :: nat
  pv_len :: nat

definition view_new :: "'p segments_ops \<Rightarrow> 'p \<Rightarrow> 'p payload_view option" where
  "view_new ops source =
     (let last_seg = seg_count ops source - 1;
          v = \<lparr>pv_source = source, pv_first = 0, pv_offset = 0, pv_last = last_seg,
               pv_last_end = 0, pv_len = seg_len ops source\<rparr>
      in if seg_is_empty ops source then Some v
         else case seg_at ops source last_seg of
             None \<Rightarrow> None
           | Some s \<Rightarrow> Some (v\<lparr>pv_last_end := length s\<rparr>))"

text \<open>
  The two loops of \<open>slice\<close>. They stop at a panic (a segment out of range, a negative difference)
  with \<open>None\<close>; that they return is part of the theorem about \<open>view_slice\<close>.
\<close>

partial_function (option) view_skip ::
    "'p segments_ops \<Rightarrow> 'p \<Rightarrow> nat \<Rightarrow> nat \<Rightarrow> nat \<Rightarrow> (nat \<times> nat) option" where
  "view_skip ops source skip first offset =
     (if skip = 0 then Some (first, offset)
      else case seg_at ops source first of
          None \<Rightarrow> None
        | Some s \<Rightarrow>
            if length s < offset then None
            else let available = length s - offset
                 in if skip < available then Some (first, offset + skip)
                    else view_skip ops source (skip - available) (first + 1) 0)"

partial_function (option) view_find_end ::
    "'p segments_ops \<Rightarrow> 'p \<Rightarrow> nat \<Rightarrow> nat \<Rightarrow> nat \<Rightarrow> (nat \<times> nat) option" where
  "view_find_end ops source remaining last_seg offset =
     (case seg_at ops source last_seg of
        None \<Rightarrow> None
      | Some s \<Rightarrow>
          if length s < offset then None
          else let available = length s - offset
               in if remaining \<le> available then Some (last_seg, offset + remaining)
                  else view_find_end ops source (remaining - available) (last_seg + 1) 0)"

definition view_slice ::
    "'p segments_ops \<Rightarrow> 'p payload_view \<Rightarrow> nat \<Rightarrow> nat \<Rightarrow> 'p payload_view option" where
  "view_slice ops v start stop =
     (if \<not> (start \<le> stop \<and> stop \<le> pv_len v) then None
      else if start = stop then Some (v\<lparr>pv_len := 0\<rparr>)
      else case view_skip ops (pv_source v) start (pv_first v) (pv_offset v) of
          None \<Rightarrow> None
        | Some (first, offset) \<Rightarrow>
            let out = v\<lparr>pv_first := first, pv_offset := offset, pv_len := stop - start\<rparr>
            in if stop \<noteq> pv_len v
               then case view_find_end ops (pv_source v) (pv_len out) first offset of
                   None \<Rightarrow> None
                 | Some (last_seg, last_end) \<Rightarrow> Some (out\<lparr>pv_last := last_seg, pv_last_end := last_end\<rparr>)
               else Some out)"

definition view_len :: "'p payload_view \<Rightarrow> nat" where
  "view_len v = pv_len v"

definition view_segment_count :: "'p payload_view \<Rightarrow> nat" where
  "view_segment_count v = (if pv_len v = 0 then 0 else pv_last v - pv_first v + 1)"

definition view_segment :: "'p segments_ops \<Rightarrow> 'p payload_view \<Rightarrow> nat \<Rightarrow> bytes option" where
  "view_segment ops v index =
     (if \<not> index < view_segment_count v then None
      else let absolute = pv_first v + index
           in case seg_at ops (pv_source v) absolute of
               None \<Rightarrow> None
             | Some b \<Rightarrow>
                 let start = (if index = 0 then pv_offset v else 0);
                     stop = (if absolute = pv_last v then pv_last_end v else length b)
                 in if start \<le> stop \<and> stop \<le> length b
                    then Some (take (stop - start) (drop start b)) else None)"

definition view_ops :: "'p segments_ops \<Rightarrow> 'p payload_view segments_ops" where
  "view_ops ops = \<lparr>seg_len = view_len, seg_count = view_segment_count, seg_at = view_segment ops\<rparr>"

section \<open>PayloadPool\<close>

text \<open>
  The shared cache of empty descriptor vectors; of a cached vector only its capacity matters. The
  flag says whether \<open>Mutex::lock\<close> succeeded (a poisoned lock gives no cache).
\<close>

record payload_pool =
  pp_cached :: "nat list"
  pp_maximum_cached_payloads :: nat
  pp_maximum_segments_per_payload :: nat

record payload_pool_config =
  max_cached_payloads :: nat
  max_descriptors_per_payload :: nat

definition pool_config_default :: payload_pool_config where
  "pool_config_default = \<lparr>max_cached_payloads = 16, max_descriptors_per_payload = 4096\<rparr>"

definition pool_new :: "payload_pool_config \<Rightarrow> payload_pool" where
  "pool_new config =
     \<lparr>pp_cached = [], pp_maximum_cached_payloads = max_cached_payloads config,
      pp_maximum_segments_per_payload = max_descriptors_per_payload config\<rparr>"

text \<open>\<open>acquire\<close>: the pool afterwards, the capacity of the vector handed out, and the payload.\<close>

definition pool_acquire :: "bool \<Rightarrow> payload_pool \<Rightarrow> payload_pool \<times> nat \<times> payload" where
  "pool_acquire locked pool =
     (if locked \<and> pp_cached pool \<noteq> []
      then (pool\<lparr>pp_cached := butlast (pp_cached pool)\<rparr>, last (pp_cached pool), payload_new)
      else (pool, 0, payload_new))"

text \<open>\<open>Drop for Payload\<close> with a pool, for a descriptor vector of the given capacity.\<close>

definition pool_release :: "bool \<Rightarrow> nat \<Rightarrow> payload_pool \<Rightarrow> payload_pool" where
  "pool_release locked capacity pool =
     (if capacity = 0 then pool
      else if capacity \<le> pp_maximum_segments_per_payload pool \<and> locked
        \<and> length (pp_cached pool) < pp_maximum_cached_payloads pool
      then pool\<lparr>pp_cached := pp_cached pool @ [capacity]\<rparr> else pool)"

section \<open>The contract of Segments\<close>

text \<open>
  What the documentation of the trait promises: the length is the sum of the segment lengths,
  indices below \<open>segment_count\<close> are valid and their segments nonempty.
\<close>

locale segments =
  fixes ops :: "'p segments_ops"
    and wf :: "'p \<Rightarrow> bool"
    and contents :: "'p \<Rightarrow> bytes"
  assumes at_valid: "wf p \<Longrightarrow> i < seg_count ops p \<Longrightarrow> \<exists>s. seg_at ops p i = Some s \<and> s \<noteq> []"
    and contents_concat: "wf p \<Longrightarrow>
      contents p = concat (map (\<lambda>i. the (seg_at ops p i)) [0..<seg_count ops p])"
    and len_contents: "wf p \<Longrightarrow> seg_len ops p = length (contents p)"

text \<open>Positions in a list of segments.\<close>

definition seg_pos :: "bytes list \<Rightarrow> nat \<Rightarrow> nat \<Rightarrow> nat" where
  "seg_pos S i off = length (concat (take i S)) + off"

lemma seg_pos_Suc: "i < length S \<Longrightarrow> seg_pos S (Suc i) off = seg_pos S i (length (S ! i)) + off"
  by (simp add: seg_pos_def take_Suc_conv_app_nth)

lemma seg_pos_add: "seg_pos S i (off + n) = seg_pos S i off + n"
  by (simp add: seg_pos_def)

lemma seg_pos_le: "i < length S \<Longrightarrow> off \<le> length (S ! i) \<Longrightarrow> seg_pos S i off \<le> length (concat S)"
proof -
  assume i: "i < length S" and off: "off \<le> length (S ! i)"
  have "length (concat S) = length (concat (take (Suc i) S)) + length (concat (drop (Suc i) S))"
    by (metis append_take_drop_id concat_append length_append)
  then show ?thesis
    using i off by (simp add: seg_pos_def take_Suc_conv_app_nth)
qed

lemma seg_pos_mono: "i \<le> j \<Longrightarrow> seg_pos S i 0 \<le> seg_pos S j 0"
proof -
  assume "i \<le> j"
  then have "take j S = take i S @ take (j - i) (drop i S)"
    by (metis le_add_diff_inverse take_add)
  then show ?thesis by (simp add: seg_pos_def)
qed

lemma drop_seg_pos:
  assumes "i < length S" and "off \<le> length (S ! i)"
  shows "drop (seg_pos S i off) (concat S) = drop off (S ! i) @ concat (drop (Suc i) S)"
proof -
  have "S = take i S @ S ! i # drop (Suc i) S"
    using assms(1) by (rule id_take_nth_drop)
  then have "concat S = concat (take i S) @ S ! i @ concat (drop (Suc i) S)"
    by (metis concat.simps(2) concat_append)
  then show ?thesis
    using assms(2) by (simp add: seg_pos_def)
qed

context segments
begin

definition segs :: "'p \<Rightarrow> bytes list" where
  "segs p = map (\<lambda>i. the (seg_at ops p i)) [0..<seg_count ops p]"

lemma length_segs [simp]: "length (segs p) = seg_count ops p"
  by (simp add: segs_def)

lemma concat_segs: "wf p \<Longrightarrow> concat (segs p) = contents p"
  by (simp add: segs_def contents_concat)

lemma seg_at_segs: "wf p \<Longrightarrow> i < seg_count ops p \<Longrightarrow> seg_at ops p i = Some (segs p ! i)"
  using at_valid [of p i] by (auto simp: segs_def)

lemma segs_nonempty: "wf p \<Longrightarrow> i < seg_count ops p \<Longrightarrow> 0 < length (segs p ! i)"
  using at_valid [of p i] by (auto simp: segs_def)

lemma empty_iff: "wf p \<Longrightarrow> seg_is_empty ops p \<longleftrightarrow> seg_count ops p = 0"
proof -
  assume wf: "wf p"
  show ?thesis
  proof (cases "seg_count ops p = 0")
    case True
    then show ?thesis
      using wf by (simp add: seg_is_empty_def len_contents contents_concat)
  next
    case False
    then have "seg_pos (segs p) 0 (length (segs p ! 0)) \<le> length (contents p)"
      using wf by (metis concat_segs le_refl length_segs neq0_conv seg_pos_le)
    then show ?thesis
      using False segs_nonempty [OF wf, of 0]
      by (cases "contents p") (simp_all add: seg_is_empty_def len_contents wf seg_pos_def)
  qed
qed

lemma pos_lt_count: "wf p \<Longrightarrow> seg_pos (segs p) i 0 < length (contents p) \<Longrightarrow> i < seg_count ops p"
  by (rule ccontr) (simp add: seg_pos_def concat_segs)

text \<open>The bytes a reader has not delivered yet, and its invariant.\<close>

definition reader_rest :: "'p payload_reader \<Rightarrow> bytes" where
  "reader_rest r = drop (seg_pos (segs (rd_payload r)) (rd_segment r) (rd_offset r)) (contents (rd_payload r))"

definition reader_wf :: "'p payload_reader \<Rightarrow> bool" where
  "reader_wf r \<longleftrightarrow> wf (rd_payload r) \<and> rd_remaining r = length (reader_rest r)
     \<and> (rd_remaining r = 0 \<or> rd_segment r < seg_count ops (rd_payload r)
          \<and> rd_offset r < length (segs (rd_payload r) ! rd_segment r))"

lemma reader_new_wf: "wf p \<Longrightarrow> reader_wf (reader_new ops p) \<and> reader_rest (reader_new ops p) = contents p"
  using segs_nonempty [of p 0] empty_iff [of p]
  by (auto simp: reader_new_def reader_wf_def reader_rest_def seg_pos_def len_contents seg_is_empty_def)

lemma reader_read_spec:
  assumes wf: "reader_wf r" and cap: "0 < cap" and rem: "0 < rd_remaining r"
  shows "\<exists>r' out. reader_read ops r cap = Some (r', out) \<and> reader_wf r' \<and> out \<noteq> []
    \<and> length out \<le> cap \<and> reader_rest r = out @ reader_rest r' \<and> rd_payload r' = rd_payload r"
proof -
  let ?p = "rd_payload r" and ?i = "rd_segment r" and ?o = "rd_offset r"
  let ?S = "segs ?p"
  from wf rem have p: "wf ?p" and i: "?i < seg_count ops ?p" and o: "?o < length (?S ! ?i)"
    and len: "rd_remaining r = length (reader_rest r)"
    by (auto simp: reader_wf_def)
  define n where "n = min cap (length (?S ! ?i) - ?o)"
  have n: "0 < n" "n \<le> length (?S ! ?i) - ?o" "n \<le> cap"
    using o cap by (auto simp: n_def)
  have rest: "reader_rest r = drop ?o (?S ! ?i) @ concat (drop (Suc ?i) ?S)"
    unfolding reader_rest_def using p i o by (simp add: drop_seg_pos flip: concat_segs)
  define r1 where "r1 = r\<lparr>rd_offset := ?o + n, rd_remaining := rd_remaining r - n\<rparr>"
  define r' where "r' = (if ?o + n = length (?S ! ?i)
    then r1\<lparr>rd_segment := ?i + 1, rd_offset := 0\<rparr> else r1)"
  define out where "out = take n (drop ?o (?S ! ?i))"
  have read: "reader_read ops r cap = Some (r', out)"
    using cap rem o by (simp add: reader_read_def seg_at_segs [OF p i] r'_def r1_def out_def n_def Let_def)
  have out: "length out = n"
    using n by (simp add: out_def)
  have pos: "seg_pos ?S (rd_segment r') (rd_offset r') = seg_pos ?S ?i ?o + n"
    using i by (auto simp: r'_def r1_def seg_pos_Suc simp flip: seg_pos_add)
  have pay: "rd_payload r' = ?p"
    by (simp add: r'_def r1_def)
  have rest': "reader_rest r' = drop n (reader_rest r)"
    unfolding reader_rest_def pay pos by (simp add: add.commute)
  have "take n (reader_rest r) = out"
    using n by (simp add: rest out_def)
  then have app: "reader_rest r = out @ reader_rest r'"
    unfolding rest' by (metis append_take_drop_id)
  have rem': "rd_remaining r' = length (reader_rest r')"
  proof -
    have "rd_remaining r' = rd_remaining r - n"
      by (simp add: r'_def r1_def)
    then show ?thesis by (simp add: rest' len)
  qed
  have "rd_remaining r' = 0 \<or> rd_segment r' < seg_count ops ?p \<and> rd_offset r' < length (?S ! rd_segment r')"
  proof (cases "?o + n = length (?S ! ?i)")
    case True
    show ?thesis
    proof (cases "rd_remaining r' = 0")
      case False
      then have "seg_pos ?S (?i + 1) 0 < length (contents ?p)"
        using True rem' pos pay unfolding reader_rest_def by (simp add: r'_def r1_def)
      then have "?i + 1 < seg_count ops ?p"
        using p pos_lt_count by blast
      then show ?thesis
        using True segs_nonempty [OF p] by (simp add: r'_def r1_def)
    qed simp
  next
    case False
    have "?o + n < length (?S ! ?i)"
      using False n o by linarith
    then show ?thesis
      using i False by (simp add: r'_def r1_def)
  qed
  then have "reader_wf r'"
    using p pay rem' by (simp add: reader_wf_def)
  then show ?thesis
    using read app pay out n by auto
qed

lemma read_exact_split:
  assumes "reader_wf r"
  shows "if n \<le> rd_remaining r
    then \<exists>r'. read_exact ops r n = Some (Inr (r', take n (reader_rest r)))
      \<and> reader_wf r' \<and> rd_payload r' = rd_payload r \<and> reader_rest r' = drop n (reader_rest r)
    else read_exact ops r n = Some (Inl ())"
  using assms
proof (induction n arbitrary: r rule: less_induct)
  case (less n)
  consider "n = 0" | "0 < n" "rd_remaining r = 0" | "0 < n" "0 < rd_remaining r"
    by auto
  then show ?case
  proof cases
    case 1
    then show ?thesis
      using less.prems by (simp add: read_exact.simps [of ops r 0])
  next
    case 2
    then show ?thesis
      by (simp add: read_exact.simps [of ops r n] reader_read_def)
  next
    case 3
    then obtain r' out where read: "reader_read ops r n = Some (r', out)" and wf': "reader_wf r'"
      and out: "out \<noteq> []" "length out \<le> n" and rest: "reader_rest r = out @ reader_rest r'"
      and pay: "rd_payload r' = rd_payload r"
      using reader_read_spec [OF less.prems, of n] by auto
    have len: "rd_remaining r = length out + rd_remaining r'"
      using less.prems wf' rest by (simp add: reader_wf_def)
    have "n - length out < n"
      using out(1) 3(1) by (cases out) simp_all
    note IH = less.IH [OF this wf']
    have step: "read_exact ops r n = (case read_exact ops r' (n - length out) of
        None \<Rightarrow> None | Some (Inl e) \<Rightarrow> Some (Inl e)
      | Some (Inr (r'', out')) \<Rightarrow> Some (Inr (r'', out @ out')))"
      using 3 out by (simp add: read_exact.simps [of ops r n] read)
    show ?thesis
    proof (cases "n \<le> rd_remaining r")
      case True
      then have "n - length out \<le> rd_remaining r'"
        using len by simp
      then obtain r'' where "read_exact ops r' (n - length out) =
          Some (Inr (r'', take (n - length out) (reader_rest r')))"
        "reader_wf r''" "rd_payload r'' = rd_payload r'"
        "reader_rest r'' = drop (n - length out) (reader_rest r')"
        using IH by (simp only: if_True) blast
      then show ?thesis
        using True step pay out by (simp add: rest)
    next
      case False
      then have "\<not> n - length out \<le> rd_remaining r'"
        using len out by simp
      then show ?thesis
        using IH False step by simp
    qed
  qed
qed

lemma read_exact_ok:
  assumes "reader_wf r" and "n \<le> rd_remaining r"
  shows "\<exists>r'. read_exact ops r n = Some (Inr (r', take n (reader_rest r)))
    \<and> reader_wf r' \<and> rd_payload r' = rd_payload r \<and> reader_rest r' = drop n (reader_rest r)"
  using read_exact_split [OF assms(1), of n] assms(2) by simp

lemma read_exact_eof:
  assumes "reader_wf r" and "rd_remaining r < n"
  shows "read_exact ops r n = Some (Inl ())"
  using read_exact_split [OF assms(1), of n] assms(2) by simp

text \<open>Views: the range of the source they denote, and their invariant.\<close>

definition view_start :: "'p payload_view \<Rightarrow> nat" where
  "view_start v = seg_pos (segs (pv_source v)) (pv_first v) (pv_offset v)"

definition view_contents :: "'p payload_view \<Rightarrow> bytes" where
  "view_contents v = take (pv_len v) (drop (view_start v) (contents (pv_source v)))"

definition view_wf :: "'p payload_view \<Rightarrow> bool" where
  "view_wf v \<longleftrightarrow> wf (pv_source v) \<and> (pv_len v = 0 \<or>
     pv_first v \<le> pv_last v \<and> pv_last v < seg_count ops (pv_source v)
     \<and> pv_offset v < length (segs (pv_source v) ! pv_first v)
     \<and> 0 < pv_last_end v \<and> pv_last_end v \<le> length (segs (pv_source v) ! pv_last v)
     \<and> view_start v + pv_len v = seg_pos (segs (pv_source v)) (pv_last v) (pv_last_end v))"

lemma view_contents_length: "view_wf v \<Longrightarrow> length (view_contents v) = pv_len v"
  using seg_pos_le [of "pv_last v" "segs (pv_source v)" "pv_last_end v"]
  by (auto simp: view_wf_def view_contents_def concat_segs)

lemma view_new_spec:
  assumes wf: "wf p"
  shows "\<exists>v. view_new ops p = Some v \<and> view_wf v \<and> view_contents v = contents p"
proof (cases "seg_is_empty ops p")
  case True
  then show ?thesis
    using wf by (auto simp: view_new_def view_wf_def view_contents_def len_contents seg_is_empty_def)
next
  case False
  let ?l = "seg_count ops p - 1"
  have c: "0 < seg_count ops p" "?l < seg_count ops p"
    using False wf by (auto simp: empty_iff)
  have "Suc ?l = length (segs p)"
    using c by simp
  then have "seg_pos (segs p) ?l (length (segs p ! ?l)) = length (contents p)"
    using seg_pos_Suc [of ?l "segs p" 0] c wf
    by (simp add: seg_pos_def concat_segs del: length_segs)
  then show ?thesis
    using False c wf segs_nonempty [OF wf c(1)] segs_nonempty [OF wf c(2)] len_contents [OF wf]
    by (simp add: view_new_def Let_def seg_at_segs view_wf_def view_contents_def view_start_def seg_pos_def)
qed

lemma view_skip_spec:
  assumes p: "wf p" and i: "i < seg_count ops p" and off: "off < length (segs p ! i)"
    and lt: "seg_pos (segs p) i off + skip < length (contents p)"
  shows "\<exists>i' off'. view_skip ops p skip i off = Some (i', off') \<and> i \<le> i' \<and> i' < seg_count ops p
    \<and> off' < length (segs p ! i') \<and> seg_pos (segs p) i' off' = seg_pos (segs p) i off + skip"
  using i off lt
proof (induction skip arbitrary: i off rule: less_induct)
  case (less skip)
  let ?a = "length (segs p ! i) - off"
  show ?case
  proof (cases "skip < ?a")
    case True
    then show ?thesis
      using less.prems
      by (auto simp: view_skip.simps [of ops p skip i off] seg_at_segs [OF p] seg_pos_add)
  next
    case False
    have pos: "seg_pos (segs p) (i + 1) 0 + (skip - ?a) = seg_pos (segs p) i off + skip"
      using less.prems(1,2) False seg_pos_Suc [of i "segs p" 0] by (simp add: seg_pos_def)
    then have i1: "i + 1 < seg_count ops p"
      using less.prems(3) pos_lt_count [OF p, of "i + 1"] by simp
    have "skip - ?a < skip" "0 < skip"
      using less.prems(2) False by auto
    from less.IH [OF this(1) i1 segs_nonempty [OF p i1]] less.prems(3) pos
    obtain i' off' where "view_skip ops p (skip - ?a) (i + 1) 0 = Some (i', off')" "i + 1 \<le> i'"
      "i' < seg_count ops p" "off' < length (segs p ! i')"
      "seg_pos (segs p) i' off' = seg_pos (segs p) i off + skip"
      by auto
    then show ?thesis
      using less.prems(1,2) False \<open>0 < skip\<close>
      by (auto simp: view_skip.simps [of ops p skip i off] seg_at_segs [OF p])
  qed
qed

lemma view_find_end_spec:
  assumes p: "wf p" and i: "i < seg_count ops p" and off: "off < length (segs p ! i)"
    and rem: "0 < n" and le: "seg_pos (segs p) i off + n \<le> length (contents p)"
  shows "\<exists>l e. view_find_end ops p n i off = Some (l, e) \<and> i \<le> l \<and> l < seg_count ops p
    \<and> 0 < e \<and> e \<le> length (segs p ! l) \<and> seg_pos (segs p) l e = seg_pos (segs p) i off + n"
  using i off rem le
proof (induction n arbitrary: i off rule: less_induct)
  case (less n)
  let ?a = "length (segs p ! i) - off"
  show ?case
  proof (cases "n \<le> ?a")
    case True
    then show ?thesis
      using less.prems
      by (auto simp: view_find_end.simps [of ops p n i off] seg_at_segs [OF p] seg_pos_add)
  next
    case False
    have pos: "seg_pos (segs p) (i + 1) 0 + (n - ?a) = seg_pos (segs p) i off + n"
      using less.prems(1,2) False seg_pos_Suc [of i "segs p" 0] by (simp add: seg_pos_def)
    then have i1: "i + 1 < seg_count ops p"
      using less.prems(4) False pos_lt_count [OF p, of "i + 1"] by simp
    have "n - ?a < n" "0 < n - ?a"
      using less.prems(2,3) False by auto
    from less.IH [OF this(1) i1 segs_nonempty [OF p i1] this(2)] less.prems(4) pos
    obtain l e where "view_find_end ops p (n - ?a) (i + 1) 0 = Some (l, e)" "i + 1 \<le> l"
      "l < seg_count ops p" "0 < e" "e \<le> length (segs p ! l)"
      "seg_pos (segs p) l e = seg_pos (segs p) i off + n"
      by auto
    then show ?thesis
      using less.prems(1,2) False
      by (auto simp: view_find_end.simps [of ops p n i off] seg_at_segs [OF p])
  qed
qed

lemma view_slice_spec:
  assumes v: "view_wf v" and range: "start \<le> stop" "stop \<le> pv_len v"
  shows "\<exists>v'. view_slice ops v start stop = Some v' \<and> view_wf v'
    \<and> view_contents v' = take (stop - start) (drop start (view_contents v))"
proof (cases "start = stop")
  case True
  then show ?thesis
    using v range by (auto simp: view_slice_def view_wf_def view_contents_def)
next
  case False
  let ?p = "pv_source v"
  let ?S = "segs ?p"
  have len: "0 < pv_len v" "start < stop"
    using False range by auto
  from v len have p: "wf ?p" and le: "pv_first v \<le> pv_last v" and l: "pv_last v < seg_count ops ?p"
    and off: "pv_offset v < length (?S ! pv_first v)"
    and e: "0 < pv_last_end v" "pv_last_end v \<le> length (?S ! pv_last v)"
    and pos: "view_start v + pv_len v = seg_pos ?S (pv_last v) (pv_last_end v)"
    by (auto simp: view_wf_def)
  have tot: "view_start v + pv_len v \<le> length (contents ?p)"
    unfolding pos using seg_pos_le [of "pv_last v" ?S] l e p by (simp add: concat_segs)
  have "pv_first v < seg_count ops ?p"
    using le l by simp
  then obtain i' o' where skip: "view_skip ops ?p start (pv_first v) (pv_offset v) = Some (i', o')"
    and i': "i' < seg_count ops ?p" "o' < length (?S ! i')"
    and pos': "seg_pos ?S i' o' = view_start v + start"
    using view_skip_spec [OF p _ off, of start] tot len range by (auto simp: view_start_def)
  define out where "out = v\<lparr>pv_first := i', pv_offset := o', pv_len := stop - start\<rparr>"
  have sub: "take (stop - start) (drop (view_start v + start) (contents ?p))
      = take (stop - start) (drop start (view_contents v))"
    using range by (simp add: view_contents_def drop_take add.commute)
  show ?thesis
  proof (cases "stop = pv_len v")
    case True
    have "i' \<le> pv_last v"
    proof (rule ccontr)
      assume "\<not> i' \<le> pv_last v"
      then have "seg_pos ?S (Suc (pv_last v)) 0 \<le> seg_pos ?S i' 0"
        by (intro seg_pos_mono) simp
      then show False
        using pos pos' l e(2) len True seg_pos_Suc [of "pv_last v" ?S 0] by (simp add: seg_pos_def)
    qed
    then have "view_wf out"
      using p l i' e pos pos' True len by (simp add: out_def view_wf_def view_start_def)
    moreover have "view_contents out = take (stop - start) (drop start (view_contents v))"
      using pos' sub by (simp add: out_def view_contents_def view_start_def)
    ultimately show ?thesis
      using True range False skip by (auto simp: view_slice_def out_def)
  next
    case neq: False
    have "seg_pos ?S i' o' + (stop - start) \<le> length (contents ?p)"
      using pos' tot range len by simp
    then obtain l' e' where fin: "view_find_end ops ?p (stop - start) i' o' = Some (l', e')"
      and l': "i' \<le> l'" "l' < seg_count ops ?p" "0 < e'" "e' \<le> length (?S ! l')"
      and pos'': "seg_pos ?S l' e' = seg_pos ?S i' o' + (stop - start)"
      using view_find_end_spec [OF p i', of "stop - start"] len by auto
    let ?v' = "out\<lparr>pv_last := l', pv_last_end := e'\<rparr>"
    have "view_wf ?v'"
      using p l' i' pos'' len by (simp add: out_def view_wf_def view_start_def)
    moreover have "view_contents ?v' = take (stop - start) (drop start (view_contents v))"
      using pos' sub by (simp add: out_def view_contents_def view_start_def)
    ultimately show ?thesis
      using neq range False skip fin by (auto simp: view_slice_def out_def)
  qed
qed

end

text \<open>A view over a source that meets the contract meets it too.\<close>

lemma segment_range_concat:
  assumes "i < length S" and "i \<le> l" and "l < length S"
    and "off \<le> length (S ! i)" and "e \<le> length (S ! l)" and "i = l \<longrightarrow> off \<le> e"
  shows "concat (map (\<lambda>k. take ((if i + k = l then e else length (S ! (i + k))) - (if k = 0 then off else 0))
            (drop (if k = 0 then off else 0) (S ! (i + k)))) [0..<l - i + 1])
    = take (seg_pos S l e - seg_pos S i off) (drop (seg_pos S i off) (concat S))"
  using assms
proof (induction "l - i" arbitrary: i off)
  case 0
  then have "i = l" by simp
  then show ?case
    using 0 by (simp add: drop_seg_pos) (simp add: seg_pos_def)
next
  case (Suc n)
  let ?f = "\<lambda>i off k. take ((if i + k = l then e else length (S ! (i + k))) - (if k = 0 then off else 0))
            (drop (if k = 0 then off else 0) (S ! (i + k)))"
  have il: "i < l" "Suc i < length S"
    using Suc by auto
  have n: "l - i + 1 = Suc (l - Suc i + 1)"
    using il by simp
  have hd: "map (?f i off) [0..<l - i + 1] = ?f i off 0 # map (\<lambda>k. ?f i off (Suc k)) [0..<l - Suc i + 1]"
    unfolding n by (subst map_upt_Suc) simp
  have tl: "map (\<lambda>k. ?f i off (Suc k)) [0..<l - Suc i + 1] = map (?f (Suc i) 0) [0..<l - Suc i + 1]"
    by (rule map_cong) auto
  have IH: "concat (map (?f (Suc i) 0) [0..<l - Suc i + 1])
      = take (seg_pos S l e - seg_pos S (Suc i) 0) (drop (seg_pos S (Suc i) 0) (concat S))"
    using Suc il by (intro Suc.hyps(1)) auto
  have f0: "?f i off 0 = drop off (S ! i)"
    using il by simp
  have le: "seg_pos S (Suc i) 0 \<le> seg_pos S l e"
    using seg_pos_mono [of "Suc i" l S] il by (simp add: seg_pos_def)
  have "seg_pos S (Suc i) 0 = seg_pos S i (length (S ! i))"
    using Suc.prems(1) by (simp add: seg_pos_Suc)
  then have "drop (seg_pos S (Suc i) 0) (concat S) = concat (drop (Suc i) S)"
    using drop_seg_pos [OF Suc.prems(1) order_refl] by simp
  then have dr: "drop (seg_pos S i off) (concat S) = drop off (S ! i) @ drop (seg_pos S (Suc i) 0) (concat S)"
    using drop_seg_pos [OF Suc.prems(1,4)] by simp
  have R: "take (seg_pos S l e - seg_pos S i off) (drop (seg_pos S i off) (concat S))
      = drop off (S ! i) @ take (seg_pos S l e - seg_pos S (Suc i) 0) (drop (seg_pos S (Suc i) 0) (concat S))"
    unfolding dr using il Suc.prems le seg_pos_Suc [of i S 0] by (simp add: seg_pos_def)
  show ?case
    unfolding hd tl concat.simps f0 IH R ..
qed

context segments
begin

lemma view_first_last:
  assumes "view_wf v" and "pv_len v \<noteq> 0" and "pv_first v = pv_last v"
  shows "pv_offset v < pv_last_end v"
  using assms by (auto simp: view_wf_def view_start_def seg_pos_def)

lemma view_segment_at:
  assumes v: "view_wf v" and k: "k < view_segment_count v"
  shows "\<exists>s. view_segment ops v k = Some s \<and> s \<noteq> [] \<and>
    s = take ((if pv_first v + k = pv_last v then pv_last_end v
      else length (segs (pv_source v) ! (pv_first v + k))) - (if k = 0 then pv_offset v else 0))
      (drop (if k = 0 then pv_offset v else 0) (segs (pv_source v) ! (pv_first v + k)))"
proof -
  have len: "pv_len v \<noteq> 0"
    using k by (auto simp: view_segment_count_def split: if_splits)
  with v have p: "wf (pv_source v)" and le: "pv_first v \<le> pv_last v" "pv_last v < seg_count ops (pv_source v)"
    and off: "pv_offset v < length (segs (pv_source v) ! pv_first v)"
    and e: "0 < pv_last_end v" "pv_last_end v \<le> length (segs (pv_source v) ! pv_last v)"
    by (auto simp: view_wf_def)
  have c: "pv_first v + k < seg_count ops (pv_source v)"
    using le k len by (simp add: view_segment_count_def)
  show ?thesis
    using k off e view_first_last [OF v len] segs_nonempty [OF p c]
    by (auto simp: view_segment_def Let_def seg_at_segs [OF p c])
qed

lemma view_segments_concat:
  assumes v: "view_wf v"
  shows "view_contents v = concat (map (\<lambda>k. the (view_segment ops v k)) [0..<view_segment_count v])"
proof (cases "pv_len v = 0")
  case True
  then show ?thesis
    by (simp add: view_contents_def view_segment_count_def)
next
  case False
  let ?S = "segs (pv_source v)"
  from v False have p: "wf (pv_source v)" and le: "pv_first v \<le> pv_last v" "pv_last v < seg_count ops (pv_source v)"
    and off: "pv_offset v < length (?S ! pv_first v)"
    and e: "0 < pv_last_end v" "pv_last_end v \<le> length (?S ! pv_last v)"
    and pos: "view_start v + pv_len v = seg_pos ?S (pv_last v) (pv_last_end v)"
    by (auto simp: view_wf_def)
  have n: "view_segment_count v = pv_last v - pv_first v + 1"
    using False by (simp add: view_segment_count_def)
  have "map (\<lambda>k. the (view_segment ops v k)) [0..<view_segment_count v]
    = map (\<lambda>k. take ((if pv_first v + k = pv_last v then pv_last_end v
        else length (?S ! (pv_first v + k))) - (if k = 0 then pv_offset v else 0))
      (drop (if k = 0 then pv_offset v else 0) (?S ! (pv_first v + k)))) [0..<pv_last v - pv_first v + 1]"
    unfolding n using view_segment_at [OF v] n by (intro map_cong refl) (fastforce simp: n)
  then have "concat (map (\<lambda>k. the (view_segment ops v k)) [0..<view_segment_count v])
    = take (seg_pos ?S (pv_last v) (pv_last_end v) - view_start v) (drop (view_start v) (concat ?S))"
    unfolding view_start_def using le off e view_first_last [OF v False]
    by (subst segment_range_concat [symmetric]) (auto intro: less_imp_le)
  moreover have "seg_pos ?S (pv_last v) (pv_last_end v) - view_start v = pv_len v"
    using pos by simp
  ultimately show ?thesis
    by (simp only: view_contents_def concat_segs [OF p])
qed

lemma view_segments: "segments (view_ops ops) view_wf view_contents"
proof
  fix v :: "'p payload_view" and i
  assume v: "view_wf v"
  show "view_contents v = concat (map (\<lambda>i. the (seg_at (view_ops ops) v i)) [0..<seg_count (view_ops ops) v])"
    using view_segments_concat [OF v] by (simp add: view_ops_def)
  show "seg_len (view_ops ops) v = length (view_contents v)"
    using view_contents_length [OF v] by (simp add: view_ops_def view_len_def)
  assume "i < seg_count (view_ops ops) v"
  then show "\<exists>s. seg_at (view_ops ops) v i = Some s \<and> s \<noteq> []"
    using view_segment_at [OF v, of i] by (auto simp: view_ops_def)
qed

end

section \<open>Sequences of reads and slices\<close>

text \<open>A client reads with \<open>read_exact\<close> repeatedly; the specification reads from one byte string.\<close>

fun read_seq :: "'p segments_ops \<Rightarrow> 'p payload_reader \<Rightarrow> nat list \<Rightarrow> (unit + bytes list) option" where
  "read_seq ops r [] = Some (Inr [])"
| "read_seq ops r (n # ns) =
     (case read_exact ops r n of
        None \<Rightarrow> None
      | Some (Inl e) \<Rightarrow> Some (Inl e)
      | Some (Inr (r', b)) \<Rightarrow>
          (case read_seq ops r' ns of
             Some (Inr bs) \<Rightarrow> Some (Inr (b # bs))
           | other \<Rightarrow> other))"

fun list_reads :: "bytes \<Rightarrow> nat list \<Rightarrow> unit + bytes list" where
  "list_reads xs [] = Inr []"
| "list_reads xs (n # ns) =
     (if n \<le> length xs
      then (case list_reads (drop n xs) ns of Inr bs \<Rightarrow> Inr (take n xs # bs) | Inl e \<Rightarrow> Inl e)
      else Inl ())"

text \<open>Views are sliced repeatedly; the specification slices one byte string.\<close>

fun view_slices :: "'p segments_ops \<Rightarrow> 'p payload_view \<Rightarrow> (nat \<times> nat) list \<Rightarrow> 'p payload_view option" where
  "view_slices ops v [] = Some v"
| "view_slices ops v ((a, b) # rs) =
     (case view_slice ops v a b of None \<Rightarrow> None | Some v' \<Rightarrow> view_slices ops v' rs)"

fun list_slices :: "bytes \<Rightarrow> (nat \<times> nat) list \<Rightarrow> bytes option" where
  "list_slices xs [] = Some xs"
| "list_slices xs ((a, b) # rs) =
     (if a \<le> b \<and> b \<le> length xs then list_slices (take (b - a) (drop a xs)) rs else None)"

definition view_bytes :: "'p segments_ops \<Rightarrow> 'p payload_view \<Rightarrow> bytes" where
  "view_bytes ops v = concat (map (\<lambda>k. the (view_segment ops v k)) [0..<view_segment_count v])"

context segments
begin

lemma read_seq_list: "reader_wf r \<Longrightarrow> read_seq ops r ns = Some (list_reads (reader_rest r) ns)"
proof (induction ns arbitrary: r)
  case Nil
  then show ?case by simp
next
  case (Cons n ns)
  have len: "rd_remaining r = length (reader_rest r)"
    using Cons.prems by (simp add: reader_wf_def)
  show ?case
  proof (cases "n \<le> rd_remaining r")
    case True
    then obtain r' where "read_exact ops r n = Some (Inr (r', take n (reader_rest r)))"
      and "reader_wf r'" and "reader_rest r' = drop n (reader_rest r)"
      using read_exact_ok [OF Cons.prems] by blast
    then show ?thesis
      using True len Cons.IH [of r'] by (simp split: sum.split)
  next
    case False
    then show ?thesis
      using read_exact_eof [OF Cons.prems, of n] len by simp
  qed
qed

lemma view_slices_list:
  "view_wf v \<Longrightarrow> map_option (view_bytes ops) (view_slices ops v rs) = list_slices (view_contents v) rs"
proof (induction rs arbitrary: v)
  case Nil
  then show ?case by (simp add: view_bytes_def view_segments_concat)
next
  case (Cons r rs)
  obtain a b where r: "r = (a, b)" by (cases r)
  show ?case
  proof (cases "a \<le> b \<and> b \<le> pv_len v")
    case True
    then obtain v' where "view_slice ops v a b = Some v'" "view_wf v'"
      "view_contents v' = take (b - a) (drop a (view_contents v))"
      using view_slice_spec [OF Cons.prems] by blast
    then show ?thesis
      using True Cons.IH [of v'] r view_contents_length [OF Cons.prems] by simp
  next
    case False
    then show ?thesis
      using r view_contents_length [OF Cons.prems] by (auto simp: view_slice_def)
  qed
qed

lemma view_chain:
  assumes "wf p"
  shows "map_option (view_bytes ops) (Option.bind (view_new ops p) (\<lambda>v. view_slices ops v rs))
    = list_slices (contents p) rs"
  using view_new_spec [OF assms] by (auto simp: view_slices_list)

end

section \<open>The implementations meet the contract\<close>

interpretation slice_seg: segments slice_ops "\<lambda>_. True" "\<lambda>b. b"
  by unfold_locales
    (auto simp: slice_ops_def slice_len_def slice_segment_count_def slice_segment_def of_bool_def
      split: if_splits)

lemma payload_segment_rest:
  "map (\<lambda>i. the (payload_segment p i)) [0..<Suc n] = pl_first p # map (\<lambda>i. pl_rest p ! i) [0..<n]"
  if "n \<le> length (pl_rest p)"
proof -
  have "map (\<lambda>i. the (payload_segment p (Suc i))) [0..<n] = map (\<lambda>i. pl_rest p ! i) [0..<n]"
    using that by (intro map_cong) (auto simp: payload_segment_def)
  then show ?thesis
    by (subst map_upt_Suc) (simp add: payload_segment_def)
qed

interpretation payload_seg: segments payload_ops payload_wf payload_contents
proof
  fix p :: payload and i
  assume p: "payload_wf p"
  show "payload_contents p = concat (map (\<lambda>i. the (seg_at payload_ops p i)) [0..<seg_count payload_ops p])"
  proof (cases "pl_first p = []")
    case True
    then show ?thesis
      using p by (simp add: payload_contents_def payload_wf_def payload_ops_def payload_segment_count_def)
  next
    case False
    then show ?thesis
      using payload_segment_rest [of "length (pl_rest p)" p]
      by (simp add: payload_contents_def payload_ops_def payload_segment_count_def map_nth del: upt_Suc)
  qed
  show "seg_len payload_ops p = length (payload_contents p)"
    using p by (simp add: payload_ops_def payload_len_def payload_contents_def payload_wf_def)
  assume "i < seg_count payload_ops p"
  then show "\<exists>s. seg_at payload_ops p i = Some s \<and> s \<noteq> []"
    using p by (cases i)
      (auto simp: payload_ops_def payload_segment_count_def payload_segment_def payload_wf_def
        in_set_conv_nth of_bool_def split: if_splits)
qed

interpretation view_seg: segments "view_ops payload_ops" payload_seg.view_wf payload_seg.view_contents
  by (rule payload_seg.view_segments)

section \<open>Operations of Payload\<close>

lemma payload_new_wf [simp]: "payload_wf payload_new" "payload_contents payload_new = []"
  by (simp_all add: payload_new_def payload_wf_def payload_contents_def)

lemma payload_from_bytes_wf [simp]:
  "payload_wf (payload_from_bytes b)" "payload_contents (payload_from_bytes b) = b"
  by (simp_all add: payload_from_bytes_def payload_wf_def payload_contents_def)

lemma payload_wf_len: "payload_wf p \<Longrightarrow> pl_len p = length (payload_contents p)"
  by (simp add: payload_wf_def payload_contents_def)

lemma payload_push_some:
  assumes "payload_wf p" and "length (payload_contents p) + length b \<le> usize_max"
  shows "\<exists>p'. payload_push p b = Some p' \<and> payload_wf p' \<and> payload_contents p' = payload_contents p @ b
    \<and> payload_segment_count p' = payload_segment_count p + of_bool (b \<noteq> [])"
  using assms
  by (auto simp: payload_push_def payload_wf_def payload_contents_def payload_segment_count_def Let_def)

lemma payload_push_none:
  assumes "payload_wf p" and "usize_max < length (payload_contents p) + length b"
  shows "payload_push p b = None \<or> b = []"
  using assms by (simp add: payload_push_def payload_wf_len)

lemma fold_append: "fold (\<lambda>b output. output @ b) bs acc = acc @ concat bs"
  by (induction bs arbitrary: acc) simp_all

lemma payload_segments_concat: "concat (payload_segments p) = payload_contents p"
  by (simp add: payload_segments_def payload_contents_def)

lemma payload_bytes_contents [simp]:
  "payload_into_bytes p = payload_contents p" "payload_to_bytes p = payload_contents p"
  by (simp_all add: payload_into_bytes_def payload_to_bytes_def payload_as_contiguous_def fold_append
      payload_segments_concat payload_contents_def split: option.split)

lemma payload_push_all_spec:
  "payload_wf out \<Longrightarrow> length (payload_contents out) + length (concat items) \<le> usize_max \<Longrightarrow>
   \<exists>p. payload_push_all out items = Some p \<and> payload_wf p
     \<and> payload_contents p = payload_contents out @ concat items"
proof (induction items arbitrary: out)
  case Nil
  then show ?case by simp
next
  case (Cons b items)
  then obtain out' where "payload_push out b = Some out'" "payload_wf out'"
    "payload_contents out' = payload_contents out @ b"
    using payload_push_some [of out b] by auto
  then show ?case
    using Cons.IH [of out'] Cons.prems by auto
qed

text \<open>
  Collecting segments into a payload keeps the representation invariant (no empty
  descriptor, cached length right) and loses nothing: both conversions to contiguous bytes, the one
  that consumes and the one that copies, give the concatenation of the pushed segments. The payload
  only fails to be built when its length would not fit \<open>usize\<close>.
\<close>

theorem payload_from_iter_contents:
  assumes "length (concat items) \<le> usize_max"
  shows "\<exists>p. payload_from_iter items = Some p \<and> payload_wf p \<and> payload_len p = length (concat items)
    \<and> payload_into_bytes p = concat items \<and> payload_to_bytes p = concat items"
  using payload_push_all_spec [of payload_new items] assms
  by (auto simp: payload_from_iter_def payload_len_def payload_wf_len)

theorem payload_from_iter_contents_witness:
  "\<exists>p. payload_from_iter [[1, 2], [], [3]] = Some p \<and> payload_wf p \<and> payload_len p = 3
    \<and> payload_into_bytes p = [1, 2, 3] \<and> payload_to_bytes p = [1, 2, 3]"
  using payload_from_iter_contents [of "[[1, 2], [], [3]]"] by (simp add: usize_max_def numeral_3_eq_3)

text \<open>
  C12 (equivalence). Reading is independent of segmentation: any sequence of \<open>read_exact\<close> calls on a
  segmented payload gives the bytes, or the end-of-input error, that the same calls give on the
  coalesced payload, and never panics.
\<close>

theorem read_segmented_eq_contiguous:
  assumes "payload_wf p"
  shows "read_seq payload_ops (reader_new payload_ops p) ns
    = read_seq slice_ops (reader_new slice_ops (payload_to_bytes p)) ns
    \<and> read_seq payload_ops (reader_new payload_ops p) ns = Some (list_reads (payload_to_bytes p) ns)"
proof -
  have "read_seq payload_ops (reader_new payload_ops p) ns = Some (list_reads (payload_contents p) ns)"
    using payload_seg.reader_new_wf [OF assms] by (simp add: payload_seg.read_seq_list)
  moreover have "read_seq slice_ops (reader_new slice_ops b) ns = Some (list_reads b ns)" for b
    using slice_seg.reader_new_wf [of b] by (simp add: slice_seg.read_seq_list)
  ultimately show ?thesis by simp
qed

theorem read_segmented_eq_contiguous_witness:
  "payload_wf \<lparr>pl_first = [1, 2], pl_rest = [[3], [4, 5]], pl_len = 5\<rparr>
   \<and> read_seq payload_ops (reader_new payload_ops
        \<lparr>pl_first = [1, 2], pl_rest = [[3], [4, 5]], pl_len = 5\<rparr>) [1, 3, 1] = Some (Inr [[1], [2, 3, 4], [5]])"
proof -
  have wf: "payload_wf \<lparr>pl_first = [1, 2], pl_rest = [[3], [4, 5]], pl_len = 5\<rparr>"
    by (simp add: payload_wf_def)
  show ?thesis
    using wf conjunct2 [OF read_segmented_eq_contiguous [OF wf, of "[1, 3, 1]"]]
    by (simp add: payload_contents_def del: read_seq.simps)
qed

text \<open>
  C11 (refinement). Slicing is exact: a view of a payload, sliced any number of times, exposes the
  bytes that slicing the coalesced payload gives, and panics exactly when a range is reversed or
  ends beyond the view; its two search loops always return.
\<close>

theorem view_slices_refine:
  assumes "payload_wf p"
  shows "map_option (view_bytes payload_ops)
      (Option.bind (view_new payload_ops p) (\<lambda>v. view_slices payload_ops v ranges))
    = list_slices (payload_contents p) ranges"
  using assms by (rule payload_seg.view_chain)

theorem view_slices_refine_witness:
  "map_option (view_bytes payload_ops)
      (Option.bind (view_new payload_ops \<lparr>pl_first = [1, 2], pl_rest = [[3], [4, 5]], pl_len = 5\<rparr>)
        (\<lambda>v. view_slices payload_ops v [(1, 5), (1, 3)])) = Some [3, 4]"
  using view_slices_refine [of "\<lparr>pl_first = [1, 2], pl_rest = [[3], [4, 5]], pl_len = 5\<rparr>" "[(1, 5), (1, 3)]"]
  by (simp add: payload_wf_def payload_contents_def)

section \<open>The pool stays within its bounds\<close>

datatype pool_event = Acquire bool | Release bool nat

fun pool_step :: "payload_pool \<Rightarrow> pool_event \<Rightarrow> payload_pool" where
  "pool_step pool (Acquire locked) = fst (pool_acquire locked pool)"
| "pool_step pool (Release locked capacity) = pool_release locked capacity pool"

definition pool_inv :: "payload_pool_config \<Rightarrow> payload_pool \<Rightarrow> bool" where
  "pool_inv config pool \<longleftrightarrow> length (pp_cached pool) \<le> max_cached_payloads config
     \<and> (\<forall>c\<in>set (pp_cached pool). 0 < c \<and> c \<le> max_descriptors_per_payload config)
     \<and> pp_maximum_cached_payloads pool = max_cached_payloads config
     \<and> pp_maximum_segments_per_payload pool = max_descriptors_per_payload config"

lemma pool_step_inv: "pool_inv config pool \<Longrightarrow> pool_inv config (pool_step pool e)"
  by (cases e) (auto simp: pool_inv_def pool_acquire_def pool_release_def dest: in_set_butlastD)

text \<open>
  Whatever the order of acquisitions and releases from any thread, with or without a
  poisoned lock, the pool never caches more vectors than configured and never one whose capacity
  exceeds the configured limit.
\<close>

theorem pool_bounded: "pool_inv config (fold (\<lambda>e pool. pool_step pool e) events (pool_new config))"
proof -
  have "pool_inv config pool \<Longrightarrow> pool_inv config (fold (\<lambda>e pool. pool_step pool e) events pool)" for pool
    by (induction events arbitrary: pool) (auto intro: pool_step_inv)
  moreover have "pool_inv config (pool_new config)"
    by (simp add: pool_inv_def pool_new_def)
  ultimately show ?thesis .
qed

end
