(* ===== verification/Rtmp_Time.thy ===== *)
theory Rtmp_Time
  imports Prelude
begin

text \<open>
  The wrapping RTMP clock of \<open>src/src/time.rs\<close>: the timestamp record, its arithmetic and the
  serial comparison. Shown: the comparison is the sign of the circular distance, advancing a clock
  by less than half a cycle always compares as later (across the 32-bit rollover too), and
  subtraction undoes addition, which is what the chunk encoder's timestamp deltas rest on.
\<close>

section \<open>Definitions\<close>

record rtmp_timestamp =
  ts_value :: u32

datatype ordering = Less | Equal | Greater

definition ts_new :: "u32 \<Rightarrow> rtmp_timestamp" where
  "ts_new initial_value = \<lparr>ts_value = initial_value\<rparr>"

definition ts_default :: rtmp_timestamp where
  "ts_default = ts_new 0"

definition ts_set :: "rtmp_timestamp \<Rightarrow> u32 \<Rightarrow> rtmp_timestamp" where
  "ts_set t new_value = t\<lparr>ts_value := new_value\<rparr>"

definition add_values :: "u32 \<Rightarrow> u32 \<Rightarrow> u32" where
  "add_values value1 value2 = value1 + value2"

definition sub_values :: "u32 \<Rightarrow> u32 \<Rightarrow> u32" where
  "sub_values value1 value2 = value1 - value2"

definition ts_add :: "rtmp_timestamp \<Rightarrow> rtmp_timestamp \<Rightarrow> rtmp_timestamp" where
  "ts_add t other = \<lparr>ts_value = add_values (ts_value t) (ts_value other)\<rparr>"

definition ts_add_u32 :: "rtmp_timestamp \<Rightarrow> u32 \<Rightarrow> rtmp_timestamp" where
  "ts_add_u32 t other = \<lparr>ts_value = add_values (ts_value t) other\<rparr>"

definition ts_sub :: "rtmp_timestamp \<Rightarrow> rtmp_timestamp \<Rightarrow> rtmp_timestamp" where
  "ts_sub t other = \<lparr>ts_value = sub_values (ts_value t) (ts_value other)\<rparr>"

definition ts_sub_u32 :: "rtmp_timestamp \<Rightarrow> u32 \<Rightarrow> rtmp_timestamp" where
  "ts_sub_u32 t other = \<lparr>ts_value = sub_values (ts_value t) other\<rparr>"

definition ts_eq_u32 :: "rtmp_timestamp \<Rightarrow> u32 \<Rightarrow> bool" where
  "ts_eq_u32 t other \<longleftrightarrow> ts_value t = other"

definition u32_cmp :: "u32 \<Rightarrow> u32 \<Rightarrow> ordering" where
  "u32_cmp a b = (if a < b then Less else if a = b then Equal else Greater)"

definition compare :: "u32 \<Rightarrow> u32 \<Rightarrow> ordering" where
  "compare value1 value2 =
     (let max_val = max value1 value2;
          min_val = min value1 value2;
          difference = max_val - min_val
      in if difference \<le> 2147483647 then u32_cmp value1 value2 else u32_cmp value2 value1)"

definition serial_cmp :: "rtmp_timestamp \<Rightarrow> rtmp_timestamp \<Rightarrow> ordering option" where
  "serial_cmp t other =
     (if ts_value t - ts_value other = push_bit 31 1 then None
      else Some (compare (ts_value t) (ts_value other)))"

definition wrapping_elapsed_since :: "rtmp_timestamp \<Rightarrow> rtmp_timestamp \<Rightarrow> u32" where
  "wrapping_elapsed_since t earlier = ts_value t - ts_value earlier"

section \<open>Specification: the sign of the circular distance\<close>

definition circular_sign :: "u32 \<Rightarrow> ordering option" where
  "circular_sign d =
     (if unat d = 2 ^ 31 then None
      else if d = 0 then Some Equal
      else if unat d < 2 ^ 31 then Some Greater else Some Less)"

lemmas ts_defs = ts_new_def ts_add_def ts_add_u32_def ts_sub_def ts_sub_u32_def
  add_values_def sub_values_def

lemma ts_value_new [simp]: "ts_value (ts_new v) = v"
  by (simp add: ts_new_def)

lemma ts_value_add_u32 [simp]: "ts_value (ts_add_u32 t d) = ts_value t + d"
  by (simp add: ts_defs)

lemma ts_value_sub [simp]: "ts_value (ts_sub t u) = ts_value t - ts_value u"
  by (simp add: ts_defs)

lemma ts_eqI: "ts_value t = ts_value u \<Longrightarrow> t = (u :: rtmp_timestamp)"
  by simp

lemma ts_new_value [simp]: "ts_new (ts_value t) = t"
  by (rule ts_eqI) simp

lemma ts_add_u32_sub [simp]: "ts_add_u32 u (ts_value t - ts_value u) = t"
  by (rule ts_eqI) simp

lemma u32_less: "unat (w :: u32) < 2 ^ 32"
  using unsigned_less [of w] by simp

lemma unat_sub_wrap:
  "unat (a - b :: u32) = (if b \<le> a then unat a - unat b else unat a + 2 ^ 32 - unat b)"
proof -
  have "unat (a - b) = (if unat b \<le> unat a then unat a - unat b else unat a + 2 ^ 32 - unat b)"
    using unat_sub_if' [of a b] by simp
  then show ?thesis by (simp add: word_le_nat_alt)
qed

lemma compare_circular:
  assumes "unat (a - b) \<noteq> 2 ^ 31"
  shows "Some (compare a b) = circular_sign (a - b)"
proof -
  have lt: "unat a < 2 ^ 32" "unat b < 2 ^ 32"
    by (rule u32_less)+
  show ?thesis
  proof (cases "b \<le> a")
    case True
    then have "unat (a - b) = unat a - unat b" "unat b \<le> unat a"
      by (simp_all add: unat_sub word_le_nat_alt)
    then show ?thesis
      using True assms lt
      by (auto simp: compare_def circular_sign_def u32_cmp_def Let_def max_def min_def
          word_le_nat_alt word_less_nat_alt unat_eq_0)
  next
    case False
    then have ab: "a < b" by simp
    have "unat (a - b) = unat a + 2 ^ 32 - unat b" "unat a < unat b"
      using False ab by (simp_all add: unat_sub_wrap word_less_nat_alt)
    moreover have "unat (b - a) = unat b - unat a"
      using ab by (simp add: unat_sub)
    ultimately show ?thesis
      using assms lt
      by (auto simp: compare_def circular_sign_def u32_cmp_def Let_def max_def min_def
          word_le_nat_alt word_less_nat_alt)
  qed
qed

lemma half_cycle: "(d :: u32) = push_bit 31 1 \<longleftrightarrow> unat d = 2 ^ 31"
  by (simp add: word_unat_eq_iff)

lemma serial_cmp_eq:
  "serial_cmp t u = circular_sign (ts_value t - ts_value u)"
proof (cases "unat (ts_value t - ts_value u) = 2 ^ 31")
  case True
  then show ?thesis
    unfolding serial_cmp_def half_cycle by (simp add: circular_sign_def)
next
  case False
  then show ?thesis
    unfolding serial_cmp_def half_cycle by (simp add: compare_circular)
qed

text \<open>
  C13 (equivalence). The serial comparison of two timestamps, computed in the code by a maximum, a
  minimum and a reversed comparison, is the sign of their circular distance: undecided exactly at
  half a cycle, equal at distance zero, later for a forward distance below half a cycle.
\<close>

theorem serial_cmp_circular:
  "serial_cmp t u = circular_sign (ts_value t - ts_value u)"
  by (rule serial_cmp_eq)

text \<open>
  A clock advanced by a delta below half a cycle compares as later than where it
  started, and the elapsed time is the delta, for every start value, so also across the 32-bit
  rollover.
\<close>

theorem advance_is_later:
  assumes "0 < d" and "d < 2 ^ 31"
  shows "serial_cmp (ts_add_u32 t d) t = Some Greater \<and> serial_cmp t (ts_add_u32 t d) = Some Less
    \<and> wrapping_elapsed_since (ts_add_u32 t d) t = d"
proof -
  have d: "0 < unat d" "unat d < 2 ^ 31"
    using assms by (auto simp: word_less_nat_alt)
  have "unat (- d) = 2 ^ 32 - unat d"
    using d unat_sub_wrap [of 0 d] by (simp add: word_le_nat_alt)
  then have "2 ^ 31 < unat (- d)" "- d \<noteq> 0"
    using d by auto
  then show ?thesis
    using d by (auto simp: serial_cmp_eq circular_sign_def wrapping_elapsed_since_def)
qed

theorem advance_is_later_witness:
  "serial_cmp (ts_add_u32 (ts_new 4294967290) 20) (ts_new 4294967290) = Some Greater
   \<and> serial_cmp (ts_new 4294967290) (ts_add_u32 (ts_new 4294967290) 20) = Some Less
   \<and> wrapping_elapsed_since (ts_add_u32 (ts_new 4294967290) 20) (ts_new 4294967290) = 20
   \<and> ts_value (ts_add_u32 (ts_new 4294967290) 20) = 14"
  using advance_is_later [of 20 "ts_new 4294967290"] by simp

end
