(* ===== verification/Raw_Message.thy ===== *)
theory Raw_Message
  imports Payload Rtmp_Time
begin

text \<open>
  The message a decoder delivers and an encoder takes, \<open>RawMessage\<close> of
  \<open>src/src/messages/raw_message.rs\<close>, over the type of its payload.
\<close>

record 'd raw_message =
  rm_timestamp :: rtmp_timestamp
  rm_type_id :: u8
  rm_message_stream_id :: u32
  rm_data :: 'd

definition raw_message_new :: "bytes raw_message" where
  "raw_message_new = \<lparr>rm_timestamp = ts_new 0, rm_type_id = 0, rm_message_stream_id = 0, rm_data = []\<rparr>"

definition rm_map :: "('a \<Rightarrow> 'b) \<Rightarrow> 'a raw_message \<Rightarrow> 'b raw_message" where
  "rm_map f m = \<lparr>rm_timestamp = rm_timestamp m, rm_type_id = rm_type_id m,
                 rm_message_stream_id = rm_message_stream_id m, rm_data = f (rm_data m)\<rparr>"

lemma rm_map_simps [simp]:
  "rm_timestamp (rm_map f m) = rm_timestamp m" "rm_type_id (rm_map f m) = rm_type_id m"
  "rm_message_stream_id (rm_map f m) = rm_message_stream_id m" "rm_data (rm_map f m) = f (rm_data m)"
  by (simp_all add: rm_map_def)

end
