(* ===== verification/Amf_Common.thy ===== *)
theory Amf_Common
  imports Prelude
begin

text \<open>
  What the two AMF codecs share (\<open>src/src/amf/common.rs\<close>): the limits, the readers of fixed-width
  numbers and byte blocks, and the standard-library services they use: UTF-8 validation
  (\<open>String::from_utf8\<close>), IEEE 754 doubles as their 64 bits with the conversions from and to integers
  (\<open>as f64\<close>, \<open>as i32\<close>, \<open>fract\<close>, \<open>is_finite\<close>).

  A reader is a byte list, the bytes not yet read; \<open>remaining_hint\<close> is its length. A writer appends
  to its output, so it is modelled by the bytes it appends. Both thread the codec's context.
\<close>

section \<open>Readers and writers\<close>

named_theorems codec_simps \<open>unfolding of readers and writers on known input\<close>

text \<open>A writer maps a context to the bytes it appends and the new context.\<close>

type_synonym ('c, 'e) writer = "'c \<Rightarrow> 'e + bytes \<times> 'c"

definition emit :: "bytes \<Rightarrow> ('c, 'e) writer" where
  "emit bs c = Inr (bs, c)"

definition wfail :: "'e \<Rightarrow> ('c, 'e) writer" where
  "wfail e c = Inl e"

definition wseq :: "('c, 'e) writer \<Rightarrow> ('c, 'e) writer \<Rightarrow> ('c, 'e) writer" where
  "wseq v w c = rbind (v c) (\<lambda>(bs, c'). rbind (w c') (\<lambda>(bs', c''). Inr (bs @ bs', c'')))"

primrec wlist :: "('a \<Rightarrow> ('c, 'e) writer) \<Rightarrow> 'a list \<Rightarrow> ('c, 'e) writer" where
  "wlist w [] = emit []"
| "wlist w (x # xs) = wseq (w x) (wlist w xs)"

lemma emit_Inr [simp]: "emit bs c = Inr r \<longleftrightarrow> r = (bs, c)"
  by (auto simp: emit_def)

lemma wfail_Inr [simp]: "wfail e c \<noteq> Inr r"
  by (simp add: wfail_def)

lemma wseq_Inr_iff:
  "wseq v w c = Inr (bs, c'') \<longleftrightarrow>
   (\<exists>b1 c' b2. v c = Inr (b1, c') \<and> w c' = Inr (b2, c'') \<and> bs = b1 @ b2)"
  by (auto simp: wseq_def rbind_Inr_iff)

lemma wseq_InrE:
  assumes "wseq v w c = Inr (bs, c'')"
  obtains b1 c' b2 where "v c = Inr (b1, c')" and "w c' = Inr (b2, c'')" and "bs = b1 @ b2"
  using assms by (auto simp: wseq_Inr_iff)

text \<open>A loop that stops at the first error, threading a state.\<close>

primrec rfold :: "('a \<Rightarrow> 's \<Rightarrow> 'e + 's) \<Rightarrow> 'a list \<Rightarrow> 's \<Rightarrow> 'e + 's" where
  "rfold f [] s = Inr s"
| "rfold f (x # xs) s = rbind (f x s) (rfold f xs)"

text \<open>A loop over a list whose body may panic (\<open>None\<close>).\<close>

definition traverse :: "('a \<Rightarrow> 'b option) \<Rightarrow> 'a list \<Rightarrow> 'b list option" where
  "traverse f xs = those (map f xs)"

lemma traverse_Nil [simp]: "traverse f [] = Some []"
  by (simp add: traverse_def)

lemma traverse_Cons [simp]:
  "traverse f (x # xs) = (case f x of None \<Rightarrow> None | Some y \<Rightarrow> map_option ((#) y) (traverse f xs))"
  unfolding traverse_def by simp

lemma traverse_Some_iff: "traverse f xs = Some ys \<longleftrightarrow> list_all2 (\<lambda>x y. f x = Some y) xs ys"
proof (induction xs arbitrary: ys)
  case (Cons x xs)
  then show ?case
    by (cases ys) (auto split: option.splits)
qed auto

lemma traverse_length: "traverse f xs = Some ys \<Longrightarrow> length ys = length xs"
  by (auto simp: traverse_Some_iff dest: list_all2_lengthD)

text \<open>A reader maps the unread bytes and a context to a value, the bytes left and the new context.\<close>

type_synonym 'c rstate = "bytes \<times> 'c"
type_synonym ('c, 'e, 'a) reader = "'c rstate \<Rightarrow> 'e + 'a \<times> 'c rstate"

primrec read_n :: "nat \<Rightarrow> ('c, 'e, 'a) reader \<Rightarrow> ('c, 'e, 'a list) reader" where
  "read_n 0 rd s = Inr ([], s)"
| "read_n (Suc n) rd s = rbind (rd s) (\<lambda>(x, s'). rbind (read_n n rd s') (\<lambda>(xs, s''). Inr (x # xs, s'')))"

definition lift_read :: "(bytes \<Rightarrow> 'e + 'a \<times> bytes) \<Rightarrow> ('c, 'e, 'a) reader" where
  "lift_read rd s = rbind (rd (fst s)) (\<lambda>(x, input). Inr (x, (input, snd s)))"

definition saturating_mul :: "nat \<Rightarrow> nat \<Rightarrow> nat" where
  "saturating_mul a b = min (a * b) usize_max"

section \<open>Limits\<close>

definition MAX_DEPTH :: nat where
  "MAX_DEPTH = 64"

definition MAX_COLLECTION_LEN :: nat where
  "MAX_COLLECTION_LEN = 100000"

definition AMF0_MAX_STRING_LEN :: nat where
  "AMF0_MAX_STRING_LEN = 65535"

definition check_depth :: "nat \<Rightarrow> bool" where
  "check_depth depth \<longleftrightarrow> depth \<le> MAX_DEPTH"

definition check_collection_len :: "nat \<Rightarrow> bool" where
  "check_collection_len len \<longleftrightarrow> len \<le> MAX_COLLECTION_LEN"

text \<open>Both readers of the codecs (\<open>Cursor\<close>, slices) know how many bytes are left.\<close>

definition remaining_hint :: "bytes \<Rightarrow> nat option" where
  "remaining_hint input = Some (length input)"

definition length_is_plausible :: "bytes \<Rightarrow> nat \<Rightarrow> bool" where
  "length_is_plausible input len = (case remaining_hint input of Some remaining \<Rightarrow> len \<le> remaining | None \<Rightarrow> True)"

definition read_exact_vec :: "bytes \<Rightarrow> nat \<Rightarrow> (bytes \<times> bytes) option" where
  "read_exact_vec input len = (if len \<le> length input then Some (take len input, drop len input) else None)"

lemma read_exact_vec_append [simp]: "read_exact_vec (bs @ rest) (length bs) = Some (bs, rest)"
  by (simp add: read_exact_vec_def)

lemma length_is_plausible_append [simp]: "length_is_plausible (bs @ rest) (length bs)"
  by (simp add: length_is_plausible_def remaining_hint_def)

section \<open>Doubles\<close>

text \<open>An \<open>f64\<close> is its 64 bits, big-endian on the wire.\<close>

type_synonym f64 = u64
type_synonym i32 = u32

definition write_f64_be :: "f64 \<Rightarrow> bytes" where
  "write_f64_be w = be32 (ucast (drop_bit 32 w)) @ be32 (ucast w)"

definition read_f64_be :: "bytes \<Rightarrow> (f64 \<times> bytes) option" where
  "read_f64_be input =
     (case read_u32 input of
        None \<Rightarrow> None
      | Some (hi, rest) \<Rightarrow>
          (case read_u32 rest of
             None \<Rightarrow> None
           | Some (lo, rest') \<Rightarrow> Some (push_bit 32 (ucast hi) OR ucast lo, rest')))"

lemma join_u64: "push_bit 32 (ucast (ucast (drop_bit 32 w) :: u32)) OR ucast (ucast w :: u32) = (w :: u64)"
proof (rule bit_word_eqI)
  fix n
  assume "n < LENGTH(64)"
  then have "n < 64" by simp
  then consider "n < 32" | "32 \<le> n" "n < 64"
    by linarith
  then show "bit (push_bit 32 (ucast (ucast (drop_bit 32 w) :: u32)) OR ucast (ucast w :: u32) :: u64) n = bit w n"
    by cases (auto simp: bit_simps)
qed

lemma read_f64_be_write [simp]: "read_f64_be (write_f64_be w @ rest) = Some (w, rest)"
  by (simp add: read_f64_be_def write_f64_be_def join_u64)

lemma length_write_f64_be [simp]: "length (write_f64_be w) = 8"
  by (simp add: write_f64_be_def)

text \<open>
  The value of a double that is a finite integer: \<open>fract() == 0.0\<close>, \<open>is_finite()\<close> and the truncation
  \<open>as i32\<close> all read it. Infinities and NaNs have exponent field 2047.
\<close>

definition f64_sign :: "f64 \<Rightarrow> bool" where
  "f64_sign w \<longleftrightarrow> bit w 63"

definition f64_exponent :: "f64 \<Rightarrow> nat" where
  "f64_exponent w = unat (take_bit 11 (drop_bit 52 w))"

definition f64_fraction :: "f64 \<Rightarrow> nat" where
  "f64_fraction w = unat (take_bit 52 w)"

definition f64_integral :: "f64 \<Rightarrow> int option" where
  "f64_integral w =
     (let e = f64_exponent w; m = 2 ^ 52 + f64_fraction w; sign = (if f64_sign w then - 1 else 1) in
      if e = 2047 then None
      else if e = 0 then (if f64_fraction w = 0 then Some 0 else None)
      else if 1075 \<le> e then Some (sign * int (m * 2 ^ (e - 1075)))
      else if e < 1023 then None
      else if m mod 2 ^ (1075 - e) = 0 then Some (sign * int (m div 2 ^ (1075 - e)))
      else None)"

text \<open>\<open>i as f64\<close> for integers that a double represents exactly, in particular every \<open>i32\<close>.\<close>

fun top_bit :: "nat \<Rightarrow> nat" where
  "top_bit n = (if n < 2 then 0 else Suc (top_bit (n div 2)))"

declare top_bit.simps [simp del]

definition f64_of_int :: "int \<Rightarrow> f64" where
  "f64_of_int i =
     (if i = 0 then 0
      else let a = nat \<bar>i\<bar>; k = top_bit a in
        word_of_nat ((if i < 0 then 2 ^ 63 else 0) + (k + 1023) * 2 ^ 52 + (a * 2 ^ (52 - k) - 2 ^ 52)))"

lemma top_bit_bounds: "0 < n \<Longrightarrow> 2 ^ top_bit n \<le> n \<and> n < 2 ^ Suc (top_bit n)"
proof (induction n rule: top_bit.induct)
  case (1 n)
  show ?case
  proof (cases "n < 2")
    case True
    with 1 show ?thesis
      by (simp add: top_bit.simps [of n])
  next
    case False
    then have "2 ^ top_bit (n div 2) \<le> n div 2 \<and> n div 2 < 2 ^ Suc (top_bit (n div 2))"
      using 1 by auto
    then show ?thesis
      using False by (simp add: top_bit.simps [of n]) linarith
  qed
qed

lemma unat_of_nat_u64: "n < 2 ^ 64 \<Longrightarrow> unat (word_of_nat n :: u64) = n"
  by (simp add: unsigned_of_nat take_bit_nat_eq_self)

lemma split_mod: "f < c \<Longrightarrow> (x * c + f) mod c = (f :: nat)"
  and split_div: "f < c \<Longrightarrow> (x * c + f) div c = (x :: nat)"
  by simp_all

lemma f64_fields:
  assumes "f < 2 ^ 52" and "e < 2 ^ 11"
  shows "f64_sign (word_of_nat ((if s then 2 ^ 63 else 0) + e * 2 ^ 52 + f)) = s"
    and "f64_exponent (word_of_nat ((if s then 2 ^ 63 else 0) + e * 2 ^ 52 + f)) = e"
    and "f64_fraction (word_of_nat ((if s then 2 ^ 63 else 0) + e * 2 ^ 52 + f)) = f"
proof -
  let ?n = "(if s then 2 ^ 63 else 0) + e * 2 ^ 52 + f :: nat"
  have n: "?n < 2 ^ 64"
    using assms by simp
  have u: "unat (word_of_nat ?n :: u64) = ?n"
    by (rule unat_of_nat_u64 [OF n])
  have n52: "?n = ((if s then 2 ^ 11 else 0) + e) * 2 ^ 52 + f"
    by simp
  have m: "?n mod 2 ^ 52 = f" and d: "?n div 2 ^ 52 = (if s then 2 ^ 11 else 0) + e"
    unfolding n52 using assms(1) by (simp_all only: split_mod split_div)
  show "f64_fraction (word_of_nat ?n) = f"
    unfolding f64_fraction_def unsigned_take_bit_eq u unfolding take_bit_eq_mod by (rule m)
  show "f64_exponent (word_of_nat ?n) = e"
    unfolding f64_exponent_def unsigned_take_bit_eq unat_drop_bit_eq u
    unfolding take_bit_eq_mod drop_bit_eq_div d using assms(2) by simp
  have "?n div 2 ^ 63 = ?n div 2 ^ 52 div 2 ^ 11"
    by (simp flip: div_mult2_eq)
  then have "?n div 2 ^ 63 = (if s then 1 else 0)"
    unfolding d using assms(2) by (cases s) simp_all
  then have "bit ?n 63 = s"
    by (simp only: bit_iff_odd) simp
  then have "bit (unat (word_of_nat ?n :: u64)) 63 = s"
    unfolding u .
  then show "f64_sign (word_of_nat ?n) = s"
    unfolding f64_sign_def bit_unsigned_iff by simp
qed

lemma f64_integral_of_int:
  assumes "\<bar>i\<bar> < 2 ^ 53"
  shows "f64_integral (f64_of_int i) = Some i"
proof (cases "i = 0")
  case True
  then show ?thesis
    by (simp add: f64_of_int_def f64_integral_def f64_exponent_def f64_fraction_def)
next
  case False
  define a where "a = nat \<bar>i\<bar>"
  define k where "k = top_bit a"
  have a: "0 < a" "a < 2 ^ 53"
    using False assms by (auto simp: a_def)
  have b: "2 ^ k \<le> a" "a < 2 ^ Suc k"
    using top_bit_bounds [OF a(1)] by (auto simp: k_def)
  have "k < 53"
  proof (rule ccontr)
    assume "\<not> k < 53"
    then have "(2::nat) ^ 53 \<le> 2 ^ k"
      by (intro power_increasing) auto
    with a b show False
      by linarith
  qed
  then have split52: "(2::nat) ^ 52 = 2 ^ k * 2 ^ (52 - k)"
    by (simp flip: power_add)
  have lo: "2 ^ 52 \<le> a * 2 ^ (52 - k)"
    unfolding split52 using b(1) by simp
  have hi: "a * 2 ^ (52 - k) < 2 * 2 ^ 52"
    unfolding split52 using b(2) by simp
  have e: "k + 1023 < 2 ^ 11"
    using \<open>k < 53\<close> by simp
  have f: "a * 2 ^ (52 - k) - 2 ^ 52 < 2 ^ 52"
    using lo hi by linarith
  have w: "f64_of_int i = word_of_nat ((if i < 0 then 2 ^ 63 else 0) + (k + 1023) * 2 ^ 52 + (a * 2 ^ (52 - k) - 2 ^ 52))"
    using False by (simp add: f64_of_int_def a_def k_def Let_def)
  note fields = f64_fields [OF f e, of "i < 0", folded w]
  have m: "2 ^ 52 + f64_fraction (f64_of_int i) = a * 2 ^ (52 - k)"
    unfolding fields using lo by simp
  have i: "(if i < 0 then - 1 else 1) * int a = i"
    by (simp add: a_def)
  show ?thesis
  proof (cases "k = 52")
    case True
    then show ?thesis
      using m i by (simp add: f64_integral_def fields Let_def)
  next
    case False
    with \<open>k < 53\<close> have k: "k < 52" "1075 - (k + 1023) = 52 - k"
      by simp_all
    then show ?thesis
      using m i by (simp add: f64_integral_def fields Let_def)
  qed
qed

section \<open>UTF-8\<close>

definition utf8_cont :: "u8 \<Rightarrow> bool" where
  "utf8_cont b \<longleftrightarrow> 0x80 \<le> b \<and> b \<le> 0xBF"

text \<open>Well-formed byte sequences, as \<open>String::from_utf8\<close> accepts them.\<close>

fun utf8_valid :: "bytes \<Rightarrow> bool" where
  "utf8_valid [] = True"
| "utf8_valid (a # r) =
     (if a \<le> 0x7F then utf8_valid r
      else if 0xC2 \<le> a \<and> a \<le> 0xDF then
        (case r of b # r1 \<Rightarrow> utf8_cont b \<and> utf8_valid r1 | _ \<Rightarrow> False)
      else if 0xE0 \<le> a \<and> a \<le> 0xEF then
        (case r of b # c # r2 \<Rightarrow>
           utf8_cont b \<and> utf8_cont c \<and> (a = 0xE0 \<longrightarrow> 0xA0 \<le> b) \<and> (a = 0xED \<longrightarrow> b \<le> 0x9F) \<and> utf8_valid r2
         | _ \<Rightarrow> False)
      else if 0xF0 \<le> a \<and> a \<le> 0xF4 then
        (case r of b # c # d # r3 \<Rightarrow>
           utf8_cont b \<and> utf8_cont c \<and> utf8_cont d \<and> (a = 0xF0 \<longrightarrow> 0x90 \<le> b) \<and> (a = 0xF4 \<longrightarrow> b \<le> 0x8F)
           \<and> utf8_valid r3
         | _ \<Rightarrow> False)
      else False)"

text \<open>A \<open>String\<close> is its valid bytes.\<close>

definition from_utf8 :: "bytes \<Rightarrow> bytes option" where
  "from_utf8 bs = (if utf8_valid bs then Some bs else None)"

lemma from_utf8_valid [simp]: "utf8_valid bs \<Longrightarrow> from_utf8 bs = Some bs"
  by (simp add: from_utf8_def)

lemma utf8_valid_ascii: "list_all (\<lambda>b. b \<le> 0x7F) bs \<Longrightarrow> utf8_valid bs"
  by (induction bs) auto

end
