(* ===== verification/Amf_Graph.thy ===== *)
theory Amf_Graph
  imports Amf_Common
begin

text \<open>
  Object graphs of the AMF codecs (\<open>src/src/amf/graph.rs\<close>): a document of root values over an arena of
  complex objects, and the expansion of a document into trees under a budget of nodes, bytes and depth.

  The trait \<open>GraphValue\<close> is the record \<open>graph_ops\<close>; \<open>'x\<close> is the type of values a node may embed from
  another arena. \<open>validate\<close> decreases the budget and carries the path of references it is inside of;
  \<open>maximum_depth\<close> never changes and is an argument of its own. \<open>install\<close> follows references without any
  check, so a cycle would make it run forever: it is written with fuel, \<open>None\<close> meaning that it did not
  return (or that \<open>objects[id]\<close> panicked), and the theory proves that after a successful validation
  it returns with the fuel \<open>expand\<close> gives it.
\<close>

section \<open>Documents\<close>

type_synonym object_id = nat

record 'v document =
  doc_roots :: "'v list"
  doc_objects :: "'v list"

definition document_new :: "'v document" where
  "document_new = \<lparr>doc_roots = [], doc_objects = []\<rparr>"

definition document_insert :: "'v \<Rightarrow> 'v document \<Rightarrow> object_id \<times> 'v document" where
  "document_insert v d = (length (doc_objects d), d\<lparr>doc_objects := doc_objects d @ [v]\<rparr>)"

definition document_get :: "'v document \<Rightarrow> object_id \<Rightarrow> 'v option" where
  "document_get d i = (if i < length (doc_objects d) then Some (doc_objects d ! i) else None)"

definition document_from_parts :: "'v list \<Rightarrow> 'v list \<Rightarrow> 'v document" where
  "document_from_parts roots objects = \<lparr>doc_roots = roots, doc_objects = objects\<rparr>"

section \<open>Expansion\<close>

record tree_limits =
  maximum_nodes :: nat
  maximum_bytes :: nat
  maximum_depth :: nat

definition tree_limits_default :: tree_limits where
  "tree_limits_default = \<lparr>maximum_nodes = 100000, maximum_bytes = 16 * 1024 * 1024, maximum_depth = 64\<rparr>"

datatype tree_error = Cycle object_id | InvalidTreeReference object_id | TreeLimit

text \<open>The part of the limits that shrinks: nodes and bytes left.\<close>

type_synonym tree_budget = "nat \<times> nat"

record ('v, 'x) graph_ops =
  gv_reference :: "'v \<Rightarrow> object_id option"
  gv_heap_bytes :: "'v \<Rightarrow> nat"
  gv_children :: "'v \<Rightarrow> 'v list"
  gv_children_mut :: "('v \<Rightarrow> 'v option) \<Rightarrow> 'v \<Rightarrow> 'v option"
  gv_check_embedded :: "'x list \<Rightarrow> nat \<Rightarrow> nat \<Rightarrow> 'v \<Rightarrow> tree_budget \<Rightarrow> tree_error + tree_budget"
  gv_install_embedded :: "nat \<Rightarrow> 'x list \<Rightarrow> 'v \<Rightarrow> 'v option"

definition checked_sub :: "nat \<Rightarrow> nat \<Rightarrow> nat option" where
  "checked_sub a b = (if b \<le> a then Some (a - b) else None)"

definition charge :: "nat \<Rightarrow> tree_budget \<Rightarrow> tree_error + tree_budget" where
  "charge heap b =
     rbind (ok_or TreeLimit (checked_sub (fst b) 1))
       (\<lambda>nodes. rbind (ok_or TreeLimit (checked_sub (snd b) heap)) (\<lambda>left. Inr (nodes, left)))"

function (sequential) validate ::
    "('v, 'x) graph_ops \<Rightarrow> 'v list \<Rightarrow> 'x list \<Rightarrow> nat \<Rightarrow> object_id list \<Rightarrow> nat \<Rightarrow> 'v \<Rightarrow> tree_budget \<Rightarrow>
     tree_error + tree_budget" where
  "validate ops objects embedded maxd path depth v b =
     (if maxd < depth then Inl TreeLimit
      else case gv_reference ops v of
        Some i \<Rightarrow>
          if i \<in> set path then Inl (Cycle i)
          else if length objects \<le> i then Inl (InvalidTreeReference i)
          else if gv_reference ops (objects ! i) \<noteq> None then Inl (InvalidTreeReference i)
          else validate ops objects embedded maxd (path @ [i]) depth (objects ! i) b
      | None \<Rightarrow>
          rbind (charge (gv_heap_bytes ops v) b)
            (\<lambda>b1. rbind (gv_check_embedded ops embedded maxd depth v b1)
              (\<lambda>b2. rfold (\<lambda>c b. validate ops objects embedded maxd path (Suc depth) c b) (gv_children ops v) b2)))"
  by pat_completeness auto
termination
  by (relation "measure (\<lambda>(ops, objects, embedded, maxd, path, depth, v, b).
      2 * (Suc maxd - depth) + (if gv_reference ops v = None then 0 else 1))") auto

declare validate.simps [simp del]

definition deref :: "('v, 'x) graph_ops \<Rightarrow> 'v list \<Rightarrow> 'v \<Rightarrow> 'v option" where
  "deref ops objects v =
     (case gv_reference ops v of
        Some i \<Rightarrow> if i < length objects then Some (objects ! i) else None
      | None \<Rightarrow> Some v)"

primrec install :: "nat \<Rightarrow> ('v, 'x) graph_ops \<Rightarrow> 'v list \<Rightarrow> 'x list \<Rightarrow> 'v \<Rightarrow> 'v option" where
  "install 0 ops objects embedded v = None"
| "install (Suc n) ops objects embedded v =
     Option.bind (deref ops objects v)
       (\<lambda>v1. Option.bind (gv_install_embedded ops n embedded v1)
         (\<lambda>v2. gv_children_mut ops (install n ops objects embedded) v2))"

text \<open>The result \<open>None\<close> stands for a panic or for not returning.\<close>

definition expand_with_embedded ::
    "('v, 'x) graph_ops \<Rightarrow> 'v list \<Rightarrow> 'v list \<Rightarrow> 'x list \<Rightarrow> tree_limits \<Rightarrow> (tree_error + 'v list) option" where
  "expand_with_embedded ops roots objects embedded limits =
     (case rfold (validate ops objects embedded (maximum_depth limits) [] 0) roots
             (maximum_nodes limits, maximum_bytes limits) of
        Inl e \<Rightarrow> Some (Inl e)
      | Inr _ \<Rightarrow>
          map_option Inr (traverse (install (Suc (maximum_depth limits)) ops objects embedded) roots))"

definition expand ::
    "('v, 'x) graph_ops \<Rightarrow> 'v list \<Rightarrow> 'v list \<Rightarrow> tree_limits \<Rightarrow> (tree_error + 'v list) option" where
  "expand ops roots objects limits = expand_with_embedded ops roots objects [] limits"

section \<open>Specification: the unfolding of a value\<close>

text \<open>
  The tree a value unfolds to within \<open>k\<close> levels, with its number of nodes and its bytes: no path, no
  budget. The client supplies the unfolding of embedded values.
\<close>

type_synonym 'v costed = "'v \<times> nat \<times> nat"

definition total_nodes :: "'v costed list \<Rightarrow> nat" where
  "total_nodes rs = sum_list (map (\<lambda>r. fst (snd r)) rs)"

definition total_bytes :: "'v costed list \<Rightarrow> nat" where
  "total_bytes rs = sum_list (map (\<lambda>r. snd (snd r)) rs)"

lemma totals_simps [simp]:
  "total_nodes [] = 0" "total_nodes (r # rs) = fst (snd r) + total_nodes rs"
  "total_bytes [] = 0" "total_bytes (r # rs) = snd (snd r) + total_bytes rs"
  by (simp_all add: total_nodes_def total_bytes_def)

primrec unfold_tree ::
    "nat \<Rightarrow> ('v, 'x) graph_ops \<Rightarrow> ('v \<Rightarrow> 'v list \<Rightarrow> 'v) \<Rightarrow> (nat \<Rightarrow> 'x list \<Rightarrow> 'v \<Rightarrow> 'v costed option) \<Rightarrow>
     'v list \<Rightarrow> 'x list \<Rightarrow> 'v \<Rightarrow> 'v costed option" where
  "unfold_tree 0 ops repl emb objects embedded v = None"
| "unfold_tree (Suc k) ops repl emb objects embedded v =
     Option.bind (deref ops objects v)
       (\<lambda>v1. if gv_reference ops v1 \<noteq> None then None
             else Option.bind (emb k embedded v1)
               (\<lambda>(v2, n, h). Option.bind (traverse (unfold_tree k ops repl emb objects embedded) (gv_children ops v1))
                 (\<lambda>rs. Some (repl v2 (map fst rs), Suc (n + total_nodes rs), gv_heap_bytes ops v1 + h + total_bytes rs))))"

lemma unfold_Suc_iff:
  "unfold_tree (Suc k) ops repl emb objects embedded v = Some r \<longleftrightarrow>
   (\<exists>v1 v2 n h rs. deref ops objects v = Some v1 \<and> gv_reference ops v1 = None \<and> emb k embedded v1 = Some (v2, n, h)
      \<and> traverse (unfold_tree k ops repl emb objects embedded) (gv_children ops v1) = Some rs
      \<and> r = (repl v2 (map fst rs), Suc (n + total_nodes rs), gv_heap_bytes ops v1 + h + total_bytes rs))"
  by (auto simp: bind_eq_Some_conv)

declare unfold_tree.simps(2) [simp del]

locale graph_value =
  fixes ops :: "('v, 'x) graph_ops"
    and repl :: "'v \<Rightarrow> 'v list \<Rightarrow> 'v"
    and emb :: "nat \<Rightarrow> 'x list \<Rightarrow> 'v \<Rightarrow> 'v costed option"
  assumes children_mut: "gv_children_mut ops f v = map_option (repl v) (traverse f (gv_children ops v))"
    and emb_install: "emb k embedded v = Some (v', n, h) \<Longrightarrow>
      gv_install_embedded ops k embedded v = Some v' \<and> gv_children ops v' = gv_children ops v"
    and emb_mono: "emb k embedded v = Some r \<Longrightarrow> emb (Suc k) embedded v = Some r"
    and check_sound: "depth \<le> maxd \<Longrightarrow> gv_reference ops v = None \<Longrightarrow>
      gv_check_embedded ops embedded maxd depth v b = Inr b' \<Longrightarrow>
      \<exists>v' n h. emb (maxd - depth) embedded v = Some (v', n, h) \<and> fst b = fst b' + n \<and> snd b = snd b' + h"
    and check_complete: "depth \<le> maxd \<Longrightarrow> gv_reference ops v = None \<Longrightarrow>
      emb (maxd - depth) embedded v = Some (v', n, h) \<Longrightarrow> n \<le> fst b \<Longrightarrow> h \<le> snd b \<Longrightarrow>
      gv_check_embedded ops embedded maxd depth v b = Inr (fst b - n, snd b - h)"
begin

lemma unfold_Suc: "unfold_tree k ops repl emb objects embedded v = Some r \<Longrightarrow>
    unfold_tree (Suc k) ops repl emb objects embedded v = Some r"
proof (induction k arbitrary: v r)
  case (Suc k)
  have "traverse (unfold_tree (Suc k) ops repl emb objects embedded) cs = Some rs"
    if "traverse (unfold_tree k ops repl emb objects embedded) cs = Some rs" for cs rs
    using that Suc.IH unfolding traverse_Some_iff by (auto elim: list_all2_mono)
  with Suc.prems emb_mono show ?case
    unfolding unfold_Suc_iff by blast
qed simp

lemma unfold_mono:
  "k \<le> k' \<Longrightarrow> unfold_tree k ops repl emb objects embedded v = Some r \<Longrightarrow>
   unfold_tree k' ops repl emb objects embedded v = Some r"
  by (induction k' rule: dec_induct) (auto intro: unfold_Suc)

lemma unfold_unique:
  assumes "unfold_tree k ops repl emb objects embedded v = Some r"
    and "unfold_tree k' ops repl emb objects embedded v = Some r'"
  shows "r = r'"
  using unfold_mono [OF _ assms(1), of "max k k'"] unfold_mono [OF _ assms(2), of "max k k'"] by simp

lemma install_unfold:
  "unfold_tree k ops repl emb objects embedded v = Some (t, n, h) \<Longrightarrow> install k ops objects embedded v = Some t"
proof (induction k arbitrary: v t n h)
  case (Suc k)
  have tr: "traverse (install k ops objects embedded) cs = Some (map fst rs)"
    if "traverse (unfold_tree k ops repl emb objects embedded) cs = Some rs" for cs rs
    using that Suc.IH unfolding traverse_Some_iff by (force simp: list_all2_map2 elim: list_all2_mono)
  show ?case
    using Suc.prems unfolding unfold_Suc_iff by (auto simp: children_mut dest!: tr emb_install)
qed simp

lemma rfold_sound:
  assumes "\<And>c b b'. f c b = Inr b' \<Longrightarrow> \<exists>t n h. g c = Some (t, n, h) \<and> fst b = fst b' + n \<and> snd b = snd b' + h"
    and "rfold f cs b = Inr b'"
  shows "\<exists>rs. traverse g cs = Some rs \<and> fst b = fst b' + total_nodes rs \<and> snd b = snd b' + total_bytes rs"
  using assms(2)
proof (induction cs arbitrary: b)
  case (Cons c cs)
  then obtain b1 where b1: "f c b = Inr b1" "rfold f cs b1 = Inr b'"
    by (auto elim: rbind_InrE)
  obtain t n h where "g c = Some (t, n, h)" "fst b = fst b1 + n" "snd b = snd b1 + h"
    using assms(1) [OF b1(1)] by blast
  then show ?case
    using Cons.IH [OF b1(2)] by auto
qed simp

lemma rfold_complete:
  assumes "traverse g cs = Some rs" and "total_nodes rs \<le> fst b" and "total_bytes rs \<le> snd b"
    and "\<And>c t n h b. c \<in> set cs \<Longrightarrow> g c = Some (t, n, h) \<Longrightarrow> n \<le> total_nodes rs \<Longrightarrow> n \<le> fst b \<Longrightarrow> h \<le> snd b \<Longrightarrow>
      f c b = Inr (fst b - n, snd b - h)"
  shows "rfold f cs b = Inr (fst b - total_nodes rs, snd b - total_bytes rs)"
proof -
  have "rfold f cs b = Inr (fst b - total_nodes rs, snd b - total_bytes rs)"
    if "traverse g cs = Some rs" "total_nodes rs \<le> fst b" "total_bytes rs \<le> snd b" "total_nodes rs \<le> N"
      and "\<And>c t n h b. c \<in> set cs \<Longrightarrow> g c = Some (t, n, h) \<Longrightarrow> n \<le> N \<Longrightarrow> n \<le> fst b \<Longrightarrow> h \<le> snd b \<Longrightarrow>
        f c b = Inr (fst b - n, snd b - h)" for N
    using that
  proof (induction cs arbitrary: b rs)
    case (Cons c cs)
    obtain t n h rs' where r: "g c = Some (t, n, h)" "traverse g cs = Some rs'" "rs = (t, n, h) # rs'"
      using Cons.prems(1) by (auto split: option.splits)
    have "f c b = Inr (fst b - n, snd b - h)"
      using Cons.prems r by auto
    then show ?case
      using Cons.IH [OF r(2), of "(fst b - n, snd b - h)"] Cons.prems r by auto
  qed simp
  with assms show ?thesis
    by blast
qed

lemma validate_ref:
  assumes "gv_reference ops v = Some i" and "validate ops objects embedded maxd path depth v b = Inr b'"
  shows "i < length objects \<and> gv_reference ops (objects ! i) = None
    \<and> validate ops objects embedded maxd (path @ [i]) depth (objects ! i) b = Inr b'"
  using assms by (subst (asm) (1) validate.simps) (auto split: if_splits)

lemma charge_Inr_iff: "charge heap b = Inr b' \<longleftrightarrow> fst b = Suc (fst b') \<and> snd b = snd b' + heap"
  by (cases b') (auto simp: charge_def rbind_Inr_iff checked_sub_def ok_or_def split: option.splits if_splits)

lemma validate_sound:
  "Suc maxd - depth = k \<Longrightarrow> validate ops objects embedded maxd path depth v b = Inr b' \<Longrightarrow>
   \<exists>t n h. unfold_tree k ops repl emb objects embedded v = Some (t, n, h) \<and> fst b = fst b' + n \<and> snd b = snd b' + h"
proof (induction k arbitrary: path depth v b b')
  case 0
  then show ?case
    by (subst (asm) validate.simps) simp
next
  case (Suc k)
  then have depth: "depth \<le> maxd" "maxd - depth = k" "Suc maxd - Suc depth = k"
    by simp_all
  have node: "\<exists>t n h. unfold_tree (Suc k) ops repl emb objects embedded v = Some (t, n, h)
      \<and> fst b = fst b' + n \<and> snd b = snd b' + h"
    if d: "deref ops objects v = Some v1" and r: "gv_reference ops v1 = None"
      and v: "validate ops objects embedded maxd path depth v1 b = Inr b'" for v v1 path
  proof -
    obtain b1 b2 where b: "charge (gv_heap_bytes ops v1) b = Inr b1"
      "gv_check_embedded ops embedded maxd depth v1 b1 = Inr b2"
      "rfold (\<lambda>c b. validate ops objects embedded maxd path (Suc depth) c b) (gv_children ops v1) b2 = Inr b'"
      using v depth r by (subst (asm) validate.simps) (auto elim!: rbind_InrE)
    obtain v2 n h where e: "emb k embedded v1 = Some (v2, n, h)" "fst b1 = fst b2 + n" "snd b1 = snd b2 + h"
      using check_sound [OF depth(1) r b(2)] depth(2) by auto
    obtain rs where rs: "traverse (unfold_tree k ops repl emb objects embedded) (gv_children ops v1) = Some rs"
      "fst b2 = fst b' + total_nodes rs" "snd b2 = snd b' + total_bytes rs"
      using rfold_sound [of _ "unfold_tree k ops repl emb objects embedded", OF _ b(3)] Suc.IH [OF depth(3)]
      by blast
    show ?thesis
      using d r e rs b(1) unfolding unfold_Suc_iff charge_Inr_iff by auto
  qed
  show ?case
  proof (cases "gv_reference ops v")
    case None
    then show ?thesis
      using node [of v v] Suc.prems(2) by (simp add: deref_def)
  next
    case (Some i)
    then show ?thesis
      using node [of v "objects ! i" "path @ [i]"] validate_ref [OF Some Suc.prems(2)] by (simp add: deref_def)
  qed
qed

text \<open>
  Completeness. A path is open at a value of \<open>n\<close> nodes when every object on it unfolds, if at all, to
  more than \<open>n\<close> nodes: such an object cannot occur below the value.
\<close>

definition path_above :: "'v list \<Rightarrow> 'x list \<Rightarrow> object_id list \<Rightarrow> nat \<Rightarrow> bool" where
  "path_above objects embedded path n \<longleftrightarrow>
     (\<forall>i\<in>set path. \<forall>k t n' h. unfold_tree k ops repl emb objects embedded (objects ! i) = Some (t, n', h) \<longrightarrow> n < n')"

lemma path_above_less: "path_above objects embedded path n \<Longrightarrow> m < n \<Longrightarrow> path_above objects embedded path m"
  unfolding path_above_def using less_trans by blast

lemma validate_complete:
  "Suc maxd - depth = k \<Longrightarrow> unfold_tree k ops repl emb objects embedded v = Some (t, n, h) \<Longrightarrow>
   path_above objects embedded path n \<Longrightarrow> n \<le> fst b \<Longrightarrow> h \<le> snd b \<Longrightarrow>
   validate ops objects embedded maxd path depth v b = Inr (fst b - n, snd b - h)"
proof (induction k arbitrary: path depth v b t n h)
  case (Suc k)
  then have depth: "depth \<le> maxd" "maxd - depth = k" "Suc maxd - Suc depth = k"
    by simp_all
  obtain v1 v2 n0 h0 rs where u: "deref ops objects v = Some v1" "gv_reference ops v1 = None"
    "emb k embedded v1 = Some (v2, n0, h0)"
    "traverse (unfold_tree k ops repl emb objects embedded) (gv_children ops v1) = Some rs"
    "t = repl v2 (map fst rs)" "n = Suc (n0 + total_nodes rs)" "h = gv_heap_bytes ops v1 + h0 + total_bytes rs"
    using Suc.prems(2) unfolding unfold_Suc_iff by auto
  have node: "validate ops objects embedded maxd path depth v1 b = Inr (fst b - n, snd b - h)"
    if path: "\<And>m. m < n \<Longrightarrow> path_above objects embedded path m" for path
  proof -
    let ?b1 = "(fst b - 1, snd b - gv_heap_bytes ops v1)"
    have c: "charge (gv_heap_bytes ops v1) b = Inr ?b1"
      using Suc.prems(4,5) u by (auto simp: charge_Inr_iff)
    have e: "gv_check_embedded ops embedded maxd depth v1 ?b1 = Inr (fst ?b1 - n0, snd ?b1 - h0)"
      using Suc.prems(4,5) u depth by (intro check_complete) auto
    have "rfold (\<lambda>c b. validate ops objects embedded maxd path (Suc depth) c b) (gv_children ops v1)
        (fst ?b1 - n0, snd ?b1 - h0)
      = Inr (fst ?b1 - n0 - total_nodes rs, snd ?b1 - h0 - total_bytes rs)"
    proof (subst rfold_complete [OF u(4)])
      fix c t m h' b
      assume "unfold_tree k ops repl emb objects embedded c = Some (t, m, h')" "m \<le> total_nodes rs"
        "m \<le> fst b" "h' \<le> snd b"
      then show "validate ops objects embedded maxd path (Suc depth) c b = Inr (fst b - m, snd b - h')"
        using u(6) path [of m] by (intro Suc.IH [OF depth(3)]) auto
    qed (use Suc.prems(4,5) u(6,7) in auto)
    then show ?thesis
      using c e u depth by (subst validate.simps) auto
  qed
  show ?case
  proof (cases "gv_reference ops v")
    case None
    then show ?thesis
      using node [of path] path_above_less [OF Suc.prems(3)] u(1) by (auto simp: deref_def)
  next
    case (Some i)
    then have i: "i < length objects" "objects ! i = v1"
      using u(1) by (auto simp: deref_def split: if_splits)
    have self: "unfold_tree (Suc k) ops repl emb objects embedded (objects ! i) = Some (t, n, h)"
      using u i unfolding unfold_Suc_iff by (auto simp: deref_def)
    then have "i \<notin> set path"
      using Suc.prems(3) unfolding path_above_def by blast
    moreover have "path_above objects embedded (path @ [i]) m" if "m < n" for m
      using Suc.prems(3) that unfold_unique [OF self] by (fastforce simp: path_above_def)
    ultimately show ?thesis
      using Some i u(2) depth node [of "path @ [i]"] by (subst validate.simps) auto
  qed
qed simp

lemma validate_roots:
  assumes "rfold (validate ops objects embedded maxd [] 0) roots b = Inr b'"
  shows "\<exists>rs. traverse (unfold_tree (Suc maxd) ops repl emb objects embedded) roots = Some rs
    \<and> total_nodes rs \<le> fst b \<and> total_bytes rs \<le> snd b"
  using rfold_sound [of _ "unfold_tree (Suc maxd) ops repl emb objects embedded", OF _ assms]
    validate_sound [of maxd 0 "Suc maxd"] by auto

lemma roots_validate:
  assumes "traverse (unfold_tree (Suc maxd) ops repl emb objects embedded) roots = Some rs"
    and "total_nodes rs \<le> fst b" and "total_bytes rs \<le> snd b"
  shows "rfold (validate ops objects embedded maxd [] 0) roots b = Inr (fst b - total_nodes rs, snd b - total_bytes rs)"
  by (rule rfold_complete [OF assms], rule validate_complete) (auto simp: path_above_def)

lemma install_roots:
  assumes "traverse (unfold_tree k ops repl emb objects embedded) roots = Some rs"
  shows "traverse (install k ops objects embedded) roots = Some (map fst rs)"
  using assms unfolding traverse_Some_iff
  by (auto simp: list_all2_map2 intro: install_unfold elim!: list_all2_mono)

text \<open>Expansion returns, and it succeeds with exactly the unfolding when that exists within the limits.\<close>

lemma expand_total: "expand_with_embedded ops roots objects embedded limits \<noteq> None"
  using validate_roots install_roots
  by (fastforce simp: expand_with_embedded_def split: sum.splits)

lemma expand_iff:
  "expand_with_embedded ops roots objects embedded limits = Some (Inr ts) \<longleftrightarrow>
   (\<exists>rs. traverse (unfold_tree (Suc (maximum_depth limits)) ops repl emb objects embedded) roots = Some rs
      \<and> ts = map fst rs \<and> total_nodes rs \<le> maximum_nodes limits \<and> total_bytes rs \<le> maximum_bytes limits)"
  (is "?L \<longleftrightarrow> (\<exists>rs. ?R rs)")
proof
  assume L: ?L
  then obtain b' where "rfold (validate ops objects embedded (maximum_depth limits) [] 0) roots
      (maximum_nodes limits, maximum_bytes limits) = Inr b'"
    by (auto simp: expand_with_embedded_def split: sum.splits)
  from validate_roots [OF this] obtain rs where
    "traverse (unfold_tree (Suc (maximum_depth limits)) ops repl emb objects embedded) roots = Some rs"
    "total_nodes rs \<le> maximum_nodes limits" "total_bytes rs \<le> maximum_bytes limits"
    by auto
  with L install_roots [OF this(1)] show "\<exists>rs. ?R rs"
    by (auto simp: expand_with_embedded_def split: sum.splits)
next
  assume "\<exists>rs. ?R rs"
  then obtain rs where rs: "?R rs"
    by blast
  with roots_validate [of "maximum_depth limits" objects embedded roots rs "(maximum_nodes limits, maximum_bytes limits)"]
    install_roots [of "Suc (maximum_depth limits)" objects embedded roots rs]
  show ?L
    by (simp add: expand_with_embedded_def)
qed

end

end
