(* ===== verification/Amf3.thy ===== *)
theory Amf3
  imports Amf_Graph
begin

text \<open>
  The AMF3 codec of \<open>src/src/amf/amf3.rs\<close>: values, the U29 integers, the encoder with its tables of
  strings, traits and objects, the decoder with the same tables built from the input, documents and
  their expansion. Recursion is bounded by \<open>MAX_DEPTH\<close>: the functions that handle one construct take
  the reader or writer of the next level as an argument, \<open>write_value\<close> and \<open>read_value\<close> tie the knot.

  A string is its UTF-8 bytes, an \<open>f64\<close> its bits, an \<open>i32\<close> its 32 bits (\<open>sint\<close> reads it). The sizes of
  Rust's types in memory, which the byte budget of an expansion counts, are parameters.
  \<open>A3Panic\<close> stands for an index out of range.
\<close>

section \<open>Values\<close>

datatype amf3_value =
    A3Reference object_id
  | A3Undefined
  | A3Null
  | A3Boolean bool
  | A3Integer i32
  | A3Double f64
  | A3String bytes
  | A3XmlDoc bytes
  | A3Date f64
  | A3Array "amf3_value list" "(bytes \<times> amf3_value) list"
  | A3Object "bytes option" "(bytes \<times> amf3_value) list" "(bytes \<times> amf3_value) list option"
  | A3Externalizable bytes amf3_value
  | A3Xml bytes
  | A3ByteArray bytes
  | A3VectorInt bool "i32 list"
  | A3VectorUint bool "u32 list"
  | A3VectorDouble bool "f64 list"
  | A3VectorObject bytes bool "amf3_value list"
  | A3Dictionary bool "(amf3_value \<times> amf3_value) list"

datatype externalizable_layout = NestedAmf3 | StatusBean

definition EXTERNALIZABLE_REGISTRY :: "(bytes \<times> externalizable_layout) list" where
  "EXTERNALIZABLE_REGISTRY =
     [(ascii ''flex.messaging.io.ArrayCollection'', NestedAmf3),
      (ascii ''flex.messaging.io.ArrayList'', NestedAmf3),
      (ascii ''flex.messaging.io.ObjectProxy'', NestedAmf3),
      (ascii ''org.red5.server.net.rtmp.status.Status'', StatusBean)]"

definition externalizable_layout_of :: "bytes \<Rightarrow> externalizable_layout option" where
  "externalizable_layout_of class_name =
     map_option snd (find (\<lambda>(name, _). name = class_name) EXTERNALIZABLE_REGISTRY)"

fun amf3_get_double :: "amf3_value \<Rightarrow> f64 option" where
  "amf3_get_double (A3Double v) = Some v"
| "amf3_get_double (A3Integer v) = Some (f64_of_int (sint v))"
| "amf3_get_double _ = None"

fun amf3_get_string :: "amf3_value \<Rightarrow> bytes option" where
  "amf3_get_string (A3String v) = Some v"
| "amf3_get_string _ = None"

datatype amf3_serialization_error =
    A3SInvalidReference object_id
  | A3SStringTooLong nat
  | A3SCollectionTooLarge nat
  | A3SByteArrayTooLong nat
  | A3SDepthLimit
  | A3SExternalizableUnsupported bytes
  | A3SPanic

datatype amf3_deserialization_error =
    A3ExpansionLimit
  | A3UnexpectedEof
  | A3UnknownMarker u8
  | A3InvalidUtf8
  | A3BadStringReference u32
  | A3BadObjectReference u32
  | A3CyclicReference u32
  | A3BadTraitReference u32
  | A3StringTooLong nat
  | A3CollectionTooLarge nat
  | A3ByteArrayTooLong nat
  | A3DepthLimit
  | A3TooManyReferences
  | A3ExternalizableUnsupported bytes
  | A3BadFormatSelector u8
  | A3TooFewValues nat nat
  | A3BadCommandName
  | A3BadTransactionId
  | A3Panic

definition MAX_STRING_LEN :: nat where
  "MAX_STRING_LEN = 4 * 1024 * 1024"

definition MAX_BYTEARRAY_LEN :: nat where
  "MAX_BYTEARRAY_LEN = 10 * 1024 * 1024"

definition MAX_REFERENCES :: nat where
  "MAX_REFERENCES = 100000"

definition MIN_AMF3_INTEGER :: int where
  "MIN_AMF3_INTEGER = - (2 ^ 28)"

definition MAX_AMF3_INTEGER :: int where
  "MAX_AMF3_INTEGER = 2 ^ 28 - 1"

section \<open>U29 integers\<close>

definition write_u29 :: "u32 \<Rightarrow> bytes" where
  "write_u29 v =
     (let v = v AND 0x1FFFFFFF in
      if v < 0x80 then [ucast v]
      else if v < 0x4000 then [ucast ((drop_bit 7 v AND 0x7F) OR 0x80), ucast (v AND 0x7F)]
      else if v < 0x200000 then
        [ucast ((drop_bit 14 v AND 0x7F) OR 0x80), ucast ((drop_bit 7 v AND 0x7F) OR 0x80), ucast (v AND 0x7F)]
      else
        [ucast ((drop_bit 22 v AND 0x7F) OR 0x80), ucast ((drop_bit 15 v AND 0x7F) OR 0x80),
         ucast ((drop_bit 8 v AND 0x7F) OR 0x80), ucast (v AND 0xFF)])"

text \<open>\<open>left\<close> is the number of bytes still to be read, \<open>4 - i\<close> in the loop of the source.\<close>

primrec read_u29_loop :: "nat \<Rightarrow> u32 \<Rightarrow> bytes \<Rightarrow> amf3_deserialization_error + u32 \<times> bytes" where
  "read_u29_loop 0 v input = Inl A3UnexpectedEof"
| "read_u29_loop (Suc left) v input =
     rbind (ok_or A3UnexpectedEof (read_u8 input))
       (\<lambda>(b, rest).
          if left \<noteq> 0 then
            (let v = push_bit 7 v OR ucast (b AND 0x7F) in
             if b AND 0x80 = 0 then Inr (v, rest) else read_u29_loop left v rest)
          else Inr (push_bit 8 v OR ucast b, rest))"

definition read_u29 :: "bytes \<Rightarrow> amf3_deserialization_error + u32 \<times> bytes" where
  "read_u29 input = read_u29_loop 4 0 input"

definition u29_to_integer :: "u32 \<Rightarrow> i32" where
  "u29_to_integer raw = (if raw AND 0x10000000 \<noteq> 0 then raw OR 0xE0000000 else raw)"

section \<open>Contexts\<close>

record trait_info =
  ti_class_name :: bytes
  ti_sealed_names :: "bytes list"
  ti_dynamic :: bool
  ti_externalizable :: bool

record amf3_encoder =
  ae_objects :: "amf3_value list"
  ae_object_refs :: "(object_id, u32) hash_map"
  ae_next_object :: u32
  ae_strings :: "(bytes, u32) hash_map"
  ae_traits :: "(trait_info, u32) hash_map"

definition amf3_encoder_new :: "amf3_value list \<Rightarrow> amf3_encoder" where
  "amf3_encoder_new objects =
     \<lparr>ae_objects = objects, ae_object_refs = [], ae_next_object = 0, ae_strings = [], ae_traits = []\<rparr>"

definition intern_string :: "bytes \<Rightarrow> amf3_encoder \<Rightarrow> amf3_encoder" where
  "intern_string s c =
     (let n = word_of_nat (hm_len (ae_strings c)) in
      if MAX_REFERENCES \<le> unat n then c else c\<lparr>ae_strings := hm_insert s n (ae_strings c)\<rparr>)"

definition intern_trait :: "trait_info \<Rightarrow> amf3_encoder \<Rightarrow> amf3_encoder" where
  "intern_trait info c =
     (let n = word_of_nat (hm_len (ae_traits c)) in
      if MAX_REFERENCES \<le> unat n then c else c\<lparr>ae_traits := hm_insert info n (ae_traits c)\<rparr>)"

record amf3_decoder =
  ad_strings :: "bytes list"
  ad_objects :: "amf3_value list"
  ad_traits :: "trait_info list"

definition amf3_decoder_new :: amf3_decoder where
  "amf3_decoder_new = \<lparr>ad_strings = [], ad_objects = [], ad_traits = []\<rparr>"

type_synonym 'a amf3_reader = "(amf3_decoder, amf3_deserialization_error, 'a) reader"
type_synonym amf3_writer = "(amf3_encoder, amf3_serialization_error) writer"

definition finish_object :: "nat \<Rightarrow> amf3_value \<Rightarrow> amf3_value amf3_reader" where
  "finish_object i v s =
     (if i < length (ad_objects (snd s))
      then Inr (A3Reference i, (fst s, (snd s)\<lparr>ad_objects := (ad_objects (snd s))[i := v]\<rparr>))
      else Inl A3Panic)"

definition push_object :: "amf3_value \<Rightarrow> unit amf3_reader" where
  "push_object v s =
     (if MAX_REFERENCES \<le> length (ad_objects (snd s)) then Inl A3TooManyReferences
      else Inr ((), (fst s, (snd s)\<lparr>ad_objects := ad_objects (snd s) @ [v]\<rparr>)))"

definition store_object :: "amf3_value \<Rightarrow> amf3_value amf3_reader" where
  "store_object v s =
     (let i = length (ad_objects (snd s)) in
      rbind (push_object A3Null s) (\<lambda>(_, s1). finish_object i v s1))"

definition resolve_object :: "u32 \<Rightarrow> amf3_value amf3_reader" where
  "resolve_object i s =
     (if unat i < length (ad_objects (snd s)) then Inr (A3Reference (unat i), s) else Inl (A3BadObjectReference i))"

definition push_string :: "bytes \<Rightarrow> unit amf3_reader" where
  "push_string x s =
     (if MAX_REFERENCES \<le> length (ad_strings (snd s)) then Inl A3TooManyReferences
      else Inr ((), (fst s, (snd s)\<lparr>ad_strings := ad_strings (snd s) @ [x]\<rparr>)))"

definition push_trait :: "trait_info \<Rightarrow> unit amf3_reader" where
  "push_trait t s =
     (if MAX_REFERENCES \<le> length (ad_traits (snd s)) then Inl A3TooManyReferences
      else Inr ((), (fst s, (snd s)\<lparr>ad_traits := ad_traits (snd s) @ [t]\<rparr>)))"

section \<open>Encoder\<close>

fun object_marker :: "amf3_value \<Rightarrow> u8 option" where
  "object_marker (A3XmlDoc s) = Some 0x07"
| "object_marker (A3Date d) = Some 0x08"
| "object_marker (A3Array dense assoc) = Some 0x09"
| "object_marker (A3Object class_name sealed dynamic) = Some 0x0A"
| "object_marker (A3Externalizable class_name v) = Some 0x0A"
| "object_marker (A3Xml s) = Some 0x0B"
| "object_marker (A3ByteArray bs) = Some 0x0C"
| "object_marker (A3VectorInt fixed vs) = Some 0x0D"
| "object_marker (A3VectorUint fixed vs) = Some 0x0E"
| "object_marker (A3VectorDouble fixed vs) = Some 0x0F"
| "object_marker (A3VectorObject type_name fixed vs) = Some 0x10"
| "object_marker (A3Dictionary weak_keys entries) = Some 0x11"
| "object_marker _ = None"

text \<open>The header of an inline item of a given length: \<open>(len << 1) | 1\<close>.\<close>

definition write_len :: "nat \<Rightarrow> bytes" where
  "write_len n = write_u29 (push_bit 1 (word_of_nat n) OR 1)"

definition write_string_data :: "bytes \<Rightarrow> amf3_writer" where
  "write_string_data s c =
     (if MAX_STRING_LEN < length s then Inl (A3SStringTooLong (length s))
      else if s = [] then Inr (write_u29 1, c)
      else case hm_get (ae_strings c) s of
        Some index \<Rightarrow> Inr (write_u29 (push_bit 1 index), c)
      | None \<Rightarrow> Inr (write_len (length s) @ s, intern_string s c))"

definition write_blob :: "bytes \<Rightarrow> nat \<Rightarrow> amf3_writer" where
  "write_blob bs maximum =
     (if maximum < length bs
      then wfail (if maximum = MAX_BYTEARRAY_LEN then A3SByteArrayTooLong (length bs) else A3SStringTooLong (length bs))
      else emit (write_len (length bs) @ bs))"

definition write_java_utf :: "bytes \<Rightarrow> amf3_writer" where
  "write_java_utf s =
     (if 65535 < length s then wfail (A3SStringTooLong (length s))
      else emit (be16 (word_of_nat (length s)) @ s))"

definition write_members :: "(amf3_value \<Rightarrow> amf3_writer) \<Rightarrow> (bytes \<times> amf3_value) list \<Rightarrow> amf3_writer" where
  "write_members child = wlist (\<lambda>(k, v). wseq (write_string_data k) (child v))"

definition write_traits :: "trait_info \<Rightarrow> u32 \<Rightarrow> bytes list \<Rightarrow> amf3_writer" where
  "write_traits info header names c =
     (case hm_get (ae_traits c) info of
        Some index \<Rightarrow> Inr (write_u29 (push_bit 2 index OR 1), c)
      | None \<Rightarrow>
          wseq (emit (write_u29 header))
            (wseq (wlist write_string_data names) (\<lambda>c. Inr ([], intern_trait info c))) c)"

definition write_object ::
    "(amf3_value \<Rightarrow> amf3_writer) \<Rightarrow> nat \<Rightarrow> bytes option \<Rightarrow> (bytes \<times> amf3_value) list \<Rightarrow>
     (bytes \<times> amf3_value) list option \<Rightarrow> amf3_writer" where
  "write_object child depth class_name sealed dynamic =
     (if \<not> check_depth depth then wfail A3SDepthLimit
      else if MAX_COLLECTION_LEN < length sealed then wfail (A3SCollectionTooLarge (length sealed))
      else if (case dynamic of Some members \<Rightarrow> MAX_COLLECTION_LEN < length members | None \<Rightarrow> False)
        then wfail (A3SCollectionTooLarge (length (the dynamic)))
      else if (0x0FFFFFFF :: u32) < word_of_nat (length sealed) then wfail (A3SCollectionTooLarge (length sealed))
      else
        let name = (case class_name of Some n \<Rightarrow> n | None \<Rightarrow> []);
            info = \<lparr>ti_class_name = name, ti_sealed_names = map fst sealed,
                    ti_dynamic = (dynamic \<noteq> None), ti_externalizable = False\<rparr>;
            header = push_bit 4 (word_of_nat (length sealed)) OR push_bit 3 (of_bool (dynamic \<noteq> None)) OR 3 in
        wseq (emit [0x0A])
          (wseq (write_traits info header (name # map fst sealed))
            (wseq (wlist (\<lambda>(_, v). child v) sealed)
              (case dynamic of
                 None \<Rightarrow> emit []
               | Some members \<Rightarrow> wseq (write_members child members) (write_string_data [])))))"

record status_bean =
  sb_client_id :: f64
  sb_code :: bytes
  sb_description :: bytes
  sb_details :: bytes
  sb_level :: bytes

definition member :: "string \<Rightarrow> (bytes \<times> amf3_value) list \<Rightarrow> amf3_value option" where
  "member name members = map_option snd (find (\<lambda>(k, _). k = ascii name) members)"

definition bean_from_members :: "(bytes \<times> amf3_value) list \<Rightarrow> status_bean option" where
  "bean_from_members members =
     (if length members \<noteq> 5 then None
      else case Option.bind (member ''clientid'' members) amf3_get_double of
        None \<Rightarrow> None
      | Some client_id \<Rightarrow>
          (case traverse (\<lambda>name. Option.bind (member name members) amf3_get_string)
                  [''code'', ''description'', ''details'', ''level''] of
             Some [code, description, details, level] \<Rightarrow>
               Some \<lparr>sb_client_id = client_id, sb_code = code, sb_description = description,
                     sb_details = details, sb_level = level\<rparr>
           | _ \<Rightarrow> None))"

definition bean_into_members :: "status_bean \<Rightarrow> (bytes \<times> amf3_value) list" where
  "bean_into_members bean =
     [(ascii ''clientid'', A3Double (sb_client_id bean)),
      (ascii ''code'', A3String (sb_code bean)),
      (ascii ''description'', A3String (sb_description bean)),
      (ascii ''details'', A3String (sb_details bean)),
      (ascii ''level'', A3String (sb_level bean))]"

definition bean_write_payload :: "status_bean \<Rightarrow> amf3_writer" where
  "bean_write_payload bean =
     wseq (emit (write_f64_be (sb_client_id bean)))
       (wlist write_java_utf [sb_code bean, sb_description bean, sb_details bean, sb_level bean])"

definition write_externalizable_header :: "bytes \<Rightarrow> amf3_writer" where
  "write_externalizable_header class_name =
     wseq (emit [0x0A])
       (write_traits \<lparr>ti_class_name = class_name, ti_sealed_names = [], ti_dynamic = False, ti_externalizable = True\<rparr>
          7 [class_name])"

definition write_status_bean :: "bytes \<Rightarrow> amf3_value \<Rightarrow> amf3_writer" where
  "write_status_bean class_name v =
     (case (case v of A3Object _ [] (Some members) \<Rightarrow> bean_from_members members | _ \<Rightarrow> None) of
        Some bean \<Rightarrow> wseq (write_externalizable_header class_name) (bean_write_payload bean)
      | None \<Rightarrow> wfail (A3SExternalizableUnsupported class_name))"

definition write_externalizable ::
    "(amf3_value \<Rightarrow> amf3_writer) \<Rightarrow> nat \<Rightarrow> bytes \<Rightarrow> amf3_value \<Rightarrow> amf3_writer" where
  "write_externalizable child depth class_name v =
     (if \<not> check_depth depth then wfail A3SDepthLimit
      else case externalizable_layout_of class_name of
        None \<Rightarrow> wfail (A3SExternalizableUnsupported class_name)
      | Some NestedAmf3 \<Rightarrow> wseq (write_externalizable_header class_name) (child v)
      | Some StatusBean \<Rightarrow> write_status_bean class_name v)"

text \<open>A vector: marker, length, the fixed flag and the elements.\<close>

definition write_vector :: "u8 \<Rightarrow> nat \<Rightarrow> bool \<Rightarrow> amf3_writer \<Rightarrow> amf3_writer" where
  "write_vector marker n fixed body =
     (if MAX_COLLECTION_LEN < n then wfail (A3SCollectionTooLarge n)
      else wseq (emit ([marker] @ write_len n @ [of_bool fixed])) body)"

text \<open>
  A value at its place. References are resolved before; their arm is \<open>unreachable!()\<close>, a panic.
\<close>

definition write_inline :: "(amf3_value \<Rightarrow> amf3_writer) \<Rightarrow> nat \<Rightarrow> amf3_value \<Rightarrow> amf3_writer" where
  "write_inline child depth v =
     (case v of
        A3Reference _ \<Rightarrow> wfail A3SPanic
      | A3Undefined \<Rightarrow> emit [0x00]
      | A3Null \<Rightarrow> emit [0x01]
      | A3Boolean b \<Rightarrow> emit [if b then 0x03 else 0x02]
      | A3Integer i \<Rightarrow>
          if sint i < MIN_AMF3_INTEGER \<or> MAX_AMF3_INTEGER < sint i
          then emit (0x05 # write_f64_be (f64_of_int (sint i)))
          else emit (0x04 # write_u29 (i AND 0x1FFFFFFF))
      | A3Double n \<Rightarrow> emit (0x05 # write_f64_be n)
      | A3String s \<Rightarrow> wseq (emit [0x06]) (write_string_data s)
      | A3XmlDoc s \<Rightarrow> wseq (emit [0x07]) (write_blob s MAX_STRING_LEN)
      | A3Date n \<Rightarrow> emit ([0x08] @ write_u29 1 @ write_f64_be n)
      | A3Array dense assoc \<Rightarrow>
          if \<not> check_collection_len (length dense + length assoc)
          then wfail (A3SCollectionTooLarge (length dense + length assoc))
          else wseq (emit (0x09 # write_len (length dense)))
                 (wseq (write_members child assoc)
                   (wseq (write_string_data []) (wlist child dense)))
      | A3Xml s \<Rightarrow> wseq (emit [0x0B]) (write_blob s MAX_STRING_LEN)
      | A3ByteArray bs \<Rightarrow>
          if MAX_BYTEARRAY_LEN < length bs then wfail (A3SByteArrayTooLong (length bs))
          else emit (0x0C # write_len (length bs) @ bs)
      | A3VectorInt fixed vs \<Rightarrow> write_vector 0x0D (length vs) fixed (emit (concat (map be32 vs)))
      | A3VectorUint fixed vs \<Rightarrow> write_vector 0x0E (length vs) fixed (emit (concat (map be32 vs)))
      | A3VectorDouble fixed vs \<Rightarrow> write_vector 0x0F (length vs) fixed (emit (concat (map write_f64_be vs)))
      | A3VectorObject type_name fixed vs \<Rightarrow>
          write_vector 0x10 (length vs) fixed (wseq (write_string_data type_name) (wlist child vs))
      | A3Dictionary weak_keys entries \<Rightarrow>
          write_vector 0x11 (length entries) weak_keys (wlist (\<lambda>(k, v). wseq (child k) (child v)) entries)
      | A3Object class_name sealed dynamic \<Rightarrow> write_object child depth class_name sealed dynamic
      | A3Externalizable class_name v \<Rightarrow> write_externalizable child depth class_name v)"

function (sequential) write_value :: "nat \<Rightarrow> amf3_value \<Rightarrow> amf3_writer" where
  "write_value depth v c =
     (if \<not> check_depth depth then Inl A3SDepthLimit
      else case v of
        A3Reference i \<Rightarrow>
          (if length (ae_objects c) \<le> i then Inl (A3SInvalidReference i)
           else case object_marker (ae_objects c ! i) of
             None \<Rightarrow> Inl (A3SInvalidReference i)
           | Some marker \<Rightarrow>
               (case hm_get (ae_object_refs c) i of
                  Some index \<Rightarrow> Inr (marker # write_u29 (push_bit 1 index), c)
                | None \<Rightarrow>
                    write_value depth (ae_objects c ! i)
                      (c\<lparr>ae_object_refs := hm_insert i (ae_next_object c) (ae_object_refs c)\<rparr>)))
      | _ \<Rightarrow>
          if object_marker v \<noteq> None \<and> MAX_REFERENCES \<le> unat (ae_next_object c)
          then Inl (A3SCollectionTooLarge (unat (ae_next_object c) + 1))
          else write_inline (\<lambda>x c. write_value (Suc depth) x c) depth v
                 (if object_marker v \<noteq> None then c\<lparr>ae_next_object := ae_next_object c + 1\<rparr> else c))"
  by pat_completeness auto
termination
  by (relation "measure (\<lambda>(depth, v, c). 2 * (Suc MAX_DEPTH - depth) + (if object_marker v = None then 1 else 0))")
    (auto simp: check_depth_def)

declare write_value.simps [simp del]

text \<open>The appended output, or the error; on an error the output is left as it was.\<close>

definition amf3_encode_document ::
    "amf3_value list \<Rightarrow> amf3_value list \<Rightarrow> bytes \<Rightarrow> bytes \<times> (amf3_serialization_error + unit)" where
  "amf3_encode_document roots objects out =
     (case wlist (write_value 0) roots (amf3_encoder_new objects) of
        Inl e \<Rightarrow> (out, Inl e)
      | Inr (bs, _) \<Rightarrow> (out @ bs, Inr ()))"

definition amf3_serialize_into :: "amf3_value list \<Rightarrow> bytes \<Rightarrow> bytes \<times> (amf3_serialization_error + unit)" where
  "amf3_serialize_into values out = amf3_encode_document values [] out"

definition amf3_serialize :: "amf3_value list \<Rightarrow> amf3_serialization_error + bytes" where
  "amf3_serialize values =
     (case amf3_serialize_into values [] of (out, Inr _) \<Rightarrow> Inr out | (_, Inl e) \<Rightarrow> Inl e)"

definition amf3_document_serialize :: "amf3_value document \<Rightarrow> amf3_serialization_error + bytes" where
  "amf3_document_serialize d =
     (case amf3_encode_document (doc_roots d) (doc_objects d) [] of (out, Inr _) \<Rightarrow> Inr out | (_, Inl e) \<Rightarrow> Inl e)"

section \<open>Decoder\<close>

definition amf3_read_exact :: "nat \<Rightarrow> bytes \<Rightarrow> amf3_deserialization_error + bytes \<times> bytes" where
  "amf3_read_exact len input =
     (if \<not> length_is_plausible input len then Inl A3UnexpectedEof
      else ok_or A3UnexpectedEof (read_exact_vec input len))"

definition read_marker :: "bytes \<Rightarrow> amf3_deserialization_error + u8 \<times> bytes" where
  "read_marker input = ok_or A3UnexpectedEof (read_u8 input)"

definition read_f64 :: "bytes \<Rightarrow> amf3_deserialization_error + f64 \<times> bytes" where
  "read_f64 input = ok_or A3UnexpectedEof (read_f64_be input)"

definition read_word :: "bytes \<Rightarrow> amf3_deserialization_error + u32 \<times> bytes" where
  "read_word input = ok_or A3UnexpectedEof (read_u32 input)"

definition amf3_read_utf8 :: "nat \<Rightarrow> bytes \<Rightarrow> amf3_deserialization_error + bytes \<times> bytes" where
  "amf3_read_utf8 len input =
     rbind (amf3_read_exact len input)
       (\<lambda>(bs, rest). rbind (ok_or A3InvalidUtf8 (from_utf8 bs)) (\<lambda>s. Inr (s, rest)))"

definition read_string_content :: "bytes amf3_reader" where
  "read_string_content s =
     rbind (lift_read read_u29 s)
       (\<lambda>(u29, s1).
          if u29 AND 1 = 0 then
            (let i = unat (drop_bit 1 u29); strings = ad_strings (snd s1) in
             if i < length strings then Inr (strings ! i, s1) else Inl (A3BadStringReference (drop_bit 1 u29)))
          else
            let len = unat (drop_bit 1 u29) in
            if MAX_STRING_LEN < len then Inl (A3StringTooLong len)
            else if len = 0 then Inr ([], s1)
            else rbind (lift_read (amf3_read_utf8 len) s1)
              (\<lambda>(x, s2). rbind (push_string x s2) (\<lambda>(_, s3). Inr (x, s3))))"

text \<open>
  The common head of the readers of complex values: a U29 whose low bit is clear is a reference to the
  object table, otherwise the rest of it is passed on.
\<close>

definition inline_or_ref :: "(u32 \<Rightarrow> amf3_value amf3_reader) \<Rightarrow> amf3_value amf3_reader" where
  "inline_or_ref k s =
     rbind (lift_read read_u29 s)
       (\<lambda>(u29, s1). if u29 AND 1 = 0 then resolve_object (drop_bit 1 u29) s1 else k u29 s1)"

definition read_text :: "(bytes \<Rightarrow> amf3_value) \<Rightarrow> amf3_value amf3_reader" where
  "read_text mk =
     inline_or_ref (\<lambda>u29 s.
       let len = unat (drop_bit 1 u29) in
       if MAX_STRING_LEN < len then Inl (A3StringTooLong len)
       else rbind (lift_read (amf3_read_utf8 len) s) (\<lambda>(x, s1). store_object (mk x) s1))"

definition read_xml_doc :: "amf3_value amf3_reader" where
  "read_xml_doc = read_text A3XmlDoc"

definition read_xml :: "amf3_value amf3_reader" where
  "read_xml = read_text A3Xml"

definition read_byte_array :: "amf3_value amf3_reader" where
  "read_byte_array =
     inline_or_ref (\<lambda>u29 s.
       let len = unat (drop_bit 1 u29) in
       if MAX_BYTEARRAY_LEN < len then Inl (A3ByteArrayTooLong len)
       else rbind (lift_read (amf3_read_exact len) s) (\<lambda>(bs, s1). store_object (A3ByteArray bs) s1))"

definition read_date :: "amf3_value amf3_reader" where
  "read_date =
     inline_or_ref (\<lambda>u29 s. rbind (lift_read read_f64 s) (\<lambda>(millis, s1). store_object (A3Date millis) s1))"

text \<open>
  A placeholder is pushed before the parts of an object are read and replaced when they are complete.
\<close>

definition with_placeholder :: "'a amf3_reader \<Rightarrow> ('a \<Rightarrow> amf3_value) \<Rightarrow> amf3_value amf3_reader" where
  "with_placeholder body mk s =
     (let placeholder = length (ad_objects (snd s)) in
      rbind (push_object A3Null s)
        (\<lambda>(_, s1). rbind (body s1) (\<lambda>(x, s2). finish_object placeholder (mk x) s2)))"

text \<open>
  The members up to the empty key. In an array the dense elements count against the limit too; an object
  has none (\<open>dense_len = 0\<close>), and then the second test never fails.
\<close>

function (sequential) read_members ::
    "amf3_value amf3_reader \<Rightarrow> nat \<Rightarrow> (bytes \<times> amf3_value) list \<Rightarrow> (bytes \<times> amf3_value) list amf3_reader" where
  "read_members child dense_len acc s =
     rbind (read_string_content s)
       (\<lambda>(key, s1).
          if key = [] then Inr (acc, s1)
          else if MAX_COLLECTION_LEN \<le> length acc then Inl (A3CollectionTooLarge (length acc + 1))
          else rbind (child s1)
            (\<lambda>(v, s2).
               if MAX_COLLECTION_LEN < length (acc @ [(key, v)]) + dense_len
               then Inl (A3CollectionTooLarge (length (acc @ [(key, v)]) + dense_len))
               else read_members child dense_len (acc @ [(key, v)]) s2))"
  by pat_completeness auto
termination
  by (relation "measure (\<lambda>(child, dense_len, acc, s). MAX_COLLECTION_LEN - length acc)") auto

declare read_members.simps [simp del]

definition read_array :: "amf3_value amf3_reader \<Rightarrow> amf3_value amf3_reader" where
  "read_array child =
     inline_or_ref (\<lambda>u29 s.
       let dense_len = unat (drop_bit 1 u29) in
       if MAX_COLLECTION_LEN < dense_len then Inl (A3CollectionTooLarge dense_len)
       else with_placeholder
         (\<lambda>s1. rbind (read_members child dense_len [] s1)
           (\<lambda>(assoc, s2). rbind (read_n dense_len child s2) (\<lambda>(dense, s3). Inr ((dense, assoc), s3))))
         (\<lambda>(dense, assoc). A3Array dense assoc) s)"

definition read_nested_externalizable :: "amf3_value amf3_reader \<Rightarrow> bytes \<Rightarrow> amf3_value amf3_reader" where
  "read_nested_externalizable child class_name = with_placeholder child (A3Externalizable class_name)"

definition read_java_utf :: "bytes \<Rightarrow> amf3_deserialization_error + bytes \<times> bytes" where
  "read_java_utf input =
     rbind (ok_or A3UnexpectedEof (read_u16 input)) (\<lambda>(len, rest). amf3_read_utf8 (unat len) rest)"

definition read_status_bean_payload :: "bytes \<Rightarrow> amf3_deserialization_error + status_bean \<times> bytes" where
  "read_status_bean_payload input =
     rbind (ok_or A3UnexpectedEof (read_f64_be input))
       (\<lambda>(client_id, i1). rbind (read_java_utf i1)
       (\<lambda>(code, i2). rbind (read_java_utf i2)
       (\<lambda>(description, i3). rbind (read_java_utf i3)
       (\<lambda>(details, i4). rbind (read_java_utf i4)
       (\<lambda>(level, i5).
          Inr (\<lparr>sb_client_id = client_id, sb_code = code, sb_description = description,
                sb_details = details, sb_level = level\<rparr>, i5))))))"

definition read_status_bean :: "bytes \<Rightarrow> amf3_value amf3_reader" where
  "read_status_bean class_name =
     with_placeholder
       (\<lambda>s. case lift_read read_status_bean_payload s of
              Inl _ \<Rightarrow> Inl (A3ExternalizableUnsupported class_name)
            | Inr r \<Rightarrow> Inr r)
       (\<lambda>bean. A3Externalizable class_name (A3Object None [] (Some (bean_into_members bean))))"

definition read_traits :: "u32 \<Rightarrow> trait_info amf3_reader" where
  "read_traits header s =
     (if header AND 2 = 0 then
        (let i = unat (drop_bit 2 header); traits = ad_traits (snd s) in
         if i < length traits then Inr (traits ! i, s) else Inl (A3BadTraitReference (word_of_nat i)))
      else
        let ext_flag = (drop_bit 2 header AND 1 \<noteq> 0);
            dyn_flag = (drop_bit 3 header AND 1 \<noteq> 0);
            sealed_count = (if ext_flag then 0 else unat (drop_bit 4 header)) in
        if MAX_COLLECTION_LEN < sealed_count then Inl (A3CollectionTooLarge sealed_count)
        else rbind (read_string_content s)
          (\<lambda>(cn, s1). rbind (read_n sealed_count read_string_content s1)
          (\<lambda>(names, s2).
             let t = \<lparr>ti_class_name = cn, ti_sealed_names = names, ti_dynamic = dyn_flag, ti_externalizable = ext_flag\<rparr> in
             rbind (push_trait t s2) (\<lambda>(_, s3). Inr (t, s3)))))"

definition read_object :: "amf3_value amf3_reader \<Rightarrow> amf3_value amf3_reader" where
  "read_object child =
     inline_or_ref (\<lambda>header s.
       rbind (read_traits header s)
         (\<lambda>(t, s1).
            if ti_externalizable t then
              (case externalizable_layout_of (ti_class_name t) of
                 None \<Rightarrow> Inl (A3ExternalizableUnsupported (ti_class_name t))
               | Some NestedAmf3 \<Rightarrow> read_nested_externalizable child (ti_class_name t) s1
               | Some StatusBean \<Rightarrow> read_status_bean (ti_class_name t) s1)
            else
              with_placeholder
                (\<lambda>s2. rbind (read_n (length (ti_sealed_names t)) child s2)
                  (\<lambda>(vs, s3).
                     if ti_dynamic t then rbind (read_members child 0 [] s3) (\<lambda>(ms, s4). Inr ((vs, Some ms), s4))
                     else Inr ((vs, None), s3)))
                (\<lambda>(vs, dyn). A3Object (if ti_class_name t = [] then None else Some (ti_class_name t))
                               (zip (ti_sealed_names t) vs) dyn)
                s1))"

text \<open>The vectors read their length, the fixed flag and then the elements into a placeholder.\<close>

definition read_vector ::
    "(nat \<Rightarrow> bool \<Rightarrow> amf3_value amf3_reader) \<Rightarrow> amf3_value amf3_reader" where
  "read_vector k =
     inline_or_ref (\<lambda>u29 s.
       let len = unat (drop_bit 1 u29) in
       if MAX_COLLECTION_LEN < len then Inl (A3CollectionTooLarge len)
       else rbind (lift_read read_marker s) (\<lambda>(fixed, s1). k len (fixed \<noteq> 0) s1))"

definition read_vector_int :: "amf3_value amf3_reader" where
  "read_vector_int = read_vector (\<lambda>len fixed. with_placeholder (read_n len (lift_read read_word)) (A3VectorInt fixed))"

definition read_vector_uint :: "amf3_value amf3_reader" where
  "read_vector_uint = read_vector (\<lambda>len fixed. with_placeholder (read_n len (lift_read read_word)) (A3VectorUint fixed))"

definition read_vector_double :: "amf3_value amf3_reader" where
  "read_vector_double = read_vector (\<lambda>len fixed. with_placeholder (read_n len (lift_read read_f64)) (A3VectorDouble fixed))"

definition read_vector_object :: "amf3_value amf3_reader \<Rightarrow> amf3_value amf3_reader" where
  "read_vector_object child =
     read_vector (\<lambda>len fixed s.
       rbind (read_string_content s)
         (\<lambda>(type_name, s1). with_placeholder (read_n len child) (A3VectorObject type_name fixed) s1))"

definition read_pair :: "amf3_value amf3_reader \<Rightarrow> (amf3_value \<times> amf3_value) amf3_reader" where
  "read_pair child s = rbind (child s) (\<lambda>(k, s1). rbind (child s1) (\<lambda>(v, s2). Inr ((k, v), s2)))"

definition read_dictionary :: "amf3_value amf3_reader \<Rightarrow> amf3_value amf3_reader" where
  "read_dictionary child =
     read_vector (\<lambda>len weak_keys. with_placeholder (read_n len (read_pair child)) (A3Dictionary weak_keys))"

definition read_inline :: "amf3_value amf3_reader \<Rightarrow> u8 \<Rightarrow> amf3_value amf3_reader" where
  "read_inline child marker s =
     (if marker = 0x00 then Inr (A3Undefined, s)
      else if marker = 0x01 then Inr (A3Null, s)
      else if marker = 0x02 then Inr (A3Boolean False, s)
      else if marker = 0x03 then Inr (A3Boolean True, s)
      else if marker = 0x04 then rbind (lift_read read_u29 s) (\<lambda>(raw, s1). Inr (A3Integer (u29_to_integer raw), s1))
      else if marker = 0x05 then rbind (lift_read read_f64 s) (\<lambda>(n, s1). Inr (A3Double n, s1))
      else if marker = 0x06 then rbind (read_string_content s) (\<lambda>(x, s1). Inr (A3String x, s1))
      else if marker = 0x07 then read_xml_doc s
      else if marker = 0x08 then read_date s
      else if marker = 0x09 then read_array child s
      else if marker = 0x0A then read_object child s
      else if marker = 0x0B then read_xml s
      else if marker = 0x0C then read_byte_array s
      else if marker = 0x0D then read_vector_int s
      else if marker = 0x0E then read_vector_uint s
      else if marker = 0x0F then read_vector_double s
      else if marker = 0x10 then read_vector_object child s
      else if marker = 0x11 then read_dictionary child s
      else Inl (A3UnknownMarker marker))"

function (sequential) read_value :: "nat \<Rightarrow> amf3_value amf3_reader" where
  "read_value depth s =
     (if \<not> check_depth depth then Inl A3DepthLimit
      else rbind (lift_read read_marker s) (\<lambda>(marker, s1). read_inline (\<lambda>s. read_value (Suc depth) s) marker s1))"
  by pat_completeness auto
termination
  by (relation "measure (\<lambda>(depth, s). Suc MAX_DEPTH - depth)") (auto simp: check_depth_def)

declare read_value.simps [simp del]

definition read_value_with_marker :: "nat \<Rightarrow> u8 \<Rightarrow> amf3_value amf3_reader" where
  "read_value_with_marker depth marker s =
     (if \<not> check_depth depth then Inl A3DepthLimit else read_inline (read_value (Suc depth)) marker s)"

definition read_optional_value :: "nat \<Rightarrow> amf3_value option amf3_reader" where
  "read_optional_value depth s =
     (case fst s of
        [] \<Rightarrow> Inr (None, s)
      | probe # rest \<Rightarrow>
          rbind (read_value_with_marker depth probe (rest, snd s)) (\<lambda>(v, s1). Inr (Some v, s1)))"

function (sequential) amf3_read_roots :: "amf3_value list \<Rightarrow> amf3_value list amf3_reader" where
  "amf3_read_roots roots s =
     rbind (read_optional_value 0 s)
       (\<lambda>(r, s1).
          case r of
            None \<Rightarrow> Inr (roots, s1)
          | Some v \<Rightarrow>
              if MAX_COLLECTION_LEN \<le> length roots then Inl (A3CollectionTooLarge (length roots + 1))
              else amf3_read_roots (roots @ [v]) s1)"
  by pat_completeness auto
termination
  by (relation "measure (\<lambda>(roots, s). MAX_COLLECTION_LEN - length roots)") auto

declare amf3_read_roots.simps [simp del]

definition amf3_deserialize_document :: "bytes \<Rightarrow> amf3_deserialization_error + amf3_value document" where
  "amf3_deserialize_document input =
     rbind (amf3_read_roots [] (input, amf3_decoder_new))
       (\<lambda>(roots, s). Inr (document_from_parts roots (ad_objects (snd s))))"

definition amf3_deserialize_document_single ::
    "bytes \<Rightarrow> amf3_deserialization_error + amf3_value document \<times> bytes" where
  "amf3_deserialize_document_single input =
     rbind (read_value 0 (input, amf3_decoder_new))
       (\<lambda>(v, s). Inr (document_from_parts [v] (ad_objects (snd s)), fst s))"

section \<open>Graph operations\<close>

record amf3_sizes =
  size_amf3_value :: nat
  size_amf3_member :: nat
  size_amf3_entry :: nat

fun amf3_reference :: "amf3_value \<Rightarrow> object_id option" where
  "amf3_reference (A3Reference i) = Some i"
| "amf3_reference _ = None"

definition amf3_pairs_bytes :: "amf3_sizes \<Rightarrow> (bytes \<times> amf3_value) list \<Rightarrow> nat" where
  "amf3_pairs_bytes sizes p =
     saturating_add (saturating_mul (length p) (size_amf3_member sizes)) (sum_list (map (\<lambda>(k, _). length k) p))"

fun amf3_heap_bytes :: "amf3_sizes \<Rightarrow> amf3_value \<Rightarrow> nat" where
  "amf3_heap_bytes sizes (A3String s) = length s"
| "amf3_heap_bytes sizes (A3Xml s) = length s"
| "amf3_heap_bytes sizes (A3XmlDoc s) = length s"
| "amf3_heap_bytes sizes (A3ByteArray b) = length b"
| "amf3_heap_bytes sizes (A3Array dense assoc) =
     saturating_add (saturating_mul (length dense) (size_amf3_value sizes)) (amf3_pairs_bytes sizes assoc)"
| "amf3_heap_bytes sizes (A3Object class_name sealed dynamic) =
     saturating_add
       (saturating_add (case class_name of None \<Rightarrow> 0 | Some s \<Rightarrow> length s) (amf3_pairs_bytes sizes sealed))
       (case dynamic of None \<Rightarrow> 0 | Some p \<Rightarrow> amf3_pairs_bytes sizes p)"
| "amf3_heap_bytes sizes (A3Externalizable class_name v) = length class_name + size_amf3_value sizes"
| "amf3_heap_bytes sizes (A3VectorInt fixed vs) = length vs * 4"
| "amf3_heap_bytes sizes (A3VectorUint fixed vs) = length vs * 4"
| "amf3_heap_bytes sizes (A3VectorDouble fixed vs) = length vs * 8"
| "amf3_heap_bytes sizes (A3VectorObject type_name fixed vs) = length type_name + length vs * size_amf3_value sizes"
| "amf3_heap_bytes sizes (A3Dictionary weak_keys entries) = length entries * size_amf3_entry sizes"
| "amf3_heap_bytes sizes _ = 0"

fun amf3_children :: "amf3_value \<Rightarrow> amf3_value list" where
  "amf3_children (A3Array dense assoc) = dense @ map snd assoc"
| "amf3_children (A3Object class_name sealed dynamic) =
     map snd sealed @ (case dynamic of None \<Rightarrow> [] | Some p \<Rightarrow> map snd p)"
| "amf3_children (A3Externalizable class_name v) = [v]"
| "amf3_children (A3VectorObject type_name fixed vs) = vs"
| "amf3_children (A3Dictionary weak_keys entries) = concat (map (\<lambda>(k, v). [k, v]) entries)"
| "amf3_children _ = []"

definition traverse_snd :: "('a \<Rightarrow> 'b option) \<Rightarrow> ('k \<times> 'a) list \<Rightarrow> ('k \<times> 'b) list option" where
  "traverse_snd f = traverse (\<lambda>(k, v). map_option (Pair k) (f v))"

fun amf3_children_mut :: "(amf3_value \<Rightarrow> amf3_value option) \<Rightarrow> amf3_value \<Rightarrow> amf3_value option" where
  "amf3_children_mut visit (A3Array dense assoc) =
     Option.bind (traverse visit dense) (\<lambda>dense'. map_option (A3Array dense') (traverse_snd visit assoc))"
| "amf3_children_mut visit (A3Object class_name sealed dynamic) =
     Option.bind (traverse_snd visit sealed)
       (\<lambda>sealed'. map_option (A3Object class_name sealed')
         (case dynamic of None \<Rightarrow> Some None | Some p \<Rightarrow> map_option Some (traverse_snd visit p)))"
| "amf3_children_mut visit (A3Externalizable class_name v) = map_option (A3Externalizable class_name) (visit v)"
| "amf3_children_mut visit (A3VectorObject type_name fixed vs) =
     map_option (A3VectorObject type_name fixed) (traverse visit vs)"
| "amf3_children_mut visit (A3Dictionary weak_keys entries) =
     map_option (A3Dictionary weak_keys)
       (traverse (\<lambda>(k, v). Option.bind (visit k) (\<lambda>k'. map_option (Pair k') (visit v))) entries)"
| "amf3_children_mut visit v = Some v"

text \<open>AMF3 values embed nothing: the trait's default methods.\<close>

definition amf3_graph :: "amf3_sizes \<Rightarrow> (amf3_value, amf3_value) graph_ops" where
  "amf3_graph sizes =
     \<lparr>gv_reference = amf3_reference, gv_heap_bytes = amf3_heap_bytes sizes, gv_children = amf3_children,
      gv_children_mut = amf3_children_mut, gv_check_embedded = (\<lambda>_ _ _ _ b. Inr b),
      gv_install_embedded = (\<lambda>_ _ v. Some v)\<rparr>"

definition amf3_to_tree ::
    "amf3_sizes \<Rightarrow> amf3_value document \<Rightarrow> tree_limits \<Rightarrow> (tree_error + amf3_value list) option" where
  "amf3_to_tree sizes d limits = expand (amf3_graph sizes) (doc_roots d) (doc_objects d) limits"

fun amf3_tree_error :: "tree_error \<Rightarrow> amf3_deserialization_error" where
  "amf3_tree_error (Cycle i) = A3CyclicReference (word_of_nat i)"
| "amf3_tree_error (InvalidTreeReference i) = A3BadObjectReference (word_of_nat i)"
| "amf3_tree_error TreeLimit = A3ExpansionLimit"

definition amf3_tree_result ::
    "(tree_error + amf3_value list) option \<Rightarrow> amf3_deserialization_error + amf3_value list" where
  "amf3_tree_result r =
     (case r of None \<Rightarrow> Inl A3Panic | Some (Inl e) \<Rightarrow> Inl (amf3_tree_error e) | Some (Inr vs) \<Rightarrow> Inr vs)"

definition amf3_deserialize :: "amf3_sizes \<Rightarrow> bytes \<Rightarrow> amf3_deserialization_error + amf3_value list" where
  "amf3_deserialize sizes input =
     rbind (amf3_deserialize_document input) (\<lambda>d. amf3_tree_result (amf3_to_tree sizes d tree_limits_default))"

definition amf3_deserialize_single ::
    "amf3_sizes \<Rightarrow> bytes \<Rightarrow> amf3_deserialization_error + amf3_value \<times> bytes" where
  "amf3_deserialize_single sizes input =
     rbind (amf3_deserialize_document_single input)
       (\<lambda>(d, rest). rbind (amf3_tree_result (amf3_to_tree sizes d tree_limits_default))
         (\<lambda>vs. if vs = [] then Inl A3Panic else Inr (last vs, rest)))"

definition decode_avmplus_wrapped ::
    "amf3_sizes \<Rightarrow> bytes \<Rightarrow> amf3_deserialization_error + amf3_value \<times> bytes" where
  "decode_avmplus_wrapped sizes input =
     rbind (ok_or A3UnexpectedEof (read_u8 input))
       (\<lambda>(marker, rest). if marker \<noteq> 0x11 then Inl (A3UnknownMarker marker) else amf3_deserialize_single sizes rest)"

text \<open>Moving a document's values into a larger arena.\<close>

fun relocate :: "nat \<Rightarrow> amf3_value \<Rightarrow> amf3_value" where
  "relocate base (A3Reference i) = A3Reference (i + base)"
| "relocate base (A3Array dense assoc) =
     A3Array (map (relocate base) dense) (map (\<lambda>(k, v). (k, relocate base v)) assoc)"
| "relocate base (A3Object class_name sealed dynamic) =
     A3Object class_name (map (\<lambda>(k, v). (k, relocate base v)) sealed)
       (map_option (map (\<lambda>(k, v). (k, relocate base v))) dynamic)"
| "relocate base (A3Externalizable class_name v) = A3Externalizable class_name (relocate base v)"
| "relocate base (A3VectorObject type_name fixed vs) = A3VectorObject type_name fixed (map (relocate base) vs)"
| "relocate base (A3Dictionary weak_keys entries) =
     A3Dictionary weak_keys (map (\<lambda>(k, v). (relocate base k, relocate base v)) entries)"
| "relocate base v = v"


text \<open>Children are smaller.\<close>

lemma size_mem: "x \<in> set xs \<Longrightarrow> f x < size_list f xs"
  by (induction xs) auto

lemma size_mem_snd: "w \<in> snd ` set ps \<Longrightarrow> g w < size_list (size_prod f g) ps"
  using size_mem [of _ ps "size_prod f g"] by fastforce

lemma size_mem_pair: "(k, w) \<in> set ps \<Longrightarrow> f k + g w < size_list (size_prod f g) ps"
  using size_mem [of "(k, w)" ps "size_prod f g"] by simp

lemma amf3_children_size: "c \<in> set (amf3_children v) \<Longrightarrow> size c < size v"
  by (cases v) (auto dest!: size_mem_snd [where g = size and f = "\<lambda>_. 0"] size_mem [where f = size]
      size_mem_pair [where f = size and g = size] split: option.splits)

end
