(* ===== verification/Amf0.thy ===== *)
theory Amf0
  imports Amf3
begin

text \<open>
  The AMF0 codec of \<open>src/src/amf/amf0.rs\<close>: values, the encoder with its table of objects, the decoder
  with its arena of objects and the arena of embedded AMF3 objects, documents and their expansion, and
  the conversions between the two value models.

  The properties of an object are the entries of an \<open>IndexMap\<close> in its order. The insertion into an
  \<open>IndexMap\<close> is code of another crate and is a parameter, \<open>ins\<close>; what it documents is the hypothesis
  \<open>ins_ok\<close>: a new key goes to the end, a known key keeps its place and gets the new value.

  The loop that reads properties has no bound of its own: a repeated name does not make the map larger.
  Every iteration reads at least the two bytes of a name's length, so the fuel of one more than the bytes
  left is enough; \<open>A0OutOfFuel\<close> is never returned (\<open>Amf0_Safe\<close>). \<open>A0Panic\<close> stands for an index out of
  range or an \<open>unwrap\<close> of nothing.
\<close>

section \<open>Values\<close>

datatype amf0_value =
    A0Reference object_id
  | A0Number f64
  | A0Boolean bool
  | A0Utf8String bytes
  | A0Object "(bytes \<times> amf0_value) list"
  | A0StrictArray "amf0_value list"
  | A0Null
  | A0Undefined
  | A0Date f64 u16
  | A0XmlDocument bytes
  | A0TypedObject bytes "(bytes \<times> amf0_value) list"
  | A0AvmPlus amf3_value

type_synonym amf0_object = "(bytes \<times> amf0_value) list"
type_synonym amf0_insert = "bytes \<Rightarrow> amf0_value \<Rightarrow> amf0_object \<Rightarrow> amf0_object"

definition ins_ok :: "amf0_insert \<Rightarrow> bool" where
  "ins_ok ins \<longleftrightarrow>
     (\<forall>k v m. k \<notin> fst ` set m \<longrightarrow> ins k v m = m @ [(k, v)])
     \<and> (\<forall>k v m. k \<in> fst ` set m \<longrightarrow> ins k v m = map (\<lambda>(k', v'). if k' = k then (k, v) else (k', v')) m)"

fun amf0_as_str :: "amf0_value \<Rightarrow> bytes option" where
  "amf0_as_str (A0Utf8String s) = Some s"
| "amf0_as_str _ = None"

fun amf0_get_number :: "amf0_value \<Rightarrow> f64 option" where
  "amf0_get_number (A0Number n) = Some n"
| "amf0_get_number _ = None"

fun amf0_get_boolean :: "amf0_value \<Rightarrow> bool option" where
  "amf0_get_boolean (A0Boolean b) = Some b"
| "amf0_get_boolean _ = None"

fun amf0_as_object :: "amf0_value \<Rightarrow> amf0_object option" where
  "amf0_as_object (A0Object p) = Some p"
| "amf0_as_object (A0TypedObject class_name p) = Some p"
| "amf0_as_object _ = None"

fun amf0_get_integer :: "amf0_value \<Rightarrow> i32 option" where
  "amf0_get_integer (A0Number n) =
     (case f64_integral n of
        Some i \<Rightarrow> if - (2 ^ 31) \<le> i \<and> i \<le> 2 ^ 31 - 1 then Some (word_of_int i) else None
      | None \<Rightarrow> None)"
| "amf0_get_integer _ = None"

datatype amf0_deserialization_error =
    A0ExpansionLimit
  | A0BadReference u16
  | A0CyclicReference u16
  | A0UnknownMarker u8
  | A0UnexpectedEmptyObjectPropertyName
  | A0UnexpectedEof
  | A0DepthLimit
  | A0CollectionTooLarge nat
  | A0EmbeddedAmf3 amf3_deserialization_error
  | A0BufferReadError
  | A0StringParseError
  | A0Panic
  | A0OutOfFuel

datatype amf0_serialization_error =
    A0SInvalidReference object_id
  | A0SNormalStringTooLong
  | A0SDepthLimit
  | A0SCollectionTooLarge nat
  | A0SEmbeddedAmf3 amf3_serialization_error
  | A0SPanic

section \<open>Encoder\<close>

record amf0_encoder =
  oe_objects :: "amf0_value list"
  oe_embedded :: "amf3_value list"
  oe_refs :: "(object_id, u16) hash_map"
  oe_next :: nat

type_synonym amf0_writer = "(amf0_encoder, amf0_serialization_error) writer"

fun is_complex :: "amf0_value \<Rightarrow> bool" where
  "is_complex (A0Object p) = True"
| "is_complex (A0StrictArray vs) = True"
| "is_complex (A0TypedObject class_name p) = True"
| "is_complex _ = False"

definition serialize_string :: "bytes \<Rightarrow> amf0_writer" where
  "serialize_string s =
     (if AMF0_MAX_STRING_LEN < length s then emit (12 # be32 (word_of_nat (length s)) @ s)
      else emit (2 # be16 (word_of_nat (length s)) @ s))"

definition serialize_object_body ::
    "(amf0_value \<Rightarrow> amf0_writer) \<Rightarrow> nat \<Rightarrow> amf0_object \<Rightarrow> amf0_writer" where
  "serialize_object_body child depth properties =
     (if \<not> check_depth depth then wfail A0SDepthLimit
      else if \<not> check_collection_len (length properties) then wfail (A0SCollectionTooLarge (length properties))
      else
        wseq
          (wlist (\<lambda>(name, v).
             if AMF0_MAX_STRING_LEN < length name then wfail A0SNormalStringTooLong
             else wseq (emit (be16 (word_of_nat (length name)) @ name)) (child v)) properties)
          (emit (be16 0 @ [9])))"

definition serialize_object :: "(amf0_value \<Rightarrow> amf0_writer) \<Rightarrow> nat \<Rightarrow> amf0_object \<Rightarrow> amf0_writer" where
  "serialize_object child depth properties =
     (if \<not> check_depth depth then wfail A0SDepthLimit
      else if \<not> check_collection_len (length properties) then wfail (A0SCollectionTooLarge (length properties))
      else wseq (emit [3]) (serialize_object_body child depth properties))"

definition serialize_strict_array :: "(amf0_value \<Rightarrow> amf0_writer) \<Rightarrow> nat \<Rightarrow> amf0_value list \<Rightarrow> amf0_writer" where
  "serialize_strict_array child depth vs =
     (if \<not> check_depth depth then wfail A0SDepthLimit
      else if \<not> check_collection_len (length vs) then wfail (A0SCollectionTooLarge (length vs))
      else wseq (emit (10 # be32 (word_of_nat (length vs)))) (wlist child vs))"

definition serialize_avmplus :: "amf3_value \<Rightarrow> amf0_writer" where
  "serialize_avmplus inner c =
     (case amf3_encode_document [inner] (oe_embedded c) [] of
        (bs, Inr _) \<Rightarrow> Inr (17 # bs, c)
      | (_, Inl e) \<Rightarrow> Inl (A0SEmbeddedAmf3 e))"

text \<open>
  A value at its place. References are resolved before; their arm is \<open>unreachable!()\<close>, a panic.
\<close>

definition serialize_inline :: "(amf0_value \<Rightarrow> amf0_writer) \<Rightarrow> nat \<Rightarrow> amf0_value \<Rightarrow> amf0_writer" where
  "serialize_inline child depth v =
     (case v of
        A0Reference _ \<Rightarrow> wfail A0SPanic
      | A0Boolean b \<Rightarrow> emit [1, of_bool b]
      | A0Null \<Rightarrow> emit [5]
      | A0Undefined \<Rightarrow> emit [6]
      | A0Number n \<Rightarrow> emit (0 # write_f64_be n)
      | A0Utf8String s \<Rightarrow> serialize_string s
      | A0Object p \<Rightarrow> serialize_object child depth p
      | A0StrictArray vs \<Rightarrow> serialize_strict_array child depth vs
      | A0Date millis timezone \<Rightarrow> emit (11 # write_f64_be millis @ be16 timezone)
      | A0XmlDocument s \<Rightarrow> emit (15 # be32 (word_of_nat (length s)) @ s)
      | A0TypedObject class_name p \<Rightarrow>
          if AMF0_MAX_STRING_LEN < length class_name then wfail A0SNormalStringTooLong
          else wseq (emit (16 # be16 (word_of_nat (length class_name)) @ class_name)) (serialize_object_body child depth p)
      | A0AvmPlus inner \<Rightarrow> serialize_avmplus inner)"

function (sequential) serialize_value :: "nat \<Rightarrow> amf0_value \<Rightarrow> amf0_writer" where
  "serialize_value depth v c =
     (if \<not> check_depth depth then Inl A0SDepthLimit
      else case v of
        A0Reference i \<Rightarrow>
          (if length (oe_objects c) \<le> i then Inl (A0SInvalidReference i)
           else if \<not> is_complex (oe_objects c ! i) then Inl (A0SInvalidReference i)
           else case hm_get (oe_refs c) i of
             Some index \<Rightarrow> Inr (7 # be16 index, c)
           | None \<Rightarrow>
               if 65535 < oe_next c then Inl (A0SCollectionTooLarge (oe_next c))
               else serialize_value depth (oe_objects c ! i)
                      (c\<lparr>oe_refs := hm_insert i (word_of_nat (oe_next c)) (oe_refs c)\<rparr>))
      | _ \<Rightarrow>
          serialize_inline (\<lambda>x c. serialize_value (Suc depth) x c) depth v
            (if is_complex v then c\<lparr>oe_next := oe_next c + 1\<rparr> else c))"
  by pat_completeness auto
termination
  by (relation "measure (\<lambda>(depth, v, c). 2 * (Suc MAX_DEPTH - depth) + (if is_complex v then 0 else 1))")
    (auto simp: check_depth_def)

declare serialize_value.simps [simp del]

definition amf0_encode_document ::
    "amf0_value list \<Rightarrow> amf0_value list \<Rightarrow> amf3_value list \<Rightarrow> bytes \<Rightarrow> bytes \<times> (amf0_serialization_error + unit)" where
  "amf0_encode_document roots objects embedded out =
     (case wlist (serialize_value 0) roots
             \<lparr>oe_objects = objects, oe_embedded = embedded, oe_refs = [], oe_next = 0\<rparr> of
        Inl e \<Rightarrow> (out, Inl e)
      | Inr (bs, _) \<Rightarrow> (out @ bs, Inr ()))"

definition amf0_serialize_into :: "amf0_value list \<Rightarrow> bytes \<Rightarrow> bytes \<times> (amf0_serialization_error + unit)" where
  "amf0_serialize_into values out = amf0_encode_document values [] [] out"

definition amf0_serialize :: "amf0_value list \<Rightarrow> amf0_serialization_error + bytes" where
  "amf0_serialize values =
     (case amf0_serialize_into values [] of (out, Inr _) \<Rightarrow> Inr out | (_, Inl e) \<Rightarrow> Inl e)"


section \<open>Documents\<close>

record amf0_document =
  zd_values :: "amf0_value document"
  zd_embedded :: "amf3_value list"

definition amf0_document_new :: amf0_document where
  "amf0_document_new = \<lparr>zd_values = document_new, zd_embedded = []\<rparr>"

definition amf0_document_resolve :: "amf0_document \<Rightarrow> amf0_value \<Rightarrow> amf0_value option" where
  "amf0_document_resolve d v = (case v of A0Reference i \<Rightarrow> document_get (zd_values d) i | inline \<Rightarrow> Some inline)"

definition get_amf3 :: "amf0_document \<Rightarrow> object_id \<Rightarrow> amf3_value option" where
  "get_amf3 d i = (if i < length (zd_embedded d) then Some (zd_embedded d ! i) else None)"

definition embed_amf3 ::
    "amf0_document \<Rightarrow> amf3_value document \<Rightarrow> amf0_document \<times> (amf3_value document + amf0_value)" where
  "embed_amf3 d document =
     (if length (doc_roots document) \<noteq> 1 then (d, Inl document)
      else
        let base = length (zd_embedded d) in
        (d\<lparr>zd_embedded := zd_embedded d @ map (relocate base) (doc_objects document)\<rparr>,
         Inr (A0AvmPlus (last (map (relocate base) (doc_roots document))))))"

definition amf0_document_serialize :: "amf0_document \<Rightarrow> amf0_serialization_error + bytes" where
  "amf0_document_serialize d =
     (case amf0_encode_document (doc_roots (zd_values d)) (doc_objects (zd_values d)) (zd_embedded d) [] of
        (out, Inr _) \<Rightarrow> Inr out
      | (_, Inl e) \<Rightarrow> Inl e)"

section \<open>Decoder\<close>

record amf0_decoder =
  od_objects :: "amf0_value list"
  od_embedded :: "amf3_value list"

definition amf0_decoder_new :: amf0_decoder where
  "amf0_decoder_new = \<lparr>od_objects = [], od_embedded = []\<rparr>"

type_synonym 'a amf0_reader = "(amf0_decoder, amf0_deserialization_error, 'a) reader"

definition read_checked :: "nat \<Rightarrow> bytes \<Rightarrow> amf0_deserialization_error + bytes \<times> bytes" where
  "read_checked len input =
     (if \<not> length_is_plausible input len then Inl A0UnexpectedEof
      else ok_or A0UnexpectedEof (read_exact_vec input len))"

definition amf0_read_utf8 :: "nat \<Rightarrow> bytes \<Rightarrow> amf0_deserialization_error + bytes \<times> bytes" where
  "amf0_read_utf8 len input =
     rbind (read_checked len input)
       (\<lambda>(bs, rest). rbind (ok_or A0StringParseError (from_utf8 bs)) (\<lambda>s. Inr (s, rest)))"

text \<open>Fixed-width reads fail with the reader's error.\<close>

definition rd8 :: "bytes \<Rightarrow> amf0_deserialization_error + u8 \<times> bytes" where
  "rd8 input = ok_or A0BufferReadError (read_u8 input)"

definition rd16 :: "bytes \<Rightarrow> amf0_deserialization_error + u16 \<times> bytes" where
  "rd16 input = ok_or A0BufferReadError (read_u16 input)"

definition rd32 :: "bytes \<Rightarrow> amf0_deserialization_error + u32 \<times> bytes" where
  "rd32 input = ok_or A0BufferReadError (read_u32 input)"

definition rd_f64 :: "bytes \<Rightarrow> amf0_deserialization_error + f64 \<times> bytes" where
  "rd_f64 input = ok_or A0BufferReadError (read_f64_be input)"

definition parse_number :: "bytes \<Rightarrow> amf0_deserialization_error + amf0_value \<times> bytes" where
  "parse_number input = rbind (rd_f64 input) (\<lambda>(n, rest). Inr (A0Number n, rest))"

definition parse_bool :: "bytes \<Rightarrow> amf0_deserialization_error + amf0_value \<times> bytes" where
  "parse_bool input = rbind (rd8 input) (\<lambda>(b, rest). Inr (A0Boolean (b = 1), rest))"

definition parse_string :: "bytes \<Rightarrow> amf0_deserialization_error + amf0_value \<times> bytes" where
  "parse_string input =
     rbind (rd16 input)
       (\<lambda>(len, i1). rbind (amf0_read_utf8 (unat len) i1) (\<lambda>(s, i2). Inr (A0Utf8String s, i2)))"

definition parse_long_string :: "bytes \<Rightarrow> amf0_deserialization_error + amf0_value \<times> bytes" where
  "parse_long_string input =
     rbind (rd32 input)
       (\<lambda>(len, i1). rbind (amf0_read_utf8 (unat len) i1) (\<lambda>(s, i2). Inr (A0Utf8String s, i2)))"

definition parse_date :: "bytes \<Rightarrow> amf0_deserialization_error + amf0_value \<times> bytes" where
  "parse_date input =
     rbind (rd_f64 input) (\<lambda>(millis, i1). rbind (rd16 i1) (\<lambda>(timezone, i2). Inr (A0Date millis timezone, i2)))"

definition parse_xml_document :: "bytes \<Rightarrow> amf0_deserialization_error + amf0_value \<times> bytes" where
  "parse_xml_document input =
     rbind (rd32 input)
       (\<lambda>(len, i1). rbind (amf0_read_utf8 (unat len) i1) (\<lambda>(s, i2). Inr (A0XmlDocument s, i2)))"

text \<open>The readers of nested values return \<open>None\<close> at the end of the input or at an end marker.\<close>

definition parse_object_property ::
    "amf0_value option amf0_reader \<Rightarrow> (bytes \<times> amf0_value) option amf0_reader" where
  "parse_object_property child s =
     rbind (lift_read rd16 s)
       (\<lambda>(label_length, s1).
          if label_length = 0 then
            rbind (lift_read rd8 s1)
              (\<lambda>(byte, s2). if byte \<noteq> 9 then Inl A0UnexpectedEmptyObjectPropertyName else Inr (None, s2))
          else
            rbind (lift_read (amf0_read_utf8 (unat label_length)) s1)
              (\<lambda>(label, s2). rbind (child s2)
                (\<lambda>(r, s3). case r of None \<Rightarrow> Inl A0UnexpectedEof | Some v \<Rightarrow> Inr (Some (label, v), s3))))"

primrec parse_properties ::
    "nat \<Rightarrow> amf0_insert \<Rightarrow> amf0_value option amf0_reader \<Rightarrow> amf0_object \<Rightarrow> amf0_object amf0_reader" where
  "parse_properties 0 ins child properties s = Inl A0OutOfFuel"
| "parse_properties (Suc fuel) ins child properties s =
     rbind (parse_object_property child s)
       (\<lambda>(r, s1).
          case r of
            None \<Rightarrow> Inr (properties, s1)
          | Some (label, v) \<Rightarrow>
              if \<not> check_collection_len (length properties + 1) then Inl (A0CollectionTooLarge (length properties + 1))
              else parse_properties fuel ins child (ins label v properties) s1)"

definition parse_object ::
    "amf0_insert \<Rightarrow> amf0_value option amf0_reader \<Rightarrow> nat \<Rightarrow> amf0_object amf0_reader" where
  "parse_object ins child depth s =
     (if \<not> check_depth depth then Inl A0DepthLimit
      else parse_properties (Suc (length (fst s))) ins child [] s)"

definition parse_ecma_array ::
    "amf0_insert \<Rightarrow> amf0_value option amf0_reader \<Rightarrow> nat \<Rightarrow> amf0_object amf0_reader" where
  "parse_ecma_array ins child depth s =
     rbind (lift_read rd32 s)
       (\<lambda>(count, s1).
          if \<not> check_collection_len (unat count) then Inl (A0CollectionTooLarge (unat count))
          else parse_object ins child depth s1)"

definition parse_element :: "amf0_value option amf0_reader \<Rightarrow> amf0_value amf0_reader" where
  "parse_element child s =
     rbind (child s) (\<lambda>(r, s1). case r of Some v \<Rightarrow> Inr (v, s1) | None \<Rightarrow> Inl A0UnexpectedEof)"

definition parse_strict_array :: "amf0_value option amf0_reader \<Rightarrow> amf0_value list amf0_reader" where
  "parse_strict_array child s =
     rbind (lift_read rd32 s)
       (\<lambda>(count, s1).
          if \<not> check_collection_len (unat count) then Inl (A0CollectionTooLarge (unat count))
          else read_n (unat count) (parse_element child) s1)"

definition parse_typed_object ::
    "amf0_insert \<Rightarrow> amf0_value option amf0_reader \<Rightarrow> nat \<Rightarrow> (bytes \<times> amf0_object) amf0_reader" where
  "parse_typed_object ins child depth s =
     (if \<not> check_depth depth then Inl A0DepthLimit
      else rbind (lift_read rd16 s)
        (\<lambda>(name_length, s1). rbind (lift_read (amf0_read_utf8 (unat name_length)) s1)
        (\<lambda>(class_name, s2). rbind (parse_object ins child depth s2)
        (\<lambda>(properties, s3). Inr ((class_name, properties), s3)))))"

definition parse_avmplus :: "nat \<Rightarrow> amf0_value amf0_reader" where
  "parse_avmplus depth s =
     (if \<not> check_depth depth then Inl A0DepthLimit
      else case amf3_deserialize_document_single (fst s) of
        Inl e \<Rightarrow> Inl (A0EmbeddedAmf3 e)
      | Inr (document, rest) \<Rightarrow>
          let base = length (od_embedded (snd s)); objects = doc_objects document in
          if \<not> check_collection_len (base + length objects) then Inl (A0CollectionTooLarge (base + length objects))
          else
            let roots = map (relocate base) (doc_roots document) in
            if roots = [] then Inl A0Panic
            else Inr (A0AvmPlus (last roots),
                      (rest, (snd s)\<lparr>od_embedded := od_embedded (snd s) @ map (relocate base) objects\<rparr>)))"

definition referenceable :: "u8 \<Rightarrow> bool" where
  "referenceable marker \<longleftrightarrow> marker \<in> {3, 8, 10, 16}"

definition map_read :: "('a \<Rightarrow> 'b) \<Rightarrow> 'a amf0_reader \<Rightarrow> 'b amf0_reader" where
  "map_read f r s = rbind (r s) (\<lambda>(a, s1). Inr (f a, s1))"

definition parse_marker ::
    "amf0_insert \<Rightarrow> amf0_value option amf0_reader \<Rightarrow> nat \<Rightarrow> u8 \<Rightarrow> amf0_value amf0_reader" where
  "parse_marker ins child depth marker s =
     (if marker = 1 then lift_read parse_bool s
      else if marker = 5 then Inr (A0Null, s)
      else if marker = 6 then Inr (A0Undefined, s)
      else if marker = 0 then lift_read parse_number s
      else if marker = 3 then map_read A0Object (parse_object ins child depth) s
      else if marker = 8 then map_read A0Object (parse_ecma_array ins child depth) s
      else if marker = 2 then lift_read parse_string s
      else if marker = 10 then map_read A0StrictArray (parse_strict_array child) s
      else if marker = 12 then lift_read parse_long_string s
      else if marker = 11 then lift_read parse_date s
      else if marker = 15 then lift_read parse_xml_document s
      else if marker = 16 then map_read (\<lambda>(cn, p). A0TypedObject cn p) (parse_typed_object ins child depth) s
      else if marker = 17 then parse_avmplus depth s
      else Inl (A0UnknownMarker marker))"

definition amf0_push :: "unit amf0_reader" where
  "amf0_push s =
     (let index = length (od_objects (snd s)) in
      if \<not> check_collection_len (index + 1) then Inl (A0CollectionTooLarge (index + 1))
      else Inr ((), (fst s, (snd s)\<lparr>od_objects := od_objects (snd s) @ [A0Null]\<rparr>)))"

definition amf0_finish :: "nat \<Rightarrow> amf0_value \<Rightarrow> amf0_value option amf0_reader" where
  "amf0_finish index v s =
     (if index < length (od_objects (snd s))
      then Inr (Some (A0Reference index), (fst s, (snd s)\<lparr>od_objects := (od_objects (snd s))[index := v]\<rparr>))
      else Inl A0Panic)"

definition amf0_read_reference :: "amf0_value option amf0_reader" where
  "amf0_read_reference s =
     rbind (lift_read rd16 s)
       (\<lambda>(index, s1). if length (od_objects (snd s1)) \<le> unat index then Inl (A0BadReference index)
                      else Inr (Some (A0Reference (unat index)), s1))"

function (sequential) read_next_value :: "amf0_insert \<Rightarrow> nat \<Rightarrow> amf0_value option amf0_reader" where
  "read_next_value ins depth s =
     (if \<not> check_depth depth then Inl A0DepthLimit
      else case fst s of
        [] \<Rightarrow> Inr (None, s)
      | marker # rest \<Rightarrow>
          let s = (rest, snd s); child = (\<lambda>s. read_next_value ins (Suc depth) s) in
          if marker = 9 then Inr (None, s)
          else if marker = 7 then amf0_read_reference s
          else if referenceable marker then
            (let index = length (od_objects (snd s)) in
             rbind (amf0_push s)
               (\<lambda>(_, s1). rbind (parse_marker ins child depth marker s1) (\<lambda>(v, s2). amf0_finish index v s2)))
          else map_read Some (parse_marker ins child depth marker) s)"
  by pat_completeness auto
termination
  by (relation "measure (\<lambda>(ins, depth, s). Suc MAX_DEPTH - depth)") (auto simp: check_depth_def)

declare read_next_value.simps [simp del]

function (sequential) amf0_read_roots :: "amf0_insert \<Rightarrow> amf0_value list \<Rightarrow> amf0_value list amf0_reader" where
  "amf0_read_roots ins roots s =
     rbind (read_next_value ins 0 s)
       (\<lambda>(r, s1).
          case r of
            None \<Rightarrow> Inr (roots, s1)
          | Some v \<Rightarrow>
              if \<not> check_collection_len (length roots + 1) then Inl (A0CollectionTooLarge (length roots + 1))
              else amf0_read_roots ins (roots @ [v]) s1)"
  by pat_completeness auto
termination
  by (relation "measure (\<lambda>(ins, roots, s). MAX_COLLECTION_LEN - length roots)") (auto simp: check_collection_len_def)

declare amf0_read_roots.simps [simp del]

definition amf0_deserialize_document :: "amf0_insert \<Rightarrow> bytes \<Rightarrow> amf0_deserialization_error + amf0_document" where
  "amf0_deserialize_document ins input =
     rbind (amf0_read_roots ins [] (input, amf0_decoder_new))
       (\<lambda>(roots, s). Inr \<lparr>zd_values = document_from_parts roots (od_objects (snd s)), zd_embedded = od_embedded (snd s)\<rparr>)"


section \<open>Graph operations\<close>

record amf0_sizes =
  size_amf0_value :: nat
  size_amf0_member :: nat
  size_nested :: amf3_sizes

fun amf0_reference :: "amf0_value \<Rightarrow> object_id option" where
  "amf0_reference (A0Reference i) = Some i"
| "amf0_reference _ = None"

definition amf0_map_bytes :: "amf0_sizes \<Rightarrow> amf0_object \<Rightarrow> nat" where
  "amf0_map_bytes sizes p =
     saturating_add (saturating_mul (length p) (size_amf0_member sizes)) (sum_list (map (\<lambda>(k, _). length k) p))"

fun amf0_heap_bytes :: "amf0_sizes \<Rightarrow> amf0_value \<Rightarrow> nat" where
  "amf0_heap_bytes sizes (A0Utf8String s) = length s"
| "amf0_heap_bytes sizes (A0XmlDocument s) = length s"
| "amf0_heap_bytes sizes (A0Object p) = amf0_map_bytes sizes p"
| "amf0_heap_bytes sizes (A0TypedObject class_name p) = saturating_add (length class_name) (amf0_map_bytes sizes p)"
| "amf0_heap_bytes sizes (A0StrictArray vs) = length vs * size_amf0_value sizes"
| "amf0_heap_bytes sizes (A0AvmPlus v) = size_amf3_value (size_nested sizes)"
| "amf0_heap_bytes sizes _ = 0"

fun amf0_children :: "amf0_value \<Rightarrow> amf0_value list" where
  "amf0_children (A0Object p) = map snd p"
| "amf0_children (A0TypedObject class_name p) = map snd p"
| "amf0_children (A0StrictArray vs) = vs"
| "amf0_children _ = []"

fun amf0_children_mut :: "(amf0_value \<Rightarrow> amf0_value option) \<Rightarrow> amf0_value \<Rightarrow> amf0_value option" where
  "amf0_children_mut visit (A0Object p) = map_option A0Object (traverse_snd visit p)"
| "amf0_children_mut visit (A0TypedObject class_name p) = map_option (A0TypedObject class_name) (traverse_snd visit p)"
| "amf0_children_mut visit (A0StrictArray vs) = map_option A0StrictArray (traverse visit vs)"
| "amf0_children_mut visit v = Some v"

fun amf0_check_embedded ::
    "amf0_sizes \<Rightarrow> amf3_value list \<Rightarrow> nat \<Rightarrow> nat \<Rightarrow> amf0_value \<Rightarrow> tree_budget \<Rightarrow> tree_error + tree_budget" where
  "amf0_check_embedded sizes objects maxd depth (A0AvmPlus v) b =
     validate (amf3_graph (size_nested sizes)) objects [] maxd [] (depth + 1) v b"
| "amf0_check_embedded sizes objects maxd depth _ b = Inr b"

fun amf0_install_embedded :: "amf0_sizes \<Rightarrow> nat \<Rightarrow> amf3_value list \<Rightarrow> amf0_value \<Rightarrow> amf0_value option" where
  "amf0_install_embedded sizes n objects (A0AvmPlus v) =
     map_option A0AvmPlus (install n (amf3_graph (size_nested sizes)) objects [] v)"
| "amf0_install_embedded sizes n objects v = Some v"

definition amf0_graph :: "amf0_sizes \<Rightarrow> (amf0_value, amf3_value) graph_ops" where
  "amf0_graph sizes =
     \<lparr>gv_reference = amf0_reference, gv_heap_bytes = amf0_heap_bytes sizes, gv_children = amf0_children,
      gv_children_mut = amf0_children_mut, gv_check_embedded = amf0_check_embedded sizes,
      gv_install_embedded = amf0_install_embedded sizes\<rparr>"

definition amf0_to_tree ::
    "amf0_sizes \<Rightarrow> amf0_document \<Rightarrow> tree_limits \<Rightarrow> (tree_error + amf0_value list) option" where
  "amf0_to_tree sizes d limits =
     expand_with_embedded (amf0_graph sizes) (doc_roots (zd_values d)) (doc_objects (zd_values d)) (zd_embedded d) limits"

fun amf0_tree_error :: "tree_error \<Rightarrow> amf0_deserialization_error" where
  "amf0_tree_error (Cycle i) = A0CyclicReference (word_of_nat i)"
| "amf0_tree_error (InvalidTreeReference i) = A0BadReference (word_of_nat i)"
| "amf0_tree_error TreeLimit = A0ExpansionLimit"

definition amf0_tree_result ::
    "(tree_error + amf0_value list) option \<Rightarrow> amf0_deserialization_error + amf0_value list" where
  "amf0_tree_result r =
     (case r of None \<Rightarrow> Inl A0Panic | Some (Inl e) \<Rightarrow> Inl (amf0_tree_error e) | Some (Inr vs) \<Rightarrow> Inr vs)"

definition amf0_deserialize ::
    "amf0_insert \<Rightarrow> amf0_sizes \<Rightarrow> bytes \<Rightarrow> amf0_deserialization_error + amf0_value list" where
  "amf0_deserialize ins sizes input =
     rbind (amf0_deserialize_document ins input) (\<lambda>d. amf0_tree_result (amf0_to_tree sizes d tree_limits_default))"

definition amf0_deserialize_single ::
    "amf0_insert \<Rightarrow> amf0_sizes \<Rightarrow> bytes \<Rightarrow> amf0_deserialization_error + amf0_value \<times> bytes" where
  "amf0_deserialize_single ins sizes input =
     rbind (read_next_value ins 0 (input, amf0_decoder_new))
       (\<lambda>(r, s). case r of
          None \<Rightarrow> Inl A0UnexpectedEof
        | Some v \<Rightarrow>
            let d = \<lparr>zd_values = document_from_parts [v] (od_objects (snd s)), zd_embedded = od_embedded (snd s)\<rparr> in
            rbind (amf0_tree_result (amf0_to_tree sizes d tree_limits_default))
              (\<lambda>vs. if vs = [] then Inl A0Panic else Inr (last vs, fst s)))"

section \<open>Conversions between the value models\<close>

function to_amf3 :: "amf0_value \<Rightarrow> amf3_value" where
  "to_amf3 A0Undefined = A3Undefined"
| "to_amf3 A0Null = A3Null"
| "to_amf3 (A0Boolean b) = A3Boolean b"
| "to_amf3 (A0Reference i) = A3Reference i"
| "to_amf3 (A0Number n) =
     (case f64_integral n of
        Some i \<Rightarrow> if MIN_AMF3_INTEGER \<le> i \<and> i \<le> MAX_AMF3_INTEGER then A3Integer (word_of_int i) else A3Double n
      | None \<Rightarrow> A3Double n)"
| "to_amf3 (A0Utf8String s) = A3String s"
| "to_amf3 (A0Object p) = A3Object None [] (Some (map (\<lambda>(k, v). (k, to_amf3 v)) p))"
| "to_amf3 (A0StrictArray vs) = A3Array (map to_amf3 vs) []"
| "to_amf3 (A0Date millis timezone) = A3Date millis"
| "to_amf3 (A0XmlDocument s) = A3XmlDoc s"
| "to_amf3 (A0TypedObject class_name p) = A3Object (Some class_name) [] (Some (map (\<lambda>(k, v). (k, to_amf3 v)) p))"
| "to_amf3 (A0AvmPlus inner) = inner"
  by pat_completeness auto
termination
proof (relation "measure size")
  show "(v, A0Object p) \<in> measure size" if "(k, v) = x" "x \<in> set p" for v k x p
    using that by (induction p) auto
  show "(v, A0TypedObject cn p) \<in> measure size" if "(k, v) = x" "x \<in> set p" for v k x p cn
    using that by (induction p) auto
  show "(v, A0StrictArray vs) \<in> measure size" if "v \<in> set vs" for v vs
    using that by (induction vs) auto
qed simp

text \<open>Decimal digits, \<open>usize::to_string\<close>.\<close>

fun decimal :: "nat \<Rightarrow> bytes" where
  "decimal n = (if n < 10 then [word_of_nat (48 + n)] else decimal (n div 10) @ [word_of_nat (48 + n mod 10)])"

declare decimal.simps [simp del]

definition insert_all :: "amf0_insert \<Rightarrow> (bytes \<times> amf0_value) list \<Rightarrow> amf0_object" where
  "insert_all ins entries = fold (\<lambda>(k, v). ins k v) entries []"

function to_amf0 :: "amf0_insert \<Rightarrow> amf3_value \<Rightarrow> amf0_value" where
  "to_amf0 ins (A3Reference i) = A0Reference i"
| "to_amf0 ins A3Undefined = A0Undefined"
| "to_amf0 ins A3Null = A0Null"
| "to_amf0 ins (A3Boolean b) = A0Boolean b"
| "to_amf0 ins (A3Integer i) = A0Number (f64_of_int (sint i))"
| "to_amf0 ins (A3Double n) = A0Number n"
| "to_amf0 ins (A3String s) = A0Utf8String s"
| "to_amf0 ins (A3XmlDoc s) = A0XmlDocument s"
| "to_amf0 ins (A3Xml s) = A0XmlDocument s"
| "to_amf0 ins (A3Date n) = A0Date n 0"
| "to_amf0 ins (A3Array dense assoc) =
     (if assoc = [] then A0StrictArray (map (to_amf0 ins) dense)
      else A0Object (insert_all ins
        (zip (map decimal [0..<length dense]) (map (to_amf0 ins) dense) @ map (\<lambda>(k, v). (k, to_amf0 ins v)) assoc)))"
| "to_amf0 ins (A3Object class_name sealed dynamic) =
     (let dynamic = (case dynamic of None \<Rightarrow> [] | Some p \<Rightarrow> p);
          properties = insert_all ins (map (\<lambda>(k, v). (k, to_amf0 ins v)) (sealed @ dynamic)) in
      case class_name of Some name \<Rightarrow> A0TypedObject name properties | None \<Rightarrow> A0Object properties)"
| "to_amf0 ins (A3Externalizable class_name v) = to_amf0 ins v"
| "to_amf0 ins (A3ByteArray bs) = A0AvmPlus (A3ByteArray bs)"
| "to_amf0 ins (A3VectorInt fixed vs) = A0AvmPlus (A3VectorInt fixed vs)"
| "to_amf0 ins (A3VectorUint fixed us) = A0AvmPlus (A3VectorUint fixed us)"
| "to_amf0 ins (A3VectorDouble fixed ds) = A0AvmPlus (A3VectorDouble fixed ds)"
| "to_amf0 ins (A3VectorObject type_name fixed vs) = A0AvmPlus (A3VectorObject type_name fixed vs)"
| "to_amf0 ins (A3Dictionary weak_keys entries) = A0AvmPlus (A3Dictionary weak_keys entries)"
  by pat_completeness auto
termination
  by (relation "measure (size \<circ> snd)")
    (simp, (force simp del: amf3_value.size intro!: amf3_children_size split: option.splits)+)

fun is_amf0_representable :: "amf3_value \<Rightarrow> bool" where
  "is_amf0_representable (A3Externalizable class_name v) = is_amf0_representable v"
| "is_amf0_representable (A3ByteArray bs) = False"
| "is_amf0_representable (A3VectorInt fixed vs) = False"
| "is_amf0_representable (A3VectorUint fixed us) = False"
| "is_amf0_representable (A3VectorDouble fixed ds) = False"
| "is_amf0_representable (A3VectorObject type_name fixed vs) = False"
| "is_amf0_representable (A3Dictionary weak_keys entries) = False"
| "is_amf0_representable _ = True"

lemma amf0_children_size: "c \<in> set (amf0_children v) \<Longrightarrow> size c < size v"
  by (cases v) (auto dest!: size_mem_snd [where g = size and f = "\<lambda>_. 0"] size_mem [where f = size])

end
