(* ===== verification/Control_Messages.thy ===== *)
theory Control_Messages
  imports Raw_Message Amf0
begin

text \<open>
  Protocol messages: \<open>RtmpMessage\<close> of \<open>src/src/messages/mod.rs\<close>, its errors, and the bodies of the
  control messages in \<open>src/src/messages/types/\<close> (set chunk size, abort, acknowledgement, window
  acknowledgement size, peer bandwidth, user control, audio, video, shared object). The type is
  polymorphic in the AMF0 and AMF3 values a command carries; a string is its UTF-8 bytes and an \<open>f64\<close>
  its 64 bits. Writing to a \<open>Vec\<close> cannot fail.
\<close>

section \<open>Data\<close>

datatype peer_bandwidth_limit_type = Hard | Soft | Dynamic

datatype user_control_event_type =
    StreamBegin | StreamEof | StreamDry | SetBufferLength | StreamIsRecorded
  | PingRequest | PingResponse | BufferEmpty | BufferReady

datatype amf_encoding = Amf0 | Amf3

datatype ('a, 'b) rtmp_message =
    Unknown u8 bytes
  | Abort u32
  | Acknowledgement u32
  | Amf0Command bytes u64 'a "'a list"
  | Amf0Data "'a list"
  | Amf3Command bytes u64 'b "'b list" amf_encoding
  | Amf3Data "'b list" amf_encoding
  | Amf0SharedObject bytes
  | Amf3SharedObject bytes
  | AudioData bytes
  | SetChunkSize u32
  | SetPeerBandwidth u32 peer_bandwidth_limit_type
  | UserControl user_control_event_type "u32 option" "u32 option" "rtmp_timestamp option"
  | VideoData bytes
  | WindowAcknowledgement u32

fun get_message_type_id :: "('a, 'b) rtmp_message \<Rightarrow> u8" where
  "get_message_type_id (Unknown type_id data) = type_id"
| "get_message_type_id (Abort stream_id) = 2"
| "get_message_type_id (Acknowledgement n) = 3"
| "get_message_type_id (Amf0Command name tid obj args) = 20"
| "get_message_type_id (Amf0Data values) = 18"
| "get_message_type_id (Amf3Command name tid obj args format) = 17"
| "get_message_type_id (Amf3Data values format) = 15"
| "get_message_type_id (Amf0SharedObject data) = 19"
| "get_message_type_id (Amf3SharedObject data) = 16"
| "get_message_type_id (AudioData data) = 8"
| "get_message_type_id (SetChunkSize n) = 1"
| "get_message_type_id (SetPeerBandwidth n limit_type) = 6"
| "get_message_type_id (UserControl event_type stream_id buffer_length timestamp) = 4"
| "get_message_type_id (VideoData data) = 9"
| "get_message_type_id (WindowAcknowledgement n) = 5"

datatype message_serialization_error =
    InvalidChunkSize
  | Amf0SerializationError amf0_serialization_error
  | Amf3SerializationError amf3_serialization_error
  | MessageWriteIo

datatype message_deserialization_error =
    InvalidMessageFormat
  | Amf0DeserializationError amf0_deserialization_error
  | Amf3DeserializationError amf3_deserialization_error
  | MessageIo
  | MessagePanic

section \<open>Message bodies\<close>

definition set_chunk_size_serialize :: "u32 \<Rightarrow> message_serialization_error + bytes" where
  "set_chunk_size_serialize n = (if n > 0x80000000 - 1 then Inl InvalidChunkSize else Inr (be32 n))"

definition set_chunk_size_deserialize ::
    "bytes \<Rightarrow> message_deserialization_error + ('a, 'b) rtmp_message" where
  "set_chunk_size_deserialize data =
     (case read_u32 data of
        None \<Rightarrow> Inl MessageIo
      | Some (n, _) \<Rightarrow> if n > 0x80000000 - 1 then Inl InvalidMessageFormat else Inr (SetChunkSize n))"

definition abort_serialize :: "u32 \<Rightarrow> bytes" where
  "abort_serialize stream_id = be32 stream_id"

definition abort_deserialize :: "bytes \<Rightarrow> message_deserialization_error + ('a, 'b) rtmp_message" where
  "abort_deserialize data = (case read_u32 data of None \<Rightarrow> Inl MessageIo | Some (n, _) \<Rightarrow> Inr (Abort n))"

definition acknowledgement_serialize :: "u32 \<Rightarrow> bytes" where
  "acknowledgement_serialize sequence_number = be32 sequence_number"

definition acknowledgement_deserialize :: "bytes \<Rightarrow> message_deserialization_error + ('a, 'b) rtmp_message" where
  "acknowledgement_deserialize data =
     (case read_u32 data of None \<Rightarrow> Inl MessageIo | Some (n, _) \<Rightarrow> Inr (Acknowledgement n))"

definition window_acknowledgement_size_serialize :: "u32 \<Rightarrow> bytes" where
  "window_acknowledgement_size_serialize n = be32 n"

definition window_acknowledgement_size_deserialize ::
    "bytes \<Rightarrow> message_deserialization_error + ('a, 'b) rtmp_message" where
  "window_acknowledgement_size_deserialize data =
     (case read_u32 data of None \<Rightarrow> Inl MessageIo | Some (n, _) \<Rightarrow> Inr (WindowAcknowledgement n))"

fun limit_type_id :: "peer_bandwidth_limit_type \<Rightarrow> u8" where
  "limit_type_id Hard = 0"
| "limit_type_id Soft = 1"
| "limit_type_id Dynamic = 2"

definition set_peer_bandwidth_serialize :: "peer_bandwidth_limit_type \<Rightarrow> u32 \<Rightarrow> bytes" where
  "set_peer_bandwidth_serialize limit_type n = be32 n @ [limit_type_id limit_type]"

definition set_peer_bandwidth_deserialize ::
    "bytes \<Rightarrow> message_deserialization_error + ('a, 'b) rtmp_message" where
  "set_peer_bandwidth_deserialize data =
     (case read_u32 data of
        None \<Rightarrow> Inl MessageIo
      | Some (n, rest) \<Rightarrow>
          (case read_u8 rest of
             None \<Rightarrow> Inl MessageIo
           | Some (t, _) \<Rightarrow>
               if t = 0 then Inr (SetPeerBandwidth n Hard)
               else if t = 1 then Inr (SetPeerBandwidth n Soft)
               else if t = 2 then Inr (SetPeerBandwidth n Dynamic)
               else Inl InvalidMessageFormat))"

text \<open>An absent field is written as 0 (the debug assertions are off in release builds).\<close>

definition or_zero :: "u32 option \<Rightarrow> u32" where
  "or_zero x = (case x of Some v \<Rightarrow> v | None \<Rightarrow> 0)"

definition write_stream_event :: "u16 \<Rightarrow> u32 option \<Rightarrow> bytes" where
  "write_stream_event event stream_id = be16 event @ be32 (or_zero stream_id)"

definition write_length_event :: "u16 \<Rightarrow> u32 option \<Rightarrow> u32 option \<Rightarrow> bytes" where
  "write_length_event event stream_id len = be16 event @ be32 (or_zero stream_id) @ be32 (or_zero len)"

definition write_timestamp_event :: "u16 \<Rightarrow> rtmp_timestamp option \<Rightarrow> bytes" where
  "write_timestamp_event event timestamp = be16 event @ be32 (or_zero (map_option ts_value timestamp))"

fun user_control_serialize ::
    "user_control_event_type \<Rightarrow> u32 option \<Rightarrow> u32 option \<Rightarrow> rtmp_timestamp option \<Rightarrow> bytes" where
  "user_control_serialize StreamBegin sid len t = write_stream_event 0 sid"
| "user_control_serialize StreamEof sid len t = write_stream_event 1 sid"
| "user_control_serialize StreamDry sid len t = write_stream_event 2 sid"
| "user_control_serialize SetBufferLength sid len t = write_length_event 3 sid len"
| "user_control_serialize StreamIsRecorded sid len t = write_stream_event 4 sid"
| "user_control_serialize PingRequest sid len t = write_timestamp_event 6 t"
| "user_control_serialize PingResponse sid len t = write_timestamp_event 7 t"
| "user_control_serialize BufferEmpty sid len t = write_stream_event 31 sid"
| "user_control_serialize BufferReady sid len t = write_stream_event 32 sid"

definition event_of_id :: "u16 \<Rightarrow> user_control_event_type option" where
  "event_of_id n =
     (if n = 0 then Some StreamBegin else if n = 1 then Some StreamEof else if n = 2 then Some StreamDry
      else if n = 3 then Some SetBufferLength else if n = 4 then Some StreamIsRecorded
      else if n = 6 then Some PingRequest else if n = 7 then Some PingResponse
      else if n = 31 then Some BufferEmpty else if n = 32 then Some BufferReady else None)"

definition user_control_deserialize :: "bytes \<Rightarrow> message_deserialization_error + ('a, 'b) rtmp_message" where
  "user_control_deserialize data =
     (case read_u16 data of
        None \<Rightarrow> Inl MessageIo
      | Some (n, rest) \<Rightarrow>
          (case event_of_id n of
             None \<Rightarrow> Inl InvalidMessageFormat
           | Some event \<Rightarrow>
               (case read_u32 rest of
                  None \<Rightarrow> Inl MessageIo
                | Some (v, rest') \<Rightarrow>
                    if event = PingRequest \<or> event = PingResponse
                    then Inr (UserControl event None None (Some (ts_new v)))
                    else if event = SetBufferLength
                    then (case read_u32 rest' of
                            None \<Rightarrow> Inl MessageIo
                          | Some (len, _) \<Rightarrow> Inr (UserControl event (Some v) (Some len) None))
                    else Inr (UserControl event (Some v) None None))))"

end
