(* ===== verification/Chunk_Encoder.thy ===== *)
theory Chunk_Encoder
  imports Control_Messages
begin

text \<open>
  The chunk encoder and its packets, \<open>src/src/chunk_io/serializer.rs\<close> with \<open>chunk_header.rs\<close> and
  \<open>serialization_errors.rs\<close>. A packet keeps its payload, the two inline chunk headers and a cursor;
  reading and advancing it is generic in the payload through the operations of \<open>Segments\<close>. \<open>None\<close>
  marks the places where the code would panic or not progress.
\<close>

section \<open>Data\<close>

datatype encode_error =
    MessageTooLong u32
  | EncodeInvalidMaxChunkSize u32
  | SetChunkSizeMessageCreationFailure message_serialization_error

datatype drop_policy = Never | Allowed

datatype header_mode = Compressed | Full

record encode_options =
  eo_drop_policy :: drop_policy
  eo_headers :: header_mode

definition encode_options_default :: encode_options where
  "encode_options_default = \<lparr>eo_drop_policy = Never, eo_headers = Compressed\<rparr>"

datatype chunk_header_format = FormatFull | TimeDeltaWithoutMessageStreamId | TimeDeltaOnly | FormatEmpty

record chunk_header =
  ch_chunk_stream_id :: u32
  ch_timestamp :: rtmp_timestamp
  ch_timestamp_field :: u32
  ch_message_length :: u32
  ch_message_type_id :: u8
  ch_message_stream_id :: u32
  ch_can_be_dropped :: bool

record inline_header =
  ih_bytes :: bytes
  ih_len :: nat

record cursor_state =
  cs_chunk :: nat
  cs_header :: nat
  cs_body :: nat
  cs_segment :: nat
  cs_offset :: nat

record 'p packet =
  pk_payload :: 'p
  pk_first :: inline_header
  pk_continuation :: inline_header
  pk_chunk_size :: nat
  pk_drop_policy :: drop_policy
  pk_state :: cursor_state
  pk_remaining :: nat

record chunk_encoder =
  ce_previous_headers :: "chunk_header option list"
  ce_max_chunk_size :: u32

section \<open>Inline headers\<close>

definition ih_push :: "bytes \<Rightarrow> inline_header \<Rightarrow> inline_header" where
  "ih_push bs h =
     h\<lparr>ih_bytes := take (ih_len h) (ih_bytes h) @ bs @ drop (ih_len h + length bs) (ih_bytes h),
       ih_len := ih_len h + length bs\<rparr>"

definition ih_slice :: "inline_header \<Rightarrow> bytes" where
  "ih_slice h = take (ih_len h) (ih_bytes h)"

fun format_bits :: "chunk_header_format \<Rightarrow> u8" where
  "format_bits FormatFull = 0"
| "format_bits TimeDeltaWithoutMessageStreamId = 1"
| "format_bits TimeDeltaOnly = 2"
| "format_bits FormatEmpty = 3"

definition ih_encode :: "chunk_header \<Rightarrow> chunk_header_format \<Rightarrow> inline_header" where
  "ih_encode header format =
     (let out0 = \<lparr>ih_bytes = replicate 18 0, ih_len = 0\<rparr>;
          out1 = ih_push [push_bit 6 (format_bits format) OR ucast (ch_chunk_stream_id header)] out0;
          out2 = (if format \<noteq> FormatEmpty
                  then let a = ih_push (drop 1 (be32 (min (ch_timestamp_field header) 0xffffff))) out1
                       in if format \<noteq> TimeDeltaOnly
                          then let b = ih_push (drop 1 (be32 (ch_message_length header))) a;
                                   c = ih_push [ch_message_type_id header] b
                               in if format = FormatFull
                                  then ih_push (le32 (ch_message_stream_id header)) c else c
                          else a
                  else out1)
      in if ch_timestamp_field header \<ge> 0xffffff then ih_push (be32 (ch_timestamp_field header)) out2
         else out2)"

section \<open>Packets\<close>

definition div_ceil :: "nat \<Rightarrow> nat \<Rightarrow> nat" where
  "div_ceil a b = (a + b - 1) div b"

definition wire_len :: "'p segments_ops \<Rightarrow> 'p packet \<Rightarrow> nat" where
  "wire_len ops p =
     (let len = seg_len ops (pk_payload p); chunks = max (div_ceil len (pk_chunk_size p)) 1
      in len + ih_len (pk_first p) + (chunks - 1) * ih_len (pk_continuation p))"

definition is_complete :: "'p packet \<Rightarrow> bool" where
  "is_complete p \<longleftrightarrow> pk_remaining p = 0"

definition can_drop :: "'p segments_ops \<Rightarrow> 'p packet \<Rightarrow> bool" where
  "can_drop ops p \<longleftrightarrow> pk_drop_policy p = Allowed \<and> pk_remaining p = wire_len ops p"

text \<open>
  The cursor is the pair of its state and the remaining byte count. \<open>cursor_bytes\<close> is the slice that
  \<open>current\<close> and the body of \<open>io_slices\<close> compute at a position with bytes left.
\<close>

definition chunk_inline :: "'p packet \<Rightarrow> nat \<Rightarrow> inline_header" where
  "chunk_inline p chunk = (if chunk = 0 then pk_first p else pk_continuation p)"

definition cursor_bytes :: "'p segments_ops \<Rightarrow> 'p packet \<Rightarrow> cursor_state \<Rightarrow> bytes option" where
  "cursor_bytes ops p s =
     (let h = chunk_inline p (cs_chunk s); len = seg_len ops (pk_payload p)
      in if cs_header s < ih_len h then Some (drop (cs_header s) (ih_slice h))
      else case seg_at ops (pk_payload p) (cs_segment s) of
          None \<Rightarrow> None
        | Some segment \<Rightarrow>
            if length segment < cs_offset s \<or> pk_chunk_size p < cs_body s
              \<or> len < cs_chunk s * pk_chunk_size p + cs_body s
            then None
            else let n = min (min (length segment - cs_offset s) (pk_chunk_size p - cs_body s))
                           (len - (cs_chunk s * pk_chunk_size p + cs_body s))
                 in Some (take n (drop (cs_offset s) segment)))"

definition current :: "'p segments_ops \<Rightarrow> 'p packet \<Rightarrow> cursor_state \<Rightarrow> nat \<Rightarrow> bytes option option" where
  "current ops p s remaining =
     (if remaining = 0 then Some None else map_option Some (cursor_bytes ops p s))"

text \<open>One round of the loop of \<open>advance\<close>: \<open>n\<close> bytes of the current slice were written.\<close>

definition cursor_step :: "'p segments_ops \<Rightarrow> 'p packet \<Rightarrow> cursor_state \<Rightarrow> nat \<Rightarrow> cursor_state option" where
  "cursor_step ops p s n =
     (if cs_header s < ih_len (chunk_inline p (cs_chunk s)) then Some (s\<lparr>cs_header := cs_header s + n\<rparr>)
      else case seg_at ops (pk_payload p) (cs_segment s) of
          None \<Rightarrow> None
        | Some segment \<Rightarrow>
            let s1 = s\<lparr>cs_body := cs_body s + n, cs_offset := cs_offset s + n\<rparr>;
                s2 = (if cs_offset s1 = length segment
                      then s1\<lparr>cs_segment := cs_segment s1 + 1, cs_offset := 0\<rparr> else s1)
            in Some (if cs_body s2 = pk_chunk_size p
                     then s2\<lparr>cs_chunk := cs_chunk s2 + 1, cs_body := 0, cs_header := 0\<rparr> else s2))"

partial_function (option) cursor_advance_loop ::
    "'p segments_ops \<Rightarrow> 'p packet \<Rightarrow> cursor_state \<Rightarrow> nat \<Rightarrow> nat \<Rightarrow> (cursor_state \<times> nat) option" where
  "cursor_advance_loop ops p s remaining count =
     (if count = 0 then Some (s, remaining)
      else case current ops p s remaining of
          None \<Rightarrow> None
        | Some None \<Rightarrow> None
        | Some (Some b) \<Rightarrow>
            let n = min count (length b)
            in case cursor_step ops p s n of
                 None \<Rightarrow> None
               | Some s' \<Rightarrow>
                   if remaining < n then None
                   else cursor_advance_loop ops p s' (remaining - n) (count - n))"

definition cursor_advance ::
    "'p segments_ops \<Rightarrow> 'p packet \<Rightarrow> cursor_state \<Rightarrow> nat \<Rightarrow> nat \<Rightarrow> (cursor_state \<times> nat) option" where
  "cursor_advance ops p s remaining count =
     (if \<not> count \<le> remaining then None else cursor_advance_loop ops p s remaining count)"

definition packet_advance :: "'p segments_ops \<Rightarrow> 'p packet \<Rightarrow> nat \<Rightarrow> 'p packet option" where
  "packet_advance ops p count =
     map_option (\<lambda>(s, remaining). p\<lparr>pk_state := s, pk_remaining := remaining\<rparr>)
       (cursor_advance ops p (pk_state p) (pk_remaining p) count)"

declare cursor_advance_loop.simps [code]

text \<open>Fill \<open>slots\<close> output slices; unused slots are empty. The second result is the count.\<close>

fun cursor_io_slices ::
    "'p segments_ops \<Rightarrow> 'p packet \<Rightarrow> cursor_state \<Rightarrow> nat \<Rightarrow> nat \<Rightarrow> (bytes list \<times> nat) option" where
  "cursor_io_slices ops p s remaining 0 = Some ([], 0)"
| "cursor_io_slices ops p s remaining (Suc slots) =
     (if remaining = 0
      then map_option (map_prod (Cons []) id) (cursor_io_slices ops p s remaining slots)
      else case cursor_bytes ops p s of
          None \<Rightarrow> None
        | Some b \<Rightarrow>
            (case cursor_advance ops p s remaining (length b) of
               None \<Rightarrow> None
             | Some (s', remaining') \<Rightarrow>
                 map_option (map_prod (Cons b) Suc) (cursor_io_slices ops p s' remaining' slots)))"

definition io_slices :: "'p segments_ops \<Rightarrow> 'p packet \<Rightarrow> nat \<Rightarrow> (bytes list \<times> nat) option" where
  "io_slices ops p slots = cursor_io_slices ops p (pk_state p) (pk_remaining p) slots"

partial_function (option) copy_loop ::
    "'p segments_ops \<Rightarrow> 'p packet \<Rightarrow> cursor_state \<Rightarrow> nat \<Rightarrow> bytes \<Rightarrow> bytes option" where
  "copy_loop ops p s remaining output =
     (case current ops p s remaining of
        None \<Rightarrow> None
      | Some None \<Rightarrow> Some output
      | Some (Some b) \<Rightarrow>
          (case cursor_advance ops p s remaining (length b) of
             None \<Rightarrow> None
           | Some (s', remaining') \<Rightarrow> copy_loop ops p s' remaining' (output @ b)))"

declare copy_loop.simps [code]

definition copy_to :: "'p segments_ops \<Rightarrow> 'p packet \<Rightarrow> bytes \<Rightarrow> bytes option" where
  "copy_to ops p output = copy_loop ops p (pk_state p) (pk_remaining p) output"

definition to_vec :: "'p segments_ops \<Rightarrow> 'p packet \<Rightarrow> bytes option" where
  "to_vec ops p = copy_to ops p []"

section \<open>The encoder\<close>

definition encoder_new :: chunk_encoder where
  "encoder_new = \<lparr>ce_previous_headers = replicate 5 None, ce_max_chunk_size = 128\<rparr>"

definition get_csid_for_message_type :: "u8 \<Rightarrow> u32" where
  "get_csid_for_message_type t =
     (if 1 \<le> t \<and> t \<le> 6 then 2 else if t = 18 \<or> t = 19 then 3 else if t = 9 then 4
      else if t = 8 then 5 else 6)"

text \<open>The header of a message and its format, against the previous header of its chunk stream.\<close>

definition encode_header ::
    "chunk_header option \<Rightarrow> 'd raw_message \<Rightarrow> nat \<Rightarrow> encode_options \<Rightarrow> chunk_header \<times> chunk_header_format" where
  "encode_header slot message len options =
     (let header =
            \<lparr>ch_chunk_stream_id = get_csid_for_message_type (rm_type_id message),
             ch_timestamp = rm_timestamp message,
             ch_timestamp_field = ts_value (rm_timestamp message),
             ch_message_length = word_of_nat len,
             ch_message_type_id = rm_type_id message,
             ch_message_stream_id = rm_message_stream_id message,
             ch_can_be_dropped = (eo_drop_policy options = Allowed)\<rparr>
      in case slot of
           None \<Rightarrow> (header, FormatFull)
         | Some previous \<Rightarrow>
             if eo_headers options \<noteq> Full \<and> \<not> ch_can_be_dropped previous
               \<and> ch_message_stream_id previous = rm_message_stream_id message
             then let header' = header\<lparr>ch_timestamp_field :=
                        ts_value (ts_sub (rm_timestamp message) (ch_timestamp previous))\<rparr>
                  in (header',
                      if ch_message_type_id previous \<noteq> rm_type_id message
                        \<or> ch_message_length previous \<noteq> ch_message_length header'
                      then TimeDeltaWithoutMessageStreamId
                      else if ch_timestamp_field previous \<noteq> ch_timestamp_field header'
                      then TimeDeltaOnly
                      else FormatEmpty)
             else (header, FormatFull))"

definition encode ::
    "'p segments_ops \<Rightarrow> chunk_encoder \<Rightarrow> 'p raw_message \<Rightarrow> encode_options \<Rightarrow>
     chunk_encoder \<times> (encode_error + 'p packet)" where
  "encode ops e message options =
     (let len = seg_len ops (rm_data message)
      in if len > 0xffffff then (e, Inl (MessageTooLong (word_of_nat (min len 0xffffffff))))
      else
        let index = unat (get_csid_for_message_type (rm_type_id message) - 2);
            (header, format) = encode_header (ce_previous_headers e ! index) message len options;
            first = ih_encode header format;
            continuation = ih_encode header (if eo_headers options = Full then FormatFull else FormatEmpty);
            chunk_size = unat (ce_max_chunk_size e)
        in (e\<lparr>ce_previous_headers := (ce_previous_headers e)[index := Some header]\<rparr>,
            Inr \<lparr>pk_payload = rm_data message, pk_first = first, pk_continuation = continuation,
                 pk_chunk_size = chunk_size, pk_drop_policy = eo_drop_policy options,
                 pk_state = \<lparr>cs_chunk = 0, cs_header = 0, cs_body = 0, cs_segment = 0, cs_offset = 0\<rparr>,
                 pk_remaining = ih_len first
                   + (max (div_ceil len chunk_size) 1 - 1) * ih_len continuation + len\<rparr>))"

definition serialize ::
    "chunk_encoder \<Rightarrow> bytes raw_message \<Rightarrow> bool \<Rightarrow> bool \<Rightarrow> chunk_encoder \<times> (encode_error + payload packet)" where
  "serialize e message full droppable =
     encode payload_ops e (rm_map payload_from_bytes message)
       \<lparr>eo_drop_policy = (if droppable then Allowed else Never), eo_headers = (if full then Full else Compressed)\<rparr>"

definition encoder_set_chunk_size ::
    "chunk_encoder \<Rightarrow> u32 \<Rightarrow> rtmp_timestamp \<Rightarrow> chunk_encoder \<times> (encode_error + payload packet)" where
  "encoder_set_chunk_size e new_size time =
     (if new_size = 0 \<or> new_size > 0x7fffffff then (e, Inl (EncodeInvalidMaxChunkSize new_size))
      else case set_chunk_size_serialize new_size of
          Inl err \<Rightarrow> (e, Inl (SetChunkSizeMessageCreationFailure err))
        | Inr data \<Rightarrow>
            let message = \<lparr>rm_timestamp = time, rm_type_id = get_message_type_id (SetChunkSize new_size :: (unit, unit) rtmp_message),
                           rm_message_stream_id = 0, rm_data = payload_from_bytes data\<rparr>
            in case encode payload_ops e message (encode_options_default\<lparr>eo_headers := Full\<rparr>) of
                 (e', Inl err) \<Rightarrow> (e', Inl err)
               | (e', Inr p) \<Rightarrow> (e'\<lparr>ce_max_chunk_size := new_size\<rparr>, Inr p))"

end
