(* ===== verification/Packet_Wire.thy ===== *)
theory Packet_Wire
  imports Chunk_Encoder
begin

text \<open>
  What a packet puts on the wire. \<open>wire\<close> is the specification: the first header and one continuation
  header per further chunk, interleaved with the payload. The cursor of a packet, advanced by any
  amounts a transport accepts, always stands at a suffix of it.
\<close>

section \<open>Specification\<close>

function tail_wire :: "bytes \<Rightarrow> nat \<Rightarrow> bytes \<Rightarrow> bytes" where
  "tail_wire c cs data = (if data = [] \<or> cs = 0 then [] else c @ take cs data @ tail_wire c cs (drop cs data))"
  by pat_completeness auto
termination
  by (relation "measure (\<lambda>(c, cs, data). length data)") auto

declare tail_wire.simps [simp del]

definition wire :: "bytes \<Rightarrow> bytes \<Rightarrow> nat \<Rightarrow> bytes \<Rightarrow> bytes" where
  "wire first c cs data = first @ take cs data @ tail_wire c cs (drop cs data)"

lemma tail_wire_Nil [simp]: "tail_wire c cs [] = []"
  by (simp add: tail_wire.simps)

lemma tail_wire_step: "data \<noteq> [] \<Longrightarrow> 0 < cs \<Longrightarrow> tail_wire c cs data = c @ take cs data @ tail_wire c cs (drop cs data)"
  by (subst tail_wire.simps) simp

lemma div_ceil_less: "0 < cs \<Longrightarrow> 0 < n \<Longrightarrow> div_ceil n cs = Suc (div_ceil (n - cs) cs)"
proof (cases "n \<le> cs")
  case True
  assume "0 < cs" "0 < n"
  then have "(n + cs - 1) div cs = 1" "(cs - 1) div cs = 0"
    using True by (auto intro!: div_nat_eqI)
  then show ?thesis
    using True by (simp add: div_ceil_def)
next
  case False
  assume "0 < cs" "0 < n"
  then have "n + cs - 1 = (n - cs + cs - 1) + cs"
    using False by simp
  then show ?thesis
    using \<open>0 < cs\<close> unfolding div_ceil_def by (metis div_add_self2 Suc_eq_plus1 less_numeral_extra(3))
qed

lemma div_ceil_0 [simp]: "0 < cs \<Longrightarrow> div_ceil 0 cs = 0"
  by (simp add: div_ceil_def)

lemma length_tail_wire: "0 < cs \<Longrightarrow> length (tail_wire c cs data) = length data + div_ceil (length data) cs * length c"
proof (induction c cs data rule: tail_wire.induct)
  case (1 c cs data)
  show ?case
  proof (cases "data = []")
    case False
    then have "length (tail_wire c cs data) = length c + min cs (length data) + length (drop cs data)
        + div_ceil (length (drop cs data)) cs * length c"
      using 1 by (simp add: tail_wire_step)
    then show ?thesis
      using False 1(2) div_ceil_less [of cs "length data"] by (simp add: min_def)
  qed (use 1 in simp)
qed

lemma length_wire:
  assumes "0 < cs"
  shows "length (wire first c cs data) = length first + (max (div_ceil (length data) cs) 1 - 1) * length c + length data"
proof (cases "data = []")
  case False
  then show ?thesis
    using assms div_ceil_less [of cs "length data"] by (simp add: wire_def length_tail_wire min_def)
qed (use assms in \<open>simp add: wire_def\<close>)

section \<open>The cursor\<close>

definition ih_wf :: "inline_header \<Rightarrow> bool" where
  "ih_wf h \<longleftrightarrow> 0 < ih_len h \<and> ih_len h \<le> length (ih_bytes h)"

lemma length_ih_slice: "ih_wf h \<Longrightarrow> length (ih_slice h) = ih_len h"
  by (simp add: ih_wf_def ih_slice_def)

text \<open>
  The slots of a vectored write: slices with bytes in them, a prefix of what is left, then unused slots,
  which stay unused only when everything is offered.
\<close>

definition slices_of :: "bytes \<Rightarrow> nat \<Rightarrow> bytes list \<Rightarrow> nat \<Rightarrow> bool" where
  "slices_of rest slots slices count \<longleftrightarrow> count \<le> slots \<and> length slices = slots
     \<and> (\<forall>j < slots. slices ! j = [] \<longleftrightarrow> count \<le> j)
     \<and> (\<exists>t. rest = concat (take count slices) @ t \<and> (count < slots \<longrightarrow> t = []))
     \<and> (0 < slots \<longrightarrow> rest \<noteq> [] \<longrightarrow> 0 < count)"

lemma slices_of_Cons:
  "slices_of rest slots slices count \<Longrightarrow> b \<noteq> [] \<Longrightarrow> slices_of (b @ rest) (Suc slots) (b # slices) (Suc count)"
  by (auto simp: slices_of_def nth_Cons split: nat.split)

context segments
begin

definition packet_ok :: "'p packet \<Rightarrow> bool" where
  "packet_ok p \<longleftrightarrow> wf (pk_payload p) \<and> ih_wf (pk_first p) \<and> ih_wf (pk_continuation p) \<and> 0 < pk_chunk_size p"

definition cursor_pos :: "'p packet \<Rightarrow> cursor_state \<Rightarrow> nat" where
  "cursor_pos p s = cs_chunk s * pk_chunk_size p + cs_body s"

definition cursor_rest :: "'p packet \<Rightarrow> cursor_state \<Rightarrow> bytes" where
  "cursor_rest p s =
     (let data = contents (pk_payload p); cs = pk_chunk_size p
      in if 0 < cs_chunk s \<and> cs_header s = 0 \<and> cursor_pos p s = length data then []
      else drop (cs_header s) (ih_slice (chunk_inline p (cs_chunk s)))
        @ take (cs - cs_body s) (drop (cursor_pos p s) data)
        @ tail_wire (ih_slice (pk_continuation p)) cs (drop (Suc (cs_chunk s) * cs) data))"

definition segment_ok :: "'p packet \<Rightarrow> cursor_state \<Rightarrow> bool" where
  "segment_ok p s \<longleftrightarrow>
     (if cursor_pos p s = length (contents (pk_payload p))
      then cs_segment s = seg_count ops (pk_payload p) \<and> cs_offset s = 0
      else cs_segment s < seg_count ops (pk_payload p)
        \<and> cs_offset s < length (segs (pk_payload p) ! cs_segment s)
        \<and> seg_pos (segs (pk_payload p)) (cs_segment s) (cs_offset s) = cursor_pos p s)"

definition cursor_ok :: "'p packet \<Rightarrow> cursor_state \<Rightarrow> bool" where
  "cursor_ok p s \<longleftrightarrow> packet_ok p \<and> cs_header s \<le> ih_len (chunk_inline p (cs_chunk s))
     \<and> cs_body s < pk_chunk_size p
     \<and> (cs_header s < ih_len (chunk_inline p (cs_chunk s)) \<longrightarrow> cs_body s = 0)
     \<and> cursor_pos p s \<le> length (contents (pk_payload p)) \<and> segment_ok p s"

lemma chunk_inline_wf: "packet_ok p \<Longrightarrow> ih_wf (chunk_inline p k)"
  by (simp add: packet_ok_def chunk_inline_def)

text \<open>At a position with bytes left, the slice is a nonempty prefix of what is left.\<close>

lemma cursor_bytes_header:
  assumes ok: "cursor_ok p s" and left: "cursor_rest p s \<noteq> []" and hdr: "cs_header s < ih_len (chunk_inline p (cs_chunk s))"
  shows "\<exists>b t. cursor_bytes ops p s = Some b \<and> b \<noteq> [] \<and> cursor_rest p s = b @ t"
    and "0 < n \<Longrightarrow> n \<le> length (the (cursor_bytes ops p s)) \<Longrightarrow> \<exists>s'. cursor_step ops p s n = Some s' \<and> cursor_ok p s'
      \<and> cursor_rest p s' = drop n (cursor_rest p s)"
proof -
  let ?h = "chunk_inline p (cs_chunk s)"
  have wfh: "ih_wf ?h"
    using ok by (simp add: cursor_ok_def chunk_inline_wf)
  have rest: "cursor_rest p s = drop (cs_header s) (ih_slice ?h)
        @ take (pk_chunk_size p - cs_body s) (drop (cursor_pos p s) (contents (pk_payload p)))
        @ tail_wire (ih_slice (pk_continuation p)) (pk_chunk_size p)
            (drop (Suc (cs_chunk s) * pk_chunk_size p) (contents (pk_payload p)))"
    using left by (auto simp: cursor_rest_def Let_def)
  have b: "cursor_bytes ops p s = Some (drop (cs_header s) (ih_slice ?h))"
    using hdr by (simp add: cursor_bytes_def Let_def)
  then show "\<exists>b t. cursor_bytes ops p s = Some b \<and> b \<noteq> [] \<and> cursor_rest p s = b @ t"
    using rest hdr length_ih_slice [OF wfh] by auto
  assume n: "0 < n" "n \<le> length (the (cursor_bytes ops p s))"
  let ?s = "s\<lparr>cs_header := cs_header s + n\<rparr>"
  have len: "cs_header s + n \<le> ih_len ?h"
    using n b length_ih_slice [OF wfh] by simp
  have "cursor_rest p ?s = drop n (cursor_rest p s)"
    unfolding rest using n(1) len length_ih_slice [OF wfh] by (simp add: cursor_rest_def cursor_pos_def Let_def add.commute)
  moreover have "cursor_ok p ?s"
    using ok len hdr by (auto simp: cursor_ok_def segment_ok_def cursor_pos_def)
  ultimately show "\<exists>s'. cursor_step ops p s n = Some s' \<and> cursor_ok p s' \<and> cursor_rest p s' = drop n (cursor_rest p s)"
    using hdr by (simp add: cursor_step_def)
qed

lemma cursor_body:
  assumes ok: "cursor_ok p s" and left: "cursor_rest p s \<noteq> []" and hdr: "\<not> cs_header s < ih_len (chunk_inline p (cs_chunk s))"
  shows "cursor_rest p s = take (pk_chunk_size p - cs_body s) (drop (cursor_pos p s) (contents (pk_payload p)))
        @ tail_wire (ih_slice (pk_continuation p)) (pk_chunk_size p)
            (drop (Suc (cs_chunk s) * pk_chunk_size p) (contents (pk_payload p)))"
    and "cursor_pos p s < length (contents (pk_payload p))"
    and "cs_segment s < seg_count ops (pk_payload p)" and "cs_offset s < length (segs (pk_payload p) ! cs_segment s)"
    and "drop (cursor_pos p s) (contents (pk_payload p)) = drop (cs_offset s) (segs (pk_payload p) ! cs_segment s)
        @ concat (drop (Suc (cs_segment s)) (segs (pk_payload p)))"
proof -
  let ?h = "chunk_inline p (cs_chunk s)" and ?data = "contents (pk_payload p)"
  have wfh: "ih_wf ?h" and wfp: "wf (pk_payload p)" and hd: "cs_header s = ih_len ?h"
    using ok hdr by (auto simp: cursor_ok_def chunk_inline_wf packet_ok_def)
  show rest: "cursor_rest p s = take (pk_chunk_size p - cs_body s) (drop (cursor_pos p s) ?data)
        @ tail_wire (ih_slice (pk_continuation p)) (pk_chunk_size p) (drop (Suc (cs_chunk s) * pk_chunk_size p) ?data)"
    using left hd length_ih_slice [OF wfh] by (auto simp: cursor_rest_def Let_def)
  show pos: "cursor_pos p s < length ?data"
  proof (rule ccontr)
    assume "\<not> cursor_pos p s < length ?data"
    then have all: "length ?data \<le> cursor_pos p s" by simp
    moreover have "cursor_pos p s < Suc (cs_chunk s) * pk_chunk_size p"
      using ok by (simp add: cursor_ok_def cursor_pos_def)
    ultimately have "drop (Suc (cs_chunk s) * pk_chunk_size p) ?data = []" "drop (cursor_pos p s) ?data = []"
      by auto
    then show False
      using left rest by simp
  qed
  then have seg: "cs_segment s < seg_count ops (pk_payload p)" "cs_offset s < length (segs (pk_payload p) ! cs_segment s)"
    "seg_pos (segs (pk_payload p)) (cs_segment s) (cs_offset s) = cursor_pos p s"
    using ok by (auto simp: cursor_ok_def segment_ok_def)
  show "cs_segment s < seg_count ops (pk_payload p)" "cs_offset s < length (segs (pk_payload p) ! cs_segment s)"
    by (rule seg)+
  show "drop (cursor_pos p s) ?data = drop (cs_offset s) (segs (pk_payload p) ! cs_segment s)
        @ concat (drop (Suc (cs_segment s)) (segs (pk_payload p)))"
    using drop_seg_pos [of "cs_segment s" "segs (pk_payload p)" "cs_offset s"] seg concat_segs [OF wfp] by simp
qed

lemma cursor_bytes_body:
  assumes ok: "cursor_ok p s" and left: "cursor_rest p s \<noteq> []" and hdr: "\<not> cs_header s < ih_len (chunk_inline p (cs_chunk s))"
  shows "\<exists>b t. cursor_bytes ops p s = Some b \<and> b \<noteq> [] \<and> cursor_rest p s = b @ t
    \<and> cs_offset s + length b \<le> length (segs (pk_payload p) ! cs_segment s)
    \<and> cs_body s + length b \<le> pk_chunk_size p \<and> cursor_pos p s + length b \<le> length (contents (pk_payload p))"
proof -
  let ?data = "contents (pk_payload p)" and ?seg = "segs (pk_payload p) ! cs_segment s"
  note body = cursor_body [OF assms]
  have wfp: "wf (pk_payload p)" and cs: "cs_body s < pk_chunk_size p"
    using ok by (auto simp: cursor_ok_def packet_ok_def)
  define n where "n = min (min (length ?seg - cs_offset s) (pk_chunk_size p - cs_body s)) (length ?data - cursor_pos p s)"
  let ?b = "take n (drop (cs_offset s) ?seg)"
  have b: "cursor_bytes ops p s = Some ?b"
    using hdr body(2-4) cs seg_at_segs [OF wfp body(3)] len_contents [OF wfp]
    by (simp add: cursor_bytes_def Let_def cursor_pos_def not_less n_def)
  have n: "n \<le> length ?seg - cs_offset s" "n \<le> pk_chunk_size p - cs_body s" "n \<le> length ?data - cursor_pos p s" "0 < n"
    using body(2,4) cs by (auto simp: n_def)
  define L where "L = drop (cursor_pos p s) ?data"
  have "take n L = ?b" "n \<le> length L"
    using n body(5) by (simp_all add: L_def)
  then have "take n (cursor_rest p s) = ?b"
    using n(2) unfolding body(1) L_def [symmetric] by (simp add: take_append min_absorb1)
  then have "cursor_rest p s = ?b @ drop n (cursor_rest p s)"
    by (metis append_take_drop_id)
  moreover have "length ?b = n"
    using n(1) by simp
  moreover have "?b \<noteq> []"
    using n(1,4) by auto
  moreover have "cs_offset s + n \<le> length ?seg" "cs_body s + n \<le> pk_chunk_size p" "cursor_pos p s + n \<le> length ?data"
    using n body(2,4) cs by linarith+
  ultimately show ?thesis
    using b by metis
qed

lemma segment_ok_at:
  assumes wfp: "wf (pk_payload p)" and seg: "cs_segment s \<le> seg_count ops (pk_payload p)"
    and off: "if cs_segment s < seg_count ops (pk_payload p)
      then cs_offset s < length (segs (pk_payload p) ! cs_segment s) else cs_offset s = 0"
    and pos: "seg_pos (segs (pk_payload p)) (cs_segment s) (cs_offset s) = cursor_pos p s"
  shows "segment_ok p s"
proof (cases "cs_segment s < seg_count ops (pk_payload p)")
  case True
  then have "cs_offset s < length (segs (pk_payload p) ! cs_segment s)"
    using off by simp
  moreover have "seg_pos (segs (pk_payload p)) (cs_segment s) (length (segs (pk_payload p) ! cs_segment s))
      \<le> length (contents (pk_payload p))"
    using True seg_pos_le [of "cs_segment s" "segs (pk_payload p)"] concat_segs [OF wfp] by simp
  ultimately have "cursor_pos p s < length (contents (pk_payload p))"
    using pos by (simp add: seg_pos_def)
  then show ?thesis
    using True off pos by (simp add: segment_ok_def)
next
  case False
  then have "cs_segment s = seg_count ops (pk_payload p)" "cs_offset s = 0"
    using seg off by auto
  then show ?thesis
    using pos concat_segs [OF wfp] by (simp add: segment_ok_def seg_pos_def)
qed

text \<open>One round of \<open>advance\<close> moves the cursor along what is left.\<close>

lemma cursor_step_body:
  assumes ok: "cursor_ok p s" and left: "cursor_rest p s \<noteq> []" and hdr: "\<not> cs_header s < ih_len (chunk_inline p (cs_chunk s))"
    and n: "0 < n" "cs_offset s + n \<le> length (segs (pk_payload p) ! cs_segment s)"
      "cs_body s + n \<le> pk_chunk_size p" "cursor_pos p s + n \<le> length (contents (pk_payload p))"
  shows "\<exists>s'. cursor_step ops p s n = Some s' \<and> cursor_ok p s' \<and> cursor_rest p s' = drop n (cursor_rest p s)"
proof -
  let ?data = "contents (pk_payload p)" and ?S = "segs (pk_payload p)" and ?i = "cs_segment s"
  note body = cursor_body [OF ok left hdr]
  have pk: "packet_ok p" and wfp: "wf (pk_payload p)" and hd: "cs_header s = ih_len (chunk_inline p (cs_chunk s))"
    using ok hdr by (auto simp: cursor_ok_def packet_ok_def)
  have pos: "seg_pos ?S ?i (cs_offset s) = cursor_pos p s"
    using ok body(2) by (simp add: cursor_ok_def segment_ok_def)
  define s2 where "s2 = (if cs_offset s + n = length (?S ! ?i)
    then s\<lparr>cs_body := cs_body s + n, cs_segment := ?i + 1, cs_offset := 0\<rparr>
    else s\<lparr>cs_body := cs_body s + n, cs_offset := cs_offset s + n\<rparr>)"
  define s3 where "s3 = (if cs_body s + n = pk_chunk_size p
    then s2\<lparr>cs_chunk := cs_chunk s + 1, cs_body := 0, cs_header := 0\<rparr> else s2)"
  have step: "cursor_step ops p s n = Some s3"
    using hdr seg_at_segs [OF wfp body(3)] by (simp add: cursor_step_def Let_def s3_def s2_def)
  have pos3: "cursor_pos p s3 = cursor_pos p s + n"
    by (auto simp: cursor_pos_def s3_def s2_def)
  have seg3: "cs_segment s3 = (if cs_offset s + n = length (?S ! ?i) then Suc ?i else ?i)"
    "cs_offset s3 = (if cs_offset s + n = length (?S ! ?i) then 0 else cs_offset s + n)"
    by (auto simp: s3_def s2_def)
  have "seg_pos ?S (cs_segment s3) (cs_offset s3) = cursor_pos p s3"
    using pos body(3) seg_pos_add [of ?S ?i "cs_offset s" n] by (auto simp: seg3 pos3 seg_pos_Suc)
  then have "segment_ok p s3"
    using n body(3) by (intro segment_ok_at) (use wfp pos3 segs_nonempty [OF wfp] in \<open>auto simp: seg3\<close>)
  then have ok3: "cursor_ok p s3"
    using ok n pos3 hd pk by (auto simp: cursor_ok_def s3_def s2_def chunk_inline_def packet_ok_def)
  have "cursor_rest p s3 = drop n (cursor_rest p s)"
  proof (cases "cs_body s + n = pk_chunk_size p")
    case True
    then have next_chunk: "Suc (cs_chunk s) * pk_chunk_size p = cursor_pos p s + n"
      by (simp add: cursor_pos_def)
    have drop_rest: "drop n (cursor_rest p s) = tail_wire (ih_slice (pk_continuation p)) (pk_chunk_size p) (drop (cursor_pos p s3) ?data)"
      unfolding body(1) next_chunk pos3 using True n(4) by simp
    have s3: "cs_chunk s3 = Suc (cs_chunk s)" "cs_body s3 = 0" "cs_header s3 = 0"
      using True by (simp_all add: s3_def)
    show ?thesis
    proof (cases "cursor_pos p s3 = length ?data")
      case True
      then show ?thesis
        using drop_rest s3 by (simp add: cursor_rest_def)
    next
      case False
      then have "drop (cursor_pos p s3) ?data \<noteq> []"
        using pos3 n(4) by simp
      moreover have "drop (pk_chunk_size p) (drop (cursor_pos p s3) ?data) = drop (Suc (cs_chunk s3) * pk_chunk_size p) ?data"
        using s3 by (simp add: cursor_pos_def add.commute)
      ultimately show ?thesis
        using drop_rest s3 False pk
        by (simp add: cursor_rest_def Let_def chunk_inline_def packet_ok_def tail_wire_step)
    qed
  next
    case False
    then have s3: "cs_chunk s3 = cs_chunk s" "cs_body s3 = cs_body s + n" "cs_header s3 = cs_header s"
      by (simp_all add: s3_def s2_def)
    have wfh: "ih_wf (chunk_inline p (cs_chunk s))"
      using chunk_inline_wf [OF pk] .
    have "cursor_rest p s3 = take (pk_chunk_size p - (cs_body s + n)) (drop (cursor_pos p s + n) ?data)
        @ tail_wire (ih_slice (pk_continuation p)) (pk_chunk_size p) (drop (Suc (cs_chunk s) * pk_chunk_size p) ?data)"
      using s3 pos3 hd length_ih_slice [OF wfh] wfh by (simp add: cursor_rest_def Let_def ih_wf_def)
    moreover have "n - min (length ?data - cursor_pos p s) (pk_chunk_size p - cs_body s) = 0"
      using n(3,4) by auto
    ultimately show ?thesis
      unfolding body(1) using n by (simp add: drop_take add.commute)
  qed
  then show ?thesis
    using step ok3 by blast
qed

text \<open>
  \<open>current\<close> and the loop of \<open>advance\<close>, at any position: as long as bytes are left there is a nonempty
  slice, and advancing by any part of it moves along.
\<close>

lemma cursor_current:
  assumes "cursor_ok p s" and "cursor_rest p s \<noteq> []"
  shows "\<exists>b t. cursor_bytes ops p s = Some b \<and> b \<noteq> [] \<and> cursor_rest p s = b @ t
    \<and> (\<forall>n. 0 < n \<longrightarrow> n \<le> length b \<longrightarrow> (\<exists>s'. cursor_step ops p s n = Some s' \<and> cursor_ok p s'
         \<and> cursor_rest p s' = drop n (cursor_rest p s)))"
proof (cases "cs_header s < ih_len (chunk_inline p (cs_chunk s))")
  case True
  then show ?thesis
    using cursor_bytes_header [OF assms True] by fastforce
next
  case False
  obtain b t where b: "cursor_bytes ops p s = Some b" "b \<noteq> []" "cursor_rest p s = b @ t"
    "cs_offset s + length b \<le> length (segs (pk_payload p) ! cs_segment s)"
    "cs_body s + length b \<le> pk_chunk_size p" "cursor_pos p s + length b \<le> length (contents (pk_payload p))"
    using cursor_bytes_body [OF assms False] by blast
  have "\<exists>s'. cursor_step ops p s n = Some s' \<and> cursor_ok p s' \<and> cursor_rest p s' = drop n (cursor_rest p s)"
    if "0 < n" "n \<le> length b" for n
    by (rule cursor_step_body [OF assms False that(1)]) (use that b in auto)
  then show ?thesis
    using b by blast
qed

lemma cursor_advance_loop_ok:
  "cursor_ok p s \<Longrightarrow> remaining = length (cursor_rest p s) \<Longrightarrow> count \<le> remaining \<Longrightarrow>
   \<exists>s'. cursor_advance_loop ops p s remaining count = Some (s', remaining - count) \<and> cursor_ok p s'
     \<and> cursor_rest p s' = drop count (cursor_rest p s)"
proof (induction count arbitrary: s remaining rule: less_induct)
  case (less count)
  show ?case
  proof (cases "count = 0")
    case True
    then show ?thesis
      using less.prems by (subst cursor_advance_loop.simps) simp
  next
    case False
    then have "cursor_rest p s \<noteq> []"
      using less.prems by auto
    from cursor_current [OF less.prems(1) this] obtain b t where b: "cursor_bytes ops p s = Some b" "b \<noteq> []"
      "cursor_rest p s = b @ t"
      and step: "\<And>n. 0 < n \<Longrightarrow> n \<le> length b \<Longrightarrow> \<exists>s'. cursor_step ops p s n = Some s' \<and> cursor_ok p s'
         \<and> cursor_rest p s' = drop n (cursor_rest p s)"
      by blast
    define n where "n = min count (length b)"
    have n: "0 < n" "n \<le> length b" "n \<le> count" "n \<le> remaining"
      using False b less.prems by (auto simp: n_def)
    obtain s1 where s1: "cursor_step ops p s n = Some s1" "cursor_ok p s1" "cursor_rest p s1 = drop n (cursor_rest p s)"
      using step [OF n(1,2)] by blast
    have eq: "cursor_advance_loop ops p s remaining count = cursor_advance_loop ops p s1 (remaining - n) (count - n)"
      using False b(1) s1(1) n less.prems(2,3)
      by (subst cursor_advance_loop.simps) (auto simp: current_def n_def [symmetric] Let_def)
    have "\<exists>s'. cursor_advance_loop ops p s1 (remaining - n) (count - n) = Some (s', remaining - n - (count - n))
        \<and> cursor_ok p s' \<and> cursor_rest p s' = drop (count - n) (cursor_rest p s1)"
      by (rule less.IH) (use n s1 less.prems False in auto)
    then show ?thesis
      using eq n s1(3) by auto
  qed
qed

lemma cursor_advance_ok:
  assumes "cursor_ok p s" and "count \<le> length (cursor_rest p s)"
  shows "\<exists>s'. cursor_advance ops p s (length (cursor_rest p s)) count = Some (s', length (cursor_rest p s) - count)
    \<and> cursor_ok p s' \<and> cursor_rest p s' = drop count (cursor_rest p s)"
  using cursor_advance_loop_ok [OF assms(1) refl assms(2)] assms(2) by (simp add: cursor_advance_def)

lemma copy_loop_ok:
  "cursor_ok p s \<Longrightarrow> copy_loop ops p s (length (cursor_rest p s)) out = Some (out @ cursor_rest p s)"
proof (induction "length (cursor_rest p s)" arbitrary: s out rule: less_induct)
  case less
  show ?case
  proof (cases "cursor_rest p s = []")
    case True
    then show ?thesis
      by (subst copy_loop.simps) (simp add: current_def)
  next
    case False
    then obtain b t where b: "cursor_bytes ops p s = Some b" "b \<noteq> []" "cursor_rest p s = b @ t"
      using cursor_current [OF less.prems] by blast
    obtain s1 where s1: "cursor_advance ops p s (length (cursor_rest p s)) (length b) = Some (s1, length t)"
      "cursor_ok p s1" "cursor_rest p s1 = t"
      using cursor_advance_ok [OF less.prems, of "length b"] b by auto
    have "copy_loop ops p s (length (cursor_rest p s)) out = copy_loop ops p s1 (length t) (out @ b)"
      using False b(1) s1(1) by (subst copy_loop.simps) (simp add: current_def)
    also have "\<dots> = Some ((out @ b) @ t)"
      using less.hyps [of s1 "out @ b"] s1 b by simp
    finally show ?thesis
      using b by simp
  qed
qed

lemma cursor_io_slices_ok:
  "cursor_ok p s \<Longrightarrow> \<exists>slices count. cursor_io_slices ops p s (length (cursor_rest p s)) slots = Some (slices, count)
     \<and> slices_of (cursor_rest p s) slots slices count"
proof (induction slots arbitrary: s)
  case 0
  then show ?case by (simp add: slices_of_def)
next
  case (Suc slots)
  show ?case
  proof (cases "cursor_rest p s = []")
    case True
    then obtain slices count where ih: "cursor_io_slices ops p s 0 slots = Some (slices, count)"
      "slices_of [] slots slices count"
      using Suc.IH [OF Suc.prems] by auto
    have "slices ! 0 \<noteq> [] \<Longrightarrow> slots \<noteq> 0 \<Longrightarrow> concat (take count slices) \<noteq> []"
      using ih(2) by (cases slices; cases count) (auto simp: slices_of_def)
    then have "count = 0"
      using ih(2) by (cases "slots = 0") (auto simp: slices_of_def)
    then have "slices_of [] (Suc slots) ([] # slices) count"
      using ih(2) by (auto simp: slices_of_def nth_Cons split: nat.split)
    then show ?thesis
      using True ih(1) by auto
  next
    case False
    then obtain b t where b: "cursor_bytes ops p s = Some b" "b \<noteq> []" "cursor_rest p s = b @ t"
      using cursor_current [OF Suc.prems] by blast
    obtain s1 where s1: "cursor_advance ops p s (length (cursor_rest p s)) (length b) = Some (s1, length t)"
      "cursor_ok p s1" "cursor_rest p s1 = t"
      using cursor_advance_ok [OF Suc.prems, of "length b"] b by auto
    from Suc.IH [OF s1(2), unfolded s1(3)] obtain slices count where
      ih: "cursor_io_slices ops p s1 (length t) slots = Some (slices, count)" "slices_of t slots slices count"
      by blast
    then show ?thesis
      using False b s1(1) slices_of_Cons [OF ih(2) b(2)] by (intro exI [of _ "b # slices"] exI [of _ "Suc count"]) auto
  qed
qed

text \<open>The packet operations over their specification.\<close>

definition packet_inv :: "'p packet \<Rightarrow> bytes \<Rightarrow> bool" where
  "packet_inv p rest \<longleftrightarrow> cursor_ok p (pk_state p) \<and> cursor_rest p (pk_state p) = rest \<and> pk_remaining p = length rest"

lemma cursor_rest_update: "cursor_rest (p\<lparr>pk_state := s', pk_remaining := r\<rparr>) s = cursor_rest p s"
  "cursor_ok (p\<lparr>pk_state := s', pk_remaining := r\<rparr>) s = cursor_ok p s"
  by (simp_all add: cursor_rest_def cursor_ok_def packet_ok_def segment_ok_def cursor_pos_def chunk_inline_def Let_def)

lemma packet_advance_inv:
  assumes "packet_inv p rest" and "count \<le> length rest"
  shows "\<exists>p'. packet_advance ops p count = Some p' \<and> packet_inv p' (drop count rest)
    \<and> pk_payload p' = pk_payload p \<and> pk_drop_policy p' = pk_drop_policy p
    \<and> wire_len ops p' = wire_len ops p"
proof -
  from assms cursor_advance_ok [of p "pk_state p" count] obtain s' where
    s': "cursor_advance ops p (pk_state p) (pk_remaining p) count = Some (s', length rest - count)"
    "cursor_ok p s'" "cursor_rest p s' = drop count rest"
    by (auto simp: packet_inv_def)
  show ?thesis
    using s' by (simp add: packet_advance_def packet_inv_def cursor_rest_update) (simp add: wire_len_def)
qed

lemma packet_advance_over:
  "packet_inv p rest \<Longrightarrow> length rest < count \<Longrightarrow> packet_advance ops p count = None"
  by (simp add: packet_advance_def cursor_advance_def packet_inv_def)

lemma to_vec_inv: "packet_inv p rest \<Longrightarrow> to_vec ops p = Some rest"
  using copy_loop_ok [of p "pk_state p" "[]"] by (auto simp: to_vec_def copy_to_def packet_inv_def)

lemma io_slices_inv:
  "packet_inv p rest \<Longrightarrow> \<exists>slices count. io_slices ops p slots = Some (slices, count) \<and> slices_of rest slots slices count"
  using cursor_io_slices_ok [of p "pk_state p" slots] by (auto simp: io_slices_def packet_inv_def)

end

section \<open>Encoded packets\<close>

text \<open>The bytes of a chunk header.\<close>

definition header_bytes :: "chunk_header \<Rightarrow> chunk_header_format \<Rightarrow> bytes" where
  "header_bytes h f =
     [push_bit 6 (format_bits f) OR ucast (ch_chunk_stream_id h)]
     @ (if f = FormatEmpty then [] else be24 (min (ch_timestamp_field h) 0xffffff))
     @ (if f = FormatFull \<or> f = TimeDeltaWithoutMessageStreamId
        then be24 (ch_message_length h) @ [ch_message_type_id h] else [])
     @ (if f = FormatFull then le32 (ch_message_stream_id h) else [])
     @ (if ch_timestamp_field h \<ge> 0xffffff then be32 (ch_timestamp_field h) else [])"

lemma ih_push_slice:
  assumes "ih_len h + length bs \<le> length (ih_bytes h)"
  shows "ih_slice (ih_push bs h) = ih_slice h @ bs" and "ih_len (ih_push bs h) = ih_len h + length bs"
    and "length (ih_bytes (ih_push bs h)) = length (ih_bytes h)"
  using assms by (simp_all add: ih_push_def ih_slice_def)

lemma be32_drop: "drop (Suc 0) (be32 w) = be24 w"
  by (simp add: be32_def be24_def)

lemma ih_encode_slice:
  shows "ih_slice (ih_encode h f) = header_bytes h f" and "ih_wf (ih_encode h f)"
    and "ih_len (ih_encode h f) = length (header_bytes h f)" and "length (header_bytes h f) \<le> 18"
proof -
  have "ih_slice (ih_encode h f) = header_bytes h f \<and> ih_wf (ih_encode h f)
    \<and> ih_len (ih_encode h f) = length (header_bytes h f)"
    by (cases f; cases "ch_timestamp_field h \<ge> 0xffffff")
      (simp_all add: ih_encode_def Let_def be32_drop ih_push_slice header_bytes_def ih_wf_def,
        simp_all add: ih_slice_def)
  then show "ih_slice (ih_encode h f) = header_bytes h f" "ih_wf (ih_encode h f)"
    "ih_len (ih_encode h f) = length (header_bytes h f)"
    by auto
  show "length (header_bytes h f) \<le> 18"
    by (simp add: header_bytes_def)
qed

definition encoder_ok :: "chunk_encoder \<Rightarrow> bool" where
  "encoder_ok e \<longleftrightarrow> length (ce_previous_headers e) = 5 \<and> 0 < unat (ce_max_chunk_size e)"

lemma csid_index: "unat (get_csid_for_message_type t - 2) < 5"
  by (simp add: get_csid_for_message_type_def)

context segments
begin

lemma encode_ok:
  assumes ok: "encoder_ok e" and wfd: "wf (rm_data m)" and len: "length (contents (rm_data m)) \<le> 0xffffff"
    and slot: "slot = ce_previous_headers e ! unat (get_csid_for_message_type (rm_type_id m) - 2)"
    and h: "encode_header slot m (length (contents (rm_data m))) options = (header, format)"
  shows "\<exists>e' p. encode ops e m options = (e', Inr p) \<and> encoder_ok e'
    \<and> ce_max_chunk_size e' = ce_max_chunk_size e
    \<and> ce_previous_headers e' = (ce_previous_headers e)
        [unat (get_csid_for_message_type (rm_type_id m) - 2) := Some header]
    \<and> packet_inv p (wire (header_bytes header format)
        (header_bytes header (if eo_headers options = Full then FormatFull else FormatEmpty))
        (unat (ce_max_chunk_size e)) (contents (rm_data m)))
    \<and> pk_payload p = rm_data m \<and> pk_drop_policy p = eo_drop_policy options
    \<and> pk_remaining p = wire_len ops p"
proof -
  let ?data = "contents (rm_data m)" and ?cs = "unat (ce_max_chunk_size e)"
  let ?cont = "if eo_headers options = Full then FormatFull else FormatEmpty"
  have cs: "0 < ?cs"
    using ok by (simp add: encoder_ok_def)
  have slen: "seg_len ops (rm_data m) = length ?data"
    using len_contents [OF wfd] .
  define p where "p = \<lparr>pk_payload = rm_data m, pk_first = ih_encode header format,
    pk_continuation = ih_encode header ?cont, pk_chunk_size = ?cs, pk_drop_policy = eo_drop_policy options,
    pk_state = \<lparr>cs_chunk = 0, cs_header = 0, cs_body = 0, cs_segment = 0, cs_offset = 0\<rparr>,
    pk_remaining = ih_len (ih_encode header format)
      + (max (div_ceil (length ?data) ?cs) 1 - 1) * ih_len (ih_encode header ?cont) + length ?data\<rparr>"
  have enc: "encode ops e m options = (e\<lparr>ce_previous_headers := (ce_previous_headers e)
      [unat (get_csid_for_message_type (rm_type_id m) - 2) := Some header]\<rparr>, Inr p)"
    using len h slen unfolding encode_def Let_def slot [symmetric] slen by (simp add: p_def)
  have rest: "cursor_rest p (pk_state p) = wire (header_bytes header format) (header_bytes header ?cont) ?cs ?data"
    by (simp add: cursor_rest_def cursor_pos_def p_def chunk_inline_def wire_def ih_encode_slice Let_def)
  have "segment_ok p (pk_state p)"
  proof (rule segment_ok_at)
    show "if cs_segment (pk_state p) < seg_count ops (pk_payload p)
      then cs_offset (pk_state p) < length (segs (pk_payload p) ! cs_segment (pk_state p)) else cs_offset (pk_state p) = 0"
      using segs_nonempty [OF wfd, of 0] by (simp add: p_def)
  qed (use wfd in \<open>auto simp: p_def seg_pos_def cursor_pos_def\<close>)
  then have "cursor_ok p (pk_state p)"
    using wfd cs by (simp add: cursor_ok_def packet_ok_def ih_encode_slice cursor_pos_def p_def)
  moreover have "pk_remaining p = length (wire (header_bytes header format) (header_bytes header ?cont) ?cs ?data)"
    using cs by (simp add: p_def ih_encode_slice length_wire)
  ultimately have "packet_inv p (wire (header_bytes header format) (header_bytes header ?cont) ?cs ?data)"
    using rest by (simp add: packet_inv_def)
  moreover have "pk_remaining p = wire_len ops p"
    by (simp add: wire_len_def p_def slen Let_def)
  ultimately show ?thesis
    using enc ok by (simp add: encoder_ok_def p_def)
qed

end

section \<open>Short writes\<close>

text \<open>The operations that change an encoder; after an error it is unchanged.\<close>

inductive encoder_reachable :: "chunk_encoder \<Rightarrow> bool" where
  er_new: "encoder_reachable encoder_new"
| er_encode: "encoder_reachable e \<Longrightarrow> encode payload_ops e m options = (e', r) \<Longrightarrow> encoder_reachable e'"
| er_encode_slice: "encoder_reachable e \<Longrightarrow> encode slice_ops e n options = (e', r') \<Longrightarrow> encoder_reachable e'"
| er_chunk_size: "encoder_reachable e \<Longrightarrow> encoder_set_chunk_size e n time = (e', r) \<Longrightarrow> encoder_reachable e'"

lemma encode_keeps:
  "encode ops e m options = (e', r) \<Longrightarrow>
   length (ce_previous_headers e') = length (ce_previous_headers e) \<and> ce_max_chunk_size e' = ce_max_chunk_size e"
  by (auto simp: encode_def Let_def split: if_splits prod.splits)

lemma encoder_reachable_ok: "encoder_reachable e \<Longrightarrow> encoder_ok e"
proof (induction rule: encoder_reachable.induct)
  case (er_encode e m options e' r)
  then show ?case
    using encode_keeps by (fastforce simp: encoder_ok_def)
next
  case (er_encode_slice e n options e' r')
  then show ?case
    using encode_keeps by (fastforce simp: encoder_ok_def)
next
  case (er_chunk_size e n time e' r)
  then show ?case
    using encode_keeps
    by (fastforce simp: encoder_ok_def encoder_set_chunk_size_def Let_def unat_gt_0
        split: if_splits sum.splits prod.splits)
qed (simp add: encoder_ok_def encoder_new_def)

text \<open>The transport accepts the bytes of a packet in pieces of any size.\<close>

fun advance_all :: "'p segments_ops \<Rightarrow> 'p packet \<Rightarrow> nat list \<Rightarrow> 'p packet option" where
  "advance_all ops p [] = Some p"
| "advance_all ops p (n # ns) = (case packet_advance ops p n of None \<Rightarrow> None | Some p' \<Rightarrow> advance_all ops p' ns)"

context segments
begin

lemma advance_all_inv:
  "packet_inv p rest \<Longrightarrow> sum_list ns \<le> length rest \<Longrightarrow>
   \<exists>p'. advance_all ops p ns = Some p' \<and> packet_inv p' (drop (sum_list ns) rest)
     \<and> pk_drop_policy p' = pk_drop_policy p \<and> wire_len ops p' = wire_len ops p"
proof (induction ns arbitrary: p rest)
  case (Cons n ns)
  obtain p1 where p1: "packet_advance ops p n = Some p1" "packet_inv p1 (drop n rest)"
    "pk_drop_policy p1 = pk_drop_policy p" "wire_len ops p1 = wire_len ops p"
    using packet_advance_inv [OF Cons.prems(1), of n] Cons.prems(2) by auto
  from Cons.IH [OF p1(2)] Cons.prems(2) show ?case
    using p1 by (auto simp: add.commute)
qed simp

lemma advance_all_over:
  "packet_inv p rest \<Longrightarrow> length rest < sum_list ns \<Longrightarrow> advance_all ops p ns = None"
proof (induction ns arbitrary: p rest)
  case (Cons n ns)
  show ?case
  proof (cases "n \<le> length rest")
    case True
    then obtain p1 where "packet_advance ops p n = Some p1" "packet_inv p1 (drop n rest)"
      using packet_advance_inv [OF Cons.prems(1)] by blast
    then show ?thesis
      using Cons.IH [of p1 "drop n rest"] Cons.prems(2) True by auto
  next
    case False
    then show ?thesis
      using packet_advance_over [OF Cons.prems(1), of n] by simp
  qed
qed simp

text \<open>What a packet of an encoder shows after any sequence of short writes.\<close>

lemma encoded_packet_writes:
  assumes ok: "encoder_ok e" and wfd: "wf (rm_data m)" and enc: "encode ops e m options = (e', Inr p)"
  shows "\<exists>bs. to_vec ops p = Some bs \<and> length bs = wire_len ops p
    \<and> (\<forall>ns. length bs < sum_list ns \<longrightarrow> advance_all ops p ns = None)
    \<and> (\<forall>ns. sum_list ns \<le> length bs \<longrightarrow>
        (\<exists>p'. advance_all ops p ns = Some p' \<and> to_vec ops p' = Some (drop (sum_list ns) bs)
          \<and> pk_remaining p' = length bs - sum_list ns
          \<and> (can_drop ops p' \<longleftrightarrow> eo_drop_policy options = Allowed \<and> sum_list ns = 0)
          \<and> (\<forall>slots. \<exists>slices count. io_slices ops p' slots = Some (slices, count)
               \<and> slices_of (drop (sum_list ns) bs) slots slices count)))"
proof -
  let ?d = "contents (rm_data m)" and ?cid = "get_csid_for_message_type (rm_type_id m)"
  have len: "length ?d \<le> 0xffffff"
    using enc len_contents [OF wfd] by (auto simp: encode_def Let_def split: if_splits)
  obtain h f where h: "encode_header (ce_previous_headers e ! unat (?cid - 2)) m (length ?d) options = (h, f)"
    by (metis surj_pair)
  define bs where "bs = wire (header_bytes h f)
      (header_bytes h (if eo_headers options = Full then FormatFull else FormatEmpty)) (unat (ce_max_chunk_size e)) ?d"
  have p: "packet_inv p bs" "pk_drop_policy p = eo_drop_policy options" "pk_remaining p = wire_len ops p"
    using encode_ok [OF ok wfd len refl h] enc by (auto simp: bs_def)
  have wlen: "length bs = wire_len ops p"
    using p(1,3) by (simp add: packet_inv_def)
  have "0 < length bs"
    by (simp add: bs_def wire_def header_bytes_def)
  show ?thesis
  proof (rule exI [of _ bs], intro conjI allI impI)
    show "to_vec ops p = Some bs"
      by (rule to_vec_inv [OF p(1)])
    show "length bs = wire_len ops p"
      by (rule wlen)
    show "advance_all ops p ns = None" if "length bs < sum_list ns" for ns
      by (rule advance_all_over [OF p(1) that])
    fix ns assume ns: "sum_list ns \<le> length bs"
    obtain p' where p': "advance_all ops p ns = Some p'" "packet_inv p' (drop (sum_list ns) bs)"
      "pk_drop_policy p' = pk_drop_policy p" "wire_len ops p' = wire_len ops p"
      using advance_all_inv [OF p(1) ns] by blast
    have rem: "pk_remaining p' = length bs - sum_list ns"
      using p'(2) by (simp add: packet_inv_def)
    moreover have "can_drop ops p' \<longleftrightarrow> eo_drop_policy options = Allowed \<and> sum_list ns = 0"
    proof (cases "sum_list ns = 0")
      case True
      then have "pk_remaining p' = wire_len ops p'"
        using rem wlen p'(4) by presburger
      with True p'(3) p(2) show ?thesis
        by (simp add: can_drop_def)
    next
      case False
      then have "pk_remaining p' \<noteq> wire_len ops p'"
        using rem wlen p'(4) ns \<open>0 < length bs\<close> by linarith
      with False p'(3) p(2) show ?thesis
        by (simp add: can_drop_def)
    qed
    moreover have "\<exists>slices count. io_slices ops p' slots = Some (slices, count)
        \<and> slices_of (drop (sum_list ns) bs) slots slices count" for slots
      by (rule io_slices_inv [OF p'(2)])
    ultimately show "\<exists>p'. advance_all ops p ns = Some p' \<and> to_vec ops p' = Some (drop (sum_list ns) bs)
          \<and> pk_remaining p' = length bs - sum_list ns
          \<and> (can_drop ops p' \<longleftrightarrow> eo_drop_policy options = Allowed \<and> sum_list ns = 0)
          \<and> (\<forall>slots. \<exists>slices count. io_slices ops p' slots = Some (slices, count)
               \<and> slices_of (drop (sum_list ns) bs) slots slices count)"
      using p'(1) to_vec_inv [OF p'(2)] by blast
  qed
qed

end

text \<open>
  C8 (functional). A packet is written in pieces of any sizes: after the transport has accepted
  any sequence of byte counts within the packet, copying the packet gives exactly the bytes not yet
  accepted, the remaining count is their number, and the packet counts as droppable only while nothing
  was accepted; accepting more bytes than there are is refused. For a vectored write with any number of
  slots, the first \<open>count\<close> slots hold nonempty slices that are together a prefix of the bytes left, at
  least one when there are a slot and bytes left, and all the bytes left when a slot stays unused; the
  other slots are empty. \<open>wire_len\<close> is the number of bytes of the whole packet.
\<close>

theorem packet_short_writes:
  assumes "encoder_reachable e" and "payload_wf (rm_data m)" and "encode payload_ops e m options = (e', Inr p)"
  shows "\<exists>bs. to_vec payload_ops p = Some bs \<and> length bs = wire_len payload_ops p
    \<and> (\<forall>ns. length bs < sum_list ns \<longrightarrow> advance_all payload_ops p ns = None)
    \<and> (\<forall>ns. sum_list ns \<le> length bs \<longrightarrow>
        (\<exists>p'. advance_all payload_ops p ns = Some p' \<and> to_vec payload_ops p' = Some (drop (sum_list ns) bs)
          \<and> pk_remaining p' = length bs - sum_list ns
          \<and> (can_drop payload_ops p' \<longleftrightarrow> eo_drop_policy options = Allowed \<and> sum_list ns = 0)
          \<and> (\<forall>slots. \<exists>slices count. io_slices payload_ops p' slots = Some (slices, count)
               \<and> slices_of (drop (sum_list ns) bs) slots slices count)))"
  by (rule payload_seg.encoded_packet_writes [OF encoder_reachable_ok [OF assms(1)] assms(2,3)])

text \<open>A three-byte message in two segments, of which the transport accepts 6 bytes and then 7.\<close>

definition split_message :: "payload raw_message" where
  "split_message = \<lparr>rm_timestamp = ts_new 7, rm_type_id = 8, rm_message_stream_id = 1,
     rm_data = \<lparr>pl_first = [1, 2], pl_rest = [[3]], pl_len = 3\<rparr>\<rparr>"

definition split_packet :: "payload packet" where
  "split_packet = (case encode payload_ops encoder_new split_message encode_options_default of (e', Inr p) \<Rightarrow> p)"

lemma split_packet_bytes:
  "map_sum (\<lambda>e. ()) (\<lambda>p. ()) (snd (encode payload_ops encoder_new split_message encode_options_default)) = Inr ()"
  "to_vec payload_ops split_packet = Some [5, 0, 0, 7, 0, 0, 3, 8, 1, 0, 0, 0, 1, 2, 3]"
  "map_option (\<lambda>p. io_slices payload_ops p 4) (advance_all payload_ops split_packet [6, 7])
   = Some (Some ([[2], [3], [], []], 2))"
  by code_simp+

theorem packet_short_writes_witness:
  "to_vec payload_ops split_packet = Some [5, 0, 0, 7, 0, 0, 3, 8, 1, 0, 0, 0, 1, 2, 3]
   \<and> (\<exists>p'. advance_all payload_ops split_packet [6, 7] = Some p' \<and> to_vec payload_ops p' = Some [2, 3]
        \<and> pk_remaining p' = 2 \<and> \<not> can_drop payload_ops p'
        \<and> io_slices payload_ops p' 4 = Some ([[2], [3], [], []], 2) \<and> slices_of [2, 3] 4 [[2], [3], [], []] 2)"
proof -
  obtain e' where enc: "encode payload_ops encoder_new split_message encode_options_default = (e', Inr split_packet)"
    using split_packet_bytes(1)
    by (cases "encode payload_ops encoder_new split_message encode_options_default";
        cases "snd (encode payload_ops encoder_new split_message encode_options_default)") (auto simp: split_packet_def)
  have "payload_wf (rm_data split_message)"
    by (simp add: split_message_def payload_wf_def)
  from packet_short_writes [OF er_new this enc] obtain bs where bs: "to_vec payload_ops split_packet = Some bs"
    and short: "\<forall>ns. sum_list ns \<le> length bs \<longrightarrow> (\<exists>p'. advance_all payload_ops split_packet ns = Some p'
      \<and> to_vec payload_ops p' = Some (drop (sum_list ns) bs) \<and> pk_remaining p' = length bs - sum_list ns
      \<and> (can_drop payload_ops p' \<longleftrightarrow> eo_drop_policy encode_options_default = Allowed \<and> sum_list ns = 0)
      \<and> (\<forall>slots. \<exists>slices count. io_slices payload_ops p' slots = Some (slices, count)
           \<and> slices_of (drop (sum_list ns) bs) slots slices count))"
    by blast
  have "bs = [5, 0, 0, 7, 0, 0, 3, 8, 1, 0, 0, 0, 1, 2, 3]"
    using bs split_packet_bytes(2) by simp
  with short [rule_format, of "[6, 7]"] obtain p' where p': "advance_all payload_ops split_packet [6, 7] = Some p'"
    "to_vec payload_ops p' = Some [2, 3]" "pk_remaining p' = 2" "\<not> can_drop payload_ops p'"
    "\<exists>slices count. io_slices payload_ops p' 4 = Some (slices, count) \<and> slices_of [2, 3] 4 slices count"
    by (auto simp: drop_Cons')
  have "io_slices payload_ops p' 4 = Some ([[2], [3], [], []], 2)"
    using split_packet_bytes(3) p'(1) by simp
  with p' split_packet_bytes(2) show ?thesis
    by simp
qed

end
