(* ===== verification/Chunk_Parser.thy ===== *)
theory Chunk_Parser
  imports Prelude Rtmp_Time
begin

text \<open>
  The streaming chunk parser, \<open>ChunkParser\<close> of \<open>src/src/chunk_io/streaming.rs\<close>, with the error type
  of \<open>deserialization_errors.rs\<close> and the limits of \<open>deserializer.rs\<close>. Every operation returns the
  parser after it, also on an error, because the caller keeps the mutated value.
  \<open>DecodePanic\<close> is not an error of the code: it marks the places where the code would panic (an
  unwrap of a missing value, a slice out of range); the invariant shows it never occurs.
\<close>

section \<open>Data\<close>

datatype decode_error =
    InvalidContinuation u32
  | NoPreviousChunkOnStream u32
  | InvalidMaxChunkSize nat
  | ResourceLimitExceeded string nat nat
  | DecodeIo
  | MessageLengthSmallerThanBufferedPayload u32 nat nat
  | DecodePanic

record decoder_limits =
  maximum_chunk_size :: nat
  maximum_message_size :: nat
  maximum_tracked_chunk_streams :: nat
  maximum_partial_messages :: nat
  maximum_buffered_bytes :: nat
  maximum_fragments_per_message :: nat

definition decoder_limits_default :: decoder_limits where
  "decoder_limits_default =
     \<lparr>maximum_chunk_size = 64 * 1024, maximum_message_size = 10 * 1024 * 1024,
      maximum_tracked_chunk_streams = 100, maximum_partial_messages = 4,
      maximum_buffered_bytes = 16 * 1024 * 1024, maximum_fragments_per_message = 128 * 1024\<rparr>"

record message_header =
  mh_chunk_stream_id :: u32
  mh_timestamp :: rtmp_timestamp
  mh_type_id :: u8
  mh_message_stream_id :: u32
  mh_message_length :: nat

record message_fragment =
  mf_header :: message_header
  mf_offset :: nat
  mf_data :: bytes

definition is_start :: "message_fragment \<Rightarrow> bool" where
  "is_start f \<longleftrightarrow> mf_offset f = 0"

definition is_end :: "message_fragment \<Rightarrow> bool" where
  "is_end f \<longleftrightarrow> mf_offset f + length (mf_data f) = mh_message_length (mf_header f)"

record parse_step =
  ps_consumed :: nat
  ps_fragment :: "message_fragment option"

record stream =
  st_header :: message_header
  st_time_field :: u32
  st_received :: nat
  st_active :: bool

record chunk_parser =
  cp_streams :: "(u32, stream) hash_map"
  cp_scratch :: bytes
  cp_used :: nat
  cp_current :: "u32 option"
  cp_chunk_left :: nat
  cp_chunk_size :: nat
  cp_limits :: decoder_limits

section \<open>Operations\<close>

definition parser_with_limits :: "decoder_limits \<Rightarrow> chunk_parser" where
  "parser_with_limits limits =
     \<lparr>cp_streams = [], cp_scratch = replicate 18 0, cp_used = 0, cp_current = None,
      cp_chunk_left = 0, cp_chunk_size = 128, cp_limits = limits\<rparr>"

definition parser_new :: chunk_parser where
  "parser_new = parser_with_limits decoder_limits_default"

definition parser_set_chunk_size :: "chunk_parser \<Rightarrow> nat \<Rightarrow> decode_error + chunk_parser" where
  "parser_set_chunk_size p n =
     (if n = 0 \<or> n > 0x7fffffff \<or> n > maximum_chunk_size (cp_limits p)
      then Inl (InvalidMaxChunkSize n)
      else Inr (p\<lparr>cp_chunk_size := n\<rparr>))"

definition parser_abort_chunk_stream :: "chunk_parser \<Rightarrow> u32 \<Rightarrow> chunk_parser" where
  "parser_abort_chunk_stream p cid =
     (let p1 = (case hm_get (cp_streams p) cid of
                  Some s \<Rightarrow> p\<lparr>cp_streams := hm_insert cid (s\<lparr>st_active := False, st_received := 0\<rparr>) (cp_streams p)\<rparr>
                | None \<Rightarrow> p)
      in if cp_current p1 = Some cid then p1\<lparr>cp_current := None, cp_chunk_left := 0\<rparr> else p1)"

definition parser_is_idle :: "chunk_parser \<Rightarrow> bool" where
  "parser_is_idle p \<longleftrightarrow> cp_used p = 0 \<and> cp_current p = None
     \<and> list_all (\<lambda>s. \<not> st_active s) (hm_values (cp_streams p))"

definition u24 :: "bytes \<Rightarrow> u32" where
  "u24 b = push_bit 16 (ucast (b ! 0)) OR push_bit 8 (ucast (b ! 1)) OR ucast (b ! 2)"

definition limit :: "string \<Rightarrow> nat \<Rightarrow> nat \<Rightarrow> decode_error" where
  "limit resource attempted maximum = ResourceLimitExceeded resource attempted maximum"

definition basic_len :: "chunk_parser \<Rightarrow> nat" where
  "basic_len p =
     (let n = cp_scratch p ! 0 AND 63 in if n = 0 then 2 else if n = 1 then 3 else 1)"

definition csid :: "chunk_parser \<Rightarrow> u32" where
  "csid p =
     (let n = cp_scratch p ! 0 AND 63
      in if n = 0 then 64 + ucast (cp_scratch p ! 1)
         else if n = 1 then 64 + ucast (cp_scratch p ! 1) + 256 * ucast (cp_scratch p ! 2)
         else ucast n)"

definition chunk_format :: "chunk_parser \<Rightarrow> nat" where
  "chunk_format p = unat (drop_bit 6 (cp_scratch p ! 0))"

definition body_len :: "nat \<Rightarrow> nat" where
  "body_len fmt = [11, 7, 3, 0] ! fmt"

definition header_needed :: "chunk_parser \<Rightarrow> decode_error + nat" where
  "header_needed p =
     (if cp_used p = 0 then Inr 1
      else let basic = basic_len p
      in if cp_used p < basic then Inr basic
      else let fmt = chunk_format p; body = body_len fmt
      in if cp_used p < basic + body then Inr (basic + body)
      else if fmt = 3
      then (case hm_get (cp_streams p) (csid p) of
              None \<Rightarrow> Inl (NoPreviousChunkOnStream (csid p))
            | Some s \<Rightarrow> Inr (basic + body + (if st_time_field s \<ge> 0xffffff then 4 else 0)))
      else Inr (basic + body + (if u24 (drop basic (cp_scratch p)) = 0xffffff then 4 else 0)))"

definition le_u32_at :: "bytes \<Rightarrow> nat \<Rightarrow> u32" where
  "le_u32_at b i = from_be32 (b ! (i + 3)) (b ! (i + 2)) (b ! (i + 1)) (b ! i)"

definition be_u32_at :: "bytes \<Rightarrow> nat \<Rightarrow> u32" where
  "be_u32_at b i = from_be32 (b ! i) (b ! (i + 1)) (b ! (i + 2)) (b ! (i + 3))"

definition empty_header :: "u32 \<Rightarrow> message_header" where
  "empty_header cid =
     \<lparr>mh_chunk_stream_id = cid, mh_timestamp = ts_new 0, mh_type_id = 0,
      mh_message_stream_id = 0, mh_message_length = 0\<rparr>"

definition active_count :: "(u32, stream) hash_map \<Rightarrow> nat" where
  "active_count m = length (filter st_active (hm_values m))"

text \<open>The header fields of a chunk, over the header of the previous chunk of its stream.\<close>

definition chunk_header_fields :: "chunk_parser \<Rightarrow> stream option \<Rightarrow> message_header" where
  "chunk_header_fields p old =
     (let fmt = chunk_format p; basic = basic_len p;
          h0 = (case old of Some s \<Rightarrow> st_header s | None \<Rightarrow> empty_header (csid p));
          h1 = (if fmt \<le> 1
                then h0\<lparr>mh_message_length := unat (u24 (drop (basic + 3) (cp_scratch p))),
                        mh_type_id := cp_scratch p ! (basic + 6)\<rparr>
                else h0)
      in if fmt = 0 then h1\<lparr>mh_message_stream_id := le_u32_at (cp_scratch p) (basic + 7)\<rparr> else h1)"

text \<open>The timestamp or delta of a chunk, extended where its 24-bit field is saturated.\<close>

definition chunk_time :: "chunk_parser \<Rightarrow> stream option \<Rightarrow> u32" where
  "chunk_time p old =
     (let fmt = chunk_format p; basic = basic_len p;
          field = (case old of Some s \<Rightarrow> if fmt = 3 then st_time_field s else u24 (drop basic (cp_scratch p))
                             | None \<Rightarrow> u24 (drop basic (cp_scratch p)))
      in if field \<ge> 0xffffff then be_u32_at (cp_scratch p) (basic + body_len fmt) else field)"

text \<open>
  The header a new message or a continuation is accepted with: a new message advances the clock and
  must not exceed the partial-message limit; a continuation must keep the message's identity.
\<close>

definition chunk_checked ::
    "chunk_parser \<Rightarrow> stream option \<Rightarrow> message_header \<Rightarrow> u32 \<Rightarrow> decode_error + message_header" where
  "chunk_checked p old header time =
     (let cid = csid p; fmt = chunk_format p;
          new_message =
            (let header' = header\<lparr>mh_timestamp :=
                   (if fmt = 0 then ts_new time else ts_add_u32 (mh_timestamp header) time)\<rparr>
             in if mh_message_length header' > cp_chunk_size p
                  \<and> active_count (cp_streams p) \<ge> maximum_partial_messages (cp_limits p)
                then Inl (limit ''partial messages'' (active_count (cp_streams p) + 1)
                           (maximum_partial_messages (cp_limits p)))
                else Inr header')
      in case old of
           None \<Rightarrow> new_message
         | Some previous \<Rightarrow>
             if \<not> st_active previous then new_message
             else if mh_message_length header < st_received previous
             then Inl (MessageLengthSmallerThanBufferedPayload cid (mh_message_length header)
                        (st_received previous))
             else if mh_message_length header \<noteq> mh_message_length (st_header previous)
               \<or> mh_type_id header \<noteq> mh_type_id (st_header previous)
               \<or> mh_message_stream_id header \<noteq> mh_message_stream_id (st_header previous)
               \<or> (fmt = 0 \<and> time \<noteq> ts_value (mh_timestamp (st_header previous)))
             then Inl (InvalidContinuation cid)
             else Inr header)"

text \<open>The stream entry that \<open>begin_chunk\<close> installs, or the error it returns.\<close>

definition chunk_stream :: "chunk_parser \<Rightarrow> decode_error + stream" where
  "chunk_stream p =
     (let cid = csid p; fmt = chunk_format p; old = hm_get (cp_streams p) cid
      in if fmt \<noteq> 0 \<and> old = None then Inl (NoPreviousChunkOnStream cid)
      else if old = None \<and> hm_len (cp_streams p) \<ge> maximum_tracked_chunk_streams (cp_limits p)
      then Inl (limit ''tracked chunk streams'' (hm_len (cp_streams p) + 1)
                 (maximum_tracked_chunk_streams (cp_limits p)))
      else
        let continuing = (case old of Some s \<Rightarrow> st_active s | None \<Rightarrow> False);
            header = chunk_header_fields p old
        in if mh_message_length header > maximum_message_size (cp_limits p)
        then Inl (limit ''message payload bytes'' (mh_message_length header)
                   (maximum_message_size (cp_limits p)))
        else
          let time = chunk_time p old
          in case chunk_checked p old header time of
               Inl e \<Rightarrow> Inl e
             | Inr header' \<Rightarrow>
                 Inr \<lparr>st_header = header', st_time_field = time,
                      st_received = (if continuing then st_received (the old) else 0),
                      st_active = True\<rparr>)"

definition begin_chunk :: "chunk_parser \<Rightarrow> decode_error + chunk_parser" where
  "begin_chunk p =
     (case chunk_stream p of
        Inl e \<Rightarrow> Inl e
      | Inr s \<Rightarrow>
          Inr (p\<lparr>cp_chunk_left := min (mh_message_length (st_header s) - st_received s) (cp_chunk_size p),
                 cp_current := Some (csid p),
                 cp_streams := hm_insert (csid p) s (cp_streams p)\<rparr>))"

text \<open>
  The header loop of \<open>consume\<close>: \<open>rest\<close> is \<open>input[consumed..]\<close>. It ends with more input needed or
  inside a chunk.
\<close>

datatype header_outcome = NeedMore nat | InChunk nat bytes

definition read_scratch :: "chunk_parser \<Rightarrow> nat \<Rightarrow> bytes \<Rightarrow> chunk_parser" where
  "read_scratch p n rest =
     p\<lparr>cp_scratch := take (cp_used p) (cp_scratch p) @ take n rest @ drop (cp_used p + n) (cp_scratch p),
       cp_used := cp_used p + n\<rparr>"

lemma begin_chunk_current: "begin_chunk p = Inr p' \<Longrightarrow> cp_current p' = Some (csid p)"
  by (auto simp: begin_chunk_def split: sum.splits)

function header_loop ::
    "chunk_parser \<Rightarrow> nat \<Rightarrow> bytes \<Rightarrow> chunk_parser \<times> (decode_error + header_outcome)" where
  "header_loop p consumed rest =
     (if cp_current p \<noteq> None then (p, Inr (InChunk consumed rest))
      else case header_needed p of
          Inl e \<Rightarrow> (p, Inl e)
        | Inr needed \<Rightarrow>
            if cp_used p < needed then
              let n = min (needed - cp_used p) (length rest)
              in if length (cp_scratch p) < cp_used p + n then (p, Inl DecodePanic)
                 else if cp_used p + n < needed then (read_scratch p n rest, Inr (NeedMore (consumed + n)))
                 else header_loop (read_scratch p n rest) (consumed + n) (drop n rest)
            else (case begin_chunk p of
                    Inl e \<Rightarrow> (p, Inl e)
                  | Inr p' \<Rightarrow> header_loop (p'\<lparr>cp_used := 0\<rparr>) consumed rest))"
  by pat_completeness auto
termination
  by (relation "measures [\<lambda>(p, consumed, rest). length rest,
      \<lambda>(p, consumed, rest). of_bool (cp_current p = None)]")
    (auto dest: begin_chunk_current)

declare header_loop.simps [simp del]

text \<open>
  One fragment, the part of \<open>consume\<close> after the header loop: \<open>advance_chunk\<close> accounts for \<open>n\<close> payload
  bytes of the current chunk.
\<close>

definition advance_chunk :: "chunk_parser \<Rightarrow> u32 \<Rightarrow> stream \<Rightarrow> nat \<Rightarrow> chunk_parser" where
  "advance_chunk p cid s n =
     (let s1 = s\<lparr>st_received := st_received s + n\<rparr>;
          s2 = (if st_received s1 = mh_message_length (st_header s1)
                then s1\<lparr>st_active := False\<rparr> else s1);
          left = cp_chunk_left p - n;
          p2 = p\<lparr>cp_streams := hm_insert cid s2 (cp_streams p), cp_chunk_left := left\<rparr>
      in if left = 0 then p2\<lparr>cp_current := None\<rparr> else p2)"

definition chunk_fragment ::
    "chunk_parser \<Rightarrow> nat \<Rightarrow> bytes \<Rightarrow> chunk_parser \<times> (decode_error + parse_step)" where
  "chunk_fragment p1 consumed rest =
     (case cp_current p1 of
        None \<Rightarrow> (p1, Inl DecodePanic)
      | Some cid \<Rightarrow>
          (case hm_get (cp_streams p1) cid of
             None \<Rightarrow> (p1, Inl DecodePanic)
           | Some s \<Rightarrow>
               let n = min (cp_chunk_left p1) (length rest)
               in if n = 0 \<and> cp_chunk_left p1 > 0
                  then (p1, Inr \<lparr>ps_consumed = consumed, ps_fragment = None\<rparr>)
                  else (advance_chunk p1 cid s n,
                        Inr \<lparr>ps_consumed = consumed + n,
                             ps_fragment = Some \<lparr>mf_header = st_header s, mf_offset = st_received s,
                                                 mf_data = take n rest\<rparr>\<rparr>)))"

definition consume :: "chunk_parser \<Rightarrow> bytes \<Rightarrow> chunk_parser \<times> (decode_error + parse_step)" where
  "consume p input =
     (case header_loop p 0 input of
        (p1, Inl e) \<Rightarrow> (p1, Inl e)
      | (p1, Inr (NeedMore consumed)) \<Rightarrow> (p1, Inr \<lparr>ps_consumed = consumed, ps_fragment = None\<rparr>)
      | (p1, Inr (InChunk consumed rest)) \<Rightarrow> chunk_fragment p1 consumed rest)"

section \<open>The invariant\<close>

definition stream_ok :: "decoder_limits \<Rightarrow> u32 \<Rightarrow> stream \<Rightarrow> bool" where
  "stream_ok limits cid s \<longleftrightarrow> mh_chunk_stream_id (st_header s) = cid
     \<and> st_received s \<le> mh_message_length (st_header s)
     \<and> mh_message_length (st_header s) \<le> maximum_message_size limits"

definition parser_base :: "chunk_parser \<Rightarrow> bool" where
  "parser_base p \<longleftrightarrow> length (cp_scratch p) = 18 \<and> cp_used p \<le> 18 \<and> hm_wf (cp_streams p)
     \<and> 0 < cp_chunk_size p
     \<and> hm_len (cp_streams p) \<le> maximum_tracked_chunk_streams (cp_limits p)
     \<and> (\<forall>cid s. hm_get (cp_streams p) cid = Some s \<longrightarrow> stream_ok (cp_limits p) cid s)
     \<and> (\<forall>cid s. hm_get (cp_streams p) cid = Some s \<longrightarrow> cp_current p \<noteq> Some cid \<longrightarrow> st_active s \<longrightarrow>
          st_received s < mh_message_length (st_header s))"

text \<open>Inside \<open>consume\<close>, right after a chunk header, an empty message has no byte left to read.\<close>

definition current_ok :: "decoder_limits \<Rightarrow> (u32, stream) hash_map \<Rightarrow> nat \<Rightarrow> stream \<Rightarrow> bool" where
  "current_ok limits streams left s \<longleftrightarrow> st_active s
     \<and> (0 < left \<or> st_received s = mh_message_length (st_header s))
     \<and> st_received s + left \<le> mh_message_length (st_header s)
     \<and> active_count streams \<le> maximum_partial_messages limits
         + of_bool (st_received s + left = mh_message_length (st_header s))"

definition parser_mid :: "chunk_parser \<Rightarrow> bool" where
  "parser_mid p \<longleftrightarrow> parser_base p \<and>
     (case cp_current p of
        None \<Rightarrow> False
      | Some cid \<Rightarrow> (case hm_get (cp_streams p) cid of
          None \<Rightarrow> False
        | Some s \<Rightarrow> current_ok (cp_limits p) (cp_streams p) (cp_chunk_left p) s))"

lemma parser_midE:
  assumes "parser_mid p"
  obtains cid s where "parser_base p" "cp_current p = Some cid" "hm_get (cp_streams p) cid = Some s"
    "current_ok (cp_limits p) (cp_streams p) (cp_chunk_left p) s"
  using assms by (auto simp: parser_mid_def split: option.splits)

lemma current_ok_mono:
  "current_ok limits streams left s \<Longrightarrow> active_count streams' \<le> active_count streams \<Longrightarrow>
   current_ok limits streams' left s"
  by (auto simp: current_ok_def)

definition parser_inv :: "chunk_parser \<Rightarrow> bool" where
  "parser_inv p \<longleftrightarrow>
     (if cp_current p = None
      then parser_base p \<and> active_count (cp_streams p) \<le> maximum_partial_messages (cp_limits p)
      else parser_mid p \<and> 0 < cp_chunk_left p)"

lemma parser_inv_base: "parser_inv p \<Longrightarrow> parser_base p"
  by (auto simp: parser_inv_def parser_mid_def split: if_splits)

lemma parser_inv_new: "parser_inv (parser_with_limits limits)"
  by (simp add: parser_inv_def parser_base_def parser_with_limits_def active_count_def hm_values_def hm_len_def)

lemma fmt_less: "unat (drop_bit 6 (b :: u8)) < 4"
  using take_bit_nat_less_exp [of 8 "unat b"]
  by (simp add: unsigned_drop_bit_eq drop_bit_nat_def less_mult_imp_div_less)

lemma header_needed_bounds:
  "header_needed p = Inr needed \<Longrightarrow> 0 < needed \<and> needed \<le> 18"
proof -
  have "chunk_format p < 4"
    unfolding chunk_format_def by (rule fmt_less)
  then have "body_len (chunk_format p) \<le> 11" "chunk_format p = 3 \<Longrightarrow> body_len (chunk_format p) = 0"
    by (auto simp: body_len_def less_Suc_eq numeral_eq_Suc)
  then show "header_needed p = Inr needed \<Longrightarrow> 0 < needed \<and> needed \<le> 18"
    by (auto simp: header_needed_def basic_len_def Let_def split: if_splits option.splits)
qed

lemma read_scratch_simps [simp]:
  "cp_streams (read_scratch p n rest) = cp_streams p"
  "cp_current (read_scratch p n rest) = cp_current p"
  "cp_chunk_left (read_scratch p n rest) = cp_chunk_left p"
  "cp_chunk_size (read_scratch p n rest) = cp_chunk_size p"
  "cp_limits (read_scratch p n rest) = cp_limits p"
  "cp_used (read_scratch p n rest) = cp_used p + n"
  by (simp_all add: read_scratch_def)

lemma read_scratch_inv:
  assumes "parser_inv p" and "cp_current p = None" and "n \<le> length rest" and "cp_used p + n \<le> 18"
  shows "parser_inv (read_scratch p n rest)"
  using assms by (simp add: parser_inv_def parser_base_def) (simp add: read_scratch_def)

lemma used_reset_inv: "parser_mid p \<Longrightarrow> parser_mid (p\<lparr>cp_used := 0\<rparr>)"
  by (auto simp: parser_mid_def parser_base_def split: option.splits)

lemma chunk_header_fields_id:
  "old = None \<or> (\<exists>s. old = Some s \<and> mh_chunk_stream_id (st_header s) = csid p) \<Longrightarrow>
   mh_chunk_stream_id (chunk_header_fields p old) = csid p"
  by (auto simp: chunk_header_fields_def Let_def empty_header_def)

text \<open>What an accepted chunk header says about the stream entry it installs.\<close>

lemma chunk_checked_InrD:
  assumes "chunk_checked p old header time = Inr header'"
  shows "mh_message_length header' = mh_message_length header"
    and "mh_chunk_stream_id header' = mh_chunk_stream_id header"
    and "old = Some s \<Longrightarrow> st_active s \<Longrightarrow> header' = header \<and> st_received s \<le> mh_message_length header
      \<and> mh_message_length header = mh_message_length (st_header s)"
    and "old = None \<or> (\<exists>s. old = Some s \<and> \<not> st_active s) \<Longrightarrow>
      mh_message_length header' \<le> cp_chunk_size p
      \<or> active_count (cp_streams p) < maximum_partial_messages (cp_limits p)"
  using assms by (auto simp: chunk_checked_def Let_def split: if_splits option.splits)

lemma chunk_stream_InrD:
  assumes "chunk_stream p = Inr s" and old: "old = hm_get (cp_streams p) (csid p)"
  shows "st_active s" and "mh_message_length (st_header s) \<le> maximum_message_size (cp_limits p)"
    and "mh_chunk_stream_id (st_header s) = mh_chunk_stream_id (chunk_header_fields p old)"
    and "old = None \<Longrightarrow> hm_len (cp_streams p) < maximum_tracked_chunk_streams (cp_limits p)"
    and "old = Some t \<Longrightarrow> st_active t \<Longrightarrow> st_received s = st_received t
      \<and> st_received s \<le> mh_message_length (st_header s)
      \<and> mh_message_length (st_header s) = mh_message_length (st_header t)"
    and "old = None \<or> (\<exists>t. old = Some t \<and> \<not> st_active t) \<Longrightarrow> st_received s = 0 \<and>
      (mh_message_length (st_header s) \<le> cp_chunk_size p
      \<or> active_count (cp_streams p) < maximum_partial_messages (cp_limits p))"
  using assms
  by (auto simp: chunk_stream_def Let_def split: if_splits sum.splits option.splits
      dest: chunk_checked_InrD)

lemma begin_chunk_InrD:
  assumes "begin_chunk p = Inr p'"
  shows "\<exists>s. chunk_stream p = Inr s \<and>
    p' = p\<lparr>cp_chunk_left := min (mh_message_length (st_header s) - st_received s) (cp_chunk_size p),
      cp_current := Some (csid p), cp_streams := hm_insert (csid p) s (cp_streams p)\<rparr>"
  using assms by (auto simp: begin_chunk_def split: sum.splits)

lemma begin_chunk_mid:
  assumes inv: "parser_inv p" and cur: "cp_current p = None" and ok: "begin_chunk p = Inr p'"
  shows "parser_mid p'"
proof -
  let ?old = "hm_get (cp_streams p) (csid p)"
  from begin_chunk_InrD [OF ok] obtain s where cs: "chunk_stream p = Inr s"
    and p': "p' = p\<lparr>cp_chunk_left := min (mh_message_length (st_header s) - st_received s) (cp_chunk_size p),
      cp_current := Some (csid p), cp_streams := hm_insert (csid p) s (cp_streams p)\<rparr>"
    by blast
  note s = chunk_stream_InrD [OF cs refl]
  from inv cur have base: "parser_base p" and cnt: "active_count (cp_streams p) \<le> maximum_partial_messages (cp_limits p)"
    by (auto simp: parser_inv_def)
  have wf: "hm_wf (cp_streams p)" and pos: "0 < cp_chunk_size p"
    using base by (auto simp: parser_base_def)
  consider (cont) old where "?old = Some old" "st_active old" | (fresh) "?old = None \<or> (\<exists>t. ?old = Some t \<and> \<not> st_active t)"
    by (cases ?old) auto
  note cases = this
  have le: "st_received s \<le> mh_message_length (st_header s)"
    using cases by cases (use s(5,6) in auto)
  have cid: "mh_chunk_stream_id (st_header s) = csid p"
    unfolding s(3) using base by (intro chunk_header_fields_id) (cases ?old, auto simp: parser_base_def stream_ok_def)
  have "hm_len (cp_streams p') \<le> maximum_tracked_chunk_streams (cp_limits p)"
    using base s(4) wf by (auto simp: p' hm.size_ins parser_base_def)
  then have base': "parser_base p'"
    using base wf le s(2) cid cur by (auto simp: p' parser_base_def stream_ok_def)
  have fits: "active_count (cp_streams p') \<le> maximum_partial_messages (cp_limits p)
      + of_bool (st_received s + cp_chunk_left p' = mh_message_length (st_header s))"
    using cases
  proof cases
    case (cont old)
    then have "active_count (cp_streams p') \<le> active_count (cp_streams p)"
      using hm.count_ins_same [OF wf cont(1), of st_active s] by (simp add: p' active_count_def)
    then show ?thesis using cnt by simp
  next
    case fresh
    have "active_count (cp_streams p') \<le> Suc (active_count (cp_streams p))"
      using hm.count_ins_le [OF wf, of st_active "csid p" s] by (simp add: p' active_count_def)
    then show ?thesis
      using s(6) [OF fresh] cnt by (auto simp: p')
  qed
  have "0 < cp_chunk_left p' \<or> st_received s = mh_message_length (st_header s)"
    using le pos by (auto simp: p')
  moreover have "st_received s + cp_chunk_left p' \<le> mh_message_length (st_header s)"
    using le by (simp add: p')
  ultimately show ?thesis
    using base' s(1) fits by (simp add: parser_mid_def current_ok_def p')
qed

lemma header_loop_inv:
  assumes "parser_inv p" and "header_loop p c rest = (p', r)"
  shows "r \<noteq> Inl DecodePanic" and "\<forall>c' rest'. r = Inr (InChunk c' rest') \<longrightarrow> parser_mid p'"
    and "\<forall>e. r = Inl e \<longrightarrow> parser_inv p'" and "\<forall>c'. r = Inr (NeedMore c') \<longrightarrow> parser_inv p'"
proof -
  have "r \<noteq> Inl DecodePanic \<and> (case r of Inr (InChunk c' rest') \<Rightarrow> parser_mid p' | _ \<Rightarrow> parser_inv p')"
    if "parser_inv p \<or> parser_mid p \<and> cp_current p \<noteq> None" "header_loop p c rest = (p', r)"
    using that
  proof (induction p c rest arbitrary: p' r rule: header_loop.induct)
    case (1 p c rest)
    show ?case
    proof (cases "cp_current p = None")
      case False
      then show ?thesis
        using "1.prems" by (auto simp: header_loop.simps [of p c rest] parser_inv_def)
    next
      case cur: True
      then have inv: "parser_inv p"
        using "1.prems" by simp
      show ?thesis
      proof (cases "header_needed p")
        case (Inl e)
        then have "e \<noteq> DecodePanic"
          by (auto simp: header_needed_def Let_def split: if_splits option.splits)
        then show ?thesis
          using "1.prems" cur inv Inl by (auto simp: header_loop.simps [of p c rest])
      next
        case (Inr needed)
        define n where "n = min (needed - cp_used p) (length rest)"
        have len: "length (cp_scratch p) = 18" "needed \<le> 18"
          using inv header_needed_bounds [OF Inr] parser_inv_base [OF inv] by (auto simp: parser_base_def)
        show ?thesis
        proof (cases "cp_used p < needed")
          case True
          then have n: "cp_used p + n \<le> 18" "n \<le> length rest"
            using len by (auto simp: n_def)
          have inv': "parser_inv (read_scratch p n rest)"
            using read_scratch_inv [OF inv cur] n by simp
          have eq: "header_loop p c rest = (if cp_used p + n < needed
              then (read_scratch p n rest, Inr (NeedMore (c + n)))
              else header_loop (read_scratch p n rest) (c + n) (drop n rest))"
            using cur Inr True len n by (simp add: header_loop.simps [of p c rest] n_def Let_def)
          show ?thesis
          proof (cases "cp_used p + n < needed")
            case True
            then show ?thesis using eq "1.prems" inv' by auto
          next
            case False
            show ?thesis
              by (rule "1.IH"(1) [OF _ Inr True n_def]) (use cur False len n inv' eq "1.prems" in auto)
          qed
        next
          case False
          then have eq: "header_loop p c rest = (case begin_chunk p of Inl e \<Rightarrow> (p, Inl e)
              | Inr q \<Rightarrow> header_loop (q\<lparr>cp_used := 0\<rparr>) c rest)"
            using cur Inr by (simp add: header_loop.simps [of p c rest])
          show ?thesis
          proof (cases "begin_chunk p")
            case (Inl e)
            then have "e \<noteq> DecodePanic"
              by (auto simp: begin_chunk_def chunk_stream_def chunk_checked_def Let_def limit_def
                  split: if_splits sum.splits option.splits)
            then show ?thesis using Inl eq "1.prems" inv by auto
          next
            case (Inr q)
            have mid: "parser_mid (q\<lparr>cp_used := 0\<rparr>)"
              by (rule used_reset_inv, rule begin_chunk_mid [OF inv cur Inr])
            show ?thesis
              by (rule "1.IH"(2) [OF _ \<open>header_needed p = Inr needed\<close> False Inr])
                (use cur mid eq "1.prems" Inr begin_chunk_current [OF Inr] in auto)
          qed
        qed
      qed
    qed
  qed
  from this [OF _ assms(2)] assms(1) show "r \<noteq> Inl DecodePanic"
    and "\<forall>c' rest'. r = Inr (InChunk c' rest') \<longrightarrow> parser_mid p'"
    and "\<forall>e. r = Inl e \<longrightarrow> parser_inv p'" and "\<forall>c'. r = Inr (NeedMore c') \<longrightarrow> parser_inv p'"
    by auto
qed

lemma chunk_fragment_inv:
  assumes mid: "parser_mid p" and out: "chunk_fragment p c rest = (p', r)"
  shows "parser_inv p'" and "\<exists>step. r = Inr step"
proof -
  from mid obtain cid s where base: "parser_base p" and cur: "cp_current p = Some cid"
    and get: "hm_get (cp_streams p) cid = Some s" and act: "st_active s"
    and left: "0 < cp_chunk_left p \<or> st_received s = mh_message_length (st_header s)"
    and le: "st_received s + cp_chunk_left p \<le> mh_message_length (st_header s)"
    and cnt: "active_count (cp_streams p) \<le> maximum_partial_messages (cp_limits p)
      + of_bool (st_received s + cp_chunk_left p = mh_message_length (st_header s))"
    using parser_midE [OF mid] unfolding current_ok_def by blast
  show "\<exists>step. r = Inr step"
    using out cur get by (auto simp: chunk_fragment_def Let_def split: if_splits)
  define n where "n = min (cp_chunk_left p) (length rest)"
  show "parser_inv p'"
  proof (cases "n = 0 \<and> 0 < cp_chunk_left p")
    case True
    then show ?thesis
      using out cur get mid by (simp add: chunk_fragment_def n_def Let_def parser_inv_def)
  next
    case False
    define s2 where "s2 = (if st_received s + n = mh_message_length (st_header s)
      then s\<lparr>st_received := st_received s + n, st_active := False\<rparr> else s\<lparr>st_received := st_received s + n\<rparr>)"
    define p2 where "p2 = p\<lparr>cp_streams := hm_insert cid s2 (cp_streams p), cp_chunk_left := cp_chunk_left p - n\<rparr>"
    have p': "p' = (if cp_chunk_left p - n = 0 then p2\<lparr>cp_current := None\<rparr> else p2)"
      using out False unfolding chunk_fragment_def advance_chunk_def cur get option.case Let_def p2_def s2_def
        n_def [symmetric] by (simp split: if_splits)
    have n: "n \<le> cp_chunk_left p"
      by (simp add: n_def)
    have wf: "hm_wf (cp_streams p)"
      using base by (simp add: parser_base_def)
    have s2: "st_header s2 = st_header s" "st_received s2 = st_received s + n"
      "st_active s2 \<longleftrightarrow> st_received s + n \<noteq> mh_message_length (st_header s)"
      using act by (simp_all add: s2_def)
    have base2: "parser_base (p2\<lparr>cp_current := None\<rparr>)"
      if "\<not> st_active s2 \<or> st_received s2 < mh_message_length (st_header s2)"
      using base that cur get le n wf s2 by (auto simp: parser_base_def p2_def hm.size_ins stream_ok_def)
    have base3: "parser_base p2"
      using base cur get le n wf s2 by (auto simp: parser_base_def p2_def hm.size_ins stream_ok_def)
    have cnt2: "active_count (cp_streams p2) \<le> active_count (cp_streams p)"
      using hm.count_ins_same [OF wf get, of st_active s2] act by (simp add: p2_def active_count_def)
    have drop: "\<not> st_active s2 \<Longrightarrow> active_count (cp_streams p2) < active_count (cp_streams p)"
      using hm.count_deactivate [OF wf get, of st_active s2] act by (simp add: p2_def active_count_def)
    show ?thesis
    proof (cases "cp_chunk_left p - n = 0")
      case True
      have "active_count (cp_streams p2) \<le> maximum_partial_messages (cp_limits p)"
        using cnt cnt2 drop n True s2(3) by (cases "st_active s2") auto
      moreover have "\<not> st_active s2 \<or> st_received s2 < mh_message_length (st_header s2)"
        using s2 le n by auto
      ultimately show ?thesis
        using True base2 by (simp add: p' parser_inv_def p2_def)
    next
      case More: False
      then have "st_active s2"
        using s2 le n by auto
      then show ?thesis
        using More base3 cnt cnt2 cur le n s2
        by (simp add: p' parser_inv_def parser_mid_def current_ok_def p2_def)
    qed
  qed
qed

lemma consume_inv:
  assumes inv: "parser_inv p" and out: "consume p input = (p', r)"
  shows "parser_inv p'" and "r \<noteq> Inl DecodePanic"
proof -
  obtain p1 h where loop: "header_loop p 0 input = (p1, h)"
    by (cases "header_loop p 0 input")
  note hl = header_loop_inv [OF inv loop]
  show "parser_inv p'" "r \<noteq> Inl DecodePanic"
    using out loop hl chunk_fragment_inv
    by (auto simp: consume_def split: sum.splits header_outcome.splits) blast+
qed

lemma set_chunk_size_inv: "parser_inv p \<Longrightarrow> parser_set_chunk_size p n = Inr p' \<Longrightarrow> parser_inv p'"
  by (auto simp: parser_set_chunk_size_def parser_inv_def parser_mid_def parser_base_def
      split: if_splits option.splits)

lemma abort_inv:
  assumes inv: "parser_inv p"
  shows "parser_inv (parser_abort_chunk_stream p cid)"
proof (cases "hm_get (cp_streams p) cid")
  case None
  then show ?thesis
    using inv by (auto simp: parser_abort_chunk_stream_def parser_inv_def parser_mid_def split: option.splits)
next
  case (Some s)
  define s' where "s' = s\<lparr>st_active := False, st_received := 0\<rparr>"
  define p1 where "p1 = p\<lparr>cp_streams := hm_insert cid s' (cp_streams p)\<rparr>"
  have eq: "parser_abort_chunk_stream p cid
      = (if cp_current p1 = Some cid then p1\<lparr>cp_current := None, cp_chunk_left := 0\<rparr> else p1)"
    using Some by (simp add: parser_abort_chunk_stream_def p1_def s'_def)
  have base: "parser_base p" and wf: "hm_wf (cp_streams p)"
    using parser_inv_base [OF inv] by (auto simp: parser_base_def)
  have b1: "parser_base p1" "parser_base (p1\<lparr>cp_current := None, cp_chunk_left := 0\<rparr>)" if "cp_current p = None \<or> cp_current p = Some cid"
    using base wf Some that by (auto simp: parser_base_def p1_def s'_def hm.size_ins stream_ok_def)
  have b2: "parser_base p1"
    using base wf Some by (auto simp: parser_base_def p1_def s'_def hm.size_ins stream_ok_def)
  have cnt: "active_count (cp_streams p1) \<le> active_count (cp_streams p)"
    using hm.count_ins_not [OF wf, of st_active s' cid] by (simp add: p1_def s'_def active_count_def)
  have cnt': "st_active s \<Longrightarrow> active_count (cp_streams p1) < active_count (cp_streams p)"
    using hm.count_deactivate [OF wf Some, of st_active s'] by (simp add: p1_def s'_def active_count_def)
  show ?thesis
  proof (cases "cp_current p")
    case None
    then show ?thesis
      using inv eq b2 cnt by (auto simp: parser_inv_def p1_def)
  next
    case (Some d)
    show ?thesis
    proof (cases "d = cid")
      case True
      then show ?thesis
        using inv eq b1 Some cnt' \<open>hm_get (cp_streams p) cid = Some s\<close>
        by (auto simp: parser_inv_def parser_mid_def current_ok_def p1_def of_bool_def split: if_splits)
    next
      case False
      then show ?thesis
        using inv eq b2 Some cnt
        by (auto simp: parser_inv_def parser_mid_def p1_def split: option.splits intro: current_ok_mono)
    qed
  qed
qed

section \<open>Reachable parsers\<close>

text \<open>
  The operations a caller may perform, in any order and on any bytes, including after an error.
\<close>

inductive parser_step :: "chunk_parser \<Rightarrow> chunk_parser \<Rightarrow> bool" where
  step_consume: "consume p input = (p', r) \<Longrightarrow> parser_step p p'"
| step_chunk_size: "parser_set_chunk_size p n = Inr p' \<Longrightarrow> parser_step p p'"
| step_abort: "parser_step p (parser_abort_chunk_stream p cid)"

inductive parser_reachable :: "decoder_limits \<Rightarrow> chunk_parser \<Rightarrow> bool" for limits where
  reach_new: "parser_reachable limits (parser_with_limits limits)"
| reach_step: "parser_reachable limits p \<Longrightarrow> parser_step p p' \<Longrightarrow> parser_reachable limits p'"

lemma parser_step_inv: "parser_step p p' \<Longrightarrow> parser_inv p \<Longrightarrow> parser_inv p'"
  by (induction rule: parser_step.induct) (auto intro: consume_inv set_chunk_size_inv abort_inv)

lemma reachable_inv: "parser_reachable limits p \<Longrightarrow> parser_inv p"
  by (induction rule: parser_reachable.induct) (auto intro: parser_inv_new parser_step_inv)

text \<open>
  C6 (safety). In every parser reachable from a new one by consuming arbitrary bytes, changing the
  chunk size and aborting streams in any order, also after errors: consuming any further input does
  not panic (no header overruns the 18-byte scratch buffer and the current stream always exists),
  the number of tracked chunk streams and the declared length of every message stay within the
  limits, no message has more bytes than it declared, and between chunks at most
  \<open>maximum_partial_messages\<close> messages are incomplete.
\<close>

theorem parser_safe:
  assumes "parser_reachable limits p"
  shows "snd (consume p input) \<noteq> Inl DecodePanic
    \<and> hm_len (cp_streams p) \<le> maximum_tracked_chunk_streams (cp_limits p)
    \<and> (\<forall>s \<in> set (hm_values (cp_streams p)). st_received s \<le> mh_message_length (st_header s)
         \<and> mh_message_length (st_header s) \<le> maximum_message_size (cp_limits p))
    \<and> (cp_current p = None \<longrightarrow> active_count (cp_streams p) \<le> maximum_partial_messages (cp_limits p))"
proof -
  have inv: "parser_inv p"
    using assms by (rule reachable_inv)
  have base: "parser_base p"
    using inv by (rule parser_inv_base)
  have vals: "\<exists>cid. hm_get (cp_streams p) cid = Some s" if "s \<in> set (hm_values (cp_streams p))" for s
  proof -
    from that obtain cid where "(cid, s) \<in> set (cp_streams p)"
      by (auto simp: hm_values_def)
    then show ?thesis
      using base by (auto simp: hm_get_def parser_base_def hm_wf_def)
  qed
  have "snd (consume p input) \<noteq> Inl DecodePanic"
    using consume_inv(2) [OF inv, of input "fst (consume p input)"] by (cases "consume p input") auto
  then show ?thesis
    using base inv vals by (fastforce simp: parser_base_def parser_inv_def stream_ok_def)
qed

theorem parser_safe_witness:
  "snd (consume (parser_with_limits decoder_limits_default) [3, 0]) \<noteq> Inl DecodePanic
   \<and> active_count (cp_streams (parser_with_limits decoder_limits_default)) \<le> 4"
  using parser_safe [OF reach_new [of decoder_limits_default], of "[3, 0]"]
  by (simp add: parser_with_limits_def decoder_limits_default_def)

end
