(* ===== verification/Chunk_Split.thy ===== *)
theory Chunk_Split
  imports Chunk_Parser
begin

text \<open>
  The parser does not depend on how the transport cuts the byte stream into reads. \<open>parse_all\<close> is the
  documented driving loop (call \<open>consume\<close>, drop the consumed bytes, call again); feeding two reads one
  after the other gives the same parser, the same error and the same fragments, up to the cut of the
  fragment that straddles the boundary.
\<close>

section \<open>Progress\<close>

lemma header_loop_InChunk:
  "header_loop p c rest = (p', Inr (InChunk c' rest')) \<Longrightarrow>
   c \<le> c' \<and> c' \<le> c + length rest \<and> rest' = drop (c' - c) rest \<and> cp_current p' \<noteq> None
   \<and> (cp_current p \<noteq> None \<longrightarrow> c' = c \<and> p' = p)
   \<and> (cp_current p = None \<longrightarrow> cp_used p' = 0 \<and> (c' = c \<longrightarrow> 0 < cp_used p))"
proof (induction p c rest arbitrary: p' c' rest' rule: header_loop.induct)
  case (1 p c rest)
  show ?case
  proof (cases "cp_current p = None")
    case False
    then show ?thesis
      using "1.prems" by (auto simp: header_loop.simps [of p c rest])
  next
    case cur: True
    then obtain needed where needed: "header_needed p = Inr needed"
      using "1.prems" by (auto simp: header_loop.simps [of p c rest] split: sum.splits)
    define n where "n = min (needed - cp_used p) (length rest)"
    show ?thesis
    proof (cases "cp_used p < needed")
      case True
      then have loop: "header_loop (read_scratch p n rest) (c + n) (drop n rest) = (p', Inr (InChunk c' rest'))"
        and "\<not> length (cp_scratch p) < cp_used p + n" and full: "\<not> cp_used p + n < needed"
        using "1.prems" cur needed
        by (auto simp: header_loop.simps [of p c rest] n_def Let_def split: if_splits)
      from "1.IH"(1) [OF _ needed True n_def this(2,3,1)] cur
      have "c + n \<le> c' \<and> c' \<le> c + n + length (drop n rest) \<and> rest' = drop (c' - (c + n)) (drop n rest)
        \<and> cp_current p' \<noteq> None \<and> cp_used p' = 0"
        by auto
      moreover have "0 < n" "n \<le> length rest"
        using True full by (auto simp: n_def)
      ultimately show ?thesis
        using cur by (auto simp: add.commute)
    next
      case False
      then obtain q where q: "begin_chunk p = Inr q"
        and loop: "header_loop (q\<lparr>cp_used := 0\<rparr>) c rest = (p', Inr (InChunk c' rest'))"
        using "1.prems" cur needed by (auto simp: header_loop.simps [of p c rest] split: sum.splits)
      have "cp_current (q\<lparr>cp_used := 0\<rparr>) \<noteq> None"
        using begin_chunk_current [OF q] by simp
      then have "p' = q\<lparr>cp_used := 0\<rparr>" "c' = c" "rest' = rest" "cp_current p' \<noteq> None"
        using loop by (auto simp: header_loop.simps [of "q\<lparr>cp_used := 0\<rparr>"])
      then show ?thesis
        using cur False header_needed_bounds [OF needed] by auto
    qed
  qed
qed

lemma advance_chunk_simps [simp]:
  "cp_used (advance_chunk p cid s n) = cp_used p"
  "cp_limits (advance_chunk p cid s n) = cp_limits p"
  "cp_chunk_size (advance_chunk p cid s n) = cp_chunk_size p"
  "cp_scratch (advance_chunk p cid s n) = cp_scratch p"
  "cp_chunk_left (advance_chunk p cid s n) = cp_chunk_left p - n"
  "cp_current (advance_chunk p cid s n) = (if cp_chunk_left p \<le> n then None else cp_current p)"
  by (simp_all add: advance_chunk_def Let_def)

lemma chunk_fragment_SomeD:
  assumes "chunk_fragment p c rest = (p', Inr step)" and "ps_fragment step = Some f"
  shows "\<exists>cid s. cp_current p = Some cid \<and> hm_get (cp_streams p) cid = Some s
    \<and> (cp_chunk_left p = 0 \<or> rest \<noteq> [])
    \<and> p' = advance_chunk p cid s (min (cp_chunk_left p) (length rest))
    \<and> ps_consumed step = c + min (cp_chunk_left p) (length rest)
    \<and> f = \<lparr>mf_header = st_header s, mf_offset = st_received s,
           mf_data = take (min (cp_chunk_left p) (length rest)) rest\<rparr>"
proof -
  from assms(1) obtain cid s where cs: "cp_current p = Some cid" "hm_get (cp_streams p) cid = Some s"
    by (auto simp: chunk_fragment_def split: option.splits)
  show ?thesis
    using assms unfolding chunk_fragment_def cs option.case Let_def by (auto simp: cs split: if_splits)
qed

lemma consume_progress:
  assumes "consume p input = (p', Inr step)" and "ps_fragment step = Some f"
  shows "ps_consumed step \<le> length input"
    and "ps_consumed step = 0 \<Longrightarrow> cp_used p' < cp_used p
       \<or> cp_used p' = cp_used p \<and> cp_current p \<noteq> None \<and> cp_current p' = None"
proof -
  from assms obtain p1 c rest where loop: "header_loop p 0 input = (p1, Inr (InChunk c rest))"
    and frag: "chunk_fragment p1 c rest = (p', Inr step)"
    by (auto simp: consume_def split: prod.splits sum.splits header_outcome.splits)
  note hl = header_loop_InChunk [OF loop] and fr = chunk_fragment_SomeD [OF frag assms(2)]
  show "ps_consumed step \<le> length input"
    using hl fr by auto
  show "ps_consumed step = 0 \<Longrightarrow> cp_used p' < cp_used p
       \<or> cp_used p' = cp_used p \<and> cp_current p \<noteq> None \<and> cp_current p' = None"
    using hl fr by (cases "cp_current p = None") (auto simp: min_def split: if_splits)
qed

lemma consume_measure:
  assumes "(p', r) = consume p input" and "r = Inr step" and "ps_fragment step = Some f"
  shows "((p', drop (ps_consumed step) input), (p, input)) \<in> measures [\<lambda>(p, input). length input,
    \<lambda>(p, input). cp_used p, \<lambda>(p, input). of_bool (cp_current p \<noteq> None)]"
  using consume_progress [of p input p' step f] assms by (cases "ps_consumed step = 0") auto

section \<open>The driving loop\<close>

function parse_all :: "chunk_parser \<Rightarrow> bytes \<Rightarrow> chunk_parser \<times> message_fragment list \<times> decode_error option" where
  "parse_all p input =
     (case consume p input of
        (p', Inl e) \<Rightarrow> (p', [], Some e)
      | (p', Inr step) \<Rightarrow>
          (case ps_fragment step of
             None \<Rightarrow> (p', [], None)
           | Some f \<Rightarrow>
               (case parse_all p' (drop (ps_consumed step) input) of
                  (p'', fs, e) \<Rightarrow> (p'', f # fs, e))))"
  by pat_completeness auto
termination
  by (relation "measures [\<lambda>(p, input). length input, \<lambda>(p, input). cp_used p,
      \<lambda>(p, input). of_bool (cp_current p \<noteq> None)]", simp) (rule consume_measure)

declare parse_all.simps [simp del]

section \<open>Headers that straddle two reads\<close>

lemma min_nat_eq_0 [simp]: "min a b = (0 :: nat) \<longleftrightarrow> a = 0 \<or> b = 0"
  by (auto simp: min_def)

lemma hm_insert_twice [simp]: "hm_insert k v (hm_insert k w m) = hm_insert k v m"
  by (simp add: hm_insert_def)

lemma read_scratch_nth:
  assumes "cp_used p + n \<le> length (cp_scratch p)" and "n \<le> length rest" and "i < cp_used p"
  shows "cp_scratch (read_scratch p n rest) ! i = cp_scratch p ! i"
  using assms by (simp add: read_scratch_def nth_append)

lemma read_scratch_length:
  "cp_used p + n \<le> length (cp_scratch p) \<Longrightarrow> n \<le> length rest \<Longrightarrow>
   length (cp_scratch (read_scratch p n rest)) = length (cp_scratch p)"
  by (simp add: read_scratch_def)

lemma read_scratch_append:
  assumes "cp_used p + length xs + m \<le> length (cp_scratch p)" and "m \<le> length ys"
  shows "read_scratch (read_scratch p (length xs) xs) m ys = read_scratch p (length xs + m) (xs @ ys)"
  using assms by (simp add: read_scratch_def ac_simps)

lemma u24_drop_cong:
  assumes "length b = length b'" and "i + 3 \<le> length b" and "\<And>j. j < i + 3 \<Longrightarrow> b ! j = b' ! j"
  shows "u24 (drop i b) = u24 (drop i b')"
  using assms by (simp add: u24_def)

lemma body_len_ge3: "f < 4 \<Longrightarrow> f \<noteq> 3 \<Longrightarrow> 3 \<le> body_len f"
  by (auto simp: body_len_def less_Suc_eq numeral_eq_Suc)

text \<open>Reading fewer bytes than a header needs does not change how many it needs.\<close>

lemma header_needed_partial:
  assumes needed: "header_needed p = Inr needed" and len: "length (cp_scratch p) = 18"
    and part: "cp_used p + n < needed" and n: "n \<le> length rest"
  shows "header_needed (read_scratch p n rest) = Inr needed"
proof (cases "cp_used p = 0")
  case True
  then show ?thesis using needed part by (simp add: header_needed_def)
next
  case False
  let ?q = "read_scratch p n rest"
  have used: "cp_used p + n \<le> 18"
    using part header_needed_bounds [OF needed] by simp
  have nth: "i < cp_used p \<Longrightarrow> cp_scratch ?q ! i = cp_scratch p ! i" for i
    by (rule read_scratch_nth) (use used len n in auto)
  have basic: "basic_len ?q = basic_len p" "chunk_format ?q = chunk_format p"
    using nth [of 0] False by (simp_all add: basic_len_def chunk_format_def)
  show ?thesis
  proof (cases "cp_used p < basic_len p + body_len (chunk_format p)")
    case True
    then show ?thesis
      using needed part False basic by (auto simp: header_needed_def Let_def split: if_splits)
  next
    case full: False
    have "1 < cp_used p" "2 < cp_used p" if "cp_scratch p ! 0 AND 63 = 1"
      using full that by (auto simp: basic_len_def Let_def)
    moreover have "1 < cp_used p" if "cp_scratch p ! 0 AND 63 = 0"
      using full that by (auto simp: basic_len_def Let_def)
    ultimately have cid: "csid ?q = csid p"
      using nth [of 0] nth [of 1] nth [of 2] False by (auto simp: csid_def Let_def)
    have "u24 (drop (basic_len p) (cp_scratch ?q)) = u24 (drop (basic_len p) (cp_scratch p))"
      if "chunk_format p \<noteq> 3"
    proof (rule u24_drop_cong)
      have "3 \<le> body_len (chunk_format p)"
        using that fmt_less by (intro body_len_ge3) (auto simp: chunk_format_def)
      then have used3: "basic_len p + 3 \<le> cp_used p"
        using full by simp
      then show "basic_len p + 3 \<le> length (cp_scratch ?q)"
        using read_scratch_length [of p n rest] used len n by simp
      show "cp_scratch ?q ! j = cp_scratch p ! j" if "j < basic_len p + 3" for j
        using that used3 by (intro nth) simp
    qed (use read_scratch_length [of p n rest] used len n in simp)
    then show ?thesis
      using needed False full basic cid
      by (cases "chunk_format p = 3") (auto simp: header_needed_def Let_def split: option.splits if_splits)
  qed
qed

text \<open>The branches of the header loop, for a scratch buffer of 18 bytes.\<close>

lemma header_loop_in: "cp_current p \<noteq> None \<Longrightarrow> header_loop p c rest = (p, Inr (InChunk c rest))"
  by (simp add: header_loop.simps)

lemma header_loop_err:
  "cp_current p = None \<Longrightarrow> header_needed p = Inl e \<Longrightarrow> header_loop p c rest = (p, Inl e)"
  by (simp add: header_loop.simps)

lemma header_loop_part:
  assumes "cp_current p = None" and "header_needed p = Inr needed" and "cp_used p + length rest < needed"
    and "length (cp_scratch p) = 18"
  shows "header_loop p c rest = (read_scratch p (length rest) rest, Inr (NeedMore (c + length rest)))"
proof -
  have "min (needed - cp_used p) (length rest) = length rest"
    using assms(3) by simp
  then show ?thesis
    using assms header_needed_bounds [OF assms(2)] by (simp add: header_loop.simps [of p c rest] Let_def)
qed

lemma header_loop_full:
  assumes "cp_current p = None" and "header_needed p = Inr needed" and "cp_used p < needed"
    and "needed \<le> cp_used p + length rest" and "length (cp_scratch p) = 18"
  shows "header_loop p c rest = header_loop (read_scratch p (needed - cp_used p) rest)
    (c + (needed - cp_used p)) (drop (needed - cp_used p) rest)"
  using assms header_needed_bounds [OF assms(2)]
  by (simp add: header_loop.simps [of p c rest] Let_def min_def) (intro conjI impI; simp)

lemma header_loop_begin:
  assumes "cp_current p = None" and "header_needed p = Inr needed" and "needed \<le> cp_used p"
  shows "header_loop p c rest = (case begin_chunk p of Inl e \<Rightarrow> (p, Inl e)
    | Inr p' \<Rightarrow> (p'\<lparr>cp_used := 0\<rparr>, Inr (InChunk c rest)))"
  using assms by (auto simp: header_loop.simps [of p c rest] header_loop_in begin_chunk_current split: sum.splits)

lemma header_loop_branches [consumes 1, case_names inside error part full start]:
  assumes "length (cp_scratch p) = 18"
    and "cp_current p \<noteq> None \<Longrightarrow> P p c rest"
    and "\<And>e. cp_current p = None \<Longrightarrow> header_needed p = Inl e \<Longrightarrow> P p c rest"
    and "\<And>needed. cp_current p = None \<Longrightarrow> header_needed p = Inr needed \<Longrightarrow> 
      cp_used p + length rest < needed \<Longrightarrow> P p c rest"
    and "\<And>needed. cp_current p = None \<Longrightarrow> header_needed p = Inr needed \<Longrightarrow> cp_used p < needed \<Longrightarrow>
      needed \<le> cp_used p + length rest \<Longrightarrow> P p c rest"
    and "\<And>needed. cp_current p = None \<Longrightarrow> header_needed p = Inr needed \<Longrightarrow> needed \<le> cp_used p \<Longrightarrow> P p c rest"
  shows "P p c rest"
  using assms by (cases "header_needed p"; cases "cp_current p"; force)

lemma header_loop_induct [consumes 1, case_names inside error part full start]:
  assumes "length (cp_scratch p) = 18"
    and "\<And>p c rest. length (cp_scratch p) = 18 \<Longrightarrow> cp_current p \<noteq> None \<Longrightarrow> P p c rest"
    and "\<And>p c rest e. length (cp_scratch p) = 18 \<Longrightarrow> cp_current p = None \<Longrightarrow> header_needed p = Inl e \<Longrightarrow> P p c rest"
    and "\<And>p c rest needed. length (cp_scratch p) = 18 \<Longrightarrow> cp_current p = None \<Longrightarrow> header_needed p = Inr needed \<Longrightarrow>
      cp_used p + length rest < needed \<Longrightarrow> P p c rest"
    and "\<And>p c rest needed. length (cp_scratch p) = 18 \<Longrightarrow> cp_current p = None \<Longrightarrow> header_needed p = Inr needed \<Longrightarrow>
      cp_used p < needed \<Longrightarrow> needed \<le> cp_used p + length rest \<Longrightarrow>
      P (read_scratch p (needed - cp_used p) rest) (c + (needed - cp_used p)) (drop (needed - cp_used p) rest)
      \<Longrightarrow> P p c rest"
    and "\<And>p c rest needed. length (cp_scratch p) = 18 \<Longrightarrow> cp_current p = None \<Longrightarrow> header_needed p = Inr needed \<Longrightarrow>
      needed \<le> cp_used p \<Longrightarrow> P p c rest"
  shows "P p c rest"
  using assms(1)
proof (induction "length rest" arbitrary: p c rest rule: less_induct)
  case less
  show ?case
  proof (rule header_loop_branches [OF less.prems, where P = P and c = c and rest = rest])
    fix needed
    assume full: "cp_current p = None" "header_needed p = Inr needed" "cp_used p < needed"
      "needed \<le> cp_used p + length rest"
    moreover have "length (cp_scratch (read_scratch p (needed - cp_used p) rest)) = 18"
      using full less.prems header_needed_bounds [OF full(2)] by (simp add: read_scratch_length)
    ultimately show "P p c rest"
      using less by (intro assms(5) [OF less.prems]) auto
  qed (rule assms, rule less.prems, assumption+)+
qed

lemma header_loop_shift:
  "length (cp_scratch p) = 18 \<Longrightarrow> header_loop p (k + c) rest = (case header_loop p c rest of
     (p', Inl e) \<Rightarrow> (p', Inl e)
   | (p', Inr (NeedMore c')) \<Rightarrow> (p', Inr (NeedMore (k + c')))
   | (p', Inr (InChunk c' rest')) \<Rightarrow> (p', Inr (InChunk (k + c') rest')))"
  by (induction rule: header_loop_induct)
    (auto simp: header_loop_in header_loop_err header_loop_part header_loop_full header_loop_begin add.assoc
      split: sum.split)

lemma header_loop_append:
  "length (cp_scratch p) = 18 \<Longrightarrow> header_loop p c (xs @ ys) = (case header_loop p c xs of
     (p', Inl e) \<Rightarrow> (p', Inl e)
   | (p', Inr (NeedMore c')) \<Rightarrow> header_loop p' c' ys
   | (p', Inr (InChunk c' rest')) \<Rightarrow> (p', Inr (InChunk c' (rest' @ ys))))"
proof (induction rule: header_loop_induct)
  case (part p c rest needed)
  let ?q = "read_scratch p (length rest) rest"
  have used: "cp_used p + length rest \<le> 18"
    using part header_needed_bounds [OF part(3)] by simp
  have need: "header_needed ?q = Inr needed"
    by (rule header_needed_partial) (use part in auto)
  have len: "length (cp_scratch ?q) = 18"
    using part used by (simp add: read_scratch_length)
  show ?case
  proof (cases "cp_used p + length (rest @ ys) < needed")
    case True
    have "header_loop ?q (c + length rest) ys
      = (read_scratch ?q (length ys) ys, Inr (NeedMore (c + length rest + length ys)))"
      by (rule header_loop_part) (use True part need len in auto)
    moreover have "read_scratch ?q (length ys) ys = read_scratch p (length rest + length ys) (rest @ ys)"
      by (rule read_scratch_append) (use True part header_needed_bounds [OF part(3)] in auto)
    ultimately show ?thesis
      using True part by (simp add: header_loop_part)
  next
    case False
    let ?m = "needed - cp_used ?q"
    have "header_loop ?q (c + length rest) ys
      = header_loop (read_scratch ?q ?m ys) (c + length rest + ?m) (drop ?m ys)"
      by (rule header_loop_full) (use False part need len in auto)
    moreover have "header_loop p c (rest @ ys) = header_loop (read_scratch p (needed - cp_used p) (rest @ ys))
      (c + (needed - cp_used p)) (drop (needed - cp_used p) (rest @ ys))"
      by (rule header_loop_full) (use False part in auto)
    moreover have "read_scratch ?q ?m ys = read_scratch p (length rest + ?m) (rest @ ys)"
      by (rule read_scratch_append) (use False part header_needed_bounds [OF part(3)] in auto)
    moreover have "length rest + ?m = needed - cp_used p" "c + length rest + ?m = c + (needed - cp_used p)"
      using part by auto
    ultimately show ?thesis
      using part by (simp add: header_loop_part)
  qed
qed (auto simp: header_loop_in header_loop_err header_loop_full header_loop_begin read_scratch_def split: sum.split)

section \<open>Reads that straddle a chunk\<close>

definition shift_step :: "nat \<Rightarrow> parse_step \<Rightarrow> parse_step" where
  "shift_step k step = step\<lparr>ps_consumed := k + ps_consumed step\<rparr>"

lemma chunk_fragment_shift:
  "chunk_fragment p (k + c) rest = map_prod id (map_sum id (shift_step k)) (chunk_fragment p c rest)"
  by (auto simp: chunk_fragment_def Let_def shift_step_def split: option.split)

lemma parser_inv_scratch: "parser_inv p \<Longrightarrow> length (cp_scratch p) = 18"
  using parser_inv_base by (auto simp: parser_base_def)

lemma consume_unfold_shift:
  assumes "length (cp_scratch p) = 18"
  shows "(case header_loop p k input of
        (p1, Inl e) \<Rightarrow> (p1, Inl e)
      | (p1, Inr (NeedMore consumed)) \<Rightarrow> (p1, Inr \<lparr>ps_consumed = consumed, ps_fragment = None\<rparr>)
      | (p1, Inr (InChunk consumed rest)) \<Rightarrow> chunk_fragment p1 consumed rest)
    = map_prod id (map_sum id (shift_step k)) (consume p input)"
  using header_loop_shift [OF assms, of k 0 input] chunk_fragment_shift [of _ k]
  by (auto simp: consume_def shift_step_def split: prod.split sum.split header_outcome.split)

text \<open>More input after an error, a wait for more input or a finished chunk.\<close>

lemma consume_append_error:
  assumes "parser_inv p" and "consume p xs = (p', Inl e)"
  shows "consume p (xs @ ys) = (p', Inl e)"
proof -
  obtain p1 r where loop: "header_loop p 0 xs = (p1, r)"
    by (cases "header_loop p 0 xs")
  have "r = Inl e \<and> p1 = p'"
    using assms loop header_loop_inv(2) [OF assms(1) loop] chunk_fragment_inv(2)
    by (fastforce simp: consume_def split: sum.splits header_outcome.splits)
  then show ?thesis
    using header_loop_append [OF parser_inv_scratch [OF assms(1)], of 0 xs ys] loop
    by (simp add: consume_def)
qed

lemma header_loop_NeedMore:
  "length (cp_scratch p) = 18 \<Longrightarrow> header_loop p c xs = (p', Inr (NeedMore c')) \<Longrightarrow>
   c' = c + length xs \<and> length (cp_scratch p') = 18"
proof (induction p c xs arbitrary: p' c' rule: header_loop_induct)
  case (part p c rest needed)
  then show ?case
    using header_needed_bounds [OF part(3)] by (auto simp: header_loop_part read_scratch_length)
next
  case (full p c rest needed)
  then show ?case by (fastforce simp: header_loop_full)
qed (auto simp: header_loop_in header_loop_err header_loop_begin split: sum.splits)

lemma consume_append_wait:
  assumes inv: "parser_inv p" and out: "consume p xs = (p', Inr step)" and none: "ps_fragment step = None"
  shows "consume p (xs @ ys) = map_prod id (map_sum id (shift_step (length xs))) (consume p' ys)"
proof -
  note len = parser_inv_scratch [OF inv]
  obtain p1 r where loop: "header_loop p 0 xs = (p1, r)"
    by (cases "header_loop p 0 xs")
  note app = header_loop_append [OF len, of 0 xs ys]
  consider (need) c where "r = Inr (NeedMore c)" "p1 = p'"
    | (chunk) c rest where "r = Inr (InChunk c rest)" "chunk_fragment p1 c rest = (p', Inr step)"
    using out loop by (auto simp: consume_def split: sum.splits header_outcome.splits)
  then show ?thesis
  proof cases
    case need
    then have "c = length xs" "length (cp_scratch p') = 18"
      using header_loop_NeedMore [OF len, of 0 xs p' c] loop by auto
    then show ?thesis
      using app need loop consume_unfold_shift [of p' "length xs" ys] by (simp add: consume_def)
  next
    case chunk
    have mid: "parser_mid p1"
      using header_loop_inv(2) [OF inv loop] chunk(1) by simp
    obtain cid s where cs: "cp_current p1 = Some cid" "hm_get (cp_streams p1) cid = Some s"
      using mid by (rule parser_midE)
    have "rest = []" "p' = p1"
      using chunk(2) none by (auto simp: chunk_fragment_def cs Let_def split: if_splits)
    moreover have "c = length xs"
      using header_loop_InChunk [of p 0 xs p1 c rest] loop chunk(1) \<open>rest = []\<close> by auto
    ultimately show ?thesis
      using app chunk(1) loop cs chunk_fragment_shift [of p1 "length xs" 0 ys]
      by (simp add: consume_def header_loop_in)
  qed
qed

lemma consume_append_done:
  assumes inv: "parser_inv p" and out: "consume p xs = (p', Inr step)"
    and some: "ps_fragment step = Some f" and none: "cp_current p' = None"
  shows "consume p (xs @ ys) = (p', Inr step)"
proof -
  from out some obtain p1 c rest where loop: "header_loop p 0 xs = (p1, Inr (InChunk c rest))"
    and frag: "chunk_fragment p1 c rest = (p', Inr step)"
    by (auto simp: consume_def split: prod.splits sum.splits header_outcome.splits)
  from chunk_fragment_SomeD [OF frag some] obtain cid s where
    cs: "cp_current p1 = Some cid" "hm_get (cp_streams p1) cid = Some s"
    and p': "p' = advance_chunk p1 cid s (min (cp_chunk_left p1) (length rest))"
    by blast
  have "cp_chunk_left p1 \<le> length rest"
    using none cs by (auto simp: p' split: if_splits)
  then have "chunk_fragment p1 c (rest @ ys) = chunk_fragment p1 c rest"
    by (auto simp: chunk_fragment_def cs Let_def min_absorb1)
  then show ?thesis
    using header_loop_append [OF parser_inv_scratch [OF inv], of 0 xs ys] loop frag
    by (simp add: consume_def)
qed

text \<open>A chunk cut by the end of the read: the next read delivers its continuation.\<close>

lemma advance_chunk_twice:
  assumes "st_active s" and "n < cp_chunk_left p" and "st_received s + cp_chunk_left p \<le> mh_message_length (st_header s)"
  shows "advance_chunk (advance_chunk p cid s n) cid (s\<lparr>st_received := st_received s + n\<rparr>) m
    = advance_chunk p cid s (n + m)"
  using assms by (simp add: advance_chunk_def Let_def add.assoc)

lemma consume_append_cut:
  assumes inv: "parser_inv p" and out: "consume p xs = (p', Inr step)"
    and some: "ps_fragment step = Some f" and cut: "cp_current p' \<noteq> None" and ys: "ys \<noteq> []"
  obtains q step2 f2 where "consume p' ys = (q, Inr step2)" and "ps_fragment step2 = Some f2"
    and "mf_header f2 = mf_header f" and "mf_offset f2 = mf_offset f + length (mf_data f)"
    and "mf_data f \<noteq> []" and "mf_data f2 \<noteq> []" and "ps_consumed step = length xs"
    and "consume p (xs @ ys) = (q, Inr \<lparr>ps_consumed = length xs + ps_consumed step2,
      ps_fragment = Some (f\<lparr>mf_data := mf_data f @ mf_data f2\<rparr>)\<rparr>)"
    and "consume p' [] = (p', Inr \<lparr>ps_consumed = 0, ps_fragment = None\<rparr>)"
proof -
  from out some obtain p1 c rest where loop: "header_loop p 0 xs = (p1, Inr (InChunk c rest))"
    and frag: "chunk_fragment p1 c rest = (p', Inr step)"
    by (auto simp: consume_def split: prod.splits sum.splits header_outcome.splits)
  have mid: "parser_mid p1"
    using header_loop_inv(2) [OF inv loop] by simp
  let ?n = "min (cp_chunk_left p1) (length rest)"
  from chunk_fragment_SomeD [OF frag some] obtain cid s where
    cs: "cp_current p1 = Some cid" "hm_get (cp_streams p1) cid = Some s"
    and pos: "cp_chunk_left p1 = 0 \<or> rest \<noteq> []" and p': "p' = advance_chunk p1 cid s ?n"
    and cons: "ps_consumed step = c + ?n"
    and f: "f = \<lparr>mf_header = st_header s, mf_offset = st_received s, mf_data = take ?n rest\<rparr>"
    by blast
  have ok: "st_active s" "st_received s + cp_chunk_left p1 \<le> mh_message_length (st_header s)"
    using mid cs by (auto simp: parser_mid_def current_ok_def)
  have less: "length rest < cp_chunk_left p1"
    using cut by (auto simp: p' not_le min_def split: if_splits)
  then have n: "?n = length rest" and rest: "rest \<noteq> []"
    using pos by auto
  have c: "c + length rest = length xs"
    using header_loop_InChunk [OF loop] by auto
  define s' where "s' = s\<lparr>st_received := st_received s + length rest\<rparr>"
  have cs': "cp_current p' = Some cid" "hm_get (cp_streams p') cid = Some s'"
    "cp_chunk_left p' = cp_chunk_left p1 - length rest"
    using less cs ok by (auto simp: p' n s'_def advance_chunk_def Let_def)
  let ?m = "min (cp_chunk_left p') (length ys)"
  let ?step2 = "\<lparr>ps_consumed = ?m, ps_fragment = Some
    \<lparr>mf_header = st_header s', mf_offset = st_received s', mf_data = take ?m ys\<rparr>\<rparr>"
  have left: "0 < cp_chunk_left p'"
    using less cs' by simp
  have nxt: "consume p' ys = (advance_chunk p' cid s' ?m, Inr ?step2)"
    using ys left by (simp add: consume_def header_loop_in cs' chunk_fragment_def Let_def)
  have merge: "min (cp_chunk_left p1) (length (rest @ ys)) = length rest + ?m"
    using less cs' by simp
  have same: "advance_chunk p' cid s' ?m = advance_chunk p1 cid s (length rest + ?m)"
    unfolding p' n s'_def by (rule advance_chunk_twice) (use ok less in auto)
  have "consume p (xs @ ys) = chunk_fragment p1 c (rest @ ys)"
    using header_loop_append [OF parser_inv_scratch [OF inv], of 0 xs ys] loop by (simp add: consume_def)
  also have "\<dots> = (advance_chunk p1 cid s (length rest + ?m), Inr \<lparr>ps_consumed = c + (length rest + ?m),
      ps_fragment = Some \<lparr>mf_header = st_header s, mf_offset = st_received s, mf_data = rest @ take ?m ys\<rparr>\<rparr>)"
    using rest unfolding chunk_fragment_def cs option.case Let_def merge by simp
  finally have "consume p (xs @ ys) = (advance_chunk p' cid s' ?m, Inr \<lparr>ps_consumed = length xs + ps_consumed ?step2,
      ps_fragment = Some (f\<lparr>mf_data := mf_data f @ take ?m ys\<rparr>)\<rparr>)"
    using same c by (simp add: f n add.assoc [symmetric])
  moreover have "consume p' [] = (p', Inr \<lparr>ps_consumed = 0, ps_fragment = None\<rparr>)"
    using left by (simp add: consume_def header_loop_in cs' chunk_fragment_def)
  ultimately show thesis
    by (intro that [OF nxt, of "\<lparr>mf_header = st_header s', mf_offset = st_received s', mf_data = take ?m ys\<rparr>"])
      (use rest ys left cons c in \<open>simp_all add: f n s'_def\<close>)
qed

section \<open>Independence of the read boundaries\<close>

text \<open>
  What a sequence of fragments delivers: one event per payload byte, with the header and the offset
  it is delivered under, and one event for an empty fragment (a message of length zero).
\<close>

type_synonym payload_event = "message_header \<times> nat \<times> u8 option"

definition fragment_events :: "message_fragment \<Rightarrow> payload_event list" where
  "fragment_events f =
     (if mf_data f = [] then [(mf_header f, mf_offset f, None)]
      else map (\<lambda>(i, b). (mf_header f, i, Some b)) (enumerate (mf_offset f) (mf_data f)))"

definition parse_events :: "chunk_parser \<Rightarrow> bytes \<Rightarrow> chunk_parser \<times> payload_event list \<times> decode_error option" where
  "parse_events p input = (case parse_all p input of (p', fs, e) \<Rightarrow> (p', concat (map fragment_events fs), e))"

fun parse_reads :: "chunk_parser \<Rightarrow> bytes list \<Rightarrow> chunk_parser \<times> payload_event list \<times> decode_error option" where
  "parse_reads p [] = (p, [], None)"
| "parse_reads p (r # rs) =
     (case parse_events p r of
        (p', es, Some e) \<Rightarrow> (p', es, Some e)
      | (p', es, None) \<Rightarrow> (case parse_reads p' rs of (p'', es', e) \<Rightarrow> (p'', es @ es', e)))"

lemma fragment_events_merge:
  "mf_data f \<noteq> [] \<Longrightarrow> d \<noteq> [] \<Longrightarrow> mf_header g = mf_header f \<Longrightarrow> mf_offset g = mf_offset f + length (mf_data f) \<Longrightarrow>
   mf_data g = d \<Longrightarrow>
   fragment_events (f\<lparr>mf_data := mf_data f @ d\<rparr>) = fragment_events f @ fragment_events g"
  by (simp add: fragment_events_def enumerate_append_eq)

lemma parse_events_unfold:
  "parse_events p input =
     (case consume p input of
        (p', Inl e) \<Rightarrow> (p', [], Some e)
      | (p', Inr step) \<Rightarrow>
          (case ps_fragment step of
             None \<Rightarrow> (p', [], None)
           | Some f \<Rightarrow>
               (case parse_events p' (drop (ps_consumed step) input) of
                  (p'', es, e) \<Rightarrow> (p'', fragment_events f @ es, e))))"
  by (subst parse_events_def, subst parse_all.simps)
    (auto simp: parse_events_def split: prod.split sum.split option.split)

lemma parse_all_inv: "parser_inv p \<Longrightarrow> parse_all p xs = (q, fs, e) \<Longrightarrow> parser_inv q"
proof (induction p xs arbitrary: q fs rule: parse_all.induct)
  case (1 p input)
  then show ?case
    using consume_inv(1) [OF "1.prems"(1)]
    by (subst (asm) (2) parse_all.simps) (fastforce split: prod.splits sum.splits option.splits)
qed

text \<open>When the loop stops without an error it is waiting for input: no input gives nothing.\<close>

lemma consume_wait_again:
  assumes "parser_inv p" and "consume p xs = (p', Inr step)" and "ps_fragment step = None"
  shows "\<exists>step'. consume p' [] = (p', Inr step') \<and> ps_fragment step' = None"
proof -
  have "(p', Inr step) = map_prod id (map_sum id (shift_step (length xs))) (consume p' [])"
    using consume_append_wait [OF assms, of "[]"] assms(2) by simp
  then show ?thesis
    using assms(3) by (cases "consume p' []"; cases "snd (consume p' [])") (auto simp: shift_step_def)
qed

lemma parse_all_settled:
  "parser_inv p \<Longrightarrow> parse_all p xs = (q, fs, None) \<Longrightarrow> parse_all q [] = (q, [], None)"
proof (induction p xs arbitrary: fs rule: parse_all.induct)
  case (1 p input)
  obtain p' r where out: "consume p input = (p', r)"
    by (cases "consume p input")
  then obtain step where r: "r = Inr step"
    using "1.prems"(2) by (cases r) (auto simp: parse_all.simps [of p input])
  show ?case
  proof (cases "ps_fragment step")
    case None
    then have "q = p'"
      using "1.prems"(2) out r by (simp add: parse_all.simps [of p input])
    moreover have "\<exists>step'. consume p' [] = (p', Inr step') \<and> ps_fragment step' = None"
      using consume_wait_again [OF "1.prems"(1) _ None] out r by simp
    ultimately show ?thesis
      by (auto simp: parse_all.simps [of p' "[]"])
  next
    case (Some f)
    then obtain fs' where "parse_all p' (drop (ps_consumed step) input) = (q, fs', None)"
      using "1.prems"(2) out r by (auto simp: parse_all.simps [of p input] split: prod.splits)
    then show ?thesis
      using "1.IH" [OF out [symmetric] r Some] consume_inv(1) [OF "1.prems"(1) out] by blast
  qed
qed

lemma parse_events_append:
  assumes "parser_inv p"
  shows "parse_events p (xs @ ys) = (case parse_events p xs of
      (p', es, Some e) \<Rightarrow> (p', es, Some e)
    | (p', es, None) \<Rightarrow> (case parse_events p' ys of (p'', es', e) \<Rightarrow> (p'', es @ es', e)))"
  using assms
proof (induction p xs rule: parse_all.induct)
  case (1 p xs)
  obtain p' r where out: "consume p xs = (p', r)"
    by (cases "consume p xs")
  show ?case
  proof (cases r)
    case (Inl e)
    then have "consume p (xs @ ys) = (p', Inl e)"
      using consume_append_error [OF "1.prems"] out by simp
    then show ?thesis
      using out Inl by (simp add: parse_events_unfold)
  next
    case (Inr step)
    show ?thesis
    proof (cases "ps_fragment step")
      case None
      then have "consume p (xs @ ys) = map_prod id (map_sum id (shift_step (length xs))) (consume p' ys)"
        using consume_append_wait [OF "1.prems"] out Inr by simp
      then have "parse_events p (xs @ ys) = parse_events p' ys"
        by (simp add: parse_events_unfold [of p "xs @ ys"] parse_events_unfold [of p' ys] shift_step_def
            split: prod.split sum.split option.split)
      then show ?thesis
        using out Inr None by (simp add: parse_events_unfold [of p xs] split: prod.split)
    next
      case (Some f)
      show ?thesis
      proof (cases "cp_current p' = None")
        case True
        then have "consume p (xs @ ys) = (p', Inr step)"
          using consume_append_done [OF "1.prems" _ Some] out Inr by simp
        moreover have "ps_consumed step \<le> length xs"
          using consume_progress(1) [OF _ Some] out Inr by simp
        moreover have "parser_inv p'"
          using consume_inv(1) [OF "1.prems" out] .
        ultimately show ?thesis
          using out Inr Some "1.IH" [OF out [symmetric] Inr Some]
          by (simp add: parse_events_unfold [of p] split: prod.split option.split)
      next
        case cut: False
        show ?thesis
        proof (cases "ys = []")
          case True
          have "parse_events p' [] = (p', [], None)" if "parse_events p xs = (p', es, None)" for p' es
            using parse_all_settled [OF "1.prems", of xs] that by (auto simp: parse_events_def split: prod.splits)
          then show ?thesis
            using True by (auto split: prod.split option.split)
        next
          case ys: False
          obtain q step2 f2 where two: "consume p' ys = (q, Inr step2)" "ps_fragment step2 = Some f2"
            "mf_header f2 = mf_header f" "mf_offset f2 = mf_offset f + length (mf_data f)"
            "mf_data f \<noteq> []" "mf_data f2 \<noteq> []" "ps_consumed step = length xs"
            "consume p (xs @ ys) = (q, Inr \<lparr>ps_consumed = length xs + ps_consumed step2,
              ps_fragment = Some (f\<lparr>mf_data := mf_data f @ mf_data f2\<rparr>)\<rparr>)"
            "consume p' [] = (p', Inr \<lparr>ps_consumed = 0, ps_fragment = None\<rparr>)"
            by (rule consume_append_cut [OF "1.prems" _ Some cut ys, of xs]) (use out Inr in auto)
          have "parse_events p xs = (p', fragment_events f, None)"
            using out Inr Some two(7,9) by (simp add: parse_events_unfold)
          moreover have "fragment_events (f\<lparr>mf_data := mf_data f @ mf_data f2\<rparr>)
              = fragment_events f @ fragment_events f2"
            by (rule fragment_events_merge) (use two in auto)
          ultimately show ?thesis
            using two(1,2,8) by (simp add: parse_events_unfold [of p "xs @ ys"] parse_events_unfold [of p' ys]
                split: prod.split)
        qed
      qed
    qed
  qed
qed

lemma parse_events_inv: "parser_inv p \<Longrightarrow> parse_events p xs = (q, es, e) \<Longrightarrow> parser_inv q"
  using parse_all_inv by (auto simp: parse_events_def split: prod.splits)

lemma parse_reads_concat: "parser_inv p \<Longrightarrow> reads \<noteq> [] \<Longrightarrow> parse_reads p reads = parse_events p (concat reads)"
proof (induction reads arbitrary: p)
  case (Cons r rs)
  show ?case
  proof (cases rs)
    case Nil
    then show ?thesis by (auto split: prod.split option.split)
  next
    case (Cons r' rs')
    then have "parse_reads p' rs = parse_events p' (concat rs)" if "parse_events p r = (p', es, None)" for p' es
      using parse_events_inv [OF Cons.prems(1) that] Cons.IH by simp
    then show ?thesis
      using parse_events_append [OF Cons.prems(1), of r "concat rs"] by (auto split: prod.split option.split)
  qed
qed simp

text \<open>
  C5 (equivalence). The parser is independent of how the transport cuts the stream: for a reachable
  parser, feeding any list of reads one after the other leaves the same parser, reports the same
  error and delivers the same payload bytes under the same headers and offsets as feeding their
  concatenation in one piece.
\<close>

theorem parse_split_invariant:
  assumes "parser_reachable limits p" and "reads \<noteq> []"
  shows "parse_reads p reads = parse_events p (concat reads)"
  using parse_reads_concat reachable_inv assms by blast

theorem parse_split_invariant_witness:
  "parse_reads parser_new [[2, 0, 0], [0, 0, 0, 1, 5, 0, 0, 0], [], [0, 42]]
   = parse_events parser_new [2, 0, 0, 0, 0, 0, 1, 5, 0, 0, 0, 0, 42]"
  using parse_split_invariant [OF reach_new [of decoder_limits_default],
      of "[[2, 0, 0], [0, 0, 0, 1, 5, 0, 0, 0], [], [0, 42]]"]
  by (simp add: parser_new_def)

end
