(* ===== verification/Message_Decoder.thy ===== *)
theory Message_Decoder
  imports Chunk_Split Raw_Message
begin

text \<open>
  \<open>MessageDecoder\<close> of \<open>src/src/chunk_io/streaming.rs\<close>: the owned, zero-copy adapter over the chunk
  parser, with its byte, descriptor and partial-message accounting. Every operation returns the
  decoder and the unread input, also on an error. \<open>decoder_env\<close> holds what the code takes from the
  \<open>bytes\<close> crate and the platform: the capacity of a fresh \<open>BytesMut\<close>, the capacity after it grows,
  and whether the lock of the payload pool can be taken.
\<close>

section \<open>Data\<close>

record decoder_env =
  de_capacity :: "nat \<Rightarrow> nat"
  de_grow :: "nat \<Rightarrow> nat \<Rightarrow> nat"
  de_lock :: bool

datatype assembly = Segmented payload | Contiguous bytes nat

fun asm_len :: "assembly \<Rightarrow> nat" where
  "asm_len (Segmented p) = payload_len p"
| "asm_len (Contiguous b capacity) = length b"

fun asm_reserved :: "assembly \<Rightarrow> nat" where
  "asm_reserved (Segmented p) = payload_len p"
| "asm_reserved (Contiguous b capacity) = capacity"

fun asm_finish :: "assembly \<Rightarrow> payload" where
  "asm_finish (Segmented p) = p"
| "asm_finish (Contiguous b capacity) = payload_from_bytes b"

datatype input = Owned bytes | Borrowed bytes

fun as_slice :: "input \<Rightarrow> bytes" where
  "as_slice (Owned b) = b"
| "as_slice (Borrowed b) = b"

text \<open>\<open>advance\<close> and \<open>take\<close> panic (\<open>None\<close>) past the end of the input.\<close>

fun input_advance :: "input \<Rightarrow> nat \<Rightarrow> input option" where
  "input_advance (Owned b) n = (if n \<le> length b then Some (Owned (drop n b)) else None)"
| "input_advance (Borrowed b) n = (if n \<le> length b then Some (Borrowed (drop n b)) else None)"

fun input_take :: "input \<Rightarrow> nat \<Rightarrow> (bytes \<times> input) option" where
  "input_take (Owned b) n = (if n \<le> length b then Some (take n b, Owned (drop n b)) else None)"
| "input_take (Borrowed b) n = (if n \<le> length b then Some (take n b, Borrowed (drop n b)) else None)"

fun is_owned :: "input \<Rightarrow> bool" where
  "is_owned (Owned b) = True"
| "is_owned (Borrowed b) = False"

record message_decoder =
  md_parser :: chunk_parser
  md_partials :: "(u32, assembly) hash_map"
  md_buffered :: nat
  md_reserved :: nat
  md_limits :: decoder_limits
  md_pool :: "payload_pool option"

section \<open>Operations\<close>

definition decoder_with_limits :: "decoder_limits \<Rightarrow> message_decoder" where
  "decoder_with_limits limits =
     \<lparr>md_parser = parser_with_limits limits, md_partials = [], md_buffered = 0, md_reserved = 0,
      md_limits = limits, md_pool = None\<rparr>"

definition decoder_new :: message_decoder where
  "decoder_new = decoder_with_limits decoder_limits_default"

definition set_payload_pool :: "message_decoder \<Rightarrow> payload_pool \<Rightarrow> message_decoder" where
  "set_payload_pool d pool = d\<lparr>md_pool := Some pool\<rparr>"

definition decoder_set_chunk_size :: "message_decoder \<Rightarrow> nat \<Rightarrow> decode_error + message_decoder" where
  "decoder_set_chunk_size d n =
     (case parser_set_chunk_size (md_parser d) n of Inl e \<Rightarrow> Inl e | Inr p \<Rightarrow> Inr (d\<lparr>md_parser := p\<rparr>))"

definition decoder_is_idle :: "message_decoder \<Rightarrow> bool" where
  "decoder_is_idle d = parser_is_idle (md_parser d)"

text \<open>
  Forget a partial message, giving its bytes back to the accounting. \<open>None\<close> where a subtraction
  would underflow.
\<close>

definition release_partial :: "message_decoder \<Rightarrow> u32 \<Rightarrow> assembly \<Rightarrow> message_decoder option" where
  "release_partial d cid body =
     (if md_buffered d < asm_len body \<or> md_reserved d < asm_reserved body then None
      else Some (d\<lparr>md_partials := hm_remove cid (md_partials d),
                   md_buffered := md_buffered d - asm_len body,
                   md_reserved := md_reserved d - asm_reserved body\<rparr>))"

definition decoder_abort_chunk_stream :: "message_decoder \<Rightarrow> u32 \<Rightarrow> message_decoder option" where
  "decoder_abort_chunk_stream d cid =
     (let d1 = d\<lparr>md_parser := parser_abort_chunk_stream (md_parser d) cid\<rparr>
      in case hm_get (md_partials d1) cid of
           None \<Rightarrow> Some d1
         | Some body \<Rightarrow> release_partial d1 cid body)"

text \<open>The first fragment of a message that does not end with it opens its assembly.\<close>

definition install_assembly :: "message_decoder \<Rightarrow> u32 \<Rightarrow> assembly \<Rightarrow> message_decoder" where
  "install_assembly d cid body =
     d\<lparr>md_reserved := md_reserved d + asm_reserved body, md_partials := hm_insert cid body (md_partials d)\<rparr>"

definition open_assembly ::
    "decoder_env \<Rightarrow> message_decoder \<Rightarrow> message_header \<Rightarrow> bool \<Rightarrow> message_decoder \<times> decode_error option" where
  "open_assembly env d header owned =
     (let cid = mh_chunk_stream_id header; limits = md_limits d
      in if hm_len (md_partials d) \<ge> maximum_partial_messages limits
      then (d, Some (limit ''partial messages'' (hm_len (md_partials d) + 1) (maximum_partial_messages limits)))
      else if owned
      then (case md_pool d of
              Some pool \<Rightarrow>
                (case pool_acquire (de_lock env) pool of
                   (pool', capacity, p) \<Rightarrow>
                     (install_assembly (d\<lparr>md_pool := Some pool'\<rparr>) cid (Segmented p), None))
            | None \<Rightarrow> (install_assembly d cid (Segmented payload_new), None))
      else let capacity = mh_message_length header
      in if saturating_add (md_reserved d) capacity > maximum_buffered_bytes limits
      then (d, Some (limit ''reserved bytes'' (saturating_add (md_reserved d) capacity)
                      (maximum_buffered_bytes limits)))
      else (install_assembly d cid (Contiguous [] (de_capacity env capacity)), None))"

definition append_fragment ::
    "decoder_env \<Rightarrow> message_decoder \<Rightarrow> u32 \<Rightarrow> input \<Rightarrow> nat \<Rightarrow> message_decoder \<times> input \<times> decode_error option" where
  "append_fragment env d cid input n =
     (let limits = md_limits d
      in case hm_get (md_partials d) cid of
           None \<Rightarrow> (d, input, Some DecodePanic)
         | Some (Segmented p) \<Rightarrow>
             if n \<noteq> 0 \<and> payload_segment_count p \<ge> maximum_fragments_per_message limits
             then (d, input, Some (limit ''payload fragments'' (payload_segment_count p + 1)
                                    (maximum_fragments_per_message limits)))
             else if saturating_add (md_reserved d) n > maximum_buffered_bytes limits
             then (d, input, Some (limit ''reserved bytes'' (saturating_add (md_reserved d) n)
                                    (maximum_buffered_bytes limits)))
             else (case input_take input n of
                     None \<Rightarrow> (d, input, Some DecodePanic)
                   | Some (b, input') \<Rightarrow>
                       (case payload_push p b of
                          None \<Rightarrow> (d, input', Some DecodePanic)
                        | Some p' \<Rightarrow>
                            (d\<lparr>md_partials := hm_insert cid (Segmented p') (md_partials d),
                               md_reserved := md_reserved d + n\<rparr>, input', None)))
         | Some (Contiguous b capacity) \<Rightarrow>
             (case input_advance input n of
                None \<Rightarrow> (d, input, Some DecodePanic)
              | Some input' \<Rightarrow>
                  let b' = b @ take n (as_slice input);
                      capacity' = (if length b' \<le> capacity then capacity else de_grow env capacity (length b'))
                  in (d\<lparr>md_partials := hm_insert cid (Contiguous b' capacity') (md_partials d)\<rparr>, input', None)))"

definition close_assembly :: "message_decoder \<Rightarrow> u32 \<Rightarrow> message_decoder \<times> (decode_error + payload)" where
  "close_assembly d cid =
     (case hm_get (md_partials d) cid of
        None \<Rightarrow> (d, Inl DecodePanic)
      | Some body \<Rightarrow>
          (case release_partial d cid body of
             None \<Rightarrow> (d, Inl DecodePanic)
           | Some d' \<Rightarrow> (d', Inr (asm_finish body))))"

definition header_message :: "message_header \<Rightarrow> 'p \<Rightarrow> 'p raw_message" where
  "header_message header data =
     \<lparr>rm_timestamp = mh_timestamp header, rm_type_id = mh_type_id header,
      rm_message_stream_id = mh_message_stream_id header, rm_data = data\<rparr>"

text \<open>The body of the loop of \<open>decode_input\<close> for one fragment: no message means \<open>continue\<close>.\<close>

definition decode_fragment ::
    "decoder_env \<Rightarrow> message_decoder \<Rightarrow> input \<Rightarrow> nat \<Rightarrow> message_fragment \<Rightarrow>
     message_decoder \<times> input \<times> (decode_error + payload raw_message option)" where
  "decode_fragment env d input consumed fragment =
     (let header = mf_header fragment;
          n = length (mf_data fragment);
          complete = is_end fragment;
          cid = mh_chunk_stream_id header;
          limits = md_limits d;
          attempted = saturating_add (md_buffered d) n
      in if attempted > maximum_buffered_bytes limits
      then (d, input, Inl (limit ''buffered bytes'' attempted (maximum_buffered_bytes limits)))
      else if consumed < n then (d, input, Inl DecodePanic)
      else case input_advance input (consumed - n) of
          None \<Rightarrow> (d, input, Inl DecodePanic)
        | Some input1 \<Rightarrow>
            let owned = is_owned input1; present = (hm_get (md_partials d) cid \<noteq> None)
            in if owned \<and> n \<noteq> 0 \<and> maximum_fragments_per_message limits = 0 \<and> \<not> present
            then (d, input1, Inl (limit ''payload fragments'' 1 0))
            else if complete \<and> \<not> present
            then (if saturating_add (md_reserved d) n > maximum_buffered_bytes limits
                  then (d, input1, Inl (limit ''reserved bytes'' (saturating_add (md_reserved d) n)
                                         (maximum_buffered_bytes limits)))
                  else case input_take input1 n of
                      None \<Rightarrow> (d, input1, Inl DecodePanic)
                    | Some (b, input2) \<Rightarrow>
                        (d, input2, Inr (Some (header_message header (payload_from_bytes b)))))
            else case (if present then (d, None) else open_assembly env d header owned) of
                (d1, Some e) \<Rightarrow> (d1, input1, Inl e)
              | (d1, None) \<Rightarrow>
                  (case append_fragment env d1 cid input1 n of
                     (d2, input2, Some e) \<Rightarrow> (d2, input2, Inl e)
                   | (d2, input2, None) \<Rightarrow>
                       let d3 = d2\<lparr>md_buffered := attempted\<rparr>
                       in if \<not> complete then (d3, input2, Inr None)
                          else case close_assembly d3 cid of
                              (d4, Inl e) \<Rightarrow> (d4, input2, Inl e)
                            | (d4, Inr data) \<Rightarrow> (d4, input2, Inr (Some (header_message header data)))))"

lemma input_advance_Some:
  "input_advance i n = Some i' \<Longrightarrow> n \<le> length (as_slice i) \<and> as_slice i' = drop n (as_slice i) \<and> is_owned i' = is_owned i"
  by (cases i) (auto split: if_splits)

lemma input_take_Some:
  "input_take i n = Some (b, i') \<Longrightarrow> n \<le> length (as_slice i) \<and> b = take n (as_slice i)
     \<and> as_slice i' = drop n (as_slice i) \<and> is_owned i' = is_owned i"
  by (cases i) (auto split: if_splits)

lemma open_assembly_parser: "md_parser (fst (open_assembly env d header owned)) = md_parser d"
  by (auto simp: open_assembly_def Let_def install_assembly_def split: option.split prod.split)

lemma append_fragment_parser:
  "append_fragment env d cid i n = (d', i', r) \<Longrightarrow> md_parser d' = md_parser d \<and> is_owned i' = is_owned i"
  by (auto simp: append_fragment_def Let_def split: option.splits assembly.splits if_splits prod.splits
      dest: input_take_Some input_advance_Some)

lemma append_fragment_None:
  "append_fragment env d cid i n = (d', i', None) \<Longrightarrow> as_slice i' = drop n (as_slice i)"
  by (auto simp: append_fragment_def Let_def split: option.splits assembly.splits if_splits prod.splits
      dest: input_take_Some input_advance_Some)

lemma decode_fragment_InrE:
  assumes out: "decode_fragment env d i consumed f = (d', i', Inr x)"
    and n: "n = length (mf_data f)" and cid: "cid = mh_chunk_stream_id (mf_header f)"
  obtains (direct) i1 b where "n \<le> consumed" "input_advance i (consumed - n) = Some i1"
      "saturating_add (md_buffered d) n \<le> maximum_buffered_bytes (md_limits d)"
      "is_end f" "hm_get (md_partials d) cid = None"
      "saturating_add (md_reserved d) n \<le> maximum_buffered_bytes (md_limits d)"
      "input_take i1 n = Some (b, i')" "d' = d" "x = Some (header_message (mf_header f) (payload_from_bytes b))"
  | (assembled) i1 d1 d2 where "n \<le> consumed" "input_advance i (consumed - n) = Some i1"
      "saturating_add (md_buffered d) n \<le> maximum_buffered_bytes (md_limits d)"
      "(if hm_get (md_partials d) cid \<noteq> None then (d, None) else open_assembly env d (mf_header f) (is_owned i1))
        = (d1, None)"
      "append_fragment env d1 cid i1 n = (d2, i', None)"
      "\<not> is_end f \<and> d' = d2\<lparr>md_buffered := saturating_add (md_buffered d) n\<rparr> \<and> x = None
       \<or> is_end f \<and> hm_get (md_partials d) cid \<noteq> None
        \<and> (\<exists>data. close_assembly (d2\<lparr>md_buffered := saturating_add (md_buffered d) n\<rparr>) cid = (d', Inr data)
             \<and> x = Some (header_message (mf_header f) data))"
proof -
  let ?max = "maximum_buffered_bytes (md_limits d)"
  let ?present = "hm_get (md_partials d) cid \<noteq> None"
  have le: "saturating_add (md_buffered d) n \<le> ?max" "n \<le> consumed"
    using out by (auto simp: decode_fragment_def Let_def n split: if_splits)
  obtain i1 where i1: "input_advance i (consumed - n) = Some i1"
    using out le by (auto simp: decode_fragment_def Let_def n [symmetric] split: option.splits if_splits)
  note eq = out [unfolded decode_fragment_def Let_def, folded n cid, unfolded i1 option.case]
  show thesis
  proof (cases "is_end f \<and> \<not> ?present")
    case True
    then show thesis
      using eq le i1 by (auto split: if_splits option.splits intro: direct)
  next
    case False
    obtain d1 r1 where d1: "(if ?present then (d, None) else open_assembly env d (mf_header f) (is_owned i1)) = (d1, r1)"
      by (metis surj_pair)
    obtain d2 i2 r2 where d2: "append_fragment env d1 cid i1 n = (d2, i2, r2)"
      by (metis prod_cases3)
    note eq' = eq [unfolded d1 d2 prod.case]
    have r: "r1 = None" "r2 = None"
      using eq' le False by (auto split: if_splits option.splits)
    show thesis
    proof (rule assembled [OF le(2) i1 le(1) d1 [unfolded r]])
      show "append_fragment env d1 cid i1 n = (d2, i', None)"
        using eq' le False r d2 by (auto split: if_splits prod.splits sum.splits)
      show "\<not> is_end f \<and> d' = d2\<lparr>md_buffered := saturating_add (md_buffered d) n\<rparr> \<and> x = None
       \<or> is_end f \<and> hm_get (md_partials d) cid \<noteq> None
        \<and> (\<exists>data. close_assembly (d2\<lparr>md_buffered := saturating_add (md_buffered d) n\<rparr>) cid = (d', Inr data)
             \<and> x = Some (header_message (mf_header f) data))"
        using eq' le False r by (auto split: if_splits prod.splits sum.splits)
    qed
  qed
qed

lemma decode_fragment_continue:
  assumes "decode_fragment env d i consumed f = (d', i', Inr None)"
  shows "md_parser d' = md_parser d \<and> as_slice i' = drop consumed (as_slice i)"
  using assms
proof (rule decode_fragment_InrE [OF _ refl refl], goal_cases)
  case (2 i1 d1 d2)
  have "md_parser d1 = md_parser d"
    using 2(4) open_assembly_parser [of env d "mf_header f" "is_owned i1"] by (auto split: if_splits)
  then show ?case
    using 2 append_fragment_parser [OF 2(5)] append_fragment_None [OF 2(5)] input_advance_Some [OF 2(2)]
    by auto
qed auto

function decode_input ::
    "decoder_env \<Rightarrow> message_decoder \<Rightarrow> input \<Rightarrow>
     message_decoder \<times> input \<times> (decode_error + payload raw_message option)" where
  "decode_input env d input =
     (case consume (md_parser d) (as_slice input) of
        (p, Inl e) \<Rightarrow> (d\<lparr>md_parser := p\<rparr>, input, Inl e)
      | (p, Inr step) \<Rightarrow>
          (case ps_fragment step of
             None \<Rightarrow>
               (case input_advance input (ps_consumed step) of
                  None \<Rightarrow> (d\<lparr>md_parser := p\<rparr>, input, Inl DecodePanic)
                | Some input' \<Rightarrow> (d\<lparr>md_parser := p\<rparr>, input', Inr None))
           | Some fragment \<Rightarrow>
               (case decode_fragment env (d\<lparr>md_parser := p\<rparr>) input (ps_consumed step) fragment of
                  (d', input', Inl e) \<Rightarrow> (d', input', Inl e)
                | (d', input', Inr (Some m)) \<Rightarrow> (d', input', Inr (Some m))
                | (d', input', Inr None) \<Rightarrow> decode_input env d' input')))"
  by pat_completeness auto
termination
proof (relation "inv_image (measures [\<lambda>(p, input). length input, \<lambda>(p, input). cp_used p,
      \<lambda>(p, input). of_bool (cp_current p \<noteq> None)]) (\<lambda>(env, d, input). (md_parser d, as_slice input))",
    simp, goal_cases)
  case (1 env d input p r step f d' y input' r' x)
  then show ?case
    using decode_fragment_continue [of env "d\<lparr>md_parser := p\<rparr>" input "ps_consumed step" f d' input']
      consume_measure [OF 1(1-3)] by simp
qed

declare decode_input.simps [simp del]

text \<open>The two entry points: an owned receive buffer, and a borrowed one that is copied.\<close>

definition decode :: "decoder_env \<Rightarrow> message_decoder \<Rightarrow> bytes \<Rightarrow>
    message_decoder \<times> bytes \<times> (decode_error + payload raw_message option)" where
  "decode env d input =
     (case decode_input env d (Owned input) of (d', source, r) \<Rightarrow> (d', as_slice source, r))"

definition decode_slice :: "decoder_env \<Rightarrow> message_decoder \<Rightarrow> bytes \<Rightarrow>
    message_decoder \<times> bytes \<times> (decode_error + payload raw_message option)" where
  "decode_slice env d input =
     (case decode_input env d (Borrowed input) of (d', source, r) \<Rightarrow> (d', as_slice source, r))"

end
