(* ===== verification/Contiguous_Decoder.thy ===== *)
theory Contiguous_Decoder
  imports Message_Decoder
begin

text \<open>
  \<open>ContiguousDecoder\<close> of \<open>src/src/chunk_io/deserializer.rs\<close>: the copying adapter over the chunk
  parser. It keeps unread input in \<open>pending\<close> and one contiguous buffer per unfinished message. An error
  of the parser or a limit returns early, so the pending input that was taken out is gone.
\<close>

record contiguous_decoder =
  cd_parser :: chunk_parser
  cd_pending :: bytes
  cd_partials :: "(u32, bytes \<times> nat) hash_map"
  cd_buffered :: nat
  cd_reserved :: nat
  cd_limits :: decoder_limits

definition contiguous_with_limits :: "decoder_limits \<Rightarrow> contiguous_decoder" where
  "contiguous_with_limits limits =
     \<lparr>cd_parser = parser_with_limits limits, cd_pending = [], cd_partials = [], cd_buffered = 0,
      cd_reserved = 0, cd_limits = limits\<rparr>"

definition contiguous_new :: contiguous_decoder where
  "contiguous_new = contiguous_with_limits decoder_limits_default"

definition contiguous_set_chunk_size :: "contiguous_decoder \<Rightarrow> nat \<Rightarrow> decode_error + contiguous_decoder" where
  "contiguous_set_chunk_size d n =
     (case parser_set_chunk_size (cd_parser d) n of Inl e \<Rightarrow> Inl e | Inr p \<Rightarrow> Inr (d\<lparr>cd_parser := p\<rparr>))"

definition contiguous_is_idle :: "contiguous_decoder \<Rightarrow> bool" where
  "contiguous_is_idle d \<longleftrightarrow> cd_pending d = [] \<and> parser_is_idle (cd_parser d)"

text \<open>\<open>None\<close> where a subtraction of the accounting would underflow.\<close>

definition contiguous_release :: "contiguous_decoder \<Rightarrow> u32 \<Rightarrow> bytes \<times> nat \<Rightarrow> contiguous_decoder option" where
  "contiguous_release d cid body =
     (if cd_buffered d < length (fst body) \<or> cd_reserved d < snd body then None
      else Some (d\<lparr>cd_partials := hm_remove cid (cd_partials d),
                   cd_buffered := cd_buffered d - length (fst body),
                   cd_reserved := cd_reserved d - snd body\<rparr>))"

definition contiguous_abort_chunk_stream :: "contiguous_decoder \<Rightarrow> u32 \<Rightarrow> contiguous_decoder option" where
  "contiguous_abort_chunk_stream d cid =
     (let d1 = d\<lparr>cd_parser := parser_abort_chunk_stream (cd_parser d) cid\<rparr>
      in case hm_get (cd_partials d1) cid of
           None \<Rightarrow> Some d1
         | Some body \<Rightarrow> contiguous_release d1 cid body)"

text \<open>One fragment of the loop of \<open>get_next_message\<close>: no message means the loop goes on.\<close>

definition contiguous_fragment ::
    "decoder_env \<Rightarrow> contiguous_decoder \<Rightarrow> message_fragment \<Rightarrow>
     contiguous_decoder \<times> (decode_error + bytes raw_message option)" where
  "contiguous_fragment env d fragment =
     (let header = mf_header fragment;
          cid = mh_chunk_stream_id header;
          complete = is_end fragment;
          limits = cd_limits d
      in if is_start fragment \<and> complete then (d, Inr (Some (header_message header (mf_data fragment))))
      else
        let attempted = saturating_add (cd_reserved d) (mh_message_length header);
            present = (hm_get (cd_partials d) cid \<noteq> None)
        in if \<not> present \<and> attempted > maximum_buffered_bytes limits
        then (d, Inl (limit ''reserved payload bytes'' attempted (maximum_buffered_bytes limits)))
        else
          let capacity = de_capacity env (mh_message_length header);
              d1 = (if present then d
                    else d\<lparr>cd_reserved := cd_reserved d + capacity,
                           cd_partials := hm_insert cid ([], capacity) (cd_partials d)\<rparr>)
          in case hm_get (cd_partials d1) cid of
               None \<Rightarrow> (d1, Inl DecodePanic)
             | Some (b, cap) \<Rightarrow>
                 let b' = b @ mf_data fragment;
                     cap' = (if length b' \<le> cap then cap else de_grow env cap (length b'));
                     d2 = d1\<lparr>cd_partials := hm_insert cid (b', cap') (cd_partials d1),
                             cd_buffered := cd_buffered d1 + length (mf_data fragment)\<rparr>
                 in if \<not> complete then (d2, Inr None)
                    else case contiguous_release d2 cid (b', cap') of
                        None \<Rightarrow> (d2, Inl DecodePanic)
                      | Some d3 \<Rightarrow> (d3, Inr (Some (header_message header b'))))"

lemma contiguous_fragment_parser: "cd_parser (fst (contiguous_fragment env d f)) = cd_parser d"
  by (auto simp: contiguous_fragment_def contiguous_release_def Let_def split: option.split)

text \<open>
  The loop over the input: the decoder, the unread rest \<open>input[offset..]\<close> and the message, if any.
\<close>

function contiguous_loop ::
    "decoder_env \<Rightarrow> contiguous_decoder \<Rightarrow> bytes \<Rightarrow>
     contiguous_decoder \<times> bytes \<times> (decode_error + bytes raw_message option)" where
  "contiguous_loop env d input =
     (case consume (cd_parser d) input of
        (p, Inl e) \<Rightarrow> (d\<lparr>cd_parser := p\<rparr>, input, Inl e)
      | (p, Inr step) \<Rightarrow>
          (let rest = drop (ps_consumed step) input
           in case ps_fragment step of
                None \<Rightarrow> (d\<lparr>cd_parser := p\<rparr>, rest, Inr None)
              | Some fragment \<Rightarrow>
                  (case contiguous_fragment env (d\<lparr>cd_parser := p\<rparr>) fragment of
                     (d', Inl e) \<Rightarrow> (d', rest, Inl e)
                   | (d', Inr (Some m)) \<Rightarrow> (d', rest, Inr (Some m))
                   | (d', Inr None) \<Rightarrow> contiguous_loop env d' rest)))"
  by pat_completeness auto
termination
proof (relation "inv_image (measures [\<lambda>(p, input). length input, \<lambda>(p, input). cp_used p,
      \<lambda>(p, input). of_bool (cp_current p \<noteq> None)]) (\<lambda>(env, d, input). (cd_parser d, input))",
    simp, goal_cases)
  case (1 env d input p r step rest f d' r' x)
  then show ?case
    using contiguous_fragment_parser [of env "d\<lparr>cd_parser := p\<rparr>" f] consume_measure [OF 1(1,2,4)]
    by (cases "contiguous_fragment env (d\<lparr>cd_parser := p\<rparr>) f") simp
qed

declare contiguous_loop.simps [simp del]

definition get_next_message ::
    "decoder_env \<Rightarrow> contiguous_decoder \<Rightarrow> bytes \<Rightarrow>
     contiguous_decoder \<times> (decode_error + bytes raw_message option)" where
  "get_next_message env d bs =
     (let attempted = saturating_add (saturating_add (cd_buffered d) (length (cd_pending d))) (length bs)
      in if attempted > maximum_buffered_bytes (cd_limits d)
      then (d, Inl (ResourceLimitExceeded ''buffered bytes'' attempted (maximum_buffered_bytes (cd_limits d))))
      else let pending = cd_pending d;
               input = (if pending \<noteq> [] then pending @ bs else bs)
      in case contiguous_loop env (d\<lparr>cd_pending := []\<rparr>) input of
           (d', rest, Inl e) \<Rightarrow> (d', Inl e)
         | (d', rest, Inr result) \<Rightarrow> (d'\<lparr>cd_pending := rest\<rparr>, Inr result))"

end
