(* ===== verification/Fragment_View.thy ===== *)
theory Fragment_View
  imports Chunk_Split
begin

text \<open>
  The contract of the chunk parser towards the two decoders: what a caller sees of a chunk stream is
  how many bytes of its unfinished message were delivered and how long the message is. A fragment
  always continues where the previous fragment of its stream ended.
\<close>

definition unfinished :: "chunk_parser \<Rightarrow> u32 \<Rightarrow> (nat \<times> nat) option" where
  "unfinished p cid =
     (case hm_get (cp_streams p) cid of
        None \<Rightarrow> None
      | Some s \<Rightarrow> if st_active s \<and> 0 < st_received s
                  then Some (st_received s, mh_message_length (st_header s)) else None)"

lemma unfinished_cong: "cp_streams p = cp_streams q \<Longrightarrow> unfinished p = unfinished q"
  by (simp add: unfinished_def fun_eq_iff)

lemma unfinished_new [simp]: "unfinished (parser_with_limits limits) cid = None"
  by (simp add: unfinished_def parser_with_limits_def)

lemma unfinished_begin:
  assumes "begin_chunk p = Inr q"
  shows "unfinished q = unfinished p" and "cp_limits q = cp_limits p"
proof -
  obtain s where s: "chunk_stream p = Inr s" and q: "q = p\<lparr>cp_chunk_left := min
      (mh_message_length (st_header s) - st_received s) (cp_chunk_size p),
      cp_current := Some (csid p), cp_streams := hm_insert (csid p) s (cp_streams p)\<rparr>"
    using begin_chunk_InrD [OF assms] by blast
  have "unfinished q cid = unfinished p cid" for cid
    using chunk_stream_InrD [OF s refl]
    by (cases "cid = csid p"; cases "hm_get (cp_streams p) (csid p)";
        cases "st_active (the (hm_get (cp_streams p) (csid p)))") (auto simp: unfinished_def q)
  then show "unfinished q = unfinished p"
    by (rule ext)
  show "cp_limits q = cp_limits p"
    by (simp add: q)
qed

lemma header_loop_view:
  "length (cp_scratch p) = 18 \<Longrightarrow> header_loop p c rest = (q, r) \<Longrightarrow>
   unfinished q = unfinished p \<and> cp_limits q = cp_limits p"
proof (induction p c rest arbitrary: q r rule: header_loop_induct)
  case (full p c rest needed)
  then show ?case
    by (simp add: header_loop_full unfinished_def)
next
  case (start p c rest needed)
  then show ?case
    using unfinished_begin unfinished_cong [of "_\<lparr>cp_used := 0\<rparr>"]
    by (auto simp: header_loop_begin split: sum.splits)
qed (auto simp: header_loop_in header_loop_err header_loop_part unfinished_def)

lemma chunk_fragment_view:
  assumes mid: "parser_mid p" and out: "chunk_fragment p c rest = (q, Inr step)" and f: "ps_fragment step = Some f"
    and cid: "cid = mh_chunk_stream_id (mf_header f)"
  shows "unfinished p cid = (if is_start f then None else Some (mf_offset f, mh_message_length (mf_header f)))"
    and "unfinished q = (unfinished p)(cid :=
      if is_end f then None else Some (mf_offset f + length (mf_data f), mh_message_length (mf_header f)))"
    and "mf_offset f + length (mf_data f) \<le> mh_message_length (mf_header f)"
    and "is_end f \<or> mf_data f \<noteq> []"
    and "mh_message_length (mf_header f) \<le> maximum_message_size (cp_limits p)"
proof -
  let ?n = "min (cp_chunk_left p) (length rest)"
  from chunk_fragment_SomeD [OF out f] obtain c s where cs: "cp_current p = Some c" "hm_get (cp_streams p) c = Some s"
    and pos: "cp_chunk_left p = 0 \<or> rest \<noteq> []" and q: "q = advance_chunk p c s ?n"
    and f': "f = \<lparr>mf_header = st_header s, mf_offset = st_received s, mf_data = take ?n rest\<rparr>"
    by blast
  from mid cs have ok: "st_active s" "0 < cp_chunk_left p \<or> st_received s = mh_message_length (st_header s)"
    "st_received s + cp_chunk_left p \<le> mh_message_length (st_header s)" "stream_ok (cp_limits p) c s"
    by (auto simp: parser_mid_def current_ok_def parser_base_def)
  then have c: "cid = c"
    by (simp add: cid f' stream_ok_def)
  show "unfinished p cid = (if is_start f then None else Some (mf_offset f, mh_message_length (mf_header f)))"
    using cs ok by (simp add: unfinished_def c f' is_start_def)
  show le: "mf_offset f + length (mf_data f) \<le> mh_message_length (mf_header f)"
    using ok by (simp add: f')
  show ne: "is_end f \<or> mf_data f \<noteq> []"
    using ok pos by (auto simp: f' is_end_def)
  have "st_received s + ?n = mh_message_length (st_header s) \<longleftrightarrow> is_end f"
    by (simp add: is_end_def f')
  moreover have "0 < st_received s + ?n" if "\<not> is_end f"
    using that ne by (auto simp: f' is_end_def)
  ultimately have "unfinished q j = ((unfinished p)(cid :=
      if is_end f then None else Some (mf_offset f + length (mf_data f), mh_message_length (mf_header f)))) j" for j
    using ok by (cases "is_end f") (auto simp: unfinished_def q c f' advance_chunk_def Let_def)
  then show "unfinished q = (unfinished p)(cid :=
      if is_end f then None else Some (mf_offset f + length (mf_data f), mh_message_length (mf_header f)))"
    by (rule ext)
  show "mh_message_length (mf_header f) \<le> maximum_message_size (cp_limits p)"
    using ok(4) by (simp add: f' stream_ok_def)
qed

lemma consume_limits: "parser_inv p \<Longrightarrow> consume p input = (q, r) \<Longrightarrow> cp_limits q = cp_limits p"
  using header_loop_view [OF parser_inv_scratch, of p 0 input] chunk_fragment_SomeD
  by (fastforce simp: consume_def chunk_fragment_def Let_def split: prod.splits sum.splits header_outcome.splits
      option.splits if_splits)

lemma consume_wait_view:
  assumes inv: "parser_inv p" and out: "consume p input = (q, Inr step)" and none: "ps_fragment step = None"
  shows "unfinished q = unfinished p" and "ps_consumed step = length input"
proof -
  obtain p1 r where loop: "header_loop p 0 input = (p1, r)"
    by (cases "header_loop p 0 input")
  note view = header_loop_view [OF parser_inv_scratch [OF inv] loop]
  consider (need) c where "r = Inr (NeedMore c)" "p1 = q" "ps_consumed step = c"
    | (chunk) c rest where "r = Inr (InChunk c rest)" "chunk_fragment p1 c rest = (q, Inr step)"
    using out loop by (auto simp: consume_def split: sum.splits header_outcome.splits)
  then have "unfinished q = unfinished p \<and> ps_consumed step = length input"
  proof cases
    case need
    then show ?thesis
      using view header_loop_NeedMore [OF parser_inv_scratch [OF inv], of 0 input q c] loop by simp
  next
    case chunk
    then have "q = p1 \<and> rest = [] \<and> ps_consumed step = c"
      using none header_loop_inv(2) [OF inv loop]
      by (auto simp: chunk_fragment_def Let_def parser_mid_def split: option.splits if_splits)
    then show ?thesis
      using view header_loop_InChunk [of p 0 input p1 c rest] loop chunk by auto
  qed
  then show "unfinished q = unfinished p" "ps_consumed step = length input"
    by auto
qed

lemma consume_fragment_view:
  assumes inv: "parser_inv p" and out: "consume p input = (q, Inr step)" and f: "ps_fragment step = Some f"
    and cid: "cid = mh_chunk_stream_id (mf_header f)"
  shows "unfinished p cid = (if is_start f then None else Some (mf_offset f, mh_message_length (mf_header f)))"
    and "unfinished q = (unfinished p)(cid :=
      if is_end f then None else Some (mf_offset f + length (mf_data f), mh_message_length (mf_header f)))"
    and "mf_offset f + length (mf_data f) \<le> mh_message_length (mf_header f)"
    and "is_end f \<or> mf_data f \<noteq> []"
    and "mh_message_length (mf_header f) \<le> maximum_message_size (cp_limits p)"
    and "length (mf_data f) \<le> ps_consumed step \<and> ps_consumed step \<le> length input
      \<and> mf_data f = take (length (mf_data f)) (drop (ps_consumed step - length (mf_data f)) input)"
proof -
  from out f obtain p1 c rest where loop: "header_loop p 0 input = (p1, Inr (InChunk c rest))"
    and frag: "chunk_fragment p1 c rest = (q, Inr step)"
    by (auto simp: consume_def split: prod.splits sum.splits header_outcome.splits)
  have mid: "parser_mid p1"
    using header_loop_inv(2) [OF inv loop] by simp
  have view: "unfinished p1 = unfinished p" "cp_limits p1 = cp_limits p"
    using header_loop_view [OF parser_inv_scratch [OF inv] loop] by auto
  show "unfinished p cid = (if is_start f then None else Some (mf_offset f, mh_message_length (mf_header f)))"
    and "unfinished q = (unfinished p)(cid :=
      if is_end f then None else Some (mf_offset f + length (mf_data f), mh_message_length (mf_header f)))"
    and "mf_offset f + length (mf_data f) \<le> mh_message_length (mf_header f)"
    and "is_end f \<or> mf_data f \<noteq> []"
    and "mh_message_length (mf_header f) \<le> maximum_message_size (cp_limits p)"
    using chunk_fragment_view [OF mid frag f cid] view by simp_all
  show "length (mf_data f) \<le> ps_consumed step \<and> ps_consumed step \<le> length input
      \<and> mf_data f = take (length (mf_data f)) (drop (ps_consumed step - length (mf_data f)) input)"
    using header_loop_InChunk [OF loop] chunk_fragment_SomeD [OF frag f] by auto
qed

lemma unfinished_abort:
  "unfinished (parser_abort_chunk_stream p cid) = (unfinished p)(cid := None)"
  by (rule ext) (auto simp: unfinished_def parser_abort_chunk_stream_def Let_def split: option.split)

lemma unfinished_chunk_size: "parser_set_chunk_size p n = Inr q \<Longrightarrow> unfinished q = unfinished p \<and> cp_limits q = cp_limits p"
  by (auto simp: parser_set_chunk_size_def unfinished_def split: if_splits)

lemma abort_limits: "cp_limits (parser_abort_chunk_stream p cid) = cp_limits p"
  by (auto simp: parser_abort_chunk_stream_def Let_def split: option.split)

end
