(* ===== verification/Decoder_Refine.thy ===== *)
theory Decoder_Refine
  imports Contiguous_Decoder Fragment_View
begin

text \<open>
  What both decoders promise: the messages they deliver are the fragments of the chunk parser,
  concatenated per chunk stream. \<open>assemble\<close> is that specification; the invariants tie the partial
  messages of a decoder to the unfinished messages of its parser and to its byte accounting.
\<close>

section \<open>Specification\<close>

type_synonym partial_messages = "u32 \<Rightarrow> bytes option"

definition assemble_step ::
    "partial_messages \<Rightarrow> message_fragment \<Rightarrow> partial_messages \<times> bytes raw_message list" where
  "assemble_step A f =
     (let cid = mh_chunk_stream_id (mf_header f);
          b = (case A cid of None \<Rightarrow> [] | Some b \<Rightarrow> b) @ mf_data f
      in if is_end f then (A(cid := None), [header_message (mf_header f) b]) else (A(cid \<mapsto> b), []))"

fun assemble ::
    "partial_messages \<Rightarrow> message_fragment list \<Rightarrow> partial_messages \<times> bytes raw_message list" where
  "assemble A [] = (A, [])"
| "assemble A (f # fs) =
     (case assemble_step A f of (A', ms) \<Rightarrow> (case assemble A' fs of (A'', ms') \<Rightarrow> (A'', ms @ ms')))"

lemma assemble_append:
  "assemble A (fs @ gs) =
     (case assemble A fs of (A', ms) \<Rightarrow> (case assemble A' gs of (A'', ms') \<Rightarrow> (A'', ms @ ms')))"
  by (induction fs arbitrary: A) (auto split: prod.split)

section \<open>The invariant of MessageDecoder\<close>

fun asm_contents :: "assembly \<Rightarrow> bytes" where
  "asm_contents (Segmented p) = payload_contents p"
| "asm_contents (Contiguous b capacity) = b"

fun asm_ok :: "decoder_limits \<Rightarrow> nat \<Rightarrow> assembly \<Rightarrow> bool" where
  "asm_ok limits len (Segmented p) \<longleftrightarrow>
     payload_wf p \<and> payload_segment_count p \<le> maximum_fragments_per_message limits"
| "asm_ok limits len (Contiguous b capacity) \<longleftrightarrow> len \<le> capacity"

definition md_partial :: "message_decoder \<Rightarrow> partial_messages" where
  "md_partial d cid = map_option asm_contents (hm_get (md_partials d) cid)"

text \<open>The byte accounting, with the number of buffered bytes given apart.\<close>

definition md_books :: "nat \<Rightarrow> message_decoder \<Rightarrow> bool" where
  "md_books buffered d \<longleftrightarrow> hm_wf (md_partials d)
     \<and> buffered = hm_sum asm_len (md_partials d) \<and> buffered \<le> maximum_buffered_bytes (md_limits d)
     \<and> md_reserved d = hm_sum asm_reserved (md_partials d)
     \<and> hm_len (md_partials d) \<le> maximum_partial_messages (md_limits d)"

fun link_ok :: "decoder_limits \<Rightarrow> assembly option \<Rightarrow> (nat \<times> nat) option \<Rightarrow> bool" where
  "link_ok limits None None \<longleftrightarrow> True"
| "link_ok limits (Some body) (Some (received, len)) \<longleftrightarrow> asm_len body = received \<and> asm_ok limits len body"
| "link_ok limits None (Some v) \<longleftrightarrow> False"
| "link_ok limits (Some body) None \<longleftrightarrow> False"

definition md_link :: "(u32 \<Rightarrow> (nat \<times> nat) option) \<Rightarrow> message_decoder \<Rightarrow> bool" where
  "md_link view d \<longleftrightarrow> (\<forall>cid. link_ok (md_limits d) (hm_get (md_partials d) cid) (view cid))"

definition limits_ok :: "decoder_limits \<Rightarrow> bool" where
  "limits_ok limits \<longleftrightarrow> maximum_buffered_bytes limits < usize_max"

definition md_inv :: "message_decoder \<Rightarrow> bool" where
  "md_inv d \<longleftrightarrow> parser_inv (md_parser d) \<and> md_limits d = cp_limits (md_parser d) \<and> limits_ok (md_limits d)
     \<and> md_books (md_buffered d) d \<and> md_link (unfinished (md_parser d)) d"

definition env_ok :: "decoder_env \<Rightarrow> bool" where
  "env_ok env \<longleftrightarrow> (\<forall>n. n \<le> de_capacity env n)"

lemma asm_len_contents: "asm_ok limits len body \<Longrightarrow> asm_len body = length (asm_contents body)"
  by (cases body) (auto simp: payload_len_def payload_wf_len)

lemma asm_finish_contents: "payload_contents (asm_finish body) = asm_contents body"
  by (cases body) auto

lemma saturating_add_exact:
  "limits_ok limits \<Longrightarrow> saturating_add a n \<le> maximum_buffered_bytes limits \<Longrightarrow> saturating_add a n = a + n"
  by (auto simp: saturating_add_def limits_ok_def split: if_splits)

lemma md_linkD:
  "md_link view d \<Longrightarrow> hm_get (md_partials d) cid = Some body \<Longrightarrow>
   \<exists>len. view cid = Some (asm_len body, len) \<and> asm_ok (md_limits d) len body"
  unfolding md_link_def by (drule spec [of _ cid]) (cases "view cid", auto)

lemma md_link_present: "md_link view d \<Longrightarrow> hm_get (md_partials d) cid = None \<longleftrightarrow> view cid = None"
  unfolding md_link_def by (drule spec [of _ cid]) (cases "view cid"; cases "hm_get (md_partials d) cid", auto)

section \<open>One fragment\<close>

lemma md_pool_same: "md_pool d = pool \<Longrightarrow> d\<lparr>md_pool := pool\<rparr> = d"
  by (cases d) simp

lemma open_assembly_ok:
  assumes out: "open_assembly env d header owned = (d1, r)"
    and env: "env_ok env" and lim: "limits_ok (md_limits d)"
    and books: "md_books (md_buffered d) d" and none: "hm_get (md_partials d) (mh_chunk_stream_id header) = None"
  shows "r \<noteq> Some DecodePanic"
    and "r = None \<Longrightarrow> \<exists>body. hm_get (md_partials d1) (mh_chunk_stream_id header) = Some body
      \<and> md_partials d1 = hm_insert (mh_chunk_stream_id header) body (md_partials d)
      \<and> asm_contents body = [] \<and> asm_len body = 0 \<and> asm_ok (md_limits d) (mh_message_length header) body
      \<and> md_limits d1 = md_limits d \<and> md_buffered d1 = md_buffered d \<and> md_parser d1 = md_parser d
      \<and> md_books (md_buffered d) d1"
proof -
  let ?cid = "mh_chunk_stream_id header"
  show "r \<noteq> Some DecodePanic"
    using out by (auto simp: open_assembly_def Let_def limit_def split: if_splits option.splits prod.splits)
  assume r: "r = None"
  have wf: "hm_wf (md_partials d)"
    using books by (simp add: md_books_def)
  obtain body pool where body: "d1 = install_assembly (d\<lparr>md_pool := pool\<rparr>) ?cid body"
    and ok: "asm_contents body = []" "asm_len body = 0" "asm_ok (md_limits d) (mh_message_length header) body"
    and len: "hm_len (md_partials d) < maximum_partial_messages (md_limits d)"
  proof (cases owned)
    case True
    then show thesis
      using out r that [of "if md_pool d = None then None else Some (fst (pool_acquire (de_lock env) (the (md_pool d))))"
          "Segmented payload_new"]
      by (auto simp: open_assembly_def Let_def payload_len_def pool_acquire_def payload_new_def
          payload_segment_count_def payload_wf_def payload_contents_def md_pool_same
          split: if_splits option.splits prod.splits)
  next
    case False
    have "de_capacity env (mh_message_length header) \<ge> mh_message_length header"
      using env by (simp add: env_ok_def)
    then show thesis
      using out r False that [of "md_pool d" "Contiguous [] (de_capacity env (mh_message_length header))"]
      by (auto simp: open_assembly_def Let_def split: if_splits)
  qed
  have "md_books (md_buffered d) d1"
    using books none len wf ok by (simp add: body install_assembly_def md_books_def hm_sum_insert_new hm.size_ins)
  then show "\<exists>body. hm_get (md_partials d1) ?cid = Some body
      \<and> md_partials d1 = hm_insert ?cid body (md_partials d)
      \<and> asm_contents body = [] \<and> asm_len body = 0 \<and> asm_ok (md_limits d) (mh_message_length header) body
      \<and> md_limits d1 = md_limits d \<and> md_buffered d1 = md_buffered d \<and> md_parser d1 = md_parser d
      \<and> md_books (md_buffered d) d1"
    using ok by (auto simp: body install_assembly_def)
qed

lemma append_fragment_ok:
  assumes out: "append_fragment env d cid i n = (d2, i2, r)"
    and lim: "limits_ok (md_limits d)" and books: "md_books buffered d"
    and body: "hm_get (md_partials d) cid = Some body" and ok: "asm_ok (md_limits d) len body"
    and n: "n \<le> length (as_slice i)" "asm_len body + n \<le> len" "buffered + n \<le> maximum_buffered_bytes (md_limits d)"
  shows "r \<noteq> Some DecodePanic"
    and "r = None \<Longrightarrow> \<exists>body'. md_partials d2 = hm_insert cid body' (md_partials d)
      \<and> asm_contents body' = asm_contents body @ take n (as_slice i) \<and> asm_len body' = asm_len body + n
      \<and> asm_ok (md_limits d) len body' \<and> md_limits d2 = md_limits d \<and> md_parser d2 = md_parser d
      \<and> md_books (buffered + n) d2"
proof -
  have wf: "hm_wf (md_partials d)"
    using books by (simp add: md_books_def)
  note clen = asm_len_contents [OF ok]
  have fit: "asm_len body + n \<le> usize_max"
    using hm_sum_get_le [OF body, of asm_len] books n(3) lim by (simp add: md_books_def limits_ok_def)
  have keep: "md_books (buffered + n) (d\<lparr>md_partials := hm_insert cid b (md_partials d), md_reserved := res\<rparr>)"
    if "asm_len b = asm_len body + n" "res + asm_reserved body = md_reserved d + asm_reserved b" for b res
    using books wf body n(3) that hm_sum_insert_same [OF body, of asm_len b]
      hm_sum_insert_same [OF body, of asm_reserved b]
    by (auto simp: md_books_def hm.size_ins)
  have "r \<noteq> Some DecodePanic \<and> (r = None \<longrightarrow> (\<exists>body'. md_partials d2 = hm_insert cid body' (md_partials d)
      \<and> asm_contents body' = asm_contents body @ take n (as_slice i) \<and> asm_len body' = asm_len body + n
      \<and> asm_ok (md_limits d) len body' \<and> md_limits d2 = md_limits d \<and> md_parser d2 = md_parser d
      \<and> md_books (buffered + n) d2))"
  proof (cases body)
    case (Segmented p)
    then have wfp: "payload_wf p"
      using ok by simp
    obtain i' where take: "input_take i n = Some (take n (as_slice i), i')"
      using n(1) by (cases i) auto
    obtain p' where push: "payload_push p (take n (as_slice i)) = Some p'" "payload_wf p'"
      "payload_contents p' = payload_contents p @ take n (as_slice i)"
      "payload_segment_count p' = payload_segment_count p + of_bool (take n (as_slice i) \<noteq> [])"
      using payload_push_some [OF wfp, of "take n (as_slice i)"] fit n(1) clen Segmented by auto
    have lens: "payload_len p' = payload_len p + n"
      using push(2,3) wfp n(1) by (simp add: payload_len_def payload_wf_len)
    show ?thesis
      using out unfolding append_fragment_def Let_def body option.case Segmented assembly.case take prod.case push(1)
      using keep [of "Segmented p'" "md_reserved d + n"] lens push ok Segmented
      by (auto simp: limit_def not_le Suc_le_eq split: if_splits)
  next
    case (Contiguous b cap)
    obtain i' where adv: "input_advance i n = Some i'"
      using n(1) by (cases i) auto
    have cap: "length (b @ take n (as_slice i)) \<le> cap" "length (b @ take n (as_slice i)) = length b + n"
      using n ok Contiguous by auto
    show ?thesis
      using out keep [of "Contiguous (b @ take n (as_slice i)) cap" "md_reserved d"] cap ok
      unfolding append_fragment_def Let_def body option.case Contiguous assembly.case adv by auto
  qed
  then show "r \<noteq> Some DecodePanic"
    and "r = None \<Longrightarrow> \<exists>body'. md_partials d2 = hm_insert cid body' (md_partials d)
      \<and> asm_contents body' = asm_contents body @ take n (as_slice i) \<and> asm_len body' = asm_len body + n
      \<and> asm_ok (md_limits d) len body' \<and> md_limits d2 = md_limits d \<and> md_parser d2 = md_parser d
      \<and> md_books (buffered + n) d2"
    by auto
qed

lemma release_partial_ok:
  assumes books: "md_books (md_buffered d) d" and body: "hm_get (md_partials d) cid = Some body"
  shows "\<exists>d'. release_partial d cid body = Some d' \<and> md_partials d' = hm_remove cid (md_partials d)
    \<and> md_limits d' = md_limits d \<and> md_parser d' = md_parser d \<and> md_books (md_buffered d') d'"
proof -
  have wf: "hm_wf (md_partials d)"
    using books by (simp add: md_books_def)
  have "md_books (md_buffered d - asm_len body) (d\<lparr>md_partials := hm_remove cid (md_partials d),
      md_buffered := md_buffered d - asm_len body, md_reserved := md_reserved d - asm_reserved body\<rparr>)"
    using books wf hm_sum_remove [OF wf body, of asm_len] hm_sum_remove [OF wf body, of asm_reserved]
      hm_len_remove_le [of cid "md_partials d"]
    by (auto simp: md_books_def)
  then show ?thesis
    using books hm_sum_get_le [OF body, of asm_len] hm_sum_get_le [OF body, of asm_reserved]
    by (auto simp: release_partial_def md_books_def)
qed

text \<open>What the books and the view of the parser say when a fragment arrives.\<close>

lemma md_link_update:
  assumes "md_link view d" and "md_partials d' = hm_insert cid body (md_partials d)" and "md_limits d' = md_limits d"
    and "asm_ok (md_limits d) len body" and "asm_len body = received"
  shows "md_link (view(cid \<mapsto> (received, len))) d'"
  using assms by (auto simp: md_link_def)

lemma md_link_remove:
  assumes "md_link view d" and "md_partials d' = hm_remove cid (md_partials d)" and "md_limits d' = md_limits d"
  shows "md_link (view(cid := None)) d'"
  using assms by (auto simp: md_link_def)

text \<open>The state before the bytes of a fragment are appended: its assembly exists and ends at its offset.\<close>

lemma ensure_assembly_ok:
  assumes inv: "md_inv d" and env: "env_ok env"
    and out: "consume (md_parser d) (as_slice i) = (q, Inr step)" and f: "ps_fragment step = Some f"
    and cid: "cid = mh_chunk_stream_id (mf_header f)" and len: "len = mh_message_length (mf_header f)"
    and d1: "(if hm_get (md_partials d) cid \<noteq> None then (d\<lparr>md_parser := q\<rparr>, None)
      else open_assembly env (d\<lparr>md_parser := q\<rparr>) (mf_header f) owned) = (d1, r)"
  shows "r \<noteq> Some DecodePanic"
    and "r = None \<Longrightarrow> \<exists>body. hm_get (md_partials d1) cid = Some body
      \<and> md_partials d1 = hm_insert cid body (md_partials d1)
      \<and> asm_contents body = (case md_partial d cid of None \<Rightarrow> [] | Some b \<Rightarrow> b) \<and> asm_len body = mf_offset f
      \<and> asm_ok (md_limits d) len body \<and> md_limits d1 = md_limits d \<and> md_parser d1 = q
      \<and> md_books (md_buffered d) d1 \<and> md_link ((unfinished (md_parser d))(cid \<mapsto> (mf_offset f, len))) d1
      \<and> md_partial d1 = (md_partial d)(cid \<mapsto> asm_contents body)"
proof -
  let ?d = "d\<lparr>md_parser := q\<rparr>"
  have p: "parser_inv (md_parser d)" and lim: "limits_ok (md_limits ?d)" and books: "md_books (md_buffered ?d) ?d"
    and link: "md_link (unfinished (md_parser d)) ?d"
    using inv by (auto simp: md_inv_def md_books_def md_link_def)
  note view = consume_fragment_view [OF p out f cid]
  have "r \<noteq> Some DecodePanic \<and> (r = None \<longrightarrow> (\<exists>body. hm_get (md_partials d1) cid = Some body
      \<and> md_partials d1 = hm_insert cid body (md_partials d1)
      \<and> asm_contents body = (case md_partial d cid of None \<Rightarrow> [] | Some b \<Rightarrow> b) \<and> asm_len body = mf_offset f
      \<and> asm_ok (md_limits d) len body \<and> md_limits d1 = md_limits d \<and> md_parser d1 = q
      \<and> md_books (md_buffered d) d1 \<and> md_link ((unfinished (md_parser d))(cid \<mapsto> (mf_offset f, len))) d1
      \<and> md_partial d1 = (md_partial d)(cid \<mapsto> asm_contents body)))"
  proof (cases "hm_get (md_partials d) cid")
    case None
    then have none: "hm_get (md_partials ?d) (mh_chunk_stream_id (mf_header f)) = None"
      by (simp add: cid)
    have eq: "open_assembly env ?d (mf_header f) owned = (d1, r)"
      using d1 None by simp
    have start: "mf_offset f = 0"
      using md_link_present [OF link, of cid] view(1) None by (auto simp: is_start_def split: if_splits)
    show ?thesis
    proof (intro conjI impI)
      show "r \<noteq> Some DecodePanic"
        by (rule open_assembly_ok(1) [OF eq env lim books none])
      assume "r = None"
      from open_assembly_ok(2) [OF eq env lim books none this, folded cid len] obtain body where
        body: "hm_get (md_partials d1) cid = Some body" "md_partials d1 = hm_insert cid body (md_partials d)"
        "asm_contents body = []" "asm_len body = 0" "asm_ok (md_limits d) len body" "md_limits d1 = md_limits d"
        "md_parser d1 = q" "md_books (md_buffered d) d1"
        by auto
      moreover have "md_link ((unfinished (md_parser d))(cid \<mapsto> (mf_offset f, len))) d1"
        by (rule md_link_update [OF link]) (use body start in auto)
      moreover have "md_partial d1 = (md_partial d)(cid \<mapsto> [])"
        using body(2,3) by (auto simp: md_partial_def fun_eq_iff)
      ultimately show "\<exists>body. hm_get (md_partials d1) cid = Some body
        \<and> md_partials d1 = hm_insert cid body (md_partials d1)
        \<and> asm_contents body = (case md_partial d cid of None \<Rightarrow> [] | Some b \<Rightarrow> b) \<and> asm_len body = mf_offset f
        \<and> asm_ok (md_limits d) len body \<and> md_limits d1 = md_limits d \<and> md_parser d1 = q
        \<and> md_books (md_buffered d) d1 \<and> md_link ((unfinished (md_parser d))(cid \<mapsto> (mf_offset f, len))) d1
        \<and> md_partial d1 = (md_partial d)(cid \<mapsto> asm_contents body)"
        using start None by (auto simp: md_partial_def)
    qed
  next
    case (Some body)
    obtain l where l: "unfinished (md_parser d) cid = Some (asm_len body, l)" "asm_ok (md_limits d) l body"
      using md_linkD [OF link, of cid body] Some by auto
    then have same: "asm_len body = mf_offset f" "l = len"
      using view(1) len by (auto split: if_splits)
    have "md_partials d = hm_insert cid body (md_partials d)"
      using Some by (simp add: hm_insert_def hm_get_def update_triv)
    moreover have "(unfinished (md_parser d))(cid \<mapsto> (mf_offset f, len)) = unfinished (md_parser d)"
      using l same by auto
    moreover have "md_partial d1 = (md_partial d)(cid \<mapsto> asm_contents body)"
      using d1 Some by (auto simp: md_partial_def fun_eq_iff)
    ultimately show ?thesis
      using d1 Some l same books link by (auto simp: md_partial_def)
  qed
  then show "r \<noteq> Some DecodePanic" and "r = None \<Longrightarrow> \<exists>body. hm_get (md_partials d1) cid = Some body
      \<and> md_partials d1 = hm_insert cid body (md_partials d1)
      \<and> asm_contents body = (case md_partial d cid of None \<Rightarrow> [] | Some b \<Rightarrow> b) \<and> asm_len body = mf_offset f
      \<and> asm_ok (md_limits d) len body \<and> md_limits d1 = md_limits d \<and> md_parser d1 = q
      \<and> md_books (md_buffered d) d1 \<and> md_link ((unfinished (md_parser d))(cid \<mapsto> (mf_offset f, len))) d1
      \<and> md_partial d1 = (md_partial d)(cid \<mapsto> asm_contents body)"
    by auto
qed

text \<open>The state after the bytes of a fragment were appended.\<close>

lemma fragment_appended:
  assumes inv: "md_inv d" and env: "env_ok env"
    and out: "consume (md_parser d) (as_slice i) = (q, Inr step)" and f: "ps_fragment step = Some f"
    and n: "n = length (mf_data f)" and cid: "cid = mh_chunk_stream_id (mf_header f)"
    and len: "len = mh_message_length (mf_header f)"
    and fit: "saturating_add (md_buffered d) n \<le> maximum_buffered_bytes (md_limits d)"
    and adv: "input_advance i (ps_consumed step - n) = Some i1"
    and d1: "(if hm_get (md_partials d) cid \<noteq> None then (d\<lparr>md_parser := q\<rparr>, None)
      else open_assembly env (d\<lparr>md_parser := q\<rparr>) (mf_header f) owned) = (d1, None)"
    and d2: "append_fragment env d1 cid i1 n = (d2, i2, r)"
    and d3: "d3 = d2\<lparr>md_buffered := saturating_add (md_buffered d) n\<rparr>"
  shows "r \<noteq> Some DecodePanic"
    and "r = None \<Longrightarrow> \<exists>body. md_partials d3 = hm_insert cid body (md_partials d1)
      \<and> hm_get (md_partials d3) cid = Some body
      \<and> asm_contents body = (case md_partial d cid of None \<Rightarrow> [] | Some b \<Rightarrow> b) @ mf_data f
      \<and> md_limits d3 = md_limits d \<and> md_parser d3 = q \<and> md_books (md_buffered d3) d3
      \<and> md_link ((unfinished (md_parser d))(cid \<mapsto> (mf_offset f + n, len))) d3
      \<and> md_partial d3 = (md_partial d)(cid \<mapsto> asm_contents body)"
proof -
  have p: "parser_inv (md_parser d)" and lim: "limits_ok (md_limits d)"
    using inv by (auto simp: md_inv_def)
  note view = consume_fragment_view [OF p out f cid]
  from ensure_assembly_ok(2) [OF inv env out f cid len d1 refl] obtain body where
    body: "hm_get (md_partials d1) cid = Some body"
      "asm_contents body = (case md_partial d cid of None \<Rightarrow> [] | Some b \<Rightarrow> b)" "asm_len body = mf_offset f"
      "asm_ok (md_limits d) len body" "md_limits d1 = md_limits d" "md_parser d1 = q"
      "md_books (md_buffered d) d1" "md_link ((unfinished (md_parser d))(cid \<mapsto> (mf_offset f, len))) d1"
      "md_partial d1 = (md_partial d)(cid \<mapsto> asm_contents body)"
    by auto
  have i1: "as_slice i1 = drop (ps_consumed step - n) (as_slice i)"
    using input_advance_Some [OF adv] by simp
  have n1: "n \<le> length (as_slice i1)" and data: "take n (as_slice i1) = mf_data f"
    using view(6) by (auto simp: i1 n)
  have off: "asm_len body + n \<le> len"
    using view(3) by (simp add: body len n)
  have sum: "saturating_add (md_buffered d) n = md_buffered d + n"
    by (rule saturating_add_exact [OF lim fit])
  note app = append_fragment_ok [OF d2 _ body(7,1) _ n1 off, unfolded body(5), OF lim body(4)]
  show "r \<noteq> Some DecodePanic"
    using app(1) fit sum by simp
  assume "r = None"
  from app(2) [OF _ this] fit sum obtain body' where
    b': "md_partials d2 = hm_insert cid body' (md_partials d1)" "asm_contents body' = asm_contents body @ mf_data f"
      "asm_len body' = asm_len body + n" "asm_ok (md_limits d) len body'" "md_limits d2 = md_limits d"
      "md_parser d2 = md_parser d1" "md_books (md_buffered d + n) d2"
    by (auto simp: data)
  have "md_link (((unfinished (md_parser d))(cid \<mapsto> (mf_offset f, len)))(cid \<mapsto> (mf_offset f + n, len))) d3"
    by (rule md_link_update [OF body(8), of _ _ body']) (use b' body d3 in auto)
  moreover have "md_books (md_buffered d3) d3"
    using b'(7) sum by (simp add: d3 md_books_def)
  moreover have "md_partial d3 = (md_partial d)(cid \<mapsto> asm_contents body')"
    using b'(1) body(9) by (auto simp: d3 md_partial_def fun_eq_iff)
  ultimately show "\<exists>body. md_partials d3 = hm_insert cid body (md_partials d1)
      \<and> hm_get (md_partials d3) cid = Some body
      \<and> asm_contents body = (case md_partial d cid of None \<Rightarrow> [] | Some b \<Rightarrow> b) @ mf_data f
      \<and> md_limits d3 = md_limits d \<and> md_parser d3 = q \<and> md_books (md_buffered d3) d3
      \<and> md_link ((unfinished (md_parser d))(cid \<mapsto> (mf_offset f + n, len))) d3
      \<and> md_partial d3 = (md_partial d)(cid \<mapsto> asm_contents body)"
    using b' body by (auto simp: d3)
qed

lemma close_assembly_ok:
  assumes "md_books (md_buffered d) d" and "hm_get (md_partials d) cid = Some body" and "md_link view d"
  shows "\<exists>d'. close_assembly d cid = (d', Inr (asm_finish body)) \<and> md_limits d' = md_limits d
    \<and> md_parser d' = md_parser d \<and> md_books (md_buffered d') d' \<and> md_link (view(cid := None)) d'
    \<and> md_partial d' = (md_partial d)(cid := None)"
proof -
  obtain d' where d': "release_partial d cid body = Some d'" "md_partials d' = hm_remove cid (md_partials d)"
    "md_limits d' = md_limits d" "md_parser d' = md_parser d" "md_books (md_buffered d') d'"
    using release_partial_ok [OF assms(1,2)] by blast
  moreover have "md_link (view(cid := None)) d'"
    by (rule md_link_remove [OF assms(3) d'(2,3)])
  ultimately show ?thesis
    using assms(2) by (auto simp: close_assembly_def md_partial_def fun_eq_iff)
qed

lemma decode_fragment_no_panic:
  assumes out: "decode_fragment env d i consumed f = (d', i', r)"
    and n: "n = length (mf_data f)" and cid: "cid = mh_chunk_stream_id (mf_header f)"
    and le: "n \<le> consumed" and adv: "input_advance i (consumed - n) = Some i1" and take: "input_take i1 n \<noteq> None"
    and opened: "\<And>d1 r1. (if hm_get (md_partials d) cid \<noteq> None then (d, None)
      else open_assembly env d (mf_header f) (is_owned i1)) = (d1, r1) \<Longrightarrow> r1 \<noteq> Some DecodePanic"
    and app: "\<And>d1 d2 i2 r2. saturating_add (md_buffered d) n \<le> maximum_buffered_bytes (md_limits d) \<Longrightarrow>
      (if hm_get (md_partials d) cid \<noteq> None then (d, None)
      else open_assembly env d (mf_header f) (is_owned i1)) = (d1, None) \<Longrightarrow>
      append_fragment env d1 cid i1 n = (d2, i2, r2) \<Longrightarrow> r2 \<noteq> Some DecodePanic
      \<and> (r2 = None \<longrightarrow> snd (close_assembly (d2\<lparr>md_buffered := saturating_add (md_buffered d) n\<rparr>) cid) \<noteq> Inl DecodePanic)"
  shows "r \<noteq> Inl DecodePanic"
proof -
  let ?present = "hm_get (md_partials d) cid \<noteq> None"
  note eq = out [unfolded decode_fragment_def Let_def, folded n cid, unfolded adv option.case]
  show ?thesis
  proof (cases "is_end f \<and> \<not> ?present")
    case True
    then show ?thesis
      using eq take le by (auto simp: limit_def split: if_splits option.splits)
  next
    case False
    obtain d1 r1 where d1: "(if ?present then (d, None) else open_assembly env d (mf_header f) (is_owned i1)) = (d1, r1)"
      by (metis surj_pair)
    obtain d2 i2 r2 where d2: "append_fragment env d1 cid i1 n = (d2, i2, r2)"
      by (metis prod_cases3)
    have app': "saturating_add (md_buffered d) n \<le> maximum_buffered_bytes (md_limits d) \<Longrightarrow> r1 = None \<Longrightarrow>
      r2 \<noteq> Some DecodePanic \<and> (r2 = None \<longrightarrow>
        snd (close_assembly (d2\<lparr>md_buffered := saturating_add (md_buffered d) n\<rparr>) cid) \<noteq> Inl DecodePanic)"
      using app [OF _ _ d2] d1 by simp
    show ?thesis
      using eq [unfolded d1 d2 prod.case] opened [OF d1] app' False le
      by (auto simp: limit_def not_less split: if_splits option.splits prod.splits sum.splits)
  qed
qed

lemma decode_fragment_step:
  assumes inv: "md_inv d" and env: "env_ok env"
    and out: "consume (md_parser d) (as_slice i) = (q, Inr step)" and f: "ps_fragment step = Some f"
    and dec: "decode_fragment env (d\<lparr>md_parser := q\<rparr>) i (ps_consumed step) f = (d', i', r)"
  shows "r \<noteq> Inl DecodePanic"
    and "r = Inr x \<Longrightarrow> md_inv d' \<and> md_parser d' = q \<and> as_slice i' = drop (ps_consumed step) (as_slice i)
      \<and> assemble_step (md_partial d) f
        = (md_partial d', map (rm_map payload_contents) (case x of None \<Rightarrow> [] | Some m \<Rightarrow> [m]))"
proof -
  define n where "n = length (mf_data f)"
  define cid where "cid = mh_chunk_stream_id (mf_header f)"
  define len where "len = mh_message_length (mf_header f)"
  have p: "parser_inv (md_parser d)" and lim: "limits_ok (md_limits d)" and books: "md_books (md_buffered d) d"
    and link: "md_link (unfinished (md_parser d)) d" and limp: "md_limits d = cp_limits (md_parser d)"
    using inv by (auto simp: md_inv_def)
  note view = consume_fragment_view [OF p out f cid_def]
  have q: "parser_inv q" "cp_limits q = cp_limits (md_parser d)"
    using consume_inv(1) [OF p out] consume_limits [OF p out] by auto
  note appended = fragment_appended [OF inv env out f n_def cid_def len_def]
  have "ps_consumed step - n \<le> length (as_slice i)"
    using view(6) by linarith
  then obtain i1 where i1: "input_advance i (ps_consumed step - n) = Some i1"
    by (cases i) auto
  show "r \<noteq> Inl DecodePanic"
  proof (rule decode_fragment_no_panic [OF dec n_def cid_def])
    show "n \<le> ps_consumed step"
      using view(6) by (simp add: n_def)
    show "input_advance i (ps_consumed step - n) = Some i1"
      by (rule i1)
    have "length (as_slice i1) = length (as_slice i) - (ps_consumed step - n)"
      using input_advance_Some [OF i1] by simp
    then have "n \<le> length (as_slice i1)"
      using view(6) n_def by linarith
    then show "input_take i1 n \<noteq> None"
      by (cases i1) auto
    show "r1 \<noteq> Some DecodePanic" if "(if hm_get (md_partials (d\<lparr>md_parser := q\<rparr>)) cid \<noteq> None then (d\<lparr>md_parser := q\<rparr>, None)
      else open_assembly env (d\<lparr>md_parser := q\<rparr>) (mf_header f) (is_owned i1)) = (d1, r1)" for d1 r1
      using ensure_assembly_ok(1) [OF inv env out f cid_def len_def] that by simp
    show "r2 \<noteq> Some DecodePanic \<and> (r2 = None \<longrightarrow> snd (close_assembly
        (d2\<lparr>md_buffered := saturating_add (md_buffered (d\<lparr>md_parser := q\<rparr>)) n\<rparr>) cid) \<noteq> Inl DecodePanic)"
      if "saturating_add (md_buffered (d\<lparr>md_parser := q\<rparr>)) n \<le> maximum_buffered_bytes (md_limits (d\<lparr>md_parser := q\<rparr>))"
        "(if hm_get (md_partials (d\<lparr>md_parser := q\<rparr>)) cid \<noteq> None then (d\<lparr>md_parser := q\<rparr>, None)
          else open_assembly env (d\<lparr>md_parser := q\<rparr>) (mf_header f) (is_owned i1)) = (d1, None)"
        "append_fragment env d1 cid i1 n = (d2, i2, r2)" for d1 d2 i2 r2
      using appended [OF _ i1 _ that(3) refl] that(1,2) close_assembly_ok by fastforce
  qed
  assume r: "r = Inr x"
  show "md_inv d' \<and> md_parser d' = q \<and> as_slice i' = drop (ps_consumed step) (as_slice i)
      \<and> assemble_step (md_partial d) f
        = (md_partial d', map (rm_map payload_contents) (case x of None \<Rightarrow> [] | Some m \<Rightarrow> [m]))"
    using dec [unfolded r]
  proof (rule decode_fragment_InrE [OF _ n_def cid_def], goal_cases)
    case (1 i1 b)
    have i1: "as_slice i1 = drop (ps_consumed step - n) (as_slice i)" "n \<le> ps_consumed step"
      using input_advance_Some [OF 1(2)] 1(1) by auto
    have none: "unfinished (md_parser d) cid = None"
      using md_link_present [OF link, of cid] 1(5) by simp
    have b: "b = mf_data f" "as_slice i' = drop (ps_consumed step) (as_slice i)"
      using input_take_Some [OF 1(7)] i1 view(6) by (auto simp: n_def)
    have "unfinished q = unfinished (md_parser d)"
      using view(2) 1(4) none by auto
    then have "md_inv d'"
      using 1(8) inv q by (auto simp: md_inv_def md_books_def md_link_def)
    then show ?case
      using 1 b by (auto simp: assemble_step_def Let_def cid_def md_partial_def header_message_def rm_map_def fun_eq_iff)
  next
    case (2 i1 d1 d2)
    define d3 where "d3 = d2\<lparr>md_buffered := saturating_add (md_buffered d) n\<rparr>"
    have "as_slice i1 = drop (ps_consumed step - n) (as_slice i)"
      using input_advance_Some [OF 2(2)] by simp
    then have rest: "as_slice i' = drop (ps_consumed step) (as_slice i)"
      using append_fragment_None [OF 2(5)] 2(1) by simp
    have fit: "saturating_add (md_buffered d) n \<le> maximum_buffered_bytes (md_limits d)"
      using 2(3) by simp
    have ens: "(if hm_get (md_partials d) cid \<noteq> None then (d\<lparr>md_parser := q\<rparr>, None)
      else open_assembly env (d\<lparr>md_parser := q\<rparr>) (mf_header f) (is_owned i1)) = (d1, None)"
      using 2(4) by simp
    from appended(2) [OF fit 2(2) ens 2(5) d3_def refl]
    obtain body where body: "hm_get (md_partials d3) cid = Some body"
      "asm_contents body = (case md_partial d cid of None \<Rightarrow> [] | Some b \<Rightarrow> b) @ mf_data f"
      "md_limits d3 = md_limits d" "md_parser d3 = q" "md_books (md_buffered d3) d3"
      "md_link ((unfinished (md_parser d))(cid \<mapsto> (mf_offset f + n, len))) d3"
      "md_partial d3 = (md_partial d)(cid \<mapsto> asm_contents body)"
      by blast
    show ?case
    proof (cases "is_end f")
      case False
      then have "d' = d3" "x = None"
        using 2(6) by (auto simp: d3_def)
      moreover have "unfinished q = (unfinished (md_parser d))(cid \<mapsto> (mf_offset f + n, len))"
        using view(2) False by (simp add: n_def len_def)
      ultimately have "md_inv d'"
        using body q lim limp by (simp add: md_inv_def)
      then show ?thesis
        using body rest False \<open>d' = d3\<close> \<open>x = None\<close> by (simp add: assemble_step_def Let_def cid_def)
    next
      case True
      then obtain data where data: "close_assembly d3 cid = (d', Inr data)" "x = Some (header_message (mf_header f) data)"
        using 2(6) by (auto simp: d3_def)
      have cl: "data = asm_finish body" "md_limits d' = md_limits d3" "md_parser d' = md_parser d3"
        "md_books (md_buffered d') d'" "md_link ((unfinished (md_parser d))(cid := None)) d'"
        "md_partial d' = (md_partial d3)(cid := None)"
        using close_assembly_ok [OF body(5,1,6)] data(1) by auto
      moreover have "unfinished q = (unfinished (md_parser d))(cid := None)"
        using view(2) True by simp
      ultimately have "md_inv d'"
        using body q lim limp by (simp add: md_inv_def)
      then show ?thesis
        using body cl rest True data(2)
        by (simp add: assemble_step_def Let_def cid_def [symmetric] header_message_def rm_map_def asm_finish_contents)
    qed
  qed
qed

lemma parse_all_Some:
  assumes "consume p input = (q, Inr step)" and "ps_fragment step = Some f"
  shows "parse_all p input = (case parse_all q (drop (ps_consumed step) input) of (q', fs, e) \<Rightarrow> (q', f # fs, e))"
  using assms by (simp add: parse_all.simps [of p input])

lemma parse_all_None:
  assumes "consume p input = (q, Inr step)" and "ps_fragment step = None"
  shows "parse_all p input = (q, [], None)"
  using assms by (simp add: parse_all.simps [of p input])

lemma md_inv_wait:
  assumes "md_inv d" and "consume (md_parser d) input = (q, Inr step)" and "ps_fragment step = None"
  shows "md_inv (d\<lparr>md_parser := q\<rparr>)"
proof -
  have p: "parser_inv (md_parser d)"
    using assms(1) by (simp add: md_inv_def)
  show ?thesis
    using assms(1) consume_inv(1) [OF p assms(2)] consume_limits [OF p assms(2)] consume_wait_view(1) [OF p assms(2,3)]
    by (auto simp: md_inv_def md_books_def md_link_def)
qed

text \<open>One call of \<open>decode_input\<close>: the fragments it reads, assembled, are the message it returns.\<close>

definition delivers ::
    "chunk_parser \<Rightarrow> bytes \<Rightarrow> partial_messages \<Rightarrow> chunk_parser \<Rightarrow> bytes \<Rightarrow> partial_messages \<Rightarrow>
     bytes raw_message option \<Rightarrow> bool" where
  "delivers p input A p' rest A' x \<longleftrightarrow>
     (\<exists>fs. assemble A fs = (A', case x of None \<Rightarrow> [] | Some m \<Rightarrow> [m])
        \<and> (case x of
             None \<Rightarrow> rest = [] \<and> parse_all p input = (p', fs, None)
           | Some m \<Rightarrow> parse_all p input = (case parse_all p' rest of (q, gs, e) \<Rightarrow> (q, fs @ gs, e))))"

lemma delivers_wait:
  "consume p input = (q, Inr step) \<Longrightarrow> ps_fragment step = None \<Longrightarrow> delivers p input A q [] A None"
  by (auto simp: delivers_def parse_all_None intro!: exI [of _ "[]"])

lemma delivers_message:
  "consume p input = (q, Inr step) \<Longrightarrow> ps_fragment step = Some f \<Longrightarrow> assemble_step A f = (A', [m]) \<Longrightarrow>
   delivers p input A q (drop (ps_consumed step) input) A' (Some m)"
  by (auto simp: delivers_def parse_all_Some intro!: exI [of _ "[f]"])

lemma delivers_continue:
  assumes "consume p input = (q, Inr step)" and "ps_fragment step = Some f" and "assemble_step A f = (A', [])"
    and "delivers q (drop (ps_consumed step) input) A' p' rest A'' x"
  shows "delivers p input A p' rest A'' x"
proof -
  from assms(4) obtain fs where fs: "assemble A' fs = (A'', case x of None \<Rightarrow> [] | Some m \<Rightarrow> [m])"
    "case x of None \<Rightarrow> rest = [] \<and> parse_all q (drop (ps_consumed step) input) = (p', fs, None)
     | Some m \<Rightarrow> parse_all q (drop (ps_consumed step) input) = (case parse_all p' rest of (q, gs, e) \<Rightarrow> (q, fs @ gs, e))"
    by (auto simp: delivers_def)
  have "assemble A (f # fs) = (A'', case x of None \<Rightarrow> [] | Some m \<Rightarrow> [m])"
    using fs(1) assms(3) by simp
  then show ?thesis
    unfolding delivers_def using fs(2) parse_all_Some [OF assms(1,2)]
    by (intro exI [of _ "f # fs"]) (auto split: option.splits prod.splits)
qed

lemma decode_input_refines:
  assumes "env_ok env" and "md_inv d" and "decode_input env d i = (d', i', r)"
  shows "r \<noteq> Inl DecodePanic \<and> (\<forall>x. r = Inr x \<longrightarrow> md_inv d' \<and>
    delivers (md_parser d) (as_slice i) (md_partial d) (md_parser d') (as_slice i') (md_partial d')
      (map_option (rm_map payload_contents) x))"
  using assms
proof (induction env d i arbitrary: d' i' r rule: decode_input.induct)
  case (1 env d i)
  note prems = "1.prems"(2,3)
  have p: "parser_inv (md_parser d)"
    using prems by (simp add: md_inv_def)
  obtain q s where out: "consume (md_parser d) (as_slice i) = (q, s)"
    by (cases "consume (md_parser d) (as_slice i)")
  show ?case
  proof (cases s)
    case (Inl e)
    then show ?thesis
      using prems(2) out consume_inv(2) [OF p out] by (auto simp: decode_input.simps [of env d i])
  next
    case (Inr step)
    show ?thesis
    proof (cases "ps_fragment step")
      case None
      have len: "ps_consumed step = length (as_slice i)"
        using consume_wait_view(2) [OF p _ None] out Inr by simp
      then obtain i1 where i1: "input_advance i (ps_consumed step) = Some i1" "as_slice i1 = []"
        by (cases i) auto
      then have "d' = d\<lparr>md_parser := q\<rparr>" "i' = i1" "r = Inr None"
        using prems(2) out Inr None by (simp_all add: decode_input.simps [of env d i])
      then show ?thesis
        using md_inv_wait [OF prems(1) _ None] delivers_wait [OF _ None] out Inr i1
        by (auto simp: md_partial_def)
    next
      case (Some f)
      obtain d1 i1 r1 where dec: "decode_fragment env (d\<lparr>md_parser := q\<rparr>) i (ps_consumed step) f = (d1, i1, r1)"
        by (metis prod_cases3)
      note step = decode_fragment_step [OF prems(1) "1.prems"(1) out [unfolded Inr] Some dec]
      have eq: "decode_input env d i = (case r1 of Inl e \<Rightarrow> (d1, i1, Inl e) | Inr (Some m) \<Rightarrow> (d1, i1, Inr (Some m))
          | Inr None \<Rightarrow> decode_input env d1 i1)"
        using out Inr Some dec by (simp add: decode_input.simps [of env d i] split: sum.split option.split)
      consider (err) e where "r1 = Inl e" | (msg) m where "r1 = Inr (Some m)" | (cont) "r1 = Inr None"
        by (metis option.exhaust sum.exhaust)
      then show ?thesis
      proof cases
        case err
        then show ?thesis using eq step(1) prems(2) by simp
      next
        case msg
        then show ?thesis
          using eq step(2) [OF msg] prems(2) delivers_message [OF out [unfolded Inr] Some] by auto
      next
        case cont
        have inv1: "md_inv d1" "md_parser d1 = q" "as_slice i1 = drop (ps_consumed step) (as_slice i)"
          "assemble_step (md_partial d) f = (md_partial d1, [])"
          using step(2) [OF cont] by auto
        have "decode_input env d1 i1 = (d', i', r)"
          using eq cont prems(2) by simp
        from "1.IH" [OF out [symmetric] Inr Some dec [symmetric] refl cont refl "1.prems"(1) inv1(1) this]
        show ?thesis
          using delivers_continue [OF out [unfolded Inr] Some inv1(4)] inv1(2,3) by simp
      qed
    qed
  qed
qed

end
