(* ===== verification/Contiguous_Refine.thy ===== *)
theory Contiguous_Refine
  imports Decoder_Refine
begin

text \<open>The invariant of \<open>ContiguousDecoder\<close> and that it implements the same specification.\<close>

definition cd_partial :: "contiguous_decoder \<Rightarrow> partial_messages" where
  "cd_partial d cid = map_option fst (hm_get (cd_partials d) cid)"

definition cd_books :: "contiguous_decoder \<Rightarrow> bool" where
  "cd_books d \<longleftrightarrow> hm_wf (cd_partials d) \<and> cd_buffered d = hm_sum (\<lambda>body. length (fst body)) (cd_partials d)
     \<and> cd_reserved d = hm_sum snd (cd_partials d)"

fun cd_link_ok :: "(bytes \<times> nat) option \<Rightarrow> (nat \<times> nat) option \<Rightarrow> bool" where
  "cd_link_ok None None \<longleftrightarrow> True"
| "cd_link_ok (Some (b, capacity)) (Some (received, len)) \<longleftrightarrow> length b = received \<and> len \<le> capacity"
| "cd_link_ok None (Some v) \<longleftrightarrow> False"
| "cd_link_ok (Some body) None \<longleftrightarrow> False"

definition cd_link :: "(u32 \<Rightarrow> (nat \<times> nat) option) \<Rightarrow> contiguous_decoder \<Rightarrow> bool" where
  "cd_link view d \<longleftrightarrow> (\<forall>cid. cd_link_ok (hm_get (cd_partials d) cid) (view cid))"

definition cd_core :: "contiguous_decoder \<Rightarrow> bool" where
  "cd_core d \<longleftrightarrow> parser_inv (cd_parser d) \<and> cd_limits d = cp_limits (cd_parser d) \<and> limits_ok (cd_limits d)
     \<and> cd_books d \<and> cd_link (unfinished (cd_parser d)) d"

definition cd_inv :: "contiguous_decoder \<Rightarrow> bool" where
  "cd_inv d \<longleftrightarrow> cd_core d \<and> cd_buffered d + length (cd_pending d) \<le> maximum_buffered_bytes (cd_limits d)"

lemma cd_link_present: "cd_link view d \<Longrightarrow> hm_get (cd_partials d) cid = None \<longleftrightarrow> view cid = None"
  unfolding cd_link_def
  by (drule spec [of _ cid]) (cases "view cid"; cases "hm_get (cd_partials d) cid"; auto)

lemma cd_linkD:
  "cd_link view d \<Longrightarrow> hm_get (cd_partials d) cid = Some (b, cap) \<Longrightarrow>
   \<exists>len. view cid = Some (length b, len) \<and> len \<le> cap"
  unfolding cd_link_def by (drule spec [of _ cid]) (cases "view cid"; auto)

lemma contiguous_release_ok:
  assumes books: "cd_books d" and body: "hm_get (cd_partials d) cid = Some body" and link: "cd_link view d"
  shows "\<exists>d'. contiguous_release d cid body = Some d' \<and> cd_limits d' = cd_limits d \<and> cd_parser d' = cd_parser d
    \<and> cd_books d' \<and> cd_link (view(cid := None)) d' \<and> cd_partial d' = (cd_partial d)(cid := None)
    \<and> cd_buffered d' + length (fst body) = cd_buffered d \<and> cd_pending d' = cd_pending d"
proof -
  have wf: "hm_wf (cd_partials d)"
    using books by (simp add: cd_books_def)
  note sums = hm_sum_remove [OF wf body, of "\<lambda>body. length (fst body)"] hm_sum_remove [OF wf body, of snd]
  have le: "length (fst body) \<le> cd_buffered d" "snd body \<le> cd_reserved d"
    using sums books by (auto simp: cd_books_def)
  then show ?thesis
    using books wf link sums
    by (auto simp: contiguous_release_def cd_books_def cd_link_def cd_partial_def fun_eq_iff)
qed

text \<open>Appending the bytes of a fragment to an existing partial message.\<close>

lemma contiguous_append_ok:
  assumes books: "cd_books d" and body: "hm_get (cd_partials d) cid = Some (b, cap)" and link: "cd_link view d"
    and view: "view cid = Some (length b, len)" and cap: "length b + length data \<le> len" "len \<le> cap"
    and d2: "d2 = d\<lparr>cd_partials := hm_insert cid (b @ data, cap) (cd_partials d),
      cd_buffered := cd_buffered d + length data\<rparr>"
  shows "cd_books d2 \<and> cd_link (view(cid \<mapsto> (length b + length data, len))) d2
    \<and> cd_partial d2 = (cd_partial d)(cid \<mapsto> b @ data)"
  using books body link cap hm_sum_insert_same [OF body, of "\<lambda>body. length (fst body)" "(b @ data, cap)"]
    hm_sum_insert_same [OF body, of snd "(b @ data, cap)"]
  by (auto simp: d2 cd_books_def cd_link_def cd_partial_def fun_eq_iff)

text \<open>The state before the bytes are appended: a partial message that ends at the fragment's offset.\<close>

lemma contiguous_ensure_ok:
  assumes core: "cd_core d" and env: "env_ok env"
    and out: "consume (cd_parser d) input = (q, Inr step)" and f: "ps_fragment step = Some f"
    and cid: "cid = mh_chunk_stream_id (mf_header f)" and len: "len = mh_message_length (mf_header f)"
    and d1: "d1 = (if hm_get (cd_partials d) cid \<noteq> None then d\<lparr>cd_parser := q\<rparr>
      else d\<lparr>cd_parser := q, cd_reserved := cd_reserved d + de_capacity env len,
             cd_partials := hm_insert cid ([], de_capacity env len) (cd_partials d)\<rparr>)"
  shows "\<exists>b cap. hm_get (cd_partials d1) cid = Some (b, cap) \<and> length b = mf_offset f \<and> len \<le> cap
    \<and> b = (case cd_partial d cid of None \<Rightarrow> [] | Some b \<Rightarrow> b) \<and> cd_books d1
    \<and> cd_link ((unfinished (cd_parser d))(cid \<mapsto> (mf_offset f, len))) d1
    \<and> cd_partial d1 = (cd_partial d)(cid \<mapsto> b)"
proof -
  have p: "parser_inv (cd_parser d)" and books: "cd_books d" and link: "cd_link (unfinished (cd_parser d)) d"
    using core by (auto simp: cd_core_def)
  note view = consume_fragment_view [OF p out f cid]
  show ?thesis
  proof (cases "hm_get (cd_partials d) cid")
    case None
    then have off: "mf_offset f = 0"
      using cd_link_present [OF link, of cid] view(1) by (auto simp: is_start_def split: if_splits)
    have "len \<le> de_capacity env len"
      using env by (simp add: env_ok_def)
    then show ?thesis
      using None books link off
      by (auto simp: d1 cd_books_def cd_link_def cd_partial_def fun_eq_iff hm_sum_insert_new)
  next
    case (Some body)
    obtain b cap where body: "body = (b, cap)"
      by (cases body)
    obtain l where "unfinished (cd_parser d) cid = Some (length b, l)" "l \<le> cap"
      using cd_linkD [OF link] Some body by blast
    then have v: "unfinished (cd_parser d) cid = Some (mf_offset f, len)" "length b = mf_offset f" "len \<le> cap"
      using view(1) len by (auto split: if_splits)
    then have "(unfinished (cd_parser d))(cid \<mapsto> (mf_offset f, len)) = unfinished (cd_parser d)"
      by auto
    then show ?thesis
      using Some body v books link by (auto simp: d1 cd_books_def cd_link_def cd_partial_def fun_eq_iff)
  qed
qed

lemma contiguous_fragment_step:
  assumes core: "cd_core d" and env: "env_ok env"
    and out: "consume (cd_parser d) input = (q, Inr step)" and f: "ps_fragment step = Some f"
    and dec: "contiguous_fragment env (d\<lparr>cd_parser := q\<rparr>) f = (d', r)"
  shows "r \<noteq> Inl DecodePanic \<and> (\<forall>x. r = Inr x \<longrightarrow> cd_core d' \<and> cd_parser d' = q \<and> cd_pending d' = cd_pending d
      \<and> cd_limits d' = cd_limits d \<and> cd_buffered d' \<le> cd_buffered d + length (mf_data f)
      \<and> assemble_step (cd_partial d) f = (cd_partial d', case x of None \<Rightarrow> [] | Some m \<Rightarrow> [m]))"
proof -
  define cid where "cid = mh_chunk_stream_id (mf_header f)"
  define len where "len = mh_message_length (mf_header f)"
  have p: "parser_inv (cd_parser d)" and lim: "limits_ok (cd_limits d)" and books: "cd_books d"
    and link: "cd_link (unfinished (cd_parser d)) d" and limp: "cd_limits d = cp_limits (cd_parser d)"
    using core by (auto simp: cd_core_def)
  note view = consume_fragment_view [OF p out f cid_def]
  have q: "parser_inv q" "cp_limits q = cp_limits (cd_parser d)"
    using consume_inv(1) [OF p out] consume_limits [OF p out] by auto
  show ?thesis
  proof (cases "is_start f \<and> is_end f")
    case True
    then have none: "unfinished (cd_parser d) cid = None"
      using view(1) by simp
    then have "unfinished q = unfinished (cd_parser d)"
      using view(2) True by auto
    moreover have "hm_get (cd_partials d) cid = None"
      using cd_link_present [OF link] none by simp
    ultimately show ?thesis
      using dec True core q
      by (auto simp: contiguous_fragment_def cd_core_def cd_books_def cd_link_def assemble_step_def Let_def
          cid_def cd_partial_def fun_eq_iff)
  next
    case False
    define d1 where "d1 = (if hm_get (cd_partials d) cid \<noteq> None then d\<lparr>cd_parser := q\<rparr>
      else d\<lparr>cd_parser := q, cd_reserved := cd_reserved d + de_capacity env len,
             cd_partials := hm_insert cid ([], de_capacity env len) (cd_partials d)\<rparr>)"
    obtain b cap where b: "hm_get (cd_partials d1) cid = Some (b, cap)" "length b = mf_offset f" "len \<le> cap"
      "b = (case cd_partial d cid of None \<Rightarrow> [] | Some b \<Rightarrow> b)" "cd_books d1"
      "cd_link ((unfinished (cd_parser d))(cid \<mapsto> (mf_offset f, len))) d1"
      "cd_partial d1 = (cd_partial d)(cid \<mapsto> b)"
      using contiguous_ensure_ok [OF core env out f cid_def len_def d1_def] by blast
    define d2 where "d2 = d1\<lparr>cd_partials := hm_insert cid (b @ mf_data f, cap) (cd_partials d1),
      cd_buffered := cd_buffered d1 + length (mf_data f)\<rparr>"
    have fit: "length b + length (mf_data f) \<le> len"
      using view(3) b(2) by (simp add: len_def)
    have d2: "cd_books d2" "cd_link ((unfinished (cd_parser d))(cid \<mapsto> (mf_offset f + length (mf_data f), len))) d2"
      "cd_partial d2 = (cd_partial d)(cid \<mapsto> b @ mf_data f)"
      using contiguous_append_ok [OF b(5,1,6) _ fit b(3) d2_def] b(2,7) by auto
    have same: "cd_parser d2 = q" "cd_limits d2 = cd_limits d" "cd_pending d2 = cd_pending d"
      "cd_buffered d2 = cd_buffered d + length (mf_data f)"
      by (auto simp: d2_def d1_def)
    obtain d3 where d3: "contiguous_release d2 cid (b @ mf_data f, cap) = Some d3" "cd_limits d3 = cd_limits d2"
      "cd_parser d3 = cd_parser d2" "cd_books d3" "cd_link ((unfinished (cd_parser d))(cid := None)) d3"
      "cd_partial d3 = (cd_partial d2)(cid := None)" "cd_buffered d3 \<le> cd_buffered d2" "cd_pending d3 = cd_pending d2"
      using contiguous_release_ok [OF d2(1) _ d2(2), of cid "(b @ mf_data f, cap)"]
      by (force simp: d2_def)
    have dec': "(d', r) = (if hm_get (cd_partials d) cid = None
          \<and> saturating_add (cd_reserved d) len > maximum_buffered_bytes (cd_limits d)
        then (d\<lparr>cd_parser := q\<rparr>, Inl (limit ''reserved payload bytes'' (saturating_add (cd_reserved d) len)
          (maximum_buffered_bytes (cd_limits d))))
        else if \<not> is_end f then (d2, Inr None)
        else (d3, Inr (Some (header_message (mf_header f) (b @ mf_data f)))))"
      using dec False b(1) fit b(3) d3(1) unfolding contiguous_fragment_def Let_def cid_def [symmetric] len_def [symmetric]
      by (auto simp: d1_def d2_def split: if_splits)
    show ?thesis
    proof (cases "is_end f")
      case True
      then have "unfinished q = (unfinished (cd_parser d))(cid := None)"
        using view(2) by simp
      then show ?thesis
        using dec' True d3 same d2 q lim limp b(4)
        by (auto simp: cd_core_def limit_def assemble_step_def Let_def cid_def [symmetric] split: if_splits)
    next
      case no: False
      then have "unfinished q = (unfinished (cd_parser d))(cid \<mapsto> (mf_offset f + length (mf_data f), len))"
        using view(2) by (simp add: len_def)
      then show ?thesis
        using dec' no same d2 q lim limp b(4)
        by (auto simp: cd_core_def limit_def assemble_step_def Let_def cid_def [symmetric] split: if_splits)
    qed
  qed
qed

end
