(* ===== verification/Decoders.thy ===== *)
theory Decoders
  imports Contiguous_Refine
begin

text \<open>
  The contract the two decoders share and what follows from it alone: driven until no message is
  left, over any sequence of reads, a decoder delivers exactly the messages of the concatenated
  stream. \<open>fragment_assembler\<close> states the contract; \<open>MessageDecoder\<close> (owned or borrowed reads) and
  \<open>ContiguousDecoder\<close> both satisfy it.
\<close>

section \<open>The copying decoder, call by call\<close>

lemma cd_core_wait:
  assumes "cd_core d" and "consume (cd_parser d) input = (q, Inr step)" and "ps_fragment step = None"
  shows "cd_core (d\<lparr>cd_parser := q\<rparr>)"
proof -
  have p: "parser_inv (cd_parser d)"
    using assms(1) by (simp add: cd_core_def)
  show ?thesis
    using assms(1) consume_inv(1) [OF p assms(2)] consume_limits [OF p assms(2)] consume_wait_view(1) [OF p assms(2,3)]
    by (auto simp: cd_core_def cd_books_def cd_link_def)
qed

lemma contiguous_loop_refines:
  assumes "env_ok env" and "cd_core d" and "contiguous_loop env d input = (d', rest, r)"
  shows "r \<noteq> Inl DecodePanic \<and> (\<forall>x. r = Inr x \<longrightarrow> cd_core d' \<and> cd_pending d' = cd_pending d
    \<and> cd_limits d' = cd_limits d \<and> cd_buffered d' + length rest \<le> cd_buffered d + length input
    \<and> delivers (cd_parser d) input (cd_partial d) (cd_parser d') rest (cd_partial d') x)"
  using assms
proof (induction env d input arbitrary: d' rest r rule: contiguous_loop.induct)
  case (1 env d input)
  note prems = "1.prems"(2,3)
  have p: "parser_inv (cd_parser d)"
    using prems by (simp add: cd_core_def)
  obtain q s where out: "consume (cd_parser d) input = (q, s)"
    by (cases "consume (cd_parser d) input")
  show ?case
  proof (cases s)
    case (Inl e)
    then show ?thesis
      using prems(2) out consume_inv(2) [OF p out] by (auto simp: contiguous_loop.simps [of env d input])
  next
    case (Inr step)
    show ?thesis
    proof (cases "ps_fragment step")
      case None
      have "ps_consumed step = length input"
        using consume_wait_view(2) [OF p _ None] out Inr by simp
      then have "d' = d\<lparr>cd_parser := q\<rparr>" "rest = []" "r = Inr None"
        using prems(2) out Inr None by (simp_all add: contiguous_loop.simps [of env d input])
      then show ?thesis
        using cd_core_wait [OF prems(1) _ None] delivers_wait [OF _ None] out Inr
        by (auto simp: cd_partial_def)
    next
      case (Some f)
      obtain d1 r1 where dec: "contiguous_fragment env (d\<lparr>cd_parser := q\<rparr>) f = (d1, r1)"
        by (cases "contiguous_fragment env (d\<lparr>cd_parser := q\<rparr>) f")
      note step = contiguous_fragment_step [OF prems(1) "1.prems"(1) out [unfolded Inr] Some dec]
      let ?rest = "drop (ps_consumed step) input"
      have eq: "contiguous_loop env d input = (case r1 of Inl e \<Rightarrow> (d1, ?rest, Inl e)
          | Inr (Some m) \<Rightarrow> (d1, ?rest, Inr (Some m)) | Inr None \<Rightarrow> contiguous_loop env d1 ?rest)"
        using out Inr Some dec by (simp add: contiguous_loop.simps [of env d input] split: sum.split option.split)
      have used: "length (mf_data f) + length ?rest \<le> length input"
        using consume_fragment_view(6) [OF p out [unfolded Inr] Some refl] unfolding length_drop by linarith
      consider (err) e where "r1 = Inl e" | (msg) m where "r1 = Inr (Some m)" | (cont) "r1 = Inr None"
        by (metis option.exhaust sum.exhaust)
      then show ?thesis
      proof cases
        case err
        then show ?thesis using eq step prems(2) by simp
      next
        case msg
        then show ?thesis
          using eq step prems(2) used delivers_message [OF out [unfolded Inr] Some] by fastforce
      next
        case cont
        have one: "cd_core d1" "cd_parser d1 = q" "cd_pending d1 = cd_pending d" "cd_limits d1 = cd_limits d"
          "cd_buffered d1 \<le> cd_buffered d + length (mf_data f)"
          "assemble_step (cd_partial d) f = (cd_partial d1, [])"
          using step cont by auto
        have "contiguous_loop env d1 ?rest = (d', rest, r)"
          using eq cont prems(2) by simp
        from "1.IH" [OF out [symmetric] Inr refl Some dec [symmetric] cont refl "1.prems"(1) one(1) this]
        show ?thesis
          using delivers_continue [OF out [unfolded Inr] Some one(6)] one(2-5) used by fastforce
      qed
    qed
  qed
qed

lemma get_next_message_refines:
  assumes env: "env_ok env" and inv: "cd_inv d" and out: "get_next_message env d bs = (d', r)"
  shows "r \<noteq> Inl DecodePanic"
    and "r = Inr x \<Longrightarrow> cd_inv d' \<and> delivers (cd_parser d) (cd_pending d @ bs) (cd_partial d)
      (cd_parser d') (cd_pending d') (cd_partial d') x"
proof -
  let ?max = "maximum_buffered_bytes (cd_limits d)"
  have core: "cd_core (d\<lparr>cd_pending := []\<rparr>)" and lim: "limits_ok (cd_limits d)"
    using inv by (auto simp: cd_inv_def cd_core_def cd_books_def cd_link_def)
  obtain d1 rest r1 where loop: "contiguous_loop env (d\<lparr>cd_pending := []\<rparr>) (cd_pending d @ bs) = (d1, rest, r1)"
    by (metis prod_cases3)
  note l = contiguous_loop_refines [OF env core loop]
  have part: "cd_partial (d\<lparr>cd_pending := []\<rparr>) = cd_partial d"
    by (simp add: cd_partial_def fun_eq_iff)
  consider (big) "(d', r) = (d, Inl (ResourceLimitExceeded ''buffered bytes''
      (saturating_add (saturating_add (cd_buffered d) (length (cd_pending d))) (length bs)) ?max))"
    | (ok) "cd_buffered d + length (cd_pending d) + length bs \<le> ?max"
      "(d', r) = (case r1 of Inl e \<Rightarrow> (d1, Inl e) | Inr x \<Rightarrow> (d1\<lparr>cd_pending := rest\<rparr>, Inr x))"
  proof (cases "saturating_add (saturating_add (cd_buffered d) (length (cd_pending d))) (length bs) > ?max")
    case True
    then show thesis using out by (intro big) (auto simp: get_next_message_def)
  next
    case False
    moreover have "(if cd_pending d \<noteq> [] then cd_pending d @ bs else bs) = cd_pending d @ bs"
      by simp
    ultimately have "(d', r) = (case r1 of Inl e \<Rightarrow> (d1, Inl e) | Inr x \<Rightarrow> (d1\<lparr>cd_pending := rest\<rparr>, Inr x))"
      using out loop by (simp add: get_next_message_def split: sum.split)
    moreover have "cd_buffered d + length (cd_pending d) + length bs \<le> ?max"
      using False lim by (simp add: saturating_add_def limits_ok_def min_def split: if_splits)
    ultimately show thesis using ok by simp
  qed
  note cases = this
  show "r \<noteq> Inl DecodePanic"
    using cases by cases (use l in \<open>auto split: sum.splits\<close>)
  show "cd_inv d' \<and> delivers (cd_parser d) (cd_pending d @ bs) (cd_partial d)
      (cd_parser d') (cd_pending d') (cd_partial d') x" if "r = Inr x"
    using cases
  proof cases
    case ok
    then have r1: "r1 = Inr x" "d' = d1\<lparr>cd_pending := rest\<rparr>"
      using that by (auto split: sum.splits)
    have "cd_core d'" "cd_partial d' = cd_partial d1"
      using l r1 by (auto simp: cd_core_def cd_books_def cd_link_def cd_partial_def fun_eq_iff)
    then show ?thesis
      using l r1 ok(1) part by (auto simp: cd_inv_def)
  qed (use that in simp)
qed

section \<open>Driving a decoder\<close>

text \<open>
  The documented loop: hand over a read, take messages until there is none. \<open>next_message\<close> gets the
  mode of the read (owned or borrowed, where a decoder has both).
\<close>

inductive run ::
    "('m \<Rightarrow> 's \<Rightarrow> bytes \<Rightarrow> 's \<times> bytes \<times> (decode_error + bytes raw_message option)) \<Rightarrow> 'm \<Rightarrow>
     's \<Rightarrow> bytes \<Rightarrow> 's \<Rightarrow> bytes raw_message list \<Rightarrow> decode_error option \<Rightarrow> bool"
  for next_message mode where
  run_error: "next_message mode s i = (s', i', Inl e) \<Longrightarrow> run next_message mode s i s' [] (Some e)"
| run_none: "next_message mode s i = (s', i', Inr None) \<Longrightarrow> run next_message mode s i s' [] None"
| run_some: "next_message mode s i = (s', i', Inr (Some m)) \<Longrightarrow> run next_message mode s' i' s'' ms e \<Longrightarrow>
    run next_message mode s i s'' (m # ms) e"

inductive run_reads ::
    "('m \<Rightarrow> 's \<Rightarrow> bytes \<Rightarrow> 's \<times> bytes \<times> (decode_error + bytes raw_message option)) \<Rightarrow>
     's \<Rightarrow> ('m \<times> bytes) list \<Rightarrow> 's \<Rightarrow> bytes raw_message list \<Rightarrow> bool"
  for next_message where
  reads_done: "run_reads next_message s [] s []"
| reads_more: "run next_message mode s r s' ms None \<Longrightarrow> run_reads next_message s' rs s'' ms' \<Longrightarrow>
    run_reads next_message s ((mode, r) # rs) s'' (ms @ ms')"

text \<open>The messages of a whole stream, from the fragments the parser delivers for it in one piece.\<close>

definition stream_messages :: "decoder_limits \<Rightarrow> bytes \<Rightarrow> bytes raw_message list" where
  "stream_messages limits input =
     (case parse_all (parser_with_limits limits) input of (p, fs, e) \<Rightarrow> snd (assemble Map.empty fs))"

subsection \<open>Assembling fragments byte by byte\<close>

definition event_fragment :: "payload_event \<Rightarrow> message_fragment" where
  "event_fragment = (\<lambda>(h, off, b). \<lparr>mf_header = h, mf_offset = off, mf_data = (case b of None \<Rightarrow> [] | Some x \<Rightarrow> [x])\<rparr>)"

definition fragment_fits :: "message_fragment \<Rightarrow> bool" where
  "fragment_fits f \<longleftrightarrow> mf_offset f + length (mf_data f) \<le> mh_message_length (mf_header f)"

lemma assemble_bytes:
  "off + length (x # xs) \<le> mh_message_length h \<Longrightarrow>
   assemble A (map (\<lambda>(i, b). event_fragment (h, i, Some b)) (enumerate off (x # xs)))
   = assemble_step A \<lparr>mf_header = h, mf_offset = off, mf_data = x # xs\<rparr>"
proof (induction xs arbitrary: off x A)
  case Nil
  then show ?case
    by (simp add: event_fragment_def split: prod.split)
next
  case (Cons y ys)
  let ?cid = "mh_chunk_stream_id h"
  let ?b = "case A ?cid of None \<Rightarrow> [] | Some b \<Rightarrow> b"
  have first: "assemble_step A (event_fragment (h, off, Some x)) = (A(?cid \<mapsto> ?b @ [x]), [])"
    using Cons.prems by (simp add: assemble_step_def event_fragment_def is_end_def Let_def)
  have "assemble (A(?cid \<mapsto> ?b @ [x])) (map (\<lambda>(i, b). event_fragment (h, i, Some b)) (enumerate (Suc off) (y # ys)))
      = assemble_step (A(?cid \<mapsto> ?b @ [x])) \<lparr>mf_header = h, mf_offset = Suc off, mf_data = y # ys\<rparr>"
    using Cons.prems by (intro Cons.IH) simp
  also have "\<dots> = assemble_step A \<lparr>mf_header = h, mf_offset = off, mf_data = x # y # ys\<rparr>"
    by (simp add: assemble_step_def is_end_def Let_def)
  finally show ?case
    using first by (simp split: prod.split)
qed

lemma assemble_events:
  assumes "fragment_fits f"
  shows "assemble A (map event_fragment (fragment_events f)) = assemble_step A f"
proof (cases "mf_data f")
  case Nil
  then have "event_fragment (mf_header f, mf_offset f, None) = f"
    by (simp add: event_fragment_def)
  then show ?thesis
    using Nil by (simp add: fragment_events_def split: prod.split)
next
  case (Cons x xs)
  have "assemble A (map event_fragment (fragment_events f))
      = assemble_step A \<lparr>mf_header = mf_header f, mf_offset = mf_offset f, mf_data = x # xs\<rparr>"
    using assms assemble_bytes [of "mf_offset f" x xs "mf_header f" A] Cons
    by (simp add: fragment_events_def fragment_fits_def comp_def case_prod_beta')
  moreover have "\<lparr>mf_header = mf_header f, mf_offset = mf_offset f, mf_data = x # xs\<rparr> = f"
    using Cons by (cases f) simp
  ultimately show ?thesis
    by simp
qed

lemma assemble_all_events:
  "list_all fragment_fits fs \<Longrightarrow>
   assemble A (map event_fragment (concat (map fragment_events fs))) = assemble A fs"
  by (induction fs arbitrary: A) (auto simp: assemble_append assemble_events split: prod.split)

lemma parse_all_fits: "parser_inv p \<Longrightarrow> parse_all p input = (q, fs, e) \<Longrightarrow> list_all fragment_fits fs"
proof (induction p input arbitrary: fs rule: parse_all.induct)
  case (1 p input)
  obtain p' r where out: "consume p input = (p', r)"
    by (cases "consume p input")
  show ?case
  proof (cases "\<exists>step f. r = Inr step \<and> ps_fragment step = Some f")
    case True
    then obtain step f where r: "r = Inr step" "ps_fragment step = Some f"
      by blast
    obtain q' gs e' where rest: "parse_all p' (drop (ps_consumed step) input) = (q', gs, e')"
      by (metis prod_cases3)
    have "list_all fragment_fits gs"
      using "1.IH" [OF out [symmetric] r] consume_inv(1) [OF "1.prems"(1) out] rest
        parse_all_Some [of p input p' step f] out r "1.prems"(2) by auto
    moreover have "fragment_fits f"
      using consume_fragment_view(3) [OF "1.prems"(1) out [unfolded r(1)] r(2) refl] by (simp add: fragment_fits_def)
    ultimately show ?thesis
      using parse_all_Some [of p input p' step f] out r rest "1.prems"(2) by auto
  next
    case False
    then have "fs = []"
      using out "1.prems"(2) by (auto simp: parse_all.simps [of p input] split: sum.splits option.splits)
    then show ?thesis by simp
  qed
qed

lemma parse_all_new: "parse_all (parser_with_limits limits) [] = (parser_with_limits limits, [], None)"
proof -
  let ?p = "parser_with_limits limits"
  have "header_loop ?p 0 [] = (read_scratch ?p 0 [], Inr (NeedMore 0))"
    by (subst header_loop_part [of _ 1]) (simp_all add: parser_with_limits_def header_needed_def)
  moreover have "read_scratch ?p 0 [] = ?p"
    by (simp add: read_scratch_def parser_with_limits_def)
  ultimately have "consume ?p [] = (?p, Inr \<lparr>ps_consumed = 0, ps_fragment = None\<rparr>)"
    by (simp add: consume_def)
  then show ?thesis
    by (rule parse_all_None) simp
qed

section \<open>The contract\<close>

locale fragment_assembler =
  fixes next_message :: "'m \<Rightarrow> 's \<Rightarrow> bytes \<Rightarrow> 's \<times> bytes \<times> (decode_error + bytes raw_message option)"
    and parser_of :: "'s \<Rightarrow> chunk_parser"
    and pending_of :: "'s \<Rightarrow> bytes"
    and partial_of :: "'s \<Rightarrow> partial_messages"
    and inv :: "'s \<Rightarrow> bool"
  assumes inv_parser: "inv s \<Longrightarrow> parser_inv (parser_of s)"
    and no_panic: "inv s \<Longrightarrow> next_message mode s i = (s', i', r) \<Longrightarrow> r \<noteq> Inl DecodePanic"
    and refines: "inv s \<Longrightarrow> next_message mode s i = (s', i', Inr x) \<Longrightarrow> inv s' \<and>
      delivers (parser_of s) (pending_of s @ i) (partial_of s) (parser_of s') (pending_of s' @ i') (partial_of s') x"
begin

lemma run_assembles:
  "run next_message mode s i s' ms e \<Longrightarrow> inv s \<Longrightarrow> e \<noteq> Some DecodePanic \<and> (e = None \<longrightarrow> inv s' \<and> pending_of s' = []
   \<and> (\<exists>fs. parse_all (parser_of s) (pending_of s @ i) = (parser_of s', fs, None)
        \<and> assemble (partial_of s) fs = (partial_of s', ms)))"
proof (induction rule: run.induct)
  case (run_error s i s' i' e)
  then show ?case
    using no_panic by blast
next
  case (run_none s i s' i')
  then show ?case
    using refines [OF run_none.prems run_none.hyps] by (auto simp: delivers_def)
next
  case (run_some s i s' i' m s'' ms e)
  have step: "inv s'" "delivers (parser_of s) (pending_of s @ i) (partial_of s) (parser_of s') (pending_of s' @ i')
      (partial_of s') (Some m)"
    using refines [OF run_some.prems run_some.hyps(1)] by auto
  then obtain fs where fs: "assemble (partial_of s) fs = (partial_of s', [m])"
    "parse_all (parser_of s) (pending_of s @ i)
      = (case parse_all (parser_of s') (pending_of s' @ i') of (q, gs, e) \<Rightarrow> (q, fs @ gs, e))"
    by (auto simp: delivers_def)
  show ?case
  proof (intro conjI impI)
    show "e \<noteq> Some DecodePanic"
      using run_some.IH [OF step(1)] by simp
    assume "e = None"
    then obtain gs where "inv s''" "pending_of s'' = []" "parse_all (parser_of s') (pending_of s' @ i')
        = (parser_of s'', gs, None)" "assemble (partial_of s') gs = (partial_of s'', ms)"
      using run_some.IH [OF step(1)] by auto
    then show "inv s''" "pending_of s'' = []" "\<exists>fs. parse_all (parser_of s) (pending_of s @ i)
        = (parser_of s'', fs, None) \<and> assemble (partial_of s) fs = (partial_of s'', m # ms)"
      using fs by (auto simp: assemble_append intro!: exI [of _ "fs @ gs"])
  qed
qed

text \<open>Taking messages until there is none ends: every message uses up fragments of the input.\<close>

lemma run_total: "inv s \<Longrightarrow> \<exists>s' ms e. run next_message mode s i s' ms e"
proof (induction "length (fst (snd (parse_all (parser_of s) (pending_of s @ i))))" arbitrary: s i rule: less_induct)
  case less
  obtain s' i' r where out: "next_message mode s i = (s', i', r)"
    by (metis prod_cases3)
  consider (err) e where "r = Inl e" | (none) "r = Inr None" | (msg) m where "r = Inr (Some m)"
    by (metis option.exhaust sum.exhaust)
  then show ?case
  proof cases
    case msg
    have "inv s'" "delivers (parser_of s) (pending_of s @ i) (partial_of s) (parser_of s') (pending_of s' @ i')
        (partial_of s') (Some m)"
      using refines [OF less.prems out [unfolded msg]] by auto
    then obtain fs where fs: "assemble (partial_of s) fs = (partial_of s', [m])"
      "parse_all (parser_of s) (pending_of s @ i)
        = (case parse_all (parser_of s') (pending_of s' @ i') of (q, gs, e) \<Rightarrow> (q, fs @ gs, e))"
      by (auto simp: delivers_def)
    then have "length (fst (snd (parse_all (parser_of s') (pending_of s' @ i'))))
        < length (fst (snd (parse_all (parser_of s) (pending_of s @ i))))"
      by (cases fs) (auto split: prod.split)
    from less.hyps [OF this \<open>inv s'\<close>] show ?thesis
      using out msg by (blast intro: run_some)
  qed (use out in \<open>auto intro: run_error run_none\<close>)
qed

lemma run_events:
  assumes "inv s" and "run next_message mode s i s' ms None"
  shows "inv s' \<and> pending_of s' = [] \<and> parse_all (parser_of s') [] = (parser_of s', [], None)
    \<and> (\<exists>es. parse_events (parser_of s) (pending_of s @ i) = (parser_of s', es, None)
        \<and> assemble (partial_of s) (map event_fragment es) = (partial_of s', ms))"
proof -
  from run_assembles [OF assms(2,1)] obtain fs where fs: "inv s'" "pending_of s' = []"
    "parse_all (parser_of s) (pending_of s @ i) = (parser_of s', fs, None)"
    "assemble (partial_of s) fs = (partial_of s', ms)"
    by auto
  have "parse_all (parser_of s') [] = (parser_of s', [], None)"
    by (rule parse_all_settled [OF inv_parser [OF assms(1)] fs(3)])
  moreover have "parse_events (parser_of s) (pending_of s @ i)
      = (parser_of s', concat (map fragment_events fs), None)"
    using fs(3) by (simp add: parse_events_def)
  moreover have "assemble (partial_of s) (map event_fragment (concat (map fragment_events fs))) = (partial_of s', ms)"
    using assemble_all_events [OF parse_all_fits [OF inv_parser [OF assms(1)] fs(3)]] fs(4) by simp
  ultimately show ?thesis
    using fs(1,2) by blast
qed

lemma run_reads_events:
  "run_reads next_message s reads s' ms \<Longrightarrow> inv s \<Longrightarrow> pending_of s = [] \<Longrightarrow>
   parse_all (parser_of s) [] = (parser_of s, [], None) \<Longrightarrow>
   inv s' \<and> (\<exists>es. parse_events (parser_of s) (concat (map snd reads)) = (parser_of s', es, None)
     \<and> assemble (partial_of s) (map event_fragment es) = (partial_of s', ms))"
proof (induction rule: run_reads.induct)
  case (reads_done s)
  then show ?case by (simp add: parse_events_def)
next
  case (reads_more mode s r s' ms rs s'' ms')
  from run_events [OF reads_more.prems(1) reads_more.hyps(1)] reads_more.prems(2)
  obtain es where one: "inv s'" "pending_of s' = []" "parse_all (parser_of s') [] = (parser_of s', [], None)"
    "parse_events (parser_of s) r = (parser_of s', es, None)"
    "assemble (partial_of s) (map event_fragment es) = (partial_of s', ms)"
    by auto
  from reads_more.IH [OF one(1-3)] obtain es' where two: "inv s''"
    "parse_events (parser_of s') (concat (map snd rs)) = (parser_of s'', es', None)"
    "assemble (partial_of s') (map event_fragment es') = (partial_of s'', ms')"
    by auto
  have "parse_events (parser_of s) (concat (map snd ((mode, r) # rs))) = (parser_of s'', es @ es', None)"
    using parse_events_append [OF inv_parser [OF reads_more.prems(1)], of r] one(4) two(2) by simp
  then show ?case
    using one(5) two by (auto simp: assemble_append)
qed

lemma run_reads_stream:
  assumes "run_reads next_message s reads s' ms" and "inv s" and "pending_of s = []"
    and "parser_of s = parser_with_limits limits" and "partial_of s = Map.empty"
  shows "ms = stream_messages limits (concat (map snd reads))"
proof -
  let ?p = "parser_with_limits limits" and ?all = "concat (map snd reads)"
  have "parse_all ?p [] = (?p, [], None)"
    by (rule parse_all_new)
  with run_reads_events [OF assms(1-3)] assms(4,5) obtain es where
    es: "parse_events ?p ?all = (parser_of s', es, None)"
    "assemble Map.empty (map event_fragment es) = (partial_of s', ms)"
    by auto
  obtain q fs e where fs: "parse_all ?p ?all = (q, fs, e)"
    by (metis prod_cases3)
  then have "es = concat (map fragment_events fs)"
    using es(1) by (simp add: parse_events_def)
  then show ?thesis
    using es(2) assemble_all_events [OF parse_all_fits [OF parser_inv_new fs]] fs by (simp add: stream_messages_def)
qed

end

section \<open>Both decoders satisfy it\<close>

text \<open>
  \<open>MessageDecoder\<close> with the allocator behaviour fixed by \<open>env\<close>; the mode of a read says whether it is
  owned (\<open>decode\<close>) or borrowed (\<open>decode_slice\<close>).
\<close>

definition md_next :: "decoder_env \<Rightarrow> bool \<Rightarrow> message_decoder \<Rightarrow> bytes \<Rightarrow>
    message_decoder \<times> bytes \<times> (decode_error + bytes raw_message option)" where
  "md_next env owned d input =
     (case (if owned then decode env d input else decode_slice env d input) of
        (d', rest, r) \<Rightarrow> (d', rest, map_sum id (map_option (rm_map payload_to_bytes)) r))"

definition cd_next :: "decoder_env \<Rightarrow> unit \<Rightarrow> contiguous_decoder \<Rightarrow> bytes \<Rightarrow>
    contiguous_decoder \<times> bytes \<times> (decode_error + bytes raw_message option)" where
  "cd_next env u d input = (case get_next_message env d input of (d', r) \<Rightarrow> (d', [], r))"

lemma rm_map_bytes: "rm_map payload_to_bytes = rm_map payload_contents"
  by (simp add: rm_map_def fun_eq_iff)

lemma md_next_input:
  assumes "md_next env owned d input = (d', rest, r)"
  obtains i' r' where "decode_input env d (if owned then Owned input else Borrowed input) = (d', i', r')"
    "rest = as_slice i'" "r = map_sum id (map_option (rm_map payload_contents)) r'"
  using assms by (auto simp: md_next_def decode_def decode_slice_def rm_map_bytes split: prod.splits if_splits)

text \<open>The law about the allocator is a premise of the contract, carried in the invariant.\<close>

interpretation md: fragment_assembler "md_next env" md_parser "\<lambda>d. []" md_partial "\<lambda>d. env_ok env \<and> md_inv d"
  for env
proof
  fix s assume "env_ok env \<and> md_inv s"
  then show "parser_inv (md_parser s)"
    by (simp add: md_inv_def)
next
  fix s mode i s' i' r
  assume inv: "env_ok env \<and> md_inv s" and out: "md_next env mode s i = (s', i', r)"
  from out obtain j r' where "decode_input env s (if mode then Owned i else Borrowed i) = (s', j, r')"
    "r = map_sum id (map_option (rm_map payload_contents)) r'"
    by (rule md_next_input)
  then show "r \<noteq> Inl DecodePanic"
    using decode_input_refines [of env s _ s' j r'] inv by (cases r') auto
next
  fix s mode i s' i' x
  assume inv: "env_ok env \<and> md_inv s" and out: "md_next env mode s i = (s', i', Inr x)"
  from out obtain j r' where dec: "decode_input env s (if mode then Owned i else Borrowed i) = (s', j, r')"
    "i' = as_slice j" "Inr x = map_sum id (map_option (rm_map payload_contents)) r'"
    by (rule md_next_input)
  then obtain y where "r' = Inr y" "x = map_option (rm_map payload_contents) y"
    by (cases r') auto
  then show "(env_ok env \<and> md_inv s') \<and> delivers (md_parser s) ([] @ i) (md_partial s) (md_parser s') ([] @ i')
      (md_partial s') x"
    using decode_input_refines [of env s "if mode then Owned i else Borrowed i" s' j r'] inv dec
    by (cases mode) auto
qed

interpretation cd: fragment_assembler "cd_next env" cd_parser cd_pending cd_partial "\<lambda>d. env_ok env \<and> cd_inv d"
  for env
proof
  fix s assume "env_ok env \<and> cd_inv s"
  then show "parser_inv (cd_parser s)"
    by (simp add: cd_inv_def cd_core_def)
next
  fix s mode i s' i' r
  assume "env_ok env \<and> cd_inv s" and "cd_next env mode s i = (s', i', r)"
  then show "r \<noteq> Inl DecodePanic"
    using get_next_message_refines(1) by (auto simp: cd_next_def split: prod.splits)
next
  fix s mode i s' i' x
  assume "env_ok env \<and> cd_inv s" and "cd_next env mode s i = (s', i', Inr x)"
  then show "(env_ok env \<and> cd_inv s') \<and> delivers (cd_parser s) (cd_pending s @ i) (cd_partial s) (cd_parser s')
      (cd_pending s' @ i') (cd_partial s') x"
    using get_next_message_refines(2) by (auto simp: cd_next_def split: prod.splits)
qed

lemma decoder_new_inv:
  "limits_ok limits \<Longrightarrow> md_inv (decoder_with_limits limits)"
  by (simp add: md_inv_def decoder_with_limits_def parser_inv_new md_books_def md_link_def hm_len_def)
    (simp add: parser_with_limits_def)

lemma contiguous_new_inv: "limits_ok limits \<Longrightarrow> cd_inv (contiguous_with_limits limits)"
  by (simp add: cd_inv_def cd_core_def contiguous_with_limits_def parser_inv_new cd_books_def cd_link_def)
    (simp add: parser_with_limits_def)

text \<open>
  C2 (refinement). However a stream is cut into reads and whichever of them are owned buffers or
  borrowed slices, a message decoder that reports no error delivers exactly the messages obtained by
  parsing the whole stream in one piece and concatenating the fragments of each chunk stream: same
  order, same timestamp, type and stream id, same payload bytes.
\<close>

theorem decoder_reads_messages:
  assumes "\<forall>n. n \<le> de_capacity env n" and "maximum_buffered_bytes limits < usize_max"
    and "run_reads (md_next env) (decoder_with_limits limits) reads d ms"
  shows "ms = stream_messages limits (concat (map snd reads))"
proof (rule md.run_reads_stream [OF assms(3)])
  show "env_ok env \<and> md_inv (decoder_with_limits limits)"
    using assms(1,2) by (simp add: env_ok_def decoder_new_inv limits_ok_def)
qed (simp_all add: decoder_with_limits_def md_partial_def fun_eq_iff)

text \<open>
  C9 (equivalence). The copying decoder delivers the same messages: whenever both decoders read the same
  stream without reporting an error, each in its own cuts, their messages agree. Their limits differ (the
  fragment limit is \<open>MessageDecoder\<close>'s only, and \<open>ContiguousDecoder\<close> counts unread input as buffered), so
  one may report an error where the other does not.
\<close>

theorem decoders_agree:
  assumes "\<forall>n. n \<le> de_capacity env n" and "maximum_buffered_bytes limits < usize_max"
    and "run_reads (md_next env) (decoder_with_limits limits) reads d ms"
    and "run_reads (cd_next env) (contiguous_with_limits limits) reads' c ms'"
    and "concat (map snd reads) = concat (map snd reads')"
  shows "ms = ms'"
proof -
  have "ms' = stream_messages limits (concat (map snd reads'))"
  proof (rule cd.run_reads_stream [OF assms(4)])
    show "env_ok env \<and> cd_inv (contiguous_with_limits limits)"
      using assms(1,2) by (simp add: env_ok_def contiguous_new_inv limits_ok_def)
  qed (simp_all add: contiguous_with_limits_def cd_partial_def fun_eq_iff)
  moreover have "ms = stream_messages limits (concat (map snd reads))"
  proof (rule md.run_reads_stream [OF assms(3)])
    show "env_ok env \<and> md_inv (decoder_with_limits limits)"
      using assms(1,2) by (simp add: env_ok_def decoder_new_inv limits_ok_def)
  qed (simp_all add: decoder_with_limits_def md_partial_def fun_eq_iff)
  ultimately show ?thesis
    using assms(5) by simp
qed

section \<open>Reachable decoders\<close>

text \<open>
  The calls a session makes, in any order, until a call reports an error (a session stops there).
\<close>

inductive decoder_reachable :: "decoder_env \<Rightarrow> decoder_limits \<Rightarrow> message_decoder \<Rightarrow> bool" for env limits where
  dr_new: "decoder_reachable env limits (decoder_with_limits limits)"
| dr_pool: "decoder_reachable env limits d \<Longrightarrow> decoder_reachable env limits (set_payload_pool d pool)"
| dr_decode: "decoder_reachable env limits d \<Longrightarrow> decode env d input = (d', rest, Inr x) \<Longrightarrow>
    decoder_reachable env limits d'"
| dr_slice: "decoder_reachable env limits d \<Longrightarrow> decode_slice env d input = (d', rest, Inr x) \<Longrightarrow>
    decoder_reachable env limits d'"
| dr_chunk_size: "decoder_reachable env limits d \<Longrightarrow> decoder_set_chunk_size d n = Inr d' \<Longrightarrow>
    decoder_reachable env limits d'"
| dr_abort: "decoder_reachable env limits d \<Longrightarrow> decoder_abort_chunk_stream d cid = Some d' \<Longrightarrow>
    decoder_reachable env limits d'"

lemma decoder_abort_inv:
  assumes "md_inv d"
  shows "\<exists>d'. decoder_abort_chunk_stream d cid = Some d' \<and> md_inv d'"
proof -
  define d1 where "d1 = d\<lparr>md_parser := parser_abort_chunk_stream (md_parser d) cid\<rparr>"
  have p: "parser_inv (md_parser d)" and lim: "limits_ok (md_limits d)" and limp: "md_limits d = cp_limits (md_parser d)"
    and books: "md_books (md_buffered d1) d1" and link: "md_link (unfinished (md_parser d)) d1"
    using assms by (auto simp: md_inv_def d1_def md_books_def md_link_def)
  have q: "parser_inv (md_parser d1)" "cp_limits (md_parser d1) = md_limits d1"
    using abort_inv [OF p] abort_limits limp by (auto simp: d1_def)
  show ?thesis
  proof (cases "hm_get (md_partials d1) cid")
    case None
    then have "unfinished (md_parser d) cid = None"
      using md_link_present [OF link] by simp
    then have "unfinished (md_parser d1) = unfinished (md_parser d)"
      by (auto simp: d1_def unfinished_abort)
    then have "md_inv d1"
      using q books link lim by (simp add: md_inv_def d1_def)
    then show ?thesis
      using None by (simp add: decoder_abort_chunk_stream_def d1_def)
  next
    case (Some body)
    obtain d' where d': "release_partial d1 cid body = Some d'" "md_partials d' = hm_remove cid (md_partials d1)"
      "md_limits d' = md_limits d1" "md_parser d' = md_parser d1" "md_books (md_buffered d') d'"
      using release_partial_ok [OF books Some] by blast
    have "md_link (unfinished (md_parser d')) d'"
      using md_link_remove [OF link d'(2,3)] d'(4) by (simp add: d1_def unfinished_abort)
    then have "md_inv d'"
      using q d' lim by (simp add: md_inv_def d1_def)
    then show ?thesis
      using Some d' by (simp add: decoder_abort_chunk_stream_def d1_def)
  qed
qed

lemma decoder_reachable_inv:
  assumes "decoder_reachable env limits d" and "env_ok env" and "limits_ok limits"
  shows "md_inv d"
  using assms
proof (induction rule: decoder_reachable.induct)
  case dr_new
  then show ?case by (simp add: decoder_new_inv)
next
  case (dr_pool d pool)
  then show ?case by (auto simp: set_payload_pool_def md_inv_def md_books_def md_link_def)
next
  case (dr_decode d input d' rest x)
  then obtain i' where "decode_input env d (Owned input) = (d', i', Inr x)"
    by (auto simp: decode_def split: prod.splits)
  then show ?case
    using decode_input_refines [of env d "Owned input" d' i' "Inr x"] dr_decode by blast
next
  case (dr_slice d input d' rest x)
  then obtain i' where "decode_input env d (Borrowed input) = (d', i', Inr x)"
    by (auto simp: decode_slice_def split: prod.splits)
  then show ?case
    using decode_input_refines [of env d "Borrowed input" d' i' "Inr x"] dr_slice by blast
next
  case (dr_chunk_size d n d')
  then show ?case
    using set_chunk_size_inv unfinished_chunk_size
    by (fastforce simp: decoder_set_chunk_size_def md_inv_def md_books_def md_link_def split: sum.splits)
next
  case (dr_abort d cid d')
  then show ?case
    using decoder_abort_inv [of d cid] by auto
qed

text \<open>
  C3 (safety). In every decoder reached by decoding arbitrary bytes, aborting streams, changing the
  chunk size or the payload pool, as long as no call failed: another call does not panic, aborting
  does not underflow the accounting, the buffered bytes are exactly the bytes of the unfinished
  messages and stay within \<open>maximum_buffered_bytes\<close>, the reserved bytes are exactly their reservations,
  at most \<open>maximum_partial_messages\<close> messages are unfinished, and a segmented one holds at most
  \<open>maximum_fragments_per_message\<close> descriptors.
\<close>

theorem decoder_accounting:
  assumes "decoder_reachable env limits d" and "\<forall>n. n \<le> de_capacity env n"
    and "maximum_buffered_bytes limits < usize_max"
  shows "snd (snd (decode env d input)) \<noteq> Inl DecodePanic \<and> snd (snd (decode_slice env d input)) \<noteq> Inl DecodePanic
    \<and> decoder_abort_chunk_stream d cid \<noteq> None
    \<and> md_buffered d = hm_sum asm_len (md_partials d) \<and> md_buffered d \<le> maximum_buffered_bytes (md_limits d)
    \<and> md_reserved d = hm_sum asm_reserved (md_partials d)
    \<and> hm_len (md_partials d) \<le> maximum_partial_messages (md_limits d)
    \<and> (\<forall>j p. hm_get (md_partials d) j = Some (Segmented p) \<longrightarrow>
         payload_segment_count p \<le> maximum_fragments_per_message (md_limits d))"
proof -
  have env: "env_ok env"
    unfolding env_ok_def by (rule assms(2))
  have inv: "md_inv d"
    by (rule decoder_reachable_inv [OF assms(1) env]) (simp add: limits_ok_def assms(3))
  have "snd (snd (decode env d input)) \<noteq> Inl DecodePanic"
    using decode_input_refines [OF env inv, of "Owned input"] by (auto simp: decode_def split: prod.splits)
  moreover have "snd (snd (decode_slice env d input)) \<noteq> Inl DecodePanic"
    using decode_input_refines [OF env inv, of "Borrowed input"] by (auto simp: decode_slice_def split: prod.splits)
  moreover have "payload_segment_count p \<le> maximum_fragments_per_message (md_limits d)"
    if "hm_get (md_partials d) j = Some (Segmented p)" for j p
    using md_linkD [OF _ that, of "unfinished (md_parser d)"] inv by (auto simp: md_inv_def)
  moreover have "decoder_abort_chunk_stream d cid \<noteq> None"
    using decoder_abort_inv [OF inv, of cid] by auto
  moreover have "md_buffered d = hm_sum asm_len (md_partials d)"
    "md_buffered d \<le> maximum_buffered_bytes (md_limits d)" "md_reserved d = hm_sum asm_reserved (md_partials d)"
    "hm_len (md_partials d) \<le> maximum_partial_messages (md_limits d)"
    using inv by (auto simp: md_inv_def md_books_def)
  ultimately show ?thesis
    by blast
qed

text \<open>
  C10 (termination). The documented loop \<open>while let Some(message) = decoder.decode(&mut input)?\<close> ends
  on every input: a reachable decoder delivers finitely many messages and then asks for more input or
  reports an error.
\<close>

theorem decode_loop_ends:
  assumes "decoder_reachable env limits d" and "\<forall>n. n \<le> de_capacity env n"
    and "maximum_buffered_bytes limits < usize_max"
  shows "\<exists>d' ms e. run (md_next env) owned d input d' ms e \<and> e \<noteq> Some DecodePanic"
proof -
  have env: "env_ok env"
    unfolding env_ok_def by (rule assms(2))
  have inv: "env_ok env \<and> md_inv d"
    using env decoder_reachable_inv [OF assms(1) env] assms(3) by (simp add: limits_ok_def)
  from md.run_total [OF this] obtain d' ms e where "run (md_next env) owned d input d' ms e"
    by blast
  with md.run_assembles [OF this inv] show ?thesis
    by blast
qed

section \<open>Executing the loop\<close>

text \<open>
  The loop with a bound on the number of calls, to run a decoder on a concrete stream: a result within
  the bound is a run.
\<close>

fun drive ::
    "nat \<Rightarrow> ('m \<Rightarrow> 's \<Rightarrow> bytes \<Rightarrow> 's \<times> bytes \<times> (decode_error + bytes raw_message option)) \<Rightarrow> 'm \<Rightarrow>
     's \<Rightarrow> bytes \<Rightarrow> ('s \<times> bytes raw_message list) option" where
  "drive 0 next_message mode s i = None"
| "drive (Suc fuel) next_message mode s i =
     (case next_message mode s i of
        (s', i', Inl e) \<Rightarrow> None
      | (s', i', Inr None) \<Rightarrow> Some (s', [])
      | (s', i', Inr (Some m)) \<Rightarrow> map_option (map_prod id (Cons m)) (drive fuel next_message mode s' i'))"

fun drive_reads ::
    "nat \<Rightarrow> ('m \<Rightarrow> 's \<Rightarrow> bytes \<Rightarrow> 's \<times> bytes \<times> (decode_error + bytes raw_message option)) \<Rightarrow>
     's \<Rightarrow> ('m \<times> bytes) list \<Rightarrow> ('s \<times> bytes raw_message list) option" where
  "drive_reads fuel next_message s [] = Some (s, [])"
| "drive_reads fuel next_message s ((mode, r) # rs) =
     (case drive fuel next_message mode s r of
        None \<Rightarrow> None
      | Some (s', ms) \<Rightarrow> map_option (map_prod id (append ms)) (drive_reads fuel next_message s' rs))"

lemma drive_run: "drive fuel next_message mode s i = Some (s', ms) \<Longrightarrow> run next_message mode s i s' ms None"
  by (induction fuel next_message mode s i arbitrary: ms rule: drive.induct)
    (auto split: prod.splits sum.splits option.splits intro: run_none run_some)

lemma drive_reads_run: "drive_reads fuel next_message s reads = Some (s', ms) \<Longrightarrow> run_reads next_message s reads s' ms"
  by (induction fuel next_message s reads arbitrary: ms rule: drive_reads.induct)
    (auto split: option.splits intro!: reads_done reads_more drive_run)

lemma drive_reads_ex:
  "map_option snd (drive_reads fuel next_message s reads) = Some ms \<Longrightarrow> \<exists>s'. run_reads next_message s reads s' ms"
  using drive_reads_run [of fuel next_message s reads] by (cases "drive_reads fuel next_message s reads") auto

text \<open>A one-byte message on chunk stream 2, cut inside its header.\<close>

definition exact_env :: decoder_env where
  "exact_env = \<lparr>de_capacity = (\<lambda>n. n), de_grow = (\<lambda>capacity n. n), de_lock = True\<rparr>"

definition sample_message :: "bytes raw_message" where
  "sample_message = \<lparr>rm_timestamp = ts_new 7, rm_type_id = 5, rm_message_stream_id = 1, rm_data = [42]\<rparr>"

lemma sample_runs:
  "\<exists>d. run_reads (md_next exact_env) (decoder_with_limits decoder_limits_default)
     [(True, [2, 0, 0, 7, 0]), (False, [0, 1, 5, 1, 0, 0, 0, 42])] d [sample_message]"
  "\<exists>d. run_reads (cd_next exact_env) (contiguous_with_limits decoder_limits_default)
     [((), [2, 0, 0, 7, 0, 0, 1, 5, 1, 0]), ((), [0, 0, 42])] d [sample_message]"
proof -
  have "map_option snd (drive_reads 3 (md_next exact_env) (decoder_with_limits decoder_limits_default)
     [(True, [2, 0, 0, 7, 0]), (False, [0, 1, 5, 1, 0, 0, 0, 42])]) = Some [sample_message]"
    by code_simp
  then show "\<exists>d. run_reads (md_next exact_env) (decoder_with_limits decoder_limits_default)
     [(True, [2, 0, 0, 7, 0]), (False, [0, 1, 5, 1, 0, 0, 0, 42])] d [sample_message]"
    by (rule drive_reads_ex)
  have "map_option snd (drive_reads 3 (cd_next exact_env) (contiguous_with_limits decoder_limits_default)
     [((), [2, 0, 0, 7, 0, 0, 1, 5, 1, 0]), ((), [0, 0, 42])]) = Some [sample_message]"
    by code_simp
  then show "\<exists>d. run_reads (cd_next exact_env) (contiguous_with_limits decoder_limits_default)
     [((), [2, 0, 0, 7, 0, 0, 1, 5, 1, 0]), ((), [0, 0, 42])] d [sample_message]"
    by (rule drive_reads_ex)
qed

lemma exact_env_ok: "\<forall>n. n \<le> de_capacity exact_env n"
  "maximum_buffered_bytes decoder_limits_default < usize_max"
  by (simp_all add: exact_env_def decoder_limits_default_def usize_max_def)

theorem decoder_reads_messages_witness:
  "\<exists>d. run_reads (md_next exact_env) (decoder_with_limits decoder_limits_default)
     [(True, [2, 0, 0, 7, 0]), (False, [0, 1, 5, 1, 0, 0, 0, 42])] d [sample_message]
   \<and> [sample_message] = stream_messages decoder_limits_default [2, 0, 0, 7, 0, 0, 1, 5, 1, 0, 0, 0, 42]"
proof -
  obtain d where d: "run_reads (md_next exact_env) (decoder_with_limits decoder_limits_default)
     [(True, [2, 0, 0, 7, 0]), (False, [0, 1, 5, 1, 0, 0, 0, 42])] d [sample_message]"
    using sample_runs(1) by blast
  then show ?thesis
    using decoder_reads_messages [OF exact_env_ok d] by auto
qed

theorem decoders_agree_witness:
  "\<exists>d c ms. run_reads (md_next exact_env) (decoder_with_limits decoder_limits_default)
     [(True, [2, 0, 0, 7, 0]), (False, [0, 1, 5, 1, 0, 0, 0, 42])] d ms
   \<and> run_reads (cd_next exact_env) (contiguous_with_limits decoder_limits_default)
     [((), [2, 0, 0, 7, 0, 0, 1, 5, 1, 0]), ((), [0, 0, 42])] c ms"
proof -
  obtain d where d: "run_reads (md_next exact_env) (decoder_with_limits decoder_limits_default)
     [(True, [2, 0, 0, 7, 0]), (False, [0, 1, 5, 1, 0, 0, 0, 42])] d [sample_message]"
    using sample_runs(1) by blast
  obtain c ms where c: "run_reads (cd_next exact_env) (contiguous_with_limits decoder_limits_default)
     [((), [2, 0, 0, 7, 0, 0, 1, 5, 1, 0]), ((), [0, 0, 42])] c ms"
    using sample_runs(2) by blast
  have "[sample_message] = ms"
    by (rule decoders_agree [OF exact_env_ok d c]) simp
  then show ?thesis
    using c d by blast
qed

text \<open>A decoder that has read one of the two bytes of a message.\<close>

lemma half_message:
  "snd (decode exact_env (decoder_with_limits decoder_limits_default) [2, 0, 0, 7, 0, 0, 2, 5, 1, 0, 0, 0, 42]) = ([], Inr None)"
  "md_buffered (fst (decode exact_env (decoder_with_limits decoder_limits_default) [2, 0, 0, 7, 0, 0, 2, 5, 1, 0, 0, 0, 42])) = 1"
  by code_simp+

theorem decoder_accounting_witness:
  "\<exists>d. decode exact_env (decoder_with_limits decoder_limits_default) [2, 0, 0, 7, 0, 0, 2, 5, 1, 0, 0, 0, 42] = (d, [], Inr None)
    \<and> md_buffered d = 1 \<and> hm_sum asm_len (md_partials d) = 1 \<and> snd (snd (decode exact_env d [43])) \<noteq> Inl DecodePanic
    \<and> decoder_abort_chunk_stream d 2 \<noteq> None"
proof -
  obtain d where d: "decode exact_env (decoder_with_limits decoder_limits_default) [2, 0, 0, 7, 0, 0, 2, 5, 1, 0, 0, 0, 42]
      = (d, [], Inr None)" "md_buffered d = 1"
    using half_message by (metis prod.collapse fst_conv)
  then show ?thesis
    using decoder_accounting [OF dr_decode [OF dr_new d(1)] exact_env_ok, of "[43]" 2] by simp
qed

theorem decode_loop_ends_witness:
  "\<exists>d' ms e. run (md_next exact_env) True (decoder_with_limits decoder_limits_default) [2, 0, 0] d' ms e
     \<and> e \<noteq> Some DecodePanic"
  by (rule decode_loop_ends [OF dr_new [of exact_env] exact_env_ok])

end
