(* ===== verification/Decoder_Complete.thy ===== *)
theory Decoder_Complete
  imports Decoders
begin

text \<open>
  When a decoder does not fail. \<open>Decoders\<close> shows what is delivered by a decoder that reports no error;
  here the other half: a stream the parser accepts, whose messages come one after the other and fit
  the limits, is decoded without an error however it is cut. \<open>complete_assembler\<close> extends the contract
  of \<open>fragment_assembler\<close> by the law that such a stream makes no call fail; \<open>MessageDecoder\<close> satisfies
  it.
\<close>

section \<open>One message at a time\<close>

text \<open>
  The fragments of a stream whose messages are not interleaved: a fragment finds no unfinished message
  but its own, and its header fits.
\<close>

fun alone :: "(message_header \<Rightarrow> bool) \<Rightarrow> partial_messages \<Rightarrow> message_fragment list \<Rightarrow> bool" where
  "alone fits A [] \<longleftrightarrow> True"
| "alone fits A (f # fs) \<longleftrightarrow> fits (mf_header f)
     \<and> (\<forall>cid. cid \<noteq> mh_chunk_stream_id (mf_header f) \<longrightarrow> A cid = None)
     \<and> alone fits (fst (assemble_step A f)) fs"

lemma alone_append: "alone fits A (fs @ gs) \<longleftrightarrow> alone fits A fs \<and> alone fits (fst (assemble A fs)) gs"
  by (induction fs arbitrary: A) (auto split: prod.split)

lemma alone_same:
  "\<forall>f \<in> set fs. fits (mf_header f) \<and> mh_chunk_stream_id (mf_header f) = c \<Longrightarrow> \<forall>cid. cid \<noteq> c \<longrightarrow> A cid = None \<Longrightarrow>
   alone fits A fs"
  by (induction fs arbitrary: A) (auto simp: assemble_step_def Let_def)

lemma event_headers: "g \<in> set (map event_fragment (fragment_events f)) \<Longrightarrow> mf_header g = mf_header f"
  by (auto simp: event_fragment_def fragment_events_def split: if_splits)

lemma fragment_events_Cons: "\<exists>e es. fragment_events f = e # es"
  by (cases "mf_data f") (auto simp: fragment_events_def)

lemma alone_fragment_events:
  assumes "fragment_fits f"
  shows "alone fits A (map event_fragment (fragment_events f)) \<longleftrightarrow> alone fits A [f]"
proof
  assume all: "alone fits A (map event_fragment (fragment_events f))"
  obtain e es where e: "fragment_events f = e # es"
    using fragment_events_Cons by blast
  have "mf_header (event_fragment e) = mf_header f"
    by (rule event_headers) (simp add: e)
  then show "alone fits A [f]"
    using all by (simp add: e)
next
  assume one: "alone fits A [f]"
  show "alone fits A (map event_fragment (fragment_events f))"
  proof (rule alone_same [where c = "mh_chunk_stream_id (mf_header f)"])
    show "\<forall>g \<in> set (map event_fragment (fragment_events f)).
        fits (mf_header g) \<and> mh_chunk_stream_id (mf_header g) = mh_chunk_stream_id (mf_header f)"
      using one by (auto simp del: set_map dest!: event_headers)
  qed (use one in simp)
qed

lemma alone_events:
  "list_all fragment_fits fs \<Longrightarrow>
   alone fits A (map event_fragment (concat (map fragment_events fs))) \<longleftrightarrow> alone fits A fs"
proof (induction fs arbitrary: A)
  case (Cons f fs)
  then have f: "fragment_fits f" and fs: "list_all fragment_fits fs"
    by auto
  show ?case
    using Cons.IH [OF fs] alone_fragment_events [OF f, of fits A] assemble_events [OF f, of A]
    by (auto simp: alone_append)
qed simp

lemma parse_all_limits: "parser_inv p \<Longrightarrow> parse_all p input = (q, fs, e) \<Longrightarrow> cp_limits q = cp_limits p"
proof (induction p input arbitrary: q fs rule: parse_all.induct)
  case (1 p input)
  obtain p' r where out: "consume p input = (p', r)"
    by (cases "consume p input")
  note lim = consume_limits [OF "1.prems"(1) out]
  show ?case
  proof (cases "\<exists>step f. r = Inr step \<and> ps_fragment step = Some f")
    case True
    then obtain step f where r: "r = Inr step" "ps_fragment step = Some f"
      by blast
    obtain q' gs e' where rest: "parse_all p' (drop (ps_consumed step) input) = (q', gs, e')"
      by (metis prod_cases3)
    have "q' = q" "e' = e"
      using parse_all_Some [of p input p' step f] out r rest "1.prems"(2) by auto
    then show ?thesis
      using "1.IH" [OF out [symmetric] r] consume_inv(1) [OF "1.prems"(1) out] rest lim by auto
  next
    case False
    then have "q = p'"
      using out "1.prems"(2) by (auto simp: parse_all.simps [of p input] split: sum.splits option.splits)
    then show ?thesis
      using lim by simp
  qed
qed

section \<open>The contract\<close>

locale complete_assembler = fragment_assembler +
  fixes room :: "decoder_limits \<Rightarrow> message_header \<Rightarrow> bool"
  assumes progress: "inv s \<Longrightarrow> parse_all (parser_of s) (pending_of s @ i) = (q, fs, None) \<Longrightarrow>
    alone (room (cp_limits (parser_of s))) (partial_of s) fs \<Longrightarrow> next_message mode s i \<noteq> (s', i', Inl e)"
begin

lemma run_no_error:
  "run next_message mode s i s' ms e \<Longrightarrow> inv s \<Longrightarrow> parse_all (parser_of s) (pending_of s @ i) = (q, fs, None) \<Longrightarrow>
   alone (room (cp_limits (parser_of s))) (partial_of s) fs \<Longrightarrow> e = None"
proof (induction arbitrary: fs rule: run.induct)
  case (run_error s i s' i' e)
  then show ?case
    using progress by blast
next
  case (run_some s i s' i' m s'' ms e)
  have step: "inv s'" "delivers (parser_of s) (pending_of s @ i) (partial_of s) (parser_of s') (pending_of s' @ i')
      (partial_of s') (Some m)"
    using refines [OF run_some.prems(1) run_some.hyps(1)] by auto
  then obtain gs where gs: "assemble (partial_of s) gs = (partial_of s', [m])"
    "parse_all (parser_of s) (pending_of s @ i)
      = (case parse_all (parser_of s') (pending_of s' @ i') of (q, hs, e) \<Rightarrow> (q, gs @ hs, e))"
    by (auto simp: delivers_def)
  obtain hs where hs: "parse_all (parser_of s') (pending_of s' @ i') = (q, hs, None)" "fs = gs @ hs"
    using gs(2) run_some.prems(2) by (auto split: prod.splits)
  have "cp_limits (parser_of s') = cp_limits (parser_of s)"
    using parse_all_limits [OF inv_parser [OF step(1)] hs(1)]
      parse_all_limits [OF inv_parser [OF run_some.prems(1)] run_some.prems(2)] by simp
  then have "alone (room (cp_limits (parser_of s'))) (partial_of s') hs"
    using run_some.prems(3) gs(1) hs(2) by (simp add: alone_append)
  then show ?case
    by (rule run_some.IH [OF step(1) hs(1)])
qed simp

lemma run_complete:
  assumes "inv s" and "parse_all (parser_of s) (pending_of s @ i) = (q, fs, None)"
    and "alone (room (cp_limits (parser_of s))) (partial_of s) fs"
  shows "\<exists>s' ms. run next_message mode s i s' ms None \<and> assemble (partial_of s) fs = (partial_of s', ms)
    \<and> parser_of s' = q \<and> inv s' \<and> pending_of s' = []"
proof -
  obtain s' ms e where run: "run next_message mode s i s' ms e"
    using run_total [OF assms(1)] by blast
  then have "e = None"
    by (rule run_no_error [OF _ assms])
  then show ?thesis
    using run run_assembles [OF run assms(1)] assms(2) by auto
qed

text \<open>The same over any sequence of reads: the whole stream is known by its payload bytes.\<close>

lemma run_reads_complete:
  "inv s \<Longrightarrow> pending_of s = [] \<Longrightarrow> parse_events (parser_of s) (concat (map snd reads)) = (q, es, None) \<Longrightarrow>
   alone (room (cp_limits (parser_of s))) (partial_of s) (map event_fragment es) \<Longrightarrow>
   \<exists>s' ms. run_reads next_message s reads s' ms"
proof (induction reads arbitrary: s es)
  case Nil
  show ?case
    by (blast intro: reads_done)
next
  case (Cons read reads)
  obtain mode r where read: "read = (mode, r)"
    by (cases read)
  have p: "parser_inv (parser_of s)"
    by (rule inv_parser [OF Cons.prems(1)])
  obtain p1 fs e1 where fs: "parse_all (parser_of s) r = (p1, fs, e1)"
    by (metis prod_cases3)
  then have ev: "parse_events (parser_of s) r = (p1, concat (map fragment_events fs), e1)"
    by (simp add: parse_events_def)
  from Cons.prems(3) obtain es' where es: "e1 = None" "es = concat (map fragment_events fs) @ es'"
    "parse_events p1 (concat (map snd reads)) = (q, es', None)"
    unfolding read using parse_events_append [OF p, of r "concat (map snd reads)"] ev
    by (auto split: option.splits prod.splits)
  have alone: "alone (room (cp_limits (parser_of s))) (partial_of s) fs"
    "alone (room (cp_limits (parser_of s))) (fst (assemble (partial_of s) fs)) (map event_fragment es')"
    using Cons.prems(4) alone_events [OF parse_all_fits [OF p fs]] assemble_all_events [OF parse_all_fits [OF p fs]]
    by (auto simp: es(2) alone_append)
  have "parse_all (parser_of s) (pending_of s @ r) = (p1, fs, None)"
    using fs es(1) Cons.prems(2) by simp
  from run_complete [OF Cons.prems(1) this alone(1), of mode] obtain s1 ms where
    s1: "run next_message mode s r s1 ms None" "assemble (partial_of s) fs = (partial_of s1, ms)"
    "parser_of s1 = p1" "inv s1" "pending_of s1 = []"
    by blast
  have "cp_limits (parser_of s1) = cp_limits (parser_of s)"
    using parse_all_limits [OF p fs] s1(3) by simp
  then obtain s' ms' where "run_reads next_message s1 reads s' ms'"
    using Cons.IH [OF s1(4,5)] es(3) alone(2) s1(2,3) by auto
  then show ?case
    using s1(1) by (auto simp: read intro: reads_more)
qed

end

section \<open>MessageDecoder does not fail on such a stream\<close>

text \<open>A message fits when its bytes and, cut into single bytes, its descriptors are within the limits.\<close>

definition message_room :: "decoder_limits \<Rightarrow> message_header \<Rightarrow> bool" where
  "message_room limits h \<longleftrightarrow> mh_message_length h \<le> maximum_buffered_bytes limits
     \<and> mh_message_length h \<le> maximum_fragments_per_message limits \<and> 1 \<le> maximum_partial_messages limits"

lemma hm_only:
  assumes "hm_wf m" and "\<forall>k. k \<noteq> c \<longrightarrow> hm_get m k = None"
  shows "hm_get m c = None \<Longrightarrow> m = []"
    and "hm_get m c = Some v \<Longrightarrow> hm_sum f m = f v"
proof -
  have nil: "m = []" if "\<forall>k. hm_get m k = None" for m :: "('a, 'b) hash_map"
    using that by (cases m) (auto simp: hm_get_def split: if_splits)
  show "hm_get m c = None \<Longrightarrow> m = []"
    using assms(2) by (intro nil) metis
  assume v: "hm_get m c = Some v"
  have "hm_remove c m = []"
    using assms by (intro nil) simp
  then show "hm_sum f m = f v"
    using hm_sum_remove [OF assms(1) v, of f] by simp
qed

lemma payload_segment_count_le: "payload_wf p \<Longrightarrow> payload_segment_count p \<le> payload_len p"
proof -
  have "length xs \<le> length (concat xs)" if "[] \<notin> set xs" for xs :: "bytes list"
    using that
  proof (induction xs)
    case (Cons x xs)
    then show ?case by (cases x) auto
  qed simp
  then show "payload_wf p \<Longrightarrow> payload_segment_count p \<le> payload_len p"
    by (fastforce simp: payload_wf_def payload_segment_count_def payload_len_def of_bool_def Suc_le_eq add_mono)
qed

text \<open>
  The limit checks of one fragment, when its message is the only unfinished one: nothing is left that
  can fail but a panic, which the invariant excludes.
\<close>

lemma append_fragment_accepts:
  assumes out: "append_fragment env d cid i n = (d2, i2, r)" and lim: "limits_ok (md_limits d)"
    and body: "hm_get (md_partials d) cid = Some body" and ok: "asm_ok (md_limits d) len body"
    and res: "md_reserved d = asm_reserved body" and n: "asm_len body + n \<le> len"
    and room: "len \<le> maximum_buffered_bytes (md_limits d)" "len \<le> maximum_fragments_per_message (md_limits d)"
  shows "r = None \<or> r = Some DecodePanic"
proof (cases body)
  case (Segmented p)
  have "payload_segment_count p \<le> payload_len p"
    using ok Segmented by (simp add: payload_segment_count_le)
  then have count: "n \<noteq> 0 \<Longrightarrow> payload_segment_count p < maximum_fragments_per_message (md_limits d)"
    using n room(2) Segmented by simp
  have "saturating_add (md_reserved d) n \<le> maximum_buffered_bytes (md_limits d)"
    using res n room(1) Segmented by (simp add: saturating_add_def)
  then show ?thesis
    using out body Segmented count
    by (auto simp: append_fragment_def Let_def not_le not_less split: if_splits option.splits)
next
  case (Contiguous b capacity)
  then show ?thesis
    using out body by (auto simp: append_fragment_def Let_def split: option.splits)
qed

lemma decode_fragment_only_panic:
  assumes out: "decode_fragment env d i consumed f = (d', i', Inl e)"
    and n: "n = length (mf_data f)" and cid: "cid = mh_chunk_stream_id (mf_header f)"
    and fits: "saturating_add (md_buffered d) n \<le> maximum_buffered_bytes (md_limits d)"
    and adv: "input_advance i (consumed - n) = Some i1"
    and fresh: "hm_get (md_partials d) cid = None \<Longrightarrow>
      saturating_add (md_reserved d) n \<le> maximum_buffered_bytes (md_limits d)
      \<and> n \<le> maximum_fragments_per_message (md_limits d)"
    and opened: "(if hm_get (md_partials d) cid \<noteq> None then (d, None)
      else open_assembly env d (mf_header f) (is_owned i1)) = (d1, None)"
    and app: "\<And>d2 i2 r2. append_fragment env d1 cid i1 n = (d2, i2, r2) \<Longrightarrow> r2 = None \<or> r2 = Some DecodePanic"
  shows "e = DecodePanic"
proof -
  let ?present = "hm_get (md_partials d) cid \<noteq> None"
  note eq = out [unfolded decode_fragment_def Let_def, folded n cid, unfolded adv option.case opened]
  obtain d2 i2 r2 where d2: "append_fragment env d1 cid i1 n = (d2, i2, r2)"
    by (metis prod_cases3)
  note eq' = eq [unfolded d2 prod.case]
  have close: "close_assembly d3 cid = (d4, Inl e') \<Longrightarrow> e' = DecodePanic" for d3 d4 e'
    by (auto simp: close_assembly_def split: option.splits)
  show ?thesis
  proof (cases "is_end f \<and> \<not> ?present")
    case True
    then show ?thesis
      using eq' fits fresh by (auto split: if_splits option.splits)
  next
    case False
    then show ?thesis
      using eq' fits fresh app [OF d2] close
      by (auto split: if_splits option.splits prod.splits sum.splits)
  qed
qed

lemma decode_fragment_accepts:
  assumes inv: "md_inv d" and env: "env_ok env"
    and out: "consume (md_parser d) (as_slice i) = (q, Inr step)" and f: "ps_fragment step = Some f"
    and room: "message_room (md_limits d) (mf_header f)"
    and only: "\<forall>cid. cid \<noteq> mh_chunk_stream_id (mf_header f) \<longrightarrow> md_partial d cid = None"
  shows "decode_fragment env (d\<lparr>md_parser := q\<rparr>) i (ps_consumed step) f \<noteq> (d', i', Inl e)"
proof
  assume dec: "decode_fragment env (d\<lparr>md_parser := q\<rparr>) i (ps_consumed step) f = (d', i', Inl e)"
  define n where "n = length (mf_data f)"
  define cid where "cid = mh_chunk_stream_id (mf_header f)"
  define len where "len = mh_message_length (mf_header f)"
  let ?d = "d\<lparr>md_parser := q\<rparr>" and ?max = "maximum_buffered_bytes (md_limits d)"
  have p: "parser_inv (md_parser d)" and lim: "limits_ok (md_limits d)" and books: "md_books (md_buffered d) d"
    and link: "md_link (unfinished (md_parser d)) d"
    using inv by (auto simp: md_inv_def)
  note view = consume_fragment_view [OF p out f cid_def]
  have wf: "hm_wf (md_partials d)" and others: "\<forall>k. k \<noteq> cid \<longrightarrow> hm_get (md_partials d) k = None"
    using books only by (auto simp: md_books_def md_partial_def cid_def)
  have fits: "len \<le> ?max" "len \<le> maximum_fragments_per_message (md_limits d)" "1 \<le> maximum_partial_messages (md_limits d)"
    "mf_offset f + n \<le> len"
    using room view(3) by (auto simp: message_room_def len_def n_def)
  have empty: "md_partials d = []" "md_reserved d = 0" "mf_offset f = 0" if "hm_get (md_partials d) cid = None"
  proof -
    show "md_partials d = []"
      using hm_only(1) [OF wf others that] .
    then show "md_reserved d = 0"
      using books by (simp add: md_books_def)
    show "mf_offset f = 0"
      using md_link_present [OF link, of cid] view(1) that by (auto simp: is_start_def split: if_splits)
  qed
  have buffered: "md_buffered d = mf_offset f"
  proof (cases "hm_get (md_partials d) cid")
    case None
    then show ?thesis
      using empty books by (simp add: md_books_def)
  next
    case (Some body)
    then show ?thesis
      using md_linkD [OF link Some] view(1) books hm_only(2) [OF wf others Some, of asm_len]
      by (auto simp: md_books_def split: if_splits)
  qed
  have "ps_consumed step - n \<le> length (as_slice i)"
    using view(6) by linarith
  then obtain i1 where i1: "input_advance i (ps_consumed step - n) = Some i1"
    by (cases i) auto
  have "snd (open_assembly env ?d (mf_header f) (is_owned i1)) = None" if "hm_get (md_partials d) cid = None"
    using empty [OF that] fits(1,3)
    by (auto simp: open_assembly_def Let_def hm_len_def saturating_add_def len_def split: option.split prod.split)
  then obtain d1 where d1: "(if hm_get (md_partials d) cid \<noteq> None then (?d, None)
      else open_assembly env ?d (mf_header f) (is_owned i1)) = (d1, None)"
    by (cases "hm_get (md_partials d) cid"; cases "open_assembly env ?d (mf_header f) (is_owned i1)") auto
  from ensure_assembly_ok(2) [OF inv env out f cid_def len_def d1 refl] obtain body where
    body: "hm_get (md_partials d1) cid = Some body" "asm_len body = mf_offset f" "asm_ok (md_limits d1) len body"
      "md_limits d1 = md_limits d" "md_books (md_buffered d) d1"
      "md_partial d1 = (md_partial d)(cid \<mapsto> asm_contents body)"
    by auto
  have "md_reserved d1 = asm_reserved body"
  proof -
    have "hm_get (md_partials d1) k = None" if "k \<noteq> cid" for k
      using fun_cong [OF body(6), of k] only that by (simp add: md_partial_def cid_def)
    then show ?thesis
      using hm_only(2) [of "md_partials d1" cid body asm_reserved] body(1,5) by (simp add: md_books_def)
  qed
  then have app: "r2 = None \<or> r2 = Some DecodePanic" if "append_fragment env d1 cid i1 n = (d2, i2, r2)" for d2 i2 r2
    using append_fragment_accepts [OF that _ body(1,3)] lim body(2,4) fits by simp
  have "e = DecodePanic"
  proof (rule decode_fragment_only_panic [OF dec n_def cid_def _ i1 _ _ app])
    show "saturating_add (md_buffered ?d) n \<le> maximum_buffered_bytes (md_limits ?d)"
      using buffered fits by (simp add: saturating_add_def)
  qed (use d1 empty fits in \<open>auto simp: saturating_add_def\<close>)
  then show False
    using decode_fragment_step(1) [OF inv env out f dec] by simp
qed

lemma decode_input_accepts:
  "env_ok env \<Longrightarrow> md_inv d \<Longrightarrow> parse_all (md_parser d) (as_slice i) = (q, fs, None) \<Longrightarrow>
   alone (message_room (md_limits d)) (md_partial d) fs \<Longrightarrow> decode_input env d i \<noteq> (d', i', Inl e)"
proof (induction env d i arbitrary: fs rule: decode_input.induct)
  case (1 env d i)
  note inv = "1.prems"(2)
  have p: "parser_inv (md_parser d)"
    using inv by (simp add: md_inv_def)
  obtain q1 s where out: "consume (md_parser d) (as_slice i) = (q1, s)"
    by (cases "consume (md_parser d) (as_slice i)")
  obtain step where s: "s = Inr step"
    using "1.prems"(3) out by (cases s) (auto simp: parse_all.simps [of "md_parser d" "as_slice i"])
  note out = out [unfolded s]
  show ?case
  proof (cases "ps_fragment step")
    case None
    have "ps_consumed step = length (as_slice i)"
      using consume_wait_view(2) [OF p out None] by simp
    then obtain i1 where "input_advance i (ps_consumed step) = Some i1"
      by (cases i) auto
    then show ?thesis
      using out None by (simp add: decode_input.simps [of env d i])
  next
    case (Some f)
    obtain gs where gs: "fs = f # gs" "parse_all q1 (drop (ps_consumed step) (as_slice i)) = (q, gs, None)"
      using "1.prems"(3) parse_all_Some [OF out Some] by (auto split: prod.splits)
    have f: "message_room (md_limits d) (mf_header f)"
      "\<forall>cid. cid \<noteq> mh_chunk_stream_id (mf_header f) \<longrightarrow> md_partial d cid = None"
      "alone (message_room (md_limits d)) (fst (assemble_step (md_partial d) f)) gs"
      using "1.prems"(4) gs(1) by auto
    obtain d1 i1 r1 where dec: "decode_fragment env (d\<lparr>md_parser := q1\<rparr>) i (ps_consumed step) f = (d1, i1, r1)"
      by (metis prod_cases3)
    then obtain x where r1: "r1 = Inr x"
      using decode_fragment_accepts [OF inv "1.prems"(1) out Some f(1,2)] by (cases r1) auto
    note one = decode_fragment_step(2) [OF inv "1.prems"(1) out Some dec r1]
    show ?thesis
    proof (cases x)
      case None
      have "md_limits d1 = md_limits d"
        using one inv consume_limits [OF p out] by (auto simp: md_inv_def)
      then have "decode_input env d1 i1 \<noteq> (d', i', Inl e)"
        using "1.IH" [OF out [symmetric] refl Some dec [symmetric] refl r1 [unfolded None] refl "1.prems"(1)]
          one gs(2) f(3) None by auto
      then show ?thesis
        using out Some dec r1 None by (simp add: decode_input.simps [of env d i])
    next
      case (Some m)
      then show ?thesis
        using out \<open>ps_fragment step = Some f\<close> dec r1 by (simp add: decode_input.simps [of env d i])
    qed
  qed
qed

interpretation mdc: complete_assembler "md_next env" md_parser "\<lambda>d. []" md_partial "\<lambda>d. env_ok env \<and> md_inv d"
  message_room for env
proof
  fix s i q fs mode s' i' e
  assume inv: "env_ok env \<and> md_inv s" and parsed: "parse_all (md_parser s) ([] @ i) = (q, fs, None)"
    and alone: "alone (message_room (cp_limits (md_parser s))) (md_partial s) fs"
  have lim: "cp_limits (md_parser s) = md_limits s"
    using inv by (simp add: md_inv_def)
  show "md_next env mode s i \<noteq> (s', i', Inl e)"
  proof
    assume "md_next env mode s i = (s', i', Inl e)"
    then obtain j r' where dec: "decode_input env s (if mode then Owned i else Borrowed i) = (s', j, r')"
      "Inl e = map_sum id (map_option (rm_map payload_contents)) r'"
      by (rule md_next_input)
    then show False
      using decode_input_accepts [of env s "if mode then Owned i else Borrowed i" q fs s' j] inv parsed alone lim
      by (cases r'; cases mode) auto
  qed
qed

lemma decoder_reads_complete:
  assumes "env_ok env" and "limits_ok limits"
    and parsed: "parse_all (parser_with_limits limits) (concat (map snd reads)) = (q, fs, None)"
    and alone: "alone (message_room limits) Map.empty fs"
  shows "\<exists>d. run_reads (md_next env) (decoder_with_limits limits) reads d (snd (assemble Map.empty fs))
    \<and> md_parser d = q \<and> md_partial d = fst (assemble Map.empty fs) \<and> md_inv d"
proof -
  let ?d = "decoder_with_limits limits" and ?all = "concat (map snd reads)"
  have d: "env_ok env \<and> md_inv ?d" "md_parser ?d = parser_with_limits limits" "md_partial ?d = Map.empty"
    using assms(1,2) by (simp_all add: decoder_new_inv, simp_all add: decoder_with_limits_def md_partial_def fun_eq_iff)
  have "alone (message_room (cp_limits (md_parser ?d))) (md_partial ?d)
      (map event_fragment (concat (map fragment_events fs)))"
    using alone alone_events [OF parse_all_fits [OF parser_inv_new parsed]] d
    by (simp add: parser_with_limits_def)
  moreover have "parse_events (md_parser ?d) ?all = (q, concat (map fragment_events fs), None)"
    using parsed d(2) by (simp add: parse_events_def)
  moreover from this obtain d' ms where run: "run_reads (md_next env) ?d reads d' ms"
    using mdc.run_reads_complete [OF d(1)] calculation by blast
  moreover have "parse_all (md_parser ?d) [] = (md_parser ?d, [], None)"
    unfolding d(2) by (rule parse_all_new)
  ultimately show ?thesis
    using md.run_reads_events [OF run d(1) refl] assemble_all_events [OF parse_all_fits [OF parser_inv_new parsed]] d(3)
    by (auto simp: prod_eq_iff)
qed

end
