(* ===== verification/Chunk_Roundtrip.thy ===== *)
theory Chunk_Roundtrip
  imports Packet_Wire Decoder_Complete
begin

text \<open>
  The encoder and the parser agree: the bytes of a packet, parsed by a parser that has seen the
  transmitted packets before it, are the message. \<open>in_sync\<close> relates the header the encoder remembers
  per chunk stream to the one the parser remembers; an omitted droppable packet does not break it.
\<close>

section \<open>Reading one chunk header\<close>

definition outbound_csids :: "u32 set" where
  "outbound_csids = {2, 3, 4, 5, 6}"

lemma csid_outbound [simp]: "get_csid_for_message_type t \<in> outbound_csids"
  by (simp add: get_csid_for_message_type_def outbound_csids_def)

lemma csid_outbound_cases: "c \<in> outbound_csids \<Longrightarrow> (c = 2 \<Longrightarrow> P) \<Longrightarrow> (c = 3 \<Longrightarrow> P) \<Longrightarrow> (c = 4 \<Longrightarrow> P)
  \<Longrightarrow> (c = 5 \<Longrightarrow> P) \<Longrightarrow> (c = 6 \<Longrightarrow> P) \<Longrightarrow> P"
  by (auto simp: outbound_csids_def)

text \<open>A parser whose scratch buffer holds the first \<open>k\<close> bytes of a header.\<close>

definition with_header :: "chunk_parser \<Rightarrow> bytes \<Rightarrow> nat \<Rightarrow> chunk_parser" where
  "with_header p hdr k = p\<lparr>cp_scratch := take k hdr @ drop k (cp_scratch p), cp_used := k\<rparr>"

lemma with_header_simps [simp]:
  "cp_streams (with_header p hdr k) = cp_streams p" "cp_current (with_header p hdr k) = cp_current p"
  "cp_limits (with_header p hdr k) = cp_limits p" "cp_chunk_size (with_header p hdr k) = cp_chunk_size p"
  "cp_used (with_header p hdr k) = k"
  by (simp_all add: with_header_def)

lemma with_header_nth:
  "i < k \<Longrightarrow> k \<le> length hdr \<Longrightarrow> cp_scratch (with_header p hdr k) ! i = hdr ! i"
  by (simp add: with_header_def nth_append)

lemma with_header_length:
  "k \<le> length hdr \<Longrightarrow> length hdr \<le> length (cp_scratch p) \<Longrightarrow> length (cp_scratch (with_header p hdr k)) = length (cp_scratch p)"
  by (simp add: with_header_def)

lemma with_header_read:
  assumes "k + n \<le> length hdr" and "length hdr \<le> length (cp_scratch p)"
  shows "read_scratch (with_header p hdr k) n (drop k hdr @ rest) = with_header p hdr (k + n)"
proof -
  have "take k hdr @ take n (drop k hdr @ rest) @ drop (k + n) (take k hdr @ drop k (cp_scratch p))
      = take (k + n) hdr @ drop (k + n) (cp_scratch p)"
    using assms by (simp add: take_add add.commute)
  then show ?thesis
    using assms by (simp add: read_scratch_def with_header_def)
qed

lemma header_loop_with_header:
  assumes cur: "cp_current p = None" and len: "length (cp_scratch p) = 18" "length hdr \<le> 18"
    and needed: "header_needed (with_header p hdr k) = Inr needed" and k: "k < needed" "needed \<le> length hdr"
  shows "header_loop (with_header p hdr k) c (drop k hdr @ rest)
    = header_loop (with_header p hdr needed) (c + (needed - k)) (drop needed hdr @ rest)"
proof -
  have "header_loop (with_header p hdr k) c (drop k hdr @ rest)
      = header_loop (read_scratch (with_header p hdr k) (needed - k) (drop k hdr @ rest)) (c + (needed - k))
          (drop (needed - k) (drop k hdr @ rest))"
    using header_loop_full [OF _ needed, of "drop k hdr @ rest" c] cur k len
    by (simp add: with_header_length)
  also have "read_scratch (with_header p hdr k) (needed - k) (drop k hdr @ rest) = with_header p hdr needed"
    using with_header_read [of k "needed - k" hdr p rest] k len by simp
  finally show ?thesis
    using k by simp
qed

text \<open>The fields the parser reads back from the bytes of a header.\<close>

definition format_number :: "chunk_header_format \<Rightarrow> nat" where
  "format_number f = unat (format_bits f)"

lemma first_byte:
  assumes "c \<in> outbound_csids"
  shows "(push_bit 6 (format_bits f) OR ucast c) AND 63 = (ucast c :: u8)"
    and "unat (drop_bit 6 (push_bit 6 (format_bits f) OR ucast c :: u8)) = format_number f"
  using assms by (cases f; elim csid_outbound_cases; simp add: format_number_def)+

lemma header_bytes_first: "header_bytes h f ! 0 = push_bit 6 (format_bits f) OR ucast (ch_chunk_stream_id h)"
  by (simp add: header_bytes_def)

lemma header_bytes_nonempty [simp]: "0 < length (header_bytes h f)" "header_bytes h f \<noteq> []"
  by (simp_all add: header_bytes_def)

lemma parsed_basic:
  assumes "ch_chunk_stream_id h \<in> outbound_csids" and "0 < k" "k \<le> length (header_bytes h f)"
  shows "basic_len (with_header p (header_bytes h f) k) = 1"
    and "csid (with_header p (header_bytes h f) k) = ch_chunk_stream_id h"
    and "chunk_format (with_header p (header_bytes h f) k) = format_number f"
proof -
  have b: "cp_scratch (with_header p (header_bytes h f) k) ! 0 = push_bit 6 (format_bits f) OR ucast (ch_chunk_stream_id h)"
    using assms(2,3) by (simp add: with_header_nth header_bytes_first)
  show "basic_len (with_header p (header_bytes h f) k) = 1"
    "csid (with_header p (header_bytes h f) k) = ch_chunk_stream_id h"
    "chunk_format (with_header p (header_bytes h f) k) = format_number f"
    using assms(1) unfolding basic_len_def csid_def chunk_format_def b first_byte [OF assms(1)]
    by (auto elim: csid_outbound_cases)
qed

lemma u24_at: "i + 3 \<le> length b \<Longrightarrow> u24 (drop i b) = from_be24 (b ! i) (b ! (i + 1)) (b ! (i + 2))"
  by (simp add: u24_def from_be24_def)

lemma time_field_small: "take_bit 24 (min w 0xffffff) = (min w 0xffffff :: u32)"
proof (rule take_bit24_small)
  have "min w 0xffffff \<le> (0xffffff :: u32)"
    by (rule min.cobounded2)
  then have "unat (min w 0xffffff) \<le> unat (0xffffff :: u32)"
    unfolding word_le_nat_alt .
  then show "unat (min w 0xffffff) < 2 ^ 24"
    by simp
qed

lemma parsed_time:
  assumes "length (cp_scratch p) = 18" and "f \<noteq> FormatEmpty" and "4 \<le> k" "k \<le> length (header_bytes h f)"
  shows "u24 (drop 1 (cp_scratch (with_header p (header_bytes h f) k))) = min (ch_timestamp_field h) 0xffffff"
proof -
  let ?s = "cp_scratch (with_header p (header_bytes h f) k)"
  have len: "length ?s = 18"
    using assms ih_encode_slice(4) [of h f] by (simp add: with_header_length)
  have "?s ! 1 = header_bytes h f ! 1" "?s ! 2 = header_bytes h f ! 2" "?s ! 3 = header_bytes h f ! 3"
    using assms(3,4) by (simp_all add: with_header_nth)
  then have "u24 (drop 1 ?s) = from_be24 (header_bytes h f ! 1) (header_bytes h f ! 2) (header_bytes h f ! 3)"
    using len by (simp add: u24_def from_be24_def numeral_2_eq_2 numeral_3_eq_3)
  also have "\<dots> = take_bit 24 (min (ch_timestamp_field h) 0xffffff)"
    using assms(2) by (simp add: header_bytes_def be24_def from_be24_bytes)
  finally show ?thesis
    by (simp add: time_field_small)
qed

text \<open>All fields of a completely read header.\<close>

lemma parsed_fields:
  assumes p: "length (cp_scratch p) = 18" and q: "q = with_header p (header_bytes h f) (length (header_bytes h f))"
    and len: "unat (ch_message_length h) < 2 ^ 24"
  shows "f = FormatFull \<or> f = TimeDeltaWithoutMessageStreamId \<Longrightarrow>
      u24 (drop 4 (cp_scratch q)) = ch_message_length h \<and> cp_scratch q ! 7 = ch_message_type_id h"
    and "f = FormatFull \<Longrightarrow> le_u32_at (cp_scratch q) 8 = ch_message_stream_id h"
    and "ch_timestamp_field h \<ge> 0xffffff \<Longrightarrow>
      be_u32_at (cp_scratch q) (1 + body_len (format_number f)) = ch_timestamp_field h"
proof -
  have ql: "length (cp_scratch q) = 18"
    using p ih_encode_slice(4) [of h f] by (simp add: q with_header_length)
  have nth: "i < length (header_bytes h f) \<Longrightarrow> cp_scratch q ! i = header_bytes h f ! i" for i
    by (simp add: q with_header_nth)
  show "u24 (drop 4 (cp_scratch q)) = ch_message_length h \<and> cp_scratch q ! 7 = ch_message_type_id h"
    if f: "f = FormatFull \<or> f = TimeDeltaWithoutMessageStreamId"
  proof -
    have "8 \<le> length (header_bytes h f)"
      using f by (auto simp: header_bytes_def)
    then have "u24 (drop 4 (cp_scratch q)) = from_be24 (header_bytes h f ! 4) (header_bytes h f ! 5) (header_bytes h f ! 6)"
      "cp_scratch q ! 7 = header_bytes h f ! 7"
      using ql nth [of 4] nth [of 5] nth [of 6] nth [of 7] by (simp_all add: u24_at [of 4])
    then show ?thesis
      using f take_bit24_small [OF len] by (auto simp: header_bytes_def be24_def from_be24_bytes)
  qed
  show "le_u32_at (cp_scratch q) 8 = ch_message_stream_id h" if f: "f = FormatFull"
  proof -
    have "12 \<le> length (header_bytes h f)"
      using f by (auto simp: header_bytes_def)
    then show ?thesis
      using f nth [of 8] nth [of 9] nth [of 10] nth [of 11]
      by (simp add: le_u32_at_def header_bytes_def be24_def le32_def from_be32_bytes)
  qed
  show "be_u32_at (cp_scratch q) (1 + body_len (format_number f)) = ch_timestamp_field h"
    if t: "ch_timestamp_field h \<ge> 0xffffff"
  proof -
    have l: "length (header_bytes h f) = 5 + body_len (format_number f)"
      using t by (cases f) (auto simp: header_bytes_def body_len_def format_number_def)
    have "be_u32_at (cp_scratch q) (1 + body_len (format_number f)) = be_u32_at (header_bytes h f) (1 + body_len (format_number f))"
      using l by (simp add: be_u32_at_def nth)
    also have "\<dots> = ch_timestamp_field h"
      using t by (cases f)
        (auto simp: header_bytes_def body_len_def format_number_def be_u32_at_def be32_def be24_def le32_def from_be32_bytes)
    finally show ?thesis .
  qed
qed

text \<open>The parser reads exactly the bytes of a header and then starts the chunk.\<close>

lemma header_loop_header:
  assumes p: "length (cp_scratch p) = 18" "cp_used p = 0" "cp_current p = None"
    and cid: "ch_chunk_stream_id h \<in> outbound_csids"
    and empty: "f = FormatEmpty \<Longrightarrow> \<exists>s. hm_get (cp_streams p) (ch_chunk_stream_id h) = Some s
      \<and> (st_time_field s \<ge> 0xffffff \<longleftrightarrow> ch_timestamp_field h \<ge> 0xffffff)"
    and q: "q = with_header p (header_bytes h f) (length (header_bytes h f))" and ok: "begin_chunk q = Inr q'"
  shows "header_loop p c (header_bytes h f @ rest) = (q'\<lparr>cp_used := 0\<rparr>, Inr (InChunk (c + length (header_bytes h f)) rest))"
proof -
  let ?hdr = "header_bytes h f" and ?w = "with_header p (header_bytes h f)"
  let ?body = "1 + body_len (format_number f)"
  have len: "length ?hdr \<le> 18"
    by (rule ih_encode_slice(4))
  have l: "length ?hdr = ?body + (if ch_timestamp_field h \<ge> 0xffffff then 4 else 0)"
    by (cases f) (auto simp: header_bytes_def body_len_def format_number_def)
  note basic = parsed_basic [OF cid]
  have p0: "p = ?w 0"
    using p(2) by (simp add: with_header_def)
  have need0: "header_needed (?w 0) = Inr 1"
    by (simp add: header_needed_def)
  have need1: "header_needed (?w 1) = Inr ?body" if "f \<noteq> FormatEmpty"
    using that basic [of 1 f p] l by (cases f) (simp_all add: header_needed_def Let_def body_len_def format_number_def)
  have need2: "header_needed (?w ?body) = Inr (length ?hdr)" if "f \<noteq> FormatEmpty"
  proof -
    have "4 \<le> ?body" "?body \<le> length ?hdr"
      using that l by (cases f; simp add: body_len_def format_number_def)+
    moreover have "min (ch_timestamp_field h) 0xffffff = 0xffffff \<longleftrightarrow> ch_timestamp_field h \<ge> 0xffffff"
      by (auto simp: min_def)
    ultimately show ?thesis
      using basic [of ?body f p] that l parsed_time [OF p(1) that, of ?body h]
      by (cases f) (simp_all add: header_needed_def Let_def format_number_def)
  qed
  have need3: "header_needed (?w 1) = Inr (length ?hdr)" if fe: "f = FormatEmpty"
  proof -
    obtain s where "hm_get (cp_streams p) (ch_chunk_stream_id h) = Some s"
      "st_time_field s \<ge> 0xffffff \<longleftrightarrow> ch_timestamp_field h \<ge> 0xffffff"
      using empty [OF fe] by blast
    then show ?thesis
      using basic [of 1 f p] l fe by (simp add: header_needed_def Let_def body_len_def format_number_def)
  qed
  have needL: "header_needed q = Inr (length ?hdr)"
  proof (cases "f = FormatEmpty")
    case True
    then obtain s where "hm_get (cp_streams p) (ch_chunk_stream_id h) = Some s"
      "st_time_field s \<ge> 0xffffff \<longleftrightarrow> ch_timestamp_field h \<ge> 0xffffff"
      using empty by blast
    then show ?thesis
      using basic [of "length ?hdr" f p] l True by (simp add: q header_needed_def Let_def body_len_def format_number_def)
  next
    case False
    have "4 \<le> length ?hdr"
      using False l by (cases f; simp add: body_len_def format_number_def)
    moreover have "min (ch_timestamp_field h) 0xffffff = 0xffffff \<longleftrightarrow> ch_timestamp_field h \<ge> 0xffffff"
      by (auto simp: min_def)
    ultimately show ?thesis
      using basic [of "length ?hdr" f p] False l parsed_time [OF p(1) False, of "length ?hdr" h]
      by (cases f) (simp_all add: q header_needed_def Let_def format_number_def)
  qed
  have loop1: "header_loop p c (?hdr @ rest) = header_loop (?w 1) (c + 1) (drop 1 ?hdr @ rest)"
    using header_loop_with_header [OF p(3,1) len need0, of c rest] p0 by (simp add: Suc_leI)
  have loopL: "header_loop (?w 1) (c + 1) (drop 1 ?hdr @ rest) = header_loop q (c + length ?hdr) rest"
  proof (cases "f = FormatEmpty")
    case True
    show ?thesis
    proof (cases "length ?hdr = 1")
      case False
      then show ?thesis
        using header_loop_with_header [OF p(3,1) len need3 [OF True], of "c + 1" rest] l by (simp add: q)
    qed (simp add: q)
  next
    case False
    have "1 < ?body"
      using False by (cases f; simp add: body_len_def format_number_def)
    then have "header_loop (?w 1) (c + 1) (drop 1 ?hdr @ rest) = header_loop (?w ?body) (c + ?body) (drop ?body ?hdr @ rest)"
      using header_loop_with_header [OF p(3,1) len need1 [OF False], of "c + 1" rest] l by simp
    also have "\<dots> = header_loop q (c + length ?hdr) rest"
    proof (cases "length ?hdr = ?body")
      case no: False
      then show ?thesis
        using header_loop_with_header [OF p(3,1) len need2 [OF False], of "c + ?body" rest] l by (simp add: q)
    qed (simp add: q)
    finally show ?thesis .
  qed
  have "header_loop q (c + length ?hdr) rest = (q'\<lparr>cp_used := 0\<rparr>, Inr (InChunk (c + length ?hdr) rest))"
    using header_loop_begin [OF _ needL] ok p(3) by (simp add: q)
  then show ?thesis
    using loop1 loopL by simp
qed

section \<open>Starting a chunk\<close>

definition wire_header :: "chunk_header \<Rightarrow> message_header" where
  "wire_header h =
     \<lparr>mh_chunk_stream_id = ch_chunk_stream_id h, mh_timestamp = ch_timestamp h, mh_type_id = ch_message_type_id h,
      mh_message_stream_id = ch_message_stream_id h, mh_message_length = unat (ch_message_length h)\<rparr>"

text \<open>What a header of each format leaves to the previous header of its stream.\<close>

definition implied_fields :: "chunk_header \<Rightarrow> chunk_header_format \<Rightarrow> stream option \<Rightarrow> bool" where
  "implied_fields h f old \<longleftrightarrow>
     (\<forall>s. old = Some s \<longrightarrow> mh_chunk_stream_id (st_header s) = ch_chunk_stream_id h)
     \<and> (f \<noteq> FormatFull \<longrightarrow> (\<exists>s. old = Some s \<and> mh_message_stream_id (st_header s) = ch_message_stream_id h
          \<and> (f \<noteq> TimeDeltaWithoutMessageStreamId \<longrightarrow> mh_type_id (st_header s) = ch_message_type_id h
               \<and> mh_message_length (st_header s) = unat (ch_message_length h))
          \<and> (f = FormatEmpty \<longrightarrow> st_time_field s = ch_timestamp_field h)))"

lemma format_number_simps [simp]:
  "format_number FormatFull = 0" "format_number TimeDeltaWithoutMessageStreamId = 1"
  "format_number TimeDeltaOnly = 2" "format_number FormatEmpty = 3"
  by (simp_all add: format_number_def)

lemma parsed_header_fields:
  assumes p: "length (cp_scratch p) = 18" and q: "q = with_header p (header_bytes h f) (length (header_bytes h f))"
    and cid: "ch_chunk_stream_id h \<in> outbound_csids" and len: "unat (ch_message_length h) < 2 ^ 24"
    and old: "implied_fields h f old"
  shows "chunk_header_fields q old = (wire_header h)\<lparr>mh_timestamp := (case old of None \<Rightarrow> ts_new 0 | Some s \<Rightarrow> mh_timestamp (st_header s))\<rparr>"
    and "chunk_time q old = ch_timestamp_field h"
proof -
  note fields = parsed_fields [OF p q len]
  have basic: "basic_len q = 1" "csid q = ch_chunk_stream_id h" "chunk_format q = format_number f"
    using parsed_basic [OF cid, of "length (header_bytes h f)" f p] by (simp_all add: q)
  show "chunk_header_fields q old = (wire_header h)\<lparr>mh_timestamp := (case old of None \<Rightarrow> ts_new 0 | Some s \<Rightarrow> mh_timestamp (st_header s))\<rparr>"
    using fields(1,2) old basic
    by (cases f; cases old)
      (auto simp: chunk_header_fields_def Let_def empty_header_def wire_header_def implied_fields_def)
  have time: "u24 (drop 1 (cp_scratch q)) = min (ch_timestamp_field h) 0xffffff" if "f \<noteq> FormatEmpty"
    using parsed_time [OF p that, of "length (header_bytes h f)" h] that unfolding q
    by (cases f) (auto simp: header_bytes_def)
  have ext: "ch_timestamp_field h \<ge> 0xffffff \<Longrightarrow>
      be_u32_at (cp_scratch q) (1 + body_len (format_number f)) = ch_timestamp_field h"
    by (rule fields(3))
  show "chunk_time q old = ch_timestamp_field h"
  proof (cases "f = FormatEmpty")
    case True
    then obtain s where "old = Some s" "st_time_field s = ch_timestamp_field h"
      using old by (auto simp: implied_fields_def)
    then show ?thesis
      using ext True basic by (simp add: chunk_time_def Let_def)
  next
    case False
    then have "format_number f \<noteq> 3"
      by (cases f) auto
    then have "chunk_time q old = (if min (ch_timestamp_field h) 0xffffff \<ge> 0xffffff
        then be_u32_at (cp_scratch q) (1 + body_len (format_number f)) else min (ch_timestamp_field h) 0xffffff)"
      using time [OF False] basic by (cases old) (simp_all add: chunk_time_def Let_def)
    then show ?thesis
      using ext by (auto simp: min_def)
  qed
qed

text \<open>The first chunk of a message, and a continuation of it.\<close>

lemma first_chunk_stream:
  assumes p: "length (cp_scratch p) = 18" and q: "q = with_header p (header_bytes h f) (length (header_bytes h f))"
    and cid: "ch_chunk_stream_id h \<in> outbound_csids" and len: "unat (ch_message_length h) < 2 ^ 24"
    and old: "old = hm_get (cp_streams p) (ch_chunk_stream_id h)" "implied_fields h f old"
    and fits: "unat (ch_message_length h) \<le> maximum_message_size (cp_limits p)"
      "active_count (cp_streams p) < maximum_partial_messages (cp_limits p)"
      "old = None \<Longrightarrow> hm_len (cp_streams p) < maximum_tracked_chunk_streams (cp_limits p)"
    and idle: "\<And>s. old = Some s \<Longrightarrow> \<not> st_active s"
    and time: "if f = FormatFull then ts_new (ch_timestamp_field h) = ch_timestamp h
      else \<forall>s. old = Some s \<longrightarrow> ts_add_u32 (mh_timestamp (st_header s)) (ch_timestamp_field h) = ch_timestamp h"
  shows "chunk_stream q = Inr \<lparr>st_header = wire_header h, st_time_field = ch_timestamp_field h,
    st_received = 0, st_active = True\<rparr>"
proof -
  note fields = parsed_header_fields [OF p q cid len old(2)]
  have basic: "csid q = ch_chunk_stream_id h" "chunk_format q = format_number f"
    using parsed_basic [OF cid, of "length (header_bytes h f)" f p] by (simp_all add: q)
  have qp: "cp_streams q = cp_streams p" "cp_limits q = cp_limits p"
    by (simp_all add: q)
  have fnum: "format_number f = 0 \<longleftrightarrow> f = FormatFull"
    by (cases f) auto
  have checked: "chunk_checked q old (chunk_header_fields q old) (chunk_time q old) = Inr (wire_header h)"
  proof (cases old)
    case None
    then have "f = FormatFull"
      using old(2) by (auto simp: implied_fields_def)
    then show ?thesis
      using fields None fits time basic qp by (simp add: chunk_checked_def Let_def wire_header_def)
  next
    case (Some s)
    then show ?thesis
      using fields idle [OF Some] fits time basic qp fnum
      by (cases "f = FormatFull") (auto simp: chunk_checked_def Let_def wire_header_def)
  qed
  show ?thesis
  proof (cases old)
    case None
    then have "f = FormatFull"
      using old(2) by (auto simp: implied_fields_def)
    then show ?thesis
      using None checked fits fields(1,2) basic qp old(1) by (simp add: chunk_stream_def Let_def wire_header_def)
  next
    case (Some s)
    then show ?thesis
      using checked fits idle [OF Some] fields(1,2) basic qp old(1)
      by (simp add: chunk_stream_def Let_def wire_header_def)
  qed
qed

lemma continuation_stream:
  assumes p: "length (cp_scratch p) = 18" and q: "q = with_header p (header_bytes h f) (length (header_bytes h f))"
    and cid: "ch_chunk_stream_id h \<in> outbound_csids" and len: "unat (ch_message_length h) < 2 ^ 24"
    and f: "f = FormatEmpty \<or> f = FormatFull \<and> ts_value (ch_timestamp h) = ch_timestamp_field h"
    and old: "hm_get (cp_streams p) (ch_chunk_stream_id h) = Some s" "st_header s = wire_header h"
      "st_time_field s = ch_timestamp_field h" "st_active s" "st_received s \<le> unat (ch_message_length h)"
    and fits: "unat (ch_message_length h) \<le> maximum_message_size (cp_limits p)"
  shows "chunk_stream q = Inr s"
proof -
  have implied: "implied_fields h f (Some s)"
    using old by (auto simp: implied_fields_def wire_header_def)
  note fields = parsed_header_fields [OF p q cid len implied]
  have basic: "csid q = ch_chunk_stream_id h" "chunk_format q = format_number f"
    using parsed_basic [OF cid, of "length (header_bytes h f)" f p] by (simp_all add: q)
  have qp: "cp_streams q = cp_streams p" "cp_limits q = cp_limits p"
    by (simp_all add: q)
  have hf: "chunk_header_fields q (Some s) = wire_header h"
    using fields(1) old(2) by (simp add: wire_header_def)
  have "chunk_checked q (Some s) (wire_header h) (ch_timestamp_field h) = Inr (wire_header h)"
    using old f basic by (auto simp: chunk_checked_def Let_def wire_header_def)
  then have "chunk_stream q = Inr \<lparr>st_header = wire_header h, st_time_field = ch_timestamp_field h,
      st_received = st_received s, st_active = True\<rparr>"
    using hf fields(2) fits basic qp old by (simp add: chunk_stream_def Let_def wire_header_def)
  then show ?thesis
    using old by (cases s) simp
qed

section \<open>Parsing a whole packet\<close>

text \<open>A parser between two chunks, and the effect of a chunk on its streams.\<close>

definition boundary :: "chunk_parser \<Rightarrow> bool" where
  "boundary p \<longleftrightarrow> length (cp_scratch p) = 18 \<and> cp_used p = 0 \<and> cp_current p = None \<and> 0 < cp_chunk_size p
     \<and> hm_wf (cp_streams p)"

definition only_stream :: "chunk_parser \<Rightarrow> chunk_parser \<Rightarrow> u32 \<Rightarrow> stream \<Rightarrow> bool" where
  "only_stream p p' cid s \<longleftrightarrow> boundary p' \<and> cp_chunk_size p' = cp_chunk_size p \<and> cp_limits p' = cp_limits p
     \<and> hm_get (cp_streams p') = (hm_get (cp_streams p))(cid \<mapsto> s)"

lemma chunk_consumed:
  assumes p: "boundary p" and cid: "ch_chunk_stream_id h \<in> outbound_csids"
    and empty: "f = FormatEmpty \<Longrightarrow> \<exists>s. hm_get (cp_streams p) (ch_chunk_stream_id h) = Some s
      \<and> st_time_field s = ch_timestamp_field h"
    and q: "q = with_header p (header_bytes h f) (length (header_bytes h f))" and s: "chunk_stream q = Inr s"
    and d: "length d = min (mh_message_length (st_header s) - st_received s) (cp_chunk_size p)"
  shows "\<exists>p'. consume p (header_bytes h f @ d @ rest) = (p', Inr \<lparr>ps_consumed = length (header_bytes h f) + length d,
      ps_fragment = Some \<lparr>mf_header = st_header s, mf_offset = st_received s, mf_data = d\<rparr>\<rparr>)
    \<and> only_stream p p' (ch_chunk_stream_id h) (if st_received s + length d = mh_message_length (st_header s)
        then s\<lparr>st_received := st_received s + length d, st_active := False\<rparr>
        else s\<lparr>st_received := st_received s + length d\<rparr>)"
proof -
  let ?hdr = "header_bytes h f" and ?cid = "ch_chunk_stream_id h"
  have bp: "length (cp_scratch p) = 18" "cp_used p = 0" "cp_current p = None"
    using p by (auto simp: boundary_def)
  have basic: "csid q = ?cid"
    using parsed_basic [OF cid, of "length ?hdr" f p] by (simp add: q)
  define q' where "q' = q\<lparr>cp_chunk_left := min (mh_message_length (st_header s) - st_received s) (cp_chunk_size q),
    cp_current := Some ?cid, cp_streams := hm_insert ?cid s (cp_streams q)\<rparr>"
  have ok: "begin_chunk q = Inr q'"
    using s basic by (simp add: begin_chunk_def q'_def)
  have ext: "\<exists>s. hm_get (cp_streams p) ?cid = Some s \<and> (st_time_field s \<ge> 0xffffff \<longleftrightarrow> ch_timestamp_field h \<ge> 0xffffff)"
    if "f = FormatEmpty"
    using empty [OF that] by auto
  let ?q = "q'\<lparr>cp_used := 0\<rparr>"
  have loop: "header_loop p 0 (?hdr @ d @ rest) = (?q, Inr (InChunk (length ?hdr) (d @ rest)))"
    using header_loop_header [OF bp cid ext q ok, of 0 "d @ rest"] by simp
  have left: "cp_chunk_left ?q = length d" "cp_current ?q = Some ?cid" "hm_get (cp_streams ?q) ?cid = Some s"
    using d by (simp_all add: q'_def q)
  have "consume p (?hdr @ d @ rest) = (advance_chunk ?q ?cid s (length d), Inr \<lparr>ps_consumed = length ?hdr + length d,
      ps_fragment = Some \<lparr>mf_header = st_header s, mf_offset = st_received s, mf_data = d\<rparr>\<rparr>)"
    using loop left by (simp add: consume_def chunk_fragment_def Let_def)
  moreover have "length (cp_scratch q) = 18"
    using bp(1) ih_encode_slice(4) [of h f] by (simp add: q with_header_length)
  ultimately show ?thesis
    using p left by (auto simp: only_stream_def boundary_def advance_chunk_def Let_def q'_def q fun_eq_iff)
qed

lemma parse_all_consumed:
  assumes "consume p (a @ rest) = (p', Inr \<lparr>ps_consumed = length a, ps_fragment = Some f\<rparr>)"
  shows "parse_all p (a @ rest) = (case parse_all p' rest of (q, gs, e) \<Rightarrow> (q, f # gs, e))"
  using parse_all_Some [OF assms] by simp

lemma parse_tail:
  assumes "boundary p" and "cs = cp_chunk_size p" and "d \<noteq> []"
    and cid: "ch_chunk_stream_id h \<in> outbound_csids" and len: "unat (ch_message_length h) < 2 ^ 24"
    and fits: "unat (ch_message_length h) \<le> maximum_message_size (cp_limits p)"
    and f: "f = FormatEmpty \<or> f = FormatFull \<and> ts_value (ch_timestamp h) = ch_timestamp_field h"
    and s: "hm_get (cp_streams p) (ch_chunk_stream_id h) = Some s" "st_header s = wire_header h"
      "st_time_field s = ch_timestamp_field h" "st_active s" "st_received s + length d = unat (ch_message_length h)"
    and A: "A (ch_chunk_stream_id h) = Some pre"
  shows "\<exists>p' fs s'. parse_all p (tail_wire (header_bytes h f) cs d @ rest)
      = (case parse_all p' rest of (q, gs, e) \<Rightarrow> (q, fs @ gs, e))
    \<and> assemble A fs = (A(ch_chunk_stream_id h := None), [header_message (wire_header h) (pre @ d)])
    \<and> only_stream p p' (ch_chunk_stream_id h) s' \<and> st_header s' = wire_header h
    \<and> st_time_field s' = ch_timestamp_field h \<and> \<not> st_active s' \<and> (\<forall>x \<in> set fs. mf_header x = wire_header h)"
  using assms
proof (induction "header_bytes h f" cs d arbitrary: p s A pre rule: tail_wire.induct)
  case (1 cs d)
  let ?hdr = "header_bytes h f" and ?cid = "ch_chunk_stream_id h"
  have bp: "length (cp_scratch p) = 18" and cs: "0 < cs"
    using "1.prems"(1,2) by (auto simp: boundary_def)
  have str: "chunk_stream (with_header p ?hdr (length ?hdr)) = Inr s"
    using continuation_stream [OF bp refl cid len f "1.prems"(8-11) _ "1.prems"(6)] "1.prems"(12) by simp
  have dlen: "length (take cs d) = min (mh_message_length (st_header s) - st_received s) (cp_chunk_size p)"
    using "1.prems"(2,9,12) by (simp add: wire_header_def)
  obtain p1 where p1: "consume p (?hdr @ take cs d @ tail_wire ?hdr cs (drop cs d) @ rest)
      = (p1, Inr \<lparr>ps_consumed = length ?hdr + length (take cs d),
           ps_fragment = Some \<lparr>mf_header = st_header s, mf_offset = st_received s, mf_data = take cs d\<rparr>\<rparr>)"
    "only_stream p p1 ?cid (if st_received s + length (take cs d) = mh_message_length (st_header s)
        then s\<lparr>st_received := st_received s + length (take cs d), st_active := False\<rparr>
        else s\<lparr>st_received := st_received s + length (take cs d)\<rparr>)"
    using chunk_consumed [OF "1.prems"(1) cid _ refl str dlen] "1.prems"(8,10) by blast
  let ?f = "\<lparr>mf_header = st_header s, mf_offset = st_received s, mf_data = take cs d\<rparr>"
  have all: "parse_all p (tail_wire ?hdr cs d @ rest)
      = (case parse_all p1 (tail_wire ?hdr cs (drop cs d) @ rest) of (q, gs, e) \<Rightarrow> (q, ?f # gs, e))"
    using parse_all_consumed [of p "?hdr @ take cs d" "tail_wire ?hdr cs (drop cs d) @ rest" p1 ?f] p1(1)
    by (simp add: tail_wire_step [OF "1.prems"(3) cs])
  show ?case
  proof (cases "drop cs d = []")
    case True
    then have whole: "take cs d = d" "st_received s + length (take cs d) = mh_message_length (st_header s)"
      using "1.prems"(9,12) by (auto simp: wire_header_def)
    have "assemble_step A ?f = (A(?cid := None), [header_message (wire_header h) (pre @ d)])"
      using "1.prems"(9,12,13) whole by (simp add: assemble_step_def is_end_def wire_header_def Let_def)
    then show ?thesis
      using all True p1(2) whole "1.prems"(9,10)
      by (intro exI [of _ p1] exI [of _ "[?f]"] exI [of _ "s\<lparr>st_received := st_received s + length (take cs d), st_active := False\<rparr>"])
        (simp split: prod.split)
  next
    case False
    define s1 where "s1 = s\<lparr>st_received := st_received s + length (take cs d)\<rparr>"
    have part: "st_received s + length (take cs d) \<noteq> mh_message_length (st_header s)"
      using False "1.prems"(9,12) by (simp add: wire_header_def)
    have o1: "only_stream p p1 ?cid s1"
      using p1(2) part by (simp add: s1_def)
    have step: "assemble_step A ?f = (A(?cid \<mapsto> pre @ take cs d), [])"
      using "1.prems"(9,13) part by (simp add: assemble_step_def is_end_def wire_header_def Let_def)
    have "\<exists>p' fs s'. parse_all p1 (tail_wire ?hdr cs (drop cs d) @ rest)
        = (case parse_all p' rest of (q, gs, e) \<Rightarrow> (q, fs @ gs, e))
      \<and> assemble (A(?cid \<mapsto> pre @ take cs d)) fs
        = ((A(?cid \<mapsto> pre @ take cs d))(?cid := None), [header_message (wire_header h) ((pre @ take cs d) @ drop cs d)])
      \<and> only_stream p1 p' ?cid s' \<and> st_header s' = wire_header h
      \<and> st_time_field s' = ch_timestamp_field h \<and> \<not> st_active s' \<and> (\<forall>x \<in> set fs. mf_header x = wire_header h)"
    proof (rule "1.hyps" [of p1 s1])
      show "\<not> (d = [] \<or> cs = 0)" using "1.prems"(3) cs by simp
    qed (use o1 False "1.prems" cid len f in \<open>auto simp: only_stream_def s1_def\<close>)
    then obtain p' fs s' where ih: "parse_all p1 (tail_wire ?hdr cs (drop cs d) @ rest)
        = (case parse_all p' rest of (q, gs, e) \<Rightarrow> (q, fs @ gs, e))"
      "assemble (A(?cid \<mapsto> pre @ take cs d)) fs = (A(?cid := None), [header_message (wire_header h) (pre @ d)])"
      "only_stream p1 p' ?cid s'" "st_header s' = wire_header h" "st_time_field s' = ch_timestamp_field h" "\<not> st_active s'"
      "\<forall>x \<in> set fs. mf_header x = wire_header h"
      by auto
    have "parse_all p (tail_wire ?hdr cs d @ rest) = (case parse_all p' rest of (q, gs, e) \<Rightarrow> (q, (?f # fs) @ gs, e))"
      using all ih(1) by (simp split: prod.split)
    moreover have "assemble A (?f # fs) = (A(?cid := None), [header_message (wire_header h) (pre @ d)])"
      using step ih(2) by simp
    moreover have "only_stream p p' ?cid s'"
      using o1 ih(3) by (simp add: only_stream_def)
    moreover have "\<forall>x \<in> set (?f # fs). mf_header x = wire_header h"
      using ih(7) "1.prems"(9) by simp
    ultimately show ?thesis
      using ih(4-6) by blast
  qed
qed

text \<open>A whole packet: the first header, and continuation headers of one format.\<close>

lemma parse_packet:
  assumes p: "boundary p" and cid: "ch_chunk_stream_id h \<in> outbound_csids" and len: "unat (ch_message_length h) < 2 ^ 24"
    and d: "length d = unat (ch_message_length h)" and cs: "cs = cp_chunk_size p"
    and fits: "unat (ch_message_length h) \<le> maximum_message_size (cp_limits p)"
    and empty: "f = FormatEmpty \<Longrightarrow> \<exists>s. hm_get (cp_streams p) (ch_chunk_stream_id h) = Some s
      \<and> st_time_field s = ch_timestamp_field h"
    and first: "chunk_stream (with_header p (header_bytes h f) (length (header_bytes h f))) =
      Inr \<lparr>st_header = wire_header h, st_time_field = ch_timestamp_field h, st_received = 0, st_active = True\<rparr>"
    and g: "g = FormatEmpty \<or> g = FormatFull \<and> ts_value (ch_timestamp h) = ch_timestamp_field h"
    and A: "A (ch_chunk_stream_id h) = None"
  shows "\<exists>p' fs s'. parse_all p (wire (header_bytes h f) (header_bytes h g) cs d @ rest)
      = (case parse_all p' rest of (q, gs, e) \<Rightarrow> (q, fs @ gs, e))
    \<and> assemble A fs = (A, [header_message (wire_header h) d])
    \<and> only_stream p p' (ch_chunk_stream_id h) s' \<and> st_header s' = wire_header h
    \<and> st_time_field s' = ch_timestamp_field h \<and> \<not> st_active s' \<and> (\<forall>x \<in> set fs. mf_header x = wire_header h)"
proof -
  let ?hdr = "header_bytes h f" and ?cid = "ch_chunk_stream_id h" and ?tail = "tail_wire (header_bytes h g) cs (drop cs d)"
  define s where "s = \<lparr>st_header = wire_header h, st_time_field = ch_timestamp_field h, st_received = 0, st_active = True\<rparr>"
  have pos: "0 < cs"
    using p cs by (simp add: boundary_def)
  have dlen: "length (take cs d) = min (mh_message_length (st_header s) - st_received s) (cp_chunk_size p)"
    using d cs by (simp add: s_def wire_header_def)
  obtain p1 where p1: "consume p (?hdr @ take cs d @ ?tail @ rest)
      = (p1, Inr \<lparr>ps_consumed = length ?hdr + length (take cs d),
           ps_fragment = Some \<lparr>mf_header = st_header s, mf_offset = st_received s, mf_data = take cs d\<rparr>\<rparr>)"
    "only_stream p p1 ?cid (if st_received s + length (take cs d) = mh_message_length (st_header s)
        then s\<lparr>st_received := st_received s + length (take cs d), st_active := False\<rparr>
        else s\<lparr>st_received := st_received s + length (take cs d)\<rparr>)"
    using chunk_consumed [OF p cid empty refl first [folded s_def] dlen] by blast
  let ?f = "\<lparr>mf_header = wire_header h, mf_offset = 0, mf_data = take cs d\<rparr>"
  have all: "parse_all p (wire ?hdr (header_bytes h g) cs d @ rest)
      = (case parse_all p1 (?tail @ rest) of (q, gs, e) \<Rightarrow> (q, ?f # gs, e))"
    using parse_all_consumed [of p "?hdr @ take cs d" "?tail @ rest" p1 ?f] p1(1)
    by (simp add: wire_def s_def)
  show ?thesis
  proof (cases "drop cs d = []")
    case True
    then have whole: "take cs d = d" "length (take cs d) = unat (ch_message_length h)"
      using d by auto
    have "A(?cid := None) = A"
      using A by auto
    then have "assemble_step A ?f = (A, [header_message (wire_header h) d])"
      using A whole by (simp add: assemble_step_def is_end_def wire_header_def Let_def)
    then show ?thesis
      using all True p1(2) whole
      by (intro exI [of _ p1] exI [of _ "[?f]"] exI [of _ "s\<lparr>st_received := length (take cs d), st_active := False\<rparr>"])
        (simp add: s_def wire_header_def split: prod.split)
  next
    case False
    define s1 where "s1 = s\<lparr>st_received := length (take cs d)\<rparr>"
    have part: "length (take cs d) \<noteq> unat (ch_message_length h)"
      using False d by simp
    have o1: "only_stream p p1 ?cid s1"
      using p1(2) part by (simp add: s1_def s_def wire_header_def)
    have step: "assemble_step A ?f = (A(?cid \<mapsto> take cs d), [])"
      using A part by (simp add: assemble_step_def is_end_def wire_header_def Let_def)
    have "\<exists>p' fs s'. parse_all p1 (?tail @ rest) = (case parse_all p' rest of (q, gs, e) \<Rightarrow> (q, fs @ gs, e))
      \<and> assemble (A(?cid \<mapsto> take cs d)) fs
        = ((A(?cid \<mapsto> take cs d))(?cid := None), [header_message (wire_header h) (take cs d @ drop cs d)])
      \<and> only_stream p1 p' ?cid s' \<and> st_header s' = wire_header h
      \<and> st_time_field s' = ch_timestamp_field h \<and> \<not> st_active s' \<and> (\<forall>x \<in> set fs. mf_header x = wire_header h)"
      by (rule parse_tail [where s = s1])
        (use o1 False d cs cid len fits g in \<open>auto simp: only_stream_def s1_def s_def\<close>)
    moreover have "(A(?cid \<mapsto> take cs d))(?cid := None) = A"
      using A by auto
    ultimately obtain p' fs s' where tl: "parse_all p1 (?tail @ rest) = (case parse_all p' rest of (q, gs, e) \<Rightarrow> (q, fs @ gs, e))"
      "assemble (A(?cid \<mapsto> take cs d)) fs = (A, [header_message (wire_header h) d])"
      "only_stream p1 p' ?cid s'" "st_header s' = wire_header h" "st_time_field s' = ch_timestamp_field h" "\<not> st_active s'"
      "\<forall>x \<in> set fs. mf_header x = wire_header h"
      by auto
    have "parse_all p (wire ?hdr (header_bytes h g) cs d @ rest) = (case parse_all p' rest of (q, gs, e) \<Rightarrow> (q, (?f # fs) @ gs, e))"
      using all tl(1) by (simp split: prod.split)
    moreover have "assemble A (?f # fs) = (A, [header_message (wire_header h) d])"
      using step tl(2) by simp
    moreover have "only_stream p p' ?cid s'"
      using o1 tl(3) by (simp add: only_stream_def)
    moreover have "\<forall>x \<in> set (?f # fs). mf_header x = wire_header h"
      using tl(7) by simp
    ultimately show ?thesis
      using tl(4-6) by blast
  qed
qed

lemma parse_all_boundary:
  assumes "boundary p"
  shows "parse_all p [] = (p, [], None)"
proof -
  have "header_loop p 0 [] = (read_scratch p 0 [], Inr (NeedMore 0))"
    by (subst header_loop_part [of _ 1]) (use assms in \<open>simp_all add: boundary_def header_needed_def\<close>)
  moreover have "read_scratch p 0 [] = p"
    by (simp add: read_scratch_def)
  ultimately have "consume p [] = (p, Inr \<lparr>ps_consumed = 0, ps_fragment = None\<rparr>)"
    by (simp add: consume_def)
  then show ?thesis
    by (rule parse_all_None) simp
qed

section \<open>Encoder and parser in sync\<close>

definition slot_of :: "chunk_encoder \<Rightarrow> u32 \<Rightarrow> chunk_header option" where
  "slot_of e cid = ce_previous_headers e ! unat (cid - 2)"

definition in_sync :: "chunk_encoder \<Rightarrow> chunk_parser \<Rightarrow> bool" where
  "in_sync e p \<longleftrightarrow> encoder_ok e \<and> boundary p \<and> cp_chunk_size p = unat (ce_max_chunk_size e)
     \<and> (\<forall>cid s. hm_get (cp_streams p) cid = Some s \<longrightarrow>
          cid \<in> outbound_csids \<and> \<not> st_active s \<and> mh_chunk_stream_id (st_header s) = cid)
     \<and> (\<forall>cid \<in> outbound_csids. \<forall>h. slot_of e cid = Some h \<longrightarrow> ch_can_be_dropped h \<or>
          (\<exists>s. hm_get (cp_streams p) cid = Some s \<and> st_header s = wire_header h \<and> st_time_field s = ch_timestamp_field h))
     \<and> 5 \<le> maximum_tracked_chunk_streams (cp_limits p) \<and> 1 \<le> maximum_partial_messages (cp_limits p)"

lemma in_sync_new:
  "5 \<le> maximum_tracked_chunk_streams limits \<Longrightarrow> 1 \<le> maximum_partial_messages limits \<Longrightarrow>
   in_sync encoder_new (parser_with_limits limits)"
  by (auto simp: in_sync_def encoder_ok_def encoder_new_def boundary_def parser_with_limits_def slot_of_def
      outbound_csids_def)

lemma slot_index: "c \<in> outbound_csids \<Longrightarrow> c' \<in> outbound_csids \<Longrightarrow> unat (c - 2) = unat (c' - 2) \<longleftrightarrow> c = c'"
  and slot_bound: "c \<in> outbound_csids \<Longrightarrow> unat (c - 2) < 5"
  by (auto simp: outbound_csids_def)

lemma slot_of_update:
  assumes "length (ce_previous_headers e) = 5" and "c \<in> outbound_csids" "c' \<in> outbound_csids"
    and "ce_previous_headers e' = (ce_previous_headers e)[unat (c - 2) := Some h]"
  shows "slot_of e' c' = (if c' = c then Some h else slot_of e c')"
  using assms slot_index [OF assms(2,3)] slot_bound [OF assms(2)] by (auto simp: slot_of_def)

lemma streams_room:
  assumes "boundary p" and "\<And>cid s. hm_get (cp_streams p) cid = Some s \<Longrightarrow> cid \<in> outbound_csids"
    and "c \<in> outbound_csids" "hm_get (cp_streams p) c = None"
  shows "hm_len (cp_streams p) < 5"
proof -
  have "dom (hm_get (cp_streams p)) \<subseteq> outbound_csids - {c}"
    using assms by auto
  moreover have "finite outbound_csids" "card outbound_csids = 5"
    by (simp_all add: outbound_csids_def)
  ultimately have "card (dom (hm_get (cp_streams p))) \<le> 4"
    using card_mono [of "outbound_csids - {c}"] assms(3) by (simp add: card_Diff_singleton)
  then show ?thesis
    using assms(1) by (simp add: boundary_def hm.size_card)
qed

lemma idle_count:
  "boundary p \<Longrightarrow> (\<And>cid s. hm_get (cp_streams p) cid = Some s \<Longrightarrow> \<not> st_active s) \<Longrightarrow> active_count (cp_streams p) = 0"
  using hm.count_zero [of "cp_streams p" st_active] by (auto simp: boundary_def active_count_def)

lemma encode_header_facts:
  assumes "encode_header slot m len options = (h, f)"
  shows "ch_chunk_stream_id h = get_csid_for_message_type (rm_type_id m)" "ch_timestamp h = rm_timestamp m"
    "ch_message_length h = word_of_nat len" "ch_message_type_id h = rm_type_id m"
    "ch_message_stream_id h = rm_message_stream_id m" "ch_can_be_dropped h \<longleftrightarrow> eo_drop_policy options = Allowed"
    and "f = FormatFull \<Longrightarrow> ch_timestamp_field h = ts_value (rm_timestamp m)"
    and "eo_headers options = Full \<Longrightarrow> f = FormatFull"
    and "f \<noteq> FormatFull \<Longrightarrow> \<exists>prev. slot = Some prev \<and> \<not> ch_can_be_dropped prev
      \<and> ch_message_stream_id prev = rm_message_stream_id m
      \<and> ch_timestamp_field h = ts_value (rm_timestamp m) - ts_value (ch_timestamp prev)
      \<and> (f \<noteq> TimeDeltaWithoutMessageStreamId \<longrightarrow> ch_message_type_id prev = rm_type_id m
           \<and> ch_message_length prev = word_of_nat len)
      \<and> (f = FormatEmpty \<longrightarrow> ch_timestamp_field prev = ch_timestamp_field h)"
  using assms by (auto simp: encode_header_def Let_def split: option.splits if_splits)

text \<open>Transmitting a packet keeps the two sides in sync and delivers its message.\<close>

lemma sync_transmit:
  assumes sync: "in_sync e p" and cid: "cid = get_csid_for_message_type (rm_type_id m)"
    and h: "encode_header (slot_of e cid) m (length d) options = (h, f)"
    and len: "length d \<le> 0xffffff" "length d \<le> maximum_message_size (cp_limits p)"
    and e': "encoder_ok e'" "ce_max_chunk_size e' = ce_max_chunk_size e"
      "ce_previous_headers e' = (ce_previous_headers e)[unat (cid - 2) := Some h]"
    and g: "g = (if eo_headers options = Full then FormatFull else FormatEmpty)" and A: "A cid = None"
  shows "\<exists>p' fs. parse_all p (wire (header_bytes h f) (header_bytes h g) (unat (ce_max_chunk_size e)) d @ rest)
      = (case parse_all p' rest of (q, gs, er) \<Rightarrow> (q, fs @ gs, er))
    \<and> assemble A fs = (A, [\<lparr>rm_timestamp = rm_timestamp m, rm_type_id = rm_type_id m,
        rm_message_stream_id = rm_message_stream_id m, rm_data = d\<rparr>])
    \<and> (\<forall>x \<in> set fs. mh_chunk_stream_id (mf_header x) = cid \<and> mh_message_length (mf_header x) = length d)
    \<and> in_sync e' p' \<and> cp_limits p' = cp_limits p"
proof -
  note facts = encode_header_facts [OF h]
  let ?old = "hm_get (cp_streams p) cid"
  have out: "cid \<in> outbound_csids" and bnd: "boundary p" and pcs: "cp_chunk_size p = unat (ce_max_chunk_size e)"
    and lim: "5 \<le> maximum_tracked_chunk_streams (cp_limits p)" "1 \<le> maximum_partial_messages (cp_limits p)"
    and str: "\<And>j s. hm_get (cp_streams p) j = Some s \<Longrightarrow>
      j \<in> outbound_csids \<and> \<not> st_active s \<and> mh_chunk_stream_id (st_header s) = j"
    and slot: "\<And>j h. j \<in> outbound_csids \<Longrightarrow> slot_of e j = Some h \<Longrightarrow> ch_can_be_dropped h \<or>
      (\<exists>s. hm_get (cp_streams p) j = Some s \<and> st_header s = wire_header h \<and> st_time_field s = ch_timestamp_field h)"
    using sync by (auto simp: in_sync_def cid)
  have hcid: "ch_chunk_stream_id h = cid"
    using facts(1) cid by simp
  have ulen: "unat (ch_message_length h) = length d"
    using len(1) by (simp add: facts(3) unat_of_nat)
  have prev: "\<exists>s prev. ?old = Some s \<and> slot_of e cid = Some prev \<and> st_header s = wire_header prev
      \<and> st_time_field s = ch_timestamp_field prev \<and> ch_message_stream_id prev = rm_message_stream_id m
      \<and> ch_timestamp_field h = ts_value (rm_timestamp m) - ts_value (ch_timestamp prev)
      \<and> (f \<noteq> TimeDeltaWithoutMessageStreamId \<longrightarrow> ch_message_type_id prev = rm_type_id m
           \<and> ch_message_length prev = word_of_nat (length d))
      \<and> (f = FormatEmpty \<longrightarrow> ch_timestamp_field prev = ch_timestamp_field h)" if "f \<noteq> FormatFull"
    using facts(9) [OF that] slot [OF out] by blast
  have implied: "implied_fields h f ?old"
    using str prev facts(3-5) unfolding implied_fields_def hcid
    by (cases "f = FormatFull") (auto simp: wire_header_def)
  have time: "if f = FormatFull then ts_new (ch_timestamp_field h) = ch_timestamp h
      else \<forall>s. ?old = Some s \<longrightarrow> ts_add_u32 (mh_timestamp (st_header s)) (ch_timestamp_field h) = ch_timestamp h"
    using prev facts(2,7) by (cases "f = FormatFull") (auto simp: wire_header_def)
  have bp: "length (cp_scratch p) = 18"
    using bnd by (simp add: boundary_def)
  have first: "chunk_stream (with_header p (header_bytes h f) (length (header_bytes h f))) =
      Inr \<lparr>st_header = wire_header h, st_time_field = ch_timestamp_field h, st_received = 0, st_active = True\<rparr>"
  proof (rule first_chunk_stream [OF bp refl _ _ _ implied _ _ _ _ time, unfolded hcid])
    show "active_count (cp_streams p) < maximum_partial_messages (cp_limits p)"
      using idle_count [OF bnd] str lim by auto
    show "hm_len (cp_streams p) < maximum_tracked_chunk_streams (cp_limits p)" if "?old = None"
      using streams_room [OF bnd _ out that] str lim by auto
  qed (use out len ulen str in auto)
  have cont: "g = FormatEmpty \<or> g = FormatFull \<and> ts_value (ch_timestamp h) = ch_timestamp_field h"
    using facts(2,7,8) g by auto
  have empty: "\<exists>s. hm_get (cp_streams p) (ch_chunk_stream_id h) = Some s \<and> st_time_field s = ch_timestamp_field h"
    if "f = FormatEmpty"
    using prev that hcid by fastforce
  have ids: "ch_chunk_stream_id h \<in> outbound_csids" "unat (ch_message_length h) < 2 ^ 24"
    "length d = unat (ch_message_length h)" "unat (ch_message_length h) \<le> maximum_message_size (cp_limits p)"
    "A (ch_chunk_stream_id h) = None"
    using out hcid len ulen A by simp_all
  from parse_packet [OF bnd ids(1-3) pcs [symmetric] ids(4) empty first cont, where A = A and rest = rest, OF _ ids(5), unfolded hcid]
  obtain p' fs s' where parsed: "parse_all p (wire (header_bytes h f) (header_bytes h g) (unat (ce_max_chunk_size e)) d @ rest)
      = (case parse_all p' rest of (q, gs, er) \<Rightarrow> (q, fs @ gs, er))"
    "assemble A fs = (A, [header_message (wire_header h) d])" "only_stream p p' cid s'"
    "st_header s' = wire_header h" "st_time_field s' = ch_timestamp_field h" "\<not> st_active s'"
      "\<forall>x \<in> set fs. mf_header x = wire_header h"
    by blast
  have "header_message (wire_header h) d = \<lparr>rm_timestamp = rm_timestamp m, rm_type_id = rm_type_id m,
      rm_message_stream_id = rm_message_stream_id m, rm_data = d\<rparr>"
    using facts by (simp add: header_message_def wire_header_def)
  moreover have "in_sync e' p'"
  proof -
    have upd: "slot_of e' j = (if j = cid then Some h else slot_of e j)" if "j \<in> outbound_csids" for j
      using slot_of_update [OF _ out that e'(3)] sync by (simp add: in_sync_def encoder_ok_def)
    show ?thesis
      unfolding in_sync_def
      using parsed(3-6) e'(1,2) pcs lim str slot upd hcid out
      by (auto simp: only_stream_def wire_header_def split: if_splits)
  qed
  moreover have "\<forall>x \<in> set fs. mh_chunk_stream_id (mf_header x) = cid \<and> mh_message_length (mf_header x) = length d"
    using parsed(7) hcid ulen by (simp add: wire_header_def)
  ultimately show ?thesis
    using parsed(1-3) by (auto simp: only_stream_def)
qed

text \<open>Omitting a droppable packet keeps them in sync: the next header on its stream is a full one.\<close>

lemma sync_omit:
  assumes sync: "in_sync e p" and out: "cid \<in> outbound_csids" and h: "ch_can_be_dropped h"
    and e': "encoder_ok e'" "ce_max_chunk_size e' = ce_max_chunk_size e"
      "ce_previous_headers e' = (ce_previous_headers e)[unat (cid - 2) := Some h]"
  shows "in_sync e' p"
proof -
  have upd: "slot_of e' j = (if j = cid then Some h else slot_of e j)" if "j \<in> outbound_csids" for j
    using slot_of_update [OF _ out that e'(3)] sync by (simp add: in_sync_def encoder_ok_def)
  show ?thesis
    unfolding in_sync_def using sync e'(1,2) h upd by (auto simp: in_sync_def split: if_splits)
qed

section \<open>Sequences of packets\<close>

text \<open>
  A sender encodes messages in order and omits a packet when it wants to and the packet allows it.
  The result is the encoder, the bytes put on the wire and the messages that were transmitted.
\<close>

fun send_all ::
    "chunk_encoder \<Rightarrow> (payload raw_message \<times> encode_options \<times> bool) list \<Rightarrow>
     (chunk_encoder \<times> bytes \<times> bytes raw_message list) option" where
  "send_all e [] = Some (e, [], [])"
| "send_all e ((m, options, omit) # sends) =
     (case encode payload_ops e m options of
        (e', Inl err) \<Rightarrow> None
      | (e', Inr p) \<Rightarrow>
          (case (to_vec payload_ops p, send_all e' sends) of
             (Some bs, Some (e'', out, ms)) \<Rightarrow>
               if omit \<and> can_drop payload_ops p then Some (e'', out, ms)
               else Some (e'', bs @ out, rm_map payload_to_bytes m # ms)
           | _ \<Rightarrow> None))"

definition sendable :: "decoder_limits \<Rightarrow> payload raw_message \<Rightarrow> bool" where
  "sendable limits m \<longleftrightarrow> payload_wf (rm_data m) \<and> payload_len (rm_data m) \<le> 0xffffff
     \<and> payload_len (rm_data m) \<le> maximum_message_size limits"

lemma rm_map_record: "\<lparr>rm_timestamp = rm_timestamp m, rm_type_id = rm_type_id m,
    rm_message_stream_id = rm_message_stream_id m, rm_data = payload_contents (rm_data m)\<rparr> = rm_map payload_to_bytes m"
  by (simp add: rm_map_def)

text \<open>The fragments of one message: all on its chunk stream, under headers with its length.\<close>

definition fragments_of :: "payload raw_message \<Rightarrow> message_fragment list \<Rightarrow> bool" where
  "fragments_of m fs \<longleftrightarrow> (\<forall>f \<in> set fs. mh_chunk_stream_id (mf_header f) = get_csid_for_message_type (rm_type_id m)
     \<and> mh_message_length (mf_header f) = payload_len (rm_data m))"

text \<open>One packet of an encoder in sync with a parser, transmitted or omitted.\<close>

lemma encode_in_sync:
  assumes sync: "in_sync e p" and m: "sendable (cp_limits p) m"
  shows "\<exists>e' pk bs. encode payload_ops e m options = (e', Inr pk) \<and> to_vec payload_ops pk = Some bs
    \<and> (can_drop payload_ops pk \<longleftrightarrow> eo_drop_policy options = Allowed)
    \<and> (can_drop payload_ops pk \<longrightarrow> in_sync e' p) \<and> encoder_ok e' \<and> ce_max_chunk_size e' = ce_max_chunk_size e
    \<and> (\<forall>A rest. A (get_csid_for_message_type (rm_type_id m)) = None \<longrightarrow>
        (\<exists>p' fs. parse_all p (bs @ rest) = (case parse_all p' rest of (q, gs, er) \<Rightarrow> (q, fs @ gs, er))
          \<and> assemble A fs = (A, [rm_map payload_to_bytes m]) \<and> fragments_of m fs \<and> in_sync e' p' \<and> cp_limits p' = cp_limits p))"
proof -
  let ?cid = "get_csid_for_message_type (rm_type_id m)" and ?d = "payload_contents (rm_data m)"
  have wf: "payload_wf (rm_data m)" and len: "length ?d \<le> 0xffffff" "length ?d \<le> maximum_message_size (cp_limits p)"
    using m by (auto simp: sendable_def payload_len_def payload_wf_len)
  have ok: "encoder_ok e"
    using sync by (simp add: in_sync_def)
  obtain h f where h: "encode_header (slot_of e ?cid) m (length ?d) options = (h, f)"
    by (metis surj_pair)
  let ?g = "if eo_headers options = Full then FormatFull else FormatEmpty"
  let ?bs = "wire (header_bytes h f) (header_bytes h ?g) (unat (ce_max_chunk_size e)) ?d"
  obtain e' pk where e': "encode payload_ops e m options = (e', Inr pk)" "encoder_ok e'"
    "ce_max_chunk_size e' = ce_max_chunk_size e"
    "ce_previous_headers e' = (ce_previous_headers e)[unat (?cid - 2) := Some h]"
    "payload_seg.packet_inv pk ?bs" "pk_drop_policy pk = eo_drop_policy options" "pk_remaining pk = wire_len payload_ops pk"
    using payload_seg.encode_ok [OF ok wf len(1) slot_of_def h] by blast
  have drop: "can_drop payload_ops pk \<longleftrightarrow> eo_drop_policy options = Allowed"
    using e'(6,7) by (simp add: can_drop_def)
  have "in_sync e' p" if "can_drop payload_ops pk"
    using sync_omit [OF sync csid_outbound _ e'(2-4)] that drop encode_header_facts(6) [OF h] by simp
  moreover have "\<exists>p' fs. parse_all p (?bs @ rest) = (case parse_all p' rest of (q, gs, er) \<Rightarrow> (q, fs @ gs, er))
          \<and> assemble A fs = (A, [rm_map payload_to_bytes m]) \<and> fragments_of m fs \<and> in_sync e' p' \<and> cp_limits p' = cp_limits p"
    if "A ?cid = None" for A rest
    using sync_transmit [OF sync refl h len e'(2-4) refl, of A rest] that wf by (simp add: rm_map_record fragments_of_def payload_len_def payload_wf_len)
  ultimately show ?thesis
    using e' payload_seg.to_vec_inv [OF e'(5)] drop by blast
qed

lemma encode_in_syncE:
  assumes "in_sync e p" and "sendable (cp_limits p) m"
  obtains e' pk bs where "encode payload_ops e m options = (e', Inr pk)" "to_vec payload_ops pk = Some bs"
    "can_drop payload_ops pk \<longleftrightarrow> eo_drop_policy options = Allowed" "can_drop payload_ops pk \<Longrightarrow> in_sync e' p"
    "ce_max_chunk_size e' = ce_max_chunk_size e"
    "\<And>rest. \<exists>p' fs. parse_all p (bs @ rest) = (case parse_all p' rest of (q, gs, er) \<Rightarrow> (q, fs @ gs, er))
       \<and> assemble Map.empty fs = (Map.empty, [rm_map payload_to_bytes m]) \<and> fragments_of m fs \<and> in_sync e' p' \<and> cp_limits p' = cp_limits p"
proof -
  obtain e' pk bs where r: "encode payload_ops e m options = (e', Inr pk)" "to_vec payload_ops pk = Some bs"
    "can_drop payload_ops pk \<longleftrightarrow> eo_drop_policy options = Allowed" "can_drop payload_ops pk \<longrightarrow> in_sync e' p"
    "ce_max_chunk_size e' = ce_max_chunk_size e"
    and step: "\<forall>A rest. A (get_csid_for_message_type (rm_type_id m)) = None \<longrightarrow>
        (\<exists>p' fs. parse_all p (bs @ rest) = (case parse_all p' rest of (q, gs, er) \<Rightarrow> (q, fs @ gs, er))
          \<and> assemble A fs = (A, [rm_map payload_to_bytes m]) \<and> fragments_of m fs \<and> in_sync e' p' \<and> cp_limits p' = cp_limits p)"
    using encode_in_sync [OF assms, of options] by (elim exE conjE) (rule that)
  show thesis
    by (rule that [OF r(1-3) mp [OF r(4)] r(5)]) (assumption, rule step [rule_format], rule refl)
qed

definition transmitted :: "(payload raw_message \<times> encode_options \<times> bool) list \<Rightarrow> bytes raw_message list" where
  "transmitted sends = map (\<lambda>(m, options, omit). rm_map payload_to_bytes m)
     (filter (\<lambda>(m, options, omit). \<not> (omit \<and> eo_drop_policy options = Allowed)) sends)"

lemma transmitted_simps [simp]:
  "transmitted [] = []"
  "transmitted ((m, options, omit) # sends) =
     (if omit \<and> eo_drop_policy options = Allowed then transmitted sends
      else rm_map payload_to_bytes m # transmitted sends)"
  by (simp_all add: transmitted_def)

lemma send_all_roundtrip:
  "in_sync e p \<Longrightarrow> list_all (\<lambda>x. sendable (cp_limits p) (fst x)) sends \<Longrightarrow>
   list_all (\<lambda>x. P (payload_len (rm_data (fst x)))) sends \<Longrightarrow>
   \<exists>e' out ms p' fs. send_all e sends = Some (e', out, ms) \<and> in_sync e' p'
     \<and> parse_all p out = (p', fs, None) \<and> assemble Map.empty fs = (Map.empty, ms) \<and> ms = transmitted sends
     \<and> alone (\<lambda>h. P (mh_message_length h)) Map.empty fs"
proof (induction sends arbitrary: e p)
  case Nil
  have "boundary p"
    using Nil by (simp add: in_sync_def)
  then have "parse_all p [] = (p, [], None)"
    by (rule parse_all_boundary)
  then show ?case
    using Nil by auto
next
  case (Cons send sends)
  obtain m options omit where send: "send = (m, options, omit)"
    by (cases send)
  have m: "sendable (cp_limits p) m" "P (payload_len (rm_data m))"
    and rest: "list_all (\<lambda>x. sendable (cp_limits p) (fst x)) sends" "list_all (\<lambda>x. P (payload_len (rm_data (fst x)))) sends"
    using Cons.prems(2,3) send by auto
  obtain e1 pk bs where enc: "encode payload_ops e m options = (e1, Inr pk)" "to_vec payload_ops pk = Some bs"
    "can_drop payload_ops pk \<longleftrightarrow> eo_drop_policy options = Allowed" "can_drop payload_ops pk \<Longrightarrow> in_sync e1 p"
    and step: "\<And>rest. \<exists>p' fs. parse_all p (bs @ rest) = (case parse_all p' rest of (q, gs, er) \<Rightarrow> (q, fs @ gs, er))
          \<and> assemble Map.empty fs = (Map.empty, [rm_map payload_to_bytes m]) \<and> fragments_of m fs \<and> in_sync e1 p' \<and> cp_limits p' = cp_limits p"
    by (rule encode_in_syncE [OF Cons.prems(1) m(1), of options]) (rule that)
  show ?case
  proof (cases "omit \<and> can_drop payload_ops pk")
    case True
    then obtain e' out ms p' fs where "send_all e1 sends = Some (e', out, ms)" "in_sync e' p'"
      "parse_all p out = (p', fs, None)" "assemble Map.empty fs = (Map.empty, ms)" "ms = transmitted sends"
      "alone (\<lambda>h. P (mh_message_length h)) Map.empty fs"
      using Cons.IH [OF enc(4) rest] by blast
    then show ?thesis
      using send enc True by auto
  next
    case False
    obtain p1 where p1: "in_sync e1 p1" "cp_limits p1 = cp_limits p"
      using step [of "[]"] by blast
    then obtain e' out ms where out: "send_all e1 sends = Some (e', out, ms)" "ms = transmitted sends"
      using Cons.IH [of e1 p1] rest by auto
    obtain p2 fs where p2: "parse_all p (bs @ out) = (case parse_all p2 out of (q, gs, er) \<Rightarrow> (q, fs @ gs, er))"
      "assemble Map.empty fs = (Map.empty, [rm_map payload_to_bytes m])" "in_sync e1 p2" "cp_limits p2 = cp_limits p"
      "fragments_of m fs"
      using step [of out] by blast
    obtain p' gs where gs: "in_sync e' p'" "parse_all p2 out = (p', gs, None)" "assemble Map.empty gs = (Map.empty, ms)"
      "alone (\<lambda>h. P (mh_message_length h)) Map.empty gs"
      using Cons.IH [OF p2(3)] rest p2(4) out by auto
    have "alone (\<lambda>h. P (mh_message_length h)) Map.empty fs"
      by (rule alone_same) (use p2(5) m(2) in \<open>auto simp: fragments_of_def\<close>)
    then show ?thesis
      using send enc False out p2 gs by (auto simp: assemble_append alone_append)
  qed
qed

text \<open>
  C1 (roundtrip). For every sequence of messages a sender encodes, each of at most 0xffffff bytes and within
  the receiver's message size limit, with compressed or full headers, omitting any droppable packets it
  likes, and a receiver that tracks at least five chunk streams and one partial message: encoding succeeds, and parsing the transmitted bytes and
  concatenating the fragments of each chunk stream gives back exactly the transmitted messages, with
  their timestamps, types, stream ids and payload bytes, in order.
\<close>

theorem encode_parse_roundtrip:
  assumes "5 \<le> maximum_tracked_chunk_streams limits" and "1 \<le> maximum_partial_messages limits"
    and "list_all (\<lambda>x. sendable limits (fst x)) sends"
  shows "\<exists>e out. send_all encoder_new sends = Some (e, out, transmitted sends)
    \<and> stream_messages limits out = transmitted sends"
proof -
  have "in_sync encoder_new (parser_with_limits limits)" "cp_limits (parser_with_limits limits) = limits"
    using in_sync_new [OF assms(1,2)] by (simp_all add: parser_with_limits_def)
  with send_all_roundtrip [of encoder_new "parser_with_limits limits" sends "\<lambda>n. True"] assms(3)
  show ?thesis
    by (auto simp: stream_messages_def list.pred_True)
qed

text \<open>
  C7 (liveness). End to end, with no assumption that the decoder succeeds: when every message is within
  the receiver's limits (its length within the message, buffer and fragment limits, one message may be
  unfinished and five chunk streams are tracked), a message decoder that reads the transmitted bytes in
  any pieces, owned or borrowed, reports no error, delivers exactly the transmitted messages in order,
  and ends idle with nothing buffered or reserved.
\<close>

theorem end_to_end:
  assumes "5 \<le> maximum_tracked_chunk_streams limits" and "1 \<le> maximum_partial_messages limits"
    and "maximum_buffered_bytes limits < usize_max" and "\<forall>n. n \<le> de_capacity env n"
    and "list_all (\<lambda>x. sendable limits (fst x)) sends"
    and "list_all (\<lambda>x. payload_len (rm_data (fst x)) \<le> maximum_buffered_bytes limits
      \<and> payload_len (rm_data (fst x)) \<le> maximum_fragments_per_message limits) sends"
    and "send_all encoder_new sends = Some (e, out, ms)" and "concat (map snd reads) = out"
  shows "\<exists>d. run_reads (md_next env) (decoder_with_limits limits) reads d (transmitted sends)
    \<and> decoder_is_idle d \<and> md_partials d = [] \<and> md_buffered d = 0 \<and> md_reserved d = 0"
proof -
  have sync: "in_sync encoder_new (parser_with_limits limits)" "cp_limits (parser_with_limits limits) = limits"
    using in_sync_new [OF assms(1,2)] by (simp_all add: parser_with_limits_def)
  have room: "(\<lambda>h. mh_message_length h \<le> maximum_buffered_bytes limits
      \<and> mh_message_length h \<le> maximum_fragments_per_message limits) = message_room limits"
    using assms(2) by (simp add: message_room_def fun_eq_iff)
  obtain e' p' fs where all: "in_sync e' p'" "parse_all (parser_with_limits limits) out = (p', fs, None)"
    "assemble Map.empty fs = (Map.empty, transmitted sends)" "alone (message_room limits) Map.empty fs"
    using send_all_roundtrip [OF sync(1), of sends "\<lambda>n. n \<le> maximum_buffered_bytes limits
      \<and> n \<le> maximum_fragments_per_message limits"] assms(5-7) sync(2) unfolding room by auto
  obtain d where d: "run_reads (md_next env) (decoder_with_limits limits) reads d (transmitted sends)"
    "md_parser d = p'" "md_partial d = Map.empty" "md_inv d"
    using decoder_reads_complete [of env limits reads p' fs] assms(3,4,8) all(2-4)
    by (auto simp: env_ok_def limits_ok_def)
  have none: "md_partials d = []"
    using d(3,4) hm_only(1) [of "md_partials d" 0] by (simp add: md_inv_def md_books_def md_partial_def fun_eq_iff)
  have "decoder_is_idle d"
    using all(1) d(2) idle_count [of p']
    by (auto simp: decoder_is_idle_def parser_is_idle_def in_sync_def boundary_def active_count_def
        list.pred_set filter_empty_conv)
  then show ?thesis
    using d(1,4) none by (auto simp: md_inv_def md_books_def)
qed

section \<open>Changing the chunk size\<close>

text \<open>
  A sender and a receiver in lockstep: the receiver parses each packet and applies a SetChunkSize
  message to its parser, as the sessions do.
\<close>

datatype send_op = SendMessage "payload raw_message" encode_options | SendChunkSize u32 rtmp_timestamp

definition receive_packet :: "chunk_parser \<Rightarrow> bytes \<Rightarrow> (chunk_parser \<times> bytes raw_message) option" where
  "receive_packet p bs =
     (case parse_all p bs of
        (p', fs, None) \<Rightarrow>
          (case snd (assemble Map.empty fs) of
             [m] \<Rightarrow>
               if rm_type_id m = 1
               then (case set_chunk_size_deserialize (rm_data m) :: message_deserialization_error + (unit, unit) rtmp_message of
                       Inr (SetChunkSize n) \<Rightarrow>
                         (case parser_set_chunk_size p' (unat n) of Inr p'' \<Rightarrow> Some (p'', m) | Inl e \<Rightarrow> None)
                     | _ \<Rightarrow> None)
               else Some (p', m)
           | _ \<Rightarrow> None)
      | _ \<Rightarrow> None)"

fun exchange :: "chunk_encoder \<Rightarrow> chunk_parser \<Rightarrow> send_op list \<Rightarrow> bytes raw_message list option" where
  "exchange e p [] = Some []"
| "exchange e p (op # sends) =
     (case (case op of
              SendMessage m options \<Rightarrow> encode payload_ops e m options
            | SendChunkSize n time \<Rightarrow> encoder_set_chunk_size e n time) of
        (e', Inl err) \<Rightarrow> None
      | (e', Inr pk) \<Rightarrow>
          (case to_vec payload_ops pk of
             None \<Rightarrow> None
           | Some bs \<Rightarrow>
               (case receive_packet p bs of
                  None \<Rightarrow> None
                | Some (p', m) \<Rightarrow> map_option (Cons m) (exchange e' p' sends))))"

fun op_message :: "send_op \<Rightarrow> bytes raw_message" where
  "op_message (SendMessage m options) = rm_map payload_to_bytes m"
| "op_message (SendChunkSize n time) =
     \<lparr>rm_timestamp = time, rm_type_id = 1, rm_message_stream_id = 0, rm_data = be32 n\<rparr>"

fun op_ok :: "decoder_limits \<Rightarrow> send_op \<Rightarrow> bool" where
  "op_ok limits (SendMessage m options) \<longleftrightarrow> sendable limits m \<and> rm_type_id m \<noteq> 1"
| "op_ok limits (SendChunkSize n time) \<longleftrightarrow> 0 < n \<and> unat n \<le> 0x7fffffff \<and> unat n \<le> maximum_chunk_size limits
     \<and> 4 \<le> maximum_message_size limits"

lemma receive_message:
  assumes sync: "in_sync e p" and m: "sendable (cp_limits p) m" and enc: "encode payload_ops e m options = (e', Inr pk)"
  shows "\<exists>bs p' fs. to_vec payload_ops pk = Some bs \<and> parse_all p bs = (p', fs, None)
    \<and> assemble Map.empty fs = (Map.empty, [rm_map payload_to_bytes m]) \<and> in_sync e' p' \<and> cp_limits p' = cp_limits p
    \<and> ce_max_chunk_size e' = ce_max_chunk_size e"
proof -
  obtain e1 pk1 bs where r: "encode payload_ops e m options = (e1, Inr pk1)" "to_vec payload_ops pk1 = Some bs"
    "ce_max_chunk_size e1 = ce_max_chunk_size e"
    "\<And>rest. \<exists>p' fs. parse_all p (bs @ rest) = (case parse_all p' rest of (q, gs, er) \<Rightarrow> (q, fs @ gs, er))
          \<and> assemble Map.empty fs = (Map.empty, [rm_map payload_to_bytes m]) \<and> fragments_of m fs \<and> in_sync e1 p' \<and> cp_limits p' = cp_limits p"
    by (rule encode_in_syncE [OF sync m, of options]) (rule that)
  have same: "e1 = e'" "pk1 = pk"
    using r(1) enc by auto
  have bs: "to_vec payload_ops pk = Some bs" "ce_max_chunk_size e' = ce_max_chunk_size e"
    using r(2,3) same by auto
  from r(4) [of "[]"] same obtain p' fs where p': "parse_all p (bs @ []) = (case parse_all p' [] of (q, gs, er) \<Rightarrow> (q, fs @ gs, er))"
    "assemble Map.empty fs = (Map.empty, [rm_map payload_to_bytes m])" "in_sync e' p'" "cp_limits p' = cp_limits p"
    by blast
  have "parse_all p' [] = (p', [], None)"
    by (rule parse_all_boundary) (use p'(3) in \<open>simp add: in_sync_def\<close>)
  then show ?thesis
    using p' bs by auto
qed

lemma exchange_roundtrip:
  "in_sync e p \<Longrightarrow> list_all (op_ok (cp_limits p)) ops \<Longrightarrow> exchange e p ops = Some (map op_message ops)"
proof (induction ops arbitrary: e p)
  case (Cons op ops)
  have ops: "list_all (op_ok (cp_limits p)) ops"
    using Cons.prems(2) by simp
  show ?case
  proof (cases op)
    case (SendMessage m options)
    then have m: "sendable (cp_limits p) m" "rm_type_id m \<noteq> 1"
      using Cons.prems(2) by auto
    obtain e' pk where enc: "encode payload_ops e m options = (e', Inr pk)"
      by (rule encode_in_syncE [OF Cons.prems(1) m(1), of options]) (rule that)
    from receive_message [OF Cons.prems(1) m(1) enc] obtain bs p' fs where
      "to_vec payload_ops pk = Some bs" "parse_all p bs = (p', fs, None)"
      "assemble Map.empty fs = (Map.empty, [rm_map payload_to_bytes m])" "in_sync e' p'" "cp_limits p' = cp_limits p"
      by blast
    then show ?thesis
      using SendMessage enc Cons.IH [of e' p'] ops m(2) by (simp add: receive_packet_def)
  next
    case (SendChunkSize n time)
    then have n: "0 < n" "unat n \<le> 0x7fffffff" "unat n \<le> maximum_chunk_size (cp_limits p)"
      "4 \<le> maximum_message_size (cp_limits p)"
      using Cons.prems(2) by auto
    have nle: "n \<le> 0x7fffffff"
      using n(2) by (simp add: word_le_nat_alt)
    let ?m = "\<lparr>rm_timestamp = time, rm_type_id = 1, rm_message_stream_id = 0, rm_data = payload_from_bytes (be32 n)\<rparr>"
    let ?options = "encode_options_default\<lparr>eo_headers := Full\<rparr>"
    have m: "sendable (cp_limits p) ?m"
      using n(4) by (simp add: sendable_def payload_len_def payload_from_bytes_def payload_wf_def)
    obtain e' pk where enc: "encode payload_ops e ?m ?options = (e', Inr pk)"
      by (rule encode_in_syncE [OF Cons.prems(1) m, of ?options]) (rule that)
    from receive_message [OF Cons.prems(1) m enc] obtain bs p' fs where
      r: "to_vec payload_ops pk = Some bs" "parse_all p bs = (p', fs, None)"
      "assemble Map.empty fs = (Map.empty, [rm_map payload_to_bytes ?m])" "in_sync e' p'" "cp_limits p' = cp_limits p"
      by blast
    have set: "encoder_set_chunk_size e n time = (e'\<lparr>ce_max_chunk_size := n\<rparr>, Inr pk)"
      using n(1) nle enc by (simp add: encoder_set_chunk_size_def set_chunk_size_serialize_def not_less)
    have rm: "rm_map payload_to_bytes ?m = op_message op"
      by (simp add: SendChunkSize rm_map_def)
    have "unat n \<noteq> 0"
      using n(1) by (simp add: unat_eq_0)
    then have p'': "parser_set_chunk_size p' (unat n) = Inr (p'\<lparr>cp_chunk_size := unat n\<rparr>)"
      using n r(5) by (simp add: parser_set_chunk_size_def)
    have recv: "receive_packet p bs = Some (p'\<lparr>cp_chunk_size := unat n\<rparr>, op_message op)"
      using r(2,3) rm p'' nle SendChunkSize
      by (simp add: receive_packet_def set_chunk_size_deserialize_def not_less)
    have "in_sync (e'\<lparr>ce_max_chunk_size := n\<rparr>) (p'\<lparr>cp_chunk_size := unat n\<rparr>)"
      using r(4) \<open>unat n \<noteq> 0\<close> by (auto simp: in_sync_def encoder_ok_def boundary_def slot_of_def)
    from Cons.IH [OF this] show ?thesis
      using SendChunkSize set r(1,5) recv ops by simp
  qed
qed simp

text \<open>
  C4 (roundtrip). With SetChunkSize messages anywhere in a sequence of messages within the limits (\<open>op_ok\<close>), sent
  by \<open>ChunkEncoder::set_chunk_size\<close> and applied by the receiver when it has decoded them, every message
  still arrives unchanged: the encoder switches to the new size exactly after the packet that
  announces it.
\<close>

theorem chunk_size_changes_roundtrip:
  assumes "5 \<le> maximum_tracked_chunk_streams limits" and "1 \<le> maximum_partial_messages limits"
    and "list_all (op_ok limits) sends"
  shows "exchange encoder_new (parser_with_limits limits) sends = Some (map op_message sends)"
  by (rule exchange_roundtrip [OF in_sync_new [OF assms(1,2)]]) (use assms(3) in \<open>simp add: parser_with_limits_def\<close>)

section \<open>Witnesses\<close>

definition sample_send :: "payload raw_message" where
  "sample_send = rm_map payload_from_bytes sample_message"

lemma sample_sendable: "sendable decoder_limits_default sample_send"
  by (simp add: sendable_def sample_send_def sample_message_def payload_len_def decoder_limits_default_def
      payload_from_bytes_def payload_wf_def rm_map_def)

lemma sample_send_bytes: "rm_map payload_to_bytes sample_send = sample_message"
  by (simp add: sample_send_def sample_message_def rm_map_def)

lemma default_limits_room:
  "5 \<le> maximum_tracked_chunk_streams decoder_limits_default" "1 \<le> maximum_partial_messages decoder_limits_default"
  by (simp_all add: decoder_limits_default_def)

theorem encode_parse_roundtrip_witness:
  "\<exists>e out. send_all encoder_new
      [(sample_send, encode_options_default, False),
       (sample_send, encode_options_default\<lparr>eo_drop_policy := Allowed\<rparr>, True),
       (sample_send, encode_options_default, False)] = Some (e, out, [sample_message, sample_message])
    \<and> stream_messages decoder_limits_default out = [sample_message, sample_message]"
  using encode_parse_roundtrip [OF default_limits_room, of
      "[(sample_send, encode_options_default, False),
       (sample_send, encode_options_default\<lparr>eo_drop_policy := Allowed\<rparr>, True),
       (sample_send, encode_options_default, False)]"]
  by (simp add: sample_sendable sample_send_bytes encode_options_default_def)

lemma sample_wire:
  "map_option snd (send_all encoder_new [(sample_send, encode_options_default, False)])
   = Some ([2, 0, 0, 7, 0, 0, 1, 5, 1, 0, 0, 0, 42], [sample_message])"
  by code_simp

theorem end_to_end_witness:
  "\<exists>e d. send_all encoder_new [(sample_send, encode_options_default, False)]
      = Some (e, [2, 0, 0, 7, 0, 0, 1, 5, 1, 0, 0, 0, 42], [sample_message])
    \<and> run_reads (md_next exact_env) (decoder_with_limits decoder_limits_default)
      [(True, [2, 0, 0, 7, 0]), (False, []), (False, [0, 1, 5, 1, 0, 0, 0]), (True, [42])] d [sample_message]
    \<and> decoder_is_idle d"
proof -
  obtain e where e: "send_all encoder_new [(sample_send, encode_options_default, False)]
      = Some (e, [2, 0, 0, 7, 0, 0, 1, 5, 1, 0, 0, 0, 42], [sample_message])"
    using sample_wire by (auto simp del: send_all.simps)
  have fits: "list_all (\<lambda>x. payload_len (rm_data (fst x)) \<le> maximum_buffered_bytes decoder_limits_default
      \<and> payload_len (rm_data (fst x)) \<le> maximum_fragments_per_message decoder_limits_default)
      [(sample_send, encode_options_default, False)]"
    by (simp add: sample_send_def sample_message_def rm_map_def payload_len_def payload_from_bytes_def
        decoder_limits_default_def)
  show ?thesis
    using end_to_end [OF default_limits_room exact_env_ok(2,1) _ fits e,
        of "[(True, [2, 0, 0, 7, 0]), (False, []), (False, [0, 1, 5, 1, 0, 0, 0]), (True, [42])]"] e
    by (auto simp: sample_sendable sample_send_bytes simp del: send_all.simps)
qed

theorem chunk_size_changes_roundtrip_witness:
  "exchange encoder_new (parser_with_limits decoder_limits_default)
     [SendChunkSize 4096 (ts_new 0), SendMessage sample_send encode_options_default]
   = Some [\<lparr>rm_timestamp = ts_new 0, rm_type_id = 1, rm_message_stream_id = 0, rm_data = be32 4096\<rparr>, sample_message]"
proof -
  have "op_ok decoder_limits_default (SendChunkSize 4096 (ts_new 0))"
    by (simp add: decoder_limits_default_def)
  moreover have "op_ok decoder_limits_default (SendMessage sample_send encode_options_default)"
    using sample_sendable by (simp add: sample_send_def sample_message_def)
  ultimately show ?thesis
    using chunk_size_changes_roundtrip [OF default_limits_room,
        of "[SendChunkSize 4096 (ts_new 0), SendMessage sample_send encode_options_default]"]
    by (simp add: sample_send_bytes del: exchange.simps op_ok.simps)
qed

end
