(* ===== verification/Graph_Copy.thy ===== *)
theory Graph_Copy
  imports Amf_Graph
begin

text \<open>
  When is one object graph a copy of another? Serializing a document and reading it back renumbers the
  objects and moves every complex value into the arena. \<open>copy_of\<close> relates a value of the source with a
  value of the copy: a reference follows the renumbering \<open>refs\<close>, a complex value becomes a reference to
  a slot of the copy's arena that has the same shape and copied children, and values the client calls
  leaves are related by the client's relation. A copy of a tree unfolds to the tree.
\<close>

inductive copy_of ::
    "('v, 'x) graph_ops \<Rightarrow> ('v \<Rightarrow> 'v list \<Rightarrow> 'v) \<Rightarrow> ('v \<Rightarrow> bool) \<Rightarrow> ('v \<Rightarrow> 'v \<Rightarrow> bool) \<Rightarrow>
     (object_id \<Rightarrow> object_id option) \<Rightarrow> 'v list \<Rightarrow> 'v \<Rightarrow> 'v \<Rightarrow> bool"
  for ops repl complex leaf refs objs where
  copy_ref: "gv_reference ops v = Some i \<Longrightarrow> refs i = Some n \<Longrightarrow> gv_reference ops a = Some n \<Longrightarrow>
    copy_of ops repl complex leaf refs objs v a"
| copy_leaf: "leaf v a \<Longrightarrow> copy_of ops repl complex leaf refs objs v a"
| copy_node: "complex v \<Longrightarrow> gv_reference ops a = Some n \<Longrightarrow> n < length objs \<Longrightarrow> complex (objs ! n) \<Longrightarrow>
    objs ! n = repl v (gv_children ops (objs ! n)) \<Longrightarrow>
    list_all2 (copy_of ops repl complex leaf refs objs) (gv_children ops v) (gv_children ops (objs ! n)) \<Longrightarrow>
    copy_of ops repl complex leaf refs objs v a"

text \<open>The content of a slot is the copy of a complex value.\<close>

definition node_copy ::
    "('v, 'x) graph_ops \<Rightarrow> ('v \<Rightarrow> 'v list \<Rightarrow> 'v) \<Rightarrow> ('v \<Rightarrow> bool) \<Rightarrow> ('v \<Rightarrow> 'v \<Rightarrow> bool) \<Rightarrow>
     (object_id \<Rightarrow> object_id option) \<Rightarrow> 'v list \<Rightarrow> 'v \<Rightarrow> 'v \<Rightarrow> bool" where
  "node_copy ops repl complex leaf refs objs v w \<longleftrightarrow>
     complex v \<and> complex w \<and> w = repl v (gv_children ops w)
     \<and> list_all2 (copy_of ops repl complex leaf refs objs) (gv_children ops v) (gv_children ops w)"

lemma copy_of_node:
  "node_copy ops repl complex leaf refs objs v (objs ! n) \<Longrightarrow> n < length objs \<Longrightarrow> gv_reference ops a = Some n \<Longrightarrow>
   copy_of ops repl complex leaf refs objs v a"
  by (rule copy_node) (auto simp: node_copy_def)

text \<open>
  A document is a copy of another under a renumbering of its objects: the roots are copies, every
  numbered object has its copy in its slot, and no two objects share a slot.
\<close>

definition document_copy ::
    "('v, 'x) graph_ops \<Rightarrow> ('v \<Rightarrow> 'v list \<Rightarrow> 'v) \<Rightarrow> ('v \<Rightarrow> bool) \<Rightarrow> ('v \<Rightarrow> 'v \<Rightarrow> bool) \<Rightarrow>
     (object_id \<Rightarrow> object_id option) \<Rightarrow> 'v document \<Rightarrow> 'v document \<Rightarrow> bool" where
  "document_copy ops repl complex leaf refs d d' \<longleftrightarrow>
     list_all2 (copy_of ops repl complex leaf refs (doc_objects d')) (doc_roots d) (doc_roots d')
     \<and> inj_on refs (dom refs)
     \<and> (\<forall>i n. refs i = Some n \<longrightarrow> i < length (doc_objects d) \<and> n < length (doc_objects d')
          \<and> node_copy ops repl complex leaf refs (doc_objects d') (doc_objects d ! i) (doc_objects d' ! n))"

text \<open>Copies survive the growth of the numbering and of the arena; slots without a complex value may change.\<close>

definition arena_le :: "('v \<Rightarrow> bool) \<Rightarrow> 'v list \<Rightarrow> 'v list \<Rightarrow> bool" where
  "arena_le complex objs objs' \<longleftrightarrow>
     (\<forall>n<length objs. complex (objs ! n) \<longrightarrow> n < length objs' \<and> objs' ! n = objs ! n)"

lemma arena_le_refl [simp]: "arena_le complex objs objs"
  by (simp add: arena_le_def)

lemma arena_le_append [simp]: "arena_le complex objs (objs @ xs)"
  by (simp add: arena_le_def nth_append)

lemma arena_le_update: "\<not> complex (objs ! i) \<Longrightarrow> arena_le complex objs (objs[i := x])"
  unfolding arena_le_def by (metis length_list_update nth_list_update_neq)

lemma arena_le_trans: "arena_le complex a b \<Longrightarrow> arena_le complex b c \<Longrightarrow> arena_le complex a c"
  by (auto simp: arena_le_def)

lemma copy_of_mono:
  assumes "copy_of ops repl complex leaf refs objs v a" and "refs \<subseteq>\<^sub>m refs'" and "arena_le complex objs objs'"
    and leaf: "\<And>x y. leaf x y \<Longrightarrow> leaf' x y"
  shows "copy_of ops repl complex leaf' refs' objs' v a"
  using assms(1)
proof induction
  case (copy_ref v i n a)
  then show ?case
    using assms(2) by (intro copy_of.copy_ref [of ops v i _ n]) (auto simp: map_le_def dom_def)
next
  case (copy_leaf v a)
  then show ?case
    by (intro copy_of.copy_leaf leaf)
next
  case (copy_node v a n)
  then have "n < length objs'" "objs' ! n = objs ! n"
    using assms(3) by (auto simp: arena_le_def)
  with copy_node show ?case
    by (intro copy_of.copy_node [of complex v ops a n]) (auto elim: list_all2_mono)
qed

lemma node_copy_mono:
  assumes "node_copy ops repl complex leaf refs objs v w" and "refs \<subseteq>\<^sub>m refs'" and "arena_le complex objs objs'"
    and "\<And>x y. leaf x y \<Longrightarrow> leaf' x y"
  shows "node_copy ops repl complex leaf' refs' objs' v w"
  using assms unfolding node_copy_def by (auto elim!: list_all2_mono intro: copy_of_mono)

lemma traverse_related:
  assumes "list_all2 P xs ys" "traverse f xs = Some rs" "\<And>x y r. P x y \<Longrightarrow> f x = Some r \<Longrightarrow> g y = Some r"
  shows "traverse g ys = Some rs"
  using assms(1,2)
proof (induction arbitrary: rs rule: list_all2_induct)
  case (Cons x xs y ys)
  then show ?case
    using assms(3) by (auto split: option.splits)
qed simp

text \<open>What the codecs need of their values: replacing children keeps the shape.\<close>

locale graph_shape = graph_value ops repl emb
  for ops :: "('v, 'x) graph_ops"
    and repl :: "'v \<Rightarrow> 'v list \<Rightarrow> 'v"
    and emb :: "nat \<Rightarrow> 'x list \<Rightarrow> 'v \<Rightarrow> 'v costed option" +
  fixes complex :: "'v \<Rightarrow> bool"
  assumes complex_node: "complex v \<Longrightarrow> gv_reference ops v = None"
    and complex_emb: "complex v \<Longrightarrow> emb k embedded v = Some (v, 0, 0)"
    and repl_repl: "length cs = length (gv_children ops v) \<Longrightarrow> repl (repl v cs) ds = repl v ds"
    and repl_heap: "length cs = length (gv_children ops v) \<Longrightarrow> gv_heap_bytes ops (repl v cs) = gv_heap_bytes ops v"
    and repl_self: "repl v (gv_children ops v) = v"
    and emb_closed: "emb k [] v = Some r \<Longrightarrow> emb k embedded v = Some r"
    and emb_self: "emb k [] v = Some (v', n, h) \<Longrightarrow> v' = v"
begin

lemma unfold_closed:
  "unfold_tree k ops repl emb [] [] v = Some r \<Longrightarrow> unfold_tree k ops repl emb objs embedded v = Some r"
proof (induction k arbitrary: v r)
  case (Suc k)
  have "traverse (unfold_tree k ops repl emb objs embedded) cs = Some rs"
    if "traverse (unfold_tree k ops repl emb [] []) cs = Some rs" for cs rs
    using that Suc.IH unfolding traverse_Some_iff by (auto elim: list_all2_mono)
  moreover have "deref ops objs v = Some v1" if "deref ops [] v = Some v1" for v1
    using that by (auto simp: deref_def split: option.splits)
  ultimately show ?case
    using Suc.prems emb_closed unfolding unfold_Suc_iff by blast
qed simp

lemma unfold_closed_self: "unfold_tree k ops repl emb [] [] v = Some (t, n, h) \<Longrightarrow> t = v"
proof (induction k arbitrary: v t n h)
  case (Suc k)
  then obtain v1 v2 n0 h0 rs where u: "deref ops [] v = Some v1" "emb k [] v1 = Some (v2, n0, h0)"
    "traverse (unfold_tree k ops repl emb [] []) (gv_children ops v1) = Some rs" "t = repl v2 (map fst rs)"
    unfolding unfold_Suc_iff by auto
  have "map fst rs = gv_children ops v1"
  proof (rule nth_equalityI)
    show "length (map fst rs) = length (gv_children ops v1)"
      using traverse_length [OF u(3)] by simp
    fix i assume "i < length (map fst rs)"
    then show "map fst rs ! i = gv_children ops v1 ! i"
      using u(3) Suc.IH unfolding traverse_Some_iff by (auto simp: list_all2_conv_all_nth) (metis prod.collapse)
  qed
  then show ?case
    using u emb_self [OF u(2)] repl_self by (auto simp: deref_def split: option.splits)
qed simp

text \<open>Leaves related by equality on closed values; a client may add more.\<close>

lemma unfold_copy:
  assumes leaf: "\<And>v a k r. leaf v a \<Longrightarrow> unfold_tree k ops repl emb [] [] v = Some r \<Longrightarrow>
      unfold_tree k ops repl emb objs embedded a = Some r"
  shows "copy_of ops repl complex leaf refs objs v a \<Longrightarrow> unfold_tree k ops repl emb [] [] v = Some r \<Longrightarrow>
    unfold_tree k ops repl emb objs embedded a = Some r"
proof (induction k arbitrary: v a r)
  case (Suc k)
  from Suc.prems(1) show ?case
  proof cases
    case (copy_ref i n)
    then show ?thesis
      using Suc.prems(2) unfolding unfold_Suc_iff by (auto simp: deref_def)
  next
    case copy_leaf
    then show ?thesis
      using leaf Suc.prems(2) by blast
  next
    case (copy_node n)
    let ?w = "objs ! n"
    have len: "length (gv_children ops ?w) = length (gv_children ops v)"
      using copy_node(6) by (simp add: list_all2_lengthD)
    obtain rs where rs: "traverse (unfold_tree k ops repl emb [] []) (gv_children ops v) = Some rs"
      "r = (repl v (map fst rs), Suc (total_nodes rs), gv_heap_bytes ops v + total_bytes rs)"
      using Suc.prems(2) copy_node(1) unfolding unfold_Suc_iff
      by (auto simp: deref_def complex_node complex_emb)
    have "traverse (unfold_tree k ops repl emb objs embedded) (gv_children ops ?w) = Some rs"
      by (rule traverse_related [OF copy_node(6) rs(1) Suc.IH])
    moreover have "repl ?w ds = repl v ds" "gv_heap_bytes ops ?w = gv_heap_bytes ops v" for ds
      using copy_node(5) repl_repl [of "gv_children ops ?w" v ds] repl_heap [of "gv_children ops ?w" v] len
      by metis+
    ultimately show ?thesis
      using copy_node(2-4) rs(2) unfolding unfold_Suc_iff
      by (auto simp: deref_def complex_node complex_emb)
  qed
qed simp

lemma expand_copy:
  assumes leaf: "\<And>v a k r. leaf v a \<Longrightarrow> unfold_tree k ops repl emb [] [] v = Some r \<Longrightarrow>
      unfold_tree k ops repl emb (doc_objects d') embedded a = Some r"
    and "document_copy ops repl complex leaf refs d d'"
    and "expand ops (doc_roots d) [] limits = Some (Inr ts)"
  shows "expand_with_embedded ops (doc_roots d') (doc_objects d') embedded limits = Some (Inr ts)"
proof -
  let ?u = "unfold_tree (Suc (maximum_depth limits)) ops repl emb"
  obtain rs where rs: "traverse (?u [] []) (doc_roots d) = Some rs" "ts = map fst rs"
    "total_nodes rs \<le> maximum_nodes limits" "total_bytes rs \<le> maximum_bytes limits"
    using assms(3) unfolding expand_def expand_iff by blast
  have "list_all2 (copy_of ops repl complex leaf refs (doc_objects d')) (doc_roots d) (doc_roots d')"
    using assms(2) by (simp add: document_copy_def)
  then have "traverse (?u (doc_objects d') embedded) (doc_roots d') = Some rs"
    by (rule traverse_related [OF _ rs(1) unfold_copy [OF leaf]])
  with rs(2-4) show ?thesis
    unfolding expand_iff by blast
qed

end

end
