(* ===== verification/Amf3_Tree.thy ===== *)
theory Amf3_Tree
  imports Amf3 Graph_Copy
begin

text \<open>
  AMF3 values as graph nodes: replacing the children of a value, the interpretation of the graph
  interface on the model's operations, and what the expansion of a document (\<open>Amf3Document::to_tree\<close>)
  returns.
\<close>

section \<open>Replacing children\<close>

fun pair_up :: "'a list \<Rightarrow> ('a \<times> 'a) list" where
  "pair_up (k # v # cs) = (k, v) # pair_up cs"
| "pair_up _ = []"

fun amf3_replace :: "amf3_value \<Rightarrow> amf3_value list \<Rightarrow> amf3_value" where
  "amf3_replace (A3Array dense assoc) cs =
     A3Array (take (length dense) cs) (zip (map fst assoc) (drop (length dense) cs))"
| "amf3_replace (A3Object class_name sealed dynamic) cs =
     A3Object class_name (zip (map fst sealed) (take (length sealed) cs))
       (map_option (\<lambda>p. zip (map fst p) (drop (length sealed) cs)) dynamic)"
| "amf3_replace (A3Externalizable class_name v) cs = A3Externalizable class_name (hd cs)"
| "amf3_replace (A3VectorObject type_name fixed vs) cs = A3VectorObject type_name fixed cs"
| "amf3_replace (A3Dictionary weak_keys entries) cs = A3Dictionary weak_keys (pair_up cs)"
| "amf3_replace v cs = v"

definition amf3_emb :: "nat \<Rightarrow> amf3_value list \<Rightarrow> amf3_value \<Rightarrow> amf3_value costed option" where
  "amf3_emb k embedded v = Some (v, 0, 0)"

definition amf3_complex :: "amf3_value \<Rightarrow> bool" where
  "amf3_complex v \<longleftrightarrow> object_marker v \<noteq> None"

lemma traverse_append:
  "traverse f (xs @ ys) = Option.bind (traverse f xs) (\<lambda>us. map_option ((@) us) (traverse f ys))"
proof (induction xs)
  case (Cons x xs)
  then show ?case
    by (cases "traverse f xs"; cases "traverse f ys") (auto split: option.splits)
qed (cases "traverse f ys"; simp)

lemma traverse_snd_eq: "traverse_snd f ps = map_option (zip (map fst ps)) (traverse f (map snd ps))"
  unfolding traverse_snd_def
proof (induction ps)
  case (Cons p ps)
  then show ?case
    by (cases p; cases "traverse f (map snd ps)") (auto split: option.splits)
qed simp

lemma traverse_pairs:
  "traverse (\<lambda>(k, v). Option.bind (f k) (\<lambda>k'. map_option (Pair k') (f v))) es =
   map_option pair_up (traverse f (concat (map (\<lambda>(k, v). [k, v]) es)))"
proof (induction es)
  case (Cons e es)
  then show ?case
    by (cases e; cases "traverse f (concat (map (\<lambda>(k, v). [k, v]) es))") (auto split: option.splits)
qed simp

lemma pair_up_concat [simp]: "pair_up (concat (map (\<lambda>(k, v). [k, v]) es)) = es"
  by (induction es) auto

lemma concat_pair_up: "length cs = 2 * n \<Longrightarrow> concat (map (\<lambda>(k, v). [k, v]) (pair_up cs)) = cs"
proof (induction n arbitrary: cs)
  case (Suc n)
  then obtain a b cs' where "cs = a # b # cs'"
    by (auto simp: length_Suc_conv)
  with Suc show ?case
    by simp
qed simp

lemma length_concat_pairs [simp]: "length (concat (map (\<lambda>(k, v). [k, v]) es)) = 2 * length es"
  by (induction es) auto

lemma length_pair_up: "length cs = 2 * n \<Longrightarrow> length (pair_up cs) = n"
  using concat_pair_up [of cs n] length_concat_pairs [of "pair_up cs"] by simp

lemma zip_fst_snd_eq [simp]: "zip (map fst ps) (map snd ps) = ps"
  by (induction ps) auto

lemma amf3_children_mut_eq:
  "amf3_children_mut f v = map_option (amf3_replace v) (traverse f (amf3_children v))"
proof (cases v)
  case (A3Object cn sealed dyn)
  then show ?thesis
    by (cases dyn; cases "traverse f (map snd sealed)"; cases "traverse f (map snd (the dyn))")
      (auto simp: traverse_snd_eq traverse_append dest!: traverse_length)
next
  case (A3Array dense assoc)
  then show ?thesis
    by (cases "traverse f dense"; cases "traverse f (map snd assoc)")
      (auto simp: traverse_snd_eq traverse_append dest!: traverse_length)
next
  case (A3VectorObject type_name fixed vs)
  then show ?thesis
    by (cases "traverse f vs") auto
next
  case (A3Dictionary weak_keys entries)
  then show ?thesis
    by (cases "traverse f (concat (map (\<lambda>(k, v). [k, v]) entries))") (auto simp: traverse_pairs)
qed (auto split: option.splits)

lemma amf3_pairs_bytes_zip [simp]:
  "length cs = length p \<Longrightarrow> amf3_pairs_bytes sizes (zip (map fst p) cs) = amf3_pairs_bytes sizes p"
proof -
  assume "length cs = length p"
  then have "map (\<lambda>(k, _). length k) (zip (map fst p) cs) = map (\<lambda>(k, _). length k) p"
    by (induction cs p rule: list_induct2) auto
  with \<open>length cs = length p\<close> show ?thesis
    by (simp add: amf3_pairs_bytes_def)
qed

lemma amf3_replace_replace:
  "length cs = length (amf3_children v) \<Longrightarrow> amf3_replace (amf3_replace v cs) ds = amf3_replace v ds"
  by (cases v) (auto simp: option.map_comp o_def map_option_case split: option.splits)

lemma amf3_replace_heap:
  "length cs = length (amf3_children v) \<Longrightarrow> amf3_heap_bytes sizes (amf3_replace v cs) = amf3_heap_bytes sizes v"
  by (cases v) (auto simp: length_pair_up split: option.splits)

lemma amf3_replace_self: "amf3_replace v (amf3_children v) = v"
  by (cases v) (auto split: option.splits simp: map_option_case)

lemma amf3_children_replace:
  "length cs = length (amf3_children v) \<Longrightarrow> amf3_children (amf3_replace v cs) = cs"
  by (cases v) (auto simp: concat_pair_up length_Suc_conv split: option.splits)

lemma amf3_complex_not_reference: "amf3_complex v \<Longrightarrow> amf3_reference v = None"
  by (cases v) (simp_all add: amf3_complex_def)

interpretation a3: graph_shape "amf3_graph sizes" amf3_replace amf3_emb amf3_complex
  for sizes :: amf3_sizes
proof unfold_locales
  fix f v
  show "gv_children_mut (amf3_graph sizes) f v = map_option (amf3_replace v) (traverse f (gv_children (amf3_graph sizes) v))"
    by (simp add: amf3_graph_def amf3_children_mut_eq)
next
  fix v :: amf3_value and cs :: "amf3_value list"
  assume "length cs = length (gv_children (amf3_graph sizes) v)"
  then show "amf3_replace (amf3_replace v cs) ds = amf3_replace v ds" for ds
    by (simp add: amf3_graph_def amf3_replace_replace)
next
  fix v :: amf3_value and cs :: "amf3_value list"
  assume "length cs = length (gv_children (amf3_graph sizes) v)"
  then show "gv_heap_bytes (amf3_graph sizes) (amf3_replace v cs) = gv_heap_bytes (amf3_graph sizes) v"
    by (simp add: amf3_graph_def amf3_replace_heap)
qed (auto simp: amf3_graph_def amf3_emb_def amf3_complex_not_reference amf3_replace_self)

section \<open>Induction\<close>

lemma depth_induct [case_names deeper]:
  assumes "\<And>depth. (check_depth depth \<Longrightarrow> P (Suc depth)) \<Longrightarrow> P depth"
  shows "P depth"
  by (induction "Suc MAX_DEPTH - depth" arbitrary: depth rule: less_induct)
    (rule assms, auto simp: check_depth_def)

section \<open>Relocation\<close>

lemma relocate_children: "amf3_children (relocate base v) = map (relocate base) (amf3_children v)"
  by (cases v) (auto simp: map_concat o_def split_beta split: option.splits)

lemma relocate_reference: "amf3_reference (relocate base v) = map_option (\<lambda>i. i + base) (amf3_reference v)"
  by (cases v) simp_all

lemma relocate_marker: "object_marker (relocate base v) = object_marker v"
  by (cases v) simp_all

lemma relocate_replace:
  assumes "length cs = length (amf3_children v)"
  shows "relocate base (amf3_replace v cs) = amf3_replace (relocate base v) (map (relocate base) cs)"
proof -
  have z: "map (\<lambda>(k, v). (k, relocate base v)) (zip ks vs) = zip ks (map (relocate base) vs)" for ks :: "bytes list" and vs
    by (simp add: zip_map2 split_beta)
  have p: "map (\<lambda>(k, v). (relocate base k, relocate base v)) (pair_up xs) = pair_up (map (relocate base) xs)" for xs
    by (induction xs rule: pair_up.induct) auto
  show ?thesis
    using assms by (cases v) (auto simp: z p o_def split_beta take_map drop_map hd_map length_Suc_conv split: option.splits)
qed

section \<open>Expansion\<close>

abbreviation amf3_unfold :: "amf3_sizes \<Rightarrow> nat \<Rightarrow> amf3_value list \<Rightarrow> amf3_value \<Rightarrow> amf3_value costed option" where
  "amf3_unfold sizes k objects v \<equiv> unfold_tree k (amf3_graph sizes) amf3_replace amf3_emb objects [] v"

text \<open>
  C16 (refinement). Expanding an AMF3 document always returns, whatever cycles or dangling references it
  has, and it succeeds exactly when every root unfolds to a tree within the depth limit whose nodes and
  bytes together stay within the budget; the result is that list of trees.
\<close>

theorem amf3_to_tree_correct:
  "amf3_to_tree sizes d limits \<noteq> None
   \<and> (amf3_to_tree sizes d limits = Some (Inr ts) \<longleftrightarrow>
        (\<exists>rs. traverse (amf3_unfold sizes (Suc (maximum_depth limits)) (doc_objects d)) (doc_roots d) = Some rs
          \<and> ts = map fst rs \<and> total_nodes rs \<le> maximum_nodes limits \<and> total_bytes rs \<le> maximum_bytes limits))"
  unfolding amf3_to_tree_def expand_def using a3.expand_total a3.expand_iff by blast

end
