(* ===== verification/Amf3_Tables.thy ===== *)
theory Amf3_Tables
  imports Amf3_Tree
begin

text \<open>
  The parts of the AMF3 wire format that do not nest: U29 integers, strings and traits with their
  reference tables. Encoder and decoder build the same tables in the same order; \<open>tables_ok\<close> states
  that they agree, and \<open>reads_back\<close> that what a writer appends a reader takes back, from agreeing tables
  to agreeing tables.
\<close>

section \<open>U29\<close>

lemma join_bits: "push_bit k (take_bit m (drop_bit k y)) OR take_bit k y = take_bit (m + k) (y :: 'a::len word)"
  by (rule bit_word_eqI) (auto simp: bit_simps)

lemma bit_0x80: "bit (0x80 :: int) n \<longleftrightarrow> n = 7"
proof -
  have "(0x80 :: int) = 2 ^ 7" by simp
  then show ?thesis
    by (simp only: bit_exp_iff) auto
qed

lemma u29_high:
  "(ucast ((y AND 0x7F) OR 0x80 :: u32) :: u8) AND 0x80 \<noteq> 0"
  "ucast ((ucast ((y AND 0x7F) OR 0x80 :: u32) :: u8) AND 0x7F) = (take_bit 7 y :: u32)"
proof -
  have m7: "(0x7F :: u32) = mask 7" "(0x7F :: u8) = mask 7" by (simp_all add: mask_eq_exp_minus_1)
  have "bit ((ucast ((y AND 0x7F) OR 0x80 :: u32) :: u8) AND 0x80) 7"
    by (simp add: bit_simps bit_0x80)
  then show "(ucast ((y AND 0x7F) OR 0x80 :: u32) :: u8) AND 0x80 \<noteq> 0"
    by force
  show "ucast ((ucast ((y AND 0x7F) OR 0x80 :: u32) :: u8) AND 0x7F) = (take_bit 7 y :: u32)"
    unfolding m7 by (rule bit_word_eqI) (auto simp: bit_simps bit_0x80)
qed

lemma u29_low:
  "(ucast (y AND 0x7F :: u32) :: u8) AND 0x80 = 0"
  "ucast ((ucast (y AND 0x7F :: u32) :: u8) AND 0x7F) = (take_bit 7 y :: u32)"
proof -
  have m7: "(0x7F :: u32) = mask 7" "(0x7F :: u8) = mask 7" by (simp_all add: mask_eq_exp_minus_1)
  show "(ucast (y AND 0x7F :: u32) :: u8) AND 0x80 = 0"
    unfolding m7 by (rule bit_word_eqI) (auto simp: bit_simps bit_0x80)
  show "ucast ((ucast (y AND 0x7F :: u32) :: u8) AND 0x7F) = (take_bit 7 y :: u32)"
    unfolding m7 by (rule bit_word_eqI) (auto simp: bit_simps)
qed

lemma u29_last: "ucast (ucast (y AND 0xFF :: u32) :: u8) = (take_bit 8 y :: u32)"
proof -
  have m8: "(0xFF :: u32) = mask 8" by (simp add: mask_eq_exp_minus_1)
  show ?thesis
    unfolding m8 by (rule bit_word_eqI) (auto simp: bit_simps)
qed

lemma u29_small: "(x :: u32) < 0x80 \<Longrightarrow> (x AND 0x7F) = x"
proof -
  assume "x < 0x80"
  then have "unat x < 2 ^ 7" by (simp add: word_less_nat_alt)
  then have "take_bit 7 x = x"
    by (intro word_unat_eq_iff [THEN iffD2]) (simp add: unsigned_take_bit_eq take_bit_nat_eq_self)
  then show ?thesis
    by (simp add: take_bit_eq_mask mask_eq_exp_minus_1)
qed

lemma take_bit_small: "unat (x :: u32) < 2 ^ n \<Longrightarrow> take_bit n x = x"
  by (intro word_unat_eq_iff [THEN iffD2]) (simp add: unsigned_take_bit_eq take_bit_nat_eq_self)

lemma join7: "push_bit 7 (take_bit m (drop_bit k y)) OR take_bit 7 (drop_bit j y) = take_bit (m + 7) (drop_bit j (y :: u32))"
  if "k = j + 7"
  using join_bits [of 7 m "drop_bit j y"] that by (simp add: add.commute)

lemma four: "(4::nat) = Suc (Suc (Suc (Suc 0)))" by simp

lemma read_write_u29:
  assumes "unat x < 2 ^ 29"
  shows "read_u29 (write_u29 x @ rest) = Inr (x, rest)"
proof -
  have t: "take_bit 29 x = x"
    by (rule take_bit_small [OF assms])
  have m: "x AND 0x1FFFFFFF = x"
    using t by (simp add: take_bit_eq_mask mask_eq_exp_minus_1)
  consider "x < 0x80" | "\<not> x < 0x80" "x < 0x4000" | "\<not> x < 0x4000" "x < 0x200000" | "\<not> x < 0x200000"
    by blast
  then show ?thesis
  proof cases
    case 1
    then have "ucast x = (ucast (x AND 0x7F) :: u8)" "take_bit 7 x = x"
      by (simp_all add: u29_small take_bit_small word_less_nat_alt)
    then show ?thesis
      using 1 m u29_low [of x] by (simp add: write_u29_def read_u29_def four)
  next
    case 2
    then have "take_bit 14 x = x"
      by (intro take_bit_small) (simp add: word_less_nat_alt)
    then show ?thesis
      using 2 m by (simp add: write_u29_def read_u29_def four u29_low u29_high join_bits)
  next
    case 3
    then have "take_bit 21 x = x"
      by (intro take_bit_small) (simp add: word_less_nat_alt)
    moreover have "\<not> x < 0x80"
      using 3 by (auto simp: word_less_nat_alt)
    ultimately show ?thesis
      using 3 m join_bits [of 7 14 x]
      by (simp add: write_u29_def read_u29_def four u29_low u29_high join7)
  next
    case 4
    then have "\<not> x < 0x80" "\<not> x < 0x4000"
      by (auto simp: word_less_nat_alt)
    then show ?thesis
      using 4 m t join_bits [of 8 21 x]
      by (simp add: write_u29_def read_u29_def four u29_last u29_high join7)
  qed
qed

lemma unat_of_nat_u32: "n < 2 ^ 32 \<Longrightarrow> unat (word_of_nat n :: u32) = n"
  by (simp add: unsigned_of_nat take_bit_nat_eq_self)

lemma small_no_bit: "unat (i :: u32) < 2 ^ m \<Longrightarrow> m \<le> n \<Longrightarrow> \<not> bit i n"
  using take_bit_small [of i m] by (metis bit_take_bit_iff leD)

text \<open>A header: flags in the low \<open>k\<close> bits, a small number above them.\<close>

lemma header_bits:
  assumes i: "unat (i :: u32) < 2 ^ (29 - k)" and m: "unat m < 2 ^ k" and k: "k \<le> 29"
  shows "unat (push_bit k i OR m) < 2 ^ 29" and "drop_bit k (push_bit k i OR m) = i"
    and "j < k \<Longrightarrow> bit (push_bit k i OR m) j = bit m j"
proof -
  note no = small_no_bit [OF i] small_no_bit [OF m]
  have "take_bit 29 (push_bit k i OR m) = push_bit k i OR m"
  proof (rule bit_word_eqI)
    fix n assume "n < LENGTH(32)"
    show "bit (take_bit 29 (push_bit k i OR m)) n = bit (push_bit k i OR m) n"
      using no(1) [of "n - k"] no(2) [of n] k by (cases "n < 29") (auto simp: bit_simps)
  qed
  then show "unat (push_bit k i OR m) < 2 ^ 29"
    by (metis take_bit_nat_less_exp unsigned_take_bit_eq)
  show "drop_bit k (push_bit k i OR m) = i"
  proof (rule bit_word_eqI)
    fix n assume "n < LENGTH(32)"
    then show "bit (drop_bit k (push_bit k i OR m)) n = bit i n"
      using no(1) [of n] no(2) [of "k + n"] k by (cases "29 - k \<le> n") (auto simp: bit_simps)
  qed
  show "j < k \<Longrightarrow> bit (push_bit k i OR m) j = bit m j"
    using k by (auto simp: bit_simps)
qed

lemma and_bit_0: "(x :: u32) AND 1 = 0 \<longleftrightarrow> \<not> bit x 0"
  by (simp add: and_one_eq bit_0 even_iff_mod_2_eq_zero)

lemma and_bit_1: "(x :: u32) AND 2 = 0 \<longleftrightarrow> \<not> bit x 1"
proof -
  have "bit (2 ^ 1 :: u32) n \<longleftrightarrow> n = 1" for n
    by (simp only: bit_exp_iff) auto
  then have "bit (x AND 2) n \<longleftrightarrow> bit x 1 \<and> n = 1" for n
    unfolding power_one_right by (auto simp: bit_and_iff)
  then show ?thesis
    by (metis bit_0_eq bot_apply bot_bool_def bit_word_eqI)
qed

lemma even_u29:
  assumes "unat (i :: u32) < 2 ^ 28"
  shows "unat (push_bit 1 i) < 2 ^ 29" "push_bit 1 i AND 1 = 0" "drop_bit 1 (push_bit 1 i) = i"
  using header_bits [of i 1 0] header_bits(3) [of i 1 0 0] assms unfolding and_bit_0 by simp_all

lemma odd_u29:
  assumes "unat (i :: u32) < 2 ^ 28"
  shows "unat (push_bit 1 i OR 1) < 2 ^ 29" "(push_bit 1 i OR 1) AND 1 \<noteq> 0" "drop_bit 1 (push_bit 1 i OR 1) = i"
  using header_bits [of i 1 1] header_bits(3) [of i 1 1 0] assms unfolding and_bit_0 by simp_all

text \<open>Reading such a header back.\<close>

lemma lift_read_u29:
  "unat x < 2 ^ 29 \<Longrightarrow> lift_read read_u29 (write_u29 x @ rest, c) = Inr (x, (rest, c))"
  by (simp add: lift_read_def read_write_u29)

definition inline_head :: "nat \<Rightarrow> u32" where
  "inline_head n = push_bit 1 (word_of_nat n) OR 1"

lemma lift_read_len:
  assumes "n < 2 ^ 28"
  shows "lift_read read_u29 (write_len n @ rest, c) = Inr (inline_head n, (rest, c))"
  using odd_u29(1) [of "word_of_nat n"] assms unfolding write_len_def inline_head_def
  by (intro lift_read_u29) (simp add: unat_of_nat_u32)

lemma len_header:
  assumes "n < 2 ^ 28"
  shows "inline_head n AND 1 \<noteq> 0" and "unat (drop_bit 1 (inline_head n)) = n"
    and "unat (drop_bit (Suc 0) (inline_head n)) = n"
  using odd_u29 [of "word_of_nat n"] assms by (simp_all add: unat_of_nat_u32 inline_head_def)

lemma inline_or_ref_len:
  "n < 2 ^ 28 \<Longrightarrow> inline_or_ref k (write_len n @ rest, c) = k (inline_head n) (rest, c)"
  by (simp add: inline_or_ref_def lift_read_len len_header)

section \<open>Strings and traits\<close>

definition strings_ok :: "amf3_encoder \<Rightarrow> amf3_decoder \<Rightarrow> bool" where
  "strings_ok e d \<longleftrightarrow> hm_wf (ae_strings e) \<and> hm_len (ae_strings e) = length (ad_strings d)
     \<and> (\<forall>s n. hm_get (ae_strings e) s = Some n \<longrightarrow> unat n < length (ad_strings d) \<and> ad_strings d ! unat n = s)"

definition traits_ok :: "amf3_encoder \<Rightarrow> amf3_decoder \<Rightarrow> bool" where
  "traits_ok e d \<longleftrightarrow> hm_wf (ae_traits e) \<and> hm_len (ae_traits e) = length (ad_traits d)
     \<and> (\<forall>t n. hm_get (ae_traits e) t = Some n \<longrightarrow> unat n < length (ad_traits d) \<and> ad_traits d ! unat n = t)"

definition tables_ok :: "amf3_encoder \<Rightarrow> amf3_decoder \<Rightarrow> bool" where
  "tables_ok e d \<longleftrightarrow> strings_ok e d \<and> traits_ok e d"

text \<open>The tables stay below the limit at which the encoder stops adding and the decoder gives up.\<close>

definition tables_fit :: "amf3_encoder \<Rightarrow> bool" where
  "tables_fit e \<longleftrightarrow> hm_len (ae_strings e) < MAX_REFERENCES \<and> hm_len (ae_traits e) < MAX_REFERENCES"

definition tables_le :: "amf3_encoder \<Rightarrow> amf3_encoder \<Rightarrow> bool" where
  "tables_le e e' \<longleftrightarrow> hm_len (ae_strings e) \<le> hm_len (ae_strings e') \<and> hm_len (ae_traits e) \<le> hm_len (ae_traits e')
     \<and> (\<forall>i n. hm_get (ae_object_refs e) i = Some n \<longrightarrow> hm_get (ae_object_refs e') i = Some n)"

definition grows :: "amf3_writer \<Rightarrow> bool" where
  "grows w \<longleftrightarrow> (\<forall>e bs e'. w e = Inr (bs, e') \<longrightarrow> tables_le e e')"

definition same_objects :: "amf3_encoder \<Rightarrow> amf3_encoder \<Rightarrow> bool" where
  "same_objects e e' \<longleftrightarrow> ae_objects e' = ae_objects e \<and> ae_object_refs e' = ae_object_refs e
     \<and> ae_next_object e' = ae_next_object e"

definition reads_back :: "amf3_writer \<Rightarrow> 'a amf3_reader \<Rightarrow> 'a \<Rightarrow> bool" where
  "reads_back w r a \<longleftrightarrow>
     (\<forall>e d bs e'. tables_ok e d \<longrightarrow> w e = Inr (bs, e') \<longrightarrow> tables_fit e' \<longrightarrow>
        (\<exists>d'. (\<forall>rest. r (bs @ rest, d) = Inr (a, (rest, d'))) \<and> tables_ok e' d'
           \<and> ad_objects d' = ad_objects d \<and> same_objects e e'))"

lemma hm_len_insert_ge: "hm_len m \<le> hm_len (hm_insert k v m)"
  unfolding hm_len_def hm_insert_def by (induction m) auto

lemma hm_len_insert_new: "hm_wf m \<Longrightarrow> hm_get m k = None \<Longrightarrow> hm_len (hm_insert k v m) = Suc (hm_len m)"
  by (simp add: hm.size_ins)

lemma tables_le_refl [simp]: "tables_le e e"
  by (simp add: tables_le_def)

lemma tables_le_trans: "tables_le a b \<Longrightarrow> tables_le b c \<Longrightarrow> tables_le a c"
  by (auto simp: tables_le_def)

lemma tables_fit_le: "tables_fit e' \<Longrightarrow> tables_le e e' \<Longrightarrow> tables_fit e"
  by (auto simp: tables_fit_def tables_le_def)

lemma same_objects_trans: "same_objects a b \<Longrightarrow> same_objects b c \<Longrightarrow> same_objects a c"
  by (simp add: same_objects_def)

lemma same_objects_refl [simp]: "same_objects e e"
  by (simp add: same_objects_def)

lemma intern_string_le: "tables_le e (intern_string s e)"
  by (simp add: tables_le_def intern_string_def Let_def hm_len_insert_ge)

lemma intern_trait_le: "tables_le e (intern_trait t e)"
  by (simp add: tables_le_def intern_trait_def Let_def hm_len_insert_ge)

lemma grows_emit [simp, intro]: "grows (emit bs)"
  by (simp add: grows_def)

lemma grows_wfail [simp, intro]: "grows (wfail x)"
  by (simp add: grows_def)

lemma grows_wseq [intro]: "grows v \<Longrightarrow> grows w \<Longrightarrow> grows (wseq v w)"
  unfolding grows_def by (blast elim: wseq_InrE intro: tables_le_trans)

lemma grows_wlist: "(\<And>x. x \<in> set xs \<Longrightarrow> grows (w x)) \<Longrightarrow> grows (wlist w xs)"
  by (induction xs) auto

lemma grows_string [simp, intro]: "grows (write_string_data s)"
  by (auto simp: grows_def write_string_data_def intern_string_le split: if_splits option.splits)

lemma reads_backD:
  assumes "reads_back w r a" "tables_ok e d" "w e = Inr (bs, e')" "tables_fit e'"
  obtains d' where "\<And>rest. r (bs @ rest, d) = Inr (a, (rest, d'))" "tables_ok e' d'" "ad_objects d' = ad_objects d"
    "same_objects e e'"
  using assms unfolding reads_back_def by blast

lemma tables_index:
  assumes "tables_ok e d" and "tables_fit e"
  shows "hm_get (ae_strings e) s = Some n \<Longrightarrow> unat n < 2 ^ 27" "hm_get (ae_traits e) t = Some m \<Longrightarrow> unat m < 2 ^ 27"
  using assms by (fastforce simp: tables_ok_def strings_ok_def traits_ok_def tables_fit_def MAX_REFERENCES_def)+

lemma read_utf8_append: "utf8_valid s \<Longrightarrow> amf3_read_utf8 (length s) (s @ rest) = Inr (s, rest)"
  by (simp add: amf3_read_utf8_def amf3_read_exact_def)

lemma intern_string_ok:
  assumes "tables_ok e d" and "hm_len (ae_strings e) < MAX_REFERENCES" and "hm_get (ae_strings e) s = None"
  shows "tables_ok (intern_string s e) (d\<lparr>ad_strings := ad_strings d @ [s]\<rparr>)"
proof -
  let ?n = "word_of_nat (hm_len (ae_strings e)) :: u32"
  have n: "unat ?n = hm_len (ae_strings e)"
    using assms(2) by (intro unat_of_nat_u32) (simp add: MAX_REFERENCES_def)
  have "intern_string s e = e\<lparr>ae_strings := hm_insert s ?n (ae_strings e)\<rparr>"
    using n assms(2) by (simp add: intern_string_def)
  moreover have "hm_len (hm_insert s ?n (ae_strings e)) = Suc (hm_len (ae_strings e))"
    using assms(1,3) by (simp add: tables_ok_def strings_ok_def hm_len_insert_new)
  ultimately show ?thesis
    using assms(1) n by (auto simp: tables_ok_def strings_ok_def traits_ok_def nth_append intro: less_SucI)
qed

lemma intern_trait_ok:
  assumes "tables_ok e d" and "hm_len (ae_traits e) < MAX_REFERENCES" and "hm_get (ae_traits e) t = None"
  shows "tables_ok (intern_trait t e) (d\<lparr>ad_traits := ad_traits d @ [t]\<rparr>)"
proof -
  let ?n = "word_of_nat (hm_len (ae_traits e)) :: u32"
  have n: "unat ?n = hm_len (ae_traits e)"
    using assms(2) by (intro unat_of_nat_u32) (simp add: MAX_REFERENCES_def)
  have "intern_trait t e = e\<lparr>ae_traits := hm_insert t ?n (ae_traits e)\<rparr>"
    using n assms(2) by (simp add: intern_trait_def)
  moreover have "hm_len (hm_insert t ?n (ae_traits e)) = Suc (hm_len (ae_traits e))"
    using assms(1,3) by (simp add: tables_ok_def traits_ok_def hm_len_insert_new)
  ultimately show ?thesis
    using assms(1) n by (auto simp: tables_ok_def strings_ok_def traits_ok_def nth_append intro: less_SucI)
qed

lemma reads_back_string: "utf8_valid s \<Longrightarrow> reads_back (write_string_data s) read_string_content s"
  unfolding reads_back_def
proof (intro allI impI)
  fix e d bs e'
  assume s: "utf8_valid s" and ok: "tables_ok e d" and w: "write_string_data s e = Inr (bs, e')" and fit: "tables_fit e'"
  have len: "length s \<le> MAX_STRING_LEN"
    using w by (auto simp: write_string_data_def split: if_splits)
  then have small: "length s < 2 ^ 28"
    by (simp add: MAX_STRING_LEN_def)
  have le: "tables_le e e'"
    using w grows_string by (auto simp: grows_def)
  have fit0: "tables_fit e"
    by (rule tables_fit_le [OF fit le])
  show "\<exists>d'. (\<forall>rest. read_string_content (bs @ rest, d) = Inr (s, (rest, d'))) \<and> tables_ok e' d'
           \<and> ad_objects d' = ad_objects d \<and> same_objects e e'"
  proof (cases "s = []")
    case True
    then have "bs = write_u29 1" "e' = e"
      using w by (auto simp: write_string_data_def)
    moreover have "lift_read read_u29 (write_u29 1 @ rest, d) = Inr (1, (rest, d))" for rest
      by (rule lift_read_u29) simp
    ultimately show ?thesis
      using ok True by (auto simp: read_string_content_def)
  next
    case False
    show ?thesis
    proof (cases "hm_get (ae_strings e) s")
      case (Some n)
      then have n: "unat n < 2 ^ 28" "unat n < length (ad_strings d)" "ad_strings d ! unat n = s"
        using tables_index(1) [OF ok fit0 Some] ok by (auto simp: tables_ok_def strings_ok_def)
      have bs: "bs = write_u29 (push_bit 1 n)" "e' = e"
        using w Some False len by (auto simp: write_string_data_def)
      have "read_string_content (bs @ rest, d) = Inr (s, (rest, d))" for rest
        unfolding read_string_content_def bs(1) lift_read_u29 [OF even_u29(1) [OF n(1)]]
        unfolding rbind_simps prod.case even_u29(2,3) [OF n(1)] using n by simp
      then show ?thesis
        using ok bs(2) by auto
    next
      case None
      let ?d = "d\<lparr>ad_strings := ad_strings d @ [s]\<rparr>"
      have bs: "bs = write_len (length s) @ s" "e' = intern_string s e"
        using w None False len by (auto simp: write_string_data_def)
      have room: "length (ad_strings d) < MAX_REFERENCES"
        using ok fit0 by (simp add: tables_ok_def strings_ok_def tables_fit_def)
      have "read_string_content (bs @ rest, d) = Inr (s, (rest, ?d))" for rest
        using False len small room len_header [OF small] bs(1)
        by (simp add: read_string_content_def lift_read_len Let_def lift_read_def [of "amf3_read_utf8 _"]
            read_utf8_append [OF s] push_string_def)
      moreover have "tables_ok e' ?d"
        unfolding bs(2) using ok fit0 None by (intro intern_string_ok) (auto simp: tables_fit_def)
      moreover have "same_objects e e'"
        unfolding bs(2) by (simp add: same_objects_def intern_string_def Let_def)
      ultimately show ?thesis
        by (intro exI [of _ ?d]) simp
    qed
  qed
qed

lemma reads_back_list:
  assumes "\<And>x. x \<in> set xs \<Longrightarrow> reads_back (w x) r x" and "\<And>x. x \<in> set xs \<Longrightarrow> grows (w x)"
  shows "reads_back (wlist w xs) (read_n (length xs) r) xs"
  using assms
proof (induction xs)
  case (Cons x xs)
  show ?case
    unfolding reads_back_def
  proof (intro allI impI)
    fix e d bs e'
    assume ok: "tables_ok e d" and w: "wlist w (x # xs) e = Inr (bs, e')" and fit: "tables_fit e'"
    obtain b1 e1 b2 where w1: "w x e = Inr (b1, e1)" and w2: "wlist w xs e1 = Inr (b2, e')" and bs: "bs = b1 @ b2"
      using w by (auto elim: wseq_InrE)
    have "grows (wlist w xs)"
      using Cons.prems(2) by (intro grows_wlist) auto
    then have fit1: "tables_fit e1"
      using w2 fit by (auto simp: grows_def intro: tables_fit_le)
    obtain d1 where d1: "\<And>rest. r (b1 @ rest, d) = Inr (x, (rest, d1))" "tables_ok e1 d1"
      "ad_objects d1 = ad_objects d" "same_objects e e1"
      using reads_backD [OF Cons.prems(1) ok w1 fit1] by auto
    obtain d2 where "\<And>rest. read_n (length xs) r (b2 @ rest, d1) = Inr (xs, (rest, d2))" "tables_ok e' d2"
      "ad_objects d2 = ad_objects d1" "same_objects e1 e'"
      using reads_backD [OF Cons.IH d1(2) w2 fit] Cons.prems by auto
    with d1 show "\<exists>d'. (\<forall>rest. read_n (length (x # xs)) r (bs @ rest, d) = Inr (x # xs, (rest, d')))
        \<and> tables_ok e' d' \<and> ad_objects d' = ad_objects d \<and> same_objects e e'"
      by (intro exI [of _ d2]) (auto simp: bs intro: same_objects_trans)
  qed
qed (auto simp: reads_back_def)

lemma grows_traits [simp, intro]: "grows (write_traits t h names)"
proof -
  have "grows (\<lambda>c. Inr ([], intern_trait t c))"
    by (simp add: grows_def intern_trait_le)
  then have "grows (wseq (emit (write_u29 h)) (wseq (wlist write_string_data names) (\<lambda>c. Inr ([], intern_trait t c))))"
    by (intro grows_wseq grows_wlist) auto
  then show ?thesis
    unfolding grows_def write_traits_def by (auto split: option.splits)
qed

text \<open>The header of inline traits.\<close>

definition trait_header :: "trait_info \<Rightarrow> u32 \<Rightarrow> bool" where
  "trait_header t h \<longleftrightarrow> unat h < 2 ^ 29 \<and> bit h 0 \<and> bit h 1 \<and> bit h 2 = ti_externalizable t
     \<and> bit h 3 = ti_dynamic t \<and> length (ti_sealed_names t) \<le> MAX_COLLECTION_LEN
     \<and> (if ti_externalizable t then ti_sealed_names t = [] else unat (drop_bit 4 h) = length (ti_sealed_names t))"

lemma drop_bit_flag: "drop_bit k (h :: u32) AND 1 \<noteq> 0 \<longleftrightarrow> bit h k"
  unfolding and_bit_0 by (simp add: bit_drop_bit_eq)

lemma trait_ref_header:
  assumes "unat (n :: u32) < 2 ^ 27"
  shows "unat (push_bit 2 n OR 1) < 2 ^ 29" "(push_bit 2 n OR 1) AND 1 \<noteq> 0" "(push_bit 2 n OR 1) AND 2 = 0"
    "drop_bit 2 (push_bit 2 n OR 1) = n"
  using header_bits [of n 2 1] header_bits(3) [of n 2 1 0] header_bits(3) [of n 2 1 1] assms
  unfolding and_bit_0 and_bit_1 by (simp_all add: bit_1_iff)

lemma strings_keep_traits: "wlist write_string_data xs e = Inr (bs, e') \<Longrightarrow> ae_traits e' = ae_traits e"
proof (induction xs arbitrary: e bs)
  case (Cons x xs)
  then show ?case
    by (auto simp: write_string_data_def intern_string_def Let_def split: if_splits option.splits elim!: wseq_InrE)
qed simp

lemma traits_back:
  assumes ok: "tables_ok e d" and fit: "tables_fit e'" and h: "trait_header t h"
    and valid: "utf8_valid (ti_class_name t)" "list_all utf8_valid (ti_sealed_names t)"
    and w: "write_traits t h (ti_class_name t # ti_sealed_names t) e = Inr (bs, e')"
  shows "\<exists>d'. (\<forall>rest k. inline_or_ref (\<lambda>h s. rbind (read_traits h s) k) (bs @ rest, d) = k (t, (rest, d')))
    \<and> tables_ok e' d' \<and> ad_objects d' = ad_objects d \<and> same_objects e e'"
proof (cases "hm_get (ae_traits e) t")
  case (Some n)
  have le: "tables_le e e'"
    using w grows_traits by (auto simp: grows_def)
  have n: "unat n < 2 ^ 27" "unat n < length (ad_traits d)" "ad_traits d ! unat n = t"
    using tables_index(2) [OF ok tables_fit_le [OF fit le] Some] ok Some by (auto simp: tables_ok_def traits_ok_def)
  have bs: "bs = write_u29 (push_bit 2 n OR 1)" "e' = e"
    using w Some by (auto simp: write_traits_def)
  have "inline_or_ref (\<lambda>h s. rbind (read_traits h s) k) (bs @ rest, d) = k (t, (rest, d))" for rest k
    unfolding inline_or_ref_def bs(1) lift_read_u29 [OF trait_ref_header(1) [OF n(1)]]
    using trait_ref_header [OF n(1)] n by (simp add: read_traits_def)
  then show ?thesis
    using ok bs(2) by auto
next
  case None
  let ?names = "ti_class_name t # ti_sealed_names t"
  obtain b1 e1 where w1: "wlist write_string_data ?names e = Inr (b1, e1)"
    and bs: "bs = write_u29 h @ b1" and e': "e' = intern_trait t e1"
    using w None by (auto simp: write_traits_def simp del: wlist.simps elim!: wseq_InrE)
  have fit1: "tables_fit e1"
    by (rule tables_fit_le [OF fit]) (simp add: e' intern_trait_le)
  have rb: "reads_back (wlist write_string_data ?names) (read_n (length ?names) read_string_content) ?names"
    using valid by (intro reads_back_list) (auto simp: list_all_iff reads_back_string)
  obtain d1 where d1: "\<And>rest. read_n (length ?names) read_string_content (b1 @ rest, d) = Inr (?names, (rest, d1))"
    "tables_ok e1 d1" "ad_objects d1 = ad_objects d" "same_objects e e1"
    using reads_backD [OF rb ok w1 fit1] by blast
  let ?d = "d1\<lparr>ad_traits := ad_traits d1 @ [t]\<rparr>"
  have room: "length (ad_traits d1) < MAX_REFERENCES"
    using d1(2) fit1 by (simp add: tables_ok_def traits_ok_def tables_fit_def)
  have "tables_ok e' ?d"
    unfolding e' using d1(2) fit1 None strings_keep_traits [OF w1]
    by (intro intern_trait_ok) (auto simp: tables_fit_def)
  moreover have "read_traits h (b1 @ rest, d) = Inr (t, (rest, ?d))" for rest
  proof -
    have count: "(if drop_bit 2 h AND 1 \<noteq> 0 then 0 else unat (drop_bit 4 h)) = length (ti_sealed_names t)"
      using h by (simp add: trait_header_def drop_bit_flag split: if_splits)
    have t: "\<lparr>ti_class_name = ti_class_name t, ti_sealed_names = ti_sealed_names t,
        ti_dynamic = (drop_bit 3 h AND 1 \<noteq> 0), ti_externalizable = (drop_bit 2 h AND 1 \<noteq> 0)\<rparr> = t"
      using h by (simp add: trait_header_def drop_bit_flag)
    have "read_traits h s = rbind (read_n (length ?names) read_string_content s)
        (\<lambda>(names, s2). rbind (push_trait t s2) (\<lambda>(_, s3). Inr (t, s3)))" if "read_n (length ?names) read_string_content s = Inr (?names, s')" for s s'
      using h that t count unfolding read_traits_def and_bit_1
      by (auto simp: trait_header_def Let_def elim!: rbind_InrE)
    from this [OF d1(1)] show ?thesis
      unfolding d1(1) using room by (simp add: push_trait_def)
  qed
  then have "inline_or_ref (\<lambda>h s. rbind (read_traits h s) k) (bs @ rest, d) = k (t, (rest, ?d))" for rest k
    using h unfolding inline_or_ref_def bs append_assoc
    by (simp add: lift_read_u29 trait_header_def and_bit_0)
  moreover have "same_objects e e'"
    using d1(4) by (simp add: e' same_objects_def intern_trait_def Let_def)
  ultimately show ?thesis
    using d1(3) by (intro exI [of _ ?d]) simp
qed

end
