(* ===== verification/Amf3_Codes.thy ===== *)
theory Amf3_Codes
  imports Amf3_Tables
begin

text \<open>
  The simulation between the AMF3 encoder and decoder. \<open>in_step\<close> relates their states between two
  values: equal tables, as many numbered objects as slots, and every numbered object of the source
  either being written right now (its slot is in \<open>pending\<close>) or copied to its slot. \<open>codes\<close> says that what
  a writer appends a reader takes back with a result in a given relation; the lemmas compose it along
  the combinators of the codec, and \<open>codes_node\<close> is the step for one complex value.
\<close>

definition amf3_leaf :: "amf3_value \<Rightarrow> amf3_value \<Rightarrow> bool" where
  "amf3_leaf v a \<longleftrightarrow> v = a \<and> amf3_reference v = None
     \<and> list_all (\<lambda>c. amf3_reference c = None \<and> amf3_children c = []) (amf3_children v)"

definition refs_of :: "amf3_encoder \<Rightarrow> object_id \<Rightarrow> object_id option" where
  "refs_of e i = map_option unat (hm_get (ae_object_refs e) i)"

abbreviation amf3_copy :: "amf3_sizes \<Rightarrow> amf3_encoder \<Rightarrow> amf3_value list \<Rightarrow> amf3_value \<Rightarrow> amf3_value \<Rightarrow> bool" where
  "amf3_copy sizes e objs \<equiv> copy_of (amf3_graph sizes) amf3_replace amf3_complex amf3_leaf (refs_of e) objs"

abbreviation amf3_node :: "amf3_sizes \<Rightarrow> amf3_encoder \<Rightarrow> amf3_value list \<Rightarrow> amf3_value \<Rightarrow> amf3_value \<Rightarrow> bool" where
  "amf3_node sizes e objs \<equiv> node_copy (amf3_graph sizes) amf3_replace amf3_complex amf3_leaf (refs_of e) objs"

lemma amf3_graph_simps [simp]:
  "gv_reference (amf3_graph sizes) = amf3_reference" "gv_children (amf3_graph sizes) = amf3_children"
  by (simp_all add: amf3_graph_def)

section \<open>Values the encoder reproduces\<close>

text \<open>
  What a value must satisfy to be read back as it is: valid strings (the invariant of Rust's \<open>String\<close>),
  integers of 29 bits (others are written as doubles), no empty member key (it would end the list) and
  no empty class name (it means none), status beans in the order the decoder builds them.
\<close>

fun amf3_local :: "amf3_value \<Rightarrow> bool" where
  "amf3_local (A3Integer i) \<longleftrightarrow> MIN_AMF3_INTEGER \<le> sint i \<and> sint i \<le> MAX_AMF3_INTEGER"
| "amf3_local (A3String s) \<longleftrightarrow> utf8_valid s"
| "amf3_local (A3XmlDoc s) \<longleftrightarrow> utf8_valid s"
| "amf3_local (A3Xml s) \<longleftrightarrow> utf8_valid s"
| "amf3_local (A3Array dense assoc) \<longleftrightarrow> list_all (\<lambda>(k, _). k \<noteq> [] \<and> utf8_valid k) assoc"
| "amf3_local (A3Object class_name sealed dynamic) \<longleftrightarrow>
     class_name \<noteq> Some [] \<and> (case class_name of None \<Rightarrow> True | Some n \<Rightarrow> utf8_valid n)
     \<and> list_all (\<lambda>(k, _). utf8_valid k) sealed
     \<and> (case dynamic of None \<Rightarrow> True | Some p \<Rightarrow> list_all (\<lambda>(k, _). k \<noteq> [] \<and> utf8_valid k) p)"
| "amf3_local (A3Externalizable class_name v) \<longleftrightarrow>
     utf8_valid class_name
     \<and> (externalizable_layout_of class_name = Some StatusBean \<longrightarrow>
         (case v of
            A3Object None [] (Some members) \<Rightarrow>
              (case bean_from_members members of
                 None \<Rightarrow> False
               | Some b \<Rightarrow> bean_into_members b = members
                   \<and> list_all utf8_valid [sb_code b, sb_description b, sb_details b, sb_level b])
          | _ \<Rightarrow> False))"
| "amf3_local (A3VectorObject type_name fixed vs) \<longleftrightarrow> utf8_valid type_name"
| "amf3_local _ \<longleftrightarrow> True"

function amf3_wf :: "amf3_value \<Rightarrow> bool" where
  "amf3_wf v \<longleftrightarrow> amf3_local v \<and> list_all amf3_wf (amf3_children v)"
  by pat_completeness auto
termination
  by (relation "measure size") (auto dest: amf3_children_size)

declare amf3_wf.simps [simp del]

lemma amf3_wfD: "amf3_wf v \<Longrightarrow> amf3_local v" "amf3_wf v \<Longrightarrow> c \<in> set (amf3_children v) \<Longrightarrow> amf3_wf c"
  by (simp_all add: amf3_wf.simps [of v] list_all_iff)

section \<open>States in step\<close>

definition in_step :: "amf3_sizes \<Rightarrow> nat set \<Rightarrow> amf3_encoder \<Rightarrow> amf3_decoder \<Rightarrow> bool" where
  "in_step sizes pending e d \<longleftrightarrow>
     tables_ok e d \<and> unat (ae_next_object e) = length (ad_objects d) \<and> length (ad_objects d) \<le> MAX_REFERENCES
     \<and> list_all amf3_wf (ae_objects e) \<and> inj_on (refs_of e) (dom (refs_of e))
     \<and> (\<forall>i n. refs_of e i = Some n \<longrightarrow> n < length (ad_objects d) \<and> i < length (ae_objects e)
          \<and> (n \<in> pending \<or> amf3_node sizes e (ad_objects d) (ae_objects e ! i) (ad_objects d ! n)))"

definition extends :: "amf3_encoder \<Rightarrow> amf3_decoder \<Rightarrow> amf3_encoder \<Rightarrow> amf3_decoder \<Rightarrow> bool" where
  "extends e d e' d' \<longleftrightarrow> (\<exists>news. ad_objects d' = ad_objects d @ news) \<and> refs_of e \<subseteq>\<^sub>m refs_of e'
     \<and> ae_objects e' = ae_objects e
     \<and> (\<forall>i n. refs_of e' i = Some n \<longrightarrow> refs_of e i = None \<longrightarrow> length (ad_objects d) \<le> n)"

definition codes ::
    "amf3_sizes \<Rightarrow> nat set \<Rightarrow> amf3_writer \<Rightarrow> 'a amf3_reader \<Rightarrow> (amf3_encoder \<Rightarrow> amf3_value list \<Rightarrow> 'a \<Rightarrow> bool) \<Rightarrow> bool" where
  "codes sizes pending w r Q \<longleftrightarrow>
     (\<forall>e d bs e'. in_step sizes pending e d \<longrightarrow> w e = Inr (bs, e') \<longrightarrow> tables_fit e' \<longrightarrow>
        (\<exists>a d'. (\<forall>rest. r (bs @ rest, d) = Inr (a, (rest, d'))) \<and> in_step sizes pending e' d' \<and> extends e d e' d'
           \<and> Q e' (ad_objects d') a))"

lemma codesD:
  assumes "codes sizes pending w r Q" "in_step sizes pending e d" "w e = Inr (bs, e')" "tables_fit e'"
  obtains a d' where "\<And>rest. r (bs @ rest, d) = Inr (a, (rest, d'))" "in_step sizes pending e' d'" "extends e d e' d'"
    "Q e' (ad_objects d') a"
  using assms unfolding codes_def by blast

lemma extends_refl [simp]: "extends e d e d"
  by (auto simp: extends_def)

lemma extends_trans:
  assumes "extends e d e1 d1" and "extends e1 d1 e2 d2"
  shows "extends e d e2 d2"
proof -
  have "length (ad_objects d) \<le> n" if n: "refs_of e2 i = Some n" "refs_of e i = None" for i n
  proof (cases "refs_of e1 i")
    case None
    then have "length (ad_objects d1) \<le> n"
      using assms(2) n(1) unfolding extends_def by blast
    then show ?thesis
      using assms(1) by (auto simp: extends_def)
  next
    case (Some m)
    then have "m = n"
      using assms(2) n(1) unfolding extends_def map_le_def by (metis domI option.inject)
    then show ?thesis
      using assms(1) Some n(2) unfolding extends_def by blast
  qed
  then show ?thesis
    using assms map_le_trans unfolding extends_def by (metis append.assoc)
qed

lemma extends_mono:
  assumes "extends e d e' d'"
  shows "refs_of e \<subseteq>\<^sub>m refs_of e'" "arena_le amf3_complex (ad_objects d) (ad_objects d')"
  using assms by (auto simp: extends_def)

lemma amf3_copy_extends:
  "extends e d e' d' \<Longrightarrow> amf3_copy sizes e (ad_objects d) v a \<Longrightarrow> amf3_copy sizes e' (ad_objects d') v a"
  by (rule copy_of_mono [OF _ extends_mono])

lemma copies_extends:
  "extends e d e' d' \<Longrightarrow> list_all2 (amf3_copy sizes e (ad_objects d)) vs as \<Longrightarrow>
   list_all2 (amf3_copy sizes e' (ad_objects d')) vs as"
  by (erule list_all2_mono) (rule amf3_copy_extends)

lemma amf3_node_mono:
  "refs_of e \<subseteq>\<^sub>m refs_of e' \<Longrightarrow> arena_le amf3_complex objs objs' \<Longrightarrow> amf3_node sizes e objs v a \<Longrightarrow>
   amf3_node sizes e' objs' v a"
  by (rule node_copy_mono)

text \<open>Strings do not touch the objects.\<close>

lemma reads_back_step:
  assumes "in_step sizes pending e d" "tables_ok e' d'" "ad_objects d' = ad_objects d" "same_objects e e'"
  shows "in_step sizes pending e' d'" "extends e d e' d'"
proof -
  have "refs_of e' = refs_of e"
    using assms(4) by (simp add: same_objects_def refs_of_def fun_eq_iff)
  then show "in_step sizes pending e' d'" "extends e d e' d'"
    using assms by (simp_all add: in_step_def same_objects_def extends_def)
qed

lemma codes_reads_back:
  assumes "reads_back w r a"
  shows "codes sizes pending w r (\<lambda>_ _ x. x = a)"
  unfolding codes_def
proof (intro allI impI)
  fix e d bs e'
  assume st: "in_step sizes pending e d" and w: "w e = Inr (bs, e')" and fit: "tables_fit e'"
  have ok: "tables_ok e d"
    using st by (simp add: in_step_def)
  obtain d' where "\<And>rest. r (bs @ rest, d) = Inr (a, (rest, d'))" "tables_ok e' d'" "ad_objects d' = ad_objects d"
    "same_objects e e'"
    using reads_backD [OF assms ok w fit] by blast
  then show "\<exists>x d'. (\<forall>rest. r (bs @ rest, d) = Inr (x, (rest, d'))) \<and> in_step sizes pending e' d' \<and> extends e d e' d' \<and> x = a"
    using reads_back_step [OF st] by blast
qed

lemma codes_emit:
  assumes "\<And>rest d. r (bs @ rest, d) = Inr (a, (rest, d))"
  shows "codes sizes pending (emit bs) r (\<lambda>_ _ x. x = a)"
  by (rule codes_reads_back) (auto simp: reads_back_def assms)

lemma codes_map:
  assumes "codes sizes pending w r Q" and "\<And>e objs a. Q e objs a \<Longrightarrow> Q' e objs (f a)"
  shows "codes sizes pending w (\<lambda>s. rbind (r s) (\<lambda>(a, s1). Inr (f a, s1))) Q'"
  unfolding codes_def
proof (intro allI impI)
  fix e d bs e'
  assume "in_step sizes pending e d" and "w e = Inr (bs, e')" and "tables_fit e'"
  from codesD [OF assms(1) this] obtain a d' where "\<And>rest. r (bs @ rest, d) = Inr (a, (rest, d'))"
    "in_step sizes pending e' d'" "extends e d e' d'" "Q e' (ad_objects d') a"
    by blast
  then show "\<exists>a d'. (\<forall>rest. rbind (r (bs @ rest, d)) (\<lambda>(a, s1). Inr (f a, s1)) = Inr (a, (rest, d')))
      \<and> in_step sizes pending e' d' \<and> extends e d e' d' \<and> Q' e' (ad_objects d') a"
    using assms(2) by (intro exI [of _ "f a"] exI [of _ d']) simp
qed

lemma codes_seq:
  assumes w1: "codes sizes pending w1 r1 Q1" and w2: "codes sizes pending w2 r2 Q2" and g: "grows w2"
    and mono: "\<And>e d e' d' a. extends e d e' d' \<Longrightarrow> Q1 e (ad_objects d) a \<Longrightarrow> Q1 e' (ad_objects d') a"
  shows "codes sizes pending (wseq w1 w2)
    (\<lambda>s. rbind (r1 s) (\<lambda>(a, s1). rbind (r2 s1) (\<lambda>(b, s2). Inr ((a, b), s2))))
    (\<lambda>e objs (a, b). Q1 e objs a \<and> Q2 e objs b)"
  unfolding codes_def
proof (intro allI impI)
  fix e d bs e'
  assume st: "in_step sizes pending e d" and w: "wseq w1 w2 e = Inr (bs, e')" and fit: "tables_fit e'"
  obtain b1 e1 b2 where b: "w1 e = Inr (b1, e1)" "w2 e1 = Inr (b2, e')" "bs = b1 @ b2"
    using w by (rule wseq_InrE)
  have fit1: "tables_fit e1"
    using g b(2) fit by (auto simp: grows_def intro: tables_fit_le)
  obtain a d1 where a: "\<And>rest. r1 (b1 @ rest, d) = Inr (a, (rest, d1))" "in_step sizes pending e1 d1"
    "extends e d e1 d1" "Q1 e1 (ad_objects d1) a"
    using codesD [OF w1 st b(1) fit1] by blast
  obtain c d2 where c: "\<And>rest. r2 (b2 @ rest, d1) = Inr (c, (rest, d2))" "in_step sizes pending e' d2"
    "extends e1 d1 e' d2" "Q2 e' (ad_objects d2) c"
    using codesD [OF w2 a(2) b(2) fit] by blast
  show "\<exists>x d'. (\<forall>rest. rbind (r1 (bs @ rest, d)) (\<lambda>(a, s1). rbind (r2 s1) (\<lambda>(b, s2). Inr ((a, b), s2))) = Inr (x, (rest, d')))
      \<and> in_step sizes pending e' d' \<and> extends e d e' d' \<and> (case x of (a, b) \<Rightarrow> Q1 e' (ad_objects d') a \<and> Q2 e' (ad_objects d') b)"
    using a c mono [OF c(3) a(4)] extends_trans [OF a(3) c(3)]
    by (intro exI [of _ "(a, c)"] exI [of _ d2]) (simp add: b(3))
qed

lemma codes_list:
  assumes "\<And>v. v \<in> set vs \<Longrightarrow> codes sizes pending (w v) r (\<lambda>e objs a. amf3_copy sizes e objs v a)"
    and "\<And>v. grows (w v)"
  shows "codes sizes pending (wlist w vs) (read_n (length vs) r) (\<lambda>e objs as. list_all2 (amf3_copy sizes e objs) vs as)"
  using assms(1)
proof (induction vs)
  case Nil
  show ?case
    using codes_map [OF codes_emit [of "\<lambda>s. Inr ((), s)" "[]" "()"]]
    by (simp add: codes_def)
next
  case (Cons v vs)
  have "codes sizes pending (wseq (w v) (wlist w vs))
     (\<lambda>s. rbind (rbind (r s) (\<lambda>(a, s1). rbind (read_n (length vs) r s1) (\<lambda>(b, s2). Inr ((a, b), s2))))
        (\<lambda>(ab, s1). Inr ((\<lambda>(a, b). a # b) ab, s1)))
     (\<lambda>e objs as. list_all2 (amf3_copy sizes e objs) (v # vs) as)"
    by (rule codes_map [OF codes_seq [OF Cons.prems [of v] Cons.IH]])
      (use Cons.prems in \<open>auto intro: amf3_copy_extends grows_wlist assms(2)\<close>)
  moreover have "rbind (rbind (r s) (\<lambda>(a, s1). rbind (read_n (length vs) r s1) (\<lambda>(b, s2). Inr ((a, b), s2))))
        (\<lambda>(ab, s1). Inr ((\<lambda>(a, b). a # b) ab, s1)) = read_n (length (v # vs)) r s" for s
    by (auto simp: rbind_def split: sum.splits prod.splits)
  ultimately show ?case
    by simp
qed

lemma wseq_emit_nil: "wseq w (emit []) e = w e" "wseq (emit []) w e = w e"
  by (auto simp: wseq_def emit_def rbind_def split: sum.splits)

lemma wseq_assoc: "wseq (wseq u v) w e = wseq u (wseq v w) e"
  by (auto simp: wseq_def rbind_def split: sum.splits prod.splits)

text \<open>Members up to the empty key.\<close>

definition copied_members ::
    "amf3_sizes \<Rightarrow> amf3_encoder \<Rightarrow> amf3_value list \<Rightarrow> (bytes \<times> amf3_value) list \<Rightarrow> (bytes \<times> amf3_value) list \<Rightarrow> bool" where
  "copied_members sizes e objs ms ms' \<longleftrightarrow>
     map fst ms' = map fst ms \<and> list_all2 (amf3_copy sizes e objs) (map snd ms) (map snd ms')"

lemma copied_members_Cons:
  "copied_members sizes e objs ((k, v) # ms) ((k', a) # ms') \<longleftrightarrow>
   k' = k \<and> amf3_copy sizes e objs v a \<and> copied_members sizes e objs ms ms'"
  by (auto simp: copied_members_def)

lemma codes_members:
  assumes "\<And>v. v \<in> snd ` set ms \<Longrightarrow> codes sizes pending (w v) r (\<lambda>e objs a. amf3_copy sizes e objs v a)"
    and g: "\<And>v. grows (w v)" and "list_all (\<lambda>(k, _). k \<noteq> [] \<and> utf8_valid k) ms"
    and "length acc + length ms + dense_len \<le> MAX_COLLECTION_LEN"
  shows "codes sizes pending (wseq (write_members w ms) (write_string_data []))
    (read_members r dense_len acc) (\<lambda>e objs ms'. \<exists>new. ms' = acc @ new \<and> copied_members sizes e objs ms new)"
  using assms(1,3,4)
proof (induction ms arbitrary: acc)
  case Nil
  have "read_members r dense_len acc s = Inr (acc, s1)" if "read_string_content s = Inr ([], s1)" for s s1
    using that by (subst read_members.simps) simp
  moreover have "reads_back (write_string_data []) read_string_content []"
    by (rule reads_back_string) simp
  ultimately have "reads_back (write_string_data []) (read_members r dense_len acc) acc"
    unfolding reads_back_def by blast
  then have "codes sizes pending (write_string_data []) (read_members r dense_len acc) (\<lambda>_ _ a. a = acc)"
    by (rule codes_reads_back)
  then show ?case
    by (simp add: codes_def write_members_def wseq_emit_nil copied_members_def)
next
  case (Cons m ms)
  obtain k v where m: "m = (k, v)"
    by (cases m)
  have k: "k \<noteq> []" "utf8_valid k"
    using Cons.prems(2) m by simp_all
  let ?rest = "wseq (write_members w ms) (write_string_data [])"
  show ?case
    unfolding codes_def
  proof (intro allI impI)
    fix e d bs e'
    assume st: "in_step sizes pending e d" and fit: "tables_fit e'"
      and wr: "wseq (write_members w (m # ms)) (write_string_data []) e = Inr (bs, e')"
    have "wseq (wseq (write_string_data k) (w v)) ?rest e = Inr (bs, e')"
      using wr by (simp add: write_members_def m wseq_assoc)
    then obtain b1 e1 b2 where b1: "wseq (write_string_data k) (w v) e = Inr (b1, e1)"
      and b2: "?rest e1 = Inr (b2, e')" and bs: "bs = b1 @ b2"
      by (rule wseq_InrE)
    have grest: "grows ?rest"
      using g by (auto simp: write_members_def intro!: grows_wseq grows_wlist)
    have fit1: "tables_fit e1"
      using grest b2 fit by (auto simp: grows_def intro: tables_fit_le)
    have "codes sizes pending (wseq (write_string_data k) (w v))
      (\<lambda>s. rbind (read_string_content s) (\<lambda>(a, s1). rbind (r s1) (\<lambda>(b, s2). Inr ((a, b), s2))))
      (\<lambda>e objs (a, b). a = k \<and> amf3_copy sizes e objs v b)"
      using Cons.prems(1) [of v] k(2) g m by (intro codes_seq codes_reads_back reads_back_string) auto
    from codesD [OF this st b1 fit1] obtain p d1 where p:
      "\<And>rest. rbind (read_string_content (b1 @ rest, d)) (\<lambda>(a, s1). rbind (r s1) (\<lambda>(b, s2). Inr ((a, b), s2))) = Inr (p, (rest, d1))"
      "in_step sizes pending e1 d1" "extends e d e1 d1" "case p of (a, b) \<Rightarrow> a = k \<and> amf3_copy sizes e1 (ad_objects d1) v b"
      by blast
    obtain a where pa: "p = (k, a)" "amf3_copy sizes e1 (ad_objects d1) v a"
      using p(4) by auto
    have "codes sizes pending ?rest (read_members r dense_len (acc @ [(k, a)]))
        (\<lambda>e objs ms'. \<exists>new. ms' = (acc @ [(k, a)]) @ new \<and> copied_members sizes e objs ms new)"
      using Cons.prems m by (intro Cons.IH) auto
    from codesD [OF this p(2) b2 fit] obtain ms' d2 where ms':
      "\<And>rest. read_members r dense_len (acc @ [(k, a)]) (b2 @ rest, d1) = Inr (ms', (rest, d2))"
      "in_step sizes pending e' d2" "extends e1 d1 e' d2"
      "\<exists>new. ms' = (acc @ [(k, a)]) @ new \<and> copied_members sizes e' (ad_objects d2) ms new"
      by blast
    have read: "read_members r dense_len acc (bs @ rest, d) = Inr (ms', (rest, d2))" for rest
    proof -
      obtain s1 s2 where "read_string_content (b1 @ b2 @ rest, d) = Inr (k, s1)" "r s1 = Inr (a, s2)" "s2 = (b2 @ rest, d1)"
        using p(1) [of "b2 @ rest"] pa(1) by (auto elim!: rbind_InrE)
      then show ?thesis
        using ms'(1) [of rest] k Cons.prems(3) by (subst read_members.simps) (simp add: bs)
    qed
    obtain new where "ms' = acc @ (k, a) # new" "copied_members sizes e' (ad_objects d2) (m # ms) ((k, a) # new)"
      using ms'(4) amf3_copy_extends [OF ms'(3) pa(2)] m by (auto simp: copied_members_Cons)
    then show "\<exists>x d'. (\<forall>rest. read_members r dense_len acc (bs @ rest, d) = Inr (x, (rest, d')))
        \<and> in_step sizes pending e' d' \<and> extends e d e' d'
        \<and> (\<exists>new. x = acc @ new \<and> copied_members sizes e' (ad_objects d') (m # ms) new)"
      using read ms'(2) extends_trans [OF p(3) ms'(3)] by blast
  qed
qed

lemma codes_pair:
  assumes "codes sizes pending (w k) r (\<lambda>e objs a. amf3_copy sizes e objs k a)"
    and "codes sizes pending (w v) r (\<lambda>e objs a. amf3_copy sizes e objs v a)" and "grows (w v)"
  shows "codes sizes pending (wseq (w k) (w v)) (read_pair r)
    (\<lambda>e objs (a, b). amf3_copy sizes e objs k a \<and> amf3_copy sizes e objs v b)"
proof -
  have "read_pair r = (\<lambda>s. rbind (r s) (\<lambda>(a, s1). rbind (r s1) (\<lambda>(b, s2). Inr ((a, b), s2))))"
    by (simp add: read_pair_def fun_eq_iff)
  then show ?thesis
    using codes_seq [OF assms] by (auto intro: amf3_copy_extends)
qed

definition flat_pairs :: "('a \<times> 'a) list \<Rightarrow> 'a list" where
  "flat_pairs es = concat (map (\<lambda>(k, v). [k, v]) es)"

lemma codes_pairs:
  assumes "\<And>v. v \<in> set (flat_pairs es) \<Longrightarrow> codes sizes pending (w v) r (\<lambda>e objs a. amf3_copy sizes e objs v a)"
    and g: "\<And>v. grows (w v)"
  shows "codes sizes pending (wlist (\<lambda>(k, v). wseq (w k) (w v)) es) (read_n (length es) (read_pair r))
    (\<lambda>e objs es'. list_all2 (amf3_copy sizes e objs) (flat_pairs es) (flat_pairs es'))"
  using assms(1)
proof (induction es)
  case Nil
  then show ?case
    using codes_list [of "[]"] by (simp add: codes_def flat_pairs_def)
next
  case (Cons p es)
  obtain k v where p: "p = (k, v)"
    by (cases p)
  let ?W = "\<lambda>(k, v). wseq (w k) (w v)"
  have "codes sizes pending (wseq (wseq (w k) (w v)) (wlist ?W es))
     (\<lambda>s. rbind (rbind (read_pair r s) (\<lambda>(a, s1). rbind (read_n (length es) (read_pair r) s1) (\<lambda>(b, s2). Inr ((a, b), s2))))
        (\<lambda>(ab, s1). Inr ((\<lambda>(a, b). a # b) ab, s1)))
     (\<lambda>e objs es'. list_all2 (amf3_copy sizes e objs) (flat_pairs (p # es)) (flat_pairs es'))"
    by (rule codes_map [OF codes_seq [OF codes_pair Cons.IH]])
      (use Cons.prems p g in \<open>auto simp: flat_pairs_def intro: amf3_copy_extends intro!: grows_wlist split: prod.splits\<close>)
  moreover have "rbind (rbind (read_pair r s) (\<lambda>(a, s1). rbind (read_n (length es) (read_pair r) s1) (\<lambda>(b, s2). Inr ((a, b), s2))))
        (\<lambda>(ab, s1). Inr ((\<lambda>(a, b). a # b) ab, s1)) = read_n (length (p # es)) (read_pair r) s" for s
    by (auto simp: rbind_def split: sum.splits prod.splits)
  ultimately show ?case
    by (simp add: p)
qed

end
