(* ===== verification/Amf3_Nodes.thy ===== *)
theory Amf3_Nodes
  imports Amf3_Codes
begin

text \<open>
  One complex value: what the AMF3 encoder writes for it the decoder reads back into a new slot of its
  object table, for every construct that has a marker of its own.
\<close>

section \<open>One complex value\<close>

text \<open>
  The state in which the body of a complex value is written: the next object number is taken, and if the
  value was reached through a reference that object has the number.
\<close>

definition entered :: "amf3_value \<Rightarrow> amf3_encoder \<Rightarrow> amf3_encoder \<Rightarrow> bool" where
  "entered v e0 e1 \<longleftrightarrow>
     ae_strings e1 = ae_strings e0 \<and> ae_traits e1 = ae_traits e0 \<and> ae_objects e1 = ae_objects e0
     \<and> unat (ae_next_object e1) = Suc (unat (ae_next_object e0))
     \<and> (ae_object_refs e1 = ae_object_refs e0
        \<or> (\<exists>i<length (ae_objects e0). ae_objects e0 ! i = v \<and> hm_get (ae_object_refs e0) i = None
             \<and> ae_object_refs e1 = hm_insert i (ae_next_object e0) (ae_object_refs e0)))"

lemma entered_refs:
  assumes "entered v e0 e1"
  shows "refs_of e0 \<subseteq>\<^sub>m refs_of e1"
    and "refs_of e1 i = Some n \<Longrightarrow>
      refs_of e0 i = Some n \<or> refs_of e0 i = None \<and> n = unat (ae_next_object e0) \<and> i < length (ae_objects e0) \<and> ae_objects e0 ! i = v"
  using assms by (auto simp: entered_def refs_of_def map_le_def split: if_splits)

lemma entered_inj:
  assumes "entered v e0 e1" and "inj_on (refs_of e0) (dom (refs_of e0))"
    and "\<And>i n. refs_of e0 i = Some n \<Longrightarrow> n < unat (ae_next_object e0)"
  shows "inj_on (refs_of e1) (dom (refs_of e1))"
proof -
  have "refs_of e1 = refs_of e0 \<or> (\<exists>i. refs_of e1 = (refs_of e0)(i \<mapsto> unat (ae_next_object e0)))"
    using assms(1) by (auto simp: entered_def refs_of_def fun_eq_iff)
  then show ?thesis
    using assms(2,3) by (fastforce simp: inj_on_def dom_def)
qed

lemma codes_node:
  fixes e0 :: amf3_encoder and d0 :: amf3_decoder
  defines "N \<equiv> length (ad_objects d0)"
  assumes st: "in_step sizes pending e0 d0" and ent: "entered v e0 e1" and room: "N < MAX_REFERENCES"
    and pre: "tables_ok e2 d2" "ad_objects d2 = ad_objects d0" "same_objects e1 e2"
    and w: "w e2 = Inr (bs, e')" and fit: "tables_fit e'"
    and body: "codes sizes (insert N pending) w rb Q"
    and mk: "\<And>e objs x. Q e objs x \<Longrightarrow> amf3_node sizes e objs v (mk x)"
  shows "\<exists>d'. (\<forall>rest. with_placeholder rb mk (bs @ rest, d2) = Inr (A3Reference N, (rest, d')))
    \<and> in_step sizes pending e' d' \<and> extends e0 d0 e' d' \<and> amf3_copy sizes e' (ad_objects d') v (A3Reference N)"
proof -
  let ?d2 = "d2\<lparr>ad_objects := ad_objects d2 @ [A3Null]\<rparr>"
  have refs2: "refs_of e2 = refs_of e1" and objs2: "ae_objects e2 = ae_objects e0"
    using pre(3) ent by (auto simp: same_objects_def refs_of_def entered_def fun_eq_iff)
  have old: "refs_of e0 i = Some n \<Longrightarrow> n < N \<and> i < length (ae_objects e0)
      \<and> (n \<in> pending \<or> amf3_node sizes e0 (ad_objects d0) (ae_objects e0 ! i) (ad_objects d0 ! n))" for i n
    using st by (simp add: in_step_def N_def)
  have next0: "unat (ae_next_object e0) = N"
    using st by (simp add: in_step_def N_def)
  have le0: "refs_of e0 \<subseteq>\<^sub>m refs_of e2"
    using entered_refs(1) [OF ent] by (simp add: refs2)
  have keep: "amf3_node sizes e2 (ad_objects ?d2) a b" if "amf3_node sizes e0 (ad_objects d0) a b" for a b
    by (rule amf3_node_mono [OF le0 _ that]) (simp add: pre(2))
  have "in_step sizes (insert N pending) e2 ?d2"
    unfolding in_step_def
  proof (intro conjI allI impI)
    show "tables_ok e2 ?d2"
      using pre(1) by (simp add: tables_ok_def strings_ok_def traits_ok_def)
    show "unat (ae_next_object e2) = length (ad_objects ?d2)"
      using ent pre(2,3) next0 by (simp add: entered_def same_objects_def N_def)
    show "length (ad_objects ?d2) \<le> MAX_REFERENCES"
      using room pre(2) by (simp add: N_def)
    have "inj_on (refs_of e1) (dom (refs_of e1))"
      by (rule entered_inj [OF ent]) (use st next0 in \<open>auto simp: in_step_def N_def\<close>)
    then show "inj_on (refs_of e2) (dom (refs_of e2))"
      by (simp add: refs2)
    show "list_all amf3_wf (ae_objects e2)"
      using st by (simp add: objs2 in_step_def)
    fix i n assume "refs_of e2 i = Some n"
    then consider "refs_of e0 i = Some n" | "n = N" "i < length (ae_objects e0)"
      using entered_refs(2) [OF ent] refs2 next0 by fastforce
    then show "n < length (ad_objects ?d2)" "i < length (ae_objects e2)"
      "n \<in> insert N pending \<or> amf3_node sizes e2 (ad_objects ?d2) (ae_objects e2 ! i) (ad_objects ?d2 ! n)"
      using old [of i n] keep by (cases, auto simp: pre(2) objs2 N_def nth_append)+
  qed
  from codesD [OF body this w fit] obtain x d3 where x: "\<And>rest. rb (bs @ rest, ?d2) = Inr (x, (rest, d3))"
    "in_step sizes (insert N pending) e' d3" "extends e2 ?d2 e' d3" "Q e' (ad_objects d3) x"
    by blast
  obtain news where news: "ad_objects d3 = ad_objects d0 @ A3Null # news"
    using x(3) pre(2) by (auto simp: extends_def)
  let ?d' = "d3\<lparr>ad_objects := (ad_objects d3)[N := mk x]\<rparr>"
  have objs': "ad_objects ?d' = ad_objects d0 @ mk x # news"
    by (simp add: news N_def)
  have slot: "ad_objects d3 ! N = A3Null" "ad_objects ?d' ! N = mk x" "N < length (ad_objects ?d')"
    "N < length (ad_objects d3)"
    by (simp_all add: news N_def)
  have le3: "arena_le amf3_complex (ad_objects d3) (ad_objects ?d')"
    using slot(1) by (simp add: arena_le_update amf3_complex_def)
  have node: "amf3_node sizes e' (ad_objects ?d') v (mk x)"
    using amf3_node_mono [OF map_le_refl le3] mk [OF x(4)] by blast
  have owner: "ae_objects e' ! i = v" if "refs_of e' i = Some N" for i
  proof -
    have "refs_of e2 i = Some N"
    proof (cases "refs_of e2 i")
      case None
      then have "length (ad_objects ?d2) \<le> N"
        using x(3) that unfolding extends_def by blast
      then show ?thesis
        by (simp add: pre(2) N_def)
    next
      case (Some m)
      then show ?thesis
        using x(3) that unfolding extends_def map_le_def by (metis domI option.inject)
    qed
    then have "ae_objects e0 ! i = v"
      using entered_refs(2) [OF ent, of i N] refs2 old [of i N] by auto
    then show ?thesis
      using x(3) objs2 by (simp add: extends_def)
  qed
  have step: "in_step sizes pending e' ?d'"
    unfolding in_step_def
  proof (intro conjI allI impI)
    show "tables_ok e' ?d'" "unat (ae_next_object e') = length (ad_objects ?d')"
      "length (ad_objects ?d') \<le> MAX_REFERENCES" "list_all amf3_wf (ae_objects e')" "inj_on (refs_of e') (dom (refs_of e'))"
      using x(2) by (simp_all add: in_step_def tables_ok_def strings_ok_def traits_ok_def)
    fix i n assume r: "refs_of e' i = Some n"
    then show "n < length (ad_objects ?d')" "i < length (ae_objects e')"
      using x(2) by (simp_all add: in_step_def)
    show "n \<in> pending \<or> amf3_node sizes e' (ad_objects ?d') (ae_objects e' ! i) (ad_objects ?d' ! n)"
    proof (cases "n = N")
      case True
      then show ?thesis
        using node owner r slot(2) by auto
    next
      case False
      then have "n \<in> pending \<or> amf3_node sizes e' (ad_objects d3) (ae_objects e' ! i) (ad_objects d3 ! n)"
        using x(2) r by (auto simp: in_step_def)
      then show ?thesis
        using amf3_node_mono [OF map_le_refl le3] False by auto
    qed
  qed
  have new_ref: "N \<le> n" if n: "refs_of e' i = Some n" "refs_of e0 i = None" for i n
  proof (cases "refs_of e2 i")
    case None
    then show ?thesis
      using x(3) n(1) pre(2) unfolding extends_def N_def by fastforce
  next
    case (Some m)
    then have "m = n"
      using x(3) n(1) unfolding extends_def map_le_def by (metis domI option.inject)
    then show ?thesis
      using entered_refs(2) [OF ent, of i m] Some refs2 n(2) next0 by auto
  qed
  have "extends e0 d0 e' ?d'"
    unfolding extends_def
  proof (intro conjI allI impI)
    show "\<exists>news. ad_objects ?d' = ad_objects d0 @ news"
      using objs' by blast
    have "refs_of e2 \<subseteq>\<^sub>m refs_of e'" "ae_objects e' = ae_objects e2"
      using x(3) by (simp_all add: extends_def)
    then show "refs_of e0 \<subseteq>\<^sub>m refs_of e'" "ae_objects e' = ae_objects e0"
      using le0 objs2 by (blast intro: map_le_trans, simp)
  qed (simp add: new_ref flip: N_def)
  moreover have "with_placeholder rb mk (bs @ rest, d2) = Inr (A3Reference N, (rest, ?d'))" for rest
  proof -
    have len2: "length (ad_objects d2) = N"
      by (simp add: pre(2) N_def)
    have push: "push_object A3Null (bs @ rest, d2) = Inr ((), (bs @ rest, ?d2))"
      using room len2 by (simp add: push_object_def)
    have fin: "finish_object N (mk x) (rest, d3) = Inr (A3Reference N, (rest, ?d'))"
      using slot(4) by (simp add: finish_object_def)
    show ?thesis
      unfolding with_placeholder_def Let_def snd_conv len2 push rbind_simps prod.case x(1) fin ..
  qed
  moreover have "amf3_copy sizes e' (ad_objects ?d') v (A3Reference N)"
    using node slot(2,3) by (intro copy_of_node [of _ _ _ _ _ _ _ N]) (simp_all only: amf3_graph_simps amf3_reference.simps)
  ultimately show ?thesis
    using step by blast
qed

text \<open>The reader takes the whole encoding of a complex value back, into a new slot.\<close>

definition decoded ::
    "amf3_sizes \<Rightarrow> nat set \<Rightarrow> amf3_value amf3_reader \<Rightarrow> amf3_encoder \<Rightarrow> amf3_decoder \<Rightarrow> amf3_value \<Rightarrow> bytes \<Rightarrow>
     amf3_encoder \<Rightarrow> bool" where
  "decoded sizes pending rd e0 d0 v bs e' \<longleftrightarrow>
     (\<exists>m b d'. bs = m # b
        \<and> (\<forall>rest. read_inline rd m (b @ rest, d0) = Inr (A3Reference (length (ad_objects d0)), (rest, d')))
        \<and> in_step sizes pending e' d' \<and> extends e0 d0 e' d'
        \<and> amf3_copy sizes e' (ad_objects d') v (A3Reference (length (ad_objects d0))))"

lemma decodedI:
  assumes "in_step sizes pending e0 d0" "entered v e0 e1" "length (ad_objects d0) < MAX_REFERENCES"
    "tables_ok e2 d2" "ad_objects d2 = ad_objects d0" "same_objects e1 e2"
    "codes sizes (insert (length (ad_objects d0)) pending) w rb Q"
    "w e2 = Inr (bs, e')" "tables_fit e'"
    "\<And>e objs x. Q e objs x \<Longrightarrow> amf3_node sizes e objs v (mk x)"
    "\<And>rest. read_inline rd m (b @ rest, d0) = with_placeholder rb mk (bs @ rest, d2)"
  shows "decoded sizes pending rd e0 d0 v (m # b) e'"
  using codes_node [OF assms(1-6,8,9,7,10)] assms(11) unfolding decoded_def by auto

lemma entered_tables: "in_step sizes pending e0 d0 \<Longrightarrow> entered v e0 e1 \<Longrightarrow> tables_ok e1 d0"
  by (auto simp: in_step_def entered_def tables_ok_def strings_ok_def traits_ok_def)

lemma read_inline_simps [simp]:
  "read_inline rd 0x07 = read_xml_doc" "read_inline rd 0x08 = read_date" "read_inline rd 0x09 = read_array rd"
  "read_inline rd 0x0A = read_object rd" "read_inline rd 0x0B = read_xml" "read_inline rd 0x0C = read_byte_array"
  "read_inline rd 0x0D = read_vector_int" "read_inline rd 0x0E = read_vector_uint"
  "read_inline rd 0x0F = read_vector_double" "read_inline rd 0x10 = read_vector_object rd"
  "read_inline rd 0x11 = read_dictionary rd"
  by (simp_all add: read_inline_def fun_eq_iff)

lemma store_object_eq: "store_object v s = with_placeholder (\<lambda>s. Inr ((), s)) (\<lambda>_. v) s"
  by (auto simp: store_object_def with_placeholder_def Let_def intro!: rbind_cong)

lemma node_plain: "amf3_complex v \<Longrightarrow> amf3_children v = [] \<Longrightarrow> amf3_node sizes e objs v v"
  using amf3_replace_self [of v] by (simp add: node_copy_def)

text \<open>Complex values without parts of their own: the value is read, then stored.\<close>

lemma decoded_plain:
  assumes st: "in_step sizes pending e0 d0" and ent: "entered v e0 e1"
    and room: "length (ad_objects d0) < MAX_REFERENCES" and fit: "tables_fit e1"
    and v: "amf3_complex v" "amf3_children v = []"
    and rd: "\<And>rest. read_inline rd m (b @ rest, d0) = store_object v (rest, d0)"
  shows "decoded sizes pending rd e0 d0 v (m # b) e1"
proof (rule decodedI [OF st ent room, where ?e2.0 = e1 and ?d2.0 = d0 and w = "emit []" and bs = "[]"])
  show "codes sizes (insert (length (ad_objects d0)) pending) (emit []) (\<lambda>s. Inr ((), s)) (\<lambda>_ _ x. x = ())"
    by (rule codes_emit) simp
  show "read_inline rd m (b @ rest, d0) = with_placeholder (\<lambda>s. Inr ((), s)) (\<lambda>_. v) ([] @ rest, d0)" for rest
    by (simp add: rd store_object_eq)
qed (use entered_tables [OF st ent] node_plain [OF v] fit in auto)

lemma read_text_back:
  assumes "utf8_valid s" "length s \<le> MAX_STRING_LEN"
  shows "read_text mk ((write_len (length s) @ s) @ rest, d) = store_object (mk s) (rest, d)"
proof -
  have "length s < 2 ^ 28"
    using assms(2) by (simp add: MAX_STRING_LEN_def)
  then show ?thesis
    using assms by (simp add: read_text_def inline_or_ref_len len_header Let_def lift_read_def read_utf8_append)
qed

lemma read_byte_array_back:
  assumes "length s \<le> MAX_BYTEARRAY_LEN"
  shows "read_byte_array ((write_len (length s) @ s) @ rest, d) = store_object (A3ByteArray s) (rest, d)"
proof -
  have "length s < 2 ^ 28"
    using assms by (simp add: MAX_BYTEARRAY_LEN_def)
  then show ?thesis
    using assms by (simp add: read_byte_array_def inline_or_ref_len len_header Let_def lift_read_def amf3_read_exact_def)
qed

lemma read_date_back: "read_date ((write_u29 1 @ write_f64_be n) @ rest, d) = store_object (A3Date n) (rest, d)"
proof -
  have "lift_read read_u29 (write_u29 1 @ xs, d) = Inr (1, (xs, d))" for xs
    by (rule lift_read_u29) simp
  then show ?thesis
    by (simp add: read_date_def inline_or_ref_def lift_read_def [of read_f64] read_f64_def)
qed

text \<open>Vectors of numbers.\<close>

lemma read_n_pure:
  assumes "\<And>x rest d. rd (enc x @ rest, d) = Inr (x, (rest, d))"
  shows "read_n (length xs) rd (concat (map enc xs) @ rest, d) = Inr (xs, (rest, d))"
  by (induction xs) (simp_all add: assms)

lemma read_vector_back:
  assumes "n \<le> MAX_COLLECTION_LEN"
  shows "read_vector k ((write_len n @ [of_bool fixed]) @ rest, d) = k n fixed (rest, d)"
proof -
  have "n < 2 ^ 28"
    using assms by (simp add: MAX_COLLECTION_LEN_def)
  then show ?thesis
    using assms
    by (simp add: read_vector_def inline_or_ref_len len_header Let_def lift_read_def [of read_marker] read_marker_def)
qed

lemma decoded_numbers:
  assumes st: "in_step sizes pending e0 d0" and ent: "entered v e0 e1"
    and room: "length (ad_objects d0) < MAX_REFERENCES" and fit: "tables_fit e'"
    and v: "amf3_complex v" "amf3_children v = []" "v = mk xs"
    and w: "write_vector m (length xs) fixed (emit (concat (map enc xs))) e1 = Inr (bs, e')"
    and enc: "\<And>x rest d. rd1 (enc x @ rest, d) = Inr (x, (rest, d))"
    and rd: "read_inline rd m = read_vector (\<lambda>len f. with_placeholder (read_n len rd1) (mk' f))" and mk': "mk' fixed = mk"
  shows "decoded sizes pending rd e0 d0 v bs e'"
proof -
  have len: "length xs \<le> MAX_COLLECTION_LEN" and e': "e' = e1"
    and bs: "bs = m # (write_len (length xs) @ [of_bool fixed]) @ concat (map enc xs)"
    using w by (auto simp: write_vector_def split: if_splits elim!: wseq_InrE)
  show ?thesis
    unfolding bs
  proof (rule decodedI [OF st ent room, where ?e2.0 = e1 and ?d2.0 = d0 and w = "emit (concat (map enc xs))"
        and bs = "concat (map enc xs)"])
    show "codes sizes (insert (length (ad_objects d0)) pending) (emit (concat (map enc xs)))
        (read_n (length xs) rd1) (\<lambda>_ _ x. x = xs)"
      by (rule codes_emit) (rule read_n_pure [OF enc])
    show "read_inline rd m (((write_len (length xs) @ [of_bool fixed]) @ concat (map enc xs)) @ rest, d0)
        = with_placeholder (read_n (length xs) rd1) mk (concat (map enc xs) @ rest, d0)" for rest
      unfolding rd mk' [symmetric] append_assoc [of "write_len (length xs) @ [of_bool fixed]"] by (rule read_vector_back [OF len])
  qed (use entered_tables [OF st ent] node_plain [OF v(1,2)] fit e' v(3) in auto)
qed

text \<open>The next level: its writer and reader fit together on well-formed values.\<close>

definition level_ok :: "amf3_sizes \<Rightarrow> (amf3_value \<Rightarrow> amf3_writer) \<Rightarrow> amf3_value amf3_reader \<Rightarrow> bool" where
  "level_ok sizes child rd \<longleftrightarrow>
     (\<forall>pending v. amf3_wf v \<longrightarrow> codes sizes pending (child v) rd (\<lambda>e objs a. amf3_copy sizes e objs v a))
     \<and> (\<forall>v. grows (child v))"

lemma level_okD:
  "level_ok sizes child rd \<Longrightarrow> amf3_wf v \<Longrightarrow> codes sizes pending (child v) rd (\<lambda>e objs a. amf3_copy sizes e objs v a)"
  "level_ok sizes child rd \<Longrightarrow> grows (child v)"
  by (simp_all add: level_ok_def)

lemma copied_members_extends:
  "extends e d e' d' \<Longrightarrow> copied_members sizes e (ad_objects d) ms ms' \<Longrightarrow> copied_members sizes e' (ad_objects d') ms ms'"
  by (auto simp: copied_members_def intro: copies_extends)

lemma node_array:
  assumes "list_all2 (amf3_copy sizes e objs) dense dense'" "copied_members sizes e objs assoc assoc'"
  shows "amf3_node sizes e objs (A3Array dense assoc) (A3Array dense' assoc')"
proof -
  have "length dense' = length dense" "zip (map fst assoc) (map snd assoc') = assoc'"
    using assms by (auto simp: copied_members_def list_all2_lengthD) (metis zip_fst_snd_eq)
  with assms show ?thesis
    by (auto simp: node_copy_def amf3_complex_def copied_members_def intro: list_all2_appendI)
qed

lemma decoded_array:
  assumes st: "in_step sizes pending e0 d0" and ent: "entered (A3Array dense assoc) e0 e1"
    and room: "length (ad_objects d0) < MAX_REFERENCES" and fit: "tables_fit e'"
    and wf: "amf3_wf (A3Array dense assoc)" and lv: "level_ok sizes child rd"
    and w: "write_inline child depth (A3Array dense assoc) e1 = Inr (bs, e')"
  shows "decoded sizes pending rd e0 d0 (A3Array dense assoc) bs e'"
proof -
  let ?w1 = "wseq (write_members child assoc) (write_string_data [])"
  have len: "length dense + length assoc \<le> MAX_COLLECTION_LEN"
    using w by (auto simp: write_inline_def check_collection_len_def split: if_splits)
  obtain b where w': "wseq ?w1 (wlist child dense) e1 = Inr (b, e')" and bs: "bs = 0x09 # write_len (length dense) @ b"
    using w len by (auto simp: write_inline_def check_collection_len_def wseq_assoc elim!: wseq_InrE [of "emit _"])
  have sub: "\<And>v. v \<in> set dense \<union> snd ` set assoc \<Longrightarrow> amf3_wf v"
    using amf3_wfD(2) [OF wf] by auto
  have small: "length dense < 2 ^ 28" "length dense \<le> MAX_COLLECTION_LEN"
    using len by (simp_all add: MAX_COLLECTION_LEN_def)
  have "codes sizes (insert (length (ad_objects d0)) pending) ?w1 (read_members rd (length dense) [])
      (\<lambda>e objs ms. copied_members sizes e objs assoc ms)"
    using codes_members [of assoc sizes "insert (length (ad_objects d0)) pending" child rd "[]" "length dense"]
      level_okD [OF lv] sub amf3_wfD(1) [OF wf] len by auto
  moreover have "codes sizes (insert (length (ad_objects d0)) pending) (wlist child dense) (read_n (length dense) rd)
      (\<lambda>e objs vs. list_all2 (amf3_copy sizes e objs) dense vs)"
    using level_okD [OF lv] sub by (intro codes_list) auto
  ultimately have body: "codes sizes (insert (length (ad_objects d0)) pending) (wseq ?w1 (wlist child dense))
      (\<lambda>s. rbind (rbind (read_members rd (length dense) [] s)
          (\<lambda>(a, s1). rbind (read_n (length dense) rd s1) (\<lambda>(b, s2). Inr ((a, b), s2))))
        (\<lambda>(ab, s). Inr ((\<lambda>(a, b). (b, a)) ab, s)))
      (\<lambda>e objs (vs, ms). list_all2 (amf3_copy sizes e objs) dense vs \<and> copied_members sizes e objs assoc ms)"
    by (rule codes_map [OF codes_seq]) (auto intro: copied_members_extends grows_wlist level_okD(2) [OF lv])
  show ?thesis
    unfolding bs
  proof (rule decodedI [OF st ent room _ _ _ body w' fit, of d0 "\<lambda>(dense, assoc). A3Array dense assoc"])
    show "read_inline rd 0x09 ((write_len (length dense) @ b) @ rest, d0) = with_placeholder
        (\<lambda>s. rbind (rbind (read_members rd (length dense) [] s)
            (\<lambda>(a, s1). rbind (read_n (length dense) rd s1) (\<lambda>(b, s2). Inr ((a, b), s2))))
          (\<lambda>(ab, s). Inr ((\<lambda>(a, b). (b, a)) ab, s)))
        (\<lambda>(dense, assoc). A3Array dense assoc) (b @ rest, d0)" for rest
      using small by (simp add: read_array_def inline_or_ref_len len_header Let_def)
        (rule arg_cong [where f = "\<lambda>f. with_placeholder f _ _"], auto simp: fun_eq_iff rbind_def split: sum.splits prod.splits)
  qed (use entered_tables [OF st ent] in \<open>auto intro: node_array\<close>)
qed

lemma node_vector:
  "list_all2 (amf3_copy sizes e objs) vs vs' \<Longrightarrow>
   amf3_node sizes e objs (A3VectorObject type_name fixed vs) (A3VectorObject type_name fixed vs')"
  by (simp add: node_copy_def amf3_complex_def)

lemma write_vector_InrE:
  assumes "write_vector m n fixed body e = Inr (bs, e')"
  obtains b where "n \<le> MAX_COLLECTION_LEN" "body e = Inr (b, e')" "bs = m # (write_len n @ [of_bool fixed]) @ b"
  using assms by (auto simp: write_vector_def split: if_splits elim!: wseq_InrE)

lemma decoded_vector_object:
  assumes st: "in_step sizes pending e0 d0" and ent: "entered (A3VectorObject type_name fixed vs) e0 e1"
    and room: "length (ad_objects d0) < MAX_REFERENCES" and fit: "tables_fit e'"
    and wf: "amf3_wf (A3VectorObject type_name fixed vs)" and lv: "level_ok sizes child rd"
    and w: "write_inline child depth (A3VectorObject type_name fixed vs) e1 = Inr (bs, e')"
  shows "decoded sizes pending rd e0 d0 (A3VectorObject type_name fixed vs) bs e'"
proof -
  obtain b where len: "length vs \<le> MAX_COLLECTION_LEN"
    and wb: "wseq (write_string_data type_name) (wlist child vs) e1 = Inr (b, e')"
    and bs: "bs = 0x10 # (write_len (length vs) @ [of_bool fixed]) @ b"
    using w by (auto simp: write_inline_def elim: write_vector_InrE)
  obtain b1 e2 b2 where w1: "write_string_data type_name e1 = Inr (b1, e2)" and w2: "wlist child vs e2 = Inr (b2, e')"
    and b: "b = b1 @ b2"
    using wb by (rule wseq_InrE)
  have fit2: "tables_fit e2"
    using w2 fit grows_wlist [of vs child] level_okD(2) [OF lv] by (auto simp: grows_def intro: tables_fit_le)
  have valid: "utf8_valid type_name"
    using amf3_wfD(1) [OF wf] by simp
  obtain d2 where d2: "\<And>rest. read_string_content (b1 @ rest, d0) = Inr (type_name, (rest, d2))" "tables_ok e2 d2"
    "ad_objects d2 = ad_objects d0" "same_objects e1 e2"
    using reads_backD [OF reads_back_string [OF valid] entered_tables [OF st ent] w1 fit2] by blast
  have body: "codes sizes (insert (length (ad_objects d0)) pending) (wlist child vs) (read_n (length vs) rd)
      (\<lambda>e objs as. list_all2 (amf3_copy sizes e objs) vs as)"
    using level_okD [OF lv] amf3_wfD(2) [OF wf] by (intro codes_list) auto
  show ?thesis
    unfolding bs
  proof (rule decodedI [OF st ent room d2(2-4) body w2 fit, where mk = "A3VectorObject type_name fixed"])
    show "read_inline rd 0x10 (((write_len (length vs) @ [of_bool fixed]) @ b) @ rest, d0)
        = with_placeholder (read_n (length vs) rd) (A3VectorObject type_name fixed) (b2 @ rest, d2)" for rest
      unfolding read_inline_simps read_vector_object_def append_assoc [of "write_len (length vs) @ [of_bool fixed]"]
        read_vector_back [OF len] by (simp add: b d2(1))
  qed (rule node_vector)
qed

lemma node_dictionary:
  assumes "list_all2 (amf3_copy sizes e objs) (flat_pairs es) (flat_pairs es')"
  shows "amf3_node sizes e objs (A3Dictionary weak_keys es) (A3Dictionary weak_keys es')"
  using assms by (simp add: node_copy_def amf3_complex_def flat_pairs_def)

lemma decoded_dictionary:
  assumes st: "in_step sizes pending e0 d0" and ent: "entered (A3Dictionary weak_keys es) e0 e1"
    and room: "length (ad_objects d0) < MAX_REFERENCES" and fit: "tables_fit e'"
    and wf: "amf3_wf (A3Dictionary weak_keys es)" and lv: "level_ok sizes child rd"
    and w: "write_inline child depth (A3Dictionary weak_keys es) e1 = Inr (bs, e')"
  shows "decoded sizes pending rd e0 d0 (A3Dictionary weak_keys es) bs e'"
proof -
  let ?w = "wlist (\<lambda>(k, v). wseq (child k) (child v)) es"
  obtain b where len: "length es \<le> MAX_COLLECTION_LEN" and wb: "?w e1 = Inr (b, e')"
    and bs: "bs = 0x11 # (write_len (length es) @ [of_bool weak_keys]) @ b"
    using w by (auto simp: write_inline_def elim: write_vector_InrE)
  have body: "codes sizes (insert (length (ad_objects d0)) pending) ?w (read_n (length es) (read_pair rd))
      (\<lambda>e objs es'. list_all2 (amf3_copy sizes e objs) (flat_pairs es) (flat_pairs es'))"
    using level_okD [OF lv] amf3_wfD(2) [OF wf] by (intro codes_pairs) (auto simp: flat_pairs_def)
  show ?thesis
    unfolding bs
  proof (rule decodedI [OF st ent room _ _ _ body wb fit, where mk = "A3Dictionary weak_keys" and ?d2.0 = d0])
    show "read_inline rd 0x11 (((write_len (length es) @ [of_bool weak_keys]) @ b) @ rest, d0)
        = with_placeholder (read_n (length es) (read_pair rd)) (A3Dictionary weak_keys) (b @ rest, d0)" for rest
      unfolding read_inline_simps read_dictionary_def append_assoc [of "write_len (length es) @ [of_bool weak_keys]"]
        read_vector_back [OF len] ..
  qed (use entered_tables [OF st ent] in \<open>auto intro: node_dictionary\<close>)
qed

text \<open>Objects: the traits first, then the sealed values and the dynamic members.\<close>

lemma node_object:
  assumes "list_all2 (amf3_copy sizes e objs) (map snd sealed) vs"
    and "rel_option (copied_members sizes e objs) dynamic dynamic'"
  shows "amf3_node sizes e objs (A3Object cn sealed dynamic) (A3Object cn (zip (map fst sealed) vs) dynamic')"
proof -
  have len: "length vs = length sealed"
    using assms(1) by (simp add: list_all2_lengthD [symmetric])
  show ?thesis
  proof (cases dynamic)
    case None
    with assms len show ?thesis
      by (simp add: node_copy_def amf3_complex_def)
  next
    case (Some ms)
    then obtain ms' where ms': "dynamic' = Some ms'" "copied_members sizes e objs ms ms'"
      using assms(2) by (auto simp: option_rel_Some1)
    then have "zip (map fst ms) (map snd ms') = ms'"
      by (metis copied_members_def zip_fst_snd_eq)
    with assms(1) len Some ms' show ?thesis
      by (auto simp: node_copy_def amf3_complex_def copied_members_def intro: list_all2_appendI)
  qed
qed

lemma object_header:
  assumes "length names \<le> MAX_COLLECTION_LEN"
  shows "trait_header \<lparr>ti_class_name = name, ti_sealed_names = names, ti_dynamic = dyn, ti_externalizable = False\<rparr>
    (push_bit 4 (word_of_nat (length names)) OR push_bit 3 (of_bool dyn) OR 3)"
proof -
  let ?n = "word_of_nat (length names) :: u32"
  have n: "unat ?n = length names"
    using assms by (intro unat_of_nat_u32) (simp add: MAX_COLLECTION_LEN_def)
  let ?m = "push_bit 3 (of_bool dyn) OR 3 :: u32"
  have m: "unat ?m < 2 ^ 4"
    by (cases dyn) simp_all
  have i: "unat ?n < 2 ^ (29 - 4)"
    using n assms by (simp add: MAX_COLLECTION_LEN_def)
  note hb = header_bits [OF i m]
  have b: "bit ?m 0" "bit ?m 1" "\<not> bit ?m 2" "bit ?m 3 = dyn"
    by (cases dyn; simp add: bit_numeral_rec)+
  show ?thesis
    using hb(1,2) hb(3) [of 0] hb(3) [of 1] hb(3) [of 2] hb(3) [of 3] b n assms
    by (simp add: trait_header_def or.assoc)
qed

lemma codes_option_members:
  assumes "\<And>v. v \<in> snd ` set (case dynamic of None \<Rightarrow> [] | Some ms \<Rightarrow> ms) \<Longrightarrow>
      codes sizes pending (child v) rd (\<lambda>e objs a. amf3_copy sizes e objs v a)"
    and "\<And>v. grows (child v)"
    and "case dynamic of None \<Rightarrow> True | Some ms \<Rightarrow> list_all (\<lambda>(k, _). k \<noteq> [] \<and> utf8_valid k) ms \<and> length ms \<le> MAX_COLLECTION_LEN"
  shows "codes sizes pending
      (case dynamic of None \<Rightarrow> emit [] | Some ms \<Rightarrow> wseq (write_members child ms) (write_string_data []))
      (\<lambda>s. if dynamic \<noteq> None then rbind (read_members rd 0 [] s) (\<lambda>(ms, s4). Inr (Some ms, s4)) else Inr (None, s))
      (\<lambda>e objs d. rel_option (copied_members sizes e objs) dynamic d)"
proof (cases dynamic)
  case None
  have "codes sizes pending (emit []) (\<lambda>s. Inr (None, s)) (\<lambda>_ _ x. x = None)"
    by (rule codes_emit) simp
  then show ?thesis
    using None by (auto simp: codes_def)
next
  case (Some ms)
  have "codes sizes pending (wseq (write_members child ms) (write_string_data [])) (read_members rd 0 [])
      (\<lambda>e objs ms'. copied_members sizes e objs ms ms')"
    using codes_members [of ms sizes pending child rd "[]" 0] assms Some by auto
  then have "codes sizes pending (wseq (write_members child ms) (write_string_data []))
      (\<lambda>s. rbind (read_members rd 0 [] s) (\<lambda>(ms, s4). Inr (Some ms, s4)))
      (\<lambda>e objs d. rel_option (copied_members sizes e objs) (Some ms) d)"
    by (rule codes_map) simp
  then show ?thesis
    using Some by simp
qed

lemma decoded_object:
  assumes st: "in_step sizes pending e0 d0" and ent: "entered (A3Object cn sealed dynamic) e0 e1"
    and room: "length (ad_objects d0) < MAX_REFERENCES" and fit: "tables_fit e'"
    and wf: "amf3_wf (A3Object cn sealed dynamic)" and lv: "level_ok sizes child rd"
    and w: "write_inline child depth (A3Object cn sealed dynamic) e1 = Inr (bs, e')"
  shows "decoded sizes pending rd e0 d0 (A3Object cn sealed dynamic) bs e'"
proof -
  define name where "name = (case cn of Some n \<Rightarrow> n | None \<Rightarrow> [])"
  define info where "info = \<lparr>ti_class_name = name, ti_sealed_names = map fst sealed, ti_dynamic = (dynamic \<noteq> None),
    ti_externalizable = False\<rparr>"
  define h where "h = push_bit 4 (word_of_nat (length sealed)) OR push_bit 3 (of_bool (dynamic \<noteq> None)) OR (3 :: u32)"
  let ?w = "wseq (wlist (\<lambda>(_, v). child v) sealed)
    (case dynamic of None \<Rightarrow> emit [] | Some ms \<Rightarrow> wseq (write_members child ms) (write_string_data []))"
  have len: "length sealed \<le> MAX_COLLECTION_LEN" "case dynamic of None \<Rightarrow> True | Some ms \<Rightarrow> length ms \<le> MAX_COLLECTION_LEN"
    using w by (auto simp: write_inline_def write_object_def split: if_splits option.splits)
  obtain b1 e2 b2 where w1: "write_traits info h (name # map fst sealed) e1 = Inr (b1, e2)" and w2: "?w e2 = Inr (b2, e')"
    and bs: "bs = 0x0A # b1 @ b2"
    using w by (auto simp: write_inline_def write_object_def Let_def name_def info_def h_def
        split: if_splits elim!: wseq_InrE [of "emit _"] wseq_InrE [of "write_traits _ _ _"])
  have gd: "grows (case dynamic of None \<Rightarrow> emit [] | Some ms \<Rightarrow> wseq (write_members child ms) (write_string_data []))"
    using level_okD(2) [OF lv]
    by (auto simp: write_members_def intro!: grows_wseq grows_wlist split: option.splits prod.splits)
  have gw: "grows ?w"
    using level_okD(2) [OF lv] gd by (auto intro!: grows_wseq grows_wlist split: prod.splits)
  have fit2: "tables_fit e2"
    using w2 fit gw by (auto simp: grows_def intro: tables_fit_le)
  have valid: "utf8_valid (ti_class_name info)" "list_all utf8_valid (ti_sealed_names info)"
    using amf3_wfD(1) [OF wf] by (auto simp: info_def name_def list_all_iff split: option.splits)
  have head: "trait_header info h"
    using object_header [of "map fst sealed" name "dynamic \<noteq> None"] len(1) by (simp add: info_def h_def)
  have w1': "write_traits info h (ti_class_name info # ti_sealed_names info) e1 = Inr (b1, e2)"
    using w1 by (simp add: info_def)
  obtain d2 where d2: "\<And>rest k. inline_or_ref (\<lambda>h s. rbind (read_traits h s) k) (b1 @ rest, d0) = k (info, (rest, d2))"
    "tables_ok e2 d2" "ad_objects d2 = ad_objects d0" "same_objects e1 e2"
    using traits_back [OF entered_tables [OF st ent] fit2 head valid w1'] by blast
  let ?P = "insert (length (ad_objects d0)) pending"
  have sub: "v \<in> snd ` set sealed \<or> v \<in> snd ` set (case dynamic of None \<Rightarrow> [] | Some ms \<Rightarrow> ms) \<Longrightarrow> amf3_wf v" for v
    using amf3_wfD(2) [OF wf] by (force split: option.splits)
  have "codes sizes ?P (wlist child (map snd sealed)) (read_n (length (map snd sealed)) rd)
      (\<lambda>e objs vs. list_all2 (amf3_copy sizes e objs) (map snd sealed) vs)"
    using level_okD [OF lv] sub by (intro codes_list) auto
  moreover have "wlist child (map snd sealed) = wlist (\<lambda>(_, v). child v) sealed"
    by (induction sealed) auto
  ultimately have c1: "codes sizes ?P (wlist (\<lambda>(_, v). child v) sealed) (read_n (length sealed) rd)
      (\<lambda>e objs vs. list_all2 (amf3_copy sizes e objs) (map snd sealed) vs)"
    by simp
  have c2: "codes sizes ?P (case dynamic of None \<Rightarrow> emit [] | Some ms \<Rightarrow> wseq (write_members child ms) (write_string_data []))
      (\<lambda>s. if dynamic \<noteq> None then rbind (read_members rd 0 [] s) (\<lambda>(ms, s4). Inr (Some ms, s4)) else Inr (None, s))
      (\<lambda>e objs d. rel_option (copied_members sizes e objs) dynamic d)"
    using level_okD [OF lv] sub len(2) amf3_wfD(1) [OF wf]
    by (intro codes_option_members) (auto split: option.splits)
  let ?rb = "\<lambda>s. rbind (read_n (length sealed) rd s)
    (\<lambda>(a, s1). rbind (if dynamic \<noteq> None then rbind (read_members rd 0 [] s1) (\<lambda>(ms, s4). Inr (Some ms, s4)) else Inr (None, s1))
      (\<lambda>(b, s2). Inr ((a, b), s2)))"
  have body: "codes sizes ?P ?w ?rb (\<lambda>e objs (a, b). list_all2 (amf3_copy sizes e objs) (map snd sealed) a
      \<and> rel_option (copied_members sizes e objs) dynamic b)"
    by (rule codes_seq [OF c1 c2 gd]) (rule copies_extends)
  show ?thesis
    unfolding bs
  proof (rule decodedI [OF st ent room d2(2-4) body w2 fit, where mk = "\<lambda>(vs, dyn). A3Object cn (zip (map fst sealed) vs) dyn"])
    have name: "(if name = [] then None else Some name) = cn"
      using amf3_wfD(1) [OF wf] by (auto simp: name_def split: option.splits)
    have rb: "(\<lambda>s2. rbind (read_n (length sealed) rd s2)
          (\<lambda>(vs, s3). if dynamic \<noteq> None then rbind (read_members rd 0 [] s3) (\<lambda>(ms, s4). Inr ((vs, Some ms), s4))
            else Inr ((vs, None), s3))) = ?rb"
      by (auto simp: fun_eq_iff rbind_def split: sum.splits prod.splits)
    have i: "ti_externalizable info = False" "ti_sealed_names info = map fst sealed" "ti_class_name info = name"
      "ti_dynamic info = (dynamic \<noteq> None)"
      by (simp_all add: info_def)
    show "read_inline rd 0x0A ((b1 @ b2) @ rest, d0)
        = with_placeholder ?rb (\<lambda>(vs, dyn). A3Object cn (zip (map fst sealed) vs) dyn) (b2 @ rest, d2)" for rest
      unfolding read_inline_simps read_object_def append_assoc d2(1) prod.case i if_False length_map name rb ..
  qed (auto intro: node_object)
qed

text \<open>Externalizable objects: a wrapped value, or a status bean.\<close>

lemma externalizable_traits:
  assumes "tables_ok e1 d0" and "utf8_valid cn" and "write_externalizable_header cn e1 = Inr (bs, e2)" and "tables_fit e2"
  obtains b d2 where "bs = 0x0A # b" "tables_ok e2 d2" "ad_objects d2 = ad_objects d0" "same_objects e1 e2"
    "\<And>rest. read_object rd (b @ rest, d0) =
       (case externalizable_layout_of cn of
          None \<Rightarrow> Inl (A3ExternalizableUnsupported cn)
        | Some NestedAmf3 \<Rightarrow> read_nested_externalizable rd cn (rest, d2)
        | Some StatusBean \<Rightarrow> read_status_bean cn (rest, d2))"
proof -
  define info where "info = \<lparr>ti_class_name = cn, ti_sealed_names = [], ti_dynamic = False, ti_externalizable = True\<rparr>"
  obtain b where w: "write_traits info 7 (ti_class_name info # ti_sealed_names info) e1 = Inr (b, e2)" and bs: "bs = 0x0A # b"
    using assms(3) by (auto simp: write_externalizable_header_def info_def elim!: wseq_InrE)
  have "trait_header info 7"
    by (simp add: trait_header_def info_def bit_numeral_rec)
  moreover have "utf8_valid (ti_class_name info)" "list_all utf8_valid (ti_sealed_names info)"
    using assms(2) by (simp_all add: info_def)
  ultimately obtain d2 where d2: "\<And>rest k. inline_or_ref (\<lambda>h s. rbind (read_traits h s) k) (b @ rest, d0) = k (info, (rest, d2))"
    "tables_ok e2 d2" "ad_objects d2 = ad_objects d0" "same_objects e1 e2"
    using traits_back [OF assms(1,4) _ _ _ w] by blast
  have i: "ti_externalizable info = True" "ti_class_name info = cn"
    by (simp_all add: info_def)
  show ?thesis
    by (rule that [OF bs d2(2-4)]) (simp only: read_object_def d2(1) prod.case i if_True)
qed

lemma java_back:
  assumes "utf8_valid s" "length s \<le> 65535"
  shows "read_java_utf (be16 (word_of_nat (length s)) @ s @ rest) = Inr (s, rest)"
proof -
  have "unat (word_of_nat (length s) :: u16) = length s"
    using assms(2) by (simp add: unsigned_of_nat take_bit_nat_eq_self)
  then show ?thesis
    using assms(1) by (simp add: read_java_utf_def read_utf8_append)
qed

lemma bean_back:
  assumes "bean_write_payload b e = Inr (bs, e')"
    and "list_all utf8_valid [sb_code b, sb_description b, sb_details b, sb_level b]"
  shows "e' = e" and "read_status_bean_payload (bs @ rest) = Inr (b, rest)"
proof -
  have j: "length s \<le> 65535 \<and> x = be16 (word_of_nat (length s)) @ s \<and> c' = c"
    if "write_java_utf s c = Inr (x, c')" for s x c c'
    using that by (auto simp: write_java_utf_def split: if_splits)
  show "e' = e"
    using assms(1) by (auto simp: bean_write_payload_def elim!: wseq_InrE dest!: j)
  obtain b1 b2 b3 b4 where bs: "bs = write_f64_be (sb_client_id b) @ b1 @ b2 @ b3 @ b4"
    and b: "b1 = be16 (word_of_nat (length (sb_code b))) @ sb_code b" "length (sb_code b) \<le> 65535"
      "b2 = be16 (word_of_nat (length (sb_description b))) @ sb_description b" "length (sb_description b) \<le> 65535"
      "b3 = be16 (word_of_nat (length (sb_details b))) @ sb_details b" "length (sb_details b) \<le> 65535"
      "b4 = be16 (word_of_nat (length (sb_level b))) @ sb_level b" "length (sb_level b) \<le> 65535"
    using assms(1) by (auto simp: bean_write_payload_def elim!: wseq_InrE dest!: j)
  show "read_status_bean_payload (bs @ rest) = Inr (b, rest)"
    using assms(2) b(2,4,6,8) unfolding bs b(1,3,5,7) by (simp add: read_status_bean_payload_def java_back)
qed

lemma grows_payload: "grows (bean_write_payload b)"
  unfolding bean_write_payload_def by (intro grows_wseq grows_wlist grows_emit) (auto simp: write_java_utf_def)

lemma node_bean:
  assumes "v = A3Externalizable cn (A3Object None [] (Some (bean_into_members b)))"
  shows "amf3_node sizes e objs v v"
proof -
  have "amf3_copy sizes e objs (A3Object None [] (Some (bean_into_members b))) (A3Object None [] (Some (bean_into_members b)))"
    by (rule copy_leaf) (simp add: amf3_leaf_def bean_into_members_def)
  then show ?thesis
    using assms by (simp add: node_copy_def amf3_complex_def)
qed

lemma decoded_externalizable:
  assumes st: "in_step sizes pending e0 d0" and ent: "entered (A3Externalizable cn v) e0 e1"
    and room: "length (ad_objects d0) < MAX_REFERENCES" and fit: "tables_fit e'"
    and wf: "amf3_wf (A3Externalizable cn v)" and lv: "level_ok sizes child rd"
    and w: "write_inline child depth (A3Externalizable cn v) e1 = Inr (bs, e')"
  shows "decoded sizes pending rd e0 d0 (A3Externalizable cn v) bs e'"
proof -
  have valid: "utf8_valid cn"
    using amf3_wfD(1) [OF wf] by simp
  obtain layout where layout: "externalizable_layout_of cn = Some layout"
    using w by (auto simp: write_inline_def write_externalizable_def split: if_splits option.splits)
  note tab = entered_tables [OF st ent]
  show ?thesis
  proof (cases layout)
    case NestedAmf3
    obtain b1 e2 b2 where w1: "write_externalizable_header cn e1 = Inr (b1, e2)" and w2: "child v e2 = Inr (b2, e')"
      and bs: "bs = b1 @ b2"
      using w layout NestedAmf3 by (auto simp: write_inline_def write_externalizable_def split: if_splits elim!: wseq_InrE)
    have fit2: "tables_fit e2"
      using w2 fit level_okD(2) [OF lv] by (auto simp: grows_def intro: tables_fit_le)
    obtain b d2 where h: "b1 = 0x0A # b" "tables_ok e2 d2" "ad_objects d2 = ad_objects d0" "same_objects e1 e2"
      "\<And>rest. read_object rd (b @ rest, d0) = read_nested_externalizable rd cn (rest, d2)"
      using externalizable_traits [OF tab valid w1 fit2, where rd = rd] layout NestedAmf3 by auto
    have body: "codes sizes (insert (length (ad_objects d0)) pending) (child v) rd (\<lambda>e objs a. amf3_copy sizes e objs v a)"
      using level_okD(1) [OF lv] amf3_wfD(2) [OF wf] by simp
    have "decoded sizes pending rd e0 d0 (A3Externalizable cn v) (0x0A # b @ b2) e'"
      by (rule decodedI [OF st ent room h(2-4) body w2 fit, where mk = "A3Externalizable cn"])
        (simp_all add: node_copy_def amf3_complex_def h(5) read_nested_externalizable_def)
    then show ?thesis
      by (simp add: bs h(1))
  next
    case StatusBean
    obtain ms bean where v: "v = A3Object None [] (Some ms)" "bean_from_members ms = Some bean" "bean_into_members bean = ms"
      and ok: "list_all utf8_valid [sb_code bean, sb_description bean, sb_details bean, sb_level bean]"
      using amf3_wfD(1) [OF wf] layout StatusBean
      by (auto split: amf3_value.splits option.splits list.splits)
    obtain b1 e2 b2 where w1: "write_externalizable_header cn e1 = Inr (b1, e2)"
      and w2: "bean_write_payload bean e2 = Inr (b2, e')" and bs: "bs = b1 @ b2"
      using w layout StatusBean v(1,2)
      by (auto simp: write_inline_def write_externalizable_def write_status_bean_def split: if_splits elim!: wseq_InrE)
    have fit2: "tables_fit e2"
      using w2 fit grows_payload by (auto simp: grows_def intro: tables_fit_le)
    obtain b d2 where h: "b1 = 0x0A # b" "tables_ok e2 d2" "ad_objects d2 = ad_objects d0" "same_objects e1 e2"
      "\<And>rest. read_object rd (b @ rest, d0) = read_status_bean cn (rest, d2)"
      using externalizable_traits [OF tab valid w1 fit2, where rd = rd] layout StatusBean by auto
    let ?rb = "\<lambda>s. case lift_read read_status_bean_payload s of
        Inl _ \<Rightarrow> Inl (A3ExternalizableUnsupported cn) | Inr r \<Rightarrow> Inr r"
    have "reads_back (bean_write_payload bean) ?rb bean"
      using bean_back [OF _ ok] by (fastforce simp: reads_back_def lift_read_def)
    then have body: "codes sizes (insert (length (ad_objects d0)) pending) (bean_write_payload bean) ?rb (\<lambda>_ _ x. x = bean)"
      by (rule codes_reads_back)
    have "decoded sizes pending rd e0 d0 (A3Externalizable cn v) (0x0A # b @ b2) e'"
      by (rule decodedI [OF st ent room h(2-4) body w2 fit,
            where mk = "\<lambda>bean. A3Externalizable cn (A3Object None [] (Some (bean_into_members bean)))"])
        (use v in \<open>auto simp: h(5) read_status_bean_def intro: node_bean\<close>)
    then show ?thesis
      by (simp add: bs h(1))
  qed
qed

end
