(* ===== verification/Amf3_Roundtrip.thy ===== *)
theory Amf3_Roundtrip
  imports Amf3_Nodes
begin

text \<open>
  What the AMF3 encoder writes the decoder reads back: all values by induction on the nesting depth,
  documents with shared and cyclic objects, and trees.
\<close>

section \<open>Every complex value\<close>

lemma decoded_blob:
  assumes st: "in_step sizes pending e0 d0" and ent: "entered v e0 e1"
    and room: "length (ad_objects d0) < MAX_REFERENCES" and fit: "tables_fit e'"
    and v: "v = mk s" "amf3_complex v" "amf3_children v = []" and valid: "utf8_valid s"
    and w: "wseq (emit [m]) (write_blob s MAX_STRING_LEN) e1 = Inr (bs, e')"
    and rd: "read_inline rd m = read_text mk"
  shows "decoded sizes pending rd e0 d0 v bs e'"
proof -
  have "length s \<le> MAX_STRING_LEN" "bs = m # write_len (length s) @ s" "e' = e1"
    using w by (auto simp: write_blob_def split: if_splits elim!: wseq_InrE)
  with st ent room fit v valid show ?thesis
    using decoded_plain [OF st ent room _ v(2,3)] by (simp add: rd read_text_back del: append_assoc)
qed

lemma read_word_back: "lift_read read_word (be32 x @ rest, d) = Inr (x, (rest, d))"
  by (simp add: lift_read_def read_word_def)

lemma read_f64_back: "lift_read read_f64 (write_f64_be x @ rest, d) = Inr (x, (rest, d))"
  by (simp add: lift_read_def read_f64_def)

lemma decoded_complex:
  assumes st: "in_step sizes pending e0 d0" and ent: "entered v e0 e1"
    and room: "length (ad_objects d0) < MAX_REFERENCES" and fit: "tables_fit e'"
    and wf: "amf3_wf v" and lv: "level_ok sizes child rd" and complex: "object_marker v \<noteq> None"
    and w: "write_inline child depth v e1 = Inr (bs, e')"
  shows "decoded sizes pending rd e0 d0 v bs e'"
proof -
  note ctx = st ent room fit
  have c: "amf3_complex v"
    using complex by (simp add: amf3_complex_def)
  show ?thesis
  proof (cases v)
    case (A3XmlDoc s)
    with ctx c amf3_wfD(1) [OF wf] w show ?thesis
      by (intro decoded_blob [where mk = A3XmlDoc and s = s and m = "0x07"]) (auto simp: write_inline_def read_xml_doc_def)
  next
    case (A3Xml s)
    with ctx c amf3_wfD(1) [OF wf] w show ?thesis
      by (intro decoded_blob [where mk = A3Xml and s = s and m = "0x0B"]) (auto simp: write_inline_def read_xml_def)
  next
    case (A3Date n)
    then have "bs = 0x08 # (write_u29 1 @ write_f64_be n)" "e' = e1"
      using w by (auto simp: write_inline_def)
    with A3Date c show ?thesis
      using decoded_plain [OF st ent room _ c, where m = "0x08" and b = "write_u29 1 @ write_f64_be n" and rd = rd] fit
      by (simp add: read_date_back del: append_assoc)
  next
    case (A3ByteArray s)
    then have "length s \<le> MAX_BYTEARRAY_LEN" "bs = 0x0C # (write_len (length s) @ s)" "e' = e1"
      using w by (auto simp: write_inline_def split: if_splits)
    with A3ByteArray c show ?thesis
      using decoded_plain [OF st ent room _ c, where m = "0x0C" and b = "write_len (length s) @ s" and rd = rd] fit
      by (simp add: read_byte_array_back del: append_assoc)
  next
    case (A3VectorInt fixed vs)
    with ctx c w show ?thesis
      by (intro decoded_numbers [where mk = "A3VectorInt fixed" and mk' = A3VectorInt and fixed = fixed and enc = be32 and m = "0x0D"])
        (auto simp: write_inline_def read_vector_int_def read_word_back)
  next
    case (A3VectorUint fixed vs)
    with ctx c w show ?thesis
      by (intro decoded_numbers [where mk = "A3VectorUint fixed" and mk' = A3VectorUint and fixed = fixed and enc = be32 and m = "0x0E"])
        (auto simp: write_inline_def read_vector_uint_def read_word_back)
  next
    case (A3VectorDouble fixed vs)
    with ctx c w show ?thesis
      by (intro decoded_numbers [where mk = "A3VectorDouble fixed" and mk' = A3VectorDouble and fixed = fixed and enc = write_f64_be and m = "0x0F"])
        (auto simp: write_inline_def read_vector_double_def read_f64_back)
  next
    case (A3Array dense assoc)
    with ctx wf lv w show ?thesis
      by (auto intro: decoded_array)
  next
    case (A3Object cn sealed dynamic)
    with ctx wf lv w show ?thesis
      by (auto intro: decoded_object)
  next
    case (A3Externalizable cn x)
    with ctx wf lv w show ?thesis
      by (auto intro: decoded_externalizable)
  next
    case (A3VectorObject type_name fixed vs)
    with ctx wf lv w show ?thesis
      by (auto intro: decoded_vector_object)
  next
    case (A3Dictionary weak_keys es)
    with ctx wf lv w show ?thesis
      by (auto intro: decoded_dictionary)
  qed (use complex in simp_all)
qed

section \<open>The tables only grow\<close>

lemma grows_blob [simp, intro]: "grows (write_blob s m)"
  by (simp add: write_blob_def)

lemma grows_members: "(\<And>v. grows (child v)) \<Longrightarrow> grows (write_members child ms)"
  unfolding write_members_def by (intro grows_wlist) auto

lemma grows_object: "(\<And>v. grows (child v)) \<Longrightarrow> grows (write_object child depth cn sealed dynamic)"
  by (auto simp: write_object_def Let_def intro!: grows_wseq grows_wlist grows_members split: option.splits)

lemma grows_externalizable: "(\<And>v. grows (child v)) \<Longrightarrow> grows (write_externalizable child depth cn v)"
  by (auto simp: write_externalizable_def write_externalizable_header_def write_status_bean_def intro!: grows_payload
      split: option.splits externalizable_layout.splits)

lemma grows_inline:
  assumes "\<And>v. grows (child v)"
  shows "grows (write_inline child depth v)"
  by (cases v) (auto simp: write_inline_def write_vector_def assms
      intro!: grows_wseq grows_wlist grows_members grows_object grows_externalizable)

text \<open>Values that are no references, written at their place.\<close>

definition write_here :: "nat \<Rightarrow> amf3_value \<Rightarrow> amf3_writer" where
  "write_here depth v c =
     (if object_marker v \<noteq> None \<and> MAX_REFERENCES \<le> unat (ae_next_object c)
      then Inl (A3SCollectionTooLarge (unat (ae_next_object c) + 1))
      else write_inline (write_value (Suc depth)) depth v
             (if object_marker v \<noteq> None then c\<lparr>ae_next_object := ae_next_object c + 1\<rparr> else c))"

lemma write_value_here:
  "check_depth depth \<Longrightarrow> amf3_reference v = None \<Longrightarrow> write_value depth v c = write_here depth v c"
  by (cases v) (simp_all add: write_value.simps [of depth] write_here_def)

lemma write_value_refE:
  assumes "write_value depth (A3Reference i) c = Inr (bs, c')"
  obtains (again) index where "i < length (ae_objects c)" "object_marker (ae_objects c ! i) \<noteq> None"
      "hm_get (ae_object_refs c) i = Some index" "c' = c" "check_depth depth"
      "bs = the (object_marker (ae_objects c ! i)) # write_u29 (push_bit 1 index)"
  | (first) "i < length (ae_objects c)" "object_marker (ae_objects c ! i) \<noteq> None" "hm_get (ae_object_refs c) i = None"
      "check_depth depth"
      "write_here depth (ae_objects c ! i) (c\<lparr>ae_object_refs := hm_insert i (ae_next_object c) (ae_object_refs c)\<rparr>) = Inr (bs, c')"
proof -
  have d: "check_depth depth" and i: "i < length (ae_objects c)" and m: "object_marker (ae_objects c ! i) \<noteq> None"
    using assms by (auto simp: write_value.simps [of depth] split: if_splits option.splits)
  then have "amf3_reference (ae_objects c ! i) = None"
    using amf3_complex_not_reference by (simp add: amf3_complex_def)
  with d i m assms that show ?thesis
    by (auto simp: write_value.simps [of depth "A3Reference i"] write_value_here split: option.splits)
qed

lemma write_value_too_deep: "\<not> check_depth depth \<Longrightarrow> write_value depth v c = Inl A3SDepthLimit"
  by (simp add: write_value.simps)

lemma grows_here:
  assumes "\<And>v. grows (write_value (Suc depth) v)"
  shows "grows (write_here depth v)"
proof -
  have "tables_le (e\<lparr>ae_next_object := n\<rparr>) e' = tables_le e e'" for e e' n
    by (simp add: tables_le_def)
  then show ?thesis
    using grows_inline [of "write_value (Suc depth)" depth v] assms
    by (fastforce simp: grows_def write_here_def split: if_splits)
qed

lemma grows_value: "grows (write_value depth v)"
proof (induction depth arbitrary: v rule: depth_induct)
  case (deeper depth)
  have "tables_le e e'" if w: "write_value depth v e = Inr (bs, e')" for e bs e'
  proof -
    have d: "check_depth depth"
      using w write_value_too_deep by fastforce
    note here = grows_here [OF deeper [OF d], unfolded grows_def, rule_format]
    show ?thesis
    proof (cases "amf3_reference v")
      case None
      then show ?thesis
        using w here by (simp add: write_value_here d)
    next
      case (Some i)
      then have "v = A3Reference i"
        by (cases v) auto
      have "tables_le e (e\<lparr>ae_object_refs := hm_insert i n (ae_object_refs e)\<rparr>)" if "hm_get (ae_object_refs e) i = None" for n
        using that by (auto simp: tables_le_def)
      then show ?thesis
        using w unfolding \<open>v = A3Reference i\<close> by (auto elim!: write_value_refE dest!: here intro: tables_le_trans)
    qed
  qed
  then show ?case
    by (auto simp: grows_def)
qed

section \<open>Every value\<close>

lemma high_bits_of_small:
  assumes "- (2 ^ 28) \<le> sint (i :: i32)" "sint i < 2 ^ 28" and "28 \<le> n" "n < 32"
  shows "bit i n = bit i 28"
proof -
  have "signed_take_bit 28 (sint i) = sint i"
    using assms by (simp add: signed_take_bit_int_eq_self_iff)
  moreover have "bit (signed_take_bit 28 (sint i)) n = bit (signed_take_bit 28 (sint i)) 28"
    using assms(3) by (simp add: bit_signed_take_bit_iff)
  moreover have "bit (sint i) k = bit i k" if "k < 32" for k
    using that by (simp add: bit_sint_iff)
  ultimately show ?thesis
    using assms(4) by simp
qed

lemma u29_integer_back:
  assumes "- (2 ^ 28) \<le> sint (i :: i32)" "sint i < 2 ^ 28"
  shows "unat (i AND 0x1FFFFFFF) < 2 ^ 29" and "u29_to_integer (i AND 0x1FFFFFFF) = i"
proof -
  have m: "(0x1FFFFFFF :: u32) = mask 29"
    by (simp add: mask_eq_exp_minus_1)
  have and_eq: "i AND 0x1FFFFFFF = take_bit 29 i"
    by (simp add: m take_bit_eq_mask)
  show "unat (i AND 0x1FFFFFFF) < 2 ^ 29"
    unfolding and_eq unsigned_take_bit_eq by (rule take_bit_nat_less_exp)
  have ones: "bit (0xE0000000 :: u32) n \<longleftrightarrow> 29 \<le> n \<and> n < 32" for n
  proof -
    have "(0xE0000000 :: u32) = push_bit 29 (mask 3)"
      by (simp add: mask_eq_exp_minus_1 push_bit_eq_mult)
    then have "bit (0xE0000000 :: u32) n = bit (push_bit 29 (mask 3) :: u32) n"
      by (rule arg_cong)
    then show ?thesis
      unfolding bit_push_bit_iff bit_mask_iff by auto
  qed
  have flag: "(x AND 0x10000000 \<noteq> 0) = bit x 28" for x :: u32
  proof -
    have "(0x10000000 :: u32) = push_bit 28 1"
      by (simp add: push_bit_eq_mult)
    then show ?thesis
      by (simp add: bit_iff_and_push_bit_not_eq_0)
  qed
  show "u29_to_integer (i AND 0x1FFFFFFF) = i"
    unfolding and_eq u29_to_integer_def flag
  proof (rule bit_word_eqI)
    fix n assume "n < LENGTH(32)"
    then show "bit (if bit (take_bit 29 i) 28 then take_bit 29 i OR 0xE0000000 else take_bit 29 i) n = bit i n"
      using high_bits_of_small [OF assms, of n] by (cases "29 \<le> n") (auto simp: bit_take_bit_iff bit_or_iff ones simp del: bit_numeral_word_iff)
  qed
qed

abbreviation read_at :: "amf3_value amf3_reader \<Rightarrow> amf3_value amf3_reader" where
  "read_at rd s \<equiv> rbind (lift_read read_marker s) (\<lambda>(m, s1). read_inline rd m s1)"

lemma read_at_Cons: "read_at rd (m # bs, d) = read_inline rd m (bs, d)"
  by (simp add: lift_read_def read_marker_def)

lemma read_inline_scalars:
  "read_inline rd 0 s = Inr (A3Undefined, s)" "read_inline rd 1 s = Inr (A3Null, s)"
  "read_inline rd 2 s = Inr (A3Boolean False, s)" "read_inline rd 3 s = Inr (A3Boolean True, s)"
  "read_inline rd 4 s = rbind (lift_read read_u29 s) (\<lambda>(raw, s1). Inr (A3Integer (u29_to_integer raw), s1))"
  "read_inline rd 5 s = rbind (lift_read read_f64 s) (\<lambda>(n, s1). Inr (A3Double n, s1))"
  "read_inline rd 6 s = rbind (read_string_content s) (\<lambda>(x, s1). Inr (A3String x, s1))"
  by (simp_all add: read_inline_def)

lemma codes_marker:
  assumes "codes sizes pending w r Q" and "\<And>s. read_inline rd m s = r s"
  shows "codes sizes pending (wseq (emit [m]) w) (read_at rd) Q"
  using assms unfolding codes_def by (fastforce simp: read_at_Cons elim!: wseq_InrE)

lemma codes_scalar:
  assumes "object_marker v = None" "amf3_reference v = None" and "amf3_local v"
  shows "codes sizes pending (write_inline child depth v) (read_at rd) (\<lambda>_ _ a. a = v)"
proof (cases v)
  case (A3Integer i)
  then have r: "- (2 ^ 28) \<le> sint i" "sint i < 2 ^ 28"
    using assms(3) by (auto simp: MIN_AMF3_INTEGER_def MAX_AMF3_INTEGER_def)
  then have w: "write_inline child depth v = emit (4 # write_u29 (i AND 0x1FFFFFFF))"
    using A3Integer assms(3) by (simp add: write_inline_def)
  show ?thesis
    unfolding w using u29_integer_back [OF r]
    by (intro codes_emit) (simp add: read_at_Cons read_inline_scalars lift_read_u29 A3Integer)
next
  case (A3String s)
  then have "codes sizes pending (write_string_data s)
      (\<lambda>s. rbind (read_string_content s) (\<lambda>(x, s1). Inr (A3String x, s1))) (\<lambda>_ _ a. a = v)"
    using assms(3) by (intro codes_map [OF codes_reads_back [OF reads_back_string]]) simp_all
  then have "codes sizes pending (wseq (emit [6]) (write_string_data s)) (read_at rd) (\<lambda>_ _ a. a = v)"
    by (rule codes_marker) (simp add: read_inline_scalars)
  then show ?thesis
    by (simp add: A3String write_inline_def)
qed (use assms(1,2) in \<open>auto simp: write_inline_def read_at_Cons read_inline_scalars read_f64_back intro!: codes_emit\<close>)


lemma read_value_at: "check_depth depth \<Longrightarrow> read_value depth s = read_at (read_value (Suc depth)) s"
  by (simp add: read_value.simps [of depth])

text \<open>A repeated object is written as its number, whatever its marker.\<close>

lemma read_inline_again:
  assumes "object_marker v = Some m" and "unat index < length (ad_objects d)" and "length (ad_objects d) \<le> MAX_REFERENCES"
  shows "read_inline rd m (write_u29 (push_bit 1 index) @ rest, d) = Inr (A3Reference (unat index), (rest, d))"
proof -
  have i: "unat index < 2 ^ 28"
    using assms(2,3) by (simp add: MAX_REFERENCES_def)
  have "inline_or_ref k (write_u29 (push_bit 1 index) @ rest, d) = Inr (A3Reference (unat index), (rest, d))" for k
    using even_u29 [OF i] assms(2) by (simp add: inline_or_ref_def lift_read_u29 resolve_object_def)
  with assms(1) show ?thesis
    by (cases v) (auto simp: read_xml_doc_def read_xml_def read_text_def read_date_def read_array_def read_object_def
        read_byte_array_def read_vector_int_def read_vector_uint_def read_vector_double_def read_vector_object_def
        read_dictionary_def read_vector_def)
qed

lemma entered_here:
  assumes "unat (ae_next_object e) < MAX_REFERENCES"
  shows "entered v e (e\<lparr>ae_next_object := ae_next_object e + 1\<rparr>)"
    and "i < length (ae_objects e) \<Longrightarrow> ae_objects e ! i = v \<Longrightarrow> hm_get (ae_object_refs e) i = None \<Longrightarrow>
      entered v e (e\<lparr>ae_object_refs := hm_insert i (ae_next_object e) (ae_object_refs e), ae_next_object := ae_next_object e + 1\<rparr>)"
proof -
  have "unat (ae_next_object e + 1) = Suc (unat (ae_next_object e))"
    using assms by (simp add: unat_word_ariths MAX_REFERENCES_def)
  then show "entered v e (e\<lparr>ae_next_object := ae_next_object e + 1\<rparr>)"
    "i < length (ae_objects e) \<Longrightarrow> ae_objects e ! i = v \<Longrightarrow> hm_get (ae_object_refs e) i = None \<Longrightarrow>
      entered v e (e\<lparr>ae_object_refs := hm_insert i (ae_next_object e) (ae_object_refs e), ae_next_object := ae_next_object e + 1\<rparr>)"
    by (auto simp: entered_def)
qed

lemma decoded_here:
  assumes st: "in_step sizes pending e0 d0" and complex: "object_marker v \<noteq> None" and wf: "amf3_wf v"
    and lv: "level_ok sizes (write_value (Suc depth)) rd" and fit: "tables_fit e'"
    and w: "write_here depth v (e0\<lparr>ae_object_refs := refs\<rparr>) = Inr (bs, e')"
    and refs: "refs = ae_object_refs e0 \<or> (\<exists>i<length (ae_objects e0). ae_objects e0 ! i = v
        \<and> hm_get (ae_object_refs e0) i = None \<and> refs = hm_insert i (ae_next_object e0) (ae_object_refs e0))"
  shows "decoded sizes pending rd e0 d0 v bs e'"
proof -
  let ?e1 = "e0\<lparr>ae_object_refs := refs, ae_next_object := ae_next_object e0 + 1\<rparr>"
  have room: "unat (ae_next_object e0) < MAX_REFERENCES"
    and w': "write_inline (write_value (Suc depth)) depth v ?e1 = Inr (bs, e')"
    using w complex by (auto simp: write_here_def not_le split: if_splits)
  have "entered v e0 ?e1"
    using refs entered_here [OF room] by (auto simp: entered_def)
  moreover have "length (ad_objects d0) < MAX_REFERENCES"
    using st room by (simp add: in_step_def)
  ultimately show ?thesis
    using decoded_complex [OF st _ _ fit wf lv complex w'] by blast
qed

lemma decoded_codes:
  assumes "decoded sizes pending rd e0 d0 v bs e'"
  shows "\<exists>a d'. (\<forall>rest. read_at rd (bs @ rest, d0) = Inr (a, (rest, d'))) \<and> in_step sizes pending e' d'
    \<and> extends e0 d0 e' d' \<and> amf3_copy sizes e' (ad_objects d') v a"
  using assms unfolding decoded_def by (auto simp: lift_read_def read_marker_def)


lemma codes_value:
  assumes lv: "level_ok sizes (write_value (Suc depth)) (read_value (Suc depth))" and d: "check_depth depth" and wf: "amf3_wf v"
  shows "codes sizes pending (write_value depth v) (read_at (read_value (Suc depth))) (\<lambda>e objs a. amf3_copy sizes e objs v a)"
proof (cases "object_marker v = None \<and> amf3_reference v = None")
  case True
  have "codes sizes pending (write_inline (write_value (Suc depth)) depth v) (read_at (read_value (Suc depth))) (\<lambda>_ _ a. a = v)"
    using True amf3_wfD(1) [OF wf] by (intro codes_scalar) auto
  moreover have "write_value depth v = write_inline (write_value (Suc depth)) depth v"
    using True d by (intro ext) (simp add: write_value_here write_here_def)
  moreover have "amf3_copy sizes e objs v v" for e objs
    using True by (intro copy_leaf) (cases v; simp add: amf3_leaf_def)
  ultimately show ?thesis
    unfolding codes_def by metis
next
  case False
  show ?thesis
    unfolding codes_def
  proof (intro allI impI)
    fix e d bs e'
    assume st: "in_step sizes pending e d" and w: "write_value depth v e = Inr (bs, e')" and fit: "tables_fit e'"
    show "\<exists>a d'. (\<forall>rest. read_at (read_value (Suc depth)) (bs @ rest, d) = Inr (a, (rest, d'))) \<and> in_step sizes pending e' d'
        \<and> extends e d e' d' \<and> amf3_copy sizes e' (ad_objects d') v a"
    proof (cases "amf3_reference v")
      case None
      then have "write_here depth v (e\<lparr>ae_object_refs := ae_object_refs e\<rparr>) = Inr (bs, e')"
        using w \<open>check_depth depth\<close> by (simp add: write_value_here)
      with False None show ?thesis
        by (intro decoded_codes decoded_here [OF st _ wf lv fit]) auto
    next
      case (Some i)
      then have v: "v = A3Reference i"
        by (cases v) auto
      from w [unfolded v] show ?thesis
      proof (cases rule: write_value_refE)
        case (again index)
        then have r: "refs_of e i = Some (unat index)"
          by (simp add: refs_of_def)
        then have "unat index < length (ad_objects d)" "length (ad_objects d) \<le> MAX_REFERENCES"
          using st by (auto simp: in_step_def)
        moreover obtain m where m: "object_marker (ae_objects e ! i) = Some m"
          using again(2) by blast
        ultimately have "read_at (read_value (Suc depth)) (bs @ rest, d) = Inr (A3Reference (unat index), (rest, d))" for rest
          using read_inline_again [OF m] by (simp only: again(6) m option.sel append_Cons read_at_Cons)
        moreover have "amf3_copy sizes e' (ad_objects d) v (A3Reference (unat index))"
          using r again(4) v by (intro copy_ref [of _ _ i _ "unat index"]) simp_all
        ultimately show ?thesis
          using st again(4) by (intro exI conjI) auto
      next
        case first
        have "amf3_wf (ae_objects e ! i)"
          using st first(1) by (simp add: in_step_def list_all_length)
        then have dec: "decoded sizes pending (read_value (Suc depth)) e d (ae_objects e ! i) bs e'"
          using first by (intro decoded_here [OF st _ _ lv fit first(5)]) auto
        let ?e1 = "e\<lparr>ae_object_refs := hm_insert i (ae_next_object e) (ae_object_refs e)\<rparr>"
        have "tables_le ?e1 e'"
          using first(5) grows_here [OF grows_value] by (auto simp: grows_def)
        then have "refs_of e' i = Some (length (ad_objects d))"
          using st by (simp add: tables_le_def refs_of_def in_step_def)
        with dec show ?thesis
          unfolding decoded_def v by (auto simp: lift_read_def read_marker_def intro!: copy_ref [of _ _ i])
      qed
    qed
  qed
qed


lemma level_value: "level_ok sizes (write_value depth) (read_value depth)"
proof (induction depth rule: depth_induct)
  case (deeper depth)
  have "codes sizes pending (write_value depth v) (read_value depth) (\<lambda>e objs a. amf3_copy sizes e objs v a)"
    if "amf3_wf v" for pending v
  proof (cases "check_depth depth")
    case True
    then have "read_value depth = read_at (read_value (Suc depth))"
      by (intro ext) (simp add: read_value_at)
    with codes_value [OF deeper [OF True] True that] show ?thesis
      by simp
  qed (simp add: codes_def write_value_too_deep)
  then show ?case
    by (simp add: level_ok_def grows_value)
qed

section \<open>Documents\<close>

lemma read_optional_back:
  assumes "\<And>rest. read_value 0 (bs @ rest, d) = Inr (a, (rest, d'))"
  shows "read_optional_value 0 (bs @ rest, d) = Inr (Some a, (rest, d'))"
proof -
  have "read_value 0 s = read_at (read_value (Suc 0)) s" for s
    by (rule read_value_at) (simp add: check_depth_def)
  with assms [of "[]"] assms [of rest] show ?thesis
    by (cases bs) (auto simp: read_optional_value_def read_value_with_marker_def check_depth_def lift_read_def read_marker_def)
qed

lemma roots_back:
  assumes "in_step sizes {} e d" "wlist (write_value 0) vs e = Inr (bs, e')" "tables_fit e'" "list_all amf3_wf vs"
    "length acc + length vs \<le> MAX_COLLECTION_LEN"
  shows "\<exists>as d'. amf3_read_roots acc (bs, d) = Inr (acc @ as, ([], d')) \<and> in_step sizes {} e' d'
    \<and> list_all2 (amf3_copy sizes e' (ad_objects d')) vs as \<and> extends e d e' d'"
  using assms
proof (induction vs arbitrary: e d bs acc)
  case Nil
  then show ?case
    by (simp add: amf3_read_roots.simps [of acc] read_optional_value_def)
next
  case (Cons v vs)
  obtain b1 e1 b2 where b: "write_value 0 v e = Inr (b1, e1)" "wlist (write_value 0) vs e1 = Inr (b2, e')" "bs = b1 @ b2"
    using Cons.prems(2) by (auto elim: wseq_InrE)
  have "tables_fit e1"
    using b(2) Cons.prems(3) grows_wlist [of vs "write_value 0"] grows_value by (auto simp: grows_def intro: tables_fit_le)
  then obtain a d1 where a: "\<And>rest. read_value 0 (b1 @ rest, d) = Inr (a, (rest, d1))" "in_step sizes {} e1 d1"
    "extends e d e1 d1" "amf3_copy sizes e1 (ad_objects d1) v a"
    using codesD [OF level_okD(1) [OF level_value] Cons.prems(1) b(1)] Cons.prems(4) by auto
  obtain as d' where as: "amf3_read_roots (acc @ [a]) (b2, d1) = Inr ((acc @ [a]) @ as, ([], d'))" "in_step sizes {} e' d'"
    "list_all2 (amf3_copy sizes e' (ad_objects d')) vs as" "extends e1 d1 e' d'"
    using Cons.IH [OF a(2) b(2) Cons.prems(3), of "acc @ [a]"] Cons.prems(4,5) by auto
  have "amf3_read_roots acc (bs, d) = Inr (acc @ a # as, ([], d'))"
    using read_optional_back [OF a(1), of b2] as(1) Cons.prems(5) by (simp add: amf3_read_roots.simps [of acc] b(3))
  moreover have "amf3_copy sizes e' (ad_objects d') v a"
    by (rule amf3_copy_extends [OF as(4) a(4)])
  ultimately show ?case
    using as extends_trans [OF a(3) as(4)] by (intro exI [of _ "a # as"] exI [of _ d']) simp
qed

lemma in_step_new: "list_all amf3_wf objects \<Longrightarrow> in_step sizes {} (amf3_encoder_new objects) amf3_decoder_new"
  by (auto simp: in_step_def tables_ok_def strings_ok_def traits_ok_def amf3_encoder_new_def amf3_decoder_new_def refs_of_def
      hm_len_def hm_get_def hm_wf_def inj_on_def)

text \<open>The string and trait tables of the finished encoding are within what the decoder accepts.\<close>

definition amf3_tables_fit :: "amf3_value document \<Rightarrow> bool" where
  "amf3_tables_fit d =
     (case wlist (write_value 0) (doc_roots d) (amf3_encoder_new (doc_objects d)) of
        Inl _ \<Rightarrow> False
      | Inr (_, e) \<Rightarrow> hm_len (ae_strings e) < MAX_REFERENCES \<and> hm_len (ae_traits e) < MAX_REFERENCES)"

lemma document_back:
  assumes wf: "list_all amf3_wf (doc_roots d)" "list_all amf3_wf (doc_objects d)" and len: "length (doc_roots d) \<le> MAX_COLLECTION_LEN"
    and w: "amf3_document_serialize d = Inr bs" and fit: "amf3_tables_fit d"
  shows "\<exists>d' refs. amf3_deserialize_document bs = Inr d'
    \<and> document_copy (amf3_graph sizes) amf3_replace amf3_complex amf3_leaf refs d d'"
proof -
  let ?e = "amf3_encoder_new (doc_objects d)"
  obtain e' where w': "wlist (write_value 0) (doc_roots d) ?e = Inr (bs, e')"
    using w by (auto simp: amf3_document_serialize_def amf3_encode_document_def split: sum.splits)
  then have "tables_fit e'"
    using fit by (simp add: amf3_tables_fit_def tables_fit_def)
  from roots_back [OF in_step_new [OF wf(2)] w' this wf(1), of "[]" sizes] len
  obtain as d' where r: "amf3_read_roots [] (bs, amf3_decoder_new) = Inr (as, ([], d'))" "in_step sizes {} e' d'"
    "list_all2 (amf3_copy sizes e' (ad_objects d')) (doc_roots d) as" "extends ?e amf3_decoder_new e' d'"
    by auto
  have objs: "ae_objects e' = doc_objects d"
    using r(4) by (simp add: extends_def amf3_encoder_new_def)
  have "amf3_deserialize_document bs = Inr (document_from_parts as (ad_objects d'))"
    using r(1) by (simp add: amf3_deserialize_document_def)
  moreover have "document_copy (amf3_graph sizes) amf3_replace amf3_complex amf3_leaf (refs_of e') d
      (document_from_parts as (ad_objects d'))"
    using r(2,3) unfolding document_copy_def by (auto simp: document_from_parts_def in_step_def objs)
  ultimately show ?thesis
    by blast
qed

lemma amf3_leaf_unfold:
  "amf3_leaf v a \<Longrightarrow> unfold_tree k (amf3_graph sizes) amf3_replace amf3_emb [] [] v = Some r \<Longrightarrow>
   unfold_tree k (amf3_graph sizes) amf3_replace amf3_emb objs [] a = Some r"
  unfolding amf3_leaf_def by (blast intro: a3.unfold_closed)

text \<open>
  C14 (roundtrip). A document, shared and cyclic objects included, whose values the format can express
  (\<open>amf3_wf\<close>: every value satisfies \<open>amf3_local\<close>, so text is UTF-8, integers have 29 bits, and no class name
  and no dynamic member name is empty), with at most \<open>MAX_COLLECTION_LEN\<close> roots and fewer than
  \<open>MAX_REFERENCES\<close> distinct strings and traits, when the AMF3 encoder accepts it, is read back as a copy of
  itself: the values are the same except that objects are renumbered, no two objects become one, and values
  written inline become objects of their own. The encoder accepts more: see \<open>amf3_empty_name\<close> in \<open>Amf0_Roundtrip\<close>.
\<close>

theorem amf3_document_roundtrip:
  assumes "list_all amf3_wf (doc_roots d)" "list_all amf3_wf (doc_objects d)" "length (doc_roots d) \<le> MAX_COLLECTION_LEN"
    and "amf3_document_serialize d = Inr bs" and "amf3_tables_fit d"
  shows "\<exists>d' refs. amf3_deserialize_document bs = Inr d'
    \<and> document_copy (amf3_graph sizes) amf3_replace amf3_complex amf3_leaf refs d d'"
  using assms by (rule document_back)

theorem amf3_document_roundtrip_witness:
  "\<exists>d' refs. amf3_deserialize_document [0x09, 0x03, 0x01, 0x09, 0x00] = Inr d'
    \<and> document_copy (amf3_graph \<lparr>size_amf3_value = 72, size_amf3_member = 96, size_amf3_entry = 144\<rparr>)
        amf3_replace amf3_complex amf3_leaf refs (document_from_parts [A3Reference 0] [A3Array [A3Reference 0] []]) d'"
proof (rule amf3_document_roundtrip)
  let ?d = "document_from_parts [A3Reference 0] [A3Array [A3Reference 0] []]"
  show "list_all amf3_wf (doc_roots ?d)" "list_all amf3_wf (doc_objects ?d)" "length (doc_roots ?d) \<le> MAX_COLLECTION_LEN"
    by (simp_all add: document_from_parts_def amf3_wf.simps MAX_COLLECTION_LEN_def)
  show "amf3_document_serialize ?d = Inr [0x09, 0x03, 0x01, 0x09, 0x00]" "amf3_tables_fit ?d"
    by code_simp+
qed

lemma amf3_values_back:
  assumes "list_all amf3_wf vs" "length vs \<le> MAX_COLLECTION_LEN"
    and "amf3_serialize vs = Inr bs" and "amf3_tables_fit (document_from_parts vs [])"
    and "amf3_to_tree sizes (document_from_parts vs []) tree_limits_default = Some (Inr vs)"
  shows "amf3_deserialize sizes bs = Inr vs"
proof -
  let ?d = "document_from_parts vs []"
  have "amf3_document_serialize ?d = Inr bs"
    using assms(3) by (simp add: amf3_serialize_def amf3_serialize_into_def amf3_document_serialize_def document_from_parts_def)
  then obtain d' refs where d': "amf3_deserialize_document bs = Inr d'"
    "document_copy (amf3_graph sizes) amf3_replace amf3_complex amf3_leaf refs ?d d'"
    using document_back [of ?d bs sizes] assms(1,2,4) by (auto simp: document_from_parts_def)
  have "amf3_to_tree sizes d' tree_limits_default = Some (Inr vs)"
    using a3.expand_copy [OF amf3_leaf_unfold d'(2)] assms(5)
    by (simp add: amf3_to_tree_def document_from_parts_def expand_def)
  with d'(1) show ?thesis
    by (simp add: amf3_deserialize_def amf3_tree_result_def)
qed

text \<open>
  Values without references that the encoder accepts and that are within the limits of
  an expansion are read back as they are.
\<close>

theorem amf3_roundtrip:
  assumes "list_all amf3_wf vs" "length vs \<le> MAX_COLLECTION_LEN"
    and "amf3_serialize vs = Inr bs" and "amf3_tables_fit (document_from_parts vs [])"
    and "amf3_to_tree sizes (document_from_parts vs []) tree_limits_default = Some (Inr vs)"
  shows "amf3_deserialize sizes bs = Inr vs"
  using assms by (rule amf3_values_back)

theorem amf3_roundtrip_witness:
  "amf3_deserialize \<lparr>size_amf3_value = 72, size_amf3_member = 96, size_amf3_entry = 144\<rparr> [0x09, 0x03, 0x01, 0x06, 0x03, 0x61]
   = Inr [A3Array [A3String [0x61]] []]"
proof (rule amf3_roundtrip)
  let ?vs = "[A3Array [A3String [0x61]] []]"
  show "list_all amf3_wf ?vs" "length ?vs \<le> MAX_COLLECTION_LEN"
    by (simp_all add: amf3_wf.simps MAX_COLLECTION_LEN_def)
  show "amf3_serialize ?vs = Inr [0x09, 0x03, 0x01, 0x06, 0x03, 0x61]" "amf3_tables_fit (document_from_parts ?vs [])"
    by code_simp+
  show "amf3_to_tree \<lparr>size_amf3_value = 72, size_amf3_member = 96, size_amf3_entry = 144\<rparr> (document_from_parts ?vs [])
      tree_limits_default = Some (Inr ?vs)"
    by code_simp
qed

end
