(* ===== verification/Reader_Safety.thy ===== *)
theory Reader_Safety
  imports Amf_Common
begin

text \<open>
  What the decoders guarantee on arbitrary input. A reader is safe when from every state with the decoder's
  invariant it fails only with an error that is not \<open>bad\<close>, or returns a state with the invariant, no more
  unread bytes and no smaller table, and a result that fits the size of the table. The codecs interpret
  the locale with their own invariant, table and bad errors, and get the rules for sequencing.
\<close>

section \<open>Readers of bytes\<close>

definition tame :: "('e \<Rightarrow> bool) \<Rightarrow> (bytes \<Rightarrow> 'e + 'a \<times> bytes) \<Rightarrow> bool" where
  "tame bad r \<longleftrightarrow> (\<forall>bs. case r bs of Inl e \<Rightarrow> \<not> bad e | Inr (a, rest) \<Rightarrow> length rest \<le> length bs)"

lemma tame_InrD: "tame bad r \<Longrightarrow> r bs = Inr (a, rest) \<Longrightarrow> length rest \<le> length bs"
  unfolding tame_def by (metis (mono_tags, lifting) old.prod.case sum.case(2))

lemma tame_InlD: "tame bad r \<Longrightarrow> r bs = Inl e \<Longrightarrow> \<not> bad e"
  unfolding tame_def by (metis sum.case(1))

lemma tameI:
  assumes "\<And>bs e. r bs = Inl e \<Longrightarrow> \<not> bad e" "\<And>bs a rest. r bs = Inr (a, rest) \<Longrightarrow> length rest \<le> length bs"
  shows "tame bad r"
  using assms by (auto simp: tame_def split: sum.splits)

lemma tame_ok_or:
  assumes "\<And>bs a rest. r bs = Some (a, rest) \<Longrightarrow> length rest \<le> length bs" and "\<not> bad e"
  shows "tame bad (\<lambda>bs. ok_or e (r bs))"
  using assms by (intro tameI) (auto simp: ok_or_def split: option.splits)

lemma tame_bind:
  assumes "tame bad r" "\<And>a. tame bad (k a)"
  shows "tame bad (\<lambda>bs. rbind (r bs) (\<lambda>(a, rest). k a rest))"
  by (rule tameI) (auto simp: rbind_def split: sum.splits dest: tame_InlD [OF assms(1)] tame_InlD [OF assms(2)]
      tame_InrD [OF assms(1)] tame_InrD [OF assms(2)] intro: le_trans)

lemma tame_return [simp]: "tame bad (\<lambda>bs. Inr (a, bs))"
  by (simp add: tame_def)

lemma tame_limit: "\<not> bad e \<Longrightarrow> tame bad r \<Longrightarrow> tame bad (\<lambda>bs. if c bs then Inl e else r bs)"
  by (simp add: tame_def)

lemma tame_check: "\<not> bad e \<Longrightarrow> tame bad (\<lambda>bs. rbind (ok_or e x) (\<lambda>a. Inr (f a, bs)))"
  by (cases x) (simp_all add: tame_def)

lemma reads_shorter:
  "read_u8 bs = Some (a, rest) \<Longrightarrow> length rest \<le> length bs"
  "read_u16 bs = Some (b, rest) \<Longrightarrow> length rest \<le> length bs"
  "read_u32 bs = Some (c, rest) \<Longrightarrow> length rest \<le> length bs"
  "read_exact_vec bs n = Some (x, rest) \<Longrightarrow> length rest \<le> length bs"
  by (auto elim!: read_u8.elims read_u16.elims read_u32.elims simp: read_exact_vec_def split: if_splits)

lemma read_f64_shorter: "read_f64_be bs = Some (a, rest) \<Longrightarrow> length rest \<le> length bs"
  by (auto simp: read_f64_be_def split: option.splits dest!: reads_shorter(3))

lemmas tame_reads = reads_shorter [THEN tame_ok_or] read_f64_shorter [THEN tame_ok_or]

section \<open>Readers with a context\<close>

locale reader_safety =
  fixes inv :: "'c \<Rightarrow> bool"
    and count :: "'c \<Rightarrow> 'n::preorder"
    and bad :: "'e \<Rightarrow> bool"
begin

definition good :: "nat \<Rightarrow> 'n \<Rightarrow> 'e + 'a \<times> 'c rstate \<Rightarrow> ('n \<Rightarrow> 'a \<Rightarrow> bool) \<Rightarrow> bool" where
  "good m n res P \<longleftrightarrow>
     (case res of
        Inl e \<Rightarrow> \<not> bad e
      | Inr (a, s) \<Rightarrow> inv (snd s) \<and> length (fst s) \<le> m \<and> n \<le> count (snd s) \<and> P (count (snd s)) a)"

definition safe :: "('c, 'e, 'a) reader \<Rightarrow> ('n \<Rightarrow> 'a \<Rightarrow> bool) \<Rightarrow> bool" where
  "safe r P \<longleftrightarrow> (\<forall>m n input d. inv d \<longrightarrow> length input \<le> m \<longrightarrow> n \<le> count d \<longrightarrow> good m n (r (input, d)) P)"

lemma safeI:
  "(\<And>m n input d. inv d \<Longrightarrow> length input \<le> m \<Longrightarrow> n \<le> count d \<Longrightarrow> good m n (r (input, d)) P) \<Longrightarrow> safe r P"
  by (simp add: safe_def)

lemma safeD: "safe r P \<Longrightarrow> inv (snd s) \<Longrightarrow> length (fst s) \<le> m \<Longrightarrow> n \<le> count (snd s) \<Longrightarrow> good m n (r s) P"
  by (cases s) (simp add: safe_def)

lemma good_Inl [simp]: "good m n (Inl e) P \<longleftrightarrow> \<not> bad e"
  by (simp add: good_def)

lemma good_Inr [simp]:
  "good m n (Inr (a, s)) P \<longleftrightarrow> inv (snd s) \<and> length (fst s) \<le> m \<and> n \<le> count (snd s) \<and> P (count (snd s)) a"
  by (simp add: good_def)

lemma good_bind:
  assumes "good m n res P"
    and "\<And>a s. inv (snd s) \<Longrightarrow> length (fst s) \<le> m \<Longrightarrow> n \<le> count (snd s) \<Longrightarrow> P (count (snd s)) a \<Longrightarrow> good m n (k (a, s)) Q"
  shows "good m n (rbind res k) Q"
  using assms(1,2) by (cases res) auto

lemmas good_step = good_bind [OF safeD]

lemma safe_lift:
  assumes "tame bad r"
  shows "safe (lift_read r) (\<lambda>_ _. True)"
proof (rule safeI)
  fix m n d and input :: bytes assume "inv d" "length input \<le> m" "n \<le> count d"
  then show "good m n (lift_read r (input, d)) (\<lambda>_ _. True)"
    using tame_InlD [OF assms] tame_InrD [OF assms] by (cases "r input") (fastforce simp: lift_read_def)+
qed

lemma safe_weaken:
  assumes "safe r P" and "\<And>m a. P m a \<Longrightarrow> Q m a"
  shows "safe r Q"
proof (rule safeI)
  fix m n d and input :: bytes assume "inv d" "length input \<le> m" "n \<le> count d"
  then have "good m n (r (input, d)) P"
    using assms(1) by (simp add: safe_def)
  then show "good m n (r (input, d)) Q"
    using assms(2) by (cases "r (input, d)") auto
qed

lemma safe_limit: "\<not> bad e \<Longrightarrow> safe r P \<Longrightarrow> safe (\<lambda>s. if c then Inl e else r s) P"
  by (auto simp: safe_def)

lemma safe_bind:
  assumes "safe r P" "\<And>a. safe (k a) Q"
  shows "safe (\<lambda>s. rbind (r s) (\<lambda>(a, s1). k a s1)) Q"
  by (rule safeI) (auto intro!: good_step [OF assms(1)] safeD [OF assms(2)])

lemma safe_then:
  assumes "safe r1 P1" "safe r2 P2" and mono: "\<And>n m x. P1 n x \<Longrightarrow> n \<le> m \<Longrightarrow> P1 m x"
    and Q: "\<And>m a b. P1 m a \<Longrightarrow> P2 m b \<Longrightarrow> Q m (f a b)"
  shows "safe (\<lambda>s. rbind (r1 s) (\<lambda>(a, s1). rbind (r2 s1) (\<lambda>(b, s2). Inr (f a b, s2)))) Q"
proof (rule safeI)
  fix m n d and input :: bytes assume inv: "inv d" "length input \<le> m" "n \<le> count d"
  have "good m n (rbind (r2 s) (\<lambda>(b, s2). Inr (f a b, s2))) Q"
    if "inv (snd s)" "length (fst s) \<le> m" "n \<le> count (snd s)" "P1 (count (snd s)) a" for a s
  proof -
    have "good m (count (snd s)) (r2 s) P2"
      using that(1,2) by (intro safeD [OF assms(2)]) simp_all
    with that mono Q show ?thesis
      by (cases "r2 s") (auto intro: order_trans)
  qed
  with inv show "good m n (rbind (r1 (input, d)) (\<lambda>(a, s1). rbind (r2 s1) (\<lambda>(b, s2). Inr (f a b, s2)))) Q"
    by (auto intro!: good_step [OF assms(1)])
qed

lemma safe_map:
  assumes "safe r P" and "\<And>m a. P m a \<Longrightarrow> Q m (f a)"
  shows "safe (\<lambda>s. rbind (r s) (\<lambda>(a, s1). Inr (f a, s1))) Q"
  by (rule safeI) (auto intro!: good_step [OF assms(1)] assms(2))

lemma safe_read_n:
  assumes "safe r P" and mono: "\<And>n m x. P n x \<Longrightarrow> n \<le> m \<Longrightarrow> P m x"
  shows "safe (read_n k r) (\<lambda>m xs. length xs = k \<and> list_all (P m) xs)"
proof (induction k)
  case (Suc k)
  have "safe (\<lambda>s. rbind (r s) (\<lambda>(a, s1). rbind (read_n k r s1) (\<lambda>(b, s2). Inr (a # b, s2))))
      (\<lambda>m xs. length xs = Suc k \<and> list_all (P m) xs)"
    by (rule safe_then [OF assms(1) Suc.IH mono]) auto
  then show ?case
    by (simp add: safe_def)
qed (simp add: safe_def)

end

end
