(* ===== verification/Amf3_Safe.thy ===== *)
theory Amf3_Safe
  imports Amf3_Tree Reader_Safety
begin

text \<open>
  The AMF3 decoder on arbitrary bytes: its tables stay within \<open>MAX_REFERENCES\<close>, every reference it
  returns or stores names a slot of the object table, and it never indexes out of range.
\<close>

section \<open>The invariant of the decoder\<close>

function refs_below :: "nat \<Rightarrow> amf3_value \<Rightarrow> bool" where
  "refs_below n v \<longleftrightarrow> (case amf3_reference v of Some i \<Rightarrow> i < n | None \<Rightarrow> True) \<and> list_all (refs_below n) (amf3_children v)"
  by pat_completeness auto
termination
  by (relation "measure (size \<circ> snd)") (auto dest: amf3_children_size)

declare refs_below.simps [simp del]

lemma refs_below_mono: "refs_below n v \<Longrightarrow> n \<le> m \<Longrightarrow> refs_below m v"
proof (induction n v rule: refs_below.induct)
  case (1 n v)
  have "list_all (refs_below m) (amf3_children v)"
    using 1 by (auto simp: refs_below.simps [of n v] list_all_iff)
  moreover have "case amf3_reference v of Some i \<Rightarrow> i < m | None \<Rightarrow> True"
    using 1 by (auto simp: refs_below.simps [of n v] split: option.splits)
  ultimately show ?case
    by (simp only: refs_below.simps [of m v])
qed

lemma refs_below_plain [simp]:
  "refs_below n A3Null" "refs_below n A3Undefined" "refs_below n (A3Boolean b)" "refs_below n (A3Integer i)"
  "refs_below n (A3Double x)" "refs_below n (A3String s)" "refs_below n (A3XmlDoc s)" "refs_below n (A3Xml s)"
  "refs_below n (A3Date x)" "refs_below n (A3ByteArray s)" "refs_below n (A3VectorInt f is)"
  "refs_below n (A3VectorUint f us)" "refs_below n (A3VectorDouble f ds)" "refs_below n (A3Reference j) = (j < n)"
  "refs_below n (A3Array dense assoc) \<longleftrightarrow> list_all (refs_below n) dense \<and> list_all (refs_below n) (map snd assoc)"
  "refs_below n (A3VectorObject tn f vs) \<longleftrightarrow> list_all (refs_below n) vs"
  "refs_below n (A3Externalizable cn v) \<longleftrightarrow> refs_below n v"
  by (simp_all add: refs_below.simps)

definition dec_inv :: "amf3_decoder \<Rightarrow> bool" where
  "dec_inv d \<longleftrightarrow> length (ad_strings d) \<le> MAX_REFERENCES \<and> length (ad_traits d) \<le> MAX_REFERENCES
     \<and> length (ad_objects d) \<le> MAX_REFERENCES \<and> list_all (refs_below (length (ad_objects d))) (ad_objects d)"

interpretation s3: reader_safety dec_inv "\<lambda>d. length (ad_objects d)" "\<lambda>e. e = A3Panic" .

section \<open>The readers\<close>

lemma safe_u29 [intro]: "s3.safe (lift_read read_u29) (\<lambda>_ _. True)"
proof (rule s3.safe_lift)
  have "tame (\<lambda>e. e = A3Panic) (read_u29_loop n v)" for n v
  proof (induction n arbitrary: v)
    case (Suc n)
    then show ?case
      unfolding read_u29_loop.simps(2) [abs_def]
      by (intro tame_bind tame_reads) (cases "n = 0"; simp add: tame_def Let_def)+
  qed (simp add: tame_def)
  then show "tame (\<lambda>e. e = A3Panic) read_u29"
    by (simp add: read_u29_def [abs_def])
qed

lemma tame_amf3:
  "tame (\<lambda>e. e = A3Panic) (amf3_read_exact m)" "tame (\<lambda>e. e = A3Panic) read_marker"
  "tame (\<lambda>e. e = A3Panic) read_f64" "tame (\<lambda>e. e = A3Panic) read_word"
  unfolding amf3_read_exact_def [abs_def] read_marker_def [abs_def] read_f64_def [abs_def] read_word_def [abs_def]
  by (intro tame_limit tame_reads; simp)+

lemma tame_utf8: "tame (\<lambda>e. e = A3Panic) (amf3_read_utf8 m)"
  unfolding amf3_read_utf8_def [abs_def] by (intro tame_bind tame_amf3(1) tame_check) simp

lemmas safe_reads [intro] = tame_amf3 [THEN s3.safe_lift] tame_utf8 [THEN s3.safe_lift]

lemma safe_pushes [intro]: "s3.safe (push_string x) (\<lambda>_ _. True)" "s3.safe (push_trait t) (\<lambda>_ _. True)"
  by (auto simp: s3.safe_def push_string_def push_trait_def dec_inv_def)

lemma safe_string [intro]: "s3.safe read_string_content (\<lambda>_ _. True)"
  by (rule s3.safeI, unfold read_string_content_def)
    (auto simp: Let_def intro!: s3.good_step [OF safe_u29] s3.good_step [OF safe_reads(5)] s3.good_step [OF safe_pushes(1)])


abbreviation safe_value :: "amf3_value amf3_reader \<Rightarrow> bool" where
  "safe_value r \<equiv> s3.safe r refs_below"

lemma refs_below_list: "list_all (refs_below n) vs \<Longrightarrow> n \<le> m \<Longrightarrow> list_all (refs_below m) vs"
  by (auto simp: list_all_iff intro: refs_below_mono)

lemma safe_placeholder:
  assumes body: "s3.safe body Q" and mk: "\<And>n x. Q n x \<Longrightarrow> refs_below n (mk x)"
  shows "safe_value (with_placeholder body mk)"
proof (rule s3.safeI)
  fix m n d and input :: bytes assume inv: "dec_inv d" and m: "length input \<le> m" and n: "n \<le> length (ad_objects d)"
  let ?N = "length (ad_objects d)" and ?d = "d\<lparr>ad_objects := ad_objects d @ [A3Null]\<rparr>"
  have fin: "s3.good m n (finish_object ?N (mk x) s) refs_below"
    if "dec_inv (snd s)" "Suc ?N \<le> length (ad_objects (snd s))" "Q (length (ad_objects (snd s))) x" "length (fst s) \<le> m" for s x
    using that n mk [OF that(3)] by (auto simp: finish_object_def dec_inv_def list_all_iff dest!: set_update_subset_insert [THEN subsetD])
  show "s3.good m n (with_placeholder body mk (input, d)) refs_below"
  proof (cases "MAX_REFERENCES \<le> ?N")
    case False
    have "dec_inv ?d"
      using inv False refs_below_list [of ?N _ "Suc ?N"] by (auto simp: dec_inv_def)
    then have "s3.good m (Suc ?N) (body (input, ?d)) Q"
      using m by (intro s3.safeD [OF body]) simp_all
    then have "s3.good m n (rbind (body (input, ?d)) (\<lambda>(x, s2). finish_object ?N (mk x) s2)) refs_below"
      using fin by (cases "body (input, ?d)") auto
    then show ?thesis
      using False by (simp add: with_placeholder_def push_object_def)
  qed (simp add: with_placeholder_def push_object_def)
qed

lemma safe_store [intro]: "(\<And>n. refs_below n v) \<Longrightarrow> safe_value (store_object v)"
proof -
  assume "\<And>n. refs_below n v"
  then have "safe_value (with_placeholder (\<lambda>s. Inr ((), s)) (\<lambda>_. v))"
    by (intro safe_placeholder [where Q = "\<lambda>_ _. True"]) (auto simp: s3.safe_def)
  then show ?thesis
    unfolding with_placeholder_def store_object_def [abs_def] by (simp add: s3.safe_def)
qed

lemma safe_resolve [intro]: "safe_value (resolve_object i)"
  by (auto simp: s3.safe_def resolve_object_def)

lemma safe_inline_or_ref [intro]:
  assumes "\<And>u. safe_value (k u)"
  shows "safe_value (inline_or_ref k)"
  unfolding inline_or_ref_def [abs_def]
  by (rule s3.safeI) (auto intro!: s3.good_step [OF safe_u29] s3.safeD [OF safe_resolve] s3.safeD [OF assms])

lemma safe_members:
  assumes child: "safe_value child"
  shows "dec_inv (snd s) \<Longrightarrow> n \<le> length (ad_objects (snd s)) \<Longrightarrow> list_all (refs_below (length (ad_objects (snd s)))) (map snd acc) \<Longrightarrow>
    length (fst s) \<le> m \<Longrightarrow> s3.good m n (read_members child k acc s) (\<lambda>m ms. list_all (refs_below m) (map snd ms))"
proof (induction "MAX_COLLECTION_LEN - length acc" arbitrary: acc s rule: less_induct)
  case less
  let ?P = "\<lambda>m ms. list_all (refs_below m) (map snd ms)"
  have step: "s3.good m n (rbind (child s1) (\<lambda>(v, s2). if MAX_COLLECTION_LEN < length (acc @ [(key, v)]) + k
      then Inl (A3CollectionTooLarge (length (acc @ [(key, v)]) + k)) else read_members child k (acc @ [(key, v)]) s2)) ?P"
    if s1: "dec_inv (snd s1)" "length (fst s1) \<le> m" "length (ad_objects (snd s)) \<le> length (ad_objects (snd s1))" and acc: "length acc < MAX_COLLECTION_LEN"
    for key s1
  proof -
    have "s3.good m (length (ad_objects (snd s))) (child s1) refs_below"
      by (rule s3.safeD [OF child s1])
    moreover have "s3.good m n (read_members child k (acc @ [(key, v)]) s2) ?P"
      if "dec_inv (snd s2)" "length (ad_objects (snd s)) \<le> length (ad_objects (snd s2))"
        "refs_below (length (ad_objects (snd s2))) v" "length (fst s2) \<le> m" for v s2
      using that less.prems refs_below_list [OF less.prems(3) that(2)] acc by (intro less.hyps) auto
    ultimately show ?thesis
      by (cases "child s1") auto
  qed
  have "s3.good m (length (ad_objects (snd s))) (read_string_content s) (\<lambda>_ _. True)"
    using less.prems(1,4) by (intro s3.safeD [OF safe_string]) simp_all
  then show ?case
    using less.prems step refs_below_list [OF less.prems(3)]
    by (cases "read_string_content s") (auto simp: read_members.simps [of child k acc])
qed

lemma safe_members' [intro]:
  "safe_value child \<Longrightarrow> s3.safe (read_members child k []) (\<lambda>m ms. list_all (refs_below m) (map snd ms))"
  by (rule s3.safeI) (auto intro!: safe_members)

lemma safe_array: "safe_value child \<Longrightarrow> safe_value (read_array child)"
  unfolding read_array_def Let_def
  by (intro safe_inline_or_ref s3.safe_limit safe_placeholder [where Q = "\<lambda>m (dense, assoc).
        list_all (refs_below m) dense \<and> list_all (refs_below m) (map snd assoc)"]
      s3.safe_then [OF safe_members' s3.safe_read_n [where P = refs_below], where f = "\<lambda>a b. (b, a)"])
    (auto intro: refs_below_list refs_below_mono)

lemma safe_text: "(\<And>n x. refs_below n (mk x)) \<Longrightarrow> safe_value (read_text mk)"
  unfolding read_text_def Let_def
  by (intro safe_inline_or_ref s3.safe_limit s3.safe_bind [OF safe_reads(5)] safe_store) auto

lemma safe_byte_array: "safe_value read_byte_array"
  unfolding read_byte_array_def Let_def
  by (intro safe_inline_or_ref s3.safe_limit s3.safe_bind [OF safe_reads(1)] safe_store) auto

lemma safe_date: "safe_value read_date"
  unfolding read_date_def by (intro safe_inline_or_ref s3.safe_bind [OF safe_reads(3)] safe_store) auto

lemma safe_vector: "(\<And>len f. safe_value (k len f)) \<Longrightarrow> safe_value (read_vector k)"
  unfolding read_vector_def Let_def
  by (intro safe_inline_or_ref s3.safe_limit s3.safe_bind [OF safe_reads(2)]) auto

lemma safe_vector_numbers: "s3.safe r (\<lambda>_ _. True) \<Longrightarrow> (\<And>n f xs. refs_below n (mk f xs)) \<Longrightarrow>
    safe_value (read_vector (\<lambda>len f. with_placeholder (read_n len r) (mk f)))"
  by (intro safe_vector safe_placeholder [OF s3.safe_read_n]) auto

lemma safe_numbers: "safe_value read_vector_int" "safe_value read_vector_uint" "safe_value read_vector_double"
  unfolding read_vector_int_def read_vector_uint_def read_vector_double_def
  by (intro conjunctionI safe_vector_numbers safe_reads refs_below_plain)+

lemma safe_vector_object: "safe_value child \<Longrightarrow> safe_value (read_vector_object child)"
  unfolding read_vector_object_def
  by (intro safe_vector s3.safe_bind [OF safe_string] safe_placeholder [OF s3.safe_read_n]) (auto intro: refs_below_mono)

lemma safe_pair: "safe_value child \<Longrightarrow> s3.safe (read_pair child) (\<lambda>m (k, v). refs_below m k \<and> refs_below m v)"
  unfolding read_pair_def [abs_def] by (rule s3.safe_then [where f = Pair and ?P1.0 = refs_below and ?P2.0 = refs_below]) (auto intro: refs_below_mono)

lemma safe_dictionary: "safe_value child \<Longrightarrow> safe_value (read_dictionary child)"
  unfolding read_dictionary_def
  by (intro safe_vector safe_placeholder [OF s3.safe_read_n [OF safe_pair]])
    (auto simp: refs_below.simps [of _ "A3Dictionary _ _"] list_all_iff intro: refs_below_mono)


lemma tame_bean: "tame (\<lambda>e. e = A3Panic) read_status_bean_payload"
  unfolding read_status_bean_payload_def [abs_def] read_java_utf_def [abs_def]
  by (intro tame_bind tame_reads tame_utf8 tame_return) simp_all

lemma safe_bean: "safe_value (read_status_bean cn)"
proof -
  have "s3.safe (\<lambda>s. case lift_read read_status_bean_payload s of Inl _ \<Rightarrow> Inl (A3ExternalizableUnsupported cn) | Inr r \<Rightarrow> Inr r)
      (\<lambda>_ _. True)"
    using tame_InrD [OF tame_bean] by (fastforce simp: s3.safe_def lift_read_def rbind_def split: sum.splits)
  then show ?thesis
    unfolding read_status_bean_def
    by (rule safe_placeholder) (simp add: bean_into_members_def refs_below.simps [of _ "A3Object _ _ _"])
qed

lemma safe_traits: "s3.safe (read_traits h) (\<lambda>_ _. True)"
proof -
  have push: "s3.safe (\<lambda>s. rbind (push_trait t s) (\<lambda>(_, s3). Inr (t, s3))) (\<lambda>_ _. True)" for t
    by (rule s3.safe_bind [OF safe_pushes(2)]) (simp add: s3.safe_def)
  have names: "s3.safe (read_n k read_string_content) (\<lambda>m xs. length xs = k \<and> list_all (\<lambda>_. True) xs)" for k
    by (rule s3.safe_read_n [OF safe_string]) simp
  show ?thesis
    by (rule s3.safeI, unfold read_traits_def Let_def)
      (auto intro!: s3.good_step [OF safe_string] s3.good_step [OF names] s3.safeD [OF push])
qed

lemma safe_object_parts:
  assumes child: "safe_value child"
  shows "s3.safe (\<lambda>s. rbind (read_n k child s) (\<lambda>(vs, s1). if dyn
      then rbind (read_members child 0 [] s1) (\<lambda>(ms, s2). Inr ((vs, Some ms), s2)) else Inr ((vs, None), s1)))
    (\<lambda>m (vs, dyn). list_all (refs_below m) vs \<and> list_all (refs_below m) (case dyn of None \<Rightarrow> [] | Some ms \<Rightarrow> map snd ms))"
proof (cases dyn)
  case True
  have "s3.safe (\<lambda>s. rbind (read_n k child s) (\<lambda>(vs, s1). rbind (read_members child 0 [] s1) (\<lambda>(ms, s2). Inr ((vs, Some ms), s2))))
    (\<lambda>m (vs, dyn). list_all (refs_below m) vs \<and> list_all (refs_below m) (case dyn of None \<Rightarrow> [] | Some ms \<Rightarrow> map snd ms))"
    by (intro s3.safe_then [OF s3.safe_read_n [OF child] safe_members' [OF child], where f = "\<lambda>a b. (a, Some b)"])
      (auto intro: refs_below_list refs_below_mono)
  with True show ?thesis
    by simp
next
  case False
  have "s3.safe (\<lambda>s. rbind (read_n k child s) (\<lambda>(vs, s1). Inr ((vs, None), s1)))
    (\<lambda>m (vs, dyn). list_all (refs_below m) vs \<and> list_all (refs_below m) (case dyn of None \<Rightarrow> [] | Some ms \<Rightarrow> map snd ms))"
    by (rule s3.safeI) (auto intro!: s3.good_step [OF s3.safe_read_n [OF child]] intro: refs_below_mono)
  with False show ?thesis
    by simp
qed

lemma refs_below_object:
  assumes "list_all (refs_below m) vs" "list_all (refs_below m) (case dyn of None \<Rightarrow> [] | Some ms \<Rightarrow> map snd ms)"
  shows "refs_below m (A3Object cn (zip names vs) dyn)"
  using assms by (auto simp: refs_below.simps [of _ "A3Object _ _ _"] list_all_iff dest: set_zip_rightD split: option.splits)

lemma safe_object:
  assumes child: "safe_value child"
  shows "safe_value (read_object child)"
proof -
  have nested: "safe_value (read_nested_externalizable child cn)" for cn
    unfolding read_nested_externalizable_def using child by (rule safe_placeholder) simp
  have plain: "safe_value (with_placeholder (\<lambda>s. rbind (read_n k child s) (\<lambda>(vs, s1). if dyn
      then rbind (read_members child 0 [] s1) (\<lambda>(ms, s2). Inr ((vs, Some ms), s2)) else Inr ((vs, None), s1)))
      (\<lambda>(vs, dyn). A3Object cn (zip names vs) dyn))" for k dyn cn names
    by (rule safe_placeholder [OF safe_object_parts [OF child]]) (auto intro: refs_below_object)
  show ?thesis
    unfolding read_object_def
    by (intro safe_inline_or_ref s3.safe_bind [OF safe_traits])
      (auto simp: s3.safe_def intro!: s3.safeD [OF nested] s3.safeD [OF safe_bean] s3.safeD [OF plain]
        split: option.splits externalizable_layout.splits)
qed

lemma safe_inline:
  assumes child: "safe_value child"
  shows "safe_value (read_inline child marker)"
proof (rule s3.safeI)
  fix m n d and input :: bytes assume inv: "dec_inv d" "length input \<le> m" "n \<le> length (ad_objects d)"
  note readers = safe_text [of A3XmlDoc, folded read_xml_doc_def] safe_text [of A3Xml, folded read_xml_def] safe_date
    safe_byte_array safe_array [OF child] safe_object [OF child]
    safe_numbers
    safe_vector_object [OF child] safe_dictionary [OF child]
  show "s3.good m n (read_inline child marker (input, d)) refs_below"
    unfolding read_inline_def using inv
    by (auto intro!: readers [THEN s3.safeD] s3.good_step [OF safe_u29] s3.good_step [OF safe_reads(3)] s3.good_step [OF safe_string])
qed

lemma safe_read_value: "safe_value (read_value depth)"
proof (induction depth rule: depth_induct)
  case (deeper depth)
  show ?case
  proof (cases "check_depth depth")
    case True
    show ?thesis
      by (rule s3.safeI)
        (auto simp: read_value.simps [of depth] True intro!: s3.good_step [OF safe_reads(2)] s3.safeD [OF safe_inline [OF deeper [OF True]]])
  qed (auto simp: s3.safe_def read_value.simps [of depth])
qed

lemma safe_optional: "s3.safe (read_optional_value depth) (\<lambda>m r. case r of None \<Rightarrow> True | Some v \<Rightarrow> refs_below m v)"
proof (rule s3.safeI)
  fix m n d and input :: bytes assume inv: "dec_inv d" "length input \<le> m" "n \<le> length (ad_objects d)"
  then show "s3.good m n (read_optional_value depth (input, d)) (\<lambda>m r. case r of None \<Rightarrow> True | Some v \<Rightarrow> refs_below m v)"
    by (cases input)
      (auto simp: read_optional_value_def read_value_with_marker_def intro!: s3.good_step [OF safe_inline [OF safe_read_value]])
qed

lemma safe_roots:
  assumes "dec_inv (snd s)" "n \<le> length (ad_objects (snd s))" "list_all (refs_below (length (ad_objects (snd s)))) acc"
    "length (fst s) \<le> m"
  shows "s3.good m n (amf3_read_roots acc s) (\<lambda>m vs. list_all (refs_below m) vs)"
  using assms
proof (induction "MAX_COLLECTION_LEN - length acc" arbitrary: acc s rule: less_induct)
  case less
  let ?N = "length (ad_objects (snd s))"
  have "s3.good m ?N (read_optional_value 0 s) (\<lambda>m r. case r of None \<Rightarrow> True | Some v \<Rightarrow> refs_below m v)"
    using less.prems(1,4) by (intro s3.safeD [OF safe_optional]) simp_all
  moreover have "s3.good m n (amf3_read_roots (acc @ [v]) s1) (\<lambda>m vs. list_all (refs_below m) vs)"
    if "dec_inv (snd s1)" "?N \<le> length (ad_objects (snd s1))" "refs_below (length (ad_objects (snd s1))) v"
      "length acc < MAX_COLLECTION_LEN" "length (fst s1) \<le> m" for v s1
    using that less.prems refs_below_list [OF less.prems(3) that(2)] by (intro less.hyps) auto
  ultimately show ?case
    using less.prems refs_below_list [OF less.prems(3)]
    by (cases "read_optional_value 0 s") (auto simp: amf3_read_roots.simps [of acc] split: option.splits)
qed

section \<open>Arbitrary input\<close>

lemma dec_inv_new [simp]: "dec_inv amf3_decoder_new"
  by (simp add: dec_inv_def amf3_decoder_new_def)

text \<open>
  C15 (safety). Whatever the bytes, decoding a document never indexes out of range, and a document that is
  returned has at most \<open>MAX_REFERENCES\<close> objects and no dangling reference, in its roots and in its objects.
\<close>

theorem amf3_decode_safe:
  "case amf3_deserialize_document input of
     Inl e \<Rightarrow> e \<noteq> A3Panic
   | Inr d \<Rightarrow> length (doc_objects d) \<le> MAX_REFERENCES
       \<and> list_all (refs_below (length (doc_objects d))) (doc_roots d @ doc_objects d)"
proof -
  have "s3.good (length input) 0 (amf3_read_roots [] (input, amf3_decoder_new)) (\<lambda>m vs. list_all (refs_below m) vs)"
    by (rule safe_roots) simp_all
  then show ?thesis
    unfolding amf3_deserialize_document_def
    by (cases "amf3_read_roots [] (input, amf3_decoder_new)") (auto simp: document_from_parts_def dec_inv_def)
qed

text \<open>
  Reading one value, as a tree, from arbitrary bytes returns a value or an error: the
  expansion ends, the one root is there, and no index is out of range.
\<close>

theorem amf3_single_safe: "amf3_deserialize_single sizes input \<noteq> Inl A3Panic"
proof -
  have v: "s3.good (length input) 0 (read_value 0 (input, amf3_decoder_new)) refs_below"
    by (rule s3.safeD [OF safe_read_value]) simp_all
  have t: "amf3_tree_result (amf3_to_tree sizes d l) \<noteq> Inl A3Panic" for d l
    using a3.expand_total [of sizes "doc_roots d" "doc_objects d" "[]" l]
    by (auto simp: amf3_to_tree_def expand_def amf3_tree_result_def split: option.splits sum.splits elim: amf3_tree_error.elims)
  have len: "length vs = length (doc_roots d)" if "amf3_tree_result (amf3_to_tree sizes d l) = Inr vs" for d l vs
    using that by (auto simp: amf3_to_tree_def expand_def a3.expand_iff amf3_tree_result_def traverse_length
        split: option.splits sum.splits)
  show ?thesis
  proof (cases "read_value 0 (input, amf3_decoder_new)")
    case (Inl e)
    then show ?thesis
      using v by (simp add: amf3_deserialize_single_def amf3_deserialize_document_single_def)
  next
    case (Inr r)
    let ?d = "document_from_parts [fst r] (ad_objects (snd (snd r)))"
    have "amf3_deserialize_document_single input = Inr (?d, fst (snd r))"
      using Inr by (simp add: amf3_deserialize_document_single_def split_beta)
    moreover have "length vs = 1" if "amf3_tree_result (amf3_to_tree sizes ?d tree_limits_default) = Inr vs" for vs
      using len [OF that] by (simp add: document_from_parts_def)
    ultimately show ?thesis
      using t [of ?d tree_limits_default]
      by (cases "amf3_tree_result (amf3_to_tree sizes ?d tree_limits_default)") (auto simp: amf3_deserialize_single_def)
  qed
qed


text \<open>One document from the front of the input, as the AMF0 decoder embeds it.\<close>

lemma amf3_document_single_ok:
  "case amf3_deserialize_document_single input of
     Inl e \<Rightarrow> e \<noteq> A3Panic
   | Inr (d, rest) \<Rightarrow> length rest \<le> length input \<and> length (doc_roots d) = 1
       \<and> list_all (refs_below (length (doc_objects d))) (doc_roots d @ doc_objects d)"
proof -
  have "s3.good (length input) 0 (read_value 0 (input, amf3_decoder_new)) refs_below"
    by (rule s3.safeD [OF safe_read_value]) simp_all
  then show ?thesis
    unfolding amf3_deserialize_document_single_def
    by (cases "read_value 0 (input, amf3_decoder_new)") (auto simp: document_from_parts_def dec_inv_def)
qed

end
