(* ===== verification/Handshake.thy ===== *)
theory Handshake
  imports Prelude
begin

text \<open>
  The connection handshake of \<open>src/src/handshake/mod.rs\<close>: the state machine of one endpoint, the
  digest it hides in packet 1 and the signature of packet 2.

  Two things are not in the sources and are parameters: \<open>mac\<close> is HMAC-SHA256 (\<open>mac input key\<close>), which
  returns 32 bytes, and \<open>rng\<close> gives the successive bytes of the random generator; \<open>hs_drawn\<close> counts
  those used so far. \<open>HsPanic\<close> stands for a slice out of range and for the length check of \<open>calc_hmac\<close>.
\<close>

section \<open>State\<close>

datatype handshake_error =
    BadVersionId
  | NonZeroedTimeInPacket1
  | IncorrectPeerTime
  | IncorrectRandomData
  | HandshakeAlreadyCompleted
  | UnknownPacket1Format
  | InvalidP2Packet
  | HsPanic

datatype handshake_progress =
    InProgress bytes
  | Completed bytes bytes

datatype handshake_role = RoleServer | RoleClient

datatype hs_stage = NeedToSendP0AndP1 | WaitingForPacket0 | WaitingForPacket1 | WaitingForPacket2 | HsComplete

record handshake =
  hs_stage :: hs_stage
  hs_peer_type :: handshake_role
  hs_command_byte :: u8
  hs_input_buffer :: bytes
  hs_sent_p1 :: bytes
  hs_drawn :: nat

definition RTMP_PACKET_SIZE :: nat where
  "RTMP_PACKET_SIZE = 1536"

definition SHA256_DIGEST_LENGTH :: nat where
  "SHA256_DIGEST_LENGTH = 32"

definition P2_SIG_START_INDEX :: nat where
  "P2_SIG_START_INDEX = RTMP_PACKET_SIZE - SHA256_DIGEST_LENGTH"

definition RANDOM_CRUD :: bytes where
  "RANDOM_CRUD =
     [0xf0, 0xee, 0xc2, 0x4a, 0x80, 0x68, 0xbe, 0xe8, 0x2e, 0x00, 0xd0, 0xd1, 0x02, 0x9e, 0x7e, 0x57,
      0x6e, 0xec, 0x5d, 0x2d, 0x29, 0x80, 0x6f, 0xab, 0x93, 0xb8, 0xe6, 0x36, 0xcf, 0xeb, 0x31, 0xae]"

definition GENUINE_FMS_CONST :: bytes where
  "GENUINE_FMS_CONST = ascii ''Genuine Adobe Flash Media Server 001''"

definition GENUINE_FP_CONST :: bytes where
  "GENUINE_FP_CONST = ascii ''Genuine Adobe Flash Player 001''"

definition ADOBE_VERSION :: bytes where
  "ADOBE_VERSION = [128, 0, 7, 2]"

definition handshake_new :: "handshake_role \<Rightarrow> handshake" where
  "handshake_new peer_type =
     \<lparr>hs_stage = NeedToSendP0AndP1, hs_peer_type = peer_type, hs_command_byte = 0, hs_input_buffer = [],
      hs_sent_p1 = replicate RTMP_PACKET_SIZE 0, hs_drawn = 0\<rparr>"

section \<open>Digests\<close>

type_synonym mac_function = "bytes \<Rightarrow> bytes \<Rightarrow> bytes"

definition calc_hmac :: "mac_function \<Rightarrow> bytes \<Rightarrow> bytes \<Rightarrow> handshake_error + bytes" where
  "calc_hmac mac input key =
     (let array = mac input key in if length array \<noteq> 32 then Inl HsPanic else Inr array)"

definition calc_hmac_from_parts :: "mac_function \<Rightarrow> bytes \<Rightarrow> bytes \<Rightarrow> bytes \<Rightarrow> handshake_error + bytes" where
  "calc_hmac_from_parts mac part1 part2 key = calc_hmac mac (part1 @ part2) key"

text \<open>The four bytes are added as \<open>u32\<close>, which cannot overflow.\<close>

definition get_server_digest_offset :: "bytes \<Rightarrow> nat" where
  "get_server_digest_offset packet =
     (unat (packet ! 772) + unat (packet ! 773) + unat (packet ! 774) + unat (packet ! 775)) mod 728 + 776"

definition get_client_digest_offset :: "bytes \<Rightarrow> nat" where
  "get_client_digest_offset packet =
     (unat (packet ! 8) + unat (packet ! 9) + unat (packet ! 10) + unat (packet ! 11)) mod 728 + 12"

record message_parts =
  before_digest :: bytes
  after_digest :: bytes
  mp_digest :: bytes

definition get_message_parts :: "bytes \<Rightarrow> nat \<Rightarrow> handshake_error + message_parts" where
  "get_message_parts packet digest_offset =
     (if length packet < digest_offset + SHA256_DIGEST_LENGTH then Inl HsPanic
      else Inr \<lparr>before_digest = take digest_offset packet,
                after_digest = drop (digest_offset + SHA256_DIGEST_LENGTH) packet,
                mp_digest = take SHA256_DIGEST_LENGTH (drop digest_offset packet)\<rparr>)"

definition get_digest_for_received_packet :: "mac_function \<Rightarrow> bytes \<Rightarrow> bytes \<Rightarrow> handshake_error + bytes" where
  "get_digest_for_received_packet mac packet key =
     rbind (get_message_parts packet (get_client_digest_offset packet)) (\<lambda>v1_parts.
     rbind (calc_hmac_from_parts mac (before_digest v1_parts) (after_digest v1_parts) key) (\<lambda>v1_hmac.
     rbind (get_message_parts packet (get_server_digest_offset packet)) (\<lambda>v2_parts.
     rbind (calc_hmac_from_parts mac (before_digest v2_parts) (after_digest v2_parts) key) (\<lambda>v2_hmac.
       if v1_hmac = mp_digest v1_parts then Inr (mp_digest v1_parts)
       else if v2_hmac = mp_digest v2_parts then Inr (mp_digest v2_parts)
       else Inl UnknownPacket1Format))))"

definition random_bytes :: "(nat \<Rightarrow> u8) \<Rightarrow> nat \<Rightarrow> nat \<Rightarrow> bytes" where
  "random_bytes rng drawn n = map (\<lambda>i. rng (drawn + i)) [0..<n]"

text \<open>Overwriting a part of a packet in place.\<close>

definition splice :: "nat \<Rightarrow> bytes \<Rightarrow> bytes \<Rightarrow> bytes" where
  "splice offset new xs = take offset xs @ new @ drop (offset + length new) xs"

section \<open>The endpoint\<close>

definition sent_p1_offset :: "handshake_role \<Rightarrow> bytes \<Rightarrow> nat \<times> bytes" where
  "sent_p1_offset peer_type p1 =
     (case peer_type of
        RoleServer \<Rightarrow> (get_server_digest_offset p1, GENUINE_FMS_CONST)
      | RoleClient \<Rightarrow> (get_client_digest_offset p1, GENUINE_FP_CONST))"

definition generate_outbound_p0_and_p1 ::
    "mac_function \<Rightarrow> (nat \<Rightarrow> u8) \<Rightarrow> handshake \<Rightarrow> (handshake_error + bytes) \<times> handshake" where
  "generate_outbound_p0_and_p1 mac rng h =
     (let p1 = splice 8 (random_bytes rng (hs_drawn h) (1532 - 8)) (hs_sent_p1 h);
          p1 = splice 4 ADOBE_VERSION p1;
          h1 = h\<lparr>hs_sent_p1 := p1, hs_drawn := hs_drawn h + (1532 - 8)\<rparr>;
          (digest_offset, constant_key) = sent_p1_offset (hs_peer_type h) p1 in
      if length p1 < digest_offset + SHA256_DIGEST_LENGTH then (Inl HsPanic, h1)
      else case calc_hmac_from_parts mac (take digest_offset p1) (drop (digest_offset + SHA256_DIGEST_LENGTH) p1) constant_key of
        Inl e \<Rightarrow> (Inl e, h1)
      | Inr sent_digest \<Rightarrow>
          let p1 = splice digest_offset sent_digest p1 in
          (Inr (3 # p1), h1\<lparr>hs_sent_p1 := p1, hs_stage := WaitingForPacket0\<rparr>))"

definition parse_p0 :: "handshake \<Rightarrow> (handshake_error + handshake_progress) \<times> handshake" where
  "parse_p0 h =
     (case hs_input_buffer h of
        [] \<Rightarrow> (Inr (InProgress []), h)
      | b # rest \<Rightarrow>
          let h = h\<lparr>hs_command_byte := b, hs_input_buffer := rest\<rparr> in
          if b \<noteq> 3 then (Inl BadVersionId, h)
          else (Inr (InProgress []), h\<lparr>hs_stage := WaitingForPacket1\<rparr>))"

definition p1_key :: "handshake_role \<Rightarrow> bytes" where
  "p1_key peer_type = (case peer_type of RoleServer \<Rightarrow> GENUINE_FP_CONST | RoleClient \<Rightarrow> GENUINE_FMS_CONST)"

definition p2_key :: "handshake_role \<Rightarrow> bytes" where
  "p2_key peer_type =
     (case peer_type of RoleServer \<Rightarrow> GENUINE_FMS_CONST | RoleClient \<Rightarrow> GENUINE_FP_CONST) @ RANDOM_CRUD"

definition parse_p1 ::
    "mac_function \<Rightarrow> (nat \<Rightarrow> u8) \<Rightarrow> handshake \<Rightarrow> (handshake_error + handshake_progress) \<times> handshake" where
  "parse_p1 mac rng h =
     (if length (hs_input_buffer h) < RTMP_PACKET_SIZE then (Inr (InProgress []), h)
      else
        let received_packet_1 = take RTMP_PACKET_SIZE (hs_input_buffer h);
            h = h\<lparr>hs_input_buffer := drop RTMP_PACKET_SIZE (hs_input_buffer h)\<rparr> in
        case get_digest_for_received_packet mac received_packet_1 (p1_key (hs_peer_type h)) of
          Inl UnknownPacket1Format \<Rightarrow>
            (Inr (InProgress received_packet_1), h\<lparr>hs_stage := WaitingForPacket2\<rparr>)
        | Inl e \<Rightarrow> (Inl e, h)
        | Inr received_digest \<Rightarrow>
            let output_packet = random_bytes rng (hs_drawn h) RTMP_PACKET_SIZE;
                h = h\<lparr>hs_drawn := hs_drawn h + RTMP_PACKET_SIZE\<rparr> in
            case rbind (calc_hmac mac received_digest (p2_key (hs_peer_type h)))
                   (\<lambda>hmac1. calc_hmac mac (take P2_SIG_START_INDEX output_packet) hmac1) of
              Inl e \<Rightarrow> (Inl e, h)
            | Inr hmac2 \<Rightarrow>
                (Inr (InProgress (splice P2_SIG_START_INDEX hmac2 output_packet)), h\<lparr>hs_stage := WaitingForPacket2\<rparr>))"

text \<open>
  Packet 2 is only counted: whether it is an exact copy of our packet 1 or not, the handshake completes.
  Both branches of the source are the same.
\<close>

definition parse_p2 :: "handshake \<Rightarrow> (handshake_error + handshake_progress) \<times> handshake" where
  "parse_p2 h =
     (if length (hs_input_buffer h) < RTMP_PACKET_SIZE then (Inr (InProgress []), h)
      else
        let received_packet_2 = take RTMP_PACKET_SIZE (hs_input_buffer h);
            remaining = drop RTMP_PACKET_SIZE (hs_input_buffer h) in
        if hs_sent_p1 h = received_packet_2
        then (Inr (Completed [] remaining), h\<lparr>hs_input_buffer := [], hs_stage := HsComplete\<rparr>)
        else (Inr (Completed [] remaining), h\<lparr>hs_input_buffer := [], hs_stage := HsComplete\<rparr>))"

definition hs_step ::
    "mac_function \<Rightarrow> (nat \<Rightarrow> u8) \<Rightarrow> handshake \<Rightarrow> (handshake_error + handshake_progress) \<times> handshake" where
  "hs_step mac rng h =
     (case hs_stage h of
        NeedToSendP0AndP1 \<Rightarrow>
          (case generate_outbound_p0_and_p1 mac rng h of
             (Inl e, h') \<Rightarrow> (Inl e, h')
           | (Inr bs, h') \<Rightarrow> (Inr (InProgress bs), h'))
      | WaitingForPacket0 \<Rightarrow> parse_p0 h
      | WaitingForPacket1 \<Rightarrow> parse_p1 mac rng h
      | WaitingForPacket2 \<Rightarrow> parse_p2 h
      | HsComplete \<Rightarrow> (Inl HandshakeAlreadyCompleted, h))"

fun stage_rank :: "hs_stage \<Rightarrow> nat" where
  "stage_rank NeedToSendP0AndP1 = 0"
| "stage_rank WaitingForPacket0 = 1"
| "stage_rank WaitingForPacket1 = 2"
| "stage_rank WaitingForPacket2 = 3"
| "stage_rank HsComplete = 4"

lemma stage_rank_le: "stage_rank s \<le> 4"
  by (cases s) auto

lemma hs_step_rank:
  assumes "hs_step mac rng h = (Inr r, h')"
  shows "hs_stage h' = hs_stage h \<or> stage_rank (hs_stage h') = Suc (stage_rank (hs_stage h))"
  using assms
  by (cases "hs_stage h")
    (auto simp: hs_step_def parse_p0_def parse_p1_def parse_p2_def generate_outbound_p0_and_p1_def Let_def
      split: prod.splits sum.splits list.splits if_splits handshake_error.splits)

function (sequential) hs_loop ::
    "mac_function \<Rightarrow> (nat \<Rightarrow> u8) \<Rightarrow> handshake \<Rightarrow> bytes \<Rightarrow> bytes \<Rightarrow> (handshake_error + handshake_progress) \<times> handshake" where
  "hs_loop mac rng h bytes_for_response left_over_bytes =
     (case hs_step mac rng h of
        (Inl e, h') \<Rightarrow> (Inl e, h')
      | (Inr r, h') \<Rightarrow>
          let response = (case r of InProgress bs \<Rightarrow> bytes_for_response @ bs | Completed _ _ \<Rightarrow> bytes_for_response);
              left = (case r of InProgress _ \<Rightarrow> left_over_bytes | Completed _ bs \<Rightarrow> left_over_bytes @ bs) in
          if hs_stage h' = HsComplete \<or> hs_stage h = hs_stage h'
          then (Inr (if hs_stage h' = HsComplete then Completed response left else InProgress response), h')
          else hs_loop mac rng h' response left)"
  by pat_completeness auto
termination
proof (relation "measure (\<lambda>(mac, rng, h, _). 4 - stage_rank (hs_stage h))", goal_cases)
  case (2 mac rng h response left r h' res)
  then show ?case
    using hs_step_rank [of mac rng h res h'] stage_rank_le [of "hs_stage h'"] by auto
qed simp

declare hs_loop.simps [simp del]

definition process_bytes ::
    "mac_function \<Rightarrow> (nat \<Rightarrow> u8) \<Rightarrow> handshake \<Rightarrow> bytes \<Rightarrow> (handshake_error + handshake_progress) \<times> handshake" where
  "process_bytes mac rng h data = hs_loop mac rng (h\<lparr>hs_input_buffer := hs_input_buffer h @ data\<rparr>) [] []"

end
