(* ===== verification/Handshake_Exchange.thy ===== *)
theory Handshake_Exchange
  imports Handshake
begin

text \<open>
  What the handshake guarantees: the reads the transport happens to make do not matter, an endpoint
  completes after exactly 1 + 1536 + 1536 bytes and hands on the rest, and a client and a server of this
  library complete with each other in the digest mode.
\<close>

definition mac_ok :: "mac_function \<Rightarrow> bool" where
  "mac_ok mac \<longleftrightarrow> (\<forall>input key. length (mac input key) = 32)"

lemma mac_okD: "mac_ok mac \<Longrightarrow> length (mac input key) = 32"
  by (simp add: mac_ok_def)

lemma calc_hmac_ok [simp]: "mac_ok mac \<Longrightarrow> calc_hmac mac input key = Inr (mac input key)"
  by (simp add: calc_hmac_def mac_okD)

lemma calc_parts_ok [simp]: "mac_ok mac \<Longrightarrow> calc_hmac_from_parts mac a b key = Inr (mac (a @ b) key)"
  by (simp add: calc_hmac_from_parts_def)

section \<open>More input\<close>

definition feed :: "handshake \<Rightarrow> bytes \<Rightarrow> handshake" where
  "feed h b = h\<lparr>hs_input_buffer := hs_input_buffer h @ b\<rparr>"

lemma feed_simps [simp]:
  "hs_stage (feed h b) = hs_stage h" "hs_input_buffer (feed h b) = hs_input_buffer h @ b" "feed h [] = h"
  "feed (feed h a) b = feed h (a @ b)" "hs_sent_p1 (feed h b) = hs_sent_p1 h" "hs_peer_type (feed h b) = hs_peer_type h"
  "hs_drawn (feed h b) = hs_drawn h"
  by (simp_all add: feed_def)

lemma generate_feed:
  "generate_outbound_p0_and_p1 mac rng (feed h b) = map_prod (\<lambda>r. r) (\<lambda>h'. feed h' b) (generate_outbound_p0_and_p1 mac rng h)"
  unfolding generate_outbound_p0_and_p1_def Let_def feed_simps
  by (auto simp: feed_def split: prod.splits sum.splits)

lemma parse_p1_feed:
  assumes "\<not> length (hs_input_buffer h) < RTMP_PACKET_SIZE"
  shows "parse_p1 mac rng (feed h b) = map_prod (\<lambda>r. r) (\<lambda>h'. feed h' b) (parse_p1 mac rng h)"
  using assms unfolding parse_p1_def Let_def feed_simps
  by (simp add: feed_def split: sum.split handshake_error.split)

lemma step_same:
  assumes "hs_step mac rng h = (Inr r, h')" "hs_stage h' = hs_stage h"
  shows "h' = h" and "r = InProgress []"
  using assms
  by (auto simp: hs_step_def parse_p0_def parse_p1_def parse_p2_def generate_outbound_p0_and_p1_def Let_def
      split: hs_stage.splits prod.splits sum.splits list.splits if_splits handshake_error.splits)

lemma step_complete:
  assumes "hs_step mac rng h = (Inr r, h')" "hs_stage h' = HsComplete" "hs_stage h \<noteq> HsComplete"
  shows "\<exists>rest. r = Completed [] rest \<and> hs_step mac rng (feed h b) = (Inr (Completed [] (rest @ b)), h')"
  using assms
  by (auto simp: hs_step_def parse_p0_def parse_p1_def parse_p2_def generate_outbound_p0_and_p1_def Let_def feed_def
      split: hs_stage.splits prod.splits sum.splits list.splits if_splits handshake_error.splits)

lemma step_feed:
  assumes "hs_step mac rng h = (res, h')" "\<And>r. res = Inr r \<Longrightarrow> hs_stage h' \<noteq> hs_stage h \<and> hs_stage h' \<noteq> HsComplete"
  shows "hs_step mac rng (feed h b) = (res, feed h' b)"
proof (cases "hs_stage h")
  case NeedToSendP0AndP1
  then show ?thesis
    using assms by (auto simp: hs_step_def generate_feed split: prod.splits sum.splits)
next
  case WaitingForPacket0
  then show ?thesis
    using assms by (auto simp: hs_step_def parse_p0_def Let_def feed_def split: list.splits)
next
  case WaitingForPacket1
  then show ?thesis
    using assms parse_p1_feed [of h mac rng b] by (cases "length (hs_input_buffer h) < RTMP_PACKET_SIZE") (auto simp: hs_step_def parse_p1_def)
next
  case WaitingForPacket2
  then show ?thesis
    using assms by (auto simp: hs_step_def parse_p2_def Let_def split: if_splits)
next
  case HsComplete
  then show ?thesis
    using assms by (auto simp: hs_step_def)
qed

text \<open>An iteration that did not finish goes on with the bytes that come later.\<close>

lemma loop_feed:
  assumes "hs_stage h \<noteq> HsComplete"
  shows "hs_loop mac rng (feed h b) acc [] =
    (case hs_loop mac rng h acc [] of
       (Inr (InProgress r), h') \<Rightarrow> hs_loop mac rng (feed h' b) r []
     | (Inr (Completed r rest), h') \<Rightarrow> (Inr (Completed r (rest @ b)), h')
     | (Inl e, h') \<Rightarrow> (Inl e, feed h' b))"
  using assms
proof (induction "4 - stage_rank (hs_stage h)" arbitrary: h acc rule: less_induct)
  case less
  obtain res h' where st: "hs_step mac rng h = (res, h')"
    by fastforce
  show ?case
  proof (cases res)
    case (Inl e)
    then show ?thesis
      using step_feed [OF st] by (simp add: hs_loop.simps [of mac rng h] hs_loop.simps [of mac rng "feed h b"] st)
  next
    case (Inr r)
    note st = st [unfolded Inr]
    consider "hs_stage h' = hs_stage h" | "hs_stage h' = HsComplete" | "hs_stage h' \<noteq> hs_stage h" "hs_stage h' \<noteq> HsComplete"
      by blast
    then show ?thesis
    proof cases
      case 1
      with step_same [OF st 1] less.prems show ?thesis
        by (simp add: hs_loop.simps [of mac rng h] st)
    next
      case 2
      with step_complete [OF st 2 less.prems, of b] st show ?thesis
        by (auto simp: hs_loop.simps [of mac rng h] hs_loop.simps [of mac rng "feed h b"])
    next
      case 3
      have "\<exists>bs. r = InProgress bs"
        using st 3 by (auto simp: hs_step_def parse_p0_def parse_p1_def parse_p2_def Let_def
            split: hs_stage.splits prod.splits sum.splits list.splits if_splits handshake_error.splits)
      then obtain bs where r: "r = InProgress bs" ..
      have "stage_rank (hs_stage h) < stage_rank (hs_stage h')"
        using hs_step_rank [OF st] 3 by auto
      then have "4 - stage_rank (hs_stage h') < 4 - stage_rank (hs_stage h)"
        using stage_rank_le [of "hs_stage h'"] by linarith
      note IH = less.hyps [OF this 3(2), of "acc @ bs"]
      show ?thesis
        using step_feed [OF st, of b] 3 IH
        by (simp add: hs_loop.simps [of mac rng h] hs_loop.simps [of mac rng "feed h b"] st r)
    qed
  qed
qed

lemma loop_response:
  "hs_loop mac rng h (acc @ r) left = map_prod (map_sum (\<lambda>e. e)
     (\<lambda>p. case p of InProgress x \<Rightarrow> InProgress (acc @ x) | Completed x y \<Rightarrow> Completed (acc @ x) y)) (\<lambda>h. h)
     (hs_loop mac rng h r left)"
proof (induction mac rng h r left rule: hs_loop.induct)
  case (1 mac rng h r left)
  show ?case
    by (simp add: hs_loop.simps [of mac rng h] Let_def 1 [OF _ refl] split: prod.splits sum.splits handshake_progress.splits)
qed


section \<open>Reads\<close>

text \<open>Passing on what the transport delivers, until the handshake completes or fails.\<close>

fun process_reads ::
    "mac_function \<Rightarrow> (nat \<Rightarrow> u8) \<Rightarrow> handshake \<Rightarrow> bytes \<Rightarrow> bytes list \<Rightarrow> (handshake_error + handshake_progress) \<times> handshake" where
  "process_reads mac rng h acc [] = (Inr (InProgress acc), h)"
| "process_reads mac rng h acc (d # ds) =
     (case process_bytes mac rng h d of
        (Inl e, h') \<Rightarrow> (Inl e, h')
      | (Inr (InProgress r), h') \<Rightarrow> process_reads mac rng h' (acc @ r) ds
      | (Inr (Completed r rest), h') \<Rightarrow> (Inr (Completed (acc @ r) (rest @ concat ds)), h'))"

definition same_outcome ::
    "(handshake_error + handshake_progress) \<times> handshake \<Rightarrow> (handshake_error + handshake_progress) \<times> handshake \<Rightarrow> bool" where
  "same_outcome x y \<longleftrightarrow> fst x = fst y \<and> (\<forall>r. fst x = Inr r \<longrightarrow> snd x = snd y)"

lemma process_feed: "process_bytes mac rng h d = hs_loop mac rng (feed h d) [] []"
  by (simp add: process_bytes_def feed_def)

lemma reads_eq:
  assumes "ds \<noteq> []"
  shows "same_outcome (process_reads mac rng h acc ds) (hs_loop mac rng (feed h (concat ds)) acc [])"
  using assms
proof (induction ds arbitrary: h acc)
  case (Cons d ds)
  show ?case
  proof (cases "hs_stage h = HsComplete")
    case True
    then show ?thesis
      by (simp add: process_feed hs_loop.simps [of mac rng "feed h _"] hs_step_def same_outcome_def)
  next
    case False
    then have split: "hs_loop mac rng (feed h (concat (d # ds))) acc [] =
      (case hs_loop mac rng (feed h d) acc [] of
         (Inr (InProgress r), h') \<Rightarrow> hs_loop mac rng (feed h' (concat ds)) r []
       | (Inr (Completed r rest), h') \<Rightarrow> (Inr (Completed r (rest @ concat ds)), h')
       | (Inl e, h') \<Rightarrow> (Inl e, feed h' (concat ds)))"
      using loop_feed [of "feed h d" mac rng "concat ds" acc] by simp
    have acc: "hs_loop mac rng (feed h d) acc [] = map_prod (map_sum (\<lambda>e. e)
        (\<lambda>p. case p of InProgress x \<Rightarrow> InProgress (acc @ x) | Completed x y \<Rightarrow> Completed (acc @ x) y)) (\<lambda>h. h)
        (hs_loop mac rng (feed h d) [] [])"
      using loop_response [of mac rng "feed h d" acc "[]" "[]"] by simp
    obtain res h' where res: "hs_loop mac rng (feed h d) [] [] = (res, h')"
      by fastforce
    have stuck: "hs_loop mac rng h' (acc @ r) [] = (Inr (InProgress (acc @ r)), h')" if "res = Inr (InProgress r)" for r
      using loop_feed [of "feed h d" mac rng "[]" acc] False acc res that by simp
    show ?thesis
      using Cons.IH stuck unfolding split acc
      by (cases "ds = []") (auto simp: process_feed res same_outcome_def split: sum.splits handshake_progress.splits)
  qed
qed simp

text \<open>
  Where reads fail: some read fails after all before it were accepted, and one call with everything fails
  with the same error, in the same state but for the later reads, which it has buffered.
\<close>

lemma reads_error:
  assumes "hs_loop mac rng (feed h (concat ds)) acc [] = (Inl e, k)" and "ds \<noteq> []"
  shows "\<exists>j sent g h'. j < length ds \<and> process_reads mac rng h acc (take j ds) = (Inr (InProgress sent), g)
    \<and> process_bytes mac rng g (ds ! j) = (Inl e, h') \<and> process_reads mac rng h acc ds = (Inl e, h')
    \<and> k = feed h' (concat (drop (Suc j) ds))"
  using assms
proof (induction ds arbitrary: h acc)
  case (Cons d ds)
  show ?case
  proof (cases "process_bytes mac rng h d")
    case (Pair res g)
    have acc: "hs_loop mac rng (feed h d) acc [] = map_prod (map_sum (\<lambda>e. e)
        (\<lambda>p. case p of InProgress x \<Rightarrow> InProgress (acc @ x) | Completed x y \<Rightarrow> Completed (acc @ x) y)) (\<lambda>h. h) (res, g)"
      using loop_response [of mac rng "feed h d" acc "[]" "[]"] Pair by (simp add: process_feed)
    show ?thesis
    proof (cases "\<exists>r. res = Inr r")
      case False
      then obtain e' where e': "res = Inl e'"
        by (cases res) auto
      have "e' = e \<and> k = feed g (concat ds)"
      proof (cases "hs_stage h = HsComplete")
        case True
        then have "hs_loop mac rng (feed h b) x [] = (Inl HandshakeAlreadyCompleted, feed h b)" for b x
          by (simp add: hs_loop.simps [of mac rng "feed h b"] hs_step_def)
        then show ?thesis
          using Cons.prems(1) Pair e' by (auto simp: process_feed)
      next
        case False
        then show ?thesis
          using Cons.prems(1) acc e' loop_feed [of "feed h d" mac rng "concat ds" acc] by simp
      qed
      then show ?thesis
        using Pair e' by (intro exI [of _ 0] exI [of _ acc] exI [of _ h] exI [of _ g]) simp
    next
      case True
      then have run: "hs_stage h \<noteq> HsComplete"
        using Pair by (auto simp: process_feed hs_loop.simps [of mac rng "feed h d"] hs_step_def)
      then obtain r where r: "res = Inr (InProgress r)" and
        later: "hs_loop mac rng (feed g (concat ds)) (acc @ r) [] = (Inl e, k)"
        using True Cons.prems(1) acc loop_feed [of "feed h d" mac rng "concat ds" acc]
        by (auto split: handshake_progress.splits)
      have "ds \<noteq> []"
        using loop_feed [of "feed h d" mac rng "[]" acc] run acc r later by auto
      from Cons.IH [OF later this] obtain j sent g' h' where
        ih: "j < length ds" "process_reads mac rng g (acc @ r) (take j ds) = (Inr (InProgress sent), g')"
          "process_bytes mac rng g' (ds ! j) = (Inl e, h')" "process_reads mac rng g (acc @ r) ds = (Inl e, h')"
          "k = feed h' (concat (drop (Suc j) ds))"
        by blast
      then show ?thesis
        using Pair r by (intro exI [of _ "Suc j"] exI [of _ sent] exI [of _ g'] exI [of _ h']) simp
    qed
  qed
qed simp

text \<open>
  C19 (equivalence). The reads do not matter. Passing a byte stream to a handshake in any nonempty list of
  reads, when one call with all of it succeeds, gives the same response bytes, the same bytes left over
  and the same state. When the one call fails, the reads fail with the same error at some read, after
  exactly the responses of the reads before it (the one call returns none of them); the state is that of
  the one call, except that the one call has also buffered the reads that come after.
\<close>

theorem handshake_split_invariant:
  assumes "ds \<noteq> []"
  shows "case process_bytes mac rng h (concat ds) of
      (Inr r, k) \<Rightarrow> process_reads mac rng h [] ds = (Inr r, k)
    | (Inl e, k) \<Rightarrow> \<exists>j sent g h'. j < length ds
        \<and> process_reads mac rng h [] (take j ds) = (Inr (InProgress sent), g) \<and> process_bytes mac rng g (ds ! j) = (Inl e, h')
        \<and> process_reads mac rng h [] ds = (Inl e, h') \<and> k = feed h' (concat (drop (Suc j) ds))"
proof (cases "process_bytes mac rng h (concat ds)")
  case (Pair res k)
  show ?thesis
  proof (cases res)
    case (Inl e)
    then show ?thesis
      using reads_error [of mac rng h ds "[]" e k] Pair assms by (simp add: process_feed)
  next
    case (Inr r)
    then have "process_reads mac rng h [] ds = (Inr r, k)"
      using reads_eq [OF assms, of mac rng h "[]"] Pair by (simp add: process_feed same_outcome_def prod_eq_iff)
    then show ?thesis
      using Pair Inr by simp
  qed
qed

text \<open>An endpoint that has sent its packets 0 and 1 meets a wrong version in its second read.\<close>

theorem handshake_split_invariant_witness:
  "\<exists>h k j sent g h'. process_bytes (\<lambda>_ _. replicate 32 0) (\<lambda>_. 0) h [6, 7] = (Inl BadVersionId, k)
    \<and> j < length [[], [6], [7]]
    \<and> process_reads (\<lambda>_ _. replicate 32 0) (\<lambda>_. 0) h [] (take j [[], [6], [7]]) = (Inr (InProgress sent), g)
    \<and> process_reads (\<lambda>_ _. replicate 32 0) (\<lambda>_. 0) h [] [[], [6], [7]] = (Inl BadVersionId, h')
    \<and> k = feed h' (concat (drop (Suc j) [[], [6], [7]]))"
proof -
  define h where "h = (handshake_new RoleServer)\<lparr>hs_stage := WaitingForPacket0\<rparr>"
  have "\<exists>k. process_bytes (\<lambda>_ _. replicate 32 0) (\<lambda>_. 0) h [6, 7] = (Inl BadVersionId, k)"
    by (subst process_feed, subst hs_loop.simps) (simp add: hs_step_def parse_p0_def h_def handshake_new_def Let_def)
  then obtain k where k: "process_bytes (\<lambda>_ _. replicate 32 0) (\<lambda>_. 0) h [6, 7] = (Inl BadVersionId, k)"
    by blast
  have "\<exists>j sent g h'. j < length [[], [6], [7]]
    \<and> process_reads (\<lambda>_ _. replicate 32 0) (\<lambda>_. 0) h [] (take j [[], [6], [7]]) = (Inr (InProgress sent), g)
    \<and> process_bytes (\<lambda>_ _. replicate 32 0) (\<lambda>_. 0) g ([[], [6], [7]] ! j) = (Inl BadVersionId, h')
    \<and> process_reads (\<lambda>_ _. replicate 32 0) (\<lambda>_. 0) h [] [[], [6], [7]] = (Inl BadVersionId, h')
    \<and> k = feed h' (concat (drop (Suc j) [[], [6], [7]]))"
    using handshake_split_invariant [of "[[], [6], [7]]" "\<lambda>_ _. replicate 32 0" "\<lambda>_. 0" h] k by simp
  with k show ?thesis
    by blast
qed


section \<open>Packets\<close>

lemma splice_props:
  assumes "offset + length new \<le> length xs"
  shows "length (splice offset new xs) = length xs"
    and "take offset (splice offset new xs) = take offset xs"
    and "drop (offset + length new) (splice offset new xs) = drop (offset + length new) xs"
    and "take (length new) (drop offset (splice offset new xs)) = new"
    and "i < offset \<or> offset + length new \<le> i \<Longrightarrow> i < length xs \<Longrightarrow> splice offset new xs ! i = xs ! i"
  using assms by (auto simp: splice_def nth_append min_def dest: le_antisym)

lemma offset_bounds:
  "12 \<le> get_client_digest_offset p" "get_client_digest_offset p < 740"
  "776 \<le> get_server_digest_offset p" "get_server_digest_offset p < 1504"
  by (simp_all add: get_client_digest_offset_def get_server_digest_offset_def)

lemma parts_ok:
  assumes "length p = 1536"
  shows "get_message_parts p (get_client_digest_offset p) = Inr \<lparr>before_digest = take (get_client_digest_offset p) p,
      after_digest = drop (get_client_digest_offset p + 32) p, mp_digest = take 32 (drop (get_client_digest_offset p) p)\<rparr>"
    and "get_message_parts p (get_server_digest_offset p) = Inr \<lparr>before_digest = take (get_server_digest_offset p) p,
      after_digest = drop (get_server_digest_offset p + 32) p, mp_digest = take 32 (drop (get_server_digest_offset p) p)\<rparr>"
  using assms offset_bounds [of p] by (simp_all add: get_message_parts_def SHA256_DIGEST_LENGTH_def)

text \<open>A packet is recognised when the digest at either place is the keyed hash of the rest.\<close>

definition digest_at :: "mac_function \<Rightarrow> bytes \<Rightarrow> bytes \<Rightarrow> nat \<Rightarrow> bool" where
  "digest_at mac key p i \<longleftrightarrow> take 32 (drop i p) = mac (take i p @ drop (i + 32) p) key"

lemma received_digest:
  assumes "mac_ok mac" "length p = 1536"
  shows "get_digest_for_received_packet mac p key =
    (if digest_at mac key p (get_client_digest_offset p) then Inr (take 32 (drop (get_client_digest_offset p) p))
     else if digest_at mac key p (get_server_digest_offset p) then Inr (take 32 (drop (get_server_digest_offset p) p))
     else Inl UnknownPacket1Format)"
  unfolding get_digest_for_received_packet_def parts_ok [OF assms(2)] digest_at_def
  using assms(1) by (auto simp: eq_commute)

fun opposite :: "handshake_role \<Rightarrow> handshake_role" where
  "opposite RoleServer = RoleClient"
| "opposite RoleClient = RoleServer"

lemma digest_splice:
  assumes mac: "mac_ok mac" and p: "length p = 1536" and i: "i + 32 \<le> 1536"
  shows "digest_at mac key (splice i (mac (take i p @ drop (i + 32) p) key) p) i"
proof -
  let ?d = "mac (take i p @ drop (i + 32) p) key"
  have "length ?d = 32"
    using mac by (simp add: mac_okD)
  with splice_props [of i ?d p] p i show ?thesis
    by (simp add: digest_at_def)
qed

lemma offsets_kept:
  assumes "length p = 1536" "length d = 32"
  shows "get_client_digest_offset (splice (get_client_digest_offset p) d p) = get_client_digest_offset p"
    and "get_server_digest_offset (splice (get_server_digest_offset p) d p) = get_server_digest_offset p"
proof -
  have c: "splice (get_client_digest_offset p) d p ! i = p ! i" if "i < 12" for i
    using that assms offset_bounds [of p] by (intro splice_props(5)) auto
  have s: "splice (get_server_digest_offset p) d p ! i = p ! i" if "i < 776" for i
    using that assms offset_bounds [of p] by (intro splice_props(5)) auto
  show "get_client_digest_offset (splice (get_client_digest_offset p) d p) = get_client_digest_offset p"
    by (subst get_client_digest_offset_def) (simp add: c, simp add: get_client_digest_offset_def)
  show "get_server_digest_offset (splice (get_server_digest_offset p) d p) = get_server_digest_offset p"
    by (subst get_server_digest_offset_def) (simp add: s, simp add: get_server_digest_offset_def)
qed

lemma generate_ok:
  assumes mac: "mac_ok mac" and len: "length (hs_sent_p1 h) = 1536"
  obtains p1 n where "generate_outbound_p0_and_p1 mac rng h =
      (Inr (3 # p1), h\<lparr>hs_sent_p1 := p1, hs_drawn := n, hs_stage := WaitingForPacket0\<rparr>)"
    "length p1 = 1536" "\<exists>d. get_digest_for_received_packet mac p1 (p1_key (opposite (hs_peer_type h))) = Inr d"
proof -
  define q where "q = splice 4 ADOBE_VERSION (splice 8 (random_bytes rng (hs_drawn h) 1524) (hs_sent_p1 h))"
  have q: "length q = 1536"
    using len by (simp add: q_def splice_def random_bytes_def ADOBE_VERSION_def)
  obtain i key where ik: "sent_p1_offset (hs_peer_type h) q = (i, key)"
    by fastforce
  let ?p1 = "splice i (mac (take i q @ drop (i + 32) q) key) q"
  have role: "i = get_server_digest_offset q \<and> key = p1_key (opposite (hs_peer_type h)) \<and> hs_peer_type h = RoleServer
      \<or> i = get_client_digest_offset q \<and> key = p1_key (opposite (hs_peer_type h)) \<and> hs_peer_type h = RoleClient"
    using ik by (auto simp: sent_p1_offset_def p1_key_def split: handshake_role.splits)
  have i: "i + 32 \<le> 1536"
    using role offset_bounds [of q] by auto
  have p1: "length ?p1 = 1536"
    using splice_props(1) [of i _ q] i q mac by (simp add: mac_okD)
  have "digest_at mac key ?p1 i"
    by (rule digest_splice [OF mac q i])
  moreover have "i = get_server_digest_offset ?p1 \<or> i = get_client_digest_offset ?p1"
    using role offsets_kept [OF q] mac_okD [OF mac] by auto
  ultimately have rec: "\<exists>d. get_digest_for_received_packet mac ?p1 (p1_key (opposite (hs_peer_type h))) = Inr d"
    using received_digest [OF mac p1] role by auto
  show ?thesis
  proof (rule that [OF _ p1 rec])
    show "generate_outbound_p0_and_p1 mac rng h = (Inr (3 # ?p1),
        h\<lparr>hs_sent_p1 := ?p1, hs_drawn := hs_drawn h + 1524, hs_stage := WaitingForPacket0\<rparr>)"
      using i q ik mac
      by (simp add: generate_outbound_p0_and_p1_def q_def [symmetric] Let_def SHA256_DIGEST_LENGTH_def)
  qed
qed

text \<open>The answer to a packet 1: a copy of it, or random bytes signed with the digest found in it.\<close>

definition answers :: "mac_function \<Rightarrow> handshake_role \<Rightarrow> bytes \<Rightarrow> bytes \<Rightarrow> bool" where
  "answers mac role p1 p2 \<longleftrightarrow> length p2 = 1536 \<and>
     (case get_digest_for_received_packet mac p1 (p1_key role) of
        Inl _ \<Rightarrow> p2 = p1
      | Inr d \<Rightarrow> drop 1504 p2 = mac (take 1504 p2) (mac d (p2_key role)))"

lemma parse_p1_ok:
  assumes mac: "mac_ok mac" and len: "1536 \<le> length (hs_input_buffer h)"
  obtains p2 n where "parse_p1 mac rng h = (Inr (InProgress p2),
      h\<lparr>hs_input_buffer := drop 1536 (hs_input_buffer h), hs_drawn := n, hs_stage := WaitingForPacket2\<rparr>)"
    "answers mac (hs_peer_type h) (take 1536 (hs_input_buffer h)) p2"
proof -
  let ?p1 = "take 1536 (hs_input_buffer h)"
  have p1: "length ?p1 = 1536"
    using len by simp
  let ?r = "get_digest_for_received_packet mac ?p1 (p1_key (hs_peer_type h))"
  have "?r = Inl UnknownPacket1Format \<or> (\<exists>d. ?r = Inr d)"
    unfolding received_digest [OF mac p1] by auto
  then show ?thesis
  proof
    assume r: "?r = Inl UnknownPacket1Format"
    show ?thesis
    proof (rule that)
      show "parse_p1 mac rng h = (Inr (InProgress ?p1),
          h\<lparr>hs_input_buffer := drop 1536 (hs_input_buffer h), hs_drawn := hs_drawn h, hs_stage := WaitingForPacket2\<rparr>)"
        using r len by (simp add: parse_p1_def RTMP_PACKET_SIZE_def Let_def)
      show "answers mac (hs_peer_type h) ?p1 ?p1"
        using r p1 by (simp add: answers_def)
    qed
  next
    assume "\<exists>d. ?r = Inr d"
    then obtain d where r: "?r = Inr d" ..
    let ?o = "random_bytes rng (hs_drawn h) 1536"
    let ?s = "mac (take 1504 ?o) (mac d (p2_key (hs_peer_type h)))"
    have s: "length ?s = 32" "length ?o = 1536"
      using mac by (simp_all add: mac_okD random_bytes_def)
    show ?thesis
    proof (rule that)
      show "parse_p1 mac rng h = (Inr (InProgress (splice 1504 ?s ?o)),
          h\<lparr>hs_input_buffer := drop 1536 (hs_input_buffer h), hs_drawn := hs_drawn h + 1536, hs_stage := WaitingForPacket2\<rparr>)"
        using r len mac
        by (simp add: parse_p1_def RTMP_PACKET_SIZE_def Let_def P2_SIG_START_INDEX_def SHA256_DIGEST_LENGTH_def)
      show "answers mac (hs_peer_type h) ?p1 (splice 1504 ?s ?o)"
        using r s splice_props [of 1504 ?s ?o] by (simp add: answers_def splice_def)
    qed
  qed
qed


section \<open>The exchange\<close>

lemma loop_step:
  assumes "hs_step mac rng h = (Inr (InProgress bs), h')" "hs_stage h' \<noteq> hs_stage h" "hs_stage h' \<noteq> HsComplete"
  shows "hs_loop mac rng h acc left = hs_loop mac rng h' (acc @ bs) left"
  using assms by (simp add: hs_loop.simps [of mac rng h])

lemma loop_p2:
  assumes "hs_stage h = WaitingForPacket2"
  shows "fst (hs_loop mac rng h acc []) =
    (if length (hs_input_buffer h) < 1536 then Inr (InProgress acc) else Inr (Completed acc (drop 1536 (hs_input_buffer h))))"
    and "length (hs_input_buffer h) < 1536 \<Longrightarrow> snd (hs_loop mac rng h acc []) = h"
  using assms by (simp_all add: hs_loop.simps [of mac rng h] hs_step_def parse_p2_def RTMP_PACKET_SIZE_def)

lemma loop_p1:
  assumes mac: "mac_ok mac" and h: "hs_stage h = WaitingForPacket1" "1536 \<le> length (hs_input_buffer h)"
  obtains p2 h' where "hs_loop mac rng h acc [] = hs_loop mac rng h' (acc @ p2) []"
    "hs_stage h' = WaitingForPacket2" "hs_input_buffer h' = drop 1536 (hs_input_buffer h)"
    "answers mac (hs_peer_type h) (take 1536 (hs_input_buffer h)) p2"
proof -
  obtain p2 n where p: "parse_p1 mac rng h = (Inr (InProgress p2),
      h\<lparr>hs_input_buffer := drop 1536 (hs_input_buffer h), hs_drawn := n, hs_stage := WaitingForPacket2\<rparr>)"
    "answers mac (hs_peer_type h) (take 1536 (hs_input_buffer h)) p2"
    using parse_p1_ok [OF mac h(2)] by blast
  have "hs_loop mac rng h acc [] = hs_loop mac rng
      (h\<lparr>hs_input_buffer := drop 1536 (hs_input_buffer h), hs_drawn := n, hs_stage := WaitingForPacket2\<rparr>) (acc @ p2) []"
    by (rule loop_step) (simp_all add: hs_step_def h(1) p(1))
  then show ?thesis
    by (rule that [OF _ _ _ p(2)]) simp_all
qed

lemma loop_p1_short:
  assumes "hs_stage h = WaitingForPacket1" "length (hs_input_buffer h) < 1536"
  shows "hs_loop mac rng h acc [] = (Inr (InProgress acc), h)"
  using assms by (simp add: hs_loop.simps [of mac rng h] hs_step_def parse_p1_def RTMP_PACKET_SIZE_def)

lemma loop_p0:
  assumes "hs_stage h = WaitingForPacket0"
  shows "hs_input_buffer h = [] \<Longrightarrow> hs_loop mac rng h acc [] = (Inr (InProgress acc), h)"
    and "hs_input_buffer h = b # rest \<Longrightarrow> b \<noteq> 3 \<Longrightarrow> fst (hs_loop mac rng h acc []) = Inl BadVersionId"
    and "hs_input_buffer h = 3 # rest \<Longrightarrow> hs_loop mac rng h acc [] =
      hs_loop mac rng (h\<lparr>hs_command_byte := 3, hs_input_buffer := rest, hs_stage := WaitingForPacket1\<rparr>) acc []"
  using assms by (simp_all add: hs_loop.simps [of mac rng h] hs_step_def parse_p0_def)

text \<open>What the peer's stream of bytes, so far, makes of an endpoint that waits for packet 0.\<close>

lemma loop_outcome:
  assumes mac: "mac_ok mac" and h: "hs_stage h = WaitingForPacket0"
  shows "\<exists>p2. (1537 \<le> length (hs_input_buffer h) \<longrightarrow> answers mac (hs_peer_type h) (take 1536 (tl (hs_input_buffer h))) p2)
    \<and> fst (hs_loop mac rng h acc []) =
       (if hs_input_buffer h = [] then Inr (InProgress acc)
        else if hd (hs_input_buffer h) \<noteq> 3 then Inl BadVersionId
        else if length (hs_input_buffer h) < 1537 then Inr (InProgress acc)
        else if length (hs_input_buffer h) < 3073 then Inr (InProgress (acc @ p2))
        else Inr (Completed (acc @ p2) (drop 3073 (hs_input_buffer h))))"
proof (cases "hs_input_buffer h")
  case Nil
  then show ?thesis
    using loop_p0(1) [OF h] by simp
next
  case (Cons b rest)
  let ?h = "h\<lparr>hs_command_byte := 3, hs_input_buffer := rest, hs_stage := WaitingForPacket1\<rparr>"
  consider "b \<noteq> 3" | "b = 3" "length rest < 1536" | "b = 3" "1536 \<le> length rest"
    by linarith
  then show ?thesis
  proof cases
    case 1
    have "\<exists>p2. answers mac (hs_peer_type h) (take 1536 rest) p2" if "1536 \<le> length rest"
      using parse_p1_ok [OF mac, of ?h rng] that by auto
    then show ?thesis
      using loop_p0(2) [OF h Cons 1] Cons 1 by auto
  next
    case 2
    then show ?thesis
      using loop_p0(3) [OF h] loop_p1_short [of ?h] Cons by simp
  next
    case 3
    obtain p2 h' where "hs_loop mac rng ?h acc [] = hs_loop mac rng h' (acc @ p2) []"
      "hs_stage h' = WaitingForPacket2" "hs_input_buffer h' = drop 1536 rest" "answers mac (hs_peer_type h) (take 1536 rest) p2"
      by (rule loop_p1 [OF mac, of ?h rng acc]) (use 3 in auto)
    then show ?thesis
      using loop_p0(3) [OF h] loop_p2(1) [of h' mac rng "acc @ p2"] Cons 3 by (intro exI [of _ p2]) auto
  qed
qed

lemma generate_new:
  assumes "mac_ok mac"
  obtains p1 h where "generate_outbound_p0_and_p1 mac rng (handshake_new role) = (Inr (3 # p1), h)"
    "hs_stage h = WaitingForPacket0" "hs_input_buffer h = []" "hs_peer_type h = role"
    "length p1 = 1536" "\<exists>d. get_digest_for_received_packet mac p1 (p1_key (opposite role)) = Inr d"
    "\<And>data. process_bytes mac rng (handshake_new role) data = hs_loop mac rng (feed h data) (3 # p1) []"
proof -
  have new: "length (hs_sent_p1 (handshake_new role)) = 1536" "hs_peer_type (handshake_new role) = role"
    "hs_input_buffer (handshake_new role) = []" "hs_stage (handshake_new role) = NeedToSendP0AndP1"
    by (simp_all add: handshake_new_def RTMP_PACKET_SIZE_def)
  obtain p1 n where g: "generate_outbound_p0_and_p1 mac rng (handshake_new role) =
      (Inr (3 # p1), (handshake_new role)\<lparr>hs_sent_p1 := p1, hs_drawn := n, hs_stage := WaitingForPacket0\<rparr>)"
    "length p1 = 1536" "\<exists>d. get_digest_for_received_packet mac p1 (p1_key (opposite role)) = Inr d"
    using generate_ok [OF assms new(1), of rng] new(2) by metis
  show ?thesis
  proof (rule that [OF g(1) _ _ _ g(2,3)])
    fix data
    let ?h = "(handshake_new role)\<lparr>hs_sent_p1 := p1, hs_drawn := n, hs_stage := WaitingForPacket0\<rparr>"
    have "hs_step mac rng (feed (handshake_new role) data) = (Inr (InProgress (3 # p1)), feed ?h data)"
      by (simp add: hs_step_def new generate_feed g(1))
    then show "process_bytes mac rng (handshake_new role) data = hs_loop mac rng (feed ?h data) (3 # p1) []"
      using loop_step [of mac rng "feed (handshake_new role) data" "3 # p1" "feed ?h data" "[]" "[]"]
      by (simp add: process_feed new)
  qed (simp_all add: new)
qed

text \<open>
  C18 (functional). What a fresh endpoint makes of any bytes: it answers with the version byte and its
  packet 1, rejects a first byte other than 3, answers packet 1 once it is complete (with a copy of it, or
  signed when it carries a digest), and after exactly 3073 bytes completes, whatever packet 2 holds, with
  all further bytes left over. It never fails in any other way.
\<close>

theorem handshake_outcome:
  assumes "mac_ok mac"
  shows "\<exists>p1 p2. length p1 = 1536 \<and> (1537 \<le> length data \<longrightarrow> answers mac role (take 1536 (tl data)) p2)
    \<and> fst (process_bytes mac rng (handshake_new role) data) =
       (if data = [] then Inr (InProgress (3 # p1))
        else if hd data \<noteq> 3 then Inl BadVersionId
        else if length data < 1537 then Inr (InProgress (3 # p1))
        else if length data < 3073 then Inr (InProgress (3 # p1 @ p2))
        else Inr (Completed (3 # p1 @ p2) (drop 3073 data)))"
proof -
  obtain p1 h where h: "hs_stage h = WaitingForPacket0" "hs_input_buffer h = []" "hs_peer_type h = role" "length p1 = 1536"
    "process_bytes mac rng (handshake_new role) data = hs_loop mac rng (feed h data) (3 # p1) []"
    using generate_new [OF assms] by metis
  have "hs_stage (feed h data) = WaitingForPacket0"
    by (simp add: h(1))
  from loop_outcome [OF assms this, of rng "3 # p1"] show ?thesis
    unfolding h(5) feed_simps h(2,3) append_Nil append_Cons using h(4) by blast
qed

theorem handshake_outcome_witness:
  "fst (process_bytes (\<lambda>_ _. replicate 32 0) (\<lambda>_. 0) (handshake_new RoleServer) [6]) = Inl BadVersionId"
  using handshake_outcome [of "\<lambda>_ _. replicate 32 0" "[6]" RoleServer "\<lambda>_. 0"] by (simp add: mac_ok_def)


lemma reads_fst:
  "ds \<noteq> [] \<Longrightarrow> fst (process_reads mac rng h [] ds) = fst (hs_loop mac rng (feed h (concat ds)) [] [])"
  "ds \<noteq> [] \<Longrightarrow> hs_loop mac rng (feed h (concat ds)) [] [] = (Inr r, h') \<Longrightarrow> process_reads mac rng h [] ds = (Inr r, h')"
  using reads_eq [of ds mac rng h "[]"] by (auto simp: same_outcome_def prod_eq_iff)

text \<open>The whole of packets 0 and 1 from a peer, then the rest.\<close>

lemma loop_p0_p1:
  assumes mac: "mac_ok mac" and h: "hs_stage h = WaitingForPacket0" "hs_input_buffer h = 3 # p1 @ rest" "length p1 = 1536"
  obtains p2 h' where "hs_loop mac rng h acc [] = hs_loop mac rng h' (acc @ p2) []"
    "hs_stage h' = WaitingForPacket2" "hs_input_buffer h' = rest" "answers mac (hs_peer_type h) p1 p2"
proof -
  let ?h = "h\<lparr>hs_command_byte := 3, hs_input_buffer := p1 @ rest, hs_stage := WaitingForPacket1\<rparr>"
  obtain p2 h' where "hs_loop mac rng ?h acc [] = hs_loop mac rng h' (acc @ p2) []" "hs_stage h' = WaitingForPacket2"
    "hs_input_buffer h' = rest" "answers mac (hs_peer_type h) p1 p2"
    by (rule loop_p1 [OF mac, of ?h rng acc]) (use h(3) in auto)
  then show ?thesis
    using that loop_p0(3) [OF h(1,2)] by simp
qed

text \<open>
  C17 (liveness). A client and a server of this library complete the handshake with each other, whatever
  their random bytes and however the transport cuts the streams into reads; each recognises the other's
  digest and signs its packet 2 with it, and bytes sent after the handshake are left over unchanged.
\<close>

theorem handshake_completes:
  assumes "mac_ok mac"
  shows "\<exists>c01 c s012 s c2 dc ds.
    generate_outbound_p0_and_p1 mac rng1 (handshake_new RoleClient) = (Inr c01, c)
    \<and> (\<forall>reads. reads \<noteq> [] \<and> concat reads = c01 \<longrightarrow>
         process_reads mac rng2 (handshake_new RoleServer) [] reads = (Inr (InProgress s012), s))
    \<and> (\<forall>reads later. reads \<noteq> [] \<and> concat reads = s012 @ later \<longrightarrow>
         fst (process_reads mac rng1 c [] reads) = Inr (Completed c2 later))
    \<and> (\<forall>reads later. reads \<noteq> [] \<and> concat reads = c2 @ later \<longrightarrow>
         fst (process_reads mac rng2 s [] reads) = Inr (Completed [] later))
    \<and> get_digest_for_received_packet mac (tl c01) (p1_key RoleServer) = Inr dc
    \<and> get_digest_for_received_packet mac (take 1536 (tl s012)) (p1_key RoleClient) = Inr ds
    \<and> drop (1504 + 1537) s012 = mac (take 1504 (drop 1537 s012)) (mac dc (p2_key RoleServer))
    \<and> drop 1504 c2 = mac (take 1504 c2) (mac ds (p2_key RoleClient))"
proof -
  obtain p1 c where c: "generate_outbound_p0_and_p1 mac rng1 (handshake_new RoleClient) = (Inr (3 # p1), c)"
    "hs_stage c = WaitingForPacket0" "hs_input_buffer c = []" "hs_peer_type c = RoleClient" "length p1 = 1536"
    "\<exists>d. get_digest_for_received_packet mac p1 (p1_key RoleServer) = Inr d"
    using generate_new [OF assms, of rng1 RoleClient] by (metis opposite.simps(2))
  obtain q1 h where h: "hs_stage h = WaitingForPacket0" "hs_input_buffer h = []" "hs_peer_type h = RoleServer" "length q1 = 1536"
    "\<exists>d. get_digest_for_received_packet mac q1 (p1_key RoleClient) = Inr d"
    "\<And>data. process_bytes mac rng2 (handshake_new RoleServer) data = hs_loop mac rng2 (feed h data) (3 # q1) []"
    using generate_new [OF assms, of rng2 RoleServer] by (metis opposite.simps(1))
  obtain q2 s where s: "hs_loop mac rng2 (feed h (3 # p1)) (3 # q1) [] = hs_loop mac rng2 s (3 # q1 @ q2) []"
    "hs_stage s = WaitingForPacket2" "hs_input_buffer s = []" "answers mac RoleServer p1 q2"
    by (rule loop_p0_p1 [OF assms, of "feed h (3 # p1)" p1 "[]" rng2 "3 # q1"]) (use h c in auto)
  have server: "process_reads mac rng2 (handshake_new RoleServer) [] reads = (Inr (InProgress (3 # q1 @ q2)), s)"
    if "reads \<noteq> []" "concat reads = 3 # p1" for reads
    using that h(6) [of "3 # p1"] s(1) loop_p2 [OF s(2), of mac rng2 "3 # q1 @ q2"] s(3)
    by (intro reads_fst(2)) (simp_all add: process_feed prod_eq_iff)
  obtain p2 c' where c': "hs_loop mac rng1 (feed c (3 # q1)) [] [] = hs_loop mac rng1 c' p2 []"
    "hs_stage c' = WaitingForPacket2" "hs_input_buffer c' = []" "answers mac RoleClient q1 p2"
    by (rule loop_p0_p1 [OF assms, of "feed c (3 # q1)" q1 "[]" rng1 "[]"]) (use h c in auto)
  have c1: "hs_loop mac rng1 (feed c (3 # q1)) [] [] = (Inr (InProgress p2), c')"
    using loop_p2 [OF c'(2), of mac rng1 p2] c'(1,3) by (simp add: prod_eq_iff)
  have len: "length q2 = 1536" "length p2 = 1536"
    using s(4) c'(4) by (simp_all add: answers_def)
  have client: "fst (process_reads mac rng1 c [] reads) = Inr (Completed p2 later)"
    if "reads \<noteq> []" "concat reads = (3 # q1 @ q2) @ later" for reads later
    using that c(2) loop_feed [of "feed c (3 # q1)" mac rng1 "q2 @ later" "[]"] c1 loop_p2(1) [of "feed c' (q2 @ later)" mac rng1 p2] c'(2,3) len
    by (simp add: reads_fst(1))
  have last: "fst (process_reads mac rng2 s [] reads) = Inr (Completed [] later)"
    if "reads \<noteq> []" "concat reads = p2 @ later" for reads later
    using that loop_p2(1) [of "feed s (p2 @ later)" mac rng2 "[]"] s(2,3) len by (simp add: reads_fst(1))
  obtain dc ds where d: "get_digest_for_received_packet mac p1 (p1_key RoleServer) = Inr dc"
    "get_digest_for_received_packet mac q1 (p1_key RoleClient) = Inr ds"
    using c(6) h(5) by blast
  then have "drop 1504 q2 = mac (take 1504 q2) (mac dc (p2_key RoleServer))"
    "drop 1504 p2 = mac (take 1504 p2) (mac ds (p2_key RoleClient))"
    using s(4) c'(4) by (simp_all add: answers_def)
  then show ?thesis
    using c(1) server client last d h(4)
    by (intro exI [of _ "3 # p1"] exI [of _ c] exI [of _ "3 # q1 @ q2"] exI [of _ s] exI [of _ p2] exI [of _ dc] exI [of _ ds]) simp
qed


theorem handshake_completes_witness:
  "\<exists>c01 c s012 s. generate_outbound_p0_and_p1 (\<lambda>_ _. replicate 32 0) (\<lambda>_. 1) (handshake_new RoleClient) = (Inr c01, c)
    \<and> process_reads (\<lambda>_ _. replicate 32 0) (\<lambda>_. 2) (handshake_new RoleServer) [] [c01] = (Inr (InProgress s012), s)"
proof -
  have "mac_ok (\<lambda>_ _. replicate 32 0)"
    by (simp add: mac_ok_def)
  from handshake_completes [OF this, of "\<lambda>_. 1" "\<lambda>_. 2"] show ?thesis
  proof (elim exE conjE)
    fix c01 c s012 s
    assume "generate_outbound_p0_and_p1 (\<lambda>_ _. replicate 32 0) (\<lambda>_. 1) (handshake_new RoleClient) = (Inr c01, c)"
      and "\<forall>reads. reads \<noteq> [] \<and> concat reads = c01 \<longrightarrow>
        process_reads (\<lambda>_ _. replicate 32 0) (\<lambda>_. 2) (handshake_new RoleServer) [] reads = (Inr (InProgress s012), s)"
    then show ?thesis
      by (metis concat.simps list.distinct(1) append_Nil2)
  qed
qed

end
