(* ===== verification/Rtmp_Messages.thy ===== *)
theory Rtmp_Messages
  imports Control_Messages
begin

text \<open>
  Interpreting and building messages: the AMF bodies of \<open>src/src/messages/types/\<close> (commands and data in
  both encodings), \<open>RawMessage::to_rtmp_message\<close> and \<open>RawMessage::from_rtmp_message\<close> of
  \<open>src/src/messages/raw_message.rs\<close>, and \<open>AmfEncoding\<close> with the status objects of \<open>src/src/amf/mod.rs\<close>.
  Insertion into a property map (\<open>ins\<close>) and the memory sizes of the AMF values (\<open>sizes\<close>) are parameters,
  as for the codecs.
\<close>

type_synonym message = "(amf0_value, amf3_value) rtmp_message"

section \<open>Encodings\<close>

text \<open>\<open>3.0\<close> as the bits of a double; every double equal to \<open>3.0\<close> has these bits.\<close>

definition from_object_encoding :: "f64 \<Rightarrow> amf_encoding" where
  "from_object_encoding v = (if v = f64_of_int 3 then Amf3 else Amf0)"

definition as_object_encoding :: "amf_encoding \<Rightarrow> f64" where
  "as_object_encoding e = (case e of Amf0 \<Rightarrow> f64_of_int 0 | Amf3 \<Rightarrow> f64_of_int 3)"

definition negotiate :: "amf_encoding \<Rightarrow> amf_encoding \<Rightarrow> amf_encoding" where
  "negotiate requested supported = (if requested = Amf3 \<and> supported = Amf3 then Amf3 else Amf0)"

definition is_amf3 :: "amf_encoding \<Rightarrow> bool" where
  "is_amf3 e \<longleftrightarrow> e = Amf3"

definition map_error :: "('e \<Rightarrow> 'f) \<Rightarrow> 'e + 'a \<Rightarrow> 'f + 'a" where
  "map_error f r = (case r of Inl e \<Rightarrow> Inl (f e) | Inr a \<Rightarrow> Inr a)"

lemma map_error_simps [simp]: "map_error f (Inl e) = Inl (f e)" "map_error f (Inr a) = Inr a"
  by (simp_all add: map_error_def)

lemma map_error_Inr_iff [simp]: "map_error f r = Inr a \<longleftrightarrow> r = Inr a"
  by (cases r) simp_all

lemma map_error_Inl_iff: "map_error f r = Inl x \<longleftrightarrow> (\<exists>e. r = Inl e \<and> x = f e)"
  by (cases r) auto

section \<open>AMF0 bodies\<close>

definition amf0_command_serialize ::
    "bytes \<Rightarrow> f64 \<Rightarrow> amf0_value \<Rightarrow> amf0_value list \<Rightarrow> message_serialization_error + bytes" where
  "amf0_command_serialize command_name transaction_id command_object additional_arguments =
     map_error Amf0SerializationError
       (amf0_serialize ([A0Utf8String command_name, A0Number transaction_id, command_object] @ additional_arguments))"

fun unwrap_avmplus :: "amf0_insert \<Rightarrow> amf0_value \<Rightarrow> amf0_value" where
  "unwrap_avmplus ins (A0AvmPlus inner) = to_amf0 ins inner"
| "unwrap_avmplus ins plain = plain"

text \<open>\<open>Vec::remove(0)\<close> panics on an empty vector.\<close>

fun vec_remove_first :: "'a list \<Rightarrow> message_deserialization_error + 'a \<times> 'a list" where
  "vec_remove_first [] = Inl MessagePanic"
| "vec_remove_first (x # xs) = Inr (x, xs)"

definition amf0_command_deserialize ::
    "amf0_insert \<Rightarrow> amf0_sizes \<Rightarrow> bytes \<Rightarrow> message_deserialization_error + message" where
  "amf0_command_deserialize ins sizes data =
     rbind (map_error Amf0DeserializationError (amf0_deserialize ins sizes data))
       (\<lambda>values.
          let arguments = map (unwrap_avmplus ins) values
          in if length arguments < 3 then Inl InvalidMessageFormat
             else rbind (vec_remove_first arguments) (\<lambda>(v, arguments).
               rbind (case v of A0Utf8String name \<Rightarrow> Inr name | _ \<Rightarrow> Inl InvalidMessageFormat) (\<lambda>command_name.
               rbind (vec_remove_first arguments) (\<lambda>(v, arguments).
               rbind (case v of A0Number tid \<Rightarrow> Inr tid | _ \<Rightarrow> Inl InvalidMessageFormat) (\<lambda>transaction_id.
               rbind (vec_remove_first arguments) (\<lambda>(command_object, arguments).
               Inr (Amf0Command command_name transaction_id command_object arguments)))))))"

definition amf0_data_serialize :: "amf0_value list \<Rightarrow> message_serialization_error + bytes" where
  "amf0_data_serialize values = map_error Amf0SerializationError (amf0_serialize values)"

definition amf0_data_deserialize ::
    "amf0_insert \<Rightarrow> amf0_sizes \<Rightarrow> bytes \<Rightarrow> message_deserialization_error + message" where
  "amf0_data_deserialize ins sizes data =
     rbind (map_error Amf0DeserializationError (amf0_deserialize ins sizes data)) (\<lambda>values. Inr (Amf0Data values))"

section \<open>AMF3 bodies\<close>

definition FORMAT_SELECTOR_AMF0 :: u8 where
  "FORMAT_SELECTOR_AMF0 = 0x00"

definition FORMAT_SELECTOR_AMF3 :: u8 where
  "FORMAT_SELECTOR_AMF3 = 0x03"

definition encode_body ::
    "amf0_insert \<Rightarrow> amf3_value list \<Rightarrow> amf_encoding \<Rightarrow> message_serialization_error + bytes" where
  "encode_body ins values format =
     (case format of
        Amf0 \<Rightarrow>
          (case amf0_serialize_into (map (to_amf0 ins) values) [FORMAT_SELECTOR_AMF0] of
             (payload, Inr _) \<Rightarrow> Inr payload
           | (_, Inl e) \<Rightarrow> Inl (Amf0SerializationError e))
      | Amf3 \<Rightarrow>
          (case amf3_serialize_into values [FORMAT_SELECTOR_AMF3] of
             (payload, Inr _) \<Rightarrow> Inr payload
           | (_, Inl e) \<Rightarrow> Inl (Amf3SerializationError e)))"

definition decode_body ::
    "amf0_insert \<Rightarrow> amf0_sizes \<Rightarrow> bytes \<Rightarrow> message_deserialization_error + amf3_value list \<times> amf_encoding" where
  "decode_body ins sizes data =
     (case data of
        [] \<Rightarrow> Inl InvalidMessageFormat
      | selector # rest \<Rightarrow>
          if selector = FORMAT_SELECTOR_AMF0 then
            rbind (map_error Amf0DeserializationError (amf0_deserialize ins sizes rest))
              (\<lambda>values. Inr (map to_amf3 values, Amf0))
          else if selector = FORMAT_SELECTOR_AMF3 then
            rbind (map_error Amf3DeserializationError (amf3_deserialize (size_nested sizes) rest))
              (\<lambda>values. Inr (values, Amf3))
          else Inl (Amf3DeserializationError (A3BadFormatSelector selector)))"

definition amf3_command_serialize ::
    "amf0_insert \<Rightarrow> bytes \<Rightarrow> f64 \<Rightarrow> amf3_value \<Rightarrow> amf3_value list \<Rightarrow> amf_encoding \<Rightarrow>
     message_serialization_error + bytes" where
  "amf3_command_serialize ins command_name transaction_id command_object additional_arguments format =
     encode_body ins
       ([A3String command_name, to_amf3 (A0Number transaction_id), command_object] @ additional_arguments) format"

definition amf3_command_deserialize ::
    "amf0_insert \<Rightarrow> amf0_sizes \<Rightarrow> bytes \<Rightarrow> message_deserialization_error + message" where
  "amf3_command_deserialize ins sizes data =
     rbind (decode_body ins sizes data)
       (\<lambda>(arguments, format).
          if length arguments < 3 then Inl (Amf3DeserializationError (A3TooFewValues (length arguments) 3))
          else rbind (vec_remove_first arguments) (\<lambda>(v, arguments).
            rbind (case v of A3String name \<Rightarrow> Inr name | _ \<Rightarrow> Inl (Amf3DeserializationError A3BadCommandName))
              (\<lambda>command_name.
            rbind (vec_remove_first arguments) (\<lambda>(v, arguments).
            rbind (case v of A3Integer n \<Rightarrow> Inr (f64_of_int (sint n)) | A3Double d \<Rightarrow> Inr d
                   | _ \<Rightarrow> Inl (Amf3DeserializationError A3BadTransactionId)) (\<lambda>transaction_id.
            rbind (vec_remove_first arguments) (\<lambda>(command_object, arguments).
            Inr (Amf3Command command_name transaction_id command_object arguments format)))))))"

definition amf3_data_serialize ::
    "amf0_insert \<Rightarrow> amf3_value list \<Rightarrow> amf_encoding \<Rightarrow> message_serialization_error + bytes" where
  "amf3_data_serialize ins values format = encode_body ins values format"

definition amf3_data_deserialize ::
    "amf0_insert \<Rightarrow> amf0_sizes \<Rightarrow> bytes \<Rightarrow> message_deserialization_error + message" where
  "amf3_data_deserialize ins sizes data =
     rbind (decode_body ins sizes data) (\<lambda>(values, format). Inr (Amf3Data values format))"

section \<open>Raw messages\<close>

text \<open>Type 18 is AMF0; a body that is not is tried as bare AMF3 before it is refused.\<close>

definition deserialize_data_tolerant ::
    "amf0_insert \<Rightarrow> amf0_sizes \<Rightarrow> bytes \<Rightarrow> message_deserialization_error + message" where
  "deserialize_data_tolerant ins sizes data =
     (case amf0_data_deserialize ins sizes data of
        Inr message \<Rightarrow> Inr message
      | Inl first \<Rightarrow>
          (case amf3_deserialize (size_nested sizes) data of
             Inr values \<Rightarrow> Inr (Amf3Data values Amf3)
           | Inl _ \<Rightarrow> Inl first))"

definition to_rtmp_message ::
    "amf0_insert \<Rightarrow> amf0_sizes \<Rightarrow> bytes raw_message \<Rightarrow> message_deserialization_error + message" where
  "to_rtmp_message ins sizes raw =
     (let t = rm_type_id raw; data = rm_data raw in
      if t = 1 then set_chunk_size_deserialize data
      else if t = 2 then abort_deserialize data
      else if t = 3 then acknowledgement_deserialize data
      else if t = 4 then user_control_deserialize data
      else if t = 5 then window_acknowledgement_size_deserialize data
      else if t = 6 then set_peer_bandwidth_deserialize data
      else if t = 8 then Inr (AudioData data)
      else if t = 9 then Inr (VideoData data)
      else if t = 15 then amf3_data_deserialize ins sizes data
      else if t = 16 then Inr (Amf3SharedObject data)
      else if t = 17 then amf3_command_deserialize ins sizes data
      else if t = 18 then deserialize_data_tolerant ins sizes data
      else if t = 19 then Inr (Amf0SharedObject data)
      else if t = 20 then amf0_command_deserialize ins sizes data
      else Inr (Unknown t data))"

fun message_body :: "amf0_insert \<Rightarrow> message \<Rightarrow> message_serialization_error + bytes" where
  "message_body ins (Unknown type_id data) = Inr data"
| "message_body ins (Abort stream_id) = Inr (abort_serialize stream_id)"
| "message_body ins (Acknowledgement n) = Inr (acknowledgement_serialize n)"
| "message_body ins (Amf0Command name tid obj args) = amf0_command_serialize name tid obj args"
| "message_body ins (Amf0Data values) = amf0_data_serialize values"
| "message_body ins (Amf3Command name tid obj args format) = amf3_command_serialize ins name tid obj args format"
| "message_body ins (Amf3Data values format) = amf3_data_serialize ins values format"
| "message_body ins (Amf0SharedObject data) = Inr data"
| "message_body ins (Amf3SharedObject data) = Inr data"
| "message_body ins (AudioData data) = Inr data"
| "message_body ins (SetChunkSize n) = set_chunk_size_serialize n"
| "message_body ins (SetPeerBandwidth n limit_type) = Inr (set_peer_bandwidth_serialize limit_type n)"
| "message_body ins (UserControl event_type stream_id buffer_length timestamp) =
     Inr (user_control_serialize event_type stream_id buffer_length timestamp)"
| "message_body ins (VideoData data) = Inr data"
| "message_body ins (WindowAcknowledgement n) = Inr (window_acknowledgement_size_serialize n)"

definition from_rtmp_message ::
    "amf0_insert \<Rightarrow> message \<Rightarrow> rtmp_timestamp \<Rightarrow> u32 \<Rightarrow> message_serialization_error + bytes raw_message" where
  "from_rtmp_message ins m timestamp message_stream_id =
     rbind (message_body ins m)
       (\<lambda>data. Inr \<lparr>rm_timestamp = timestamp, rm_type_id = get_message_type_id m,
                    rm_message_stream_id = message_stream_id, rm_data = data\<rparr>)"

section \<open>Status objects\<close>

definition status_object :: "amf0_insert \<Rightarrow> bytes \<Rightarrow> bytes \<Rightarrow> bytes \<Rightarrow> amf0_value" where
  "status_object ins level code description =
     A0Object (insert_all ins
       [(ascii ''level'', A0Utf8String level), (ascii ''code'', A0Utf8String code),
        (ascii ''description'', A0Utf8String description)])"

end
