(* ===== verification/Amf0_Tree.thy ===== *)
theory Amf0_Tree
  imports Amf0 Amf3_Tree
begin

text \<open>
  AMF0 values as graph nodes: replacing the children of a value, the unfolding of embedded AMF3 values,
  the interpretation of the graph interface on the model's operations, and what the expansion of a
  document (\<open>Amf0Document::to_tree\<close>) returns.
\<close>

fun amf0_replace :: "amf0_value \<Rightarrow> amf0_value list \<Rightarrow> amf0_value" where
  "amf0_replace (A0Object p) cs = A0Object (zip (map fst p) cs)"
| "amf0_replace (A0TypedObject class_name p) cs = A0TypedObject class_name (zip (map fst p) cs)"
| "amf0_replace (A0StrictArray vs) cs = A0StrictArray cs"
| "amf0_replace v cs = v"

fun amf0_emb :: "amf0_sizes \<Rightarrow> nat \<Rightarrow> amf3_value list \<Rightarrow> amf0_value \<Rightarrow> amf0_value costed option" where
  "amf0_emb sizes k embedded (A0AvmPlus x) =
     map_option (\<lambda>(t, n, h). (A0AvmPlus t, n, h)) (amf3_unfold (size_nested sizes) k embedded x)"
| "amf0_emb sizes k embedded v = Some (v, 0, 0)"

lemma amf0_graph_simps [simp]:
  "gv_reference (amf0_graph sizes) = amf0_reference" "gv_children (amf0_graph sizes) = amf0_children"
  "gv_heap_bytes (amf0_graph sizes) = amf0_heap_bytes sizes" "gv_children_mut (amf0_graph sizes) = amf0_children_mut"
  "gv_check_embedded (amf0_graph sizes) = amf0_check_embedded sizes"
  "gv_install_embedded (amf0_graph sizes) = amf0_install_embedded sizes"
  by (simp_all add: amf0_graph_def)

lemma amf0_children_mut_eq: "amf0_children_mut f v = map_option (amf0_replace v) (traverse f (amf0_children v))"
proof (cases v)
  case (A0Object p)
  then show ?thesis
    by (cases "traverse f (map snd p)") (simp_all add: traverse_snd_eq)
next
  case (A0TypedObject cn p)
  then show ?thesis
    by (cases "traverse f (map snd p)") (simp_all add: traverse_snd_eq)
next
  case (A0StrictArray vs)
  then show ?thesis
    by (cases "traverse f vs") simp_all
qed simp_all

lemma amf0_map_bytes_zip [simp]:
  "length cs = length p \<Longrightarrow> amf0_map_bytes sizes (zip (map fst p) cs) = amf0_map_bytes sizes p"
proof -
  assume "length cs = length p"
  then have "map (\<lambda>(k, _). length k) (zip (map fst p) cs) = map (\<lambda>(k, _). length k) p"
    by (induction cs p rule: list_induct2) auto
  with \<open>length cs = length p\<close> show ?thesis
    by (simp add: amf0_map_bytes_def)
qed

lemma amf0_complex_simps: "is_complex v \<Longrightarrow> amf0_reference v = None" "is_complex v \<Longrightarrow> amf0_emb sizes k embedded v = Some (v, 0, 0)"
  by (cases v; simp)+

lemma amf0_emb_children:
  "amf0_emb sizes k embedded v = Some (v', n, h) \<Longrightarrow> amf0_children v' = amf0_children v"
  by (cases v) auto

interpretation a0: graph_shape "amf0_graph sizes" amf0_replace "amf0_emb sizes" is_complex
  for sizes :: amf0_sizes
proof unfold_locales
  fix f v
  show "gv_children_mut (amf0_graph sizes) f v = map_option (amf0_replace v) (traverse f (gv_children (amf0_graph sizes) v))"
    by (simp add: amf0_children_mut_eq)
next
  fix k embedded v v' n h
  assume "amf0_emb sizes k embedded v = Some (v', n, h)"
  then show "gv_install_embedded (amf0_graph sizes) k embedded v = Some v'
      \<and> gv_children (amf0_graph sizes) v' = gv_children (amf0_graph sizes) v"
    by (cases v) (auto dest: a3.install_unfold)
next
  fix k embedded v r
  assume "amf0_emb sizes k embedded v = Some r"
  then show "amf0_emb sizes (Suc k) embedded v = Some r"
    by (cases v) (auto dest: a3.unfold_Suc)
next
  fix depth maxd v embedded b b'
  assume "depth \<le> maxd" "gv_check_embedded (amf0_graph sizes) embedded maxd depth v b = Inr b'"
  then show "\<exists>v' n h. amf0_emb sizes (maxd - depth) embedded v = Some (v', n, h) \<and> fst b = fst b' + n \<and> snd b = snd b' + h"
    by (cases v) (auto dest!: a3.validate_sound [of maxd "Suc depth" "maxd - depth", rotated])
next
  fix depth maxd v embedded v' n h b
  assume *: "depth \<le> maxd" "amf0_emb sizes (maxd - depth) embedded v = Some (v', n, h)" "n \<le> fst b" "h \<le> snd b"
  show "gv_check_embedded (amf0_graph sizes) embedded maxd depth v b = Inr (fst b - n, snd b - h)"
    using *
    by (cases v) (auto intro!: a3.validate_complete [of maxd "Suc depth" "maxd - depth"] simp: a3.path_above_def)
next
  fix v :: amf0_value and cs :: "amf0_value list"
  assume "length cs = length (gv_children (amf0_graph sizes) v)"
  then show "amf0_replace (amf0_replace v cs) ds = amf0_replace v ds" for ds
    by (cases v) simp_all
next
  fix v :: amf0_value and cs :: "amf0_value list"
  assume "length cs = length (gv_children (amf0_graph sizes) v)"
  then show "gv_heap_bytes (amf0_graph sizes) (amf0_replace v cs) = gv_heap_bytes (amf0_graph sizes) v"
    by (cases v) simp_all
next
  fix v
  show "amf0_replace v (gv_children (amf0_graph sizes) v) = v"
    by (cases v) simp_all
next
  fix k v r embedded
  assume "amf0_emb sizes k [] v = Some r"
  then show "amf0_emb sizes k embedded v = Some r"
    by (cases v) (auto dest: a3.unfold_closed)
next
  fix k v v' n h
  assume "amf0_emb sizes k [] v = Some (v', n, h)"
  then show "v' = v"
    by (cases v) (auto dest: a3.unfold_closed_self)
qed (auto simp: amf0_complex_simps)

section \<open>Expansion\<close>

abbreviation amf0_unfold ::
    "amf0_sizes \<Rightarrow> nat \<Rightarrow> amf0_value list \<Rightarrow> amf3_value list \<Rightarrow> amf0_value \<Rightarrow> amf0_value costed option" where
  "amf0_unfold sizes k objects embedded v \<equiv> unfold_tree k (amf0_graph sizes) amf0_replace (amf0_emb sizes) objects embedded v"

text \<open>
  C21 (refinement). Expanding an AMF0 document, embedded AMF3 objects included, always returns, and it
  succeeds exactly when every root unfolds to a tree within the depth limit whose nodes and bytes, those of
  embedded values included, together stay within the budget; the result is that list of trees.
\<close>

theorem amf0_to_tree_correct:
  "amf0_to_tree sizes d limits \<noteq> None
   \<and> (amf0_to_tree sizes d limits = Some (Inr ts) \<longleftrightarrow>
        (\<exists>rs. traverse (amf0_unfold sizes (Suc (maximum_depth limits)) (doc_objects (zd_values d)) (zd_embedded d))
            (doc_roots (zd_values d)) = Some rs
          \<and> ts = map fst rs \<and> total_nodes rs \<le> maximum_nodes limits \<and> total_bytes rs \<le> maximum_bytes limits))"
  unfolding amf0_to_tree_def using a0.expand_total a0.expand_iff by blast

end
