(* ===== verification/Amf0_Codes.thy ===== *)
theory Amf0_Codes
  imports Amf0_Tree Amf3_Roundtrip
begin

text \<open>
  The simulation between the AMF0 encoder and decoder, in the same way as for AMF3: \<open>in_step0\<close> relates
  their states, \<open>codes0\<close> says that what a writer appends a reader takes back with a result in a given
  relation. The embedded AMF3 values are copied, object by object, into the second arena of the decoder.
\<close>

section \<open>Moving a copy\<close>

lemma pair_up_map: "pair_up (concat (map (\<lambda>x. [f (fst x), f (snd x)]) es)) = map (\<lambda>x. (f (fst x), f (snd x))) es"
  by (induction es) auto

lemma relocate_eq: "amf3_reference v = None \<Longrightarrow> relocate base v = amf3_replace v (map (relocate base) (amf3_children v))"
  by (cases v) (auto simp: zip_map2 split_beta map_option_case map_concat o_def pair_up_map split: option.splits
      intro!: nth_equalityI)

abbreviation copy3 :: "amf3_sizes \<Rightarrow> (object_id \<Rightarrow> object_id option) \<Rightarrow> amf3_value list \<Rightarrow> amf3_value \<Rightarrow> amf3_value \<Rightarrow> bool" where
  "copy3 sizes \<equiv> copy_of (amf3_graph sizes) amf3_replace amf3_complex amf3_leaf"

abbreviation node3 :: "amf3_sizes \<Rightarrow> (object_id \<Rightarrow> object_id option) \<Rightarrow> amf3_value list \<Rightarrow> amf3_value \<Rightarrow> amf3_value \<Rightarrow> bool" where
  "node3 sizes \<equiv> node_copy (amf3_graph sizes) amf3_replace amf3_complex amf3_leaf"

definition shift :: "nat \<Rightarrow> (object_id \<Rightarrow> object_id option) \<Rightarrow> object_id \<Rightarrow> object_id option" where
  "shift base refs i = map_option (\<lambda>n. n + base) (refs i)"

lemma relocate_leaf: "amf3_leaf v a \<Longrightarrow> relocate base a = a"
proof -
  assume "amf3_leaf v a"
  then have v: "amf3_reference a = None" "\<forall>c\<in>set (amf3_children a). amf3_reference c = None \<and> amf3_children c = []"
    by (auto simp: amf3_leaf_def list_all_iff)
  then have "map (relocate base) (amf3_children a) = amf3_children a"
    by (intro map_idI) (metis relocate_eq amf3_replace_self list.simps(8))
  then show ?thesis
    using relocate_eq [OF v(1), of base] amf3_replace_self [of a] by simp
qed

lemma relocated_shape:
  assumes "w = amf3_replace v (amf3_children w)" "amf3_complex w" "length (amf3_children w) = length (amf3_children v)"
  shows "relocate base w = amf3_replace v (amf3_children (relocate base w))"
proof -
  have "relocate base w = amf3_replace w (map (relocate base) (amf3_children w))"
    using assms(2) by (intro relocate_eq amf3_complex_not_reference)
  also have "\<dots> = amf3_replace (amf3_replace v (amf3_children w)) (map (relocate base) (amf3_children w))"
    using assms(1) by metis
  also have "\<dots> = amf3_replace v (map (relocate base) (amf3_children w))"
    using assms(3) by (rule amf3_replace_replace)
  finally show ?thesis
    unfolding relocate_children .
qed

lemma copy_relocate:
  assumes "copy3 sizes refs objs v a"
  shows "copy3 sizes (shift (length pre) refs) (pre @ map (relocate (length pre)) objs) v (relocate (length pre) a)"
  using assms
proof induction
  case (copy_ref v i n a)
  then show ?case
    by (intro copy_of.copy_ref [of _ _ i _ "n + length pre"]) (simp_all add: shift_def relocate_reference)
next
  case (copy_leaf v a)
  then show ?case
    using relocate_leaf [OF copy_leaf, of "length pre"] by (intro copy_of.copy_leaf) simp
next
  case (copy_node v a n)
  let ?objs = "pre @ map (relocate (length pre)) objs"
  have w: "?objs ! (n + length pre) = relocate (length pre) (objs ! n)"
    using copy_node(3) by (simp add: nth_append)
  have len: "length (amf3_children (objs ! n)) = length (amf3_children v)"
    using copy_node(6) by (simp add: list_all2_lengthD)
  show ?case
  proof (rule copy_of.copy_node [of _ _ _ _ "n + length pre"])
    show "?objs ! (n + length pre) = amf3_replace v (gv_children (amf3_graph sizes) (?objs ! (n + length pre)))"
      unfolding w using relocated_shape [of "objs ! n" v "length pre"] copy_node(4,5) len by simp
    show "list_all2 (copy3 sizes (shift (length pre) refs) ?objs) (gv_children (amf3_graph sizes) v)
        (gv_children (amf3_graph sizes) (?objs ! (n + length pre)))"
      using copy_node(6) unfolding w by (auto simp: relocate_children list_all2_map2 elim: list_all2_mono)
  qed (use copy_node in \<open>simp_all add: w relocate_reference amf3_complex_def relocate_marker\<close>)
qed

lemma node_relocate:
  assumes "node3 sizes refs objs v w"
  shows "node3 sizes (shift (length pre) refs) (pre @ map (relocate (length pre)) objs) v (relocate (length pre) w)"
proof -
  have len: "length (amf3_children w) = length (amf3_children v)"
    using assms by (auto simp: node_copy_def dest: list_all2_lengthD)
  have w: "amf3_complex v" "amf3_complex w" "w = amf3_replace v (amf3_children w)"
    "list_all2 (copy3 sizes refs objs) (amf3_children v) (amf3_children w)"
    using assms by (simp_all add: node_copy_def)
  show ?thesis
    unfolding node_copy_def amf3_graph_simps
  proof (intro conjI)
    show "amf3_complex (relocate (length pre) w)"
      using w(2) by (simp add: amf3_complex_def relocate_marker)
    show "relocate (length pre) w = amf3_replace v (amf3_children (relocate (length pre) w))"
      by (rule relocated_shape [OF w(3,2) len])
    show "list_all2 (copy3 sizes (shift (length pre) refs) (pre @ map (relocate (length pre)) objs)) (amf3_children v)
        (amf3_children (relocate (length pre) w))"
      using w(4) by (auto simp: relocate_children list_all2_map2 elim: list_all2_mono intro: copy_relocate)
  qed (rule w(1))
qed

text \<open>A value embedded in an AMF0 document and its copy, with the AMF3 arenas of both documents.\<close>

definition embedded_copy :: "amf3_sizes \<Rightarrow> amf3_value list \<Rightarrow> amf3_value list \<Rightarrow> amf3_value \<Rightarrow> amf3_value \<Rightarrow> bool" where
  "embedded_copy sizes emb emb' x y \<longleftrightarrow>
     (\<exists>refs. copy3 sizes refs emb' x y \<and> inj_on refs (dom refs)
        \<and> (\<forall>i n. refs i = Some n \<longrightarrow> i < length emb \<and> n < length emb' \<and> node3 sizes refs emb' (emb ! i) (emb' ! n)))"

lemma embedded_copy_relocate:
  assumes "embedded_copy sizes emb objs x y"
  shows "embedded_copy sizes emb (pre @ map (relocate (length pre)) objs) x (relocate (length pre) y)"
proof -
  let ?objs = "pre @ map (relocate (length pre)) objs"
  obtain refs where r: "copy3 sizes refs objs x y" "inj_on refs (dom refs)"
    "\<And>i n. refs i = Some n \<Longrightarrow> i < length emb \<and> n < length objs \<and> node3 sizes refs objs (emb ! i) (objs ! n)"
    using assms unfolding embedded_copy_def by blast
  have "inj_on (shift (length pre) refs) (dom (shift (length pre) refs))"
    using r(2) by (auto simp: inj_on_def dom_def shift_def)
  moreover have "i < length emb \<and> n < length ?objs \<and> node3 sizes (shift (length pre) refs) ?objs (emb ! i) (?objs ! n)"
    if sh: "shift (length pre) refs i = Some n" for i n
  proof -
    obtain k where k: "refs i = Some k" "n = k + length pre"
      using sh by (auto simp: shift_def)
    have "?objs ! n = relocate (length pre) (objs ! k)"
      using r(3) [OF k(1)] by (simp add: k(2) nth_append)
    then show ?thesis
      using r(3) [OF k(1)] node_relocate [of sizes refs objs "emb ! i" "objs ! k" pre] by (simp add: k(2))
  qed
  ultimately show ?thesis
    unfolding embedded_copy_def using copy_relocate [OF r(1), of pre] by blast
qed

lemma embedded_copy_append:
  assumes "embedded_copy sizes emb objs x y"
  shows "embedded_copy sizes emb (objs @ news) x y"
proof -
  obtain refs where r: "copy3 sizes refs objs x y" "inj_on refs (dom refs)"
    "\<And>i n. refs i = Some n \<Longrightarrow> i < length emb \<and> n < length objs \<and> node3 sizes refs objs (emb ! i) (objs ! n)"
    using assms unfolding embedded_copy_def by blast
  have "copy3 sizes refs (objs @ news) x y"
    by (rule copy_of_mono [OF r(1)]) auto
  moreover have "node3 sizes refs (objs @ news) (emb ! i) ((objs @ news) ! n)" if "refs i = Some n" for i n
    using r(3) [OF that] node_copy_mono [of _ _ _ _ refs objs "emb ! i" "objs ! n" refs "objs @ news"]
    by (auto simp: nth_append)
  ultimately show ?thesis
    unfolding embedded_copy_def using r(2,3) by (intro exI [of _ refs]) (auto intro: trans_less_add1)
qed


section \<open>Copies of AMF0 values\<close>

definition amf0_leaf :: "amf3_sizes \<Rightarrow> amf3_value list \<Rightarrow> amf3_value list \<Rightarrow> amf0_value \<Rightarrow> amf0_value \<Rightarrow> bool" where
  "amf0_leaf sizes emb emb' v a \<longleftrightarrow>
     (case v of
        A0AvmPlus x \<Rightarrow> (\<exists>y. a = A0AvmPlus y \<and> embedded_copy sizes emb emb' x y)
      | _ \<Rightarrow> a = v \<and> amf0_reference v = None \<and> \<not> is_complex v)"

lemma amf0_leaf_append: "amf0_leaf sizes emb emb' v a \<Longrightarrow> amf0_leaf sizes emb (emb' @ news) v a"
  by (auto simp: amf0_leaf_def embedded_copy_append split: amf0_value.splits)

definition refs0_of :: "amf0_encoder \<Rightarrow> object_id \<Rightarrow> object_id option" where
  "refs0_of e i = map_option unat (hm_get (oe_refs e) i)"

abbreviation amf0_copy :: "amf0_sizes \<Rightarrow> amf0_encoder \<Rightarrow> amf0_decoder \<Rightarrow> amf0_value \<Rightarrow> amf0_value \<Rightarrow> bool" where
  "amf0_copy sizes e d \<equiv>
     copy_of (amf0_graph sizes) amf0_replace is_complex (amf0_leaf (size_nested sizes) (oe_embedded e) (od_embedded d))
       (refs0_of e) (od_objects d)"

abbreviation amf0_node :: "amf0_sizes \<Rightarrow> amf0_encoder \<Rightarrow> amf0_decoder \<Rightarrow> amf0_value \<Rightarrow> amf0_value \<Rightarrow> bool" where
  "amf0_node sizes e d \<equiv>
     node_copy (amf0_graph sizes) amf0_replace is_complex (amf0_leaf (size_nested sizes) (oe_embedded e) (od_embedded d))
       (refs0_of e) (od_objects d)"

text \<open>
  What a value must satisfy to be read back as it is: valid strings of less than \<open>2 ^ 32\<close> bytes, property
  names that are valid, not empty (an empty name would end the object) and, as the keys of a map, distinct,
  and embedded values that AMF3 reads back.
\<close>

definition names_ok :: "amf0_object \<Rightarrow> bool" where
  "names_ok p \<longleftrightarrow> distinct (map fst p) \<and> list_all (\<lambda>(k, _). k \<noteq> [] \<and> utf8_valid k) p"

fun amf0_local :: "amf3_value list \<Rightarrow> amf0_value \<Rightarrow> bool" where
  "amf0_local emb (A0Utf8String s) \<longleftrightarrow> utf8_valid s \<and> length s < 2 ^ 32"
| "amf0_local emb (A0XmlDocument s) \<longleftrightarrow> utf8_valid s \<and> length s < 2 ^ 32"
| "amf0_local emb (A0Object p) \<longleftrightarrow> names_ok p"
| "amf0_local emb (A0TypedObject class_name p) \<longleftrightarrow> utf8_valid class_name \<and> names_ok p"
| "amf0_local emb (A0AvmPlus x) \<longleftrightarrow> amf3_wf x \<and> amf3_tables_fit (document_from_parts [x] emb)"
| "amf0_local emb _ \<longleftrightarrow> True"

function amf0_wf :: "amf3_value list \<Rightarrow> amf0_value \<Rightarrow> bool" where
  "amf0_wf emb v \<longleftrightarrow> amf0_local emb v \<and> list_all (amf0_wf emb) (amf0_children v)"
  by pat_completeness auto
termination
  by (relation "measure (size \<circ> snd)") (auto dest: amf0_children_size)

declare amf0_wf.simps [simp del]

lemma amf0_wfD:
  "amf0_wf emb v \<Longrightarrow> amf0_local emb v" "amf0_wf emb v \<Longrightarrow> c \<in> set (amf0_children v) \<Longrightarrow> amf0_wf emb c"
  by (simp_all add: amf0_wf.simps [of emb v] list_all_iff)

section \<open>States in step\<close>

definition in_step0 :: "amf0_sizes \<Rightarrow> amf3_value list \<Rightarrow> nat set \<Rightarrow> amf0_encoder \<Rightarrow> amf0_decoder \<Rightarrow> bool" where
  "in_step0 sizes emb pending e d \<longleftrightarrow>
     oe_embedded e = emb \<and> oe_next e = length (od_objects d) \<and> list_all (amf0_wf emb) (oe_objects e) \<and> list_all amf3_wf emb
     \<and> inj_on (refs0_of e) (dom (refs0_of e))
     \<and> (\<forall>i n. refs0_of e i = Some n \<longrightarrow> n < length (od_objects d) \<and> i < length (oe_objects e)
          \<and> (n \<in> pending \<or> amf0_node sizes e d (oe_objects e ! i) (od_objects d ! n)))"

text \<open>Both arenas grow by at most one object for every byte.\<close>

definition extends0 :: "nat \<Rightarrow> amf0_encoder \<Rightarrow> amf0_decoder \<Rightarrow> amf0_encoder \<Rightarrow> amf0_decoder \<Rightarrow> bool" where
  "extends0 n e d e' d' \<longleftrightarrow>
     (\<exists>news. od_objects d' = od_objects d @ news \<and> length news \<le> n)
     \<and> (\<exists>news. od_embedded d' = od_embedded d @ news \<and> length news \<le> n)
     \<and> refs0_of e \<subseteq>\<^sub>m refs0_of e' \<and> oe_objects e' = oe_objects e \<and> oe_embedded e' = oe_embedded e
     \<and> (\<forall>i n. refs0_of e' i = Some n \<longrightarrow> refs0_of e i = None \<longrightarrow> length (od_objects d) \<le> n)"

definition fits0 :: "amf0_decoder \<Rightarrow> nat \<Rightarrow> bool" where
  "fits0 d n \<longleftrightarrow> length (od_objects d) + n \<le> MAX_COLLECTION_LEN \<and> length (od_embedded d) + n \<le> MAX_COLLECTION_LEN"

definition codes0 ::
    "amf0_sizes \<Rightarrow> amf3_value list \<Rightarrow> nat set \<Rightarrow> amf0_writer \<Rightarrow> 'a amf0_reader \<Rightarrow> (amf0_encoder \<Rightarrow> amf0_decoder \<Rightarrow> 'a \<Rightarrow> bool) \<Rightarrow> bool" where
  "codes0 sizes emb pending w r Q \<longleftrightarrow>
     (\<forall>e d bs e'. in_step0 sizes emb pending e d \<longrightarrow> w e = Inr (bs, e') \<longrightarrow> fits0 d (length bs) \<longrightarrow>
        (\<exists>a d'. (\<forall>rest. r (bs @ rest, d) = Inr (a, (rest, d'))) \<and> in_step0 sizes emb pending e' d'
           \<and> extends0 (length bs) e d e' d' \<and> Q e' d' a))"

lemma codes0D:
  assumes "codes0 sizes emb pending w r Q" "in_step0 sizes emb pending e d" "w e = Inr (bs, e')" "fits0 d (length bs)"
  obtains a d' where "\<And>rest. r (bs @ rest, d) = Inr (a, (rest, d'))" "in_step0 sizes emb pending e' d'"
    "extends0 (length bs) e d e' d'" "Q e' d' a"
  using assms unfolding codes0_def by blast

lemma extends0_refl [simp]: "extends0 n e d e d"
  by (auto simp: extends0_def)

lemma extends0_trans:
  assumes "extends0 m e d e1 d1" and "extends0 n e1 d1 e2 d2"
  shows "extends0 (m + n) e d e2 d2"
proof -
  have new: "length (od_objects d) \<le> k" if k: "refs0_of e2 i = Some k" "refs0_of e i = None" for i k
  proof (cases "refs0_of e1 i")
    case None
    then have "length (od_objects d1) \<le> k"
      using assms(2) k(1) unfolding extends0_def by blast
    then show ?thesis
      using assms(1) by (auto simp: extends0_def)
  next
    case (Some j)
    then have "j = k"
      using assms(2) k(1) unfolding extends0_def map_le_def by (metis domI option.inject)
    then show ?thesis
      using assms(1) Some k(2) unfolding extends0_def by blast
  qed
  obtain a1 b1 a2 b2 where "od_objects d1 = od_objects d @ a1" "od_embedded d1 = od_embedded d @ b1" "length a1 \<le> m" "length b1 \<le> m"
    "od_objects d2 = od_objects d1 @ a2" "od_embedded d2 = od_embedded d1 @ b2" "length a2 \<le> n" "length b2 \<le> n"
    using assms unfolding extends0_def by blast
  then have "\<exists>news. od_objects d2 = od_objects d @ news \<and> length news \<le> m + n"
    "\<exists>news. od_embedded d2 = od_embedded d @ news \<and> length news \<le> m + n"
    by auto
  then show ?thesis
    using assms map_le_trans new unfolding extends0_def by auto
qed

lemma extends0_le: "extends0 m e d e' d' \<Longrightarrow> m \<le> n \<Longrightarrow> extends0 n e d e' d'"
  unfolding extends0_def by (meson order_trans)

lemma fits0_after: "extends0 m e d e1 d1 \<Longrightarrow> fits0 d (m + n) \<Longrightarrow> fits0 d1 n"
  by (auto simp: extends0_def fits0_def)

lemma amf0_copy_extends:
  assumes "extends0 n e d e' d'" "amf0_copy sizes e d v a"
  shows "amf0_copy sizes e' d' v a"
  using assms(1) by (intro copy_of_mono [OF assms(2)]) (auto simp: extends0_def intro: amf0_leaf_append)

lemma amf0_copies_extends:
  "extends0 n e d e' d' \<Longrightarrow> list_all2 (amf0_copy sizes e d) vs as \<Longrightarrow> list_all2 (amf0_copy sizes e' d') vs as"
  by (erule list_all2_mono) (rule amf0_copy_extends)


section \<open>Combinators\<close>

lemma codes0_pure:
  assumes "\<And>e bs e'. w e = Inr (bs, e') \<Longrightarrow> e' = e \<and> (\<forall>rest d. r (bs @ rest, d) = Inr (a, (rest, d)))"
  shows "codes0 sizes emb pending w r (\<lambda>_ _ x. x = a)"
  unfolding codes0_def
proof (intro allI impI)
  fix e d bs e'
  assume st: "in_step0 sizes emb pending e d" and w: "w e = Inr (bs, e')"
  show "\<exists>x d'. (\<forall>rest. r (bs @ rest, d) = Inr (x, (rest, d'))) \<and> in_step0 sizes emb pending e' d'
      \<and> extends0 (length bs) e d e' d' \<and> x = a"
    using assms [OF w] st by (intro exI [of _ a] exI [of _ d]) simp
qed

lemma codes0_emit:
  "(\<And>rest d. r (bs @ rest, d) = Inr (a, (rest, d))) \<Longrightarrow> codes0 sizes emb pending (emit bs) r (\<lambda>_ _ x. x = a)"
  by (rule codes0_pure) auto

lemma codes0_map:
  assumes "codes0 sizes emb pending w r Q" and "\<And>e d a. Q e d a \<Longrightarrow> Q' e d (f a)"
  shows "codes0 sizes emb pending w (\<lambda>s. rbind (r s) (\<lambda>(a, s1). Inr (f a, s1))) Q'"
  unfolding codes0_def
proof (intro allI impI)
  fix e d bs e'
  assume "in_step0 sizes emb pending e d" and "w e = Inr (bs, e')" and "fits0 d (length bs)"
  from codes0D [OF assms(1) this] obtain a d' where "\<And>rest. r (bs @ rest, d) = Inr (a, (rest, d'))"
    "in_step0 sizes emb pending e' d'" "extends0 (length bs) e d e' d'" "Q e' d' a"
    by blast
  then show "\<exists>a d'. (\<forall>rest. rbind (r (bs @ rest, d)) (\<lambda>(a, s1). Inr (f a, s1)) = Inr (a, (rest, d')))
      \<and> in_step0 sizes emb pending e' d' \<and> extends0 (length bs) e d e' d' \<and> Q' e' d' a"
    using assms(2) by (intro exI [of _ "f a"] exI [of _ d']) simp
qed

lemma codes0_seq:
  assumes w1: "codes0 sizes emb pending w1 r1 Q1" and w2: "codes0 sizes emb pending w2 r2 Q2"
    and mono: "\<And>n e d e' d' a. extends0 n e d e' d' \<Longrightarrow> Q1 e d a \<Longrightarrow> Q1 e' d' a"
  shows "codes0 sizes emb pending (wseq w1 w2)
    (\<lambda>s. rbind (r1 s) (\<lambda>(a, s1). rbind (r2 s1) (\<lambda>(b, s2). Inr ((a, b), s2))))
    (\<lambda>e d (a, b). Q1 e d a \<and> Q2 e d b)"
  unfolding codes0_def
proof (intro allI impI)
  fix e d bs e'
  assume st: "in_step0 sizes emb pending e d" and w: "wseq w1 w2 e = Inr (bs, e')" and fit: "fits0 d (length bs)"
  obtain b1 e1 b2 where b: "w1 e = Inr (b1, e1)" "w2 e1 = Inr (b2, e')" "bs = b1 @ b2"
    using w by (rule wseq_InrE)
  have "fits0 d (length b1)"
    using fit by (simp add: b(3) fits0_def)
  then obtain a d1 where a: "\<And>rest. r1 (b1 @ rest, d) = Inr (a, (rest, d1))" "in_step0 sizes emb pending e1 d1"
    "extends0 (length b1) e d e1 d1" "Q1 e1 d1 a"
    using codes0D [OF w1 st b(1)] by blast
  have "fits0 d1 (length b2)"
    using fits0_after [OF a(3)] fit by (simp add: b(3))
  then obtain c d2 where c: "\<And>rest. r2 (b2 @ rest, d1) = Inr (c, (rest, d2))" "in_step0 sizes emb pending e' d2"
    "extends0 (length b2) e1 d1 e' d2" "Q2 e' d2 c"
    using codes0D [OF w2 a(2) b(2)] by blast
  show "\<exists>x d'. (\<forall>rest. rbind (r1 (bs @ rest, d)) (\<lambda>(a, s1). rbind (r2 s1) (\<lambda>(b, s2). Inr ((a, b), s2))) = Inr (x, (rest, d')))
      \<and> in_step0 sizes emb pending e' d' \<and> extends0 (length bs) e d e' d' \<and> (case x of (a, b) \<Rightarrow> Q1 e' d' a \<and> Q2 e' d' b)"
    using a c mono [OF c(3) a(4)] extends0_trans [OF a(3) c(3)]
    by (intro exI [of _ "(a, c)"] exI [of _ d2]) (simp add: b(3))
qed

lemma codes0_list:
  assumes "\<And>v. v \<in> set vs \<Longrightarrow> codes0 sizes emb pending (w v) r (\<lambda>e d a. amf0_copy sizes e d v a)"
  shows "codes0 sizes emb pending (wlist w vs) (read_n (length vs) r) (\<lambda>e d as. list_all2 (amf0_copy sizes e d) vs as)"
  using assms
proof (induction vs)
  case Nil
  show ?case
    using codes0_map [OF codes0_emit [of "\<lambda>s. Inr ((), s)" "[]" "()"]] by (simp add: codes0_def)
next
  case (Cons v vs)
  have "codes0 sizes emb pending (wseq (w v) (wlist w vs))
     (\<lambda>s. rbind (rbind (r s) (\<lambda>(a, s1). rbind (read_n (length vs) r s1) (\<lambda>(b, s2). Inr ((a, b), s2))))
        (\<lambda>(ab, s1). Inr ((\<lambda>(a, b). a # b) ab, s1)))
     (\<lambda>e d as. list_all2 (amf0_copy sizes e d) (v # vs) as)"
    by (rule codes0_map [OF codes0_seq [OF Cons.prems [of v] Cons.IH]])
      (use Cons.prems in \<open>auto intro: amf0_copy_extends\<close>)
  moreover have "rbind (rbind (r s) (\<lambda>(a, s1). rbind (read_n (length vs) r s1) (\<lambda>(b, s2). Inr ((a, b), s2))))
        (\<lambda>(ab, s1). Inr ((\<lambda>(a, b). a # b) ab, s1)) = read_n (length (v # vs)) r s" for s
    by (auto simp: rbind_def split: sum.splits prod.splits)
  ultimately show ?case
    by simp
qed

end
