(* ===== verification/Amf0_Nodes.thy ===== *)
theory Amf0_Nodes
  imports Amf0_Codes
begin

text \<open>
  One AMF0 value: the properties of an object up to the end marker, a complex value in its new slot of
  the arena, the scalars, and an AMF3 value embedded in the stream.
\<close>

section \<open>Properties\<close>

definition copied0 :: "amf0_sizes \<Rightarrow> amf0_encoder \<Rightarrow> amf0_decoder \<Rightarrow> amf0_object \<Rightarrow> amf0_object \<Rightarrow> bool" where
  "copied0 sizes e d p p' \<longleftrightarrow> map fst p' = map fst p \<and> list_all2 (amf0_copy sizes e d) (map snd p) (map snd p')"

lemma copied0_Cons:
  "copied0 sizes e d ((k, v) # p) ((k', a) # p') \<longleftrightarrow> k' = k \<and> amf0_copy sizes e d v a \<and> copied0 sizes e d p p'"
  by (auto simp: copied0_def)

abbreviation write_property :: "(amf0_value \<Rightarrow> amf0_writer) \<Rightarrow> bytes \<times> amf0_value \<Rightarrow> amf0_writer" where
  "write_property child \<equiv> \<lambda>(name, v).
     if AMF0_MAX_STRING_LEN < length name then wfail A0SNormalStringTooLong
     else wseq (emit (be16 (word_of_nat (length name)) @ name)) (child v)"

lemma parse_element_Inr: "parse_element r s = Inr (a, s') \<longleftrightarrow> r s = Inr (Some a, s')"
  by (auto simp: parse_element_def rbind_def split: sum.splits option.splits)

lemma read_utf8_0: "utf8_valid s \<Longrightarrow> amf0_read_utf8 (length s) (s @ rest) = Inr (s, rest)"
  by (simp add: amf0_read_utf8_def read_checked_def from_utf8_def)

lemma rd16_back [simp]: "rd16 (be16 x @ rest) = Inr (x, rest)"
  by (simp add: rd16_def)

lemma rd32_back [simp]: "rd32 (be32 x @ rest) = Inr (x, rest)"
  by (simp add: rd32_def)

lemma short_name:
  assumes "length k \<le> AMF0_MAX_STRING_LEN"
  shows "unat (word_of_nat (length k) :: u16) = length k"
  using assms by (simp add: AMF0_MAX_STRING_LEN_def unat_of_nat take_bit_nat_eq_self_iff)

lemma parse_property_back:
  assumes "k \<noteq> []" "utf8_valid k" "length k \<le> AMF0_MAX_STRING_LEN" "parse_element r (bs, d) = Inr (a, (rest, d'))"
  shows "parse_object_property r (be16 (word_of_nat (length k)) @ k @ bs, d) = Inr (Some (k, a), (rest, d'))"
proof -
  have "(word_of_nat (length k) :: u16) \<noteq> 0"
    using short_name [OF assms(3)] assms(1) by (metis length_0_conv unat_0)
  then show ?thesis
    using assms by (simp add: parse_object_property_def lift_read_def short_name read_utf8_0 parse_element_Inr)
qed

lemma parse_property_end: "parse_object_property r (be16 0 @ 9 # rest, d) = Inr (None, (rest, d))"
  by (simp add: parse_object_property_def lift_read_def rd8_def)

lemma parse_properties_more:
  "parse_properties fuel ins r acc s = Inr x \<Longrightarrow> fuel \<le> fuel' \<Longrightarrow> parse_properties fuel' ins r acc s = Inr x"
proof (induction fuel arbitrary: fuel' acc s)
  case (Suc fuel)
  then obtain k where "fuel' = Suc k" "fuel \<le> k"
    by (cases fuel') auto
  with Suc show ?case
    by (auto simp: rbind_def split: sum.splits option.splits if_splits)
qed simp

lemma codes0_properties:
  assumes "\<And>v. v \<in> snd ` set p \<Longrightarrow> codes0 sizes emb pending (w v) (parse_element r) (\<lambda>e d a. amf0_copy sizes e d v a)"
    and "ins_ok ins" and "names_ok p" and "fst ` set acc \<inter> fst ` set p = {}"
    and "length acc + length p \<le> MAX_COLLECTION_LEN"
  shows "codes0 sizes emb pending (wseq (wlist (write_property w) p) (emit (be16 0 @ [9])))
    (parse_properties (Suc (length p)) ins r acc) (\<lambda>e d p'. \<exists>new. p' = acc @ new \<and> copied0 sizes e d p new)"
  using assms(1,3,4,5)
proof (induction p arbitrary: acc)
  case Nil
  have "codes0 sizes emb pending (emit (be16 0 @ [9])) (parse_properties (Suc 0) ins r acc) (\<lambda>_ _ a. a = acc)"
    by (rule codes0_emit) (simp add: parse_property_end)
  then show ?case
    by (simp add: codes0_def wseq_emit_nil copied0_def)
next
  case (Cons m p)
  obtain k v where m: "m = (k, v)"
    by (cases m)
  have k: "k \<noteq> []" "utf8_valid k" "k \<notin> fst ` set acc" "k \<notin> fst ` set p" "names_ok p"
    using Cons.prems(2,3) m by (auto simp: names_ok_def)
  let ?rest = "wseq (wlist (write_property w) p) (emit (be16 0 @ [9]))"
  show ?case
    unfolding codes0_def
  proof (intro allI impI)
    fix e d bs e'
    assume st: "in_step0 sizes emb pending e d" and fit: "fits0 d (length bs)"
      and wr: "wseq (wlist (write_property w) (m # p)) (emit (be16 0 @ [9])) e = Inr (bs, e')"
    obtain b1 e1 b2 where k3: "length k \<le> AMF0_MAX_STRING_LEN"
      and b: "w v e = Inr (b1, e1)" "?rest e1 = Inr (b2, e')" "bs = be16 (word_of_nat (length k)) @ k @ b1 @ b2"
      using wr by (auto simp: m wseq_def rbind_def wfail_def emit_def split: sum.splits if_splits)
    have fit1: "fits0 d (length b1)"
      using fit by (simp add: b(3) fits0_def)
    obtain a d1 where a: "\<And>rest. parse_element r (b1 @ rest, d) = Inr (a, (rest, d1))" "in_step0 sizes emb pending e1 d1"
      "extends0 (length b1) e d e1 d1" "amf0_copy sizes e1 d1 v a"
      using codes0D [OF Cons.prems(1) st b(1) fit1] m by auto
    have "fits0 d (length b1 + length b2)"
      using fit by (auto simp: b(3) fits0_def)
    then have fit2: "fits0 d1 (length b2)"
      by (rule fits0_after [OF a(3)])
    have acc: "ins k a acc = acc @ [(k, a)]"
      using assms(2) k(3) by (simp add: ins_ok_def)
    have "codes0 sizes emb pending ?rest (parse_properties (Suc (length p)) ins r (acc @ [(k, a)]))
        (\<lambda>e d p'. \<exists>new. p' = (acc @ [(k, a)]) @ new \<and> copied0 sizes e d p new)"
      using Cons.prems m k by (intro Cons.IH) auto
    from codes0D [OF this a(2) b(2) fit2] obtain p' d2 where p':
      "\<And>rest. parse_properties (Suc (length p)) ins r (acc @ [(k, a)]) (b2 @ rest, d1) = Inr (p', (rest, d2))"
      "in_step0 sizes emb pending e' d2" "extends0 (length b2) e1 d1 e' d2"
      "\<exists>new. p' = (acc @ [(k, a)]) @ new \<and> copied0 sizes e' d2 p new"
      by blast
    have "parse_properties (Suc (length (m # p))) ins r acc (bs @ rest, d) = Inr (p', (rest, d2))" for rest
    proof -
      have "parse_object_property r (bs @ rest, d) = Inr (Some (k, a), (b2 @ rest, d1))"
        using parse_property_back [OF k(1,2) k3 a(1)] by (simp add: b(3))
      moreover have "length acc + 1 \<le> MAX_COLLECTION_LEN"
        using Cons.prems(4) by simp
      ultimately show ?thesis
        using p'(1) [of rest] acc unfolding list.size(4) add_Suc_right add_0_right
        by (subst parse_properties.simps(2)) (simp add: check_collection_len_def del: parse_properties.simps)
    qed
    moreover have "extends0 (length bs) e d e' d2"
      by (rule extends0_le [OF extends0_trans [OF a(3) p'(3)]]) (simp add: b(3))
    moreover obtain new where "p' = acc @ (k, a) # new" "copied0 sizes e' d2 (m # p) ((k, a) # new)"
      using p'(4) amf0_copy_extends [OF p'(3) a(4)] m by (auto simp: copied0_Cons)
    ultimately show "\<exists>x d'. (\<forall>rest. parse_properties (Suc (length (m # p))) ins r acc (bs @ rest, d) = Inr (x, (rest, d')))
        \<and> in_step0 sizes emb pending e' d' \<and> extends0 (length bs) e d e' d' \<and> (\<exists>new. x = acc @ new \<and> copied0 sizes e' d' (m # p) new)"
      using p'(2) by blast
  qed
qed

lemma codes0_object:
  assumes "\<And>v. v \<in> snd ` set p \<Longrightarrow> codes0 sizes emb pending (w v) (parse_element r) (\<lambda>e d a. amf0_copy sizes e d v a)"
    and "ins_ok ins" and "names_ok p"
  shows "codes0 sizes emb pending (serialize_object_body w depth p) (parse_object ins r depth) (\<lambda>e d p'. copied0 sizes e d p p')"
  unfolding codes0_def
proof (intro allI impI)
  fix e d bs e'
  assume st: "in_step0 sizes emb pending e d" and fit: "fits0 d (length bs)"
    and wr: "serialize_object_body w depth p e = Inr (bs, e')"
  have lim: "check_depth depth" "length p \<le> MAX_COLLECTION_LEN"
    and wr': "wseq (wlist (write_property w) p) (emit (be16 0 @ [9])) e = Inr (bs, e')"
    using wr by (auto simp: serialize_object_body_def check_collection_len_def wfail_def split: if_splits)
  have "codes0 sizes emb pending (wseq (wlist (write_property w) p) (emit (be16 0 @ [9])))
    (parse_properties (Suc (length p)) ins r []) (\<lambda>e d p'. \<exists>new. p' = [] @ new \<and> copied0 sizes e d p new)"
    using assms lim by (intro codes0_properties) auto
  from codes0D [OF this st wr' fit] obtain p' d' where p':
    "\<And>rest. parse_properties (Suc (length p)) ins r [] (bs @ rest, d) = Inr (p', (rest, d'))"
    "in_step0 sizes emb pending e' d'" "extends0 (length bs) e d e' d'" "copied0 sizes e' d' p p'"
    by auto
  have "length ps \<le> length bs" if "wlist (write_property w) ps e = Inr (bs, e')" for ps bs e e'
    using that by (induction ps arbitrary: e bs)
      (force simp: wseq_def rbind_def emit_def wfail_def split: sum.splits if_splits prod.splits)+
  then have "length p \<le> length bs"
    using wr' by (fastforce elim!: wseq_InrE)
  then have "parse_object ins r depth (bs @ rest, d) = Inr (p', (rest, d'))" for rest
    using parse_properties_more [OF p'(1), of "Suc (length (bs @ rest))"] lim by (simp add: parse_object_def)
  with p'(2-4) show "\<exists>p' d'. (\<forall>rest. parse_object ins r depth (bs @ rest, d) = Inr (p', (rest, d')))
      \<and> in_step0 sizes emb pending e' d' \<and> extends0 (length bs) e d e' d' \<and> copied0 sizes e' d' p p'"
    by blast
qed


section \<open>One complex value\<close>

definition entered0 :: "amf0_value \<Rightarrow> amf0_encoder \<Rightarrow> amf0_encoder \<Rightarrow> bool" where
  "entered0 v e0 e1 \<longleftrightarrow>
     oe_objects e1 = oe_objects e0 \<and> oe_embedded e1 = oe_embedded e0 \<and> oe_next e1 = Suc (oe_next e0)
     \<and> (refs0_of e1 = refs0_of e0
        \<or> (\<exists>i<length (oe_objects e0). oe_objects e0 ! i = v \<and> refs0_of e0 i = None
             \<and> refs0_of e1 = (refs0_of e0)(i \<mapsto> oe_next e0)))"

lemma entered0_refs:
  assumes "entered0 v e0 e1"
  shows "refs0_of e0 \<subseteq>\<^sub>m refs0_of e1"
    and "refs0_of e1 i = Some n \<Longrightarrow>
      refs0_of e0 i = Some n \<or> refs0_of e0 i = None \<and> n = oe_next e0 \<and> i < length (oe_objects e0) \<and> oe_objects e0 ! i = v"
  using assms by (auto simp: entered0_def map_le_def split: if_splits)

lemma amf0_node_mono:
  assumes "refs0_of e \<subseteq>\<^sub>m refs0_of e'" "arena_le is_complex (od_objects d) (od_objects d')"
    and "od_embedded d' = od_embedded d @ news" "oe_embedded e' = oe_embedded e" "amf0_node sizes e d v a"
  shows "amf0_node sizes e' d' v a"
  by (rule node_copy_mono [OF assms(5,1,2)]) (simp add: assms(3,4) amf0_leaf_append)

lemma in_step0_enter:
  assumes st: "in_step0 sizes emb pending e0 d0" and ent: "entered0 v e0 e1"
  shows "in_step0 sizes emb (insert (length (od_objects d0)) pending) e1 (d0\<lparr>od_objects := od_objects d0 @ [A0Null]\<rparr>)"
    (is "in_step0 _ _ (insert ?N _) _ ?d1")
proof -
  have old: "refs0_of e0 i = Some n \<Longrightarrow> n < ?N \<and> i < length (oe_objects e0)
      \<and> (n \<in> pending \<or> amf0_node sizes e0 d0 (oe_objects e0 ! i) (od_objects d0 ! n))" for i n
    using st unfolding in_step0_def by blast
  have num0: "oe_next e0 = ?N"
    using st by (simp add: in_step0_def)
  have objs: "oe_objects e1 = oe_objects e0" "oe_embedded e1 = oe_embedded e0"
    using ent by (simp_all add: entered0_def)
  have keep: "amf0_node sizes e1 ?d1 a b" if "amf0_node sizes e0 d0 a b" for a b
    by (rule amf0_node_mono [OF entered0_refs(1) [OF ent] _ _ _ that]) (simp_all add: objs)
  show ?thesis
    unfolding in_step0_def
  proof (intro conjI allI impI)
    show "oe_embedded e1 = emb" "oe_next e1 = length (od_objects ?d1)" "list_all (amf0_wf emb) (oe_objects e1)" "list_all amf3_wf emb"
      using ent st num0 by (simp_all add: entered0_def in_step0_def)
    have "refs0_of e1 = refs0_of e0 \<or> (\<exists>i. refs0_of e1 = (refs0_of e0)(i \<mapsto> ?N))"
      using ent num0 by (auto simp: entered0_def)
    moreover have "inj_on (refs0_of e0) (dom (refs0_of e0))"
      using st by (simp add: in_step0_def)
    ultimately show "inj_on (refs0_of e1) (dom (refs0_of e1))"
      using old by (fastforce simp: inj_on_def dom_def)
    fix i n assume "refs0_of e1 i = Some n"
    then consider "refs0_of e0 i = Some n" | "n = ?N" "i < length (oe_objects e0)"
      using entered0_refs(2) [OF ent] num0 by fastforce
    then show "n < length (od_objects ?d1)" "i < length (oe_objects e1)"
      "n \<in> insert ?N pending \<or> amf0_node sizes e1 ?d1 (oe_objects e1 ! i) (od_objects ?d1 ! n)"
      using old [of i n] keep by (cases, auto simp: objs nth_append)+
  qed
qed

lemma in_step0_store:
  fixes d :: amf0_decoder and N :: nat and w :: amf0_value
  defines "d' \<equiv> d\<lparr>od_objects := (od_objects d)[N := w]\<rparr>"
  assumes st: "in_step0 sizes emb (insert N pending) e d" and slot: "N < length (od_objects d)" "od_objects d ! N = A0Null"
    and node: "amf0_node sizes e d v w" and owner: "\<And>i. refs0_of e i = Some N \<Longrightarrow> oe_objects e ! i = v"
  shows "in_step0 sizes emb pending e d'" and "amf0_copy sizes e d' v (A0Reference N)"
proof -
  have le: "arena_le is_complex (od_objects d) (od_objects d')"
    unfolding d'_def using slot(2) by (simp add: arena_le_update)
  have keep: "amf0_node sizes e d' a b" if "amf0_node sizes e d a b" for a b
    using amf0_node_mono [OF map_le_refl le _ _ that, of "[]"] by (simp add: d'_def)
  have at: "od_objects d' ! N = w"
    using slot(1) by (simp add: d'_def)
  show "in_step0 sizes emb pending e d'"
    unfolding in_step0_def
  proof (intro conjI allI impI)
    show "oe_embedded e = emb" "oe_next e = length (od_objects d')" "list_all (amf0_wf emb) (oe_objects e)"
      "list_all amf3_wf emb" "inj_on (refs0_of e) (dom (refs0_of e))"
      using st by (simp_all add: in_step0_def d'_def)
    fix i n assume r: "refs0_of e i = Some n"
    then show "n < length (od_objects d')" "i < length (oe_objects e)"
      using st by (simp_all add: in_step0_def d'_def)
    have "n \<in> pending \<or> amf0_node sizes e d (oe_objects e ! i) (od_objects d ! n)" if "n \<noteq> N"
      using st r that by (auto simp: in_step0_def)
    then show "n \<in> pending \<or> amf0_node sizes e d' (oe_objects e ! i) (od_objects d' ! n)"
      using keep owner [of i] r node at by (cases "n = N") (auto simp: d'_def)
  qed
  show "amf0_copy sizes e d' v (A0Reference N)"
    using keep [OF node] at slot(1) by (intro copy_of_node [of _ _ _ _ _ _ _ N]) (simp_all add: d'_def)
qed

definition read_node :: "amf0_value amf0_reader \<Rightarrow> amf0_value option amf0_reader" where
  "read_node rb s =
     rbind (amf0_push s) (\<lambda>(_, s1). rbind (rb s1) (\<lambda>(v, s2). amf0_finish (length (od_objects (snd s))) v s2))"

lemma codes0_node:
  fixes d0 :: amf0_decoder
  defines "N \<equiv> length (od_objects d0)"
  assumes st: "in_step0 sizes emb pending e0 d0" and ent: "entered0 v e0 e1"
    and w: "w e1 = Inr (bs, e')" and fit: "fits0 d0 (Suc (length bs))"
    and body: "codes0 sizes emb (insert N pending) w rb (\<lambda>e d x. amf0_node sizes e d v x)"
  shows "\<exists>d'. (\<forall>rest. read_node rb (bs @ rest, d0) = Inr (Some (A0Reference N), (rest, d')))
    \<and> in_step0 sizes emb pending e' d' \<and> extends0 (Suc (length bs)) e0 d0 e' d' \<and> amf0_copy sizes e' d' v (A0Reference N)
    \<and> refs0_of e1 \<subseteq>\<^sub>m refs0_of e'"
proof -
  let ?d1 = "d0\<lparr>od_objects := od_objects d0 @ [A0Null]\<rparr>"
  have "fits0 ?d1 (length bs)"
    using fit by (simp add: fits0_def)
  from codes0D [OF body in_step0_enter [OF st ent, folded N_def] w this] obtain x d2 where
    x: "\<And>rest. rb (bs @ rest, ?d1) = Inr (x, (rest, d2))" "in_step0 sizes emb (insert N pending) e' d2"
      "extends0 (length bs) e1 ?d1 e' d2" "amf0_node sizes e' d2 v x"
    by blast
  let ?d' = "d2\<lparr>od_objects := (od_objects d2)[N := x]\<rparr>"
  obtain news where news: "od_objects d2 = od_objects d0 @ A0Null # news" "length news \<le> length bs"
    using x(3) by (auto simp: extends0_def)
  have slot: "N < length (od_objects d2)" "od_objects d2 ! N = A0Null"
    by (simp_all add: news N_def)
  have num0: "oe_next e0 = N"
    using st by (simp add: in_step0_def N_def)
  have kept: "refs0_of e1 i = Some n" if n: "refs0_of e' i = Some n" "n \<le> N" for i n
  proof (cases "refs0_of e1 i")
    case None
    then have "length (od_objects ?d1) \<le> n"
      using x(3) n(1) unfolding extends0_def by blast
    with n(2) show ?thesis
      by (simp add: N_def)
  next
    case (Some m)
    then show ?thesis
      using x(3) n(1) unfolding extends0_def map_le_def by (metis domI option.inject)
  qed
  have objs: "oe_objects e' = oe_objects e0" "oe_embedded e' = oe_embedded e0"
    using x(3) ent by (simp_all add: extends0_def entered0_def)
  have "oe_objects e' ! i = v" if "refs0_of e' i = Some N" for i
    using kept [OF that] entered0_refs(2) [OF ent, of i N] st unfolding objs in_step0_def N_def by fastforce
  note stored = in_step0_store [OF x(2) slot x(4) this]
  have new_ref: "N \<le> n" if n: "refs0_of e' i = Some n" "refs0_of e0 i = None" for i n
    using kept [OF n(1)] entered0_refs(2) [OF ent, of i n] n(2) num0 by fastforce
  have le1: "refs0_of e1 \<subseteq>\<^sub>m refs0_of e'"
    using x(3) by (simp add: extends0_def)
  then have "refs0_of e0 \<subseteq>\<^sub>m refs0_of e'"
    by (rule map_le_trans [OF entered0_refs(1) [OF ent]])
  moreover have "od_objects ?d' = od_objects d0 @ x # news"
    by (simp add: news N_def)
  moreover obtain extra where "od_embedded d2 = od_embedded d0 @ extra" "length extra \<le> length bs"
    using x(3) by (auto simp: extends0_def)
  ultimately have "extends0 (Suc (length bs)) e0 d0 e' ?d'"
    using news(2) objs new_ref unfolding extends0_def N_def
    by (intro conjI exI [of _ "x # news"] exI [of _ extra]) simp_all
  moreover have "read_node rb (bs @ rest, d0) = Inr (Some (A0Reference N), (rest, ?d'))" for rest
    using fit slot(1) x(1) by (simp add: read_node_def amf0_push_def amf0_finish_def fits0_def check_collection_len_def N_def Let_def)
  ultimately show ?thesis
    using stored le1 by blast
qed

lemma node0_members:
  assumes "copied0 sizes e d p p'"
  shows "amf0_node sizes e d (A0Object p) (A0Object p')" "amf0_node sizes e d (A0TypedObject cn p) (A0TypedObject cn p')"
proof -
  have "zip (map fst p) (map snd p') = p'"
    using assms by (metis copied0_def zip_fst_snd_eq)
  then show "amf0_node sizes e d (A0Object p) (A0Object p')" "amf0_node sizes e d (A0TypedObject cn p) (A0TypedObject cn p')"
    using assms by (simp_all add: node_copy_def copied0_def)
qed

lemma node0_array:
  "list_all2 (amf0_copy sizes e d) vs as \<Longrightarrow> amf0_node sizes e d (A0StrictArray vs) (A0StrictArray as)"
  by (simp add: node_copy_def)

end
