(* ===== verification/Amf3_Growth.thy ===== *)
theory Amf3_Growth
  imports Amf3_Roundtrip
begin

text \<open>
  An AMF3 encoding numbers at most one object for every byte: each complex value writes its marker. With
  the round trip of one value this gives what an AMF0 decoder finds in its stream, a copy of the embedded
  value whose objects are no more than its bytes.
\<close>

definition frugal :: "nat \<Rightarrow> amf3_writer \<Rightarrow> bool" where
  "frugal k w \<longleftrightarrow> (\<forall>e bs e'. w e = Inr (bs, e') \<longrightarrow> unat (ae_next_object e') + k \<le> unat (ae_next_object e) + length bs)"

lemma frugalD: "frugal k w \<Longrightarrow> w e = Inr (bs, e') \<Longrightarrow> unat (ae_next_object e') + k \<le> unat (ae_next_object e) + length bs"
  by (simp add: frugal_def)

lemma frugal_less: "frugal k w \<Longrightarrow> j \<le> k \<Longrightarrow> frugal j w"
  by (fastforce simp: frugal_def)

lemma frugal_fail [simp, intro]: "frugal k (wfail e)"
  by (simp add: frugal_def wfail_def)

lemma frugal_emit [intro]: "k \<le> length bs \<Longrightarrow> frugal k (emit bs)"
  by (simp add: frugal_def)

lemma frugal_wseq [intro]: "frugal k w1 \<Longrightarrow> frugal 0 w2 \<Longrightarrow> frugal k (wseq w1 w2)"
  unfolding frugal_def by (fastforce elim!: wseq_InrE)

lemma frugal_wlist [intro]: "(\<And>v. frugal 0 (w v)) \<Longrightarrow> frugal 0 (wlist w vs)"
  by (induction vs) auto

lemma frugal_string [simp, intro]: "frugal 0 (write_string_data s)"
  by (auto simp: frugal_def write_string_data_def intern_string_def Let_def split: if_splits option.splits)

lemma frugal_traits [simp, intro]: "frugal 0 (write_traits info h ns)"
proof -
  have "frugal 0 (\<lambda>c. Inr ([], intern_trait info c))"
    by (simp add: frugal_def intern_trait_def Let_def)
  then have "frugal 0 (wseq (emit (write_u29 h)) (wseq (wlist write_string_data ns) (\<lambda>c. Inr ([], intern_trait info c))))"
    by auto
  then show ?thesis
    by (auto simp: frugal_def write_traits_def split: option.splits)
qed

lemma frugal_members [intro]: "(\<And>v. frugal 0 (child v)) \<Longrightarrow> frugal 0 (write_members child ms)"
  unfolding write_members_def by (rule frugal_wlist) auto

lemma frugal_object: "(\<And>v. frugal 0 (child v)) \<Longrightarrow> frugal (Suc 0) (write_object child depth cn sealed dynamic)"
  by (auto simp: write_object_def Let_def intro!: frugal_wseq frugal_wlist frugal_members frugal_emit split: option.splits)

lemma frugal_payload [simp, intro]: "frugal 0 (bean_write_payload b)"
proof -
  have "frugal 0 (write_java_utf s)" for s
    by (auto simp: write_java_utf_def)
  then show ?thesis
    unfolding bean_write_payload_def by (intro frugal_wseq frugal_wlist frugal_emit) simp_all
qed

lemma frugal_header [simp, intro]: "frugal (Suc 0) (write_externalizable_header cn)"
  unfolding write_externalizable_header_def by (intro frugal_wseq frugal_emit) simp_all

lemma frugal_externalizable: "(\<And>v. frugal 0 (child v)) \<Longrightarrow> frugal (Suc 0) (write_externalizable child depth cn v)"
  by (auto simp: write_externalizable_def write_status_bean_def split: option.splits externalizable_layout.splits)

lemma frugal_blob [simp, intro]: "frugal 0 (write_blob s m)"
  unfolding write_blob_def by (cases "m < length s") (simp_all add: frugal_emit)

lemma frugal_inline:
  assumes "\<And>v. frugal 0 (child v)"
  shows "frugal 0 (write_inline child depth v)" and "object_marker v \<noteq> None \<Longrightarrow> frugal (Suc 0) (write_inline child depth v)"
proof -
  have "frugal (of_bool (object_marker v \<noteq> None)) (write_inline child depth v)"
    using frugal_object [of child depth] frugal_externalizable [of child depth] assms
    by (cases v) (auto simp: write_inline_def write_vector_def intro!: frugal_wseq frugal_wlist frugal_members frugal_emit)
  then show "frugal 0 (write_inline child depth v)" "object_marker v \<noteq> None \<Longrightarrow> frugal (Suc 0) (write_inline child depth v)"
    by (auto elim: frugal_less)
qed

lemma frugal_here:
  assumes "\<And>v. frugal 0 (write_value (Suc depth) v)"
  shows "frugal 0 (write_here depth v)"
  unfolding frugal_def
proof (intro allI impI)
  fix e bs e'
  assume w: "write_here depth v e = Inr (bs, e')"
  show "unat (ae_next_object e') + 0 \<le> unat (ae_next_object e) + length bs"
  proof (cases "object_marker v = None")
    case True
    then show ?thesis
      using w frugalD [OF frugal_inline(1) [OF assms]] by (fastforce simp: write_here_def)
  next
    case False
    then have lt: "unat (ae_next_object e) < MAX_REFERENCES"
      and w': "write_inline (write_value (Suc depth)) depth v (e\<lparr>ae_next_object := ae_next_object e + 1\<rparr>) = Inr (bs, e')"
      using w by (auto simp: write_here_def not_le split: if_splits)
    have "unat (ae_next_object e + 1) = Suc (unat (ae_next_object e))"
      using lt by (simp add: unat_word_ariths MAX_REFERENCES_def)
    then show ?thesis
      using frugalD [OF frugal_inline(2) [OF assms False] w'] by simp
  qed
qed

lemma frugal_value: "frugal 0 (write_value depth v)"
proof (induction depth arbitrary: v rule: depth_induct)
  case (deeper depth)
  show ?case
    unfolding frugal_def
  proof (intro allI impI)
    fix e bs e'
    assume w: "write_value depth v e = Inr (bs, e')"
    then have d: "check_depth depth"
      using write_value_too_deep by fastforce
    note here = frugalD [OF frugal_here [OF deeper [OF d]]]
    show "unat (ae_next_object e') + 0 \<le> unat (ae_next_object e) + length bs"
    proof (cases "amf3_reference v")
      case None
      then show ?thesis
        using w here by (simp add: write_value_here d)
    next
      case (Some i)
      then have "v = A3Reference i"
        by (cases v) auto
      then show ?thesis
        using w here by (fastforce elim!: write_value_refE)
    qed
  qed
qed

section \<open>One value in a longer stream\<close>

lemma amf3_single_back:
  assumes wf: "amf3_wf x" "list_all amf3_wf emb" and w: "amf3_encode_document [x] emb [] = (bs, Inr u)"
    and fit: "amf3_tables_fit (document_from_parts [x] emb)"
  shows "\<exists>y objs refs. (\<forall>rest. amf3_deserialize_document_single (bs @ rest) = Inr (document_from_parts [y] objs, rest))
    \<and> document_copy (amf3_graph sizes) amf3_replace amf3_complex amf3_leaf refs (document_from_parts [x] emb)
        (document_from_parts [y] objs)
    \<and> length objs \<le> length bs"
proof -
  let ?e = "amf3_encoder_new emb"
  obtain e' where w': "write_value 0 x ?e = Inr (bs, e')"
    using w by (auto simp: amf3_encode_document_def wseq_def rbind_def emit_def split: sum.splits)
  then have tf: "tables_fit e'"
    using fit by (simp add: amf3_tables_fit_def tables_fit_def document_from_parts_def wseq_def rbind_def emit_def)
  obtain y d' where y: "\<And>rest. read_value 0 (bs @ rest, amf3_decoder_new) = Inr (y, (rest, d'))" "in_step sizes {} e' d'"
    "extends ?e amf3_decoder_new e' d'" "amf3_copy sizes e' (ad_objects d') x y"
    using codesD [OF level_okD(1) [OF level_value wf(1)] in_step_new [OF wf(2)] w' tf] by blast
  have "unat (ae_next_object e') = length (ad_objects d')"
    using y(2) by (simp add: in_step_def)
  then have "length (ad_objects d') \<le> length bs"
    using frugalD [OF frugal_value w'] by (simp add: amf3_encoder_new_def)
  moreover have "ae_objects e' = emb"
    using y(3) by (simp add: extends_def amf3_encoder_new_def)
  then have "document_copy (amf3_graph sizes) amf3_replace amf3_complex amf3_leaf (refs_of e') (document_from_parts [x] emb)
      (document_from_parts [y] (ad_objects d'))"
    using y(2,4) unfolding document_copy_def by (auto simp: document_from_parts_def in_step_def)
  ultimately show ?thesis
    using y(1) by (intro exI [of _ y] exI [of _ "ad_objects d'"] exI [of _ "refs_of e'"])
      (simp add: amf3_deserialize_document_single_def)
qed

end
