(* ===== verification/Amf0_Safe.thy ===== *)
theory Amf0_Safe
  imports Amf0_Tree Amf3_Safe "HOL-Library.Product_Order"
begin

text \<open>
  The AMF0 decoder on arbitrary bytes: both arenas stay within the collection limit, every reference it
  returns or stores names a slot of its arena, it never indexes out of range, and the loop over the
  properties of an object ends.
\<close>

section \<open>The invariant of the decoder\<close>

function refs0_below :: "nat \<times> nat \<Rightarrow> amf0_value \<Rightarrow> bool" where
  "refs0_below n v \<longleftrightarrow>
     (case v of A0Reference i \<Rightarrow> i < fst n | A0AvmPlus x \<Rightarrow> refs_below (snd n) x | _ \<Rightarrow> True)
     \<and> list_all (refs0_below n) (amf0_children v)"
  by pat_completeness auto
termination
  by (relation "measure (size \<circ> snd)") (auto dest: amf0_children_size)

declare refs0_below.simps [simp del]

lemma refs0_below_mono: "refs0_below n v \<Longrightarrow> n \<le> m \<Longrightarrow> refs0_below m v"
proof (induction n v rule: refs0_below.induct)
  case (1 n v)
  have "list_all (refs0_below m) (amf0_children v)"
    using 1 by (auto simp: refs0_below.simps [of n v] list_all_iff)
  moreover have "case v of A0Reference i \<Rightarrow> i < fst m | A0AvmPlus x \<Rightarrow> refs_below (snd m) x | _ \<Rightarrow> True"
    using 1(2,3) by (auto simp: refs0_below.simps [of n v] less_eq_prod_def split: amf0_value.splits intro: refs_below_mono)
  ultimately show ?case
    by (simp only: refs0_below.simps [of m v])
qed

lemma refs0_below_list: "list_all (refs0_below n) vs \<Longrightarrow> n \<le> m \<Longrightarrow> list_all (refs0_below m) vs"
  by (auto simp: list_all_iff intro: refs0_below_mono)

lemma refs0_below_simps [simp]:
  "refs0_below n (A0Reference i) \<longleftrightarrow> i < fst n" "refs0_below n (A0Number x)" "refs0_below n (A0Boolean b)"
  "refs0_below n (A0Utf8String s)" "refs0_below n A0Null" "refs0_below n A0Undefined" "refs0_below n (A0Date x t)"
  "refs0_below n (A0XmlDocument s)" "refs0_below n (A0AvmPlus w) \<longleftrightarrow> refs_below (snd n) w"
  "refs0_below n (A0Object p) \<longleftrightarrow> list_all (refs0_below n) (map snd p)"
  "refs0_below n (A0TypedObject cn p) \<longleftrightarrow> list_all (refs0_below n) (map snd p)"
  "refs0_below n (A0StrictArray vs) \<longleftrightarrow> list_all (refs0_below n) vs"
  by (simp_all add: refs0_below.simps)

definition arenas :: "amf0_decoder \<Rightarrow> nat \<times> nat" where
  "arenas d = (length (od_objects d), length (od_embedded d))"

definition dec0_inv :: "amf0_decoder \<Rightarrow> bool" where
  "dec0_inv d \<longleftrightarrow> length (od_objects d) \<le> MAX_COLLECTION_LEN \<and> length (od_embedded d) \<le> MAX_COLLECTION_LEN
     \<and> list_all (refs0_below (arenas d)) (od_objects d)
     \<and> list_all (refs_below (length (od_embedded d))) (od_embedded d)"

abbreviation stuck :: "amf0_deserialization_error \<Rightarrow> bool" where
  "stuck e \<equiv> e = A0Panic \<or> e = A0OutOfFuel \<or> e = A0EmbeddedAmf3 A3Panic"

interpretation s0: reader_safety dec0_inv arenas stuck .

section \<open>The readers\<close>

lemma tame_amf0:
  "tame stuck rd8" "tame stuck rd16" "tame stuck rd32" "tame stuck rd_f64" "tame stuck (read_checked n)"
  unfolding rd8_def [abs_def] rd16_def [abs_def] rd32_def [abs_def] rd_f64_def [abs_def] read_checked_def [abs_def]
  by (intro tame_limit tame_reads; simp)+

lemma tame_utf8_0: "tame stuck (amf0_read_utf8 n)"
  unfolding amf0_read_utf8_def [abs_def] by (intro tame_bind tame_amf0 tame_check) simp

lemma tame_parsers:
  "tame stuck parse_number" "tame stuck parse_bool" "tame stuck parse_string" "tame stuck parse_long_string"
  "tame stuck parse_date" "tame stuck parse_xml_document"
  unfolding parse_number_def [abs_def] parse_bool_def [abs_def] parse_string_def [abs_def] parse_long_string_def [abs_def]
    parse_date_def [abs_def] parse_xml_document_def [abs_def]
  by (intro tame_bind tame_amf0 tame_utf8_0 tame_return)+


definition opt_below :: "nat \<times> nat \<Rightarrow> amf0_value option \<Rightarrow> bool" where
  "opt_below m r \<longleftrightarrow> (case r of None \<Rightarrow> True | Some v \<Rightarrow> refs0_below m v)"

abbreviation safe_next :: "amf0_value option amf0_reader \<Rightarrow> bool" where
  "safe_next r \<equiv> s0.safe r opt_below"

abbreviation props_below :: "nat \<times> nat \<Rightarrow> amf0_object \<Rightarrow> bool" where
  "props_below m p \<equiv> list_all (refs0_below m) (map snd p)"

text \<open>A property takes at least the two bytes of its name's length.\<close>

lemma rd16_consumes: "rd16 bs = Inr (a, rest) \<Longrightarrow> length bs = length rest + 2"
  by (auto simp: rd16_def ok_or_def split: option.splits elim!: read_u16.elims)

lemma property_good:
  assumes child: "safe_next child" and inv: "dec0_inv (snd s)" and n: "n \<le> arenas (snd s)" and m: "length (fst s) \<le> m"
  shows "s0.good (m - 2) n (parse_object_property child s)
    (\<lambda>m r. case r of None \<Rightarrow> True | Some (k, v) \<Rightarrow> refs0_below m v)"
proof (cases "rd16 (fst s)")
  case (Inl e)
  then show ?thesis
    using tame_InlD [OF tame_amf0(2) Inl] by (simp add: parse_object_property_def lift_read_def)
next
  case (Inr r)
  obtain len rest where r: "r = (len, rest)"
    by fastforce
  have rest: "length rest \<le> m - 2"
    using rd16_consumes [OF Inr [unfolded r]] m by simp
  have fin: "s0.good (m - 2) n (rbind (child s2) (\<lambda>(r, s3). case r of None \<Rightarrow> Inl A0UnexpectedEof | Some v \<Rightarrow> Inr (Some (k, v), s3)))
      (\<lambda>m r. case r of None \<Rightarrow> True | Some (k, v) \<Rightarrow> refs0_below m v)"
    if "dec0_inv (snd s2)" "length (fst s2) \<le> m - 2" "n \<le> arenas (snd s2)" for k s2
    using that by (auto intro!: s0.good_step [OF child] simp: opt_below_def split: option.splits)
  have "parse_object_property child s =
      (if len = 0 then rbind (lift_read rd8 (rest, snd s))
         (\<lambda>(byte, s2). if byte \<noteq> 9 then Inl A0UnexpectedEmptyObjectPropertyName else Inr (None, s2))
       else rbind (lift_read (amf0_read_utf8 (unat len)) (rest, snd s))
         (\<lambda>(label, s2). rbind (child s2) (\<lambda>(r, s3). case r of None \<Rightarrow> Inl A0UnexpectedEof | Some v \<Rightarrow> Inr (Some (label, v), s3))))"
    by (simp add: parse_object_property_def lift_read_def [of rd16] Inr r)
  then show ?thesis
    using inv rest n
    by (auto intro!: s0.good_step [OF tame_amf0(1) [THEN s0.safe_lift]] s0.good_step [OF tame_utf8_0 [THEN s0.safe_lift]] fin)
qed

lemma ins_below:
  assumes "ins_ok ins" "props_below n p" "refs0_below n v"
  shows "props_below n (ins k v p)"
proof (cases "k \<in> fst ` set p")
  case True
  then have "ins k v p = map (\<lambda>(k', v'). if k' = k then (k, v) else (k', v')) p"
    using assms(1) by (simp add: ins_ok_def)
  moreover have "list_all (refs0_below n) (map snd (map (\<lambda>(k', v'). if k' = k then (k, v) else (k', v')) p))"
    using assms(2,3) by (induction p) auto
  ultimately show ?thesis
    by simp
next
  case False
  then have "ins k v p = p @ [(k, v)]"
    using assms(1) by (simp add: ins_ok_def)
  with assms(2,3) show ?thesis
    by simp
qed

lemma properties_good:
  assumes ins: "ins_ok ins" and child: "safe_next child"
  shows "dec0_inv (snd s) \<Longrightarrow> length (fst s) < fuel \<Longrightarrow> length (fst s) \<le> m \<Longrightarrow> n \<le> arenas (snd s) \<Longrightarrow>
    props_below (arenas (snd s)) p \<Longrightarrow> s0.good m n (parse_properties fuel ins child p s) props_below"
proof (induction fuel arbitrary: s p)
  case (Suc fuel)
  let ?N = "arenas (snd s)"
  have step: "s0.good (length (fst s) - 2) ?N (parse_object_property child s)
      (\<lambda>m r. case r of None \<Rightarrow> True | Some (k, v) \<Rightarrow> refs0_below m v)"
    using property_good [OF child Suc.prems(1), of ?N "length (fst s)"] by simp
  show ?case
  proof (cases "parse_object_property child s")
    case (Inl e)
    then show ?thesis
      using step by simp
  next
    case (Inr r)
    obtain x s1 where r: "r = (x, s1)"
      by (cases r)
    have s1: "dec0_inv (snd s1)" "length (fst s1) \<le> length (fst s) - 2" "?N \<le> arenas (snd s1)"
      using step by (auto simp: Inr r)
    have p1: "props_below (arenas (snd s1)) p"
      using Suc.prems(5) s1(3) by (rule refs0_below_list)
    have n1: "n \<le> arenas (snd s1)"
      using Suc.prems(4) s1(3) by (rule order_trans)
    show ?thesis
    proof (cases x)
      case None
      then show ?thesis
        using s1 p1 n1 Suc.prems(3) by (simp add: Inr r)
    next
      case (Some kv)
      obtain k v where kv: "kv = (k, v)"
        by fastforce
      have v: "refs0_below (arenas (snd s1)) v"
        using step by (simp add: Inr r Some kv)
      have "fst s \<noteq> []"
        using Inr by (auto simp: parse_object_property_def lift_read_def rd16_def)
      then have short: "length (fst s1) < fuel" "length (fst s1) \<le> m"
        using s1(2) Suc.prems(2,3) by (cases "fst s"; simp)+
      have "s0.good m n (parse_properties fuel ins child (ins k v p) s1) props_below"
        by (rule Suc.IH [OF s1(1) short n1 ins_below [OF ins p1 v]])
      then show ?thesis
        by (simp add: Inr r Some kv)
    qed
  qed
qed simp

lemma safe_object0:
  assumes "ins_ok ins" "safe_next child"
  shows "s0.safe (parse_object ins child depth) props_below"
  by (rule s0.safeI) (auto simp: parse_object_def simp del: parse_properties.simps intro!: properties_good [OF assms])


lemma safe_element: "safe_next child \<Longrightarrow> s0.safe (parse_element child) refs0_below"
  unfolding parse_element_def [abs_def]
  by (rule s0.safeI) (auto intro!: s0.good_step simp: opt_below_def split: option.splits)

lemma safe_strict_array: "safe_next child \<Longrightarrow> s0.safe (parse_strict_array child) (\<lambda>m vs. list_all (refs0_below m) vs)"
  unfolding parse_strict_array_def [abs_def]
  by (intro s0.safe_bind [OF tame_amf0(3) [THEN s0.safe_lift]] s0.safe_limit
      s0.safe_weaken [OF s0.safe_read_n [OF safe_element refs0_below_mono]]) auto

lemma safe_ecma_array:
  "ins_ok ins \<Longrightarrow> safe_next child \<Longrightarrow> s0.safe (parse_ecma_array ins child depth) props_below"
  unfolding parse_ecma_array_def [abs_def]
  by (intro s0.safe_bind [OF tame_amf0(3) [THEN s0.safe_lift]] s0.safe_limit safe_object0) auto

lemma safe_typed_object:
  "ins_ok ins \<Longrightarrow> safe_next child \<Longrightarrow> s0.safe (parse_typed_object ins child depth) (\<lambda>m (cn, p). props_below m p)"
  unfolding parse_typed_object_def [abs_def]
  by (intro s0.safe_limit s0.safe_bind [OF tame_amf0(2) [THEN s0.safe_lift]] s0.safe_bind [OF tame_utf8_0 [THEN s0.safe_lift]]
      s0.safe_map [OF safe_object0]) auto

text \<open>Embedded AMF3 values are moved behind those that are there.\<close>

lemma refs_below_relocate: "refs_below n v \<Longrightarrow> refs_below (base + n) (relocate base v)"
proof (induction n v rule: refs_below.induct)
  case (1 n v)
  have "list_all (refs_below (base + n)) (map (relocate base) (amf3_children v))"
    using 1 by (auto simp: refs_below.simps [of n v] list_all_iff)
  moreover have "case map_option (\<lambda>i. i + base) (amf3_reference v) of Some i \<Rightarrow> i < base + n | None \<Rightarrow> True"
    using 1(2) by (auto simp: refs_below.simps [of n v] split: option.splits)
  ultimately show ?case
    by (simp only: refs_below.simps [of "base + n" "relocate base v"] relocate_children relocate_reference)
qed

lemma safe_avmplus: "s0.safe (parse_avmplus depth) refs0_below"
proof (rule s0.safeI)
  fix m n d and input :: bytes
  assume inv: "dec0_inv d" and bounds: "length input \<le> m" "n \<le> arenas d"
  let ?base = "length (od_embedded d)"
  note ok = amf3_document_single_ok [of input]
  show "s0.good m n (parse_avmplus depth (input, d)) refs0_below"
  proof (cases "amf3_deserialize_document_single input")
    case (Inl e)
    then show ?thesis
      using ok by (simp add: parse_avmplus_def)
  next
    case (Inr r)
    obtain doc rest where r: "r = (doc, rest)"
      by (cases r)
    let ?d = "d\<lparr>od_embedded := od_embedded d @ map (relocate ?base) (doc_objects doc)\<rparr>"
    let ?n = "?base + length (doc_objects doc)"
    obtain root where root: "doc_roots doc = [root]"
      using ok by (auto simp: Inr r length_Suc_conv)
    have doc: "length rest \<le> length input" "list_all (refs_below (length (doc_objects doc))) (root # doc_objects doc)"
      using ok by (simp_all add: Inr r root)
    have moved: "list_all (refs_below ?n) (map (relocate ?base) (root # doc_objects doc))"
      using doc(2) by (auto simp: list_all_iff intro: refs_below_relocate)
    have grow: "arenas d \<le> arenas ?d"
      by (simp add: arenas_def)
    have "dec0_inv ?d" if "check_collection_len ?n"
      using that inv moved refs0_below_list [OF _ grow] refs_below_list [of ?base "od_embedded d" ?n]
      by (auto simp: dec0_inv_def check_collection_len_def arenas_def)
    then show ?thesis
      using bounds doc(1) moved order_trans [OF bounds(2) grow]
      by (auto simp: parse_avmplus_def Inr r root Let_def arenas_def)
  qed
qed


lemma safe_map_read:
  assumes "s0.safe r P" "\<And>m a. P m a \<Longrightarrow> Q m (f a)"
  shows "s0.safe (map_read f r) Q"
  unfolding map_read_def [abs_def] using assms by (rule s0.safe_map)

lemma refs0_below_none: "refs0_below (0, 0) v \<Longrightarrow> refs0_below n v"
  by (erule refs0_below_mono) (simp add: less_eq_prod_def)

lemma safe_plain:
  assumes "tame stuck p" "\<And>bs v rest. p bs = Inr (v, rest) \<Longrightarrow> refs0_below (0, 0) v"
  shows "s0.safe (lift_read p) refs0_below"
proof (rule s0.safeI)
  fix m n d and input :: bytes assume inv: "dec0_inv d" "length input \<le> m" "n \<le> arenas d"
  then have "s0.good m n (lift_read p (input, d)) (\<lambda>_ _. True)"
    by (intro s0.safeD [OF s0.safe_lift [OF assms(1)]]) simp_all
  then show "s0.good m n (lift_read p (input, d)) refs0_below"
    using assms(2) [of input] by (cases "p input") (auto simp: lift_read_def intro: refs0_below_none)
qed

lemma plain_parsers:
  "s0.safe (lift_read parse_number) refs0_below" "s0.safe (lift_read parse_bool) refs0_below"
  "s0.safe (lift_read parse_string) refs0_below" "s0.safe (lift_read parse_long_string) refs0_below"
  "s0.safe (lift_read parse_date) refs0_below" "s0.safe (lift_read parse_xml_document) refs0_below"
  by (rule safe_plain [OF tame_parsers(1)] safe_plain [OF tame_parsers(2)] safe_plain [OF tame_parsers(3)]
      safe_plain [OF tame_parsers(4)] safe_plain [OF tame_parsers(5)] safe_plain [OF tame_parsers(6)],
      auto simp: parse_number_def parse_bool_def parse_string_def parse_long_string_def parse_date_def parse_xml_document_def
        rbind_Inr_iff)+

lemma safe_marker:
  assumes "ins_ok ins" "safe_next child"
  shows "s0.safe (parse_marker ins child depth marker) refs0_below"
proof (rule s0.safeI)
  fix m n d and input :: bytes assume inv: "dec0_inv d" "length input \<le> m" "n \<le> arenas d"
  have complex: "s0.safe (map_read A0Object (parse_object ins child depth)) refs0_below"
    "s0.safe (map_read A0Object (parse_ecma_array ins child depth)) refs0_below"
    "s0.safe (map_read A0StrictArray (parse_strict_array child)) refs0_below"
    "s0.safe (map_read (\<lambda>(cn, p). A0TypedObject cn p) (parse_typed_object ins child depth)) refs0_below"
    by (rule safe_map_read [OF safe_object0 [OF assms]] safe_map_read [OF safe_ecma_array [OF assms]]
        safe_map_read [OF safe_strict_array [OF assms(2)]] safe_map_read [OF safe_typed_object [OF assms]], auto)+
  show "s0.good m n (parse_marker ins child depth marker (input, d)) refs0_below"
    unfolding parse_marker_def using inv
    by (auto intro!: plain_parsers [THEN s0.safeD] complex [THEN s0.safeD] s0.safeD [OF safe_avmplus])
qed

lemma pushed_ok:
  assumes "dec0_inv d" "check_collection_len (length (od_objects d) + 1)"
  shows "dec0_inv (d\<lparr>od_objects := od_objects d @ [A0Null]\<rparr>)"
proof -
  have "arenas d \<le> arenas (d\<lparr>od_objects := od_objects d @ [A0Null]\<rparr>)"
    by (simp add: arenas_def)
  with assms show ?thesis
    by (auto simp: dec0_inv_def check_collection_len_def arenas_def intro: refs0_below_list)
qed

lemma finish_good:
  assumes "dec0_inv (snd s)" "length (fst s) \<le> m" "n \<le> arenas (snd s)" "i < fst (arenas (snd s))" "refs0_below (arenas (snd s)) v"
  shows "s0.good m n (amf0_finish i v s) opt_below"
  using assms
  by (auto simp: amf0_finish_def dec0_inv_def arenas_def opt_below_def list_all_iff dest!: set_update_subset_insert [THEN subsetD])

lemma safe_read_next:
  assumes ins: "ins_ok ins"
  shows "safe_next (read_next_value ins depth)"
proof (induction depth rule: depth_induct)
  case (deeper depth)
  show ?case
  proof (cases "check_depth depth")
    case True
    note marker = safe_marker [OF ins deeper [OF True], of depth]
    have obj: "s0.good m n (rbind (amf0_push (input, d)) (\<lambda>(_, s1). rbind (parse_marker ins (read_next_value ins (Suc depth)) depth b s1)
        (\<lambda>(v, s2). amf0_finish (length (od_objects d)) v s2))) opt_below"
      if inv: "dec0_inv d" and m: "length input \<le> m" and n: "n \<le> arenas d" for m n b input d
    proof (cases "check_collection_len (length (od_objects d) + 1)")
      case True
      let ?d = "d\<lparr>od_objects := od_objects d @ [A0Null]\<rparr>"
      have "n \<le> arenas ?d" "fst (arenas ?d) = Suc (length (od_objects d))"
        using n by (auto simp: arenas_def less_eq_prod_def)
      moreover have "s0.good m (arenas ?d) (parse_marker ins (read_next_value ins (Suc depth)) depth b (input, ?d)) refs0_below"
        using pushed_ok [OF inv True] m by (intro s0.safeD [OF marker]) simp_all
      ultimately have "s0.good m n (rbind (parse_marker ins (read_next_value ins (Suc depth)) depth b (input, ?d))
          (\<lambda>(v, s2). amf0_finish (length (od_objects d)) v s2)) opt_below"
        by (cases "parse_marker ins (read_next_value ins (Suc depth)) depth b (input, ?d)")
          (auto intro!: finish_good intro: order_trans simp: less_eq_prod_def)
      then show ?thesis
        using True by (simp add: amf0_push_def)
    qed (simp add: amf0_push_def)
    have ref: "s0.safe amf0_read_reference opt_below"
      unfolding amf0_read_reference_def [abs_def]
      by (rule s0.safeI) (auto intro!: s0.good_step [OF tame_amf0(2) [THEN s0.safe_lift]] simp: opt_below_def arenas_def)
    have plain: "s0.safe (map_read Some (parse_marker ins (read_next_value ins (Suc depth)) depth b)) opt_below" for b
      by (rule safe_map_read [OF marker]) (simp add: opt_below_def)
    show ?thesis
    proof (rule s0.safeI)
      fix m n d and input :: bytes assume "dec0_inv d" "length input \<le> m" "n \<le> arenas d"
      then show "s0.good m n (read_next_value ins depth (input, d)) opt_below"
        using True by (cases input)
          (auto simp: read_next_value.simps [of ins depth] Let_def opt_below_def [of _ None]
            intro!: obj s0.safeD [OF ref] s0.safeD [OF plain])
    qed
  qed (auto simp: s0.safe_def read_next_value.simps [of ins depth])
qed

lemma safe_roots0:
  assumes ins: "ins_ok ins"
    and "dec0_inv (snd s)" "length (fst s) \<le> m" "n \<le> arenas (snd s)" "list_all (refs0_below (arenas (snd s))) acc"
  shows "s0.good m n (amf0_read_roots ins acc s) (\<lambda>m vs. list_all (refs0_below m) vs)"
  using assms(2-)
proof (induction "MAX_COLLECTION_LEN - length acc" arbitrary: acc s rule: less_induct)
  case less
  have next_value: "s0.good m (arenas (snd s)) (read_next_value ins 0 s) opt_below"
    using less.prems(1,2) by (intro s0.safeD [OF safe_read_next [OF ins]]) simp_all
  have rest: "s0.good m n (amf0_read_roots ins (acc @ [v]) s1) (\<lambda>m vs. list_all (refs0_below m) vs)"
    if "dec0_inv (snd s1)" "length (fst s1) \<le> m" "arenas (snd s) \<le> arenas (snd s1)" "refs0_below (arenas (snd s1)) v"
      "check_collection_len (length acc + 1)" for v s1
    using that less.prems refs0_below_list [OF less.prems(4) that(3)]
    by (intro less.hyps) (auto simp: check_collection_len_def intro: order_trans)
  show ?case
    using next_value rest
    by (cases "read_next_value ins 0 s")
      (auto simp: amf0_read_roots.simps [of ins acc] opt_below_def split: option.splits
        intro: order_trans [OF less.prems(3)] refs0_below_list [OF less.prems(4)])
qed

section \<open>Arbitrary input\<close>

lemma dec0_inv_new [simp]: "dec0_inv amf0_decoder_new"
  by (simp add: dec0_inv_def amf0_decoder_new_def)

text \<open>
  C22 (safety). Whatever the bytes, decoding an AMF0 document ends, never indexes out of range, and a document
  that is returned has at most \<open>MAX_COLLECTION_LEN\<close> objects in each arena and no dangling reference in its
  roots, its objects or its embedded AMF3 objects.
\<close>

theorem amf0_decode_safe:
  assumes "ins_ok ins"
  shows "case amf0_deserialize_document ins input of
     Inl e \<Rightarrow> e \<noteq> A0Panic \<and> e \<noteq> A0OutOfFuel \<and> e \<noteq> A0EmbeddedAmf3 A3Panic
   | Inr d \<Rightarrow> length (doc_objects (zd_values d)) \<le> MAX_COLLECTION_LEN \<and> length (zd_embedded d) \<le> MAX_COLLECTION_LEN
       \<and> list_all (refs0_below (length (doc_objects (zd_values d)), length (zd_embedded d)))
            (doc_roots (zd_values d) @ doc_objects (zd_values d))
       \<and> list_all (refs_below (length (zd_embedded d))) (zd_embedded d)"
proof -
  have "s0.good (length input) (0, 0) (amf0_read_roots ins [] (input, amf0_decoder_new)) (\<lambda>m vs. list_all (refs0_below m) vs)"
    by (rule safe_roots0 [OF assms]) (simp_all add: less_eq_prod_def)
  then show ?thesis
    unfolding amf0_deserialize_document_def
    by (cases "amf0_read_roots ins [] (input, amf0_decoder_new)") (auto simp: document_from_parts_def dec0_inv_def arenas_def)
qed


definition sample_insert :: amf0_insert where
  "sample_insert k v m =
     (if k \<in> fst ` set m then map (\<lambda>(k', v'). if k' = k then (k, v) else (k', v')) m else m @ [(k, v)])"

lemma sample_insert_ok: "ins_ok sample_insert"
  by (simp add: ins_ok_def sample_insert_def)

theorem amf0_decode_safe_witness:
  "case amf0_deserialize_document sample_insert [7, 0, 0] of
     Inl e \<Rightarrow> e \<noteq> A0Panic \<and> e \<noteq> A0OutOfFuel \<and> e \<noteq> A0EmbeddedAmf3 A3Panic
   | Inr d \<Rightarrow> length (doc_objects (zd_values d)) \<le> MAX_COLLECTION_LEN"
  using amf0_decode_safe [OF sample_insert_ok, of "[7, 0, 0]"] by (auto split: sum.splits)

text \<open>
  Reading one AMF0 value, as a tree, from arbitrary bytes returns a value or an error: the loops
  and the expansion end, the one root is there, and no index is out of range.
\<close>

theorem amf0_single_safe:
  assumes "ins_ok ins"
  shows "amf0_deserialize_single ins sizes input \<noteq> Inl A0Panic \<and> amf0_deserialize_single ins sizes input \<noteq> Inl A0OutOfFuel"
proof -
  have v: "s0.good (length input) (0, 0) (read_next_value ins 0 (input, amf0_decoder_new)) opt_below"
    by (rule s0.safeD [OF safe_read_next [OF assms]]) (simp_all add: less_eq_prod_def)
  have t: "amf0_tree_result (amf0_to_tree sizes d l) \<noteq> Inl A0Panic \<and> amf0_tree_result (amf0_to_tree sizes d l) \<noteq> Inl A0OutOfFuel" for d l
    using a0.expand_total [of sizes "doc_roots (zd_values d)" "doc_objects (zd_values d)" "zd_embedded d" l]
    by (auto simp: amf0_to_tree_def amf0_tree_result_def split: option.splits sum.splits elim: amf0_tree_error.elims)
  have len: "length vs = length (doc_roots (zd_values d))" if "amf0_tree_result (amf0_to_tree sizes d l) = Inr vs" for d l vs
    using that by (auto simp: amf0_to_tree_def a0.expand_iff amf0_tree_result_def traverse_length split: option.splits sum.splits)
  show ?thesis
  proof (cases "read_next_value ins 0 (input, amf0_decoder_new)")
    case (Inl e)
    then show ?thesis
      using v by (simp add: amf0_deserialize_single_def)
  next
    case (Inr r)
    obtain x s where r: "r = (x, s)"
      by (cases r)
    show ?thesis
    proof (cases x)
      case None
      then show ?thesis
        by (simp add: amf0_deserialize_single_def Inr r)
    next
      case (Some w)
      let ?d = "\<lparr>zd_values = document_from_parts [w] (od_objects (snd s)), zd_embedded = od_embedded (snd s)\<rparr>"
      have "length vs = 1" if "amf0_tree_result (amf0_to_tree sizes ?d tree_limits_default) = Inr vs" for vs
        using len [OF that] by (simp add: document_from_parts_def)
      then show ?thesis
        using t [of ?d tree_limits_default]
        by (cases "amf0_tree_result (amf0_to_tree sizes ?d tree_limits_default)")
          (auto simp: amf0_deserialize_single_def Inr r Some Let_def)
    qed
  qed
qed

theorem amf0_single_safe_witness:
  "amf0_deserialize_single sample_insert \<lparr>size_amf0_value = 56, size_amf0_member = 80,
      size_nested = \<lparr>size_amf3_value = 72, size_amf3_member = 96, size_amf3_entry = 144\<rparr>\<rparr> [3, 0, 1, 97] \<noteq> Inl A0Panic"
  using amf0_single_safe [OF sample_insert_ok] by simp

end
