(* ===== verification/Amf0_Roundtrip.thy ===== *)
theory Amf0_Roundtrip
  imports Amf0_Nodes Amf3_Growth Amf0_Safe
begin

text \<open>
  What the AMF0 encoder writes the decoder reads back: all values by induction on the nesting depth,
  documents with shared and cyclic objects and embedded AMF3 values, and trees.
\<close>

section \<open>Scalars\<close>

lemma read_next_plain:
  assumes "check_depth depth" "\<not> referenceable m" "m \<noteq> 9" "m \<noteq> 7"
  shows "parse_element (read_next_value ins depth) (m # bs, d) =
    parse_marker ins (read_next_value ins (Suc depth)) depth m (bs, d)"
  using assms
  by (auto simp: parse_element_def read_next_value.simps [of ins depth] map_read_def rbind_def Let_def split: sum.splits)

lemma read_next_node:
  assumes "check_depth depth" "referenceable m"
  shows "read_next_value ins depth (m # bs, d) = read_node (parse_marker ins (read_next_value ins (Suc depth)) depth m) (bs, d)"
proof -
  have "m \<noteq> 9" "m \<noteq> 7"
    using assms(2) by (auto simp: referenceable_def)
  with assms show ?thesis
    by (simp add: read_next_value.simps [of ins depth] read_node_def Let_def)
qed

lemma parse_text_back:
  assumes "utf8_valid s" "length s < 2 ^ 32"
  shows "parse_long_string (be32 (word_of_nat (length s)) @ s @ rest) = Inr (A0Utf8String s, rest)"
    and "parse_xml_document (be32 (word_of_nat (length s)) @ s @ rest) = Inr (A0XmlDocument s, rest)"
proof -
  have "unat (word_of_nat (length s) :: u32) = length s"
    using assms(2) by (simp add: unat_of_nat take_bit_nat_eq_self_iff)
  then show "parse_long_string (be32 (word_of_nat (length s)) @ s @ rest) = Inr (A0Utf8String s, rest)"
    "parse_xml_document (be32 (word_of_nat (length s)) @ s @ rest) = Inr (A0XmlDocument s, rest)"
    using assms(1) by (simp_all add: parse_long_string_def parse_xml_document_def read_utf8_0)
qed

lemma parse_string_back:
  assumes "utf8_valid s" "length s \<le> AMF0_MAX_STRING_LEN"
  shows "parse_string (be16 (word_of_nat (length s)) @ s @ rest) = Inr (A0Utf8String s, rest)"
  using assms by (simp add: parse_string_def short_name read_utf8_0)

lemmas parse_scalars =
  parse_marker_def referenceable_def lift_read_def parse_bool_def parse_number_def parse_date_def rd8_def rd_f64_def

lemma codes0_plain:
  assumes "amf0_reference v = None" "\<not> is_complex v" "\<And>x. v \<noteq> A0AvmPlus x" and "amf0_local emb v" and d: "check_depth depth"
  shows "codes0 sizes emb pending (serialize_inline child depth v) (parse_element (read_next_value ins depth)) (\<lambda>_ _ a. a = v)"
proof (cases v)
  case (A0Utf8String s)
  show ?thesis
  proof (cases "AMF0_MAX_STRING_LEN < length s")
    case True
    then have "serialize_inline child depth v = emit (12 # be32 (word_of_nat (length s)) @ s)"
      by (simp add: A0Utf8String serialize_inline_def serialize_string_def)
    then show ?thesis
      using assms(4) d by (auto simp: A0Utf8String read_next_plain parse_scalars parse_text_back intro!: codes0_emit)
  next
    case False
    then have "serialize_inline child depth v = emit (2 # be16 (word_of_nat (length s)) @ s)"
      by (simp add: A0Utf8String serialize_inline_def serialize_string_def)
    then show ?thesis
      using assms(4) d False by (auto simp: A0Utf8String read_next_plain parse_scalars parse_string_back intro!: codes0_emit)
  qed
next
  case (A0XmlDocument s)
  then show ?thesis
    using assms(4) d by (auto simp: serialize_inline_def read_next_plain parse_scalars parse_text_back intro!: codes0_emit)
qed (use assms in \<open>auto simp: serialize_inline_def read_next_plain parse_scalars intro!: codes0_emit\<close>)

section \<open>Embedded AMF3 values\<close>

lemma parse_avmplus_back:
  assumes d: "check_depth depth" and wf: "amf3_wf x" "list_all amf3_wf emb" "amf3_tables_fit (document_from_parts [x] emb)"
    and w: "amf3_encode_document [x] emb [] = (bs, Inr u)" and fit: "fits0 dec (length bs)"
  shows "\<exists>y news. (\<forall>rest. parse_avmplus depth (bs @ rest, dec) =
      Inr (A0AvmPlus y, (rest, dec\<lparr>od_embedded := od_embedded dec @ news\<rparr>)))
    \<and> length news \<le> length bs \<and> embedded_copy sizes emb (od_embedded dec @ news) x y"
proof -
  obtain y objs refs where y: "\<And>rest. amf3_deserialize_document_single (bs @ rest) = Inr (document_from_parts [y] objs, rest)"
    and copy: "document_copy (amf3_graph sizes) amf3_replace amf3_complex amf3_leaf refs (document_from_parts [x] emb)
      (document_from_parts [y] objs)" and len: "length objs \<le> length bs"
    using amf3_single_back [OF wf(1,2) w wf(3), of sizes] by blast
  let ?base = "length (od_embedded dec)"
  have "embedded_copy sizes emb objs x y"
    using copy unfolding document_copy_def embedded_copy_def by (auto simp: document_from_parts_def)
  then have "embedded_copy sizes emb (od_embedded dec @ map (relocate ?base) objs) x (relocate ?base y)"
    by (rule embedded_copy_relocate)
  moreover have "parse_avmplus depth (bs @ rest, dec) =
      Inr (A0AvmPlus (relocate ?base y), (rest, dec\<lparr>od_embedded := od_embedded dec @ map (relocate ?base) objs\<rparr>))" for rest
    using d fit len
    by (simp add: parse_avmplus_def y document_from_parts_def Let_def check_collection_len_def fits0_def)
  ultimately show ?thesis
    using len by (intro exI [of _ "relocate ?base y"] exI [of _ "map (relocate ?base) objs"]) simp
qed

lemma in_step0_embed:
  assumes "in_step0 sizes emb pending e d"
  shows "in_step0 sizes emb pending e (d\<lparr>od_embedded := od_embedded d @ news\<rparr>)" (is "in_step0 _ _ _ _ ?d'")
proof -
  have keep: "amf0_node sizes e ?d' a b" if "amf0_node sizes e d a b" for a b
    by (rule amf0_node_mono [OF _ _ _ _ that]) simp_all
  have "\<forall>i n. refs0_of e i = Some n \<longrightarrow> n < length (od_objects d) \<and> i < length (oe_objects e)
      \<and> (n \<in> pending \<or> amf0_node sizes e ?d' (oe_objects e ! i) (od_objects d ! n))"
    using assms keep unfolding in_step0_def by blast
  with assms show ?thesis
    unfolding in_step0_def by simp
qed

lemma codes0_avmplus:
  assumes wf: "amf0_local emb (A0AvmPlus x)" and d: "check_depth depth"
  shows "codes0 sizes emb pending (serialize_avmplus x) (parse_element (read_next_value ins depth))
    (\<lambda>e d a. amf0_copy sizes e d (A0AvmPlus x) a)"
  unfolding codes0_def
proof (intro allI impI)
  fix e dec bs e'
  assume st: "in_step0 sizes emb pending e dec" and w: "serialize_avmplus x e = Inr (bs, e')" and fit: "fits0 dec (length bs)"
  have e: "oe_embedded e = emb" "list_all amf3_wf emb"
    using st by (simp_all add: in_step0_def)
  obtain b u where b: "amf3_encode_document [x] emb [] = (b, Inr u)" "bs = 17 # b" "e' = e"
    using w e by (auto simp: serialize_avmplus_def split: prod.splits sum.splits)
  have "fits0 dec (length b)"
    using fit by (simp add: b(2) fits0_def)
  then obtain y news where y: "\<And>rest. parse_avmplus depth (b @ rest, dec) =
      Inr (A0AvmPlus y, (rest, dec\<lparr>od_embedded := od_embedded dec @ news\<rparr>))"
    "length news \<le> length b" "embedded_copy (size_nested sizes) emb (od_embedded dec @ news) x y"
    using parse_avmplus_back [OF d _ e(2) _ b(1)] wf by fastforce
  let ?d' = "dec\<lparr>od_embedded := od_embedded dec @ news\<rparr>"
  have "parse_element (read_next_value ins depth) (bs @ rest, dec) = Inr (A0AvmPlus y, (rest, ?d'))" for rest
    using d y(1) by (simp add: b(2) read_next_plain parse_marker_def referenceable_def)
  moreover have "in_step0 sizes emb pending e' ?d'"
    using in_step0_embed [OF st] b(3) by simp
  moreover have "extends0 (length bs) e dec e' ?d'"
    using y(2) by (auto simp: extends0_def b(2,3))
  moreover have "amf0_copy sizes e' ?d' (A0AvmPlus x) (A0AvmPlus y)"
    using y(3) e(1) b(3) by (intro copy_leaf) (simp add: amf0_leaf_def)
  ultimately show "\<exists>a d'. (\<forall>rest. parse_element (read_next_value ins depth) (bs @ rest, dec) = Inr (a, (rest, d')))
      \<and> in_step0 sizes emb pending e' d' \<and> extends0 (length bs) e dec e' d' \<and> amf0_copy sizes e' d' (A0AvmPlus x) a"
    by blast
qed

section \<open>Complex values\<close>

lemma codes0_prefix:
  assumes "codes0 sizes emb pending w r' Q" and "\<And>rest d. r (pre @ rest, d) = r' (rest, d)"
  shows "codes0 sizes emb pending (wseq (emit pre) w) r Q"
  unfolding codes0_def
proof (intro allI impI)
  fix e d bs e'
  assume st: "in_step0 sizes emb pending e d" and wr: "wseq (emit pre) w e = Inr (bs, e')" and fit: "fits0 d (length bs)"
  obtain b where b: "w e = Inr (b, e')" "bs = pre @ b"
    using wr by (auto elim!: wseq_InrE)
  have "fits0 d (length b)"
    using fit by (simp add: b(2) fits0_def)
  from codes0D [OF assms(1) st b(1) this] obtain a d' where "\<And>rest. r' (b @ rest, d) = Inr (a, (rest, d'))"
    "in_step0 sizes emb pending e' d'" "extends0 (length b) e d e' d'" "Q e' d' a"
    by blast
  then show "\<exists>a d'. (\<forall>rest. r (bs @ rest, d) = Inr (a, (rest, d'))) \<and> in_step0 sizes emb pending e' d'
      \<and> extends0 (length bs) e d e' d' \<and> Q e' d' a"
    using assms(2) by (auto simp: b(2) intro: extends0_le)
qed

definition level0_ok ::
    "amf0_sizes \<Rightarrow> amf3_value list \<Rightarrow> (amf0_value \<Rightarrow> amf0_writer) \<Rightarrow> amf0_value option amf0_reader \<Rightarrow> bool" where
  "level0_ok sizes emb child rd \<longleftrightarrow>
     (\<forall>pending v. amf0_wf emb v \<longrightarrow> codes0 sizes emb pending (child v) (parse_element rd) (\<lambda>e d a. amf0_copy sizes e d v a))"

lemma level0_okD:
  "level0_ok sizes emb child rd \<Longrightarrow> amf0_wf emb v \<Longrightarrow>
   codes0 sizes emb pending (child v) (parse_element rd) (\<lambda>e d a. amf0_copy sizes e d v a)"
  by (simp add: level0_ok_def)

lemma map_read_eq: "map_read f r = (\<lambda>s. rbind (r s) (\<lambda>(a, s1). Inr (f a, s1)))"
  by (simp add: map_read_def fun_eq_iff)

lemma wseq_emit_ConsE:
  assumes "wseq (emit (m # pre)) w e = Inr (bs, e')"
  obtains b where "bs = m # b" "wseq (emit pre) w e = Inr (b, e')"
  using assms by (cases "w e") (auto simp: wseq_def emit_def)

lemma codes0_complex:
  assumes ins: "ins_ok ins" and lv: "level0_ok sizes emb child rd" and wf: "amf0_wf emb v" and c: "is_complex v"
    and d: "check_depth depth" and w: "serialize_inline child depth v e = Inr (bs, e')"
  obtains m b body where "bs = m # b" "referenceable m" "body e = Inr (b, e')"
    "codes0 sizes emb pending body (parse_marker ins rd depth m) (\<lambda>e d x. amf0_node sizes e d v x)"
proof (cases v)
  case (A0Object p)
  have "codes0 sizes emb pending (serialize_object_body child depth p) (map_read A0Object (parse_object ins rd depth))
      (\<lambda>e d x. amf0_node sizes e d v x)"
    unfolding map_read_eq using amf0_wfD [OF wf]
    by (intro codes0_map [OF codes0_object [OF _ ins]]) (auto simp: A0Object intro: level0_okD [OF lv] node0_members)
  moreover have "parse_marker ins rd depth 3 = map_read A0Object (parse_object ins rd depth)"
    by (simp add: parse_marker_def fun_eq_iff)
  moreover obtain b where "bs = 3 # b" "serialize_object_body child depth p e = Inr (b, e')"
    using w by (auto simp: A0Object serialize_inline_def serialize_object_def wfail_def split: if_splits elim!: wseq_InrE)
  ultimately show ?thesis
    using that [of 3] by (simp add: referenceable_def)
next
  case (A0TypedObject cn p)
  let ?pre = "be16 (word_of_nat (length cn)) @ cn"
  have len: "length cn \<le> AMF0_MAX_STRING_LEN"
    using w by (auto simp: A0TypedObject serialize_inline_def wfail_def split: if_splits)
  have valid: "utf8_valid cn"
    using amf0_wfD(1) [OF wf] by (simp add: A0TypedObject)
  let ?r = "map_read (\<lambda>(cn, p). A0TypedObject cn p) (parse_typed_object ins rd depth)"
  have body: "codes0 sizes emb pending (serialize_object_body child depth p)
      (\<lambda>s. rbind (parse_object ins rd depth s) (\<lambda>(a, s1). Inr (A0TypedObject cn a, s1))) (\<lambda>e d x. amf0_node sizes e d v x)"
    using amf0_wfD [OF wf]
    by (intro codes0_map [OF codes0_object [OF _ ins]]) (auto simp: A0TypedObject intro: level0_okD [OF lv] node0_members)
  have read: "?r (?pre @ rest, dec) = rbind (parse_object ins rd depth (rest, dec)) (\<lambda>(a, s1). Inr (A0TypedObject cn a, s1))" for rest dec
    using d valid
    by (auto simp: map_read_def parse_typed_object_def lift_read_def short_name [OF len] read_utf8_0 rbind_def split: sum.splits)
  have "codes0 sizes emb pending (wseq (emit ?pre) (serialize_object_body child depth p)) ?r (\<lambda>e d x. amf0_node sizes e d v x)"
    by (rule codes0_prefix [OF body read])
  moreover have "parse_marker ins rd depth 16 = ?r"
    by (simp add: parse_marker_def fun_eq_iff)
  moreover obtain b where "bs = 16 # b" "wseq (emit ?pre) (serialize_object_body child depth p) e = Inr (b, e')"
    using w len by (auto simp: A0TypedObject serialize_inline_def elim!: wseq_emit_ConsE)
  ultimately show ?thesis
    using that [of 16] by (simp add: referenceable_def)
next
  case (A0StrictArray vs)
  have len: "length vs \<le> MAX_COLLECTION_LEN"
    using w by (auto simp: A0StrictArray serialize_inline_def serialize_strict_array_def check_collection_len_def wfail_def split: if_splits)
  then have un: "unat (word_of_nat (length vs) :: u32) = length vs"
    by (simp add: unat_of_nat take_bit_nat_eq_self_iff MAX_COLLECTION_LEN_def)
  let ?r = "map_read A0StrictArray (parse_strict_array rd)"
  have body: "codes0 sizes emb pending (wlist child vs)
      (\<lambda>s. rbind (read_n (length vs) (parse_element rd) s) (\<lambda>(a, s1). Inr (A0StrictArray a, s1))) (\<lambda>e d x. amf0_node sizes e d v x)"
    using amf0_wfD [OF wf] by (intro codes0_map [OF codes0_list]) (auto simp: A0StrictArray intro: level0_okD [OF lv] node0_array)
  have read: "?r (be32 (word_of_nat (length vs)) @ rest, dec) =
      rbind (read_n (length vs) (parse_element rd) (rest, dec)) (\<lambda>(a, s1). Inr (A0StrictArray a, s1))" for rest dec
    using len by (simp add: map_read_def parse_strict_array_def lift_read_def un check_collection_len_def)
  have "codes0 sizes emb pending (wseq (emit (be32 (word_of_nat (length vs)))) (wlist child vs)) ?r (\<lambda>e d x. amf0_node sizes e d v x)"
    by (rule codes0_prefix [OF body read])
  moreover have "parse_marker ins rd depth 10 = ?r"
    by (simp add: parse_marker_def fun_eq_iff)
  moreover obtain b where "bs = 10 # b" "wseq (emit (be32 (word_of_nat (length vs)))) (wlist child vs) e = Inr (b, e')"
    using w by (auto simp: A0StrictArray serialize_inline_def serialize_strict_array_def wfail_def split: if_splits
        elim!: wseq_emit_ConsE)
  ultimately show ?thesis
    using that [of 10] by (simp add: referenceable_def)
qed (use c in simp_all)


section \<open>Every value\<close>

definition serialize_here :: "nat \<Rightarrow> amf0_value \<Rightarrow> amf0_writer" where
  "serialize_here depth v c =
     serialize_inline (serialize_value (Suc depth)) depth v (if is_complex v then c\<lparr>oe_next := oe_next c + 1\<rparr> else c)"

lemma serialize_value_here:
  "check_depth depth \<Longrightarrow> amf0_reference v = None \<Longrightarrow> serialize_value depth v c = serialize_here depth v c"
  by (cases v) (simp_all add: serialize_value.simps [of depth] serialize_here_def)

lemma serialize_too_deep: "\<not> check_depth depth \<Longrightarrow> serialize_value depth v c = Inl A0SDepthLimit"
  by (simp add: serialize_value.simps [of depth])

lemma serialize_refE:
  assumes "serialize_value depth (A0Reference i) c = Inr (bs, c')"
  obtains (again) index where "i < length (oe_objects c)" "hm_get (oe_refs c) i = Some index" "c' = c" "check_depth depth"
      "bs = 7 # be16 index"
  | (first) "i < length (oe_objects c)" "is_complex (oe_objects c ! i)" "hm_get (oe_refs c) i = None" "check_depth depth"
      "oe_next c \<le> 65535"
      "serialize_here depth (oe_objects c ! i) (c\<lparr>oe_refs := hm_insert i (word_of_nat (oe_next c)) (oe_refs c)\<rparr>) = Inr (bs, c')"
proof -
  have d: "check_depth depth" and i: "i < length (oe_objects c)" and m: "is_complex (oe_objects c ! i)"
    using assms by (auto simp: serialize_value.simps [of depth] split: if_splits option.splits)
  then have "amf0_reference (oe_objects c ! i) = None"
    by (simp add: amf0_complex_simps)
  with d i m assms that show ?thesis
    by (auto simp: serialize_value.simps [of depth "A0Reference i"] serialize_value_here split: option.splits if_splits)
qed

lemma back_here:
  assumes st: "in_step0 sizes emb pending e0 d0" and c: "is_complex v" and wf: "amf0_wf emb v" and ins: "ins_ok ins"
    and lv: "level0_ok sizes emb (serialize_value (Suc depth)) (read_next_value ins (Suc depth))" and d: "check_depth depth"
    and w: "serialize_here depth v (e0\<lparr>oe_refs := refs\<rparr>) = Inr (bs, e')" and fit: "fits0 d0 (length bs)"
    and ent: "entered0 v e0 (e0\<lparr>oe_refs := refs, oe_next := oe_next e0 + 1\<rparr>)"
  shows "\<exists>d'. (\<forall>rest. parse_element (read_next_value ins depth) (bs @ rest, d0) = Inr (A0Reference (length (od_objects d0)), (rest, d')))
    \<and> in_step0 sizes emb pending e' d' \<and> extends0 (length bs) e0 d0 e' d'
    \<and> amf0_copy sizes e' d' v (A0Reference (length (od_objects d0)))
    \<and> refs0_of (e0\<lparr>oe_refs := refs, oe_next := oe_next e0 + 1\<rparr>) \<subseteq>\<^sub>m refs0_of e'"
proof -
  let ?e1 = "e0\<lparr>oe_refs := refs, oe_next := oe_next e0 + 1\<rparr>"
  have w': "serialize_inline (serialize_value (Suc depth)) depth v ?e1 = Inr (bs, e')"
    using w c by (simp add: serialize_here_def)
  obtain m b body where b: "bs = m # b" "referenceable m" "body ?e1 = Inr (b, e')"
    "codes0 sizes emb (insert (length (od_objects d0)) pending) body
       (parse_marker ins (read_next_value ins (Suc depth)) depth m) (\<lambda>e d x. amf0_node sizes e d v x)"
    using codes0_complex [OF ins lv wf c d w'] by blast
  have "fits0 d0 (Suc (length b))"
    using fit by (simp add: b(1))
  from codes0_node [OF st ent b(3) this b(4)] show ?thesis
    using d b(2) unfolding parse_element_Inr by (simp add: b(1) read_next_node)
qed

lemma back_again:
  assumes st: "in_step0 sizes emb pending e d" and r: "hm_get (oe_refs e) i = Some index" and dep: "check_depth depth"
  shows "parse_element (read_next_value ins depth) (7 # be16 index @ rest, d) = Inr (A0Reference (unat index), (rest, d))"
proof -
  have "unat index < length (od_objects d)"
    using st r by (auto simp: in_step0_def refs0_of_def)
  then show ?thesis
    using dep by (simp add: parse_element_Inr read_next_value.simps [of ins depth] amf0_read_reference_def lift_read_def Let_def)
qed

lemma codes0_value:
  assumes ins: "ins_ok ins" and lv: "level0_ok sizes emb (serialize_value (Suc depth)) (read_next_value ins (Suc depth))"
    and d: "check_depth depth" and wf: "amf0_wf emb v"
  shows "codes0 sizes emb pending (serialize_value depth v) (parse_element (read_next_value ins depth))
    (\<lambda>e d a. amf0_copy sizes e d v a)"
proof (cases "is_complex v \<or> amf0_reference v \<noteq> None")
  case False
  then have w: "serialize_value depth v = serialize_inline (serialize_value (Suc depth)) depth v"
    using d by (intro ext) (simp add: serialize_value_here serialize_here_def)
  show ?thesis
  proof (cases "\<exists>x. v = A0AvmPlus x")
    case True
    then show ?thesis
      unfolding w using codes0_avmplus amf0_wfD(1) [OF wf] d by (fastforce simp: serialize_inline_def)
  next
    case plain: False
    have "amf0_copy sizes e dec v v" for e dec
      using False plain by (intro copy_leaf) (cases v; simp add: amf0_leaf_def)
    moreover have "codes0 sizes emb pending (serialize_inline (serialize_value (Suc depth)) depth v)
        (parse_element (read_next_value ins depth)) (\<lambda>_ _ a. a = v)"
      using False plain amf0_wfD(1) [OF wf] d by (intro codes0_plain) auto
    ultimately show ?thesis
      unfolding w codes0_def by metis
  qed
next
  case True
  show ?thesis
    unfolding codes0_def
  proof (intro allI impI)
    fix e dec bs e'
    assume st: "in_step0 sizes emb pending e dec" and w: "serialize_value depth v e = Inr (bs, e')" and fit: "fits0 dec (length bs)"
    show "\<exists>a d'. (\<forall>rest. parse_element (read_next_value ins depth) (bs @ rest, dec) = Inr (a, (rest, d')))
        \<and> in_step0 sizes emb pending e' d' \<and> extends0 (length bs) e dec e' d' \<and> amf0_copy sizes e' d' v a"
    proof (cases "amf0_reference v")
      case None
      then have "serialize_here depth v (e\<lparr>oe_refs := oe_refs e\<rparr>) = Inr (bs, e')"
        using w d by (simp add: serialize_value_here)
      moreover have "entered0 v e (e\<lparr>oe_refs := oe_refs e, oe_next := oe_next e + 1\<rparr>)"
        by (simp add: entered0_def refs0_of_def fun_eq_iff)
      ultimately show ?thesis
        using back_here [OF st _ wf ins lv d _ fit] True None by blast
    next
      case (Some i)
      then have v: "v = A0Reference i"
        by (cases v) auto
      from w [unfolded v] show ?thesis
      proof (cases rule: serialize_refE)
        case (again index)
        then have "amf0_copy sizes e' dec v (A0Reference (unat index))"
          using v by (intro copy_ref [of _ _ i _ "unat index"]) (simp_all add: refs0_of_def)
        with again back_again [OF st again(2,4)] st show ?thesis
          by (intro exI conjI) auto
      next
        case first
        have wf': "amf0_wf emb (oe_objects e ! i)"
          using st first(1) by (simp add: in_step0_def list_all_length)
        let ?refs = "hm_insert i (word_of_nat (oe_next e)) (oe_refs e)"
        have "unat (word_of_nat (oe_next e) :: u16) = oe_next e"
          using first(5) by (simp add: unat_of_nat take_bit_nat_eq_self_iff)
        then have refs: "refs0_of (e\<lparr>oe_refs := ?refs, oe_next := oe_next e + 1\<rparr>) = (refs0_of e)(i \<mapsto> oe_next e)"
          by (auto simp: refs0_of_def fun_eq_iff)
        have ent: "entered0 (oe_objects e ! i) e (e\<lparr>oe_refs := ?refs, oe_next := oe_next e + 1\<rparr>)"
          using first(1,3) refs by (auto simp: entered0_def refs0_of_def)
        obtain d' where b: "\<And>rest. parse_element (read_next_value ins depth) (bs @ rest, dec) = Inr (A0Reference (length (od_objects dec)), (rest, d'))"
          "in_step0 sizes emb pending e' d'" "extends0 (length bs) e dec e' d'"
          "(refs0_of e)(i \<mapsto> oe_next e) \<subseteq>\<^sub>m refs0_of e'"
          unfolding refs [symmetric] using back_here [OF st first(2) wf' ins lv d first(6) fit ent] by blast
        have "refs0_of e' i = Some (length (od_objects dec))"
          using b(4) st by (simp add: map_le_def in_step0_def)
        with b(1-3) show ?thesis
          unfolding v by (auto intro!: copy_ref [of _ _ i])
      qed
    qed
  qed
qed


lemma level0_value:
  assumes ins: "ins_ok ins"
  shows "level0_ok sizes emb (serialize_value depth) (read_next_value ins depth)"
proof (induction depth rule: depth_induct)
  case (deeper depth)
  show ?case
  proof (cases "check_depth depth")
    case True
    then show ?thesis
      using codes0_value [OF ins deeper [OF True] True] by (simp add: level0_ok_def)
  qed (simp add: level0_ok_def codes0_def serialize_too_deep)
qed

section \<open>Documents\<close>

lemma roots0_back:
  assumes "ins_ok ins" "in_step0 sizes emb {} e d" "wlist (serialize_value 0) vs e = Inr (bs, e')" "fits0 d (length bs)"
    "list_all (amf0_wf emb) vs" "length acc + length vs \<le> MAX_COLLECTION_LEN"
  shows "\<exists>as d'. amf0_read_roots ins acc (bs, d) = Inr (acc @ as, ([], d')) \<and> in_step0 sizes emb {} e' d'
    \<and> list_all2 (amf0_copy sizes e' d') vs as \<and> extends0 (length bs) e d e' d'"
  using assms(2-6)
proof (induction vs arbitrary: e d bs acc)
  case Nil
  then show ?case
    by (simp add: amf0_read_roots.simps [of ins acc] read_next_value.simps [of ins 0] check_depth_def)
next
  case (Cons v vs)
  obtain b1 e1 b2 where b: "serialize_value 0 v e = Inr (b1, e1)" "wlist (serialize_value 0) vs e1 = Inr (b2, e')" "bs = b1 @ b2"
    using Cons.prems(2) by (auto elim: wseq_InrE)
  have fit1: "fits0 d (length b1)" and fit: "fits0 d (length b1 + length b2)"
    using Cons.prems(3) by (simp_all add: b(3) fits0_def)
  obtain a d1 where a: "\<And>rest. parse_element (read_next_value ins 0) (b1 @ rest, d) = Inr (a, (rest, d1))" "in_step0 sizes emb {} e1 d1"
    "extends0 (length b1) e d e1 d1" "amf0_copy sizes e1 d1 v a"
    using codes0D [OF level0_okD [OF level0_value [OF assms(1)]] Cons.prems(1) b(1) fit1] Cons.prems(4) by auto
  obtain as d' where as: "amf0_read_roots ins (acc @ [a]) (b2, d1) = Inr ((acc @ [a]) @ as, ([], d'))" "in_step0 sizes emb {} e' d'"
    "list_all2 (amf0_copy sizes e' d') vs as" "extends0 (length b2) e1 d1 e' d'"
    using Cons.IH [OF a(2) b(2) fits0_after [OF a(3) fit], of "acc @ [a]"] Cons.prems(4,5) by auto
  have "amf0_read_roots ins acc (bs, d) = Inr (acc @ a # as, ([], d'))"
    using a(1) [of b2] as(1) Cons.prems(5)
    by (simp add: amf0_read_roots.simps [of ins acc] b(3) parse_element_Inr check_collection_len_def)
  moreover have "amf0_copy sizes e' d' v a"
    by (rule amf0_copy_extends [OF as(4) a(4)])
  ultimately show ?case
    using as extends0_trans [OF a(3) as(4)] by (intro exI [of _ "a # as"] exI [of _ d']) (simp add: b(3))
qed

abbreviation amf0_document_copy ::
    "amf0_sizes \<Rightarrow> (object_id \<Rightarrow> object_id option) \<Rightarrow> amf0_document \<Rightarrow> amf0_document \<Rightarrow> bool" where
  "amf0_document_copy sizes refs d d' \<equiv>
     document_copy (amf0_graph sizes) amf0_replace is_complex
       (amf0_leaf (size_nested sizes) (zd_embedded d) (zd_embedded d')) refs (zd_values d) (zd_values d')"

lemma document0_back:
  assumes ins: "ins_ok ins" and wf: "list_all (amf0_wf (zd_embedded d)) (doc_roots (zd_values d))"
      "list_all (amf0_wf (zd_embedded d)) (doc_objects (zd_values d))" "list_all amf3_wf (zd_embedded d)"
    and len: "length (doc_roots (zd_values d)) \<le> MAX_COLLECTION_LEN"
    and w: "amf0_document_serialize d = Inr bs" and bound: "length bs \<le> MAX_COLLECTION_LEN"
  shows "\<exists>d' refs. amf0_deserialize_document ins bs = Inr d' \<and> amf0_document_copy sizes refs d d'"
proof -
  let ?e = "\<lparr>oe_objects = doc_objects (zd_values d), oe_embedded = zd_embedded d, oe_refs = [], oe_next = 0\<rparr>"
  obtain e' where w': "wlist (serialize_value 0) (doc_roots (zd_values d)) ?e = Inr (bs, e')"
    using w by (auto simp: amf0_document_serialize_def amf0_encode_document_def split: sum.splits)
  have start: "in_step0 sizes (zd_embedded d) {} ?e amf0_decoder_new"
    using wf by (auto simp: in_step0_def amf0_decoder_new_def refs0_of_def inj_on_def)
  have "fits0 amf0_decoder_new (length bs)"
    using bound by (simp add: fits0_def amf0_decoder_new_def)
  from roots0_back [OF ins start w' this wf(1), of "[]"] len
  obtain as dec where r: "amf0_read_roots ins [] (bs, amf0_decoder_new) = Inr (as, ([], dec))"
    "in_step0 sizes (zd_embedded d) {} e' dec" "list_all2 (amf0_copy sizes e' dec) (doc_roots (zd_values d)) as"
    "extends0 (length bs) ?e amf0_decoder_new e' dec"
    by auto
  have e': "oe_objects e' = doc_objects (zd_values d)" "oe_embedded e' = zd_embedded d"
    using r(4) by (simp_all add: extends0_def)
  let ?d' = "\<lparr>zd_values = document_from_parts as (od_objects dec), zd_embedded = od_embedded dec\<rparr>"
  have "amf0_deserialize_document ins bs = Inr ?d'"
    using r(1) by (simp add: amf0_deserialize_document_def)
  moreover have "amf0_document_copy sizes (refs0_of e') d ?d'"
    using r(2,3) unfolding document_copy_def by (auto simp: document_from_parts_def in_step0_def e')
  ultimately show ?thesis
    by blast
qed


definition sample_sizes0 :: amf0_sizes where
  "sample_sizes0 = \<lparr>size_amf0_value = 56, size_amf0_member = 80,
     size_nested = \<lparr>size_amf3_value = 72, size_amf3_member = 96, size_amf3_entry = 144\<rparr>\<rparr>"


section \<open>Trees\<close>

lemma amf0_leaf_unfold:
  assumes "amf0_leaf (size_nested sizes) [] emb v a" "amf0_unfold sizes k [] [] v = Some r"
  shows "amf0_unfold sizes k objs emb a = Some r"
proof (cases "\<exists>x. v = A0AvmPlus x")
  case True
  then obtain x y refs where v: "v = A0AvmPlus x" "a = A0AvmPlus y" and c: "copy3 (size_nested sizes) refs emb x y"
    using assms(1) by (auto simp: amf0_leaf_def embedded_copy_def)
  obtain k' where k: "k = Suc k'"
    using assms(2) by (cases k) auto
  have "amf3_unfold (size_nested sizes) k' emb y = Some q" if "amf3_unfold (size_nested sizes) k' [] x = Some q" for q
    using a3.unfold_copy [OF amf3_leaf_unfold c that] .
  then show ?thesis
    using assms(2) unfolding k v unfold_Suc_iff by (auto simp: deref_def)
next
  case False
  then have "a = v"
    using assms(1) by (auto simp: amf0_leaf_def split: amf0_value.splits)
  then show ?thesis
    using a0.unfold_closed [OF assms(2)] by simp
qed

lemma amf0_values_back:
  assumes "ins_ok ins" "list_all (amf0_wf []) vs" "length vs \<le> MAX_COLLECTION_LEN"
    and "amf0_serialize vs = Inr bs" and "length bs \<le> MAX_COLLECTION_LEN"
    and "amf0_to_tree sizes \<lparr>zd_values = document_from_parts vs [], zd_embedded = []\<rparr> tree_limits_default = Some (Inr vs)"
  shows "amf0_deserialize ins sizes bs = Inr vs"
proof -
  let ?d = "\<lparr>zd_values = document_from_parts vs [], zd_embedded = []\<rparr>"
  have "amf0_document_serialize ?d = Inr bs"
    using assms(4) by (simp add: amf0_serialize_def amf0_serialize_into_def amf0_document_serialize_def document_from_parts_def)
  then obtain d' refs where d': "amf0_deserialize_document ins bs = Inr d'" "amf0_document_copy sizes refs ?d d'"
    using document0_back [OF assms(1), of ?d bs sizes] assms(2,3,5) by (auto simp: document_from_parts_def)
  have copy: "document_copy (amf0_graph sizes) amf0_replace is_complex (amf0_leaf (size_nested sizes) [] (zd_embedded d')) refs
      (zd_values ?d) (zd_values d')"
    using d'(2) by simp
  have "amf0_to_tree sizes d' tree_limits_default = Some (Inr vs)"
    using a0.expand_copy [OF amf0_leaf_unfold copy] assms(6) by (simp add: amf0_to_tree_def document_from_parts_def expand_def)
  then show ?thesis
    using d'(1) by (simp add: amf0_deserialize_def amf0_tree_result_def)
qed

text \<open>
  AMF0 values without references, embedded AMF3 values included, that the encoder accepts
  and that are within the limits of an expansion are read back as they are.
\<close>

theorem amf0_roundtrip:
  assumes "ins_ok ins" "list_all (amf0_wf []) vs" "length vs \<le> MAX_COLLECTION_LEN"
    and "amf0_serialize vs = Inr bs" and "length bs \<le> MAX_COLLECTION_LEN"
    and "amf0_to_tree sizes \<lparr>zd_values = document_from_parts vs [], zd_embedded = []\<rparr> tree_limits_default = Some (Inr vs)"
  shows "amf0_deserialize ins sizes bs = Inr vs"
  using assms by (rule amf0_values_back)

theorem amf0_roundtrip_witness:
  "amf0_deserialize sample_insert sample_sizes0 [3, 0, 1, 0x61, 17, 9, 3, 1, 1, 0, 1, 0x62, 1, 1, 0, 0, 9]
   = Inr [A0Object [([0x61], A0AvmPlus (A3Array [A3Null] [])), ([0x62], A0Boolean True)]]"
proof (rule amf0_roundtrip [OF sample_insert_ok])
  let ?vs = "[A0Object [([0x61], A0AvmPlus (A3Array [A3Null] [])), ([0x62], A0Boolean True)]]"
  have "amf3_tables_fit (document_from_parts [A3Array [A3Null] []] [])"
    by code_simp
  then show "list_all (amf0_wf []) ?vs" "length ?vs \<le> MAX_COLLECTION_LEN"
    "length [3 :: u8, 0, 1, 0x61, 17, 9, 3, 1, 1, 0, 1, 0x62, 1, 1, 0, 0, 9] \<le> MAX_COLLECTION_LEN"
    by (simp_all add: amf0_wf.simps amf3_wf.simps names_ok_def MAX_COLLECTION_LEN_def)
  show "amf0_serialize ?vs = Inr [3, 0, 1, 0x61, 17, 9, 3, 1, 1, 0, 1, 0x62, 1, 1, 0, 0, 9]"
    by code_simp
  show "amf0_to_tree sample_sizes0 \<lparr>zd_values = document_from_parts ?vs [], zd_embedded = []\<rparr> tree_limits_default = Some (Inr ?vs)"
    by code_simp
qed

section \<open>Empty names\<close>

text \<open>
  The round trips need names that are not empty, and so does the code: both encoders accept an empty name, which the
  formats use as the end of an object. The AMF0 decoder rejects what is written; the AMF3 decoder takes the rest of the
  object for further values.
\<close>

lemma amf0_empty_name:
  "amf0_serialize [A0Object [([], A0Null)]] = Inr [3, 0, 0, 5, 0, 0, 9]"
  "amf0_deserialize_document sample_insert [3, 0, 0, 5, 0, 0, 9] = Inl A0UnexpectedEmptyObjectPropertyName"
  by code_simp+

lemma amf3_empty_name:
  "amf3_serialize [A3Object None [] (Some [([], A3Boolean True)])] = Inr [10, 11, 1, 1, 3, 1]"
  "amf3_deserialize_document [10, 11, 1, 1, 3, 1]
     = Inr (document_from_parts [A3Reference 0, A3Boolean True, A3Null] [A3Object None [] (Some [])])"
  by code_simp+

end
