(* ===== verification/Writer_Safety.thy ===== *)
theory Writer_Safety
  imports Amf0 Amf3_Tree
begin

text \<open>
  The AMF encoders do not panic: the \<open>unreachable!()\<close> arms of \<open>write_inline\<close> and \<open>serialize_inline\<close>, which
  match a reference, are never reached, whatever the value and the state of the encoder.
\<close>

section \<open>Writers that never fail in one way\<close>

definition quiet :: "'e \<Rightarrow> ('c, 'e) writer \<Rightarrow> bool" where
  "quiet x w \<longleftrightarrow> (\<forall>c. w c \<noteq> Inl x)"

lemma quietD: "quiet x w \<Longrightarrow> w c \<noteq> Inl x"
  by (simp add: quiet_def)

lemma quiet_emit [simp, intro!]: "quiet x (emit bs)"
  by (simp add: quiet_def emit_def)

lemma quiet_fail [simp]: "quiet x (wfail e) \<longleftrightarrow> e \<noteq> x"
  by (simp add: quiet_def wfail_def)

lemma quiet_wseq [intro!]: "quiet x v \<Longrightarrow> quiet x w \<Longrightarrow> quiet x (wseq v w)"
  by (auto simp: quiet_def wseq_def rbind_def split: sum.splits)

lemma quiet_wlist [intro!]: "(\<And>v. quiet x (w v)) \<Longrightarrow> quiet x (wlist w vs)"
  by (induction vs) auto

section \<open>AMF3\<close>

lemma quiet_string [simp, intro!]: "quiet A3SPanic (write_string_data s)"
  by (auto simp: quiet_def write_string_data_def split: option.splits)

lemma quiet_blob [simp, intro!]: "quiet A3SPanic (write_blob s n)" "quiet A3SPanic (write_java_utf s)"
  by (simp_all add: write_blob_def write_java_utf_def)

lemma quiet_members [intro!]: "(\<And>v. quiet A3SPanic (child v)) \<Longrightarrow> quiet A3SPanic (write_members child ms)"
  unfolding write_members_def by auto

lemma quiet_traits [simp, intro!]: "quiet A3SPanic (write_traits info h ns)"
proof -
  have "quiet A3SPanic (\<lambda>c. Inr ([], intern_trait info c))"
    by (simp add: quiet_def)
  then have "quiet A3SPanic (wseq (emit (write_u29 h)) (wseq (wlist write_string_data ns) (\<lambda>c. Inr ([], intern_trait info c))))"
    by auto
  then show ?thesis
    by (auto simp: quiet_def write_traits_def split: option.splits)
qed

lemma quiet_externalizable:
  "(\<And>v. quiet A3SPanic (child v)) \<Longrightarrow> quiet A3SPanic (write_externalizable child depth cn v)"
  by (auto simp: write_externalizable_def write_externalizable_header_def write_status_bean_def bean_write_payload_def
      split: option.splits externalizable_layout.splits)

lemma quiet_object: "(\<And>v. quiet A3SPanic (child v)) \<Longrightarrow> quiet A3SPanic (write_object child depth cn sealed dynamic)"
  by (auto simp: write_object_def Let_def split: option.splits)

lemma quiet_inline:
  assumes "\<And>v. quiet A3SPanic (child v)" and "amf3_reference v = None"
  shows "quiet A3SPanic (write_inline child depth v)"
  using assms(2) quiet_object [OF assms(1)] quiet_externalizable [OF assms(1)]
  by (cases v) (auto simp: write_inline_def write_vector_def intro: assms(1))

lemma write_value_quiet_here:
  assumes "check_depth depth \<Longrightarrow> \<forall>x. quiet A3SPanic (write_value (Suc depth) x)" and "amf3_reference v = None"
  shows "write_value depth v c \<noteq> Inl A3SPanic"
proof (cases "check_depth depth")
  case True
  then have "write_inline (write_value (Suc depth)) depth v e \<noteq> Inl A3SPanic" for e
    using assms by (intro quietD quiet_inline) auto
  then show ?thesis
    using assms(2) True by (cases v) (simp_all add: write_value.simps [of depth])
qed (simp add: write_value.simps [of depth])

lemma quiet_value: "quiet A3SPanic (write_value depth v)"
proof (induction depth arbitrary: v rule: depth_induct)
  case (deeper depth)
  note here = write_value_quiet_here [OF allI, of depth, OF deeper]
  show ?case
    unfolding quiet_def
  proof
    fix c
    show "write_value depth v c \<noteq> Inl A3SPanic"
    proof (cases "amf3_reference v")
      case (Some i)
      then have v: "v = A3Reference i"
        by (cases v) auto
      have "amf3_reference (ae_objects c ! i) = None" if "object_marker (ae_objects c ! i) \<noteq> None"
        using that by (cases "ae_objects c ! i") auto
      then show ?thesis
        using here [of "ae_objects c ! i"] by (auto simp: v write_value.simps [of depth "A3Reference i"] split: option.split)
    qed (rule here)
  qed
qed

lemma amf3_encode_never_panics: "snd (amf3_encode_document roots objects out) \<noteq> Inl A3SPanic"
  using quietD [OF quiet_wlist [of A3SPanic "write_value 0" roots, OF quiet_value], of "amf3_encoder_new objects"]
  by (auto simp: amf3_encode_document_def split: sum.splits)

section \<open>AMF0\<close>

text \<open>An embedded AMF3 value may fail in its own way, so both panics are followed.\<close>

definition amf0_write_panic :: "amf0_serialization_error \<Rightarrow> bool" where
  "amf0_write_panic e \<longleftrightarrow> e = A0SPanic \<or> e = A0SEmbeddedAmf3 A3SPanic"

lemma quiet_avmplus: "amf0_write_panic e \<Longrightarrow> quiet e (serialize_avmplus inner)"
  using amf3_encode_never_panics [of "[inner]"]
  by (auto simp: quiet_def serialize_avmplus_def amf0_write_panic_def split: prod.splits sum.splits)
    (metis snd_conv)+

lemma quiet_body:
  assumes "amf0_write_panic e" and "\<And>v. quiet e (child v)"
  shows "quiet e (serialize_object_body child depth p)" "quiet e (serialize_object child depth p)"
    "quiet e (serialize_strict_array child depth vs)"
  using assms
  by (auto simp: serialize_object_body_def serialize_object_def serialize_strict_array_def amf0_write_panic_def)

lemma quiet_inline0:
  assumes "amf0_write_panic e" and "\<And>v. quiet e (child v)" and "amf0_reference v = None"
  shows "quiet e (serialize_inline child depth v)"
proof -
  have "e \<noteq> A0SNormalStringTooLong"
    using assms(1) by (auto simp: amf0_write_panic_def)
  then show ?thesis
    using assms(3) quiet_body [OF assms(1,2)] quiet_avmplus [OF assms(1)]
    by (cases v) (auto simp: serialize_inline_def serialize_string_def)
qed

lemma serialize_value_quiet_here:
  assumes "amf0_write_panic e" and "check_depth depth \<Longrightarrow> \<forall>x. quiet e (serialize_value (Suc depth) x)"
    and "amf0_reference v = None"
  shows "serialize_value depth v c \<noteq> Inl e"
proof (cases "check_depth depth")
  case True
  then have "serialize_inline (serialize_value (Suc depth)) depth v d \<noteq> Inl e" for d
    using assms by (intro quietD quiet_inline0) auto
  then show ?thesis
    using assms(3) True by (cases v) (simp_all add: serialize_value.simps [of depth])
qed (use assms(1) in \<open>auto simp: serialize_value.simps [of depth] amf0_write_panic_def\<close>)

lemma quiet_value0: "amf0_write_panic e \<Longrightarrow> quiet e (serialize_value depth v)"
proof (induction depth arbitrary: v rule: depth_induct)
  case (deeper depth)
  note here = serialize_value_quiet_here [OF deeper.prems allI, of depth, OF deeper.IH [OF _ deeper.prems]]
  have other: "e \<noteq> A0SInvalidReference i" "e \<noteq> A0SCollectionTooLarge n" "e \<noteq> A0SDepthLimit" for i n
    using deeper.prems by (auto simp: amf0_write_panic_def)
  show ?case
    unfolding quiet_def
  proof
    fix c
    show "serialize_value depth v c \<noteq> Inl e"
    proof (cases "amf0_reference v")
      case (Some i)
      then have v: "v = A0Reference i"
        by (cases v) auto
      have "amf0_reference (oe_objects c ! i) = None" if "is_complex (oe_objects c ! i)"
        using that by (cases "oe_objects c ! i") auto
      then show ?thesis
        using here [of "oe_objects c ! i"] other
        by (auto simp: v serialize_value.simps [of depth "A0Reference i"] split: option.split)
    qed (rule here)
  qed
qed

lemma amf0_encode_never_panics:
  "amf0_write_panic e \<Longrightarrow> snd (amf0_encode_document roots objects embedded out) \<noteq> Inl e"
  using quietD [OF quiet_wlist [of e "serialize_value 0" roots, OF quiet_value0]]
  by (auto simp: amf0_encode_document_def split: sum.splits)

end
