(* ===== verification/Message_Roundtrip.thy ===== *)
theory Message_Roundtrip
  imports Rtmp_Messages Amf0_Roundtrip Writer_Safety
begin

text \<open>
  A message that is built into a raw message is interpreted as itself again, the type of an interpreted
  message is the type on the wire, and no body makes the interpretation panic.
\<close>

section \<open>Doubles that are integers\<close>

lemma f64_split:
  "w = word_of_nat ((if f64_sign w then 2 ^ 63 else 0) + f64_exponent w * 2 ^ 52 + f64_fraction w)"
proof -
  define n where "n = unat w"
  have n: "n < 2 ^ 64"
    unfolding n_def using unsigned_less [of w] by simp
  have e: "f64_exponent w = n div 2 ^ 52 mod 2 ^ 11"
    unfolding f64_exponent_def unsigned_take_bit_eq unat_drop_bit_eq n_def [symmetric] by (simp add: take_bit_eq_mod drop_bit_eq_div)
  have f: "f64_fraction w = n mod 2 ^ 52"
    unfolding f64_fraction_def unsigned_take_bit_eq n_def [symmetric] by (simp add: take_bit_eq_mod)
  have s: "f64_sign w \<longleftrightarrow> odd (n div 2 ^ 63)"
  proof -
    have "bit w 63 = bit (unat w) 63"
      by (simp add: bit_unsigned_iff)
    then show ?thesis
      unfolding f64_sign_def n_def bit_iff_odd .
  qed
  have hi: "n div 2 ^ 63 = n div 2 ^ 52 div 2 ^ 11"
    by (simp flip: div_mult2_eq)
  have "n div 2 ^ 63 < 2"
    using n by (simp add: div_less_iff_less_mult)
  then have "n div 2 ^ 63 = (if f64_sign w then 1 else 0)"
    unfolding s by (cases "n div 2 ^ 63 = 0") auto
  then have "n div 2 ^ 52 div 2 ^ 11 = (if f64_sign w then 1 else 0)"
    unfolding hi .
  moreover have "n div 2 ^ 52 = n div 2 ^ 52 div 2 ^ 11 * 2 ^ 11 + f64_exponent w"
    unfolding e by (simp only: div_mult_mod_eq)
  ultimately have "n div 2 ^ 52 = (if f64_sign w then 2 ^ 11 else 0) + f64_exponent w"
    by (cases "f64_sign w") simp_all
  then have "n = ((if f64_sign w then 2 ^ 11 else 0) + f64_exponent w) * 2 ^ 52 + f64_fraction w"
    unfolding f using div_mult_mod_eq [of n "2 ^ 52"] by simp
  then have "n = (if f64_sign w then 2 ^ 63 else 0) + f64_exponent w * 2 ^ 52 + f64_fraction w"
    by (simp split: if_splits)
  then have "word_of_nat (unat w) = (word_of_nat ((if f64_sign w then 2 ^ 63 else 0) + f64_exponent w * 2 ^ 52 + f64_fraction w) :: f64)"
    unfolding n_def by (rule arg_cong)
  then show ?thesis
    by simp
qed

lemma top_bit_unique:
  assumes "2 ^ k \<le> n" "n < 2 ^ Suc k"
  shows "top_bit n = k"
proof -
  have "0 < n"
    using assms(1) by (cases n) auto
  then have "2 ^ top_bit n \<le> n" "n < 2 ^ Suc (top_bit n)"
    using top_bit_bounds by blast+
  with assms have "(2 :: nat) ^ k < 2 ^ Suc (top_bit n)" "(2 :: nat) ^ top_bit n < 2 ^ Suc k"
    by linarith+
  then show ?thesis
    using power_strict_increasing_iff [of "2 :: nat"] by (metis One_nat_def less_Suc_eq_le lessI le_antisym one_less_numeral_iff semiring_norm(76))
qed

text \<open>Only negative zero is an integer whose value does not determine the double.\<close>

lemma f64_of_integral:
  assumes i: "f64_integral w = Some i" and small: "\<bar>i\<bar> < 2 ^ 52" and "w \<noteq> 0x8000000000000000"
  shows "f64_of_int i = w"
proof -
  let ?e = "f64_exponent w" and ?f = "f64_fraction w" and ?s = "f64_sign w"
  have f: "?f < 2 ^ 52"
    unfolding f64_fraction_def unsigned_take_bit_eq by (rule take_bit_nat_less_exp)
  show ?thesis
  proof (cases "?e = 0")
    case True
    then have z: "?f = 0" "i = 0"
      using i by (auto simp: f64_integral_def Let_def split: if_splits)
    have "w = word_of_nat (if ?s then 2 ^ 63 else 0)"
      using f64_split [of w] True z by simp
    then have "w = 0"
      using assms(3) by (cases ?s) simp_all
    then show ?thesis
      by (simp add: z(2) f64_of_int_def)
  next
    case False
    let ?m = "2 ^ 52 + ?f"
    have large: "2 ^ 52 \<le> ?m * 2 ^ j" for j
    proof -
      have "2 ^ 52 * 1 \<le> ?m * 2 ^ j"
        by (rule mult_le_mono) simp_all
      then show ?thesis by simp
    qed
    have e: "?e < 1075"
    proof (rule ccontr)
      assume "\<not> ?e < 1075"
      then have "\<bar>i\<bar> = int (?m * 2 ^ (?e - 1075))"
        using i False by (auto simp: f64_integral_def Let_def abs_mult split: if_splits)
      moreover have "int (2 ^ 52) \<le> int (?m * 2 ^ (?e - 1075))"
        by (rule zle_int [THEN iffD2]) (rule large)
      ultimately show False
        using small by simp
    qed
    define a where "a = ?m div 2 ^ (1075 - ?e)"
    have lo: "1023 \<le> ?e" and dvd: "?m mod 2 ^ (1075 - ?e) = 0" and ia: "i = (if ?s then - 1 else 1) * int a"
      using i False e by (auto simp: f64_integral_def Let_def a_def split: if_splits)
    have am: "a * 2 ^ (1075 - ?e) = ?m"
      using dvd div_mult_mod_eq [of ?m "2 ^ (1075 - ?e)"] by (simp add: a_def)
    define k where "k = ?e - 1023"
    have k: "k < 52" "1075 - ?e = 52 - k" "?e = k + 1023"
      using lo e by (auto simp: k_def)
    have p: "(2 :: nat) ^ k * 2 ^ (52 - k) = 2 ^ 52"
      using k(1) by (simp flip: power_add)
    have "2 ^ k * 2 ^ (52 - k) \<le> a * 2 ^ (52 - k)" "a * 2 ^ (52 - k) < 2 ^ Suc k * 2 ^ (52 - k)"
      using am f k(2) p by (simp_all add: mult.assoc)
    then have "top_bit a = k"
      by (intro top_bit_unique) simp_all
    moreover have "a \<noteq> 0"
      using am by (metis add_is_0 mult_0 power_not_zero zero_neq_numeral)
    ultimately have "f64_of_int i = word_of_nat ((if ?s then 2 ^ 63 else 0) + (k + 1023) * 2 ^ 52 + (a * 2 ^ (52 - k) - 2 ^ 52))"
      by (auto simp: f64_of_int_def ia Let_def)
    also have "\<dots> = word_of_nat ((if ?s then 2 ^ 63 else 0) + ?e * 2 ^ 52 + ?f)"
      using am k by simp
    finally show ?thesis
      using f64_split [of w] by simp
  qed
qed


section \<open>Messages the wire carries unchanged\<close>

definition amf0_ok :: "amf0_sizes \<Rightarrow> amf0_value list \<Rightarrow> bool" where
  "amf0_ok sizes vs \<longleftrightarrow>
     list_all (amf0_wf []) vs \<and> length vs \<le> MAX_COLLECTION_LEN
     \<and> (case amf0_serialize vs of Inr bs \<Rightarrow> length bs \<le> MAX_COLLECTION_LEN | Inl _ \<Rightarrow> False)
     \<and> amf0_to_tree sizes \<lparr>zd_values = document_from_parts vs [], zd_embedded = []\<rparr> tree_limits_default = Some (Inr vs)"

definition amf3_ok :: "amf3_sizes \<Rightarrow> amf3_value list \<Rightarrow> bool" where
  "amf3_ok sizes vs \<longleftrightarrow>
     list_all amf3_wf vs \<and> length vs \<le> MAX_COLLECTION_LEN \<and> amf3_tables_fit (document_from_parts vs [])
     \<and> amf3_to_tree sizes (document_from_parts vs []) tree_limits_default = Some (Inr vs)"

text \<open>Under the AMF0 selector values are projected, so they must survive the projection and back.\<close>

fun body_ok :: "amf0_insert \<Rightarrow> amf0_sizes \<Rightarrow> amf3_value list \<Rightarrow> amf_encoding \<Rightarrow> bool" where
  "body_ok ins sizes vs Amf3 \<longleftrightarrow> amf3_ok (size_nested sizes) vs"
| "body_ok ins sizes vs Amf0 \<longleftrightarrow>
     amf0_ok sizes (map (to_amf0 ins) vs) \<and> list_all (\<lambda>v. to_amf3 (to_amf0 ins v) = v) vs"

fun no_escape :: "amf0_value \<Rightarrow> bool" where
  "no_escape (A0AvmPlus x) \<longleftrightarrow> False"
| "no_escape _ \<longleftrightarrow> True"

text \<open>
  What a message must satisfy to be interpreted as itself: an unknown message has none of the known types,
  a user control message has exactly the fields of its event, AMF values are within what the codecs carry,
  a type 20 command has no escaped AMF3 value (it would be unwrapped), and the transaction id of a type 17
  command is not negative zero (it would be read as zero).
\<close>

fun message_ok :: "amf0_insert \<Rightarrow> amf0_sizes \<Rightarrow> message \<Rightarrow> bool" where
  "message_ok ins sizes (Unknown t data) \<longleftrightarrow> t \<notin> {1, 2, 3, 4, 5, 6, 8, 9, 15, 16, 17, 18, 19, 20}"
| "message_ok ins sizes (Amf0Command name tid obj args) \<longleftrightarrow>
     amf0_ok sizes ([A0Utf8String name, A0Number tid, obj] @ args) \<and> list_all no_escape (obj # args)"
| "message_ok ins sizes (Amf0Data values) \<longleftrightarrow> amf0_ok sizes values"
| "message_ok ins sizes (Amf3Command name tid obj args format) \<longleftrightarrow>
     body_ok ins sizes ([A3String name, to_amf3 (A0Number tid), obj] @ args) format \<and> tid \<noteq> 0x8000000000000000"
| "message_ok ins sizes (Amf3Data values format) \<longleftrightarrow> body_ok ins sizes values format"
| "message_ok ins sizes (UserControl event sid len t) \<longleftrightarrow>
     (if event = PingRequest \<or> event = PingResponse then sid = None \<and> len = None \<and> t \<noteq> None
      else sid \<noteq> None \<and> t = None \<and> (len \<noteq> None \<longleftrightarrow> event = SetBufferLength))"
| "message_ok ins sizes _ \<longleftrightarrow> True"

lemma amf0_ok_back: "ins_ok ins \<Longrightarrow> amf0_ok sizes vs \<Longrightarrow> amf0_serialize vs = Inr bs \<Longrightarrow> amf0_deserialize ins sizes bs = Inr vs"
  using amf0_values_back by (auto simp: amf0_ok_def)

lemma amf3_ok_back: "amf3_ok sizes vs \<Longrightarrow> amf3_serialize vs = Inr bs \<Longrightarrow> amf3_deserialize sizes bs = Inr vs"
  using amf3_values_back by (auto simp: amf3_ok_def)

lemma amf0_into: "amf0_serialize_into vs out = (out', Inr u) \<longleftrightarrow> (\<exists>bs. amf0_serialize vs = Inr bs \<and> out' = out @ bs)"
  by (auto simp: amf0_serialize_def amf0_serialize_into_def amf0_encode_document_def split: sum.splits prod.splits)

lemma amf3_into: "amf3_serialize_into vs out = (out', Inr u) \<longleftrightarrow> (\<exists>bs. amf3_serialize vs = Inr bs \<and> out' = out @ bs)"
  by (auto simp: amf3_serialize_def amf3_serialize_into_def amf3_encode_document_def split: sum.splits prod.splits)

lemma body_back:
  assumes "ins_ok ins" "body_ok ins sizes vs format" "encode_body ins vs format = Inr data"
  shows "decode_body ins sizes data = Inr (vs, format)"
proof (cases format)
  case Amf0
  obtain bs where "amf0_serialize (map (to_amf0 ins) vs) = Inr bs" "data = FORMAT_SELECTOR_AMF0 # bs"
    using assms(3) by (auto simp: Amf0 encode_body_def amf0_into split: prod.splits sum.splits)
  moreover have "map (to_amf3 \<circ> to_amf0 ins) vs = vs"
    using assms(2) by (intro map_idI) (auto simp: Amf0 list_all_iff)
  ultimately show ?thesis
    using amf0_ok_back [OF assms(1)] assms(2) by (auto simp: Amf0 decode_body_def)
next
  case Amf3
  obtain bs where "amf3_serialize vs = Inr bs" "data = FORMAT_SELECTOR_AMF3 # bs"
    using assms(3) by (auto simp: Amf3 encode_body_def amf3_into split: prod.splits sum.splits)
  then show ?thesis
    using amf3_ok_back assms(2) by (auto simp: Amf3 decode_body_def FORMAT_SELECTOR_AMF0_def FORMAT_SELECTOR_AMF3_def)
qed

lemma transaction_back:
  assumes "tid \<noteq> 0x8000000000000000"
  shows "(\<exists>v. to_amf3 (A0Number tid) = A3Integer v \<and> f64_of_int (sint v) = tid) \<or> to_amf3 (A0Number tid) = A3Double tid"
proof (cases "\<exists>i. f64_integral tid = Some i \<and> MIN_AMF3_INTEGER \<le> i \<and> i \<le> MAX_AMF3_INTEGER")
  case True
  then obtain i where i: "f64_integral tid = Some i" "MIN_AMF3_INTEGER \<le> i" "i \<le> MAX_AMF3_INTEGER"
    by blast
  then have "sint (word_of_int i :: i32) = i"
    by (simp add: MIN_AMF3_INTEGER_def MAX_AMF3_INTEGER_def signed_of_int signed_take_bit_int_eq_self)
  moreover have "f64_of_int i = tid"
    using i by (intro f64_of_integral [OF i(1) _ assms]) (simp add: MIN_AMF3_INTEGER_def MAX_AMF3_INTEGER_def abs_if)
  ultimately show ?thesis
    using i by auto
qed (auto split: option.splits)

lemma unescaped: "list_all no_escape vs \<Longrightarrow> map (unwrap_avmplus ins) vs = vs"
proof (induction vs)
  case (Cons v vs)
  then show ?case
    by (cases v) auto
qed simp

lemma command_back:
  assumes "ins_ok ins" "message_ok ins sizes (Amf0Command name tid obj args)" "amf0_command_serialize name tid obj args = Inr data"
  shows "amf0_command_deserialize ins sizes data = Inr (Amf0Command name tid obj args)"
proof -
  have "map (unwrap_avmplus ins) (obj # args) = obj # args"
    using assms(2) by (intro unescaped) simp
  moreover have "amf0_deserialize ins sizes data = Inr ([A0Utf8String name, A0Number tid, obj] @ args)"
    using assms(2,3) by (intro amf0_ok_back [OF assms(1)]) (simp_all add: amf0_command_serialize_def)
  ultimately show ?thesis
    by (simp add: amf0_command_deserialize_def)
qed

lemma command3_back:
  assumes "ins_ok ins" "message_ok ins sizes (Amf3Command name tid obj args format)"
    "amf3_command_serialize ins name tid obj args format = Inr data"
  shows "amf3_command_deserialize ins sizes data = Inr (Amf3Command name tid obj args format)"
proof -
  have "decode_body ins sizes data = Inr ([A3String name, to_amf3 (A0Number tid), obj] @ args, format)"
    using assms by (intro body_back) (simp_all add: amf3_command_serialize_def)
  moreover have "tid \<noteq> 0x8000000000000000"
    using assms(2) by simp
  ultimately show ?thesis
    using transaction_back [of tid] by (auto simp: amf3_command_deserialize_def simp del: to_amf3.simps)
qed

lemma user_control_back:
  assumes "message_ok ins sizes (UserControl event sid len t)"
  shows "user_control_deserialize (user_control_serialize event sid len t) = Inr (UserControl event sid len t :: message)"
  using assms
  by (cases event; cases sid; cases len; cases t)
    (simp_all add: user_control_deserialize_def event_of_id_def write_stream_event_def write_length_event_def
      write_timestamp_event_def or_zero_def)


lemma small_back:
  "set_chunk_size_serialize n = Inr data \<Longrightarrow> set_chunk_size_deserialize data = Inr (SetChunkSize n :: message)"
  "abort_deserialize (abort_serialize n) = Inr (Abort n :: message)"
  "acknowledgement_deserialize (acknowledgement_serialize n) = Inr (Acknowledgement n :: message)"
  "window_acknowledgement_size_deserialize (window_acknowledgement_size_serialize n) = Inr (WindowAcknowledgement n :: message)"
  "set_peer_bandwidth_deserialize (set_peer_bandwidth_serialize l n) = Inr (SetPeerBandwidth n l :: message)"
  by (auto simp: set_chunk_size_serialize_def set_chunk_size_deserialize_def abort_serialize_def abort_deserialize_def
      acknowledgement_serialize_def acknowledgement_deserialize_def window_acknowledgement_size_serialize_def
      window_acknowledgement_size_deserialize_def set_peer_bandwidth_serialize_def set_peer_bandwidth_deserialize_def
      split: if_splits) (cases l; simp)+

lemma message_back:
  assumes ins: "ins_ok ins" and ok: "message_ok ins sizes m" and body: "message_body ins m = Inr data"
  shows "to_rtmp_message ins sizes \<lparr>rm_timestamp = ts, rm_type_id = get_message_type_id m, rm_message_stream_id = sid,
    rm_data = data\<rparr> = Inr m"
proof (cases m)
  case (Amf0Data vals)
  then have "amf0_deserialize ins sizes data = Inr vals"
    using ok body by (intro amf0_ok_back [OF ins]) (simp_all add: amf0_data_serialize_def)
  then show ?thesis
    by (simp add: Amf0Data to_rtmp_message_def deserialize_data_tolerant_def amf0_data_deserialize_def)
next
  case (Amf3Data vals format)
  then have "decode_body ins sizes data = Inr (vals, format)"
    using ok body by (intro body_back [OF ins]) (simp_all add: amf3_data_serialize_def)
  then show ?thesis
    by (simp add: Amf3Data to_rtmp_message_def amf3_data_deserialize_def)
next
  case (Amf0Command name tid obj args)
  then show ?thesis
    using command_back [OF ins ok [unfolded Amf0Command]] body by (simp add: to_rtmp_message_def)
next
  case (Amf3Command name tid obj args format)
  then show ?thesis
    using command3_back [OF ins ok [unfolded Amf3Command]] body by (simp add: to_rtmp_message_def)
next
  case (UserControl event s len t)
  then show ?thesis
    using user_control_back [OF ok [unfolded UserControl]] body by (auto simp: to_rtmp_message_def)
qed (use ok body in \<open>auto simp: to_rtmp_message_def small_back\<close>)

text \<open>
  C23 (roundtrip). Every message that can be expressed (\<open>message_ok\<close>) and is built into a raw message is
  interpreted as itself again, and the raw message has the given timestamp and stream and the type of the
  message: control messages, AMF0 and AMF3 commands and data under both format selectors, media and shared
  objects.
\<close>

theorem message_roundtrip:
  assumes "ins_ok ins" "message_ok ins sizes m" "from_rtmp_message ins m ts sid = Inr raw"
  shows "to_rtmp_message ins sizes raw = Inr m
    \<and> rm_timestamp raw = ts \<and> rm_message_stream_id raw = sid \<and> rm_type_id raw = get_message_type_id m"
proof -
  obtain data where "message_body ins m = Inr data"
    and raw: "raw = \<lparr>rm_timestamp = ts, rm_type_id = get_message_type_id m, rm_message_stream_id = sid, rm_data = data\<rparr>"
    using assms(3) by (auto simp: from_rtmp_message_def elim!: rbind_InrE)
  then show ?thesis
    using message_back [OF assms(1,2)] by simp
qed

theorem message_roundtrip_witness:
  "to_rtmp_message sample_insert sample_sizes0
     \<lparr>rm_timestamp = ts_new 7, rm_type_id = 20, rm_message_stream_id = 1,
      rm_data = [2, 0, 1, 0x70, 0, 0x40, 0, 0, 0, 0, 0, 0, 0, 5, 1, 1]\<rparr>
   = Inr (Amf0Command [0x70] 0x4000000000000000 A0Null [A0Boolean True])"
proof (rule message_roundtrip [OF sample_insert_ok, THEN conjunct1])
  show "message_ok sample_insert sample_sizes0 (Amf0Command [0x70] 0x4000000000000000 A0Null [A0Boolean True])"
  proof -
    have "amf0_serialize ([A0Utf8String [0x70], A0Number 0x4000000000000000, A0Null] @ [A0Boolean True]) =
        Inr [2, 0, 1, 0x70, 0, 0x40, 0, 0, 0, 0, 0, 0, 0, 5, 1, 1]"
      by code_simp
    moreover have "amf0_to_tree sample_sizes0
        \<lparr>zd_values = document_from_parts ([A0Utf8String [0x70], A0Number 0x4000000000000000, A0Null] @ [A0Boolean True]) [], zd_embedded = []\<rparr>
        tree_limits_default = Some (Inr ([A0Utf8String [0x70], A0Number 0x4000000000000000, A0Null] @ [A0Boolean True]))"
      by code_simp
    moreover have "utf8_valid [0x70]"
      by code_simp
    ultimately show ?thesis
      by (simp add: amf0_ok_def amf0_wf.simps MAX_COLLECTION_LEN_def)
  qed
  show "from_rtmp_message sample_insert (Amf0Command [0x70] 0x4000000000000000 A0Null [A0Boolean True]) (ts_new 7) 1 =
      Inr \<lparr>rm_timestamp = ts_new 7, rm_type_id = 20, rm_message_stream_id = 1,
        rm_data = [2, 0, 1, 0x70, 0, 0x40, 0, 0, 0, 0, 0, 0, 0, 5, 1, 1]\<rparr>"
    by code_simp
qed

section \<open>Interpreting arbitrary bodies\<close>

text \<open>
  C25 (type). The message a body is interpreted as has the type of the raw message, with one exception: a
  body of type 18 that is not AMF0 but is AMF3 becomes an AMF3 data message.
\<close>

theorem message_type:
  assumes "to_rtmp_message ins sizes raw = Inr m"
  shows "get_message_type_id m = rm_type_id raw
    \<or> (rm_type_id raw = 18 \<and> (\<exists>vs e. m = Amf3Data vs Amf3 \<and> amf3_deserialize (size_nested sizes) (rm_data raw) = Inr vs
         \<and> amf0_deserialize ins sizes (rm_data raw) = Inl e))"
  using assms unfolding to_rtmp_message_def Let_def
  by (auto simp: set_chunk_size_deserialize_def abort_deserialize_def acknowledgement_deserialize_def
      user_control_deserialize_def window_acknowledgement_size_deserialize_def set_peer_bandwidth_deserialize_def
      amf3_data_deserialize_def amf3_command_deserialize_def amf0_command_deserialize_def deserialize_data_tolerant_def
      amf0_data_deserialize_def map_error_Inl_iff rbind_def Let_def
      split: if_splits option.splits sum.splits list.splits amf0_value.splits amf3_value.splits prod.splits elim!: rbind_InrE)

theorem message_type_witness:
  "to_rtmp_message sample_insert sample_sizes0
      \<lparr>rm_timestamp = ts_new 0, rm_type_id = 18, rm_message_stream_id = 1, rm_data = [6, 3, 0x61]\<rparr>
     = Inr (Amf3Data [A3String [0x61]] Amf3)
   \<and> get_message_type_id (Amf3Data [A3String [0x61]] Amf3 :: message) = 15
   \<and> amf3_deserialize (size_nested sample_sizes0) [6, 3, 0x61] = Inr [A3String [0x61]]
   \<and> (\<exists>e. amf0_deserialize sample_insert sample_sizes0 [6, 3, 0x61] = Inl e)"
proof -
  have "to_rtmp_message sample_insert sample_sizes0
      \<lparr>rm_timestamp = ts_new 0, rm_type_id = 18, rm_message_stream_id = 1, rm_data = [6, 3, 0x61]\<rparr>
     = Inr (Amf3Data [A3String [0x61]] Amf3)"
    by code_simp
  with message_type [OF this] show ?thesis
    by simp
qed

lemma amf0_deserialize_panic:
  assumes "ins_ok ins"
  shows "amf0_deserialize ins sizes data \<noteq> Inl A0Panic" "amf0_deserialize ins sizes data \<noteq> Inl A0OutOfFuel"
    "amf0_deserialize ins sizes data \<noteq> Inl (A0EmbeddedAmf3 A3Panic)"
proof -
  have r: "s0.good (length data) (0, 0) (amf0_read_roots ins [] (data, amf0_decoder_new)) (\<lambda>m vs. list_all (refs0_below m) vs)"
    by (rule safe_roots0 [OF assms]) (simp_all add: less_eq_prod_def)
  have t: "amf0_tree_result (amf0_to_tree sizes d l) \<noteq> Inl e" if "e \<in> {A0Panic, A0OutOfFuel, A0EmbeddedAmf3 A3Panic}" for d l e
    using a0.expand_total [of sizes "doc_roots (zd_values d)" "doc_objects (zd_values d)" "zd_embedded d" l] that
    by (auto simp: amf0_to_tree_def amf0_tree_result_def split: option.splits sum.splits elim: amf0_tree_error.elims)
  show "amf0_deserialize ins sizes data \<noteq> Inl A0Panic" "amf0_deserialize ins sizes data \<noteq> Inl A0OutOfFuel"
    "amf0_deserialize ins sizes data \<noteq> Inl (A0EmbeddedAmf3 A3Panic)"
    using r t unfolding amf0_deserialize_def amf0_deserialize_document_def
    by (cases "amf0_read_roots ins [] (data, amf0_decoder_new)"; force)+
qed

lemma amf3_deserialize_panic: "amf3_deserialize sizes data \<noteq> Inl A3Panic"
proof -
  have r: "s3.good (length data) 0 (amf3_read_roots [] (data, amf3_decoder_new)) (\<lambda>m vs. list_all (refs_below m) vs)"
    by (rule safe_roots) simp_all
  have t: "amf3_tree_result (amf3_to_tree sizes d l) \<noteq> Inl A3Panic" for d l
    using a3.expand_total [of sizes "doc_roots d" "doc_objects d" "[]" l]
    by (auto simp: amf3_to_tree_def expand_def amf3_tree_result_def split: option.splits sum.splits elim: amf3_tree_error.elims)
  show ?thesis
    using r t unfolding amf3_deserialize_def amf3_deserialize_document_def
    by (cases "amf3_read_roots [] (data, amf3_decoder_new)") force+
qed

definition message_panic :: "message_deserialization_error \<Rightarrow> bool" where
  "message_panic e \<longleftrightarrow>
     e \<in> {MessagePanic, Amf0DeserializationError A0Panic, Amf0DeserializationError A0OutOfFuel,
          Amf0DeserializationError (A0EmbeddedAmf3 A3Panic), Amf3DeserializationError A3Panic}"

lemma decode_body_panic: "ins_ok ins \<Longrightarrow> decode_body ins sizes data = Inl e \<Longrightarrow> \<not> message_panic e"
  using amf0_deserialize_panic amf3_deserialize_panic
  by (auto simp: decode_body_def message_panic_def rbind_def map_error_def split: list.splits if_splits sum.splits)

lemma no_message_panic:
  assumes ins: "ins_ok ins" and e: "to_rtmp_message ins sizes raw = Inl e"
  shows "\<not> message_panic e"
proof -
  have control: "(set_chunk_size_deserialize d :: _ + message) \<noteq> Inl x" "(abort_deserialize d :: _ + message) \<noteq> Inl x" "(acknowledgement_deserialize d :: _ + message) \<noteq> Inl x"
    "(user_control_deserialize d :: _ + message) \<noteq> Inl x" "(window_acknowledgement_size_deserialize d :: _ + message) \<noteq> Inl x" "(set_peer_bandwidth_deserialize d :: _ + message) \<noteq> Inl x"
    if "message_panic x" for d x
    using that by (auto simp: message_panic_def set_chunk_size_deserialize_def abort_deserialize_def acknowledgement_deserialize_def
        user_control_deserialize_def window_acknowledgement_size_deserialize_def set_peer_bandwidth_deserialize_def
        split: option.splits if_splits)
  have data: "amf0_data_deserialize ins sizes d \<noteq> Inl x" if "message_panic x" for d x
    using that amf0_deserialize_panic [OF ins, of sizes d]
    by (auto simp: amf0_data_deserialize_def message_panic_def rbind_def map_error_def split: sum.splits)
  have c0: "amf0_command_deserialize ins sizes d \<noteq> Inl x" if "message_panic x" for d x
    using that amf0_deserialize_panic [OF ins, of sizes d]
    by (auto simp: amf0_command_deserialize_def message_panic_def rbind_def map_error_def Let_def not_less
        numeral_eq_Suc Suc_le_length_iff split: sum.splits if_splits amf0_value.splits)
  have c3: "amf3_command_deserialize ins sizes d \<noteq> Inl x" "amf3_data_deserialize ins sizes d \<noteq> Inl x" if "message_panic x" for d x
    using that decode_body_panic [OF ins, of sizes d]
    by (auto simp: amf3_command_deserialize_def amf3_data_deserialize_def rbind_def message_panic_def not_less
        numeral_eq_Suc Suc_le_length_iff split: sum.splits if_splits amf3_value.splits prod.splits)
  show ?thesis
    using e control data c0 c3
    by (auto simp: to_rtmp_message_def Let_def deserialize_data_tolerant_def split: if_splits sum.splits)
qed

text \<open>Building a message does not panic either.\<close>

definition serialization_panic :: "message_serialization_error \<Rightarrow> bool" where
  "serialization_panic e \<longleftrightarrow> e = Amf3SerializationError A3SPanic \<or> (\<exists>x. e = Amf0SerializationError x \<and> amf0_write_panic x)"

lemma encode_body_panic: "encode_body ins vs format = Inl e \<Longrightarrow> \<not> serialization_panic e"
  using amf0_encode_never_panics [of _ "map (to_amf0 ins) vs" "[]" "[]" "[FORMAT_SELECTOR_AMF0]"]
    amf3_encode_never_panics [of vs "[]" "[FORMAT_SELECTOR_AMF3]"]
  by (auto simp: encode_body_def serialization_panic_def amf0_serialize_into_def amf3_serialize_into_def
      split: amf_encoding.splits prod.splits sum.splits)

lemma amf0_serialize_panic: "amf0_serialize vs = Inl e \<Longrightarrow> \<not> amf0_write_panic e"
  using amf0_encode_never_panics [of _ vs "[]" "[]" "[]"]
  by (auto simp: amf0_serialize_def amf0_serialize_into_def split: prod.splits sum.splits)

lemma no_serialization_panic:
  assumes "from_rtmp_message ins m t sid = Inl e"
  shows "\<not> serialization_panic e"
proof -
  have "message_body ins m \<noteq> Inl e" if "serialization_panic e"
    using that encode_body_panic amf0_serialize_panic
    by (cases m) (auto simp: amf0_command_serialize_def amf0_data_serialize_def amf3_command_serialize_def amf3_data_serialize_def
        set_chunk_size_serialize_def map_error_def serialization_panic_def split: sum.splits)
  then show ?thesis
    using assms by (auto simp: from_rtmp_message_def rbind_def split: sum.splits)
qed

lemma short_command:
  "amf0_deserialize ins sizes d = Inr vs \<Longrightarrow> length vs < 3 \<Longrightarrow> amf0_command_deserialize ins sizes d = Inl InvalidMessageFormat"
  "decode_body ins sizes d = Inr (ws, format) \<Longrightarrow> length ws < 3 \<Longrightarrow>
   amf3_command_deserialize ins sizes d = Inl (Amf3DeserializationError (A3TooFewValues (length ws) 3))"
  by (simp_all add: amf0_command_deserialize_def amf3_command_deserialize_def map_error_def)

text \<open>
  C24 (safety). No body of any type makes the interpretation of a message panic or run without end: it
  returns a message or a typed error. In particular a command whose body holds fewer than three values,
  in either encoding, is refused with its typed error before a value is removed from it.
\<close>

theorem message_decode_safe:
  assumes "ins_ok ins"
  shows "(case to_rtmp_message ins sizes raw of Inl e \<Rightarrow> \<not> message_panic e | Inr _ \<Rightarrow> True)
    \<and> (\<forall>vs. rm_type_id raw = 20 \<longrightarrow> amf0_deserialize ins sizes (rm_data raw) = Inr vs \<longrightarrow> length vs < 3 \<longrightarrow>
         to_rtmp_message ins sizes raw = Inl InvalidMessageFormat)
    \<and> (\<forall>vs format. rm_type_id raw = 17 \<longrightarrow> decode_body ins sizes (rm_data raw) = Inr (vs, format) \<longrightarrow> length vs < 3 \<longrightarrow>
         to_rtmp_message ins sizes raw = Inl (Amf3DeserializationError (A3TooFewValues (length vs) 3)))"
  using no_message_panic [OF assms] short_command by (auto simp: to_rtmp_message_def split: sum.splits)

theorem message_decode_safe_witness:
  "(case to_rtmp_message sample_insert sample_sizes0
      \<lparr>rm_timestamp = ts_new 0, rm_type_id = 17, rm_message_stream_id = 0, rm_data = [3, 10, 255]\<rparr> of
     Inl e \<Rightarrow> \<not> message_panic e | Inr _ \<Rightarrow> True)
   \<and> to_rtmp_message sample_insert sample_sizes0
      \<lparr>rm_timestamp = ts_new 0, rm_type_id = 20, rm_message_stream_id = 0, rm_data = [2, 0, 1, 0x70, 5]\<rparr>
     = Inl InvalidMessageFormat"
proof
  show "case to_rtmp_message sample_insert sample_sizes0
      \<lparr>rm_timestamp = ts_new 0, rm_type_id = 17, rm_message_stream_id = 0, rm_data = [3, 10, 255]\<rparr> of
     Inl e \<Rightarrow> \<not> message_panic e | Inr _ \<Rightarrow> True"
    by (rule conjunct1 [OF message_decode_safe [OF sample_insert_ok]])
  have "amf0_deserialize sample_insert sample_sizes0 [2, 0, 1, 0x70, 5] = Inr [A0Utf8String [0x70], A0Null]"
    by code_simp
  then show "to_rtmp_message sample_insert sample_sizes0
      \<lparr>rm_timestamp = ts_new 0, rm_type_id = 20, rm_message_stream_id = 0, rm_data = [2, 0, 1, 0x70, 5]\<rparr>
     = Inl InvalidMessageFormat"
    using message_decode_safe [OF sample_insert_ok, of sample_sizes0
        "\<lparr>rm_timestamp = ts_new 0, rm_type_id = 20, rm_message_stream_id = 0, rm_data = [2, 0, 1, 0x70, 5]\<rparr>"]
    by simp
qed

end
