(* ===== verification/Session_Monad.thy ===== *)
theory Session_Monad
  imports Prelude
begin

text \<open>
  Operations of the sessions. A method with \<open>&mut self\<close> that returns \<open>Result<A, E>\<close> is a function from the
  state to the state it leaves and its result; what it changed before an error stays changed, which is
  what \<open>?\<close> does in the sources. \<open>sbind\<close> is the sequencing with \<open>?\<close>, \<open>slift\<close> a call of a pure
  fallible function, \<open>sget\<close> a read of the state and \<open>smodify\<close> an assignment.

  \<open>wp m Q E s\<close> says that the operation \<open>m\<close> started in \<open>s\<close> ends in a result satisfying \<open>Q\<close> or an error
  satisfying \<open>E\<close>. The collection \<open>wp_simps\<close> computes it over the structure of an operation, so that a
  property of a handler is reduced to properties of its basic steps by the simplifier.
\<close>

named_theorems wp_simps \<open>the weakest precondition of each construct\<close>

type_synonym ('s, 'e, 'a) op = "'s \<Rightarrow> 's \<times> ('e + 'a)"

definition sret :: "'a \<Rightarrow> ('s, 'e, 'a) op" where
  "sret a s = (s, Inr a)"

definition sfail :: "'e \<Rightarrow> ('s, 'e, 'a) op" where
  "sfail e s = (s, Inl e)"

definition sbind :: "('s, 'e, 'a) op \<Rightarrow> ('a \<Rightarrow> ('s, 'e, 'b) op) \<Rightarrow> ('s, 'e, 'b) op" where
  "sbind m f s = (case m s of (s', Inl e) \<Rightarrow> (s', Inl e) | (s', Inr a) \<Rightarrow> f a s')"

definition sget :: "('s \<Rightarrow> 'a) \<Rightarrow> ('s, 'e, 'a) op" where
  "sget f s = (s, Inr (f s))"

definition smodify :: "('s \<Rightarrow> 's) \<Rightarrow> ('s, 'e, unit) op" where
  "smodify f s = (f s, Inr ())"

definition slift :: "'e + 'a \<Rightarrow> ('s, 'e, 'a) op" where
  "slift r s = (s, r)"

definition wp :: "('s, 'e, 'a) op \<Rightarrow> ('a \<Rightarrow> 's \<Rightarrow> bool) \<Rightarrow> ('e \<Rightarrow> 's \<Rightarrow> bool) \<Rightarrow> 's \<Rightarrow> bool" where
  "wp m Q E s \<longleftrightarrow> (case m s of (s', Inl e) \<Rightarrow> E e s' | (s', Inr a) \<Rightarrow> Q a s')"

lemma wp_sret [wp_simps]: "wp (sret a) Q E = Q a"
  by (simp add: wp_def sret_def fun_eq_iff)

lemma wp_sfail [wp_simps]: "wp (sfail e) Q E = E e"
  by (simp add: wp_def sfail_def fun_eq_iff)

lemma wp_sbind [wp_simps]: "wp (sbind m f) Q E = wp m (\<lambda>a. wp (f a) Q E) E"
  by (auto simp: fun_eq_iff wp_def sbind_def split: prod.splits sum.splits)

lemma wp_sget [wp_simps]: "wp (sget f) Q E s = Q (f s) s"
  by (simp add: wp_def sget_def)

lemma wp_smodify [wp_simps]: "wp (smodify f) Q E s = Q () (f s)"
  by (simp add: wp_def smodify_def)

lemma wp_slift [wp_simps]: "wp (slift r) Q E s = (case r of Inl e \<Rightarrow> E e s | Inr a \<Rightarrow> Q a s)"
  by (simp add: wp_def slift_def)

lemma wp_if [wp_simps]: "wp (if b then m else n) Q E s = (if b then wp m Q E s else wp n Q E s)"
  by simp

lemma wp_option [wp_simps]:
  "wp (case x of None \<Rightarrow> m | Some a \<Rightarrow> f a) Q E s = (case x of None \<Rightarrow> wp m Q E s | Some a \<Rightarrow> wp (f a) Q E s)"
  by (simp split: option.split)

lemma wp_prod [wp_simps]: "wp (case x of (a, b) \<Rightarrow> f a b) Q E s = (case x of (a, b) \<Rightarrow> wp (f a b) Q E s)"
  by (simp split: prod.split)

lemma wp_let [wp_simps]: "wp (let x = a in f x) Q E s = (let x = a in wp (f x) Q E s)"
  by (simp add: Let_def)

text \<open>Consequence, and the use of a triple at a known outcome.\<close>

lemma wp_mono:
  assumes "wp m Q E s"
    and "\<And>a s'. m s = (s', Inr a) \<Longrightarrow> Q a s' \<Longrightarrow> Q' a s'" and "\<And>e s'. m s = (s', Inl e) \<Longrightarrow> E e s' \<Longrightarrow> E' e s'"
  shows "wp m Q' E' s"
  using assms by (auto simp: wp_def split: prod.splits sum.splits)

lemma wpI:
  assumes "\<And>a s'. m s = (s', Inr a) \<Longrightarrow> Q a s'" and "\<And>e s'. m s = (s', Inl e) \<Longrightarrow> E e s'"
  shows "wp m Q E s"
  using assms by (auto simp: wp_def split: prod.splits sum.splits)

lemma wp_okD: "wp m Q E s \<Longrightarrow> m s = (s', Inr a) \<Longrightarrow> Q a s'"
  and wp_errD: "wp m Q E s \<Longrightarrow> m s = (s', Inl e) \<Longrightarrow> E e s'"
  by (auto simp: wp_def)

lemma wp_fst: "wp m (\<lambda>_. P) (\<lambda>e s'. P s' \<and> R e) s \<Longrightarrow> m s = (s', r) \<Longrightarrow> P s'"
  by (cases r) (auto simp: wp_def)

lemma wp_conj:
  assumes "wp m Q E s" and "wp m Q' E' s"
  shows "wp m (\<lambda>a s. Q a s \<and> Q' a s) (\<lambda>e s. E e s \<and> E' e s) s"
  using assms by (auto simp: wp_def split: prod.splits sum.splits)

lemma sbind_simps [simp]:
  "sbind (sret a) f = f a" "sbind (sfail e) f = sfail e"
  by (auto simp: sbind_def sret_def sfail_def)

end
