(* ===== verification/Session_Streams.thy ===== *)
theory Session_Streams
  imports Session_Monad
begin

text \<open>
  The stream table shared by both sessions (\<open>src/src/sessions/streams.rs\<close>) and the session limits
  (\<open>src/src/sessions/limits.rs\<close>).

  A stream lives in a slot of a vector and is named by a handle: the identity of the session, the slot
  and the generation of the slot. \<open>by_wire\<close> is the index of the live streams by message stream id. The
  process-wide counter that \<open>Streams::new\<close> draws the session identity from is an argument. Panics
  (\<open>expect\<close>) are the value \<open>None\<close>.

  The locale \<open>handle_table\<close> is what the sessions rely on; \<open>Streams\<close> provides it under \<open>streams_wf\<close>, and
  the facts about the life of a handle are proved once in the locale.
\<close>

section \<open>Handles and states\<close>

record stream_handle =
  sh_session :: u64
  sh_slot :: u32
  sh_generation :: u32

datatype connection_state = Disconnected | Connecting | Connected | Failed

datatype client_stream_state = Creating | StartingPlayback | Playing | StartingPublish | Publishing

datatype server_stream_state = ServerCreated | ServerPlaying | ServerPublishing | ServerCompleted

section \<open>The table\<close>

record 't entry =
  en_wire_id :: "u32 option"
  en_state :: 't

record 't slot =
  sl_generation :: u32
  sl_entry :: "'t entry option"

record 't streams =
  sm_session :: u64
  sm_slots :: "'t slot list"
  sm_by_wire :: "(u32, stream_handle) hash_map"

text \<open>\<open>fetch_update\<close> of the process-wide counter: the identity and the counter left behind.\<close>

definition streams_new :: "u64 \<Rightarrow> ('t streams \<times> u64) option" where
  "streams_new counter =
     (if counter = 0xffffffffffffffff then None
      else Some (\<lparr>sm_session = counter, sm_slots = [], sm_by_wire = []\<rparr>, counter + 1))"

definition slot_free :: "'t slot \<Rightarrow> bool" where
  "slot_free s \<longleftrightarrow> sl_entry s = None \<and> sl_generation s < 0xffffffff"

fun position :: "('a \<Rightarrow> bool) \<Rightarrow> 'a list \<Rightarrow> nat option" where
  "position P [] = None"
| "position P (x # xs) = (if P x then Some 0 else map_option Suc (position P xs))"

definition index_wire :: "u32 option \<Rightarrow> stream_handle \<Rightarrow> (u32, stream_handle) hash_map \<Rightarrow> (u32, stream_handle) hash_map" where
  "index_wire wire h m = (case wire of None \<Rightarrow> m | Some w \<Rightarrow> hm_insert w h m)"

definition streams_insert :: "'t \<Rightarrow> u32 option \<Rightarrow> 't streams \<Rightarrow> ('t streams \<times> stream_handle) option" where
  "streams_insert state wire_id t =
     (let (slot, slots) =
        (case position slot_free (sm_slots t) of
           Some i \<Rightarrow> (i, sm_slots t)
         | None \<Rightarrow> (length (sm_slots t), sm_slots t @ [\<lparr>sl_generation = 0, sl_entry = None\<rparr>]));
        generation = sl_generation (slots ! slot) + 1;
        slots' = slots[slot := \<lparr>sl_generation = generation, sl_entry = Some \<lparr>en_wire_id = wire_id, en_state = state\<rparr>\<rparr>];
        h = \<lparr>sh_session = sm_session t, sh_slot = word_of_nat slot, sh_generation = generation\<rparr>
      in if slot \<ge> 2 ^ 32 then None
         else Some (t\<lparr>sm_slots := slots', sm_by_wire := index_wire wire_id h (sm_by_wire t)\<rparr>, h))"

definition streams_get :: "'t streams \<Rightarrow> stream_handle \<Rightarrow> 't entry option" where
  "streams_get t h =
     (if sh_session h \<noteq> sm_session t then None
      else if unat (sh_slot h) \<ge> length (sm_slots t) then None
      else let slot = sm_slots t ! unat (sh_slot h) in
        if sl_generation slot \<noteq> sh_generation h then None else sl_entry slot)"

text \<open>Writing through \<open>get_mut\<close>: the entry of a live handle is replaced.\<close>

definition streams_put :: "stream_handle \<Rightarrow> 't entry \<Rightarrow> 't streams \<Rightarrow> 't streams" where
  "streams_put h e t =
     t\<lparr>sm_slots := (sm_slots t)[unat (sh_slot h) := (sm_slots t ! unat (sh_slot h))\<lparr>sl_entry := Some e\<rparr>]\<rparr>"

definition streams_get_mut :: "stream_handle \<Rightarrow> ('t entry \<Rightarrow> 't entry) \<Rightarrow> 't streams \<Rightarrow> 't streams option" where
  "streams_get_mut h f t = (case streams_get t h of None \<Rightarrow> None | Some e \<Rightarrow> Some (streams_put h (f e) t))"

definition streams_remove :: "stream_handle \<Rightarrow> 't streams \<Rightarrow> 't streams \<times> 't entry option" where
  "streams_remove h t =
     (case streams_get t h of
        None \<Rightarrow> (t, None)
      | Some e \<Rightarrow>
          (t\<lparr>sm_slots := (sm_slots t)[unat (sh_slot h) := (sm_slots t ! unat (sh_slot h))\<lparr>sl_entry := None\<rparr>],
             sm_by_wire := (case en_wire_id e of None \<Rightarrow> sm_by_wire t | Some w \<Rightarrow> hm_remove w (sm_by_wire t))\<rparr>,
           Some e))"

definition slot_handle :: "'t streams \<Rightarrow> nat \<Rightarrow> stream_handle" where
  "slot_handle t i =
     \<lparr>sh_session = sm_session t, sh_slot = word_of_nat i, sh_generation = sl_generation (sm_slots t ! i)\<rparr>"

definition streams_iter :: "'t streams \<Rightarrow> (stream_handle \<times> 't entry) list" where
  "streams_iter t =
     List.map_filter (\<lambda>i. map_option (Pair (slot_handle t i)) (sl_entry (sm_slots t ! i))) [0..<length (sm_slots t)]"

definition streams_bind :: "stream_handle \<Rightarrow> u32 \<Rightarrow> 't streams \<Rightarrow> 't streams option" where
  "streams_bind h wire t =
     (case streams_get_mut h (\<lambda>e. e\<lparr>en_wire_id := Some wire\<rparr>) t of
        None \<Rightarrow> None
      | Some t' \<Rightarrow> Some (t'\<lparr>sm_by_wire := hm_insert wire h (sm_by_wire t')\<rparr>))"

definition streams_find :: "'t streams \<Rightarrow> u32 \<Rightarrow> stream_handle option" where
  "streams_find t wire = hm_get (sm_by_wire t) wire"

section \<open>Limits\<close>

record session_limits =
  max_streams :: nat
  max_pending_requests :: nat

definition session_limits_default :: session_limits where
  "session_limits_default = \<lparr>max_streams = 128, max_pending_requests = 128\<rparr>"

datatype session_limit_error = LimitStreams nat | LimitPendingRequests nat

definition check_streams :: "session_limits \<Rightarrow> nat \<Rightarrow> session_limit_error + unit" where
  "check_streams l count = (if count \<ge> max_streams l then Inl (LimitStreams (max_streams l)) else Inr ())"

definition check_requests :: "session_limits \<Rightarrow> nat \<Rightarrow> session_limit_error + unit" where
  "check_requests l count =
     (if count \<ge> max_pending_requests l then Inl (LimitPendingRequests (max_pending_requests l)) else Inr ())"

section \<open>Well-formed tables\<close>

text \<open>
  The index holds exactly the live streams that have a message stream id, no two of them share one,
  and a handle is \<open>issued\<close> when its slot has reached its generation.
\<close>

definition streams_wf :: "'t streams \<Rightarrow> bool" where
  "streams_wf t \<longleftrightarrow> length (sm_slots t) \<le> 2 ^ 32 \<and> hm_wf (sm_by_wire t)
     \<and> (\<forall>w h. hm_get (sm_by_wire t) w = Some h \<longleftrightarrow> (\<exists>e. streams_get t h = Some e \<and> en_wire_id e = Some w))"

definition issued :: "'t streams \<Rightarrow> stream_handle \<Rightarrow> bool" where
  "issued t h \<longleftrightarrow> sh_session h = sm_session t \<and> unat (sh_slot h) < length (sm_slots t)
     \<and> sh_generation h \<le> sl_generation (sm_slots t ! unat (sh_slot h))"

section \<open>The contract\<close>

text \<open>
  What a table of handles promises: a live handle was issued, a new handle was not issued before, issued
  handles stay issued, and an operation on one handle leaves the liveness of the others alone.
\<close>

locale handle_table =
  fixes create :: "'s \<Rightarrow> 'w \<Rightarrow> 't \<Rightarrow> ('t \<times> 'h) option"
    and get :: "'t \<Rightarrow> 'h \<Rightarrow> 'e option"
    and delete :: "'h \<Rightarrow> 't \<Rightarrow> 't \<times> 'e option"
    and change :: "'h \<Rightarrow> 'c \<Rightarrow> 't \<Rightarrow> 't option"
    and known :: "'t \<Rightarrow> 'h \<Rightarrow> bool"
  assumes live_known: "get t h = Some e \<Longrightarrow> known t h"
    and create_fresh: "create st w t = Some (t', h) \<Longrightarrow> \<not> known t h"
    and create_known: "create st w t = Some (t', h) \<Longrightarrow> known t k \<or> k = h \<Longrightarrow> known t' k"
    and create_others: "create st w t = Some (t', h) \<Longrightarrow> k \<noteq> h \<Longrightarrow> get t' k = get t k"
    and delete_gone: "delete h t = (t', r) \<Longrightarrow> get t' h = None"
    and delete_known: "delete h t = (t', r) \<Longrightarrow> known t' k \<longleftrightarrow> known t k"
    and delete_others: "delete h t = (t', r) \<Longrightarrow> k \<noteq> h \<Longrightarrow> get t' k = get t k"
    and change_live: "change h c t = Some t' \<Longrightarrow> get t' k = None \<longleftrightarrow> get t k = None"
    and change_known: "change h c t = Some t' \<Longrightarrow> known t' k \<longleftrightarrow> known t k"
begin

text \<open>A handle that was issued and is not live: no operation brings it back.\<close>

definition dead :: "'t \<Rightarrow> 'h \<Rightarrow> bool" where
  "dead t h \<longleftrightarrow> known t h \<and> get t h = None"

lemma dead_create: "dead t h \<Longrightarrow> create st w t = Some (t', k) \<Longrightarrow> dead t' h"
  using create_fresh create_known create_others unfolding dead_def by metis

lemma dead_delete: "dead t h \<Longrightarrow> delete k t = (t', r) \<Longrightarrow> dead t' h"
  using delete_known delete_others delete_gone unfolding dead_def by metis

lemma dead_change: "dead t h \<Longrightarrow> change k c t = Some t' \<Longrightarrow> dead t' h"
  using change_live change_known unfolding dead_def by metis

lemma delete_dead: "known t h \<Longrightarrow> delete h t = (t', r) \<Longrightarrow> dead t' h"
  using delete_gone delete_known unfolding dead_def by metis

end

section \<open>The table provides it\<close>

lemma position_Some:
  "position P xs = Some i \<Longrightarrow> i < length xs \<and> P (xs ! i)"
  by (induction xs arbitrary: i) (auto split: if_splits)

lemma position_None: "position P xs = None \<longleftrightarrow> (\<forall>x\<in>set xs. \<not> P x)"
  by (induction xs) (auto split: if_splits)

lemma unat_slot: "i < 2 ^ 32 \<Longrightarrow> unat (word_of_nat i :: u32) = i"
  by (simp add: unsigned_of_nat take_bit_nat_eq_self)

lemma word_slot: "word_of_nat (unat (w :: u32)) = w"
  by simp

text \<open>What \<open>insert\<close> does: the slot it takes is free or new, and everything else keeps its place.\<close>

lemma streams_insertE:
  assumes "streams_insert st wire t = Some (t', h)"
  obtains i g slots where "i < length slots" "i < 2 ^ 32" "h = \<lparr>sh_session = sm_session t, sh_slot = word_of_nat i, sh_generation = g + 1\<rparr>"
    "t' = t\<lparr>sm_slots := slots[i := \<lparr>sl_generation = g + 1, sl_entry = Some \<lparr>en_wire_id = wire, en_state = st\<rparr>\<rparr>],
            sm_by_wire := index_wire wire h (sm_by_wire t)\<rparr>"
    "g < 0xffffffff" "slots ! i = \<lparr>sl_generation = g, sl_entry = None\<rparr>"
    "slots = sm_slots t \<or> i = length (sm_slots t) \<and> slots = sm_slots t @ [\<lparr>sl_generation = 0, sl_entry = None\<rparr>] \<and> g = 0"
proof (cases "position slot_free (sm_slots t)")
  case None
  show ?thesis
    using assms None
    by (intro that [of "length (sm_slots t)" "sm_slots t @ [\<lparr>sl_generation = 0, sl_entry = None\<rparr>]" 0])
      (auto simp: streams_insert_def Let_def nth_append split: if_splits)
next
  case (Some i)
  have "slot_free (sm_slots t ! i)" "i < length (sm_slots t)"
    using position_Some [OF Some] by auto
  then show ?thesis
    using assms Some
    by (intro that [of i "sm_slots t" "sl_generation (sm_slots t ! i)"])
      (auto simp: streams_insert_def Let_def slot_free_def split: if_splits)
qed

lemma not_succ_le: "g < 0xffffffff \<Longrightarrow> \<not> g + 1 \<le> (g :: u32)"
  by unat_arith simp

lemma le_succ: "g < 0xffffffff \<Longrightarrow> h \<le> g \<Longrightarrow> h \<le> (g + 1 :: u32)"
  by unat_arith simp

lemma issued_live: "streams_get t h = Some e \<Longrightarrow> issued t h"
  by (auto simp: streams_get_def issued_def Let_def split: if_splits)


lemma streams_get_alt:
  "streams_get t h = (if sh_session h = sm_session t \<and> unat (sh_slot h) < length (sm_slots t)
      \<and> sl_generation (sm_slots t ! unat (sh_slot h)) = sh_generation h
    then sl_entry (sm_slots t ! unat (sh_slot h)) else None)"
  by (auto simp: streams_get_def Let_def)

lemma handle_eqI: "sh_session h = sh_session k \<Longrightarrow> sh_slot h = sh_slot k \<Longrightarrow> sh_generation h = sh_generation k \<Longrightarrow>
    (h :: stream_handle) = k"
  by simp

lemma streams_insert_get:
  assumes "streams_insert st wire t = Some (t', h)"
  shows "streams_get t' = (streams_get t)(h \<mapsto> \<lparr>en_wire_id = wire, en_state = st\<rparr>)"
    and "\<not> issued t h" and "issued t k \<or> k = h \<Longrightarrow> issued t' k"
proof -
  from assms obtain i g slots where i: "i < length slots" "i < 2 ^ 32"
    "h = \<lparr>sh_session = sm_session t, sh_slot = word_of_nat i, sh_generation = g + 1\<rparr>"
    "t' = t\<lparr>sm_slots := slots[i := \<lparr>sl_generation = g + 1, sl_entry = Some \<lparr>en_wire_id = wire, en_state = st\<rparr>\<rparr>],
            sm_by_wire := index_wire wire h (sm_by_wire t)\<rparr>"
    "g < 0xffffffff" "slots ! i = \<lparr>sl_generation = g, sl_entry = None\<rparr>"
    "slots = sm_slots t \<or> i = length (sm_slots t) \<and> slots = sm_slots t @ [\<lparr>sl_generation = 0, sl_entry = None\<rparr>] \<and> g = 0"
    by (rule streams_insertE)
  have slot: "unat (sh_slot h) = i"
    using i(2,3) unat_slot [of i] by simp
  show fresh: "\<not> issued t h"
    using i slot not_succ_le [OF i(5)] by (auto simp: issued_def nth_append)
  have old: "issued t k \<Longrightarrow> issued t' k" for k
    using i le_succ [OF i(5), of "sh_generation k"] by (auto simp: issued_def nth_list_update nth_append)
  show "issued t' k" if "issued t k \<or> k = h"
    using that old i slot by (auto simp: issued_def)
  show "streams_get t' = (streams_get t)(h \<mapsto> \<lparr>en_wire_id = wire, en_state = st\<rparr>)"
  proof
    fix k
    show "streams_get t' k = ((streams_get t)(h \<mapsto> \<lparr>en_wire_id = wire, en_state = st\<rparr>)) k"
    proof (cases "unat (sh_slot k) = i")
      case False
      then have "k \<noteq> h" using slot by auto
      with False show ?thesis
        using i by (auto simp: streams_get_alt nth_append)
    next
      case True
      then have "sh_slot k = sh_slot h"
        using slot by (simp add: word_unat_eq_iff)
      then show ?thesis
        using i slot True by (cases k) (auto simp: streams_get_alt nth_append)
    qed
  qed
qed


lemma streams_put_get:
  assumes "streams_get t h = Some e"
  shows "streams_get (streams_put h e' t) = (streams_get t)(h \<mapsto> e')"
    and "issued (streams_put h e' t) k = issued t k"
proof -
  show "streams_get (streams_put h e' t) = (streams_get t)(h \<mapsto> e')"
  proof
    fix k
    show "streams_get (streams_put h e' t) k = ((streams_get t)(h \<mapsto> e')) k"
      using assms by (cases k; cases h)
        (auto simp: streams_get_alt streams_put_def nth_list_update word_unat_eq_iff split: if_splits)
  qed
  show "issued (streams_put h e' t) k = issued t k"
    using assms by (auto simp: streams_get_alt streams_put_def issued_def nth_list_update split: if_splits)
qed

lemma streams_remove_get:
  assumes "streams_remove h t = (t', r)"
  shows "streams_get t' = (streams_get t)(h := None)" and "issued t' k = issued t k" and "r = streams_get t h"
proof -
  show r: "r = streams_get t h"
    using assms by (auto simp: streams_remove_def split: option.splits)
  have *: "streams_get t' = (streams_get t)(h := None) \<and> issued t' k = issued t k"
  proof (cases "streams_get t h")
    case None
    then have "t' = t" using assms by (simp add: streams_remove_def)
    with None show ?thesis by auto
  next
    case (Some e)
    define slots where "slots = (sm_slots t)[unat (sh_slot h) := (sm_slots t ! unat (sh_slot h))\<lparr>sl_entry := None\<rparr>]"
    have t': "sm_session t' = sm_session t" "sm_slots t' = slots"
      using assms Some by (auto simp: streams_remove_def slots_def)
    have "streams_get t' k = ((streams_get t)(h := None)) k" for k
      using Some by (cases k; cases h)
        (auto simp: streams_get_alt t' slots_def nth_list_update word_unat_eq_iff split: if_splits)
    moreover have "issued t' k = issued t k"
      using Some by (auto simp: streams_get_alt issued_def t' slots_def nth_list_update split: if_splits)
    ultimately show ?thesis by blast
  qed
  then show "streams_get t' = (streams_get t)(h := None)" and "issued t' k = issued t k"
    by blast+
qed

lemma streams_get_mut_get:
  assumes "streams_get_mut h f t = Some t'"
  shows "streams_get t' = (streams_get t)(h := map_option f (streams_get t h))" and "issued t' k = issued t k"
    and "streams_get t h \<noteq> None"
  using assms by (auto simp: streams_get_mut_def streams_put_get split: option.splits)

lemma streams_bind_get:
  assumes "streams_bind h w t = Some t'"
  shows "streams_get t' = (streams_get t)(h := map_option (\<lambda>e. e\<lparr>en_wire_id := Some w\<rparr>) (streams_get t h))"
    and "issued t' k = issued t k" and "streams_get t h \<noteq> None"
    and "sm_by_wire t' = hm_insert w h (sm_by_wire t)"
proof -
  from assms obtain t1 where t1: "streams_get_mut h (\<lambda>e. e\<lparr>en_wire_id := Some w\<rparr>) t = Some t1"
    "t' = t1\<lparr>sm_by_wire := hm_insert w h (sm_by_wire t1)\<rparr>"
    by (auto simp: streams_bind_def split: option.splits)
  have same: "streams_get t' = streams_get t1" "issued t' k = issued t1 k"
    using t1(2) by (auto simp: streams_get_def issued_def fun_eq_iff)
  show "streams_get t' = (streams_get t)(h := map_option (\<lambda>e. e\<lparr>en_wire_id := Some w\<rparr>) (streams_get t h))"
    and "issued t' k = issued t k" and "streams_get t h \<noteq> None"
    using same streams_get_mut_get [OF t1(1)] by auto
  show "sm_by_wire t' = hm_insert w h (sm_by_wire t)"
    using t1 by (auto simp: streams_get_mut_def streams_put_def split: option.splits)
qed

text \<open>A write is a new state of the stream or its message stream id.\<close>

datatype 't change = SetState 't | Bind u32

fun streams_change :: "stream_handle \<Rightarrow> 't change \<Rightarrow> 't streams \<Rightarrow> 't streams option" where
  "streams_change h (SetState x) t = streams_get_mut h (\<lambda>e. e\<lparr>en_state := x\<rparr>) t"
| "streams_change h (Bind w) t = streams_bind h w t"

interpretation st: handle_table streams_insert streams_get streams_remove streams_change issued
proof
  fix t :: "'t streams" and h e
  show "streams_get t h = Some e \<Longrightarrow> issued t h"
    by (rule issued_live)
next
  fix st wire and t t' :: "'t streams" and h
  assume "streams_insert st wire t = Some (t', h)"
  note ins = streams_insert_get [OF this]
  show "\<not> issued t h"
    by (rule ins(2))
  show "issued t k \<or> k = h \<Longrightarrow> issued t' k" "k \<noteq> h \<Longrightarrow> streams_get t' k = streams_get t k" for k
    using ins by auto
next
  fix t t' :: "'t streams" and h r
  assume "streams_remove h t = (t', r)"
  note rem = streams_remove_get [OF this]
  show "streams_get t' h = None" "issued t' k = issued t k" "k \<noteq> h \<Longrightarrow> streams_get t' k = streams_get t k" for k
    using rem by auto
next
  fix t t' :: "'t streams" and h c k
  assume "streams_change h c t = Some t'"
  then show "streams_get t' k = None \<longleftrightarrow> streams_get t k = None" "issued t' k = issued t k"
    using streams_get_mut_get streams_bind_get by (cases c; fastforce split: if_splits)+
qed

text \<open>Tables reached from one another by the operations of the table.\<close>

inductive table_steps :: "'t streams \<Rightarrow> 't streams \<Rightarrow> bool" where
  ts_refl: "table_steps t t"
| ts_insert: "table_steps t u \<Longrightarrow> streams_insert st wire u = Some (u', h) \<Longrightarrow> table_steps t u'"
| ts_remove: "table_steps t u \<Longrightarrow> streams_remove h u = (u', r) \<Longrightarrow> table_steps t u'"
| ts_change: "table_steps t u \<Longrightarrow> streams_change h c u = Some u' \<Longrightarrow> table_steps t u'"

lemma dead_steps: "table_steps t u \<Longrightarrow> st.dead t h \<Longrightarrow> st.dead u h"
  by (induction rule: table_steps.induct) (auto intro: st.dead_create st.dead_delete st.dead_change)


section \<open>The index by message stream id\<close>

lemma streams_find_iff:
  "streams_wf t \<Longrightarrow> streams_find t w = Some h \<longleftrightarrow> (\<exists>e. streams_get t h = Some e \<and> en_wire_id e = Some w)"
  by (simp add: streams_wf_def streams_find_def)

lemma streams_find_None:
  "streams_wf t \<Longrightarrow> streams_find t w = None \<longleftrightarrow> (\<forall>h e. streams_get t h = Some e \<longrightarrow> en_wire_id e \<noteq> Some w)"
  by (metis not_Some_eq streams_find_iff)

lemma streams_wf_new: "streams_new counter = Some (t, counter') \<Longrightarrow> streams_wf t \<and> sm_slots t = []"
  by (auto simp: streams_new_def streams_wf_def streams_get_def split: if_splits)

lemma take_entry:
  "i < length xs \<Longrightarrow> sl_entry (xs ! i) = None \<Longrightarrow> sl_entry x \<noteq> None \<Longrightarrow>
    length (filter (\<lambda>s. sl_entry s \<noteq> None) (xs[i := x])) = Suc (length (filter (\<lambda>s. sl_entry s \<noteq> None) xs))"
  by (induction xs arbitrary: i) (auto split: nat.splits)

lemma streams_insert_fields:
  assumes "streams_insert st wire t = Some (t', h)"
  shows "sm_by_wire t' = index_wire wire h (sm_by_wire t)"
    and "length (sm_slots t) \<le> length (sm_slots t')" and "length (sm_slots t') \<le> Suc (length (sm_slots t))"
    and "length (sm_slots t) \<le> 2 ^ 32 \<Longrightarrow> length (sm_slots t') \<le> 2 ^ 32"
    and "length (filter (\<lambda>s. sl_entry s \<noteq> None) (sm_slots t'))
      = Suc (length (filter (\<lambda>s. sl_entry s \<noteq> None) (sm_slots t)))"
proof -
  from assms obtain i g slots where i: "i < length slots" "i < 2 ^ 32"
    "t' = t\<lparr>sm_slots := slots[i := \<lparr>sl_generation = g + 1, sl_entry = Some \<lparr>en_wire_id = wire, en_state = st\<rparr>\<rparr>],
            sm_by_wire := index_wire wire h (sm_by_wire t)\<rparr>"
    "slots ! i = \<lparr>sl_generation = g, sl_entry = None\<rparr>"
    "slots = sm_slots t \<or> i = length (sm_slots t) \<and> slots = sm_slots t @ [\<lparr>sl_generation = 0, sl_entry = None\<rparr>] \<and> g = 0"
    by (rule streams_insertE) blast
  show "sm_by_wire t' = index_wire wire h (sm_by_wire t)"
    "length (sm_slots t) \<le> length (sm_slots t')" "length (sm_slots t') \<le> Suc (length (sm_slots t))"
    "length (sm_slots t) \<le> 2 ^ 32 \<Longrightarrow> length (sm_slots t') \<le> 2 ^ 32"
    using i by auto
  have "length (filter (\<lambda>s. sl_entry s \<noteq> None) slots) = length (filter (\<lambda>s. sl_entry s \<noteq> None) (sm_slots t))"
    using i(5) by auto
  moreover have "length (filter (\<lambda>s. sl_entry s \<noteq> None) (slots[i := x]))
      = Suc (length (filter (\<lambda>s. sl_entry s \<noteq> None) slots))" if "sl_entry x \<noteq> None" for x
    using take_entry [of i slots x] i(1,4) that by simp
  ultimately show "length (filter (\<lambda>s. sl_entry s \<noteq> None) (sm_slots t'))
      = Suc (length (filter (\<lambda>s. sl_entry s \<noteq> None) (sm_slots t)))"
    using i(3) by simp
qed

lemma streams_insert_wf:
  assumes "streams_wf t" and "streams_insert st wire t = Some (t', h)"
    and "\<And>w. wire = Some w \<Longrightarrow> streams_find t w = None"
  shows "streams_wf t'"
proof -
  note ins = streams_insert_get [OF assms(2)] streams_insert_fields [OF assms(2)]
  have "streams_get t h = None"
    using ins(2) issued_live by (metis not_Some_eq)
  then show ?thesis
    using assms(1,3) ins(4,7) unfolding streams_wf_def ins(1)
    by (cases wire) (auto simp: index_wire_def streams_find_def, metis option.distinct(1))
qed

lemma streams_remove_fields:
  assumes "streams_remove h t = (t', r)"
  shows "length (sm_slots t') = length (sm_slots t)"
    and "length (filter (\<lambda>s. sl_entry s \<noteq> None) (sm_slots t')) \<le> length (filter (\<lambda>s. sl_entry s \<noteq> None) (sm_slots t))"
    and "sm_by_wire t' = (case r of Some e \<Rightarrow> (case en_wire_id e of None \<Rightarrow> sm_by_wire t | Some w \<Rightarrow> hm_remove w (sm_by_wire t))
      | None \<Rightarrow> sm_by_wire t)"
proof -
  have drop_entry: "length (filter (\<lambda>s. sl_entry s \<noteq> None) (xs[i := x\<lparr>sl_entry := None\<rparr>]))
      \<le> length (filter (\<lambda>s. sl_entry s \<noteq> None) xs)" for xs :: "'a slot list" and i x
    by (induction xs arbitrary: i) (auto split: nat.splits simp: le_SucI)
  show "length (sm_slots t') = length (sm_slots t)"
    "length (filter (\<lambda>s. sl_entry s \<noteq> None) (sm_slots t')) \<le> length (filter (\<lambda>s. sl_entry s \<noteq> None) (sm_slots t))"
    "sm_by_wire t' = (case r of Some e \<Rightarrow> (case en_wire_id e of None \<Rightarrow> sm_by_wire t | Some w \<Rightarrow> hm_remove w (sm_by_wire t))
      | None \<Rightarrow> sm_by_wire t)"
    using assms drop_entry by (auto simp: streams_remove_def split: option.splits)
qed

lemma streams_remove_wf:
  assumes "streams_wf t" and "streams_remove h t = (t', r)"
  shows "streams_wf t'"
proof -
  note rem = streams_remove_get [OF assms(2)] streams_remove_fields [OF assms(2)]
  show ?thesis
    using assms(1) rem(3,4) unfolding streams_wf_def rem(1,6)
    by (auto split: option.splits) (metis option.inject)+
qed

lemma streams_change_fields:
  assumes "streams_change h c t = Some t'"
  shows "length (sm_slots t') = length (sm_slots t)"
    and "length (filter (\<lambda>s. sl_entry s \<noteq> None) (sm_slots t')) = length (filter (\<lambda>s. sl_entry s \<noteq> None) (sm_slots t))"
proof -
  have keep: "length (filter (\<lambda>s. sl_entry s \<noteq> None) (xs[i := (xs ! i)\<lparr>sl_entry := Some e\<rparr>]))
      = length (filter (\<lambda>s. sl_entry s \<noteq> None) xs)" if "sl_entry (xs ! i) \<noteq> None" "i < length xs" for xs :: "'a slot list" and i e
    using that by (induction xs arbitrary: i) (auto split: nat.splits)
  from assms obtain e e' where e: "streams_get t h = Some e" "sm_slots t' = sm_slots (streams_put h e' t)"
    by (cases c) (auto simp: streams_get_mut_def streams_bind_def split: option.splits)
  then show "length (sm_slots t') = length (sm_slots t)"
    by (simp add: streams_put_def)
  show "length (filter (\<lambda>s. sl_entry s \<noteq> None) (sm_slots t')) = length (filter (\<lambda>s. sl_entry s \<noteq> None) (sm_slots t))"
    using e keep by (auto simp: streams_put_def streams_get_alt split: if_splits)
qed

lemma streams_state_wf:
  assumes "streams_wf t" and "streams_get_mut h (\<lambda>e. e\<lparr>en_state := x\<rparr>) t = Some t'"
  shows "streams_wf t'"
proof -
  note mut = streams_get_mut_get [OF assms(2)]
  have len: "length (sm_slots t') = length (sm_slots t)" "sm_by_wire t' = sm_by_wire t"
    using assms(2) by (auto simp: streams_get_mut_def streams_put_def split: option.splits)
  show ?thesis
    using assms(1) mut(3) unfolding streams_wf_def len mut(1) by (auto split: if_splits)
qed

lemma streams_bind_wf:
  assumes "streams_wf t" and "streams_bind h w t = Some t'" and "streams_find t w = None"
    and "\<And>e. streams_get t h = Some e \<Longrightarrow> en_wire_id e = None"
  shows "streams_wf t'"
proof -
  note bind = streams_bind_get [OF assms(2)]
  have len: "length (sm_slots t') = length (sm_slots t)"
    using assms(2) streams_change_fields(1) [of h "Bind w" t t'] by simp
  show ?thesis
    using assms(1,3,4) bind(3) unfolding streams_wf_def len bind(1,4)
    by (auto simp: streams_find_def split: if_splits) (metis option.distinct(1))
qed

lemma length_streams_iter: "length (streams_iter t) = length (filter (\<lambda>s. sl_entry s \<noteq> None) (sm_slots t))"
proof -
  have "length (List.map_filter (\<lambda>i. map_option (Pair (slot_handle t i)) (sl_entry (sm_slots t ! i))) xs)
      = length (filter (\<lambda>i. sl_entry (sm_slots t ! i) \<noteq> None) xs)" for xs
    by (induction xs) (auto simp: map_filter_simps split: option.splits)
  moreover have "length (filter (\<lambda>i. sl_entry (xs ! i) \<noteq> None) [0..<length xs]) = length (filter (\<lambda>s. sl_entry s \<noteq> None) xs)"
    for xs :: "'a slot list"
    using filter_map [of "\<lambda>s. sl_entry s \<noteq> None" "(!) xs" "[0..<length xs]"]
    by (simp only: map_nth) (simp add: comp_def)
  ultimately show ?thesis
    by (simp add: streams_iter_def)
qed


section \<open>Deleted handles\<close>

text \<open>
  C26 (safety). Deleting a stream invalidates its handle for good: in a table reached from there by any
  further insertions, deletions, state changes and bindings, also ones that use the same slot or the
  same message stream id again, the handle names no stream.
\<close>

theorem deleted_handle_dead:
  assumes "streams_get t h = Some e" and "streams_remove h t = (t', r)" and "table_steps t' u"
  shows "streams_get u h = None"
proof -
  have "st.dead t' h"
    by (rule st.delete_dead [OF issued_live [OF assms(1)] assms(2)])
  from dead_steps [OF assms(3) this] show ?thesis
    by (simp add: st.dead_def)
qed

definition sample_table :: "unit streams" where
  "sample_table = \<lparr>sm_session = 1, sm_slots = [\<lparr>sl_generation = 1, sl_entry = Some \<lparr>en_wire_id = Some 7, en_state = ()\<rparr>\<rparr>],
     sm_by_wire = [(7, \<lparr>sh_session = 1, sh_slot = 0, sh_generation = 1\<rparr>)]\<rparr>"

definition sample_handle :: stream_handle where
  "sample_handle = \<lparr>sh_session = 1, sh_slot = 0, sh_generation = 1\<rparr>"

text \<open>The slot and the message stream id of a deleted stream are used again at once.\<close>

lemma deleted_handle_dead_witness:
  "streams_get (fst (the (streams_insert () (Some 7) (fst (streams_remove sample_handle sample_table))))) sample_handle = None
   \<and> streams_find (fst (the (streams_insert () (Some 7) (fst (streams_remove sample_handle sample_table))))) 7
     = Some \<lparr>sh_session = 1, sh_slot = 0, sh_generation = 2\<rparr>"
proof
  have live: "streams_get sample_table sample_handle = Some \<lparr>en_wire_id = Some 7, en_state = ()\<rparr>"
    by (simp add: streams_get_def sample_table_def sample_handle_def)
  have ins: "streams_insert () (Some 7) (fst (streams_remove sample_handle sample_table))
      = Some (fst (the (streams_insert () (Some 7) (fst (streams_remove sample_handle sample_table)))),
        \<lparr>sh_session = 1, sh_slot = 0, sh_generation = 2\<rparr>)"
    by (simp add: live streams_remove_def) (simp add: sample_table_def sample_handle_def streams_insert_def slot_free_def
        Let_def index_wire_def)
  show "streams_get (fst (the (streams_insert () (Some 7) (fst (streams_remove sample_handle sample_table))))) sample_handle
      = None"
    by (rule deleted_handle_dead [OF live prod.collapse [symmetric] ts_insert [OF ts_refl ins]])
  show "streams_find (fst (the (streams_insert () (Some 7) (fst (streams_remove sample_handle sample_table))))) 7
     = Some \<lparr>sh_session = 1, sh_slot = 0, sh_generation = 2\<rparr>"
    by (simp add: live streams_remove_def) (simp add: sample_table_def sample_handle_def streams_insert_def slot_free_def
        Let_def index_wire_def streams_find_def)
qed

end
