(* ===== verification/Session_Values.thy ===== *)
theory Session_Values
  imports Session_Streams Message_Roundtrip Decoders Chunk_Encoder
begin

text \<open>
  Values the sessions compute with: the numeric conversions of the sources (\<open>f64 as u32\<close>,
  \<open>f64 as f32\<close>, \<open>f32 as f64\<close>, comparisons with literals, \<open>parse::<u32>\<close>), stream metadata
  (\<open>src/src/sessions/mod.rs\<close>), script-data messages (\<open>src/src/sessions/data.rs\<close>) and publish modes.

  An \<open>f32\<close> is its 32 bits, as an \<open>f64\<close> is its 64 bits. The bits of a NaN after a conversion are not fixed by the
  language; the model keeps the sign, sets the quiet bit and the upper bits of the fraction, and no property
  depends on them. The body of a \<open>DataMessage\<close> is its bytes, which is what \<open>PayloadReader\<close> reads of a segmented
  body (\<open>Payload\<close>).
\<close>

section \<open>Numbers\<close>

definition f64_is_nan :: "f64 \<Rightarrow> bool" where
  "f64_is_nan w \<longleftrightarrow> f64_exponent w = 2047 \<and> f64_fraction w \<noteq> 0"

text \<open>\<open>x as u32\<close>: towards zero, saturating, NaN to zero.\<close>

definition f64_to_u32 :: "f64 \<Rightarrow> u32" where
  "f64_to_u32 w =
     (if f64_is_nan w \<or> f64_sign w \<or> f64_exponent w < 1023 then 0
      else if 1055 \<le> f64_exponent w then 0xffffffff
      else word_of_nat ((2 ^ 52 + f64_fraction w) div 2 ^ (1075 - f64_exponent w)))"

text \<open>\<open>x >= 0.0\<close>, which holds of negative zero.\<close>

definition f64_nonneg :: "f64 \<Rightarrow> bool" where
  "f64_nonneg w \<longleftrightarrow> \<not> f64_is_nan w \<and> (\<not> f64_sign w \<or> f64_exponent w = 0 \<and> f64_fraction w = 0)"

definition u32_to_f64 :: "u32 \<Rightarrow> f64" where
  "u32_to_f64 n = f64_of_int (uint n)"

type_synonym f32 = u32

definition f32_sign :: "f32 \<Rightarrow> bool" where
  "f32_sign x \<longleftrightarrow> bit x 31"

definition f32_exponent :: "f32 \<Rightarrow> nat" where
  "f32_exponent x = unat (take_bit 8 (drop_bit 23 x))"

definition f32_fraction :: "f32 \<Rightarrow> nat" where
  "f32_fraction x = unat (take_bit 23 x)"

definition f32_is_nan :: "f32 \<Rightarrow> bool" where
  "f32_is_nan x \<longleftrightarrow> f32_exponent x = 255 \<and> f32_fraction x \<noteq> 0"

definition f64_make :: "bool \<Rightarrow> nat \<Rightarrow> nat \<Rightarrow> f64" where
  "f64_make s e f = word_of_nat ((if s then 2 ^ 63 else 0) + e * 2 ^ 52 + f)"

definition f32_make :: "bool \<Rightarrow> nat \<Rightarrow> f32" where
  "f32_make s bits = word_of_nat ((if s then 2 ^ 31 else 0) + bits)"

text \<open>\<open>x as f64\<close>: exact, subnormal numbers become normal.\<close>

definition f32_to_f64 :: "f32 \<Rightarrow> f64" where
  "f32_to_f64 x =
     (let s = f32_sign x; e = f32_exponent x; f = f32_fraction x in
      if e = 255 then f64_make s 2047 (if f = 0 then 0 else 2 ^ 51 + f mod 2 ^ 22 * 2 ^ 29)
      else if e = 0 then
        (if f = 0 then f64_make s 0 0
         else let k = top_bit f in f64_make s (k + 874) (f * 2 ^ (52 - k) - 2 ^ 52))
      else f64_make s (e + 896) (f * 2 ^ 29))"

text \<open>Division by a power of two, to nearest, ties to even.\<close>

definition round_even :: "nat \<Rightarrow> nat \<Rightarrow> nat" where
  "round_even m k =
     (let q = m div 2 ^ k; r = m mod 2 ^ k in
      if 2 ^ k < 2 * r \<or> 2 * r = 2 ^ k \<and> odd q then q + 1 else q)"

text \<open>
  \<open>x as f32\<close>: to nearest, ties to even, overflow to infinity. The rounded significand is added to the
  exponent field, so that a carry moves to the next exponent.
\<close>

definition f64_to_f32 :: "f64 \<Rightarrow> f32" where
  "f64_to_f32 w =
     (let s = f64_sign w; e = f64_exponent w; f = f64_fraction w in
      if e = 2047 then f32_make s (255 * 2 ^ 23 + (if f = 0 then 0 else 2 ^ 22 + f div 2 ^ 29 mod 2 ^ 22))
      else if 1151 \<le> e then f32_make s (255 * 2 ^ 23)
      else if 897 \<le> e then f32_make s ((e - 897) * 2 ^ 23 + round_even (2 ^ 52 + f) 29)
      else if e = 0 then f32_make s 0
      else f32_make s (round_even (2 ^ 52 + f) (29 + (897 - e))))"

text \<open>\<open>str::parse::<u32>\<close>: an optional plus sign and decimal digits, none of them missing, at most \<open>u32::MAX\<close>.\<close>

fun decimal_value :: "nat \<Rightarrow> bytes \<Rightarrow> nat option" where
  "decimal_value acc [] = Some acc"
| "decimal_value acc (b # bs) =
     (if 48 \<le> b \<and> b \<le> 57 then decimal_value (acc * 10 + unat (b - 48)) bs else None)"

definition parse_u32 :: "bytes \<Rightarrow> u32 option" where
  "parse_u32 s =
     (let digits = (case s of b # rest \<Rightarrow> if b = 43 \<and> rest \<noteq> [] then rest else s | [] \<Rightarrow> s) in
      if digits = [] then None
      else case decimal_value 0 digits of
          None \<Rightarrow> None
        | Some n \<Rightarrow> if n < 2 ^ 32 then Some (word_of_nat n) else None)"

definition to_ascii_lowercase :: "bytes \<Rightarrow> bytes" where
  "to_ascii_lowercase = map (\<lambda>b. if 65 \<le> b \<and> b \<le> 90 then b + 32 else b)"

section \<open>Publish modes and script data\<close>

datatype publish_mode = Live | Record | Append

datatype data_message_type = DataAmf0 | DataAmf3

definition data_type_id :: "data_message_type \<Rightarrow> u8" where
  "data_type_id t = (case t of DataAmf0 \<Rightarrow> 18 | DataAmf3 \<Rightarrow> 15)"

definition from_type_id :: "u8 \<Rightarrow> data_message_type option" where
  "from_type_id n = (if n = 18 then Some DataAmf0 else if n = 15 then Some DataAmf3 else None)"

record 'd data_message =
  dm_wire_type :: data_message_type
  dm_timestamp :: rtmp_timestamp
  dm_payload :: 'd

definition data_message_new :: "data_message_type \<Rightarrow> rtmp_timestamp \<Rightarrow> 'd \<Rightarrow> 'd data_message" where
  "data_message_new wire_type timestamp payload =
     \<lparr>dm_wire_type = wire_type, dm_timestamp = timestamp, dm_payload = payload\<rparr>"

definition dm_map_payload :: "('d \<Rightarrow> 'f) \<Rightarrow> 'd data_message \<Rightarrow> 'f data_message" where
  "dm_map_payload f m = \<lparr>dm_wire_type = dm_wire_type m, dm_timestamp = dm_timestamp m, dm_payload = f (dm_payload m)\<rparr>"

fun amf0_get_object_properties :: "amf0_value \<Rightarrow> amf0_object option" where
  "amf0_get_object_properties (A0Object p) = Some p"
| "amf0_get_object_properties _ = None"

definition data_values ::
    "amf0_insert \<Rightarrow> amf0_sizes \<Rightarrow> bytes data_message \<Rightarrow> message_deserialization_error + amf0_value list" where
  "data_values ins sizes m =
     (case dm_wire_type m of
        DataAmf0 \<Rightarrow>
          (case amf0_deserialize ins sizes (dm_payload m) of
             Inr values \<Rightarrow> Inr values
           | Inl first \<Rightarrow>
               (case amf3_deserialize (size_nested sizes) (dm_payload m) of
                  Inr values \<Rightarrow> Inr (map (to_amf0 ins) values)
                | Inl _ \<Rightarrow> Inl (Amf0DeserializationError first)))
      | DataAmf3 \<Rightarrow>
          (case dm_payload m of
             [] \<Rightarrow> Inl InvalidMessageFormat
           | selector # rest \<Rightarrow>
               if selector = 0 then
                 rbind (map_error Amf0DeserializationError (amf0_deserialize ins sizes rest))
                   (\<lambda>values. Inr (map (\<lambda>v. to_amf0 ins (to_amf3 v)) values))
               else if selector = 3 then
                 rbind (map_error Amf3DeserializationError (amf3_deserialize (size_nested sizes) rest))
                   (\<lambda>values. Inr (map (to_amf0 ins) values))
               else Inl (Amf3DeserializationError (A3BadFormatSelector selector))))"

definition next_value :: "amf0_value list \<Rightarrow> amf0_value option \<times> amf0_value list" where
  "next_value vs = (case vs of [] \<Rightarrow> (None, []) | v # rest \<Rightarrow> (Some v, rest))"

definition metadata ::
    "amf0_insert \<Rightarrow> amf0_sizes \<Rightarrow> bytes data_message \<Rightarrow> message_deserialization_error + amf0_object option" where
  "metadata ins sizes m =
     rbind (data_values ins sizes m)
       (\<lambda>values.
          let (name0, values0) = next_value values;
              (name, values1) = (if name0 = Some (A0Utf8String (ascii ''@setDataFrame'')) then next_value values0 else (name0, values0))
          in if name \<noteq> Some (A0Utf8String (ascii ''onMetaData'')) then Inr None
             else Inr (case fst (next_value values1) of None \<Rightarrow> None | Some v \<Rightarrow> amf0_get_object_properties v))"

section \<open>Stream metadata\<close>

record stream_metadata =
  video_width :: "u32 option"
  video_height :: "u32 option"
  video_codec_id :: "u32 option"
  video_frame_rate :: "f32 option"
  video_bitrate_kbps :: "u32 option"
  audio_codec_id :: "u32 option"
  audio_bitrate_kbps :: "u32 option"
  audio_sample_rate :: "u32 option"
  audio_channels :: "u32 option"
  audio_is_stereo :: "bool option"
  encoder :: "bytes option"

definition stream_metadata_new :: stream_metadata where
  "stream_metadata_new =
     \<lparr>video_width = None, video_height = None, video_codec_id = None, video_frame_rate = None,
      video_bitrate_kbps = None, audio_codec_id = None, audio_bitrate_kbps = None, audio_sample_rate = None,
      audio_channels = None, audio_is_stereo = None, encoder = None\<rparr>"

definition apply_metadata_value :: "bytes \<times> amf0_value \<Rightarrow> stream_metadata \<Rightarrow> stream_metadata" where
  "apply_metadata_value entry m =
     (let key = fst entry; value = snd entry;
          number = (\<lambda>set. case amf0_get_number value of Some x \<Rightarrow> set x | None \<Rightarrow> m)
      in if key = ascii ''width'' then number (\<lambda>x. m\<lparr>video_width := Some (f64_to_u32 x)\<rparr>)
         else if key = ascii ''height'' then number (\<lambda>x. m\<lparr>video_height := Some (f64_to_u32 x)\<rparr>)
         else if key = ascii ''videocodecid'' then number (\<lambda>x. m\<lparr>video_codec_id := Some (f64_to_u32 x)\<rparr>)
         else if key = ascii ''videodatarate'' then number (\<lambda>x. m\<lparr>video_bitrate_kbps := Some (f64_to_u32 x)\<rparr>)
         else if key = ascii ''framerate'' then number (\<lambda>x. m\<lparr>video_frame_rate := Some (f64_to_f32 x)\<rparr>)
         else if key = ascii ''audiocodecid'' then number (\<lambda>x. m\<lparr>audio_codec_id := Some (f64_to_u32 x)\<rparr>)
         else if key = ascii ''audiodatarate'' then number (\<lambda>x. m\<lparr>audio_bitrate_kbps := Some (f64_to_u32 x)\<rparr>)
         else if key = ascii ''audiosamplerate'' then number (\<lambda>x. m\<lparr>audio_sample_rate := Some (f64_to_u32 x)\<rparr>)
         else if key = ascii ''audiochannels'' then number (\<lambda>x. m\<lparr>audio_channels := Some (f64_to_u32 x)\<rparr>)
         else if key = ascii ''stereo'' then
           (case amf0_get_boolean value of Some x \<Rightarrow> m\<lparr>audio_is_stereo := Some x\<rparr> | None \<Rightarrow> m)
         else if key = ascii ''encoder'' then
           (case amf0_as_str value of Some x \<Rightarrow> m\<lparr>encoder := Some x\<rparr> | None \<Rightarrow> m)
         else m)"

definition apply_metadata_values :: "stream_metadata \<Rightarrow> amf0_object \<Rightarrow> stream_metadata" where
  "apply_metadata_values m properties = fold apply_metadata_value properties m"

text \<open>
  The properties a session sends for a metadata record. The server inserts the bit rate before the
  frame rate, the client after it.
\<close>

definition insert_some :: "amf0_insert \<Rightarrow> string \<Rightarrow> amf0_value option \<Rightarrow> amf0_object \<Rightarrow> amf0_object" where
  "insert_some ins key value p = (case value of None \<Rightarrow> p | Some v \<Rightarrow> ins (ascii key) v p)"

definition number_of :: "u32 option \<Rightarrow> amf0_value option" where
  "number_of x = map_option (\<lambda>n. A0Number (u32_to_f64 n)) x"

definition server_metadata_properties :: "amf0_insert \<Rightarrow> stream_metadata \<Rightarrow> amf0_object" where
  "server_metadata_properties ins m =
     fold (\<lambda>(k, v). insert_some ins k v)
       [(''width'', number_of (video_width m)), (''height'', number_of (video_height m)),
        (''videocodecid'', number_of (video_codec_id m)), (''videodatarate'', number_of (video_bitrate_kbps m)),
        (''framerate'', map_option (\<lambda>x. A0Number (f32_to_f64 x)) (video_frame_rate m)),
        (''audiocodecid'', number_of (audio_codec_id m)), (''audiodatarate'', number_of (audio_bitrate_kbps m)),
        (''audiosamplerate'', number_of (audio_sample_rate m)), (''audiochannels'', number_of (audio_channels m)),
        (''stereo'', map_option A0Boolean (audio_is_stereo m)), (''encoder'', map_option A0Utf8String (encoder m))] []"

definition client_metadata_properties :: "amf0_insert \<Rightarrow> stream_metadata \<Rightarrow> amf0_object" where
  "client_metadata_properties ins m =
     fold (\<lambda>(k, v). insert_some ins k v)
       [(''width'', number_of (video_width m)), (''height'', number_of (video_height m)),
        (''videocodecid'', number_of (video_codec_id m)),
        (''framerate'', map_option (\<lambda>x. A0Number (f32_to_f64 x)) (video_frame_rate m)),
        (''videodatarate'', number_of (video_bitrate_kbps m)),
        (''audiocodecid'', number_of (audio_codec_id m)), (''audiodatarate'', number_of (audio_bitrate_kbps m)),
        (''audiosamplerate'', number_of (audio_sample_rate m)), (''audiochannels'', number_of (audio_channels m)),
        (''stereo'', map_option A0Boolean (audio_is_stereo m)), (''encoder'', map_option A0Utf8String (encoder m))] []"


section \<open>The environment of a session\<close>

text \<open>
  What a session uses and does not own: insertion into and order-keeping removal from the \<open>IndexMap\<close> of an AMF
  object, the sizes of AMF values in memory, the allocator behaviour the decoder depends on, and the clock, which
  gives for each reading the milliseconds since the session started, as \<open>u32\<close>.
\<close>

record session_env =
  se_insert :: amf0_insert
  se_shift_remove :: "bytes \<Rightarrow> amf0_object \<Rightarrow> amf0_object \<times> amf0_value option"
  se_sizes :: amf0_sizes
  se_decoder :: decoder_env
  se_clock :: "nat \<Rightarrow> u32"

definition shift_remove_ok :: "(bytes \<Rightarrow> amf0_object \<Rightarrow> amf0_object \<times> amf0_value option) \<Rightarrow> bool" where
  "shift_remove_ok sr \<longleftrightarrow> (\<forall>k p. sr k p = (filter (\<lambda>(k', v). k' \<noteq> k) p, map_of p k))"

definition object_extend :: "amf0_insert \<Rightarrow> amf0_object \<Rightarrow> amf0_object \<Rightarrow> amf0_object" where
  "object_extend ins p q = fold (\<lambda>(k, v). ins k v) q p"

end
