(* ===== verification/Session_Metadata.thy ===== *)
theory Session_Metadata
  imports Session_Values
begin

text \<open>
  Metadata survives the wire: the numeric conversions are inverse to one another on the values a session
  sends, and a receiver that applies the properties of a metadata message has the sender's record.
\<close>

lemma f64_integral_exponent:
  assumes i: "f64_integral w = Some i" and "0 \<le> i" "i < 2 ^ 32"
  shows "f64_exponent w < 1055"
proof (rule ccontr)
  let ?e = "f64_exponent w" and ?m = "2 ^ 52 + f64_fraction w"
  assume "\<not> ?e < 1055"
  then have e: "1055 \<le> ?e" by simp
  then have fin: "?e \<noteq> 2047"
    using i by (auto simp: f64_integral_def Let_def split: if_splits)
  have "int (2 ^ 32) \<le> \<bar>i\<bar>"
  proof (cases "1075 \<le> ?e")
    case True
    have "(2 :: nat) ^ 32 * 1 \<le> ?m * 2 ^ (?e - 1075)"
      by (rule mult_le_mono) simp_all
    then have "(2 :: nat) ^ 32 \<le> ?m * 2 ^ (?e - 1075)"
      by simp
    moreover have "\<bar>i\<bar> = int (?m * 2 ^ (?e - 1075))"
      using i fin e True by (auto simp: f64_integral_def Let_def abs_mult split: if_splits)
    ultimately show ?thesis
      by (simp only: of_nat_le_iff)
  next
    case part: False
    have "(2 :: nat) ^ (32 + (1075 - ?e)) \<le> 2 ^ 52"
      using e by (intro power_increasing) auto
    then have "2 ^ 32 * 2 ^ (1075 - ?e) \<le> (2 :: nat) ^ 52"
      by (simp only: power_add)
    then have "2 ^ 32 \<le> ?m div 2 ^ (1075 - ?e)"
      by (simp add: less_eq_div_iff_mult_less_eq)
    moreover have "\<bar>i\<bar> = int (?m div 2 ^ (1075 - ?e))"
      using i fin part e by (auto simp: f64_integral_def Let_def abs_mult split: if_splits)
    ultimately show ?thesis
      by (simp only: of_nat_le_iff)
  qed
  then show False
    using assms(2,3) by simp
qed

lemma f64_to_u32_integral:
  assumes i: "f64_integral w = Some i" and "0 \<le> i" "i < 2 ^ 32"
  shows "f64_to_u32 w = word_of_int i"
proof (cases "f64_exponent w = 0")
  case True
  then show ?thesis
    using i by (auto simp: f64_integral_def Let_def f64_to_u32_def split: if_splits)
next
  case False
  let ?e = "f64_exponent w" and ?m = "2 ^ 52 + f64_fraction w"
  have fin: "?e \<noteq> 2047" and lo: "1023 \<le> ?e"
    using i False by (auto simp: f64_integral_def Let_def split: if_splits)
  have pos: "0 < ?m div 2 ^ (1075 - ?e)" if "?e < 1075"
  proof -
    have "(2 :: nat) ^ (1075 - ?e) \<le> 2 ^ 52"
      using lo by (intro power_increasing) auto
    then show ?thesis
      by (simp add: div_greater_zero_iff)
  qed
  have hi: "?e < 1055"
    using f64_integral_exponent [OF assms] .
  have val: "i = (if f64_sign w then - 1 else 1) * int (?m div 2 ^ (1075 - ?e))"
    using i fin False hi lo by (auto simp: f64_integral_def Let_def split: if_splits)
  then have "\<not> f64_sign w"
    using pos hi assms(2) by (auto split: if_splits)
  then show ?thesis
    using val fin lo hi by (simp add: f64_to_u32_def f64_is_nan_def)
qed

lemma u32_f64_u32 [simp]: "f64_to_u32 (u32_to_f64 n) = n"
proof -
  have "uint n < 2 ^ 32"
    using uint_lt2p [of n] by simp
  then have "f64_integral (u32_to_f64 n) = Some (uint n)"
    unfolding u32_to_f64_def by (intro f64_integral_of_int) simp
  then show ?thesis
    using f64_to_u32_integral [of "u32_to_f64 n" "uint n"] \<open>uint n < 2 ^ 32\<close> by simp
qed

lemma f64_make_fields:
  assumes "f < 2 ^ 52" "e < 2 ^ 11"
  shows "f64_sign (f64_make s e f) = s" "f64_exponent (f64_make s e f) = e" "f64_fraction (f64_make s e f) = f"
  unfolding f64_make_def using f64_fields [OF assms, of s] by simp_all

lemma nat_pieces: "(n :: nat) = n div (c * d) * (c * d) + (n div c mod d * c + n mod c)"
proof -
  have "n = n div c * c + n mod c"
    by simp
  also have "n div c = n div c div d * d + n div c mod d"
    by simp
  finally show ?thesis
    unfolding div_mult2_eq by (simp only: algebra_simps)
qed

lemma f32_split: "x = f32_make (f32_sign x) (f32_exponent x * 2 ^ 23 + f32_fraction x)"
proof -
  define n where "n = unat x"
  have n: "n < 2 ^ 32"
    unfolding n_def using unsigned_less [of x] by simp
  have f: "f32_fraction x = n mod 2 ^ 23"
    unfolding f32_fraction_def n_def unsigned_take_bit_eq by (simp add: take_bit_nat_def)
  have e: "f32_exponent x = n div 2 ^ 23 mod 2 ^ 8"
    unfolding f32_exponent_def unsigned_take_bit_eq unat_drop_bit_eq n_def [symmetric]
    by (simp add: take_bit_eq_mod drop_bit_eq_div)
  have "f32_sign x \<longleftrightarrow> odd (n div 2 ^ 31)"
    unfolding f32_sign_def n_def bit_iff_odd [symmetric] by (simp add: bit_unsigned_iff)
  moreover have "n div 2 ^ 31 < 2"
    using n by (simp add: less_mult_imp_div_less)
  ultimately have s: "(if f32_sign x then 2 ^ 31 else 0) = n div 2 ^ 31 * 2 ^ 31"
    by (cases "n div 2 ^ 31 = 0"; cases "n div 2 ^ 31 = 1") auto
  have "n = n div 2 ^ 31 * 2 ^ 31 + (n div 2 ^ 23 mod 2 ^ 8 * 2 ^ 23 + n mod 2 ^ 23)"
    using nat_pieces [of n "2 ^ 23" "2 ^ 8"] by simp
  then have "n = (if f32_sign x then 2 ^ 31 else 0) + (f32_exponent x * 2 ^ 23 + f32_fraction x)"
    unfolding s e f .
  then have "word_of_nat (unat x) = (word_of_nat ((if f32_sign x then 2 ^ 31 else 0) + (f32_exponent x * 2 ^ 23 + f32_fraction x)) :: f32)"
    unfolding n_def by (rule arg_cong)
  then show ?thesis
    unfolding f32_make_def by simp
qed

lemma round_even_exact: "round_even (a * 2 ^ k) k = a"
  by (simp add: round_even_def)

lemma f32_f64_f32:
  assumes "\<not> f32_is_nan x"
  shows "f64_to_f32 (f32_to_f64 x) = x"
proof -
  let ?s = "f32_sign x" and ?e = "f32_exponent x" and ?f = "f32_fraction x"
  have f: "?f < 2 ^ 23"
    unfolding f32_fraction_def unsigned_take_bit_eq by (rule take_bit_nat_less_exp)
  have e: "?e < 2 ^ 8"
    unfolding f32_exponent_def unsigned_take_bit_eq by (rule take_bit_nat_less_exp)
  consider (inf) "?e = 255" "?f = 0" | (zero) "?e = 0" "?f = 0" | (sub) "?e = 0" "?f \<noteq> 0" | (normal) "?e \<noteq> 0" "?e < 255"
    using assms e by (cases "?e = 255") (auto simp: f32_is_nan_def)
  then have "f64_to_f32 (f32_to_f64 x) = f32_make ?s (?e * 2 ^ 23 + ?f)"
  proof cases
    case inf
    then show ?thesis
      using f64_make_fields [of 0 2047 ?s] by (simp add: f32_to_f64_def f64_to_f32_def Let_def)
  next
    case zero
    then show ?thesis
      using f64_make_fields [of 0 0 ?s] by (simp add: f32_to_f64_def f64_to_f32_def Let_def)
  next
    case normal
    have m: "?f * 2 ^ 29 < 2 ^ 52"
      using f by simp
    have q: "2 ^ 52 + ?f * 2 ^ 29 = (2 ^ 23 + ?f) * 2 ^ 29"
      by simp
    have "f64_to_f32 (f32_to_f64 x) = f32_make ?s ((?e - 1) * 2 ^ 23 + (2 ^ 23 + ?f))"
      using normal f64_make_fields [OF m, of "?e + 896" ?s] round_even_exact [of "2 ^ 23 + ?f" 29] unfolding q [symmetric]
      by (simp add: f32_to_f64_def f64_to_f32_def Let_def)
    moreover have "(?e - 1) * 2 ^ 23 + (2 ^ 23 + ?f) = ?e * 2 ^ 23 + ?f"
      using normal by (cases ?e) simp_all
    ultimately show ?thesis by (simp only:)
  next
    case sub
    define k where "k = top_bit ?f"
    have b: "2 ^ k \<le> ?f" "?f < 2 ^ Suc k"
      using top_bit_bounds [of ?f] sub by (auto simp: k_def)
    have k: "k < 23"
    proof (rule ccontr)
      assume "\<not> k < 23"
      then have "(2 :: nat) ^ 23 \<le> 2 ^ k"
        by (intro power_increasing) auto
      with f b show False by linarith
    qed
    have p: "(2 :: nat) ^ 52 = 2 ^ k * 2 ^ (52 - k)"
      using k by (simp flip: power_add)
    have lo: "2 ^ 52 \<le> ?f * 2 ^ (52 - k)"
      unfolding p using b by simp
    have m: "?f * 2 ^ (52 - k) - 2 ^ 52 < 2 ^ 52"
    proof -
      have "?f * 2 ^ (52 - k) < 2 ^ Suc k * 2 ^ (52 - k)"
        using b by simp
      also have "\<dots> = 2 * 2 ^ 52"
        unfolding p by simp
      finally show ?thesis by linarith
    qed
    have sh: "29 + (897 - (k + 874)) = 52 - k"
      using k by simp
    have fields: "f64_sign (f32_to_f64 x) = ?s" "f64_exponent (f32_to_f64 x) = k + 874"
      "2 ^ 52 + f64_fraction (f32_to_f64 x) = ?f * 2 ^ (52 - k)"
      using sub f64_make_fields [OF m, of "k + 874" ?s] k lo by (simp_all add: f32_to_f64_def Let_def k_def [symmetric])
    have "f64_to_f32 (f32_to_f64 x) = f32_make ?s (round_even (2 ^ 52 + f64_fraction (f32_to_f64 x)) (29 + (897 - (k + 874))))"
      using k fields by (simp add: f64_to_f32_def Let_def)
    also have "\<dots> = f32_make ?s ?f"
      unfolding fields(3) sh round_even_exact ..
    finally show ?thesis
      using sub by simp
  qed
  then show ?thesis
    using f32_split [of x] by simp
qed


section \<open>Metadata on the wire\<close>

text \<open>Inserting distinct keys appends them, so applying the properties sets each field to what was sent.\<close>

definition opt_entry :: "string \<Rightarrow> amf0_value option \<Rightarrow> amf0_object" where
  "opt_entry k v = (case v of None \<Rightarrow> [] | Some x \<Rightarrow> [(ascii k, x)])"

lemma insert_some_new:
  assumes "ins_ok ins" and "ascii k \<notin> fst ` set p"
  shows "insert_some ins k v p = p @ opt_entry k v"
  using assms by (auto simp: insert_some_def opt_entry_def ins_ok_def split: option.splits)

fun some_entries :: "(string \<times> amf0_value option) list \<Rightarrow> amf0_object" where
  "some_entries [] = []"
| "some_entries ((k, v) # kvs) = opt_entry k v @ some_entries kvs"

lemma insert_some_fold:
  assumes "ins_ok ins" and "distinct (map (ascii \<circ> fst) kvs)" and "fst ` set p \<inter> set (map (ascii \<circ> fst) kvs) = {}"
  shows "fold (\<lambda>(k, v). insert_some ins k v) kvs p = p @ some_entries kvs"
  using assms(2,3)
proof (induction kvs arbitrary: p)
  case (Cons kv kvs)
  obtain k v where kv: "kv = (k, v)" by (cases kv)
  have "insert_some ins k v p = p @ opt_entry k v"
    using Cons.prems by (intro insert_some_new [OF assms(1)]) (auto simp: kv)
  with Cons show ?case
    by (auto simp: kv opt_entry_def split: option.splits)
qed simp

lemma apply_number:
  "apply_metadata_value (ascii ''width'', A0Number x) m = m\<lparr>video_width := Some (f64_to_u32 x)\<rparr>"
  "apply_metadata_value (ascii ''height'', A0Number x) m = m\<lparr>video_height := Some (f64_to_u32 x)\<rparr>"
  "apply_metadata_value (ascii ''videocodecid'', A0Number x) m = m\<lparr>video_codec_id := Some (f64_to_u32 x)\<rparr>"
  "apply_metadata_value (ascii ''videodatarate'', A0Number x) m = m\<lparr>video_bitrate_kbps := Some (f64_to_u32 x)\<rparr>"
  "apply_metadata_value (ascii ''framerate'', A0Number x) m = m\<lparr>video_frame_rate := Some (f64_to_f32 x)\<rparr>"
  "apply_metadata_value (ascii ''audiocodecid'', A0Number x) m = m\<lparr>audio_codec_id := Some (f64_to_u32 x)\<rparr>"
  "apply_metadata_value (ascii ''audiodatarate'', A0Number x) m = m\<lparr>audio_bitrate_kbps := Some (f64_to_u32 x)\<rparr>"
  "apply_metadata_value (ascii ''audiosamplerate'', A0Number x) m = m\<lparr>audio_sample_rate := Some (f64_to_u32 x)\<rparr>"
  "apply_metadata_value (ascii ''audiochannels'', A0Number x) m = m\<lparr>audio_channels := Some (f64_to_u32 x)\<rparr>"
  "apply_metadata_value (ascii ''stereo'', A0Boolean b) m = m\<lparr>audio_is_stereo := Some b\<rparr>"
  "apply_metadata_value (ascii ''encoder'', A0Utf8String str) m = m\<lparr>encoder := Some str\<rparr>"
  by (simp_all add: apply_metadata_value_def ascii_def)

text \<open>An entry, if there is one, sets a field that was not set.\<close>

lemma apply_entry:
  "video_width m = None \<Longrightarrow>
    fold apply_metadata_value (opt_entry ''width'' (number_of x)) m = m\<lparr>video_width := x\<rparr>"
  "video_height m = None \<Longrightarrow>
    fold apply_metadata_value (opt_entry ''height'' (number_of x)) m = m\<lparr>video_height := x\<rparr>"
  "video_codec_id m = None \<Longrightarrow>
    fold apply_metadata_value (opt_entry ''videocodecid'' (number_of x)) m = m\<lparr>video_codec_id := x\<rparr>"
  "video_bitrate_kbps m = None \<Longrightarrow>
    fold apply_metadata_value (opt_entry ''videodatarate'' (number_of x)) m = m\<lparr>video_bitrate_kbps := x\<rparr>"
  "audio_codec_id m = None \<Longrightarrow>
    fold apply_metadata_value (opt_entry ''audiocodecid'' (number_of x)) m = m\<lparr>audio_codec_id := x\<rparr>"
  "audio_bitrate_kbps m = None \<Longrightarrow>
    fold apply_metadata_value (opt_entry ''audiodatarate'' (number_of x)) m = m\<lparr>audio_bitrate_kbps := x\<rparr>"
  "audio_sample_rate m = None \<Longrightarrow>
    fold apply_metadata_value (opt_entry ''audiosamplerate'' (number_of x)) m = m\<lparr>audio_sample_rate := x\<rparr>"
  "audio_channels m = None \<Longrightarrow>
    fold apply_metadata_value (opt_entry ''audiochannels'' (number_of x)) m = m\<lparr>audio_channels := x\<rparr>"
  by (cases x; simp add: number_of_def opt_entry_def apply_number)+

lemma apply_others:
  "video_frame_rate m = None \<Longrightarrow> \<forall>x. r = Some x \<longrightarrow> \<not> f32_is_nan x \<Longrightarrow>
    fold apply_metadata_value (opt_entry ''framerate'' (map_option (\<lambda>x. A0Number (f32_to_f64 x)) r)) m
    = m\<lparr>video_frame_rate := r\<rparr>"
  "audio_is_stereo m = None \<Longrightarrow>
    fold apply_metadata_value (opt_entry ''stereo'' (map_option A0Boolean b)) m = m\<lparr>audio_is_stereo := b\<rparr>"
  "encoder m = None \<Longrightarrow>
    fold apply_metadata_value (opt_entry ''encoder'' (map_option A0Utf8String str)) m = m\<lparr>encoder := str\<rparr>"
  apply (cases r; simp add: opt_entry_def apply_number f32_f64_f32)
  apply (cases b; simp add: opt_entry_def apply_number)
  apply (cases str; simp add: opt_entry_def apply_number)
  done

lemma metadata_applied:
  assumes "ins_ok ins" and "\<forall>x. video_frame_rate m = Some x \<longrightarrow> \<not> f32_is_nan x"
  shows "apply_metadata_values stream_metadata_new (server_metadata_properties ins m) = m"
    and "apply_metadata_values stream_metadata_new (client_metadata_properties ins m) = m"
proof -
  show "apply_metadata_values stream_metadata_new (server_metadata_properties ins m) = m"
    unfolding server_metadata_properties_def apply_metadata_values_def
    by (subst insert_some_fold [OF assms(1)])
      (simp_all add: ascii_def apply_entry apply_others assms(2) stream_metadata_new_def)
  show "apply_metadata_values stream_metadata_new (client_metadata_properties ins m) = m"
    unfolding client_metadata_properties_def apply_metadata_values_def
    by (subst insert_some_fold [OF assms(1)])
      (simp_all add: ascii_def apply_entry apply_others assms(2) stream_metadata_new_def)
qed

end
