(* ===== verification/Server_Session.thy ===== *)
theory Server_Session
  imports Session_Values
begin

text \<open>
  The server side of a connection (\<open>src/src/sessions/server\<close>). The record \<open>server_session\<close> is
  \<open>ServerSession\<close>; each method is an operation of \<open>Session_Monad\<close> over it with the environment first. The
  start time is replaced by the number of clock readings so far. Panics (\<open>expect\<close>, the remainder by a zero window)
  are the error \<open>ServerPanic\<close>; the receive loop has fuel, and \<open>ServerOutOfFuel\<close> is never returned with the fuel
  \<open>receive\<close> gives it (\<open>Server_Invariant\<close>).

  An \<open>Arc<str>\<close> or \<open>String\<close> is its bytes. Handlers return the list of outputs that the code collects in a
  vector; \<open>D\<close> is \<open>bytes\<close> there and \<open>payload\<close> in the queue.
\<close>

section \<open>Data\<close>

datatype stream_state =
    StreamCreated
  | StreamPublishing bytes publish_mode
  | StreamPlaying bytes
  | StreamCompleted

record active_stream =
  as_current_state :: stream_state

datatype outstanding_request =
    ConnectionRequest bytes f64 amf_encoding
  | PublishRequested bytes publish_mode u32 amf_encoding
  | PlayRequested bytes u32 amf_encoding

datatype session_state = Started | SessionConnected

datatype server_session_error =
    ServerLimitExceeded session_limit_error
  | ServerStreamInInvalidState stream_handle server_stream_state
  | StreamIdsExhausted
  | ServerInvalidStreamHandle
  | NotConnected
  | ServerPendingOutput
  | ServerSessionFailed
  | ServerDecodeError decode_error
  | ServerEncodeError encode_error
  | ServerMessageSerializationError message_serialization_error
  | ServerMessageDeserializationError message_deserialization_error
  | InvalidOutstandingRequest u32
  | NoAppNameForConnectionRequest
  | InvalidRequestId
  | ActionAttemptedOnInactiveStream string u32
  | ServerPanic
  | ServerOutOfFuel

datatype play_start_value = LiveOrRecorded | LiveOnly | StartTimeInSeconds u32

datatype 'd server_event =
    ClientChunkSizeChanged u32
  | ConnectionRequested u32 bytes amf0_object
  | ReleaseStreamRequested u32 bytes bytes
  | PublishStreamRequested stream_handle u32 bytes bytes publish_mode u32
  | PublishStreamFinished stream_handle u32 bytes bytes
  | StreamDataReceived stream_handle u32 bytes bytes "'d data_message"
  | AudioDataReceived stream_handle u32 bytes bytes 'd rtmp_timestamp
  | VideoDataReceived stream_handle u32 bytes bytes 'd rtmp_timestamp
  | UnhandledCommand u32 bytes f64 amf0_value "amf0_value list"
  | PlayStreamRequested stream_handle u32 bytes bytes play_start_value "u32 option" bool u32
  | PlayStreamFinished stream_handle u32 bytes bytes
  | AcknowledgementReceived u32
  | PingResponseReceived rtmp_timestamp

fun server_event_map_payload :: "('d \<Rightarrow> 'f) \<Rightarrow> 'd server_event \<Rightarrow> 'f server_event" where
  "server_event_map_payload f (ClientChunkSizeChanged n) = ClientChunkSizeChanged n"
| "server_event_map_payload f (ConnectionRequested r app p) = ConnectionRequested r app p"
| "server_event_map_payload f (ReleaseStreamRequested r app key) = ReleaseStreamRequested r app key"
| "server_event_map_payload f (PublishStreamRequested h r app key mode sid) = PublishStreamRequested h r app key mode sid"
| "server_event_map_payload f (PublishStreamFinished h sid app key) = PublishStreamFinished h sid app key"
| "server_event_map_payload f (StreamDataReceived h sid app key m) = StreamDataReceived h sid app key (dm_map_payload f m)"
| "server_event_map_payload f (AudioDataReceived h sid app key data t) = AudioDataReceived h sid app key (f data) t"
| "server_event_map_payload f (VideoDataReceived h sid app key data t) = VideoDataReceived h sid app key (f data) t"
| "server_event_map_payload f (UnhandledCommand sid name tid obj args) = UnhandledCommand sid name tid obj args"
| "server_event_map_payload f (PlayStreamRequested h r app key start dur reset sid) =
     PlayStreamRequested h r app key start dur reset sid"
| "server_event_map_payload f (PlayStreamFinished h sid app key) = PlayStreamFinished h sid app key"
| "server_event_map_payload f (AcknowledgementReceived n) = AcknowledgementReceived n"
| "server_event_map_payload f (PingResponseReceived t) = PingResponseReceived t"

datatype 'd server_output =
    ServerPacket "payload packet"
  | ServerRaised "'d server_event"
  | ServerUnhandledMessage "'d raw_message"

fun server_output_map_payload :: "('d \<Rightarrow> 'f) \<Rightarrow> 'd server_output \<Rightarrow> 'f server_output" where
  "server_output_map_payload f (ServerPacket p) = ServerPacket p"
| "server_output_map_payload f (ServerRaised e) = ServerRaised (server_event_map_payload f e)"
| "server_output_map_payload f (ServerUnhandledMessage m) = ServerUnhandledMessage (rm_map f m)"

record server_session_config =
  sc_fms_version :: bytes
  sc_chunk_size :: u32
  sc_peer_bandwidth :: u32
  sc_window_ack_size :: u32
  sc_send_on_bw_done_message_on_start :: bool
  sc_max_object_encoding :: amf_encoding
  sc_payload_pool :: "payload_pool option"
  sc_decoder_limits :: decoder_limits
  sc_session_limits :: session_limits

definition server_session_config_new :: server_session_config where
  "server_session_config_new =
     \<lparr>sc_fms_version = ascii ''FMS/3,0,1,1233'', sc_chunk_size = 4096, sc_peer_bandwidth = 2500000,
      sc_window_ack_size = 1073741824, sc_send_on_bw_done_message_on_start = True, sc_max_object_encoding = Amf3,
      sc_payload_pool = None, sc_decoder_limits = decoder_limits_default, sc_session_limits = session_limits_default\<rparr>"

record server_session =
  ss_failed :: bool
  ss_ticks :: nat
  ss_serializer :: chunk_encoder
  ss_deserializer :: message_decoder
  ss_pending :: "payload server_output list"
  ss_connected_app_name :: "bytes option"
  ss_outstanding_requests :: "(u32, outstanding_request) hash_map"
  ss_next_request_number :: u32
  ss_current_state :: session_state
  ss_fms_version :: bytes
  ss_negotiated_encoding :: amf_encoding
  ss_max_object_encoding :: amf_encoding
  ss_peer_uses_amf3_framing :: bool
  ss_response_encoding :: amf_encoding
  ss_active_streams :: "(u32, active_stream) hash_map"
  ss_stream_handles :: "unit streams"
  ss_next_stream_id :: u32
  ss_session_limits :: session_limits
  ss_peer_window_ack_size :: "u32 option"
  ss_self_window_ack_size :: "u32 option"
  ss_bytes_received :: u64
  ss_bytes_received_since_last_ack :: u32
  ss_pending_connection_control :: "bytes server_output list"

type_synonym 'a server_op = "(server_session, server_session_error, 'a) op"

section \<open>Queries\<close>

definition server_state :: "server_session \<Rightarrow> connection_state" where
  "server_state s =
     (if ss_failed s then Failed
      else if ss_current_state s = SessionConnected then Connected
      else if list_ex (\<lambda>r. case r of ConnectionRequest _ _ _ \<Rightarrow> True | _ \<Rightarrow> False) (hm_values (ss_outstanding_requests s))
      then Connecting else Disconnected)"

definition server_stream_id :: "server_session \<Rightarrow> stream_handle \<Rightarrow> u32 option" where
  "server_stream_id s h = (case streams_get (ss_stream_handles s) h of None \<Rightarrow> None | Some e \<Rightarrow> en_wire_id e)"

definition server_stream_state_of :: "server_session \<Rightarrow> stream_handle \<Rightarrow> server_stream_state option" where
  "server_stream_state_of s h =
     (case server_stream_id s h of
        None \<Rightarrow> None
      | Some wire \<Rightarrow>
          (case hm_get (ss_active_streams s) wire of
             None \<Rightarrow> None
           | Some a \<Rightarrow>
               Some (case as_current_state a of
                 StreamCreated \<Rightarrow> ServerCreated
               | StreamPlaying _ \<Rightarrow> ServerPlaying
               | StreamPublishing _ _ \<Rightarrow> ServerPublishing
               | StreamCompleted \<Rightarrow> ServerCompleted)))"

definition server_streams :: "server_session \<Rightarrow> (stream_handle \<times> u32) list" where
  "server_streams s =
     List.map_filter (\<lambda>(h, e). map_option (Pair h) (en_wire_id e)) (streams_iter (ss_stream_handles s))"

definition server_ensure_active :: "unit server_op" where
  "server_ensure_active s = (s, if ss_failed s then Inl ServerSessionFailed else Inr ())"

definition server_ensure_output_drained :: "unit server_op" where
  "server_ensure_output_drained =
     sbind server_ensure_active (\<lambda>_. sbind (sget (\<lambda>s. s)) (\<lambda>s.
       if ss_pending s \<noteq> [] then sfail ServerPendingOutput
       else if ss_current_state s \<noteq> SessionConnected then sfail NotConnected
       else sret ()))"

definition playback_id :: "stream_handle \<Rightarrow> u32 server_op" where
  "playback_id h =
     sbind (sget (\<lambda>s. s)) (\<lambda>s.
       case server_stream_state_of s h of
         None \<Rightarrow> sfail ServerInvalidStreamHandle
       | Some state \<Rightarrow>
           if state \<noteq> ServerPlaying then sfail (ServerStreamInInvalidState h state)
           else (case server_stream_id s h of None \<Rightarrow> sfail ServerPanic | Some sid \<Rightarrow> sret sid))"

section \<open>Outbound messages\<close>

definition get_epoch :: "session_env \<Rightarrow> rtmp_timestamp server_op" where
  "get_epoch env s = (s\<lparr>ss_ticks := Suc (ss_ticks s)\<rparr>, Inr (ts_new (se_clock env (ss_ticks s))))"

definition server_initiated_encoding :: "server_session \<Rightarrow> amf_encoding" where
  "server_initiated_encoding s =
     (if is_amf3 (ss_negotiated_encoding s) \<and> ss_peer_uses_amf3_framing s then Amf3 else Amf0)"

definition encode_response :: "server_session \<Rightarrow> message \<Rightarrow> message" where
  "encode_response s m =
     (if \<not> (is_amf3 (ss_negotiated_encoding s) \<and> is_amf3 (ss_response_encoding s)) then m
      else case m of
          Amf0Command name tid obj args \<Rightarrow> Amf3Command name tid (to_amf3 obj) (map to_amf3 args) Amf0
        | Amf0Data values \<Rightarrow> Amf3Data (map to_amf3 values) Amf0
        | other \<Rightarrow> other)"

definition command_message :: "server_session \<Rightarrow> bytes \<Rightarrow> f64 \<Rightarrow> amf0_value \<Rightarrow> amf0_value list \<Rightarrow> message" where
  "command_message s name tid obj args = encode_response s (Amf0Command name tid obj args)"

definition to_payload :: "session_env \<Rightarrow> message \<Rightarrow> u32 \<Rightarrow> bytes raw_message server_op" where
  "to_payload env m sid =
     sbind (sget (\<lambda>s. encode_response s m)) (\<lambda>m'.
     sbind (get_epoch env) (\<lambda>t.
       slift (map_error ServerMessageSerializationError (from_rtmp_message (se_insert env) m' t sid))))"

definition server_serialize :: "bytes raw_message \<Rightarrow> bool \<Rightarrow> payload packet server_op" where
  "server_serialize m full s =
     (case serialize (ss_serializer s) m full False of
        (e, r) \<Rightarrow> (s\<lparr>ss_serializer := e\<rparr>, map_error ServerEncodeError r))"

definition server_encode :: "payload raw_message \<Rightarrow> encode_options \<Rightarrow> payload packet server_op" where
  "server_encode m options s =
     (case encode payload_ops (ss_serializer s) m options of
        (e, r) \<Rightarrow> (s\<lparr>ss_serializer := e\<rparr>, map_error ServerEncodeError r))"

text \<open>\<open>let payload = self.to_payload(message, id)?; self.serializer.serialize(&payload, force, false)?\<close>\<close>

definition send_message :: "session_env \<Rightarrow> bool \<Rightarrow> message \<Rightarrow> u32 \<Rightarrow> payload packet server_op" where
  "send_message env full m sid = sbind (to_payload env m sid) (\<lambda>p. server_serialize p full)"

definition create_status_object :: "session_env \<Rightarrow> bytes \<Rightarrow> bytes \<Rightarrow> bytes \<Rightarrow> amf0_value" where
  "create_status_object env level code description =
     A0Object (insert_all (se_insert env)
       [(ascii ''level'', A0Utf8String level), (ascii ''code'', A0Utf8String code),
        (ascii ''description'', A0Utf8String description)])"

definition create_success_response ::
    "session_env \<Rightarrow> f64 \<Rightarrow> amf0_value \<Rightarrow> amf0_value list \<Rightarrow> u32 \<Rightarrow> payload packet server_op" where
  "create_success_response env tid obj args sid = send_message env False (Amf0Command (ascii ''_result'') tid obj args) sid"

definition create_error_response ::
    "session_env \<Rightarrow> f64 \<Rightarrow> amf0_value \<Rightarrow> amf0_value list \<Rightarrow> u32 \<Rightarrow> payload packet server_op" where
  "create_error_response env tid obj args sid = send_message env False (Amf0Command (ascii ''_error'') tid obj args) sid"

definition create_error_packet ::
    "session_env \<Rightarrow> bytes \<Rightarrow> bytes \<Rightarrow> f64 \<Rightarrow> u32 \<Rightarrow> payload packet server_op" where
  "create_error_packet env code description tid sid =
     create_error_response env tid A0Null [create_status_object env (ascii ''_error'') code description] sid"

text \<open>An error packet as the only output of a handler.\<close>

definition error_output ::
    "session_env \<Rightarrow> string \<Rightarrow> string \<Rightarrow> f64 \<Rightarrow> u32 \<Rightarrow> bytes server_output list server_op" where
  "error_output env code description tid sid =
     sbind (create_error_packet env (ascii code) (ascii description) tid sid) (\<lambda>p. sret [ServerPacket p])"

section \<open>Creation\<close>

definition server_initial :: "server_session_config \<Rightarrow> unit streams \<Rightarrow> server_session" where
  "server_initial config handles =
     \<lparr>ss_failed = False, ss_ticks = 0, ss_serializer = encoder_new,
      ss_deserializer =
        (let d = decoder_with_limits (sc_decoder_limits config) in
         case sc_payload_pool config of None \<Rightarrow> d | Some pool \<Rightarrow> set_payload_pool d pool),
      ss_pending = [], ss_connected_app_name = None, ss_outstanding_requests = [], ss_next_request_number = 0,
      ss_current_state = Started, ss_fms_version = sc_fms_version config, ss_negotiated_encoding = Amf0,
      ss_max_object_encoding = sc_max_object_encoding config, ss_peer_uses_amf3_framing = False,
      ss_response_encoding = Amf0, ss_active_streams = [], ss_stream_handles = handles, ss_next_stream_id = 1,
      ss_session_limits = sc_session_limits config, ss_peer_window_ack_size = None,
      ss_self_window_ack_size = Some (sc_window_ack_size config), ss_bytes_received = 0,
      ss_bytes_received_since_last_ack = 0, ss_pending_connection_control = []\<rparr>"

definition server_set_chunk_size :: "u32 \<Rightarrow> rtmp_timestamp \<Rightarrow> payload packet server_op" where
  "server_set_chunk_size n t s =
     (case encoder_set_chunk_size (ss_serializer s) n t of
        (e, r) \<Rightarrow> (s\<lparr>ss_serializer := e\<rparr>, map_error ServerEncodeError r))"

text \<open>The control packets retained until a connection request is answered.\<close>

definition server_preamble :: "session_env \<Rightarrow> server_session_config \<Rightarrow> unit server_op" where
  "server_preamble env config =
     sbind (server_set_chunk_size (sc_chunk_size config) (ts_new 0)) (\<lambda>chunk_size_packet.
     sbind (send_message env True (WindowAcknowledgement (sc_window_ack_size config)) 0) (\<lambda>window_ack_packet.
     sbind (send_message env True (UserControl StreamBegin (Some 0) None None) 0) (\<lambda>begin_packet.
     sbind (send_message env True (SetPeerBandwidth (sc_peer_bandwidth config) Dynamic) 0) (\<lambda>peer_packet.
     sbind (if sc_send_on_bw_done_message_on_start config
            then sbind (send_message env True (Amf0Command (ascii ''onBWDone'') 0 A0Null [A0Number (f64_of_int 8192)]) 0)
                   (\<lambda>p. sret [p])
            else sret []) (\<lambda>bw_done.
       smodify (\<lambda>s. s\<lparr>ss_pending_connection_control :=
         map ServerPacket ([chunk_size_packet, window_ack_packet, begin_packet, peer_packet] @ bw_done)\<rparr>))))))"

definition server_new ::
    "session_env \<Rightarrow> u64 \<Rightarrow> server_session_config \<Rightarrow> server_session_error + server_session \<times> u64" where
  "server_new env counter config =
     (if sc_window_ack_size config = 0
      then Inl (ServerDecodeError (ResourceLimitExceeded ''acknowledgement window'' 0 4294967295))
      else case streams_new counter of
          None \<Rightarrow> Inl ServerPanic
        | Some (handles, counter') \<Rightarrow>
            (case server_preamble env config (server_initial config handles) of
               (s, Inl e) \<Rightarrow> Inl e
             | (s, Inr _) \<Rightarrow> Inr (s, counter')))"

definition server_set_payload_pool :: "payload_pool \<Rightarrow> server_session \<Rightarrow> server_session" where
  "server_set_payload_pool pool s = s\<lparr>ss_deserializer := set_payload_pool (ss_deserializer s) pool\<rparr>"


section \<open>Handlers of commands\<close>

text \<open>Recording a request for the application: the number is used up even when the limit refuses it.\<close>

definition insert_request :: "outstanding_request \<Rightarrow> u32 server_op" where
  "insert_request request =
     sbind (sget ss_next_request_number) (\<lambda>request_number.
     sbind (smodify (\<lambda>s. s\<lparr>ss_next_request_number := ss_next_request_number s + 1\<rparr>)) (\<lambda>_.
     sbind (sget (\<lambda>s. check_requests (ss_session_limits s) (hm_len (ss_outstanding_requests s)))) (\<lambda>r.
     sbind (slift (map_error ServerLimitExceeded r)) (\<lambda>_.
     sbind (smodify (\<lambda>s. s\<lparr>ss_outstanding_requests := hm_insert request_number request (ss_outstanding_requests s)\<rparr>)) (\<lambda>_.
       sret request_number)))))"

definition known_stream :: "u32 \<Rightarrow> stream_handle server_op" where
  "known_stream sid =
     sbind (sget (\<lambda>s. streams_find (ss_stream_handles s) sid)) (\<lambda>h.
       case h of None \<Rightarrow> sfail ServerPanic | Some h \<Rightarrow> sret h)"

definition trim_app :: "bytes \<Rightarrow> bytes" where
  "trim_app app = (if app \<noteq> [] \<and> last app = 47 then butlast app else app)"

definition handle_command_connect ::
    "session_env \<Rightarrow> f64 \<Rightarrow> amf0_value \<Rightarrow> bytes server_output list server_op" where
  "handle_command_connect env tid obj =
     (case obj of
        A0Object properties \<Rightarrow>
          (case se_shift_remove env (ascii ''app'') properties of
             (properties1, Some (A0Utf8String app)) \<Rightarrow>
               let app_name = trim_app app;
                   (properties2, value) = se_shift_remove env (ascii ''objectEncoding'') properties1;
                   requested = (case Option.bind value amf0_get_number of None \<Rightarrow> Amf0 | Some x \<Rightarrow> from_object_encoding x)
               in sbind (smodify (\<lambda>s. s\<lparr>ss_negotiated_encoding := negotiate requested (ss_max_object_encoding s)\<rparr>)) (\<lambda>_.
                  sbind (sget ss_response_encoding) (\<lambda>encoding.
                  sbind (insert_request (ConnectionRequest app_name tid encoding)) (\<lambda>request_number.
                    sret [ServerRaised (ConnectionRequested request_number app_name properties2)])))
           | _ \<Rightarrow> sfail NoAppNameForConnectionRequest)
      | _ \<Rightarrow> sfail NoAppNameForConnectionRequest)"

text \<open>What closing or deleting a stream reports.\<close>

definition finished_event :: "u32 \<Rightarrow> bytes \<Rightarrow> stream_state \<Rightarrow> bytes server_output list server_op" where
  "finished_event sid app state =
     (case state of
        StreamPublishing key mode \<Rightarrow>
          sbind (known_stream sid) (\<lambda>h. sret [ServerRaised (PublishStreamFinished h sid app key)])
      | StreamPlaying key \<Rightarrow>
          sbind (known_stream sid) (\<lambda>h. sret [ServerRaised (PlayStreamFinished h sid app key)])
      | _ \<Rightarrow> sret [])"

definition set_stream_state :: "u32 \<Rightarrow> stream_state \<Rightarrow> server_session \<Rightarrow> server_session" where
  "set_stream_state sid state s =
     s\<lparr>ss_active_streams := hm_insert sid \<lparr>as_current_state = state\<rparr> (ss_active_streams s)\<rparr>"

definition handle_command_close_stream :: "amf0_value list \<Rightarrow> bytes server_output list server_op" where
  "handle_command_close_stream arguments =
     sbind (sget (\<lambda>s. s)) (\<lambda>s.
       if ss_current_state s \<noteq> SessionConnected then sret []
       else case ss_connected_app_name s of
           None \<Rightarrow> sret []
         | Some app \<Rightarrow>
             (case arguments of
                A0Number x # _ \<Rightarrow>
                  let sid = f64_to_u32 x in
                  (case hm_get (ss_active_streams s) sid of
                     None \<Rightarrow> sret []
                   | Some a \<Rightarrow>
                       sbind (finished_event sid app (as_current_state a)) (\<lambda>results.
                       sbind (smodify (set_stream_state sid StreamCreated)) (\<lambda>_. sret results)))
              | _ \<Rightarrow> sret []))"

definition handle_command_create_stream :: "session_env \<Rightarrow> f64 \<Rightarrow> bytes server_output list server_op" where
  "handle_command_create_stream env tid =
     sbind (sget (\<lambda>s. s)) (\<lambda>s.
     sbind (slift (map_error ServerLimitExceeded (check_streams (ss_session_limits s) (hm_len (ss_active_streams s))))) (\<lambda>_.
       let new_stream_id = ss_next_stream_id s in
       if new_stream_id = 0xffffffff then sfail StreamIdsExhausted
       else
         sbind (smodify (\<lambda>s. s\<lparr>ss_next_stream_id := new_stream_id + 1\<rparr>)) (\<lambda>_.
         sbind (smodify (set_stream_state new_stream_id StreamCreated)) (\<lambda>_.
         sbind (sget (\<lambda>s. streams_insert () (Some new_stream_id) (ss_stream_handles s))) (\<lambda>r.
           case r of
             None \<Rightarrow> sfail ServerPanic
           | Some (handles, h) \<Rightarrow>
               sbind (smodify (\<lambda>s. s\<lparr>ss_stream_handles := handles\<rparr>)) (\<lambda>_.
               sbind (create_success_response env tid A0Null [A0Number (u32_to_f64 new_stream_id)] 0) (\<lambda>packet.
                 sret [ServerPacket packet])))))))"

definition targets :: "u32 \<Rightarrow> outstanding_request \<Rightarrow> bool" where
  "targets sid r = (case r of PlayRequested _ i _ \<Rightarrow> i = sid | PublishRequested _ _ i _ \<Rightarrow> i = sid | _ \<Rightarrow> False)"

definition handle_command_delete_stream :: "amf0_value list \<Rightarrow> bytes server_output list server_op" where
  "handle_command_delete_stream arguments =
     sbind (sget (\<lambda>s. s)) (\<lambda>s.
       if ss_current_state s \<noteq> SessionConnected then sret []
       else case ss_connected_app_name s of
           None \<Rightarrow> sret []
         | Some app \<Rightarrow>
             (case (case arguments of
                      A0Number x # _ \<Rightarrow> Some (f64_to_u32 x)
                    | A0Utf8String str # _ \<Rightarrow> parse_u32 str
                    | _ \<Rightarrow> None) of
                None \<Rightarrow> sret []
              | Some sid \<Rightarrow>
                  (case hm_get (ss_active_streams s) sid of
                     None \<Rightarrow> sret []
                   | Some a \<Rightarrow>
                       sbind (smodify (\<lambda>s. s\<lparr>ss_active_streams := hm_remove sid (ss_active_streams s)\<rparr>)) (\<lambda>_.
                       sbind (smodify (\<lambda>s. s\<lparr>ss_outstanding_requests :=
                         filter (\<lambda>(_, r). \<not> targets sid r) (ss_outstanding_requests s)\<rparr>)) (\<lambda>_.
                       sbind (finished_event sid app (as_current_state a)) (\<lambda>result.
                       sbind (smodify (\<lambda>s. case streams_find (ss_stream_handles s) sid of
                           None \<Rightarrow> s
                         | Some h \<Rightarrow> s\<lparr>ss_stream_handles := fst (streams_remove h (ss_stream_handles s))\<rparr>)) (\<lambda>_.
                         sret result)))))))"

text \<open>The guards \<open>publish\<close> and \<open>play\<close> share after the count of their arguments.\<close>

definition with_stream ::
    "session_env \<Rightarrow> string \<Rightarrow> string \<Rightarrow> f64 \<Rightarrow> u32 \<Rightarrow> (bytes \<Rightarrow> bytes server_output list server_op) \<Rightarrow>
     bytes server_output list server_op" where
  "with_stream env code refused tid sid k =
     sbind (sget (\<lambda>s. s)) (\<lambda>s.
       if ss_current_state s \<noteq> SessionConnected then error_output env code refused tid sid
       else if streams_find (ss_stream_handles s) sid = None
       then error_output env ''NetStream.Failed'' ''Unknown message stream'' tid sid
       else case ss_connected_app_name s of
           None \<Rightarrow> error_output env code refused tid sid
         | Some app \<Rightarrow> k app)"

definition parse_mode :: "bytes \<Rightarrow> publish_mode option" where
  "parse_mode raw_mode =
     (let mode = to_ascii_lowercase raw_mode in
      if mode = ascii ''live'' then Some Live else if mode = ascii ''append'' then Some Append
      else if mode = ascii ''record'' then Some Record else None)"

definition handle_command_publish ::
    "session_env \<Rightarrow> u32 \<Rightarrow> f64 \<Rightarrow> amf0_value list \<Rightarrow> bytes server_output list server_op" where
  "handle_command_publish env sid tid arguments =
     (case arguments of
        key # raw # _ \<Rightarrow>
          with_stream env ''NetStream.Publish.Start'' ''Can't publish before connecting'' tid sid (\<lambda>app.
            case key of
              A0Utf8String stream_key \<Rightarrow>
                (case raw of
                   A0Utf8String raw_mode \<Rightarrow>
                     (case parse_mode raw_mode of
                        None \<Rightarrow>
                          sbind (create_error_response env tid A0Null
                            [create_status_object env (ascii ''error'') (ascii ''NetStream.Publish.Start'')
                               (ascii ''Invalid publish mode given'')] sid) (\<lambda>packet. sret [ServerPacket packet])
                      | Some mode \<Rightarrow>
                          sbind (sget ss_response_encoding) (\<lambda>encoding.
                          sbind (insert_request (PublishRequested stream_key mode sid encoding)) (\<lambda>request_number.
                          sbind (known_stream sid) (\<lambda>h.
                            sret [ServerRaised (PublishStreamRequested h request_number app stream_key mode sid)]))))
                 | _ \<Rightarrow> error_output env ''NetStream.Publish.Start'' ''Invalid publish arguments'' tid sid)
            | _ \<Rightarrow> error_output env ''NetStream.Publish.Start'' ''Invalid publish arguments'' tid sid)
      | _ \<Rightarrow> error_output env ''NetStream.Publish.Start'' ''Invalid publish arguments'' tid sid)"

definition play_start :: "amf0_value list \<Rightarrow> play_start_value" where
  "play_start arguments =
     (case arguments of
        A0Number x # _ \<Rightarrow>
          (if x = f64_of_int (- 2) then LiveOrRecorded
           else if x = f64_of_int (- 1) then LiveOnly
           else if f64_nonneg x then StartTimeInSeconds (f64_to_u32 x)
           else LiveOrRecorded)
      | _ \<Rightarrow> LiveOrRecorded)"

definition play_duration :: "amf0_value list \<Rightarrow> u32 option" where
  "play_duration arguments =
     (case arguments of A0Number x # _ \<Rightarrow> if f64_nonneg x then Some (f64_to_u32 x) else None | _ \<Rightarrow> None)"

definition play_reset :: "amf0_value list \<Rightarrow> bool" where
  "play_reset arguments = (case arguments of A0Boolean x # _ \<Rightarrow> x | _ \<Rightarrow> False)"

definition handle_command_play ::
    "session_env \<Rightarrow> u32 \<Rightarrow> f64 \<Rightarrow> amf0_value list \<Rightarrow> bytes server_output list server_op" where
  "handle_command_play env sid tid arguments =
     (case arguments of
        key # rest \<Rightarrow>
          with_stream env ''NetStream.Play.Start'' ''Can't play before connecting'' tid sid (\<lambda>app.
            case key of
              A0Utf8String stream_key \<Rightarrow>
                sbind (sget ss_response_encoding) (\<lambda>encoding.
                sbind (insert_request (PlayRequested stream_key sid encoding)) (\<lambda>request_number.
                sbind (known_stream sid) (\<lambda>h.
                  sret [ServerRaised (PlayStreamRequested h request_number app stream_key (play_start rest)
                    (play_duration (drop 1 rest)) (play_reset (drop 2 rest)) sid)])))
            | _ \<Rightarrow> error_output env ''NetStream.Play.Start'' ''Invalid play arguments'' tid sid)
      | _ \<Rightarrow> error_output env ''NetStream.Play.Start'' ''Invalid play arguments'' tid sid)"

definition server_handle_amf0_command ::
    "session_env \<Rightarrow> u32 \<Rightarrow> bytes \<Rightarrow> f64 \<Rightarrow> amf0_value \<Rightarrow> amf0_value list \<Rightarrow> bytes server_output list server_op" where
  "server_handle_amf0_command env sid name tid obj args =
     (if name = ascii ''connect'' then handle_command_connect env tid obj
      else if name = ascii ''closeStream'' then handle_command_close_stream args
      else if name = ascii ''createStream'' then handle_command_create_stream env tid
      else if name = ascii ''deleteStream'' then handle_command_delete_stream args
      else if name = ascii ''play'' then handle_command_play env sid tid args
      else if name = ascii ''publish'' then handle_command_publish env sid tid args
      else sret [ServerRaised (UnhandledCommand sid name tid obj args)])"


section \<open>Media and control messages\<close>

definition publishing_key :: "server_session \<Rightarrow> u32 \<Rightarrow> bytes option" where
  "publishing_key s sid =
     (case hm_get (ss_active_streams s) sid of
        Some a \<Rightarrow> (case as_current_state a of StreamPublishing key _ \<Rightarrow> Some key | _ \<Rightarrow> None)
      | None \<Rightarrow> None)"

definition audio_event :: "'d \<Rightarrow> u32 \<Rightarrow> rtmp_timestamp \<Rightarrow> 'd server_event option server_op" where
  "audio_event data sid timestamp =
     sbind (sget (\<lambda>s. s)) (\<lambda>s.
       if ss_current_state s \<noteq> SessionConnected then sret None
       else case ss_connected_app_name s of
           None \<Rightarrow> sret None
         | Some app \<Rightarrow>
             (case publishing_key s sid of
                None \<Rightarrow> sret None
              | Some key \<Rightarrow> sbind (known_stream sid) (\<lambda>h. sret (Some (AudioDataReceived h sid app key data timestamp)))))"

definition video_event :: "'d \<Rightarrow> u32 \<Rightarrow> rtmp_timestamp \<Rightarrow> 'd server_event option server_op" where
  "video_event data sid timestamp =
     sbind (sget (\<lambda>s. s)) (\<lambda>s.
       if ss_current_state s \<noteq> SessionConnected then sret None
       else case ss_connected_app_name s of
           None \<Rightarrow> sret None
         | Some app \<Rightarrow>
             (case publishing_key s sid of
                None \<Rightarrow> sret None
              | Some key \<Rightarrow> sbind (known_stream sid) (\<lambda>h. sret (Some (VideoDataReceived h sid app key data timestamp)))))"

definition server_handle_abort :: "u32 \<Rightarrow> bytes server_output list server_op" where
  "server_handle_abort cid =
     sbind (sget (\<lambda>s. decoder_abort_chunk_stream (ss_deserializer s) cid)) (\<lambda>r.
       case r of
         None \<Rightarrow> sfail ServerPanic
       | Some d \<Rightarrow> sbind (smodify (\<lambda>s. s\<lparr>ss_deserializer := d\<rparr>)) (\<lambda>_. sret []))"

definition server_handle_set_chunk_size :: "u32 \<Rightarrow> bytes server_output list server_op" where
  "server_handle_set_chunk_size n =
     sbind (sget (\<lambda>s. decoder_set_chunk_size (ss_deserializer s) (unat n))) (\<lambda>r.
     sbind (slift (map_error ServerDecodeError r)) (\<lambda>d.
     sbind (smodify (\<lambda>s. s\<lparr>ss_deserializer := d\<rparr>)) (\<lambda>_. sret [])))"

definition server_handle_user_control ::
    "session_env \<Rightarrow> user_control_event_type \<Rightarrow> rtmp_timestamp option \<Rightarrow> bytes server_output list server_op" where
  "server_handle_user_control env event_type timestamp =
     (if event_type = PingRequest then
        sbind (send_message env False (UserControl PingResponse None None timestamp) 0) (\<lambda>p. sret [ServerPacket p])
      else if event_type = PingResponse then
        sret [ServerRaised (PingResponseReceived (case timestamp of Some t \<Rightarrow> t | None \<Rightarrow> ts_new 0))]
      else sret [])"

definition server_handle_window_acknowledgement :: "u32 \<Rightarrow> bytes server_output list server_op" where
  "server_handle_window_acknowledgement n =
     (if n = 0 then sfail (ServerDecodeError (ResourceLimitExceeded ''acknowledgement window'' 0 4294967295))
      else sbind (smodify (\<lambda>s. s\<lparr>ss_peer_window_ack_size := Some n\<rparr>)) (\<lambda>_. sret []))"

definition raise_option :: "'d server_event option \<Rightarrow> 'd server_output list" where
  "raise_option e = (case e of None \<Rightarrow> [] | Some x \<Rightarrow> [ServerRaised x])"

definition server_handle_message :: "session_env \<Rightarrow> bytes raw_message \<Rightarrow> bytes server_output list server_op" where
  "server_handle_message env payload =
     sbind (slift (map_error ServerMessageDeserializationError (to_rtmp_message (se_insert env) (se_sizes env) payload)))
       (\<lambda>message.
          let sid = rm_message_stream_id payload in
          case message of
            Abort cid \<Rightarrow> server_handle_abort cid
          | Acknowledgement n \<Rightarrow> sret [ServerRaised (AcknowledgementReceived n)]
          | Amf0Command name tid obj args \<Rightarrow>
              sbind (smodify (\<lambda>s. s\<lparr>ss_response_encoding := Amf0\<rparr>)) (\<lambda>_.
                server_handle_amf0_command env sid name tid obj args)
          | Amf3Command name tid obj args format \<Rightarrow>
              sbind (smodify (\<lambda>s. s\<lparr>ss_peer_uses_amf3_framing := True, ss_response_encoding := Amf3\<rparr>)) (\<lambda>_.
                server_handle_amf0_command env sid name tid (to_amf0 (se_insert env) obj)
                  (map (to_amf0 (se_insert env)) args))
          | AudioData data \<Rightarrow>
              sbind (audio_event data sid (rm_timestamp payload)) (\<lambda>e. sret (raise_option e))
          | SetChunkSize n \<Rightarrow> server_handle_set_chunk_size n
          | SetPeerBandwidth n limit_type \<Rightarrow> sret []
          | UserControl event_type stream_id buffer_length timestamp \<Rightarrow> server_handle_user_control env event_type timestamp
          | VideoData data \<Rightarrow>
              sbind (video_event data sid (rm_timestamp payload)) (\<lambda>e. sret (raise_option e))
          | WindowAcknowledgement n \<Rightarrow> server_handle_window_acknowledgement n
          | _ \<Rightarrow> sret [ServerUnhandledMessage payload])"

section \<open>Receiving\<close>

definition server_pop_pending :: "payload server_output option server_op" where
  "server_pop_pending s =
     (case ss_pending s of [] \<Rightarrow> (s, Inr None) | o1 # rest \<Rightarrow> (s\<lparr>ss_pending := rest\<rparr>, Inr (Some o1)))"

definition server_extend_pending :: "bytes server_output list \<Rightarrow> unit server_op" where
  "server_extend_pending outputs =
     smodify (\<lambda>s. s\<lparr>ss_pending := ss_pending s @ map (server_output_map_payload payload_from_bytes) outputs\<rparr>)"

definition server_script_data :: "data_message_type \<Rightarrow> payload raw_message \<Rightarrow> payload server_output option server_op" where
  "server_script_data wire_type payload =
     sbind (smodify (\<lambda>s. if wire_type = DataAmf3 then s\<lparr>ss_peer_uses_amf3_framing := True\<rparr> else s)) (\<lambda>_.
     sbind (sget (\<lambda>s. s)) (\<lambda>s.
       case ss_connected_app_name s of
         None \<Rightarrow> sret None
       | Some app \<Rightarrow>
           (case publishing_key s (rm_message_stream_id payload) of
              None \<Rightarrow> sret None
            | Some key \<Rightarrow>
                sbind (known_stream (rm_message_stream_id payload)) (\<lambda>h.
                  sret (Some (ServerRaised (StreamDataReceived h (rm_message_stream_id payload) app key
                    (data_message_new wire_type (rm_timestamp payload) (rm_data payload)))))))))"

definition server_process_payload :: "session_env \<Rightarrow> payload raw_message \<Rightarrow> payload server_output option server_op" where
  "server_process_payload env payload =
     (case from_type_id (rm_type_id payload) of
        Some wire_type \<Rightarrow> server_script_data wire_type payload
      | None \<Rightarrow>
          if rm_type_id payload = 8 then
            sbind (audio_event (rm_data payload) (rm_message_stream_id payload) (rm_timestamp payload))
              (\<lambda>e. sret (map_option ServerRaised e))
          else if rm_type_id payload = 9 then
            sbind (video_event (rm_data payload) (rm_message_stream_id payload) (rm_timestamp payload))
              (\<lambda>e. sret (map_option ServerRaised e))
          else if \<not> (1 \<le> rm_type_id payload \<and> rm_type_id payload \<le> 6 \<or> rm_type_id payload = 17 \<or> rm_type_id payload = 20)
          then sret (Some (ServerUnhandledMessage payload))
          else
            sbind (server_handle_message env (rm_map payload_into_bytes payload)) (\<lambda>outputs.
            sbind (server_extend_pending outputs) (\<lambda>_. server_pop_pending)))"

definition server_decode :: "session_env \<Rightarrow> bytes \<Rightarrow> (payload raw_message option \<times> bytes) server_op" where
  "server_decode env input s =
     (case decode (se_decoder env) (ss_deserializer s) input of
        (d, rest, r) \<Rightarrow>
          (s\<lparr>ss_deserializer := d\<rparr>,
           case r of Inl e \<Rightarrow> Inl (ServerDecodeError e) | Inr m \<Rightarrow> Inr (m, rest)))"

definition server_window :: "server_session \<Rightarrow> u32 option" where
  "server_window s = (case ss_peer_window_ack_size s of Some n \<Rightarrow> Some n | None \<Rightarrow> ss_self_window_ack_size s)"

definition server_account :: "session_env \<Rightarrow> nat \<Rightarrow> unit server_op" where
  "server_account env consumed =
     sbind (smodify (\<lambda>s. s\<lparr>ss_bytes_received := ss_bytes_received s + word_of_nat consumed\<rparr>)) (\<lambda>_.
     sbind (sget server_window) (\<lambda>window.
       case window of
         None \<Rightarrow> sret ()
       | Some n \<Rightarrow>
           sbind (smodify (\<lambda>s. s\<lparr>ss_bytes_received_since_last_ack :=
             ss_bytes_received_since_last_ack s + word_of_nat consumed\<rparr>)) (\<lambda>_.
           sbind (sget (\<lambda>s. s)) (\<lambda>s.
             if ss_bytes_received_since_last_ack s \<ge> n then
               sbind (send_message env False (Acknowledgement (ucast (ss_bytes_received s))) 0) (\<lambda>packet.
               if n = 0 then sfail ServerPanic
               else smodify (\<lambda>s. s\<lparr>ss_bytes_received_since_last_ack := ss_bytes_received_since_last_ack s mod n,
                                  ss_pending := ss_pending s @ [ServerPacket packet]\<rparr>))
             else sret ()))))"

text \<open>One message: an acknowledgement precedes the outputs it causes; \<open>None\<close> means that the loop goes on.\<close>

definition server_dispatch :: "session_env \<Rightarrow> payload raw_message \<Rightarrow> payload server_output option server_op" where
  "server_dispatch env payload =
     sbind server_pop_pending (\<lambda>acknowledgement.
     sbind (server_process_payload env payload) (\<lambda>out.
       case acknowledgement of
         Some ack \<Rightarrow>
           sbind (case out of None \<Rightarrow> sret () | Some x \<Rightarrow> smodify (\<lambda>s. s\<lparr>ss_pending := x # ss_pending s\<rparr>)) (\<lambda>_.
             sret (Some ack))
       | None \<Rightarrow> sret out))"

fun server_receive_loop ::
    "session_env \<Rightarrow> nat \<Rightarrow> bytes \<Rightarrow> (payload server_output option \<times> bytes) server_op" where
  "server_receive_loop env 0 input = sfail ServerOutOfFuel"
| "server_receive_loop env (Suc fuel) input =
     sbind (server_decode env input) (\<lambda>(payload, rest).
     sbind (server_account env (length input - length rest)) (\<lambda>_.
       case payload of
         None \<Rightarrow> sbind server_pop_pending (\<lambda>out. sret (out, rest))
       | Some payload \<Rightarrow>
           sbind (server_dispatch env payload) (\<lambda>out.
             if out \<noteq> None then sret (out, rest) else server_receive_loop env fuel rest)))"

definition server_receive_inner :: "session_env \<Rightarrow> bytes \<Rightarrow> (payload server_output option \<times> bytes) server_op" where
  "server_receive_inner env input =
     sbind server_pop_pending (\<lambda>out.
       if out \<noteq> None then sret (out, input) else server_receive_loop env (length input + 2) input)"

definition server_receive :: "session_env \<Rightarrow> bytes \<Rightarrow> (payload server_output option \<times> bytes) server_op" where
  "server_receive env input =
     sbind server_ensure_active (\<lambda>_ s.
       case server_receive_inner env input s of
         (s', Inl e) \<Rightarrow> (s'\<lparr>ss_failed := True, ss_pending := []\<rparr>, Inl e)
       | (s', Inr r) \<Rightarrow> (s', Inr r))"


section \<open>Answers to requests\<close>

definition accept_connection_request ::
    "session_env \<Rightarrow> bytes \<Rightarrow> f64 \<Rightarrow> amf0_object \<Rightarrow> bytes server_output list server_op" where
  "accept_connection_request env app_name tid response_properties =
     sbind (smodify (\<lambda>s. s\<lparr>ss_connected_app_name := Some app_name, ss_current_state := SessionConnected\<rparr>)) (\<lambda>_.
     sbind (sget (\<lambda>s. s)) (\<lambda>s.
       let ins = se_insert env;
           command_object = insert_all ins
             [(ascii ''fmsVer'', A0Utf8String (ss_fms_version s)), (ascii ''capabilities'', A0Number (f64_of_int 31))];
           status = insert_all ins
             [(ascii ''level'', A0Utf8String (ascii ''status'')),
              (ascii ''code'', A0Utf8String (ascii ''NetConnection.Connect.Success'')),
              (ascii ''description'', A0Utf8String (ascii ''Successfully connected on app: '' @ app_name))];
           additional = object_extend ins
             (ins (ascii ''objectEncoding'') (A0Number (as_object_encoding (ss_negotiated_encoding s))) status)
             response_properties
       in sbind (send_message env False
            (Amf0Command (ascii ''_result'') tid (A0Object command_object) [A0Object additional]) 0) (\<lambda>packet.
          sbind (sget ss_pending_connection_control) (\<lambda>results.
          sbind (smodify (\<lambda>s. s\<lparr>ss_pending_connection_control := []\<rparr>)) (\<lambda>_.
            sret (results @ [ServerPacket packet]))))))"

definition on_status :: "session_env \<Rightarrow> bytes \<Rightarrow> bytes \<Rightarrow> message" where
  "on_status env code description =
     Amf0Command (ascii ''onStatus'') 0 A0Null [create_status_object env (ascii ''status'') code description]"

definition accept_publish_request ::
    "session_env \<Rightarrow> u32 \<Rightarrow> bytes \<Rightarrow> publish_mode \<Rightarrow> bytes server_output list server_op" where
  "accept_publish_request env sid stream_key mode =
     sbind (sget (\<lambda>s. hm_get (ss_active_streams s) sid)) (\<lambda>a.
       if a = None then sfail (ActionAttemptedOnInactiveStream ''publish'' sid)
       else
         sbind (smodify (set_stream_state sid (StreamPublishing stream_key mode))) (\<lambda>_.
         sbind (send_message env False (UserControl StreamBegin (Some sid) None None) sid) (\<lambda>stream_begin_packet.
         sbind (send_message env False (on_status env (ascii ''NetStream.Publish.Start'')
             (ascii ''Successfully started publishing on stream key '' @ stream_key)) sid) (\<lambda>publish_packet.
           sret [ServerPacket stream_begin_packet, ServerPacket publish_packet]))))"

definition accept_play_request :: "session_env \<Rightarrow> u32 \<Rightarrow> bytes \<Rightarrow> bytes server_output list server_op" where
  "accept_play_request env sid stream_key =
     sbind (sget (\<lambda>s. hm_get (ss_active_streams s) sid)) (\<lambda>a.
       if a = None then sfail (ActionAttemptedOnInactiveStream ''play'' sid)
       else
         sbind (smodify (set_stream_state sid (StreamPlaying stream_key))) (\<lambda>_.
         sbind (send_message env False (UserControl StreamBegin (Some sid) None None) sid) (\<lambda>stream_begin_packet.
         sbind (send_message env False (on_status env (ascii ''NetStream.Play.Start'')
             (ascii ''Successfully started playback on stream key '' @ stream_key)) sid) (\<lambda>start_packet.
         sbind (send_message env False (Amf0Data [A0Utf8String (ascii ''|RtmpSampleAccess''), A0Boolean False, A0Boolean False])
             sid) (\<lambda>data1_packet.
         sbind (send_message env False (Amf0Data [A0Utf8String (ascii ''onStatus''),
             A0Object (insert_all (se_insert env) [(ascii ''code'', A0Utf8String (ascii ''NetStream.Data.Start''))])])
             sid) (\<lambda>data2_packet.
         sbind (send_message env False (on_status env (ascii ''NetStream.Play.Reset'') (ascii ''Reset stream'')) sid)
           (\<lambda>reset_packet.
           sret (map ServerPacket [reset_packet, stream_begin_packet, start_packet, data1_packet, data2_packet]))))))))"

definition take_request :: "u32 \<Rightarrow> outstanding_request server_op" where
  "take_request rid =
     sbind (sget (\<lambda>s. hm_get (ss_outstanding_requests s) rid)) (\<lambda>r.
       case r of
         None \<Rightarrow> sfail InvalidRequestId
       | Some request \<Rightarrow>
           sbind (smodify (\<lambda>s. s\<lparr>ss_outstanding_requests := hm_remove rid (ss_outstanding_requests s)\<rparr>)) (\<lambda>_. sret request))"

definition set_response_encoding :: "amf_encoding \<Rightarrow> unit server_op" where
  "set_response_encoding e = smodify (\<lambda>s. s\<lparr>ss_response_encoding := e\<rparr>)"

definition accept_request_with_properties_inner ::
    "session_env \<Rightarrow> u32 \<Rightarrow> amf0_object \<Rightarrow> bytes server_output list server_op" where
  "accept_request_with_properties_inner env rid response_properties =
     sbind server_ensure_active (\<lambda>_.
     sbind (take_request rid) (\<lambda>request.
       case request of
         ConnectionRequest app_name tid encoding \<Rightarrow>
           sbind (set_response_encoding encoding) (\<lambda>_. accept_connection_request env app_name tid response_properties)
       | PublishRequested stream_key mode sid encoding \<Rightarrow>
           sbind (set_response_encoding encoding) (\<lambda>_. accept_publish_request env sid stream_key mode)
       | PlayRequested stream_key sid encoding \<Rightarrow>
           sbind (set_response_encoding encoding) (\<lambda>_. accept_play_request env sid stream_key)))"

definition accept_request_inner :: "session_env \<Rightarrow> u32 \<Rightarrow> bytes server_output list server_op" where
  "accept_request_inner env rid =
     sbind server_ensure_active (\<lambda>_. accept_request_with_properties_inner env rid [])"

definition request_encoding :: "outstanding_request \<Rightarrow> amf_encoding" where
  "request_encoding r =
     (case r of ConnectionRequest _ _ e \<Rightarrow> e | PublishRequested _ _ _ e \<Rightarrow> e | PlayRequested _ _ e \<Rightarrow> e)"

definition reject_request_inner ::
    "session_env \<Rightarrow> u32 \<Rightarrow> bytes \<Rightarrow> bytes \<Rightarrow> bytes server_output list server_op" where
  "reject_request_inner env rid code description =
     sbind server_ensure_active (\<lambda>_.
     sbind (take_request rid) (\<lambda>request.
     sbind (set_response_encoding (request_encoding request)) (\<lambda>_.
       case request of
         ConnectionRequest app_name tid encoding \<Rightarrow>
           sbind (sget ss_pending_connection_control) (\<lambda>results.
           sbind (smodify (\<lambda>s. s\<lparr>ss_pending_connection_control := []\<rparr>)) (\<lambda>_.
           sbind (create_error_packet env code description tid 0) (\<lambda>packet.
             sret (results @ [ServerPacket packet]))))
       | PublishRequested stream_key mode sid encoding \<Rightarrow>
           sbind (sget (\<lambda>s. command_message s (ascii ''onStatus'') 0 A0Null
             [status_object (se_insert env) (ascii ''error'') code description])) (\<lambda>message.
           sbind (send_message env False message sid) (\<lambda>packet. sret [ServerPacket packet]))
       | PlayRequested stream_key sid encoding \<Rightarrow>
           sbind (sget (\<lambda>s. command_message s (ascii ''onStatus'') 0 A0Null
             [status_object (se_insert env) (ascii ''error'') code description])) (\<lambda>message.
           sbind (send_message env False message sid) (\<lambda>packet. sret [ServerPacket packet])))))"

definition accept_request :: "session_env \<Rightarrow> u32 \<Rightarrow> unit server_op" where
  "accept_request env rid = sbind (accept_request_inner env rid) server_extend_pending"

definition accept_request_with_properties :: "session_env \<Rightarrow> u32 \<Rightarrow> amf0_object \<Rightarrow> unit server_op" where
  "accept_request_with_properties env rid p =
     sbind (accept_request_with_properties_inner env rid p) server_extend_pending"

definition reject_request :: "session_env \<Rightarrow> u32 \<Rightarrow> bytes \<Rightarrow> bytes \<Rightarrow> unit server_op" where
  "reject_request env rid code description =
     sbind (reject_request_inner env rid code description) server_extend_pending"

section \<open>Sending\<close>

definition server_send_metadata :: "session_env \<Rightarrow> stream_handle \<Rightarrow> stream_metadata \<Rightarrow> payload packet server_op" where
  "server_send_metadata env h m =
     sbind server_ensure_output_drained (\<lambda>_.
     sbind (playback_id h) (\<lambda>sid.
     sbind server_ensure_active (\<lambda>_.
     sbind (smodify (\<lambda>s. s\<lparr>ss_response_encoding := server_initiated_encoding s\<rparr>)) (\<lambda>_.
       send_message env False
         (Amf0Data [A0Utf8String (ascii ''onMetaData''), A0Object (server_metadata_properties (se_insert env) m)]) sid))))"

definition server_send_ping_request :: "session_env \<Rightarrow> (payload packet \<times> rtmp_timestamp) server_op" where
  "server_send_ping_request env =
     sbind server_ensure_output_drained (\<lambda>_.
     sbind server_ensure_active (\<lambda>_.
     sbind (get_epoch env) (\<lambda>epoch.
     sbind (slift (map_error ServerMessageSerializationError
       (from_rtmp_message (se_insert env) (UserControl PingRequest None None (Some epoch)) epoch 0))) (\<lambda>payload.
     sbind (server_serialize payload False) (\<lambda>packet.
       sret (packet, epoch))))))"

definition complete_playback :: "session_env \<Rightarrow> stream_handle \<Rightarrow> payload packet server_op" where
  "complete_playback env h =
     sbind server_ensure_output_drained (\<lambda>_.
     sbind (sget (\<lambda>s. server_stream_id s h)) (\<lambda>r.
       case r of
         None \<Rightarrow> sfail ServerInvalidStreamHandle
       | Some sid \<Rightarrow>
           sbind server_ensure_active (\<lambda>_.
           sbind (smodify (\<lambda>s. s\<lparr>ss_response_encoding := server_initiated_encoding s\<rparr>)) (\<lambda>_.
           sbind (sget (\<lambda>s. hm_get (ss_active_streams s) sid)) (\<lambda>a.
             case map_option as_current_state a of
               Some (StreamPlaying key) \<Rightarrow>
                 sbind (smodify (set_stream_state sid StreamCompleted)) (\<lambda>_.
                   send_message env False (on_status env (ascii ''NetStream.Play.Complete'')
                     (ascii ''Stream playback is completed for '' @ key)) sid)
             | _ \<Rightarrow> sfail (ActionAttemptedOnInactiveStream ''complete'' sid))))))"

definition server_media_packet ::
    "stream_handle \<Rightarrow> u8 \<Rightarrow> rtmp_timestamp \<Rightarrow> payload \<Rightarrow> encode_options \<Rightarrow> payload packet server_op" where
  "server_media_packet h kind timestamp data options =
     sbind server_ensure_output_drained (\<lambda>_.
     sbind (playback_id h) (\<lambda>sid.
     sbind server_ensure_active (\<lambda>_.
       server_encode \<lparr>rm_timestamp = timestamp, rm_type_id = kind, rm_message_stream_id = sid, rm_data = data\<rparr> options)))"

definition server_send_audio ::
    "stream_handle \<Rightarrow> payload \<Rightarrow> rtmp_timestamp \<Rightarrow> drop_policy \<Rightarrow> payload packet server_op" where
  "server_send_audio h data timestamp policy =
     server_media_packet h 8 timestamp data (encode_options_default\<lparr>eo_drop_policy := policy\<rparr>)"

definition server_send_video ::
    "stream_handle \<Rightarrow> payload \<Rightarrow> rtmp_timestamp \<Rightarrow> drop_policy \<Rightarrow> payload packet server_op" where
  "server_send_video h data timestamp policy =
     server_media_packet h 9 timestamp data (encode_options_default\<lparr>eo_drop_policy := policy\<rparr>)"

definition server_send_data :: "stream_handle \<Rightarrow> payload data_message \<Rightarrow> payload packet server_op" where
  "server_send_data h m =
     server_media_packet h (data_type_id (dm_wire_type m)) (dm_timestamp m) (dm_payload m) encode_options_default"

end
