(* ===== verification/Session_Decode.thy ===== *)
theory Session_Decode
  imports Session_Values
begin

text \<open>
  Facts both sessions need about the parts they are made of: maps under \<open>retain\<close>, and the message decoder
  between calls, which handlers may reconfigure in the middle of the input.
\<close>

section \<open>Maps\<close>

lemma hm_len_insert_le: "hm_len (hm_insert k v m) \<le> Suc (hm_len m)"
  by (induction m) (auto simp: hm_len_def hm_insert_def)

lemma hm_len_insert_same: "hm_get m k \<noteq> None \<Longrightarrow> hm_len (hm_insert k v m) = hm_len m"
  by (induction m) (auto simp: hm_len_def hm_insert_def hm_get_def split: if_splits)

lemma hm_retain_get:
  "hm_wf m \<Longrightarrow> hm_get (filter (\<lambda>(_, v). P v) m) k = (case hm_get m k of Some v \<Rightarrow> if P v then Some v else None | None \<Rightarrow> None)"
  by (induction m) (auto simp: hm_get_def hm_wf_def map_of_eq_None_iff dest!: map_of_SomeD split: option.splits)

lemma hm_retain_wf: "hm_wf m \<Longrightarrow> hm_wf (filter P m)"
  by (auto simp: hm_wf_def intro: distinct_map_filter)

lemma hm_retain_len: "hm_len (filter P m) \<le> hm_len m"
  by (simp add: hm_len_def)

lemma u32_lt: "unat (w :: u32) < 4294967296"
  using unsigned_less [of w] by simp

lemma streams_find_eq: "streams_find t = hm_get (sm_by_wire t)"
  by (rule ext) (simp add: streams_find_def)

section \<open>The decoder between messages\<close>

lemma decoder_chunk_size_inv: "md_inv d \<Longrightarrow> decoder_set_chunk_size d n = Inr d' \<Longrightarrow> md_inv d'"
  using set_chunk_size_inv unfinished_chunk_size
  by (fastforce simp: decoder_set_chunk_size_def md_inv_def md_books_def md_link_def split: sum.splits)

lemma md_inv_pool: "md_inv d \<Longrightarrow> md_inv (set_payload_pool d pool)"
  by (auto simp: set_payload_pool_def md_inv_def md_books_def md_link_def)

lemma decoder_chunk_size_used: "decoder_set_chunk_size d n = Inr d' \<Longrightarrow> cp_used (md_parser d') = cp_used (md_parser d)"
  by (auto simp: decoder_set_chunk_size_def parser_set_chunk_size_def split: sum.splits if_splits)

lemma decoder_abort_used: "decoder_abort_chunk_stream d cid = Some d' \<Longrightarrow> cp_used (md_parser d') = cp_used (md_parser d)"
  by (auto simp: decoder_abort_chunk_stream_def parser_abort_chunk_stream_def release_partial_def Let_def
      split: option.splits if_splits)

lemma decoder_chunk_size_panic: "decoder_set_chunk_size d n \<noteq> Inl DecodePanic"
  by (auto simp: decoder_set_chunk_size_def parser_set_chunk_size_def split: sum.splits)

text \<open>
  A delivered message uses up input or, at most once, a header that was complete before: this bounds the
  iterations of the loop whatever the handlers do to the decoder in between.
\<close>

definition parser_work :: "chunk_parser \<Rightarrow> bytes \<Rightarrow> nat" where
  "parser_work p input = length input + of_bool (0 < cp_used p)"

lemma consume_work:
  assumes inv: "parser_inv p" and out: "consume p input = (q, Inr step)" and f: "ps_fragment step = Some f"
  shows "parser_work q (drop (ps_consumed step) input) < parser_work p input"
proof -
  obtain p1 c rest where loop: "header_loop p 0 input = (p1, Inr (InChunk c rest))"
    and frag: "chunk_fragment p1 c rest = (q, Inr step)"
    using out f by (auto simp: consume_def split: prod.splits sum.splits header_outcome.splits)
  note hl = header_loop_InChunk [OF loop]
  from chunk_fragment_SomeD [OF frag f] obtain cid s where n: "cp_chunk_left p1 = 0 \<or> rest \<noteq> []"
      "ps_consumed step = c + min (cp_chunk_left p1) (length rest)"
      "q = advance_chunk p1 cid s (min (cp_chunk_left p1) (length rest))"
    by blast
  have used: "cp_used q = cp_used p1"
    unfolding n(3) by (simp add: advance_chunk_def Let_def)
  have le: "ps_consumed step \<le> length input"
    using n(2) hl by auto
  show ?thesis
  proof (cases "cp_current p = None")
    case True
    then show ?thesis
      using hl used le n(2) by (auto simp: parser_work_def)
  next
    case False
    then have "p1 = p" "c = 0" "rest = input" "0 < cp_chunk_left p"
      using hl inv by (auto simp: parser_inv_def)
    then have "0 < ps_consumed step"
      using n by auto
    then show ?thesis
      using le used \<open>p1 = p\<close> by (auto simp: parser_work_def)
  qed
qed

lemma decode_work:
  assumes "env_ok env" and "md_inv d" and "decode_input env d i = (d', i', Inr (Some m))"
  shows "parser_work (md_parser d') (as_slice i') < parser_work (md_parser d) (as_slice i)"
  using assms
proof (induction env d i arbitrary: d' i' m rule: decode_input.induct)
  case (1 env d i)
  note prems = "1.prems"(2,3)
  have p: "parser_inv (md_parser d)"
    using prems by (simp add: md_inv_def)
  obtain q s where out: "consume (md_parser d) (as_slice i) = (q, s)"
    by (cases "consume (md_parser d) (as_slice i)")
  obtain step f where s: "s = Inr step" "ps_fragment step = Some f"
    using prems(2) out by (cases s) (auto simp: decode_input.simps [of env d i] split: option.splits)
  obtain d1 i1 r1 where dec: "decode_fragment env (d\<lparr>md_parser := q\<rparr>) i (ps_consumed step) f = (d1, i1, r1)"
    by (metis prod_cases3)
  note step = decode_fragment_step [OF prems(1) "1.prems"(1) out [unfolded s(1)] s(2) dec]
  note work = consume_work [OF p out [unfolded s(1)] s(2)]
  have eq: "decode_input env d i = (case r1 of Inl e \<Rightarrow> (d1, i1, Inl e) | Inr (Some m) \<Rightarrow> (d1, i1, Inr (Some m))
      | Inr None \<Rightarrow> decode_input env d1 i1)"
    using out s dec by (simp add: decode_input.simps [of env d i] split: sum.split option.split)
  consider (msg) "r1 = Inr (Some m)" "d' = d1" "i' = i1" | (cont) "r1 = Inr None"
    using eq prems(2) by (cases r1) (auto split: option.splits)
  then show ?case
  proof cases
    case msg
    then show ?thesis
      using step(2) [OF msg(1)] work by simp
  next
    case cont
    have inv1: "md_inv d1" "md_parser d1 = q" "as_slice i1 = drop (ps_consumed step) (as_slice i)"
      using step(2) [OF cont] by auto
    have "decode_input env d1 i1 = (d', i', Inr (Some m))"
      using eq cont prems(2) by simp
    from "1.IH" [OF out [symmetric] s dec [symmetric] refl cont refl "1.prems"(1) inv1(1) this]
    show ?thesis
      using inv1 work by simp
  qed
qed


section \<open>Environments\<close>

text \<open>The environment behaves as documented: insertion into an object, and capacities of allocations.\<close>

definition session_env_ok :: "session_env \<Rightarrow> bool" where
  "session_env_ok env \<longleftrightarrow> ins_ok (se_insert env) \<and> (\<forall>n. n \<le> de_capacity (se_decoder env) n)"

lemma session_env_parts: "session_env_ok env \<Longrightarrow> ins_ok (se_insert env)" "session_env_ok env \<Longrightarrow> env_ok (se_decoder env)"
  by (auto simp: session_env_ok_def env_ok_def)

text \<open>An environment to run the sessions in.\<close>

definition sample_remove :: "bytes \<Rightarrow> amf0_object \<Rightarrow> amf0_object \<times> amf0_value option" where
  "sample_remove k p = (filter (\<lambda>(k', v). k' \<noteq> k) p, map_of p k)"

definition sample_session_env :: session_env where
  "sample_session_env = \<lparr>se_insert = sample_insert, se_shift_remove = sample_remove, se_sizes = sample_sizes0,
     se_decoder = exact_env, se_clock = (\<lambda>n. 0)\<rparr>"

lemma sample_session_env_ok: "session_env_ok sample_session_env" "shift_remove_ok (se_shift_remove sample_session_env)"
  using sample_insert_ok by (auto simp: session_env_ok_def sample_session_env_def exact_env_def shift_remove_ok_def sample_remove_def)

end
