(* ===== verification/Session_Loop.thy ===== *)
theory Session_Loop
  imports Session_Decode
begin

text \<open>
  The receive loop the two sessions share (\<open>receive_inner\<close> of \<open>src/src/sessions/server/mod.rs\<close> and
  \<open>src/src/sessions/client/mod.rs\<close>): what its parts have to promise so that it returns and keeps the invariant.
\<close>

text \<open>One call of the decoder, as a session sees it.\<close>

lemma decode_outcome:
  assumes "env_ok env" and "md_inv d" and "decode env d input = (d', rest, r)"
  shows "case r of
      Inl e \<Rightarrow> e \<noteq> DecodePanic
    | Inr x \<Rightarrow> md_inv d' \<and> (x \<noteq> None \<longrightarrow> parser_work (md_parser d') rest < parser_work (md_parser d) input)"
proof -
  obtain i where out: "decode_input env d (Owned input) = (d', i, r)" and i: "rest = as_slice i"
    using assms(3) by (auto simp: decode_def split: prod.splits)
  show ?thesis
    using decode_input_refines [OF assms(1,2) out] decode_work [OF assms(1,2), of "Owned input" d' i] out i
    by (cases r) auto
qed

text \<open>
  \<open>ok k\<close> is the invariant while the loop runs, with \<open>k\<close> header bytes in the decoder's buffer, \<open>core\<close> what an error leaves
  of it, \<open>bad\<close> the errors that stand for panics. A decoded message uses up input or buffered header bytes, and
  nothing but the decoder touches that buffer.
\<close>

locale receive_loop =
  fixes ok :: "nat \<Rightarrow> 's \<Rightarrow> bool" and core :: "'s \<Rightarrow> bool" and bad :: "'e \<Rightarrow> bool"
    and decode_op :: "bytes \<Rightarrow> ('s, 'e, 'm option \<times> bytes) op" and account :: "nat \<Rightarrow> ('s, 'e, unit) op"
    and pop :: "('s, 'e, 'o option) op" and dispatch :: "'m \<Rightarrow> ('s, 'e, 'o option) op"
    and loop :: "nat \<Rightarrow> bytes \<Rightarrow> ('s, 'e, 'o option \<times> bytes) op"
    and inner :: "bytes \<Rightarrow> ('s, 'e, 'o option \<times> bytes) op"
  assumes decode_law: "ok k s \<Longrightarrow> wp (decode_op input)
      (\<lambda>(m, rest) s'. \<exists>j. ok j s' \<and> (m \<noteq> None \<longrightarrow> length rest + of_bool (0 < j) < length input + of_bool (0 < k)))
      (\<lambda>e s'. core s' \<and> \<not> bad e) s"
    and account_law: "ok k s \<Longrightarrow> wp (account n) (\<lambda>_. ok k) (\<lambda>e s'. core s' \<and> \<not> bad e) s"
    and pop_law: "ok k s \<Longrightarrow> wp pop (\<lambda>_. ok k) (\<lambda>e s'. core s' \<and> \<not> bad e) s"
    and dispatch_law: "ok k s \<Longrightarrow> wp (dispatch m) (\<lambda>_. ok k) (\<lambda>e s'. core s' \<and> \<not> bad e) s"
    and loop_step: "loop (Suc fuel) input =
      sbind (decode_op input) (\<lambda>(payload, rest).
      sbind (account (length input - length rest)) (\<lambda>_.
        case payload of
          None \<Rightarrow> sbind pop (\<lambda>out. sret (out, rest))
        | Some m \<Rightarrow> sbind (dispatch m) (\<lambda>out. if out \<noteq> None then sret (out, rest) else loop fuel rest)))"
    and inner_eq: "inner input = sbind pop (\<lambda>out. if out \<noteq> None then sret (out, input) else loop (length input + 2) input)"
begin

lemma loop_returns:
  "ok k s \<Longrightarrow> length input + of_bool (0 < k) < fuel \<Longrightarrow>
   wp (loop fuel input) (\<lambda>_ s'. \<exists>j. ok j s') (\<lambda>e s'. core s' \<and> \<not> bad e) s"
proof (induction fuel arbitrary: k s input)
  case (Suc fuel)
  note seq = wp_mono [where E = "\<lambda>e s'. core s' \<and> \<not> bad e" and E' = "\<lambda>e s'. core s' \<and> \<not> bad e"]
  show ?case
    unfolding loop_step wp_sbind
  proof (rule seq [OF decode_law [OF Suc.prems(1), of input]], clarify)
    fix m :: "'m option" and rest :: bytes and s' j
    assume j: "ok j s'" and work: "m \<noteq> None \<longrightarrow> length rest + of_bool (0 < j) < length input + of_bool (0 < k)"
    show "wp (sbind (account (length input - length rest)) (\<lambda>_. case m of
          None \<Rightarrow> sbind pop (\<lambda>out. sret (out, rest))
        | Some x \<Rightarrow> sbind (dispatch x) (\<lambda>out. if out \<noteq> None then sret (out, rest) else loop fuel rest)))
      (\<lambda>_ s'. \<exists>j. ok j s') (\<lambda>e s'. core s' \<and> \<not> bad e) s'"
      unfolding wp_sbind
    proof (rule seq [OF account_law [OF j]])
      fix t assume t: "ok j t"
      show "wp (case m of
          None \<Rightarrow> sbind pop (\<lambda>out. sret (out, rest))
        | Some x \<Rightarrow> sbind (dispatch x) (\<lambda>out. if out \<noteq> None then sret (out, rest) else loop fuel rest))
        (\<lambda>_ s'. \<exists>j. ok j s') (\<lambda>e s'. core s' \<and> \<not> bad e) t"
      proof (cases m)
        case None
        then show ?thesis
          by (auto simp: wp_simps intro: seq [OF pop_law [OF t]])
      next
        case (Some x)
        have "length rest + of_bool (0 < j) < fuel"
          using work Some Suc.prems(2) by simp
        then have "wp (if out \<noteq> None then sret (out, rest) else loop fuel rest)
            (\<lambda>_ s'. \<exists>j. ok j s') (\<lambda>e s'. core s' \<and> \<not> bad e) u" if "ok j u" for out u
          using Suc.IH [OF that] that by (auto simp: wp_simps)
        with Some show ?thesis
          using seq [OF dispatch_law [OF t, of x]] by (simp add: wp_sbind)
      qed
    qed simp
  qed simp
qed simp

lemma inner_returns:
  assumes "ok k s"
  shows "wp (inner input) (\<lambda>_ s'. \<exists>j. ok j s') (\<lambda>e s'. core s' \<and> \<not> bad e) s"
  unfolding inner_eq wp_sbind
  by (rule wp_mono [OF pop_law [OF assms]]) (auto simp: wp_simps intro: loop_returns)

end

end
