(* ===== verification/Server_Invariant.thy ===== *)
theory Server_Invariant
  imports Server_Session Session_Loop
begin

text \<open>
  The invariant of the server session and that every operation keeps it: the stream table, the index and the
  states of the streams describe the same streams, a request that waits for an answer refers to a stream that
  exists, the limits are kept, and the session has an application name exactly when it is connected. From it: no
  operation panics, the receive loop ends, and answering a request never finds its stream missing.
\<close>

section \<open>The invariant\<close>

definition request_live :: "(u32, active_stream) hash_map \<Rightarrow> outstanding_request \<Rightarrow> bool" where
  "request_live active r \<longleftrightarrow> (\<forall>sid. targets sid r \<longrightarrow> sid \<in> dom (hm_get active))"

definition streams_agree :: "(u32, active_stream) hash_map \<Rightarrow> unit streams \<Rightarrow> u32 \<Rightarrow> session_limits \<Rightarrow> bool" where
  "streams_agree active handles next_id limits \<longleftrightarrow> streams_wf handles \<and> hm_wf active
     \<and> dom (hm_get active) = dom (streams_find handles) \<and> dom (hm_get active) \<subseteq> {0 <..< next_id}
     \<and> length (sm_slots handles) < unat next_id \<and> hm_len active \<le> max_streams limits
     \<and> (\<forall>h e. streams_get handles h = Some e \<longrightarrow> en_wire_id e \<noteq> None)"

definition requests_ok ::
    "(u32, outstanding_request) hash_map \<Rightarrow> (u32, active_stream) hash_map \<Rightarrow> session_limits \<Rightarrow> bool" where
  "requests_ok requests active limits \<longleftrightarrow> hm_wf requests
     \<and> (\<forall>i r. hm_get requests i = Some r \<longrightarrow> request_live active r)
     \<and> hm_len requests \<le> max_pending_requests limits"

definition flow_ok :: "session_state \<Rightarrow> bytes option \<Rightarrow> u32 option \<Rightarrow> u32 option \<Rightarrow> bool" where
  "flow_ok state app self_window peer_window \<longleftrightarrow> (state = SessionConnected \<longleftrightarrow> app \<noteq> None)
     \<and> self_window \<noteq> None \<and> self_window \<noteq> Some 0 \<and> peer_window \<noteq> Some 0"

definition server_core :: "server_session \<Rightarrow> bool" where
  "server_core s \<longleftrightarrow>
     streams_agree (ss_active_streams s) (ss_stream_handles s) (ss_next_stream_id s) (ss_session_limits s)
     \<and> requests_ok (ss_outstanding_requests s) (ss_active_streams s) (ss_session_limits s)
     \<and> flow_ok (ss_current_state s) (ss_connected_app_name s) (ss_self_window_ack_size s) (ss_peer_window_ack_size s)"

text \<open>\<open>k\<close> is the number of chunk header bytes that wait for the rest of their header.\<close>

definition server_ok :: "nat \<Rightarrow> server_session \<Rightarrow> bool" where
  "server_ok k s \<longleftrightarrow> server_core s \<and> md_inv (ss_deserializer s) \<and> cp_used (md_parser (ss_deserializer s)) = k"

definition server_panic :: "server_session_error \<Rightarrow> bool" where
  "server_panic e \<longleftrightarrow> e \<in> {ServerPanic, ServerOutOfFuel, ServerDecodeError DecodePanic}
     \<or> (\<exists>m. e = ServerMessageDeserializationError m \<and> message_panic m)
     \<or> (\<exists>m. e = ServerMessageSerializationError m \<and> serialization_panic m)"

text \<open>An operation keeps the invariant, whatever it returns, and does not panic.\<close>

abbreviation keeps :: "nat \<Rightarrow> 'a server_op \<Rightarrow> server_session \<Rightarrow> bool" where
  "keeps k m s \<equiv> wp m (\<lambda>_. server_ok k) (\<lambda>e s'. server_ok k s' \<and> \<not> server_panic e) s"

lemmas ok_defs = server_ok_def server_core_def

lemma server_ok_frame [simp]:
  "server_ok k (s\<lparr>ss_failed := a\<rparr>) = server_ok k s"
  "server_ok k (s\<lparr>ss_ticks := b\<rparr>) = server_ok k s"
  "server_ok k (s\<lparr>ss_serializer := c\<rparr>) = server_ok k s"
  "server_ok k (s\<lparr>ss_pending := d\<rparr>) = server_ok k s"
  "server_ok k (s\<lparr>ss_next_request_number := f\<rparr>) = server_ok k s"
  "server_ok k (s\<lparr>ss_negotiated_encoding := g\<rparr>) = server_ok k s"
  "server_ok k (s\<lparr>ss_peer_uses_amf3_framing := h\<rparr>) = server_ok k s"
  "server_ok k (s\<lparr>ss_response_encoding := g\<rparr>) = server_ok k s"
  "server_ok k (s\<lparr>ss_bytes_received := i\<rparr>) = server_ok k s"
  "server_ok k (s\<lparr>ss_bytes_received_since_last_ack := f\<rparr>) = server_ok k s"
  "server_ok k (s\<lparr>ss_pending_connection_control := j\<rparr>) = server_ok k s"
  by (simp_all add: ok_defs)

lemma server_core_frame [simp]:
  "server_core (s\<lparr>ss_failed := a\<rparr>) = server_core s"
  "server_core (s\<lparr>ss_pending := d\<rparr>) = server_core s"
  "server_core (s\<lparr>ss_deserializer := e\<rparr>) = server_core s"
  by (simp_all add: ok_defs)

lemma server_panic_simps [simp]:
  "server_panic (ServerMessageSerializationError a) \<longleftrightarrow> serialization_panic a" "\<not> server_panic (ServerEncodeError b)"
  "\<not> server_panic (ServerLimitExceeded c)" "\<not> server_panic InvalidRequestId" "\<not> server_panic NotConnected"
  "\<not> server_panic ServerSessionFailed" "\<not> server_panic ServerPendingOutput" "\<not> server_panic ServerInvalidStreamHandle"
  "\<not> server_panic (ServerStreamInInvalidState d e)" "\<not> server_panic StreamIdsExhausted"
  "\<not> server_panic NoAppNameForConnectionRequest" "\<not> server_panic (ActionAttemptedOnInactiveStream f g)"
  "server_panic (ServerDecodeError h) \<longleftrightarrow> h = DecodePanic"
  "server_panic (ServerMessageDeserializationError i) \<longleftrightarrow> message_panic i"
  by (simp_all add: server_panic_def)

section \<open>Basic steps\<close>

text \<open>Sending touches the encoder and the clock only.\<close>

lemma wp_serialize:
  assumes "\<And>e p. Q p (s\<lparr>ss_serializer := e\<rparr>)" and "\<And>e x. E (ServerEncodeError x) (s\<lparr>ss_serializer := e\<rparr>)"
  shows "wp (server_serialize m full) Q E s" and "wp (server_encode m' options) Q E s" and "wp (server_set_chunk_size n t) Q E s"
  using assms by (auto simp: wp_def server_serialize_def server_encode_def server_set_chunk_size_def map_error_def
      split: prod.splits sum.splits)

lemma wp_send_message:
  assumes "\<And>t e p. Q p (s\<lparr>ss_ticks := t, ss_serializer := e\<rparr>)"
    and "\<And>t e x. E (ServerEncodeError x) (s\<lparr>ss_ticks := t, ss_serializer := e\<rparr>)"
    and "\<And>t x. \<not> serialization_panic x \<Longrightarrow> E (ServerMessageSerializationError x) (s\<lparr>ss_ticks := t\<rparr>)"
  shows "wp (send_message env full m sid) Q E s"
  using assms no_serialization_panic by (auto simp: send_message_def to_payload_def get_epoch_def wp_def sbind_def sget_def slift_def map_error_def
      server_serialize_def split: prod.splits sum.splits)

lemma keeps_send [intro!]: "server_ok k s \<Longrightarrow> keeps k (send_message env full m sid) s"
  by (rule wp_send_message) simp_all

lemma wp_known_stream:
  assumes "streams_find (ss_stream_handles s) sid = Some h" and "Q h s"
  shows "wp (known_stream sid) Q E s"
  using assms by (simp add: known_stream_def wp_simps)

lemma active_find:
  "streams_agree active handles next_id limits \<Longrightarrow> hm_get active sid = None \<longleftrightarrow> streams_find handles sid = None"
  unfolding streams_agree_def by (metis domIff)

lemma keeps_sbind:
  assumes "wp m R E s" and "\<And>a s'. R a s' \<Longrightarrow> wp (f a) Q E s'"
  shows "wp (sbind m f) Q E s"
  using wp_mono [OF assms(1), of "\<lambda>a. wp (f a) Q E" E] assms(2) by (simp add: wp_sbind)

lemma dom_insert [simp]: "dom (hm_get (hm_insert k v m)) = insert k (dom (hm_get m))"
  by (auto split: if_splits)

lemma agree_update:
  "streams_agree active handles next_id limits \<Longrightarrow> hm_get active sid \<noteq> None \<Longrightarrow>
    streams_agree (hm_insert sid a active) handles next_id limits"
  by (auto simp: streams_agree_def hm_len_insert_same insert_absorb domI)

lemma requests_active:
  "requests_ok requests active limits \<Longrightarrow> requests_ok requests (hm_insert sid a active) limits"
  by (auto simp: requests_ok_def request_live_def)

lemma set_stream_state_ok:
  "server_ok k s \<Longrightarrow> hm_get (ss_active_streams s) sid \<noteq> None \<Longrightarrow> server_ok k (set_stream_state sid state s)"
  by (simp add: set_stream_state_def ok_defs agree_update requests_active)

lemma requests_insert:
  assumes "requests_ok requests active limits" and "request_live active r"
    and "hm_len requests < max_pending_requests limits"
  shows "requests_ok (hm_insert i r requests) active limits"
  using assms hm_len_insert_le [of i r requests] by (auto simp: requests_ok_def)

lemma requests_remove: "requests_ok requests active limits \<Longrightarrow> requests_ok (hm_remove i requests) active limits"
  using hm_len_remove_le [of i requests] by (auto simp: requests_ok_def)

lemma wp_insert_request:
  assumes "server_ok k s" and "request_live (ss_active_streams s) r"
    and "\<And>n rs. server_ok k (s\<lparr>ss_next_request_number := n, ss_outstanding_requests := rs\<rparr>) \<Longrightarrow>
      Q (ss_next_request_number s) (s\<lparr>ss_next_request_number := n, ss_outstanding_requests := rs\<rparr>)"
    and "\<And>n e. E (ServerLimitExceeded e) (s\<lparr>ss_next_request_number := n\<rparr>)"
  shows "wp (insert_request r) Q E s"
  using assms by (auto simp: insert_request_def wp_simps check_requests_def map_error_def ok_defs requests_insert)


section \<open>Handlers\<close>

lemma agree_find:
  "streams_agree active handles next_id limits \<Longrightarrow> hm_get active sid = Some a \<Longrightarrow> streams_find handles sid \<noteq> None"
  using active_find by (metis option.distinct(1))

lemma known_ok:
  assumes "server_ok k s" and "hm_get (ss_active_streams s) sid \<noteq> None"
  obtains h where "streams_find (ss_stream_handles s) sid = Some h"
  using assms active_find [of "ss_active_streams s" "ss_stream_handles s" "ss_next_stream_id s" "ss_session_limits s" sid]
  by (auto simp: ok_defs)

lemma keeps_error_output: "server_ok k s \<Longrightarrow> keeps k (error_output env code description tid sid) s"
  by (auto simp: error_output_def create_error_packet_def create_error_response_def wp_simps intro!: wp_send_message)

lemma live_simps [simp]:
  "request_live active (ConnectionRequest app tid encoding)"
  "request_live active (PublishRequested key mode sid encoding) \<longleftrightarrow> hm_get active sid \<noteq> None"
  "request_live active (PlayRequested key sid encoding) \<longleftrightarrow> hm_get active sid \<noteq> None"
  by (auto simp: request_live_def targets_def)

lemma keeps_connect: "server_ok k s \<Longrightarrow> keeps k (handle_command_connect env tid obj) s"
  by (auto simp: handle_command_connect_def wp_simps Let_def intro!: wp_insert_request
      split: amf0_value.split prod.split option.split)

lemma wp_finished_event:
  assumes "server_ok k s \<and> hm_get (ss_active_streams s) sid \<noteq> None \<or> streams_find (ss_stream_handles s) sid \<noteq> None"
    and "\<And>out. Q out s"
  shows "wp (finished_event sid app state) Q E s"
proof -
  obtain h where "streams_find (ss_stream_handles s) sid = Some h"
    using assms(1) known_ok by blast
  then show ?thesis
    using assms(2) by (auto simp: finished_event_def wp_simps intro!: wp_known_stream split: stream_state.split)
qed

lemma keeps_close_stream: "server_ok k s \<Longrightarrow> keeps k (handle_command_close_stream args) s"
  by (auto simp: handle_command_close_stream_def wp_simps Let_def set_stream_state_ok intro!: wp_finished_event
      split: amf0_value.split list.split option.split)

lemma create_agree:
  assumes ok: "streams_agree active handles next_id limits" and room: "hm_len active < max_streams limits"
    and next_id: "next_id \<noteq> 0xffffffff" and ins: "streams_insert () (Some next_id) handles = Some (handles', h)"
  shows "streams_agree (hm_insert next_id a active) handles' (next_id + 1) limits"
proof -
  have fresh: "streams_find handles next_id = None"
    using ok unfolding streams_agree_def by (metis (no_types, lifting) domIff greaterThanLessThan_iff less_irrefl subsetD)
  have succ: "unat (next_id + 1) = Suc (unat next_id)"
    using next_id by unat_arith simp
  have "hm_len (hm_insert next_id a active) \<le> max_streams limits"
    using hm_len_insert_le [of next_id a active] room by simp
  moreover have "insert next_id (dom (hm_get active)) \<subseteq> {0<..<next_id + 1}"
  proof -
    have "0 < next_id" "next_id < next_id + 1"
      using ok succ by (auto simp: streams_agree_def word_less_nat_alt)
    then show ?thesis
      using ok by (force simp: streams_agree_def)
  qed
  moreover have "dom (streams_find handles') = insert next_id (dom (streams_find handles))"
    using streams_insert_fields(1) [OF ins] by (simp add: streams_find_eq index_wire_def)
  moreover have "length (sm_slots handles') < unat (next_id + 1)"
    using streams_insert_fields(3) [OF ins] ok succ by (simp add: streams_agree_def)
  ultimately show ?thesis
    using ok streams_insert_wf [OF _ ins] fresh streams_insert_get(1) [OF ins] by (auto simp: streams_agree_def)
qed

lemma insert_total:
  assumes "length (sm_slots t) < 2 ^ 32"
  shows "\<exists>t' h. streams_insert st wire t = Some (t', h)"
  using assms by (auto simp: streams_insert_def Let_def split: option.splits dest!: position_Some)

lemma keeps_create_stream:
  assumes "server_ok k s"
  shows "keeps k (handle_command_create_stream env tid) s"
proof -
  have "length (sm_slots (ss_stream_handles s)) < 2 ^ 32"
    using assms u32_lt [of "ss_next_stream_id s"] by (auto simp: ok_defs streams_agree_def)
  from insert_total [OF this] obtain t h where ins: "streams_insert () (Some (ss_next_stream_id s)) (ss_stream_handles s) = Some (t, h)"
    by blast
  show ?thesis
    using assms
    by (auto simp: handle_command_create_stream_def create_success_response_def wp_simps Let_def check_streams_def
        map_error_def set_stream_state_def ins intro!: wp_send_message)
      (auto simp: ok_defs requests_active create_agree [OF _ _ _ ins])
qed


lemma delete_agree:
  assumes ok: "streams_agree active handles next_id limits" and h: "streams_find handles sid = Some h"
  shows "streams_agree (hm_remove sid active) (fst (streams_remove h handles)) next_id limits"
proof -
  obtain e where e: "streams_get handles h = Some e" "en_wire_id e = Some sid"
    using ok h by (auto simp: streams_agree_def streams_find_iff)
  obtain t' r where rem: "streams_remove h handles = (t', r)"
    by (cases "streams_remove h handles")
  have r: "r = Some e"
    using streams_remove_get(3) [OF rem] e by simp
  have "dom (streams_find t') = dom (streams_find handles) - {sid}"
    using streams_remove_fields(3) [OF rem] r e by (auto simp: streams_find_eq split: if_splits)
  moreover have "dom (hm_get (hm_remove sid active)) = dom (hm_get active) - {sid}"
    by (auto split: if_splits)
  ultimately show ?thesis
    using ok streams_remove_wf [OF _ rem] streams_remove_fields(1) [OF rem] hm_len_remove_le [of sid active]
      streams_remove_get(1) [OF rem]
    by (simp add: streams_agree_def rem) (metis Diff_subset order_trans)
qed

lemma delete_requests:
  assumes "requests_ok requests active limits"
  shows "requests_ok (filter (\<lambda>(_, r). \<not> targets sid r) requests) (hm_remove sid active) limits"
  using assms hm_retain_len [of "\<lambda>(_, r). \<not> targets sid r" requests]
  by (auto simp: requests_ok_def hm_retain_wf hm_retain_get request_live_def dom_def split: option.splits if_splits)

lemma active_known: "server_ok k s \<Longrightarrow> hm_get (ss_active_streams s) sid = Some a \<Longrightarrow>
    \<exists>h. streams_find (ss_stream_handles s) sid = Some h"
  by (metis known_ok option.distinct(1))

lemma wp_known_active:
  "server_ok k s \<Longrightarrow> hm_get (ss_active_streams s) sid \<noteq> None \<Longrightarrow> (\<And>h. Q h s) \<Longrightarrow> wp (known_stream sid) Q E s"
  using known_ok wp_known_stream by metis

lemma keeps_delete_stream: "server_ok k s \<Longrightarrow> keeps k (handle_command_delete_stream args) s"
  by (auto simp: handle_command_delete_stream_def wp_simps intro!: wp_finished_event dest: active_known
      split: amf0_value.splits list.splits option.splits)
    (auto simp: ok_defs delete_agree delete_requests dest: agree_find)

lemma ok_find: "server_ok k s \<Longrightarrow> hm_get (ss_active_streams s) sid = None \<longleftrightarrow> streams_find (ss_stream_handles s) sid = None"
  using active_find [of "ss_active_streams s" "ss_stream_handles s" "ss_next_stream_id s" "ss_session_limits s" sid]
  by (auto simp: ok_defs)

lemma keeps_with_stream:
  assumes "server_ok k s"
    and "\<And>app. hm_get (ss_active_streams s) sid \<noteq> None \<Longrightarrow> keeps k (body app) s"
  shows "keeps k (with_stream env code refused tid sid body) s"
  using assms ok_find [of k s sid]
  by (auto simp: with_stream_def wp_simps keeps_error_output split: option.split)

lemma keeps_publish: "server_ok k s \<Longrightarrow> keeps k (handle_command_publish env sid tid args) s"
  by (auto simp: handle_command_publish_def create_error_response_def wp_simps keeps_error_output
      intro!: keeps_with_stream wp_insert_request wp_send_message wp_known_active
      split: amf0_value.split list.split option.split)

lemma keeps_play: "server_ok k s \<Longrightarrow> keeps k (handle_command_play env sid tid args) s"
  by (auto simp: handle_command_play_def wp_simps keeps_error_output
      intro!: keeps_with_stream wp_insert_request wp_known_active split: amf0_value.split list.split)

lemma keeps_amf0_command: "server_ok k s \<Longrightarrow> keeps k (server_handle_amf0_command env sid name tid obj args) s"
  by (simp add: server_handle_amf0_command_def keeps_connect keeps_close_stream keeps_create_stream keeps_delete_stream
      keeps_publish keeps_play wp_sret)

lemma publishing_active: "publishing_key s sid = Some key \<Longrightarrow> hm_get (ss_active_streams s) sid \<noteq> None"
  by (auto simp: publishing_key_def split: option.splits)

lemma keeps_media:
  "server_ok k s \<Longrightarrow> keeps k (audio_event data sid t) s" "server_ok k s \<Longrightarrow> keeps k (video_event data sid t) s"
  using publishing_active [of s sid]
  by (auto simp: audio_event_def video_event_def wp_simps intro!: wp_known_active split: option.split)

lemma keeps_script_data: "server_ok k s \<Longrightarrow> keeps k (server_script_data wire_type m) s"
  using publishing_active [of s "rm_message_stream_id m"]
    publishing_active [of "s\<lparr>ss_peer_uses_amf3_framing := True\<rparr>" "rm_message_stream_id m"]
  by (auto simp: server_script_data_def wp_simps intro!: wp_known_active split: option.split)

lemma keeps_control:
  assumes "server_ok k s"
  shows "keeps k (server_handle_abort cid) s" "keeps k (server_handle_set_chunk_size n) s"
    "keeps k (server_handle_user_control env event t) s" "keeps k (server_handle_window_acknowledgement n) s"
proof -
  obtain d where "decoder_abort_chunk_stream (ss_deserializer s) cid = Some d" "md_inv d"
    using decoder_abort_inv [of "ss_deserializer s" cid] assms by (auto simp: server_ok_def)
  moreover from this(1) have "cp_used (md_parser d) = cp_used (md_parser (ss_deserializer s))"
    by (rule decoder_abort_used)
  ultimately show "keeps k (server_handle_abort cid) s"
    using assms by (auto simp: server_handle_abort_def wp_simps ok_defs)
  show "keeps k (server_handle_set_chunk_size n) s"
    using assms decoder_chunk_size_inv [of "ss_deserializer s" "unat n"] decoder_chunk_size_panic [of "ss_deserializer s" "unat n"]
      decoder_chunk_size_used [of "ss_deserializer s" "unat n"]
    by (auto simp: server_handle_set_chunk_size_def wp_simps ok_defs map_error_def split: sum.split)
  show "keeps k (server_handle_user_control env event t) s"
    using assms by (auto simp: server_handle_user_control_def wp_simps intro!: wp_send_message)
  show "keeps k (server_handle_window_acknowledgement n) s"
    using assms by (auto simp: server_handle_window_acknowledgement_def wp_simps ok_defs flow_ok_def)
qed

lemma keeps_message:
  assumes "server_ok k s" and "ins_ok (se_insert env)"
  shows "keeps k (server_handle_message env m) s"
  using assms no_message_panic [OF assms(2), of "se_sizes env" m]
  by (auto simp: server_handle_message_def wp_simps Let_def map_error_def keeps_control keeps_amf0_command keeps_media
      split: sum.split rtmp_message.split)

lemma keeps_pop: "server_ok k s \<Longrightarrow> keeps k server_pop_pending s"
  by (auto simp: server_pop_pending_def wp_def split: list.split)

lemma keeps_then:
  assumes "keeps k m s" and "\<And>a s'. server_ok k s' \<Longrightarrow> keeps k (f a) s'"
  shows "keeps k (sbind m f) s"
  by (rule keeps_sbind [OF assms(1)]) (rule assms(2))

lemma keeps_process_payload:
  assumes "server_ok k s" and "ins_ok (se_insert env)"
  shows "keeps k (server_process_payload env m) s"
proof -
  have "keeps k (sbind (server_handle_message env (rm_map payload_into_bytes m))
      (\<lambda>outputs. sbind (server_extend_pending outputs) (\<lambda>_. server_pop_pending))) s"
    by (rule keeps_then [OF keeps_message [OF assms]]) (simp add: wp_simps server_extend_pending_def keeps_pop)
  moreover have "keeps k (sbind (audio_event d i t) (\<lambda>e. sret (map_option ServerRaised e))) s"
    "keeps k (sbind (video_event d i t) (\<lambda>e. sret (map_option ServerRaised e))) s" for d :: payload and i t
    by (rule keeps_then [OF keeps_media(1) [OF assms(1)]], simp add: wp_simps)
      (rule keeps_then [OF keeps_media(2) [OF assms(1)]], simp add: wp_simps)
  ultimately show ?thesis
    using assms(1) by (simp add: server_process_payload_def keeps_script_data wp_sret split: option.split)
qed



section \<open>The receive loop\<close>

lemma server_ok_decoder:
  "server_ok k s \<Longrightarrow> md_inv d \<Longrightarrow> server_ok (cp_used (md_parser d)) (s\<lparr>ss_deserializer := d\<rparr>)"
  by (simp add: ok_defs)

lemma server_ok_core: "server_ok k s \<Longrightarrow> server_core s"
  by (simp add: server_ok_def)

lemma wp_server_decode:
  assumes "server_ok k s" and "env_ok (se_decoder env)"
  shows "wp (server_decode env input)
    (\<lambda>(m, rest) s'. \<exists>j. server_ok j s' \<and> (m \<noteq> None \<longrightarrow> length rest + of_bool (0 < j) < length input + of_bool (0 < k)))
    (\<lambda>e s'. server_core s' \<and> \<not> server_panic e) s"
proof -
  obtain d rest r where out: "decode (se_decoder env) (ss_deserializer s) input = (d, rest, r)"
    by (metis prod_cases3)
  have "md_inv (ss_deserializer s)" "cp_used (md_parser (ss_deserializer s)) = k"
    using assms(1) by (simp_all add: server_ok_def)
  with decode_outcome [OF assms(2) _ out] show ?thesis
    using server_ok_decoder [OF assms(1), of d] server_ok_core [OF assms(1)]
    by (auto simp: wp_def server_decode_def out parser_work_def split: sum.splits)
qed

lemma keeps_account: "server_ok k s \<Longrightarrow> keeps k (server_account env n) s"
  by (auto simp: server_account_def wp_simps server_window_def intro!: wp_send_message split: option.split)
    (auto simp: ok_defs flow_ok_def)

lemma keeps_dispatch:
  assumes "server_ok k s" and "ins_ok (se_insert env)"
  shows "keeps k (server_dispatch env m) s"
  unfolding server_dispatch_def
  by (rule keeps_then [OF keeps_pop [OF assms(1)]], rule keeps_then [OF keeps_process_payload [OF _ assms(2)]], assumption)
    (auto simp: wp_simps split: option.split)

lemma keeps_core: "keeps k m s \<Longrightarrow> wp m (\<lambda>_. server_ok k) (\<lambda>e s'. server_core s' \<and> \<not> server_panic e) s"
  by (erule wp_mono) (auto dest: server_ok_core)

interpretation srv: receive_loop "\<lambda>k s. session_env_ok env \<and> server_ok k s" server_core server_panic
    "server_decode env" "server_account env" server_pop_pending "server_dispatch env" "server_receive_loop env"
    "server_receive_inner env" for env
proof (unfold_locales, goal_cases)
  case (1 k s input)
  then show ?case
    using wp_mono [OF wp_server_decode [of k s env input]] session_env_parts [of env] by fastforce
next
  case (2 k s n)
  then show ?case
    by (auto intro: wp_mono [OF keeps_core [OF keeps_account]])
next
  case (3 k s)
  then show ?case
    by (auto intro: wp_mono [OF keeps_core [OF keeps_pop]])
next
  case (4 k s m)
  then show ?case
    using session_env_parts [of env] by (auto intro: wp_mono [OF keeps_core [OF keeps_dispatch]])
qed (simp_all add: server_receive_inner_def)

section \<open>Public operations\<close>

text \<open>The invariant of a session between calls: a failed session has lost its decoder, nothing else.\<close>

definition server_inv :: "server_session \<Rightarrow> bool" where
  "server_inv s \<longleftrightarrow> server_core s \<and> (ss_failed s \<or> (\<exists>k. server_ok k s))"

abbreviation server_safe :: "'a server_op \<Rightarrow> server_session \<Rightarrow> bool" where
  "server_safe m s \<equiv> wp m (\<lambda>_. server_inv) (\<lambda>e s'. server_inv s' \<and> \<not> server_panic e) s"

lemma server_ok_inv: "server_ok k s \<Longrightarrow> server_inv s"
  by (auto simp: server_inv_def server_ok_def)

lemma server_safe_active:
  assumes "server_inv s" and "\<And>k. server_ok k s \<Longrightarrow> keeps k (f ()) s"
  shows "server_safe (sbind server_ensure_active f) s"
proof (cases "ss_failed s")
  case True
  then show ?thesis
    using assms(1) by (simp add: wp_simps) (simp add: wp_def server_ensure_active_def)
next
  case False
  then obtain k where k: "server_ok k s"
    using assms(1) by (auto simp: server_inv_def)
  have "wp (f ()) (\<lambda>_. server_inv) (\<lambda>e s'. server_inv s' \<and> \<not> server_panic e) s"
    by (rule wp_mono [OF assms(2) [OF k]]) (auto intro: server_ok_inv)
  then show ?thesis
    using False by (simp add: wp_simps) (simp add: wp_def server_ensure_active_def)
qed

lemma server_safe_receive:
  assumes env: "session_env_ok env" and inv: "server_inv s"
  shows "server_safe (server_receive env input) s"
proof (cases "ss_failed s")
  case True
  then show ?thesis
    using inv by (simp add: wp_def server_receive_def sbind_def server_ensure_active_def)
next
  case False
  then obtain k where "server_ok k s"
    using inv by (auto simp: server_inv_def)
  then show ?thesis
    using False srv.inner_returns [of env k s input] env
    by (auto simp: wp_def server_receive_def sbind_def server_ensure_active_def server_inv_def
        dest: server_ok_core split: prod.splits sum.splits)
qed

lemma keeps_accept_connection: "server_ok k s \<Longrightarrow> keeps k (accept_connection_request env app tid props) s"
  by (auto simp: accept_connection_request_def wp_simps Let_def intro!: wp_send_message)
    (auto simp: ok_defs flow_ok_def)

lemma keeps_accept_stream:
  assumes "server_ok k s"
  shows "keeps k (accept_publish_request env sid key mode) s" "keeps k (accept_play_request env sid key) s"
  using assms
  by (auto simp: accept_publish_request_def accept_play_request_def wp_simps set_stream_state_ok intro!: wp_send_message)

lemma keeps_take_request: "server_ok k s \<Longrightarrow> keeps k (take_request rid) s"
  by (auto simp: take_request_def wp_simps ok_defs requests_remove split: option.split)

lemma keeps_answer:
  assumes "server_ok k s"
  shows "keeps k (accept_request_with_properties_inner env rid props) s" "keeps k (reject_request_inner env rid code desc) s"
    "keeps k (accept_request_inner env rid) s"
proof -
  have active: "keeps k server_ensure_active s"
    using assms by (simp add: wp_def server_ensure_active_def)
  have accept: "keeps k (accept_request_with_properties_inner env rid props) s" if "server_ok k s" for s props
    unfolding accept_request_with_properties_inner_def
    apply (rule keeps_then, use that in \<open>simp add: wp_def server_ensure_active_def\<close>)
    apply (rule keeps_then, erule keeps_take_request)
    apply (auto simp: wp_simps set_response_encoding_def keeps_accept_connection keeps_accept_stream split: outstanding_request.split)
    done
  show "keeps k (accept_request_with_properties_inner env rid props) s"
    by (rule accept [OF assms])
  show "keeps k (accept_request_inner env rid) s"
    unfolding accept_request_inner_def by (rule keeps_then [OF active]) (rule accept)
  show "keeps k (reject_request_inner env rid code desc) s"
    unfolding reject_request_inner_def
    apply (rule keeps_then [OF active])
    apply (rule keeps_then, erule keeps_take_request)
    apply (auto simp: wp_simps set_response_encoding_def create_error_packet_def create_error_response_def
        intro!: wp_send_message split: outstanding_request.split)
    done
qed


lemma keeps_active: "server_ok k s \<Longrightarrow> keeps k server_ensure_active s"
  by (simp add: wp_def server_ensure_active_def)

lemma keeps_drained: "server_ok k s \<Longrightarrow> keeps k server_ensure_output_drained s"
  unfolding server_ensure_output_drained_def by (rule keeps_then [OF keeps_active]) (auto simp: wp_simps)

lemma playback_wire: "server_stream_state_of s h = Some st \<Longrightarrow> server_stream_id s h \<noteq> None"
  by (auto simp: server_stream_state_of_def split: option.splits)

lemma keeps_playback_id: "server_ok k s \<Longrightarrow> keeps k (playback_id h) s"
  using playback_wire [of s h] by (auto simp: playback_id_def wp_simps split: option.split)

text \<open>A drained session is not a failed one, so the operations that start with that check keep the invariant.\<close>

lemma drained_cases:
  assumes "server_inv s" and "\<And>k. server_ok k s \<Longrightarrow> keeps k (f ()) s"
  shows "server_safe (sbind server_ensure_output_drained f) s"
proof -
  have eq: "sbind server_ensure_output_drained f = sbind server_ensure_active (\<lambda>_. sbind (sget (\<lambda>s. s)) (\<lambda>s.
      sbind (if ss_pending s \<noteq> [] then sfail ServerPendingOutput
        else if ss_current_state s \<noteq> SessionConnected then sfail NotConnected else sret ()) f))"
    by (simp add: server_ensure_output_drained_def sbind_def fun_eq_iff split: prod.split sum.split)
  show ?thesis
    unfolding eq by (rule server_safe_active [OF assms(1)]) (auto simp: wp_simps assms(2))
qed

lemma server_safe_sends:
  assumes "server_inv s"
  shows "server_safe (server_send_metadata env h m) s" "server_safe (server_send_ping_request env) s" "server_safe (complete_playback env h) s"
    "server_safe (server_media_packet h t ts data options) s"
proof -
  show "server_safe (server_send_metadata env h m) s"
    unfolding server_send_metadata_def
    apply (rule drained_cases [OF assms])
    apply (rule keeps_then, erule keeps_playback_id, rule keeps_then, erule keeps_active)
    apply (auto simp: wp_simps)
    done
  show "server_safe (server_send_ping_request env) s"
    unfolding server_send_ping_request_def
    apply (rule drained_cases [OF assms])
    apply (rule keeps_then, erule keeps_active)
    apply (auto simp: wp_simps get_epoch_def map_error_def wp_def server_serialize_def slift_def sbind_def sret_def
        split: sum.splits prod.splits dest: no_serialization_panic)
    done
  show "server_safe (complete_playback env h) s"
    unfolding complete_playback_def
    apply (rule drained_cases [OF assms])
    apply (auto simp: wp_sbind wp_sget wp_option wp_sfail split: option.split simp del: case_map_option)
    apply (rule wp_mono, erule keeps_active)
     apply (auto simp: wp_simps set_stream_state_ok split: option.split stream_state.split simp del: case_map_option)
    done
  show "server_safe (server_media_packet h t ts data options) s"
    unfolding server_media_packet_def
    apply (rule drained_cases [OF assms])
    apply (rule keeps_then, erule keeps_playback_id, rule keeps_then, erule keeps_active)
    apply (auto intro!: wp_serialize)
    done
qed

lemma server_safe_queued:
  assumes "\<And>k. server_ok k s \<Longrightarrow> keeps k m s" and "server_inv s" and "ss_failed s \<Longrightarrow> m s = (s, Inl ServerSessionFailed)"
  shows "server_safe (sbind m server_extend_pending) s"
proof (cases "ss_failed s")
  case True
  then show ?thesis
    using assms by (simp add: wp_def sbind_def)
next
  case False
  then obtain k where "server_ok k s"
    using assms(2) by (auto simp: server_inv_def)
  from assms(1) [OF this] show ?thesis
    by (simp add: wp_sbind) (erule wp_mono, auto simp: server_extend_pending_def wp_simps intro: server_ok_inv)
qed

lemma failed_answers:
  assumes "ss_failed s"
  shows "accept_request_inner env rid s = (s, Inl ServerSessionFailed)"
    "accept_request_with_properties_inner env rid p s = (s, Inl ServerSessionFailed)"
    "reject_request_inner env rid code desc s = (s, Inl ServerSessionFailed)"
  using assms by (simp_all add: accept_request_inner_def accept_request_with_properties_inner_def reject_request_inner_def
      sbind_def server_ensure_active_def)

lemma server_safe_answers:
  assumes "server_inv s"
  shows "server_safe (accept_request env rid) s" "server_safe (accept_request_with_properties env rid p) s"
    "server_safe (reject_request env rid code desc) s"
  unfolding accept_request_def accept_request_with_properties_def reject_request_def
  by (rule server_safe_queued, erule keeps_answer, rule assms, erule failed_answers)+

lemma server_new_inv:
  assumes "server_new env counter config = Inr (s, counter')" and "maximum_buffered_bytes (sc_decoder_limits config) < usize_max"
  shows "server_ok 0 s \<and> \<not> ss_failed s"
proof -
  obtain handles where h: "streams_new counter = Some (handles, counter')"
    and pre: "server_preamble env config (server_initial config handles) = (s, Inr ())" and w: "sc_window_ack_size config \<noteq> 0"
    using assms(1) by (auto simp: server_new_def split: if_splits option.splits prod.splits sum.splits)
  have "md_inv (decoder_with_limits (sc_decoder_limits config))"
    using assms(2) by (simp add: decoder_new_inv limits_ok_def)
  then have "md_inv (ss_deserializer (server_initial config handles))"
    by (simp add: server_initial_def Let_def md_inv_pool split: option.split)
  moreover have "server_core (server_initial config handles)"
    using streams_wf_new [OF h] w h by (auto simp: server_core_def server_initial_def streams_agree_def requests_ok_def flow_ok_def
        streams_find_def streams_new_def streams_get_def hm_len_def dom_def split: if_splits)
  moreover have "cp_used (md_parser (ss_deserializer (server_initial config handles))) = 0"
    by (simp add: server_initial_def Let_def decoder_with_limits_def parser_with_limits_def set_payload_pool_def split: option.split)
  ultimately have "server_ok 0 (server_initial config handles) \<and> \<not> ss_failed (server_initial config handles)"
    by (simp add: server_ok_def) (simp add: server_initial_def)
  then have "wp (server_preamble env config) (\<lambda>_ s. server_ok 0 s \<and> \<not> ss_failed s) (\<lambda>_ _. True) (server_initial config handles)"
    unfolding server_preamble_def wp_sbind by (auto intro!: wp_serialize wp_send_message simp: wp_simps)
  from wp_okD [OF this pre] show ?thesis .
qed

end
