(* ===== verification/Server_Properties.thy ===== *)
theory Server_Properties
  imports Server_Invariant
begin

text \<open>
  What a server session guarantees to the application that drives it, in every state reached by any sequence of its
  operations on any input.
\<close>

section \<open>Reachable sessions\<close>

text \<open>One call of a public operation, whether it succeeds or fails.\<close>

inductive server_step :: "session_env \<Rightarrow> server_session \<Rightarrow> server_session \<Rightarrow> bool" for env where
  step_receive: "server_receive env input s = (s', r) \<Longrightarrow> server_step env s s'"
| step_accept: "accept_request env rid s = (s', r) \<Longrightarrow> server_step env s s'"
| step_accept_with: "accept_request_with_properties env rid p s = (s', r) \<Longrightarrow> server_step env s s'"
| step_reject: "reject_request env rid code description s = (s', r) \<Longrightarrow> server_step env s s'"
| step_metadata: "server_send_metadata env h m s = (s', r) \<Longrightarrow> server_step env s s'"
| step_ping: "server_send_ping_request env s = (s', r) \<Longrightarrow> server_step env s s'"
| step_complete: "complete_playback env h s = (s', r) \<Longrightarrow> server_step env s s'"
| step_audio: "server_send_audio h data t policy s = (s', r) \<Longrightarrow> server_step env s s'"
| step_video: "server_send_video h data t policy s = (s', r) \<Longrightarrow> server_step env s s'"
| step_data: "server_send_data h msg s = (s', r) \<Longrightarrow> server_step env s s'"
| step_pool: "server_step env s (server_set_payload_pool pool s)"

inductive server_reachable :: "session_env \<Rightarrow> server_session_config \<Rightarrow> server_session \<Rightarrow> bool" for env config where
  reach_new: "server_new env counter config = Inr (s, counter') \<Longrightarrow> server_reachable env config s"
| reach_step: "server_reachable env config s \<Longrightarrow> server_step env s s' \<Longrightarrow> server_reachable env config s'"

lemmas server_safe_media = server_safe_sends(4)

lemma server_step_inv:
  assumes "server_step env s s'" and "server_inv s" and "session_env_ok env"
  shows "server_inv s'"
  using assms
proof (induction rule: server_step.induct)
  case (step_receive input s s' r)
  then show ?case
    using wp_fst [OF server_safe_receive] by blast
next
  case (step_audio h data t policy s s' r)
  then show ?case
    using wp_fst [OF server_safe_media] by (auto simp: server_send_audio_def)
next
  case (step_video h data t policy s s' r)
  then show ?case
    using wp_fst [OF server_safe_media] by (auto simp: server_send_video_def)
next
  case (step_data h msg s s' r)
  then show ?case
    using wp_fst [OF server_safe_media] by (auto simp: server_send_data_def)
next
  case (step_pool s pool)
  then show ?case
    by (auto simp: server_inv_def server_set_payload_pool_def server_ok_def md_inv_pool)
next
  case (step_accept rid s s' r)
  then show ?case
    using wp_fst [OF server_safe_answers(1)] by blast
next
  case (step_accept_with rid p s s' r)
  then show ?case
    using wp_fst [OF server_safe_answers(2)] by blast
next
  case (step_reject rid code description s s' r)
  then show ?case
    using wp_fst [OF server_safe_answers(3)] by blast
next
  case (step_metadata h m s s' r)
  then show ?case
    using wp_fst [OF server_safe_sends(1)] by blast
next
  case (step_ping s s' r)
  then show ?case
    using wp_fst [OF server_safe_sends(2)] by blast
next
  case (step_complete h s s' r)
  then show ?case
    using wp_fst [OF server_safe_sends(3)] by blast
qed

lemma server_reachable_inv:
  assumes "server_reachable env config s" and "session_env_ok env"
    and "maximum_buffered_bytes (sc_decoder_limits config) < usize_max"
  shows "server_inv s"
  using assms
proof (induction rule: server_reachable.induct)
  case (reach_new counter s counter')
  then show ?case
    using server_new_inv server_ok_inv by blast
qed (use server_step_inv in blast)

section \<open>A session to evaluate\<close>

definition sample_server_config :: server_session_config where
  "sample_server_config = server_session_config_new\<lparr>sc_send_on_bw_done_message_on_start := False\<rparr>"

definition sample_server :: server_session where
  "sample_server =
     (case server_new sample_session_env 1 sample_server_config of
        Inr (s, _) \<Rightarrow> s
      | Inl _ \<Rightarrow> server_initial sample_server_config \<lparr>sm_session = 0, sm_slots = [], sm_by_wire = []\<rparr>)"

text \<open>The command \<open>connect\<close> with the application \<open>live\<close>, as a peer sends it first.\<close>

definition sample_connect :: bytes where
  "sample_connect =
     [6, 0, 0, 0, 0, 0, 35, 20, 0, 0, 0, 0, 2, 0, 7, 99, 111, 110, 110, 101, 99, 116, 0, 63, 240, 0, 0, 0, 0, 0, 0, 3, 0, 3,
      97, 112, 112, 2, 0, 4, 108, 105, 118, 101, 0, 0, 9]"

text \<open>The session after the peer asked to connect, and after it was accepted.\<close>

definition sample_asked :: server_session where
  "sample_asked = fst (server_receive sample_session_env sample_connect sample_server)"

definition sample_connected :: server_session where
  "sample_connected = fst (accept_request sample_session_env 0 sample_asked)"

lemma sample_server_starts: "map_sum id snd (server_new sample_session_env 1 sample_server_config) = Inr 2"
  by code_simp

lemma sample_limit: "maximum_buffered_bytes (sc_decoder_limits sample_server_config) < usize_max"
  by (simp add: sample_server_config_def server_session_config_new_def decoder_limits_default_def usize_max_def)

lemma sample_reachable: "server_reachable sample_session_env sample_server_config sample_server"
proof -
  obtain s n where "server_new sample_session_env 1 sample_server_config = Inr (s, n)"
    using sample_server_starts by (cases "server_new sample_session_env 1 sample_server_config") auto
  then show ?thesis
    using reach_new by (simp add: sample_server_def)
qed

lemma sample_connected_reachable: "server_reachable sample_session_env sample_server_config sample_connected"
  unfolding sample_connected_def sample_asked_def
  by (intro reach_step [OF reach_step [OF sample_reachable]] step_receive step_accept) (rule prod.collapse [symmetric])+

section \<open>Consistency\<close>

text \<open>
  C27 (invariant). In every state a server session reaches, however its peer behaves: the message streams it has
  a state for are exactly the ones its handles name, and every live handle has a state; a publish or play request
  that waits for an answer refers to a stream that still exists; live streams and pending requests are within the
  configured limits; the session is connected exactly when it has an application name.
\<close>

theorem server_consistent:
  assumes "server_reachable env config s" and "session_env_ok env"
    and "maximum_buffered_bytes (sc_decoder_limits config) < usize_max"
  shows "(\<forall>sid. hm_get (ss_active_streams s) sid \<noteq> None \<longleftrightarrow> streams_find (ss_stream_handles s) sid \<noteq> None)
    \<and> (\<forall>h. streams_get (ss_stream_handles s) h \<noteq> None \<longleftrightarrow> server_stream_state_of s h \<noteq> None)
    \<and> (\<forall>i r sid. hm_get (ss_outstanding_requests s) i = Some r \<and> targets sid r \<longrightarrow> hm_get (ss_active_streams s) sid \<noteq> None)
    \<and> hm_len (ss_active_streams s) \<le> max_streams (ss_session_limits s)
    \<and> hm_len (ss_outstanding_requests s) \<le> max_pending_requests (ss_session_limits s)
    \<and> (ss_current_state s = SessionConnected \<longleftrightarrow> ss_connected_app_name s \<noteq> None)"
proof -
  have core: "server_core s"
    using server_reachable_inv [OF assms] by (simp add: server_inv_def)
  then have agree: "streams_agree (ss_active_streams s) (ss_stream_handles s) (ss_next_stream_id s) (ss_session_limits s)"
    and req: "requests_ok (ss_outstanding_requests s) (ss_active_streams s) (ss_session_limits s)"
    by (simp_all add: server_core_def)
  have same: "hm_get (ss_active_streams s) sid = None \<longleftrightarrow> streams_find (ss_stream_handles s) sid = None" for sid
    by (rule active_find [OF agree])
  have "server_stream_state_of s h \<noteq> None" if live: "streams_get (ss_stream_handles s) h = Some e" for h e
  proof -
    have "en_wire_id e \<noteq> None"
      using agree live by (simp add: streams_agree_def)
    then obtain w where w: "en_wire_id e = Some w"
      by auto
    then have "streams_find (ss_stream_handles s) w = Some h"
      using agree live by (auto simp: streams_agree_def streams_find_iff)
    then have "hm_get (ss_active_streams s) w \<noteq> None"
      using same by simp
    with live w show ?thesis
      by (auto simp: server_stream_state_of_def server_stream_id_def)
  qed
  moreover have "streams_get (ss_stream_handles s) h \<noteq> None" if "server_stream_state_of s h \<noteq> None" for h
    using that by (auto simp: server_stream_state_of_def server_stream_id_def split: option.splits)
  ultimately show ?thesis
    using same agree req core
    by (auto simp: streams_agree_def requests_ok_def request_live_def server_core_def flow_ok_def dom_def)
qed

theorem server_consistent_witness:
  "ss_current_state sample_connected = SessionConnected \<longleftrightarrow> ss_connected_app_name sample_connected \<noteq> None"
  using server_consistent [OF sample_connected_reachable sample_session_env_ok(1) sample_limit] by blast

section \<open>Safety\<close>

text \<open>
  C28 (safety). No operation of a reachable server session panics, on any input from the peer and any argument
  from the application: no lookup that the code expects to succeed fails, no remainder is taken by zero, the
  decoder does not index out of range and the accounting does not underflow, the AMF codecs reach no
  \<open>unreachable!()\<close> in either direction and no command is taken from too few values; and \<open>receive\<close> returns.
\<close>

theorem server_never_panics:
  assumes "server_reachable env config s" and "session_env_ok env"
    and "maximum_buffered_bytes (sc_decoder_limits config) < usize_max"
  shows "(\<forall>e. snd (server_receive env input s) = Inl e \<longrightarrow> \<not> server_panic e)
    \<and> (\<forall>e. snd (accept_request env rid s) = Inl e \<longrightarrow> \<not> server_panic e)
    \<and> (\<forall>e. snd (accept_request_with_properties env rid p s) = Inl e \<longrightarrow> \<not> server_panic e)
    \<and> (\<forall>e. snd (reject_request env rid code description s) = Inl e \<longrightarrow> \<not> server_panic e)
    \<and> (\<forall>e. snd (server_send_metadata env h m s) = Inl e \<longrightarrow> \<not> server_panic e)
    \<and> (\<forall>e. snd (server_send_ping_request env s) = Inl e \<longrightarrow> \<not> server_panic e)
    \<and> (\<forall>e. snd (complete_playback env h s) = Inl e \<longrightarrow> \<not> server_panic e)
    \<and> (\<forall>e. snd (server_send_audio h data t policy s) = Inl e \<longrightarrow> \<not> server_panic e)
    \<and> (\<forall>e. snd (server_send_video h data t policy s) = Inl e \<longrightarrow> \<not> server_panic e)
    \<and> (\<forall>e. snd (server_send_data h msg s) = Inl e \<longrightarrow> \<not> server_panic e)"
proof -
  have inv: "server_inv s"
    by (rule server_reachable_inv [OF assms])
  have no: "\<forall>e. snd (m s) = Inl e \<longrightarrow> \<not> server_panic e" if "server_safe m s" for m :: "'b server_op"
    using that by (auto simp: wp_def split: prod.splits sum.splits)
  show ?thesis
    unfolding server_send_audio_def server_send_video_def server_send_data_def
    by (intro conjI no server_safe_receive [OF assms(2)] server_safe_answers server_safe_sends inv)
qed

lemma sample_bad_input:
  "snd (server_receive sample_session_env [0xC3] sample_server) = Inl (ServerDecodeError (NoPreviousChunkOnStream 3))"
  by code_simp

theorem server_never_panics_witness: "\<not> server_panic (ServerDecodeError (NoPreviousChunkOnStream 3))"
  using conjunct1 [OF server_never_panics [OF sample_reachable sample_session_env_ok(1) sample_limit]] sample_bad_input by blast

section \<open>Failure\<close>

text \<open>
  C29 (error). An error of \<open>receive\<close> ends the session: it is reported as failed, what was queued is gone, and every
  later operation that returns a result returns \<open>SessionFailed\<close> and changes nothing; setting the payload pool, which
  returns none, leaves it failed.
\<close>

theorem failed_server_terminal:
  assumes "\<not> ss_failed s" and "server_receive env input s = (s', Inl e)"
  shows "server_state s' = Failed \<and> ss_pending s' = []
    \<and> server_receive env input' s' = (s', Inl ServerSessionFailed)
    \<and> accept_request env rid s' = (s', Inl ServerSessionFailed)
    \<and> accept_request_with_properties env rid p s' = (s', Inl ServerSessionFailed)
    \<and> reject_request env rid code description s' = (s', Inl ServerSessionFailed)
    \<and> server_send_metadata env h m s' = (s', Inl ServerSessionFailed)
    \<and> server_send_ping_request env s' = (s', Inl ServerSessionFailed)
    \<and> complete_playback env h s' = (s', Inl ServerSessionFailed)
    \<and> server_send_audio h data t policy s' = (s', Inl ServerSessionFailed)
    \<and> server_send_video h data t policy s' = (s', Inl ServerSessionFailed)
    \<and> server_send_data h msg s' = (s', Inl ServerSessionFailed)
    \<and> server_state (server_set_payload_pool pool s') = Failed \<and> ss_pending (server_set_payload_pool pool s') = []"
proof -
  have f: "ss_failed s'" "ss_pending s' = []"
    using assms by (auto simp: server_receive_def sbind_def server_ensure_active_def split: prod.splits sum.splits)
  then have stop: "sbind server_ensure_active k s' = (s', Inl ServerSessionFailed)" for k :: "unit \<Rightarrow> 'b server_op"
    by (simp add: sbind_def server_ensure_active_def)
  have drained: "sbind server_ensure_output_drained k s' = (s', Inl ServerSessionFailed)" for k :: "unit \<Rightarrow> 'b server_op"
    using f by (simp add: server_ensure_output_drained_def sbind_def server_ensure_active_def)
  show ?thesis
    using f failed_answers [OF f(1)]
    by (simp add: server_state_def server_receive_def stop drained accept_request_def accept_request_with_properties_def
        reject_request_def sbind_def [of "accept_request_inner env rid"]
        sbind_def [of "accept_request_with_properties_inner env rid p"]
        sbind_def [of "reject_request_inner env rid code description"]
        server_send_metadata_def server_send_ping_request_def complete_playback_def server_send_audio_def
        server_send_video_def server_send_data_def server_media_packet_def server_set_payload_pool_def)
qed

lemma sample_active: "ss_failed sample_server = False"
  by code_simp

theorem failed_server_terminal_witness:
  "server_state (fst (server_receive sample_session_env [0xC3] sample_server)) = Failed"
  using failed_server_terminal [of sample_server sample_session_env "[0xC3]"
      "fst (server_receive sample_session_env [0xC3] sample_server)" "ServerDecodeError (NoPreviousChunkOnStream 3)"]
    sample_active sample_bad_input by (simp add: prod_eq_iff)

end
