(* ===== verification/Server_Answers.thy ===== *)
theory Server_Answers
  imports Server_Properties
begin

text \<open>
  What the operations of a server session do: answering a request, and delivering what a publisher sends.
\<close>

section \<open>Answering requests\<close>

text \<open>The state of streams and connection that accepting a request establishes.\<close>

fun accepted :: "outstanding_request \<Rightarrow> server_session \<Rightarrow> server_session \<Rightarrow> bool" where
  "accepted (ConnectionRequest app tid encoding) s s' \<longleftrightarrow>
     server_state s' = Connected \<and> ss_connected_app_name s' = Some app \<and> ss_active_streams s' = ss_active_streams s"
| "accepted (PublishRequested key mode sid encoding) s s' \<longleftrightarrow>
     hm_get (ss_active_streams s') = (hm_get (ss_active_streams s))(sid \<mapsto> \<lparr>as_current_state = StreamPublishing key mode\<rparr>)"
| "accepted (PlayRequested key sid encoding) s s' \<longleftrightarrow>
     hm_get (ss_active_streams s') = (hm_get (ss_active_streams s))(sid \<mapsto> \<lparr>as_current_state = StreamPlaying key\<rparr>)"

lemma accepted_pending: "accepted request s (s'\<lparr>ss_pending := out\<rparr>) = accepted request s s'"
  by (cases request) (simp_all add: server_state_def)

text \<open>How many packets an accepted request queues.\<close>

fun answer_packets :: "outstanding_request \<Rightarrow> server_session \<Rightarrow> nat" where
  "answer_packets (ConnectionRequest app tid encoding) s = length (ss_pending_connection_control s) + 1"
| "answer_packets (PublishRequested key mode sid encoding) s = 2"
| "answer_packets (PlayRequested key sid encoding) s = 5"

definition sending_error :: "server_session_error \<Rightarrow> bool" where
  "sending_error e \<longleftrightarrow> (\<exists>x. e = ServerEncodeError x) \<or> (\<exists>x. e = ServerMessageSerializationError x)"

lemma sending_error_simps [simp]: "sending_error (ServerEncodeError x)" "sending_error (ServerMessageSerializationError y)"
  by (simp_all add: sending_error_def)

lemma hm_get_insert_fun: "hm_get (hm_insert k v m) = (hm_get m)(k \<mapsto> v)"
  by (auto simp: fun_eq_iff)

text \<open>The request is no longer outstanding, the others are, and the handles are the same.\<close>

definition answer_frame :: "u32 \<Rightarrow> server_session \<Rightarrow> server_session \<Rightarrow> bool" where
  "answer_frame rid s s' \<longleftrightarrow> ss_pending s' = ss_pending s \<and> ss_outstanding_requests s' = hm_remove rid (ss_outstanding_requests s)
     \<and> ss_stream_handles s' = ss_stream_handles s \<and> ss_failed s' = ss_failed s"

lemma wp_active: "\<not> ss_failed s \<Longrightarrow> wp server_ensure_active Q E s = Q () s"
  by (simp add: wp_def server_ensure_active_def)

text \<open>The two outcomes of an answer: the outputs, or an error of sending them; the state is the same in both.\<close>

definition answers_with :: "(server_session \<Rightarrow> bool) \<Rightarrow> nat \<Rightarrow> 'a list server_op \<Rightarrow> server_session \<Rightarrow> bool" where
  "answers_with P n m s \<longleftrightarrow> wp m (\<lambda>outs s'. P s' \<and> length outs = n) (\<lambda>e s'. P s' \<and> sending_error e) s"

lemma answers_send:
  assumes "\<And>t e. P (s\<lparr>ss_ticks := t, ss_serializer := e\<rparr>)" and "\<And>t. P (s\<lparr>ss_ticks := t\<rparr>)"
    and "\<And>t e p. answers_with P n (k p) (s\<lparr>ss_ticks := t, ss_serializer := e\<rparr>)"
  shows "answers_with P n (sbind (send_message env full m sid) k) s"
  unfolding answers_with_def wp_sbind by (rule wp_send_message) (use assms in \<open>auto simp: answers_with_def\<close>)

lemma answers_simps:
  "answers_with P n (sret outs) s \<longleftrightarrow> P s \<and> length outs = n"
  "answers_with P n (sbind (sget f) k) s = answers_with P n (k (f s)) s"
  "answers_with P n (sbind (smodify g) j) s = answers_with P n (j ()) (g s)"
  by (simp_all add: answers_with_def wp_simps)

lemma answers_accept:
  assumes "\<not> ss_failed s" and "hm_get (ss_outstanding_requests s) rid = Some request"
    and "\<And>sid. targets sid request \<Longrightarrow> hm_get (ss_active_streams s) sid \<noteq> None"
  shows "answers_with (\<lambda>s'. answer_frame rid s s' \<and> accepted request s s') (answer_packets request s)
    (accept_request_with_properties_inner env rid p) s"
proof -
  let ?s = "s\<lparr>ss_outstanding_requests := hm_remove rid (ss_outstanding_requests s), ss_response_encoding := request_encoding request\<rparr>"
  have "answers_with (\<lambda>s'. answer_frame rid s s' \<and> accepted request s s') (answer_packets request s) (case request of
         ConnectionRequest app_name tid encoding \<Rightarrow> accept_connection_request env app_name tid p
       | PublishRequested stream_key mode sid encoding \<Rightarrow> accept_publish_request env sid stream_key mode
       | PlayRequested stream_key sid encoding \<Rightarrow> accept_play_request env sid stream_key) ?s"
    using assms(1,3)
    by (cases request)
      (auto simp: accept_connection_request_def accept_publish_request_def accept_play_request_def answers_simps
        answer_frame_def targets_def set_stream_state_def server_state_def hm_get_insert_fun Let_def intro!: answers_send)
  then show ?thesis
    using assms(1,2) unfolding accept_request_with_properties_inner_def answers_with_def
    by (cases request) (auto simp: wp_simps request_encoding_def take_request_def set_response_encoding_def wp_active)
qed

lemma accept_outcome:
  assumes "\<not> ss_failed s" and "hm_get (ss_outstanding_requests s) rid = Some request"
    and "\<And>sid. targets sid request \<Longrightarrow> hm_get (ss_active_streams s) sid \<noteq> None"
    and "accept_request_with_properties env rid p s = (s', r)"
  shows "answer_frame rid s (s'\<lparr>ss_pending := ss_pending s\<rparr>) \<and> accepted request s s'
    \<and> (r = Inr () \<and> (\<exists>outs. ss_pending s' = ss_pending s @ outs \<and> length outs = answer_packets request s)
       \<or> (\<exists>e. r = Inl e \<and> sending_error e \<and> ss_pending s' = ss_pending s))"
proof -
  obtain s1 r1 where inner: "accept_request_with_properties_inner env rid p s = (s1, r1)"
    by fastforce
  have ans: "answer_frame rid s s1" "accepted request s s1"
      "case r1 of Inl e \<Rightarrow> sending_error e | Inr outs \<Rightarrow> length outs = answer_packets request s"
    using answers_accept [OF assms(1-3), of env p] inner by (auto simp: answers_with_def wp_def split: sum.splits)
  show ?thesis
  proof (cases r1)
    case (Inl e)
    then have "s' = s1" "r = Inl e"
      using assms(4) inner by (simp_all add: accept_request_with_properties_def sbind_def)
    with Inl ans show ?thesis
      by (simp add: answer_frame_def)
  next
    case (Inr outs)
    then have "s' = s1\<lparr>ss_pending := ss_pending s1 @ map (server_output_map_payload payload_from_bytes) outs\<rparr>" "r = Inr ()"
      using assms(4) inner
      by (simp_all add: accept_request_with_properties_def sbind_def server_extend_pending_def smodify_def)
    with Inr ans show ?thesis
      by (simp add: answer_frame_def accepted_pending)
  qed
qed

text \<open>
  C30 (functional). Accepting an outstanding request in a session that keeps the invariant, as every reachable one does, answers it once: the request is gone
  and the others remain, the connection is established or the stream publishes or plays under the requested key, the
  handles stay valid, and the response packets are queued; only encoding the response can fail. A second answer to
  the same request is refused with \<open>InvalidRequestId\<close> and changes nothing.
\<close>

theorem request_answered_once:
  assumes "server_inv s"
    and "\<not> ss_failed s" and "hm_get (ss_outstanding_requests s) rid = Some request"
    and "accept_request_with_properties env rid p s = (s', r)"
  shows "accepted request s s'
    \<and> hm_get (ss_outstanding_requests s') = (hm_get (ss_outstanding_requests s))(rid := None)
    \<and> ss_stream_handles s' = ss_stream_handles s
    \<and> (r = Inr () \<and> (\<exists>outs. ss_pending s' = ss_pending s @ outs \<and> length outs = answer_packets request s)
       \<or> (\<exists>e. r = Inl e \<and> sending_error e \<and> ss_pending s' = ss_pending s))
    \<and> accept_request env rid s' = (s', Inl InvalidRequestId)
    \<and> accept_request_with_properties env rid q s' = (s', Inl InvalidRequestId)
    \<and> reject_request env rid code description s' = (s', Inl InvalidRequestId)"
proof -
  have "requests_ok (ss_outstanding_requests s) (ss_active_streams s) (ss_session_limits s)"
    using assms(1) by (simp add: server_inv_def server_core_def)
  then have wf: "hm_wf (ss_outstanding_requests s)" and live: "\<And>sid. targets sid request \<Longrightarrow> hm_get (ss_active_streams s) sid \<noteq> None"
    using assms(3) by (auto simp: requests_ok_def request_live_def)
  have s': "answer_frame rid s (s'\<lparr>ss_pending := ss_pending s\<rparr>)" "accepted request s s'"
      "r = Inr () \<and> (\<exists>outs. ss_pending s' = ss_pending s @ outs \<and> length outs = answer_packets request s)
       \<or> (\<exists>e. r = Inl e \<and> sending_error e \<and> ss_pending s' = ss_pending s)"
    using accept_outcome [OF assms(2,3) live assms(4)] by blast+
  have gone: "hm_get (ss_outstanding_requests s') = (hm_get (ss_outstanding_requests s))(rid := None)" "\<not> ss_failed s'"
    using s'(1) assms(2) wf by (auto simp: answer_frame_def)
  then have "take_request rid (s' :: server_session) = (s', Inl InvalidRequestId)" "server_ensure_active s' = (s', Inr ())"
    by (simp_all add: take_request_def sbind_def sget_def sfail_def server_ensure_active_def)
  then have "accept_request env rid s' = (s', Inl InvalidRequestId)"
    "accept_request_with_properties env rid q s' = (s', Inl InvalidRequestId)"
    "reject_request env rid code description s' = (s', Inl InvalidRequestId)"
    by (simp_all add: accept_request_def accept_request_with_properties_def reject_request_def accept_request_inner_def
        accept_request_with_properties_inner_def reject_request_inner_def sbind_def)
  with s' gone show ?thesis
    by (auto simp: answer_frame_def)
qed

section \<open>Media of a publisher\<close>

text \<open>The stream that publishes under a message stream id, with its application and key.\<close>

definition publisher :: "server_session \<Rightarrow> u32 \<Rightarrow> (stream_handle \<times> bytes \<times> bytes) option" where
  "publisher s sid =
     (case (streams_find (ss_stream_handles s) sid, ss_connected_app_name s, publishing_key s sid) of
        (Some h, Some app, Some key) \<Rightarrow> Some (h, app, key)
      | _ \<Rightarrow> None)"

definition delivered :: "payload raw_message \<Rightarrow> stream_handle \<times> bytes \<times> bytes \<Rightarrow> payload server_event" where
  "delivered m p =
     (case p of (h, app, key) \<Rightarrow>
       let sid = rm_message_stream_id m; data = rm_data m; t = rm_timestamp m in
       if rm_type_id m = 8 then AudioDataReceived h sid app key data t
       else if rm_type_id m = 9 then VideoDataReceived h sid app key data t
       else StreamDataReceived h sid app key
         \<lparr>dm_wire_type = (if rm_type_id m = 15 then DataAmf3 else DataAmf0), dm_timestamp = t, dm_payload = data\<rparr>)"

text \<open>
  C31 (functional). Audio, video and script data of a publishing stream reach the application unchanged, under the
  handle, application and key of that stream, whatever the body is; media for any other message stream id is dropped
  without an error. Only the record of the peer's AMF3 framing changes. A stream is publishing in this sense exactly
  when the session is connected and the state of its handle is \<open>Publishing\<close>.
\<close>

theorem media_delivered:
  assumes "server_inv s"
    and "rm_type_id m \<in> {8, 9, 15, 18}"
  shows "server_process_payload env' m s =
      (s\<lparr>ss_peer_uses_amf3_framing := ss_peer_uses_amf3_framing s \<or> rm_type_id m = 15\<rparr>,
       Inr (map_option (\<lambda>p. ServerRaised (delivered m p)) (publisher s (rm_message_stream_id m))))
    \<and> ((\<exists>app key. publisher s sid = Some (h, app, key)) \<longleftrightarrow>
       ss_current_state s = SessionConnected \<and> server_stream_id s h = Some sid \<and> server_stream_state_of s h = Some ServerPublishing)"
proof
  have "server_core s"
    using assms(1) by (simp add: server_inv_def)
  then have agree: "streams_agree (ss_active_streams s) (ss_stream_handles s) (ss_next_stream_id s) (ss_session_limits s)"
    and flow: "ss_current_state s = SessionConnected \<longleftrightarrow> ss_connected_app_name s \<noteq> None"
    by (auto simp: server_core_def flow_ok_def)
  have found: "\<exists>h. streams_find (ss_stream_handles s) sid = Some h" if "publishing_key s sid = Some key" for sid key
    using publishing_active [OF that] active_find [OF agree, of sid] by auto
  show "server_process_payload env' m s =
      (s\<lparr>ss_peer_uses_amf3_framing := ss_peer_uses_amf3_framing s \<or> rm_type_id m = 15\<rparr>,
       Inr (map_option (\<lambda>p. ServerRaised (delivered m p)) (publisher s (rm_message_stream_id m))))"
    using assms(2) found [of "rm_message_stream_id m"] flow
    by (auto simp: server_process_payload_def from_type_id_def server_script_data_def audio_event_def video_event_def
        known_stream_def publisher_def delivered_def data_message_new_def sbind_def sret_def sget_def smodify_def Let_def
        publishing_key_def split: option.splits)
  have wire: "streams_find (ss_stream_handles s) sid = Some h \<longleftrightarrow> server_stream_id s h = Some sid"
    using agree by (auto simp: streams_agree_def streams_find_iff server_stream_id_def split: option.splits)
  show "(\<exists>app key. publisher s sid = Some (h, app, key)) \<longleftrightarrow>
       ss_current_state s = SessionConnected \<and> server_stream_id s h = Some sid \<and> server_stream_state_of s h = Some ServerPublishing"
    using wire flow by (auto simp: publisher_def server_stream_state_of_def publishing_key_def
        split: option.splits stream_state.splits)
qed

section \<open>Witnesses\<close>

text \<open>A connected session with one publishing stream and a request to play it.\<close>

definition sample_stream_table :: "unit streams" where
  "sample_stream_table =
     \<lparr>sm_session = 1, sm_slots = [\<lparr>sl_generation = 1, sl_entry = Some \<lparr>en_wire_id = Some 1, en_state = ()\<rparr>\<rparr>],
      sm_by_wire = [(1, sample_handle)]\<rparr>"

definition sample_publishing :: server_session where
  "sample_publishing = (server_initial sample_server_config sample_stream_table)
     \<lparr>ss_next_stream_id := 2, ss_active_streams := [(1, \<lparr>as_current_state = StreamPublishing (ascii ''key'') Live\<rparr>)],
      ss_current_state := SessionConnected, ss_connected_app_name := Some (ascii ''live''),
      ss_outstanding_requests := [(0, PlayRequested (ascii ''key'') 1 Amf0)]\<rparr>"

lemma sample_table_get: "streams_get sample_stream_table h = (if h = sample_handle then Some \<lparr>en_wire_id = Some 1, en_state = ()\<rparr> else None)"
proof (cases h)
  case (fields a b c)
  have "unat b < 1 \<longleftrightarrow> b = 0"
    by (simp add: unat_eq_zero)
  then show ?thesis
    by (auto simp: fields streams_get_alt sample_stream_table_def sample_handle_def)
qed

lemma sample_publishing_fields [simp]:
  "ss_stream_handles sample_publishing = sample_stream_table" "ss_failed sample_publishing = False"
  "ss_active_streams sample_publishing = [(1, \<lparr>as_current_state = StreamPublishing (ascii ''key'') Live\<rparr>)]"
  "ss_outstanding_requests sample_publishing = [(0, PlayRequested (ascii ''key'') 1 Amf0)]"
  "ss_next_stream_id sample_publishing = 2" "ss_current_state sample_publishing = SessionConnected"
  "ss_connected_app_name sample_publishing = Some (ascii ''live'')"
  "ss_session_limits sample_publishing = session_limits_default" "ss_peer_window_ack_size sample_publishing = None"
  "ss_self_window_ack_size sample_publishing = Some 1073741824"
  "ss_deserializer sample_publishing = decoder_with_limits decoder_limits_default"
  by (simp_all add: sample_publishing_def server_initial_def sample_server_config_def server_session_config_new_def Let_def)

lemma sample_publishing_agree:
  "streams_agree [(1, a)] sample_stream_table 2 session_limits_default"
  "requests_ok [(0, PlayRequested key 1 e)] [(1, a)] session_limits_default"
  unfolding streams_agree_def streams_wf_def requests_ok_def sample_table_get streams_find_def
  by (auto simp: sample_stream_table_def session_limits_default_def hm_get_def hm_wf_def hm_len_def request_live_def dom_def
      targets_def split: if_splits)

lemma sample_publishing_inv: "server_inv sample_publishing"
proof -
  have "md_inv (decoder_with_limits decoder_limits_default)"
    by (rule decoder_new_inv) (simp add: limits_ok_def decoder_limits_default_def usize_max_def)
  then show ?thesis
    by (auto simp: server_inv_def server_ok_def server_core_def sample_publishing_agree flow_ok_def)
qed

theorem request_answered_once_witness:
  "hm_get (ss_active_streams (fst (accept_request_with_properties sample_session_env 0 [] sample_publishing))) 1
     = Some \<lparr>as_current_state = StreamPlaying (ascii ''key'')\<rparr>
   \<and> hm_get (ss_outstanding_requests (fst (accept_request_with_properties sample_session_env 0 [] sample_publishing))) 0 = None"
proof -
  have "\<not> ss_failed sample_publishing"
    "hm_get (ss_outstanding_requests sample_publishing) 0 = Some (PlayRequested (ascii ''key'') 1 Amf0)"
    by (simp_all add: hm_get_def)
  from request_answered_once [OF sample_publishing_inv this prod.collapse [symmetric]]
  show ?thesis by simp
qed

theorem media_delivered_witness:
  "server_process_payload sample_session_env
     \<lparr>rm_timestamp = ts_new 7, rm_type_id = 8, rm_message_stream_id = 1, rm_data = payload_from_bytes [1, 2, 3]\<rparr> sample_publishing
   = (sample_publishing\<lparr>ss_peer_uses_amf3_framing := ss_peer_uses_amf3_framing sample_publishing\<rparr>,
      Inr (Some (ServerRaised (AudioDataReceived sample_handle 1 (ascii ''live'') (ascii ''key'') (payload_from_bytes [1, 2, 3]) (ts_new 7)))))"
proof -
  have p: "publisher sample_publishing 1 = Some (sample_handle, ascii ''live'', ascii ''key'')"
    by (simp add: publisher_def publishing_key_def streams_find_def sample_stream_table_def hm_get_def)
  show ?thesis
    using media_delivered [OF sample_publishing_inv, of "\<lparr>rm_timestamp = ts_new 7, rm_type_id = 8, rm_message_stream_id = 1,
        rm_data = payload_from_bytes [1, 2, 3]\<rparr>" sample_session_env 1 sample_handle]
    by (simp add: p delivered_def)
qed

section \<open>The order of the packets of a play answer\<close>

text \<open>
  \<open>accept_play_request\<close> encodes the status \<open>NetStream.Play.Reset\<close> last and queues it first. Three commands stand for
  the answer to \<open>connect\<close> on message stream 0, the status \<open>NetStream.Play.Start\<close> on message stream 1 and the status
  \<open>NetStream.Play.Reset\<close> on message stream 1, encoded in this order. Sent after the answer to \<open>connect\<close>, the compressed
  header of the last one is read against that answer: the peer takes it for a status of message stream 0.
\<close>

fun encode_commands :: "chunk_encoder \<Rightarrow> u32 list \<Rightarrow> bytes list" where
  "encode_commands e [] = []"
| "encode_commands e (sid # sids) =
     (case serialize e \<lparr>rm_timestamp = ts_new 0, rm_type_id = 20, rm_message_stream_id = sid, rm_data = [5]\<rparr> False False of
        (e', Inr p) \<Rightarrow> the (to_vec payload_ops p) # encode_commands e' sids
      | _ \<Rightarrow> [])"

fun read_streams :: "nat \<Rightarrow> message_decoder \<Rightarrow> bytes \<Rightarrow> u32 list" where
  "read_streams 0 d input = []"
| "read_streams (Suc n) d input =
     (case decode exact_env d input of
        (d', rest, Inr (Some m)) \<Rightarrow> rm_message_stream_id m # read_streams n d' rest
      | _ \<Rightarrow> [])"

lemma play_reset_on_wrong_stream:
  "case encode_commands encoder_new [0, 1, 1] of
     [connect, start, reset] \<Rightarrow> read_streams 2 decoder_new (connect @ reset) = [0, 0]
   | _ \<Rightarrow> False"
  by code_simp

end
