(* ===== verification/Client_Session.thy ===== *)
theory Client_Session
  imports Session_Values
begin

text \<open>
  The client side of a connection (\<open>src/src/sessions/client\<close>), modelled as the server side is (\<open>Server_Session\<close>):
  the record \<open>client_session\<close> is \<open>ClientSession\<close>, each method an operation of \<open>Session_Monad\<close>. Panics (\<open>expect\<close>,
  \<open>unwrap\<close>, the remainder by a zero window) are the error \<open>ClientPanic\<close>; the receive loop has fuel, and
  \<open>ClientOutOfFuel\<close> is never returned with the fuel \<open>receive\<close> gives it (\<open>Client_Invariant\<close>).
\<close>

section \<open>Data\<close>

datatype transaction_purpose = PlayRequest bytes | PublishRequest bytes publish_mode

datatype outstanding_transaction =
    ClientConnectionRequested bytes
  | CreateStream stream_handle transaction_purpose

datatype client_session_error =
    ClientLimitExceeded session_limit_error
  | ClientInvalidStreamHandle
  | ClientStreamInInvalidState stream_handle client_stream_state
  | DuplicateStreamId
  | ClientPendingOutput
  | ClientSessionFailed
  | ClientDecodeError decode_error
  | ClientEncodeError encode_error
  | ClientMessageSerializationError message_serialization_error
  | ClientMessageDeserializationError message_deserialization_error
  | CantConnectWhileAlreadyConnected
  | SessionInInvalidState connection_state
  | CreateStreamResponseHadNoStreamNumber
  | InvalidOnStatusArguments
  | ClientPanic
  | ClientOutOfFuel

record command_status =
  cst_stream_id :: "u32 option"
  cst_properties :: amf0_object

definition status_text :: "command_status \<Rightarrow> string \<Rightarrow> bytes option" where
  "status_text st key = (case map_of (cst_properties st) (ascii key) of Some (A0Utf8String x) \<Rightarrow> Some x | _ \<Rightarrow> None)"

definition status_code :: "command_status \<Rightarrow> bytes option" where
  "status_code st = status_text st ''code''"

definition status_description :: "command_status \<Rightarrow> bytes option" where
  "status_description st = status_text st ''description''"

datatype 'd client_event =
    ConnectionRequestAccepted amf0_object amf0_object
  | ConnectionRequestRejected bytes command_status
  | PlaybackRequestAccepted stream_handle command_status
  | PublishRequestAccepted stream_handle command_status
  | ClientStreamDataReceived stream_handle "'d data_message"
  | ClientVideoDataReceived stream_handle rtmp_timestamp 'd
  | ClientAudioDataReceived stream_handle rtmp_timestamp 'd
  | ClientUnhandledCommand u32 bytes f64 amf0_value "amf0_value list"
  | UnknownTransactionResultReceived f64 amf0_value "amf0_value list"
  | StatusReceived "stream_handle option" command_status
  | PlaybackRequestRejected stream_handle command_status
  | PublishRequestRejected stream_handle command_status
  | PlaybackFinished stream_handle command_status
  | PublishingFinished stream_handle command_status
  | ClientAcknowledgementReceived u32
  | ClientPingResponseReceived rtmp_timestamp

fun client_event_map_payload :: "('d \<Rightarrow> 'f) \<Rightarrow> 'd client_event \<Rightarrow> 'f client_event" where
  "client_event_map_payload f (ConnectionRequestAccepted c p) = ConnectionRequestAccepted c p"
| "client_event_map_payload f (ConnectionRequestRejected d st) = ConnectionRequestRejected d st"
| "client_event_map_payload f (PlaybackRequestAccepted h st) = PlaybackRequestAccepted h st"
| "client_event_map_payload f (PublishRequestAccepted h st) = PublishRequestAccepted h st"
| "client_event_map_payload f (ClientStreamDataReceived h m) = ClientStreamDataReceived h (dm_map_payload f m)"
| "client_event_map_payload f (ClientVideoDataReceived h t data) = ClientVideoDataReceived h t (f data)"
| "client_event_map_payload f (ClientAudioDataReceived h t data) = ClientAudioDataReceived h t (f data)"
| "client_event_map_payload f (ClientUnhandledCommand sid name tid obj args) = ClientUnhandledCommand sid name tid obj args"
| "client_event_map_payload f (UnknownTransactionResultReceived tid obj args) = UnknownTransactionResultReceived tid obj args"
| "client_event_map_payload f (StatusReceived h st) = StatusReceived h st"
| "client_event_map_payload f (PlaybackRequestRejected h st) = PlaybackRequestRejected h st"
| "client_event_map_payload f (PublishRequestRejected h st) = PublishRequestRejected h st"
| "client_event_map_payload f (PlaybackFinished h st) = PlaybackFinished h st"
| "client_event_map_payload f (PublishingFinished h st) = PublishingFinished h st"
| "client_event_map_payload f (ClientAcknowledgementReceived n) = ClientAcknowledgementReceived n"
| "client_event_map_payload f (ClientPingResponseReceived t) = ClientPingResponseReceived t"

datatype 'd client_output =
    ClientPacket "payload packet"
  | ClientRaised "'d client_event"
  | ClientUnhandledMessage "'d raw_message"

fun client_output_map_payload :: "('d \<Rightarrow> 'f) \<Rightarrow> 'd client_output \<Rightarrow> 'f client_output" where
  "client_output_map_payload f (ClientPacket p) = ClientPacket p"
| "client_output_map_payload f (ClientRaised e) = ClientRaised (client_event_map_payload f e)"
| "client_output_map_payload f (ClientUnhandledMessage m) = ClientUnhandledMessage (rm_map f m)"

record client_session_config =
  cc_flash_version :: bytes
  cc_playback_buffer_length_ms :: u32
  cc_window_ack_size :: u32
  cc_chunk_size :: u32
  cc_tc_url :: "bytes option"
  cc_object_encoding :: amf_encoding
  cc_payload_pool :: "payload_pool option"
  cc_decoder_limits :: decoder_limits
  cc_session_limits :: session_limits

definition client_session_config_new :: client_session_config where
  "client_session_config_new =
     \<lparr>cc_flash_version = ascii ''WIN 23,0,0,207'', cc_playback_buffer_length_ms = 2000, cc_window_ack_size = 2500000,
      cc_chunk_size = 4096, cc_tc_url = None, cc_object_encoding = Amf0, cc_payload_pool = None,
      cc_decoder_limits = decoder_limits_default, cc_session_limits = session_limits_default\<rparr>"

record client_session =
  cs_failed :: bool
  cs_ticks :: nat
  cs_serializer :: chunk_encoder
  cs_deserializer :: message_decoder
  cs_pending :: "payload client_output list"
  cs_config :: client_session_config
  cs_next_transaction_id :: u32
  cs_outstanding_transactions :: "(u32, outstanding_transaction) hash_map"
  cs_current_state :: connection_state
  cs_streams :: "client_stream_state streams"
  cs_connected_app_name :: "bytes option"
  cs_peer_window_ack_size :: "u32 option"
  cs_self_window_ack_size :: "u32 option"
  cs_bytes_received :: u64
  cs_bytes_received_since_last_ack :: u32
  cs_negotiated_encoding :: amf_encoding
  cs_peer_uses_amf3_framing :: bool

type_synonym 'a client_op = "(client_session, client_session_error, 'a) op"

section \<open>Creation and queries\<close>

definition client_initial :: "client_session_config \<Rightarrow> client_stream_state streams \<Rightarrow> client_session" where
  "client_initial config table =
     \<lparr>cs_failed = False, cs_ticks = 0, cs_serializer = encoder_new,
      cs_deserializer =
        (let d = decoder_with_limits (cc_decoder_limits config) in
         case cc_payload_pool config of None \<Rightarrow> d | Some pool \<Rightarrow> set_payload_pool d pool),
      cs_pending = [], cs_config = config, cs_next_transaction_id = 1, cs_outstanding_transactions = [],
      cs_current_state = Disconnected, cs_streams = table, cs_connected_app_name = None, cs_peer_window_ack_size = None,
      cs_self_window_ack_size = Some (cc_window_ack_size config), cs_bytes_received = 0,
      cs_bytes_received_since_last_ack = 0, cs_negotiated_encoding = Amf0, cs_peer_uses_amf3_framing = False\<rparr>"

definition client_new :: "u64 \<Rightarrow> client_session_config \<Rightarrow> client_session_error + client_session \<times> u64" where
  "client_new counter config =
     (if cc_window_ack_size config = 0 \<or> cc_chunk_size config = 0
      then Inl (ClientDecodeError (ResourceLimitExceeded ''client flow-control value'' 0 4294967295))
      else case streams_new counter of
          None \<Rightarrow> Inl ClientPanic
        | Some (table, counter') \<Rightarrow> Inr (client_initial config table, counter'))"

definition client_set_payload_pool :: "payload_pool \<Rightarrow> client_session \<Rightarrow> client_session" where
  "client_set_payload_pool pool s = s\<lparr>cs_deserializer := set_payload_pool (cs_deserializer s) pool\<rparr>"

definition client_stream_state_of :: "client_session \<Rightarrow> stream_handle \<Rightarrow> client_stream_state option" where
  "client_stream_state_of s h = map_option en_state (streams_get (cs_streams s) h)"

definition client_stream_id :: "client_session \<Rightarrow> stream_handle \<Rightarrow> u32 option" where
  "client_stream_id s h = (case streams_get (cs_streams s) h of None \<Rightarrow> None | Some e \<Rightarrow> en_wire_id e)"

definition client_streams :: "client_session \<Rightarrow> (stream_handle \<times> client_stream_state) list" where
  "client_streams s = map (\<lambda>(h, e). (h, en_state e)) (streams_iter (cs_streams s))"

definition client_ensure_active :: "unit client_op" where
  "client_ensure_active s = (s, if cs_failed s then Inl ClientSessionFailed else Inr ())"

definition client_ensure_output_drained :: "unit client_op" where
  "client_ensure_output_drained =
     sbind client_ensure_active (\<lambda>_. sbind (sget cs_pending) (\<lambda>pending.
       if pending = [] then sret () else sfail ClientPendingOutput))"

definition publishing_id :: "stream_handle \<Rightarrow> u32 client_op" where
  "publishing_id h =
     sbind client_ensure_active (\<lambda>_.
     sbind (sget (\<lambda>s. streams_get (cs_streams s) h)) (\<lambda>r.
       case r of
         None \<Rightarrow> sfail ClientInvalidStreamHandle
       | Some entry \<Rightarrow>
           if en_state entry \<noteq> Publishing then sfail (ClientStreamInInvalidState h (en_state entry))
           else (case en_wire_id entry of None \<Rightarrow> sfail ClientPanic | Some sid \<Rightarrow> sret sid)))"

section \<open>Outbound messages\<close>

definition client_get_epoch :: "session_env \<Rightarrow> rtmp_timestamp client_op" where
  "client_get_epoch env s = (s\<lparr>cs_ticks := Suc (cs_ticks s)\<rparr>, Inr (ts_new (se_clock env (cs_ticks s))))"

definition client_serialize :: "bytes raw_message \<Rightarrow> payload packet client_op" where
  "client_serialize m s =
     (case serialize (cs_serializer s) m False False of
        (e, r) \<Rightarrow> (s\<lparr>cs_serializer := e\<rparr>, map_error ClientEncodeError r))"

definition client_encode :: "payload raw_message \<Rightarrow> encode_options \<Rightarrow> payload packet client_op" where
  "client_encode m options s =
     (case encode payload_ops (cs_serializer s) m options of
        (e, r) \<Rightarrow> (s\<lparr>cs_serializer := e\<rparr>, map_error ClientEncodeError r))"

definition client_set_chunk_size :: "u32 \<Rightarrow> rtmp_timestamp \<Rightarrow> payload packet client_op" where
  "client_set_chunk_size n t s =
     (case encoder_set_chunk_size (cs_serializer s) n t of
        (e, r) \<Rightarrow> (s\<lparr>cs_serializer := e\<rparr>, map_error ClientEncodeError r))"

text \<open>\<open>message.into_raw_message(self.get_epoch(), id)?; self.serializer.serialize(&payload, false, false)?\<close>\<close>

definition client_send :: "session_env \<Rightarrow> message \<Rightarrow> u32 \<Rightarrow> payload packet client_op" where
  "client_send env m sid =
     sbind (client_get_epoch env) (\<lambda>t.
     sbind (slift (map_error ClientMessageSerializationError (from_rtmp_message (se_insert env) m t sid)))
       client_serialize)"

definition get_next_transaction_id :: "u32 client_op" where
  "get_next_transaction_id s =
     (s\<lparr>cs_next_transaction_id := cs_next_transaction_id s + 1\<rparr>, Inr (cs_next_transaction_id s))"

definition client_check_requests :: "unit client_op" where
  "client_check_requests =
     sbind (sget (\<lambda>s. check_requests (cc_session_limits (cs_config s)) (hm_len (cs_outstanding_transactions s)))) (\<lambda>r.
       slift (map_error ClientLimitExceeded r))"

definition push_pending :: "payload client_output \<Rightarrow> unit client_op" where
  "push_pending out = smodify (\<lambda>s. s\<lparr>cs_pending := cs_pending s @ [out]\<rparr>)"

definition insert_transaction :: "u32 \<Rightarrow> outstanding_transaction \<Rightarrow> unit client_op" where
  "insert_transaction tid t =
     smodify (\<lambda>s. s\<lparr>cs_outstanding_transactions := hm_insert tid t (cs_outstanding_transactions s)\<rparr>)"

definition delete_packet :: "session_env \<Rightarrow> u32 \<Rightarrow> payload packet client_op" where
  "delete_packet env sid =
     client_send env (Amf0Command (ascii ''deleteStream'') 0 A0Null [A0Number (u32_to_f64 sid)]) 0"

section \<open>Requests of the application\<close>

definition request_connection_with_properties_inner ::
    "session_env \<Rightarrow> bytes \<Rightarrow> amf0_object \<Rightarrow> bytes client_output client_op" where
  "request_connection_with_properties_inner env app_name extra_properties =
     sbind client_ensure_active (\<lambda>_.
     sbind (sget cs_current_state) (\<lambda>state.
       if state \<noteq> Disconnected then sfail CantConnectWhileAlreadyConnected
       else
         sbind client_check_requests (\<lambda>_.
         sbind get_next_transaction_id (\<lambda>tid.
         sbind (sget cs_config) (\<lambda>config.
           let ins = se_insert env;
               p1 = ins (ascii ''app'') (A0Utf8String app_name) extra_properties;
               p2 = ins (ascii ''flashVer'') (A0Utf8String (cc_flash_version config)) p1;
               p3 = ins (ascii ''objectEncoding'') (A0Number (as_object_encoding (cc_object_encoding config))) p2;
               p4 = (case cc_tc_url config of None \<Rightarrow> p3 | Some url \<Rightarrow> ins (ascii ''tcUrl'') (A0Utf8String url) p3)
           in sbind (client_send env (Amf0Command (ascii ''connect'') (u32_to_f64 tid) (A0Object p4) []) 0) (\<lambda>packet.
              sbind (insert_transaction tid (ClientConnectionRequested app_name)) (\<lambda>_.
              sbind (smodify (\<lambda>s. s\<lparr>cs_current_state := Connecting\<rparr>)) (\<lambda>_.
                sret (ClientPacket packet)))))))))"

definition request_connection_inner :: "session_env \<Rightarrow> bytes \<Rightarrow> bytes client_output client_op" where
  "request_connection_inner env app_name =
     sbind client_ensure_active (\<lambda>_. request_connection_with_properties_inner env app_name [])"

definition client_connect :: "session_env \<Rightarrow> bytes \<Rightarrow> unit client_op" where
  "client_connect env app_name =
     sbind (request_connection_inner env app_name)
       (\<lambda>out. push_pending (client_output_map_payload payload_from_bytes out))"

definition connect_with_properties :: "session_env \<Rightarrow> bytes \<Rightarrow> amf0_object \<Rightarrow> unit client_op" where
  "connect_with_properties env app_name extra_properties =
     sbind (request_connection_with_properties_inner env app_name extra_properties)
       (\<lambda>out. push_pending (client_output_map_payload payload_from_bytes out))"

definition create_stream :: "session_env \<Rightarrow> transaction_purpose \<Rightarrow> stream_handle client_op" where
  "create_stream env purpose =
     sbind client_ensure_active (\<lambda>_.
     sbind (sget (\<lambda>s. s)) (\<lambda>s.
       if cs_current_state s \<noteq> Connected then sfail (SessionInInvalidState (cs_current_state s))
       else
         sbind (slift (map_error ClientLimitExceeded
           (check_streams (cc_session_limits (cs_config s)) (length (streams_iter (cs_streams s)))))) (\<lambda>_.
         sbind client_check_requests (\<lambda>_.
         sbind get_next_transaction_id (\<lambda>tid.
         sbind (client_send env (Amf0Command (ascii ''createStream'') (u32_to_f64 tid) A0Null []) 0) (\<lambda>packet.
         sbind (sget (\<lambda>s. streams_insert Creating None (cs_streams s))) (\<lambda>r.
           case r of
             None \<Rightarrow> sfail ClientPanic
           | Some (table, h) \<Rightarrow>
               sbind (smodify (\<lambda>s. s\<lparr>cs_streams := table\<rparr>)) (\<lambda>_.
               sbind (insert_transaction tid (CreateStream h purpose)) (\<lambda>_.
               sbind (push_pending (ClientPacket packet)) (\<lambda>_.
                 sret h))))))))))"

definition client_play :: "session_env \<Rightarrow> bytes \<Rightarrow> stream_handle client_op" where
  "client_play env stream_key = create_stream env (PlayRequest stream_key)"

definition client_publish :: "session_env \<Rightarrow> bytes \<Rightarrow> publish_mode \<Rightarrow> stream_handle client_op" where
  "client_publish env stream_key mode = create_stream env (PublishRequest stream_key mode)"

definition remove_stream :: "stream_handle \<Rightarrow> client_stream_state entry option client_op" where
  "remove_stream h s = (case streams_remove h (cs_streams s) of (table, r) \<Rightarrow> (s\<lparr>cs_streams := table\<rparr>, Inr r))"

definition delete_stream :: "session_env \<Rightarrow> stream_handle \<Rightarrow> unit client_op" where
  "delete_stream env h =
     sbind client_ensure_active (\<lambda>_.
     sbind (sget (\<lambda>s. streams_get (cs_streams s) h)) (\<lambda>r.
       case r of
         None \<Rightarrow> sfail ClientInvalidStreamHandle
       | Some entry \<Rightarrow>
           sbind (case en_wire_id entry of
               None \<Rightarrow> sret None
             | Some wire \<Rightarrow> sbind (delete_packet env wire) (\<lambda>p. sret (Some p))) (\<lambda>packet.
           sbind (remove_stream h) (\<lambda>_.
             case packet of None \<Rightarrow> sret () | Some p \<Rightarrow> push_pending (ClientPacket p)))))"


section \<open>Handlers of commands\<close>

text \<open>\<open>streams.get_mut(stream).unwrap().state = state\<close>.\<close>

definition set_state :: "stream_handle \<Rightarrow> client_stream_state \<Rightarrow> unit client_op" where
  "set_state h state =
     sbind (sget (\<lambda>s. streams_get_mut h (\<lambda>e. e\<lparr>en_state := state\<rparr>) (cs_streams s))) (\<lambda>r.
       case r of None \<Rightarrow> sfail ClientPanic | Some table \<Rightarrow> smodify (\<lambda>s. s\<lparr>cs_streams := table\<rparr>))"

definition bind_stream :: "stream_handle \<Rightarrow> u32 \<Rightarrow> unit client_op" where
  "bind_stream h sid =
     sbind (sget (\<lambda>s. streams_bind h sid (cs_streams s))) (\<lambda>r.
       case r of None \<Rightarrow> sfail ClientPanic | Some table \<Rightarrow> smodify (\<lambda>s. s\<lparr>cs_streams := table\<rparr>))"

definition take_transaction :: "f64 \<Rightarrow> outstanding_transaction option client_op" where
  "take_transaction tid =
     sbind (sget (\<lambda>s. hm_get (cs_outstanding_transactions s) (f64_to_u32 tid))) (\<lambda>r.
     sbind (smodify (\<lambda>s. s\<lparr>cs_outstanding_transactions := hm_remove (f64_to_u32 tid) (cs_outstanding_transactions s)\<rparr>)) (\<lambda>_.
       sret r))"

definition first_properties :: "amf0_value list \<Rightarrow> amf0_object option" where
  "first_properties args = (case args of [] \<Rightarrow> None | v # _ \<Rightarrow> amf0_get_object_properties v)"

definition handle_amf0_command_failed_result ::
    "f64 \<Rightarrow> amf0_value \<Rightarrow> amf0_value list \<Rightarrow> bytes client_output list client_op" where
  "handle_amf0_command_failed_result tid obj args =
     sbind (take_transaction tid) (\<lambda>r.
       let properties = (case first_properties args of None \<Rightarrow> [] | Some p \<Rightarrow> p);
           status = \<lparr>cst_stream_id = None, cst_properties = properties\<rparr>
       in case r of
            None \<Rightarrow> sret [ClientRaised (UnknownTransactionResultReceived tid obj args)]
          | Some (ClientConnectionRequested _) \<Rightarrow>
              sbind (smodify (\<lambda>s. s\<lparr>cs_current_state := Disconnected\<rparr>)) (\<lambda>_.
                sret [ClientRaised (ConnectionRequestRejected (case status_description status of None \<Rightarrow> [] | Some d \<Rightarrow> d) status)])
          | Some (CreateStream h purpose) \<Rightarrow>
              sbind (remove_stream h) (\<lambda>removed.
                if removed = None then sret []
                else case purpose of
                    PlayRequest _ \<Rightarrow> sret [ClientRaised (PlaybackRequestRejected h status)]
                  | PublishRequest _ _ \<Rightarrow> sret [ClientRaised (PublishRequestRejected h status)]))"

definition connection_accepted ::
    "session_env \<Rightarrow> bytes \<Rightarrow> amf0_value \<Rightarrow> amf0_value list \<Rightarrow> bytes client_output list client_op" where
  "connection_accepted env app_name obj args =
     sbind (smodify (\<lambda>s. s\<lparr>cs_current_state := Connected, cs_connected_app_name := Some app_name\<rparr>)) (\<lambda>_.
     sbind (sget cs_config) (\<lambda>config.
     sbind (client_send env (WindowAcknowledgement (cc_window_ack_size config)) 0) (\<lambda>packet.
       let command_object = (case obj of A0Object p \<Rightarrow> p | _ \<Rightarrow> []);
           additional_properties = (case first_properties args of None \<Rightarrow> [] | Some p \<Rightarrow> p);
           answered = (case Option.bind (map_of additional_properties (ascii ''objectEncoding'')) amf0_get_number of
               None \<Rightarrow> Amf0
             | Some x \<Rightarrow> from_object_encoding x)
       in sbind (smodify (\<lambda>s. s\<lparr>cs_negotiated_encoding := negotiate answered (cc_object_encoding config)\<rparr>)) (\<lambda>_.
          sbind (client_set_chunk_size (cc_chunk_size config) (ts_new 0)) (\<lambda>chunk_size_packet.
            sret [ClientPacket packet, ClientRaised (ConnectionRequestAccepted command_object additional_properties),
                  ClientPacket chunk_size_packet])))))"

text \<open>The message stream id of a \<open>createStream\<close> result: a finite integral number between 1 and \<open>u32::MAX\<close>.\<close>

definition stream_number :: "amf0_value list \<Rightarrow> u32 option" where
  "stream_number args =
     (case args of
        A0Number x # _ \<Rightarrow>
          (case f64_integral x of
             Some i \<Rightarrow> if 1 \<le> i \<and> i \<le> 4294967295 then Some (f64_to_u32 x) else None
           | None \<Rightarrow> None)
      | _ \<Rightarrow> None)"

definition publish_mode_name :: "publish_mode \<Rightarrow> bytes" where
  "publish_mode_name mode = ascii (case mode of Live \<Rightarrow> ''live'' | Record \<Rightarrow> ''record'' | Append \<Rightarrow> ''append'')"

definition stream_created ::
    "session_env \<Rightarrow> stream_handle \<Rightarrow> transaction_purpose \<Rightarrow> amf0_value list \<Rightarrow> bytes client_output list client_op" where
  "stream_created env h purpose args =
     (case stream_number args of
        None \<Rightarrow> sfail CreateStreamResponseHadNoStreamNumber
      | Some sid \<Rightarrow>
          sbind (sget cs_streams) (\<lambda>table.
            if streams_find table sid \<noteq> None then sfail DuplicateStreamId
            else if streams_get table h = None then
              sbind (delete_packet env sid) (\<lambda>packet. sret [ClientPacket packet])
            else
              sbind (bind_stream h sid) (\<lambda>_.
                case purpose of
                  PlayRequest stream_key \<Rightarrow>
                    sbind (set_state h StartingPlayback) (\<lambda>_.
                    sbind (sget (\<lambda>s. cc_playback_buffer_length_ms (cs_config s))) (\<lambda>buffer_length.
                    sbind (client_send env (UserControl SetBufferLength (Some sid) (Some buffer_length) None) 0) (\<lambda>buffer_packet.
                    sbind (client_send env (Amf0Command (ascii ''play'') 0 A0Null
                        [A0Utf8String stream_key, A0Number (f64_of_int (- 2))]) sid) (\<lambda>play_packet.
                      sret [ClientPacket buffer_packet, ClientPacket play_packet]))))
                | PublishRequest stream_key request_type \<Rightarrow>
                    sbind (set_state h StartingPublish) (\<lambda>_.
                    sbind (client_send env (Amf0Command (ascii ''publish'') 0 A0Null
                        [A0Utf8String stream_key, A0Utf8String (publish_mode_name request_type)]) sid) (\<lambda>publish_packet.
                      sret [ClientPacket publish_packet])))))"

definition handle_amf0_command_success_result ::
    "session_env \<Rightarrow> f64 \<Rightarrow> amf0_value \<Rightarrow> amf0_value list \<Rightarrow> bytes client_output list client_op" where
  "handle_amf0_command_success_result env tid obj args =
     sbind (take_transaction tid) (\<lambda>r.
       case r of
         None \<Rightarrow> sret [ClientRaised (UnknownTransactionResultReceived tid obj args)]
       | Some (ClientConnectionRequested app_name) \<Rightarrow> connection_accepted env app_name obj args
       | Some (CreateStream h purpose) \<Rightarrow> stream_created env h purpose args)"

text \<open>What a status means for a stream: a new state, the end of the stream, or nothing.\<close>

datatype status_effect =
    Advance client_stream_state "bytes client_event"
  | Finish "bytes client_event"
  | Report

definition status_effect_of :: "client_stream_state \<Rightarrow> stream_handle \<Rightarrow> bytes \<Rightarrow> command_status \<Rightarrow> status_effect" where
  "status_effect_of state h code status =
     (if code = ascii ''NetStream.Play.Start'' \<and> state = StartingPlayback
      then Advance Playing (PlaybackRequestAccepted h status)
      else if code = ascii ''NetStream.Publish.Start'' \<and> state = StartingPublish
      then Advance Publishing (PublishRequestAccepted h status)
      else if code \<in> ascii ` {''NetStream.Play.StreamNotFound'', ''NetStream.Play.Failed'',
          ''NetStream.Play.FileStructureInvalid'', ''NetStream.Play.NoSupportedTrackFound''} \<and> state = StartingPlayback
      then Finish (PlaybackRequestRejected h status)
      else if code \<in> ascii ` {''NetStream.Publish.BadName'', ''NetStream.Publish.Denied'', ''NetStream.Publish.Failed''}
          \<and> state = StartingPublish
      then Finish (PublishRequestRejected h status)
      else if code \<in> ascii ` {''NetStream.Play.Complete'', ''NetStream.Play.Stop''} \<and> state \<in> {Playing, StartingPlayback}
      then Finish (PlaybackFinished h status)
      else if code \<in> ascii ` {''NetStream.Unpublish.Success'', ''NetStream.Publish.Stop''} \<and> state \<in> {Publishing, StartingPublish}
      then Finish (PublishingFinished h status)
      else if status_text status ''level'' = Some (ascii ''error'') \<and> state = StartingPlayback
      then Finish (PlaybackRequestRejected h status)
      else if status_text status ''level'' = Some (ascii ''error'') \<and> state = StartingPublish
      then Finish (PublishRequestRejected h status)
      else Report)"

definition handle_on_status_command ::
    "session_env \<Rightarrow> u32 \<Rightarrow> amf0_value list \<Rightarrow> bytes client_output list client_op" where
  "handle_on_status_command env sid arguments =
     (case first_properties arguments of
        None \<Rightarrow> sfail InvalidOnStatusArguments
      | Some properties \<Rightarrow>
          let status = \<lparr>cst_stream_id = Some sid, cst_properties = properties\<rparr> in
          (case status_code status of
             None \<Rightarrow> sfail InvalidOnStatusArguments
           | Some code \<Rightarrow>
               sbind (sget cs_streams) (\<lambda>table.
                 case streams_find table sid of
                   None \<Rightarrow> sret [ClientRaised (StatusReceived None status)]
                 | Some h \<Rightarrow>
                     (case streams_get table h of
                        None \<Rightarrow> sfail ClientPanic
                      | Some entry \<Rightarrow>
                          (case status_effect_of (en_state entry) h code status of
                             Advance state event \<Rightarrow> sbind (set_state h state) (\<lambda>_. sret [ClientRaised event])
                           | Finish event \<Rightarrow>
                               sbind (delete_packet env sid) (\<lambda>packet.
                               sbind (remove_stream h) (\<lambda>_.
                                 sret [ClientPacket packet, ClientRaised event]))
                           | Report \<Rightarrow> sret [ClientRaised (StatusReceived (Some h) status)])))))"

definition client_handle_amf0_command ::
    "session_env \<Rightarrow> u32 \<Rightarrow> bytes \<Rightarrow> f64 \<Rightarrow> amf0_value \<Rightarrow> amf0_value list \<Rightarrow> bytes client_output list client_op" where
  "client_handle_amf0_command env sid name tid obj args =
     (if name = ascii ''_result'' then handle_amf0_command_success_result env tid obj args
      else if name = ascii ''_error'' then handle_amf0_command_failed_result tid obj args
      else if name = ascii ''onStatus'' then handle_on_status_command env sid args
      else sret [ClientRaised (ClientUnhandledCommand sid name tid obj args)])"

section \<open>Media and control messages\<close>

definition media_event :: "u32 \<Rightarrow> 'd \<Rightarrow> rtmp_timestamp \<Rightarrow> bool \<Rightarrow> client_session \<Rightarrow> 'd client_event option" where
  "media_event sid data timestamp video s =
     (case streams_find (cs_streams s) sid of
        None \<Rightarrow> None
      | Some h \<Rightarrow>
          (case streams_get (cs_streams s) h of
             None \<Rightarrow> None
           | Some entry \<Rightarrow>
               if en_state entry \<noteq> StartingPlayback \<and> en_state entry \<noteq> Playing then None
               else Some (if video then ClientVideoDataReceived h timestamp data else ClientAudioDataReceived h timestamp data)))"

definition client_handle_user_control ::
    "session_env \<Rightarrow> user_control_event_type \<Rightarrow> rtmp_timestamp option \<Rightarrow> bytes client_output list client_op" where
  "client_handle_user_control env event_type timestamp =
     (if event_type = PingRequest then
        sbind (client_send env (UserControl PingResponse None None timestamp) 0) (\<lambda>p. sret [ClientPacket p])
      else if event_type = PingResponse then
        sret [ClientRaised (ClientPingResponseReceived (case timestamp of Some t \<Rightarrow> t | None \<Rightarrow> ts_new 0))]
      else sret [])"

definition handle_window_ack_size :: "u32 \<Rightarrow> bytes client_output list client_op" where
  "handle_window_ack_size n =
     (if n = 0 then sfail (ClientDecodeError (ResourceLimitExceeded ''acknowledgement window'' 0 4294967295))
      else sbind (smodify (\<lambda>s. s\<lparr>cs_peer_window_ack_size := Some n\<rparr>)) (\<lambda>_. sret []))"

definition client_handle_set_chunk_size :: "u32 \<Rightarrow> bytes client_output list client_op" where
  "client_handle_set_chunk_size n =
     sbind (sget (\<lambda>s. decoder_set_chunk_size (cs_deserializer s) (unat n))) (\<lambda>r.
     sbind (slift (map_error ClientDecodeError r)) (\<lambda>d.
     sbind (smodify (\<lambda>s. s\<lparr>cs_deserializer := d\<rparr>)) (\<lambda>_. sret [])))"

definition client_handle_abort :: "u32 \<Rightarrow> bytes client_output list client_op" where
  "client_handle_abort cid =
     sbind (sget (\<lambda>s. decoder_abort_chunk_stream (cs_deserializer s) cid)) (\<lambda>r.
       case r of
         None \<Rightarrow> sfail ClientPanic
       | Some d \<Rightarrow> sbind (smodify (\<lambda>s. s\<lparr>cs_deserializer := d\<rparr>)) (\<lambda>_. sret []))"

definition client_raise_option :: "'d client_event option \<Rightarrow> 'd client_output list" where
  "client_raise_option e = (case e of None \<Rightarrow> [] | Some x \<Rightarrow> [ClientRaised x])"

definition client_handle_message :: "session_env \<Rightarrow> bytes raw_message \<Rightarrow> bytes client_output list client_op" where
  "client_handle_message env payload =
     sbind (slift (map_error ClientMessageDeserializationError (to_rtmp_message (se_insert env) (se_sizes env) payload)))
       (\<lambda>message.
          let sid = rm_message_stream_id payload in
          case message of
            Abort cid \<Rightarrow> client_handle_abort cid
          | Acknowledgement n \<Rightarrow> sret [ClientRaised (ClientAcknowledgementReceived n)]
          | Amf0Command name tid obj args \<Rightarrow> client_handle_amf0_command env sid name tid obj args
          | Amf3Command name tid obj args format \<Rightarrow>
              sbind (smodify (\<lambda>s. s\<lparr>cs_peer_uses_amf3_framing := True\<rparr>)) (\<lambda>_.
                client_handle_amf0_command env sid name tid (to_amf0 (se_insert env) obj)
                  (map (to_amf0 (se_insert env)) args))
          | AudioData data \<Rightarrow>
              sbind (sget (media_event sid data (rm_timestamp payload) False)) (\<lambda>e. sret (client_raise_option e))
          | VideoData data \<Rightarrow>
              sbind (sget (media_event sid data (rm_timestamp payload) True)) (\<lambda>e. sret (client_raise_option e))
          | UserControl event_type stream_id buffer_length timestamp \<Rightarrow> client_handle_user_control env event_type timestamp
          | WindowAcknowledgement n \<Rightarrow> handle_window_ack_size n
          | SetChunkSize n \<Rightarrow> client_handle_set_chunk_size n
          | _ \<Rightarrow> sret [ClientUnhandledMessage payload])"

section \<open>Receiving\<close>

definition client_pop_pending :: "payload client_output option client_op" where
  "client_pop_pending s =
     (case cs_pending s of [] \<Rightarrow> (s, Inr None) | o1 # rest \<Rightarrow> (s\<lparr>cs_pending := rest\<rparr>, Inr (Some o1)))"

definition client_extend_pending :: "bytes client_output list \<Rightarrow> unit client_op" where
  "client_extend_pending outputs =
     smodify (\<lambda>s. s\<lparr>cs_pending := cs_pending s @ map (client_output_map_payload payload_from_bytes) outputs\<rparr>)"

definition client_script_data :: "data_message_type \<Rightarrow> payload raw_message \<Rightarrow> payload client_output option client_op" where
  "client_script_data wire_type payload =
     sbind (smodify (\<lambda>s. if wire_type = DataAmf3 then s\<lparr>cs_peer_uses_amf3_framing := True\<rparr> else s)) (\<lambda>_.
     sbind (sget (\<lambda>s. streams_find (cs_streams s) (rm_message_stream_id payload))) (\<lambda>r.
       case r of
         None \<Rightarrow> sret None
       | Some h \<Rightarrow>
           sret (Some (ClientRaised (ClientStreamDataReceived h
             (data_message_new wire_type (rm_timestamp payload) (rm_data payload)))))))"

definition client_process_payload :: "session_env \<Rightarrow> payload raw_message \<Rightarrow> payload client_output option client_op" where
  "client_process_payload env payload =
     (case from_type_id (rm_type_id payload) of
        Some wire_type \<Rightarrow> client_script_data wire_type payload
      | None \<Rightarrow>
          if rm_type_id payload = 8 then
            sbind (sget (media_event (rm_message_stream_id payload) (rm_data payload) (rm_timestamp payload) False))
              (\<lambda>e. sret (map_option ClientRaised e))
          else if rm_type_id payload = 9 then
            sbind (sget (media_event (rm_message_stream_id payload) (rm_data payload) (rm_timestamp payload) True))
              (\<lambda>e. sret (map_option ClientRaised e))
          else if \<not> (1 \<le> rm_type_id payload \<and> rm_type_id payload \<le> 6 \<or> rm_type_id payload = 17 \<or> rm_type_id payload = 20)
          then sret (Some (ClientUnhandledMessage payload))
          else
            sbind (client_handle_message env (rm_map payload_into_bytes payload)) (\<lambda>outputs.
            sbind (client_extend_pending outputs) (\<lambda>_. client_pop_pending)))"

definition client_decode :: "session_env \<Rightarrow> bytes \<Rightarrow> (payload raw_message option \<times> bytes) client_op" where
  "client_decode env input s =
     (case decode (se_decoder env) (cs_deserializer s) input of
        (d, rest, r) \<Rightarrow>
          (s\<lparr>cs_deserializer := d\<rparr>,
           case r of Inl e \<Rightarrow> Inl (ClientDecodeError e) | Inr m \<Rightarrow> Inr (m, rest)))"

definition client_window :: "client_session \<Rightarrow> u32 option" where
  "client_window s = (case cs_peer_window_ack_size s of Some n \<Rightarrow> Some n | None \<Rightarrow> cs_self_window_ack_size s)"

definition client_account :: "session_env \<Rightarrow> nat \<Rightarrow> unit client_op" where
  "client_account env consumed =
     sbind (smodify (\<lambda>s. s\<lparr>cs_bytes_received := cs_bytes_received s + word_of_nat consumed\<rparr>)) (\<lambda>_.
     sbind (sget client_window) (\<lambda>window.
       case window of
         None \<Rightarrow> sret ()
       | Some n \<Rightarrow>
           sbind (smodify (\<lambda>s. s\<lparr>cs_bytes_received_since_last_ack :=
             cs_bytes_received_since_last_ack s + word_of_nat consumed\<rparr>)) (\<lambda>_.
           sbind (sget (\<lambda>s. s)) (\<lambda>s.
             if cs_bytes_received_since_last_ack s \<ge> n then
               sbind (client_send env (Acknowledgement (ucast (cs_bytes_received s))) 0) (\<lambda>packet.
               if n = 0 then sfail ClientPanic
               else smodify (\<lambda>s. s\<lparr>cs_bytes_received_since_last_ack := cs_bytes_received_since_last_ack s mod n,
                                  cs_pending := cs_pending s @ [ClientPacket packet]\<rparr>))
             else sret ()))))"

definition client_dispatch :: "session_env \<Rightarrow> payload raw_message \<Rightarrow> payload client_output option client_op" where
  "client_dispatch env payload =
     sbind client_pop_pending (\<lambda>acknowledgement.
     sbind (client_process_payload env payload) (\<lambda>out.
       case acknowledgement of
         Some ack \<Rightarrow>
           sbind (case out of None \<Rightarrow> sret () | Some x \<Rightarrow> smodify (\<lambda>s. s\<lparr>cs_pending := x # cs_pending s\<rparr>)) (\<lambda>_.
             sret (Some ack))
       | None \<Rightarrow> sret out))"

fun client_receive_loop ::
    "session_env \<Rightarrow> nat \<Rightarrow> bytes \<Rightarrow> (payload client_output option \<times> bytes) client_op" where
  "client_receive_loop env 0 input = sfail ClientOutOfFuel"
| "client_receive_loop env (Suc fuel) input =
     sbind (client_decode env input) (\<lambda>(payload, rest).
     sbind (client_account env (length input - length rest)) (\<lambda>_.
       case payload of
         None \<Rightarrow> sbind client_pop_pending (\<lambda>out. sret (out, rest))
       | Some payload \<Rightarrow>
           sbind (client_dispatch env payload) (\<lambda>out.
             if out \<noteq> None then sret (out, rest) else client_receive_loop env fuel rest)))"

definition client_receive_inner :: "session_env \<Rightarrow> bytes \<Rightarrow> (payload client_output option \<times> bytes) client_op" where
  "client_receive_inner env input =
     sbind client_pop_pending (\<lambda>out.
       if out \<noteq> None then sret (out, input) else client_receive_loop env (length input + 2) input)"

definition client_receive :: "session_env \<Rightarrow> bytes \<Rightarrow> (payload client_output option \<times> bytes) client_op" where
  "client_receive env input =
     sbind client_ensure_active (\<lambda>_ s.
       case client_receive_inner env input s of
         (s', Inl e) \<Rightarrow> (s'\<lparr>cs_failed := True, cs_current_state := Failed, cs_pending := []\<rparr>, Inl e)
       | (s', Inr r) \<Rightarrow> (s', Inr r))"

section \<open>Sending\<close>

definition client_send_ping_request :: "session_env \<Rightarrow> (payload packet \<times> rtmp_timestamp) client_op" where
  "client_send_ping_request env =
     sbind client_ensure_output_drained (\<lambda>_.
     sbind client_ensure_active (\<lambda>_.
     sbind (client_get_epoch env) (\<lambda>current_epoch.
     sbind (client_send env (UserControl PingRequest None None (Some current_epoch)) 0) (\<lambda>packet.
       sret (packet, current_epoch)))))"

definition publish_metadata_inner :: "session_env \<Rightarrow> stream_handle \<Rightarrow> stream_metadata \<Rightarrow> payload packet client_op" where
  "publish_metadata_inner env h m =
     sbind client_ensure_active (\<lambda>_.
     sbind (publishing_id h) (\<lambda>sid.
       client_send env (Amf0Data [A0Utf8String (ascii ''@setDataFrame''), A0Utf8String (ascii ''onMetaData''),
         A0Object (client_metadata_properties (se_insert env) m)]) sid))"

definition client_send_metadata :: "session_env \<Rightarrow> stream_handle \<Rightarrow> stream_metadata \<Rightarrow> payload packet client_op" where
  "client_send_metadata env h m = sbind client_ensure_output_drained (\<lambda>_. publish_metadata_inner env h m)"

definition client_media_packet ::
    "stream_handle \<Rightarrow> u8 \<Rightarrow> rtmp_timestamp \<Rightarrow> payload \<Rightarrow> encode_options \<Rightarrow> payload packet client_op" where
  "client_media_packet h kind timestamp data options =
     sbind client_ensure_output_drained (\<lambda>_.
     sbind client_ensure_active (\<lambda>_.
     sbind (publishing_id h) (\<lambda>sid.
       client_encode \<lparr>rm_timestamp = timestamp, rm_type_id = kind, rm_message_stream_id = sid, rm_data = data\<rparr> options)))"

definition client_send_audio ::
    "stream_handle \<Rightarrow> payload \<Rightarrow> rtmp_timestamp \<Rightarrow> drop_policy \<Rightarrow> payload packet client_op" where
  "client_send_audio h data timestamp policy =
     client_media_packet h 8 timestamp data (encode_options_default\<lparr>eo_drop_policy := policy\<rparr>)"

definition client_send_video ::
    "stream_handle \<Rightarrow> payload \<Rightarrow> rtmp_timestamp \<Rightarrow> drop_policy \<Rightarrow> payload packet client_op" where
  "client_send_video h data timestamp policy =
     client_media_packet h 9 timestamp data (encode_options_default\<lparr>eo_drop_policy := policy\<rparr>)"

definition client_send_data :: "stream_handle \<Rightarrow> payload data_message \<Rightarrow> payload packet client_op" where
  "client_send_data h m =
     client_media_packet h (data_type_id (dm_wire_type m)) (dm_timestamp m) (dm_payload m) encode_options_default"

end
