(* ===== verification/Client_Invariant.thy ===== *)
theory Client_Invariant
  imports Client_Session Session_Loop
begin

text \<open>
  The invariant of the client session, that every operation keeps it, and that a stream only moves forward in its
  life: created, started, running, deleted. From it: no operation panics and the receive loop ends.
\<close>

section \<open>The life of a stream\<close>

definition stage :: "client_stream_state \<Rightarrow> client_stream_state \<Rightarrow> bool" where
  "stage a b \<longleftrightarrow> a = b \<or> a = Creating \<or> a = StartingPlayback \<and> b = Playing \<or> a = StartingPublish \<and> b = Publishing"

definition entry_le :: "client_stream_state entry \<Rightarrow> client_stream_state entry \<Rightarrow> bool" where
  "entry_le a b \<longleftrightarrow> stage (en_state a) (en_state b) \<and> (en_wire_id a \<noteq> None \<longrightarrow> en_wire_id b = en_wire_id a)"

definition table_le :: "client_stream_state streams \<Rightarrow> client_stream_state streams \<Rightarrow> bool" where
  "table_le t u \<longleftrightarrow> (\<forall>h. issued t h \<longrightarrow> issued u h
     \<and> (\<forall>e. streams_get u h = Some e \<longrightarrow> (\<exists>d. streams_get t h = Some d \<and> entry_le d e)))"

lemma stage_trans: "stage a b \<Longrightarrow> stage b c \<Longrightarrow> stage a c"
  by (auto simp: stage_def)

lemma stage_refl [simp]: "stage a a" "entry_le e e"
  by (simp_all add: stage_def entry_le_def)

lemma table_le_refl [simp]: "table_le t t"
  by (auto simp: table_le_def)

lemma entry_le_trans: "entry_le a b \<Longrightarrow> entry_le b c \<Longrightarrow> entry_le a c"
  using stage_trans by (auto simp: entry_le_def)

lemma table_le_trans: "table_le t u \<Longrightarrow> table_le u v \<Longrightarrow> table_le t v"
  unfolding table_le_def by (meson entry_le_trans)

section \<open>The invariant\<close>

text \<open>A stream has a message stream id once the server created it.\<close>

definition table_ok :: "client_stream_state streams \<Rightarrow> bool" where
  "table_ok t \<longleftrightarrow> streams_wf t \<and> (\<forall>h e. streams_get t h = Some e \<longrightarrow> (en_wire_id e = None \<longleftrightarrow> en_state e = Creating))"

text \<open>A \<open>createStream\<close> that waits for its result names a stream of its own, which is still being created if it is live.\<close>

definition creating_ok :: "(u32, outstanding_transaction) hash_map \<Rightarrow> client_stream_state streams \<Rightarrow> bool" where
  "creating_ok ts t \<longleftrightarrow> hm_wf ts
     \<and> (\<forall>i h p. hm_get ts i = Some (CreateStream h p) \<longrightarrow>
          issued t h \<and> (\<forall>e. streams_get t h = Some e \<longrightarrow> en_state e = Creating))
     \<and> (\<forall>i j h p q. hm_get ts i = Some (CreateStream h p) \<and> hm_get ts j = Some (CreateStream h q) \<longrightarrow> i = j)"

fun connection_ok :: "connection_state \<Rightarrow> (u32, outstanding_transaction) hash_map \<Rightarrow> bytes option \<Rightarrow> bool" where
  "connection_ok Disconnected ts app \<longleftrightarrow> ts = [] \<and> app = None"
| "connection_ok Connecting ts app \<longleftrightarrow> (\<exists>i a. ts = [(i, ClientConnectionRequested a)]) \<and> app = None"
| "connection_ok Connected ts app \<longleftrightarrow> (\<forall>i a. hm_get ts i \<noteq> Some (ClientConnectionRequested a)) \<and> app \<noteq> None"
| "connection_ok Failed ts app \<longleftrightarrow> True"

definition client_core :: "client_session \<Rightarrow> bool" where
  "client_core s \<longleftrightarrow> table_ok (cs_streams s) \<and> creating_ok (cs_outstanding_transactions s) (cs_streams s)
     \<and> connection_ok (cs_current_state s) (cs_outstanding_transactions s) (cs_connected_app_name s)
     \<and> cs_self_window_ack_size s \<noteq> None \<and> cs_self_window_ack_size s \<noteq> Some 0 \<and> cs_peer_window_ack_size s \<noteq> Some 0
     \<and> length (streams_iter (cs_streams s)) \<le> max_streams (cc_session_limits (cs_config s))
     \<and> hm_len (cs_outstanding_transactions s) \<le> max_pending_requests (cc_session_limits (cs_config s))"

text \<open>\<open>t0\<close> is the table at some earlier moment, \<open>k\<close> the number of buffered chunk header bytes.\<close>

definition client_ok :: "client_stream_state streams \<Rightarrow> nat \<Rightarrow> client_session \<Rightarrow> bool" where
  "client_ok t0 k s \<longleftrightarrow> client_core s \<and> table_le t0 (cs_streams s)
     \<and> md_inv (cs_deserializer s) \<and> cp_used (md_parser (cs_deserializer s)) = k
     \<and> \<not> cs_failed s \<and> cs_current_state s \<noteq> Failed"

definition client_panic :: "client_session_error \<Rightarrow> bool" where
  "client_panic e \<longleftrightarrow> e \<in> {ClientPanic, ClientOutOfFuel, ClientDecodeError DecodePanic}
     \<or> (\<exists>m. e = ClientMessageDeserializationError m \<and> message_panic m)
     \<or> (\<exists>m. e = ClientMessageSerializationError m \<and> serialization_panic m)"

abbreviation client_keeps :: "client_stream_state streams \<Rightarrow> nat \<Rightarrow> 'a client_op \<Rightarrow> client_session \<Rightarrow> bool" where
  "client_keeps t0 k m s \<equiv> wp m (\<lambda>_. client_ok t0 k) (\<lambda>e s'. client_ok t0 k s' \<and> \<not> client_panic e) s"

lemmas client_ok_defs = client_ok_def client_core_def

lemma client_ok_frame [simp]:
  "client_ok t0 k (s\<lparr>cs_ticks := b\<rparr>) = client_ok t0 k s"
  "client_ok t0 k (s\<lparr>cs_serializer := c\<rparr>) = client_ok t0 k s"
  "client_ok t0 k (s\<lparr>cs_pending := d\<rparr>) = client_ok t0 k s"
  "client_ok t0 k (s\<lparr>cs_next_transaction_id := f\<rparr>) = client_ok t0 k s"
  "client_ok t0 k (s\<lparr>cs_negotiated_encoding := g\<rparr>) = client_ok t0 k s"
  "client_ok t0 k (s\<lparr>cs_peer_uses_amf3_framing := h\<rparr>) = client_ok t0 k s"
  "client_ok t0 k (s\<lparr>cs_bytes_received := i\<rparr>) = client_ok t0 k s"
  "client_ok t0 k (s\<lparr>cs_bytes_received_since_last_ack := f\<rparr>) = client_ok t0 k s"
  by (simp_all add: client_ok_defs)

lemma client_panic_simps [simp]:
  "client_panic (ClientMessageSerializationError a) \<longleftrightarrow> serialization_panic a" "\<not> client_panic (ClientEncodeError b)"
  "\<not> client_panic (ClientLimitExceeded c)" "\<not> client_panic ClientInvalidStreamHandle" "\<not> client_panic DuplicateStreamId"
  "\<not> client_panic ClientSessionFailed" "\<not> client_panic ClientPendingOutput" "\<not> client_panic (ClientStreamInInvalidState d e)"
  "\<not> client_panic CantConnectWhileAlreadyConnected" "\<not> client_panic (SessionInInvalidState g)"
  "\<not> client_panic CreateStreamResponseHadNoStreamNumber" "\<not> client_panic InvalidOnStatusArguments"
  "client_panic (ClientDecodeError h) \<longleftrightarrow> h = DecodePanic"
  "client_panic (ClientMessageDeserializationError i) \<longleftrightarrow> message_panic i"
  by (simp_all add: client_panic_def)

section \<open>Basic steps\<close>

lemma wp_client_encode:
  assumes "\<And>e p. Q p (s\<lparr>cs_serializer := e\<rparr>)" and "\<And>e x. E (ClientEncodeError x) (s\<lparr>cs_serializer := e\<rparr>)"
  shows "wp (client_encode m options) Q E s" and "wp (client_set_chunk_size n t) Q E s"
  using assms by (auto simp: wp_def client_encode_def client_set_chunk_size_def map_error_def split: prod.splits sum.splits)

lemma wp_client_send:
  assumes "\<And>t e p. Q p (s\<lparr>cs_ticks := t, cs_serializer := e\<rparr>)"
    and "\<And>t e x. E (ClientEncodeError x) (s\<lparr>cs_ticks := t, cs_serializer := e\<rparr>)"
    and "\<And>t x. \<not> serialization_panic x \<Longrightarrow> E (ClientMessageSerializationError x) (s\<lparr>cs_ticks := t\<rparr>)"
  shows "wp (client_send env m sid) Q E s"
  using assms no_serialization_panic by (auto simp: client_send_def client_get_epoch_def wp_def sbind_def slift_def map_error_def
      client_serialize_def split: prod.splits sum.splits)

lemma client_keeps_then:
  assumes "client_keeps t0 k m s" and "\<And>a s'. client_ok t0 k s' \<Longrightarrow> client_keeps t0 k (f a) s'"
  shows "client_keeps t0 k (sbind m f) s"
  using wp_mono [OF assms(1)] assms(2) by (simp add: wp_sbind)

lemma client_keeps_send: "client_ok t0 k s \<Longrightarrow> client_keeps t0 k (client_send env m sid) s"
  by (rule wp_client_send) simp_all

lemma client_keeps_delete_packet: "client_ok t0 k s \<Longrightarrow> client_keeps t0 k (delete_packet env sid) s"
  by (simp add: delete_packet_def client_keeps_send)

section \<open>Changes of the table\<close>

text \<open>A new table that keeps the invariant, is later than the old one and leaves waiting streams alone.\<close>

lemma client_ok_table:
  assumes "client_ok t0 k s" and "table_ok t" and "creating_ok (cs_outstanding_transactions s) t"
    and "table_le (cs_streams s) t" and "length (streams_iter t) \<le> length (streams_iter (cs_streams s))"
  shows "client_ok t0 k (s\<lparr>cs_streams := t\<rparr>)"
  using assms table_le_trans by (auto simp: client_ok_defs)

lemma client_okD:
  assumes "client_ok t0 k s"
  shows "table_ok (cs_streams s)" "creating_ok (cs_outstanding_transactions s) (cs_streams s)"
  using assms by (simp_all add: client_ok_defs)

lemma remove_ok:
  assumes "table_ok t" and "creating_ok ts t" and "streams_remove h t = (t', r)"
  shows "table_ok t' \<and> creating_ok ts t' \<and> table_le t t' \<and> length (streams_iter t') \<le> length (streams_iter t)"
proof -
  note rem = streams_remove_get [OF assms(3)]
  have "streams_wf t'"
    using streams_remove_wf [OF _ assms(3)] assms(1) by (simp add: table_ok_def)
  then show ?thesis
    using assms(1,2) streams_remove_fields(2) [OF assms(3)]
    by (auto simp: table_ok_def creating_ok_def table_le_def rem(1,2) length_streams_iter)
qed

lemma client_keeps_remove:
  assumes "client_ok t0 k s"
  shows "client_keeps t0 k (remove_stream h) s"
proof -
  obtain t r where t: "streams_remove h (cs_streams s) = (t, r)"
    by fastforce
  have "client_ok t0 k (s\<lparr>cs_streams := t\<rparr>)"
    using client_ok_table [OF assms] remove_ok [OF client_okD [OF assms] t] by blast
  then show ?thesis
    by (simp add: remove_stream_def wp_def t)
qed

text \<open>The next state of a stream that has its message stream id.\<close>

lemma set_state_ok:
  assumes "table_ok t" and "streams_get t h = Some e" and "stage (en_state e) st" and "st \<noteq> Creating" and "en_state e \<noteq> Creating"
    and "creating_ok ts t" and "streams_get_mut h (\<lambda>e. e\<lparr>en_state := st\<rparr>) t = Some t'"
  shows "table_ok t' \<and> creating_ok ts t' \<and> table_le t t' \<and> length (streams_iter t') \<le> length (streams_iter t)"
proof -
  note mut = streams_get_mut_get [OF assms(7)]
  have "streams_wf t'"
    using streams_state_wf [OF _ assms(7)] assms(1) by (simp add: table_ok_def)
  moreover have "length (streams_iter t') = length (streams_iter t)"
    using streams_change_fields(2) [of h "SetState st" t t'] assms(7) by (simp add: length_streams_iter)
  ultimately show ?thesis
    using assms(1-6) by (fastforce simp: table_ok_def creating_ok_def table_le_def mut(1,2) entry_le_def split: if_splits)
qed

lemma wp_set_state:
  assumes "client_ok t0 k s" and "streams_get (cs_streams s) h = Some e" and "stage (en_state e) st" and "st \<noteq> Creating"
    and "en_state e \<noteq> Creating"
  shows "client_keeps t0 k (set_state h st) s"
proof -
  obtain t' where t': "streams_get_mut h (\<lambda>e. e\<lparr>en_state := st\<rparr>) (cs_streams s) = Some t'"
    using assms(2) by (simp add: streams_get_mut_def)
  have "client_ok t0 k (s\<lparr>cs_streams := t'\<rparr>)"
    using client_ok_table [OF assms(1)] set_state_ok [OF client_okD(1) [OF assms(1)] assms(2-5) client_okD(2) [OF assms(1)] t']
    by blast
  then show ?thesis
    by (simp add: set_state_def wp_simps t')
qed

text \<open>A stream gets its message stream id and starts in one go.\<close>

lemma bind_state_ok:
  assumes "table_ok t" and "streams_get t h = Some e" and "en_state e = Creating" and "st \<noteq> Creating"
    and "streams_find t w = None" and "creating_ok ts t" and "\<And>i p. hm_get ts i \<noteq> Some (CreateStream h p)"
    and "streams_bind h w t = Some t1" and "streams_get_mut h (\<lambda>e. e\<lparr>en_state := st\<rparr>) t1 = Some t2"
  shows "table_ok t2 \<and> creating_ok ts t2 \<and> table_le t t2 \<and> length (streams_iter t2) \<le> length (streams_iter t)"
proof -
  note bind = streams_bind_get [OF assms(8)] and mut = streams_get_mut_get [OF assms(9)]
  have "en_wire_id e = None"
    using assms(1-3) by (auto simp: table_ok_def)
  then have "streams_wf t2"
    using assms(1,2) streams_state_wf [OF streams_bind_wf [OF _ assms(8,5)] assms(9)] by (auto simp: table_ok_def)
  moreover have "length (streams_iter t2) = length (streams_iter t)"
    using streams_change_fields(2) [of h "SetState st" t1 t2] streams_change_fields(2) [of h "Bind w" t t1] assms(8,9)
    by (simp add: length_streams_iter)
  ultimately show ?thesis
    using assms(1-4,6,7) \<open>en_wire_id e = None\<close>
    by (fastforce simp: table_ok_def creating_ok_def table_le_def mut(1,2) bind(1,2) entry_le_def stage_def)
qed

lemma wp_bind_state:
  assumes ok: "client_ok t0 k s" and "streams_get (cs_streams s) h = Some e" and "en_state e = Creating" and "st \<noteq> Creating"
    and "streams_find (cs_streams s) w = None" and "\<And>i p. hm_get (cs_outstanding_transactions s) i \<noteq> Some (CreateStream h p)"
    and "\<And>s'. client_ok t0 k s' \<Longrightarrow> Q () s'"
  shows "wp (bind_stream h w) (\<lambda>_. wp (set_state h st) Q E) E s"
proof -
  obtain t1 where t1: "streams_bind h w (cs_streams s) = Some t1"
    using assms(2) by (simp add: streams_bind_def streams_get_mut_def)
  moreover obtain t2 where t2: "streams_get_mut h (\<lambda>e. e\<lparr>en_state := st\<rparr>) t1 = Some t2"
    using streams_bind_get(1) [OF t1] assms(2) by (simp add: streams_get_mut_def)
  moreover have "client_ok t0 k (s\<lparr>cs_streams := t2\<rparr>)"
    using client_ok_table [OF ok] bind_state_ok [OF client_okD(1) [OF ok] assms(2-5) client_okD(2) [OF ok] assms(6) t1 t2]
    by blast
  ultimately show ?thesis
    using assms(7) by (simp add: bind_stream_def set_state_def wp_simps)
qed

section \<open>Handlers\<close>

lemma connection_no_create: "connection_ok Connecting ts app \<Longrightarrow> hm_get ts i \<noteq> Some (CreateStream h p)"
  by (auto simp: hm_get_def split: if_splits)

lemma client_keeps_on_status:
  assumes "client_ok t0 k s"
  shows "client_keeps t0 k (handle_on_status_command env sid args) s"
proof -
  have get: "\<exists>e. streams_get (cs_streams s) h = Some e \<and> en_state e \<noteq> Creating" if "streams_find (cs_streams s) sid = Some h" for h
    using client_okD(1) [OF assms] that by (fastforce simp: table_ok_def streams_find_iff)
  have effect: "stage (en_state e) st \<and> st \<noteq> Creating" if "status_effect_of (en_state e) h code status = Advance st event" for e h code status st event
    using that by (auto simp: status_effect_of_def stage_def split: if_splits)
  have finish: "client_keeps t0 k (sbind (delete_packet env sid) (\<lambda>packet. sbind (remove_stream h) (\<lambda>_.
      sret [ClientPacket packet, ClientRaised event]))) s" for h event
    by (rule client_keeps_then [OF client_keeps_delete_packet [OF assms]], rule client_keeps_then [OF client_keeps_remove], assumption) (simp add: wp_sret)
  show ?thesis
    using assms get finish
    by (auto simp: handle_on_status_command_def wp_simps Let_def intro!: wp_set_state dest!: effect
        split: option.split status_effect.split)
qed

text \<open>A result takes its transaction out of the table; what it leaves is what the handlers start from.\<close>

lemma creating_remove: "creating_ok ts t \<Longrightarrow> creating_ok (hm_remove i ts) t"
  by (auto simp: creating_ok_def split: if_splits)

lemma hm_len_remove: "hm_len (hm_remove i m) \<le> hm_len m"
  by (simp add: hm_len_def hm_remove_def length_delete_le)

lemma taken_create:
  assumes "client_ok t0 k s" and "hm_get (cs_outstanding_transactions s) i = Some (CreateStream h p)"
    and "s' = s\<lparr>cs_outstanding_transactions := hm_remove i (cs_outstanding_transactions s)\<rparr>"
  shows "client_ok t0 k s'" and "\<And>j q. hm_get (cs_outstanding_transactions s') j \<noteq> Some (CreateStream h q)"
    and "\<And>e. streams_get (cs_streams s') h = Some e \<Longrightarrow> en_state e = Creating"
proof -
  note cre = client_okD(2) [OF assms(1)]
  have state: "cs_current_state s = Connected"
    using assms(1,2) connection_no_create by (cases "cs_current_state s") (auto simp: client_ok_defs hm_get_def split: if_splits)
  then show "client_ok t0 k s'"
    using assms(1,3) cre hm_len_remove [of i "cs_outstanding_transactions s"] creating_remove [OF cre, of i]
    by (auto simp: client_ok_defs creating_ok_def split: if_splits)
  show "hm_get (cs_outstanding_transactions s') j \<noteq> Some (CreateStream h q)" for j q
    using assms(2,3) cre by (fastforce simp: creating_ok_def split: if_splits)
  show "en_state e = Creating" if "streams_get (cs_streams s') h = Some e" for e
    using assms(2,3) cre that by (fastforce simp: creating_ok_def)
qed

lemma taken_connect:
  assumes "client_ok t0 k s" and "hm_get (cs_outstanding_transactions s) i = Some (ClientConnectionRequested a)"
    and "s' = s\<lparr>cs_outstanding_transactions := hm_remove i (cs_outstanding_transactions s)\<rparr>"
  shows "client_ok t0 k (s'\<lparr>cs_current_state := Connected, cs_connected_app_name := Some app\<rparr>)"
    and "client_ok t0 k (s'\<lparr>cs_current_state := Disconnected\<rparr>)"
proof -
  have state: "cs_outstanding_transactions s = [(i, ClientConnectionRequested a)]" "cs_connected_app_name s = None"
    using assms(1,2) by (cases "cs_current_state s"; auto simp: client_ok_defs hm_get_def split: if_splits)+
  then have "cs_outstanding_transactions s' = []"
    using assms(3) by (simp add: hm_remove_def)
  then show "client_ok t0 k (s'\<lparr>cs_current_state := Connected, cs_connected_app_name := Some app\<rparr>)"
    "client_ok t0 k (s'\<lparr>cs_current_state := Disconnected\<rparr>)"
    using assms(1,3) state by (auto simp: client_ok_defs creating_ok_def hm_get_def hm_len_def hm_wf_def)
qed

lemma taken_none:
  "hm_get (cs_outstanding_transactions s) i = None \<Longrightarrow>
   s\<lparr>cs_outstanding_transactions := hm_remove i (cs_outstanding_transactions s)\<rparr> = s"
  by (simp add: hm_get_def hm_remove_def map_of_eq_None_iff delete_id)

lemma wp_take_transaction:
  "wp (take_transaction tid) Q E s = (let i = f64_to_u32 tid; s' = s\<lparr>cs_outstanding_transactions :=
     hm_remove i (cs_outstanding_transactions s)\<rparr> in Q (hm_get (cs_outstanding_transactions s) i) s')"
  by (simp add: take_transaction_def wp_simps Let_def)

lemma client_keeps_connection_accepted:
  assumes "client_ok t0 k (s\<lparr>cs_current_state := Connected, cs_connected_app_name := Some app\<rparr>)"
  shows "client_keeps t0 k (connection_accepted env app obj args) s"
  using assms unfolding connection_accepted_def
  by (auto simp: wp_simps Let_def intro!: wp_client_send wp_client_encode)

lemma client_keeps_stream_created:
  assumes "client_ok t0 k s" and "\<And>j q. hm_get (cs_outstanding_transactions s) j \<noteq> Some (CreateStream h q)"
    and "\<And>e. streams_get (cs_streams s) h = Some e \<Longrightarrow> en_state e = Creating"
  shows "client_keeps t0 k (stream_created env h purpose args) s"
  using assms client_keeps_delete_packet [OF assms(1)]
  by (auto simp: stream_created_def wp_simps intro!: wp_bind_state wp_client_send
      split: option.split transaction_purpose.split)

lemma client_keeps_success:
  assumes "client_ok t0 k s"
  shows "client_keeps t0 k (handle_amf0_command_success_result env tid obj args) s"
proof (cases "hm_get (cs_outstanding_transactions s) (f64_to_u32 tid)")
  case None
  then show ?thesis
    using assms by (simp add: handle_amf0_command_success_result_def wp_simps wp_take_transaction taken_none)
next
  case (Some x)
  then show ?thesis
    using taken_connect(1) [OF assms _ refl] taken_create [OF assms _ refl]
    by (cases x) (auto simp: handle_amf0_command_success_result_def wp_simps wp_take_transaction
        intro!: client_keeps_connection_accepted client_keeps_stream_created)
qed

lemma client_keeps_failed:
  assumes "client_ok t0 k s"
  shows "client_keeps t0 k (handle_amf0_command_failed_result tid obj args) s"
proof (cases "hm_get (cs_outstanding_transactions s) (f64_to_u32 tid)")
  case None
  then show ?thesis
    using assms by (simp add: handle_amf0_command_failed_result_def wp_simps wp_take_transaction taken_none)
next
  case (Some x)
  show ?thesis
  proof (cases x)
    case (ClientConnectionRequested a)
    then show ?thesis
      using taken_connect(2) [OF assms _ refl] Some
      by (auto simp: handle_amf0_command_failed_result_def wp_simps wp_take_transaction)
  next
    case (CreateStream h p)
    show ?thesis
      unfolding handle_amf0_command_failed_result_def wp_sbind wp_take_transaction Let_def Some CreateStream option.case outstanding_transaction.case
      by (rule wp_mono [OF client_keeps_remove [OF taken_create(1) [OF assms _ refl]]]) (use Some CreateStream in \<open>auto simp: wp_simps split: transaction_purpose.split\<close>)
  qed
qed

lemma client_keeps_amf0_command: "client_ok t0 k s \<Longrightarrow> client_keeps t0 k (client_handle_amf0_command env sid name tid obj args) s"
  by (simp add: client_handle_amf0_command_def client_keeps_success client_keeps_failed client_keeps_on_status wp_sret)

lemma client_keeps_control:
  assumes "client_ok t0 k s"
  shows "client_keeps t0 k (client_handle_abort cid) s" "client_keeps t0 k (client_handle_set_chunk_size n) s"
    "client_keeps t0 k (client_handle_user_control env event t) s" "client_keeps t0 k (handle_window_ack_size n) s"
proof -
  obtain d where "decoder_abort_chunk_stream (cs_deserializer s) cid = Some d" "md_inv d"
    using decoder_abort_inv [of "cs_deserializer s" cid] assms by (auto simp: client_ok_def)
  moreover from this(1) have "cp_used (md_parser d) = cp_used (md_parser (cs_deserializer s))"
    by (rule decoder_abort_used)
  ultimately show "client_keeps t0 k (client_handle_abort cid) s"
    using assms by (auto simp: client_handle_abort_def wp_simps client_ok_defs)
  show "client_keeps t0 k (client_handle_set_chunk_size n) s"
    using assms decoder_chunk_size_inv [of "cs_deserializer s" "unat n"] decoder_chunk_size_panic [of "cs_deserializer s" "unat n"]
      decoder_chunk_size_used [of "cs_deserializer s" "unat n"]
    by (auto simp: client_handle_set_chunk_size_def wp_simps client_ok_defs map_error_def split: sum.split)
  show "client_keeps t0 k (client_handle_user_control env event t) s"
    using assms by (auto simp: client_handle_user_control_def wp_simps intro!: wp_client_send)
  show "client_keeps t0 k (handle_window_ack_size n) s"
    using assms by (auto simp: handle_window_ack_size_def wp_simps client_ok_defs)
qed

lemma client_keeps_message:
  assumes "client_ok t0 k s" and "ins_ok (se_insert env)"
  shows "client_keeps t0 k (client_handle_message env m) s"
  using assms no_message_panic [OF assms(2), of "se_sizes env" m]
  by (auto simp: client_handle_message_def wp_simps Let_def map_error_def client_keeps_control client_keeps_amf0_command
      split: sum.split rtmp_message.split)

lemma client_keeps_pop: "client_ok t0 k s \<Longrightarrow> client_keeps t0 k client_pop_pending s"
  by (auto simp: client_pop_pending_def wp_def split: list.split)

lemma client_keeps_process_payload:
  assumes "client_ok t0 k s" and "ins_ok (se_insert env)"
  shows "client_keeps t0 k (client_process_payload env m) s"
proof -
  have "client_keeps t0 k (sbind (client_handle_message env (rm_map payload_into_bytes m))
      (\<lambda>outputs. sbind (client_extend_pending outputs) (\<lambda>_. client_pop_pending))) s"
    by (rule client_keeps_then [OF client_keeps_message [OF assms]]) (simp add: wp_simps client_extend_pending_def client_keeps_pop)
  moreover have "client_keeps t0 k (client_script_data wire_type m) s" for wire_type
    using assms(1) by (auto simp: client_script_data_def wp_simps split: option.split)
  ultimately show ?thesis
    using assms(1) by (simp add: client_process_payload_def wp_simps split: option.split)
qed

section \<open>The receive loop\<close>

text \<open>What is left of the invariant when an error ends the session.\<close>

definition client_left :: "client_stream_state streams \<Rightarrow> client_session \<Rightarrow> bool" where
  "client_left t0 s \<longleftrightarrow> client_core s \<and> table_le t0 (cs_streams s)"

lemma client_ok_left: "client_ok t0 k s \<Longrightarrow> client_left t0 s"
  by (simp add: client_ok_def client_left_def)

lemma wp_client_decode:
  assumes "client_ok t0 k s" and "env_ok (se_decoder env)"
  shows "wp (client_decode env input)
    (\<lambda>(m, rest) s'. \<exists>j. client_ok t0 j s' \<and> (m \<noteq> None \<longrightarrow> length rest + of_bool (0 < j) < length input + of_bool (0 < k)))
    (\<lambda>e s'. client_left t0 s' \<and> \<not> client_panic e) s"
proof -
  obtain d rest r where out: "decode (se_decoder env) (cs_deserializer s) input = (d, rest, r)"
    by (metis prod_cases3)
  have "md_inv (cs_deserializer s)" "cp_used (md_parser (cs_deserializer s)) = k"
    using assms(1) by (simp_all add: client_ok_def)
  with decode_outcome [OF assms(2) _ out] show ?thesis
    using assms(1)
    by (auto simp: wp_def client_decode_def out parser_work_def client_left_def client_ok_defs split: sum.splits)
qed

lemma client_keeps_account: "client_ok t0 k s \<Longrightarrow> client_keeps t0 k (client_account env n) s"
  by (auto simp: client_account_def wp_simps client_window_def intro!: wp_client_send split: option.split)
    (auto simp: client_ok_defs)

lemma client_keeps_dispatch:
  assumes "client_ok t0 k s" and "ins_ok (se_insert env)"
  shows "client_keeps t0 k (client_dispatch env m) s"
  unfolding client_dispatch_def
  by (rule client_keeps_then [OF client_keeps_pop [OF assms(1)]], rule client_keeps_then [OF client_keeps_process_payload [OF _ assms(2)]], assumption)
    (auto simp: wp_simps split: option.split)

lemma client_keeps_left: "client_keeps t0 k m s \<Longrightarrow> wp m (\<lambda>_. client_ok t0 k) (\<lambda>e s'. client_left t0 s' \<and> \<not> client_panic e) s"
  by (erule wp_mono) (auto dest: client_ok_left)

interpretation cli: receive_loop "\<lambda>k s. session_env_ok env \<and> client_ok t0 k s" "client_left t0" client_panic
    "client_decode env" "client_account env" client_pop_pending "client_dispatch env" "client_receive_loop env"
    "client_receive_inner env" for env t0
proof (unfold_locales, goal_cases)
  case (1 k s input)
  then show ?case
    using wp_mono [OF wp_client_decode [of t0 k s env input]] session_env_parts [of env] by fastforce
next
  case (2 k s n)
  then show ?case
    by (auto intro: wp_mono [OF client_keeps_left [OF client_keeps_account]])
next
  case (3 k s)
  then show ?case
    by (auto intro: wp_mono [OF client_keeps_left [OF client_keeps_pop]])
next
  case (4 k s m)
  then show ?case
    using session_env_parts [of env] by (auto intro: wp_mono [OF client_keeps_left [OF client_keeps_dispatch]])
qed (simp_all add: client_receive_inner_def)

section \<open>Public operations\<close>

text \<open>The invariant between calls, with \<open>t0\<close> an earlier table.\<close>

definition client_inv :: "client_stream_state streams \<Rightarrow> client_session \<Rightarrow> bool" where
  "client_inv t0 s \<longleftrightarrow> client_left t0 s \<and> (cs_failed s \<longleftrightarrow> cs_current_state s = Failed) \<and> (cs_failed s \<or> (\<exists>k. client_ok t0 k s))"

abbreviation client_safe :: "client_stream_state streams \<Rightarrow> 'a client_op \<Rightarrow> client_session \<Rightarrow> bool" where
  "client_safe t0 m s \<equiv> wp m (\<lambda>_. client_inv t0) (\<lambda>e s'. client_inv t0 s' \<and> \<not> client_panic e) s"

lemma client_ok_inv: "client_ok t0 k s \<Longrightarrow> client_inv t0 s"
  by (auto simp: client_inv_def client_ok_left) (simp_all add: client_ok_def)

lemma client_safe_receive:
  assumes env: "session_env_ok env" and inv: "client_inv t0 s"
  shows "client_safe t0 (client_receive env input) s"
proof (cases "cs_failed s")
  case True
  then show ?thesis
    using inv by (simp add: wp_def client_receive_def sbind_def client_ensure_active_def)
next
  case False
  then obtain k where "client_ok t0 k s"
    using inv by (auto simp: client_inv_def)
  moreover have "client_inv t0 (s'\<lparr>cs_failed := True, cs_current_state := Failed, cs_pending := []\<rparr>)" if "client_left t0 s'" for s'
    using that by (auto simp: client_inv_def client_left_def client_core_def)
  ultimately show ?thesis
    using False cli.inner_returns [of env t0 k s input] env client_ok_inv
    by (auto simp: wp_def client_receive_def sbind_def client_ensure_active_def split: prod.splits sum.splits)
qed

text \<open>A failed session refuses every operation; otherwise the invariant of the handlers carries over.\<close>

lemma client_safe_op:
  assumes "client_inv t0 s" and "\<And>k. client_ok t0 k s \<Longrightarrow> wp m (\<lambda>_. client_ok t0 k) (\<lambda>e s'. client_ok t0 k s' \<and> P e) s"
    and "cs_failed s \<Longrightarrow> m s = (s, Inl ClientSessionFailed)" and "P ClientSessionFailed"
  shows "wp m (\<lambda>_. client_inv t0) (\<lambda>e s'. client_inv t0 s' \<and> P e) s"
proof (cases "cs_failed s")
  case True
  then show ?thesis
    using assms by (simp add: wp_def)
next
  case False
  then obtain k where "client_ok t0 k s"
    using assms(1) by (auto simp: client_inv_def)
  then show ?thesis
    by (rule wp_mono [OF assms(2)]) (auto intro: client_ok_inv)
qed

lemma failed_client:
  assumes "cs_failed s"
  shows "client_receive env input s = (s, Inl ClientSessionFailed)"
    "client_connect env app s = (s, Inl ClientSessionFailed)"
    "connect_with_properties env app p s = (s, Inl ClientSessionFailed)"
    "create_stream env purpose s = (s, Inl ClientSessionFailed)"
    "delete_stream env h s = (s, Inl ClientSessionFailed)"
    "client_send_ping_request env s = (s, Inl ClientSessionFailed)"
    "client_send_metadata env h m s = (s, Inl ClientSessionFailed)"
    "client_media_packet h kind t data options s = (s, Inl ClientSessionFailed)"
  using assms
  by (simp_all add: client_receive_def client_connect_def connect_with_properties_def request_connection_inner_def
      request_connection_with_properties_inner_def create_stream_def delete_stream_def client_send_ping_request_def
      client_send_metadata_def client_media_packet_def client_ensure_output_drained_def sbind_def client_ensure_active_def)

lemma client_keeps_active: "client_ok t0 k s \<Longrightarrow> client_keeps t0 k client_ensure_active s"
  by (simp add: wp_def client_ensure_active_def)

lemma client_keeps_drained: "client_ok t0 k s \<Longrightarrow> client_keeps t0 k client_ensure_output_drained s"
  unfolding client_ensure_output_drained_def by (rule client_keeps_then [OF client_keeps_active]) (auto simp: wp_simps)

lemma wp_client_active: "client_ok t0 k s \<Longrightarrow> wp client_ensure_active Q E s = Q () s"
  by (simp add: wp_def client_ensure_active_def client_ok_def)

lemma wp_check_requests:
  assumes "hm_len (cs_outstanding_transactions s) < max_pending_requests (cc_session_limits (cs_config s)) \<Longrightarrow> Q () s"
    and "\<And>x. E (ClientLimitExceeded x) s"
  shows "wp client_check_requests Q E s"
  using assms by (simp add: client_check_requests_def wp_simps check_requests_def map_error_def)

lemma wp_next_transaction:
  "wp get_next_transaction_id Q E s = Q (cs_next_transaction_id s) (s\<lparr>cs_next_transaction_id := cs_next_transaction_id s + 1\<rparr>)"
  by (simp add: wp_def get_next_transaction_id_def)

lemma connecting_ok:
  assumes "client_ok t0 k s" and "cs_current_state s = Disconnected"
    and "hm_len (cs_outstanding_transactions s) < max_pending_requests (cc_session_limits (cs_config s))"
    and "ts = cs_outstanding_transactions s"
  shows "client_ok t0 k (s\<lparr>cs_outstanding_transactions := hm_insert i (ClientConnectionRequested app) ts,
    cs_current_state := Connecting\<rparr>)"
  using assms by (auto simp: client_ok_defs hm_insert_def creating_ok_def hm_wf_def hm_get_def hm_len_def split: if_splits)

lemma client_keeps_connect:
  assumes "client_ok t0 k s"
  shows "client_keeps t0 k (request_connection_with_properties_inner env app p) s"
  unfolding request_connection_with_properties_inner_def wp_sbind wp_client_active [OF assms] wp_sget wp_if Let_def
  using assms
  by (auto simp: wp_simps wp_next_transaction insert_transaction_def intro!: wp_check_requests wp_client_send connecting_ok)

lemma insert_ok:
  assumes "table_ok t" and "creating_ok ts t" and "streams_insert Creating None t = Some (t', h)"
  shows "table_ok t' \<and> creating_ok (hm_insert i (CreateStream h p) ts) t' \<and> table_le t t'
    \<and> length (streams_iter t') = Suc (length (streams_iter t))"
proof -
  note ins = streams_insert_get [OF assms(3)]
  have "streams_wf t'"
    using streams_insert_wf [OF _ assms(3)] assms(1) by (simp add: table_ok_def)
  moreover have "\<not> issued t h" "hm_get ts j \<noteq> Some (CreateStream h q)" for j q
    using ins(2) assms(2) by (auto simp: creating_ok_def)
  ultimately show ?thesis
    using assms(1,2) streams_insert_fields(5) [OF assms(3)] ins(3)
    by (auto simp: table_ok_def creating_ok_def table_le_def ins(1) length_streams_iter split: if_splits)
qed

lemma insert_none: "streams_wf t \<Longrightarrow> streams_insert st w t = None \<Longrightarrow> 2 ^ 32 \<le> length (sm_slots t)"
  using position_Some [of slot_free "sm_slots t"]
  by (auto simp: streams_insert_def streams_wf_def Let_def split: if_splits option.splits)

lemma created_ok:
  assumes "client_ok t0 k s" and "streams_insert Creating None (cs_streams s) = Some (t, h)" and "cs_current_state s = Connected"
    and "hm_len (cs_outstanding_transactions s) < max_pending_requests (cc_session_limits (cs_config s))"
    and "length (streams_iter (cs_streams s)) < max_streams (cc_session_limits (cs_config s))"
  shows "client_ok t0 k (s\<lparr>cs_streams := t,
    cs_outstanding_transactions := hm_insert i (CreateStream h p) (cs_outstanding_transactions s)\<rparr>)"
  using assms insert_ok [OF client_okD [OF assms(1)] assms(2), of i p] table_le_trans
    hm_len_insert_le [of i "CreateStream h p" "cs_outstanding_transactions s"]
  by (auto simp: client_ok_defs)

lemma client_keeps_create_stream:
  assumes "client_ok t0 k s"
  shows "wp (create_stream env purpose) (\<lambda>_. client_ok t0 k)
    (\<lambda>e s'. client_ok t0 k s' \<and> (client_panic e \<longrightarrow> 2 ^ 32 \<le> length (sm_slots (cs_streams s)))) s"
  using assms insert_none [of "cs_streams s" Creating None] client_okD(1) [OF assms]
  unfolding create_stream_def wp_sbind wp_client_active [OF assms] wp_sget wp_if
  by (auto simp: wp_simps wp_next_transaction insert_transaction_def push_pending_def table_ok_def check_streams_def map_error_def
      intro!: wp_check_requests wp_client_send created_ok split: option.split)

lemma client_keeps_delete:
  assumes "client_ok t0 k s"
  shows "client_keeps t0 k (delete_stream env h) s"
proof -
  have del: "wp (remove_stream h) (\<lambda>_. client_keeps t0 k (case p of None \<Rightarrow> sret () | Some p \<Rightarrow> push_pending (ClientPacket p)))
      (\<lambda>e s'. client_ok t0 k s' \<and> \<not> client_panic e) s'" if "client_ok t0 k s'" for p s'
    by (rule wp_mono [OF client_keeps_remove [OF that]]) (auto simp: wp_simps push_pending_def split: option.split)
  have pkt: "wp (delete_packet env w) (\<lambda>p. wp (remove_stream h) (\<lambda>_. client_keeps t0 k (push_pending (ClientPacket p)))
      (\<lambda>e s'. client_ok t0 k s' \<and> \<not> client_panic e)) (\<lambda>e s'. client_ok t0 k s' \<and> \<not> client_panic e) s" for w
    using del [of _ "Some p" for p] by (intro wp_mono [OF client_keeps_delete_packet [OF assms]]) auto
  show ?thesis
    unfolding delete_stream_def wp_sbind wp_client_active [OF assms] wp_sget
    using assms pkt del [OF assms, of None] by (auto simp: wp_simps split: option.split)
qed

text \<open>The invariant of the public operations.\<close>

lemma client_keeps_publishing_id: "client_ok t0 k s \<Longrightarrow> client_keeps t0 k (publishing_id h) s"
  using client_okD(1) [of t0 k s]
  by (auto simp: publishing_id_def wp_simps wp_client_active table_ok_def split: option.split)

lemma client_safe_requests:
  assumes "client_inv t0 s"
  shows "client_safe t0 (client_connect env app) s" "client_safe t0 (connect_with_properties env app p) s" "client_safe t0 (delete_stream env h) s"
proof -
  have connect: "client_keeps t0 k (connect_with_properties env app p) s" if "client_ok t0 k s" for k p
    unfolding connect_with_properties_def
    by (rule client_keeps_then [OF client_keeps_connect [OF that]]) (simp add: push_pending_def wp_simps)
  have plain: "client_keeps t0 k (client_connect env app) s" if "client_ok t0 k s" for k
    using connect [OF that, of "[]"] wp_client_active [OF that]
    by (simp add: client_connect_def request_connection_inner_def connect_with_properties_def wp_sbind)
  show "client_safe t0 (client_connect env app) s" "client_safe t0 (connect_with_properties env app p) s" "client_safe t0 (delete_stream env h) s"
    using connect plain client_keeps_delete by (auto intro!: client_safe_op [OF assms] failed_client)
qed

lemma client_safe_create:
  assumes "client_inv t0 s"
  shows "wp (create_stream env purpose) (\<lambda>_. client_inv t0)
    (\<lambda>e s'. client_inv t0 s' \<and> (client_panic e \<longrightarrow> 2 ^ 32 \<le> length (sm_slots (cs_streams s)))) s"
  using client_keeps_create_stream by (auto intro!: client_safe_op [OF assms] failed_client)

lemma client_safe_sends:
  assumes "client_inv t0 s"
  shows "client_safe t0 (client_send_ping_request env) s" "client_safe t0 (client_send_metadata env h m) s"
    "client_safe t0 (client_media_packet h kind t data options) s"
proof -
  have "client_keeps t0 k (client_send_ping_request env) s" if "client_ok t0 k s" for k
    unfolding client_send_ping_request_def
    apply (rule client_keeps_then [OF client_keeps_drained [OF that]], rule client_keeps_then, erule client_keeps_active)
    apply (auto simp: wp_sbind client_get_epoch_def wp_def [of "client_get_epoch env"] wp_sret intro!: wp_client_send)
    done
  moreover have "client_keeps t0 k (client_send_metadata env h m) s" if "client_ok t0 k s" for k
    unfolding client_send_metadata_def publish_metadata_inner_def
    apply (rule client_keeps_then [OF client_keeps_drained [OF that]], rule client_keeps_then, erule client_keeps_active)
    apply (rule client_keeps_then, erule client_keeps_publishing_id, erule client_keeps_send)
    done
  moreover have "client_keeps t0 k (client_media_packet h kind t data options) s" if "client_ok t0 k s" for k
    unfolding client_media_packet_def
    apply (rule client_keeps_then [OF client_keeps_drained [OF that]], rule client_keeps_then, erule client_keeps_active)
    apply (rule client_keeps_then, erule client_keeps_publishing_id)
    apply (auto intro!: wp_client_encode)
    done
  ultimately show "client_safe t0 (client_send_ping_request env) s" "client_safe t0 (client_send_metadata env h m) s"
    "client_safe t0 (client_media_packet h kind t data options) s"
    by (auto intro!: client_safe_op [OF assms] failed_client)
qed

lemma client_new_inv:
  assumes "client_new counter config = Inr (s, counter')" and "maximum_buffered_bytes (cc_decoder_limits config) < usize_max"
  shows "client_inv (cs_streams s) s"
proof -
  obtain table where t: "streams_new counter = Some (table, counter')" and s: "s = client_initial config table"
    and w: "cc_window_ack_size config \<noteq> 0"
    using assms(1) by (auto simp: client_new_def split: if_splits option.splits)
  have "md_inv (decoder_with_limits (cc_decoder_limits config))"
    using assms(2) by (simp add: decoder_new_inv limits_ok_def)
  then have "md_inv (cs_deserializer s)"
    by (simp add: s client_initial_def Let_def md_inv_pool split: option.split)
  moreover have "table_ok table" "streams_iter table = []"
    using streams_wf_new [OF t] t by (auto simp: table_ok_def streams_new_def streams_get_def streams_iter_def split: if_splits)
  ultimately have "client_ok (cs_streams s) (cp_used (md_parser (cs_deserializer s))) s"
    using w by (auto simp: client_ok_defs s client_initial_def creating_ok_def hm_get_def hm_wf_def hm_len_def)
  then show ?thesis
    by (rule client_ok_inv)
qed

end
