(* ===== verification/Client_Properties.thy ===== *)
theory Client_Properties
  imports Client_Invariant
begin

text \<open>
  What a client session guarantees to the application that drives it, in every state reached by any sequence of its
  operations on any input.
\<close>

section \<open>Reachable sessions\<close>

text \<open>One call of a public operation, whether it succeeds or fails.\<close>

inductive client_step :: "session_env \<Rightarrow> client_session \<Rightarrow> client_session \<Rightarrow> bool" for env where
  step_receive: "client_receive env input s = (s', r) \<Longrightarrow> client_step env s s'"
| step_connect: "client_connect env app s = (s', r) \<Longrightarrow> client_step env s s'"
| step_connect_with: "connect_with_properties env app p s = (s', r) \<Longrightarrow> client_step env s s'"
| step_play: "client_play env key s = (s', r) \<Longrightarrow> client_step env s s'"
| step_publish: "client_publish env key mode s = (s', r) \<Longrightarrow> client_step env s s'"
| step_delete: "delete_stream env h s = (s', r) \<Longrightarrow> client_step env s s'"
| step_ping: "client_send_ping_request env s = (s', r) \<Longrightarrow> client_step env s s'"
| step_metadata: "client_send_metadata env h m s = (s', r) \<Longrightarrow> client_step env s s'"
| step_audio: "client_send_audio h data t policy s = (s', r) \<Longrightarrow> client_step env s s'"
| step_video: "client_send_video h data t policy s = (s', r) \<Longrightarrow> client_step env s s'"
| step_data: "client_send_data h msg s = (s', r) \<Longrightarrow> client_step env s s'"
| step_pool: "client_step env s (client_set_payload_pool pool s)"

inductive client_steps :: "session_env \<Rightarrow> client_session \<Rightarrow> client_session \<Rightarrow> bool" for env where
  steps_none: "client_steps env s s"
| steps_more: "client_steps env s s' \<Longrightarrow> client_step env s' s'' \<Longrightarrow> client_steps env s s''"

definition client_reachable :: "session_env \<Rightarrow> client_session_config \<Rightarrow> client_session \<Rightarrow> bool" where
  "client_reachable env config s \<longleftrightarrow>
     (\<exists>counter s0 counter'. client_new counter config = Inr (s0, counter') \<and> client_steps env s0 s)"

lemmas step_defs = client_send_audio_def client_send_video_def client_send_data_def client_play_def client_publish_def

lemma client_step_inv:
  assumes "client_step env s s'" and "client_inv t0 s" and "session_env_ok env"
  shows "client_inv t0 s'"
  using assms(1)
proof cases
  case step_receive
  then show ?thesis
    using wp_fst [OF client_safe_receive] assms(2,3) by blast
next
  case (step_pool pool)
  then show ?thesis
    using assms(2)
    by (auto simp: client_inv_def client_left_def client_core_def client_ok_def client_set_payload_pool_def md_inv_pool)
qed (use wp_fst [OF client_safe_requests(1) [OF assms(2)]] wp_fst [OF client_safe_requests(2) [OF assms(2)]]
    wp_fst [OF client_safe_requests(3) [OF assms(2)]] wp_fst [OF client_safe_create [OF assms(2)]] wp_fst [OF client_safe_sends(1) [OF assms(2)]]
    wp_fst [OF client_safe_sends(2) [OF assms(2)]] wp_fst [OF client_safe_sends(3) [OF assms(2)]] in \<open>auto simp: step_defs\<close>)

lemma client_steps_inv:
  assumes "client_steps env s s'" and "client_inv t0 s" and "session_env_ok env"
  shows "client_inv t0 s'"
  using assms by (induction rule: client_steps.induct) (auto intro: client_step_inv)

text \<open>The invariant at any later moment, seen from any moment before.\<close>

lemma client_inv_here: "client_inv t0 s \<Longrightarrow> client_inv (cs_streams s) s"
  by (auto simp: client_inv_def client_left_def client_ok_def)

lemma client_reachable_inv:
  assumes "client_reachable env config s" and "session_env_ok env"
    and "maximum_buffered_bytes (cc_decoder_limits config) < usize_max"
  shows "client_inv (cs_streams s) s"
  using assms client_new_inv client_steps_inv client_inv_here unfolding client_reachable_def by metis

section \<open>Consistency\<close>

text \<open>
  C32 (invariant). In every state a client session reaches, however its peer behaves: a live stream has a message
  stream id exactly when it is past its creation, and then no other stream has the same one and messages for it find
  the stream; every \<open>createStream\<close> that waits for its result belongs to a stream of its own, which is still being
  created or was deleted meanwhile; while the session is connecting its \<open>connect\<close> is the one outstanding transaction,
  and a \<open>connect\<close> is outstanding in no other state but \<open>Failed\<close>; live streams and outstanding transactions are within
  the configured limits; \<open>is_failed\<close> and \<open>state\<close> agree.
\<close>

theorem client_consistent:
  assumes "client_reachable env config s" and "session_env_ok env"
    and "maximum_buffered_bytes (cc_decoder_limits config) < usize_max"
  shows "(\<forall>h st. client_stream_state_of s h = Some st \<longrightarrow> (client_stream_id s h = None \<longleftrightarrow> st = Creating))
    \<and> (\<forall>w h. streams_find (cs_streams s) w = Some h \<longleftrightarrow> client_stream_id s h = Some w)
    \<and> (\<forall>i h p st. hm_get (cs_outstanding_transactions s) i = Some (CreateStream h p) \<and> client_stream_state_of s h = Some st
         \<longrightarrow> st = Creating)
    \<and> (\<forall>i j h p q. hm_get (cs_outstanding_transactions s) i = Some (CreateStream h p)
         \<and> hm_get (cs_outstanding_transactions s) j = Some (CreateStream h q) \<longrightarrow> i = j)
    \<and> (cs_current_state s = Connecting \<longrightarrow> (\<exists>i a. cs_outstanding_transactions s = [(i, ClientConnectionRequested a)]))
    \<and> (\<forall>i a. hm_get (cs_outstanding_transactions s) i = Some (ClientConnectionRequested a)
         \<longrightarrow> cs_current_state s = Connecting \<or> cs_current_state s = Failed)
    \<and> length (client_streams s) \<le> max_streams (cc_session_limits (cs_config s))
    \<and> hm_len (cs_outstanding_transactions s) \<le> max_pending_requests (cc_session_limits (cs_config s))
    \<and> (cs_failed s \<longleftrightarrow> cs_current_state s = Failed)"
proof -
  note inv = client_reachable_inv [OF assms]
  have core: "client_core s" and failed: "cs_failed s \<longleftrightarrow> cs_current_state s = Failed"
    using inv by (auto simp: client_inv_def client_left_def)
  then have tab: "table_ok (cs_streams s)" and cre: "creating_ok (cs_outstanding_transactions s) (cs_streams s)"
    and conn: "connection_ok (cs_current_state s) (cs_outstanding_transactions s) (cs_connected_app_name s)"
    by (simp_all add: client_core_def)
  have "\<forall>h st. client_stream_state_of s h = Some st \<longrightarrow> (client_stream_id s h = None \<longleftrightarrow> st = Creating)"
    using tab by (auto simp: table_ok_def client_stream_state_of_def client_stream_id_def)
  moreover have "\<forall>w h. streams_find (cs_streams s) w = Some h \<longleftrightarrow> client_stream_id s h = Some w"
    using tab by (auto simp: table_ok_def streams_find_iff client_stream_id_def split: option.splits)
  moreover have "\<forall>i h p st. hm_get (cs_outstanding_transactions s) i = Some (CreateStream h p)
      \<and> client_stream_state_of s h = Some st \<longrightarrow> st = Creating"
    using cre by (auto simp: creating_ok_def client_stream_state_of_def)
  moreover have "\<forall>i j h p q. hm_get (cs_outstanding_transactions s) i = Some (CreateStream h p)
         \<and> hm_get (cs_outstanding_transactions s) j = Some (CreateStream h q) \<longrightarrow> i = j"
    using cre by (simp add: creating_ok_def)
  moreover have "cs_current_state s = Connecting \<longrightarrow> (\<exists>i a. cs_outstanding_transactions s = [(i, ClientConnectionRequested a)])"
    using conn by auto
  moreover have "\<forall>i a. hm_get (cs_outstanding_transactions s) i = Some (ClientConnectionRequested a)
         \<longrightarrow> cs_current_state s = Connecting \<or> cs_current_state s = Failed"
    using conn by (cases "cs_current_state s") (auto simp: hm_get_def)
  ultimately show ?thesis
    using core failed by (simp add: client_core_def client_streams_def)
qed

section \<open>Safety\<close>

text \<open>
  C33 (safety). No operation of a reachable client session panics, on any input from the peer and any argument from
  the application, as long as the stream table has a slot left (its index is a \<open>u32\<close>); and \<open>receive\<close> returns.
\<close>

theorem client_never_panics:
  assumes "client_reachable env config s" and "session_env_ok env"
    and "maximum_buffered_bytes (cc_decoder_limits config) < usize_max"
    and "length (sm_slots (cs_streams s)) < 2 ^ 32"
  shows "(\<forall>e. snd (client_receive env input s) = Inl e \<longrightarrow> \<not> client_panic e)
    \<and> (\<forall>e. snd (client_connect env app s) = Inl e \<longrightarrow> \<not> client_panic e)
    \<and> (\<forall>e. snd (connect_with_properties env app p s) = Inl e \<longrightarrow> \<not> client_panic e)
    \<and> (\<forall>e. snd (client_play env key s) = Inl e \<longrightarrow> \<not> client_panic e)
    \<and> (\<forall>e. snd (client_publish env key mode s) = Inl e \<longrightarrow> \<not> client_panic e)
    \<and> (\<forall>e. snd (delete_stream env h s) = Inl e \<longrightarrow> \<not> client_panic e)
    \<and> (\<forall>e. snd (client_send_ping_request env s) = Inl e \<longrightarrow> \<not> client_panic e)
    \<and> (\<forall>e. snd (client_send_metadata env h m s) = Inl e \<longrightarrow> \<not> client_panic e)
    \<and> (\<forall>e. snd (client_send_audio h data t policy s) = Inl e \<longrightarrow> \<not> client_panic e)
    \<and> (\<forall>e. snd (client_send_video h data t policy s) = Inl e \<longrightarrow> \<not> client_panic e)
    \<and> (\<forall>e. snd (client_send_data h msg s) = Inl e \<longrightarrow> \<not> client_panic e)"
proof -
  note inv = client_reachable_inv [OF assms(1-3)]
  have no: "\<forall>e. snd (m s) = Inl e \<longrightarrow> \<not> client_panic e" if "wp m Q (\<lambda>e s'. E s' \<and> \<not> client_panic e) s" for m :: "'b client_op" and Q E
    using that by (auto simp: wp_def split: prod.splits sum.splits)
  have create: "\<forall>e. snd (create_stream env purpose s) = Inl e \<longrightarrow> \<not> client_panic e" for purpose
    using client_safe_create [OF inv, of env purpose] assms(4) by (auto simp: wp_def split: prod.splits sum.splits)
  show ?thesis
    unfolding step_defs
    by (intro conjI create no [OF client_safe_receive [OF assms(2) inv]] no [OF client_safe_requests(1) [OF inv]]
        no [OF client_safe_requests(2) [OF inv]] no [OF client_safe_requests(3) [OF inv]] no [OF client_safe_sends(1) [OF inv]]
        no [OF client_safe_sends(2) [OF inv]] no [OF client_safe_sends(3) [OF inv]])
qed

section \<open>The life of a stream\<close>

text \<open>
  C34 (safety). Whatever operations follow and whatever the server sends, a stream of a client session only moves
  forward: from creation to starting playback or publishing, from there to playing or publishing, and to deletion from
  anywhere; it never turns from playback to publishing or back, keeps the message stream id it was given for as long
  as it lives, and once its handle is invalid it stays invalid.
\<close>

theorem client_stream_lifecycle:
  assumes "client_inv t0 s" and "session_env_ok env" and "client_steps env s s'" and "issued (cs_streams s) h"
  shows "(client_stream_state_of s h = None \<longrightarrow> client_stream_state_of s' h = None)
    \<and> (\<forall>a b. client_stream_state_of s h = Some a \<and> client_stream_state_of s' h = Some b \<longrightarrow>
         a = b \<or> a = Creating \<or> (a, b) = (StartingPlayback, Playing) \<or> (a, b) = (StartingPublish, Publishing))
    \<and> (\<forall>w. client_stream_id s h = Some w \<and> client_stream_state_of s' h \<noteq> None \<longrightarrow> client_stream_id s' h = Some w)"
proof -
  have "table_le (cs_streams s) (cs_streams s')"
    using client_steps_inv [OF assms(3) client_inv_here [OF assms(1)] assms(2)] by (simp add: client_inv_def client_left_def)
  then have le: "\<exists>d. streams_get (cs_streams s) h = Some d \<and> entry_le d e" if "streams_get (cs_streams s') h = Some e" for e
    using assms(4) that by (auto simp: table_le_def)
  show ?thesis
    using le by (cases "streams_get (cs_streams s') h") (auto simp: client_stream_state_of_def client_stream_id_def entry_le_def stage_def split: option.splits)
qed

section \<open>Witnesses\<close>

definition sample_client :: client_session where
  "sample_client = client_initial client_session_config_new \<lparr>sm_session = 1, sm_slots = [], sm_by_wire = []\<rparr>"

text \<open>The session after \<open>connect\<close>.\<close>

definition sample_connecting :: client_session where
  "sample_connecting = fst (client_connect sample_session_env [97] sample_client)"

lemma sample_client_new: "client_new 1 client_session_config_new = Inr (sample_client, 2)"
  by (simp add: client_new_def client_session_config_new_def streams_new_def sample_client_def)

lemma sample_connecting_reachable: "client_reachable sample_session_env client_session_config_new sample_connecting"
  unfolding client_reachable_def sample_connecting_def
  using sample_client_new steps_more [OF steps_none step_connect [OF prod.collapse [symmetric]]] by blast

lemma sample_client_limit: "maximum_buffered_bytes (cc_decoder_limits client_session_config_new) < usize_max"
  by (simp add: client_session_config_new_def decoder_limits_default_def usize_max_def)

lemma sample_connecting_state: "cs_current_state sample_connecting = Connecting"
  by code_simp

theorem client_consistent_witness: "\<exists>i a. cs_outstanding_transactions sample_connecting = [(i, ClientConnectionRequested a)]"
  using client_consistent [OF sample_connecting_reachable sample_session_env_ok(1) sample_client_limit] sample_connecting_state
  by blast

lemma sample_client_bad_input:
  "snd (client_receive sample_session_env [0xC3] sample_client) = Inl (ClientDecodeError (NoPreviousChunkOnStream 3))"
  by code_simp

theorem client_never_panics_witness: "\<not> client_panic (ClientDecodeError (NoPreviousChunkOnStream 3))"
proof -
  have "client_reachable sample_session_env client_session_config_new sample_client"
    unfolding client_reachable_def using sample_client_new steps_none by blast
  from client_never_panics [OF this sample_session_env_ok(1) sample_client_limit, of "[0xC3]"]
  show ?thesis
    using sample_client_bad_input by (simp add: sample_client_def client_initial_def)
qed

text \<open>A connected session that waits for the result of a \<open>createStream\<close>, and the same after the stream was deleted.\<close>

definition sample_client_table :: "client_stream_state streams" where
  "sample_client_table =
     \<lparr>sm_session = 1, sm_slots = [\<lparr>sl_generation = 1, sl_entry = Some \<lparr>en_wire_id = None, en_state = Creating\<rparr>\<rparr>],
      sm_by_wire = []\<rparr>"

definition sample_creating :: client_session where
  "sample_creating = (client_initial client_session_config_new sample_client_table)
     \<lparr>cs_outstanding_transactions := [(1, CreateStream sample_handle (PlayRequest [107]))], cs_current_state := Connected,
      cs_connected_app_name := Some [97]\<rparr>"

definition sample_deleted :: client_session where
  "sample_deleted = fst (delete_stream sample_session_env sample_handle sample_creating)"

lemma sample_client_table_get:
  "streams_get sample_client_table h = (if h = sample_handle then Some \<lparr>en_wire_id = None, en_state = Creating\<rparr> else None)"
proof (cases h)
  case (fields a b c)
  have "unat b < 1 \<longleftrightarrow> b = 0"
    by (simp add: unat_eq_zero)
  then show ?thesis
    by (auto simp: fields streams_get_alt sample_client_table_def sample_handle_def)
qed

lemma sample_creating_inv: "client_inv sample_client_table sample_creating"
proof -
  have "md_inv (decoder_with_limits decoder_limits_default)"
    by (rule decoder_new_inv) (simp add: limits_ok_def decoder_limits_default_def usize_max_def)
  moreover have "table_ok sample_client_table"
    by (auto simp: table_ok_def streams_wf_def sample_client_table_get) (simp_all add: sample_client_table_def hm_wf_def hm_get_def)
  moreover have "issued sample_client_table sample_handle"
    by (rule issued_live) (simp add: sample_client_table_get)
  ultimately have "client_ok sample_client_table (cp_used (md_parser (decoder_with_limits decoder_limits_default))) sample_creating"
    by (auto simp: client_ok_defs sample_creating_def client_initial_def client_session_config_new_def creating_ok_def hm_wf_def
        hm_get_def hm_len_def sample_client_table_get session_limits_default_def length_streams_iter split: if_splits)
      (simp add: sample_client_table_def)
  then show ?thesis
    by (rule client_ok_inv)
qed

lemma sample_deleted_dead: "client_stream_state_of sample_deleted sample_handle = None" "issued (cs_streams sample_deleted) sample_handle"
proof -
  have "cs_streams sample_deleted = fst (streams_remove sample_handle sample_client_table)"
    by (simp add: sample_deleted_def delete_stream_def sbind_def client_ensure_active_def sget_def sret_def remove_stream_def
        sample_creating_def client_initial_def sample_client_table_get split: prod.split)
  moreover have "issued sample_client_table sample_handle"
    by (rule issued_live) (simp add: sample_client_table_get)
  ultimately show "client_stream_state_of sample_deleted sample_handle = None" "issued (cs_streams sample_deleted) sample_handle"
    using streams_remove_get [OF prod.collapse [symmetric], of sample_handle sample_client_table]
    by (simp_all add: client_stream_state_of_def)
qed

text \<open>The deleted handle stays invalid although the next stream takes over its slot.\<close>

theorem client_stream_lifecycle_witness:
  "client_stream_state_of (fst (client_play sample_session_env [107] sample_deleted)) sample_handle = None"
proof -
  have inv: "client_inv sample_client_table sample_deleted"
    unfolding sample_deleted_def
    by (rule client_step_inv [OF step_delete [OF prod.collapse [symmetric]] sample_creating_inv sample_session_env_ok(1)])
  have "client_steps sample_session_env sample_deleted (fst (client_play sample_session_env [107] sample_deleted))"
    by (rule steps_more [OF steps_none step_play [OF prod.collapse [symmetric]]])
  from client_stream_lifecycle [OF inv sample_session_env_ok(1) this sample_deleted_dead(2)]
  show ?thesis
    using sample_deleted_dead(1) by blast
qed

end
