(* ===== verification/Flv.thy ===== *)
theory Flv
  imports Payload Session_Monad
begin

text \<open>
  The FLV tag parser (\<open>src/src/flv.rs\<close>): audio and video message bodies, legacy and Enhanced, over any byte storage that
  implements \<open>MediaData\<close>. The parser is an operation of \<open>Session_Monad\<close> on a cursor; \<open>FlvPanic\<close> is a panic of the code
  (an index or a slice out of range), and the two loops have fuel, with \<open>FlvOutOfFuel\<close> when it does not suffice;
  \<open>Flv_Refine\<close> shows that neither is returned. An \<open>i32\<close> is its 32 bits.
\<close>

unbundle bit_operations_syntax

section \<open>Storage and cursor\<close>

datatype flv_error = FlvError string | FlvPanic | FlvOutOfFuel

definition flv_truncated :: flv_error where
  "flv_truncated = FlvError ''truncated tag''"

text \<open>The trait \<open>MediaData\<close>: segments, and slices that panic out of range.\<close>

record 'p media_ops =
  mo_segments :: "'p segments_ops"
  mo_slice :: "'p \<Rightarrow> nat \<Rightarrow> nat \<Rightarrow> 'p option"

definition bytes_slice :: "bytes \<Rightarrow> nat \<Rightarrow> nat \<Rightarrow> bytes option" where
  "bytes_slice b start stop = (if start \<le> stop \<and> stop \<le> length b then Some (take (stop - start) (drop start b)) else None)"

definition bytes_media :: "bytes media_ops" where
  "bytes_media = \<lparr>mo_segments = slice_ops, mo_slice = bytes_slice\<rparr>"

definition view_media :: "payload payload_view media_ops" where
  "view_media = \<lparr>mo_segments = view_ops payload_ops, mo_slice = view_slice payload_ops\<rparr>"

record 'p cursor =
  cu_raw :: 'p
  cu_pos :: nat

type_synonym ('p, 'a) flv_op = "('p cursor, flv_error, 'a) op"

definition cursor_new :: "'p \<Rightarrow> 'p cursor" where
  "cursor_new raw = \<lparr>cu_raw = raw, cu_pos = 0\<rparr>"

definition cursor_len :: "'p media_ops \<Rightarrow> 'p \<Rightarrow> nat" where
  "cursor_len ops raw = seg_len (mo_segments ops) raw"

definition remaining :: "'p media_ops \<Rightarrow> 'p cursor \<Rightarrow> nat" where
  "remaining ops c = cursor_len ops (cu_raw c) - cu_pos c"

definition cursor_slice :: "'p media_ops \<Rightarrow> nat \<Rightarrow> nat \<Rightarrow> ('p, 'p) flv_op" where
  "cursor_slice ops start stop =
     sbind (sget (\<lambda>c. mo_slice ops (cu_raw c) start stop)) (\<lambda>r.
       case r of None \<Rightarrow> sfail FlvPanic | Some p \<Rightarrow> sret p)"

definition commit :: "'p media_ops \<Rightarrow> ('p, unit) flv_op" where
  "commit ops =
     sbind (sget (\<lambda>c. c)) (\<lambda>c.
       if cu_pos c \<noteq> 0 then
         sbind (cursor_slice ops (cu_pos c) (cursor_len ops (cu_raw c))) (\<lambda>raw.
           smodify (\<lambda>c. c\<lparr>cu_raw := raw, cu_pos := 0\<rparr>))
       else sret ())"

definition first_segment :: "'p media_ops \<Rightarrow> ('p, bytes) flv_op" where
  "first_segment ops =
     sbind (sget (\<lambda>c. seg_at (mo_segments ops) (cu_raw c) 0)) (\<lambda>r.
       case r of None \<Rightarrow> sfail FlvPanic | Some b \<Rightarrow> sret b)"

definition cursor_read_u8 :: "'p media_ops \<Rightarrow> ('p, u8) flv_op" where
  "cursor_read_u8 ops =
     sbind (sget (remaining ops)) (\<lambda>left.
       if left = 0 then sfail flv_truncated
       else
         sbind (first_segment ops) (\<lambda>segment.
         sbind (sget cu_pos) (\<lambda>pos.
         sbind (if pos = length segment then commit ops else sret ()) (\<lambda>_.
         sbind (first_segment ops) (\<lambda>segment.
         sbind (sget cu_pos) (\<lambda>pos.
           if pos < length segment then sbind (smodify (\<lambda>c. c\<lparr>cu_pos := pos + 1\<rparr>)) (\<lambda>_. sret (segment ! pos))
           else sfail FlvPanic))))))"

definition cursor_read_u16 :: "'p media_ops \<Rightarrow> ('p, u16) flv_op" where
  "cursor_read_u16 ops =
     sbind (cursor_read_u8 ops) (\<lambda>a. sbind (cursor_read_u8 ops) (\<lambda>b. sret (push_bit 8 (ucast a) OR ucast b)))"

definition cursor_read_u24 :: "'p media_ops \<Rightarrow> ('p, u32) flv_op" where
  "cursor_read_u24 ops =
     sbind (cursor_read_u8 ops) (\<lambda>a. sbind (cursor_read_u8 ops) (\<lambda>b. sbind (cursor_read_u8 ops) (\<lambda>c.
       sret (push_bit 16 (ucast a) OR push_bit 8 (ucast b) OR ucast c))))"

definition sign_extend_cts :: "u32 \<Rightarrow> u32" where
  "sign_extend_cts value =
     (let value = value AND 0x00ffffff in if value AND 0x00800000 = 0 then value else value OR 0xff000000)"

definition cursor_read_i24 :: "'p media_ops \<Rightarrow> ('p, u32) flv_op" where
  "cursor_read_i24 ops = sbind (cursor_read_u24 ops) (\<lambda>v. sret (sign_extend_cts v))"

definition read_fourcc :: "'p media_ops \<Rightarrow> ('p, bytes) flv_op" where
  "read_fourcc ops =
     sbind (cursor_read_u8 ops) (\<lambda>a. sbind (cursor_read_u8 ops) (\<lambda>b.
     sbind (cursor_read_u8 ops) (\<lambda>c. sbind (cursor_read_u8 ops) (\<lambda>d. sret [a, b, c, d]))))"

definition cursor_take :: "'p media_ops \<Rightarrow> nat \<Rightarrow> ('p, 'p) flv_op" where
  "cursor_take ops n =
     sbind (sget (remaining ops)) (\<lambda>left.
       if left < n then sfail flv_truncated
       else
         sbind (commit ops) (\<lambda>_.
         sbind (cursor_slice ops 0 n) (\<lambda>b.
         sbind (sget (\<lambda>c. cursor_len ops (cu_raw c))) (\<lambda>len.
         sbind (cursor_slice ops n len) (\<lambda>raw.
         sbind (smodify (\<lambda>c. c\<lparr>cu_raw := raw\<rparr>)) (\<lambda>_. sret b))))))"

definition take_rest :: "'p media_ops \<Rightarrow> ('p, 'p) flv_op" where
  "take_rest ops =
     sbind (commit ops) (\<lambda>_.
     sbind (sget cu_raw) (\<lambda>b.
     sbind (cursor_slice ops (cursor_len ops b) (cursor_len ops b)) (\<lambda>raw.
     sbind (smodify (\<lambda>c. c\<lparr>cu_raw := raw\<rparr>)) (\<lambda>_. sret b))))"

section \<open>Parsed tags\<close>

record legacy_audio_header =
  sound_format :: u8
  sound_rate :: u8
  sound_size :: u8
  sound_type :: u8

datatype audio_header_content =
    AudioNoMultitrack bytes
  | AudioOneTrack bytes
  | AudioManyTracks bytes
  | AudioManyTracksManyCodecs
  | AudioUnknownMultitrack u8 bytes

record enhanced_audio_header =
  ah_packet_type :: u8
  ah_has_unknown_modex :: bool
  ah_content :: audio_header_content

datatype audio_tag_header = AudioLegacyHeader legacy_audio_header | AudioEnhancedHeader enhanced_audio_header

datatype 'p legacy_audio_body =
    AacSequenceHeader 'p
  | AacRaw 'p
  | AacUnknown u8 'p
  | LegacyAudioOther 'p

datatype 'p audio_packet =
    AudioSequenceStart 'p
  | AudioCodedFrames 'p
  | AudioSequenceEnd
  | MultichannelConfig u8
  | AudioUnknownPacket u8 'p

datatype 'p audio_track = AudioTrack (at_four_cc: bytes) (at_track_id: u8) (at_packet: "'p audio_packet")

datatype 'p enhanced_audio_body =
    AudioSinglePacket bytes "'p audio_packet"
  | AudioTracks "'p audio_track list"

datatype 'p audio_tag_body = AudioLegacyBody "'p legacy_audio_body" | AudioEnhancedBody "'p enhanced_audio_body"

datatype 'p parsed_audio = ParsedAudio (pa_header: audio_tag_header) (pa_body: "'p audio_tag_body")

datatype legacy_avc_packet =
    AvcSequenceHeaderPacket
  | AvcNalu u32
  | AvcEndOfSequence
  | AvcUnknown u8 u32

datatype legacy_video_header =
    LegacyVideoCommand u8
  | AvcPacket legacy_avc_packet
  | LegacyVideoOtherHeader u8

datatype video_header_content =
    VideoCommand u8
  | VideoNoMultitrack bytes
  | VideoOneTrack bytes
  | VideoManyTracks bytes
  | VideoManyTracksManyCodecs
  | VideoUnknownMultitrack u8 bytes

record enhanced_video_header =
  vh_packet_type :: u8
  vh_has_unknown_modex :: bool
  vh_content :: video_header_content

datatype video_tag_header_data = VideoLegacyHeader legacy_video_header | VideoEnhancedHeader enhanced_video_header

record video_tag_header =
  vt_frame_type :: u8
  vt_data :: video_tag_header_data

datatype 'p legacy_video_body = LegacyCommandBody | AvcSequenceHeaderBody 'p | LegacyVideoOther 'p

datatype 'p video_packet =
    VideoSequenceStart 'p
  | Mpeg2TsSequenceStart 'p
  | VideoCodedFrames u32 'p
  | VideoCodedFramesX 'p
  | VideoMetadata 'p
  | VideoSequenceEnd
  | VideoUnknownPacket u8 'p

datatype 'p video_track = VideoTrack (vt_four_cc: bytes) (vt_track_id: u8) (vt_packet: "'p video_packet")

datatype 'p enhanced_video_body =
    EnhancedCommandBody
  | VideoSinglePacket bytes "'p video_packet"
  | VideoTracks "'p video_track list"

datatype 'p video_tag_body = VideoLegacyBody "'p legacy_video_body" | VideoEnhancedBody "'p enhanced_video_body"

datatype 'p parsed_video = ParsedVideo (pv_header: video_tag_header) (pv_body: "'p video_tag_body")

section \<open>Enhanced headers\<close>

definition multitrack_error :: flv_error where
  "multitrack_error = FlvError ''nested multitracks are not allowed''"

text \<open>\<open>read_audio_modex\<close> and \<open>read_video_modex\<close>, which have the same body.\<close>

definition read_modex :: "'p media_ops \<Rightarrow> ('p, bool \<times> u8) flv_op" where
  "read_modex ops =
     sbind (cursor_read_u8 ops) (\<lambda>first.
     sbind (if unat first + 1 = 256 then sbind (cursor_read_u16 ops) (\<lambda>n. sret (unat n + 1)) else sret (unat first + 1)) (\<lambda>n.
     sbind (cursor_take ops n) (\<lambda>data.
     sbind (cursor_read_u8 ops) (\<lambda>following.
       if drop_bit 4 following = 0 then
         if cursor_len ops data < 3 then sfail (FlvError ''invalid modExData, expected at least 3 bytes'')
         else sret (False, following AND 0x0F)
       else sret (True, following AND 0x0F)))))"

text \<open>\<open>while packet_type == MODEX\<close>; every round reads at least three bytes.\<close>

fun modex_loop :: "'p media_ops \<Rightarrow> nat \<Rightarrow> u8 \<Rightarrow> bool \<Rightarrow> ('p, u8 \<times> bool) flv_op" where
  "modex_loop ops 0 packet_type unknown = sfail FlvOutOfFuel"
| "modex_loop ops (Suc fuel) packet_type unknown =
     (if packet_type = 7 then
        sbind (read_modex ops) (\<lambda>(u, following). modex_loop ops fuel following (unknown \<or> u))
      else sret (packet_type, unknown))"

definition read_multitrack_fourcc :: "'p media_ops \<Rightarrow> u8 \<Rightarrow> ('p, bytes) flv_op" where
  "read_multitrack_fourcc ops multitrack_type = (if multitrack_type = 2 then sret [0, 0, 0, 0] else read_fourcc ops)"

definition read_enhanced_audio_header :: "'p media_ops \<Rightarrow> u8 \<Rightarrow> ('p, enhanced_audio_header) flv_op" where
  "read_enhanced_audio_header ops initial =
     sbind (sget (\<lambda>c. remaining ops c + 1)) (\<lambda>fuel.
     sbind (modex_loop ops fuel initial False) (\<lambda>(packet_type, unknown).
       if packet_type = 5 then
         sbind (cursor_read_u8 ops) (\<lambda>byte.
           let multitrack_type = drop_bit 4 byte; packet_type = byte AND 0x0F in
           if packet_type = 5 then sfail multitrack_error
           else
             sbind (read_multitrack_fourcc ops multitrack_type) (\<lambda>four_cc.
               sret \<lparr>ah_packet_type = packet_type, ah_has_unknown_modex = unknown,
                     ah_content =
                       (if multitrack_type = 0 then AudioOneTrack four_cc
                        else if multitrack_type = 1 then AudioManyTracks four_cc
                        else if multitrack_type = 2 then AudioManyTracksManyCodecs
                        else AudioUnknownMultitrack multitrack_type four_cc)\<rparr>))
       else
         sbind (read_fourcc ops) (\<lambda>four_cc.
           sret \<lparr>ah_packet_type = packet_type, ah_has_unknown_modex = unknown, ah_content = AudioNoMultitrack four_cc\<rparr>)))"

definition read_enhanced_video_header :: "'p media_ops \<Rightarrow> u8 \<Rightarrow> u8 \<Rightarrow> ('p, enhanced_video_header) flv_op" where
  "read_enhanced_video_header ops frame_type initial =
     sbind (sget (\<lambda>c. remaining ops c + 1)) (\<lambda>fuel.
     sbind (modex_loop ops fuel initial False) (\<lambda>(packet_type, unknown).
       if packet_type \<noteq> 4 \<and> frame_type = 5 then
         sbind (cursor_read_u8 ops) (\<lambda>command.
           sret \<lparr>vh_packet_type = packet_type, vh_has_unknown_modex = unknown, vh_content = VideoCommand command\<rparr>)
       else if packet_type = 6 then
         sbind (cursor_read_u8 ops) (\<lambda>byte.
           let multitrack_type = drop_bit 4 byte; packet_type = byte AND 0x0F in
           if packet_type = 6 then sfail multitrack_error
           else
             sbind (read_multitrack_fourcc ops multitrack_type) (\<lambda>four_cc.
               sret \<lparr>vh_packet_type = packet_type, vh_has_unknown_modex = unknown,
                     vh_content =
                       (if multitrack_type = 0 then VideoOneTrack four_cc
                        else if multitrack_type = 1 then VideoManyTracks four_cc
                        else if multitrack_type = 2 then VideoManyTracksManyCodecs
                        else VideoUnknownMultitrack multitrack_type four_cc)\<rparr>))
       else
         sbind (read_fourcc ops) (\<lambda>four_cc.
           sret \<lparr>vh_packet_type = packet_type, vh_has_unknown_modex = unknown, vh_content = VideoNoMultitrack four_cc\<rparr>)))"

section \<open>Packets and tracks\<close>

definition sized_payload :: "'p media_ops \<Rightarrow> nat option \<Rightarrow> ('p, 'p) flv_op" where
  "sized_payload ops n = (case n of Some len \<Rightarrow> cursor_take ops len | None \<Rightarrow> take_rest ops)"

definition read_size :: "'p media_ops \<Rightarrow> bool \<Rightarrow> ('p, nat option) flv_op" where
  "read_size ops sized = (if sized then sbind (cursor_read_u24 ops) (\<lambda>n. sret (Some (unat n))) else sret None)"

definition read_audio_packet :: "'p media_ops \<Rightarrow> u8 \<Rightarrow> bool \<Rightarrow> ('p, 'p audio_packet) flv_op" where
  "read_audio_packet ops packet_type sized =
     sbind (read_size ops sized) (\<lambda>n.
       if packet_type = 4 then
         sbind (cursor_read_u8 ops) (\<lambda>order.
         sbind (cursor_read_u8 ops) (\<lambda>channel_count.
         sbind (if order = 2 then sbind (cursor_take ops (unat channel_count)) (\<lambda>_. sret ())
                else if order = 1 then sbind (cursor_take ops 4) (\<lambda>_. sret ())
                else sret ()) (\<lambda>_.
           sret (MultichannelConfig channel_count))))
       else if packet_type = 2 then sret AudioSequenceEnd
       else if packet_type = 0 then sbind (sized_payload ops n) (\<lambda>data. sret (AudioSequenceStart data))
       else if packet_type = 1 then sbind (sized_payload ops n) (\<lambda>data. sret (AudioCodedFrames data))
       else sbind (sized_payload ops n) (\<lambda>data. sret (AudioUnknownPacket packet_type data)))"

definition validate_config :: "'p media_ops \<Rightarrow> nat \<Rightarrow> (u8 \<Rightarrow> bool) \<Rightarrow> string \<Rightarrow> 'p \<Rightarrow> ('p, unit) flv_op" where
  "validate_config ops least magic reason data =
     (if cursor_len ops data < least then sfail (FlvError reason)
      else case seg_at (mo_segments ops) data 0 of
          Some (b # _) \<Rightarrow> if magic b then sret () else sfail (FlvError reason)
        | _ \<Rightarrow> sfail FlvPanic)"

definition validate_avc_decoder_config :: "'p media_ops \<Rightarrow> 'p \<Rightarrow> ('p, unit) flv_op" where
  "validate_avc_decoder_config ops = validate_config ops 7 (\<lambda>b. b = 1) ''invalid AVC decoder configuration record''"

definition validate_hevc_decoder_config :: "'p media_ops \<Rightarrow> 'p \<Rightarrow> ('p, unit) flv_op" where
  "validate_hevc_decoder_config ops = validate_config ops 23 (\<lambda>b. b = 1) ''invalid HEVC decoder configuration record''"

definition validate_av1_decoder_config :: "'p media_ops \<Rightarrow> 'p \<Rightarrow> ('p, unit) flv_op" where
  "validate_av1_decoder_config ops = validate_config ops 4 (\<lambda>b. b AND 0x80 \<noteq> 0) ''invalid AV1 codec configuration record''"

definition read_video_packet :: "'p media_ops \<Rightarrow> u8 \<Rightarrow> bytes \<Rightarrow> bool \<Rightarrow> ('p, 'p video_packet) flv_op" where
  "read_video_packet ops packet_type four_cc sized =
     sbind (read_size ops sized) (\<lambda>n.
       if packet_type = 4 then sbind (sized_payload ops n) (\<lambda>data. sret (VideoMetadata data))
       else if packet_type = 2 then sret VideoSequenceEnd
       else if packet_type = 0 then
         sbind (sized_payload ops n) (\<lambda>data.
         sbind (if four_cc = ascii ''avc1'' then validate_avc_decoder_config ops data
                else if four_cc = ascii ''hvc1'' then validate_hevc_decoder_config ops data
                else if four_cc = ascii ''av01'' then validate_av1_decoder_config ops data
                else sret ()) (\<lambda>_.
           sret (VideoSequenceStart data)))
       else if packet_type = 5 then sbind (sized_payload ops n) (\<lambda>data. sret (Mpeg2TsSequenceStart data))
       else if packet_type = 1 then
         if four_cc \<in> {ascii ''avc1'', ascii ''hvc1'', ascii ''vvc1''} then
           sbind (cursor_read_i24 ops) (\<lambda>composition_time_offset.
           sbind (case n of
                Some len \<Rightarrow>
                  if len < 3 then sfail (FlvError ''coded frame size is shorter than composition offset'')
                  else cursor_take ops (len - 3)
              | None \<Rightarrow> take_rest ops) (\<lambda>data.
             sret (VideoCodedFrames composition_time_offset data)))
         else sbind (sized_payload ops n) (\<lambda>data. sret (VideoCodedFrames 0 data))
       else if packet_type = 3 then sbind (sized_payload ops n) (\<lambda>data. sret (VideoCodedFramesX data))
       else sbind (sized_payload ops n) (\<lambda>data. sret (VideoUnknownPacket packet_type data)))"

text \<open>The loops over the tracks; every round reads the track id.\<close>

fun audio_tracks_loop ::
    "'p media_ops \<Rightarrow> nat \<Rightarrow> u8 \<Rightarrow> bytes option \<Rightarrow> bool \<Rightarrow> ('p, 'p audio_track list) flv_op" where
  "audio_tracks_loop ops 0 packet_type shared single = sfail FlvOutOfFuel"
| "audio_tracks_loop ops (Suc fuel) packet_type shared single =
     sbind (case shared of None \<Rightarrow> read_fourcc ops | Some four_cc \<Rightarrow> sret four_cc) (\<lambda>four_cc.
     sbind (cursor_read_u8 ops) (\<lambda>track_id.
     sbind (read_audio_packet ops packet_type (\<not> single)) (\<lambda>packet.
     sbind (sget (remaining ops)) (\<lambda>left.
       if single \<or> left = 0 then sret [AudioTrack four_cc track_id packet]
       else
         sbind (audio_tracks_loop ops fuel packet_type shared single) (\<lambda>tracks.
           sret (AudioTrack four_cc track_id packet # tracks))))))"

fun video_tracks_loop ::
    "'p media_ops \<Rightarrow> nat \<Rightarrow> u8 \<Rightarrow> bytes option \<Rightarrow> bool \<Rightarrow> ('p, 'p video_track list) flv_op" where
  "video_tracks_loop ops 0 packet_type shared single = sfail FlvOutOfFuel"
| "video_tracks_loop ops (Suc fuel) packet_type shared single =
     sbind (case shared of None \<Rightarrow> read_fourcc ops | Some four_cc \<Rightarrow> sret four_cc) (\<lambda>four_cc.
     sbind (cursor_read_u8 ops) (\<lambda>track_id.
     sbind (read_video_packet ops packet_type four_cc (\<not> single)) (\<lambda>packet.
     sbind (sget (remaining ops)) (\<lambda>left.
       if single \<or> left = 0 then sret [VideoTrack four_cc track_id packet]
       else
         sbind (video_tracks_loop ops fuel packet_type shared single) (\<lambda>tracks.
           sret (VideoTrack four_cc track_id packet # tracks))))))"

definition read_enhanced_audio_body :: "'p media_ops \<Rightarrow> enhanced_audio_header \<Rightarrow> ('p, 'p enhanced_audio_body) flv_op" where
  "read_enhanced_audio_body ops header =
     (let tracks = (\<lambda>shared single.
        sbind (sget (\<lambda>c. remaining ops c + 1)) (\<lambda>fuel.
        sbind (audio_tracks_loop ops fuel (ah_packet_type header) shared single) (\<lambda>tracks. sret (AudioTracks tracks))))
      in case ah_content header of
           AudioNoMultitrack four_cc \<Rightarrow>
             sbind (read_audio_packet ops (ah_packet_type header) False) (\<lambda>packet. sret (AudioSinglePacket four_cc packet))
         | AudioOneTrack four_cc \<Rightarrow> tracks (Some four_cc) True
         | AudioManyTracks four_cc \<Rightarrow> tracks (Some four_cc) False
         | AudioUnknownMultitrack _ four_cc \<Rightarrow> tracks (Some four_cc) False
         | AudioManyTracksManyCodecs \<Rightarrow> tracks None False)"

definition read_enhanced_video_body :: "'p media_ops \<Rightarrow> enhanced_video_header \<Rightarrow> ('p, 'p enhanced_video_body) flv_op" where
  "read_enhanced_video_body ops header =
     (let tracks = (\<lambda>shared single.
        sbind (sget (\<lambda>c. remaining ops c + 1)) (\<lambda>fuel.
        sbind (video_tracks_loop ops fuel (vh_packet_type header) shared single) (\<lambda>tracks. sret (VideoTracks tracks))))
      in case vh_content header of
           VideoCommand _ \<Rightarrow> sret EnhancedCommandBody
         | VideoNoMultitrack four_cc \<Rightarrow>
             sbind (read_video_packet ops (vh_packet_type header) four_cc False) (\<lambda>packet. sret (VideoSinglePacket four_cc packet))
         | VideoOneTrack four_cc \<Rightarrow> tracks (Some four_cc) True
         | VideoManyTracks four_cc \<Rightarrow> tracks (Some four_cc) False
         | VideoUnknownMultitrack _ four_cc \<Rightarrow> tracks (Some four_cc) False
         | VideoManyTracksManyCodecs \<Rightarrow> tracks None False)"

section \<open>Tags\<close>

definition read_legacy_audio_body :: "'p media_ops \<Rightarrow> u8 \<Rightarrow> ('p, 'p legacy_audio_body) flv_op" where
  "read_legacy_audio_body ops format =
     (if format = 10 then
        sbind (cursor_read_u8 ops) (\<lambda>packet_type.
        sbind (take_rest ops) (\<lambda>data.
          sret (if packet_type = 0 then AacSequenceHeader data
                else if packet_type = 1 then AacRaw data
                else AacUnknown packet_type data)))
      else sbind (take_rest ops) (\<lambda>data. sret (LegacyAudioOther data)))"

definition audio_tag :: "'p media_ops \<Rightarrow> ('p, 'p parsed_audio) flv_op" where
  "audio_tag ops =
     sbind (cursor_read_u8 ops) (\<lambda>first.
       let format = drop_bit 4 first in
       if format \<noteq> 9 then
         sbind (read_legacy_audio_body ops format) (\<lambda>body.
           sret (ParsedAudio
             (AudioLegacyHeader \<lparr>sound_format = format, sound_rate = drop_bit 2 first AND 3, sound_size = drop_bit 1 first AND 1,
                sound_type = first AND 1\<rparr>)
             (AudioLegacyBody body)))
       else
         sbind (read_enhanced_audio_header ops (first AND 0x0F)) (\<lambda>header.
         sbind (read_enhanced_audio_body ops header) (\<lambda>body.
           sret (ParsedAudio (AudioEnhancedHeader header) (AudioEnhancedBody body)))))"

definition legacy_video_tag ::
    "'p media_ops \<Rightarrow> u8 \<Rightarrow> u8 \<Rightarrow> ('p, legacy_video_header \<times> 'p legacy_video_body) flv_op" where
  "legacy_video_tag ops frame_type codec_id =
     (if codec_id = 7 then
        sbind (cursor_read_u8 ops) (\<lambda>packet_type.
        sbind (cursor_read_u24 ops) (\<lambda>composition_time_offset.
          if packet_type = 0 then
            sbind (take_rest ops) (\<lambda>data.
            sbind (validate_avc_decoder_config ops data) (\<lambda>_.
              sret (AvcPacket AvcSequenceHeaderPacket, AvcSequenceHeaderBody data)))
          else
            sbind (take_rest ops) (\<lambda>data.
              sret (AvcPacket
                (if packet_type = 1 then AvcNalu (sign_extend_cts composition_time_offset)
                 else if packet_type = 2 then AvcEndOfSequence
                 else AvcUnknown packet_type composition_time_offset), LegacyVideoOther data))))
      else if frame_type = 5 then
        sbind (cursor_read_u8 ops) (\<lambda>command. sret (LegacyVideoCommand command, LegacyCommandBody))
      else sbind (take_rest ops) (\<lambda>data. sret (LegacyVideoOtherHeader codec_id, LegacyVideoOther data)))"

definition video_tag :: "'p media_ops \<Rightarrow> ('p, 'p parsed_video) flv_op" where
  "video_tag ops =
     sbind (cursor_read_u8 ops) (\<lambda>first.
       let frame_type = drop_bit 4 first AND 7 in
       if first AND 0x80 = 0 then
         sbind (legacy_video_tag ops frame_type (first AND 0x0F)) (\<lambda>(header, body).
           sret (ParsedVideo \<lparr>vt_frame_type = frame_type, vt_data = VideoLegacyHeader header\<rparr> (VideoLegacyBody body)))
       else
         sbind (read_enhanced_video_header ops frame_type (first AND 0x0F)) (\<lambda>header.
         sbind (read_enhanced_video_body ops header) (\<lambda>body.
           sret (ParsedVideo \<lparr>vt_frame_type = frame_type, vt_data = VideoEnhancedHeader header\<rparr> (VideoEnhancedBody body)))))"

definition demux_audio :: "'p media_ops \<Rightarrow> 'p \<Rightarrow> flv_error + 'p parsed_audio" where
  "demux_audio ops raw = snd (audio_tag ops (cursor_new raw))"

definition demux_video :: "'p media_ops \<Rightarrow> 'p \<Rightarrow> flv_error + 'p parsed_video" where
  "demux_video ops raw = snd (video_tag ops (cursor_new raw))"

end
