(* ===== verification/Flv_Refine.thy ===== *)
theory Flv_Refine
  imports Flv "HOL-Library.Sublist"
begin

text \<open>
  The tag parser does not depend on how the bytes are stored: over any \<open>MediaData\<close> it reads what it reads of the
  contiguous contents, returns the slices of those, and never panics or runs out of fuel.
\<close>

section \<open>Storage\<close>

text \<open>What \<open>MediaData\<close> promises beyond the segments: slices within range have the sliced contents.\<close>

locale media_data = segments "mo_segments ops" wf contents
  for ops :: "'p media_ops" and wf :: "'p \<Rightarrow> bool" and contents :: "'p \<Rightarrow> bytes" +
  assumes slice_law: "wf p \<Longrightarrow> start \<le> stop \<Longrightarrow> stop \<le> length (contents p) \<Longrightarrow>
    \<exists>q. mo_slice ops p start stop = Some q \<and> wf q \<and> contents q = take (stop - start) (drop start (contents p))"
begin

text \<open>A cursor between operations: its position is in the first segment or at its end.\<close>

definition cur_ok :: "'p cursor \<Rightarrow> bool" where
  "cur_ok c \<longleftrightarrow> wf (cu_raw c) \<and> cu_pos c \<le> length (contents (cu_raw c))
     \<and> (\<forall>b. seg_at (mo_segments ops) (cu_raw c) 0 = Some b \<and> contents (cu_raw c) \<noteq> [] \<longrightarrow> cu_pos c \<le> length b)"

definition unread :: "'p cursor \<Rightarrow> bytes" where
  "unread c = drop (cu_pos c) (contents (cu_raw c))"

lemma head_segment:
  assumes "wf p" and "contents p \<noteq> []"
  shows "\<exists>b tl. seg_at (mo_segments ops) p 0 = Some b \<and> b \<noteq> [] \<and> contents p = b @ tl"
proof -
  have n: "0 < seg_count (mo_segments ops) p"
    using contents_concat [OF assms(1)] assms(2) by (cases "seg_count (mo_segments ops) p") auto
  then obtain b where b: "seg_at (mo_segments ops) p 0 = Some b" "b \<noteq> []"
    using at_valid [OF assms(1)] by blast
  have "[0..<seg_count (mo_segments ops) p] = 0 # [1..<seg_count (mo_segments ops) p]"
    using n by (simp add: upt_conv_Cons)
  then have "contents p = b @ concat (map (\<lambda>i. the (seg_at (mo_segments ops) p i)) [1..<seg_count (mo_segments ops) p])"
    using contents_concat [OF assms(1)] b by simp
  with b show ?thesis by blast
qed

lemma cursor_new_ok: "wf p \<Longrightarrow> cur_ok (cursor_new p) \<and> unread (cursor_new p) = contents p"
  by (simp add: cur_ok_def cursor_new_def unread_def)

lemma remaining_unread [simp]: "cur_ok c \<Longrightarrow> remaining ops c = length (unread c)"
  by (simp add: remaining_def cursor_len_def unread_def cur_ok_def len_contents)

lemma commit_spec:
  assumes "cur_ok c"
  shows "\<exists>c'. commit ops c = (c', Inr ()) \<and> cur_ok c' \<and> cu_pos c' = 0 \<and> contents (cu_raw c') = unread c"
proof (cases "cu_pos c = 0")
  case True
  then show ?thesis
    using assms by (auto simp: commit_def sbind_def sget_def sret_def unread_def)
next
  case False
  have wf: "wf (cu_raw c)" "cu_pos c \<le> length (contents (cu_raw c))"
    using assms by (auto simp: cur_ok_def)
  then obtain q where q: "mo_slice ops (cu_raw c) (cu_pos c) (length (contents (cu_raw c))) = Some q" "wf q"
      "contents q = drop (cu_pos c) (contents (cu_raw c))"
    using slice_law [OF wf(1), of "cu_pos c" "length (contents (cu_raw c))"] by auto
  then show ?thesis
    using False wf by (simp add: commit_def cursor_slice_def cursor_len_def len_contents sbind_def sget_def sret_def smodify_def
        cur_ok_def unread_def)
qed

lemma read_u8_spec:
  assumes "cur_ok c"
  shows "unread c = [] \<Longrightarrow> cursor_read_u8 ops c = (c, Inl flv_truncated)"
    and "unread c = b # bs \<Longrightarrow> \<exists>c'. cursor_read_u8 ops c = (c', Inr b) \<and> cur_ok c' \<and> unread c' = bs"
proof -
  show "cursor_read_u8 ops c = (c, Inl flv_truncated)" if "unread c = []"
    using that assms by (simp add: cursor_read_u8_def sbind_def sget_def sfail_def)
  assume unread: "unread c = b # bs"
  have wf: "wf (cu_raw c)" and ne: "contents (cu_raw c) \<noteq> []"
    using assms unread by (auto simp: cur_ok_def unread_def)
  then obtain s tl where s: "seg_at (mo_segments ops) (cu_raw c) 0 = Some s" "s \<noteq> []" "contents (cu_raw c) = s @ tl"
    using head_segment by blast
  have pos: "cu_pos c \<le> length s"
    using assms s ne by (auto simp: cur_ok_def)
  show "\<exists>c'. cursor_read_u8 ops c = (c', Inr b) \<and> cur_ok c' \<and> unread c' = bs"
  proof (cases "cu_pos c = length s")
    case False
    then have "s ! cu_pos c = b" "drop (cu_pos c + 1) (contents (cu_raw c)) = bs"
      using unread pos s(3) by (auto simp: unread_def drop_Suc nth_append Cons_nth_drop_Suc [symmetric])
    then show ?thesis
      using False pos unread assms s ne
      by (auto simp: cursor_read_u8_def first_segment_def sbind_def sget_def sret_def smodify_def cur_ok_def unread_def)
  next
    case True
    obtain c1 where c1: "commit ops c = (c1, Inr ())" "cur_ok c1" "cu_pos c1 = 0" "contents (cu_raw c1) = b # bs"
      using commit_spec [OF assms] unread by auto
    obtain s1 tl1 where s1: "seg_at (mo_segments ops) (cu_raw c1) 0 = Some s1" "s1 \<noteq> []" "contents (cu_raw c1) = s1 @ tl1"
      using head_segment [of "cu_raw c1"] c1 by (auto simp: cur_ok_def)
    then have "s1 ! 0 = b" "0 < length s1"
      using c1(4) by (cases s1; auto)+
    then show ?thesis
      using True unread assms s c1 s1
      by (auto simp: cursor_read_u8_def first_segment_def sbind_def sget_def sret_def smodify_def cur_ok_def unread_def Suc_le_eq)
  qed
qed

lemma take_spec:
  assumes "cur_ok c"
  shows "length (unread c) < n \<Longrightarrow> cursor_take ops n c = (c, Inl flv_truncated)"
    and "n \<le> length (unread c) \<Longrightarrow> \<exists>c' q. cursor_take ops n c = (c', Inr q) \<and> cur_ok c' \<and> unread c' = drop n (unread c)
      \<and> wf q \<and> contents q = take n (unread c)"
proof -
  show "cursor_take ops n c = (c, Inl flv_truncated)" if "length (unread c) < n"
    using that assms by (simp add: cursor_take_def sbind_def sget_def sfail_def)
  assume n: "n \<le> length (unread c)"
  obtain c1 where c1: "commit ops c = (c1, Inr ())" "cur_ok c1" "cu_pos c1 = 0" "contents (cu_raw c1) = unread c"
    using commit_spec [OF assms] by auto
  have wf: "wf (cu_raw c1)"
    using c1(2) by (simp add: cur_ok_def)
  obtain q where q: "mo_slice ops (cu_raw c1) 0 n = Some q" "wf q" "contents q = take n (unread c)"
    using slice_law [OF wf, of 0 n] n c1(4) by auto
  obtain r where r: "mo_slice ops (cu_raw c1) n (length (unread c)) = Some r" "wf r" "contents r = drop n (unread c)"
    using slice_law [OF wf, of n "length (unread c)"] n c1(4) by auto
  show "\<exists>c' q. cursor_take ops n c = (c', Inr q) \<and> cur_ok c' \<and> unread c' = drop n (unread c)
      \<and> wf q \<and> contents q = take n (unread c)"
    using n assms c1 q r wf
    by (auto simp: cursor_take_def cursor_slice_def cursor_len_def len_contents sbind_def sget_def sret_def smodify_def
        cur_ok_def unread_def)
qed

lemma take_rest_spec:
  assumes "cur_ok c"
  shows "\<exists>c' q. take_rest ops c = (c', Inr q) \<and> cur_ok c' \<and> unread c' = [] \<and> wf q \<and> contents q = unread c"
proof -
  obtain c1 where c1: "commit ops c = (c1, Inr ())" "cur_ok c1" "cu_pos c1 = 0" "contents (cu_raw c1) = unread c"
    using commit_spec [OF assms] by auto
  have wf: "wf (cu_raw c1)"
    using c1(2) by (simp add: cur_ok_def)
  obtain r where r: "mo_slice ops (cu_raw c1) (length (unread c)) (length (unread c)) = Some r" "wf r" "contents r = []"
    using slice_law [OF wf, of "length (unread c)" "length (unread c)"] c1(4) by auto
  show ?thesis
    using c1 r wf by (auto simp: take_rest_def cursor_slice_def cursor_len_def len_contents sbind_def sget_def sret_def
        smodify_def cur_ok_def unread_def)
qed

end

interpretation bm: media_data bytes_media "\<lambda>_. True" "\<lambda>b. b"
proof -
  have "mo_segments bytes_media = slice_ops" "mo_slice bytes_media = bytes_slice"
    by (simp_all add: bytes_media_def)
  then show "media_data bytes_media (\<lambda>_. True) (\<lambda>b. b)"
    using slice_seg.segments_axioms by (simp add: media_data_def media_data_axioms_def bytes_slice_def)
qed

interpretation vm: media_data view_media payload_seg.view_wf payload_seg.view_contents
proof -
  have "mo_segments view_media = view_ops payload_ops" "mo_slice view_media = view_slice payload_ops"
    by (simp_all add: view_media_def)
  then show "media_data view_media payload_seg.view_wf payload_seg.view_contents"
    using view_seg.segments_axioms payload_seg.view_slice_spec payload_seg.view_contents_length
    by (simp add: media_data_def media_data_axioms_def)
qed

section \<open>Two parsers side by side\<close>

text \<open>
  Both operations succeed with related results, or both fail with the same error, which is none of those that stand
  for a panic or for missing fuel.
\<close>

definition rwp :: "('s, flv_error, 'a) op \<Rightarrow> ('t, flv_error, 'b) op \<Rightarrow> ('a \<Rightarrow> 'b \<Rightarrow> 's \<Rightarrow> 't \<Rightarrow> bool) \<Rightarrow> 's \<Rightarrow> 't \<Rightarrow> bool" where
  "rwp m n Q c d \<longleftrightarrow>
     (case (m c, n d) of
        ((c', Inr x), (d', Inr y)) \<Rightarrow> Q x y c' d'
      | ((c', Inl e), (d', Inl e')) \<Rightarrow> e = e' \<and> e \<noteq> FlvPanic \<and> e \<noteq> FlvOutOfFuel
      | _ \<Rightarrow> False)"

lemma rwp_sbindI: "rwp m n (\<lambda>x y. rwp (f x) (g y) Q) c d \<Longrightarrow> rwp (sbind m f) (sbind n g) Q c d"
  by (cases "m c"; cases "n d"; cases "snd (m c)"; cases "snd (n d)") (auto simp: rwp_def sbind_def)

lemma rwp_sret: "rwp (sret x) (sret y) Q c d = Q x y c d"
  by (simp add: rwp_def sret_def)

lemma rwp_sfail: "rwp (sfail e) (sfail e') Q c d \<longleftrightarrow> e = e' \<and> e \<noteq> FlvPanic \<and> e \<noteq> FlvOutOfFuel"
  by (simp add: rwp_def sfail_def)

lemma rwp_sget: "rwp (sget f) (sget g) Q c d = Q (f c) (g d) c d"
  by (simp add: rwp_def sget_def)

lemma rwp_result:
  "rwp m n (\<lambda>x y c' d'. y = f x \<and> P x) c d \<Longrightarrow>
     map_sum id f (snd (m c)) = snd (n d) \<and> snd (m c) \<noteq> Inl FlvPanic \<and> snd (m c) \<noteq> Inl FlvOutOfFuel
     \<and> (\<forall>x. snd (m c) = Inr x \<longrightarrow> P x)"
  by (cases "m c"; cases "n d"; cases "snd (m c)"; cases "snd (n d)") (auto simp: rwp_def)

lemmas rwp_simps = rwp_sret rwp_sfail rwp_sget

text \<open>The two cursors of a run over a body with contents \<open>raw\<close>.\<close>

locale media_body = media_data ops wf contents
  for ops :: "'p media_ops" and wf :: "'p \<Rightarrow> bool" and contents :: "'p \<Rightarrow> bytes" +
  fixes raw :: bytes
begin

definition related :: "'p cursor \<Rightarrow> bytes cursor \<Rightarrow> bool" where
  "related c d \<longleftrightarrow> cur_ok c \<and> bm.cur_ok d \<and> unread c = bm.unread d \<and> suffix (bm.unread d) raw"

definition slices :: "'p set" where
  "slices = {p. wf p \<and> sublist (contents p) raw}"

lemma take_in_slices:
  assumes "wf p" and "contents p = take n bs" and "suffix bs raw"
  shows "p \<in> slices"
proof -
  have "sublist (take n bs) bs"
    by (intro prefix_imp_sublist take_is_prefix)
  also have "sublist bs raw"
    using assms(3) by (rule suffix_imp_sublist)
  finally show ?thesis
    using assms by (simp add: slices_def)
qed

lemma related_remaining: "related c d \<Longrightarrow> remaining ops c = length (bm.unread d) \<and> remaining bytes_media d = length (bm.unread d)"
  by (simp add: related_def)

lemma rwp_u8:
  assumes "related c d" and "\<And>b c' d'. related c' d' \<Longrightarrow> length (bm.unread d') < length (bm.unread d) \<Longrightarrow> Q b b c' d'"
  shows "rwp (cursor_read_u8 ops) (cursor_read_u8 bytes_media) Q c d"
proof (cases "unread c")
  case Nil
  then show ?thesis
    using assms(1) read_u8_spec(1) [of c] bm.read_u8_spec(1) [of d] by (simp add: rwp_def related_def flv_truncated_def)
next
  case (Cons b bs)
  obtain c' where c': "cursor_read_u8 ops c = (c', Inr b)" "cur_ok c'" "unread c' = bs"
    using read_u8_spec(2) [OF _ Cons] assms(1) by (auto simp: related_def)
  obtain d' where d': "cursor_read_u8 bytes_media d = (d', Inr b)" "bm.cur_ok d'" "bm.unread d' = bs"
    using bm.read_u8_spec(2) [of d b bs] assms(1) Cons by (auto simp: related_def)
  have "bm.unread d = b # bs"
    using Cons assms(1) by (simp add: related_def)
  then have "Q b b c' d'"
    using c' d' assms(1) by (intro assms(2)) (auto simp: related_def dest: suffix_ConsD)
  then show ?thesis
    using c' d' by (simp add: rwp_def)
qed

lemma rwp_take:
  assumes "related c d"
    and "\<And>p c' d'. related c' d' \<Longrightarrow> length (bm.unread d') \<le> length (bm.unread d) \<Longrightarrow> wf p \<Longrightarrow> p \<in> slices \<Longrightarrow> Q p (contents p) c' d'"
  shows "rwp (cursor_take ops n) (cursor_take bytes_media n) Q c d"
proof (cases "n \<le> length (unread c)")
  case False
  then show ?thesis
    using assms(1) take_spec(1) [of c n] bm.take_spec(1) [of d n] by (simp add: rwp_def related_def flv_truncated_def)
next
  case True
  obtain c' p where c': "cursor_take ops n c = (c', Inr p)" "cur_ok c'" "unread c' = drop n (unread c)" "wf p"
      "contents p = take n (unread c)"
    using take_spec(2) [OF _ True] assms(1) by (auto simp: related_def)
  obtain d' where d': "cursor_take bytes_media n d = (d', Inr (take n (unread c)))" "bm.cur_ok d'" "bm.unread d' = drop n (unread c)"
    using bm.take_spec(2) [of d n] assms(1) True by (auto simp: related_def)
  have "Q p (contents p) c' d'"
    using c' d' assms(1)
    by (intro assms(2)) (auto simp: related_def intro: take_in_slices suffix_order.order_trans [OF suffix_drop])
  then show ?thesis
    using c' d' by (simp add: rwp_def)
qed

lemma rwp_take_rest:
  assumes "related c d" and "\<And>p c' d'. related c' d' \<Longrightarrow> bm.unread d' = [] \<Longrightarrow> wf p \<Longrightarrow> p \<in> slices \<Longrightarrow> Q p (contents p) c' d'"
  shows "rwp (take_rest ops) (take_rest bytes_media) Q c d"
proof -
  obtain c' p where c': "take_rest ops c = (c', Inr p)" "cur_ok c'" "unread c' = []" "wf p" "contents p = unread c"
    using take_rest_spec [of c] assms(1) by (auto simp: related_def)
  obtain d' where d': "take_rest bytes_media d = (d', Inr (unread c))" "bm.cur_ok d'" "bm.unread d' = []"
    using bm.take_rest_spec [of d] assms(1) by (auto simp: related_def)
  have "Q p (contents p) c' d'"
    using c' d' assms(1) by (intro assms(2)) (auto simp: related_def intro: take_in_slices [where n = "length (unread c)" and bs = "unread c"])
  then show ?thesis
    using c' d' by (simp add: rwp_def)
qed

text \<open>Derived reads.\<close>

lemma rwp_u16:
  assumes "related c d" and "\<And>x c' d'. related c' d' \<Longrightarrow> length (bm.unread d') < length (bm.unread d) \<Longrightarrow> Q x x c' d'"
  shows "rwp (cursor_read_u16 ops) (cursor_read_u16 bytes_media) Q c d"
  using assms unfolding cursor_read_u16_def by (auto simp: rwp_simps intro!: rwp_sbindI rwp_u8)

lemma rwp_u24:
  assumes "related c d" and "\<And>x c' d'. related c' d' \<Longrightarrow> length (bm.unread d') < length (bm.unread d) \<Longrightarrow> Q x x c' d'"
  shows "rwp (cursor_read_u24 ops) (cursor_read_u24 bytes_media) Q c d"
  using assms unfolding cursor_read_u24_def by (auto simp: rwp_simps intro!: rwp_sbindI rwp_u8)

lemma rwp_i24:
  assumes "related c d" and "\<And>x c' d'. related c' d' \<Longrightarrow> length (bm.unread d') < length (bm.unread d) \<Longrightarrow> Q x x c' d'"
  shows "rwp (cursor_read_i24 ops) (cursor_read_i24 bytes_media) Q c d"
  using assms unfolding cursor_read_i24_def by (auto simp: rwp_simps intro!: rwp_sbindI rwp_u24)

lemma rwp_fourcc:
  assumes "related c d" and "\<And>x c' d'. related c' d' \<Longrightarrow> length (bm.unread d') < length (bm.unread d) \<Longrightarrow> Q x x c' d'"
  shows "rwp (read_fourcc ops) (read_fourcc bytes_media) Q c d"
  using assms unfolding read_fourcc_def by (auto simp: rwp_simps intro!: rwp_sbindI rwp_u8)

lemma same_len: "wf p \<Longrightarrow> cursor_len ops p = length (contents p)"
  by (simp add: cursor_len_def len_contents)

lemma bytes_len: "cursor_len bytes_media b = length b"
  using bm.len_contents by (simp add: cursor_len_def)

lemma rwp_validate:
  assumes "wf p" and "Q () () c d" and "0 < least"
  shows "rwp (validate_config ops least magic reason p) (validate_config bytes_media least magic reason (contents p)) Q c d"
proof (cases "length (contents p) < least")
  case True
  then show ?thesis
    using assms(1) by (simp add: validate_config_def same_len bytes_len rwp_sfail)
next
  case False
  then have ne: "contents p \<noteq> []"
    using assms(3) by auto
  obtain b tl where b: "seg_at (mo_segments ops) p 0 = Some b" "b \<noteq> []" "contents p = b @ tl"
    using head_segment [OF assms(1) ne] by blast
  then obtain x xs where x: "b = x # xs"
    by (cases b) auto
  have "seg_at (mo_segments bytes_media) (contents p) 0 = Some (contents p)"
    using ne by (simp add: bytes_media_def slice_ops_def slice_segment_def)
  then show ?thesis
    using False b x assms(1,2) by (simp add: validate_config_def same_len bytes_len rwp_sfail rwp_sret)
qed

text \<open>The parser. A continuation \<open>Q\<close> gets a result and the same result over the contents of its slices.\<close>

lemma rwp_read_modex:
  assumes "related c d" and "\<And>x c' d'. related c' d' \<Longrightarrow> length (bm.unread d') < length (bm.unread d) \<Longrightarrow> Q x x c' d'"
  shows "rwp (read_modex ops) (read_modex bytes_media) Q c d"
  using assms unfolding read_modex_def
  by (auto simp: rwp_simps same_len bytes_len intro!: rwp_sbindI rwp_u8 rwp_u16 rwp_take)

lemma rwp_modex_loop:
  assumes "related c d" and "length (bm.unread d) < fuel"
    and "\<And>x c' d'. related c' d' \<Longrightarrow> length (bm.unread d') \<le> length (bm.unread d) \<Longrightarrow> Q x x c' d'"
  shows "rwp (modex_loop ops fuel packet_type unknown) (modex_loop bytes_media fuel packet_type unknown) Q c d"
  using assms
proof (induction fuel arbitrary: packet_type unknown c d)
  case (Suc fuel)
  show ?case
    using Suc.prems by (auto simp: rwp_simps intro!: rwp_sbindI rwp_read_modex Suc.IH split: prod.splits)
qed simp

lemma rwp_multitrack_fourcc:
  assumes "related c d" and "\<And>x c' d'. related c' d' \<Longrightarrow> length (bm.unread d') \<le> length (bm.unread d) \<Longrightarrow> Q x x c' d'"
  shows "rwp (read_multitrack_fourcc ops t) (read_multitrack_fourcc bytes_media t) Q c d"
  using assms unfolding read_multitrack_fourcc_def by (auto simp: rwp_simps intro!: rwp_fourcc)

lemma rwp_read_enhanced_audio_header:
  assumes "related c d" and "\<And>x c' d'. related c' d' \<Longrightarrow> Q x x c' d'"
  shows "rwp (read_enhanced_audio_header ops initial) (read_enhanced_audio_header bytes_media initial) Q c d"
  using assms unfolding read_enhanced_audio_header_def
  by (auto simp: rwp_simps related_remaining Let_def multitrack_error_def simp del: modex_loop.simps
      intro!: rwp_sbindI rwp_modex_loop rwp_u8 rwp_fourcc rwp_multitrack_fourcc split: prod.splits)

lemma rwp_read_enhanced_video_header:
  assumes "related c d" and "\<And>x c' d'. related c' d' \<Longrightarrow> Q x x c' d'"
  shows "rwp (read_enhanced_video_header ops frame initial) (read_enhanced_video_header bytes_media frame initial) Q c d"
  using assms unfolding read_enhanced_video_header_def
  by (auto simp: rwp_simps related_remaining Let_def multitrack_error_def simp del: modex_loop.simps
      intro!: rwp_sbindI rwp_modex_loop rwp_u8 rwp_fourcc rwp_multitrack_fourcc split: prod.splits)

lemma rwp_sized_payload:
  assumes "related c d"
    and "\<And>p c' d'. related c' d' \<Longrightarrow> length (bm.unread d') \<le> length (bm.unread d) \<Longrightarrow> wf p \<Longrightarrow> p \<in> slices \<Longrightarrow> Q p (contents p) c' d'"
  shows "rwp (sized_payload ops n) (sized_payload bytes_media n) Q c d"
  using assms unfolding sized_payload_def by (auto intro!: rwp_take rwp_take_rest split: option.splits)

lemma rwp_read_size:
  assumes "related c d" and "\<And>x c' d'. related c' d' \<Longrightarrow> length (bm.unread d') \<le> length (bm.unread d) \<Longrightarrow> Q x x c' d'"
  shows "rwp (read_size ops sized) (read_size bytes_media sized) Q c d"
  using assms unfolding read_size_def by (auto simp: rwp_simps intro!: rwp_sbindI rwp_u24)

lemma rwp_read_audio_packet:
  assumes "related c d"
    and "\<And>x c' d'. related c' d' \<Longrightarrow> length (bm.unread d') \<le> length (bm.unread d) \<Longrightarrow> (\<forall>p\<in>set_audio_packet x. p \<in> slices) \<Longrightarrow> Q x (map_audio_packet contents x) c' d'"
  shows "rwp (read_audio_packet ops t sized) (read_audio_packet bytes_media t sized) Q c d"
proof -
  have Q: "Q x y c' d'" if "related c' d'" "length (bm.unread d') \<le> length (bm.unread d)" "y = map_audio_packet contents x" "(\<forall>p\<in>set_audio_packet x. p \<in> slices)" for x y c' d'
    using assms(2) that by simp
  show ?thesis
    using assms(1) unfolding read_audio_packet_def
    by (auto simp: rwp_simps intro!: rwp_sbindI rwp_read_size rwp_u8 rwp_take rwp_sized_payload Q)
qed

lemma rwp_read_video_packet:
  assumes "related c d"
    and "\<And>x c' d'. related c' d' \<Longrightarrow> length (bm.unread d') \<le> length (bm.unread d) \<Longrightarrow> (\<forall>p\<in>set_video_packet x. p \<in> slices) \<Longrightarrow> Q x (map_video_packet contents x) c' d'"
  shows "rwp (read_video_packet ops t four_cc sized) (read_video_packet bytes_media t four_cc sized) Q c d"
proof -
  have Q: "Q x y c' d'" if "related c' d'" "length (bm.unread d') \<le> length (bm.unread d)" "y = map_video_packet contents x" "(\<forall>p\<in>set_video_packet x. p \<in> slices)" for x y c' d'
    using assms(2) that by simp
  show ?thesis
    using assms(1) unfolding read_video_packet_def validate_avc_decoder_config_def validate_hevc_decoder_config_def
      validate_av1_decoder_config_def
    by (auto simp: rwp_simps intro!: rwp_sbindI rwp_read_size rwp_i24 rwp_take rwp_take_rest rwp_sized_payload rwp_validate Q
        split: option.splits)
qed

lemma rwp_shared_fourcc:
  assumes "related c d" and "\<And>x c' d'. related c' d' \<Longrightarrow> length (bm.unread d') \<le> length (bm.unread d) \<Longrightarrow> Q x x c' d'"
  shows "rwp (case shared of None \<Rightarrow> read_fourcc ops | Some f \<Rightarrow> sret f)
    (case shared of None \<Rightarrow> read_fourcc bytes_media | Some f \<Rightarrow> sret f) Q c d"
  using assms by (auto simp: rwp_simps intro!: rwp_fourcc split: option.splits)

lemma rwp_audio_tracks:
  assumes "related c d" and "length (bm.unread d) < fuel"
    and "\<And>x c' d'. related c' d' \<Longrightarrow> (\<forall>t\<in>set x. \<forall>p\<in>set_audio_track t. p \<in> slices) \<Longrightarrow> Q x (map (map_audio_track contents) x) c' d'"
  shows "rwp (audio_tracks_loop ops fuel t shared single) (audio_tracks_loop bytes_media fuel t shared single) Q c d"
  using assms
proof (induction fuel arbitrary: c d Q single)
  case (Suc fuel)
  have Q: "Q x y c' d'" if "related c' d'" "y = map (map_audio_track contents) x" "(\<forall>t\<in>set x. \<forall>p\<in>set_audio_track t. p \<in> slices)" for x y c' d'
    using Suc.prems(3) that by simp
  show ?case
    using Suc.prems(1,2)
    by (auto simp: rwp_simps related_remaining intro!: rwp_sbindI rwp_shared_fourcc rwp_u8 rwp_read_audio_packet Suc.IH Q)
qed simp

lemma rwp_video_tracks:
  assumes "related c d" and "length (bm.unread d) < fuel"
    and "\<And>x c' d'. related c' d' \<Longrightarrow> (\<forall>t\<in>set x. \<forall>p\<in>set_video_track t. p \<in> slices) \<Longrightarrow> Q x (map (map_video_track contents) x) c' d'"
  shows "rwp (video_tracks_loop ops fuel t shared single) (video_tracks_loop bytes_media fuel t shared single) Q c d"
  using assms
proof (induction fuel arbitrary: c d Q single)
  case (Suc fuel)
  have Q: "Q x y c' d'" if "related c' d'" "y = map (map_video_track contents) x" "(\<forall>t\<in>set x. \<forall>p\<in>set_video_track t. p \<in> slices)" for x y c' d'
    using Suc.prems(3) that by simp
  show ?case
    using Suc.prems(1,2)
    by (auto simp: rwp_simps related_remaining intro!: rwp_sbindI rwp_shared_fourcc rwp_u8 rwp_read_video_packet Suc.IH Q)
qed simp

lemma rwp_read_enhanced_audio_body:
  assumes "related c d" and "\<And>x c' d'. related c' d' \<Longrightarrow> (\<forall>p\<in>set_enhanced_audio_body x. p \<in> slices) \<Longrightarrow> Q x (map_enhanced_audio_body contents x) c' d'"
  shows "rwp (read_enhanced_audio_body ops header) (read_enhanced_audio_body bytes_media header) Q c d"
proof -
  have Q: "Q x y c' d'" if "related c' d'" "y = map_enhanced_audio_body contents x" "(\<forall>p\<in>set_enhanced_audio_body x. p \<in> slices)" for x y c' d'
    using assms(2) that by simp
  show ?thesis
    using assms(1) unfolding read_enhanced_audio_body_def
    by (auto simp: rwp_simps related_remaining Let_def simp del: audio_tracks_loop.simps
        intro!: rwp_sbindI rwp_read_audio_packet rwp_audio_tracks Q
        split: audio_header_content.splits)
qed

lemma rwp_read_enhanced_video_body:
  assumes "related c d" and "\<And>x c' d'. related c' d' \<Longrightarrow> (\<forall>p\<in>set_enhanced_video_body x. p \<in> slices) \<Longrightarrow> Q x (map_enhanced_video_body contents x) c' d'"
  shows "rwp (read_enhanced_video_body ops header) (read_enhanced_video_body bytes_media header) Q c d"
proof -
  have Q: "Q x y c' d'" if "related c' d'" "y = map_enhanced_video_body contents x" "(\<forall>p\<in>set_enhanced_video_body x. p \<in> slices)" for x y c' d'
    using assms(2) that by simp
  show ?thesis
    using assms(1) unfolding read_enhanced_video_body_def
    by (auto simp: rwp_simps related_remaining Let_def simp del: video_tracks_loop.simps
        intro!: rwp_sbindI rwp_read_video_packet rwp_video_tracks Q
        split: video_header_content.splits)
qed

lemma rwp_read_legacy_audio_body:
  assumes "related c d" and "\<And>x c' d'. related c' d' \<Longrightarrow> (\<forall>p\<in>set_legacy_audio_body x. p \<in> slices) \<Longrightarrow> Q x (map_legacy_audio_body contents x) c' d'"
  shows "rwp (read_legacy_audio_body ops format) (read_legacy_audio_body bytes_media format) Q c d"
proof -
  have Q: "Q x y c' d'" if "related c' d'" "y = map_legacy_audio_body contents x" "(\<forall>p\<in>set_legacy_audio_body x. p \<in> slices)" for x y c' d'
    using assms(2) that by simp
  show ?thesis
    using assms(1) unfolding read_legacy_audio_body_def
    by (auto simp: rwp_simps intro!: rwp_sbindI rwp_u8 rwp_take_rest Q)
qed

lemma rwp_legacy_video_tag:
  assumes "related c d"
    and "\<And>h x c' d'. related c' d' \<Longrightarrow> (\<forall>p\<in>set_legacy_video_body x. p \<in> slices) \<Longrightarrow> Q (h, x) (h, map_legacy_video_body contents x) c' d'"
  shows "rwp (legacy_video_tag ops frame codec) (legacy_video_tag bytes_media frame codec) Q c d"
proof -
  have Q: "Q (h, x) (h, y) c' d'" if "related c' d'" "y = map_legacy_video_body contents x" "(\<forall>p\<in>set_legacy_video_body x. p \<in> slices)" for h x y c' d'
    using assms(2) that by simp
  show ?thesis
    using assms(1) unfolding legacy_video_tag_def validate_avc_decoder_config_def
    by (auto simp: rwp_simps intro!: rwp_sbindI rwp_u8 rwp_u24 rwp_take_rest rwp_validate Q)
qed

lemma rwp_audio_tag:
  assumes "related c d"
  shows "rwp (audio_tag ops) (audio_tag bytes_media) (\<lambda>x y c' d'. y = map_parsed_audio contents x \<and> (\<forall>p\<in>set_parsed_audio x. p \<in> slices)) c d"
  using assms unfolding audio_tag_def
  by (auto simp: rwp_simps Let_def intro!: rwp_sbindI rwp_u8 rwp_read_legacy_audio_body rwp_read_enhanced_audio_header rwp_read_enhanced_audio_body)

lemma rwp_video_tag:
  assumes "related c d"
  shows "rwp (video_tag ops) (video_tag bytes_media) (\<lambda>x y c' d'. y = map_parsed_video contents x \<and> (\<forall>p\<in>set_parsed_video x. p \<in> slices)) c d"
  using assms unfolding video_tag_def
  by (auto simp: rwp_simps Let_def intro!: rwp_sbindI rwp_u8 rwp_legacy_video_tag rwp_read_enhanced_video_header rwp_read_enhanced_video_body)

lemma new_related: "wf p \<Longrightarrow> contents p = raw \<Longrightarrow> related (cursor_new p) (cursor_new (contents p))"
  using cursor_new_ok bm.cursor_new_ok by (simp add: related_def)

lemma demux_audio_contents:
  assumes "wf p" and "contents p = raw"
  shows "map_sum id (map_parsed_audio contents) (demux_audio ops p) = demux_audio bytes_media (contents p)
    \<and> demux_audio ops p \<noteq> Inl FlvPanic \<and> demux_audio ops p \<noteq> Inl FlvOutOfFuel
    \<and> (\<forall>x. demux_audio ops p = Inr x \<longrightarrow> (\<forall>p\<in>set_parsed_audio x. p \<in> slices))"
  unfolding demux_audio_def by (rule rwp_result [OF rwp_audio_tag [OF new_related [OF assms(1,2)]]])

lemma demux_video_contents:
  assumes "wf p" and "contents p = raw"
  shows "map_sum id (map_parsed_video contents) (demux_video ops p) = demux_video bytes_media (contents p)
    \<and> demux_video ops p \<noteq> Inl FlvPanic \<and> demux_video ops p \<noteq> Inl FlvOutOfFuel
    \<and> (\<forall>x. demux_video ops p = Inr x \<longrightarrow> (\<forall>p\<in>set_parsed_video x. p \<in> slices))"
  unfolding demux_video_def by (rule rwp_result [OF rwp_video_tag [OF new_related [OF assms(1,2)]]])

end

interpretation bb: media_body bytes_media "\<lambda>_. True" "\<lambda>b. b" raw for raw
  by (simp add: media_body_def bm.media_data_axioms)

interpretation vb: media_body view_media payload_seg.view_wf payload_seg.view_contents raw for raw
  by (simp add: media_body_def vm.media_data_axioms)

section \<open>Storage does not matter\<close>

text \<open>
  C35 (equivalence). The tag parser over a borrowed view of a segmented payload gives what it gives over the
  coalesced bytes, whatever the segmentation: the same error, or the same tag with the same contents of every slice,
  and each of these is a contiguous part of the body. It never reads or slices out of range, and its loops end.
\<close>

theorem demux_storage_independent:
  assumes "payload_wf p"
  shows "\<exists>v. view_new payload_ops p = Some v
    \<and> map_sum id (map_parsed_audio payload_seg.view_contents) (demux_audio view_media v) = demux_audio bytes_media (payload_contents p)
    \<and> map_sum id (map_parsed_video payload_seg.view_contents) (demux_video view_media v) = demux_video bytes_media (payload_contents p)
    \<and> demux_audio view_media v \<notin> {Inl FlvPanic, Inl FlvOutOfFuel}
    \<and> demux_video view_media v \<notin> {Inl FlvPanic, Inl FlvOutOfFuel}
    \<and> (\<forall>tag. demux_audio view_media v = Inr tag \<longrightarrow>
         (\<forall>q\<in>set_parsed_audio tag. sublist (payload_seg.view_contents q) (payload_contents p)))
    \<and> (\<forall>tag. demux_video view_media v = Inr tag \<longrightarrow>
         (\<forall>q\<in>set_parsed_video tag. sublist (payload_seg.view_contents q) (payload_contents p)))"
proof -
  obtain v where v: "view_new payload_ops p = Some v" "payload_seg.view_wf v" "payload_seg.view_contents v = payload_contents p"
    using payload_seg.view_new_spec [OF assms] by blast
  show ?thesis
    using vb.demux_audio_contents [OF v(2,3)] vb.demux_video_contents [OF v(2,3)] v
    by (intro exI [of _ v]) (simp add: vb.slices_def)
qed

theorem demux_storage_independent_witness:
  "\<exists>v. view_new payload_ops \<lparr>pl_first = [0x91, 0x4f], pl_rest = [[0x70, 0x75], [0x73, 7]], pl_len = 6\<rparr> = Some v
    \<and> map_sum id (map_parsed_audio payload_seg.view_contents) (demux_audio view_media v)
      = Inr (ParsedAudio (AudioEnhancedHeader \<lparr>ah_packet_type = 1, ah_has_unknown_modex = False, ah_content = AudioNoMultitrack (ascii ''Opus'')\<rparr>)
          (AudioEnhancedBody (AudioSinglePacket (ascii ''Opus'') (AudioCodedFrames [7]))))"
proof -
  have "demux_audio bytes_media [0x91, 0x4f, 0x70, 0x75, 0x73, 7]
      = Inr (ParsedAudio (AudioEnhancedHeader \<lparr>ah_packet_type = 1, ah_has_unknown_modex = False, ah_content = AudioNoMultitrack (ascii ''Opus'')\<rparr>)
          (AudioEnhancedBody (AudioSinglePacket (ascii ''Opus'') (AudioCodedFrames [7]))))"
    by code_simp
  then show ?thesis
    using demux_storage_independent [of "\<lparr>pl_first = [0x91, 0x4f], pl_rest = [[0x70, 0x75], [0x73, 7]], pl_len = 6\<rparr>"]
    by (simp add: payload_wf_def payload_contents_def) blast
qed

end
