(* ===== verification/Amf_Value.thy ===== *)
theory Amf_Value
  imports Rtmp_Messages Session_Metadata
begin

text \<open>
  The trait \<open>AmfValue\<close> (\<open>src/src/amf/mod.rs\<close>), which gives the session layer one way to inspect and to build values of either
  encoding: its operations as a record, its two implementations, and its provided functions, with the laws a user of
  the trait relies on as a locale. Insertion into an \<open>IndexMap\<close> is a parameter.
\<close>

type_synonym 'v index_insert = "bytes \<Rightarrow> 'v \<Rightarrow> (bytes \<times> 'v) list \<Rightarrow> (bytes \<times> 'v) list"

text \<open>\<open>IndexMap::insert\<close>: a new key is appended, the value of an old one is replaced in place.\<close>

definition index_insert_ok :: "'v index_insert \<Rightarrow> bool" where
  "index_insert_ok ins \<longleftrightarrow>
     (\<forall>k v m. k \<notin> fst ` set m \<longrightarrow> ins k v m = m @ [(k, v)])
     \<and> (\<forall>k v m. k \<in> fst ` set m \<longrightarrow> ins k v m = map (\<lambda>(k', v'). if k' = k then (k, v) else (k', v')) m)"

record 'v amf_value_ops =
  av_as_str :: "'v \<Rightarrow> bytes option"
  av_as_number :: "'v \<Rightarrow> f64 option"
  av_as_bool :: "'v \<Rightarrow> bool option"
  av_as_properties :: "'v \<Rightarrow> (bytes \<times> 'v) list option"
  av_is_null :: "'v \<Rightarrow> bool"
  av_string :: "bytes \<Rightarrow> 'v"
  av_number :: "f64 \<Rightarrow> 'v"
  av_boolean :: "bool \<Rightarrow> 'v"
  av_null :: 'v
  av_object :: "(bytes \<times> 'v) list \<Rightarrow> 'v"
  av_encoding :: amf_encoding

section \<open>The implementations\<close>

definition index_collect :: "'v index_insert \<Rightarrow> (bytes \<times> 'v) list \<Rightarrow> (bytes \<times> 'v) list" where
  "index_collect ins members = fold (\<lambda>(k, v). ins k v) members []"

definition amf0_is_null :: "amf0_value \<Rightarrow> bool" where
  "amf0_is_null v \<longleftrightarrow> v = A0Null \<or> v = A0Undefined"

definition amf0_value_ops :: "amf0_insert \<Rightarrow> amf0_value amf_value_ops" where
  "amf0_value_ops ins =
     \<lparr>av_as_str = amf0_as_str, av_as_number = amf0_get_number, av_as_bool = amf0_get_boolean, av_as_properties = amf0_as_object,
      av_is_null = amf0_is_null, av_string = A0Utf8String, av_number = A0Number, av_boolean = A0Boolean, av_null = A0Null,
      av_object = (\<lambda>members. A0Object (index_collect ins members)), av_encoding = Amf0\<rparr>"

fun amf3_get_number :: "amf3_value \<Rightarrow> f64 option" where
  "amf3_get_number (A3Integer v) = Some (f64_of_int (sint v))"
| "amf3_get_number (A3Double v) = Some v"
| "amf3_get_number _ = None"

fun amf3_get_boolean :: "amf3_value \<Rightarrow> bool option" where
  "amf3_get_boolean (A3Boolean v) = Some v"
| "amf3_get_boolean _ = None"

fun amf3_get_integer :: "amf3_value \<Rightarrow> i32 option" where
  "amf3_get_integer (A3Integer v) = Some v"
| "amf3_get_integer (A3Double n) =
     (case f64_integral n of
        Some i \<Rightarrow> if - (2 ^ 31) \<le> i \<and> i \<le> 2 ^ 31 - 1 then Some (word_of_int i) else None
      | None \<Rightarrow> None)"
| "amf3_get_integer _ = None"

fun amf3_get_object_properties :: "amf3_value index_insert \<Rightarrow> amf3_value \<Rightarrow> (bytes \<times> amf3_value) list option" where
  "amf3_get_object_properties ins (A3Object class_name sealed dynamic) =
     Some (index_collect ins (sealed @ (case dynamic of None \<Rightarrow> [] | Some p \<Rightarrow> p)))"
| "amf3_get_object_properties ins _ = None"

definition dynamic_object :: "(bytes \<times> amf3_value) list \<Rightarrow> amf3_value" where
  "dynamic_object members = A3Object None [] (Some members)"

definition amf3_is_null :: "amf3_value \<Rightarrow> bool" where
  "amf3_is_null v \<longleftrightarrow> v = A3Null \<or> v = A3Undefined"

definition amf3_value_ops :: "amf3_value index_insert \<Rightarrow> amf3_value amf_value_ops" where
  "amf3_value_ops ins =
     \<lparr>av_as_str = amf3_get_string, av_as_number = amf3_get_number, av_as_bool = amf3_get_boolean,
      av_as_properties = amf3_get_object_properties ins, av_is_null = amf3_is_null, av_string = A3String,
      av_number = (\<lambda>n. to_amf3 (A0Number n)), av_boolean = A3Boolean, av_null = A3Null, av_object = dynamic_object,
      av_encoding = Amf3\<rparr>"

section \<open>Provided functions\<close>

text \<open>
  \<open>x <= u32::MAX as f64\<close> for finite numbers that are not negative: \<open>u32::MAX\<close> has exponent 1054 and a fraction of 31 ones,
  and such numbers are ordered by exponent, then fraction.
\<close>

definition f64_le_u32_max :: "f64 \<Rightarrow> bool" where
  "f64_le_u32_max w \<longleftrightarrow> f64_exponent w < 1054 \<or> f64_exponent w = 1054 \<and> f64_fraction w \<le> 0xFFFFFFFE00000"

definition as_stream_id :: "'v amf_value_ops \<Rightarrow> 'v \<Rightarrow> u32 option" where
  "as_stream_id ops v =
     (case av_as_number ops v of
        Some number \<Rightarrow>
          if f64_exponent number \<noteq> 2047 \<and> f64_nonneg number \<and> f64_le_u32_max number then Some (f64_to_u32 number) else None
      | None \<Rightarrow> Option.bind (av_as_str ops v) parse_u32)"

definition value_status_object :: "'v amf_value_ops \<Rightarrow> bytes \<Rightarrow> bytes \<Rightarrow> bytes \<Rightarrow> 'v" where
  "value_status_object ops level code description =
     av_object ops [(ascii ''level'', av_string ops level), (ascii ''code'', av_string ops code),
       (ascii ''description'', av_string ops description)]"

section \<open>What users of the trait rely on\<close>

text \<open>
  A value that is built is read back. Of a number the value is, so an integer may come back as the bits of another
  zero; of an object the last member of a name counts.
\<close>

locale amf_value =
  fixes ops :: "'v amf_value_ops"
    and inserts :: bool
  assumes string_law: "av_as_str ops (av_string ops s) = Some s" "av_as_number ops (av_string ops s) = None"
    and number_law: "\<exists>m. av_as_number ops (av_number ops n) = Some m \<and> (m = n \<or> f64_integral m = f64_integral n \<and> f64_integral n \<noteq> None)"
    and bool_law: "av_as_bool ops (av_boolean ops b) = Some b"
    and null_law: "av_is_null ops (av_null ops)"
    and object_law: "inserts \<Longrightarrow> \<exists>p. av_as_properties ops (av_object ops members) = Some p \<and> (\<forall>k. map_of p k = map_of (rev members) k)"
begin

lemma stream_id_string: "as_stream_id ops (av_string ops s) = parse_u32 s"
  by (simp add: as_stream_id_def string_law)

lemma stream_id_number: "as_stream_id ops (av_number ops (u32_to_f64 n)) = Some n"
proof -
  have n: "uint n < 2 ^ 32"
    using uint_lt2p [of n] by simp
  have "f64_integral (u32_to_f64 n) = Some (uint n)"
    unfolding u32_to_f64_def using n by (intro f64_integral_of_int) simp
  then obtain m where m: "av_as_number ops (av_number ops (u32_to_f64 n)) = Some m" "f64_integral m = Some (uint n)"
    using number_law [of "u32_to_f64 n"] by auto
  have e: "f64_exponent m < 1055"
    using f64_integral_exponent [OF m(2)] n by simp
  have "f64_to_u32 m = n"
    using f64_to_u32_integral [OF m(2)] n by simp
  moreover have nonneg: "f64_nonneg m"
  proof (cases "f64_exponent m = 0")
    case True
    then show ?thesis
      using m(2) by (auto simp: f64_nonneg_def f64_is_nan_def f64_integral_def split: if_splits)
  next
    case False
    define q where "q = (2 ^ 52 + f64_fraction m) div 2 ^ (1075 - f64_exponent m)"
    have ge: "1023 \<le> f64_exponent m" and val: "uint n = (if f64_sign m then - 1 else 1) * int q"
      using m(2) e False by (auto simp: f64_integral_def Let_def q_def split: if_splits)
    have "(2 :: nat) ^ (1075 - f64_exponent m) \<le> 2 ^ 52"
      using ge by (intro power_increasing) auto
    then have "0 < q"
      by (simp add: q_def div_greater_zero_iff)
    have "\<not> f64_sign m"
    proof
      assume "f64_sign m"
      then have "uint n = - int q"
        using val by simp
      then show False
        using \<open>0 < q\<close> uint_ge_0 [of n] by linarith
    qed
    then show ?thesis
      using e by (simp add: f64_nonneg_def f64_is_nan_def)
  qed
  moreover have "f64_le_u32_max m"
  proof (cases "f64_exponent m = 1054")
    case True
    define q where "q = (2 ^ 52 + f64_fraction m) div 2 ^ 21"
    have "\<not> f64_sign m"
      using nonneg True by (simp add: f64_nonneg_def)
    then have "(2 ^ 52 + f64_fraction m) mod 2 ^ 21 = 0" and "uint n = int q"
      using m(2) True by (auto simp: f64_integral_def Let_def q_def split: if_splits)
    then have "2 ^ 52 + f64_fraction m = q * 2 ^ 21" "q < 2 ^ 32"
      using n by (auto simp: q_def)
    then show ?thesis
      using True by (simp add: f64_le_u32_max_def)
  qed (use e in \<open>simp add: f64_le_u32_max_def\<close>)
  ultimately show ?thesis
    using m(1) e by (simp add: as_stream_id_def)
qed

lemma status_read_back:
  assumes inserts
  shows "\<exists>p. av_as_properties ops (value_status_object ops level code description) = Some p
    \<and> Option.bind (map_of p (ascii ''level'')) (av_as_str ops) = Some level
    \<and> Option.bind (map_of p (ascii ''code'')) (av_as_str ops) = Some code
    \<and> Option.bind (map_of p (ascii ''description'')) (av_as_str ops) = Some description"
proof -
  have "ascii ''level'' \<noteq> ascii ''code''" "ascii ''level'' \<noteq> ascii ''description''" "ascii ''code'' \<noteq> ascii ''description''"
    by code_simp+
  then show ?thesis
    unfolding value_status_object_def
    using object_law [OF assms, of "[(ascii ''level'', av_string ops level), (ascii ''code'', av_string ops code),
       (ascii ''description'', av_string ops description)]"]
    by (auto simp: string_law)
qed

end

section \<open>Both encodings are values\<close>

lemma map_of_index_replace:
  "x \<noteq> k \<Longrightarrow> map_of (map (\<lambda>(k', v'). if k' = k then (k, v) else (k', v')) p) x = map_of p x"
  "k \<in> fst ` set p \<Longrightarrow> map_of (map (\<lambda>(k', v'). if k' = k then (k, v) else (k', v')) p) k = Some v"
  by (induction p) auto

lemma map_of_index_insert:
  assumes "index_insert_ok ins"
  shows "map_of (ins k v p) = (map_of p)(k \<mapsto> v)"
proof (cases "k \<in> fst ` set p")
  case False
  then have "ins k v p = p @ [(k, v)]" "map_of p k = None"
    using assms by (auto simp: index_insert_ok_def map_of_eq_None_iff)
  then show ?thesis
    by (auto simp: fun_eq_iff map_add_def split: option.splits)
next
  case True
  then have "ins k v p = map (\<lambda>(k', v'). if k' = k then (k, v) else (k', v')) p"
    using assms by (auto simp: index_insert_ok_def)
  with True show ?thesis
    by (simp add: map_of_index_replace fun_eq_iff)
qed

lemma map_of_index_collect:
  assumes "index_insert_ok ins"
  shows "map_of (index_collect ins members) = map_of (rev members)"
proof -
  have "map_of (fold (\<lambda>(k, v). ins k v) members p) = map_of p ++ map_of (rev members)" for p
    by (induction members arbitrary: p) (auto simp: map_of_index_insert [OF assms])
  then show ?thesis
    by (simp add: index_collect_def)
qed

lemma sint_range:
  assumes "- (2 ^ 28) \<le> i" and "i \<le> 2 ^ 28 - 1"
  shows "sint (word_of_int i :: i32) = i"
  using assms by (simp add: signed_of_int signed_take_bit_int_eq_self)

interpretation value0: amf_value "amf0_value_ops ins" "index_insert_ok ins" for ins
  by unfold_locales (auto simp: amf0_value_ops_def amf0_is_null_def map_of_index_collect)

interpretation value3: amf_value "amf3_value_ops ins" "index_insert_ok ins" for ins
proof
  fix n
  show "\<exists>m. av_as_number (amf3_value_ops ins) (av_number (amf3_value_ops ins) n) = Some m
      \<and> (m = n \<or> f64_integral m = f64_integral n \<and> f64_integral n \<noteq> None)"
    by (auto simp: amf3_value_ops_def sint_range f64_integral_of_int MIN_AMF3_INTEGER_def MAX_AMF3_INTEGER_def split: option.splits)
qed (auto simp: amf3_value_ops_def amf3_is_null_def dynamic_object_def map_of_index_collect)

text \<open>A message stream id is read from a number and from a string in either encoding.\<close>

theorem stream_id_either_encoding:
  "as_stream_id (amf0_value_ops ins0) (A0Number (u32_to_f64 n)) = Some n"
  "as_stream_id (amf3_value_ops ins3) (to_amf3 (A0Number (u32_to_f64 n))) = Some n"
  "as_stream_id (amf0_value_ops ins0) (A0Utf8String s) = as_stream_id (amf3_value_ops ins3) (A3String s)"
  using value0.stream_id_number [of ins0 n] value3.stream_id_number [of ins3 n] value0.stream_id_string [of ins0 s] value3.stream_id_string [of ins3 s]
  by (simp_all add: amf0_value_ops_def amf3_value_ops_def)

text \<open>The AMF0 instance of the status object is the one the sessions build.\<close>

lemma status_object_amf0: "value_status_object (amf0_value_ops ins) level code description = status_object ins level code description"
  by (simp add: value_status_object_def amf0_value_ops_def status_object_def index_collect_def insert_all_def)

text \<open>Whichever the encoding, the fields of a status object are read back.\<close>

theorem status_either_encoding:
  assumes "index_insert_ok ins0" and "index_insert_ok ins3"
  shows "\<exists>p. av_as_properties (amf0_value_ops ins0) (status_object ins0 level code description) = Some p
      \<and> Option.bind (map_of p (ascii ''code'')) amf0_as_str = Some code"
    and "\<exists>p. av_as_properties (amf3_value_ops ins3) (value_status_object (amf3_value_ops ins3) level code description) = Some p
      \<and> Option.bind (map_of p (ascii ''code'')) amf3_get_string = Some code"
proof -
  have "av_as_str (amf0_value_ops ins0) = amf0_as_str" "av_as_str (amf3_value_ops ins3) = amf3_get_string"
    by (simp_all add: amf0_value_ops_def amf3_value_ops_def)
  then show "\<exists>p. av_as_properties (amf0_value_ops ins0) (status_object ins0 level code description) = Some p
      \<and> Option.bind (map_of p (ascii ''code'')) amf0_as_str = Some code"
    and "\<exists>p. av_as_properties (amf3_value_ops ins3) (value_status_object (amf3_value_ops ins3) level code description) = Some p
      \<and> Option.bind (map_of p (ascii ''code'')) amf3_get_string = Some code"
    using value0.status_read_back [OF assms(1), of level code description] value3.status_read_back [OF assms(2), of level code description]
    unfolding status_object_amf0 by auto
qed

end
