(* ===== verification/Enhanced.thy ===== *)
theory Enhanced
  imports Amf_Value Amf0_Safe
begin

text \<open>
  Enhanced RTMP capabilities of a \<open>connect\<close> object (\<open>src/src/enhanced.rs\<close>). Order-keeping removal from and insertion
  into the \<open>IndexMap\<close> are parameters, as in \<open>Session_Values\<close>; their documented behaviour is \<open>shift_remove_ok\<close> and
  \<open>ins_ok\<close>.
\<close>

unbundle bit_operations_syntax

datatype enhanced_validation_mode = Strict | Passthrough

definition validation_mode_from_str :: "bytes \<Rightarrow> string + enhanced_validation_mode" where
  "validation_mode_from_str value =
     (if to_ascii_lowercase value = ascii ''strict'' then Inr Strict
      else if to_ascii_lowercase value = ascii ''passthrough'' then Inr Passthrough
      else Inl ''validation mode must be strict or passthrough'')"

record enhanced_capabilities =
  caps_ex :: "amf0_value option"
  four_cc_list :: "amf0_value option"
  video_four_cc_info_map :: "amf0_value option"
  audio_four_cc_info_map :: "amf0_value option"
  video_function :: "amf0_value option"
  audio_function :: "amf0_value option"
  unknown_properties :: amf0_object
  invalid_fields :: "bytes list"

definition FIELD_NAMES :: "string list" where
  "FIELD_NAMES = [''fourCcList'', ''videoFourCcInfoMap'', ''audioFourCcInfoMap'', ''capsEx'', ''videoFunction'', ''audioFunction'']"

type_synonym amf0_shift_remove = "bytes \<Rightarrow> amf0_object \<Rightarrow> amf0_object \<times> amf0_value option"

definition from_connect_properties :: "amf0_shift_remove \<Rightarrow> amf0_object \<Rightarrow> enhanced_capabilities" where
  "from_connect_properties sr properties =
     \<lparr>caps_ex = map_of properties (ascii ''capsEx''),
      four_cc_list = map_of properties (ascii ''fourCcList''),
      video_four_cc_info_map = map_of properties (ascii ''videoFourCcInfoMap''),
      audio_four_cc_info_map = map_of properties (ascii ''audioFourCcInfoMap''),
      video_function = map_of properties (ascii ''videoFunction''),
      audio_function = map_of properties (ascii ''audioFunction''),
      unknown_properties = fold (\<lambda>name p. fst (sr (ascii name) p)) FIELD_NAMES properties,
      invalid_fields = []\<rparr>"

fun valid_u32 :: "amf0_value \<Rightarrow> bool" where
  "valid_u32 (A0Number value) = (case f64_integral value of None \<Rightarrow> False | Some i \<Rightarrow> 0 \<le> i \<and> i \<le> 2 ^ 32 - 1)"
| "valid_u32 _ = False"

definition valid_mask :: "amf0_value \<Rightarrow> u32 \<Rightarrow> bool" where
  "valid_mask value allowed_bits \<longleftrightarrow>
     valid_u32 value \<and> (case value of A0Number value \<Rightarrow> f64_to_u32 value AND NOT allowed_bits = 0 | _ \<Rightarrow> False)"

definition valid_four_cc :: "bytes \<Rightarrow> bool" where
  "valid_four_cc value \<longleftrightarrow> value = ascii ''*'' \<or> length value = 4"

fun valid_four_cc_list :: "amf0_value \<Rightarrow> bool" where
  "valid_four_cc_list (A0StrictArray values) =
     list_all (\<lambda>value. case value of A0Utf8String value \<Rightarrow> valid_four_cc value | _ \<Rightarrow> False) values"
| "valid_four_cc_list _ = False"

fun valid_four_cc_info_map :: "amf0_value \<Rightarrow> bool" where
  "valid_four_cc_info_map (A0Object values) = list_all (\<lambda>(four_cc, flags). valid_four_cc four_cc \<and> valid_mask flags 0x07) values"
| "valid_four_cc_info_map _ = False"

definition is_none_or :: "('a \<Rightarrow> bool) \<Rightarrow> 'a option \<Rightarrow> bool" where
  "is_none_or f x = (case x of None \<Rightarrow> True | Some v \<Rightarrow> f v)"

definition field_shapes :: "enhanced_capabilities \<Rightarrow> (string \<times> bool) list" where
  "field_shapes value =
     [(''capsEx'', is_none_or (\<lambda>v. valid_mask v 0x0f) (caps_ex value)),
      (''fourCcList'', is_none_or valid_four_cc_list (four_cc_list value)),
      (''videoFourCcInfoMap'', is_none_or valid_four_cc_info_map (video_four_cc_info_map value)),
      (''audioFourCcInfoMap'', is_none_or valid_four_cc_info_map (audio_four_cc_info_map value)),
      (''videoFunction'', is_none_or (\<lambda>v. valid_mask v 0x0f) (video_function value)),
      (''audioFunction'', is_none_or valid_u32 (audio_function value))]"

text \<open>The error is the list of the offending names, which the code joins into a message.\<close>

definition capabilities_parse ::
    "amf0_shift_remove \<Rightarrow> amf0_object \<Rightarrow> enhanced_validation_mode \<Rightarrow> bytes list + enhanced_capabilities" where
  "capabilities_parse sr properties mode =
     (let value = fold (\<lambda>(name, valid) value. if valid then value else value\<lparr>invalid_fields := invalid_fields value @ [ascii name]\<rparr>)
                    (field_shapes (from_connect_properties sr properties)) (from_connect_properties sr properties)
      in if mode = Strict \<and> invalid_fields value \<noteq> [] then Inl (invalid_fields value) else Inr value)"

definition forwardable_properties :: "amf0_insert \<Rightarrow> enhanced_capabilities \<Rightarrow> amf0_object" where
  "forwardable_properties ins value =
     fold (\<lambda>(name, v). insert_some ins name v)
       [(''capsEx'', caps_ex value), (''fourCcList'', four_cc_list value),
        (''videoFourCcInfoMap'', video_four_cc_info_map value), (''audioFourCcInfoMap'', audio_four_cc_info_map value),
        (''videoFunction'', video_function value), (''audioFunction'', audio_function value)] []"

section \<open>Correctness\<close>

text \<open>Whether the value of a capability field has the shape the specification gives it.\<close>

definition well_shaped :: "bytes \<Rightarrow> amf0_value \<Rightarrow> bool" where
  "well_shaped name v \<longleftrightarrow>
     (name \<in> {ascii ''capsEx'', ascii ''videoFunction''} \<longrightarrow> valid_mask v 0x0f)
     \<and> (name = ascii ''fourCcList'' \<longrightarrow> valid_four_cc_list v)
     \<and> (name \<in> {ascii ''videoFourCcInfoMap'', ascii ''audioFourCcInfoMap''} \<longrightarrow> valid_four_cc_info_map v)
     \<and> (name = ascii ''audioFunction'' \<longrightarrow> valid_u32 v)"

lemma map_of_insert: "ins_ok ins \<Longrightarrow> map_of (ins k v p) = (map_of p)(k \<mapsto> v)"
  by (rule map_of_index_insert) (simp add: ins_ok_def index_insert_ok_def)

lemma map_of_insert_some:
  "ins_ok ins \<Longrightarrow> map_of (insert_some ins key v p) k = (if k = ascii key \<and> v \<noteq> None then v else map_of p k)"
  by (auto simp: insert_some_def map_of_insert split: option.splits)

lemma unknown_filter:
  assumes "shift_remove_ok sr"
  shows "fold (\<lambda>name p. fst (sr (ascii name) p)) names p = filter (\<lambda>(k, v). k \<notin> ascii ` set names) p"
  using assms by (induction names arbitrary: p) (auto simp: shift_remove_ok_def intro!: filter_cong)

lemma collect_invalid:
  "fold (\<lambda>(name, valid) value. if valid then value else value\<lparr>invalid_fields := invalid_fields value @ [ascii name]\<rparr>) shapes c
     = c\<lparr>invalid_fields := invalid_fields c @ map (ascii \<circ> fst) (filter (\<lambda>(name, valid). \<not> valid) shapes)\<rparr>"
  by (induction shapes arbitrary: c) auto

definition field_order :: "string list" where
  "field_order = [''capsEx'', ''fourCcList'', ''videoFourCcInfoMap'', ''audioFourCcInfoMap'', ''videoFunction'', ''audioFunction'']"

lemma set_field_order: "set field_order = set FIELD_NAMES"
  by (auto simp: field_order_def FIELD_NAMES_def)

lemma field_names_distinct: "distinct (map ascii field_order)" "distinct (map ascii (rev field_order))"
  by code_simp+

lemma well_shaped_fields:
  "well_shaped (ascii ''capsEx'') = (\<lambda>v. valid_mask v 0x0f)" "well_shaped (ascii ''fourCcList'') = valid_four_cc_list"
  "well_shaped (ascii ''videoFourCcInfoMap'') = valid_four_cc_info_map"
  "well_shaped (ascii ''audioFourCcInfoMap'') = valid_four_cc_info_map"
  "well_shaped (ascii ''videoFunction'') = (\<lambda>v. valid_mask v 0x0f)" "well_shaped (ascii ''audioFunction'') = valid_u32"
  using field_names_distinct unfolding field_order_def fun_eq_iff well_shaped_def by simp_all

lemma field_shapes_spec:
  "field_shapes (from_connect_properties sr p)
     = map (\<lambda>name. (name, is_none_or (well_shaped (ascii name)) (map_of p (ascii name)))) field_order"
  by (simp add: field_order_def field_shapes_def from_connect_properties_def well_shaped_fields)

lemma forward_fields:
  assumes "ins_ok ins"
  shows "map_of (fold (\<lambda>(name, v). insert_some ins name v) (map (\<lambda>name. (name, map_of p (ascii name))) names) q) k
    = (if k \<in> ascii ` set names \<and> map_of p k \<noteq> None then map_of p k else map_of q k)"
  by (induction names arbitrary: q) (auto simp: map_of_insert_some [OF assms])

lemma forwardable_lookup:
  assumes "ins_ok ins"
  shows "map_of (forwardable_properties ins (from_connect_properties sr p)) k
    = (if k \<in> ascii ` set FIELD_NAMES then map_of p k else None)"
proof -
  have "forwardable_properties ins (from_connect_properties sr p)
      = fold (\<lambda>(name, v). insert_some ins name v) (map (\<lambda>name. (name, map_of p (ascii name))) field_order) []"
    by (simp add: forwardable_properties_def from_connect_properties_def field_order_def)
  then show ?thesis
    using forward_fields [OF assms, of p field_order "[]" k] by (auto simp: set_field_order)
qed

text \<open>
  C36 (functional). Of a \<open>connect\<close> object, exactly the six capability fields are forwarded on a new connection, with
  their values; every other property is retained in order and never forwarded. Strict mode accepts the object exactly
  when each capability field it has is of the specified shape, and passthrough mode always accepts it and names the
  fields that are not.
\<close>

theorem capabilities_partition:
  assumes "ins_ok ins" and "shift_remove_ok sr"
  shows "map_of (forwardable_properties ins (from_connect_properties sr p)) k = (if k \<in> ascii ` set FIELD_NAMES then map_of p k else None)
    \<and> unknown_properties (from_connect_properties sr p) = filter (\<lambda>(k, v). k \<notin> ascii ` set FIELD_NAMES) p
    \<and> (case capabilities_parse sr p Strict of
         Inr d \<Rightarrow> d = from_connect_properties sr p \<and> (\<forall>k v. k \<in> ascii ` set FIELD_NAMES \<and> map_of p k = Some v \<longrightarrow> well_shaped k v)
       | Inl names \<Rightarrow> names \<noteq> [] \<and> (\<forall>k\<in>set names. k \<in> ascii ` set FIELD_NAMES \<and> (\<exists>v. map_of p k = Some v \<and> \<not> well_shaped k v)))
    \<and> (\<exists>names. capabilities_parse sr p Passthrough = Inr ((from_connect_properties sr p)\<lparr>invalid_fields := names\<rparr>)
         \<and> (\<forall>k. k \<in> set names \<longleftrightarrow> k \<in> ascii ` set FIELD_NAMES \<and> (\<exists>v. map_of p k = Some v \<and> \<not> well_shaped k v)))"
proof -
  define c where "c = from_connect_properties sr p"
  define names where "names = map (ascii \<circ> fst) (filter (\<lambda>(name, valid). \<not> valid) (field_shapes c))"
  have names: "k \<in> set names \<longleftrightarrow> k \<in> ascii ` set FIELD_NAMES \<and> (\<exists>v. map_of p k = Some v \<and> \<not> well_shaped k v)" for k
    unfolding names_def c_def field_shapes_spec filter_map map_map set_map set_filter set_field_order
    by (auto simp: is_none_or_def split: option.splits)
  have c: "invalid_fields c = []" "unknown_properties c = filter (\<lambda>(k, v). k \<notin> ascii ` set FIELD_NAMES) p"
    by (simp_all add: c_def from_connect_properties_def unknown_filter [OF assms(2)])
  then have cc: "c\<lparr>invalid_fields := []\<rparr> = c"
    by (cases c) simp
  have parse: "capabilities_parse sr p mode = (if mode = Strict \<and> names \<noteq> [] then Inl names else Inr (c\<lparr>invalid_fields := names\<rparr>))" for mode
    unfolding capabilities_parse_def c_def [symmetric] collect_invalid Let_def names_def using c(1) by simp
  have strict: "case capabilities_parse sr p Strict of
         Inr d \<Rightarrow> d = c \<and> (\<forall>k v. k \<in> ascii ` set FIELD_NAMES \<and> map_of p k = Some v \<longrightarrow> well_shaped k v)
       | Inl names \<Rightarrow> names \<noteq> [] \<and> (\<forall>k\<in>set names. k \<in> ascii ` set FIELD_NAMES \<and> (\<exists>v. map_of p k = Some v \<and> \<not> well_shaped k v))"
  proof (cases "names = []")
    case True
    then show ?thesis
      unfolding parse using names cc by auto
  next
    case False
    then show ?thesis
      unfolding parse using names by simp
  qed
  have "capabilities_parse sr p Passthrough = Inr (c\<lparr>invalid_fields := names\<rparr>)"
    by (simp add: parse)
  then show ?thesis
    unfolding c_def [symmetric]
    by (intro conjI strict c(2) exI [of _ names] allI names) (simp_all add: c_def forwardable_lookup [OF assms(1)])
qed

definition sample_shift_remove :: amf0_shift_remove where
  "sample_shift_remove k p = (filter (\<lambda>(k', v). k' \<noteq> k) p, map_of p k)"

theorem capabilities_partition_witness:
  "map_of (forwardable_properties sample_insert (from_connect_properties sample_shift_remove
       [(ascii ''capsEx'', A0Boolean True), (ascii ''tcUrl'', A0Null)])) (ascii ''capsEx'') = Some (A0Boolean True)
    \<and> capabilities_parse sample_shift_remove [(ascii ''capsEx'', A0Boolean True), (ascii ''tcUrl'', A0Null)] Passthrough
       = Inr ((from_connect_properties sample_shift_remove
           [(ascii ''capsEx'', A0Boolean True), (ascii ''tcUrl'', A0Null)])\<lparr>invalid_fields := [ascii ''capsEx'']\<rparr>)"
proof -
  have "shift_remove_ok sample_shift_remove"
    by (simp add: shift_remove_ok_def sample_shift_remove_def)
  moreover have "capabilities_parse sample_shift_remove [(ascii ''capsEx'', A0Boolean True), (ascii ''tcUrl'', A0Null)] Passthrough
       = Inr ((from_connect_properties sample_shift_remove
           [(ascii ''capsEx'', A0Boolean True), (ascii ''tcUrl'', A0Null)])\<lparr>invalid_fields := [ascii ''capsEx'']\<rparr>)"
    by code_simp
  ultimately show ?thesis
    using capabilities_partition [OF sample_insert_ok, of sample_shift_remove
        "[(ascii ''capsEx'', A0Boolean True), (ascii ''tcUrl'', A0Null)]" "ascii ''capsEx''"]
    by (simp add: FIELD_NAMES_def)
qed

end
