(* ===== verification/Media.thy ===== *)
theory Media
  imports Flv_Refine Enhanced
begin

text \<open>
  Validated media (\<open>src/src/media.rs\<close>): a message body with its interpretation, in strict or passthrough mode, and the
  classification relays use. A reason is the parser's error or one of the texts of \<open>media.rs\<close>; for an unknown FourCC
  it carries the four bytes, which the code prints.
\<close>

datatype media_reason = ParserReason flv_error | Reason string | UnknownFourCcReason string bytes

datatype ('t, 'r) media_interpretation = Parsed 't | Opaque 'r

record ('t, 'd) validated_media =
  vm_raw :: 'd
  vm_interpretation :: "('t, media_reason) media_interpretation"

record media_classification =
  mc_coded :: bool
  mc_configuration :: bool
  mc_keyframe :: bool

definition no_classification :: media_classification where
  "no_classification = \<lparr>mc_coded = False, mc_configuration = False, mc_keyframe = False\<rparr>"

datatype media_validation_error = MultipleUnits nat | Malformed string media_reason

section \<open>Unknown structures\<close>

definition AUDIO_KNOWN :: "bytes list" where
  "AUDIO_KNOWN = map ascii [''ac-3'', ''ec-3'', ''Opus'', ''.mp3'', ''fLaC'', ''mp4a'']"

definition VIDEO_KNOWN :: "bytes list" where
  "VIDEO_KNOWN = map ascii [''vp08'', ''vp09'', ''av01'', ''avc1'', ''hvc1'', ''vvc1'']"

definition validate_audio_track :: "bytes \<Rightarrow> 'p audio_packet \<Rightarrow> media_reason + unit" where
  "validate_audio_track four_cc packet =
     (if four_cc \<notin> set AUDIO_KNOWN then Inl (UnknownFourCcReason ''unknown audio FourCC'' four_cc)
      else case packet of AudioUnknownPacket _ _ \<Rightarrow> Inl (Reason ''unknown audio packet type'') | _ \<Rightarrow> Inr ())"

definition validate_video_track :: "bytes \<Rightarrow> 'p video_packet \<Rightarrow> media_reason + unit" where
  "validate_video_track four_cc packet =
     (if four_cc \<notin> set VIDEO_KNOWN then Inl (UnknownFourCcReason ''unknown video FourCC'' four_cc)
      else case packet of VideoUnknownPacket _ _ \<Rightarrow> Inl (Reason ''unknown video packet type'') | _ \<Rightarrow> Inr ())"

primrec try_for_each :: "('a \<Rightarrow> 'e + unit) \<Rightarrow> 'a list \<Rightarrow> 'e + unit" where
  "try_for_each f [] = Inr ()"
| "try_for_each f (x # xs) = rbind (f x) (\<lambda>_. try_for_each f xs)"

definition validate_audio_unknowns :: "'p parsed_audio \<Rightarrow> media_reason + unit" where
  "validate_audio_unknowns parsed =
     (case pa_header parsed of
        AudioLegacyHeader _ \<Rightarrow> Inr ()
      | AudioEnhancedHeader header \<Rightarrow>
          if ah_has_unknown_modex header then Inl (Reason ''unknown audio ModEx type'')
          else case ah_content header of
              AudioUnknownMultitrack _ _ \<Rightarrow> Inl (Reason ''unknown audio multitrack type'')
            | _ \<Rightarrow>
              (case pa_body parsed of
                 AudioLegacyBody _ \<Rightarrow> Inr ()
               | AudioEnhancedBody (AudioSinglePacket four_cc packet) \<Rightarrow> validate_audio_track four_cc packet
               | AudioEnhancedBody (AudioTracks tracks) \<Rightarrow>
                   try_for_each (\<lambda>track. validate_audio_track (at_four_cc track) (at_packet track)) tracks))"

definition validate_video_unknowns :: "'p parsed_video \<Rightarrow> media_reason + unit" where
  "validate_video_unknowns parsed =
     (case vt_data (pv_header parsed) of
        VideoLegacyHeader _ \<Rightarrow> Inr ()
      | VideoEnhancedHeader header \<Rightarrow>
          if vh_has_unknown_modex header then Inl (Reason ''unknown video ModEx type'')
          else case vh_content header of
              VideoUnknownMultitrack _ _ \<Rightarrow> Inl (Reason ''unknown video multitrack type'')
            | _ \<Rightarrow>
              (case pv_body parsed of
                 VideoLegacyBody _ \<Rightarrow> Inr ()
               | VideoEnhancedBody EnhancedCommandBody \<Rightarrow> Inr ()
               | VideoEnhancedBody (VideoSinglePacket four_cc packet) \<Rightarrow> validate_video_track four_cc packet
               | VideoEnhancedBody (VideoTracks tracks) \<Rightarrow>
                   try_for_each (\<lambda>track. validate_video_track (vt_four_cc track) (vt_packet track)) tracks))"

section \<open>Validation\<close>

definition finish_audio ::
    "'p \<Rightarrow> 'p parsed_audio \<Rightarrow> enhanced_validation_mode \<Rightarrow> media_validation_error + ('p parsed_audio, 'p) validated_media" where
  "finish_audio raw parsed mode =
     (case validate_audio_unknowns parsed of
        Inr _ \<Rightarrow> Inr \<lparr>vm_raw = raw, vm_interpretation = Parsed parsed\<rparr>
      | Inl reason \<Rightarrow>
          if mode = Passthrough then Inr \<lparr>vm_raw = raw, vm_interpretation = Opaque reason\<rparr>
          else Inl (Malformed ''audio'' reason))"

definition finish_video ::
    "'p \<Rightarrow> 'p parsed_video \<Rightarrow> enhanced_validation_mode \<Rightarrow> media_validation_error + ('p parsed_video, 'p) validated_media" where
  "finish_video raw parsed mode =
     (case validate_video_unknowns parsed of
        Inr _ \<Rightarrow> Inr \<lparr>vm_raw = raw, vm_interpretation = Parsed parsed\<rparr>
      | Inl reason \<Rightarrow>
          if mode = Passthrough then Inr \<lparr>vm_raw = raw, vm_interpretation = Opaque reason\<rparr>
          else Inl (Malformed ''video'' reason))"

definition parse_audio ::
    "'p media_ops \<Rightarrow> 'p \<Rightarrow> enhanced_validation_mode \<Rightarrow> media_validation_error + ('p parsed_audio, 'p) validated_media" where
  "parse_audio ops raw mode =
     (case demux_audio ops raw of
        Inr parsed \<Rightarrow> finish_audio raw parsed mode
      | Inl error \<Rightarrow>
          if mode = Passthrough then Inr \<lparr>vm_raw = raw, vm_interpretation = Opaque (ParserReason error)\<rparr>
          else Inl (Malformed ''audio'' (ParserReason error)))"

definition parse_video ::
    "'p media_ops \<Rightarrow> 'p \<Rightarrow> enhanced_validation_mode \<Rightarrow> media_validation_error + ('p parsed_video, 'p) validated_media" where
  "parse_video ops raw mode =
     (case demux_video ops raw of
        Inr parsed \<Rightarrow> finish_video raw parsed mode
      | Inl error \<Rightarrow>
          if mode = Passthrough then Inr \<lparr>vm_raw = raw, vm_interpretation = Opaque (ParserReason error)\<rparr>
          else Inl (Malformed ''video'' (ParserReason error)))"

definition vm_into_parts :: "('t, 'd) validated_media \<Rightarrow> 'd \<times> ('t, media_reason) media_interpretation" where
  "vm_into_parts media = (vm_raw media, vm_interpretation media)"

section \<open>Classification\<close>

fun classify_audio_packet :: "'p audio_packet \<Rightarrow> media_classification \<Rightarrow> media_classification" where
  "classify_audio_packet (AudioSequenceStart _) c = c\<lparr>mc_configuration := True\<rparr>"
| "classify_audio_packet (AudioCodedFrames _) c = c\<lparr>mc_coded := True\<rparr>"
| "classify_audio_packet _ c = c"

definition classify_enhanced_audio :: "'p enhanced_audio_body \<Rightarrow> media_classification" where
  "classify_enhanced_audio body =
     (case body of
        AudioSinglePacket _ packet \<Rightarrow> classify_audio_packet packet no_classification
      | AudioTracks tracks \<Rightarrow> fold (\<lambda>track. classify_audio_packet (at_packet track)) tracks no_classification)"

fun classify_video_packet :: "bool \<Rightarrow> 'p video_packet \<Rightarrow> media_classification \<Rightarrow> media_classification" where
  "classify_video_packet keyframe (VideoSequenceStart _) c = c\<lparr>mc_configuration := True\<rparr>"
| "classify_video_packet keyframe (Mpeg2TsSequenceStart _) c = c\<lparr>mc_configuration := True\<rparr>"
| "classify_video_packet keyframe (VideoCodedFrames _ _) c = c\<lparr>mc_coded := True, mc_keyframe := mc_keyframe c \<or> keyframe\<rparr>"
| "classify_video_packet keyframe (VideoCodedFramesX _) c = c\<lparr>mc_coded := True, mc_keyframe := mc_keyframe c \<or> keyframe\<rparr>"
| "classify_video_packet keyframe _ c = c"

definition classify_enhanced_video :: "'p enhanced_video_body \<Rightarrow> bool \<Rightarrow> media_classification" where
  "classify_enhanced_video body keyframe =
     (case body of
        VideoSinglePacket _ packet \<Rightarrow> classify_video_packet keyframe packet no_classification
      | VideoTracks tracks \<Rightarrow> fold (\<lambda>track. classify_video_packet keyframe (vt_packet track)) tracks no_classification
      | EnhancedCommandBody \<Rightarrow> no_classification)"

definition audio_classification :: "('p parsed_audio, 'd) validated_media \<Rightarrow> media_classification" where
  "audio_classification media =
     (case vm_interpretation media of
        Opaque _ \<Rightarrow> no_classification
      | Parsed parsed \<Rightarrow>
          (case pa_body parsed of
             AudioLegacyBody (AacSequenceHeader _) \<Rightarrow> no_classification\<lparr>mc_configuration := True\<rparr>
           | AudioLegacyBody (AacRaw _) \<Rightarrow> no_classification\<lparr>mc_coded := True\<rparr>
           | AudioLegacyBody (LegacyAudioOther _) \<Rightarrow> no_classification\<lparr>mc_coded := True\<rparr>
           | AudioEnhancedBody body \<Rightarrow> classify_enhanced_audio body
           | AudioLegacyBody (AacUnknown _ _) \<Rightarrow> no_classification))"

definition video_classification :: "('p parsed_video, 'd) validated_media \<Rightarrow> media_classification" where
  "video_classification media =
     (case vm_interpretation media of
        Opaque _ \<Rightarrow> no_classification
      | Parsed parsed \<Rightarrow>
          let keyframe = (vt_frame_type (pv_header parsed) = 1) in
          case (vt_data (pv_header parsed), pv_body parsed) of
            (VideoLegacyHeader (AvcPacket AvcSequenceHeaderPacket), _) \<Rightarrow> no_classification\<lparr>mc_configuration := True\<rparr>
          | (VideoLegacyHeader (AvcPacket (AvcNalu _)), _) \<Rightarrow> \<lparr>mc_coded = True, mc_configuration = False, mc_keyframe = keyframe\<rparr>
          | (VideoLegacyHeader (AvcPacket _), _) \<Rightarrow> no_classification
          | (VideoLegacyHeader (LegacyVideoCommand _), _) \<Rightarrow> no_classification
          | (_, VideoLegacyBody LegacyCommandBody) \<Rightarrow> no_classification
          | (_, VideoLegacyBody (AvcSequenceHeaderBody _)) \<Rightarrow> no_classification\<lparr>mc_configuration := True\<rparr>
          | (_, VideoLegacyBody (LegacyVideoOther _)) \<Rightarrow> \<lparr>mc_coded = True, mc_configuration = False, mc_keyframe = keyframe\<rparr>
          | (_, VideoEnhancedBody body) \<Rightarrow> classify_enhanced_video body keyframe)"

section \<open>Strict and passthrough\<close>

text \<open>The tracks of a tag with their codecs.\<close>

definition audio_packets :: "'p parsed_audio \<Rightarrow> (bytes \<times> 'p audio_packet) list" where
  "audio_packets parsed =
     (case pa_body parsed of
        AudioLegacyBody _ \<Rightarrow> []
      | AudioEnhancedBody (AudioSinglePacket four_cc packet) \<Rightarrow> [(four_cc, packet)]
      | AudioEnhancedBody (AudioTracks tracks) \<Rightarrow> map (\<lambda>t. (at_four_cc t, at_packet t)) tracks)"

definition video_packets :: "'p parsed_video \<Rightarrow> (bytes \<times> 'p video_packet) list" where
  "video_packets parsed =
     (case pv_body parsed of
        VideoLegacyBody _ \<Rightarrow> []
      | VideoEnhancedBody EnhancedCommandBody \<Rightarrow> []
      | VideoEnhancedBody (VideoSinglePacket four_cc packet) \<Rightarrow> [(four_cc, packet)]
      | VideoEnhancedBody (VideoTracks tracks) \<Rightarrow> map (\<lambda>t. (vt_four_cc t, vt_packet t)) tracks)"

text \<open>
  What strict validation admits: every legacy tag that parses, also one whose AAC or AVC packet type is
  unknown, and an Enhanced tag of which nothing is unknown.
\<close>

definition audio_admitted :: "'p parsed_audio \<Rightarrow> bool" where
  "audio_admitted parsed \<longleftrightarrow>
     (case pa_header parsed of
        AudioLegacyHeader _ \<Rightarrow> True
      | AudioEnhancedHeader header \<Rightarrow>
          \<not> ah_has_unknown_modex header \<and> (\<forall>t f. ah_content header \<noteq> AudioUnknownMultitrack t f)
          \<and> (\<forall>(four_cc, packet)\<in>set (audio_packets parsed). four_cc \<in> set AUDIO_KNOWN \<and> (\<forall>t q. packet \<noteq> AudioUnknownPacket t q)))"

definition video_admitted :: "'p parsed_video \<Rightarrow> bool" where
  "video_admitted parsed \<longleftrightarrow>
     (case vt_data (pv_header parsed) of
        VideoLegacyHeader _ \<Rightarrow> True
      | VideoEnhancedHeader header \<Rightarrow>
          \<not> vh_has_unknown_modex header \<and> (\<forall>t f. vh_content header \<noteq> VideoUnknownMultitrack t f)
          \<and> (\<forall>(four_cc, packet)\<in>set (video_packets parsed). four_cc \<in> set VIDEO_KNOWN \<and> (\<forall>t q. packet \<noteq> VideoUnknownPacket t q)))"

lemma try_for_each_ok: "try_for_each f xs = Inr () \<longleftrightarrow> (\<forall>x\<in>set xs. f x = Inr ())"
proof (induction xs)
  case (Cons x xs)
  then show ?case
    by (cases "f x") (auto simp: rbind_def)
qed simp

lemma validate_audio_track_ok:
  "validate_audio_track four_cc packet = Inr () \<longleftrightarrow> four_cc \<in> set AUDIO_KNOWN \<and> (\<forall>t q. packet \<noteq> AudioUnknownPacket t q)"
  by (auto simp: validate_audio_track_def split: audio_packet.splits)

lemma validate_video_track_ok:
  "validate_video_track four_cc packet = Inr () \<longleftrightarrow> four_cc \<in> set VIDEO_KNOWN \<and> (\<forall>t q. packet \<noteq> VideoUnknownPacket t q)"
  by (auto simp: validate_video_track_def split: video_packet.splits)

lemma validate_audio_ok: "validate_audio_unknowns parsed = Inr () \<longleftrightarrow> audio_admitted parsed"
  unfolding validate_audio_unknowns_def audio_admitted_def audio_packets_def
  by (auto simp: try_for_each_ok validate_audio_track_ok
      split: audio_tag_header.splits audio_header_content.splits audio_tag_body.splits enhanced_audio_body.splits)

lemma validate_video_ok: "validate_video_unknowns parsed = Inr () \<longleftrightarrow> video_admitted parsed"
  unfolding validate_video_unknowns_def video_admitted_def video_packets_def
  by (auto simp: try_for_each_ok validate_video_track_ok
      split: video_tag_header_data.splits video_header_content.splits video_tag_body.splits enhanced_video_body.splits)

lemma try_for_each_error: "try_for_each f xs = Inl e \<Longrightarrow> \<exists>x\<in>set xs. f x = Inl e"
proof (induction xs)
  case (Cons x xs)
  then show ?case
    by (cases "f x") (auto simp: rbind_def)
qed simp

lemma validate_audio_reason: "validate_audio_unknowns tag \<noteq> Inl (ParserReason f)"
proof
  have track: "validate_audio_track four_cc packet \<noteq> Inl (ParserReason f)" for four_cc and packet :: "'a audio_packet"
    by (simp add: validate_audio_track_def split: audio_packet.splits)
  assume "validate_audio_unknowns tag = Inl (ParserReason f)"
  then show False
    using track unfolding validate_audio_unknowns_def
    by (auto dest!: try_for_each_error
        split: if_splits audio_tag_header.splits audio_header_content.splits audio_tag_body.splits enhanced_audio_body.splits)
qed

lemma parse_audio_modes:
  "case demux_audio ops raw of
     Inl f \<Rightarrow> parse_audio ops raw Strict = Inl (Malformed ''audio'' (ParserReason f))
       \<and> parse_audio ops raw Passthrough = Inr \<lparr>vm_raw = raw, vm_interpretation = Opaque (ParserReason f)\<rparr>
   | Inr tag \<Rightarrow>
       if audio_admitted tag
       then \<forall>mode. parse_audio ops raw mode = Inr \<lparr>vm_raw = raw, vm_interpretation = Parsed tag\<rparr>
       else \<exists>reason. (\<forall>f. reason \<noteq> ParserReason f) \<and> parse_audio ops raw Strict = Inl (Malformed ''audio'' reason)
         \<and> parse_audio ops raw Passthrough = Inr \<lparr>vm_raw = raw, vm_interpretation = Opaque reason\<rparr>"
proof (cases "demux_audio ops raw")
  case tag: (Inr tag)
  show ?thesis
  proof (cases "validate_audio_unknowns tag")
    case (Inl reason)
    then have "\<not> audio_admitted tag" "\<forall>f. reason \<noteq> ParserReason f"
      using validate_audio_ok [of tag] validate_audio_reason [of tag] by auto
    with Inl tag show ?thesis
      by (simp add: parse_audio_def finish_audio_def)
  next
    case (Inr u)
    then have "audio_admitted tag"
      using validate_audio_ok [of tag] by simp
    with Inr tag show ?thesis
      by (simp add: parse_audio_def finish_audio_def)
  qed
qed (simp add: parse_audio_def)

lemma validate_video_reason: "validate_video_unknowns tag \<noteq> Inl (ParserReason f)"
proof
  have track: "validate_video_track four_cc packet \<noteq> Inl (ParserReason f)" for four_cc and packet :: "'a video_packet"
    by (simp add: validate_video_track_def split: video_packet.splits)
  assume "validate_video_unknowns tag = Inl (ParserReason f)"
  then show False
    using track unfolding validate_video_unknowns_def
    by (auto dest!: try_for_each_error
        split: if_splits video_tag_header_data.splits video_header_content.splits video_tag_body.splits enhanced_video_body.splits)
qed

lemma parse_video_modes:
  "case demux_video ops raw of
     Inl f \<Rightarrow> parse_video ops raw Strict = Inl (Malformed ''video'' (ParserReason f))
       \<and> parse_video ops raw Passthrough = Inr \<lparr>vm_raw = raw, vm_interpretation = Opaque (ParserReason f)\<rparr>
   | Inr tag \<Rightarrow>
       if video_admitted tag
       then \<forall>mode. parse_video ops raw mode = Inr \<lparr>vm_raw = raw, vm_interpretation = Parsed tag\<rparr>
       else \<exists>reason. (\<forall>f. reason \<noteq> ParserReason f) \<and> parse_video ops raw Strict = Inl (Malformed ''video'' reason)
         \<and> parse_video ops raw Passthrough = Inr \<lparr>vm_raw = raw, vm_interpretation = Opaque reason\<rparr>"
proof (cases "demux_video ops raw")
  case tag: (Inr tag)
  show ?thesis
  proof (cases "validate_video_unknowns tag")
    case (Inl reason)
    then have "\<not> video_admitted tag" "\<forall>f. reason \<noteq> ParserReason f"
      using validate_video_ok [of tag] validate_video_reason [of tag] by auto
    with Inl tag show ?thesis
      by (simp add: parse_video_def finish_video_def)
  next
    case (Inr u)
    then have "video_admitted tag"
      using validate_video_ok [of tag] by simp
    with Inr tag show ?thesis
      by (simp add: parse_video_def finish_video_def)
  qed
qed (simp add: parse_video_def)


text \<open>A truncated HEVC tag; and legacy tags with the AAC packet type 5 and the AVC packet type 9, which strict mode admits.\<close>

lemma legacy_unknowns:
  "case view_new payload_ops (payload_from_bytes [0xaf, 5]) of None \<Rightarrow> False | Some v \<Rightarrow>
     (case demux_audio view_media v of Inr (ParsedAudio (AudioLegacyHeader _) (AudioLegacyBody (AacUnknown t _))) \<Rightarrow> t = 5 | _ \<Rightarrow> False)"
  "case view_new payload_ops (payload_from_bytes [0x17, 9, 0, 0, 0]) of None \<Rightarrow> False | Some v \<Rightarrow>
     (case demux_video view_media v of Inr tag \<Rightarrow>
        (case vt_data (pv_header tag) of VideoLegacyHeader (AvcPacket (AvcUnknown t _)) \<Rightarrow> t = 9 | _ \<Rightarrow> False) | _ \<Rightarrow> False)"
  by code_simp+


end
