(* ===== verification/Elementary.thy ===== *)
theory Elementary
  imports Media
begin

text \<open>
  Elementary units and events of validated messages (\<open>src/src/elementary.rs\<close>), over contiguous bytes. A visitor is the
  list of what it is called with, in order; \<open>Unreachable\<close> is an \<open>unreachable!\<close> of the code.
\<close>

section \<open>Events\<close>

datatype elementary_codec = Avc | Hevc | Av1 | Aac | Opus | Flac | Ac3 | Eac3 | Mp3 | Vp8 | Vp9 | Vvc

definition is_video :: "elementary_codec \<Rightarrow> bool" where
  "is_video c \<longleftrightarrow> c \<in> {Avc, Hevc, Av1, Vp8, Vp9, Vvc}"

definition is_audio :: "elementary_codec \<Rightarrow> bool" where
  "is_audio c \<longleftrightarrow> c \<in> {Aac, Opus, Flac, Ac3, Eac3, Mp3}"

datatype elementary_unit =
    Configuration (eu_codec: elementary_codec) (eu_bytes: bytes) (eu_track_id: "u8 option")
  | Sample (eu_codec: elementary_codec) (eu_bytes: bytes) (eu_keyframe: bool) (eu_composition_time_offset: u32)
      (eu_track_id: "u8 option")

datatype elementary_codec_id = AudioFourCcId bytes | VideoFourCcId bytes | LegacyAudioId u8 | LegacyVideoId u8

datatype elementary_skip_reason =
    UnsupportedCodec
  | UnknownPacketType u8
  | VideoCommandSkipped
  | MetadataSkipped
  | MultichannelConfigSkipped
  | Mpeg2TsConfiguration

datatype elementary_event =
    Unit elementary_unit
  | SequenceEnd elementary_codec "u8 option"
  | Skipped elementary_skip_reason "elementary_codec_id option" "u8 option"

datatype elementary_error = Invalid media_validation_error | Unreachable string

definition elementary_slice_after :: "bytes \<Rightarrow> nat \<Rightarrow> string \<Rightarrow> elementary_error + bytes" where
  "elementary_slice_after raw header_bytes kind =
     (if length raw < header_bytes then Inl (Invalid (Malformed kind (Reason ''tag is shorter than its FLV header'')))
      else Inr (drop header_bytes raw))"

definition LEGACY_AAC_HEADER_BYTES :: nat where
  "LEGACY_AAC_HEADER_BYTES = 2"

definition LEGACY_AVC_HEADER_BYTES :: nat where
  "LEGACY_AVC_HEADER_BYTES = 5"

section \<open>Enhanced packets\<close>

definition audio_codec_of :: "bytes \<Rightarrow> elementary_codec option" where
  "audio_codec_of four_cc =
     (if four_cc = ascii ''mp4a'' then Some Aac
      else if four_cc = ascii ''Opus'' then Some Opus
      else if four_cc = ascii ''fLaC'' then Some Flac
      else if four_cc = ascii ''ac-3'' then Some Ac3
      else if four_cc = ascii ''ec-3'' then Some Eac3
      else if four_cc = ascii ''.mp3'' then Some Mp3
      else None)"

definition elementary_audio_packet :: "bytes \<Rightarrow> bytes audio_packet \<Rightarrow> u8 option \<Rightarrow> elementary_event" where
  "elementary_audio_packet four_cc packet track_id =
     (case audio_codec_of four_cc of
        None \<Rightarrow> Skipped UnsupportedCodec (Some (AudioFourCcId four_cc)) track_id
      | Some codec \<Rightarrow>
          (case packet of
             AudioSequenceStart data \<Rightarrow> Unit (Configuration codec data track_id)
           | AudioCodedFrames data \<Rightarrow> Unit (Sample codec data True 0 track_id)
           | AudioSequenceEnd \<Rightarrow> SequenceEnd codec track_id
           | MultichannelConfig _ \<Rightarrow> Skipped MultichannelConfigSkipped (Some (AudioFourCcId four_cc)) track_id
           | AudioUnknownPacket packet_type _ \<Rightarrow> Skipped (UnknownPacketType packet_type) (Some (AudioFourCcId four_cc)) track_id))"

definition elementary_enhanced_audio :: "bytes enhanced_audio_body \<Rightarrow> elementary_event list" where
  "elementary_enhanced_audio body =
     (case body of
        AudioSinglePacket four_cc packet \<Rightarrow> [elementary_audio_packet four_cc packet None]
      | AudioTracks tracks \<Rightarrow>
          map (\<lambda>track. elementary_audio_packet (at_four_cc track) (at_packet track) (Some (at_track_id track))) tracks)"

definition video_codec_of :: "bytes \<Rightarrow> elementary_codec option" where
  "video_codec_of four_cc =
     (if four_cc = ascii ''avc1'' then Some Avc
      else if four_cc = ascii ''hvc1'' then Some Hevc
      else if four_cc = ascii ''av01'' then Some Av1
      else if four_cc = ascii ''vp08'' then Some Vp8
      else if four_cc = ascii ''vp09'' then Some Vp9
      else if four_cc = ascii ''vvc1'' then Some Vvc
      else None)"

definition elementary_video_packet :: "bytes \<Rightarrow> bytes video_packet \<Rightarrow> bool \<Rightarrow> u8 option \<Rightarrow> elementary_event" where
  "elementary_video_packet four_cc packet keyframe track_id =
     (case video_codec_of four_cc of
        None \<Rightarrow> Skipped UnsupportedCodec (Some (VideoFourCcId four_cc)) track_id
      | Some codec \<Rightarrow>
          (case packet of
             VideoSequenceStart data \<Rightarrow> Unit (Configuration codec data track_id)
           | VideoCodedFrames composition_time_offset data \<Rightarrow> Unit (Sample codec data keyframe composition_time_offset track_id)
           | VideoCodedFramesX data \<Rightarrow> Unit (Sample codec data keyframe 0 track_id)
           | VideoSequenceEnd \<Rightarrow> SequenceEnd codec track_id
           | VideoMetadata _ \<Rightarrow> Skipped MetadataSkipped (Some (VideoFourCcId four_cc)) track_id
           | Mpeg2TsSequenceStart _ \<Rightarrow> Skipped Mpeg2TsConfiguration (Some (VideoFourCcId four_cc)) track_id
           | VideoUnknownPacket packet_type _ \<Rightarrow> Skipped (UnknownPacketType packet_type) (Some (VideoFourCcId four_cc)) track_id))"

definition elementary_enhanced_video :: "bytes enhanced_video_body \<Rightarrow> bool \<Rightarrow> elementary_event list" where
  "elementary_enhanced_video body keyframe =
     (case body of
        EnhancedCommandBody \<Rightarrow> [Skipped VideoCommandSkipped None None]
      | VideoSinglePacket four_cc packet \<Rightarrow> [elementary_video_packet four_cc packet keyframe None]
      | VideoTracks tracks \<Rightarrow>
          map (\<lambda>track. elementary_video_packet (vt_four_cc track) (vt_packet track) keyframe (Some (vt_track_id track))) tracks)"

section \<open>Visitors\<close>

definition audio_elementary_events :: "(bytes parsed_audio, bytes) validated_media \<Rightarrow> elementary_error + elementary_event list" where
  "audio_elementary_events media =
     (case vm_interpretation media of
        Opaque reason \<Rightarrow> Inl (Invalid (Malformed ''audio'' reason))
      | Parsed parsed \<Rightarrow>
          (case pa_body parsed of
             AudioLegacyBody (AacSequenceHeader _) \<Rightarrow>
               rbind (elementary_slice_after (vm_raw media) LEGACY_AAC_HEADER_BYTES ''audio'')
                 (\<lambda>extradata. Inr [Unit (Configuration Aac extradata None)])
           | AudioLegacyBody (AacRaw _) \<Rightarrow>
               rbind (elementary_slice_after (vm_raw media) LEGACY_AAC_HEADER_BYTES ''audio'')
                 (\<lambda>payload. Inr [Unit (Sample Aac payload True 0 None)])
           | AudioLegacyBody body \<Rightarrow>
               (case pa_header parsed of
                  AudioEnhancedHeader _ \<Rightarrow> Inl (Unreachable ''legacy body has legacy header'')
                | AudioLegacyHeader header \<Rightarrow>
                    if sound_format header \<in> {2, 14} then
                      rbind (elementary_slice_after (vm_raw media) 1 ''audio'')
                        (\<lambda>payload. Inr [Unit (Sample Mp3 payload True 0 None)])
                    else
                      let reason = (case body of AacUnknown packet_type _ \<Rightarrow> UnknownPacketType packet_type | _ \<Rightarrow> UnsupportedCodec)
                      in Inr [Skipped reason (Some (LegacyAudioId (sound_format header))) None])
           | AudioEnhancedBody body \<Rightarrow> Inr (elementary_enhanced_audio body)))"

definition video_elementary_events :: "(bytes parsed_video, bytes) validated_media \<Rightarrow> elementary_error + elementary_event list" where
  "video_elementary_events media =
     (case vm_interpretation media of
        Opaque reason \<Rightarrow> Inl (Invalid (Malformed ''video'' reason))
      | Parsed parsed \<Rightarrow>
          let keyframe = (vt_frame_type (pv_header parsed) = 1 \<or> vt_frame_type (pv_header parsed) = 4) in
          case (vt_data (pv_header parsed), pv_body parsed) of
            (VideoLegacyHeader (AvcPacket AvcSequenceHeaderPacket), _) \<Rightarrow>
              rbind (elementary_slice_after (vm_raw media) LEGACY_AVC_HEADER_BYTES ''video'')
                (\<lambda>extradata. Inr [Unit (Configuration Avc extradata None)])
          | (VideoLegacyHeader (AvcPacket (AvcNalu composition_time_offset)), VideoLegacyBody (LegacyVideoOther _)) \<Rightarrow>
              rbind (elementary_slice_after (vm_raw media) LEGACY_AVC_HEADER_BYTES ''video'')
                (\<lambda>payload. Inr [Unit (Sample Avc payload keyframe composition_time_offset None)])
          | (_, VideoEnhancedBody body) \<Rightarrow> Inr (elementary_enhanced_video body keyframe)
          | (VideoLegacyHeader header, _) \<Rightarrow>
              (case header of
                 AvcPacket AvcEndOfSequence \<Rightarrow> Inr [SequenceEnd Avc None]
               | AvcPacket (AvcUnknown packet_type _) \<Rightarrow>
                   Inr [Skipped (UnknownPacketType packet_type) (Some (LegacyVideoId 7)) None]
               | LegacyVideoCommand _ \<Rightarrow> Inr [Skipped VideoCommandSkipped None None]
               | LegacyVideoOtherHeader codec_id \<Rightarrow> Inr [Skipped UnsupportedCodec (Some (LegacyVideoId codec_id)) None]
               | _ \<Rightarrow> Inl (Unreachable ''parsed AVC packet and body agree''))
          | _ \<Rightarrow> Inl (Unreachable ''parsed video header and body agree''))"

definition units_of :: "elementary_event list \<Rightarrow> elementary_unit list" where
  "units_of events = List.map_filter (\<lambda>event. case event of Unit u \<Rightarrow> Some u | _ \<Rightarrow> None) events"

definition elementary_units :: "elementary_error + elementary_event list \<Rightarrow> elementary_error + elementary_unit list" where
  "elementary_units visited = rbind visited (\<lambda>events. Inr (units_of events))"

definition single_elementary_unit :: "elementary_error + elementary_event list \<Rightarrow> elementary_error + elementary_unit option" where
  "single_elementary_unit visited =
     rbind (elementary_units visited) (\<lambda>units.
       if 1 < length units then Inl (Invalid (MultipleUnits (length units)))
       else Inr (case units of [] \<Rightarrow> None | u # _ \<Rightarrow> Some u))"

section \<open>The shape of parsed tags\<close>

lemma sbind_InrD: "sbind m f c = (c', Inr y) \<Longrightarrow> \<exists>x c1. m c = (c1, Inr x) \<and> f x c1 = (c', Inr y)"
  by (auto simp: sbind_def split: prod.splits sum.splits)

lemma read_u8_consumes:
  assumes "cursor_read_u8 bytes_media c = (c', Inr b)" and "bm.cur_ok c"
  shows "bm.cur_ok c' \<and> bm.unread c = b # bm.unread c'"
  using bm.read_u8_spec [OF assms(2)] assms(1) by (cases "bm.unread c") auto

lemma read_u24_consumes:
  assumes "cursor_read_u24 bytes_media c = (c', Inr x)" and "bm.cur_ok c"
  shows "bm.cur_ok c' \<and> (\<exists>p. length p = 3 \<and> bm.unread c = p @ bm.unread c')"
proof -
  obtain a1 a2 a3 c1 c2 where "cursor_read_u8 bytes_media c = (c1, Inr a1)" "cursor_read_u8 bytes_media c1 = (c2, Inr a2)"
      "cursor_read_u8 bytes_media c2 = (c', Inr a3)"
    using assms(1) unfolding cursor_read_u24_def by (auto dest!: sbind_InrD simp: sret_def)
  then have "bm.cur_ok c'" "bm.unread c = [a1, a2, a3] @ bm.unread c'"
    using read_u8_consumes assms(2) by (metis append_Cons append_Nil)+
  then show ?thesis
    by (intro conjI exI [of _ "[a1, a2, a3]"]) simp_all
qed

lemma take_rest_data: "take_rest bytes_media c = (c', Inr d) \<Longrightarrow> bm.cur_ok c \<Longrightarrow> d = bm.unread c"
  using bm.take_rest_spec [of c] by auto

text \<open>A legacy body is what follows its header.\<close>

lemma audio_shape:
  assumes "demux_audio bytes_media raw = Inr tag"
  shows "case tag of
      ParsedAudio (AudioLegacyHeader h) (AudioLegacyBody (LegacyAudioOther d)) \<Rightarrow> 1 \<le> length raw \<and> d = drop 1 raw
    | ParsedAudio (AudioLegacyHeader h) (AudioLegacyBody b) \<Rightarrow> 2 \<le> length raw \<and> set_legacy_audio_body b = {drop 2 raw} \<and> sound_format h = 10
    | ParsedAudio (AudioEnhancedHeader h) (AudioEnhancedBody b) \<Rightarrow> True
    | _ \<Rightarrow> False"
proof -
  have c: "bm.cur_ok (cursor_new raw)" "bm.unread (cursor_new raw) = raw"
    using bm.cursor_new_ok [of raw] by simp_all
  obtain c' where "audio_tag bytes_media (cursor_new raw) = (c', Inr tag)"
    using assms by (metis demux_audio_def prod.collapse)
  then show ?thesis
    unfolding audio_tag_def read_legacy_audio_body_def Let_def using c
    by (auto dest!: sbind_InrD read_u8_consumes take_rest_data simp: sret_def split: if_splits)
qed

lemma video_shape:
  assumes "demux_video bytes_media raw = Inr tag"
  shows "(\<exists>f h b. tag = ParsedVideo \<lparr>vt_frame_type = f, vt_data = VideoLegacyHeader h\<rparr> (VideoLegacyBody b)
      \<and> (\<forall>q. h = AvcPacket q \<longrightarrow> 5 \<le> length raw \<and> set_legacy_video_body b = {drop 5 raw}
           \<and> (q \<noteq> AvcSequenceHeaderPacket \<longrightarrow> (\<exists>d. b = LegacyVideoOther d))))
    \<or> (\<exists>f h b. tag = ParsedVideo \<lparr>vt_frame_type = f, vt_data = VideoEnhancedHeader h\<rparr> (VideoEnhancedBody b))"
proof -
  have c: "bm.cur_ok (cursor_new raw)" "bm.unread (cursor_new raw) = raw"
    using bm.cursor_new_ok [of raw] by simp_all
  obtain c' where "video_tag bytes_media (cursor_new raw) = (c', Inr tag)"
    using assms by (metis demux_video_def prod.collapse)
  then show ?thesis
    unfolding video_tag_def legacy_video_tag_def Let_def using c
    by (auto dest!: sbind_InrD read_u8_consumes read_u24_consumes take_rest_data simp: sret_def split: if_splits)
qed

section \<open>Every unit is a slice the parser found\<close>

lemma units_of_set: "u \<in> set (units_of events) \<longleftrightarrow> Unit u \<in> set events"
  by (induction events) (auto simp: units_of_def List.map_filter_def split: elementary_event.splits)

lemma audio_packet_unit:
  "elementary_audio_packet four_cc packet track_id = Unit u \<Longrightarrow> eu_bytes u \<in> set_audio_packet packet \<and> is_audio (eu_codec u)"
  by (auto simp: elementary_audio_packet_def audio_codec_of_def is_audio_def split: option.splits audio_packet.splits if_splits)

lemma video_packet_unit:
  "elementary_video_packet four_cc packet keyframe track_id = Unit u \<Longrightarrow> eu_bytes u \<in> set_video_packet packet \<and> is_video (eu_codec u)"
  by (auto simp: elementary_video_packet_def video_codec_of_def is_video_def split: option.splits video_packet.splits if_splits)

lemma enhanced_audio_unit:
  assumes "Unit u \<in> set (elementary_enhanced_audio body)"
  shows "eu_bytes u \<in> set_enhanced_audio_body body \<and> is_audio (eu_codec u)"
proof (cases body)
  case (AudioSinglePacket four_cc packet)
  then show ?thesis
    using assms audio_packet_unit [of four_cc packet] by (auto simp: elementary_enhanced_audio_def dest: sym)
next
  case (AudioTracks tracks)
  then obtain t where t: "t \<in> set tracks" "Unit u = elementary_audio_packet (at_four_cc t) (at_packet t) (Some (at_track_id t))"
    using assms by (auto simp: elementary_enhanced_audio_def)
  have "eu_bytes u \<in> set_audio_track t" "is_audio (eu_codec u)"
    using audio_packet_unit [OF t(2) [symmetric]] by (cases t; simp)+
  then show ?thesis
    using AudioTracks t(1) by auto
qed

lemma enhanced_video_unit:
  assumes "Unit u \<in> set (elementary_enhanced_video body keyframe)"
  shows "eu_bytes u \<in> set_enhanced_video_body body \<and> is_video (eu_codec u)"
proof (cases body)
  case (VideoSinglePacket four_cc packet)
  then show ?thesis
    using assms video_packet_unit [of four_cc packet] by (auto simp: elementary_enhanced_video_def dest: sym)
next
  case (VideoTracks tracks)
  then obtain t where t: "t \<in> set tracks" "Unit u = elementary_video_packet (vt_four_cc t) (vt_packet t) keyframe (Some (vt_track_id t))"
    using assms by (auto simp: elementary_enhanced_video_def)
  have "eu_bytes u \<in> set_video_track t" "is_video (eu_codec u)"
    using video_packet_unit [OF t(2) [symmetric]] by (cases t; simp)+
  then show ?thesis
    using VideoTracks t(1) by auto
qed (use assms in \<open>simp add: elementary_enhanced_video_def\<close>)

lemma parsed_audio_tag:
  "parse_audio ops raw mode = Inr m \<Longrightarrow>
     vm_raw m = raw \<and> (\<forall>tag. vm_interpretation m = Parsed tag \<longrightarrow> demux_audio ops raw = Inr tag)"
  by (auto simp: parse_audio_def finish_audio_def split: sum.splits if_splits)

lemma parsed_video_tag:
  "parse_video ops raw mode = Inr m \<Longrightarrow>
     vm_raw m = raw \<and> (\<forall>tag. vm_interpretation m = Parsed tag \<longrightarrow> demux_video ops raw = Inr tag)"
  by (auto simp: parse_video_def finish_video_def split: sum.splits if_splits)

lemma audio_slices: "demux_audio bytes_media raw = Inr tag \<Longrightarrow> \<forall>q\<in>set_parsed_audio tag. sublist q raw"
  using bb.demux_audio_contents [of raw raw] by (auto simp: bb.slices_def)

lemma video_slices: "demux_video bytes_media raw = Inr tag \<Longrightarrow> \<forall>q\<in>set_parsed_video tag. sublist q raw"
  using bb.demux_video_contents [of raw raw] by (auto simp: bb.slices_def)

lemma audio_events_of_tag:
  assumes "demux_audio bytes_media raw = Inr tag" and "vm_raw m = raw" and "vm_interpretation m = Parsed tag"
  shows "\<exists>events. audio_elementary_events m = Inr events
    \<and> (\<forall>u. Unit u \<in> set events \<longrightarrow> eu_bytes u \<in> set_parsed_audio tag \<and> is_audio (eu_codec u))"
proof -
  obtain h b where tag: "tag = ParsedAudio h b"
    by (cases tag) auto
  show ?thesis
  proof (cases b)
    case (AudioEnhancedBody body)
    then have "eu_bytes u \<in> set_parsed_audio tag \<and> is_audio (eu_codec u)" if "Unit u \<in> set (elementary_enhanced_audio body)" for u
      using enhanced_audio_unit [OF that] tag by auto
    then show ?thesis
      using AudioEnhancedBody tag assms(3) by (simp add: audio_elementary_events_def)
  next
    case (AudioLegacyBody body)
    then show ?thesis
      using audio_shape [OF assms(1)] tag assms(2,3)
      by (auto simp: audio_elementary_events_def elementary_slice_after_def LEGACY_AAC_HEADER_BYTES_def rbind_def is_audio_def Let_def
          split: audio_tag_header.splits legacy_audio_body.splits)
  qed
qed

lemma video_events_of_tag:
  assumes "demux_video bytes_media raw = Inr tag" and "vm_raw m = raw" and "vm_interpretation m = Parsed tag"
  shows "\<exists>events. video_elementary_events m = Inr events
    \<and> (\<forall>u. Unit u \<in> set events \<longrightarrow> eu_bytes u \<in> set_parsed_video tag \<and> is_video (eu_codec u))"
proof -
  consider (legacy) f h b where "tag = ParsedVideo \<lparr>vt_frame_type = f, vt_data = VideoLegacyHeader h\<rparr> (VideoLegacyBody b)"
      "\<forall>q. h = AvcPacket q \<longrightarrow> 5 \<le> length raw \<and> set_legacy_video_body b = {drop 5 raw} \<and> (q \<noteq> AvcSequenceHeaderPacket \<longrightarrow> (\<exists>d. b = LegacyVideoOther d))"
    | (enhanced) f h b where "tag = ParsedVideo \<lparr>vt_frame_type = f, vt_data = VideoEnhancedHeader h\<rparr> (VideoEnhancedBody b)"
    using video_shape [OF assms(1)] by blast
  then show ?thesis
  proof cases
    case enhanced
    then have "eu_bytes u \<in> set_parsed_video tag \<and> is_video (eu_codec u)" if "Unit u \<in> set (elementary_enhanced_video b keyframe)" for u keyframe
      using enhanced_video_unit [OF that] by auto
    then show ?thesis
      using enhanced assms(3) by (simp add: video_elementary_events_def Let_def)
  next
    case legacy
    then show ?thesis
      using assms(2,3)
      by (auto simp: video_elementary_events_def elementary_slice_after_def LEGACY_AVC_HEADER_BYTES_def rbind_def is_video_def Let_def
          split: legacy_video_header.splits legacy_avc_packet.splits)
  qed
qed

section \<open>Units and classification agree\<close>

fun sample_unit :: "elementary_unit \<Rightarrow> bool" where
  "sample_unit (Sample _ _ _ _ _) = True"
| "sample_unit (Configuration _ _ _) = False"

text \<open>
  A unit against the classification of its message: a sample in a coded message, both with the given
  keyframe flags, or a configuration in a configuration message.
\<close>

definition unit_classified :: "bool \<Rightarrow> bool \<Rightarrow> elementary_unit \<Rightarrow> media_classification \<Rightarrow> bool" where
  "unit_classified unit_key message_key u c \<longleftrightarrow>
     (if sample_unit u then mc_coded c \<and> eu_keyframe u = unit_key \<and> mc_keyframe c = message_key else mc_configuration c)"

lemma classify_audio_mono:
  "mc_coded c \<Longrightarrow> mc_coded (fold (\<lambda>t. classify_audio_packet (at_packet t)) ts c)"
  "mc_configuration c \<Longrightarrow> mc_configuration (fold (\<lambda>t. classify_audio_packet (at_packet t)) ts c)"
proof -
  have step: "mc_coded c \<Longrightarrow> mc_coded (classify_audio_packet p c)" "mc_configuration c \<Longrightarrow> mc_configuration (classify_audio_packet p c)"
    for c and p :: "'a audio_packet"
    by (cases p; simp)+
  show "mc_coded c \<Longrightarrow> mc_coded (fold (\<lambda>t. classify_audio_packet (at_packet t)) ts c)"
    and "mc_configuration c \<Longrightarrow> mc_configuration (fold (\<lambda>t. classify_audio_packet (at_packet t)) ts c)"
    by (induction ts arbitrary: c) (auto intro: step)
qed

lemma classify_video_mono:
  "mc_coded c \<Longrightarrow> mc_coded (fold (\<lambda>t. classify_video_packet k (vt_packet t)) ts c)"
  "mc_configuration c \<Longrightarrow> mc_configuration (fold (\<lambda>t. classify_video_packet k (vt_packet t)) ts c)"
  "mc_keyframe (fold (\<lambda>t. classify_video_packet k (vt_packet t)) ts c) \<Longrightarrow> mc_keyframe c \<or> k"
  "mc_keyframe c \<Longrightarrow> mc_keyframe (fold (\<lambda>t. classify_video_packet k (vt_packet t)) ts c)"
proof -
  have step: "mc_coded c \<Longrightarrow> mc_coded (classify_video_packet k p c)" "mc_configuration c \<Longrightarrow> mc_configuration (classify_video_packet k p c)"
    "mc_keyframe (classify_video_packet k p c) \<Longrightarrow> mc_keyframe c \<or> k" "mc_keyframe c \<Longrightarrow> mc_keyframe (classify_video_packet k p c)"
    for c and p :: "'a video_packet"
    by (cases p; auto)+
  show "mc_coded c \<Longrightarrow> mc_coded (fold (\<lambda>t. classify_video_packet k (vt_packet t)) ts c)"
    and "mc_configuration c \<Longrightarrow> mc_configuration (fold (\<lambda>t. classify_video_packet k (vt_packet t)) ts c)"
    and "mc_keyframe c \<Longrightarrow> mc_keyframe (fold (\<lambda>t. classify_video_packet k (vt_packet t)) ts c)"
    by (induction ts arbitrary: c) (auto intro: step)
  show "mc_keyframe (fold (\<lambda>t. classify_video_packet k (vt_packet t)) ts c) \<Longrightarrow> mc_keyframe c \<or> k"
    by (induction ts arbitrary: c) (auto dest: step)
qed

lemma classify_audio_tracks:
  assumes "t \<in> set ts"
  shows "at_packet t = AudioCodedFrames d \<Longrightarrow> mc_coded (fold (\<lambda>t. classify_audio_packet (at_packet t)) ts c)"
    and "at_packet t = AudioSequenceStart d \<Longrightarrow> mc_configuration (fold (\<lambda>t. classify_audio_packet (at_packet t)) ts c)"
  using assms by (induction ts arbitrary: c) (auto intro: classify_audio_mono)

lemma classify_video_tracks:
  assumes "t \<in> set ts"
  shows "vt_packet t = VideoCodedFrames n d \<or> vt_packet t = VideoCodedFramesX d \<Longrightarrow>
      mc_coded (fold (\<lambda>t. classify_video_packet k (vt_packet t)) ts c)
      \<and> (k \<longrightarrow> mc_keyframe (fold (\<lambda>t. classify_video_packet k (vt_packet t)) ts c))"
    and "vt_packet t = VideoSequenceStart d \<Longrightarrow> mc_configuration (fold (\<lambda>t. classify_video_packet k (vt_packet t)) ts c)"
  using assms by (induction ts arbitrary: c) (auto intro: classify_video_mono)

lemma classify_audio_keyframe: "mc_keyframe (fold (\<lambda>t. classify_audio_packet (at_packet t)) ts c) = mc_keyframe c"
proof -
  have "mc_keyframe (classify_audio_packet p c) = mc_keyframe c" for c and p :: "'a audio_packet"
    by (cases p) simp_all
  then show ?thesis
    by (induction ts arbitrary: c) auto
qed

lemma audio_packet_cases:
  assumes "elementary_audio_packet four_cc packet track_id = Unit u"
  shows "sample_unit u \<and> eu_keyframe u \<and> (\<exists>d. packet = AudioCodedFrames d) \<or> \<not> sample_unit u \<and> (\<exists>d. packet = AudioSequenceStart d)"
  using assms by (auto simp: elementary_audio_packet_def split: option.splits audio_packet.splits)

lemma video_packet_cases:
  assumes "elementary_video_packet four_cc packet keyframe track_id = Unit u"
  shows "sample_unit u \<and> eu_keyframe u = keyframe \<and> (\<exists>n d. packet = VideoCodedFrames n d \<or> packet = VideoCodedFramesX d)
    \<or> \<not> sample_unit u \<and> (\<exists>d. packet = VideoSequenceStart d)"
  using assms by (auto simp: elementary_video_packet_def split: option.splits video_packet.splits)

lemma enhanced_audio_classified:
  assumes "Unit u \<in> set (elementary_enhanced_audio body)"
  shows "unit_classified True False u (classify_enhanced_audio body)"
proof (cases body)
  case (AudioSinglePacket four_cc packet)
  then have "elementary_audio_packet four_cc packet None = Unit u"
    using assms by (simp add: elementary_enhanced_audio_def)
  then show ?thesis
    using audio_packet_cases [of four_cc packet None u] AudioSinglePacket
    by (auto simp: unit_classified_def classify_enhanced_audio_def no_classification_def)
next
  case (AudioTracks tracks)
  then obtain t where t: "t \<in> set tracks" "elementary_audio_packet (at_four_cc t) (at_packet t) (Some (at_track_id t)) = Unit u"
    using assms by (auto simp: elementary_enhanced_audio_def dest: sym)
  show ?thesis
    using audio_packet_cases [OF t(2)] classify_audio_tracks [OF t(1)] AudioTracks
    by (auto simp: unit_classified_def classify_enhanced_audio_def classify_audio_keyframe no_classification_def)
qed

lemma enhanced_video_classified:
  assumes "Unit u \<in> set (elementary_enhanced_video body keyframe)"
  shows "unit_classified keyframe key u (classify_enhanced_video body key)"
proof (cases body)
  case (VideoSinglePacket four_cc packet)
  then have "elementary_video_packet four_cc packet keyframe None = Unit u"
    using assms by (simp add: elementary_enhanced_video_def)
  then show ?thesis
    using video_packet_cases [of four_cc packet keyframe None u] VideoSinglePacket
    by (auto simp: unit_classified_def classify_enhanced_video_def no_classification_def)
next
  case (VideoTracks tracks)
  then obtain t where t: "t \<in> set tracks" "elementary_video_packet (vt_four_cc t) (vt_packet t) keyframe (Some (vt_track_id t)) = Unit u"
    using assms by (auto simp: elementary_enhanced_video_def dest: sym)
  have "mc_keyframe (fold (\<lambda>t. classify_video_packet key (vt_packet t)) tracks no_classification) \<Longrightarrow> key"
    using classify_video_mono(3) [of key tracks no_classification] by (simp add: no_classification_def)
  then show ?thesis
    using video_packet_cases [OF t(2)] classify_video_tracks [OF t(1)] VideoTracks
    by (auto simp: unit_classified_def classify_enhanced_video_def)
qed (use assms in \<open>simp add: elementary_enhanced_video_def\<close>)

lemma audio_unit_classified:
  assumes "demux_audio bytes_media raw = Inr tag" and "vm_interpretation m = Parsed tag"
    and "audio_elementary_events m = Inr events" and "Unit u \<in> set events"
  shows "unit_classified True False u (audio_classification m)"
proof -
  obtain h b where tag: "tag = ParsedAudio h b"
    by (cases tag) auto
  show ?thesis
  proof (cases b)
    case (AudioEnhancedBody body)
    then show ?thesis
      using tag assms(2-4) enhanced_audio_classified [of u body] by (auto simp: audio_elementary_events_def audio_classification_def)
  next
    case (AudioLegacyBody body)
    then show ?thesis
      using audio_shape [OF assms(1)] tag assms(2-4)
      by (auto simp: audio_elementary_events_def audio_classification_def elementary_slice_after_def rbind_def unit_classified_def
          no_classification_def Let_def split: audio_tag_header.splits legacy_audio_body.splits if_splits)
  qed
qed

lemma video_unit_classified:
  assumes "demux_video bytes_media raw = Inr tag" and "vm_interpretation m = Parsed tag"
    and "video_elementary_events m = Inr events" and "Unit u \<in> set events"
  shows "unit_classified (vt_frame_type (pv_header tag) \<in> {1, 4}) (vt_frame_type (pv_header tag) = 1) u (video_classification m)"
  using video_shape [OF assms(1)]
proof (elim disjE exE conjE)
  fix f h b
  assume tag: "tag = ParsedVideo \<lparr>vt_frame_type = f, vt_data = VideoEnhancedHeader h\<rparr> (VideoEnhancedBody b)"
  then show ?thesis
    using assms(2-4) enhanced_video_classified [of u b "f = 1 \<or> f = 4" "f = 1"]
    by (auto simp: video_elementary_events_def video_classification_def Let_def)
next
  fix f h b
  assume tag: "tag = ParsedVideo \<lparr>vt_frame_type = f, vt_data = VideoLegacyHeader h\<rparr> (VideoLegacyBody b)"
  then show ?thesis
    using assms(2-4)
    by (auto simp: video_elementary_events_def video_classification_def elementary_slice_after_def rbind_def unit_classified_def Let_def
        split: legacy_video_header.splits legacy_avc_packet.splits legacy_video_body.splits if_splits)
qed

text \<open>
  C38 (safety). Extracting elementary events from a validated message never reaches an \<open>unreachable!\<close>: an opaque
  message gives its reason as an error, and a parsed one gives events whose units are exactly slices the tag parser found,
  so contiguous parts of the original message without its FLV header, in a codec of its kind. A sample comes from a message
  classified as coded, a configuration from one classified as configuration. The keyframe flags of the two differ: an audio
  sample is always a keyframe and an audio message never; a video sample is a keyframe exactly for the frame types 1 and 4
  (generated keyframe), its message only for type 1. A single unit is returned exactly when there is at most one.
\<close>

theorem elementary_events_safe:
  "(\<forall>m. parse_audio bytes_media raw mode = Inr m \<longrightarrow>
      (case vm_interpretation m of
         Opaque reason \<Rightarrow> audio_elementary_events m = Inl (Invalid (Malformed ''audio'' reason))
       | Parsed tag \<Rightarrow> \<exists>events. audio_elementary_events m = Inr events
           \<and> (\<forall>u\<in>set (units_of events). eu_bytes u \<in> set_parsed_audio tag \<and> sublist (eu_bytes u) raw \<and> is_audio (eu_codec u) \<and> unit_classified True False u (audio_classification m))
           \<and> (length (units_of events) \<le> 1 \<longleftrightarrow> (\<exists>u. single_elementary_unit (audio_elementary_events m) = Inr u))))
    \<and> (\<forall>m. parse_video bytes_media raw mode = Inr m \<longrightarrow>
      (case vm_interpretation m of
         Opaque reason \<Rightarrow> video_elementary_events m = Inl (Invalid (Malformed ''video'' reason))
       | Parsed tag \<Rightarrow> \<exists>events. video_elementary_events m = Inr events
           \<and> (\<forall>u\<in>set (units_of events). eu_bytes u \<in> set_parsed_video tag \<and> sublist (eu_bytes u) raw \<and> is_video (eu_codec u)
               \<and> unit_classified (vt_frame_type (pv_header tag) \<in> {1, 4}) (vt_frame_type (pv_header tag) = 1) u (video_classification m))
           \<and> (length (units_of events) \<le> 1 \<longleftrightarrow> (\<exists>u. single_elementary_unit (video_elementary_events m) = Inr u))))"
proof (intro conjI allI impI, goal_cases)
  case (1 m)
  show ?case
  proof (cases "vm_interpretation m")
    case (Parsed tag)
    note tag = parsed_audio_tag [OF 1, THEN conjunct2, rule_format, OF Parsed]
    show ?thesis
      using audio_slices [OF tag] audio_events_of_tag [OF tag _ Parsed] parsed_audio_tag [OF 1] audio_unit_classified [OF tag Parsed] Parsed
      by (auto simp: units_of_set single_elementary_unit_def elementary_units_def rbind_def)
  qed (simp add: audio_elementary_events_def)
next
  case (2 m)
  show ?case
  proof (cases "vm_interpretation m")
    case (Parsed tag)
    note tag = parsed_video_tag [OF 2, THEN conjunct2, rule_format, OF Parsed]
    show ?thesis
      using video_slices [OF tag] video_events_of_tag [OF tag _ Parsed] parsed_video_tag [OF 2] video_unit_classified [OF tag Parsed] Parsed
      by (auto simp: units_of_set single_elementary_unit_def elementary_units_def rbind_def)
  qed (simp add: video_elementary_events_def)
qed

text \<open>An AVC message of frame type 4: its sample is a keyframe, the message is not.\<close>

theorem elementary_events_safe_witness:
  "\<exists>m events u. parse_video bytes_media [0x47, 1, 0, 0, 0, 9] Strict = Inr m \<and> video_elementary_events m = Inr events
     \<and> units_of events = [u] \<and> eu_bytes u = [9] \<and> sublist (eu_bytes u) [0x47, 1, 0, 0, 0, 9]
     \<and> eu_keyframe u \<and> mc_coded (video_classification m) \<and> \<not> mc_keyframe (video_classification m)"
proof -
  let ?tag = "ParsedVideo \<lparr>vt_frame_type = 4, vt_data = VideoLegacyHeader (AvcPacket (AvcNalu 0))\<rparr> (VideoLegacyBody (LegacyVideoOther [9 :: u8]))"
  let ?m = "\<lparr>vm_raw = [0x47 :: u8, 1, 0, 0, 0, 9], vm_interpretation = Parsed ?tag\<rparr>"
  have m: "parse_video bytes_media [0x47, 1, 0, 0, 0, 9] Strict = Inr ?m"
    by code_simp
  have u: "video_elementary_events ?m = Inr [Unit (Sample Avc [9] True 0 None)]"
    by code_simp
  then have "unit_classified True False (Sample Avc [9] True 0 None) (video_classification ?m)"
    "sublist [9] [0x47, 1, 0, 0, 0, 9 :: u8]"
    using elementary_events_safe [of "[0x47, 1, 0, 0, 0, 9]" Strict] m by (auto simp: units_of_def)
  with m u show ?thesis
    by (intro exI [of _ ?m] exI [of _ "[Unit (Sample Avc [9] True 0 None)]"] exI [of _ "Sample Avc [9] True 0 None"])
      (auto simp: unit_classified_def units_of_def)
qed

end
