(* ===== verification/Metadata.thy ===== *)
theory Metadata
  imports Media Session_Metadata
begin

text \<open>
  Typed inspection of \<open>onMetaData\<close> messages (\<open>src/src/metadata.rs\<close>). A string is its UTF-8 bytes and an \<open>f64\<close> its bits, as
  in the AMF codecs. \<open>MetadataPanic\<close> is a panic of the code. The texts of the errors are values of \<open>metadata_reason\<close>. The
  payload of the message is its bytes, which the decoder reads across segments.
\<close>

section \<open>Strings and numbers of the standard library\<close>

text \<open>The characters with the Unicode property \<open>White_Space\<close>, encoded.\<close>

definition WHITE_SPACE :: "bytes list" where
  "WHITE_SPACE =
     map (\<lambda>b. [b]) [9, 10, 11, 12, 13, 32] @ [[0xC2, 0x85], [0xC2, 0xA0], [0xE1, 0x9A, 0x80]]
     @ map (\<lambda>b. [0xE2, 0x80, b]) [0x80, 0x81, 0x82, 0x83, 0x84, 0x85, 0x86, 0x87, 0x88, 0x89, 0x8A, 0xA8, 0xA9, 0xAF]
     @ [[0xE2, 0x81, 0x9F], [0xE3, 0x80, 0x80]]"

definition leading :: "bytes list \<Rightarrow> bytes \<Rightarrow> nat" where
  "leading ws s = (case find (\<lambda>w. prefix w s) ws of None \<Rightarrow> 0 | Some w \<Rightarrow> length w)"

function strip_leading :: "bytes list \<Rightarrow> bytes \<Rightarrow> bytes" where
  "strip_leading ws s = (if leading ws s = 0 then s else strip_leading ws (drop (leading ws s) s))"
  by auto
termination
proof (relation "measure (length \<circ> snd)", goal_cases)
  case (2 ws s)
  then have "s \<noteq> []"
    by (auto simp: leading_def find_Some_iff split: option.splits)
  with 2 show ?case
    by simp
qed simp

declare strip_leading.simps [simp del]

definition str_trim :: "bytes \<Rightarrow> bytes" where
  "str_trim s = rev (strip_leading (map rev WHITE_SPACE) (rev (strip_leading WHITE_SPACE s)))"

definition is_char_boundary :: "bytes \<Rightarrow> nat \<Rightarrow> bool" where
  "is_char_boundary s i \<longleftrightarrow> i = 0 \<or> i = length s \<or> i < length s \<and> \<not> utf8_cont (s ! i)"

datatype metadata_panic = MetadataPanic

definition string_truncate :: "bytes \<Rightarrow> nat \<Rightarrow> metadata_panic + bytes" where
  "string_truncate s n =
     (if n \<le> length s then if is_char_boundary s n then Inr (take n s) else Inl MetadataPanic else Inr s)"

definition is_ascii_graphic :: "u8 \<Rightarrow> bool" where
  "is_ascii_graphic b \<longleftrightarrow> 0x21 \<le> b \<and> b \<le> 0x7E"

definition f64_is_finite :: "f64 \<Rightarrow> bool" where
  "f64_is_finite w \<longleftrightarrow> f64_exponent w \<noteq> 2047"

text \<open>\<open>x > 0.0\<close>; positive finite numbers compare as their bits do.\<close>

definition f64_is_positive :: "f64 \<Rightarrow> bool" where
  "f64_is_positive w \<longleftrightarrow> \<not> f64_is_nan w \<and> \<not> f64_sign w \<and> w \<noteq> 0"

definition f64_is_u32 :: "f64 \<Rightarrow> bool" where
  "f64_is_u32 w = (case f64_integral w of None \<Rightarrow> False | Some i \<Rightarrow> 0 \<le> i \<and> i \<le> 2 ^ 32 - 1)"

text \<open>
  Arithmetic on positive numbers up to a million: \<open>n * 2 ^ e\<close> to nearest, ties to even, whose significand is added to the
  exponent field, so that a carry moves to the next exponent; a number is \<open>f64_significand * 2 ^ f64_scale\<close>.
\<close>

definition f64_of_dyadic :: "nat \<Rightarrow> int \<Rightarrow> f64" where
  "f64_of_dyadic n e =
     (if n = 0 then 0
      else let k = max (int (top_bit n) - 52) (- 1074 - e);
               m = (if k \<le> 0 then n * 2 ^ nat (- k) else round_even n (nat k))
           in word_of_nat (nat (e + k + 1074) * 2 ^ 52 + m))"

definition f64_significand :: "f64 \<Rightarrow> nat" where
  "f64_significand w = (if f64_exponent w = 0 then f64_fraction w else 2 ^ 52 + f64_fraction w)"

definition f64_scale :: "f64 \<Rightarrow> int" where
  "f64_scale w = int (max 1 (f64_exponent w)) - 1075"

definition f64_times_1000 :: "f64 \<Rightarrow> f64" where
  "f64_times_1000 w = f64_of_dyadic (f64_significand w * 1000) (f64_scale w)"

definition f64_round :: "f64 \<Rightarrow> f64" where
  "f64_round w =
     (if 0 \<le> f64_scale w then w
      else let k = nat (- f64_scale w) in f64_of_int (int ((f64_significand w + 2 ^ (k - 1)) div 2 ^ k)))"

text \<open>The quotient has 64 bits more than needed, and the last one is set when the division leaves a remainder.\<close>

definition f64_div_1000 :: "f64 \<Rightarrow> f64" where
  "f64_div_1000 w =
     (let n = f64_significand w * 2 ^ 64
      in f64_of_dyadic (2 * (n div 1000) + (if n mod 1000 = 0 then 0 else 1)) (f64_scale w - 65))"

section \<open>Metadata\<close>

datatype metadata_codec = LegacyCodec f64 | FourCcCodec bytes

record track_metadata =
  tm_track_id :: u32
  tm_codec :: "metadata_codec option"
  tm_properties :: amf0_object

definition track_metadata_new :: "u32 \<Rightarrow> metadata_codec option \<Rightarrow> amf0_object \<Rightarrow> track_metadata" where
  "track_metadata_new track_id codec properties = \<lparr>tm_track_id = track_id, tm_codec = codec, tm_properties = properties\<rparr>"

record parsed_metadata =
  pm_properties :: amf0_object
  pm_audio_tracks :: "u32 \<rightharpoonup> track_metadata"
  pm_video_tracks :: "u32 \<rightharpoonup> track_metadata"

record encoder_summary =
  es_video_codec :: "bytes option"
  es_audio_codec :: "bytes option"
  es_width :: "u32 option"
  es_height :: "u32 option"
  es_framerate :: "f64 option"
  es_encoder_vendor :: "bytes option"

definition encoder_summary_is_empty :: "encoder_summary \<Rightarrow> bool" where
  "encoder_summary_is_empty s \<longleftrightarrow>
     s = \<lparr>es_video_codec = None, es_audio_codec = None, es_width = None, es_height = None, es_framerate = None,
          es_encoder_vendor = None\<rparr>"

datatype track_kind = KindAudio | KindVideo

definition MAX_DECLARED_FRAMERATE :: f64 where
  "MAX_DECLARED_FRAMERATE = f64_of_int 1000"

definition MAX_ENCODER_LEN :: nat where
  "MAX_ENCODER_LEN = 96"

definition AUDIO_FOURCCS :: "bytes list" where
  "AUDIO_FOURCCS = map ascii [''ac-3'', ''ec-3'', ''Opus'', ''.mp3'', ''fLaC'', ''mp4a'']"

definition VIDEO_FOURCCS :: "bytes list" where
  "VIDEO_FOURCCS = map ascii [''vp08'', ''vp09'', ''av01'', ''avc1'', ''hvc1'', ''vvc1'']"

definition known_fourcc :: "bytes \<Rightarrow> track_kind \<Rightarrow> bool" where
  "known_fourcc v kind = (case kind of KindAudio \<Rightarrow> v \<in> set AUDIO_FOURCCS | KindVideo \<Rightarrow> v \<in> set VIDEO_FOURCCS)"

definition canonical_fourcc :: "bytes \<Rightarrow> track_kind \<Rightarrow> bytes option" where
  "canonical_fourcc bs kind = find (\<lambda>candidate. known_fourcc candidate kind) [bs, rev bs]"

section \<open>The encoder summary\<close>

definition ENCODER_VENDOR_TABLE :: "(string \<times> string list \<times> string list) list" where
  "ENCODER_VENDOR_TABLE =
     [(''streamlabs'', [], [''streamlabs'', ''slobs'']),
      (''obs'', [], [''obs-studio'', ''obs-output'', ''libobs'']),
      (''ffmpeg'', [''lavf'', ''lavc''], [''ffmpeg'', ''libavformat'', ''libav'', ''avconv'']),
      (''gstreamer'', [], [''gstreamer'', ''flvmux'', ''gst-launch'']),
      (''fmle'', [''fmle/'', ''fme/''], [''flash media live'', ''adobe'']),
      (''wirecast'', [], [''wirecast'', ''telestream'']),
      (''vmix'', [], [''vmix'', ''v-mix'']),
      (''xsplit'', [], [''xsplit'']),
      (''ecamm'', [], [''ecamm'']),
      (''mimolive'', [], [''mimolive'', ''mimo live'', ''boinx'']),
      (''manycam'', [], [''manycam'']),
      (''prism_live'', [], [''prism live'', ''naver prism'']),
      (''tiktok'', [], [''tiktok'']),
      (''switcher'', [], [''switcher studio'', ''switcherstudio'']),
      (''larix'', [], [''larix'']),
      (''haishinkit'', [], [''haishinkit'', ''haishin'']),
      (''rootencoder'', [], [''rootencoder'', ''rtmp-rtsp-stream-client'']),
      (''nanostream'', [], [''nanocosmos'', ''nanostream'']),
      (''teradek'', [], [''teradek'', ''vidiu'', ''t-rax'']),
      (''liveu'', [], [''liveu'', ''live-u'', ''lu600'']),
      (''haivision'', [], [''haivision'', ''makito'', ''kulabyte'']),
      (''elemental'', [], [''elemental'']),
      (''wowza'', [], [''wowza'', ''gocoder'', ''go coder'', ''clearcaster'']),
      (''blackmagic'', [], [''blackmagic'', ''atem'', ''decklink'', ''web presenter'']),
      (''newtek'', [], [''newtek'', ''tricaster'', ''3play'']),
      (''epiphan'', [], [''epiphan'', ''pearl'', ''webcaster'']),
      (''matrox'', [], [''matrox'', ''monarch'']),
      (''aja'', [], [''aja'', ''helo'']),
      (''osprey'', [], [''osprey'', ''talon'']),
      (''kiloview'', [], [''kiloview'']),
      (''magewell'', [], [''magewell'', ''ultra stream'']),
      (''cerevo'', [], [''cerevo'', ''liveshell'', ''livewedge'']),
      (''roland'', [], [''roland'', ''vr-4hd'', ''v-60hd'', ''v-02hd'']),
      (''yololiv'', [], [''yolobox'', ''yololiv'']),
      (''atomos'', [], [''atomos'', ''ninja'', ''shogun'']),
      (''videon'', [], [''videon'', ''edgecaster'', ''streamsync'']),
      (''boxcast'', [], [''boxcast'', ''boxcaster'']),
      (''resi'', [], [''resi'']),
      (''slingstudio'', [], [''slingstudio'', ''sling studio'']),
      (''vidblaster'', [], [''vidblaster'', ''vid blaster'']),
      (''touchstream'', [], [''touchstream'', ''touch stream'']),
      (''broadcastme'', [], [''broadcastme'', ''broadcast me'']),
      (''vlc'', [], [''vlc'']),
      (''camera'', [], [''ptzoptics'', ''mevo'', ''gopro'', ''dji'', ''panasonic'', ''sony'', ''canon'', ''jvc'']),
      (''gateway'', [''srs''], [''datarhei'', ''restreamer'', ''mediamtx'', ''nginx'', ''mistserver'', ''ovenmediaengine'', ''ant media'', ''red5'', ''zixi'', ''mosaicoon'', ''/srs'', '' srs'']),
      (''flash'', [], [''flash player''])]"

definition normalize_encoder_vendor :: "bytes \<Rightarrow> bytes option" where
  "normalize_encoder_vendor raw =
     (let trimmed = str_trim raw in
      if trimmed = [] then None
      else let lower = to_ascii_lowercase trimmed in
        case find (\<lambda>(vendor, prefixes, substrings).
               list_ex (\<lambda>p. prefix (ascii p) lower) prefixes \<or> list_ex (\<lambda>s. sublist (ascii s) lower) substrings)
             ENCODER_VENDOR_TABLE of
          Some (vendor, _) \<Rightarrow> Some (ascii vendor)
        | None \<Rightarrow> Some (ascii ''other''))"

definition video_label :: "u32 \<Rightarrow> string option" where
  "video_label n =
     (if n = 2 then Some ''h263'' else if n = 3 then Some ''screen'' else if n = 4 then Some ''vp6''
      else if n = 5 then Some ''vp6a'' else if n = 6 then Some ''screen2'' else if n = 7 then Some ''avc1''
      else if n = 12 then Some ''hvc1'' else if n = 13 then Some ''av01'' else None)"

definition audio_label :: "u32 \<Rightarrow> string option" where
  "audio_label n =
     (if n = 0 then Some ''pcm'' else if n = 1 then Some ''adpcm'' else if n = 2 then Some ''mp3''
      else if 4 \<le> n \<and> n \<le> 6 then Some ''nellymoser'' else if n = 10 then Some ''mp4a''
      else if n = 11 then Some ''speex'' else None)"

definition codec_label :: "f64 \<Rightarrow> track_kind \<Rightarrow> bytes option" where
  "codec_label v kind =
     (if \<not> f64_is_u32 v then None
      else let n = f64_to_u32 v; bs = be32 n in
        if list_all is_ascii_graphic bs then canonical_fourcc bs kind
        else map_option ascii (case kind of KindVideo \<Rightarrow> video_label n | KindAudio \<Rightarrow> audio_label n))"

definition codec_name :: "parsed_metadata \<Rightarrow> string \<Rightarrow> track_kind \<Rightarrow> bytes option" where
  "codec_name m field kind =
     (case map_of (pm_properties m) (ascii field) of
        Some (A0Number v) \<Rightarrow> codec_label v kind
      | Some (A0Utf8String v) \<Rightarrow>
          (let bs = str_trim v in if length bs = 4 \<and> known_fourcc bs kind then Some bs else None)
      | _ \<Rightarrow> None)"

definition positive_number :: "parsed_metadata \<Rightarrow> string \<Rightarrow> f64 option" where
  "positive_number m field =
     (case map_of (pm_properties m) (ascii field) of
        Some (A0Number v) \<Rightarrow> if f64_is_finite v \<and> f64_is_positive v then Some v else None
      | _ \<Rightarrow> None)"

definition dimension :: "parsed_metadata \<Rightarrow> string \<Rightarrow> u32 option" where
  "dimension m field =
     (case positive_number m field of
        None \<Rightarrow> None
      | Some v \<Rightarrow> if f64_integral v \<noteq> None \<and> v \<le> f64_of_int 65535 then Some (f64_to_u32 v) else None)"

definition bounded_positive_number :: "parsed_metadata \<Rightarrow> string \<Rightarrow> f64 \<Rightarrow> f64 option" where
  "bounded_positive_number m field maximum =
     (case positive_number m field of None \<Rightarrow> None | Some v \<Rightarrow> if v \<le> maximum then Some v else None)"

definition metadata_encoder :: "parsed_metadata \<Rightarrow> metadata_panic + bytes option" where
  "metadata_encoder m =
     (case map_of (pm_properties m) (ascii ''encoder'') of
        Some (A0Utf8String v) \<Rightarrow>
          (let trimmed = str_trim v in
           if trimmed = [] then Inr None
           else if length trimmed > MAX_ENCODER_LEN then
             rbind (string_truncate trimmed MAX_ENCODER_LEN) (\<lambda>owned. Inr (Some owned))
           else Inr (Some trimmed))
      | _ \<Rightarrow> Inr None)"

definition encoder_vendor :: "parsed_metadata \<Rightarrow> metadata_panic + bytes option" where
  "encoder_vendor m = rbind (metadata_encoder m) (\<lambda>e. Inr (Option.bind e normalize_encoder_vendor))"

definition summarize_encoder :: "parsed_metadata \<Rightarrow> metadata_panic + encoder_summary" where
  "summarize_encoder m =
     rbind (encoder_vendor m) (\<lambda>vendor.
       Inr \<lparr>es_video_codec = codec_name m ''videocodecid'' KindVideo, es_audio_codec = codec_name m ''audiocodecid'' KindAudio,
            es_width = dimension m ''width'', es_height = dimension m ''height'',
            es_framerate = map_option (\<lambda>v. f64_div_1000 (f64_round (f64_times_1000 v)))
              (bounded_positive_number m ''framerate'' MAX_DECLARED_FRAMERATE),
            es_encoder_vendor = vendor\<rparr>)"

section \<open>Parsing\<close>

datatype metadata_reason =
    DecodeFailed message_deserialization_error
  | NoProperties
  | MapNotObject string
  | NonNumericTrackId string bytes
  | DescribesDefaultTrack string
  | TrackNotObject string u32
  | CodecNotNumeric string u32
  | CodecIdInvalid string u32
  | UnknownTrackFourCc string u32 bytes

definition parse_codec :: "amf0_value \<Rightarrow> track_kind \<Rightarrow> string \<Rightarrow> u32 \<Rightarrow> metadata_reason + metadata_codec" where
  "parse_codec v kind field track_id =
     (case v of
        A0Number n \<Rightarrow>
          if \<not> f64_is_u32 n then Inl (CodecIdInvalid field track_id)
          else let bs = be32 (f64_to_u32 n) in
            if \<not> list_all is_ascii_graphic bs then Inr (LegacyCodec n)
            else map_sum id FourCcCodec (ok_or (UnknownTrackFourCc field track_id bs) (canonical_fourcc bs kind))
      | _ \<Rightarrow> Inl (CodecNotNumeric field track_id))"

definition parse_track :: "string \<Rightarrow> track_kind \<Rightarrow> bytes \<times> amf0_value \<Rightarrow> metadata_reason + u32 \<times> track_metadata" where
  "parse_track field kind = (\<lambda>(key, v).
     rbind (ok_or (NonNumericTrackId field key) (parse_u32 key)) (\<lambda>track_id.
       if track_id = 0 then Inl (DescribesDefaultTrack field)
       else case v of
           A0Object properties \<Rightarrow>
             rbind (case map_of properties (ascii (case kind of KindAudio \<Rightarrow> ''audiocodecid'' | KindVideo \<Rightarrow> ''videocodecid'')) of
                 None \<Rightarrow> Inr None
               | Some c \<Rightarrow> map_sum id Some (parse_codec c kind field track_id)) (\<lambda>codec.
               Inr (track_id, track_metadata_new track_id codec properties))
         | _ \<Rightarrow> Inl (TrackNotObject field track_id)))"

text \<open>Collecting into a \<open>BTreeMap\<close>: the first error ends it, a later entry replaces an earlier one with the same id.\<close>

primrec collect_tracks ::
    "string \<Rightarrow> track_kind \<Rightarrow> amf0_object \<Rightarrow> (u32 \<rightharpoonup> track_metadata) \<Rightarrow> metadata_reason + (u32 \<rightharpoonup> track_metadata)" where
  "collect_tracks field kind [] acc = Inr acc"
| "collect_tracks field kind (e # es) acc =
     rbind (parse_track field kind e) (\<lambda>(track_id, t). collect_tracks field kind es (acc(track_id \<mapsto> t)))"

definition parse_track_map ::
    "amf0_value option \<Rightarrow> string \<Rightarrow> track_kind \<Rightarrow> metadata_reason + (u32 \<rightharpoonup> track_metadata)" where
  "parse_track_map v field kind =
     (case v of
        None \<Rightarrow> Inr Map.empty
      | Some (A0Object entries) \<Rightarrow> collect_tracks field kind entries Map.empty
      | Some _ \<Rightarrow> Inl (MapNotObject field))"

definition parse_metadata :: "amf0_object \<Rightarrow> metadata_reason + parsed_metadata" where
  "parse_metadata properties =
     rbind (parse_track_map (map_of properties (ascii ''audioTrackIdInfoMap'')) ''audioTrackIdInfoMap'' KindAudio) (\<lambda>audio_tracks.
     rbind (parse_track_map (map_of properties (ascii ''videoTrackIdInfoMap'')) ''videoTrackIdInfoMap'' KindVideo) (\<lambda>video_tracks.
       Inr \<lparr>pm_properties = properties, pm_audio_tracks = audio_tracks, pm_video_tracks = video_tracks\<rparr>))"

record validated_metadata =
  vd_message :: "bytes data_message"
  vd_interpretation :: "(parsed_metadata, metadata_reason) media_interpretation"

definition validated_metadata_parse ::
    "amf0_insert \<Rightarrow> amf0_sizes \<Rightarrow> bytes data_message \<Rightarrow> enhanced_validation_mode \<Rightarrow> metadata_reason + validated_metadata" where
  "validated_metadata_parse ins sizes message mode =
     (case rbind (map_error DecodeFailed (metadata ins sizes message)) (\<lambda>p. rbind (ok_or NoProperties p) parse_metadata) of
        Inr parsed \<Rightarrow> Inr \<lparr>vd_message = message, vd_interpretation = Parsed parsed\<rparr>
      | Inl reason \<Rightarrow>
          if mode = Passthrough then Inr \<lparr>vd_message = message, vd_interpretation = Opaque reason\<rparr> else Inl reason)"

definition validated_metadata_raw :: "validated_metadata \<Rightarrow> bytes" where
  "validated_metadata_raw v = dm_payload (vd_message v)"

section \<open>Labels come from fixed lists\<close>

lemma f64_bits_split: "unat w = (if f64_sign w then 2 ^ 63 else 0) + (f64_exponent w * 2 ^ 52 + f64_fraction w)"
proof -
  define n where "n = unat w"
  have n: "n < 2 ^ 64"
    unfolding n_def using unsigned_less [of w] by simp
  have f: "f64_fraction w = n mod 2 ^ 52"
    unfolding f64_fraction_def n_def unsigned_take_bit_eq by (simp add: take_bit_nat_def)
  have e: "f64_exponent w = n div 2 ^ 52 mod 2 ^ 11"
    unfolding f64_exponent_def unsigned_take_bit_eq unat_drop_bit_eq n_def [symmetric]
    by (simp add: take_bit_eq_mod drop_bit_eq_div)
  have "f64_sign w \<longleftrightarrow> odd (n div 2 ^ 63)"
    unfolding f64_sign_def n_def bit_iff_odd [symmetric] by (simp add: bit_unsigned_iff)
  moreover have "n div 2 ^ 63 < 2"
    using n by (simp add: less_mult_imp_div_less)
  ultimately have "(if f64_sign w then 2 ^ 63 else 0) = n div 2 ^ 63 * 2 ^ 63"
    by (cases "n div 2 ^ 63 = 0"; cases "n div 2 ^ 63 = 1") auto
  moreover have "n = n div 2 ^ 63 * 2 ^ 63 + (n div 2 ^ 52 mod 2 ^ 11 * 2 ^ 52 + n mod 2 ^ 52)"
    using nat_pieces [of n "2 ^ 52" "2 ^ 11"] by simp
  ultimately show ?thesis
    unfolding e f n_def [symmetric] by simp
qed

lemma f64_fraction_less: "f64_fraction w < 2 ^ 52"
  unfolding f64_fraction_def unsigned_take_bit_eq by (rule take_bit_nat_less_exp)

lemma bits_of_65535: "f64_of_int 65535 = 0x40EFFFE000000000"
  by code_simp

lemma dimension_bounds:
  assumes "f64_is_positive w" and "f64_integral w \<noteq> None" and "w \<le> f64_of_int 65535"
  shows "0 < f64_to_u32 w \<and> f64_to_u32 w \<le> 65535"
proof -
  let ?e = "f64_exponent w" and ?f = "f64_fraction w"
  have "unat w \<le> 0x40EFFFE000000000"
    using assms(3) unfolding bits_of_65535 word_le_nat_alt by simp
  moreover have s: "\<not> f64_sign w" and "w \<noteq> 0"
    using assms(1) by (auto simp: f64_is_positive_def)
  moreover from this have "unat w \<noteq> 0"
    by (simp add: unat_eq_zero)
  ultimately have le: "?e * 2 ^ 52 + ?f \<le> 0x40EFFFE000000000" and "?e \<noteq> 0 \<or> ?f \<noteq> 0"
    using f64_bits_split [of w] by auto
  then have e: "?e \<le> 1038" "1023 \<le> ?e"
    using assms(2) by (auto simp: f64_integral_def Let_def split: if_splits)
  define k where "k = 1075 - ?e"
  have k: "37 \<le> k" "k \<le> 52"
    using e by (auto simp: k_def)
  have "(2 ^ 52 + ?f) div 2 ^ k \<le> 65535"
  proof (cases "?e = 1038")
    case True
    then have "2 ^ 52 + ?f \<le> 65535 * 2 ^ 37 + (2 ^ 37 - 1)"
      using le by simp
    then have "(2 ^ 52 + ?f) div 2 ^ 37 \<le> (65535 * 2 ^ 37 + (2 ^ 37 - 1)) div 2 ^ 37"
      by (rule div_le_mono)
    then show ?thesis
      using True by (simp add: k_def)
  next
    case False
    then have "38 \<le> k"
      using e by (simp add: k_def)
    then have "(2 :: nat) ^ 38 \<le> 2 ^ k"
      by (intro power_increasing) auto
    then have "(2 ^ 52 + ?f) div 2 ^ k \<le> (2 ^ 52 + ?f) div 2 ^ 38"
      by (intro div_le_mono2) auto
    also have "\<dots> \<le> 65535"
      using f64_fraction_less [of w] by simp
    finally show ?thesis .
  qed
  moreover have "0 < (2 ^ 52 + ?f) div 2 ^ k"
  proof -
    have "(2 :: nat) ^ k \<le> 2 ^ 52"
      using k by (intro power_increasing) auto
    then show ?thesis
      by (simp add: div_greater_zero_iff)
  qed
  moreover have "f64_to_u32 w = word_of_nat ((2 ^ 52 + ?f) div 2 ^ k)"
    using e s by (simp add: f64_to_u32_def f64_is_nan_def k_def)
  moreover have "unat (word_of_nat n :: u32) = n" if "n \<le> 65535" for n
    using that by (simp add: unat_of_nat take_bit_nat_eq_self_iff)
  ultimately show ?thesis
    by (simp add: word_less_nat_alt word_le_nat_alt)
qed

definition CODEC_LABELS :: "track_kind \<Rightarrow> bytes set" where
  "CODEC_LABELS kind =
     (case kind of
        KindAudio \<Rightarrow> set AUDIO_FOURCCS \<union> ascii ` {''pcm'', ''adpcm'', ''mp3'', ''nellymoser'', ''mp4a'', ''speex''}
      | KindVideo \<Rightarrow> set VIDEO_FOURCCS \<union> ascii ` {''h263'', ''screen'', ''vp6'', ''vp6a'', ''screen2'', ''avc1'', ''hvc1'', ''av01''})"

lemma known_label: "known_fourcc f kind \<Longrightarrow> f \<in> CODEC_LABELS kind"
  by (auto simp: known_fourcc_def CODEC_LABELS_def split: track_kind.splits)

lemma canonical_known: "canonical_fourcc bs kind = Some f \<Longrightarrow> known_fourcc f kind"
  by (auto simp: canonical_fourcc_def split: if_splits)

lemma numeric_label:
  "(case kind of KindVideo \<Rightarrow> video_label n | KindAudio \<Rightarrow> audio_label n) = Some l \<Longrightarrow> ascii l \<in> CODEC_LABELS kind"
  by (auto simp: CODEC_LABELS_def video_label_def audio_label_def split: track_kind.splits if_splits)

lemma codec_name_label: "codec_name m field kind = Some l \<Longrightarrow> l \<in> CODEC_LABELS kind"
  by (auto simp: codec_name_def codec_label_def Let_def split: option.splits amf0_value.splits if_splits
      dest: numeric_label canonical_known known_label)

lemma vendor_label:
  assumes "normalize_encoder_vendor raw = Some l"
  shows "l \<in> insert (ascii ''other'') (ascii ` fst ` set ENCODER_VENDOR_TABLE)"
proof (cases "find (\<lambda>(vendor, prefixes, substrings).
    list_ex (\<lambda>p. prefix (ascii p) (to_ascii_lowercase (str_trim raw))) prefixes
    \<or> list_ex (\<lambda>s. sublist (ascii s) (to_ascii_lowercase (str_trim raw))) substrings) ENCODER_VENDOR_TABLE")
  case None
  then show ?thesis
    using assms by (auto simp: normalize_encoder_vendor_def Let_def split: if_splits)
next
  case (Some row)
  then have "row \<in> set ENCODER_VENDOR_TABLE"
    by (metis find_Some_iff nth_mem)
  moreover have "l = ascii (fst row)"
    using assms Some by (cases row) (auto simp: normalize_encoder_vendor_def Let_def split: if_splits)
  ultimately show ?thesis
    by auto
qed

lemma dimension_range: "dimension m field = Some n \<Longrightarrow> 0 < n \<and> n \<le> 65535"
  by (auto simp: dimension_def positive_number_def split: option.splits amf0_value.splits if_splits dest!: dimension_bounds)

text \<open>
  C39 (bounds). Whatever a publisher declares, the summary of its encoder, where computing it does not panic, only has labels of fixed lists (a known codec,
  a vendor of the table or \<open>other\<close>) and frame dimensions from 1 to 65535.
\<close>

theorem summary_labels_bounded:
  assumes "summarize_encoder m = Inr s"
  shows "set_option (es_video_codec s) \<subseteq> CODEC_LABELS KindVideo
    \<and> set_option (es_audio_codec s) \<subseteq> CODEC_LABELS KindAudio
    \<and> set_option (es_encoder_vendor s) \<subseteq> insert (ascii ''other'') (ascii ` fst ` set ENCODER_VENDOR_TABLE)
    \<and> (\<forall>n\<in>set_option (es_width s) \<union> set_option (es_height s). 0 < n \<and> n \<le> 65535)"
proof -
  obtain vendor where vendor: "encoder_vendor m = Inr vendor" "es_encoder_vendor s = vendor"
      "es_video_codec s = codec_name m ''videocodecid'' KindVideo" "es_audio_codec s = codec_name m ''audiocodecid'' KindAudio"
      "es_width s = dimension m ''width''" "es_height s = dimension m ''height''"
    using assms by (auto simp: summarize_encoder_def rbind_def split: sum.splits)
  have "l \<in> insert (ascii ''other'') (ascii ` fst ` set ENCODER_VENDOR_TABLE)" if "vendor = Some l" for l
    using vendor(1) that vendor_label by (auto simp: encoder_vendor_def rbind_def split: sum.splits bind_splits)
  then show ?thesis
    unfolding vendor(2-6) by (auto simp del: insert_iff dest: codec_name_label dimension_range)
qed

theorem summary_labels_bounded_witness:
  "\<exists>s. summarize_encoder \<lparr>pm_properties = [(ascii ''videocodecid'', A0Number (f64_of_int 7)), (ascii ''width'', A0Number (f64_of_int 1920)),
       (ascii ''encoder'', A0Utf8String (ascii '' Lavf58''))], pm_audio_tracks = Map.empty, pm_video_tracks = Map.empty\<rparr> = Inr s
     \<and> es_video_codec s = Some (ascii ''avc1'') \<and> es_width s = Some 1920 \<and> es_encoder_vendor s = Some (ascii ''ffmpeg'')
     \<and> ascii ''ffmpeg'' \<in> insert (ascii ''other'') (ascii ` fst ` set ENCODER_VENDOR_TABLE)"
proof -
  let ?m = "\<lparr>pm_properties = [(ascii ''videocodecid'', A0Number (f64_of_int 7)), (ascii ''width'', A0Number (f64_of_int 1920)),
       (ascii ''encoder'', A0Utf8String (ascii '' Lavf58''))], pm_audio_tracks = Map.empty, pm_video_tracks = Map.empty\<rparr>"
  let ?s = "\<lparr>es_video_codec = Some (ascii ''avc1''), es_audio_codec = None, es_width = Some 1920, es_height = None, es_framerate = None,
      es_encoder_vendor = Some (ascii ''ffmpeg'')\<rparr>"
  have "summarize_encoder ?m = Inr ?s"
    by code_simp
  then show ?thesis
    using summary_labels_bounded [of ?m ?s] by (intro exI [of _ ?s]) simp
qed

section \<open>Codec identifiers in either byte order\<close>

lemma reversed_unknown: "list_all (\<lambda>f. rev f \<notin> set AUDIO_FOURCCS) AUDIO_FOURCCS" "list_all (\<lambda>f. rev f \<notin> set VIDEO_FOURCCS) VIDEO_FOURCCS"
  by code_simp+

lemma fourcc_either_order:
  assumes "known_fourcc f kind"
  shows "canonical_fourcc f kind = Some f" and "canonical_fourcc (rev f) kind = Some f"
proof -
  show "canonical_fourcc f kind = Some f"
    using assms by (simp add: canonical_fourcc_def)
  have "\<not> known_fourcc (rev f) kind"
    using assms reversed_unknown by (auto simp: known_fourcc_def list_all_iff split: track_kind.splits)
  then show "canonical_fourcc (rev f) kind = Some f"
    using assms by (simp add: canonical_fourcc_def)
qed

section \<open>The encoder name\<close>

lemma encoder_panic_iff:
  "metadata_encoder m = Inl MetadataPanic \<longleftrightarrow>
     (\<exists>v. map_of (pm_properties m) (ascii ''encoder'') = Some (A0Utf8String v) \<and> 96 < length (str_trim v) \<and> utf8_cont (str_trim v ! 96))"
  by (auto simp: metadata_encoder_def string_truncate_def is_char_boundary_def MAX_ENCODER_LEN_def rbind_def Let_def
      split: option.splits amf0_value.splits)

lemma long_name_trimmed: "str_trim (replicate 95 97 @ [0xC3, 0xA9]) = replicate 95 97 @ [0xC3, 0xA9]"
  by code_simp

text \<open>An \<open>onMetaData\<close> message whose encoder name is 95 letters and a character of two bytes.\<close>

definition long_encoder_message :: "bytes data_message" where
  "long_encoder_message = \<lparr>dm_wire_type = DataAmf0, dm_timestamp = ts_new 0,
     dm_payload = [2, 0, 10] @ ascii ''onMetaData'' @ [3, 0, 7] @ ascii ''encoder''
       @ [2, 0, 97] @ replicate 95 97 @ [0xC3, 0xA9, 0, 0, 9]\<rparr>"

lemma long_encoder_parsed:
  "case validated_metadata_parse sample_insert sample_sizes0 long_encoder_message Strict of
     Inl _ \<Rightarrow> False
   | Inr v \<Rightarrow> (case vd_interpretation v of Opaque _ \<Rightarrow> False | Parsed p \<Rightarrow> summarize_encoder p = Inl MetadataPanic)"
  by code_simp

text \<open>
  C40 (error). The summary of metadata panics exactly when the \<open>encoder\<close> name, trimmed, is longer than 96 bytes and a
  character of it crosses byte 96, where the code truncates it. Strict parsing accepts metadata with such a name, also from the bytes
  of an \<open>onMetaData\<close> message.
\<close>

theorem encoder_truncation_panics:
  "(summarize_encoder m = Inl MetadataPanic \<longleftrightarrow>
      (\<exists>v. map_of (pm_properties m) (ascii ''encoder'') = Some (A0Utf8String v) \<and> 96 < length (str_trim v) \<and> utf8_cont (str_trim v ! 96)))
    \<and> (\<exists>v parsed. utf8_valid v \<and> parse_metadata [(ascii ''encoder'', A0Utf8String v)] = Inr parsed
         \<and> summarize_encoder parsed = Inl MetadataPanic)
    \<and> (\<exists>v parsed. validated_metadata_parse sample_insert sample_sizes0 long_encoder_message Strict = Inr v
         \<and> vd_interpretation v = Parsed parsed \<and> summarize_encoder parsed = Inl MetadataPanic)"
proof -
  have summary: "summarize_encoder m = Inl MetadataPanic \<longleftrightarrow> metadata_encoder m = Inl MetadataPanic" for m
    by (auto simp: summarize_encoder_def encoder_vendor_def rbind_def split: sum.splits)
  let ?v = "replicate 95 97 @ [0xC3, 0xA9] :: bytes"
  let ?p = "\<lparr>pm_properties = [(ascii ''encoder'', A0Utf8String ?v)], pm_audio_tracks = Map.empty, pm_video_tracks = Map.empty\<rparr>"
  have "parse_metadata [(ascii ''encoder'', A0Utf8String ?v)] = Inr ?p"
    by (simp add: parse_metadata_def parse_track_map_def rbind_def ascii_def)
  moreover have "utf8_valid ?v"
    by code_simp
  moreover have "metadata_encoder ?p = Inl MetadataPanic"
    unfolding encoder_panic_iff using long_name_trimmed by (simp add: nth_append utf8_cont_def)
  moreover have "\<exists>v parsed. validated_metadata_parse sample_insert sample_sizes0 long_encoder_message Strict = Inr v
      \<and> vd_interpretation v = Parsed parsed \<and> metadata_encoder parsed = Inl MetadataPanic"
    using long_encoder_parsed unfolding summary
    by (cases "validated_metadata_parse sample_insert sample_sizes0 long_encoder_message Strict")
      (auto split: media_interpretation.splits)
  ultimately show ?thesis
    unfolding summary encoder_panic_iff by blast
qed

end
