(* ===== verification/Spec2Isabelle.thy ===== *)
theory Spec2Isabelle
  imports Chunk_Roundtrip Amf3_Roundtrip Amf3_Safe Handshake_Exchange Message_Roundtrip Session_Metadata
    Server_Answers Client_Properties Elementary Metadata
begin

text \<open>
  A model of \<open>rtmpx\<close>, a sans-I/O implementation of the Real-Time Messaging Protocol in Rust, and the
  theorems that make it correct. All paths are relative to \<open>src/src/\<close> of the repository.

  \<^bold>\<open>The program.\<close> A peer first runs the handshake (\<open>handshake/\<close>). After it every message travels as
  chunks: \<open>chunk_io/serializer.rs\<close> turns a message into a packet of chunks with compressed headers,
  \<open>chunk_io/streaming.rs\<close> parses chunks and assembles messages from borrowed or owned reads,
  \<open>chunk_io/deserializer.rs\<close> does the same over one contiguous buffer. A message carries a 32-bit circular
  timestamp (\<open>time.rs\<close>) and a payload of reference-counted segments (\<open>payload.rs\<close>). Its body is one of
  the control messages or a command, data or media message (\<open>messages/\<close>); commands and data are AMF0 or
  AMF3 values (\<open>amf/\<close>), object graphs with sharing and cycles. A server or client session
  (\<open>sessions/\<close>) owns a decoder and an encoder, turns received messages into events and requests of the
  application into packets, and keeps a table of streams with generational handles. Media bodies are
  inspected by the FLV tag parser (\<open>flv.rs\<close>), which validated media (\<open>media.rs\<close>), elementary units
  (\<open>elementary.rs\<close>), typed metadata (\<open>metadata.rs\<close>) and the capabilities of a \<open>connect\<close> object
  (\<open>enhanced.rs\<close>) build on.

  \<^bold>\<open>Conventions.\<close> Machine integers are words (\<open>u8\<close> to \<open>u64\<close>), so arithmetic wraps where the code's
  does; \<open>usize\<close> is \<open>nat\<close> where a bound makes overflow impossible. Byte strings are lists of \<open>u8\<close>.
  Fallible functions return \<open>error + 'a\<close>, with the error on the left. A Rust panic (index out of range,
  \<open>unwrap\<close>) is an error value of its own, and the theorems show that it is not reached. Readers take and
  return the remaining input together with the decoder's state; writers return the bytes they append.
  A method on \<open>&mut self\<close> is a function from the state to the state it leaves and its result.
  Code of other crates is a parameter with its documented laws as named hypotheses: the capacity that
  \<open>BytesMut::reserve\<close> leaves, HMAC-SHA256 (\<open>mac\<close>), the random bytes (\<open>rng\<close>), insertion into an
  \<open>IndexMap\<close> (\<open>ins\<close>, \<open>ins_ok\<close>, \<open>index_insert_ok\<close>) and removal from one (\<open>shift_remove_ok\<close>), the clock of a
  session, and the memory sizes of the Rust types that budgets are charged with (\<open>sizes\<close>). Texts of error
  messages are values of a datatype.

  \<^bold>\<open>Theories.\<close>

  \<^item> \<open>Prelude\<close>: words and bytes (big- and little-endian integers), finite maps as association lists with
    the laws of a map, result combinators, generic list lemmas and the \<open>named_theorems\<close> collections.

  \<^item> \<open>Rtmp_Time\<close> (\<open>time.rs\<close>): circular timestamps; comparison is the circular order and agrees with
    elapsed time.

  \<^item> \<open>Payload\<close> (\<open>payload.rs\<close>): payloads, readers, views and the pool. The locale of segmented buffers
    is interpreted on slices, payloads and views; reading segments equals reading the concatenation, a
    chain of slices denotes list slices, the pool stays within its configuration.

  \<^item> \<open>Chunk_Parser\<close>, \<open>Chunk_Split\<close> (\<open>chunk_io/streaming.rs\<close>): the chunk parser, its invariant on
    arbitrary input, and the independence of its results from how the input is cut into reads.

  \<^item> \<open>Raw_Message\<close>, \<open>Message_Decoder\<close>, \<open>Contiguous_Decoder\<close>, \<open>Fragment_View\<close>, \<open>Decoder_Refine\<close>,
    \<open>Contiguous_Refine\<close>, \<open>Decoders\<close>, \<open>Decoder_Complete\<close>: the two decoders, both shown to deliver the
    messages that the parsed fragments denote (a locale of message delivery, interpreted on both), their
    accounting of buffered and reserved bytes, and termination of the documented decoding loop. The locale
    \<open>complete_assembler\<close> extends the contract: on messages that come one after the other and fit the limits
    \<open>MessageDecoder\<close> reports no error, however the stream is cut.

  \<^item> \<open>Chunk_Encoder\<close>, \<open>Packet_Wire\<close>, \<open>Chunk_Roundtrip\<close> (\<open>chunk_io/serializer.rs\<close>): header compression,
    packets under short and vectored writes, and the round trip from messages to chunks to messages, with
    droppable packets omitted and chunk sizes changed on the way, up to the messages a decoder on the other
    side delivers.

  \<^item> \<open>Control_Messages\<close>, \<open>Rtmp_Messages\<close>, \<open>Message_Roundtrip\<close> (\<open>messages/\<close>, \<open>amf/mod.rs\<close>): the messages, the
    bodies of the control messages, the AMF bodies under both format selectors and the dispatch between raw
    and interpreted messages; a message survives being built and interpreted, and no body makes it panic
    (\<open>Vec::remove\<close> on an empty vector is a panic value that the length checks exclude).

  \<^item> \<open>Amf_Value\<close> (\<open>amf/mod.rs\<close>): the trait both encodings implement, its operations as a record and its laws
    as the locale \<open>amf_value\<close>, interpreted on both; stream ids and status objects read the same in either.

  \<^item> \<open>Amf_Common\<close>, \<open>Amf_Graph\<close>, \<open>Graph_Copy\<close> (\<open>amf/common.rs\<close>, \<open>amf/graph.rs\<close>): limits, primitive reads
    and writes, IEEE doubles as 64-bit words, UTF-8 validity, documents, and the bounded expansion of a
    graph to trees. The locale \<open>graph_value\<close> holds what a value type promises; \<open>graph_shape\<close> extends it for
    the relation of a document with its copy.

  \<^item> \<open>Amf3\<close>, \<open>Amf3_Tree\<close>, \<open>Amf3_Tables\<close>, \<open>Amf3_Codes\<close>, \<open>Amf3_Nodes\<close>, \<open>Amf3_Roundtrip\<close>, \<open>Amf3_Growth\<close>,
    \<open>Reader_Safety\<close>, \<open>Amf3_Safe\<close> (\<open>amf/amf3.rs\<close>): the AMF3 codec. The round trip is a simulation between the
    encoder's and the decoder's tables (\<open>in_step\<close>, \<open>codes\<close>); safety on arbitrary bytes is the locale
    \<open>reader_safety\<close>, interpreted on the decoder.

  \<^item> \<open>Amf0\<close>, \<open>Amf0_Tree\<close>, \<open>Amf0_Safe\<close>, \<open>Amf0_Codes\<close>, \<open>Amf0_Nodes\<close>, \<open>Amf0_Roundtrip\<close>
    (\<open>amf/amf0.rs\<close>): the AMF0 codec, with the same simulation over both of its arenas, its
    embedded AMF3 values, and the conversions between the two value models.

  \<^item> \<open>Writer_Safety\<close>: neither AMF encoder reaches the \<open>unreachable!()\<close> arm of its match on references.

  \<^item> \<open>Handshake\<close>, \<open>Handshake_Exchange\<close> (\<open>handshake/\<close>): the state machine of an endpoint, its outcome on
    any bytes and any cuts, and the exchange of two endpoints.

  \<^item> \<open>Session_Monad\<close>, \<open>Session_Streams\<close>, \<open>Session_Values\<close>, \<open>Session_Metadata\<close> (\<open>sessions/\<close>): sequencing with
    \<open>?\<close> and its weakest preconditions; the stream table, whose deleted handles stay dead (locale \<open>handle_table\<close>);
    numbers, publish modes, script data and the metadata record, which survives the wire.

  \<^item> \<open>Session_Decode\<close>, \<open>Session_Loop\<close>: the receive loop of both sessions as the locale \<open>receive_loop\<close>: what
    a handler has to keep so that the loop returns and preserves the invariant.

  \<^item> \<open>Server_Session\<close>, \<open>Server_Invariant\<close>, \<open>Server_Properties\<close>, \<open>Server_Answers\<close> (\<open>sessions/server/\<close>): the server,
    every handler and request; reachable sessions are consistent, do not panic and fail for good, a request
    is answered once, media of a publishing stream are delivered unchanged.

  \<^item> \<open>Client_Session\<close>, \<open>Client_Invariant\<close>, \<open>Client_Properties\<close> (\<open>sessions/client/\<close>): the client, with the same
    results and the life cycle of its streams.

  \<^item> \<open>Flv\<close>, \<open>Flv_Refine\<close> (\<open>flv.rs\<close>): the tag parser over any storage. The locale \<open>media_data\<close> extends that of
    segmented buffers by slicing; \<open>media_body\<close> relates a run of the parser over a storage with a run over the
    contiguous bytes, and is interpreted on bytes and on views.

  \<^item> \<open>Enhanced\<close>, \<open>Media\<close>, \<open>Elementary\<close>, \<open>Metadata\<close> (\<open>enhanced.rs\<close>, \<open>media.rs\<close>, \<open>elementary.rs\<close>,
    \<open>metadata.rs\<close>): strict and passthrough validation (strict mode admits every legacy tag that parses),
    classification, elementary units as slices of the message with their keyframe flags against the
    classification, track maps, the labels of an encoder summary and the name whose truncation panics.

  \<^bold>\<open>Fuel and bounds.\<close> Loops are recursive functions with termination proofs (input that shrinks, depth
  below \<open>MAX_DEPTH\<close>, room below a limit). The others take fuel: \<open>install\<close> gets one more than the depth
  limit, and the expansion theorems show that it then always returns; \<open>parse_properties\<close> gets one more
  than the bytes left, and every iteration reads at least two bytes, so \<open>A0OutOfFuel\<close> is not returned; the
  receive loops of the sessions get two more than the bytes of the input, since a decoded message uses up
  input or buffered header bytes; the loops of the tag parser get one more than the bytes left, and every
  iteration reads a byte. For each of these it is shown that the fuel suffices.

  \<^bold>\<open>Not modelled.\<close> Reference counting of \<open>Bytes\<close> and the locks of the pool (not observable), formatting
  of error messages and \<open>Debug\<close> output, the builders of the session configurations (assignments of one
  field), re-exports (\<open>lib.rs\<close>), the macros of \<open>test_utils/\<close>, examples and tests. A view or a segmented payload of
  media is modelled where its segmentation matters (\<open>payload.rs\<close>, \<open>flv.rs\<close>); script data are their bytes.
\<close>

end
